(* ===== verification/Prelude.thy ===== *)
theory Prelude
  imports Main
begin

text \<open>
  What every component of the development shares.

  \<^item> Go errors: \<open>go_error\<close> keeps the format string and the arguments of an
    \<open>fmt.Errorf\<close> call, the wrapped errors of a \<open>%w\<close> verb, an \<open>errors.Join\<close> and
    the sentinel values of \<open>errors.New\<close>; \<open>errors_is\<close> is \<open>errors.Is\<close>.
  \<^item> Methods with a pointer receiver: \<open>'s update\<close> returns the error (or \<open>None\<close>, Go's
    nil) together with the receiver as the method leaves it, also when it fails, so that
    a half done mutation is visible in the model.
  \<^item> The loops over a slice that stop at the first element with a given ID
    (\<open>update_first\<close>) and their laws.
  \<^item> The contract of the program's transition tables (locale \<open>status_machine\<close>).
\<close>

section \<open>Errors\<close>

datatype go_arg = GStr string | GInt int

datatype go_error =
    Errorf string "go_arg list"
  | Wrapf string "go_arg list" "go_error list"
  | JoinErr "go_error list"
  | Sentinel string

text \<open>\<open>errors.Is\<close> against a sentinel: the error itself or anything it wraps or joins.\<close>

fun errors_is :: "go_error \<Rightarrow> string \<Rightarrow> bool" where
  "errors_is (Errorf f args) target = False"
| "errors_is (Wrapf f args es) target = list_ex (\<lambda>e. errors_is e target) es"
| "errors_is (JoinErr es) target = list_ex (\<lambda>e. errors_is e target) es"
| "errors_is (Sentinel name) target = (name = target)"

text \<open>\<open>errors.Join\<close> of a slice of non-nil errors: nil when there is none.\<close>

definition join_errors :: "go_error list \<Rightarrow> go_error option" where
  "join_errors es = (if es = [] then None else Some (JoinErr es))"

lemma join_errors_None [simp]: "join_errors es = None \<longleftrightarrow> es = []"
  by (simp add: join_errors_def)

section \<open>Methods that mutate their receiver\<close>

type_synonym 's update = "'s \<Rightarrow> go_error option \<times> 's"

text \<open>\<open>if err := f(); err != nil { return err }; return g()\<close>.\<close>

definition then_do :: "'s update \<Rightarrow> 's update \<Rightarrow> 's update" where
  "then_do f g s = (case f s of (Some e, s') \<Rightarrow> (Some e, s') | (None, s') \<Rightarrow> g s')"

text \<open>
  An update is \<open>atomic\<close> when a failure leaves the receiver as it was, and \<open>keeps P\<close>
  when a success preserves \<open>P\<close>.
\<close>

definition atomic :: "'s update \<Rightarrow> bool" where
  "atomic f \<longleftrightarrow> (\<forall>s e s'. f s = (Some e, s') \<longrightarrow> s' = s)"

definition keeps :: "('s \<Rightarrow> bool) \<Rightarrow> 's update \<Rightarrow> bool" where
  "keeps P f \<longleftrightarrow> (\<forall>s s'. P s \<longrightarrow> f s = (None, s') \<longrightarrow> P s')"

lemma atomicI: "(\<And>s e s'. f s = (Some e, s') \<Longrightarrow> s' = s) \<Longrightarrow> atomic f"
  by (auto simp: atomic_def)

lemma atomicD: "atomic f \<Longrightarrow> f s = (Some e, s') \<Longrightarrow> s' = s"
  by (auto simp: atomic_def)

lemma keepsI: "(\<And>s s'. P s \<Longrightarrow> f s = (None, s') \<Longrightarrow> P s') \<Longrightarrow> keeps P f"
  by (auto simp: keeps_def)

lemma keepsD: "keeps P f \<Longrightarrow> f s = (None, s') \<Longrightarrow> P s \<Longrightarrow> P s'"
  by (auto simp: keeps_def)

lemma then_do_None_iff:
  "then_do f g s = (None, t) \<longleftrightarrow> (\<exists>s'. f s = (None, s') \<and> g s' = (None, t))"
  by (auto simp: then_do_def split: prod.splits option.splits)

lemma then_do_NoneE:
  assumes "then_do f g s = (None, t)"
  obtains s' where "f s = (None, s')" and "g s' = (None, t)"
  using assms by (auto simp: then_do_None_iff)

lemma then_do_Some_iff:
  "then_do f g s = (Some e, t) \<longleftrightarrow>
     f s = (Some e, t) \<or> (\<exists>s'. f s = (None, s') \<and> g s' = (Some e, t))"
  by (auto simp: then_do_def split: prod.splits option.splits)

lemma keeps_then_do:
  assumes f: "keeps P f" and g: "keeps P g"
  shows "keeps P (then_do f g)"
  by (rule keepsI, erule then_do_NoneE) (blast intro: keepsD [OF f] keepsD [OF g])

section \<open>Loops over a slice\<close>

text \<open>
  \<open>for i := range xs { if xs[i].ID != id { continue }; return f(&xs[i]) }; return nf\<close>:
  the first match is changed in place, and \<open>nf\<close> is the error of a list without one.
\<close>

fun update_first :: "('a \<Rightarrow> bool) \<Rightarrow> 'a update \<Rightarrow> go_error \<Rightarrow> 'a list update" where
  "update_first p f nf [] = (Some nf, [])"
| "update_first p f nf (x # xs) =
     (if p x then (let (e, x') = f x in (e, x' # xs))
      else (let (e, xs') = update_first p f nf xs in (e, x # xs')))"

lemma update_first_miss: "\<not> (\<exists>x \<in> set xs. p x) \<Longrightarrow> update_first p f nf xs = (Some nf, xs)"
  by (induction xs) auto

lemma update_first_hit:
  assumes "\<forall>y \<in> set ys. \<not> p y" and "p x"
  shows "update_first p f nf (ys @ x # zs) = (fst (f x), ys @ snd (f x) # zs)"
  using assms by (induction ys) (auto simp: case_prod_beta)

lemma split_at_first:
  assumes "\<exists>x \<in> set xs. p x"
  obtains ys x zs where "xs = ys @ x # zs" and "\<forall>y \<in> set ys. \<not> p y" and "p x"
  using assms split_list_first_prop [of xs p] by auto

lemma update_first_cases:
  assumes "update_first p f nf xs = (r, xs')"
  obtains (miss) "\<forall>x \<in> set xs. \<not> p x" "r = Some nf" "xs' = xs"
  | (hit) ys x zs x' where "xs = ys @ x # zs" "\<forall>y \<in> set ys. \<not> p y" "p x"
      "f x = (r, x')" "xs' = ys @ x' # zs"
proof (cases "\<exists>x \<in> set xs. p x")
  case True
  then obtain ys x zs where *: "xs = ys @ x # zs" "\<forall>y \<in> set ys. \<not> p y" "p x"
    by (rule split_at_first)
  with assms have "f x = (r, snd (f x))" "xs' = ys @ snd (f x) # zs"
    by (auto simp: update_first_hit prod_eq_iff)
  with * show ?thesis by (rule hit)
next
  case False
  with assms show ?thesis by (intro miss) (auto simp: update_first_miss)
qed

lemma update_first_map:
  assumes "\<And>x. h (snd (f x)) = h x"
  shows "map h (snd (update_first p f nf xs)) = map h xs"
  using assms by (induction xs) (auto simp: case_prod_beta)

lemma update_first_length [simp]: "length (snd (update_first p f nf xs)) = length xs"
  by (induction xs) (auto simp: case_prod_beta)

lemma update_first_atomic: "atomic f \<Longrightarrow> atomic (update_first p f nf)"
  by (rule atomicI, erule update_first_cases) (auto dest: atomicD)

lemma update_first_all:
  assumes "update_first p f nf xs = (None, xs')" and "\<forall>x \<in> set xs. P x"
    and "\<And>x x'. P x \<Longrightarrow> f x = (None, x') \<Longrightarrow> P x'"
  shows "\<forall>x \<in> set xs'. P x"
  using assms(1) by (rule update_first_cases) (use assms in auto)

text \<open>The read-only loop is the library's \<open>find\<close>; \<open>find_by\<close> adds Go's error.\<close>

definition find_by :: "('a \<Rightarrow> bool) \<Rightarrow> go_error \<Rightarrow> 'a list \<Rightarrow> go_error + 'a" where
  "find_by p nf xs = (case find p xs of None \<Rightarrow> Inl nf | Some x \<Rightarrow> Inr x)"

lemma find_by_Inr: "find_by p nf xs = Inr x \<Longrightarrow> x \<in> set xs \<and> p x"
  by (auto simp: find_by_def find_Some_iff split: option.splits)

lemma find_by_Inl: "find_by p nf xs = Inl e \<longleftrightarrow> e = nf \<and> \<not> (\<exists>x \<in> set xs. p x)"
  by (auto simp: find_by_def find_None_iff find_Some_iff split: option.splits)

lemma find_distinct_key:
  assumes "distinct (map key xs)" and "x \<in> set xs"
  shows "find (\<lambda>y. key y = key x) xs = Some x"
  using assms by (induction xs) auto

lemma distinct_map_unique:
  "distinct (map key xs) \<Longrightarrow> x \<in> set xs \<Longrightarrow> y \<in> set xs \<Longrightarrow> key x = key y \<Longrightarrow> x = y"
  by (meson distinct_map inj_onD)

lemma map_append_Cons_update:
  "map h (ys @ x' # zs) = map h (ys @ x # zs) \<longleftrightarrow> h x' = h x"
  by simp

text \<open>\<open>for _, x := range xs { if err := f(x); err != nil { return err } }; return nil\<close>.\<close>

fun first_error :: "('a \<Rightarrow> go_error option) \<Rightarrow> 'a list \<Rightarrow> go_error option" where
  "first_error f [] = None"
| "first_error f (x # xs) = (case f x of Some e \<Rightarrow> Some e | None \<Rightarrow> first_error f xs)"

lemma first_error_None: "first_error f xs = None \<longleftrightarrow> (\<forall>x \<in> set xs. f x = None)"
  by (induction xs) (auto split: option.splits)

lemma first_error_append:
  "first_error f (xs @ ys) = (case first_error f xs of Some e \<Rightarrow> Some e | None \<Rightarrow> first_error f ys)"
  by (induction xs) (auto split: option.splits)

section \<open>Transition tables\<close>

text \<open>
  Epics, issues, pull requests and agent runs each move along a table
  \<open>func t(status, event) (status, bool)\<close>. What their clients rely on is that a
  terminal status answers no event.
\<close>

fun run_events :: "('s \<Rightarrow> 'e \<Rightarrow> 's option) \<Rightarrow> 's \<Rightarrow> 'e list \<Rightarrow> 's option" where
  "run_events step s [] = Some s"
| "run_events step s (e # es) =
     (case step s e of None \<Rightarrow> None | Some s' \<Rightarrow> run_events step s' es)"

lemma run_events_append:
  "run_events step s (es @ fs) =
     (case run_events step s es of None \<Rightarrow> None | Some t \<Rightarrow> run_events step t fs)"
  by (induction es arbitrary: s) (auto split: option.splits)

locale status_machine =
  fixes step :: "'s \<Rightarrow> 'e \<Rightarrow> 's option"
    and terminal :: "'s \<Rightarrow> bool"
  assumes terminal_stuck: "terminal s \<Longrightarrow> step s e = None"
begin

lemma terminal_run: "terminal s \<Longrightarrow> run_events step s es = Some t \<Longrightarrow> es = [] \<and> t = s"
  by (cases es) (auto simp: terminal_stuck)

lemma step_from_live: "step s e = Some t \<Longrightarrow> \<not> terminal s"
  using terminal_stuck by fastforce

lemma run_live_prefix:
  assumes "run_events step s (es @ e # fs) = Some t"
  shows "\<exists>u. run_events step s es = Some u \<and> \<not> terminal u"
  using assms step_from_live by (fastforce simp: run_events_append split: option.splits)

end

text \<open>A machine that is also ranked: every step moves up, so no run is longer than the rank.\<close>

locale ranked_machine = status_machine +
  fixes rank :: "'s \<Rightarrow> nat"
  assumes step_rank: "step s e = Some t \<Longrightarrow> rank s < rank t"
begin

lemma run_rank: "run_events step s es = Some t \<Longrightarrow> rank s + length es \<le> rank t"
proof (induction es arbitrary: s)
  case Nil
  then show ?case by simp
next
  case (Cons e es)
  then obtain u where "step s e = Some u" "run_events step u es = Some t"
    by (auto split: option.splits)
  with Cons.IH step_rank show ?case by fastforce
qed

lemma no_return: "run_events step s es = Some s \<Longrightarrow> es = []"
  using run_rank [of s es s] by simp

end

end
