(* ===== verification/Go_Strings.thy ===== *)
theory Go_Strings
  imports Prelude "HOL-Library.Sublist"
begin

text \<open>
  Go strings and the part of package \<open>strings\<close> the program uses. A Go string is a
  sequence of bytes, a HOL \<open>string\<close> a list of 8-bit \<open>char\<close>s, so the two agree byte
  for byte. \<open>for _, r := range s\<close> and \<open>strings.TrimSpace\<close> read a string as UTF-8:
  \<open>runes s\<close> is that segmentation, each segment a code point with the bytes it was
  decoded from, an invalid byte being a segment of width one that decodes to U+FFFD, as the
  language specifies.
\<close>

section \<open>UTF-8\<close>

definition rune_error :: nat where
  "rune_error = 65533"

definition byte :: "char \<Rightarrow> nat" where
  "byte c = of_char c"

definition in_range :: "nat \<Rightarrow> nat \<Rightarrow> nat \<Rightarrow> bool" where
  "in_range lo hi n \<longleftrightarrow> lo \<le> n \<and> n \<le> hi"

definition seq2 :: "nat \<Rightarrow> nat \<Rightarrow> bool" where
  "seq2 b0 b1 \<longleftrightarrow> in_range 194 223 b0 \<and> in_range 128 191 b1"

definition seq3 :: "nat \<Rightarrow> nat \<Rightarrow> nat \<Rightarrow> bool" where
  "seq3 b0 b1 b2 \<longleftrightarrow> in_range 224 239 b0 \<and>
     in_range (if b0 = 224 then 160 else 128) (if b0 = 237 then 159 else 191) b1 \<and>
     in_range 128 191 b2"

definition seq4 :: "nat \<Rightarrow> nat \<Rightarrow> nat \<Rightarrow> nat \<Rightarrow> bool" where
  "seq4 b0 b1 b2 b3 \<longleftrightarrow> in_range 240 244 b0 \<and>
     in_range (if b0 = 240 then 144 else 128) (if b0 = 244 then 143 else 191) b1 \<and>
     in_range 128 191 b2 \<and> in_range 128 191 b3"

text \<open>The first segment of a string whose first byte is \<open>c\<close>, with the rest.\<close>

fun first_rune :: "char \<Rightarrow> string \<Rightarrow> (nat \<times> string) \<times> string" where
  "first_rune c cs =
     (if byte c < 128 then ((byte c, [c]), cs)
      else (case cs of
        c1 # c2 # c3 # r3 \<Rightarrow>
          if seq2 (byte c) (byte c1) then
            (((byte c - 192) * 64 + (byte c1 - 128), [c, c1]), c2 # c3 # r3)
          else if seq3 (byte c) (byte c1) (byte c2) then
            (((byte c - 224) * 4096 + (byte c1 - 128) * 64 + (byte c2 - 128), [c, c1, c2]), c3 # r3)
          else if seq4 (byte c) (byte c1) (byte c2) (byte c3) then
            (((byte c - 240) * 262144 + (byte c1 - 128) * 4096 + (byte c2 - 128) * 64
                + (byte c3 - 128), [c, c1, c2, c3]), r3)
          else ((rune_error, [c]), cs)
      | [c1, c2] \<Rightarrow>
          if seq2 (byte c) (byte c1) then
            (((byte c - 192) * 64 + (byte c1 - 128), [c, c1]), [c2])
          else if seq3 (byte c) (byte c1) (byte c2) then
            (((byte c - 224) * 4096 + (byte c1 - 128) * 64 + (byte c2 - 128), [c, c1, c2]), [])
          else ((rune_error, [c]), cs)
      | [c1] \<Rightarrow>
          if seq2 (byte c) (byte c1) then
            (((byte c - 192) * 64 + (byte c1 - 128), [c, c1]), [])
          else ((rune_error, [c]), cs)
      | [] \<Rightarrow> ((rune_error, [c]), [])))"

declare first_rune.simps [simp del]

lemma first_rune_bytes:
  "first_rune c cs = ((r, bs), rest) \<Longrightarrow> c # cs = bs @ rest \<and> (\<exists>bs'. bs = c # bs')"
  by (auto simp: first_rune.simps split: if_splits list.splits)

lemma first_rune_shrinks: "length (snd (first_rune c cs)) < Suc (length cs)"
  by (auto simp: first_rune.simps split: list.splits)

function runes :: "string \<Rightarrow> (nat \<times> string) list" where
  "runes [] = []"
| "runes (c # cs) = fst (first_rune c cs) # runes (snd (first_rune c cs))"
  by pat_completeness auto
termination
  by (relation "measure length") (use first_rune_shrinks in auto)

text \<open>The code points a \<open>range\<close> loop sees.\<close>

definition code_points :: "string \<Rightarrow> nat list" where
  "code_points s = map fst (runes s)"

text \<open>\<open>WriteRune\<close>: the UTF-8 bytes of a code point, those of U+FFFD for an invalid one.\<close>

definition encode_rune :: "nat \<Rightarrow> string" where
  "encode_rune r =
     (let r = (if 1114111 < r \<or> (55296 \<le> r \<and> r \<le> 57343) then rune_error else r)
      in if r < 128 then [char_of r]
         else if r < 2048 then [char_of (192 + r div 64), char_of (128 + r mod 64)]
         else if r < 65536 then
           [char_of (224 + r div 4096), char_of (128 + r div 64 mod 64), char_of (128 + r mod 64)]
         else
           [char_of (240 + r div 262144), char_of (128 + r div 4096 mod 64),
            char_of (128 + r div 64 mod 64), char_of (128 + r mod 64)])"

definition valid_utf8 :: "string \<Rightarrow> bool" where
  "valid_utf8 s \<longleftrightarrow> list_all (\<lambda>(r, bs). \<not> (r = rune_error \<and> length bs = 1)) (runes s)"

lemma concat_runes: "concat (map snd (runes s)) = s"
proof (induction s rule: runes.induct)
  case 1
  then show ?case by simp
next
  case (2 c cs)
  obtain r bs rest where f: "first_rune c cs = ((r, bs), rest)"
    by (metis prod.exhaust)
  with 2 have "concat (map snd (runes rest)) = rest" by simp
  with f have "concat (map snd (runes (c # cs))) = bs @ rest" by simp
  with first_rune_bytes [OF f] show ?case by simp
qed

lemma runes_ascii_Cons: "byte c < 128 \<Longrightarrow> runes (c # cs) = (byte c, [c]) # runes cs"
  by (simp add: first_rune.simps)

definition is_ascii :: "string \<Rightarrow> bool" where
  "is_ascii s \<longleftrightarrow> list_all (\<lambda>c. byte c < 128) s"

lemma is_ascii_simps [simp]:
  "is_ascii []" "is_ascii (c # cs) \<longleftrightarrow> byte c < 128 \<and> is_ascii cs"
  "is_ascii (s @ t) \<longleftrightarrow> is_ascii s \<and> is_ascii t"
  by (auto simp: is_ascii_def)

lemma runes_ascii: "is_ascii s \<Longrightarrow> runes s = map (\<lambda>c. (byte c, [c])) s"
  by (induction s) (auto simp: runes_ascii_Cons simp del: runes.simps(2))

lemma code_points_ascii: "is_ascii s \<Longrightarrow> code_points s = map byte s"
  by (simp add: code_points_def runes_ascii)

lemma valid_utf8_ascii: "is_ascii s \<Longrightarrow> valid_utf8 s"
  by (auto simp: valid_utf8_def runes_ascii list_all_iff rune_error_def is_ascii_def)

lemma byte_bound: "byte c < 256"
  by (simp add: byte_def)

lemma char_of_byte [simp]: "char_of (byte c) = c"
  by (simp add: byte_def)

lemma byte_char_of: "n < 256 \<Longrightarrow> byte (char_of n) = n"
  by (simp add: byte_def)

lemma byte_inject: "byte c = byte d \<longleftrightarrow> c = d"
  by (simp add: byte_def)


text \<open>Decoding and re-encoding a valid segment gives back its bytes.\<close>

lemma encode_seq2:
  assumes "seq2 (byte c) (byte d)"
  shows "encode_rune ((byte c - 192) * 64 + (byte d - 128)) = [c, d]"
proof -
  define x y where "x = byte c - 192" and "y = byte d - 128"
  have b: "byte c = 192 + x" "byte d = 128 + y" "2 \<le> x" "x < 32" "y < 64"
    using assms by (auto simp: seq2_def in_range_def x_def y_def)
  then have e: "(x * 64 + y) div 64 = x" "(x * 64 + y) mod 64 = y" "\<not> x * 64 + y < 128"
    "x * 64 + y < 2048" by auto
  have "char_of (192 + x) = c" "char_of (128 + y) = d" using b by (metis char_of_byte)+
  with b e show ?thesis by (simp add: encode_rune_def)
qed

lemma digits64:
  fixes x y :: nat
  assumes "y < 64"
  shows "(x * 64 + y) div 64 = x" and "(x * 64 + y) mod 64 = y"
  using assms by auto

lemma encode_seq3:
  assumes "seq3 (byte c) (byte d) (byte e)"
  shows "encode_rune ((byte c - 224) * 4096 + (byte d - 128) * 64 + (byte e - 128)) = [c, d, e]"
proof -
  define x y z where "x = byte c - 224" and "y = byte d - 128" and "z = byte e - 128"
  have b: "byte c = 224 + x" "byte d = 128 + y" "byte e = 128 + z" "x < 16" "y < 64" "z < 64"
    and lo: "x = 0 \<Longrightarrow> 32 \<le> y" and hi: "x = 13 \<Longrightarrow> y < 32"
    using assms by (auto simp: seq3_def in_range_def x_def y_def z_def split: if_splits)
  define r where "r = x * 4096 + y * 64 + z"
  have r: "r = (x * 64 + y) * 64 + z" by (simp add: r_def)
  have d: "r div 64 = x * 64 + y" "r mod 64 = z"
    unfolding r using digits64 [OF b(6)] by blast+
  have "r div 4096 = r div 64 div 64" by (simp add: div_mult2_eq [symmetric])
  with d digits64 [OF b(5)] have "r div 4096 = x" "r div 64 mod 64 = y" by simp_all
  note digits = this d(2)
  have "2048 \<le> r" "r < 65536" using b(4-6) lo unfolding r_def by (cases "x = 0"; simp)+
  moreover have "\<not> (55296 \<le> r \<and> r \<le> 57343)"
    using b(4-6) hi by (cases "x = 13") (auto simp: r_def)
  moreover have "char_of (224 + x) = c" "char_of (128 + y) = d" "char_of (128 + z) = e"
    using b by (metis char_of_byte)+
  ultimately have "encode_rune r = [c, d, e]" using digits by (auto simp: encode_rune_def)
  with b show ?thesis by (simp add: r_def)
qed

lemma encode_seq4:
  assumes "seq4 (byte c) (byte d) (byte e) (byte f)"
  shows "encode_rune ((byte c - 240) * 262144 + (byte d - 128) * 4096 + (byte e - 128) * 64
           + (byte f - 128)) = [c, d, e, f]"
proof -
  define w x y z where "w = byte c - 240" and "x = byte d - 128" and "y = byte e - 128"
    and "z = byte f - 128"
  have b: "byte c = 240 + w" "byte d = 128 + x" "byte e = 128 + y" "byte f = 128 + z"
    "w < 5" "x < 64" "y < 64" "z < 64"
    and lo: "w = 0 \<Longrightarrow> 16 \<le> x" and hi: "w = 4 \<Longrightarrow> x < 16"
    using assms by (auto simp: seq4_def in_range_def w_def x_def y_def z_def split: if_splits)
  define r where "r = w * 262144 + x * 4096 + y * 64 + z"
  have r: "r = ((w * 64 + x) * 64 + y) * 64 + z" by (simp add: r_def)
  have d: "r div 64 = (w * 64 + x) * 64 + y" "r mod 64 = z"
    unfolding r using digits64 [OF b(8)] by blast+
  have "r div 4096 = r div 64 div 64" by (simp add: div_mult2_eq [symmetric])
  then have d2: "r div 4096 = w * 64 + x" "r div 64 mod 64 = y"
    using d(1) digits64 [OF b(7), of "w * 64 + x"] by (simp_all only:)
  have "r div 262144 = r div 4096 div 64" by (simp add: div_mult2_eq [symmetric])
  with d2 digits64 [OF b(6)] have "r div 262144 = w" "r div 4096 mod 64 = x" by simp_all
  note digits = this d2(2) d(2)
  have "65536 \<le> r" using b(5-8) lo unfolding r_def by (cases "w = 0"; simp)
  moreover have "r \<le> 1114111" using b(5-8) hi unfolding r_def by (cases "w = 4"; simp)
  moreover have "char_of (240 + w) = c" "char_of (128 + x) = d" "char_of (128 + y) = e"
    "char_of (128 + z) = f"
    using b by (metis char_of_byte)+
  ultimately have "encode_rune r = [c, d, e, f]" using digits by (auto simp: encode_rune_def)
  with b show ?thesis by (simp add: r_def)
qed

lemma encode_first_rune:
  assumes "first_rune c cs = ((r, bs), rest)" and "\<not> (r = rune_error \<and> length bs = 1)"
  shows "encode_rune r = bs"
proof (cases "byte c < 128")
  case True
  with assms show ?thesis by (auto simp: first_rune.simps encode_rune_def)
next
  case False
  with assms show ?thesis
    by (auto simp: first_rune.simps encode_seq2 encode_seq3 encode_seq4
        split: list.splits if_splits)
qed

lemma encode_code_points:
  assumes "valid_utf8 s"
  shows "concat (map encode_rune (code_points s)) = s"
proof -
  have "map encode_rune (map fst (runes s)) = map snd (runes s)"
    using assms unfolding valid_utf8_def
  proof (induction s rule: runes.induct)
    case 1
    then show ?case by simp
  next
    case (2 c cs)
    obtain r bs rest where f: "first_rune c cs = ((r, bs), rest)" by (metis prod.exhaust)
    with 2 have "encode_rune r = bs" by (intro encode_first_rune [OF f]) auto
    with 2 f show ?case by simp
  qed
  then show ?thesis by (simp only: code_points_def concat_runes)
qed

section \<open>Trimming\<close>

text \<open>\<open>unicode.IsSpace\<close>.\<close>

definition is_space :: "nat \<Rightarrow> bool" where
  "is_space r \<longleftrightarrow> in_range 9 13 r \<or> r = 32 \<or> r = 133 \<or> r = 160 \<or> r = 5760 \<or>
     in_range 8192 8202 r \<or> r = 8232 \<or> r = 8233 \<or> r = 8239 \<or> r = 8287 \<or> r = 12288"

text \<open>Dropping from both ends, the shape of \<open>TrimFunc\<close> and \<open>Trim\<close>.\<close>

definition strip :: "('a \<Rightarrow> bool) \<Rightarrow> 'a list \<Rightarrow> 'a list" where
  "strip p xs = rev (dropWhile p (rev (dropWhile p xs)))"

definition trim_space :: "string \<Rightarrow> string" where
  "trim_space s = concat (map snd (strip (\<lambda>(r, bs). is_space r) (runes s)))"

definition trim_char :: "char \<Rightarrow> string \<Rightarrow> string" where
  "trim_char c s = strip (\<lambda>x. x = c) s"

lemma strip_ends:
  assumes "strip p xs \<noteq> []"
  shows "\<not> p (hd (strip p xs))" and "\<not> p (last (strip p xs))"
proof -
  define ys where "ys = dropWhile p xs"
  have d: "dropWhile p (rev ys) \<noteq> []" using assms by (simp add: strip_def ys_def)
  have "last (rev (dropWhile p (rev ys))) = hd (dropWhile p (rev ys))" using d by (simp add: last_rev)
  with hd_dropWhile [OF d] show "\<not> p (last (strip p xs))" by (simp add: strip_def ys_def)
  have "prefix (rev (dropWhile p (rev ys))) ys"
    by (metis suffix_dropWhile suffix_to_prefix rev_rev_ident)
  with d obtain zs where "ys = rev (dropWhile p (rev ys)) @ zs" by (auto elim: prefixE)
  then have "hd ys = hd (rev (dropWhile p (rev ys)))" using d by (metis hd_append2 rev_is_Nil_conv)
  moreover have "ys \<noteq> []" using d by auto
  then have "\<not> p (hd ys)" unfolding ys_def by (rule hd_dropWhile)
  ultimately show "\<not> p (hd (strip p xs))" by (simp add: strip_def ys_def)
qed

lemma dropWhile_id: "xs = [] \<or> \<not> p (hd xs) \<Longrightarrow> dropWhile p xs = xs"
  by (cases xs) auto

lemma strip_id:
  assumes "xs = [] \<or> \<not> p (hd xs) \<and> \<not> p (last xs)"
  shows "strip p xs = xs"
proof -
  have "dropWhile p xs = xs" using assms by (intro dropWhile_id) auto
  moreover have "dropWhile p (rev xs) = rev xs"
    using assms by (intro dropWhile_id) (auto simp: hd_rev)
  ultimately show ?thesis by (simp add: strip_def)
qed

lemma strip_idem: "strip p (strip p xs) = strip p xs"
  by (rule strip_id) (use strip_ends in blast)

lemma strip_sublist: "\<exists>us vs. xs = us @ strip p xs @ vs"
proof -
  define ys where "ys = dropWhile p xs"
  have "xs = takeWhile p xs @ ys" by (simp add: ys_def)
  moreover have "rev ys = takeWhile p (rev ys) @ dropWhile p (rev ys)" by simp
  then have "ys = rev (dropWhile p (rev ys)) @ rev (takeWhile p (rev ys))"
    by (metis rev_append rev_rev_ident)
  ultimately show ?thesis by (metis strip_def ys_def)
qed

lemma first_rune_truncate:
  assumes "first_rune c cs = ((r, bs), rest)" and "prefix rest' rest"
  shows "first_rune c (tl bs @ rest') = ((r, bs), rest')"
  using assms by (auto simp: first_rune.simps prefix_Cons split: if_splits list.splits)

lemma runes_drop: "runes s = us @ vs \<Longrightarrow> runes (concat (map snd vs)) = vs"
proof (induction us arbitrary: s)
  case Nil
  then show ?case by (metis append_Nil concat_runes)
next
  case (Cons u us)
  then obtain c cs where "s = c # cs" by (cases s) auto
  with Cons.prems have "runes (snd (first_rune c cs)) = us @ vs" by simp
  then show ?case by (rule Cons.IH)
qed

lemma runes_take: "runes s = us @ vs \<Longrightarrow> runes (concat (map snd us)) = us"
proof (induction us arbitrary: s)
  case Nil
  then show ?case by simp
next
  case (Cons u us)
  then obtain c cs where s: "s = c # cs" by (cases s) auto
  obtain r bs rest where f: "first_rune c cs = ((r, bs), rest)" by (metis prod.exhaust)
  with Cons.prems s have u: "u = (r, bs)" and rest: "runes rest = us @ vs" by auto
  then have IH: "runes (concat (map snd us)) = us" by (intro Cons.IH)
  have "rest = concat (map snd us) @ concat (map snd vs)"
    using rest by (metis concat_append concat_runes map_append)
  then have p: "prefix (concat (map snd us)) rest" by simp
  obtain bs' where "bs = c # bs'" using first_rune_bytes [OF f] by blast
  with first_rune_truncate [OF f p] IH u show ?case by simp
qed

lemma runes_trim_space: "runes (trim_space s) = strip (\<lambda>(r, bs). is_space r) (runes s)"
proof -
  let ?p = "\<lambda>(r, bs). is_space r"
  obtain us vs where "runes s = us @ strip ?p (runes s) @ vs" using strip_sublist by blast
  then have "runes (concat (map snd (strip ?p (runes s) @ vs))) = strip ?p (runes s) @ vs"
    by (rule runes_drop)
  then show ?thesis unfolding trim_space_def by (rule runes_take)
qed

lemma trim_space_idem [simp]: "trim_space (trim_space s) = trim_space s"
  by (simp add: trim_space_def [of "trim_space s"] runes_trim_space strip_idem)
     (simp add: trim_space_def)

lemma trim_space_ascii:
  "is_ascii s \<Longrightarrow> trim_space s = strip (\<lambda>c. is_space (byte c)) s"
  by (simp add: trim_space_def runes_ascii strip_def dropWhile_map rev_map o_def)

lemma trim_space_Nil [simp]: "trim_space [] = []"
  by (simp add: trim_space_def strip_def)

text \<open>A string with no white space at either end is left alone; enough for the ASCII case.\<close>

lemma trim_space_solid:
  assumes "is_ascii s" and "s \<noteq> []" and "\<not> is_space (byte (hd s))" and "\<not> is_space (byte (last s))"
  shows "trim_space s = s"
  using assms by (simp add: trim_space_ascii strip_id)

section \<open>Searching and splitting\<close>

definition trim_prefix :: "string \<Rightarrow> string \<Rightarrow> string" where
  "trim_prefix s p = (if prefix p s then drop (length p) s else s)"

definition trim_suffix :: "string \<Rightarrow> string \<Rightarrow> string" where
  "trim_suffix s p = (if suffix p s then take (length s - length p) s else s)"

text \<open>\<open>strings.Index\<close>, with \<open>None\<close> for -1.\<close>

fun index_of :: "string \<Rightarrow> string \<Rightarrow> nat option" where
  "index_of [] sub = (if sub = [] then Some 0 else None)"
| "index_of (c # cs) sub =
     (if prefix sub (c # cs) then Some 0 else map_option Suc (index_of cs sub))"

text \<open>\<open>strings.Cut\<close>, with \<open>None\<close> when the separator is absent.\<close>

definition cut :: "string \<Rightarrow> string \<Rightarrow> (string \<times> string) option" where
  "cut s sep =
     (case index_of s sep of None \<Rightarrow> None | Some i \<Rightarrow> Some (take i s, drop (i + length sep) s))"

text \<open>\<open>strings.Split\<close> by a one byte separator.\<close>

fun split_on :: "char \<Rightarrow> string \<Rightarrow> string list" where
  "split_on sep [] = [[]]"
| "split_on sep (c # cs) =
     (if c = sep then [] # split_on sep cs
      else (case split_on sep cs of [] \<Rightarrow> [[c]] | w # ws \<Rightarrow> (c # w) # ws))"

text \<open>\<open>strings.Join\<close>.\<close>

fun join_with :: "string \<Rightarrow> string list \<Rightarrow> string" where
  "join_with sep [] = []"
| "join_with sep [w] = w"
| "join_with sep (w # v # ws) = w @ sep @ join_with sep (v # ws)"

lemma split_on_not_Nil [simp]: "split_on sep s \<noteq> []"
  by (induction s) (auto split: list.splits)

lemma join_split: "join_with [sep] (split_on sep s) = s"
proof (induction s)
  case Nil
  then show ?case by simp
next
  case (Cons c cs)
  then show ?case by (cases "split_on sep cs") (auto, (metis join_with.simps(2,3) list.exhaust append_Cons)+)
qed

lemma split_on_free: "sep \<notin> set s \<Longrightarrow> split_on sep s = [s]"
  by (induction s) auto

lemma split_on_append: "sep \<notin> set s \<Longrightarrow> split_on sep (s @ sep # t) = s # split_on sep t"
  by (induction s) auto

lemma split_on_parts: "w \<in> set (split_on sep s) \<Longrightarrow> sep \<notin> set w"
  by (induction s arbitrary: w) (fastforce split: list.splits if_splits)+

lemma index_of_free: "sub \<noteq> [] \<Longrightarrow> hd sub \<notin> set s \<Longrightarrow> index_of s sub = None"
  by (induction s) (auto simp: prefix_Cons neq_Nil_conv)

lemma cut_free: "sep \<noteq> [] \<Longrightarrow> hd sep \<notin> set s \<Longrightarrow> cut s sep = None"
  by (simp add: cut_def index_of_free)

lemma index_of_append:
  assumes "sub \<noteq> []" and "hd sub \<notin> set s"
  shows "index_of (s @ sub @ t) sub = Some (length s)"
  using assms(2)
proof (induction s)
  case Nil
  from assms(1) obtain d ds where "sub = d # ds" by (cases sub) auto
  then show ?case by simp
next
  case (Cons c s)
  with assms(1) show ?case by (auto simp: prefix_Cons neq_Nil_conv)
qed

lemma cut_append: "sep \<noteq> [] \<Longrightarrow> hd sep \<notin> set s \<Longrightarrow> cut (s @ sep @ t) sep = Some (s, t)"
  by (simp add: cut_def index_of_append)

section \<open>Case\<close>

text \<open>
  \<open>unicode.ToLower\<close> on ASCII is written out; the rest of Unicode's table is the argument
  \<open>ulower\<close> of the definitions that lower a string (it sends U+0130 and U+212A to ASCII
  letters, so it is not the identity there).
\<close>

definition lower_rune :: "(nat \<Rightarrow> nat) \<Rightarrow> nat \<Rightarrow> nat" where
  "lower_rune ulower r = (if r < 128 then (if in_range 65 90 r then r + 32 else r) else ulower r)"

definition to_lower :: "(nat \<Rightarrow> nat) \<Rightarrow> string \<Rightarrow> string" where
  "to_lower ulower s = concat (map (\<lambda>r. encode_rune (lower_rune ulower r)) (code_points s))"

text \<open>ASCII lower case of one byte, for statements about ASCII strings.\<close>

definition lower_char :: "char \<Rightarrow> char" where
  "lower_char c = (if in_range 65 90 (byte c) then char_of (byte c + 32) else c)"

lemma to_lower_ascii: "is_ascii s \<Longrightarrow> to_lower ulower s = map lower_char s"
proof (induction s)
  case Nil
  then show ?case by (simp add: to_lower_def code_points_def)
next
  case (Cons c s)
  have "encode_rune (lower_rune ulower (byte c)) = [lower_char c]"
    using Cons.prems by (auto simp: encode_rune_def lower_rune_def lower_char_def in_range_def)
  with Cons show ?case by (simp add: to_lower_def code_points_ascii)
qed

section \<open>Decimals and membership\<close>

text \<open>\<open>%d\<close> of an unsigned integer.\<close>

fun dec :: "nat \<Rightarrow> string" where
  "dec n = (if n < 10 then [char_of (48 + n)] else dec (n div 10) @ [char_of (48 + n mod 10)])"

declare dec.simps [simp del]

definition is_digit :: "char \<Rightarrow> bool" where
  "is_digit c \<longleftrightarrow> in_range 48 57 (byte c)"

lemma dec_digits: "list_all is_digit (dec n) \<and> dec n \<noteq> []"
proof (induction n rule: dec.induct)
  case (1 n)
  have "is_digit (char_of (48 + k))" if "k < 10" for k :: nat
    using that by (simp add: is_digit_def byte_char_of in_range_def)
  then show ?case using 1 by (subst (1 2) dec.simps) auto
qed

lemma length_dec: "n < 10 ^ k \<Longrightarrow> 0 < k \<Longrightarrow> length (dec n) \<le> k"
proof (induction k arbitrary: n)
  case (Suc k)
  show ?case
  proof (cases "n < 10")
    case True
    then show ?thesis by (subst dec.simps) simp
  next
    case False
    then have "n div 10 < 10 ^ k" "0 < k"
      using Suc.prems by (auto simp: less_mult_imp_div_less intro: ccontr)
    with Suc.IH [of "n div 10"] False show ?thesis by (subst dec.simps) simp
  qed
qed simp

text \<open>\<open>strings.ContainsAny\<close> for a set of ASCII characters.\<close>

definition contains_any :: "string \<Rightarrow> string \<Rightarrow> bool" where
  "contains_any s chars \<longleftrightarrow> list_ex (\<lambda>c. c \<in> set chars) s"

end
