(* ===== verification/Slugs.thy ===== *)
theory Slugs
  imports Go_Strings
begin

text \<open>
  Names: \<open>internal/domain/slug.go\<close> (\<open>Slug\<close> and \<open>SlugMax\<close>, which normalise free text),
  \<open>internal/domain/slug/slug.go\<close> (\<open>slug.Parse\<close>, which refuses what is not a slug) and
  \<open>internal/domain/id/id.go\<close> (\<open>id.Parse\<close>). The contract the three share is the
  normal form \<open>slug_form\<close>: words of lower case letters and digits with one hyphen
  between two of them.
\<close>

section \<open>The normal form\<close>

definition slug_alnum :: "nat \<Rightarrow> bool" where
  "slug_alnum r \<longleftrightarrow> in_range 97 122 r \<or> in_range 48 57 r"

definition hyphen :: char where
  "hyphen = CHR ''-''"

text \<open>\<open>hyph_ok p s\<close>: \<open>s\<close> may follow a hyphen (or the start) when \<open>p\<close>, and a word otherwise.\<close>

fun hyph_ok :: "bool \<Rightarrow> string \<Rightarrow> bool" where
  "hyph_ok p [] = (\<not> p)"
| "hyph_ok p (c # cs) =
     (if c = hyphen then \<not> p \<and> hyph_ok True cs else slug_alnum (byte c) \<and> hyph_ok False cs)"

definition slug_form :: "string \<Rightarrow> bool" where
  "slug_form s \<longleftrightarrow> s = [] \<or> hyph_ok True s"

lemma hyphen_not_alnum: "\<not> slug_alnum (byte hyphen)"
  by (simp add: slug_alnum_def in_range_def hyphen_def byte_def)

lemma alnum_not_hyphen: "slug_alnum (byte c) \<Longrightarrow> c \<noteq> hyphen"
  using hyphen_not_alnum by auto

lemma hyph_ok_snoc: "hyph_ok p s \<Longrightarrow> slug_alnum (byte c) \<Longrightarrow> hyph_ok p (s @ [c])"
  by (induction p s rule: hyph_ok.induct) (auto dest: alnum_not_hyphen)

lemma hyph_ok_snoc2: "hyph_ok p s \<Longrightarrow> slug_alnum (byte c) \<Longrightarrow> hyph_ok p (s @ [hyphen, c])"
  by (induction p s rule: hyph_ok.induct) (auto dest: alnum_not_hyphen)

lemma hyph_ok_chars: "hyph_ok p s \<Longrightarrow> c \<in> set s \<Longrightarrow> c = hyphen \<or> slug_alnum (byte c)"
  by (induction p s rule: hyph_ok.induct) (auto split: if_splits)

lemma hyph_ok_ends:
  "hyph_ok p s \<Longrightarrow> s \<noteq> [] \<Longrightarrow> (p \<longrightarrow> hd s \<noteq> hyphen) \<and> last s \<noteq> hyphen"
  by (induction p s rule: hyph_ok.induct) (auto split: if_splits)

lemma hyph_ok_no_double: "hyph_ok p s \<Longrightarrow> s \<noteq> us @ hyphen # hyphen # vs"
  by (induction p s arbitrary: us rule: hyph_ok.induct) (auto simp: Cons_eq_append_conv split: if_splits)

text \<open>A prefix that stops before a hyphen, or inside a word, is still in normal form.\<close>

lemma hyph_ok_prefix:
  "hyph_ok p (s @ t) \<Longrightarrow> s \<noteq> [] \<Longrightarrow> last s \<noteq> hyphen \<Longrightarrow> hyph_ok p s"
proof (induction s arbitrary: p)
  case Nil
  then show ?case by simp
next
  case (Cons c s)
  then show ?case by (cases "s = []") (auto split: if_splits)
qed

lemma slug_form_ascii: "slug_form s \<Longrightarrow> is_ascii s"
  by (auto simp: slug_form_def is_ascii_def list_all_iff slug_alnum_def in_range_def
      dest!: hyph_ok_chars) (simp add: hyphen_def byte_def)

section \<open>Slug and SlugMax\<close>

fun slug_loop :: "nat list \<Rightarrow> bool \<Rightarrow> string \<Rightarrow> string" where
  "slug_loop [] separated builder = builder"
| "slug_loop (r # rs) separated builder =
     (let r = (if in_range 65 90 r then r + 32 else r)
      in if slug_alnum r
         then slug_loop rs False
                ((if separated \<and> builder \<noteq> [] then builder @ [hyphen] else builder) @ [char_of r])
         else slug_loop rs True builder)"

definition Slug :: "string \<Rightarrow> string" where
  "Slug raw = slug_loop (code_points raw) False []"

text \<open>\<open>strings.LastIndexByte\<close>, with \<open>None\<close> for -1.\<close>

fun last_index_byte :: "string \<Rightarrow> char \<Rightarrow> nat option" where
  "last_index_byte [] c = None"
| "last_index_byte (x # xs) c =
     (case last_index_byte xs c of Some i \<Rightarrow> Some (Suc i)
      | None \<Rightarrow> if x = c then Some 0 else None)"

definition SlugMax :: "string \<Rightarrow> int \<Rightarrow> string" where
  "SlugMax raw limit =
     (let slug = Slug raw
      in if limit \<le> 0 \<or> int (length slug) \<le> limit then slug
         else let cut = take (nat limit) slug
              in if slug ! nat limit = hyphen then cut
                 else (case last_index_byte cut hyphen of
                         Some boundary \<Rightarrow> if 0 < boundary then take boundary cut else cut
                       | None \<Rightarrow> cut))"

lemma slug_loop_form:
  "b = [] \<or> hyph_ok True b \<Longrightarrow>
     slug_loop rs sep b = [] \<or> hyph_ok True (slug_loop rs sep b)"
proof (induction rs sep b rule: slug_loop.induct)
  case (1 sep b)
  then show ?case by simp
next
  case (2 r rs sep b)
  define q where "q = (if in_range 65 90 r then r + 32 else r)"
  have eq: "slug_loop (r # rs) sep b =
      (if slug_alnum q then slug_loop rs False
         ((if sep \<and> b \<noteq> [] then b @ [hyphen] else b) @ [char_of q]) else slug_loop rs True b)"
    by (simp add: q_def Let_def)
  show ?case
  proof (cases "slug_alnum q")
    case True
    then have q: "slug_alnum (byte (char_of q))"
      by (auto simp: byte_char_of slug_alnum_def in_range_def)
    have "hyph_ok True ((if sep \<and> b \<noteq> [] then b @ [hyphen] else b) @ [char_of q])"
    proof (cases "b = []")
      case True
      with q show ?thesis by (auto dest: alnum_not_hyphen)
    next
      case False
      with 2 have "hyph_ok True b" by simp
      with q show ?thesis using hyph_ok_snoc hyph_ok_snoc2 by auto
    qed
    with 2 True q_def show ?thesis unfolding eq by (simp del: slug_loop.simps)
  next
    case False
    with 2 q_def show ?thesis unfolding eq by (simp del: slug_loop.simps)
  qed
qed

lemma Slug_form: "slug_form (Slug raw)"
  unfolding slug_form_def Slug_def by (rule slug_loop_form) simp

lemma slug_alnum_not_upper: "slug_alnum n \<Longrightarrow> \<not> in_range 65 90 n"
  by (auto simp: slug_alnum_def in_range_def)

lemma slug_loop_word:
  "hyph_ok p s \<Longrightarrow> b \<noteq> [] \<Longrightarrow> slug_loop (map byte s) p b = b @ (if p then hyphen # s else s)"
proof (induction p s arbitrary: b rule: hyph_ok.induct)
  case (1 p)
  then show ?case by simp
next
  case (2 p c cs)
  show ?case
  proof (cases "c = hyphen")
    case True
    have "\<not> in_range 65 90 (byte hyphen)" by (simp add: in_range_def hyphen_def byte_def)
    with True 2 hyphen_not_alnum show ?thesis by simp
  next
    case False
    with 2 have "slug_alnum (byte c)" "hyph_ok False cs" by auto
    with False 2 show ?thesis by (simp add: slug_alnum_not_upper)
  qed
qed

lemma Slug_id: "slug_form s \<Longrightarrow> Slug s = s"
proof (cases s)
  case Nil
  then show ?thesis by (simp add: Slug_def code_points_def)
next
  case (Cons c cs)
  assume s: "slug_form s"
  with Cons have c: "slug_alnum (byte c)" and cs: "hyph_ok False cs"
    by (auto simp: slug_form_def split: if_splits)
  have "code_points s = byte c # map byte cs"
    using Cons slug_form_ascii [OF s] by (simp add: code_points_ascii)
  with c have "Slug s = slug_loop (map byte cs) False [c]"
    by (simp add: Slug_def slug_alnum_not_upper)
  with slug_loop_word [OF cs] Cons show ?thesis by simp
qed

lemma last_index_byte_Some:
  "last_index_byte s c = Some i \<Longrightarrow>
     i < length s \<and> s ! i = c \<and> (\<forall>j. i < j \<longrightarrow> j < length s \<longrightarrow> s ! j \<noteq> c)"
proof (induction s arbitrary: i)
  case Nil
  then show ?case by simp
next
  case (Cons x xs)
  show ?case
  proof (cases "last_index_byte xs c")
    case None
    have "c \<notin> set xs" using None by (induction xs) (auto split: option.splits if_splits)
    with None Cons.prems show ?thesis by (auto simp: nth_Cons split: if_splits nat.splits dest: nth_mem)
  next
    case (Some k)
    with Cons.prems have i: "i = Suc k" by simp
    from Cons.IH [OF Some] have k: "k < length xs" "xs ! k = c"
      "\<And>j. k < j \<Longrightarrow> j < length xs \<Longrightarrow> xs ! j \<noteq> c" by auto
    have "(x # xs) ! j \<noteq> c" if "Suc k < j" "j < length (x # xs)" for j
      using that k(3) [of "j - 1"] by (cases j) auto
    with i k show ?thesis by auto
  qed
qed

lemma last_index_byte_None: "last_index_byte s c = None \<longleftrightarrow> c \<notin> set s"
  by (induction s) (auto split: option.splits)

text \<open>The cut is a prefix of the slug that ends where a word ends, or lies in its first word.\<close>

lemma SlugMax_cases:
  fixes raw :: string and limit :: int
  defines "m \<equiv> SlugMax raw limit" and "slug \<equiv> Slug raw"
  obtains (whole) "m = slug" "limit \<le> 0 \<or> int (length slug) \<le> limit"
  | (boundary) t where "0 < limit" "slug = m @ hyphen # t" "m \<noteq> []" "int (length m) \<le> limit"
  | (hard) t where "0 < limit" "slug = m @ t" "hyphen \<notin> set m" "int (length m) = limit"
proof (cases "limit \<le> 0 \<or> int (length slug) \<le> limit")
  case True
  then have "m = slug" by (simp add: m_def slug_def SlugMax_def Let_def)
  then show ?thesis using True by (rule whole)
next
  case False
  then obtain n where n: "limit = int n" "0 < n" "n < length slug"
    by (metis linorder_not_le of_nat_less_iff zero_less_imp_eq_int)
  then have nl: "nat limit = n" by simp
  define c where "c = take n slug"
  have f: "hyph_ok True slug" using Slug_form [of raw] n by (auto simp: slug_form_def slug_def)
  have len: "length c = n" using n by (simp add: c_def)
  have spl: "slug = c @ slug ! n # drop (Suc n) slug"
    using n by (simp add: c_def id_take_nth_drop)
  have m: "m = (if slug ! n = hyphen then c else case last_index_byte c hyphen of
      Some b \<Rightarrow> if 0 < b then take b c else c | None \<Rightarrow> c)"
    using False unfolding m_def SlugMax_def Let_def c_def slug_def nl by simp
  show ?thesis
  proof (cases "slug ! n = hyphen")
    case True
    with m spl len n show ?thesis by (intro boundary [of "drop (Suc n) slug"]) auto
  next
    case nh: False
    show ?thesis
    proof (cases "last_index_byte c hyphen")
      case None
      with nh m spl len n show ?thesis
        by (intro hard [of "slug ! n # drop (Suc n) slug"]) (auto simp: last_index_byte_None)
    next
      case (Some b)
      from last_index_byte_Some [OF Some] have b: "b < length c" "c ! b = hyphen" by auto
      have "hd slug \<noteq> hyphen" using hyph_ok_ends [OF f] n by force
      moreover have "hd slug = c ! 0"
        using n len by (cases slug; cases n) (auto simp: c_def)
      ultimately have "0 < b" using b by (cases b) auto
      have "c = take b c @ hyphen # drop (Suc b) c"
        using b by (metis id_take_nth_drop)
      then have "slug = take b c @ hyphen # (drop (Suc b) c @ slug ! n # drop (Suc n) slug)"
        using spl by (metis append.assoc append_Cons)
      with \<open>0 < b\<close> b nh m Some len n show ?thesis
        by (intro boundary [of "drop (Suc b) c @ slug ! n # drop (Suc n) slug"]) auto
    qed
  qed
qed

lemma SlugMax_form: "slug_form (SlugMax raw limit)"
proof (rule SlugMax_cases [of raw limit])
  assume "SlugMax raw limit = Slug raw"
  then show ?thesis using Slug_form by simp
next
  fix t assume s: "Slug raw = SlugMax raw limit @ hyphen # t" and ne: "SlugMax raw limit \<noteq> []"
  from s have f: "hyph_ok True (SlugMax raw limit @ hyphen # t)"
    using Slug_form [of raw] by (auto simp: slug_form_def)
  have "last (SlugMax raw limit) \<noteq> hyphen"
    using hyph_ok_no_double [OF f] ne by (metis append_butlast_last_id append.assoc append_Cons append_Nil)
  with f ne show ?thesis unfolding slug_form_def by (blast intro: hyph_ok_prefix)
next
  fix t assume s: "Slug raw = SlugMax raw limit @ t" and no: "hyphen \<notin> set (SlugMax raw limit)"
    and "0 < limit" "int (length (SlugMax raw limit)) = limit"
  then have ne: "SlugMax raw limit \<noteq> []" by auto
  with no have "last (SlugMax raw limit) \<noteq> hyphen" by (metis last_in_set)
  with s ne Slug_form [of raw] show ?thesis
    unfolding slug_form_def by (metis Nil_is_append_conv hyph_ok_prefix)
qed

section \<open>slug.Parse and id.Parse\<close>

text \<open>The loop of \<open>slug.Parse\<close> over the code points; \<open>None\<close> when it runs to the end.\<close>

fun slug_parse_loop :: "nat list \<Rightarrow> bool \<Rightarrow> go_error option" where
  "slug_parse_loop [] previousHyphen = None"
| "slug_parse_loop (character # rest) previousHyphen =
     (if character = byte hyphen then
        (if previousHyphen then Some (Errorf ''slug cannot contain consecutive hyphens'' [])
         else slug_parse_loop rest True)
      else if 127 < character \<or> \<not> slug_alnum character then
        Some (Errorf ''slug must contain only lower-case letters, digits, and hyphens'' [])
      else slug_parse_loop rest False)"

definition slug_Parse :: "string \<Rightarrow> go_error + string" where
  "slug_Parse raw =
     (let value = trim_space raw
      in if value = [] then Inl (Errorf ''slug cannot be empty'' [])
         else if 100 < length value then Inl (Errorf ''slug is too long'' [])
         else if hd value = hyphen \<or> last value = hyphen then
           Inl (Errorf ''slug cannot start or end with a hyphen'' [])
         else (case slug_parse_loop (code_points value) False of
                 Some e \<Rightarrow> Inl e
               | None \<Rightarrow> Inr value))"

definition slug_Valid :: "string \<Rightarrow> bool" where
  "slug_Valid value = (case slug_Parse value of Inl e \<Rightarrow> False | Inr v \<Rightarrow> True)"

fun id_parse_loop :: "nat list \<Rightarrow> go_error option" where
  "id_parse_loop [] = None"
| "id_parse_loop (character # rest) =
     (if character < 33 \<or> character = 47 \<or> character = 92
      then Some (Errorf ''id contains invalid characters'' [])
      else id_parse_loop rest)"

definition id_Parse :: "string \<Rightarrow> go_error + string" where
  "id_Parse raw =
     (let value = trim_space raw
      in if value = [] then Inl (Errorf ''id cannot be empty'' [])
         else if 255 < length value then Inl (Errorf ''id is too long'' [])
         else (case id_parse_loop (code_points value) of Some e \<Rightarrow> Inl e | None \<Rightarrow> Inr value))"

definition id_IsZero :: "string \<Rightarrow> bool" where
  "id_IsZero value \<longleftrightarrow> value = []"

definition id_Valid :: "string \<Rightarrow> bool" where
  "id_Valid value = (case id_Parse value of Inl e \<Rightarrow> False | Inr v \<Rightarrow> True)"

lemma slug_parse_loop_ascii:
  "slug_parse_loop rs p = None \<Longrightarrow> \<forall>r \<in> set rs. r = byte hyphen \<or> r < 128 \<and> slug_alnum r"
  by (induction rs p rule: slug_parse_loop.induct) (auto split: if_splits)

lemma first_rune_high:
  "first_rune c cs = ((r, bs), rest) \<Longrightarrow> r < 128 \<Longrightarrow> byte c = r"
proof (rule ccontr)
  assume f: "first_rune c cs = ((r, bs), rest)" and r: "r < 128" and ne: "byte c \<noteq> r"
  then have "\<not> byte c < 128" by (auto simp: first_rune.simps)
  then show False
    using f r by (auto simp: first_rune.simps seq2_def seq3_def seq4_def in_range_def rune_error_def
        split: list.splits if_splits)
qed

lemma code_points_low_ascii: "\<forall>r \<in> set (code_points s). r < 128 \<Longrightarrow> is_ascii s"
proof (induction s rule: runes.induct)
  case 1
  then show ?case by simp
next
  case (2 c cs)
  obtain r bs rest where f: "first_rune c cs = ((r, bs), rest)" by (metis prod.exhaust)
  with 2 have "r < 128" by (simp add: code_points_def)
  with first_rune_high [OF f] have c: "byte c < 128" by simp
  with f have "rest = cs" by (simp add: first_rune.simps)
  with 2 f c show ?case by (simp add: code_points_def)
qed

lemma slug_parse_loop_iff:
  "s \<noteq> [] \<Longrightarrow> last s \<noteq> hyphen \<Longrightarrow> is_ascii s \<Longrightarrow>
     slug_parse_loop (map byte s) p = None \<longleftrightarrow> hyph_ok p s"
proof (induction s arbitrary: p)
  case Nil
  then show ?case by simp
next
  case (Cons c s)
  then show ?case by (cases "s = []") (auto simp: byte_inject)
qed

lemma slug_parse_accepts:
  assumes "v \<noteq> []" and "hd v \<noteq> hyphen" and "last v \<noteq> hyphen"
  shows "slug_parse_loop (code_points v) False = None \<longleftrightarrow> slug_form v"
proof
  assume l: "slug_parse_loop (code_points v) False = None"
  have "is_ascii v"
    by (rule code_points_low_ascii)
       (use slug_parse_loop_ascii [OF l] in \<open>auto simp: hyphen_def byte_def\<close>)
  with l assms have "hyph_ok False v" by (simp add: code_points_ascii slug_parse_loop_iff)
  with assms show "slug_form v" by (cases v) (auto simp: slug_form_def)
next
  assume "slug_form v"
  then have "is_ascii v" by (rule slug_form_ascii)
  from \<open>slug_form v\<close> assms have "hyph_ok False v" by (cases v) (auto simp: slug_form_def)
  with assms \<open>is_ascii v\<close> show "slug_parse_loop (code_points v) False = None"
    by (simp add: code_points_ascii slug_parse_loop_iff)
qed

text \<open>What \<open>slug.Parse\<close> accepts, without its loop.\<close>

lemma slug_Parse_accepts:
  "slug_Parse raw = Inr v \<longleftrightarrow>
     v = trim_space raw \<and> v \<noteq> [] \<and> length v \<le> 100 \<and> slug_form v"
proof -
  let ?v = "trim_space raw"
  have "slug_form ?v \<Longrightarrow> ?v \<noteq> [] \<Longrightarrow> hd ?v \<noteq> hyphen \<and> last ?v \<noteq> hyphen"
    using hyph_ok_ends [of True ?v] by (simp add: slug_form_def)
  then show ?thesis
    using slug_parse_accepts [of ?v]
    by (auto simp: slug_Parse_def Let_def split: option.splits if_splits)
qed

lemma slug_Valid_iff:
  "slug_Valid s \<longleftrightarrow> trim_space s \<noteq> [] \<and> length (trim_space s) \<le> 100 \<and> slug_form (trim_space s)"
proof -
  have "slug_Valid s \<longleftrightarrow> (\<exists>v. slug_Parse s = Inr v)"
    by (cases "slug_Parse s") (auto simp: slug_Valid_def)
  then show ?thesis unfolding slug_Parse_accepts by blast
qed

lemma id_parse_loop_None:
  "id_parse_loop rs = None \<longleftrightarrow> (\<forall>r \<in> set rs. 33 \<le> r \<and> r \<noteq> 47 \<and> r \<noteq> 92)"
  by (induction rs) auto

lemma id_Parse_accepts:
  "id_Parse raw = Inr v \<longleftrightarrow>
     v = trim_space raw \<and> v \<noteq> [] \<and> length v \<le> 255 \<and>
     (\<forall>r \<in> set (code_points v). 33 \<le> r \<and> r \<noteq> 47 \<and> r \<noteq> 92)"
proof -
  let ?v = "trim_space raw"
  have "id_Parse raw = Inr v \<longleftrightarrow>
      v = ?v \<and> ?v \<noteq> [] \<and> length ?v \<le> 255 \<and> id_parse_loop (code_points ?v) = None"
    by (auto simp: id_Parse_def Let_def split: option.splits if_splits)
  then show ?thesis by (auto simp: id_parse_loop_None)
qed

lemma id_Parse_stable: "id_Parse raw = Inr v \<Longrightarrow> id_Parse v = Inr v"
  unfolding id_Parse_accepts by auto

lemma slug_Parse_stable: "slug_Parse raw = Inr v \<Longrightarrow> slug_Parse v = Inr v"
  unfolding slug_Parse_accepts by auto

text \<open>What normalising produces, parsing accepts as it is.\<close>

lemma slug_form_not_space:
  assumes "slug_form s"
  shows "trim_space s = s"
proof (cases "s = []")
  case False
  have ends: "slug_alnum (byte c)" if "c \<in> {hd s, last s}" for c
  proof -
    have "c \<noteq> hyphen" and "c \<in> set s"
      using that assms False hyph_ok_ends [of True s] by (auto simp: slug_form_def)
    with assms show ?thesis by (auto simp: slug_form_def dest: hyph_ok_chars)
  qed
  have "\<not> is_space n" if "slug_alnum n" for n
    using that by (auto simp: is_space_def slug_alnum_def in_range_def)
  with ends have "\<not> is_space (byte (hd s))" "\<not> is_space (byte (last s))" by auto
  with False assms show ?thesis by (simp add: trim_space_solid slug_form_ascii)
qed simp

lemma slug_Parse_Slug:
  assumes "Slug raw \<noteq> []" and "length (Slug raw) \<le> 100"
  shows "slug_Parse (Slug raw) = Inr (Slug raw)"
  using assms Slug_form [of raw] by (simp add: slug_Parse_accepts slug_form_not_space)

section \<open>The names that reach a branch or a path\<close>

text \<open>A capped slug is a slug: it has the normal form, fits the limit, and is the whole
  slug, or ends where one of its words ends, or is the first word cut hard when that alone is too
  long.\<close>

theorem SlugMax_cuts_on_words:
  assumes "0 < limit"
  shows "slug_form (SlugMax raw limit) \<and> int (length (SlugMax raw limit)) \<le> limit \<and>
    (SlugMax raw limit = Slug raw \<or>
     (\<exists>t. Slug raw = SlugMax raw limit @ hyphen # t) \<or>
     hyphen \<notin> set (SlugMax raw limit) \<and> int (length (SlugMax raw limit)) = limit \<and>
       prefix (SlugMax raw limit) (Slug raw))"
proof -
  have "slug_form (SlugMax raw limit)" by (rule SlugMax_form)
  then show ?thesis
    using assms by (cases rule: SlugMax_cases [of raw limit]) (auto simp: prefix_def)
qed

lemma SlugMax_cuts_on_words_witness:
  "SlugMax ''Fix the  Login-page!'' 10 = ''fix-the'' \<and> int (length (SlugMax ''Fix the  Login-page!'' 10)) \<le> 10"
proof -
  have "SlugMax ''Fix the  Login-page!'' 10 = ''fix-the''" by code_simp
  with SlugMax_cuts_on_words [of 10 "''Fix the  Login-page!''"] show ?thesis by simp
qed

text \<open>\<open>slug.Parse\<close> accepts exactly the trimmed strings of one to a hundred bytes in the
  normal form, returns them trimmed, and accepts its own results and every slug \<open>Slug\<close> makes
  that is short enough.\<close>

theorem slug_Parse_exact:
  "(slug_Parse raw = Inr v \<longleftrightarrow>
      v = trim_space raw \<and> v \<noteq> [] \<and> length v \<le> 100 \<and> slug_form v) \<and>
   (slug_Parse raw = Inr v \<longrightarrow> slug_Parse v = Inr v) \<and>
   (Slug raw \<noteq> [] \<and> length (Slug raw) \<le> 100 \<longrightarrow> slug_Parse (Slug raw) = Inr (Slug raw))"
  using slug_Parse_accepts slug_Parse_stable slug_Parse_Slug by blast

lemma slug_Parse_exact_witness:
  "slug_Parse '' donsy-core '' = Inr ''donsy-core'' \<and> slug_Parse ''donsy-core'' = Inr ''donsy-core'' \<and>
   slug_Parse (Slug ''A b'') = Inr (Slug ''A b'')"
proof -
  have p: "slug_Parse '' donsy-core '' = Inr ''donsy-core''" by code_simp
  have s: "Slug ''A b'' \<noteq> [] \<and> length (Slug ''A b'') \<le> 100" by code_simp
  show ?thesis
    using slug_Parse_exact [of "'' donsy-core ''" "''donsy-core''"] slug_Parse_exact [of "''A b''"] p s
    by blast
qed

end
