(* ===== verification/Repository_Paths.thy ===== *)
theory Repository_Paths
  imports Go_Strings
begin

text \<open>
  \<open>internal/repositorypath/repository_path.go\<close>: a repository name as one component of
  a file path, and back. The store writes \<open>Encode\<close> into the tree and reads it with
  \<open>Decode\<close>, so the theorem that matters is that reading gives back what was written.
\<close>

definition encode_character :: "nat \<Rightarrow> string" where
  "encode_character character =
     (if character = 47 then ''__'' else if character = 95 then ''_u'' else encode_rune character)"

definition Encode :: "string \<Rightarrow> string" where
  "Encode repository = concat (map encode_character (code_points repository))"

text \<open>
  The loop of \<open>Decode\<close>: the bytes from \<open>index\<close> on, and the builder. The step over the
  byte after an escape marker is the \<open>index++\<close> at the end of the body.
\<close>

fun decode_loop :: "string \<Rightarrow> string \<Rightarrow> string \<Rightarrow> go_error + string" where
  "decode_loop encoded [] repository = Inr repository"
| "decode_loop encoded (c # cs) repository =
     (if c \<noteq> CHR ''_'' then decode_loop encoded cs (repository @ [c])
      else (case cs of
        [] \<Rightarrow> Inl (Errorf ''repository path %q ends with an escape marker'' [GStr encoded])
      | d # ds \<Rightarrow>
          if d = CHR ''_'' then decode_loop encoded ds (repository @ ''/'')
          else if d = CHR ''u'' then decode_loop encoded ds (repository @ ''_'')
          else Inl (Errorf ''repository path %q has an invalid escape'' [GStr encoded])))"

definition Decode :: "string \<Rightarrow> go_error + string" where
  "Decode encoded = decode_loop encoded encoded []"

lemma decode_loop_plain:
  "CHR ''_'' \<notin> set bs \<Longrightarrow> decode_loop e (bs @ rest) b = decode_loop e rest (b @ bs)"
  by (induction bs arbitrary: b) auto

lemma char_of_eq_nat: "n < 256 \<Longrightarrow> c = char_of n \<longleftrightarrow> byte c = n"
  by (metis byte_char_of char_of_byte)

lemma encode_rune_bytes:
  assumes "c \<in> set (encode_rune r)"
  shows "byte c = r \<or> 128 \<le> byte c"
proof -
  have q: "(if 1114111 < r \<or> 55296 \<le> r \<and> r \<le> 57343 then rune_error else r) < 1114112"
    by (simp add: rune_error_def)
  obtain q where q: "q < 1114112" "q = r \<or> 128 \<le> q"
    and e: "encode_rune r = (if q < 128 then [char_of q]
         else if q < 2048 then [char_of (192 + q div 64), char_of (128 + q mod 64)]
         else if q < 65536 then
           [char_of (224 + q div 4096), char_of (128 + q div 64 mod 64), char_of (128 + q mod 64)]
         else [char_of (240 + q div 262144), char_of (128 + q div 4096 mod 64),
            char_of (128 + q div 64 mod 64), char_of (128 + q mod 64)])"
    using q by (auto simp: encode_rune_def Let_def rune_error_def split: if_splits)
  have b: "q < 2048 \<Longrightarrow> 192 + q div 64 < 256" "q < 65536 \<Longrightarrow> 224 + q div 4096 < 256"
    "240 + q div 262144 < 256" "128 + q mod 64 < 256" "128 + q div 64 mod 64 < 256"
    "128 + q div 4096 mod 64 < 256"
    using q(1) mod_less_divisor [of 64] by (auto simp: less_mult_imp_div_less)
  from assms e b q(2) show ?thesis by (auto simp: byte_char_of split: if_splits)
qed

lemma encode_rune_free:
  assumes "r \<noteq> byte c" and "byte c < 128"
  shows "c \<notin> set (encode_rune r)"
  using encode_rune_bytes [of c r] assms by auto

lemma decode_encode_character:
  "decode_loop e (encode_character r @ rest) b =
     decode_loop e rest (b @ (if r = 47 then ''/'' else if r = 95 then ''_'' else encode_rune r))"
proof -
  have "byte (CHR ''_'') = 95" by (simp add: byte_def)
  then show ?thesis
    using encode_rune_free [of r "CHR ''_''"]
    by (auto simp: encode_character_def decode_loop_plain)
qed

lemma ascii_runes: "encode_rune 47 = ''/''" "encode_rune 95 = ''_''"
  by (simp_all add: encode_rune_def) (code_simp+)

lemma decode_encode_loop:
  "decode_loop e (concat (map encode_character rs)) b = Inr (b @ concat (map encode_rune rs))"
proof (induction rs arbitrary: b)
  case Nil
  then show ?case by simp
next
  case (Cons r rs)
  then show ?case by (auto simp: decode_encode_character ascii_runes)
qed

text \<open>What \<open>Decode\<close> makes of an encoded name, valid UTF-8 or not.\<close>

lemma Decode_Encode_normal: "Decode (Encode s) = Inr (concat (map encode_rune (code_points s)))"
  by (simp add: Decode_def Encode_def decode_encode_loop)

lemma Decode_Encode: "valid_utf8 s \<Longrightarrow> Decode (Encode s) = Inr s"
  by (simp add: Decode_Encode_normal encode_code_points)

lemma Encode_component: "CHR ''/'' \<notin> set (Encode s)"
proof -
  have "byte (CHR ''/'') = 47" by (simp add: byte_def)
  then have "CHR ''/'' \<notin> set (encode_character r)" for r
    using encode_rune_free [of r "CHR ''/''"] by (auto simp: encode_character_def)
  then show ?thesis by (auto simp: Encode_def)
qed

lemma Encode_inj:
  assumes "valid_utf8 s" and "valid_utf8 t" and "Encode s = Encode t"
  shows "s = t"
  using assms Decode_Encode by (metis sum.inject(2))

lemma Encode_ascii:
  assumes "is_ascii s"
  shows "Encode s = concat (map (\<lambda>c. if c = CHR ''/'' then ''__'' else if c = CHR ''_'' then ''_u'' else [c]) s)"
proof -
  have "encode_character (byte c) = (if c = CHR ''/'' then ''__'' else if c = CHR ''_'' then ''_u'' else [c])"
    if "byte c < 128" for c
  proof -
    have "byte c = 47 \<longleftrightarrow> c = CHR ''/''" "byte c = 95 \<longleftrightarrow> c = CHR ''_''"
      using byte_inject [of c "CHR ''/''"] byte_inject [of c "CHR ''_''"] by (simp_all add: byte_def)
    with that show ?thesis by (auto simp: encode_character_def encode_rune_def)
  qed
  with assms have "map encode_character (map byte s) =
      map (\<lambda>c. if c = CHR ''/'' then ''__'' else if c = CHR ''_'' then ''_u'' else [c]) s"
    by (simp add: is_ascii_def list_all_iff)
  with assms show ?thesis by (simp only: Encode_def code_points_ascii)
qed

text \<open>A repository name survives the trip through a path component: \<open>Decode\<close> gives back
  what \<open>Encode\<close> wrote, the component has no slash in it, and two names never share one.\<close>

theorem Encode_roundtrip:
  assumes "valid_utf8 s"
  shows "Decode (Encode s) = Inr s \<and> CHR ''/'' \<notin> set (Encode s) \<and>
    (\<forall>t. valid_utf8 t \<longrightarrow> Encode t = Encode s \<longrightarrow> t = s)"
  using assms Decode_Encode Encode_component Encode_inj by blast

lemma Encode_roundtrip_witness:
  "Encode ''acme/my_api'' = ''acme__my_uapi'' \<and> Decode (Encode ''acme/my_api'') = Inr ''acme/my_api''"
proof -
  have a: "is_ascii ''acme/my_api''" by (simp add: byte_def)
  from Encode_roundtrip [OF valid_utf8_ascii [OF a]] Encode_ascii [OF a] show ?thesis by simp
qed

text \<open>\<open>Decode\<close> also accepts a component \<open>Encode\<close> never writes, the slash itself, so two
  spellings are read as one name.\<close>

theorem Decode_accepts_raw_slash:
  "Decode ''acme/api'' = Inr ''acme/api'' \<and> Decode ''acme__api'' = Inr ''acme/api'' \<and>
   Encode ''acme/api'' = ''acme__api''"
proof -
  have "is_ascii ''acme/api''" by (simp add: byte_def)
  from Encode_ascii [OF this] show ?thesis by (simp add: Decode_def)
qed

end
