(* ===== verification/Repository_Refs.thy ===== *)
theory Repository_Refs
  imports Go_Strings
begin

text \<open>
  \<open>internal/domain/owner.go\<close> and \<open>internal/domain/setup.go\<close>: reading a repository
  reference in its three spellings, the rule that a project only works on repositories of its
  own owner, and what a project still lacks before its worker runs.
\<close>

section \<open>SplitRepositoryRef\<close>

definition SplitRepositoryRef :: "string \<Rightarrow> (string \<times> string) option" where
  "SplitRepositoryRef raw =
     (let ref = trim_suffix (trim_space raw) ''.git'';
          ref = (case cut ref ''://'' of
                   Some (_, path) \<Rightarrow>
                     (case cut path ''/'' of Some (_, afterHost) \<Rightarrow> afterHost | None \<Rightarrow> path)
                 | None \<Rightarrow>
                     (case cut ref '':'' of Some (_, path) \<Rightarrow> path | None \<Rightarrow> ref))
      in (case split_on (CHR ''/'') (trim_char (CHR ''/'') ref) of
            [p0, p1] \<Rightarrow>
              (let owner = trim_space p0; name = trim_space p1
               in if owner = [] \<or> name = [] then None else Some (owner, name))
          | _ \<Rightarrow> None))"

text \<open>\<open>domain.Repository\<close> and its \<open>Owner\<close>, which is "" for a reference without one.\<close>

record Repository =
  Name :: string
  FullName :: string
  HTTPURL :: string
  SSHURL :: string
  Organisation :: string

definition Repository_Owner :: "Repository \<Rightarrow> string" where
  "Repository_Owner r =
     (if Organisation r \<noteq> [] then Organisation r
      else (case SplitRepositoryRef (FullName r) of None \<Rightarrow> [] | Some (owner, _) \<Rightarrow> owner))"

section \<open>Owners\<close>

text \<open>
  \<open>strings.EqualFold\<close>: rune by rune, up to simple case folding. Unicode's table beyond
  ASCII is the argument \<open>ufold\<close>, which maps a rune to the representative of its folding
  orbit (U+212A to k and U+017F to s among them).
\<close>

definition fold_rune :: "(nat \<Rightarrow> nat) \<Rightarrow> nat \<Rightarrow> nat" where
  "fold_rune ufold r = (if r < 128 then (if in_range 65 90 r then r + 32 else r) else ufold r)"

definition EqualFold :: "(nat \<Rightarrow> nat) \<Rightarrow> string \<Rightarrow> string \<Rightarrow> bool" where
  "EqualFold ufold s t \<longleftrightarrow>
     map (fold_rune ufold) (code_points s) = map (fold_rune ufold) (code_points t)"

definition SameOwner :: "(nat \<Rightarrow> nat) \<Rightarrow> string \<Rightarrow> string \<Rightarrow> bool" where
  "SameOwner ufold owner ref =
     (case SplitRepositoryRef ref of
        None \<Rightarrow> True
      | Some (refOwner, _) \<Rightarrow> if owner = [] then True else EqualFold ufold refOwner owner)"

definition EnsureSameOwner :: "(nat \<Rightarrow> nat) \<Rightarrow> string \<Rightarrow> string list \<Rightarrow> go_error option" where
  "EnsureSameOwner ufold owner refs =
     (let foreign = filter (\<lambda>ref. \<not> SameOwner ufold owner ref) refs
      in if foreign = [] then None
         else Some (Errorf ''%s not owned by %s: go-merge does not work across owners''
                      [GStr (join_with '', '' foreign), GStr owner]))"

text \<open>A plain component: what the owner and the name of a GitHub repository look like.\<close>

definition plain_part :: "string \<Rightarrow> bool" where
  "plain_part p \<longleftrightarrow> p \<noteq> [] \<and> is_ascii p \<and> CHR ''/'' \<notin> set p \<and> CHR '':'' \<notin> set p \<and>
     \<not> is_space (byte (hd p)) \<and> \<not> is_space (byte (last p))"

lemma plain_part_trim: "plain_part p \<Longrightarrow> trim_space p = p"
  by (simp add: plain_part_def trim_space_solid)

lemma trim_suffix_other: "\<not> suffix p s \<Longrightarrow> trim_suffix s p = s"
  by (simp add: trim_suffix_def)

lemma trim_suffix_append [simp]: "trim_suffix (s @ p) p = s"
  by (simp add: trim_suffix_def suffix_def)

lemma split_plain_path:
  assumes "plain_part o1" and "plain_part n1"
  shows "split_on (CHR ''/'') (trim_char (CHR ''/'') (o1 @ ''/'' @ n1)) = [o1, n1]"
proof -
  have "hd o1 \<noteq> CHR ''/''" "last n1 \<noteq> CHR ''/''"
    using assms by (auto simp: plain_part_def dest: hd_in_set last_in_set)
  then have "trim_char (CHR ''/'') (o1 @ ''/'' @ n1) = o1 @ ''/'' @ n1"
    using assms by (simp add: trim_char_def strip_id plain_part_def)
  with assms show ?thesis by (simp add: plain_part_def split_on_append split_on_free)
qed

text \<open>The three spellings of one repository read the same.\<close>

lemma SplitRepositoryRef_plain:
  assumes o: "plain_part o1" and n: "plain_part n1" and g: "\<not> suffix ''.git'' n1"
  shows "SplitRepositoryRef (o1 @ ''/'' @ n1) = Some (o1, n1)"
proof -
  let ?r = "o1 @ ''/'' @ n1"
  have slash: "is_ascii ''/''" by (simp add: byte_def)
  have "trim_space ?r = ?r"
    using o n slash by (intro trim_space_solid) (auto simp: plain_part_def)
  moreover have "\<not> suffix ''.git'' ?r"
  proof
    assume s: "suffix ''.git'' ?r"
    have "\<not> suffix (''/'' @ n1) ''.git''"
      by (auto simp: suffix_def Cons_eq_append_conv)
    moreover have "suffix (''/'' @ n1) ?r" by (simp add: suffix_def)
    ultimately have "suffix ''.git'' (''/'' @ n1)"
      using s suffix_same_cases by blast
    with g show False by (auto simp: suffix_Cons)
  qed
  moreover have "cut ?r ''://'' = None" "cut ?r '':'' = None"
    using o n by (auto intro!: cut_free simp: plain_part_def)
  ultimately show ?thesis
    using split_plain_path [OF o n] o n
    by (simp add: SplitRepositoryRef_def trim_suffix_other plain_part_trim plain_part_def)
qed

lemma is_ascii_dot_git: "is_ascii ''.git''" "last ''.git'' = CHR ''t''" "\<not> is_space (byte (CHR ''t''))"
  by (simp_all add: byte_def is_space_def in_range_def)

lemma trim_space_git:
  assumes "is_ascii s" and "s \<noteq> []" and "\<not> is_space (byte (hd s))"
  shows "trim_space (s @ ''.git'') = s @ ''.git''"
proof -
  have "last (s @ ''.git'') = CHR ''t''" by simp
  moreover have "hd (s @ ''.git'') = hd s" using assms(2) by simp
  moreover have "is_ascii (s @ ''.git'')" using assms(1) is_ascii_dot_git(1) by simp
  ultimately show ?thesis
    using assms(2,3) is_ascii_dot_git(3) by (intro trim_space_solid) (simp_all del: last_append)
qed

lemma SplitRepositoryRef_https:
  assumes o: "plain_part o1" and n: "plain_part n1"
    and s: "is_ascii scheme" "scheme \<noteq> []" "CHR '':'' \<notin> set scheme"
      "\<not> is_space (byte (hd scheme))"
    and h: "is_ascii host" "CHR ''/'' \<notin> set host"
  shows "SplitRepositoryRef (scheme @ ''://'' @ host @ ''/'' @ (o1 @ ''/'' @ n1) @ ''.git'') = Some (o1, n1)"
proof -
  let ?p = "o1 @ ''/'' @ n1" and ?r = "scheme @ ''://'' @ host @ ''/'' @ o1 @ ''/'' @ n1"
  have a: "is_ascii ?r" using o n s h by (auto simp: plain_part_def byte_def)
  have "trim_space (?r @ ''.git'') = ?r @ ''.git''" by (rule trim_space_git [OF a]) (use s in auto)
  moreover have "cut ?r ''://'' = Some (scheme, host @ ''/'' @ ?p)"
    using s by (intro cut_append) auto
  moreover have "cut (host @ ''/'' @ ?p) ''/'' = Some (host, ?p)"
    using h by (intro cut_append) auto
  ultimately show ?thesis
    using split_plain_path [OF o n] o n trim_suffix_append [of ?r "''.git''"]
    by (simp add: SplitRepositoryRef_def plain_part_trim plain_part_def del: trim_suffix_append)
qed

lemma index_of_Some: "index_of s sub = Some i \<Longrightarrow> \<exists>b. s = take i s @ sub @ b \<and> i \<le> length s"
proof (induction s arbitrary: i)
  case Nil
  then show ?case by (auto split: if_splits)
next
  case (Cons c s)
  show ?case
  proof (cases "prefix sub (c # s)")
    case True
    with Cons.prems show ?thesis by (auto elim: prefixE)
  next
    case False
    with Cons.prems obtain j where "i = Suc j" "index_of s sub = Some j"
      by (auto split: if_splits)
    with Cons.IH [of j] show ?thesis by auto
  qed
qed

lemma SplitRepositoryRef_scp:
  assumes o: "plain_part o1" and n: "plain_part n1"
    and u: "is_ascii user_host" "user_host \<noteq> []" "CHR '':'' \<notin> set user_host"
      "\<not> is_space (byte (hd user_host))"
  shows "SplitRepositoryRef (user_host @ '':'' @ (o1 @ ''/'' @ n1) @ ''.git'') = Some (o1, n1)"
proof -
  let ?p = "o1 @ ''/'' @ n1" and ?r = "user_host @ '':'' @ o1 @ ''/'' @ n1"
  have a: "is_ascii ?r" using o n u by (auto simp: plain_part_def byte_def)
  have "trim_space (?r @ ''.git'') = ?r @ ''.git''" by (rule trim_space_git [OF a]) (use u in auto)
  moreover have "cut ?r ''://'' = None"
  proof (rule ccontr)
    assume "cut ?r ''://'' \<noteq> None"
    then obtain i where "index_of ?r ''://'' = Some i" by (auto simp: cut_def split: option.splits)
    then obtain b where "?r = take i ?r @ ''://'' @ b" using index_of_Some by blast
    then obtain t where e: "user_host @ CHR '':'' # ?p = t @ CHR '':'' # ''//'' @ b" by auto
    have "CHR '':'' \<notin> set ?p" using o n by (auto simp: plain_part_def)
    with e u(3) have "?p = ''//'' @ b"
      by (auto simp: append_eq_append_conv2 Cons_eq_append_conv append_eq_Cons_conv)
    moreover obtain c cs where "o1 = c # cs" using o by (cases o1) (auto simp: plain_part_def)
    ultimately show False using o by (auto simp: plain_part_def)
  qed
  moreover have "cut ?r '':'' = Some (user_host, ?p)" using u by (intro cut_append) auto
  ultimately show ?thesis
    using split_plain_path [OF o n] o n trim_suffix_append [of ?r "''.git''"]
    by (simp add: SplitRepositoryRef_def plain_part_trim plain_part_def del: trim_suffix_append)
qed

lemma EnsureSameOwner_None:
  "EnsureSameOwner ufold owner refs = None \<longleftrightarrow> (\<forall>ref \<in> set refs. SameOwner ufold owner ref)"
  by (auto simp: EnsureSameOwner_def Let_def filter_empty_conv)

text \<open>The three spellings of a repository read as the same owner and name:
  \<open>owner/name\<close>, \<open>scheme://host/owner/name.git\<close> and \<open>user@host:owner/name.git\<close>.\<close>

theorem SplitRepositoryRef_spellings:
  assumes "plain_part o1" and "plain_part n1" and "\<not> suffix ''.git'' n1"
    and "is_ascii scheme" and "scheme \<noteq> []" and "CHR '':'' \<notin> set scheme"
    and "\<not> is_space (byte (hd scheme))" and "is_ascii host" and "CHR ''/'' \<notin> set host"
    and "is_ascii user_host" and "user_host \<noteq> []" and "CHR '':'' \<notin> set user_host"
    and "\<not> is_space (byte (hd user_host))"
  shows "SplitRepositoryRef (o1 @ ''/'' @ n1) = Some (o1, n1) \<and>
    SplitRepositoryRef (scheme @ ''://'' @ host @ ''/'' @ (o1 @ ''/'' @ n1) @ ''.git'') = Some (o1, n1) \<and>
    SplitRepositoryRef (user_host @ '':'' @ (o1 @ ''/'' @ n1) @ ''.git'') = Some (o1, n1)"
  using assms SplitRepositoryRef_plain SplitRepositoryRef_https SplitRepositoryRef_scp by blast

lemma SplitRepositoryRef_spellings_witness:
  "SplitRepositoryRef ''acme/api'' = Some (''acme'', ''api'') \<and>
   SplitRepositoryRef ''https://github.com/acme/api.git'' = Some (''acme'', ''api'') \<and>
   SplitRepositoryRef ''git@github.com:acme/api.git'' = Some (''acme'', ''api'')"
proof -
  have p: "plain_part ''acme''" "plain_part ''api''"
    by (simp_all add: plain_part_def byte_def is_space_def in_range_def)
  have g: "\<not> suffix ''.git'' ''api''" by (simp add: suffix_def Cons_eq_append_conv)
  show ?thesis
    using SplitRepositoryRef_spellings [of "''acme''" "''api''" "''https''" "''github.com''" "''git@github.com''",
        OF p g]
    by (simp add: byte_def is_space_def in_range_def)
qed

section \<open>SetupState\<close>

record SetupState =
  Organisations :: int
  Repositories :: int
  RolesSet :: int
  RolesTotal :: int

definition NeedsOrganisation :: "SetupState \<Rightarrow> bool" where
  "NeedsOrganisation s \<longleftrightarrow> Organisations s < 1"

definition NeedsRepository :: "SetupState \<Rightarrow> bool" where
  "NeedsRepository s \<longleftrightarrow> Repositories s < 1"

definition NeedsRoles :: "SetupState \<Rightarrow> bool" where
  "NeedsRoles s \<longleftrightarrow> RolesTotal s < 1 \<or> RolesSet s < RolesTotal s"

definition SetupState_Complete :: "SetupState \<Rightarrow> bool" where
  "SetupState_Complete s \<longleftrightarrow> \<not> NeedsOrganisation s \<and> \<not> NeedsRepository s \<and> \<not> NeedsRoles s"

end
