(* ===== verification/Epic_States.thy ===== *)
theory Epic_States
  imports Prelude
begin

text \<open>
  The three status machines of \<open>internal/domain/epic\<close>: \<open>epic_state.go\<close>,
  \<open>issue_state.go\<close> and \<open>pull_request_state.go\<close> (with \<open>pull_request_status.go\<close>), and the
  flags of \<open>pull_request_flag.go\<close>. The Go types are strings with named constants; a
  datatype has one constructor per constant and one more for any other string, which is what
  a hand edited store can hold and what \<open>isEpicState\<close> and its like refuse.
\<close>

section \<open>Epics\<close>

datatype EpicState =
    EpicStateConcept | EpicStateRefine | EpicStateReview | EpicStateChangesRequested
  | EpicStateProposed | EpicStateReady | EpicStateDone | EpicStateClosed | EpicStateFailed
  | EpicStateOther string

datatype EpicEvent =
    EpicEventRefine | EpicEventReview | EpicEventRequestChanges | EpicEventPropose
  | EpicEventReady | EpicEventDone | EpicEventClose | EpicEventFail | EpicEventReset
  | EpicEventOther string

fun epic_state_string :: "EpicState \<Rightarrow> string" where
  "epic_state_string EpicStateConcept = ''Concept''"
| "epic_state_string EpicStateRefine = ''Refine''"
| "epic_state_string EpicStateReview = ''Review''"
| "epic_state_string EpicStateChangesRequested = ''ChangesRequested''"
| "epic_state_string EpicStateProposed = ''Proposed''"
| "epic_state_string EpicStateReady = ''Ready''"
| "epic_state_string EpicStateDone = ''Done''"
| "epic_state_string EpicStateClosed = ''Closed''"
| "epic_state_string EpicStateFailed = ''Failed''"
| "epic_state_string (EpicStateOther s) = s"

fun epic_event_string :: "EpicEvent \<Rightarrow> string" where
  "epic_event_string EpicEventRefine = ''refine''"
| "epic_event_string EpicEventReview = ''review''"
| "epic_event_string EpicEventRequestChanges = ''request_changes''"
| "epic_event_string EpicEventPropose = ''propose''"
| "epic_event_string EpicEventReady = ''ready''"
| "epic_event_string EpicEventDone = ''done''"
| "epic_event_string EpicEventClose = ''close''"
| "epic_event_string EpicEventFail = ''fail''"
| "epic_event_string EpicEventReset = ''reset''"
| "epic_event_string (EpicEventOther s) = s"

fun isEpicState :: "EpicState \<Rightarrow> bool" where
  "isEpicState (EpicStateOther s) = False"
| "isEpicState state = True"

definition epicTransition :: "EpicState \<Rightarrow> EpicEvent \<Rightarrow> EpicState option" where
  "epicTransition state event =
     (case event of
        EpicEventRefine \<Rightarrow>
          if state = EpicStateConcept \<or> state = EpicStateChangesRequested
          then Some EpicStateRefine else None
      | EpicEventReview \<Rightarrow>
          if state = EpicStateRefine \<or> state = EpicStateChangesRequested
          then Some EpicStateReview else None
      | EpicEventRequestChanges \<Rightarrow>
          if state = EpicStateReview \<or> state = EpicStateProposed \<or> state = EpicStateReady
          then Some EpicStateChangesRequested else None
      | EpicEventPropose \<Rightarrow> if state = EpicStateReview then Some EpicStateProposed else None
      | EpicEventReady \<Rightarrow> if state = EpicStateProposed then Some EpicStateReady else None
      | EpicEventDone \<Rightarrow> if state = EpicStateReady then Some EpicStateDone else None
      | EpicEventClose \<Rightarrow> if state \<noteq> EpicStateClosed then Some EpicStateClosed else None
      | EpicEventFail \<Rightarrow>
          if state \<noteq> EpicStateClosed \<and> state \<noteq> EpicStateFailed
          then Some EpicStateFailed else None
      | EpicEventReset \<Rightarrow> if state = EpicStateFailed then Some EpicStateConcept else None
      | EpicEventOther s \<Rightarrow> None)"

definition epicEventForTransition :: "EpicState \<Rightarrow> EpicState \<Rightarrow> EpicEvent option" where
  "epicEventForTransition current next' =
     (if current = EpicStateConcept \<and> next' = EpicStateRefine \<or>
         current = EpicStateChangesRequested \<and> next' = EpicStateRefine
      then Some EpicEventRefine
      else if current = EpicStateRefine \<and> next' = EpicStateReview \<or>
         current = EpicStateChangesRequested \<and> next' = EpicStateReview
      then Some EpicEventReview
      else if current = EpicStateReview \<and> next' = EpicStateChangesRequested \<or>
         current = EpicStateProposed \<and> next' = EpicStateChangesRequested \<or>
         current = EpicStateReady \<and> next' = EpicStateChangesRequested
      then Some EpicEventRequestChanges
      else if current = EpicStateReview \<and> next' = EpicStateProposed then Some EpicEventPropose
      else if current = EpicStateProposed \<and> next' = EpicStateReady then Some EpicEventReady
      else if current = EpicStateReady \<and> next' = EpicStateDone then Some EpicEventDone
      else if next' = EpicStateClosed then Some EpicEventClose
      else if current = EpicStateConcept \<and> next' = EpicStateFailed \<or>
         current = EpicStateRefine \<and> next' = EpicStateFailed \<or>
         current = EpicStateReview \<and> next' = EpicStateFailed \<or>
         current = EpicStateChangesRequested \<and> next' = EpicStateFailed \<or>
         current = EpicStateProposed \<and> next' = EpicStateFailed \<or>
         current = EpicStateReady \<and> next' = EpicStateFailed \<or>
         current = EpicStateDone \<and> next' = EpicStateFailed
      then Some EpicEventFail
      else if current = EpicStateFailed \<and> next' = EpicStateConcept then Some EpicEventReset
      else None)"

definition allEpicStates :: "EpicState list" where
  "allEpicStates =
     [EpicStateConcept, EpicStateRefine, EpicStateReview, EpicStateChangesRequested,
      EpicStateProposed, EpicStateReady, EpicStateDone, EpicStateClosed, EpicStateFailed]"

definition LegalTransitions :: "EpicState \<Rightarrow> EpicState list" where
  "LegalTransitions current =
     filter (\<lambda>next'. next' \<noteq> current \<and> epicEventForTransition current next' \<noteq> None)
       allEpicStates"

definition NextApprovalState :: "EpicState \<Rightarrow> EpicState option" where
  "NextApprovalState current =
     (case current of
        EpicStateConcept \<Rightarrow> Some EpicStateRefine
      | EpicStateRefine \<Rightarrow> Some EpicStateReview
      | EpicStateReview \<Rightarrow> Some EpicStateProposed
      | EpicStateChangesRequested \<Rightarrow> Some EpicStateReview
      | EpicStateProposed \<Rightarrow> Some EpicStateReady
      | EpicStateReady \<Rightarrow> Some EpicStateDone
      | _ \<Rightarrow> None)"

text \<open>The two halves of the table agree: the event found for a move is the one that makes it.\<close>

lemma epic_event_makes_move:
  "epicEventForTransition current next' = Some event \<Longrightarrow> current \<noteq> next' \<Longrightarrow>
     epicTransition current event = Some next'"
  by (auto simp: epicEventForTransition_def epicTransition_def split: if_splits)

lemma epic_move_has_event:
  "isEpicState current \<Longrightarrow> epicTransition current event = Some next' \<Longrightarrow>
     epicEventForTransition current next' = Some event"
  by (cases current; cases event)
    (auto simp: epicEventForTransition_def epicTransition_def split: if_splits)

lemma epic_transition_state:
  "isEpicState state \<Longrightarrow> epicTransition state event = Some next' \<Longrightarrow>
     isEpicState next' \<and> next' \<noteq> state"
  by (cases event) (auto simp: epicTransition_def split: if_splits)

lemma set_allEpicStates: "set allEpicStates = {s. isEpicState s}"
proof -
  have "s \<in> set allEpicStates \<longleftrightarrow> isEpicState s" for s
    by (cases s) (simp_all add: allEpicStates_def)
  then show ?thesis by blast
qed

lemma LegalTransitions_iff:
  "isEpicState current \<Longrightarrow>
     next' \<in> set (LegalTransitions current) \<longleftrightarrow> (\<exists>event. epicTransition current event = Some next')"
  by (simp add: LegalTransitions_def set_allEpicStates)
    (metis epic_event_makes_move epic_move_has_event epic_transition_state not_None_eq)

text \<open>
  A state the store does not know is offered \<open>Closed\<close>, the one choice \<open>Apply\<close>'s guard
  refuses to make from it.
\<close>

lemma LegalTransitions_other: "LegalTransitions (EpicStateOther s) = [EpicStateClosed]"
  by (simp add: LegalTransitions_def allEpicStates_def epicEventForTransition_def)

lemma NextApprovalState_legal:
  "NextApprovalState s = Some t \<Longrightarrow> t \<in> set (LegalTransitions s)"
  by (cases s) (auto simp: NextApprovalState_def LegalTransitions_def allEpicStates_def
      epicEventForTransition_def)

interpretation epic_machine: status_machine epicTransition "\<lambda>s. s = EpicStateClosed"
  by unfold_locales (auto simp: epicTransition_def split: EpicEvent.split)

section \<open>Issues\<close>

datatype IssueState =
    IssueStateOpen | IssueStateCoding | IssueStateReview | IssueStatePR | IssueStateStale
  | IssueStateMerged | IssueStateClosed | IssueStateOther string

fun issue_state_string :: "IssueState \<Rightarrow> string" where
  "issue_state_string IssueStateOpen = ''Open''"
| "issue_state_string IssueStateCoding = ''Coding''"
| "issue_state_string IssueStateReview = ''Review''"
| "issue_state_string IssueStatePR = ''Pr''"
| "issue_state_string IssueStateStale = ''Stale''"
| "issue_state_string IssueStateMerged = ''Merged''"
| "issue_state_string IssueStateClosed = ''Closed''"
| "issue_state_string (IssueStateOther s) = s"

fun isIssueState :: "IssueState \<Rightarrow> bool" where
  "isIssueState (IssueStateOther s) = False"
| "isIssueState state = True"

definition issueTransition :: "IssueState \<Rightarrow> IssueState \<Rightarrow> bool" where
  "issueTransition current next' \<longleftrightarrow>
     (if current = IssueStateMerged \<or> current = IssueStateClosed then False
      else case next' of
        IssueStateClosed \<Rightarrow> True
      | IssueStateOpen \<Rightarrow> True
      | IssueStateCoding \<Rightarrow> current = IssueStateOpen \<or> current = IssueStateReview
      | IssueStateReview \<Rightarrow>
          current = IssueStateCoding \<or> current = IssueStateStale \<or> current = IssueStatePR
      | IssueStatePR \<Rightarrow> current = IssueStateReview
      | IssueStateStale \<Rightarrow> current = IssueStatePR
      | IssueStateMerged \<Rightarrow> current = IssueStatePR
      | IssueStateOther s \<Rightarrow> False)"

text \<open>An issue moves by naming its next state; as a machine, the event is that state.\<close>

definition issue_step :: "IssueState \<Rightarrow> IssueState \<Rightarrow> IssueState option" where
  "issue_step s t = (if issueTransition s t then Some t else None)"

definition issue_settled :: "IssueState \<Rightarrow> bool" where
  "issue_settled s \<longleftrightarrow> s = IssueStateMerged \<or> s = IssueStateClosed"

interpretation issue_machine: status_machine issue_step issue_settled
  by unfold_locales (simp add: issue_step_def issueTransition_def issue_settled_def)

section \<open>Pull requests\<close>

datatype PullRequestStatus =
  PullRequestOpen | PullRequestClosed | PullRequestMerged | PullRequestStatusOther string

datatype PullRequestEvent =
  PullRequestEventMerge | PullRequestEventClose | PullRequestEventOther string

fun pull_request_status_string :: "PullRequestStatus \<Rightarrow> string" where
  "pull_request_status_string PullRequestOpen = ''open''"
| "pull_request_status_string PullRequestClosed = ''closed''"
| "pull_request_status_string PullRequestMerged = ''merged''"
| "pull_request_status_string (PullRequestStatusOther s) = s"

fun pull_request_event_string :: "PullRequestEvent \<Rightarrow> string" where
  "pull_request_event_string PullRequestEventMerge = ''merge''"
| "pull_request_event_string PullRequestEventClose = ''close''"
| "pull_request_event_string (PullRequestEventOther s) = s"

fun isPullRequestStatus :: "PullRequestStatus \<Rightarrow> bool" where
  "isPullRequestStatus (PullRequestStatusOther s) = False"
| "isPullRequestStatus status = True"

definition pullRequestEventForTransition ::
    "PullRequestStatus \<Rightarrow> PullRequestStatus \<Rightarrow> PullRequestEvent option" where
  "pullRequestEventForTransition current next' =
     (if current = PullRequestOpen \<and> next' = PullRequestMerged then Some PullRequestEventMerge
      else if current = PullRequestOpen \<and> next' = PullRequestClosed then Some PullRequestEventClose
      else None)"

definition pullRequestTransition ::
    "PullRequestStatus \<Rightarrow> PullRequestEvent \<Rightarrow> PullRequestStatus option" where
  "pullRequestTransition status event =
     (if status \<noteq> PullRequestOpen then None
      else case event of
        PullRequestEventMerge \<Rightarrow> Some PullRequestMerged
      | PullRequestEventClose \<Rightarrow> Some PullRequestClosed
      | PullRequestEventOther s \<Rightarrow> None)"

definition pull_request_rank :: "PullRequestStatus \<Rightarrow> nat" where
  "pull_request_rank s = (if s = PullRequestOpen then 0 else 1)"

interpretation pull_request_machine:
  ranked_machine pullRequestTransition "\<lambda>s. s \<noteq> PullRequestOpen" pull_request_rank
  by unfold_locales
    (auto simp: pullRequestTransition_def pull_request_rank_def split: if_splits PullRequestEvent.splits)

section \<open>Pull request flags\<close>

datatype PullRequestFlag =
    FlagBlocked | FlagRoundLimit | FlagFailed | FlagHumanNeeded | FlagStale
  | PullRequestFlagOther string

fun pull_request_flag_string :: "PullRequestFlag \<Rightarrow> string" where
  "pull_request_flag_string FlagBlocked = ''blocked''"
| "pull_request_flag_string FlagRoundLimit = ''round-limit''"
| "pull_request_flag_string FlagFailed = ''failed''"
| "pull_request_flag_string FlagHumanNeeded = ''human-needed''"
| "pull_request_flag_string FlagStale = ''stale''"
| "pull_request_flag_string (PullRequestFlagOther s) = s"

fun isPullRequestFlag :: "PullRequestFlag \<Rightarrow> bool" where
  "isPullRequestFlag (PullRequestFlagOther s) = False"
| "isPullRequestFlag flag = True"

end
