(* ===== verification/Pull_Requests.thy ===== *)
theory Pull_Requests
  imports Go_Strings Epic_States
begin

text \<open>
  \<open>comment.go\<close>, \<open>pull_request.go\<close> and the methods of \<open>pull_request_flag.go\<close> and
  \<open>pull_request_state.go\<close> in \<open>internal/domain/epic\<close>: one pull request with its flags and
  its round counters, and the laws of the counters that bound the argument between a coding
  and a reviewing agent. \<open>time.Time\<close> is an \<open>int\<close> with 0 for the zero time; the identifier
  \<open>domain.MintULID\<close> draws and the instant \<open>time.Now\<close> reads are arguments.
\<close>

section \<open>Comments\<close>

record Comment =
  c_ID :: string
  c_Author :: string
  c_CreatedAt :: int
  c_Body :: string

definition Comment_Validate :: "Comment \<Rightarrow> go_error option" where
  "Comment_Validate c =
     (if c_ID c = [] then Some (Errorf ''comment id is required'' [])
      else if trim_space (c_Author c) = [] then Some (Errorf ''comment author is required'' [])
      else if c_CreatedAt c = 0 then Some (Errorf ''comment creation time is required'' [])
      else None)"

definition Comment_SetBody :: "string \<Rightarrow> Comment update" where
  "Comment_SetBody body c = (None, c\<lparr>c_Body := body\<rparr>)"

definition CreateComment :: "string \<Rightarrow> int \<Rightarrow> string \<Rightarrow> string \<Rightarrow> go_error + Comment" where
  "CreateComment ulid now author body =
     (let comment = \<lparr>c_ID = ulid, c_Author = trim_space author, c_CreatedAt = now, c_Body = []\<rparr>
      in case Comment_Validate comment of
           Some e \<Rightarrow> Inl e
         | None \<Rightarrow> (case Comment_SetBody body comment of
                      (Some e, _) \<Rightarrow> Inl e | (None, comment) \<Rightarrow> Inr comment))"

lemma CreateComment_valid:
  "CreateComment ulid now author body = Inr c \<Longrightarrow>
     Comment_Validate c = None \<and> c_Author c = trim_space author \<and> c_Body c = body"
  by (auto simp: CreateComment_def Comment_Validate_def Comment_SetBody_def Let_def split: if_splits)

section \<open>The record\<close>

record PullRequest =
  p_ID :: string
  p_IssueID :: string
  p_Title :: string
  p_Status :: PullRequestStatus
  p_Repository :: string
  p_Number :: int
  p_URL :: string
  p_Head :: string
  p_Base :: string
  p_Flags :: "PullRequestFlag list"
  p_ReviewedHead :: string
  p_ReviewedBase :: string
  p_Rounds :: int
  p_Reviews :: int
  p_RoundsGranted :: int
  p_CodingRounds :: int
  p_Approved :: bool
  p_CreatedAt :: int
  p_Comments :: "Comment list"

definition MaxCodingRounds :: int where
  "MaxCodingRounds = 10"

definition ReviewIsStale :: "PullRequest \<Rightarrow> string \<Rightarrow> string \<Rightarrow> bool" where
  "ReviewIsStale p head base \<longleftrightarrow> p_ReviewedHead p \<noteq> head \<or> p_ReviewedBase p \<noteq> base"

definition CanCode :: "PullRequest \<Rightarrow> bool" where
  "CanCode p \<longleftrightarrow> p_CodingRounds p < MaxCodingRounds + p_RoundsGranted p"

definition invalidateReview :: "PullRequest \<Rightarrow> PullRequest" where
  "invalidateReview p = p\<lparr>p_Approved := False, p_ReviewedHead := [], p_ReviewedBase := []\<rparr>"

section \<open>Flags\<close>

definition HasFlag :: "PullRequest \<Rightarrow> PullRequestFlag \<Rightarrow> bool" where
  "HasFlag p flag = list_ex (\<lambda>current. current = flag) (p_Flags p)"

definition AddFlag :: "PullRequestFlag \<Rightarrow> PullRequest update" where
  "AddFlag flag p =
     (if \<not> isPullRequestFlag flag
      then (Some (Errorf ''unknown pull request flag %q'' [GStr (pull_request_flag_string flag)]), p)
      else if HasFlag p flag then (None, p)
      else (None, p\<lparr>p_Flags := p_Flags p @ [flag]\<rparr>))"

definition RemoveFlag :: "PullRequestFlag \<Rightarrow> PullRequest \<Rightarrow> PullRequest" where
  "RemoveFlag flag p = p\<lparr>p_Flags := filter (\<lambda>current. current \<noteq> flag) (p_Flags p)\<rparr>"

definition SetFlag :: "PullRequestFlag \<Rightarrow> bool \<Rightarrow> PullRequest update" where
  "SetFlag flag present p = (if present then AddFlag flag p else (None, RemoveFlag flag p))"

lemma HasFlag_iff: "HasFlag p flag \<longleftrightarrow> flag \<in> set (p_Flags p)"
  by (auto simp: HasFlag_def list_ex_iff)

lemma HasFlag_RemoveFlag [simp]: "HasFlag (RemoveFlag flag p) g \<longleftrightarrow> HasFlag p g \<and> g \<noteq> flag"
  by (auto simp: HasFlag_iff RemoveFlag_def)

text \<open>For a known flag \<open>SetFlag\<close> cannot fail, and it only ever changes the flags.\<close>

lemma SetFlag_known:
  "isPullRequestFlag flag \<Longrightarrow> fst (SetFlag flag present p) = None"
  by (simp add: SetFlag_def AddFlag_def)

lemma SetFlag_HasFlag:
  "isPullRequestFlag flag \<Longrightarrow>
     HasFlag (snd (SetFlag flag present p)) g \<longleftrightarrow> (if g = flag then present else HasFlag p g)"
  by (auto simp: SetFlag_def AddFlag_def HasFlag_iff RemoveFlag_def)

lemma SetFlag_frame:
  "\<exists>fs. snd (SetFlag flag present p) = p\<lparr>p_Flags := fs\<rparr> \<and> set fs \<subseteq> insert flag (set (p_Flags p))
     \<and> (flag \<in> set fs \<longrightarrow> isPullRequestFlag flag \<or> flag \<in> set (p_Flags p))"
  by (rule exI [of _ "p_Flags (snd (SetFlag flag present p))"])
    (auto simp: SetFlag_def AddFlag_def RemoveFlag_def)

section \<open>Status\<close>

definition PullRequest_Apply :: "PullRequestEvent \<Rightarrow> PullRequest update" where
  "PullRequest_Apply event p =
     (if \<not> isPullRequestStatus (p_Status p)
      then (Some (Errorf ''pull request has invalid status %q''
              [GStr (pull_request_status_string (p_Status p))]), p)
      else (case pullRequestTransition (p_Status p) event of
              None \<Rightarrow>
                (Some (Errorf ''cannot apply pull request event %q from status %q''
                   [GStr (pull_request_event_string event),
                    GStr (pull_request_status_string (p_Status p))]), p)
            | Some next' \<Rightarrow> (None, p\<lparr>p_Status := next'\<rparr>)))"

definition PullRequest_TransitionTo :: "PullRequestStatus \<Rightarrow> PullRequest update" where
  "PullRequest_TransitionTo next' p =
     (if \<not> isPullRequestStatus next'
      then (Some (Errorf ''pull request has invalid status %q''
              [GStr (pull_request_status_string next')]), p)
      else if p_Status p = next' then (None, p)
      else (case pullRequestEventForTransition (p_Status p) next' of
              None \<Rightarrow>
                (Some (Errorf ''cannot transition pull request from %q to %q''
                   [GStr (pull_request_status_string (p_Status p)),
                    GStr (pull_request_status_string next')]), p)
            | Some event \<Rightarrow> PullRequest_Apply event p))"

lemma PullRequest_TransitionTo_iff:
  "PullRequest_TransitionTo next' p = (None, p') \<longleftrightarrow>
     isPullRequestStatus next' \<and> p' = p\<lparr>p_Status := next'\<rparr> \<and>
     (p_Status p = next' \<or> p_Status p = PullRequestOpen)"
proof (cases next')
  case (PullRequestStatusOther s)
  then show ?thesis by (simp add: PullRequest_TransitionTo_def)
qed (auto simp: PullRequest_TransitionTo_def PullRequest_Apply_def pullRequestEventForTransition_def
       pullRequestTransition_def split: option.splits if_splits)

lemma PullRequest_TransitionTo_atomic: "atomic (PullRequest_TransitionTo next')"
  by (rule atomicI) (auto simp: PullRequest_TransitionTo_def PullRequest_Apply_def
      split: option.splits if_splits)

section \<open>Rounds\<close>

definition RecordCodingRound :: "PullRequest update" where
  "RecordCodingRound p =
     (let p = p\<lparr>p_Rounds := p_Rounds p + 1\<rparr>;
          p = p\<lparr>p_CodingRounds := p_CodingRounds p + 1\<rparr>;
          p = invalidateReview p;
          p = RemoveFlag FlagFailed p
      in SetFlag FlagRoundLimit (\<not> CanCode p) p)"

definition GrantCodingRound :: "PullRequest update" where
  "GrantCodingRound p =
     (let p = p\<lparr>p_RoundsGranted := p_RoundsGranted p + 1\<rparr>;
          p = RemoveFlag FlagFailed p
      in SetFlag FlagRoundLimit (\<not> CanCode p) p)"

definition RecordMergeRound :: "PullRequest \<Rightarrow> PullRequest" where
  "RecordMergeRound p =
     (let p = p\<lparr>p_Rounds := p_Rounds p + 1\<rparr>;
          p = invalidateReview p;
          p = RemoveFlag FlagFailed p
      in RemoveFlag FlagStale p)"

definition RecordExternalPush :: "PullRequest \<Rightarrow> PullRequest" where
  "RecordExternalPush p = invalidateReview (p\<lparr>p_Rounds := p_Rounds p + 1\<rparr>)"

definition RecordReview :: "bool \<Rightarrow> string \<Rightarrow> string \<Rightarrow> PullRequest update" where
  "RecordReview approved head base p =
     (let p = p\<lparr>p_Reviews := p_Rounds p\<rparr>;
          p = p\<lparr>p_Approved := approved\<rparr>;
          p = p\<lparr>p_ReviewedHead := head, p_ReviewedBase := base\<rparr>;
          p = RemoveFlag FlagFailed p
      in SetFlag FlagRoundLimit (\<not> approved \<and> \<not> CanCode p) p)"

definition PullRequest_Validate :: "PullRequest \<Rightarrow> go_error option" where
  "PullRequest_Validate p =
     (if p_ID p = [] \<or> p_IssueID p = [] \<or> trim_space (p_Title p) = []
      then Some (Errorf ''pull request id, issue, and title are required'' [])
      else if \<not> isPullRequestStatus (p_Status p)
      then Some (Errorf ''pull request %s has invalid status %q''
             [GStr (p_ID p), GStr (pull_request_status_string (p_Status p))])
      else (case find (\<lambda>flag. \<not> isPullRequestFlag flag) (p_Flags p) of
        Some flag \<Rightarrow> Some (Errorf ''pull request %s has invalid flag %q''
             [GStr (p_ID p), GStr (pull_request_flag_string flag)])
      | None \<Rightarrow>
          if p_Rounds p < 0 \<or> p_Reviews p < 0 \<or> p_RoundsGranted p < 0 \<or> p_CodingRounds p < 0
          then Some (Errorf ''pull request %s has negative round counts'' [GStr (p_ID p)])
          else if p_Rounds p < p_Reviews p
          then Some (Errorf ''pull request %s reviewed more rounds than it ran'' [GStr (p_ID p)])
          else if p_Rounds p < p_CodingRounds p
          then Some (Errorf ''pull request %s counts more coding rounds than it ran'' [GStr (p_ID p)])
          else first_error Comment_Validate (p_Comments p)))"

definition CreatePullRequest ::
    "string \<Rightarrow> int \<Rightarrow> string \<Rightarrow> string \<Rightarrow> string \<Rightarrow> string \<Rightarrow> string \<Rightarrow> go_error + PullRequest" where
  "CreatePullRequest ulid now issueID title repository head base =
     (let pullRequest =
        \<lparr>p_ID = ulid, p_IssueID = issueID, p_Title = trim_space title,
         p_Status = PullRequestOpen, p_Repository = trim_space repository, p_Number = 0,
         p_URL = [], p_Head = trim_space head, p_Base = trim_space base, p_Flags = [],
         p_ReviewedHead = [], p_ReviewedBase = [], p_Rounds = 0, p_Reviews = 0,
         p_RoundsGranted = 0, p_CodingRounds = 0, p_Approved = False, p_CreatedAt = now,
         p_Comments = []\<rparr>
      in case PullRequest_Validate pullRequest of Some e \<Rightarrow> Inl e | None \<Rightarrow> Inr pullRequest)"

definition PullRequest_AddComment :: "Comment \<Rightarrow> PullRequest update" where
  "PullRequest_AddComment comment p =
     (case Comment_Validate comment of
        Some e \<Rightarrow> (Some e, p)
      | None \<Rightarrow> (None, p\<lparr>p_Comments := p_Comments p @ [comment]\<rparr>))"

section \<open>Laws of the rounds\<close>

text \<open>What \<open>Validate\<close> accepts, without its order of tests.\<close>

definition counts_ok :: "PullRequest \<Rightarrow> bool" where
  "counts_ok p \<longleftrightarrow> 0 \<le> p_Reviews p \<and> p_Reviews p \<le> p_Rounds p \<and>
     0 \<le> p_CodingRounds p \<and> p_CodingRounds p \<le> p_Rounds p \<and> 0 \<le> p_RoundsGranted p"

lemma PullRequest_Validate_None:
  "PullRequest_Validate p = None \<longleftrightarrow>
     p_ID p \<noteq> [] \<and> p_IssueID p \<noteq> [] \<and> trim_space (p_Title p) \<noteq> [] \<and>
     isPullRequestStatus (p_Status p) \<and> (\<forall>flag \<in> set (p_Flags p). isPullRequestFlag flag) \<and>
     counts_ok p \<and> (\<forall>c \<in> set (p_Comments p). Comment_Validate c = None)"
  by (auto simp: PullRequest_Validate_def counts_ok_def find_None_iff find_Some_iff first_error_None
      split: option.splits if_splits)

lemma CreatePullRequest_fields:
  "CreatePullRequest ulid now issueID title repository head base = Inr p \<Longrightarrow>
     PullRequest_Validate p = None \<and> p_ID p = ulid \<and> p_IssueID p = issueID \<and>
     p_Status p = PullRequestOpen \<and> p_Flags p = [] \<and> p_Rounds p = 0 \<and> p_Reviews p = 0 \<and>
     p_CodingRounds p = 0 \<and> p_RoundsGranted p = 0 \<and> \<not> p_Approved p \<and>
     p_ReviewedHead p = [] \<and> p_ReviewedBase p = [] \<and> p_Comments p = []"
  by (auto simp: CreatePullRequest_def Let_def split: option.splits)

text \<open>The recorders in one equation each: what they leave, up to the flags.\<close>

lemma SetFlag_eq:
  "isPullRequestFlag flag \<Longrightarrow>
     SetFlag flag present p = (None, snd (SetFlag flag present p))"
  by (simp add: prod_eq_iff SetFlag_known)

lemma SetFlag_snd:
  "isPullRequestFlag flag \<Longrightarrow> snd (SetFlag flag present p) =
     p\<lparr>p_Flags := (if present then (if flag \<in> set (p_Flags p) then p_Flags p else p_Flags p @ [flag])
                   else filter (\<lambda>g. g \<noteq> flag) (p_Flags p))\<rparr>"
  by (simp add: SetFlag_def AddFlag_def RemoveFlag_def HasFlag_iff)

lemma known_flag_closed:
  "isPullRequestFlag flag \<Longrightarrow> \<forall>g \<in> set (p_Flags p). isPullRequestFlag g \<Longrightarrow>
     \<forall>g \<in> set (p_Flags (snd (SetFlag flag present p))). isPullRequestFlag g"
  by (auto simp: SetFlag_snd)

lemmas round_defs = RecordCodingRound_def GrantCodingRound_def RecordMergeRound_def
  RecordExternalPush_def RecordReview_def invalidateReview_def RemoveFlag_def Let_def

lemma RecordCodingRound_total: "fst (RecordCodingRound p) = None"
  by (simp add: RecordCodingRound_def Let_def SetFlag_known)

lemma GrantCodingRound_total: "fst (GrantCodingRound p) = None"
  by (simp add: GrantCodingRound_def Let_def SetFlag_known)

lemma RecordReview_total: "fst (RecordReview approved head base p) = None"
  by (simp add: RecordReview_def Let_def SetFlag_known)

section \<open>A pull request through the loop\<close>

text \<open>
  What happens to an open pull request: a coding round, which \<open>IssueRole\<close> starts only while
  \<open>CanCode\<close>, a merge resolution, a push by hand, a verdict, and a person's grant.
\<close>

datatype round_event =
  CodingRound | MergeRound | ExternalPush | ReviewRound bool string string | Grant

definition round_step :: "PullRequest \<Rightarrow> round_event \<Rightarrow> PullRequest option" where
  "round_step p event =
     (case event of
        CodingRound \<Rightarrow> if CanCode p then Some (snd (RecordCodingRound p)) else None
      | MergeRound \<Rightarrow> Some (RecordMergeRound p)
      | ExternalPush \<Rightarrow> Some (RecordExternalPush p)
      | ReviewRound approved head base \<Rightarrow> Some (snd (RecordReview approved head base p))
      | Grant \<Rightarrow> Some (snd (GrantCodingRound p)))"

text \<open>
  The invariant of the loop: the counters are consistent, the coding rounds within what was
  allowed, the round limit flag never on a pull request that may still code, and an approval
  is a verdict on everything the branch holds.
\<close>

definition rounds_inv :: "PullRequest \<Rightarrow> bool" where
  "rounds_inv p \<longleftrightarrow> counts_ok p \<and> p_CodingRounds p \<le> MaxCodingRounds + p_RoundsGranted p \<and>
     (HasFlag p FlagRoundLimit \<longrightarrow> \<not> CanCode p) \<and> (p_Approved p \<longrightarrow> p_Reviews p = p_Rounds p)"

lemma rounds_inv_step:
  assumes "rounds_inv p" and "round_step p event = Some q"
  shows "rounds_inv q"
  using assms
  by (cases event)
    (auto simp: round_step_def rounds_inv_def counts_ok_def round_defs SetFlag_snd CanCode_def
      HasFlag_iff split: if_splits)

lemma rounds_inv_run:
  "rounds_inv p \<Longrightarrow> run_events round_step p es = Some q \<Longrightarrow> rounds_inv q"
  by (induction es arbitrary: p) (auto split: option.splits dest: rounds_inv_step)

lemma rounds_inv_create:
  assumes "CreatePullRequest ulid now issueID title repository head base = Inr p"
  shows "rounds_inv p"
  using CreatePullRequest_fields [OF assms]
  by (auto simp: rounds_inv_def counts_ok_def MaxCodingRounds_def HasFlag_iff)

lemma round_step_counts:
  "round_step p event = Some q \<Longrightarrow>
     p_CodingRounds q = p_CodingRounds p + (if event = CodingRound then 1 else 0) \<and>
     p_RoundsGranted q = p_RoundsGranted p + (if event = Grant then 1 else 0)"
  by (cases event) (auto simp: round_step_def round_defs SetFlag_snd split: if_splits)

lemma round_run_counts:
  "run_events round_step p es = Some q \<Longrightarrow>
     p_CodingRounds q = p_CodingRounds p + int (count_list es CodingRound) \<and>
     p_RoundsGranted q = p_RoundsGranted p + int (count_list es Grant)"
proof (induction es arbitrary: p)
  case Nil
  then show ?case by simp
next
  case (Cons e es)
  then obtain u where "round_step p e = Some u" "run_events round_step u es = Some q"
    by (auto split: option.splits)
  with Cons.IH round_step_counts [of p e u] show ?case by auto
qed

text \<open>The argument between coder and reviewer ends: however the rounds of a fresh pull
  request interleave, it gets at most \<open>MaxCodingRounds\<close> coding rounds and one more for every
  grant by a person; the counters stay consistent, the round limit flag never stands on a pull
  request that may still code, and an approval always covers every round on the branch.\<close>

theorem coding_rounds_are_bounded:
  assumes "CreatePullRequest ulid now issueID title repository head base = Inr p"
    and "run_events round_step p es = Some q"
  shows "int (count_list es CodingRound) \<le> MaxCodingRounds + int (count_list es Grant) \<and>
    rounds_inv q"
proof -
  have inv: "rounds_inv q" by (rule rounds_inv_run [OF rounds_inv_create [OF assms(1)] assms(2)])
  with round_run_counts [OF assms(2)] CreatePullRequest_fields [OF assms(1)] show ?thesis
    by (auto simp: rounds_inv_def)
qed

lemma coding_rounds_are_bounded_witness:
  "\<exists>p q. CreatePullRequest ''P'' 1 ''I'' ''Task'' ''api'' ''h'' ''main'' = Inr p \<and>
     run_events round_step p [CodingRound, ReviewRound False ''h'' ''b'', CodingRound, Grant] = Some q \<and>
     int (count_list [CodingRound, ReviewRound False ''h'' ''b'', CodingRound, Grant] CodingRound)
       \<le> MaxCodingRounds + int (count_list [CodingRound, ReviewRound False ''h'' ''b'', CodingRound, Grant] Grant) \<and>
     rounds_inv q"
proof -
  let ?es = "[CodingRound, ReviewRound False ''h'' ''b'', CodingRound, Grant]"
  have "trim_space ''Task'' = ''Task''" by code_simp
  then obtain p where p: "CreatePullRequest ''P'' 1 ''I'' ''Task'' ''api'' ''h'' ''main'' = Inr p"
    by (cases "CreatePullRequest ''P'' 1 ''I'' ''Task'' ''api'' ''h'' ''main''")
      (auto simp: CreatePullRequest_def PullRequest_Validate_None Let_def split: option.splits
        simp: PullRequest_Validate_def)
  obtain q where q: "run_events round_step p ?es = Some q"
    using CreatePullRequest_fields [OF p]
    by (auto simp: round_step_def CanCode_def MaxCodingRounds_def round_defs SetFlag_snd)
  from coding_rounds_are_bounded [OF p q] p q show ?thesis by blast
qed

text \<open>A verdict is about commits: right after \<open>RecordReview\<close> it is current for exactly the head
  and base it was given, and any later round or push leaves it stale, unapproved and owed again.\<close>

theorem verdict_covers_one_head:
  assumes "snd (RecordReview approved head base p) = q" and "counts_ok p" and "head \<noteq> []"
    and "q' \<in> {snd (RecordCodingRound q), RecordMergeRound q, RecordExternalPush q}"
  shows "(ReviewIsStale q h b \<longleftrightarrow> h \<noteq> head \<or> b \<noteq> base) \<and> p_Approved q = approved \<and>
    p_Reviews q = p_Rounds q \<and>
    ReviewIsStale q' head base \<and> \<not> p_Approved q' \<and> p_Reviews q' < p_Rounds q'"
  using assms by (auto simp: round_defs SetFlag_snd ReviewIsStale_def counts_ok_def)

lemma verdict_covers_one_head_witness:
  "\<exists>p q. snd (RecordReview True ''h'' ''b'' p) = q \<and> counts_ok p \<and> \<not> ReviewIsStale q ''h'' ''b'' \<and>
     ReviewIsStale (RecordExternalPush q) ''h'' ''b''"
proof -
  define p where "p = \<lparr>p_ID = ''P'', p_IssueID = ''I'', p_Title = ''T'', p_Status = PullRequestOpen,
    p_Repository = ''r'', p_Number = 0, p_URL = [], p_Head = [], p_Base = [], p_Flags = [],
    p_ReviewedHead = [], p_ReviewedBase = [], p_Rounds = 1, p_Reviews = 0, p_RoundsGranted = 0,
    p_CodingRounds = 1, p_Approved = False, p_CreatedAt = 1, p_Comments = []\<rparr>"
  have c: "counts_ok p" by (simp add: p_def counts_ok_def)
  have n: "''h'' \<noteq> []" by simp
  let ?q = "snd (RecordReview True ''h'' ''b'' p)"
  have "\<not> ReviewIsStale ?q ''h'' ''b'' \<and> ReviewIsStale (RecordExternalPush ?q) ''h'' ''b''"
    using verdict_covers_one_head [OF refl c n, where h = "''h''" and b = "''b''" and base = "''b''"
        and approved = True and q' = "RecordExternalPush ?q"] by simp
  with c show ?thesis by blast
qed

end
