(* ===== verification/Epic_Aggregate.thy ===== *)
theory Epic_Aggregate
  imports Slugs Pull_Requests
begin

text \<open>
  The epic aggregate: \<open>issue.go\<close>, the methods of \<open>issue_state.go\<close> and \<open>epic_state.go\<close>,
  and the operations of \<open>epic.go\<close> and \<open>epic_progress.go\<close> that read or change one place of
  it. The operations that walk the tree of issues are in \<open>Epic_Tree\<close>, \<open>Validate\<close> in
  \<open>Epic_Validate\<close>.
\<close>

section \<open>Issues\<close>

record Issue =
  i_ID :: string
  i_Title :: string
  i_ParentID :: string
  i_Repository :: string
  i_State :: IssueState
  i_CreatedAt :: int
  i_Body :: string
  i_Comments :: "Comment list"
  i_BlockedBy :: "string list"

text \<open>Go's zero \<open>Issue{}\<close>, which a lookup of a missing key yields.\<close>

definition zero_Issue :: Issue where
  "zero_Issue = \<lparr>i_ID = [], i_Title = [], i_ParentID = [], i_Repository = [],
     i_State = IssueStateOther [], i_CreatedAt = 0, i_Body = [], i_Comments = [], i_BlockedBy = []\<rparr>"

definition settled :: "Issue \<Rightarrow> bool" where
  "settled i \<longleftrightarrow> i_State i = IssueStateMerged \<or> i_State i = IssueStateClosed"

definition Issue_Validate :: "Issue \<Rightarrow> go_error option" where
  "Issue_Validate i =
     (if i_ID i = [] \<or> trim_space (i_Title i) = []
      then Some (Errorf ''issue id and title are required'' [])
      else if \<not> isIssueState (i_State i)
      then Some (Errorf ''issue %s has invalid state %q''
             [GStr (i_ID i), GStr (issue_state_string (i_State i))])
      else None)"

definition createIssue ::
    "string \<Rightarrow> int \<Rightarrow> string \<Rightarrow> string \<Rightarrow> string \<Rightarrow> go_error option \<times> Issue" where
  "createIssue ulid now title body repository =
     (let title = trim_space title
      in if title = [] then (Some (Errorf ''issue title is required'' []), zero_Issue)
         else let issue = \<lparr>i_ID = ulid, i_Title = title, i_ParentID = [],
                i_Repository = trim_space repository, i_State = IssueStateOpen,
                i_CreatedAt = now, i_Body = body, i_Comments = [], i_BlockedBy = []\<rparr>
              in (Issue_Validate issue, issue))"

definition CreateIssue :: "string \<Rightarrow> int \<Rightarrow> string \<Rightarrow> string \<Rightarrow> go_error option \<times> Issue" where
  "CreateIssue ulid now title body = createIssue ulid now title body []"

definition CreateRepositoryIssue ::
    "string \<Rightarrow> int \<Rightarrow> string \<Rightarrow> string \<Rightarrow> string \<Rightarrow> go_error option \<times> Issue" where
  "CreateRepositoryIssue ulid now title body repository =
     createIssue ulid now title body repository"

definition Issue_SetTitle :: "string \<Rightarrow> Issue update" where
  "Issue_SetTitle title i =
     (if i_State i = IssueStateClosed
      then (Some (Errorf ''cannot set title of closed issue'' []), i)
      else (None, i\<lparr>i_Title := title\<rparr>))"

definition Issue_SetBody :: "string \<Rightarrow> Issue update" where
  "Issue_SetBody body i =
     (if i_State i = IssueStateClosed
      then (Some (Errorf ''cannot set body of closed issue'' []), i)
      else (None, i\<lparr>i_Body := body\<rparr>))"

definition Issue_AddComment :: "Comment \<Rightarrow> Issue update" where
  "Issue_AddComment comment i =
     (case Comment_Validate comment of
        Some e \<Rightarrow> (Some e, i)
      | None \<Rightarrow> (None, i\<lparr>i_Comments := i_Comments i @ [comment]\<rparr>))"

definition Issue_TransitionTo :: "IssueState \<Rightarrow> Issue update" where
  "Issue_TransitionTo next' i =
     (if \<not> isIssueState next'
      then (Some (Errorf ''issue has invalid state %q'' [GStr (issue_state_string next')]), i)
      else if i_State i = next' then (None, i)
      else if \<not> issueTransition (i_State i) next'
      then (Some (Errorf ''cannot transition issue from %q to %q''
             [GStr (issue_state_string (i_State i)), GStr (issue_state_string next')]), i)
      else (None, i\<lparr>i_State := next'\<rparr>))"

lemma Issue_TransitionTo_iff:
  "Issue_TransitionTo next' i = (None, i') \<longleftrightarrow>
     isIssueState next' \<and> i' = i\<lparr>i_State := next'\<rparr> \<and>
     (i_State i = next' \<or> issueTransition (i_State i) next')"
  by (auto simp: Issue_TransitionTo_def)

lemma Issue_TransitionTo_atomic: "atomic (Issue_TransitionTo next')"
  by (rule atomicI) (auto simp: Issue_TransitionTo_def split: if_splits)

lemma Issue_TransitionTo_closed:
  "i_State i \<noteq> IssueStateMerged \<Longrightarrow>
     Issue_TransitionTo IssueStateClosed i = (None, i\<lparr>i_State := IssueStateClosed\<rparr>)"
  by (auto simp: Issue_TransitionTo_def issueTransition_def)

section \<open>Epics\<close>

record Epic =
  e_ID :: string
  e_Title :: string
  e_Assignee :: string
  e_Repositories :: "string list"
  e_Body :: string
  e_State :: EpicState
  e_BranchPrefix :: string
  e_Issues :: "Issue list"
  e_PullRequests :: "PullRequest list"
  e_DraftingPasses :: int

definition MaxDraftingPasses :: int where
  "MaxDraftingPasses = 3"

definition Epic_Apply :: "EpicEvent \<Rightarrow> Epic update" where
  "Epic_Apply event e =
     (if \<not> isEpicState (e_State e)
      then (Some (Errorf ''epic has invalid state %q'' [GStr (epic_state_string (e_State e))]), e)
      else (case epicTransition (e_State e) event of
              None \<Rightarrow>
                (Some (Errorf ''cannot apply epic event %q from state %q''
                   [GStr (epic_event_string event), GStr (epic_state_string (e_State e))]), e)
            | Some next' \<Rightarrow> (None, e\<lparr>e_State := next'\<rparr>)))"

definition RecordDraftingPass :: "bool \<Rightarrow> Epic update" where
  "RecordDraftingPass approved e =
     (let passes = e_DraftingPasses e + 1;
          event = (if approved \<or> MaxDraftingPasses \<le> passes then EpicEventPropose
                   else EpicEventRequestChanges)
      in case Epic_Apply event e of
           (Some err, e) \<Rightarrow> (Some err, e)
         | (None, e) \<Rightarrow> (None, e\<lparr>e_DraftingPasses := passes\<rparr>))"

definition ForceState :: "EpicState \<Rightarrow> Epic update" where
  "ForceState next' e =
     (if \<not> isEpicState next'
      then (Some (Errorf ''epic has invalid state %q'' [GStr (epic_state_string next')]), e)
      else (None, e\<lparr>e_State := next'\<rparr>))"

definition Epic_TransitionTo :: "EpicState \<Rightarrow> Epic update" where
  "Epic_TransitionTo next' e =
     (if \<not> isEpicState next'
      then (Some (Errorf ''epic has invalid state %q'' [GStr (epic_state_string next')]), e)
      else if e_State e = next' then (None, e)
      else (case epicEventForTransition (e_State e) next' of
              None \<Rightarrow>
                (Some (Wrapf ''%w: cannot transition epic from %q to %q''
                   [GStr (epic_state_string (e_State e)), GStr (epic_state_string next')]
                   [Sentinel ''invalid epic transition'']), e)
            | Some event \<Rightarrow> Epic_Apply event e))"

lemma Epic_Apply_iff:
  "Epic_Apply event e = (None, e') \<longleftrightarrow>
     isEpicState (e_State e) \<and>
     (\<exists>s. epicTransition (e_State e) event = Some s \<and> e' = e\<lparr>e_State := s\<rparr>)"
  by (auto simp: Epic_Apply_def split: option.splits)

lemma Epic_Apply_atomic: "atomic (Epic_Apply event)"
  by (rule atomicI) (auto simp: Epic_Apply_def split: if_splits option.splits)

lemma RecordDraftingPass_atomic: "atomic (RecordDraftingPass approved)"
  by (rule atomicI)
    (auto simp: RecordDraftingPass_def Epic_Apply_def Let_def split: if_splits option.splits)

lemma Epic_TransitionTo_atomic: "atomic (Epic_TransitionTo next')"
  by (rule atomicI) (auto simp: Epic_TransitionTo_def Epic_Apply_def split: if_splits option.splits)

text \<open>For an epic in a known state, \<open>TransitionTo\<close> is exactly \<open>LegalTransitions\<close>.\<close>

lemma Epic_TransitionTo_iff:
  assumes "isEpicState (e_State e)"
  shows "Epic_TransitionTo next' e = (None, e') \<longleftrightarrow>
     e' = e\<lparr>e_State := next'\<rparr> \<and> (next' = e_State e \<or> next' \<in> set (LegalTransitions (e_State e)))"
proof -
  have "next' \<in> set (LegalTransitions (e_State e)) \<Longrightarrow> isEpicState next'"
    by (simp add: LegalTransitions_def set_allEpicStates)
  moreover have "next' \<in> set (LegalTransitions (e_State e)) \<longleftrightarrow>
      isEpicState next' \<and> next' \<noteq> e_State e \<and> epicEventForTransition (e_State e) next' \<noteq> None"
    by (simp add: LegalTransitions_def set_allEpicStates)
  ultimately show ?thesis
    using assms epic_event_makes_move [of "e_State e" next']
    by (auto simp: Epic_TransitionTo_def Epic_Apply_def split: option.splits)
qed

text \<open>
  A verdict ends the drafting argument: the pass that reaches the limit proposes the epic
  whatever the reviewer thinks.
\<close>

lemma RecordDraftingPass_iff:
  "RecordDraftingPass approved e = (None, e') \<longleftrightarrow>
     (if approved \<or> MaxDraftingPasses \<le> e_DraftingPasses e + 1
      then e_State e = EpicStateReview \<and>
        e' = e\<lparr>e_State := EpicStateProposed, e_DraftingPasses := e_DraftingPasses e + 1\<rparr>
      else (e_State e \<in> {EpicStateReview, EpicStateProposed, EpicStateReady}) \<and>
        e' = e\<lparr>e_State := EpicStateChangesRequested, e_DraftingPasses := e_DraftingPasses e + 1\<rparr>)"
  by (auto simp: RecordDraftingPass_def Epic_Apply_def epicTransition_def Let_def
      split: option.splits if_splits)

section \<open>Reading the aggregate\<close>

definition FindIssue :: "Epic \<Rightarrow> string \<Rightarrow> go_error + Issue" where
  "FindIssue e issueID =
     find_by (\<lambda>issue. i_ID issue = issueID) (Sentinel ''issue not found'') (e_Issues e)"

definition RootIssue :: "Epic \<Rightarrow> go_error + Issue" where
  "RootIssue e =
     find_by (\<lambda>issue. i_ParentID issue = []) (Errorf ''root issue not found'' []) (e_Issues e)"

definition PullRequestFor :: "Epic \<Rightarrow> string \<Rightarrow> PullRequest option" where
  "PullRequestFor e issueID =
     find (\<lambda>pullRequest. p_IssueID pullRequest = issueID) (e_PullRequests e)"

definition OpenPullRequestFor :: "Epic \<Rightarrow> string \<Rightarrow> PullRequest option" where
  "OpenPullRequestFor e issueID =
     find (\<lambda>pullRequest. p_IssueID pullRequest = issueID \<and> p_Status pullRequest = PullRequestOpen)
       (e_PullRequests e)"

definition Blocked :: "Epic \<Rightarrow> string \<Rightarrow> bool" where
  "Blocked e issueID =
     (case FindIssue e issueID of
        Inl _ \<Rightarrow> False
      | Inr issue \<Rightarrow>
          list_ex (\<lambda>other. i_ParentID other = issueID \<and> \<not> settled other) (e_Issues e) \<or>
          list_ex (\<lambda>blockerID.
              case FindIssue e blockerID of Inl _ \<Rightarrow> False | Inr blocker \<Rightarrow> \<not> settled blocker)
            (i_BlockedBy issue))"

fun delivered_loop :: "Issue list \<Rightarrow> bool \<Rightarrow> bool" where
  "delivered_loop [] delivered = delivered"
| "delivered_loop (issue # rest) delivered =
     (if i_ParentID issue = [] then delivered_loop rest delivered
      else if \<not> settled issue then False
      else delivered_loop rest True)"

definition Delivered :: "Epic \<Rightarrow> bool" where
  "Delivered e = delivered_loop (e_Issues e) False"

lemma Delivered_iff:
  "Delivered e \<longleftrightarrow>
     (\<exists>i \<in> set (e_Issues e). i_ParentID i \<noteq> []) \<and>
     (\<forall>i \<in> set (e_Issues e). i_ParentID i \<noteq> [] \<longrightarrow> settled i)"
proof -
  have "delivered_loop xs d \<longleftrightarrow>
      (d \<or> (\<exists>i \<in> set xs. i_ParentID i \<noteq> [])) \<and> (\<forall>i \<in> set xs. i_ParentID i \<noteq> [] \<longrightarrow> settled i)"
    for xs d by (induction xs d rule: delivered_loop.induct) auto
  then show ?thesis by (simp add: Delivered_def)
qed

section \<open>Names\<close>

definition Epic_SetTitle :: "string \<Rightarrow> Epic update" where
  "Epic_SetTitle title e =
     (if e_State e = EpicStateClosed
      then (Some (Errorf ''cannot set title of closed epic'' []), e)
      else let title = trim_space title
           in if title = [] then (Some (Errorf ''epic title is required'' []), e)
              else (None, e\<lparr>e_Title := title\<rparr>))"

definition Epic_SetBody :: "string \<Rightarrow> Epic update" where
  "Epic_SetBody body e =
     (if e_State e = EpicStateClosed
      then (Some (Errorf ''cannot set body of closed epic'' []), e)
      else (None, e\<lparr>e_Body := body\<rparr>))"

definition SetBranchPrefix :: "string \<Rightarrow> Epic update" where
  "SetBranchPrefix raw e =
     (if 0 < length (e_PullRequests e)
      then (Some (Errorf ''cannot change branch prefix after branches are cut'' []), e)
      else (None, e\<lparr>e_BranchPrefix := Slug raw\<rparr>))"

definition BranchNamespace :: string where
  "BranchNamespace = ''gm/''"

definition branchTitleLimit :: int where
  "branchTitleLimit = 40"

definition BranchName :: "Epic \<Rightarrow> Issue \<Rightarrow> string" where
  "BranchName e issue =
     BranchNamespace @ join_with ''-''
       (filter (\<lambda>segment. segment \<noteq> [])
         [e_BranchPrefix e, SlugMax (i_Title issue) branchTitleLimit, i_ID issue])"

record Branch =
  b_PullRequestID :: string
  b_IssueID :: string
  b_Repository :: string
  b_Name :: string

definition AbandonedBranches :: "Epic \<Rightarrow> Branch list" where
  "AbandonedBranches e =
     map (\<lambda>p. \<lparr>b_PullRequestID = p_ID p, b_IssueID = p_IssueID p,
               b_Repository = p_Repository p, b_Name = p_Head p\<rparr>)
       (filter (\<lambda>p. p_Status p = PullRequestClosed) (e_PullRequests e))"

section \<open>Changing the aggregate\<close>

text \<open>Running a loop over one of the two slices of the aggregate.\<close>

definition on_issues :: "Issue list update \<Rightarrow> Epic update" where
  "on_issues f e = (case f (e_Issues e) of (r, xs) \<Rightarrow> (r, e\<lparr>e_Issues := xs\<rparr>))"

definition on_pull_requests :: "PullRequest list update \<Rightarrow> Epic update" where
  "on_pull_requests f e = (case f (e_PullRequests e) of (r, xs) \<Rightarrow> (r, e\<lparr>e_PullRequests := xs\<rparr>))"

definition AddIssue :: "string \<Rightarrow> Issue \<Rightarrow> Epic update" where
  "AddIssue parentID issue e =
     (if trim_space (i_Repository issue) = []
      then (Some (Errorf ''non-root issue requires a repository'' []), e)
      else (case find (\<lambda>i. i_ID i = parentID) (e_Issues e) of
              Some i \<Rightarrow> (None, e\<lparr>e_Issues := e_Issues e @ [issue\<lparr>i_ParentID := parentID\<rparr>]\<rparr>)
            | None \<Rightarrow> (Some (Errorf ''parent issue not found'' []), e)))"

text \<open>\<open>mutate\<close>: a scratch copy of the two slices, committed only on success.\<close>

definition mutate :: "Epic update \<Rightarrow> Epic update" where
  "mutate change e =
     (case change e of
        (Some err, updated) \<Rightarrow> (Some err, e)
      | (None, updated) \<Rightarrow>
          (None, e\<lparr>e_Issues := e_Issues updated, e_PullRequests := e_PullRequests updated\<rparr>))"

definition AddPullRequest :: "string \<Rightarrow> PullRequest \<Rightarrow> Epic update" where
  "AddPullRequest issueID pullRequest e =
     (case PullRequest_Validate pullRequest of
        Some err \<Rightarrow> (Some err, e)
      | None \<Rightarrow>
          then_do
            (on_issues (update_first (\<lambda>i. i_ID i = issueID)
               (Issue_TransitionTo IssueStateCoding) (Errorf ''issue not found'' [])))
            (\<lambda>e. (None, e\<lparr>e_PullRequests := e_PullRequests e @ [pullRequest\<lparr>p_IssueID := issueID\<rparr>]\<rparr>))
            e)"

definition TransitionIssue :: "string \<Rightarrow> IssueState \<Rightarrow> Epic update" where
  "TransitionIssue issueID next' =
     on_issues (update_first (\<lambda>i. i_ID i = issueID)
       (Issue_TransitionTo next') (Errorf ''issue not found'' []))"

definition transition_pull_request_body ::
    "string \<Rightarrow> PullRequestStatus \<Rightarrow> PullRequestEvent \<Rightarrow> Epic update" where
  "transition_pull_request_body pullRequestID status event updated =
     (case find (\<lambda>p. p_ID p = pullRequestID) (e_PullRequests updated) of
        None \<Rightarrow> (Some (Errorf ''pull request not found'' []), updated)
      | Some pullRequest \<Rightarrow>
          then_do
            (on_pull_requests (update_first (\<lambda>p. p_ID p = pullRequestID)
               (PullRequest_Apply event) (Errorf ''pull request not found'' [])))
            (let next' = (if status = PullRequestClosed then IssueStateOpen else IssueStateMerged)
             in on_issues (update_first (\<lambda>i. i_ID i = p_IssueID pullRequest)
                  (Issue_TransitionTo next') (Errorf ''issue not found'' [])))
            updated)"

definition TransitionPullRequest :: "string \<Rightarrow> PullRequestStatus \<Rightarrow> Epic update" where
  "TransitionPullRequest pullRequestID status e =
     (case status of
        PullRequestMerged \<Rightarrow>
          mutate (transition_pull_request_body pullRequestID status PullRequestEventMerge) e
      | PullRequestClosed \<Rightarrow>
          mutate (transition_pull_request_body pullRequestID status PullRequestEventClose) e
      | _ \<Rightarrow> (Some (Errorf ''cannot transition pull request to %q''
                [GStr (pull_request_status_string status)]), e))"

definition AddIssueComment :: "string \<Rightarrow> Comment \<Rightarrow> Epic update" where
  "AddIssueComment issueID comment =
     on_issues (update_first (\<lambda>i. i_ID i = issueID)
       (Issue_AddComment comment) (Errorf ''issue not found'' []))"

definition AddPullRequestComment :: "string \<Rightarrow> Comment \<Rightarrow> Epic update" where
  "AddPullRequestComment pullRequestID comment =
     on_pull_requests (update_first (\<lambda>p. p_ID p = pullRequestID)
       (PullRequest_AddComment comment) (Errorf ''pull request not found'' []))"

definition UpdatePullRequest :: "string \<Rightarrow> PullRequest update \<Rightarrow> Epic update" where
  "UpdatePullRequest pullRequestID change =
     on_pull_requests (update_first (\<lambda>p. p_ID p = pullRequestID)
       (then_do change (\<lambda>p. (PullRequest_Validate p, p))) (Errorf ''pull request not found'' []))"

section \<open>Transitions and branch names\<close>

text \<open>For an epic in a known state, \<open>TransitionTo\<close> succeeds exactly on the states
  \<open>LegalTransitions\<close> offers and on the current one, and sets just the state; those are the states
  some event of the transition table leads to, and the next approval state is always among them.\<close>

theorem LegalTransitions_are_what_TransitionTo_takes:
  assumes "isEpicState (e_State e)"
  shows "(Epic_TransitionTo next' e = (None, e') \<longleftrightarrow>
      e' = e\<lparr>e_State := next'\<rparr> \<and> (next' = e_State e \<or> next' \<in> set (LegalTransitions (e_State e)))) \<and>
    (next' \<in> set (LegalTransitions (e_State e)) \<longleftrightarrow>
      (\<exists>event. epicTransition (e_State e) event = Some next')) \<and>
    (NextApprovalState (e_State e) = Some next' \<longrightarrow> next' \<in> set (LegalTransitions (e_State e)))"
  using assms Epic_TransitionTo_iff LegalTransitions_iff NextApprovalState_legal by blast

lemma LegalTransitions_are_what_TransitionTo_takes_witness:
  "let e = \<lparr>e_ID = ''E'', e_Title = ''T'', e_Assignee = ''a'', e_Repositories = [], e_Body = [],
       e_State = EpicStateReview, e_BranchPrefix = [], e_Issues = [], e_PullRequests = [],
       e_DraftingPasses = 0\<rparr>
   in Epic_TransitionTo EpicStateProposed e = (None, e\<lparr>e_State := EpicStateProposed\<rparr>)"
  using LegalTransitions_are_what_TransitionTo_takes [of "\<lparr>e_ID = ''E'', e_Title = ''T'', e_Assignee = ''a'',
       e_Repositories = [], e_Body = [], e_State = EpicStateReview, e_BranchPrefix = [], e_Issues = [],
       e_PullRequests = [], e_DraftingPasses = 0\<rparr>" EpicStateProposed]
  by (simp add: LegalTransitions_def allEpicStates_def epicEventForTransition_def Let_def)

text \<open>Drafting ends: after a recorded verdict either the epic is out of the loop, proposed, or
  the verdict asked for changes and fewer than \<open>MaxDraftingPasses\<close> passes are on record; the
  counter moves exactly with the state, and a refused verdict changes nothing.\<close>

theorem RecordDraftingPass_ends_the_argument:
  "(case RecordDraftingPass approved e of
      (None, e') \<Rightarrow> e_DraftingPasses e' = e_DraftingPasses e + 1 \<and>
        (e_State e' = EpicStateProposed \<and> e_State e = EpicStateReview \<or>
         e_State e' = EpicStateChangesRequested \<and> \<not> approved \<and> e_DraftingPasses e' < MaxDraftingPasses)
    | (Some err, e') \<Rightarrow> e' = e)"
proof (cases "RecordDraftingPass approved e")
  case (Pair r e')
  show ?thesis
  proof (cases r)
    case None
    with Pair have r: "RecordDraftingPass approved e = (None, e')" by simp
    from r [unfolded RecordDraftingPass_iff]
    have "e_DraftingPasses e' = e_DraftingPasses e + 1 \<and>
        (e_State e' = EpicStateProposed \<and> e_State e = EpicStateReview \<or>
         e_State e' = EpicStateChangesRequested \<and> \<not> approved \<and> e_DraftingPasses e' < MaxDraftingPasses)"
      by (auto split: if_splits)
    then show ?thesis unfolding r prod.case option.case .
  next
    case (Some err)
    with Pair atomicD [OF RecordDraftingPass_atomic] show ?thesis by auto
  qed
qed

end
