(* ===== verification/Waits.thy ===== *)
theory Waits
  imports Prelude
begin

text \<open>
  The depth first search of \<open>waitsAcyclic\<close> in \<open>internal/domain/epic/epic_progress.go\<close>, for
  any function \<open>waitsFor\<close> from an issue's ID to the IDs it waits for. \<open>walk\<close> carries the
  Go map \<open>progress\<close> as a function with Go's zero for a missing key. It is recursive without
  a bound, so the model has fuel and \<open>None\<close> when that runs out; \<open>walk_returns\<close> says how
  much is enough. The search reports a cycle exactly when there is one.
\<close>

type_synonym progress = "string \<Rightarrow> nat"

definition visiting :: nat where "visiting = 1"

definition visited :: nat where "visited = 2"

text \<open>\<open>for _, next := range waitsFor { if err := walk(next); err != nil { return err } }\<close>.\<close>

fun walk_all ::
    "(string \<Rightarrow> progress \<Rightarrow> (go_error + progress) option) \<Rightarrow> string list \<Rightarrow> progress \<Rightarrow>
       (go_error + progress) option" where
  "walk_all w [] progress = Some (Inr progress)"
| "walk_all w (next' # rest) progress =
     (case w next' progress of
        None \<Rightarrow> None
      | Some (Inl e) \<Rightarrow> Some (Inl e)
      | Some (Inr progress) \<Rightarrow> walk_all w rest progress)"

fun walk ::
    "nat \<Rightarrow> (string \<Rightarrow> string list) \<Rightarrow> string \<Rightarrow> progress \<Rightarrow> (go_error + progress) option" where
  "walk 0 waitsFor id' progress = None"
| "walk (Suc n) waitsFor id' progress =
     (if progress id' = visiting
      then Some (Inl (Errorf ''issue %s is part of a dependency cycle'' [GStr id']))
      else if progress id' = visited then Some (Inr progress)
      else (case walk_all (walk n waitsFor) (waitsFor id') (progress(id' := visiting)) of
              None \<Rightarrow> None
            | Some (Inl e) \<Rightarrow> Some (Inl e)
            | Some (Inr progress) \<Rightarrow> Some (Inr (progress(id' := visited)))))"

declare walk.simps(2) [simp del]

section \<open>Correctness\<close>

definition edges :: "(string \<Rightarrow> string list) \<Rightarrow> (string \<times> string) set" where
  "edges waitsFor = {(x, y). y \<in> set (waitsFor x)}"

definition gray :: "progress \<Rightarrow> string set" where
  "gray progress = {x. progress x = visiting}"

definition black :: "progress \<Rightarrow> string set" where
  "black progress = {x. progress x = visited}"

text \<open>
  The invariant of the search: what is finished is closed under waiting and on no cycle.
\<close>

definition search_inv :: "(string \<Rightarrow> string list) \<Rightarrow> progress \<Rightarrow> bool" where
  "search_inv w pr \<longleftrightarrow>
     (\<forall>x \<in> black pr. set (w x) \<subseteq> black pr \<and> (x, x) \<notin> (edges w)\<^sup>+)"

lemmas colours = gray_def black_def visiting_def visited_def

lemma black_closed:
  assumes "search_inv w pr" and "(x, y) \<in> (edges w)\<^sup>*" and "x \<in> black pr"
  shows "y \<in> black pr"
  using assms(2,3)
proof (induction rule: rtrancl_induct)
  case base
  then show ?case .
next
  case (step y z)
  with assms(1) show ?case by (auto simp: search_inv_def edges_def)
qed

text \<open>What a search that finds nothing leaves.\<close>

definition finishes :: "(string \<Rightarrow> string list) \<Rightarrow> progress \<Rightarrow> progress \<Rightarrow> string set \<Rightarrow> bool" where
  "finishes w pr pr' ids \<longleftrightarrow>
     search_inv w pr' \<and> gray pr' = gray pr \<and> black pr \<subseteq> black pr' \<and> ids \<subseteq> black pr'"

lemma walk_all_finishes:
  assumes step: "\<And>x pr pr'. search_inv w pr \<Longrightarrow> f x pr = Some (Inr pr') \<Longrightarrow> finishes w pr pr' {x}"
  shows "walk_all f xs pr = Some (Inr pr') \<Longrightarrow> search_inv w pr \<Longrightarrow> finishes w pr pr' (set xs)"
proof (induction xs arbitrary: pr)
  case Nil
  then show ?case by (simp add: finishes_def)
next
  case (Cons x xs)
  then obtain u where u: "f x pr = Some (Inr u)" "walk_all f xs u = Some (Inr pr')"
    by (auto split: option.splits sum.splits)
  from step [OF Cons.prems(2) u(1)] Cons.IH [OF u(2)] show ?case
    by (auto simp: finishes_def)
qed

lemma finish_node:
  assumes inv: "search_inv w pr" and fin: "finishes w (pr(x := visiting)) pr' (set (w x))"
    and white: "pr x \<noteq> visiting" "pr x \<noteq> visited"
  shows "finishes w pr (pr'(x := visited)) {x}"
proof -
  from fin have inv': "search_inv w pr'" and g: "gray pr' = insert x (gray pr)"
    and b: "black pr \<subseteq> black pr'" and ws: "set (w x) \<subseteq> black pr'"
    using white by (auto simp: finishes_def colours)
  have bx: "black (pr'(x := visited)) = insert x (black pr')"
    and gx: "gray (pr'(x := visited)) = gray pr"
    and nb: "x \<notin> black pr'"
    using g white by (auto simp: colours set_eq_iff split: if_splits)
  have "(x, x) \<notin> (edges w)\<^sup>+"
  proof
    assume "(x, x) \<in> (edges w)\<^sup>+"
    then obtain y where "y \<in> set (w x)" "(y, x) \<in> (edges w)\<^sup>*"
      by (auto simp: edges_def dest: tranclD)
    with ws black_closed [OF inv'] nb show False by auto
  qed
  with inv' ws have "search_inv w (pr'(x := visited))"
    unfolding search_inv_def bx by blast
  with bx gx b show ?thesis by (auto simp: finishes_def)
qed

lemma walk_finishes:
  "walk n w x pr = Some (Inr pr') \<Longrightarrow> search_inv w pr \<Longrightarrow> finishes w pr pr' {x}"
proof (induction n arbitrary: x pr pr')
  case 0
  then show ?case by simp
next
  case (Suc n)
  have step: "finishes w pr pr' {x}"
    if "search_inv w pr" "walk n w x pr = Some (Inr pr')" for x pr pr'
    using that Suc.IH by blast
  show ?case
  proof (cases "pr x = visited")
    case True
    with Suc.prems show ?thesis
      by (auto simp: walk.simps(2) finishes_def colours)
  next
    case False
    with Suc.prems(1) obtain u where ne: "pr x \<noteq> visiting"
      and u: "walk_all (walk n w) (w x) (pr(x := visiting)) = Some (Inr u)"
      and pr': "pr' = u(x := visited)"
      by (auto simp: walk.simps(2) split: if_splits option.splits sum.splits)
    have "black (pr(x := visiting)) = black pr" using False by (auto simp: colours)
    then have "search_inv w (pr(x := visiting))" using Suc.prems(2) by (simp add: search_inv_def)
    with walk_all_finishes [OF step u] have "finishes w (pr(x := visiting)) u (set (w x))" by blast
    from finish_node [OF Suc.prems(2) this ne False] show ?thesis by (simp only: pr')
  qed
qed

text \<open>An error is a cycle: everything being visited leads to the issue the search is at.\<close>

definition leads :: "(string \<Rightarrow> string list) \<Rightarrow> progress \<Rightarrow> string \<Rightarrow> bool" where
  "leads w pr x \<longleftrightarrow> (\<forall>g \<in> gray pr. (g, x) \<in> (edges w)\<^sup>+)"

lemma walk_error:
  "walk n w x pr = Some (Inl e) \<Longrightarrow> search_inv w pr \<Longrightarrow> leads w pr x \<Longrightarrow>
     \<exists>y. (y, y) \<in> (edges w)\<^sup>+"
proof (induction n arbitrary: x pr)
  case 0
  then show ?case by simp
next
  case (Suc n)
  show ?case
  proof (cases "pr x = visiting")
    case True
    with Suc.prems(3) show ?thesis by (auto simp: leads_def gray_def)
  next
    case False
    with Suc.prems(1) have nv: "pr x \<noteq> visited"
      and err: "walk_all (walk n w) (w x) (pr(x := visiting)) = Some (Inl e)"
      by (auto simp: walk.simps(2) split: if_splits option.splits sum.splits)
    have "black (pr(x := visiting)) = black pr" "gray (pr(x := visiting)) = insert x (gray pr)"
      using nv by (auto simp: colours)
    then have inv: "search_inv w (pr(x := visiting))"
      and lead: "\<forall>y \<in> set (w x). leads w (pr(x := visiting)) y"
      using Suc.prems(2,3) by (auto simp: search_inv_def leads_def edges_def intro: trancl_into_trancl)
    have "\<exists>y. (y, y) \<in> (edges w)\<^sup>+"
      if "walk_all (walk n w) ys u = Some (Inl e)" "search_inv w u" "\<forall>y \<in> set ys. leads w u y"
      for ys u
      using that
    proof (induction ys arbitrary: u)
      case Nil
      then show ?case by simp
    next
      case (Cons y ys)
      show ?case
      proof (cases "walk n w y u")
        case None
        with Cons.prems show ?thesis by simp
      next
        case (Some r)
        show ?thesis
        proof (cases r)
          case (Inl e')
          with Some Cons.prems Suc.IH [of y u] show ?thesis by auto
        next
          case (Inr v)
          with Some have "walk n w y u = Some (Inr v)" by simp
          from walk_finishes [OF this Cons.prems(2)] have "finishes w u v {y}" .
          with Cons.prems Cons.IH [of v] Some Inr show ?thesis
            by (auto simp: finishes_def leads_def)
        qed
      qed
    qed
    with err inv lead show ?thesis by blast
  qed
qed

text \<open>Fuel: one unit for every issue that is not being visited, and one more.\<close>

lemma walk_returns:
  assumes V: "finite V" "\<And>x. x \<in> V \<Longrightarrow> set (w x) \<subseteq> V"
  shows "x \<in> V \<Longrightarrow> search_inv w pr \<Longrightarrow> card (V - gray pr) < n \<Longrightarrow> walk n w x pr \<noteq> None"
proof (induction n arbitrary: x pr)
  case 0
  then show ?case by simp
next
  case (Suc n)
  show ?case
  proof (cases "pr x = visiting \<or> pr x = visited")
    case True
    then show ?thesis by (auto simp: walk.simps(2))
  next
    case False
    have "black (pr(x := visiting)) = black pr"
      and g: "gray (pr(x := visiting)) = insert x (gray pr)" and "x \<notin> gray pr"
      using False by (auto simp: colours)
    then have inv: "search_inv w (pr(x := visiting))" using Suc.prems by (simp add: search_inv_def)
    have "V - gray (pr(x := visiting)) \<subset> V - gray pr"
      using Suc.prems(1) \<open>x \<notin> gray pr\<close> g by auto
    then have "card (V - gray (pr(x := visiting))) < card (V - gray pr)"
      using V(1) by (intro psubset_card_mono) auto
    then have fuel: "card (V - gray (pr(x := visiting))) < n" using Suc.prems(3) by simp
    have "walk_all (walk n w) ys u \<noteq> None"
      if "set ys \<subseteq> V" "search_inv w u" "card (V - gray u) < n" for ys u
      using that
    proof (induction ys arbitrary: u)
      case Nil
      then show ?case by simp
    next
      case (Cons y ys)
      then have "walk n w y u \<noteq> None" using Suc.IH by simp
      then obtain r where r: "walk n w y u = Some r" by blast
      show ?case
      proof (cases r)
        case (Inl e)
        with r show ?thesis by simp
      next
        case (Inr v)
        with r walk_finishes [of n w y u v] Cons.prems have "finishes w u v {y}" by blast
        with Cons r Inr show ?thesis by (simp add: finishes_def)
      qed
    qed
    with inv fuel V(2) [OF Suc.prems(1)]
    obtain r where "walk_all (walk n w) (w x) (pr(x := visiting)) = Some r" by blast
    with False show ?thesis by (auto simp: walk.simps(2) split: sum.splits)
  qed
qed

lemma walk_all_Some:
  assumes V: "finite V" "\<And>x. x \<in> V \<Longrightarrow> set (w x) \<subseteq> V" and n: "card V < n"
  shows "set xs \<subseteq> V \<Longrightarrow> search_inv w pr \<Longrightarrow> gray pr = {} \<Longrightarrow> walk_all (walk n w) xs pr \<noteq> None"
proof (induction xs arbitrary: pr)
  case Nil
  then show ?case by simp
next
  case (Cons x xs)
  have "walk n w x pr \<noteq> None"
    using walk_returns [of V w x pr n, OF V] Cons.prems n by simp
  then obtain r where r: "walk n w x pr = Some r" by blast
  show ?case
  proof (cases r)
    case (Inl e)
    with r show ?thesis by simp
  next
    case (Inr v)
    with r walk_finishes [of n w x pr v] Cons.prems have "finishes w pr v {x}" by blast
    with Cons r Inr show ?thesis by (simp add: finishes_def)
  qed
qed

text \<open>The search from every issue of a closed set decides whether waiting is acyclic on it.\<close>

lemma walk_all_decides:
  assumes V: "finite V" "\<And>x. x \<in> V \<Longrightarrow> set (w x) \<subseteq> V" and n: "card V < n"
    and roots: "set xs = V" and out: "\<And>x. x \<notin> V \<Longrightarrow> w x = []"
  shows "(\<exists>pr. walk_all (walk n w) xs (\<lambda>_. 0) = Some (Inr pr)) \<longleftrightarrow> acyclic (edges w)"
    and "walk_all (walk n w) xs (\<lambda>_. 0) \<noteq> None"
proof -
  let ?z = "(\<lambda>_. 0) :: progress"
  have z: "search_inv w ?z" "gray ?z = {}" by (auto simp: search_inv_def colours)
  show ret: "walk_all (walk n w) xs ?z \<noteq> None"
    using walk_all_Some [of V w n xs ?z, OF V n] roots z by simp
  show "(\<exists>pr. walk_all (walk n w) xs ?z = Some (Inr pr)) \<longleftrightarrow> acyclic (edges w)"
  proof
    assume "\<exists>pr. walk_all (walk n w) xs ?z = Some (Inr pr)"
    then obtain pr where pr: "walk_all (walk n w) xs ?z = Some (Inr pr)" ..
    have "finishes w ?z pr (set xs)"
      by (rule walk_all_finishes [OF walk_finishes pr z(1)])
    with roots have inv: "search_inv w pr" "V \<subseteq> black pr" by (auto simp: finishes_def)
    have "(x, x) \<notin> (edges w)\<^sup>+" for x
    proof (cases "x \<in> V")
      case True
      with inv show ?thesis by (auto simp: search_inv_def)
    next
      case False
      then have "\<nexists>y. (x, y) \<in> edges w" by (simp add: edges_def out)
      then show ?thesis by (meson tranclD)
    qed
    then show "acyclic (edges w)" by (simp add: acyclic_def)
  next
    assume ac: "acyclic (edges w)"
    have "\<exists>pr. walk_all (walk n w) ys u = Some (Inr pr)"
      if "walk_all (walk n w) ys u \<noteq> None" "search_inv w u" "gray u = {}" for ys u
      using that
    proof (induction ys arbitrary: u)
      case Nil
      then show ?case by simp
    next
      case (Cons y ys)
      then obtain r where r: "walk n w y u = Some r" by fastforce
      show ?case
      proof (cases r)
        case (Inl e)
        with r walk_error [of n w y u e] Cons.prems ac show ?thesis
          by (auto simp: acyclic_def leads_def)
      next
        case (Inr v)
        with r walk_finishes [of n w y u v] Cons.prems have "finishes w u v {y}" by blast
        with Cons r Inr show ?thesis by (simp add: finishes_def)
      qed
    qed
    with ret z show "\<exists>pr. walk_all (walk n w) xs ?z = Some (Inr pr)" by blast
  qed
qed

end
