(* ===== verification/Epic_Validate.thy ===== *)
theory Epic_Validate
  imports Epic_Aggregate Waits
begin

text \<open>
  \<open>Epic.Validate\<close> of \<open>epic.go\<close> with \<open>validateBlockedBy\<close>, \<open>isAncestor\<close> and
  \<open>waitsAcyclic\<close> of \<open>epic_progress.go\<close>, and the theorem that it accepts exactly the epics
  of \<open>well_formed\<close>. Go's map \<open>issues\<close> from IDs to issues is the list of the issues entered
  so far: a second entry for an ID is refused before it is made. \<open>isAncestor\<close> and \<open>walk\<close>
  have no bound of their own in the code, so they have fuel here, one more than there are
  issues, and \<open>None\<close> means that the call does not return; \<open>Validate_returns\<close> excludes it.
\<close>

section \<open>The loops of Validate\<close>

definition issue_at :: "Issue list \<Rightarrow> string \<Rightarrow> Issue" where
  "issue_at issues id' = (case find (\<lambda>i. i_ID i = id') issues of None \<Rightarrow> zero_Issue | Some i \<Rightarrow> i)"

definition has_issue :: "Issue list \<Rightarrow> string \<Rightarrow> bool" where
  "has_issue issues id' = list_ex (\<lambda>i. i_ID i = id') issues"

fun repositories_loop :: "string list \<Rightarrow> string list \<Rightarrow> go_error + string list" where
  "repositories_loop [] seen = Inr seen"
| "repositories_loop (raw # rest) seen =
     (let repository = trim_space raw
      in if repository = [] then Inl (Errorf ''epic repository is required'' [])
         else if repository \<in> set seen
         then Inl (Errorf ''duplicate epic repository %s'' [GStr repository])
         else repositories_loop rest (seen @ [repository]))"

fun issues_loop ::
    "string list \<Rightarrow> string list \<Rightarrow> Issue list \<Rightarrow> Issue list \<Rightarrow> nat \<Rightarrow> go_error + Issue list \<times> nat" where
  "issues_loop repositories seenRepositories [] issues rootCount = Inr (issues, rootCount)"
| "issues_loop repositories seenRepositories (issue # rest) issues rootCount =
     (case Issue_Validate issue of
        Some e \<Rightarrow> Inl e
      | None \<Rightarrow>
          case first_error Comment_Validate (i_Comments issue) of
            Some e \<Rightarrow> Inl e
          | None \<Rightarrow>
              let repository = trim_space (i_Repository issue);
                  rootCount' = (if i_ParentID issue = [] then Suc rootCount else rootCount)
              in if i_ParentID issue = [] \<and> repository \<noteq> []
                 then Inl (Errorf ''root issue cannot have a repository'' [])
                 else if i_ParentID issue \<noteq> [] \<and> repository = []
                 then Inl (Errorf ''non-root issue %s requires a repository'' [GStr (i_ID issue)])
                 else if i_ParentID issue \<noteq> [] \<and> repository \<notin> set seenRepositories \<and> 0 < length repositories
                 then Inl (Errorf ''issue %s references repository %s outside the epic's scope''
                        [GStr (i_ID issue), GStr (i_Repository issue)])
                 else if has_issue issues (i_ID issue)
                 then Inl (Errorf ''duplicate issue %s'' [GStr (i_ID issue)])
                 else issues_loop repositories seenRepositories rest (issues @ [issue]) rootCount')"

function hierarchy_loop :: "Issue list \<Rightarrow> string list \<Rightarrow> Issue \<Rightarrow> go_error option" where
  "hierarchy_loop issues seen current =
     (if i_ParentID current = [] then None
      else if i_ID current \<in> set seen
      then Some (Errorf ''issue hierarchy contains a cycle at %s'' [GStr (i_ID current)])
      else hierarchy_loop issues (i_ID current # seen) (issue_at issues (i_ParentID current)))"
  by pat_completeness auto
termination
proof (relation "measure (\<lambda>(issues, seen, current).
    card (insert (i_ID current) (insert [] (set (map i_ID issues))) - set seen))", goal_cases)
  case 1
  then show ?case by simp
next
  case (2 issues seen current)
  let ?V = "insert [] (set (map i_ID issues))" and ?next = "issue_at issues (i_ParentID current)"
  have "i_ID ?next \<in> ?V"
    by (auto simp: issue_at_def zero_Issue_def find_Some_iff split: option.splits)
  then have "insert (i_ID ?next) ?V - set (i_ID current # seen) \<subset> insert (i_ID current) ?V - set seen"
    using 2 by auto
  then show ?case by (simp only: in_measure case_prod_conv) (rule psubset_card_mono, auto)
qed

declare hierarchy_loop.simps [simp del]

definition hierarchy_check :: "Issue list \<Rightarrow> Issue list \<Rightarrow> go_error option" where
  "hierarchy_check order issues =
     first_error (\<lambda>issue.
       if i_ParentID issue \<noteq> [] \<and> \<not> has_issue issues (i_ParentID issue)
       then Some (Errorf ''issue %s names missing parent %s''
              [GStr (i_ID issue), GStr (i_ParentID issue)])
       else hierarchy_loop issues [] issue) order"

fun isAncestor :: "nat \<Rightarrow> Issue list \<Rightarrow> Issue \<Rightarrow> string \<Rightarrow> bool option" where
  "isAncestor 0 issues current candidateID = None"
| "isAncestor (Suc n) issues current candidateID =
     (if i_ParentID current = [] then Some False
      else if i_ParentID current = candidateID then Some True
      else isAncestor n issues (issue_at issues (i_ParentID current)) candidateID)"

text \<open>The inner loop of \<open>validateBlockedBy\<close>; the outer \<open>None\<close> is a call that does not return.\<close>

fun blockers_loop ::
    "nat \<Rightarrow> Issue list \<Rightarrow> Issue \<Rightarrow> string list \<Rightarrow> string list \<Rightarrow> go_error option option" where
  "blockers_loop fuel issues issue [] named = Some None"
| "blockers_loop fuel issues issue (blockerID # rest) named =
     (if blockerID = i_ID issue
      then Some (Some (Errorf ''issue %s is blocked by itself'' [GStr (i_ID issue)]))
      else if \<not> has_issue issues blockerID
      then Some (Some (Errorf ''issue %s is blocked by missing issue %s''
             [GStr (i_ID issue), GStr blockerID]))
      else if blockerID \<in> set named
      then Some (Some (Errorf ''issue %s repeats blocker %s'' [GStr (i_ID issue), GStr blockerID]))
      else (case isAncestor fuel issues issue blockerID of
              None \<Rightarrow> None
            | Some True \<Rightarrow> Some (Some (Errorf ''issue %s is blocked by its ancestor %s''
                  [GStr (i_ID issue), GStr blockerID]))
            | Some False \<Rightarrow> blockers_loop fuel issues issue rest (blockerID # named)))"

definition children_ids :: "Issue list \<Rightarrow> string \<Rightarrow> string list" where
  "children_ids order id' =
     map i_ID (filter (\<lambda>issue. i_ParentID issue \<noteq> [] \<and> i_ParentID issue = id') order)"

definition waits_for :: "Issue list \<Rightarrow> Issue list \<Rightarrow> string \<Rightarrow> string list" where
  "waits_for order issues id' =
     children_ids order id' @
     filter (has_issue issues) (i_BlockedBy (issue_at issues id'))"

definition waitsAcyclic :: "nat \<Rightarrow> Issue list \<Rightarrow> Issue list \<Rightarrow> go_error option option" where
  "waitsAcyclic fuel order issues =
     (case walk_all (walk fuel (waits_for order issues)) (map i_ID order) (\<lambda>_. 0) of
        None \<Rightarrow> None
      | Some (Inl e) \<Rightarrow> Some (Some e)
      | Some (Inr progress) \<Rightarrow> Some None)"

fun blocked_by_loop :: "nat \<Rightarrow> Issue list \<Rightarrow> Issue list \<Rightarrow> go_error option option" where
  "blocked_by_loop fuel issues [] = Some None"
| "blocked_by_loop fuel issues (issue # rest) =
     (case blockers_loop fuel issues issue (i_BlockedBy issue) [] of
        None \<Rightarrow> None
      | Some (Some e) \<Rightarrow> Some (Some e)
      | Some None \<Rightarrow> blocked_by_loop fuel issues rest)"

definition validateBlockedBy :: "nat \<Rightarrow> Issue list \<Rightarrow> Issue list \<Rightarrow> go_error option option" where
  "validateBlockedBy fuel order issues =
     (case blocked_by_loop fuel issues order of
        None \<Rightarrow> None
      | Some (Some e) \<Rightarrow> Some (Some e)
      | Some None \<Rightarrow> waitsAcyclic fuel order issues)"

definition pull_requests_check :: "Issue list \<Rightarrow> PullRequest list \<Rightarrow> go_error option" where
  "pull_requests_check issues =
     first_error (\<lambda>pr.
       case PullRequest_Validate pr of
         Some e \<Rightarrow> Some e
       | None \<Rightarrow>
           if has_issue issues (p_IssueID pr) then None
           else Some (Errorf ''pull request %s names missing issue %s''
                  [GStr (p_ID pr), GStr (p_IssueID pr)]))"

definition Validate :: "Epic \<Rightarrow> go_error option option" where
  "Validate e =
     (if e_ID e = [] then Some (Some (Errorf ''aggregate id is required'' []))
      else if trim_space (e_Title e) = [] then Some (Some (Errorf ''epic title is required'' []))
      else if trim_space (e_Assignee e) = []
      then Some (Some (Errorf ''epic assignee is required'' []))
      else (case repositories_loop (e_Repositories e) [] of
        Inl err \<Rightarrow> Some (Some err)
      | Inr seenRepositories \<Rightarrow>
          if e_BranchPrefix e \<noteq> Slug (e_BranchPrefix e)
          then Some (Some (Errorf ''epic %s has invalid branch prefix %q''
                 [GStr (e_ID e), GStr (e_BranchPrefix e)]))
          else if \<not> isEpicState (e_State e)
          then Some (Some (Errorf ''epic %s has invalid state %q''
                 [GStr (e_ID e), GStr (epic_state_string (e_State e))]))
          else if e_DraftingPasses e < 0
          then Some (Some (Errorf ''epic %s has negative drafting passes'' [GStr (e_ID e)]))
          else if length (e_Issues e) = 0
          then Some (Some (Errorf ''aggregate requires a root issue'' []))
          else (case issues_loop (e_Repositories e) seenRepositories (e_Issues e) [] 0 of
            Inl err \<Rightarrow> Some (Some err)
          | Inr (issues, rootCount) \<Rightarrow>
              if rootCount \<noteq> 1
              then Some (Some (Errorf ''aggregate must have one root issue'' []))
              else (case hierarchy_check (e_Issues e) issues of
                Some err \<Rightarrow> Some (Some err)
              | None \<Rightarrow>
                  (case validateBlockedBy (Suc (length (e_Issues e))) (e_Issues e) issues of
                     None \<Rightarrow> None
                   | Some (Some err) \<Rightarrow> Some (Some err)
                   | Some None \<Rightarrow> Some (pull_requests_check issues (e_PullRequests e)))))))"

section \<open>What is accepted\<close>

definition issue_ids :: "Epic \<Rightarrow> string set" where
  "issue_ids e = i_ID ` set (e_Issues e)"

definition issue_ok :: "string list \<Rightarrow> Issue \<Rightarrow> bool" where
  "issue_ok repositories i \<longleftrightarrow>
     Issue_Validate i = None \<and> (\<forall>c \<in> set (i_Comments i). Comment_Validate c = None) \<and>
     (if i_ParentID i = [] then trim_space (i_Repository i) = []
      else trim_space (i_Repository i) \<noteq> [] \<and>
        (repositories = [] \<or> trim_space (i_Repository i) \<in> trim_space ` set repositories))"

text \<open>\<open>(x, y) \<in> waits e\<close>: issue \<open>x\<close> waits for its child or named blocker \<open>y\<close>.\<close>

definition waits :: "Epic \<Rightarrow> (string \<times> string) set" where
  "waits e = edges (waits_for (e_Issues e) (e_Issues e))"

definition issues_well_formed :: "Epic \<Rightarrow> bool" where
  "issues_well_formed e \<longleftrightarrow>
     (\<forall>i \<in> set (e_Issues e). issue_ok (e_Repositories e) i) \<and>
     distinct (map i_ID (e_Issues e)) \<and>
     length (filter (\<lambda>i. i_ParentID i = []) (e_Issues e)) = 1 \<and>
     (\<forall>i \<in> set (e_Issues e). i_ParentID i = [] \<or> i_ParentID i \<in> issue_ids e) \<and>
     (\<forall>i \<in> set (e_Issues e). distinct (i_BlockedBy i) \<and> set (i_BlockedBy i) \<subseteq> issue_ids e) \<and>
     acyclic (waits e)"

definition well_formed :: "Epic \<Rightarrow> bool" where
  "well_formed e \<longleftrightarrow>
     e_ID e \<noteq> [] \<and> trim_space (e_Title e) \<noteq> [] \<and> trim_space (e_Assignee e) \<noteq> [] \<and>
     [] \<notin> trim_space ` set (e_Repositories e) \<and> distinct (map trim_space (e_Repositories e)) \<and>
     slug_form (e_BranchPrefix e) \<and> isEpicState (e_State e) \<and> 0 \<le> e_DraftingPasses e \<and>
     issues_well_formed e \<and>
     (\<forall>p \<in> set (e_PullRequests e). PullRequest_Validate p = None \<and> p_IssueID p \<in> issue_ids e)"

section \<open>The loops\<close>

lemma has_issue_iff: "has_issue issues x \<longleftrightarrow> x \<in> i_ID ` set issues"
  by (auto simp: has_issue_def list_ex_iff)

lemma issue_at_in:
  "x \<in> i_ID ` set issues \<Longrightarrow> issue_at issues x \<in> set issues \<and> i_ID (issue_at issues x) = x"
  by (auto simp: issue_at_def find_None_iff find_Some_iff split: option.splits)

lemma issue_at_eq: "distinct (map i_ID issues) \<Longrightarrow> i \<in> set issues \<Longrightarrow> issue_at issues (i_ID i) = i"
  using find_distinct_key [of i_ID issues i] by (simp add: issue_at_def)

lemma issue_at_out: "x \<notin> i_ID ` set issues \<Longrightarrow> issue_at issues x = zero_Issue"
  by (auto simp: issue_at_def find_Some_iff split: option.splits)

lemma issue_at_cases: "issue_at issues x \<in> set issues \<or> issue_at issues x = zero_Issue"
  using issue_at_in issue_at_out by metis

lemma repositories_loop_iff:
  "repositories_loop rs seen = Inr s \<longleftrightarrow>
     s = seen @ map trim_space rs \<and> [] \<notin> trim_space ` set rs \<and>
     distinct (map trim_space rs) \<and> set seen \<inter> trim_space ` set rs = {}"
proof (induction rs arbitrary: seen)
  case Nil
  then show ?case by auto
next
  case (Cons r rs)
  then show ?case by (auto simp: Let_def)
qed

lemma issues_loop_iff:
  assumes "set seen = trim_space ` set repos"
  shows "issues_loop repos seen is acc n = Inr (issues, k) \<longleftrightarrow>
     issues = acc @ is \<and> k = n + length (filter (\<lambda>i. i_ParentID i = []) is) \<and>
     (\<forall>i \<in> set is. issue_ok repos i) \<and> distinct (map i_ID is) \<and>
     i_ID ` set acc \<inter> i_ID ` set is = {}"
proof (induction "is" arbitrary: acc n)
  case Nil
  then show ?case by auto
next
  case (Cons i "is")
  have ok: "issue_ok repos i \<longleftrightarrow>
      Issue_Validate i = None \<and> first_error Comment_Validate (i_Comments i) = None \<and>
      \<not> (i_ParentID i = [] \<and> trim_space (i_Repository i) \<noteq> []) \<and>
      \<not> (i_ParentID i \<noteq> [] \<and> trim_space (i_Repository i) = []) \<and>
      \<not> (i_ParentID i \<noteq> [] \<and> trim_space (i_Repository i) \<notin> set seen \<and> 0 < length repos)"
    using assms by (auto simp: issue_ok_def first_error_None)
  show ?case
  proof (cases "issue_ok repos i \<and> \<not> has_issue acc (i_ID i)")
    case True
    then have "issues_loop repos seen (i # is) acc n =
        issues_loop repos seen is (acc @ [i]) (if i_ParentID i = [] then Suc n else n)"
      using ok by (auto simp: Let_def)
    then show ?thesis using True Cons by (auto simp: has_issue_iff)
  next
    case False
    then have "\<exists>err. issues_loop repos seen (i # is) acc n = Inl err"
      using ok by (auto simp: Let_def split: option.splits)
    then obtain err where "issues_loop repos seen (i # is) acc n = Inl err" ..
    then show ?thesis using False by (auto simp: has_issue_iff)
  qed
qed

lemma has_root_nonempty: "length (filter p xs) = 1 \<Longrightarrow> length xs \<noteq> 0"
  by auto

text \<open>
  Waiting, spelled out for issues with distinct IDs.
\<close>

lemma waits_iff:
  assumes "distinct (map i_ID (e_Issues e))"
  shows "(x, y) \<in> waits e \<longleftrightarrow>
     (\<exists>c \<in> set (e_Issues e). i_ID c = y \<and> i_ParentID c = x \<and> x \<noteq> []) \<or>
     (\<exists>i \<in> set (e_Issues e). i_ID i = x \<and> y \<in> set (i_BlockedBy i) \<and> y \<in> issue_ids e)"
proof -
  have "y \<in> set (i_BlockedBy (issue_at (e_Issues e) x)) \<longleftrightarrow>
      (\<exists>i \<in> set (e_Issues e). i_ID i = x \<and> y \<in> set (i_BlockedBy i))"
  proof (cases "x \<in> i_ID ` set (e_Issues e)")
    case True
    then show ?thesis using issue_at_eq [OF assms] issue_at_in by metis
  next
    case False
    then show ?thesis by (auto simp: issue_at_out zero_Issue_def)
  qed
  then show ?thesis
    by (auto simp: waits_def edges_def waits_for_def children_ids_def has_issue_iff issue_ids_def)
qed

lemma waits_child:
  "c \<in> set (e_Issues e) \<Longrightarrow> i_ParentID c \<noteq> [] \<Longrightarrow> (i_ParentID c, i_ID c) \<in> waits e"
  by (auto simp: waits_def edges_def waits_for_def children_ids_def)

text \<open>Climbing from an issue: the loop stops at the root, and within as many steps as there are issues.\<close>

lemma hierarchy_loop_ok:
  assumes ac: "acyclic (waits e)"
  shows "(current \<in> set (e_Issues e) \<or> current = zero_Issue) \<Longrightarrow>
     (\<forall>s \<in> set seen. (i_ID current, s) \<in> (waits e)\<^sup>+) \<Longrightarrow>
     hierarchy_loop (e_Issues e) seen current = None"
proof (induction "e_Issues e" seen current rule: hierarchy_loop.induct)
  case (1 seen current)
  show ?case
  proof (cases "i_ParentID current = []")
    case True
    then show ?thesis by (simp add: hierarchy_loop.simps)
  next
    case False
    let ?next = "issue_at (e_Issues e) (i_ParentID current)"
    from False "1.prems"(1) have cur: "current \<in> set (e_Issues e)" by (auto simp: zero_Issue_def)
    have fresh: "i_ID current \<notin> set seen"
      using "1.prems"(2) ac by (auto simp: acyclic_def)
    have rec: "hierarchy_loop (e_Issues e) (i_ID current # seen) ?next = None"
    proof (cases "i_ParentID current \<in> issue_ids e")
      case True
      then have id_next: "i_ID ?next = i_ParentID current"
        using issue_at_in [of "i_ParentID current" "e_Issues e"] by (simp add: issue_ids_def)
      then have up: "(i_ID ?next, i_ID current) \<in> waits e"
        using waits_child [OF cur False] by simp
      then have "\<forall>s \<in> set (i_ID current # seen). (i_ID ?next, s) \<in> (waits e)\<^sup>+"
        using "1.prems"(2) by (auto intro: trancl_into_trancl2)
      with "1.hyps" [OF False fresh] issue_at_cases show ?thesis by blast
    next
      case False
      then have "?next = zero_Issue" by (intro issue_at_out) (simp add: issue_ids_def)
      then show ?thesis by (simp add: hierarchy_loop.simps zero_Issue_def)
    qed
    with False fresh show ?thesis by (simp add: hierarchy_loop.simps)
  qed
qed

lemma isAncestor_mono:
  "isAncestor n issues current a = Some b \<Longrightarrow> n \<le> m \<Longrightarrow> isAncestor m issues current a = Some b"
proof (induction n arbitrary: m current)
  case 0
  then show ?case by simp
next
  case (Suc n)
  then obtain k where "m = Suc k" "n \<le> k" by (cases m) auto
  with Suc show ?case by (auto split: if_splits)
qed

lemma isAncestor_returns:
  "hierarchy_loop issues seen current = None \<Longrightarrow>
     (current \<in> set issues \<or> current = zero_Issue) \<Longrightarrow>
     isAncestor (Suc (card (i_ID ` set issues - set seen))) issues current a \<noteq> None"
proof (induction issues seen current rule: hierarchy_loop.induct)
  case (1 issues seen current)
  show ?case
  proof (cases "i_ParentID current = []")
    case True
    then show ?thesis by simp
  next
    case False
    then have cur: "current \<in> set issues" using "1.prems"(2) by (auto simp: zero_Issue_def)
    from False "1.prems"(1) have fresh: "i_ID current \<notin> set seen"
      and rec: "hierarchy_loop issues (i_ID current # seen) (issue_at issues (i_ParentID current)) = None"
      by (auto simp: hierarchy_loop.simps [of issues seen current] split: if_splits)
    let ?V = "i_ID ` set issues - set seen"
    from "1.IH" [OF False fresh rec issue_at_cases]
    obtain b where b: "isAncestor (Suc (card (i_ID ` set issues - set (i_ID current # seen)))) issues
        (issue_at issues (i_ParentID current)) a = Some b" by blast
    have "i_ID ` set issues - set (i_ID current # seen) \<subset> ?V" using cur fresh by auto
    then have "card (i_ID ` set issues - set (i_ID current # seen)) < card ?V"
      by (intro psubset_card_mono) auto
    then have "isAncestor (card ?V) issues (issue_at issues (i_ParentID current)) a = Some b"
      by (intro isAncestor_mono [OF b]) simp
    then show ?thesis using False by auto
  qed
qed

lemma isAncestor_waits:
  "isAncestor n (e_Issues e) current a = Some True \<Longrightarrow>
     current \<in> set (e_Issues e) \<or> current = zero_Issue \<Longrightarrow> (a, i_ID current) \<in> (waits e)\<^sup>+"
proof (induction n arbitrary: current)
  case 0
  then show ?case by simp
next
  case (Suc n)
  let ?next = "issue_at (e_Issues e) (i_ParentID current)"
  from Suc.prems have ne: "i_ParentID current \<noteq> []" and cur: "current \<in> set (e_Issues e)"
    by (auto simp: zero_Issue_def)
  note step = waits_child [OF cur ne]
  show ?case
  proof (cases "i_ParentID current = a")
    case True
    with step show ?thesis by auto
  next
    case False
    with Suc.prems ne have rec: "isAncestor n (e_Issues e) ?next a = Some True" by simp
    then have "i_ParentID ?next \<noteq> []" by (cases n) auto
    then have "?next \<noteq> zero_Issue" by (auto simp: zero_Issue_def)
    then have "i_ID ?next = i_ParentID current" using issue_at_in issue_at_out by metis
    with Suc.IH [OF rec issue_at_cases] step show ?thesis by (metis trancl.trancl_into_trancl)
  qed
qed

section \<open>Validate\<close>

lemma hierarchy_check_None:
  "hierarchy_check order issues = None \<longleftrightarrow>
     (\<forall>i \<in> set order. (i_ParentID i = [] \<or> i_ParentID i \<in> i_ID ` set issues) \<and>
        hierarchy_loop issues [] i = None)"
  by (auto simp: hierarchy_check_def first_error_None has_issue_iff)

lemma blockers_loop_iff:
  assumes "\<And>b. isAncestor fuel issues issue b \<noteq> None"
  shows "blockers_loop fuel issues issue bs named \<noteq> None"
    and "blockers_loop fuel issues issue bs named = Some None \<longleftrightarrow>
      i_ID issue \<notin> set bs \<and> set bs \<subseteq> i_ID ` set issues \<and> distinct bs \<and>
      set named \<inter> set bs = {} \<and> (\<forall>b \<in> set bs. isAncestor fuel issues issue b = Some False)"
proof (induction bs arbitrary: named)
  case Nil
  { case 1 show ?case by simp }
  { case 2 show ?case by simp }
next
  case (Cons b bs)
  obtain r where r: "isAncestor fuel issues issue b = Some r" using assms [of b] by auto
  { case 1 show ?case using r Cons(1) by (cases r) auto }
  { case 2 show ?case using r Cons(2) by (cases r) (auto simp: has_issue_iff) }
qed

lemma blocked_by_loop_iff:
  "(\<forall>i \<in> set order. \<forall>b. isAncestor fuel issues i b \<noteq> None) \<Longrightarrow>
     blocked_by_loop fuel issues order \<noteq> None \<and>
     (blocked_by_loop fuel issues order = Some None \<longleftrightarrow>
      (\<forall>i \<in> set order. blockers_loop fuel issues i (i_BlockedBy i) [] = Some None))"
proof (induction order)
  case Nil
  then show ?case by simp
next
  case (Cons i order)
  then have "blockers_loop fuel issues i (i_BlockedBy i) [] \<noteq> None"
    by (intro blockers_loop_iff(1)) simp
  then obtain r where r: "blockers_loop fuel issues i (i_BlockedBy i) [] = Some r" by blast
  from Cons have "blocked_by_loop fuel issues order \<noteq> None" by simp
  with r Cons show ?case by (cases r) simp_all
qed

lemma waits_for_closed:
  "set (waits_for issues issues x) \<subseteq> i_ID ` set issues"
  "x \<notin> i_ID ` set issues \<Longrightarrow> \<forall>i \<in> set issues. i_ParentID i = [] \<or> i_ParentID i \<in> i_ID ` set issues \<Longrightarrow>
     waits_for issues issues x = []"
  by (auto simp: waits_for_def children_ids_def has_issue_iff issue_at_out zero_Issue_def filter_empty_conv)

lemma waitsAcyclic_iff:
  assumes "\<forall>i \<in> set (e_Issues e). i_ParentID i = [] \<or> i_ParentID i \<in> i_ID ` set (e_Issues e)"
  shows "waitsAcyclic (Suc (length (e_Issues e))) (e_Issues e) (e_Issues e) \<noteq> None"
    and "waitsAcyclic (Suc (length (e_Issues e))) (e_Issues e) (e_Issues e) = Some None \<longleftrightarrow>
      acyclic (waits e)"
proof -
  let ?V = "i_ID ` set (e_Issues e)" and ?w = "waits_for (e_Issues e) (e_Issues e)"
  have n: "card ?V < Suc (length (e_Issues e))"
    by (metis card_image_le card_length finite_set le_imp_less_Suc le_trans)
  have r: "set (map i_ID (e_Issues e)) = ?V" by simp
  have f: "finite ?V" by simp
  have out: "\<And>x. x \<notin> ?V \<Longrightarrow> ?w x = []" using waits_for_closed(2) assms by blast
  note d = walk_all_decides [of ?V ?w, OF f waits_for_closed(1) n r out]
  then show "waitsAcyclic (Suc (length (e_Issues e))) (e_Issues e) (e_Issues e) \<noteq> None"
    by (auto simp: waitsAcyclic_def split: sum.splits)
  from d(2) obtain res where
    "walk_all (walk (Suc (length (e_Issues e))) ?w) (map i_ID (e_Issues e)) (\<lambda>_. 0) = Some res"
    by blast
  with d(1) show "waitsAcyclic (Suc (length (e_Issues e))) (e_Issues e) (e_Issues e) = Some None
      \<longleftrightarrow> acyclic (waits e)"
    by (cases res) (auto simp: waitsAcyclic_def waits_def)
qed

lemma isAncestor_enough:
  assumes "hierarchy_loop issues [] i = None" and "i \<in> set issues"
  shows "isAncestor (Suc (length issues)) issues i b \<noteq> None"
proof -
  have "isAncestor (Suc (card (i_ID ` set issues - set []))) issues i b \<noteq> None"
    using isAncestor_returns [OF assms(1), of b] assms(2) by blast
  then obtain r where r: "isAncestor (Suc (card (i_ID ` set issues))) issues i b = Some r"
    by (simp del: isAncestor.simps) blast
  have "card (i_ID ` set issues) \<le> length issues"
    by (metis card_image_le card_length finite_set le_trans)
  then have "isAncestor (Suc (length issues)) issues i b = Some r"
    by (intro isAncestor_mono [OF r]) simp
  then show ?thesis by (simp del: isAncestor.simps)
qed

text \<open>Once the hierarchy is sound, the rest returns, and accepts just the acyclic waits.\<close>

lemma validateBlockedBy_iff:
  assumes h: "hierarchy_check (e_Issues e) (e_Issues e) = None"
  shows "validateBlockedBy (Suc (length (e_Issues e))) (e_Issues e) (e_Issues e) \<noteq> None"
    and "distinct (map i_ID (e_Issues e)) \<Longrightarrow>
      validateBlockedBy (Suc (length (e_Issues e))) (e_Issues e) (e_Issues e) = Some None \<longleftrightarrow>
      (\<forall>i \<in> set (e_Issues e). distinct (i_BlockedBy i) \<and> set (i_BlockedBy i) \<subseteq> issue_ids e) \<and>
      acyclic (waits e)"
proof -
  let ?n = "Suc (length (e_Issues e))" and ?is = "e_Issues e"
  have par: "\<forall>i \<in> set ?is. i_ParentID i = [] \<or> i_ParentID i \<in> i_ID ` set ?is"
    and anc: "\<And>i b. i \<in> set ?is \<Longrightarrow> isAncestor ?n ?is i b \<noteq> None"
    using h isAncestor_enough by (auto simp: hierarchy_check_None)
  have bl: "blocked_by_loop ?n ?is ?is \<noteq> None"
    "blocked_by_loop ?n ?is ?is = Some None \<longleftrightarrow>
      (\<forall>i \<in> set ?is. blockers_loop ?n ?is i (i_BlockedBy i) [] = Some None)"
    using blocked_by_loop_iff [of ?is ?n ?is] anc by blast+
  obtain r where r: "blocked_by_loop ?n ?is ?is = Some r" using bl(1) by blast
  show "validateBlockedBy ?n ?is ?is \<noteq> None"
    using r waitsAcyclic_iff(1) [OF par] by (cases r) (auto simp: validateBlockedBy_def)
  assume dist: "distinct (map i_ID ?is)"
  have inner: "blockers_loop ?n ?is i (i_BlockedBy i) [] = Some None \<longleftrightarrow>
      i_ID i \<notin> set (i_BlockedBy i) \<and> distinct (i_BlockedBy i) \<and> set (i_BlockedBy i) \<subseteq> issue_ids e \<and>
      (\<forall>b \<in> set (i_BlockedBy i). isAncestor ?n ?is i b = Some False)" if "i \<in> set ?is" for i
    using blockers_loop_iff(2) [of ?n ?is i, OF anc [OF that]] by (auto simp: issue_ids_def)
  have free: "i_ID i \<notin> set (i_BlockedBy i) \<and> (\<forall>b \<in> set (i_BlockedBy i). isAncestor ?n ?is i b = Some False)"
    if ac: "acyclic (waits e)" and i: "i \<in> set ?is" and s: "set (i_BlockedBy i) \<subseteq> issue_ids e" for i
  proof -
    have edge: "(i_ID i, b) \<in> waits e" if "b \<in> set (i_BlockedBy i)" for b
      using that i s by (auto simp: waits_iff [OF dist])
    have "isAncestor ?n ?is i b = Some False" if b: "b \<in> set (i_BlockedBy i)" for b
    proof (rule ccontr)
      assume "isAncestor ?n ?is i b \<noteq> Some False"
      with anc [OF i, of b] have "isAncestor ?n ?is i b = Some True" by auto
      then have "(b, i_ID i) \<in> (waits e)\<^sup>+" using isAncestor_waits i by blast
      with edge [OF b] ac show False by (meson acyclic_def trancl_into_trancl2)
    qed
    moreover have "i_ID i \<notin> set (i_BlockedBy i)" using edge ac by (auto simp: acyclic_def)
    ultimately show ?thesis by blast
  qed
  have "validateBlockedBy ?n ?is ?is = Some None \<longleftrightarrow>
      blocked_by_loop ?n ?is ?is = Some None \<and> acyclic (waits e)"
    using r waitsAcyclic_iff(2) [OF par] by (cases r) (auto simp: validateBlockedBy_def)
  also have "\<dots> \<longleftrightarrow> (\<forall>i \<in> set ?is. distinct (i_BlockedBy i) \<and> set (i_BlockedBy i) \<subseteq> issue_ids e) \<and>
      acyclic (waits e)"
    using bl(2) inner free by blast
  finally show "validateBlockedBy ?n ?is ?is = Some None \<longleftrightarrow>
      (\<forall>i \<in> set ?is. distinct (i_BlockedBy i) \<and> set (i_BlockedBy i) \<subseteq> issue_ids e) \<and> acyclic (waits e)" .
qed

text \<open>
  The two searches without a bound of their own, \<open>isAncestor\<close> and \<open>waitsAcyclic\<close>, are
  only entered on trees where they stop.
\<close>

lemma Validate_returns: "Validate e \<noteq> None"
proof (cases "repositories_loop (e_Repositories e) []")
  case (Inl err)
  then show ?thesis by (simp add: Validate_def)
next
  case (Inr seen)
  then have seen: "set seen = trim_space ` set (e_Repositories e)"
    by (simp add: repositories_loop_iff)
  show ?thesis
  proof (cases "issues_loop (e_Repositories e) seen (e_Issues e) [] 0")
    case (Inl err)
    with Inr show ?thesis by (simp add: Validate_def)
  next
    case (Inr p)
    obtain issues k where p: "p = (issues, k)" by fastforce
    with Inr have "issues = e_Issues e" by (simp add: issues_loop_iff [OF seen])
    with Inr p \<open>repositories_loop _ _ = _\<close> validateBlockedBy_iff(1) [of e] show ?thesis
      by (auto simp: Validate_def split: option.splits)
  qed
qed

lemma Validate_iff: "Validate e = Some None \<longleftrightarrow> well_formed e"
proof -
  have prefix: "e_BranchPrefix e = Slug (e_BranchPrefix e) \<longleftrightarrow> slug_form (e_BranchPrefix e)"
    using Slug_form Slug_id by metis
  have pr: "pull_requests_check (e_Issues e) (e_PullRequests e) = None \<longleftrightarrow>
      (\<forall>p \<in> set (e_PullRequests e). PullRequest_Validate p = None \<and> p_IssueID p \<in> issue_ids e)"
    by (auto simp: pull_requests_check_def first_error_None has_issue_iff issue_ids_def
        split: option.splits)
  have hier: "hierarchy_check (e_Issues e) (e_Issues e) = None"
    if "acyclic (waits e)" "\<forall>i \<in> set (e_Issues e). i_ParentID i = [] \<or> i_ParentID i \<in> issue_ids e"
    using that hierarchy_loop_ok [of e _ "[]"] by (auto simp: hierarchy_check_None issue_ids_def)
  have par: "\<forall>i \<in> set (e_Issues e). i_ParentID i = [] \<or> i_ParentID i \<in> issue_ids e"
    if "hierarchy_check (e_Issues e) (e_Issues e) = None"
    using that by (auto simp: hierarchy_check_None issue_ids_def)
  define front where "front \<longleftrightarrow> e_ID e \<noteq> [] \<and> trim_space (e_Title e) \<noteq> [] \<and>
     trim_space (e_Assignee e) \<noteq> [] \<and> slug_form (e_BranchPrefix e) \<and> isEpicState (e_State e) \<and>
     0 \<le> e_DraftingPasses e"
  define repos where "repos \<longleftrightarrow> [] \<notin> trim_space ` set (e_Repositories e) \<and>
     distinct (map trim_space (e_Repositories e))"
  define loop where "loop \<longleftrightarrow> (\<forall>i \<in> set (e_Issues e). issue_ok (e_Repositories e) i) \<and>
     distinct (map i_ID (e_Issues e)) \<and> length (filter (\<lambda>i. i_ParentID i = []) (e_Issues e)) = 1"
  have "Validate e = Some None \<longleftrightarrow> front \<and> repos \<and> loop \<and>
      hierarchy_check (e_Issues e) (e_Issues e) = None \<and>
      validateBlockedBy (Suc (length (e_Issues e))) (e_Issues e) (e_Issues e) = Some None \<and>
      pull_requests_check (e_Issues e) (e_PullRequests e) = None"
  proof (cases "repositories_loop (e_Repositories e) []")
    case (Inl err)
    then have "\<not> repos" using repositories_loop_iff [of "e_Repositories e" "[]" "map trim_space (e_Repositories e)"]
      by (auto simp: repos_def)
    with Inl show ?thesis by (simp add: Validate_def)
  next
    case r: (Inr seen)
    then have repos: repos and seen: "set seen = trim_space ` set (e_Repositories e)"
      by (simp_all add: repositories_loop_iff repos_def)
    show ?thesis
    proof (cases "issues_loop (e_Repositories e) seen (e_Issues e) [] 0")
      case (Inl err)
      then have "\<not> loop"
        using issues_loop_iff [OF seen, of "e_Issues e" "[]" 0 "e_Issues e"] by (auto simp: loop_def)
      with r Inl show ?thesis by (simp add: Validate_def)
    next
      case (Inr p)
      obtain issues k where p: "p = (issues, k)" by fastforce
      with Inr have is': "issues = e_Issues e"
        and "k = length (filter (\<lambda>i. i_ParentID i = []) (e_Issues e))"
        and "\<forall>i \<in> set (e_Issues e). issue_ok (e_Repositories e) i" "distinct (map i_ID (e_Issues e))"
        by (simp_all add: issues_loop_iff [OF seen])
      then have "loop \<longleftrightarrow> k = 1" by (simp add: loop_def)
      moreover have "loop \<Longrightarrow> length (e_Issues e) \<noteq> 0" by (auto simp: loop_def)
      ultimately show ?thesis using r repos Inr p is' prefix
        by (auto simp: Validate_def front_def split: option.splits)
    qed
  qed
  also have "\<dots> \<longleftrightarrow> front \<and> repos \<and> issues_well_formed e \<and>
      pull_requests_check (e_Issues e) (e_PullRequests e) = None"
  proof -
    have "hierarchy_check (e_Issues e) (e_Issues e) = None \<and>
        validateBlockedBy (Suc (length (e_Issues e))) (e_Issues e) (e_Issues e) = Some None \<longleftrightarrow>
        (\<forall>i \<in> set (e_Issues e). i_ParentID i = [] \<or> i_ParentID i \<in> issue_ids e) \<and>
        (\<forall>i \<in> set (e_Issues e). distinct (i_BlockedBy i) \<and> set (i_BlockedBy i) \<subseteq> issue_ids e) \<and>
        acyclic (waits e)" if "distinct (map i_ID (e_Issues e))"
      using validateBlockedBy_iff(2) [OF _ that] hier par by metis
    then show ?thesis unfolding loop_def issues_well_formed_def by (simp cong: conj_cong) argo
  qed
  also have "\<dots> \<longleftrightarrow> well_formed e"
    unfolding well_formed_def front_def repos_def pr by blast
  finally show ?thesis .
qed

text \<open>C1. \<open>Epic.Validate\<close> always returns, and accepts an epic exactly when it is well formed:
  one root, unique issue IDs, parents and blockers that exist, repositories in scope, valid
  records, and no cycle in who waits for whom.\<close>

theorem Validate_decides_well_formed:
  "Validate e \<noteq> None \<and> (Validate e = Some None \<longleftrightarrow> well_formed e)"
  using Validate_returns Validate_iff by blast

section \<open>What the tree does not depend on\<close>

definition skeleton :: "Issue \<Rightarrow> string \<times> string \<times> string \<times> string list" where
  "skeleton i = (i_ID i, i_ParentID i, i_Repository i, i_BlockedBy i)"

definition content_ok :: "Issue \<Rightarrow> bool" where
  "content_ok i \<longleftrightarrow> Issue_Validate i = None \<and> (\<forall>c \<in> set (i_Comments i). Comment_Validate c = None)"

lemma skeleton_ids: "map skeleton xs = map skeleton ys \<Longrightarrow> map i_ID xs = map i_ID ys"
  by (drule arg_cong [where f = "map fst"]) (simp add: o_def skeleton_def)

lemma skeleton_set:
  "map skeleton xs = map skeleton ys \<Longrightarrow> skeleton ` set xs = skeleton ` set ys"
  by (metis list.set_map)

lemma skeleton_waits:
  assumes "map skeleton (e_Issues e') = map skeleton (e_Issues e)"
  shows "waits e' = waits e"
proof -
  have len: "list_all2 (\<lambda>i j. skeleton i = skeleton j) (e_Issues e') (e_Issues e)"
    using assms by (simp add: list_all2_map1 list_all2_map2 list.rel_eq [symmetric] list.rel_map)
  have find: "i_BlockedBy (issue_at xs x) = i_BlockedBy (issue_at ys x)"
    if "list_all2 (\<lambda>i j. skeleton i = skeleton j) xs ys" for xs ys x
    using that by (induction rule: list_all2_induct) (auto simp: issue_at_def skeleton_def)
  have kids: "children_ids xs x = children_ids ys x"
    if "list_all2 (\<lambda>i j. skeleton i = skeleton j) xs ys" for xs ys x
    using that by (induction rule: list_all2_induct) (auto simp: children_ids_def skeleton_def)
  have has: "has_issue (e_Issues e') = has_issue (e_Issues e)"
    using skeleton_ids [OF assms] by (intro ext) (metis has_issue_iff list.set_map)
  show ?thesis
    by (simp add: waits_def waits_for_def edges_def find [OF len] kids [OF len] has)
qed

lemma skeleton_roots:
  assumes "map skeleton xs = map skeleton ys"
  shows "length (filter (\<lambda>i. i_ParentID i = []) xs) = length (filter (\<lambda>i. i_ParentID i = []) ys)"
proof -
  have "length (filter (\<lambda>i. i_ParentID i = []) zs) =
      length (filter (\<lambda>(_, p, _, _). p = []) (map skeleton zs))" for zs
    by (induction zs) (auto simp: skeleton_def)
  then show ?thesis using assms by (simp only:)
qed

lemma issues_well_formed_skeleton:
  assumes sk: "map skeleton (e_Issues e') = map skeleton (e_Issues e)"
    and rp: "e_Repositories e' = e_Repositories e"
    and ok: "\<forall>i \<in> set (e_Issues e'). content_ok i" and wf: "issues_well_formed e"
  shows "issues_well_formed e'" and "issue_ids e' = issue_ids e"
proof -
  show ids: "issue_ids e' = issue_ids e"
    using skeleton_ids [OF sk] by (metis issue_ids_def list.set_map)
  have sim: "\<exists>j \<in> set (e_Issues e). skeleton j = skeleton i" if "i \<in> set (e_Issues e')" for i
    using that skeleton_set [OF sk] by (metis imageE imageI)
  have "issue_ok (e_Repositories e) i" if "i \<in> set (e_Issues e')" for i
    using sim [OF that] ok that wf
    by (auto simp: issue_ok_def content_ok_def skeleton_def issues_well_formed_def)
  moreover have "(i_ParentID i = [] \<or> i_ParentID i \<in> issue_ids e) \<and> distinct (i_BlockedBy i) \<and>
      set (i_BlockedBy i) \<subseteq> issue_ids e" if "i \<in> set (e_Issues e')" for i
    using sim [OF that] wf unfolding issues_well_formed_def skeleton_def by (metis prod.inject)
  ultimately show "issues_well_formed e'"
    using wf skeleton_waits [OF sk] skeleton_roots [OF sk] skeleton_ids [OF sk]
    by (simp add: issues_well_formed_def rp ids)
qed

lemma well_formed_content: "well_formed e \<Longrightarrow> \<forall>i \<in> set (e_Issues e). content_ok i"
  by (auto simp: well_formed_def issues_well_formed_def issue_ok_def content_ok_def)

lemma well_formed_distinct: "well_formed e \<Longrightarrow> distinct (map i_ID (e_Issues e))"
  by (simp add: well_formed_def issues_well_formed_def)

text \<open>A change that keeps the tree and leaves valid records keeps the epic well formed.\<close>

lemma well_formed_skeleton:
  assumes "well_formed e" and "map skeleton (e_Issues e') = map skeleton (e_Issues e)"
    and "e_ID e' = e_ID e" and "e_Assignee e' = e_Assignee e" and "e_Repositories e' = e_Repositories e"
    and "trim_space (e_Title e') \<noteq> []" and "slug_form (e_BranchPrefix e')" and "isEpicState (e_State e')"
    and "0 \<le> e_DraftingPasses e'"
    and "\<forall>i \<in> set (e_Issues e'). content_ok i"
    and "\<forall>p \<in> set (e_PullRequests e'). PullRequest_Validate p = None \<and> p_IssueID p \<in> issue_ids e"
  shows "well_formed e'"
  using assms issues_well_formed_skeleton [of e' e] by (simp add: well_formed_def)

section \<open>An example\<close>

text \<open>A root with two issues, the second waiting for the first; the first has a pull request.\<close>

definition example_issue :: "string \<Rightarrow> string \<Rightarrow> string \<Rightarrow> IssueState \<Rightarrow> string list \<Rightarrow> Issue" where
  "example_issue id' parent repository state blockers =
     \<lparr>i_ID = id', i_Title = ''Task'', i_ParentID = parent, i_Repository = repository,
      i_State = state, i_CreatedAt = 1, i_Body = [], i_Comments = [], i_BlockedBy = blockers\<rparr>"

definition example_pull_request :: PullRequest where
  "example_pull_request =
     \<lparr>p_ID = ''P1'', p_IssueID = ''I1'', p_Title = ''Task'', p_Status = PullRequestOpen,
      p_Repository = ''acme/api'', p_Number = 0, p_URL = [], p_Head = ''gm/task-I1'', p_Base = ''main'',
      p_Flags = [], p_ReviewedHead = ''h1'', p_ReviewedBase = ''b1'', p_Rounds = 1, p_Reviews = 1,
      p_RoundsGranted = 0, p_CodingRounds = 1, p_Approved = True, p_CreatedAt = 1, p_Comments = []\<rparr>"

definition example_epic :: Epic where
  "example_epic =
     \<lparr>e_ID = ''E1'', e_Title = ''Epic'', e_Assignee = ''ann'', e_Repositories = [''acme/api''],
      e_Body = [], e_State = EpicStateReady, e_BranchPrefix = ''jira-1'',
      e_Issues = [example_issue ''R'' [] [] IssueStateOpen [],
        example_issue ''I1'' ''R'' ''acme/api'' IssueStatePR [],
        example_issue ''I2'' ''R'' ''acme/api'' IssueStateOpen [''I1'']],
      e_PullRequests = [example_pull_request], e_DraftingPasses = 1\<rparr>"

lemma trim_space_example:
  "trim_space ''Task'' = ''Task''" "trim_space ''Epic'' = ''Epic''" "trim_space ''ann'' = ''ann''"
  "trim_space ''acme/api'' = ''acme/api''"
  by (intro trim_space_solid; simp add: byte_def is_space_def in_range_def)+

lemma example_issue_simps [simp]:
  "i_ID (example_issue a b c d f) = a" "i_ParentID (example_issue a b c d f) = b"
  "i_Repository (example_issue a b c d f) = c" "i_State (example_issue a b c d f) = d"
  "i_BlockedBy (example_issue a b c d f) = f" "i_Comments (example_issue a b c d f) = []"
  "i_Title (example_issue a b c d f) = ''Task''"
  by (simp_all add: example_issue_def)

lemma example_waits: "waits example_epic = {(''R'', ''I1''), (''R'', ''I2''), (''I2'', ''I1'')}"
proof -
  have d: "distinct (map i_ID (e_Issues example_epic))" by (simp add: example_epic_def)
  have "(x, y) \<in> waits example_epic \<longleftrightarrow> (x, y) \<in> {(''R'', ''I1''), (''R'', ''I2''), (''I2'', ''I1'')}" for x y
    unfolding waits_iff [OF d] by (auto simp: example_epic_def issue_ids_def)
  then show ?thesis by auto
qed

lemma example_well_formed: "well_formed example_epic"
proof -
  have "waits example_epic \<subseteq> (measure (\<lambda>x. if x = ''R'' then 2 else if x = ''I2'' then 1 else 0))\<inverse>"
    by (auto simp: example_waits)
  moreover have "acyclic ((measure f)\<inverse>)" for f :: "string \<Rightarrow> nat"
    unfolding acyclic_converse by (rule wf_acyclic [OF wf_measure])
  ultimately have "acyclic (waits example_epic)" using acyclic_subset by blast
  moreover have "slug_form ''jira-1''"
    by (simp add: slug_form_def hyphen_def slug_alnum_def in_range_def byte_def)
  moreover have "\<forall>i \<in> set (e_Issues example_epic). issue_ok (e_Repositories example_epic) i"
    by (simp add: example_epic_def issue_ok_def Issue_Validate_def trim_space_example)
  moreover have "PullRequest_Validate example_pull_request = None"
    by (simp add: PullRequest_Validate_None example_pull_request_def counts_ok_def trim_space_example)
  moreover have "issue_ids example_epic = {''R'', ''I1'', ''I2''}"
    by (simp add: issue_ids_def example_epic_def)
  ultimately show ?thesis
    unfolding well_formed_def issues_well_formed_def
    by (simp add: example_epic_def trim_space_example) (simp add: example_pull_request_def)
qed

end
