(* ===== verification/Epic_Progress.thy ===== *)
theory Epic_Progress
  imports Epic_Validate
begin

text \<open>
  What the operations of the aggregate do to a well formed epic, and why the loop cannot
  wait for itself: \<open>Blocked\<close> of \<open>epic_progress.go\<close> is read against the acyclic \<open>waits\<close>
  that \<open>Validate\<close> guarantees.
\<close>

section \<open>No deadlock\<close>

lemma FindIssue_eq:
  "distinct (map i_ID (e_Issues e)) \<Longrightarrow> i \<in> set (e_Issues e) \<Longrightarrow> FindIssue e (i_ID i) = Inr i"
  by (simp add: FindIssue_def find_by_def find_distinct_key)

lemma FindIssue_Inr: "FindIssue e x = Inr i \<Longrightarrow> i \<in> set (e_Issues e) \<and> i_ID i = x"
  by (auto simp: FindIssue_def dest: find_by_Inr)

lemma FindIssue_Inl: "(\<exists>err. FindIssue e x = Inl err) \<longleftrightarrow> x \<notin> issue_ids e"
  by (auto simp: FindIssue_def find_by_Inl issue_ids_def)

lemma Blocked_iff:
  assumes wf: "well_formed e" and i: "i \<in> set (e_Issues e)"
  shows "Blocked e (i_ID i) \<longleftrightarrow>
    (\<exists>j \<in> set (e_Issues e). (i_ID i, i_ID j) \<in> waits e \<and> \<not> settled j)"
proof -
  have d: "distinct (map i_ID (e_Issues e))" by (rule well_formed_distinct [OF wf])
  have ne: "i_ID i \<noteq> []"
    using well_formed_content [OF wf] i by (auto simp: content_ok_def Issue_Validate_def split: if_splits)
  have "(case FindIssue e b of Inl _ \<Rightarrow> False | Inr blocker \<Rightarrow> \<not> settled blocker) \<longleftrightarrow>
      (\<exists>j \<in> set (e_Issues e). i_ID j = b \<and> \<not> settled j)" for b
  proof (cases "FindIssue e b")
    case (Inl err)
    then have "b \<notin> issue_ids e" using FindIssue_Inl by blast
    with Inl show ?thesis by (auto simp: issue_ids_def)
  next
    case (Inr j)
    note j = FindIssue_Inr [OF Inr]
    have "k = j" if "k \<in> set (e_Issues e)" "i_ID k = b" for k
      using distinct_map_unique [OF d that(1), of j] j that(2) by simp
    then have "(\<exists>k \<in> set (e_Issues e). i_ID k = b \<and> \<not> settled k) \<longleftrightarrow> \<not> settled j"
      using j by metis
    with Inr show ?thesis by simp
  qed
  then have "Blocked e (i_ID i) \<longleftrightarrow>
      (\<exists>j \<in> set (e_Issues e). \<not> settled j \<and>
         (i_ParentID j = i_ID i \<or> i_ID j \<in> set (i_BlockedBy i)))"
    by (auto simp: Blocked_def FindIssue_eq [OF d i] list_ex_iff)
  moreover have "(i_ID i, i_ID j) \<in> waits e \<longleftrightarrow> i_ParentID j = i_ID i \<or> i_ID j \<in> set (i_BlockedBy i)"
    if "j \<in> set (e_Issues e)" for j
  proof -
    have "(\<exists>c \<in> set (e_Issues e). i_ID c = i_ID j \<and> i_ParentID c = i_ID i \<and> i_ID i \<noteq> []) \<longleftrightarrow>
        i_ParentID j = i_ID i"
      using distinct_map_unique [OF d] that ne by metis
    moreover have "(\<exists>k \<in> set (e_Issues e). i_ID k = i_ID i \<and> i_ID j \<in> set (i_BlockedBy k) \<and>
        i_ID j \<in> issue_ids e) \<longleftrightarrow> i_ID j \<in> set (i_BlockedBy i)"
      using distinct_map_unique [OF d] that i by (metis issue_ids_def imageI)
    ultimately show ?thesis by (simp only: waits_iff [OF d])
  qed
  ultimately show ?thesis by blast
qed

lemma waits_within:
  assumes "well_formed e"
  shows "waits e \<subseteq> issue_ids e \<times> issue_ids e"
proof
  fix p assume p: "p \<in> waits e"
  obtain x y where xy: "p = (x, y)" by fastforce
  have par: "\<forall>i \<in> set (e_Issues e). i_ParentID i = [] \<or> i_ParentID i \<in> issue_ids e"
    using assms by (simp add: well_formed_def issues_well_formed_def)
  from p xy show "p \<in> issue_ids e \<times> issue_ids e"
    unfolding xy using par by (auto simp: waits_iff [OF well_formed_distinct [OF assms]] issue_ids_def)
qed

text \<open>C2. The loop is never stuck on its own ordering: as long as a well formed epic has an
  issue left to settle, one of those issues is not \<open>Blocked\<close>.\<close>

theorem some_issue_is_free:
  assumes wf: "well_formed e" and un: "i \<in> set (e_Issues e)" "\<not> settled i"
  shows "\<exists>j \<in> set (e_Issues e). \<not> settled j \<and> \<not> Blocked e (i_ID j)"
proof -
  define U where "U = {i_ID j |j. j \<in> set (e_Issues e) \<and> \<not> settled j}"
  have "finite (waits e)"
    using waits_within [OF wf] by (rule finite_subset) (simp add: issue_ids_def)
  moreover have "acyclic (waits e)" using wf by (simp add: well_formed_def issues_well_formed_def)
  ultimately have "wf ((waits e)\<inverse>)" by (rule finite_acyclic_wf_converse)
  moreover have "i_ID i \<in> U" using un by (auto simp: U_def)
  ultimately obtain z where z: "z \<in> U" "\<And>y. (y, z) \<in> (waits e)\<inverse> \<Longrightarrow> y \<notin> U"
    by (metis wfE_min)
  then obtain j where j: "j \<in> set (e_Issues e)" "\<not> settled j" "i_ID j = z" by (auto simp: U_def)
  with z(2) have "\<not> Blocked e (i_ID j)" by (auto simp: Blocked_iff [OF wf j(1)] U_def)
  with j show ?thesis by blast
qed

lemma some_issue_is_free_witness:
  "\<exists>j \<in> set (e_Issues example_epic). \<not> settled j \<and> \<not> Blocked example_epic (i_ID j)"
  by (rule some_issue_is_free [OF example_well_formed, of "example_issue ''R'' [] [] IssueStateOpen []"])
    (simp_all add: example_epic_def settled_def)

text \<open>What a settled epic waits for: nothing.\<close>

lemma settled_not_blocked:
  assumes "\<forall>i \<in> set (e_Issues e). settled i"
  shows "\<not> Blocked e x"
  using assms by (auto simp: Blocked_def list_ex_iff dest: FindIssue_Inr split: sum.splits)

section \<open>The operations keep an epic well formed\<close>

lemma on_issues_None:
  "on_issues f e = (None, e') \<longleftrightarrow> (\<exists>xs. f (e_Issues e) = (None, xs) \<and> e' = e\<lparr>e_Issues := xs\<rparr>)"
  by (auto simp: on_issues_def split: prod.splits)

lemma on_pull_requests_None:
  "on_pull_requests f e = (None, e') \<longleftrightarrow>
     (\<exists>xs. f (e_PullRequests e) = (None, xs) \<and> e' = e\<lparr>e_PullRequests := xs\<rparr>)"
  by (auto simp: on_pull_requests_def split: prod.splits)

lemma on_issues_atomic: "atomic f \<Longrightarrow> atomic (on_issues f)"
  by (rule atomicI) (auto simp: on_issues_def split: prod.splits dest: atomicD)

lemma mutate_atomic: "atomic (mutate change)"
  by (rule atomicI) (auto simp: mutate_def split: prod.splits option.splits)

lemma mutate_None:
  "mutate change e = (None, e') \<longleftrightarrow>
     (\<exists>u. change e = (None, u) \<and>
        e' = e\<lparr>e_Issues := e_Issues u, e_PullRequests := e_PullRequests u\<rparr>)"
  by (auto simp: mutate_def split: prod.splits option.splits)

text \<open>One issue or one pull request changed in place.\<close>

lemma update_first_None:
  assumes "update_first p f nf xs = (None, xs')"
  obtains ys x zs x' where "xs = ys @ x # zs" "\<forall>y \<in> set ys. \<not> p y" "p x" "f x = (None, x')"
    "xs' = ys @ x' # zs"
  using assms by (rule update_first_cases) auto

definition issue_change_ok :: "Issue update \<Rightarrow> bool" where
  "issue_change_ok f \<longleftrightarrow>
     (\<forall>i i'. f i = (None, i') \<longrightarrow> content_ok i \<longrightarrow> skeleton i' = skeleton i \<and> content_ok i')"

lemma keeps_on_issues:
  assumes "issue_change_ok f"
  shows "keeps well_formed (on_issues (update_first p f nf))"
proof (rule keepsI)
  fix e e' assume wf: "well_formed e" and r: "on_issues (update_first p f nf) e = (None, e')"
  then obtain xs where u: "update_first p f nf (e_Issues e) = (None, xs)" and e': "e' = e\<lparr>e_Issues := xs\<rparr>"
    by (auto simp: on_issues_None)
  from u obtain ys i zs i' where
    s: "e_Issues e = ys @ i # zs" "f i = (None, i')" "xs = ys @ i' # zs"
    by (rule update_first_None)
  have "content_ok i" using well_formed_content [OF wf] s by auto
  with assms s have i': "skeleton i' = skeleton i" "content_ok i'" by (auto simp: issue_change_ok_def)
  show "well_formed e'"
    by (rule well_formed_skeleton [OF wf])
      (use wf s i' well_formed_content [OF wf] in \<open>auto simp: e' well_formed_def\<close>)
qed

definition pull_request_change_ok :: "PullRequest update \<Rightarrow> bool" where
  "pull_request_change_ok f \<longleftrightarrow>
     (\<forall>p p'. f p = (None, p') \<longrightarrow> PullRequest_Validate p = None \<longrightarrow>
        PullRequest_Validate p' = None \<and> p_IssueID p' = p_IssueID p)"

lemma keeps_on_pull_requests:
  assumes "pull_request_change_ok f"
  shows "keeps well_formed (on_pull_requests (update_first p f nf))"
proof (rule keepsI)
  fix e e' assume wf: "well_formed e" and r: "on_pull_requests (update_first p f nf) e = (None, e')"
  then obtain xs where u: "update_first p f nf (e_PullRequests e) = (None, xs)"
    and e': "e' = e\<lparr>e_PullRequests := xs\<rparr>"
    by (auto simp: on_pull_requests_None)
  from u obtain ys q zs q' where
    s: "e_PullRequests e = ys @ q # zs" "f q = (None, q')" "xs = ys @ q' # zs"
    by (rule update_first_None)
  have all: "\<forall>p \<in> set (e_PullRequests e). PullRequest_Validate p = None \<and> p_IssueID p \<in> issue_ids e"
    using wf by (simp add: well_formed_def)
  with assms s have q': "PullRequest_Validate q' = None" "p_IssueID q' = p_IssueID q"
    by (auto simp: pull_request_change_ok_def)
  show "well_formed e'"
    by (rule well_formed_skeleton [OF wf])
      (use wf s q' all well_formed_content [OF wf] in \<open>auto simp: e' well_formed_def\<close>)
qed

lemma transition_content: "issue_change_ok (Issue_TransitionTo next')"
  by (auto simp: issue_change_ok_def Issue_TransitionTo_iff skeleton_def content_ok_def
      Issue_Validate_def split: if_splits)

lemma comment_content: "issue_change_ok (Issue_AddComment comment)"
  by (auto simp: issue_change_ok_def Issue_AddComment_def skeleton_def content_ok_def
      Issue_Validate_def split: if_splits option.splits)

lemma title_content: "trim_space title \<noteq> [] \<Longrightarrow> issue_change_ok (Issue_SetTitle title)"
  by (auto simp: issue_change_ok_def Issue_SetTitle_def skeleton_def content_ok_def
      Issue_Validate_def split: if_splits)

lemma body_content: "issue_change_ok (Issue_SetBody body)"
  by (auto simp: issue_change_ok_def Issue_SetBody_def skeleton_def content_ok_def
      Issue_Validate_def split: if_splits)

lemma apply_change: "pull_request_change_ok (PullRequest_Apply event)"
  by (cases event) (auto simp: pull_request_change_ok_def PullRequest_Apply_def PullRequest_Validate_None
      pullRequestTransition_def counts_ok_def split: if_splits option.splits)

lemma comment_change: "pull_request_change_ok (PullRequest_AddComment comment)"
  by (auto simp: pull_request_change_ok_def PullRequest_AddComment_def PullRequest_Validate_None
      counts_ok_def split: option.splits)

lemmas change_defs = pull_request_change_ok_def PullRequest_Validate_None counts_ok_def

lemma flag_change: "isPullRequestFlag flag \<Longrightarrow> pull_request_change_ok (SetFlag flag present)"
  using SetFlag_eq SetFlag_snd by (auto simp: change_defs)

lemma coding_change: "pull_request_change_ok RecordCodingRound"
  by (auto simp: change_defs round_defs SetFlag_def AddFlag_def split: if_splits)

lemma grant_change: "pull_request_change_ok GrantCodingRound"
  by (auto simp: change_defs round_defs SetFlag_def AddFlag_def split: if_splits)

lemma merge_change: "pull_request_change_ok (\<lambda>p. (None, RecordMergeRound p))"
  by (auto simp: change_defs round_defs)

lemma push_change: "pull_request_change_ok (\<lambda>p. (None, RecordExternalPush p))"
  by (auto simp: change_defs round_defs)

lemma review_change: "pull_request_change_ok (RecordReview approved head base)"
  by (auto simp: change_defs round_defs SetFlag_def AddFlag_def split: if_splits)

lemmas keeps_issue = keeps_on_issues [OF transition_content] keeps_on_issues [OF comment_content]
  keeps_on_issues [OF body_content]

lemma keeps_TransitionIssue: "keeps well_formed (TransitionIssue issueID next')"
  unfolding TransitionIssue_def by (rule keeps_issue)

lemma keeps_AddIssueComment: "keeps well_formed (AddIssueComment issueID comment)"
  unfolding AddIssueComment_def by (rule keeps_issue)

lemma keeps_AddPullRequestComment: "keeps well_formed (AddPullRequestComment id' comment)"
  unfolding AddPullRequestComment_def by (rule keeps_on_pull_requests [OF comment_change])

lemma validated_change_ok:
  "(\<And>p p'. change p = (None, p') \<Longrightarrow> p_IssueID p' = p_IssueID p) \<Longrightarrow>
     pull_request_change_ok (then_do change (\<lambda>p. (PullRequest_Validate p, p)))"
  by (auto simp: pull_request_change_ok_def then_do_None_iff)

lemma keeps_UpdatePullRequest:
  assumes "\<And>p p'. change p = (None, p') \<Longrightarrow> p_IssueID p' = p_IssueID p"
  shows "keeps well_formed (UpdatePullRequest id' change)"
  unfolding UpdatePullRequest_def by (intro keeps_on_pull_requests validated_change_ok assms)

text \<open>Fields of the epic alone.\<close>

lemma well_formed_fields:
  assumes "well_formed e" and "isEpicState s" and "0 \<le> n" and "slug_form b" and "trim_space t \<noteq> []"
  shows "well_formed (e\<lparr>e_State := s, e_DraftingPasses := n, e_BranchPrefix := b, e_Title := t, e_Body := d\<rparr>)"
  by (rule well_formed_skeleton [OF assms(1)])
    (use assms well_formed_content [OF assms(1)] in \<open>auto simp: well_formed_def\<close>)

lemma keeps_Epic_Apply: "keeps well_formed (Epic_Apply event)"
proof (rule keepsI)
  fix e e' assume wf: "well_formed e" and "Epic_Apply event e = (None, e')"
  then obtain s where "isEpicState s" "e' = e\<lparr>e_State := s\<rparr>"
    by (auto simp: Epic_Apply_iff dest: epic_transition_state)
  with wf well_formed_fields [of e s "e_DraftingPasses e" "e_BranchPrefix e" "e_Title e" "e_Body e"]
  show "well_formed e'" by (simp add: well_formed_def)
qed

lemma keeps_ForceState: "keeps well_formed (ForceState next')"
proof (rule keepsI)
  fix e e' assume wf: "well_formed e" and "ForceState next' e = (None, e')"
  with well_formed_fields [of e next' "e_DraftingPasses e" "e_BranchPrefix e" "e_Title e" "e_Body e"]
  show "well_formed e'" by (auto simp: well_formed_def ForceState_def split: if_splits)
qed

lemma keeps_Epic_TransitionTo: "keeps well_formed (Epic_TransitionTo next')"
  by (rule keepsI)
    (auto simp: Epic_TransitionTo_def split: if_splits option.splits intro: keepsD [OF keeps_Epic_Apply])

lemma keeps_RecordDraftingPass: "keeps well_formed (RecordDraftingPass approved)"
proof (rule keepsI)
  fix e e' assume wf: "well_formed e" and r: "RecordDraftingPass approved e = (None, e')"
  then have "isEpicState (e_State e')"
    "e' = e\<lparr>e_State := e_State e', e_DraftingPasses := e_DraftingPasses e + 1\<rparr>"
    by (auto simp: RecordDraftingPass_iff split: if_splits)
  then obtain s where "isEpicState s"
    "e' = e\<lparr>e_State := s, e_DraftingPasses := e_DraftingPasses e + 1\<rparr>" by blast
  with wf well_formed_fields [of e s "e_DraftingPasses e + 1" "e_BranchPrefix e" "e_Title e" "e_Body e"]
  show "well_formed e'" by (simp add: well_formed_def)
qed

lemma keeps_Epic_SetTitle: "keeps well_formed (Epic_SetTitle title)"
proof (rule keepsI)
  fix e e' assume wf: "well_formed e" and r: "Epic_SetTitle title e = (None, e')"
  with well_formed_fields [of e "e_State e" "e_DraftingPasses e" "e_BranchPrefix e"
      "trim_space title" "e_Body e"]
  show "well_formed e'" by (auto simp: well_formed_def Epic_SetTitle_def Let_def split: if_splits)
qed

lemma keeps_Epic_SetBody: "keeps well_formed (Epic_SetBody body)"
proof (rule keepsI)
  fix e e' assume wf: "well_formed e" and r: "Epic_SetBody body e = (None, e')"
  with well_formed_fields [of e "e_State e" "e_DraftingPasses e" "e_BranchPrefix e" "e_Title e" body]
  show "well_formed e'" by (auto simp: well_formed_def Epic_SetBody_def split: if_splits)
qed

lemma keeps_SetBranchPrefix: "keeps well_formed (SetBranchPrefix raw)"
proof (rule keepsI)
  fix e e' assume wf: "well_formed e" and r: "SetBranchPrefix raw e = (None, e')"
  with well_formed_fields [of e "e_State e" "e_DraftingPasses e" "Slug raw" "e_Title e" "e_Body e"]
  show "well_formed e'" by (auto simp: well_formed_def SetBranchPrefix_def Slug_form split: if_splits)
qed

section \<open>New records\<close>

definition zero_Epic :: Epic where
  "zero_Epic = \<lparr>e_ID = [], e_Title = [], e_Assignee = [], e_Repositories = [], e_Body = [],
     e_State = EpicStateOther [], e_BranchPrefix = [], e_Issues = [], e_PullRequests = [],
     e_DraftingPasses = 0\<rparr>"

text \<open>
  \<open>CreateEpic\<close> mints the root issue's ID before its own. It returns the epic beside the
  outcome of \<open>Validate\<close>, whose outer option is that of \<open>Validate\<close>.
\<close>

definition CreateEpic ::
    "string \<Rightarrow> string \<Rightarrow> int \<Rightarrow> string \<Rightarrow> string \<Rightarrow> string \<Rightarrow> go_error option option \<times> Epic" where
  "CreateEpic issue_ulid ulid now title assignee body =
     (let title = trim_space title; assignee = trim_space assignee
      in if title = [] then (Some (Some (Errorf ''epic title is required'' [])), zero_Epic)
         else if assignee = []
         then (Some (Some (Errorf ''epic assignee is required'' [])), zero_Epic)
         else (case CreateIssue issue_ulid now title body of
                 (Some err, _) \<Rightarrow> (Some (Some err), zero_Epic)
               | (None, root) \<Rightarrow>
                   let epic = zero_Epic\<lparr>e_ID := ulid, e_Title := title, e_Assignee := assignee,
                         e_Body := body, e_State := EpicStateConcept, e_Issues := [root]\<rparr>
                   in (Validate epic, epic)))"

lemma waits_single:
  assumes "e_Issues e = [i]" and "i_ParentID i = []" and "i_BlockedBy i = []"
  shows "waits e = {}"
  using assms by (auto simp: waits_iff)

lemma CreateEpic_ok:
  assumes "issue_ulid \<noteq> []" and "ulid \<noteq> []" and "trim_space title \<noteq> []" and "trim_space assignee \<noteq> []"
  shows "\<exists>e. CreateEpic issue_ulid ulid now title assignee body = (Some None, e) \<and> well_formed e \<and>
     e_State e = EpicStateConcept \<and> e_Title e = trim_space title \<and> e_PullRequests e = [] \<and>
     (\<exists>root. e_Issues e = [root] \<and> i_ID root = issue_ulid \<and> i_Title root = trim_space title \<and>
        i_State root = IssueStateOpen)"
proof -
  define root where "root = snd (CreateIssue issue_ulid now (trim_space title) body)"
  define e where "e = zero_Epic\<lparr>e_ID := ulid, e_Title := trim_space title,
    e_Assignee := trim_space assignee, e_Body := body, e_State := EpicStateConcept, e_Issues := [root]\<rparr>"
  have root: "CreateIssue issue_ulid now (trim_space title) body = (None, root)"
    "i_ID root = issue_ulid" "i_Title root = trim_space title" "i_ParentID root = []"
    "i_Repository root = []" "i_State root = IssueStateOpen" "i_Comments root = []" "i_BlockedBy root = []"
    "Issue_Validate root = None"
    using assms by (simp_all add: root_def CreateIssue_def createIssue_def Issue_Validate_def Let_def)
  have "waits e = {}" using root by (intro waits_single [of _ root]) (simp_all add: e_def)
  then have wf: "well_formed e"
    using root assms
    by (auto simp: well_formed_def issues_well_formed_def issue_ok_def e_def zero_Epic_def slug_form_def
        acyclic_def)
  have "CreateEpic issue_ulid ulid now title assignee body = (Validate e, e)"
    using assms root(1) by (simp add: CreateEpic_def e_def Let_def)
  with wf root show ?thesis by (simp add: Validate_iff e_def zero_Epic_def)
qed

text \<open>A drafted issue joins a well formed epic under an existing parent.\<close>

lemma AddIssue_well_formed:
  assumes wf: "well_formed e" and r: "AddIssue parentID issue e = (None, e')"
    and fresh: "i_ID issue \<notin> issue_ids e" and ok: "content_ok issue"
    and scope: "e_Repositories e = [] \<or>
      trim_space (i_Repository issue) \<in> trim_space ` set (e_Repositories e)"
    and free: "i_BlockedBy issue = []"
  shows "well_formed e'"
proof -
  define j where "j = issue\<lparr>i_ParentID := parentID\<rparr>"
  from r have e': "e' = e\<lparr>e_Issues := e_Issues e @ [j]\<rparr>" and rep: "trim_space (i_Repository issue) \<noteq> []"
    and par: "parentID \<in> issue_ids e"
    by (auto simp: AddIssue_def j_def issue_ids_def find_Some_iff split: if_splits option.splits)
  have ids: "issue_ids e' = insert (i_ID issue) (issue_ids e)"
    by (auto simp: issue_ids_def e' j_def)
  have d: "distinct (map i_ID (e_Issues e'))"
    using well_formed_distinct [OF wf] fresh by (auto simp: e' j_def issue_ids_def)
  have pne: "parentID \<noteq> []"
    using par well_formed_content [OF wf]
    by (auto simp: issue_ids_def content_ok_def Issue_Validate_def split: if_splits)
  have sub: "waits e' \<subseteq> insert (parentID, i_ID issue) (waits e)"
  proof
    fix p assume p: "p \<in> waits e'"
    obtain x y where xy: "p = (x, y)" by fastforce
    have bl: "\<forall>i \<in> set (e_Issues e). set (i_BlockedBy i) \<subseteq> issue_ids e"
      using wf by (simp add: well_formed_def issues_well_formed_def)
    from p show "p \<in> insert (parentID, i_ID issue) (waits e)"
      unfolding xy insert_iff waits_iff [OF d] waits_iff [OF well_formed_distinct [OF wf]]
      using bl free by (auto simp: e' j_def)
  qed
  have "(i_ID issue, parentID) \<notin> (waits e)\<^sup>*"
  proof
    assume "(i_ID issue, parentID) \<in> (waits e)\<^sup>*"
    then have "i_ID issue = parentID \<or> i_ID issue \<in> Domain (waits e)"
      by (metis Domain.DomainI converse_rtranclE)
    then show False using fresh par waits_within [OF wf] by auto
  qed
  moreover have "acyclic (waits e)" using wf by (simp add: well_formed_def issues_well_formed_def)
  ultimately have "acyclic (insert (parentID, i_ID issue) (waits e))" by (simp add: acyclic_insert)
  with sub have ac: "acyclic (waits e')" using acyclic_subset by blast
  have jok: "issue_ok (e_Repositories e) j"
    using ok rep scope pne
    by (auto simp: issue_ok_def content_ok_def j_def Issue_Validate_def split: if_splits)
  have "issues_well_formed e'"
    using wf ac d jok par free pne unfolding issues_well_formed_def ids
    by (auto simp: well_formed_def issues_well_formed_def e' j_def)
  then show ?thesis using wf ids by (auto simp: well_formed_def e')
qed

section \<open>Pull requests of an epic\<close>

lemma keeps_AddPullRequest: "keeps well_formed (AddPullRequest issueID pullRequest)"
proof (rule keepsI)
  fix e e' assume wf: "well_formed e" and r: "AddPullRequest issueID pullRequest e = (None, e')"
  then obtain u where p: "PullRequest_Validate pullRequest = None"
    and u: "on_issues (update_first (\<lambda>i. i_ID i = issueID) (Issue_TransitionTo IssueStateCoding)
        (Errorf ''issue not found'' [])) e = (None, u)"
    and e': "e' = u\<lparr>e_PullRequests := e_PullRequests u @ [pullRequest\<lparr>p_IssueID := issueID\<rparr>]\<rparr>"
    by (auto simp: AddPullRequest_def then_do_None_iff split: option.splits)
  have wu: "well_formed u" by (rule keepsD [OF keeps_issue(1) u wf])
  from u obtain xs where "update_first (\<lambda>i. i_ID i = issueID) (Issue_TransitionTo IssueStateCoding)
      (Errorf ''issue not found'' []) (e_Issues e) = (None, xs)" "u = e\<lparr>e_Issues := xs\<rparr>"
    by (auto simp: on_issues_None)
  then have "issueID \<in> issue_ids u"
    by (auto elim!: update_first_None simp: issue_ids_def Issue_TransitionTo_iff)
  moreover from this have "issueID \<noteq> []"
    using well_formed_content [OF wu]
    by (auto simp: issue_ids_def content_ok_def Issue_Validate_def split: if_splits)
  ultimately show "well_formed e'"
    by (intro well_formed_skeleton [OF wu])
      (use wu p well_formed_content [OF wu] in
        \<open>auto simp: e' well_formed_def PullRequest_Validate_None counts_ok_def\<close>)
qed

text \<open>
  \<open>OpenPullRequestFor\<close> says that an issue has at most one open pull request at a time.
  \<open>AddPullRequest\<close> on an issue already in \<open>Coding\<close> is the case the aggregate itself
  lets through: \<open>TransitionTo\<close> treats the same state as success.
\<close>

lemma AddPullRequest_coding:
  assumes "PullRequest_Validate p = None" and "i \<in> set (e_Issues e)" and "i_ID i = issueID"
    and "distinct (map i_ID (e_Issues e))" and "i_State i = IssueStateCoding"
  shows "AddPullRequest issueID p e =
    (None, e\<lparr>e_PullRequests := e_PullRequests e @ [p\<lparr>p_IssueID := issueID\<rparr>]\<rparr>)"
proof -
  obtain ys zs where s: "e_Issues e = ys @ i # zs" using assms(2) by (meson split_list)
  with assms(3,4) have "\<forall>y \<in> set ys. i_ID y \<noteq> issueID" by (auto simp: image_iff)
  then have "update_first (\<lambda>i. i_ID i = issueID) (Issue_TransitionTo IssueStateCoding) err (e_Issues e)
      = (None, e_Issues e)" for err
    using assms(3,5) by (simp add: s update_first_hit Issue_TransitionTo_def)
  with assms(1) show ?thesis by (simp add: AddPullRequest_def then_do_def on_issues_def)
qed

end
