(* ===== verification/Epic_Tree.thy ===== *)
theory Epic_Tree
  imports Epic_Progress
begin

text \<open>
  The operations of \<open>epic.go\<close> that reach through the tree: \<open>traverseIssuesDown\<close>,
  \<open>CloseIssue\<close> and \<open>Close\<close>, and \<open>TransitionPullRequest\<close>, which moves an issue with its
  pull request. The traversal recurses over children without a bound (on a cyclic tree it
  does not return), so it has fuel, one more than there are issues; on a well formed epic
  that is enough, and the theorems give its result, not only what holds if there is one.
\<close>

section \<open>The traversal\<close>

type_synonym 's call = "'s \<Rightarrow> (go_error option \<times> 's) option"

fun each_child :: "(string \<Rightarrow> Epic call) \<Rightarrow> string list \<Rightarrow> Epic call" where
  "each_child f [] e = Some (None, e)"
| "each_child f (child # rest) e =
     (case f child e of
        None \<Rightarrow> None
      | Some (Some err, e) \<Rightarrow> Some (Some err, e)
      | Some (None, e) \<Rightarrow> each_child f rest e)"

fun traverse :: "nat \<Rightarrow> (Issue \<Rightarrow> Epic update) \<Rightarrow> string \<Rightarrow> Epic call" where
  "traverse 0 visit issueID e = None"
| "traverse (Suc n) visit issueID e =
     (case find (\<lambda>issue. i_ID issue = issueID) (e_Issues e) of
        None \<Rightarrow> Some (Some (Errorf ''issue not found'' []), e)
      | Some issue \<Rightarrow>
          (case visit issue e of
             (Some err, e) \<Rightarrow> Some (Some err, e)
           | (None, e) \<Rightarrow>
               each_child (traverse n visit)
                 (map i_ID (filter (\<lambda>child. i_ParentID child = issueID) (e_Issues e))) e))"

declare traverse.simps(2) [simp del]

definition traverseIssuesDown :: "string \<Rightarrow> (Issue \<Rightarrow> Epic update) \<Rightarrow> Epic call" where
  "traverseIssuesDown issueID visit e = traverse (Suc (length (e_Issues e))) visit issueID e"

text \<open>The inner loop of \<open>CloseIssue\<close> over the pull requests, stopping at the first error.\<close>

fun close_pull_requests :: "string \<Rightarrow> PullRequest list update" where
  "close_pull_requests issueID [] = (None, [])"
| "close_pull_requests issueID (p # rest) =
     (if p_IssueID p = issueID \<and> p_Status p = PullRequestOpen
      then (case PullRequest_TransitionTo PullRequestClosed p of
              (Some err, p) \<Rightarrow> (Some err, p # rest)
            | (None, p) \<Rightarrow> (let (r, rest) = close_pull_requests issueID rest in (r, p # rest)))
      else (let (r, rest) = close_pull_requests issueID rest in (r, p # rest)))"

definition close_visit :: "Issue \<Rightarrow> Epic update" where
  "close_visit issue updated =
     (case find (\<lambda>i. i_ID i = i_ID issue) (e_Issues updated) of
        None \<Rightarrow> (Some (Errorf ''issue not found'' []), updated)
      | Some found \<Rightarrow>
          if i_State found = IssueStateMerged then (None, updated)
          else then_do
            (on_issues (update_first (\<lambda>i. i_ID i = i_ID issue)
               (Issue_TransitionTo IssueStateClosed) (Errorf ''issue not found'' [])))
            (on_pull_requests (close_pull_requests (i_ID issue)))
            updated)"

definition mutate_call :: "Epic call \<Rightarrow> Epic call" where
  "mutate_call change e =
     (case change e of
        None \<Rightarrow> None
      | Some (Some err, updated) \<Rightarrow> Some (Some err, e)
      | Some (None, updated) \<Rightarrow>
          Some (None, e\<lparr>e_Issues := e_Issues updated, e_PullRequests := e_PullRequests updated\<rparr>))"

definition CloseIssue :: "string \<Rightarrow> Epic call" where
  "CloseIssue issueID = mutate_call (traverseIssuesDown issueID close_visit)"

definition Epic_Close :: "Epic call" where
  "Epic_Close e =
     (case RootIssue e of
        Inl _ \<Rightarrow> Some (Epic_Apply EpicEventClose e)
      | Inr root \<Rightarrow>
          (case CloseIssue (i_ID root) e of
             None \<Rightarrow> None
           | Some (Some err, e) \<Rightarrow> Some (Some err, e)
           | Some (None, e) \<Rightarrow> Some (Epic_Apply EpicEventClose e)))"

section \<open>What closing a set of issues means\<close>

text \<open>
  \<open>close_set S e\<close>, the specification: every issue of \<open>S\<close> that is not merged is closed,
  with its open pull requests, and nothing else changes.
\<close>

definition close_issue_in :: "string set \<Rightarrow> Issue \<Rightarrow> Issue" where
  "close_issue_in S i =
     (if i_ID i \<in> S \<and> i_State i \<noteq> IssueStateMerged then i\<lparr>i_State := IssueStateClosed\<rparr> else i)"

definition merged_ids :: "Epic \<Rightarrow> string set" where
  "merged_ids e = {i_ID i |i. i \<in> set (e_Issues e) \<and> i_State i = IssueStateMerged}"

definition close_pull_request_in :: "string set \<Rightarrow> PullRequest \<Rightarrow> PullRequest" where
  "close_pull_request_in S p =
     (if p_IssueID p \<in> S \<and> p_Status p = PullRequestOpen then p\<lparr>p_Status := PullRequestClosed\<rparr> else p)"

definition close_set :: "string set \<Rightarrow> Epic \<Rightarrow> Epic" where
  "close_set S e = e\<lparr>e_Issues := map (close_issue_in S) (e_Issues e),
     e_PullRequests := map (close_pull_request_in (S - merged_ids e)) (e_PullRequests e)\<rparr>"

lemma close_issue_skeleton [simp]: "skeleton (close_issue_in S i) = skeleton i"
  by (simp add: close_issue_in_def skeleton_def)

lemma close_issue_simps [simp]:
  "i_ID (close_issue_in S i) = i_ID i" "i_ParentID (close_issue_in S i) = i_ParentID i"
  "i_State (close_issue_in S i) = IssueStateMerged \<longleftrightarrow> i_State i = IssueStateMerged"
  by (simp_all add: close_issue_in_def)

lemma close_pull_request_in_union:
  "close_pull_request_in S (close_pull_request_in T p) = close_pull_request_in (S \<union> T) p"
  by (auto simp: close_pull_request_in_def)

lemma close_set_empty [simp]: "close_set {} e = e"
proof -
  have "close_issue_in {} = id" "close_pull_request_in {} = id"
    by (auto simp: close_issue_in_def close_pull_request_in_def)
  then show ?thesis by (simp add: close_set_def)
qed

lemma merged_close_set [simp]: "merged_ids (close_set S e) = merged_ids e"
proof -
  have "x \<in> merged_ids (close_set S e) \<longleftrightarrow> x \<in> merged_ids e" for x
    unfolding merged_ids_def close_set_def by simp (metis close_issue_simps(1,3) imageE image_eqI)
  then show ?thesis by blast
qed

lemma close_set_union: "close_set S (close_set T e) = close_set (S \<union> T) e"
proof -
  have i: "close_issue_in S (close_issue_in T i) = close_issue_in (S \<union> T) i" for i
    by (simp add: close_issue_in_def)
  have p: "close_pull_request_in (S - merged_ids e) (close_pull_request_in (T - merged_ids e) p) =
      close_pull_request_in (S \<union> T - merged_ids e) p" for p
    by (simp add: close_pull_request_in_union Un_Diff)
  have m: "merged_ids (close_set T e) = merged_ids e" by simp
  show ?thesis
    unfolding close_set_def [of S] m by (simp add: close_set_def o_def i p)
qed

lemma close_set_issues [simp]: "e_Issues (close_set S e) = map (close_issue_in S) (e_Issues e)"
  by (simp add: close_set_def)

lemma find_map_ID:
  "find (\<lambda>i. i_ID i = x) (map (close_issue_in S) is) =
     map_option (close_issue_in S) (find (\<lambda>i. i_ID i = x) is)"
  by (induction "is") auto

lemma children_close_set [simp]:
  "map i_ID (filter (\<lambda>c. i_ParentID c = x) (map (close_issue_in S) is)) =
     map i_ID (filter (\<lambda>c. i_ParentID c = x) is)"
  by (induction "is") auto

section \<open>One visit closes one issue\<close>

lemma close_pull_requests_eq:
  "close_pull_requests x ps = (None, map (close_pull_request_in {x}) ps)"
proof -
  have "PullRequest_TransitionTo PullRequestClosed p = (None, p\<lparr>p_Status := PullRequestClosed\<rparr>)"
    if "p_Status p = PullRequestOpen" for p
    using that by (simp add: PullRequest_TransitionTo_iff)
  then show ?thesis by (induction ps) (auto simp: close_pull_request_in_def)
qed

lemma close_visit_eq:
  assumes d: "distinct (map i_ID (e_Issues e))" and i: "issue \<in> set (e_Issues e)"
  shows "close_visit issue' e =
    (if i_ID issue' = i_ID issue then (None, close_set {i_ID issue} e) else close_visit issue' e)"
proof (cases "i_ID issue' = i_ID issue")
  case eq: True
  have f: "find (\<lambda>j. i_ID j = i_ID issue) (e_Issues e) = Some issue"
    using find_distinct_key [OF d i] .
  obtain ys zs where s: "e_Issues e = ys @ issue # zs" using i by (meson split_list)
  have ne: "\<forall>y \<in> set ys. i_ID y \<noteq> i_ID issue" "\<forall>z \<in> set zs. i_ID z \<noteq> i_ID issue"
    using d by (auto simp: s image_iff)
  then have rest: "map (close_issue_in {i_ID issue}) ys = ys" "map (close_issue_in {i_ID issue}) zs = zs"
    by (auto simp: close_issue_in_def map_idI)
  show ?thesis
  proof (cases "i_State issue = IssueStateMerged")
    case True
    then have "i_ID issue \<in> merged_ids e" using i by (auto simp: merged_ids_def)
    then have "close_set {i_ID issue} e = e"
      using s rest True
      by (simp add: close_set_def close_issue_in_def [of _ issue] close_pull_request_in_def map_idI)
    then show ?thesis using f True eq by (simp add: close_visit_def)
  next
    case False
    have "i_ID issue \<notin> merged_ids e"
      using False distinct_map_unique [OF d] i by (auto simp: merged_ids_def)
    then have "{i_ID issue} - merged_ids e = {i_ID issue}" by blast
    then have "close_set {i_ID issue} e =
        e\<lparr>e_Issues := ys @ issue\<lparr>i_State := IssueStateClosed\<rparr> # zs,
          e_PullRequests := map (close_pull_request_in {i_ID issue}) (e_PullRequests e)\<rparr>"
      using s rest False by (simp add: close_set_def close_issue_in_def [of _ issue])
    then show ?thesis
      using f False eq ne
      by (simp add: close_visit_def then_do_def on_issues_def on_pull_requests_def s
          update_first_hit Issue_TransitionTo_closed close_pull_requests_eq)
  qed
qed simp

section \<open>Closing a subtree\<close>

definition child_of :: "Epic \<Rightarrow> (string \<times> string) set" where
  "child_of e = {(i_ParentID c, i_ID c) |c. c \<in> set (e_Issues e) \<and> i_ParentID c \<noteq> []}"

definition subtree :: "Epic \<Rightarrow> string \<Rightarrow> string set" where
  "subtree e x = {y. (x, y) \<in> (child_of e)\<^sup>*}"

lemma child_of_waits: "child_of e \<subseteq> waits e"
  by (auto simp: child_of_def waits_child)

lemma subtree_unfold:
  "subtree e x = insert x (\<Union>c \<in> {c. (x, c) \<in> child_of e}. subtree e c)"
  by (auto simp: subtree_def intro: converse_rtrancl_into_rtrancl elim: converse_rtranclE)

lemma children_child_of:
  "x \<noteq> [] \<Longrightarrow> set (map i_ID (filter (\<lambda>c. i_ParentID c = x) (e_Issues e))) = {c. (x, c) \<in> child_of e}"
  by (auto simp: child_of_def)

lemma each_child_closes:
  assumes "\<And>c T. c \<in> set cs \<Longrightarrow>
    f c (close_set T e) = Some (None, close_set (T \<union> subtree e c) e)"
  shows "each_child f cs (close_set T e) = Some (None, close_set (T \<union> (\<Union>c \<in> set cs. subtree e c)) e)"
  using assms
proof (induction cs arbitrary: T)
  case Nil
  then show ?case by simp
next
  case (Cons c cs)
  then show ?case by (simp add: Un_assoc)
qed

lemma traverse_closes:
  assumes d: "distinct (map i_ID (e_Issues e))" and ac: "acyclic (child_of e)" and ne: "[] \<notin> issue_ids e"
  shows "x \<in> issue_ids e \<Longrightarrow> distinct path \<Longrightarrow> set path \<subseteq> issue_ids e \<Longrightarrow>
     \<forall>y \<in> set path. (y, x) \<in> (child_of e)\<^sup>+ \<Longrightarrow> length (e_Issues e) < length path + n \<Longrightarrow>
     traverse n close_visit x (close_set T e) = Some (None, close_set (T \<union> subtree e x) e)"
proof (induction n arbitrary: x path T)
  case 0
  have "length path = card (set path)" using 0 by (simp add: distinct_card)
  also have "\<dots> \<le> card (issue_ids e)" using 0 by (intro card_mono) (auto simp: issue_ids_def)
  also have "\<dots> \<le> length (e_Issues e)"
    unfolding issue_ids_def by (metis card_image_le card_length finite_set le_trans)
  finally show ?case using 0 by simp
next
  case (Suc n)
  from Suc.prems(1) obtain issue where i: "issue \<in> set (e_Issues e)" "i_ID issue = x"
    by (auto simp: issue_ids_def)
  let ?e = "close_set T e" and ?i = "close_issue_in T issue"
  let ?cs = "map i_ID (filter (\<lambda>c. i_ParentID c = x) (e_Issues e))"
  have xne: "x \<noteq> []" using Suc.prems(1) ne by auto
  have f: "find (\<lambda>issue. i_ID issue = x) (e_Issues ?e) = Some ?i"
    using find_distinct_key [OF d i(1)] i(2) by (simp add: find_map_ID)
  have "distinct (map i_ID (e_Issues ?e))" using d by (simp add: o_def)
  moreover have "?i \<in> set (e_Issues ?e)" using i by simp
  ultimately have v: "close_visit ?i ?e = (None, close_set (insert x T) e)"
    using close_visit_eq [of ?e ?i ?i] i by (simp add: close_set_union)
  have fresh: "x \<notin> set path" using Suc.prems(4) ac by (auto simp: acyclic_def)
  have step: "traverse n close_visit c (close_set U e) = Some (None, close_set (U \<union> subtree e c) e)"
    if "c \<in> set ?cs" for c U
  proof (rule Suc.IH [where path = "x # path"])
    have xc: "(x, c) \<in> child_of e" using that children_child_of [OF xne, of e] by blast
    show "c \<in> issue_ids e" using that by (auto simp: issue_ids_def)
    show "distinct (x # path)" "set (x # path) \<subseteq> issue_ids e" using Suc.prems fresh by auto
    show "\<forall>y \<in> set (x # path). (y, c) \<in> (child_of e)\<^sup>+"
      using Suc.prems(4) xc by (auto intro: trancl_into_trancl)
    show "length (e_Issues e) < length (x # path) + n" using Suc.prems(5) by simp
  qed
  have "traverse (Suc n) close_visit x ?e = each_child (traverse n close_visit) ?cs (close_set (insert x T) e)"
    using f v by (simp add: traverse.simps(2))
  also have "\<dots> = Some (None, close_set (insert x T \<union> (\<Union>c \<in> set ?cs. subtree e c)) e)"
    by (rule each_child_closes) (rule step)
  also have "insert x T \<union> (\<Union>c \<in> set ?cs. subtree e c) = T \<union> subtree e x"
    unfolding children_child_of [OF xne] using subtree_unfold [of e x] by blast
  finally show ?case .
qed

lemma well_formed_tree:
  assumes "well_formed e"
  shows "acyclic (child_of e)" and "[] \<notin> issue_ids e" and "distinct (map i_ID (e_Issues e))"
proof -
  show "distinct (map i_ID (e_Issues e))" by (rule well_formed_distinct [OF assms])
  have "acyclic (waits e)" using assms by (simp add: well_formed_def issues_well_formed_def)
  then show "acyclic (child_of e)" using child_of_waits by (rule acyclic_subset)
  show "[] \<notin> issue_ids e"
    using well_formed_content [OF assms]
    by (auto simp: issue_ids_def content_ok_def Issue_Validate_def split: if_splits)
qed

lemma CloseIssue_eq:
  assumes wf: "well_formed e"
  shows "CloseIssue x e =
    (if x \<in> issue_ids e then Some (None, close_set (subtree e x) e)
     else Some (Some (Errorf ''issue not found'' []), e))"
proof (cases "x \<in> issue_ids e")
  case True
  have "traverse (Suc (length (e_Issues e))) close_visit x (close_set {} e) =
      Some (None, close_set ({} \<union> subtree e x) e)"
    by (rule traverse_closes [where path = "[]"])
      (use well_formed_tree [OF wf] True in simp_all)
  with True show ?thesis
    by (simp add: CloseIssue_def mutate_call_def traverseIssuesDown_def) (simp add: close_set_def)
next
  case False
  then have "find (\<lambda>issue. i_ID issue = x) (e_Issues e) = None"
    by (auto simp: issue_ids_def find_None_iff)
  with False show ?thesis
    by (simp add: CloseIssue_def mutate_call_def traverseIssuesDown_def traverse.simps(2))
qed

lemma close_set_well_formed:
  assumes wf: "well_formed e"
  shows "well_formed (close_set S e)"
proof (rule well_formed_skeleton [OF wf])
  show "map skeleton (e_Issues (close_set S e)) = map skeleton (e_Issues e)" by (simp add: o_def)
  show "\<forall>i \<in> set (e_Issues (close_set S e)). content_ok i"
    using well_formed_content [OF wf]
    by (auto simp: close_issue_in_def content_ok_def Issue_Validate_def split: if_splits)
  show "\<forall>p \<in> set (e_PullRequests (close_set S e)).
      PullRequest_Validate p = None \<and> p_IssueID p \<in> issue_ids e"
    using wf by (auto simp: well_formed_def close_set_def close_pull_request_in_def
        PullRequest_Validate_None counts_ok_def)
qed (use wf in \<open>simp_all add: close_set_def well_formed_def\<close>)

text \<open>C3. \<open>CloseIssue\<close> on a well formed epic returns and closes exactly the subtree of the
  issue: every issue of it that is not merged, with its open pull requests, and nothing else. The
  result is well formed; a missing issue is an error that changes nothing.\<close>

theorem CloseIssue_closes_subtree:
  assumes wf: "well_formed e"
  shows "CloseIssue x e =
      (if x \<in> issue_ids e then Some (None, close_set (subtree e x) e)
       else Some (Some (Errorf ''issue not found'' []), e)) \<and>
    well_formed (close_set (subtree e x) e)"
  using CloseIssue_eq [OF wf] close_set_well_formed [OF wf] by blast

lemma CloseIssue_closes_subtree_witness:
  "CloseIssue ''I1'' example_epic = Some (None, close_set (subtree example_epic ''I1'') example_epic)"
proof -
  have "''I1'' \<in> issue_ids example_epic" by (simp add: issue_ids_def example_epic_def)
  with CloseIssue_closes_subtree [OF example_well_formed, of "''I1''"] show ?thesis by simp
qed

lemma RootIssue_Inr: "RootIssue e = Inr i \<Longrightarrow> i \<in> set (e_Issues e) \<and> i_ParentID i = []"
  by (auto simp: RootIssue_def dest: find_by_Inr)

lemma RootIssue_exists:
  assumes "well_formed e"
  shows "\<exists>root. RootIssue e = Inr root"
proof -
  have "length (filter (\<lambda>i. i_ParentID i = []) (e_Issues e)) = 1"
    using assms by (simp add: well_formed_def issues_well_formed_def)
  then have "\<exists>i \<in> set (e_Issues e). i_ParentID i = []"
    by (metis (mono_tags, lifting) filter_False list.size(3) zero_neq_one)
  then show ?thesis by (cases "RootIssue e") (auto simp: RootIssue_def find_by_Inl)
qed

text \<open>The root's subtree is the whole epic.\<close>

lemma root_subtree:
  assumes wf: "well_formed e" and root: "RootIssue e = Inr root"
  shows "subtree e (i_ID root) = issue_ids e"
proof
  have "child_of e \<subseteq> issue_ids e \<times> issue_ids e"
    using child_of_waits waits_within [OF wf] by blast
  moreover have r: "i_ID root \<in> issue_ids e" using RootIssue_Inr [OF root] by (simp add: issue_ids_def)
  ultimately show "subtree e (i_ID root) \<subseteq> issue_ids e"
    by (auto simp: subtree_def elim: rtranclE)
  have wfd: "wfP (\<lambda>x y. (x, y) \<in> child_of e)"
  proof -
    have "finite (child_of e)"
      using \<open>child_of e \<subseteq> _\<close> by (rule finite_subset) (simp add: issue_ids_def)
    with well_formed_tree(1) [OF wf] show ?thesis by (simp add: wfp_def finite_acyclic_wf)
  qed
  have "x \<in> issue_ids e \<longrightarrow> (i_ID root, x) \<in> (child_of e)\<^sup>*" for x
    using wfd
  proof (induction x rule: wfp_induct_rule)
    case (less x)
    show ?case
    proof
      assume "x \<in> issue_ids e"
      then obtain i where i: "i \<in> set (e_Issues e)" "i_ID i = x" by (auto simp: issue_ids_def)
      show "(i_ID root, x) \<in> (child_of e)\<^sup>*"
      proof (cases "i_ParentID i = []")
        case True
        obtain r where "filter (\<lambda>i. i_ParentID i = []) (e_Issues e) = [r]"
          using wf by (auto simp: well_formed_def issues_well_formed_def length_Suc_conv)
        moreover have "i \<in> set (filter (\<lambda>i. i_ParentID i = []) (e_Issues e))"
          "root \<in> set (filter (\<lambda>i. i_ParentID i = []) (e_Issues e))"
          using i True RootIssue_Inr [OF root] by auto
        ultimately have "i = root" by simp
        with i show ?thesis by simp
      next
        case False
        then have "(i_ParentID i, x) \<in> child_of e" using i by (auto simp: child_of_def)
        moreover from this have "i_ParentID i \<in> issue_ids e" using \<open>child_of e \<subseteq> _\<close> by blast
        ultimately show ?thesis using less by (meson rtrancl.rtrancl_into_rtrancl)
      qed
    qed
  qed
  then show "issue_ids e \<subseteq> subtree e (i_ID root)" by (auto simp: subtree_def)
qed

lemma Epic_Close_eq:
  assumes wf: "well_formed e"
  shows "Epic_Close e =
    (if e_State e = EpicStateClosed
     then Some (Some (Errorf ''cannot apply epic event %q from state %q'' [GStr ''close'', GStr ''Closed'']),
            close_set (issue_ids e) e)
     else Some (None, (close_set (issue_ids e) e)\<lparr>e_State := EpicStateClosed\<rparr>))"
proof -
  obtain root where root: "RootIssue e = Inr root" using RootIssue_exists [OF wf] ..
  then have "i_ID root \<in> issue_ids e" using RootIssue_Inr by (simp add: issue_ids_def)
  then have "CloseIssue (i_ID root) e = Some (None, close_set (issue_ids e) e)"
    by (simp add: CloseIssue_eq [OF wf] root_subtree [OF wf root])
  moreover have "isEpicState (e_State e)" using wf by (simp add: well_formed_def)
  moreover have "e_State (close_set (issue_ids e) e) = e_State e" by (simp add: close_set_def)
  ultimately show ?thesis
    using root by (auto simp: Epic_Close_def Epic_Apply_def epicTransition_def)
qed

text \<open>\<open>Close\<close> abandons everything under a well formed epic: it closes every issue that is
  not merged, their open pull requests and the epic itself. On an epic that is closed already it
  fails, after the same sweep over the issues.\<close>

theorem Epic_Close_closes_all:
  assumes wf: "well_formed e"
  shows "Epic_Close e =
    (if e_State e = EpicStateClosed
     then Some (Some (Errorf ''cannot apply epic event %q from state %q'' [GStr ''close'', GStr ''Closed'']),
            close_set (issue_ids e) e)
     else Some (None, (close_set (issue_ids e) e)\<lparr>e_State := EpicStateClosed\<rparr>))"
  by (rule Epic_Close_eq [OF wf])

lemma Epic_Close_closes_all_witness:
  "Epic_Close example_epic =
     Some (None, (close_set (issue_ids example_epic) example_epic)\<lparr>e_State := EpicStateClosed\<rparr>)"
proof -
  have "e_State example_epic \<noteq> EpicStateClosed" by (simp add: example_epic_def)
  with Epic_Close_closes_all [OF example_well_formed] show ?thesis by simp
qed

lemma closed_settled: "\<forall>i \<in> set (e_Issues (close_set (issue_ids e) e)). settled i"
  by (auto simp: close_issue_in_def issue_ids_def settled_def)

section \<open>Moving a pull request and its issue\<close>

definition set_issue_state :: "string \<Rightarrow> IssueState \<Rightarrow> Epic \<Rightarrow> Epic" where
  "set_issue_state x s e =
     e\<lparr>e_Issues := map (\<lambda>i. if i_ID i = x then i\<lparr>i_State := s\<rparr> else i) (e_Issues e)\<rparr>"

lemma update_first_issue:
  assumes d: "distinct (map i_ID is)" and i: "i \<in> set is" and f: "f i = (None, g i)"
  shows "update_first (\<lambda>j. i_ID j = i_ID i) f nf is =
    (None, map (\<lambda>j. if i_ID j = i_ID i then g j else j) is)"
proof -
  obtain ys zs where s: "is = ys @ i # zs" using i by (meson split_list)
  have ne: "\<forall>y \<in> set ys. i_ID y \<noteq> i_ID i" "\<forall>z \<in> set zs. i_ID z \<noteq> i_ID i"
    using d by (auto simp: s image_iff)
  with f show ?thesis by (simp add: s update_first_hit map_idI)
qed

lemma TransitionIssue_ok:
  assumes d: "distinct (map i_ID (e_Issues e))" and i: "i \<in> set (e_Issues e)" and s: "isIssueState s"
    and m: "i_State i = s \<or> issueTransition (i_State i) s"
  shows "TransitionIssue (i_ID i) s e = (None, set_issue_state (i_ID i) s e)"
proof -
  have "Issue_TransitionTo s i = (None, i\<lparr>i_State := s\<rparr>)" using s m by (simp add: Issue_TransitionTo_iff)
  then have "update_first (\<lambda>j. i_ID j = i_ID i) (Issue_TransitionTo s) nf (e_Issues e) =
      (None, map (\<lambda>j. if i_ID j = i_ID i then j\<lparr>i_State := s\<rparr> else j) (e_Issues e))" for nf
    by (rule update_first_issue [OF d i])
  then show ?thesis by (simp add: TransitionIssue_def on_issues_def set_issue_state_def)
qed

lemma TransitionIssue_None:
  assumes "TransitionIssue x s e = (None, e')" and d: "distinct (map i_ID (e_Issues e))"
  obtains i where "i \<in> set (e_Issues e)" "i_ID i = x" "isIssueState s"
    "i_State i = s \<or> issueTransition (i_State i) s" "e' = set_issue_state x s e"
proof -
  from assms(1) obtain xs where
    "update_first (\<lambda>i. i_ID i = x) (Issue_TransitionTo s) (Errorf ''issue not found'' []) (e_Issues e) = (None, xs)"
    by (auto simp: TransitionIssue_def on_issues_None)
  then obtain ys i zs i' where s: "e_Issues e = ys @ i # zs" "i_ID i = x" "Issue_TransitionTo s i = (None, i')"
    by (rule update_first_None) blast
  then have i: "i \<in> set (e_Issues e)" "isIssueState s" "i_State i = s \<or> issueTransition (i_State i) s"
    by (auto simp: Issue_TransitionTo_iff)
  with TransitionIssue_ok [OF d i] assms(1) s(2) have "e' = set_issue_state x s e" by simp
  with i s(2) show ?thesis by (intro that)
qed

definition outcome_state :: "PullRequestStatus \<Rightarrow> IssueState" where
  "outcome_state status = (if status = PullRequestClosed then IssueStateOpen else IssueStateMerged)"

lemma transition_body_eq:
  "transition_pull_request_body x status event e =
     (case find (\<lambda>p. p_ID p = x) (e_PullRequests e) of
        None \<Rightarrow> (Some (Errorf ''pull request not found'' []), e)
      | Some p \<Rightarrow>
          then_do
            (on_pull_requests (update_first (\<lambda>p. p_ID p = x) (PullRequest_Apply event)
               (Errorf ''pull request not found'' [])))
            (TransitionIssue (p_IssueID p) (outcome_state status)) e)"
  by (simp add: transition_pull_request_body_def TransitionIssue_def outcome_state_def Let_def
      split: option.split)

lemma TransitionPullRequest_eq:
  "TransitionPullRequest x status e = (None, e') \<longleftrightarrow>
     (\<exists>event. (status = PullRequestMerged \<and> event = PullRequestEventMerge \<or>
               status = PullRequestClosed \<and> event = PullRequestEventClose) \<and>
        mutate (transition_pull_request_body x status event) e = (None, e'))"
  by (cases status) (auto simp: TransitionPullRequest_def)

lemma find_first: "\<forall>y \<in> set ys. \<not> p y \<Longrightarrow> p x \<Longrightarrow> find p (ys @ x # zs) = Some x"
  by (induction ys) auto

lemma find_split:
  "find p xs = Some x \<longleftrightarrow> (\<exists>ys zs. xs = ys @ x # zs \<and> (\<forall>y \<in> set ys. \<not> p y) \<and> p x)"
proof
  assume "find p xs = Some x"
  moreover from this have "\<exists>y \<in> set xs. p y" by (auto simp: find_Some_iff)
  then obtain ys z zs where "xs = ys @ z # zs" "\<forall>y \<in> set ys. \<not> p y" "p z" by (rule split_at_first)
  ultimately show "\<exists>ys zs. xs = ys @ x # zs \<and> (\<forall>y \<in> set ys. \<not> p y) \<and> p x"
    by (auto simp: find_first)
qed (auto simp: find_first)

lemma body_None:
  assumes ev: "\<And>p. PullRequest_Apply event p =
      (if p_Status p = PullRequestOpen then (None, p\<lparr>p_Status := status\<rparr>) else (Some (err p), p))"
  shows "transition_pull_request_body x status event e = (None, u) \<longleftrightarrow>
    (\<exists>ys p zs. e_PullRequests e = ys @ p # zs \<and> (\<forall>y \<in> set ys. p_ID y \<noteq> x) \<and> p_ID p = x \<and>
       p_Status p = PullRequestOpen \<and>
       TransitionIssue (p_IssueID p) (outcome_state status)
         (e\<lparr>e_PullRequests := ys @ p\<lparr>p_Status := status\<rparr> # zs\<rparr>) = (None, u))"
proof (cases "find (\<lambda>p. p_ID p = x) (e_PullRequests e)")
  case None
  then have "\<forall>p \<in> set (e_PullRequests e). p_ID p \<noteq> x" by (simp add: find_None_iff)
  with None show ?thesis by (auto simp: transition_body_eq)
next
  case (Some p)
  then obtain ys zs where s: "e_PullRequests e = ys @ p # zs" "\<forall>y \<in> set ys. p_ID y \<noteq> x" "p_ID p = x"
    by (auto simp: find_split)
  have uniq: "ys' = ys \<and> q = p \<and> zs' = zs"
    if "e_PullRequests e = ys' @ q # zs'" "\<forall>y \<in> set ys'. p_ID y \<noteq> x" "p_ID q = x" for ys' q zs'
  proof -
    have t: "takeWhile (\<lambda>y. p_ID y \<noteq> x) (vs @ v # ws) = vs"
      if "\<forall>y \<in> set vs. p_ID y \<noteq> x" "p_ID v = x" for vs v ws
      using that by (induction vs) auto
    have "ys' = ys" using t [OF that(2,3), of zs'] t [OF s(2,3), of zs] that(1) s(1) by simp
    with that(1) s(1) show ?thesis by simp
  qed
  have "update_first (\<lambda>p. p_ID p = x) (PullRequest_Apply event) nf (e_PullRequests e) =
      (fst (PullRequest_Apply event p), ys @ snd (PullRequest_Apply event p) # zs)" for nf
    using s by (simp add: update_first_hit)
  then have "transition_pull_request_body x status event e = (None, u) \<longleftrightarrow>
      p_Status p = PullRequestOpen \<and> TransitionIssue (p_IssueID p) (outcome_state status)
         (e\<lparr>e_PullRequests := ys @ p\<lparr>p_Status := status\<rparr> # zs\<rparr>) = (None, u)"
    using Some by (simp add: transition_body_eq then_do_None_iff on_pull_requests_None ev)
  also have "\<dots> \<longleftrightarrow> (\<exists>ys p zs. e_PullRequests e = ys @ p # zs \<and> (\<forall>y \<in> set ys. p_ID y \<noteq> x) \<and> p_ID p = x \<and>
       p_Status p = PullRequestOpen \<and> TransitionIssue (p_IssueID p) (outcome_state status)
         (e\<lparr>e_PullRequests := ys @ p\<lparr>p_Status := status\<rparr> # zs\<rparr>) = (None, u))"
    using s uniq by blast
  finally show ?thesis .
qed

lemma PullRequest_Apply_outcome:
  assumes "status = PullRequestMerged \<and> event = PullRequestEventMerge \<or>
    status = PullRequestClosed \<and> event = PullRequestEventClose"
  shows "PullRequest_Apply event p =
    (if p_Status p = PullRequestOpen then (None, p\<lparr>p_Status := status\<rparr>)
     else (Some (the (fst (PullRequest_Apply event p))), p))"
  using assms by (auto simp: PullRequest_Apply_def pullRequestTransition_def split: option.splits)

text \<open>C4. A pull request leaves \<open>open\<close> together with its issue, or not at all:
  \<open>TransitionPullRequest\<close> succeeds exactly on the first pull request with that ID when it is
  open and its issue may take the outcome, and then merging delivers the issue and closing sends
  it back to \<open>Open\<close>; every failure leaves the epic as it was.\<close>

theorem TransitionPullRequest_both_or_neither:
  assumes wf: "well_formed e"
  shows "(TransitionPullRequest x status e = (None, e') \<longleftrightarrow>
     (\<exists>ys p zs i. status \<in> {PullRequestMerged, PullRequestClosed} \<and>
        e_PullRequests e = ys @ p # zs \<and> (\<forall>y \<in> set ys. p_ID y \<noteq> x) \<and> p_ID p = x \<and>
        p_Status p = PullRequestOpen \<and> i \<in> set (e_Issues e) \<and> i_ID i = p_IssueID p \<and>
        (i_State i = outcome_state status \<or> issueTransition (i_State i) (outcome_state status)) \<and>
        e' = set_issue_state (p_IssueID p) (outcome_state status)
               (e\<lparr>e_PullRequests := ys @ p\<lparr>p_Status := status\<rparr> # zs\<rparr>))) \<and>
   (TransitionPullRequest x status e = (Some err, e') \<longrightarrow> e' = e)"
proof
  have d: "distinct (map i_ID (e_Issues e))" by (rule well_formed_distinct [OF wf])
  have iss: "TransitionIssue y (outcome_state status) (e\<lparr>e_PullRequests := ps\<rparr>) = (None, u) \<longleftrightarrow>
      (\<exists>i \<in> set (e_Issues e). i_ID i = y \<and>
         (i_State i = outcome_state status \<or> issueTransition (i_State i) (outcome_state status)) \<and>
         u = set_issue_state y (outcome_state status) (e\<lparr>e_PullRequests := ps\<rparr>))" for y ps u
  proof -
    have s: "isIssueState (outcome_state status)" by (simp add: outcome_state_def)
    show ?thesis
      using TransitionIssue_None [of y "outcome_state status" "e\<lparr>e_PullRequests := ps\<rparr>" u] d
        TransitionIssue_ok [of "e\<lparr>e_PullRequests := ps\<rparr>" _ "outcome_state status", OF _ _ s]
      by (auto simp: set_issue_state_def)
  qed
  have fr: "e\<lparr>e_Issues := e_Issues u, e_PullRequests := e_PullRequests u\<rparr> = u"
    if "u = set_issue_state y s (e\<lparr>e_PullRequests := ps\<rparr>)" for u y s ps
    using that by (simp add: set_issue_state_def)
  show "TransitionPullRequest x status e = (None, e') \<longleftrightarrow>
     (\<exists>ys p zs i. status \<in> {PullRequestMerged, PullRequestClosed} \<and>
        e_PullRequests e = ys @ p # zs \<and> (\<forall>y \<in> set ys. p_ID y \<noteq> x) \<and> p_ID p = x \<and>
        p_Status p = PullRequestOpen \<and> i \<in> set (e_Issues e) \<and> i_ID i = p_IssueID p \<and>
        (i_State i = outcome_state status \<or> issueTransition (i_State i) (outcome_state status)) \<and>
        e' = set_issue_state (p_IssueID p) (outcome_state status)
               (e\<lparr>e_PullRequests := ys @ p\<lparr>p_Status := status\<rparr> # zs\<rparr>))"
    (is "?L \<longleftrightarrow> ?R")
  proof
    assume ?L
    then obtain event u where ev: "status = PullRequestMerged \<and> event = PullRequestEventMerge \<or>
        status = PullRequestClosed \<and> event = PullRequestEventClose"
      and u: "transition_pull_request_body x status event e = (None, u)"
      and e': "e' = e\<lparr>e_Issues := e_Issues u, e_PullRequests := e_PullRequests u\<rparr>"
      by (auto simp: TransitionPullRequest_eq mutate_None)
    from u [unfolded body_None [OF PullRequest_Apply_outcome [OF ev]] iss]
    obtain ys p zs i where R: "e_PullRequests e = ys @ p # zs" "\<forall>y \<in> set ys. p_ID y \<noteq> x" "p_ID p = x"
        "p_Status p = PullRequestOpen" "i \<in> set (e_Issues e)" "i_ID i = p_IssueID p"
        "i_State i = outcome_state status \<or> issueTransition (i_State i) (outcome_state status)"
      and u': "u = set_issue_state (p_IssueID p) (outcome_state status)
               (e\<lparr>e_PullRequests := ys @ p\<lparr>p_Status := status\<rparr> # zs\<rparr>)" by blast
    have "e' = u" using fr [OF u'] e' by simp
    moreover have "status \<in> {PullRequestMerged, PullRequestClosed}" using ev by auto
    ultimately show ?R using R u' by blast
  next
    assume ?R
    then obtain ys p zs i where st: "status \<in> {PullRequestMerged, PullRequestClosed}"
      and R: "e_PullRequests e = ys @ p # zs" "\<forall>y \<in> set ys. p_ID y \<noteq> x" "p_ID p = x"
        "p_Status p = PullRequestOpen" "i \<in> set (e_Issues e)" "i_ID i = p_IssueID p"
        "i_State i = outcome_state status \<or> issueTransition (i_State i) (outcome_state status)"
      and e': "e' = set_issue_state (p_IssueID p) (outcome_state status)
               (e\<lparr>e_PullRequests := ys @ p\<lparr>p_Status := status\<rparr> # zs\<rparr>)" by blast
    from st obtain event where ev: "status = PullRequestMerged \<and> event = PullRequestEventMerge \<or>
        status = PullRequestClosed \<and> event = PullRequestEventClose" by auto
    have "transition_pull_request_body x status event e = (None, e')"
      unfolding body_None [OF PullRequest_Apply_outcome [OF ev]] iss using R e' by blast
    with fr [OF e'] have "mutate (transition_pull_request_body x status event) e = (None, e')"
      by (auto simp: mutate_None)
    with ev show ?L by (auto simp: TransitionPullRequest_eq)
  qed
  show "TransitionPullRequest x status e = (Some err, e') \<longrightarrow> e' = e"
    by (cases status) (auto simp: TransitionPullRequest_def dest: atomicD [OF mutate_atomic])
qed

lemma TransitionPullRequest_both_or_neither_witness:
  "TransitionPullRequest ''P1'' PullRequestMerged example_epic =
     (None, set_issue_state ''I1'' IssueStateMerged
        (example_epic\<lparr>e_PullRequests := [example_pull_request\<lparr>p_Status := PullRequestMerged\<rparr>]\<rparr>))"
proof -
  let ?p = "example_pull_request" and ?i = "example_issue ''I1'' ''R'' ''acme/api'' IssueStatePR []"
  have "PullRequestMerged \<in> {PullRequestMerged, PullRequestClosed} \<and>
      e_PullRequests example_epic = [] @ ?p # [] \<and> (\<forall>y \<in> set []. p_ID y \<noteq> ''P1'') \<and> p_ID ?p = ''P1'' \<and>
      p_Status ?p = PullRequestOpen \<and> ?i \<in> set (e_Issues example_epic) \<and> i_ID ?i = p_IssueID ?p \<and>
      (i_State ?i = outcome_state PullRequestMerged \<or> issueTransition (i_State ?i) (outcome_state PullRequestMerged)) \<and>
      set_issue_state ''I1'' IssueStateMerged
        (example_epic\<lparr>e_PullRequests := [?p\<lparr>p_Status := PullRequestMerged\<rparr>]\<rparr>) =
      set_issue_state (p_IssueID ?p) (outcome_state PullRequestMerged)
               (example_epic\<lparr>e_PullRequests := [] @ ?p\<lparr>p_Status := PullRequestMerged\<rparr> # []\<rparr>)"
    by (simp add: example_epic_def example_pull_request_def outcome_state_def issueTransition_def)
  with TransitionPullRequest_both_or_neither [OF example_well_formed, of "''P1''" PullRequestMerged]
  show ?thesis by blast
qed

lemma keeps_TransitionPullRequest: "keeps well_formed (TransitionPullRequest x status)"
proof (rule keepsI)
  fix e e' assume wf: "well_formed e" and r: "TransitionPullRequest x status e = (None, e')"
  then obtain event u where
      u: "transition_pull_request_body x status event e = (None, u)"
      and e': "e' = e\<lparr>e_Issues := e_Issues u, e_PullRequests := e_PullRequests u\<rparr>"
    by (auto simp: TransitionPullRequest_eq mutate_None)
  then obtain v y where v: "on_pull_requests (update_first (\<lambda>p. p_ID p = x) (PullRequest_Apply event)
        (Errorf ''pull request not found'' [])) e = (None, v)"
      "TransitionIssue y (outcome_state status) v = (None, u)"
    by (auto simp: transition_body_eq then_do_None_iff split: option.splits)
  have "well_formed v" by (rule keepsD [OF keeps_on_pull_requests [OF apply_change] v(1) wf])
  then have "well_formed u" by (rule keepsD [OF keeps_TransitionIssue v(2)])
  moreover have "e' = u" using v e' by (auto simp: on_pull_requests_None TransitionIssue_def on_issues_None)
  ultimately show "well_formed e'" by simp
qed

end
