(* ===== verification/Agents.thy ===== *)
theory Agents
  imports Prelude
begin

text \<open>
  \<open>internal/domain/agent\<close>: roles, subjects, sandboxes, agent runs and the settings that say
  which agent plays which role. A Go map from roles to profiles is a HOL map; where the code
  ranges over one, the order in which Go visits it is an argument.
\<close>

section \<open>Roles and subjects\<close>

datatype AgentRole =
    AgentRoleRefiner | AgentRoleIssueReviewer | AgentRoleCoding | AgentRolePRReviewer
  | AgentRoleMerge | AgentRoleOther string

fun agent_role_string :: "AgentRole \<Rightarrow> string" where
  "agent_role_string AgentRoleRefiner = ''refiner''"
| "agent_role_string AgentRoleIssueReviewer = ''issue-reviewer''"
| "agent_role_string AgentRoleCoding = ''coding''"
| "agent_role_string AgentRolePRReviewer = ''pr-reviewer''"
| "agent_role_string AgentRoleMerge = ''merge''"
| "agent_role_string (AgentRoleOther s) = s"

definition Roles :: "AgentRole list" where
  "Roles = [AgentRoleRefiner, AgentRoleIssueReviewer, AgentRoleCoding, AgentRolePRReviewer,
     AgentRoleMerge]"

definition IsAgentRole :: "AgentRole \<Rightarrow> bool" where
  "IsAgentRole role = list_ex (\<lambda>candidate. candidate = role) Roles"

datatype AgentEngine = AgentEngineOpenCode | AgentEngineOther string

datatype AgentSubjectKind = AgentSubjectEpic | AgentSubjectIssue | AgentSubjectOther string

fun subject_kind_string :: "AgentSubjectKind \<Rightarrow> string" where
  "subject_kind_string AgentSubjectEpic = ''epic''"
| "subject_kind_string AgentSubjectIssue = ''issue''"
| "subject_kind_string (AgentSubjectOther s) = s"

record AgentSubject =
  s_Kind :: AgentSubjectKind
  s_ID :: string

definition AgentSubject_Validate :: "AgentSubject \<Rightarrow> go_error option" where
  "AgentSubject_Validate s =
     (if s_Kind s \<noteq> AgentSubjectEpic \<and> s_Kind s \<noteq> AgentSubjectIssue
      then Some (Errorf ''agent subject has invalid kind %q'' [GStr (subject_kind_string (s_Kind s))])
      else if s_ID s = [] then Some (Errorf ''agent subject ID is required'' [])
      else None)"

section \<open>Sandboxes\<close>

datatype SandboxStatus =
    SandboxStatusAbsent | SandboxStatusCreating | SandboxStatusStopped | SandboxStatusStarting
  | SandboxStatusRunning | SandboxStatusStopping | SandboxStatusBroken | SandboxStatusDeleting
  | SandboxStatusOther string

datatype SandboxEvent =
    SandboxEventCreate | SandboxEventStart | SandboxEventReady | SandboxEventStop
  | SandboxEventStopped | SandboxEventFail | SandboxEventDelete | SandboxEventDeleteDone
  | SandboxEventOther string

fun sandbox_status_string :: "SandboxStatus \<Rightarrow> string" where
  "sandbox_status_string SandboxStatusAbsent = ''absent''"
| "sandbox_status_string SandboxStatusCreating = ''creating''"
| "sandbox_status_string SandboxStatusStopped = ''stopped''"
| "sandbox_status_string SandboxStatusStarting = ''starting''"
| "sandbox_status_string SandboxStatusRunning = ''running''"
| "sandbox_status_string SandboxStatusStopping = ''stopping''"
| "sandbox_status_string SandboxStatusBroken = ''broken''"
| "sandbox_status_string SandboxStatusDeleting = ''deleting''"
| "sandbox_status_string (SandboxStatusOther s) = s"

fun sandbox_event_string :: "SandboxEvent \<Rightarrow> string" where
  "sandbox_event_string SandboxEventCreate = ''create''"
| "sandbox_event_string SandboxEventStart = ''start''"
| "sandbox_event_string SandboxEventReady = ''ready''"
| "sandbox_event_string SandboxEventStop = ''stop''"
| "sandbox_event_string SandboxEventStopped = ''stopped''"
| "sandbox_event_string SandboxEventFail = ''fail''"
| "sandbox_event_string SandboxEventDelete = ''delete''"
| "sandbox_event_string SandboxEventDeleteDone = ''delete_done''"
| "sandbox_event_string (SandboxEventOther s) = s"

record Sandbox =
  v_ID :: string
  v_ProjectID :: nat
  v_Name :: string
  v_Role :: AgentRole
  v_Subject :: AgentSubject
  v_Status :: SandboxStatus
  v_CreatedAt :: int
  v_UpdatedAt :: int

record SandboxRef =
  ref_ProjectID :: nat
  ref_Name :: string

definition Sandbox_Ref :: "Sandbox \<Rightarrow> SandboxRef" where
  "Sandbox_Ref v = \<lparr>ref_ProjectID = v_ProjectID v, ref_Name = v_Name v\<rparr>"

fun isSandboxStatus :: "SandboxStatus \<Rightarrow> bool" where
  "isSandboxStatus (SandboxStatusOther s) = False"
| "isSandboxStatus status = True"

definition Sandbox_Validate :: "Sandbox \<Rightarrow> go_error option" where
  "Sandbox_Validate v =
     (if v_ID v = [] \<or> v_Name v = [] then Some (Errorf ''sandbox ID and name are required'' [])
      else if \<not> IsAgentRole (v_Role v) \<or> \<not> isSandboxStatus (v_Status v)
      then Some (Errorf ''sandbox has invalid role or status'' [])
      else AgentSubject_Validate (v_Subject v))"

definition sandboxTransition :: "SandboxStatus \<Rightarrow> SandboxEvent \<Rightarrow> SandboxStatus option" where
  "sandboxTransition status event =
     (if status = SandboxStatusAbsent \<and> event = SandboxEventCreate then Some SandboxStatusCreating
      else if status = SandboxStatusCreating \<and> event = SandboxEventReady
      then Some SandboxStatusStopped
      else if status = SandboxStatusStopped \<and> event = SandboxEventStart
      then Some SandboxStatusStarting
      else if status = SandboxStatusStarting \<and> event = SandboxEventReady
      then Some SandboxStatusRunning
      else if status = SandboxStatusRunning \<and> event = SandboxEventStop
      then Some SandboxStatusStopping
      else if status = SandboxStatusStopping \<and> event = SandboxEventStopped
      then Some SandboxStatusStopped
      else if (status = SandboxStatusStopped \<or> status = SandboxStatusBroken) \<and>
              event = SandboxEventDelete
      then Some SandboxStatusDeleting
      else if status = SandboxStatusDeleting \<and> event = SandboxEventDeleteDone
      then Some SandboxStatusAbsent
      else if status \<noteq> SandboxStatusAbsent \<and> status \<noteq> SandboxStatusDeleting \<and>
              event = SandboxEventFail
      then Some SandboxStatusBroken
      else None)"

definition Sandbox_Apply :: "SandboxEvent \<Rightarrow> Sandbox update" where
  "Sandbox_Apply event v =
     (case sandboxTransition (v_Status v) event of
        None \<Rightarrow> (Some (Errorf ''cannot apply sandbox event %q from status %q''
                   [GStr (sandbox_event_string event), GStr (sandbox_status_string (v_Status v))]), v)
      | Some next' \<Rightarrow> (None, v\<lparr>v_Status := next'\<rparr>))"

definition Sandbox_Reconcile :: "SandboxStatus \<Rightarrow> Sandbox update" where
  "Sandbox_Reconcile observed v =
     (if \<not> isSandboxStatus observed
      then (Some (Errorf ''cannot reconcile sandbox to invalid status %q''
              [GStr (sandbox_status_string observed)]), v)
      else (None, v\<lparr>v_Status := observed\<rparr>))"

text \<open>
  No sandbox is deleted while it may be running: every way into \<open>Deleting\<close> starts from
  \<open>Stopped\<close> or \<open>Broken\<close>, and every way into \<open>Running\<close> passes \<open>Starting\<close>.
\<close>

lemma sandbox_deleted_from:
  "sandboxTransition s event = Some SandboxStatusDeleting \<Longrightarrow>
     s \<in> {SandboxStatusStopped, SandboxStatusBroken}"
  by (auto simp: sandboxTransition_def split: if_splits)

lemma sandbox_running_from:
  "sandboxTransition s event = Some SandboxStatusRunning \<Longrightarrow> s = SandboxStatusStarting"
  by (auto simp: sandboxTransition_def split: if_splits)

text \<open>From every state of the machine there is a way back to \<open>Absent\<close>.\<close>

lemma sandbox_can_be_removed:
  assumes "isSandboxStatus s"
  shows "\<exists>es. run_events sandboxTransition s es = Some SandboxStatusAbsent"
proof -
  have "run_events sandboxTransition SandboxStatusBroken [SandboxEventDelete, SandboxEventDeleteDone]
      = Some SandboxStatusAbsent"
    by (simp add: sandboxTransition_def)
  then have fail: "\<exists>es. run_events sandboxTransition s es = Some SandboxStatusAbsent"
    if "sandboxTransition s SandboxEventFail = Some SandboxStatusBroken"
    using that by (intro exI [of _ "[SandboxEventFail, SandboxEventDelete, SandboxEventDeleteDone]"]) simp
  show ?thesis
  proof (cases "s = SandboxStatusAbsent \<or> s = SandboxStatusDeleting")
    case True
    then show ?thesis
      by (intro exI [of _ "if s = SandboxStatusAbsent then [] else [SandboxEventDeleteDone]"])
        (auto simp: sandboxTransition_def)
  next
    case False
    with assms show ?thesis by (intro fail) (cases s; simp add: sandboxTransition_def)
  qed
qed

section \<open>Agent runs\<close>

datatype AgentRunStatus =
    AgentRunStatusQueued | AgentRunStatusAdmitted | AgentRunStatusRunning
  | AgentRunStatusSucceeded | AgentRunStatusFailed | AgentRunStatusCancelled
  | AgentRunStatusStalled | AgentRunStatusHostFailed | AgentRunStatusOther string

datatype AgentRunEvent =
    AgentRunEventAdmit | AgentRunEventStart | AgentRunEventSucceed | AgentRunEventFail
  | AgentRunEventCancel | AgentRunEventStall | AgentRunEventHostFail | AgentRunEventOther string

datatype SessionMode = SessionModeFresh | SessionModeContinue | SessionModeOther string

fun agent_run_status_string :: "AgentRunStatus \<Rightarrow> string" where
  "agent_run_status_string AgentRunStatusQueued = ''queued''"
| "agent_run_status_string AgentRunStatusAdmitted = ''admitted''"
| "agent_run_status_string AgentRunStatusRunning = ''running''"
| "agent_run_status_string AgentRunStatusSucceeded = ''succeeded''"
| "agent_run_status_string AgentRunStatusFailed = ''failed''"
| "agent_run_status_string AgentRunStatusCancelled = ''cancelled''"
| "agent_run_status_string AgentRunStatusStalled = ''stalled''"
| "agent_run_status_string AgentRunStatusHostFailed = ''host-failed''"
| "agent_run_status_string (AgentRunStatusOther s) = s"

fun agent_run_event_string :: "AgentRunEvent \<Rightarrow> string" where
  "agent_run_event_string AgentRunEventAdmit = ''admit''"
| "agent_run_event_string AgentRunEventStart = ''start''"
| "agent_run_event_string AgentRunEventSucceed = ''succeed''"
| "agent_run_event_string AgentRunEventFail = ''fail''"
| "agent_run_event_string AgentRunEventCancel = ''cancel''"
| "agent_run_event_string AgentRunEventStall = ''stall''"
| "agent_run_event_string AgentRunEventHostFail = ''host-fail''"
| "agent_run_event_string (AgentRunEventOther s) = s"

text \<open>A finite \<open>float64\<close>: mantissa and power of two. The program only compares it with zero and adds it up.\<close>

type_synonym float64 = "int \<times> int"

record RunUsage =
  u_TokensIn :: int
  u_TokensOut :: int
  u_CostUSD :: float64

definition RunUsage_Reported :: "RunUsage \<Rightarrow> bool" where
  "RunUsage_Reported u \<longleftrightarrow> u_TokensIn u \<noteq> 0 \<or> u_TokensOut u \<noteq> 0 \<or> fst (u_CostUSD u) \<noteq> 0"

record AgentRun =
  r_ID :: string
  r_ProjectID :: nat
  r_SandboxID :: string
  r_Role :: AgentRole
  r_Subject :: AgentSubject
  r_Engine :: AgentEngine
  r_Agent :: string
  r_Variant :: string
  r_SessionMode :: SessionMode
  r_Status :: AgentRunStatus
  r_Round :: int
  r_Error :: string
  r_Usage :: RunUsage
  r_CreatedAt :: int
  r_StartedAt :: "int option"
  r_FinishedAt :: "int option"

fun isAgentRunStatus :: "AgentRunStatus \<Rightarrow> bool" where
  "isAgentRunStatus (AgentRunStatusOther s) = False"
| "isAgentRunStatus status = True"

definition isTerminalAgentRunStatus :: "AgentRunStatus \<Rightarrow> bool" where
  "isTerminalAgentRunStatus status \<longleftrightarrow>
     status = AgentRunStatusSucceeded \<or> status = AgentRunStatusFailed \<or>
     status = AgentRunStatusCancelled \<or> status = AgentRunStatusStalled \<or>
     status = AgentRunStatusHostFailed"

definition CountsTowardRoundLimit :: "AgentRun \<Rightarrow> bool" where
  "CountsTowardRoundLimit r \<longleftrightarrow> r_Status r \<noteq> AgentRunStatusHostFailed"

definition agentRunTransition :: "AgentRunStatus \<Rightarrow> AgentRunEvent \<Rightarrow> AgentRunStatus option" where
  "agentRunTransition status event =
     (if status = AgentRunStatusQueued \<and> event = AgentRunEventAdmit then Some AgentRunStatusAdmitted
      else if status = AgentRunStatusAdmitted \<and> event = AgentRunEventStart
      then Some AgentRunStatusRunning
      else if status = AgentRunStatusQueued \<and> event = AgentRunEventCancel
      then Some AgentRunStatusCancelled
      else if status = AgentRunStatusAdmitted \<and> event = AgentRunEventCancel
      then Some AgentRunStatusCancelled
      else if status = AgentRunStatusRunning \<and> event = AgentRunEventSucceed
      then Some AgentRunStatusSucceeded
      else if status = AgentRunStatusQueued \<and> event = AgentRunEventFail
      then Some AgentRunStatusFailed
      else if status = AgentRunStatusAdmitted \<and> event = AgentRunEventFail
      then Some AgentRunStatusFailed
      else if status = AgentRunStatusRunning \<and> event = AgentRunEventFail
      then Some AgentRunStatusFailed
      else if status = AgentRunStatusRunning \<and> event = AgentRunEventCancel
      then Some AgentRunStatusCancelled
      else if status = AgentRunStatusQueued \<and> event = AgentRunEventStall
      then Some AgentRunStatusStalled
      else if status = AgentRunStatusAdmitted \<and> event = AgentRunEventStall
      then Some AgentRunStatusStalled
      else if status = AgentRunStatusRunning \<and> event = AgentRunEventStall
      then Some AgentRunStatusStalled
      else if status = AgentRunStatusQueued \<and> event = AgentRunEventHostFail
      then Some AgentRunStatusHostFailed
      else if status = AgentRunStatusAdmitted \<and> event = AgentRunEventHostFail
      then Some AgentRunStatusHostFailed
      else if status = AgentRunStatusRunning \<and> event = AgentRunEventHostFail
      then Some AgentRunStatusHostFailed
      else None)"

definition AgentRun_Apply :: "AgentRunEvent \<Rightarrow> int \<Rightarrow> AgentRun update" where
  "AgentRun_Apply event at r =
     (case agentRunTransition (r_Status r) event of
        None \<Rightarrow> (Some (Errorf ''cannot apply agent run event %q from status %q''
                   [GStr (agent_run_event_string event), GStr (agent_run_status_string (r_Status r))]), r)
      | Some next' \<Rightarrow>
          (let r = r\<lparr>r_Status := next'\<rparr>;
               r = (if next' = AgentRunStatusRunning then r\<lparr>r_StartedAt := Some at\<rparr> else r);
               r = (if isTerminalAgentRunStatus next' then r\<lparr>r_FinishedAt := Some at\<rparr> else r)
           in (None, r)))"

definition agent_run_rank :: "AgentRunStatus \<Rightarrow> nat" where
  "agent_run_rank s = (case s of
     AgentRunStatusQueued \<Rightarrow> 0 | AgentRunStatusAdmitted \<Rightarrow> 1 | AgentRunStatusRunning \<Rightarrow> 2 | _ \<Rightarrow> 3)"

lemma agent_run_step:
  "agentRunTransition s event = Some t \<Longrightarrow>
     s \<in> {AgentRunStatusQueued, AgentRunStatusAdmitted, AgentRunStatusRunning} \<and>
     agent_run_rank s < agent_run_rank t \<and> isAgentRunStatus t"
  by (auto simp: agentRunTransition_def agent_run_rank_def split: if_splits)

interpretation agent_run_machine:
  ranked_machine agentRunTransition isTerminalAgentRunStatus agent_run_rank
proof (unfold_locales, goal_cases)
  case (1 s e)
  show ?case
  proof (rule ccontr)
    assume "agentRunTransition s e \<noteq> None"
    then obtain t where "agentRunTransition s e = Some t" by blast
    with 1 show False by (auto simp: isTerminalAgentRunStatus_def dest: agent_run_step)
  qed
next
  case (2 s e t)
  then show ?case by (simp add: agent_run_step)
qed

text \<open>Every live status can still be ended by a failure, a host failure, a stall or a cancel.\<close>

lemma live_run_can_end:
  assumes "isAgentRunStatus s" and "\<not> isTerminalAgentRunStatus s"
    and "event \<in> {AgentRunEventFail, AgentRunEventHostFail, AgentRunEventStall, AgentRunEventCancel}"
  shows "\<exists>t. agentRunTransition s event = Some t \<and> isTerminalAgentRunStatus t"
  using assms by (cases s) (auto simp: agentRunTransition_def isTerminalAgentRunStatus_def)

text \<open>When a run started and when it finished is on record exactly while its status says so.\<close>

definition run_times_ok :: "AgentRun \<Rightarrow> bool" where
  "run_times_ok r \<longleftrightarrow>
     (isTerminalAgentRunStatus (r_Status r) \<longleftrightarrow> r_FinishedAt r \<noteq> None) \<and>
     (r_Status r \<in> {AgentRunStatusRunning, AgentRunStatusSucceeded} \<longrightarrow> r_StartedAt r \<noteq> None) \<and>
     (r_Status r \<in> {AgentRunStatusQueued, AgentRunStatusAdmitted} \<longrightarrow> r_StartedAt r = None)"

lemma AgentRun_Apply_eq:
  "AgentRun_Apply event at r =
     (case agentRunTransition (r_Status r) event of
        None \<Rightarrow> (Some (Errorf ''cannot apply agent run event %q from status %q''
                   [GStr (agent_run_event_string event), GStr (agent_run_status_string (r_Status r))]), r)
      | Some t \<Rightarrow> (None, r\<lparr>r_Status := t,
           r_StartedAt := (if t = AgentRunStatusRunning then Some at else r_StartedAt r),
           r_FinishedAt := (if isTerminalAgentRunStatus t then Some at else r_FinishedAt r)\<rparr>))"
  by (simp add: AgentRun_Apply_def Let_def split: option.split)

lemma AgentRun_Apply_None:
  "AgentRun_Apply event at r = (None, r') \<longleftrightarrow>
     (\<exists>t. agentRunTransition (r_Status r) event = Some t \<and>
        r' = r\<lparr>r_Status := t,
           r_StartedAt := (if t = AgentRunStatusRunning then Some at else r_StartedAt r),
           r_FinishedAt := (if isTerminalAgentRunStatus t then Some at else r_FinishedAt r)\<rparr>)"
  unfolding AgentRun_Apply_eq by (cases "agentRunTransition (r_Status r) event") (simp, simp only: option.case option.inject prod.inject simp_thms ex_simps, blast)

lemma AgentRun_Apply_atomic: "atomic (AgentRun_Apply event at)"
  by (rule atomicI) (auto simp: AgentRun_Apply_def Let_def split: option.splits)

lemma run_times_step:
  assumes "run_times_ok r" and "AgentRun_Apply event at r = (None, r')"
  shows "run_times_ok r'"
proof -
  from assms(2) obtain t where t: "agentRunTransition (r_Status r) event = Some t"
    and r': "r' = r\<lparr>r_Status := t,
           r_StartedAt := (if t = AgentRunStatusRunning then Some at else r_StartedAt r),
           r_FinishedAt := (if isTerminalAgentRunStatus t then Some at else r_FinishedAt r)\<rparr>"
    by (auto simp: AgentRun_Apply_None)
  have live: "\<not> isTerminalAgentRunStatus (r_Status r)"
    using agent_run_step [OF t] by (auto simp: isTerminalAgentRunStatus_def)
  have "t = AgentRunStatusSucceeded \<Longrightarrow> r_Status r = AgentRunStatusRunning"
    and "t \<noteq> AgentRunStatusQueued"
    and "t = AgentRunStatusAdmitted \<Longrightarrow> r_Status r = AgentRunStatusQueued"
    using t by (auto simp: agentRunTransition_def split: if_splits)
  moreover have "t \<in> {AgentRunStatusAdmitted, AgentRunStatusRunning} \<or> isTerminalAgentRunStatus t"
    using t by (auto simp: agentRunTransition_def isTerminalAgentRunStatus_def split: if_splits)
  moreover have "r_FinishedAt r = None" using assms(1) live by (simp add: run_times_ok_def)
  ultimately show ?thesis
    using assms(1) unfolding r' run_times_ok_def
    by (auto simp: isTerminalAgentRunStatus_def)
qed

section \<open>Sessions\<close>

definition sessionContinuationEnabled :: bool where
  "sessionContinuationEnabled = False"

definition SessionModeFor :: "AgentEngine \<Rightarrow> AgentRole \<Rightarrow> SessionMode" where
  "SessionModeFor engine role =
     (if engine \<noteq> AgentEngineOpenCode \<or> role = AgentRoleMerge then SessionModeFresh
      else SessionModeContinue)"

fun last_round_loop :: "AgentRole \<Rightarrow> AgentRun list \<Rightarrow> AgentRun option \<Rightarrow> AgentRun option" where
  "last_round_loop role [] latest = latest"
| "last_round_loop role (run # rest) latest =
     (if r_Role run \<noteq> role then last_round_loop role rest latest
      else (case latest of
              None \<Rightarrow> last_round_loop role rest (Some run)
            | Some l \<Rightarrow> if r_Round l < r_Round run then last_round_loop role rest (Some run)
                        else last_round_loop role rest latest))"

definition lastRoundSucceeded :: "AgentRole \<Rightarrow> AgentRun list \<Rightarrow> bool" where
  "lastRoundSucceeded role previous =
     (case last_round_loop role previous None of
        None \<Rightarrow> False | Some latest \<Rightarrow> r_Status latest = AgentRunStatusSucceeded)"

definition SessionModeAfter :: "AgentEngine \<Rightarrow> AgentRole \<Rightarrow> AgentRun list \<Rightarrow> SessionMode" where
  "SessionModeAfter engine role previous =
     (if \<not> sessionContinuationEnabled then SessionModeFresh
      else if SessionModeFor engine role = SessionModeFresh then SessionModeFresh
      else if \<not> lastRoundSucceeded role previous then SessionModeFresh
      else SessionModeContinue)"

definition AgentRun_Validate :: "AgentRun \<Rightarrow> go_error option" where
  "AgentRun_Validate r =
     (if r_ID r = [] \<or> r_SandboxID r = [] \<or> r_Agent r = [] \<or> r_Round r < 1
      then Some (Errorf ''agent run ID, Sandbox ID, agent, and positive round are required'' [])
      else if \<not> IsAgentRole (r_Role r) \<or> r_Engine r \<noteq> AgentEngineOpenCode \<or>
              (r_SessionMode r \<noteq> SessionModeFresh \<and> r_SessionMode r \<noteq> SessionModeContinue) \<or>
              \<not> isAgentRunStatus (r_Status r)
      then Some (Errorf ''agent run has invalid configuration or status'' [])
      else if r_SessionMode r = SessionModeContinue \<and>
              SessionModeFor (r_Engine r) (r_Role r) \<noteq> SessionModeContinue
      then Some (Errorf ''agent run may not continue a session for role %q''
             [GStr (agent_role_string (r_Role r))])
      else AgentSubject_Validate (r_Subject r))"

text \<open>Whatever \<open>SessionModeAfter\<close> answers, \<open>Validate\<close> allows for that role and engine.\<close>

lemma SessionModeAfter_allowed:
  "SessionModeAfter engine role previous = SessionModeContinue \<Longrightarrow>
     SessionModeFor engine role = SessionModeContinue \<and> lastRoundSucceeded role previous"
  by (auto simp: SessionModeAfter_def SessionModeFor_def split: if_splits)

lemma last_round_loop_max:
  "last_round_loop role runs latest = Some r \<Longrightarrow>
     (r \<in> set runs \<and> r_Role r = role \<or> latest = Some r) \<and>
     (\<forall>q \<in> set runs. r_Role q = role \<longrightarrow> r_Round q \<le> r_Round r) \<and>
     (\<forall>l. latest = Some l \<longrightarrow> r_Round l \<le> r_Round r)"
proof (induction runs arbitrary: latest)
  case Nil
  then show ?case by simp
next
  case (Cons q runs)
  show ?case
  proof (cases "r_Role q = role \<and> (\<forall>l. latest = Some l \<longrightarrow> r_Round l < r_Round q)")
    case True
    then have "last_round_loop role runs (Some q) = Some r"
      using Cons.prems by (auto split: option.splits)
    from Cons.IH [OF this] True show ?thesis by auto
  next
    case False
    then have "last_round_loop role runs latest = Some r"
      using Cons.prems by (auto split: option.splits if_splits)
    from Cons.IH [OF this] False show ?thesis by auto
  qed
qed

section \<open>Settings\<close>

record AgentProfile =
  a_Agent :: string
  a_Variant :: string
  a_MaxRounds :: int

record AgentSettings =
  as_SetupScript :: string
  as_Roles :: "AgentRole \<rightharpoonup> AgentProfile"

record RepositorySettings =
  rs_SetupScript :: string
  rs_Roles :: "AgentRole \<rightharpoonup> AgentProfile"

definition Override :: "AgentSettings \<Rightarrow> RepositorySettings \<Rightarrow> AgentSettings" where
  "Override s repo =
     \<lparr>as_SetupScript = (if rs_SetupScript repo \<noteq> [] then rs_SetupScript repo else as_SetupScript s),
      as_Roles = as_Roles s ++ rs_Roles repo\<rparr>"

definition Profile :: "AgentSettings \<Rightarrow> AgentRole \<Rightarrow> go_error + AgentProfile" where
  "Profile s role =
     (let err = Inl (Errorf ''agent settings do not configure role %q'' [GStr (agent_role_string role)])
      in case as_Roles s role of
           None \<Rightarrow> err
         | Some profile \<Rightarrow> if a_Agent profile = [] then err else Inr profile)"

definition ConfiguredRoles :: "AgentSettings \<Rightarrow> nat" where
  "ConfiguredRoles s =
     length (filter (\<lambda>role. case Profile s role of Inl _ \<Rightarrow> False | Inr _ \<Rightarrow> True) Roles)"

text \<open>The body of the two \<open>Validate\<close> loops, which differ in the noun of the message.\<close>

definition role_check ::
    "string \<Rightarrow> (AgentRole \<rightharpoonup> AgentProfile) \<Rightarrow> AgentRole \<Rightarrow> go_error option" where
  "role_check noun roles role =
     (case roles role of
        None \<Rightarrow> None
      | Some profile \<Rightarrow>
          if \<not> IsAgentRole role
          then Some (Errorf (noun @ '' settings have invalid role %q'') [GStr (agent_role_string role)])
          else if a_Agent profile = []
          then Some (Errorf (noun @ '' settings require an agent for role %q'')
                 [GStr (agent_role_string role)])
          else if a_MaxRounds profile < 0
          then Some (Errorf (noun @ '' settings require a non-negative max rounds for role %q'')
                 [GStr (agent_role_string role)])
          else None)"

definition AgentSettings_Validate :: "AgentRole list \<Rightarrow> AgentSettings \<Rightarrow> go_error option" where
  "AgentSettings_Validate order s = first_error (role_check ''agent'' (as_Roles s)) order"

definition RepositorySettings_Validate :: "AgentRole list \<Rightarrow> RepositorySettings \<Rightarrow> go_error option" where
  "RepositorySettings_Validate order s = first_error (role_check ''repository'' (rs_Roles s)) order"

definition roles_ok :: "(AgentRole \<rightharpoonup> AgentProfile) \<Rightarrow> bool" where
  "roles_ok roles \<longleftrightarrow>
     (\<forall>role profile. roles role = Some profile \<longrightarrow>
        role \<in> set Roles \<and> a_Agent profile \<noteq> [] \<and> 0 \<le> a_MaxRounds profile)"

lemma role_checks_None:
  assumes "set order = dom roles"
  shows "first_error (role_check noun roles) order = None \<longleftrightarrow> roles_ok roles"
proof -
  have "role_check noun roles role = None \<longleftrightarrow>
      (\<forall>profile. roles role = Some profile \<longrightarrow>
         role \<in> set Roles \<and> a_Agent profile \<noteq> [] \<and> 0 \<le> a_MaxRounds profile)" for role
    by (cases "roles role") (simp_all add: role_check_def IsAgentRole_def list_ex_iff not_less)
  then have "first_error (role_check noun roles) order = None \<longleftrightarrow>
      (\<forall>role \<in> set order. \<forall>profile. roles role = Some profile \<longrightarrow>
         role \<in> set Roles \<and> a_Agent profile \<noteq> [] \<and> 0 \<le> a_MaxRounds profile)"
    by (simp add: first_error_None)
  then show ?thesis unfolding assms roles_ok_def by blast
qed

text \<open>A repository's settings layered over valid project settings are valid, and a role the
  repository configures resolves to the repository's profile, any other to the project's.\<close>

theorem Override_valid:
  assumes "AgentSettings_Validate order s = None" and "set order = dom (as_Roles s)"
    and "RepositorySettings_Validate order' repo = None" and "set order' = dom (rs_Roles repo)"
    and "set order'' = dom (as_Roles (Override s repo))"
  shows "AgentSettings_Validate order'' (Override s repo) = None \<and>
    (\<forall>role. Profile (Override s repo) role =
       (case rs_Roles repo role of Some profile \<Rightarrow> Inr profile | None \<Rightarrow> Profile s role))"
proof -
  have "roles_ok (as_Roles s)" "roles_ok (rs_Roles repo)"
    using assms role_checks_None by (simp_all add: AgentSettings_Validate_def RepositorySettings_Validate_def)
  then have "roles_ok (as_Roles (Override s repo))"
    and p: "\<And>role profile. rs_Roles repo role = Some profile \<Longrightarrow> a_Agent profile \<noteq> []"
    by (auto simp: roles_ok_def Override_def map_add_Some_iff)
  moreover have "Profile (Override s repo) role =
       (case rs_Roles repo role of Some profile \<Rightarrow> Inr profile | None \<Rightarrow> Profile s role)" for role
    using p by (auto simp: Profile_def Override_def map_add_def split: option.splits)
  ultimately show ?thesis
    using role_checks_None [OF assms(5)] by (simp add: AgentSettings_Validate_def)
qed

lemma Override_valid_witness:
  "AgentSettings_Validate [AgentRoleCoding, AgentRoleMerge]
     (Override \<lparr>as_SetupScript = [], as_Roles = [AgentRoleCoding \<mapsto> \<lparr>a_Agent = ''a'', a_Variant = [], a_MaxRounds = 3\<rparr>]\<rparr>
       \<lparr>rs_SetupScript = ''s.sh'', rs_Roles = [AgentRoleMerge \<mapsto> \<lparr>a_Agent = ''b'', a_Variant = [], a_MaxRounds = 0\<rparr>]\<rparr>) = None"
  by (rule conjunct1 [OF Override_valid [where order = "[AgentRoleCoding]" and order' = "[AgentRoleMerge]"]])
    (simp_all add: AgentSettings_Validate_def RepositorySettings_Validate_def role_check_def
      IsAgentRole_def Roles_def Override_def insert_commute)

text \<open>An agent run only ever moves forward: no history of events is longer than the run's way
  from \<open>Queued\<close> to an end, none comes back to a status it left, an ended run answers no event, and
  a live one can always still be ended.\<close>

theorem agent_run_moves_forward:
  "(run_events agentRunTransition s es = Some t \<longrightarrow>
      length es \<le> 3 \<and> (es \<noteq> [] \<longrightarrow> s \<noteq> t) \<and> (isTerminalAgentRunStatus s \<longrightarrow> es = [])) \<and>
   (isAgentRunStatus s \<and> \<not> isTerminalAgentRunStatus s \<longrightarrow>
      (\<exists>u. agentRunTransition s AgentRunEventStall = Some u \<and> isTerminalAgentRunStatus u))"
proof -
  have "agent_run_rank t \<le> 3" by (simp add: agent_run_rank_def split: AgentRunStatus.split)
  then show ?thesis
    using agent_run_machine.run_rank [of s es t] agent_run_machine.no_return [of s es]
      agent_run_machine.terminal_run [of s es t] live_run_can_end [of s AgentRunEventStall] by auto
qed

lemma agent_run_moves_forward_witness:
  "run_events agentRunTransition AgentRunStatusQueued
     [AgentRunEventAdmit, AgentRunEventStart, AgentRunEventSucceed] = Some AgentRunStatusSucceeded \<and>
   AgentRunStatusQueued \<noteq> AgentRunStatusSucceeded"
proof -
  have r: "run_events agentRunTransition AgentRunStatusQueued
     [AgentRunEventAdmit, AgentRunEventStart, AgentRunEventSucceed] = Some AgentRunStatusSucceeded"
    by (simp add: agentRunTransition_def)
  from agent_run_moves_forward [of AgentRunStatusQueued
      "[AgentRunEventAdmit, AgentRunEventStart, AgentRunEventSucceed]" AgentRunStatusSucceeded] r
  show ?thesis by blast
qed

end
