(* ===== verification/Run_Supervisor.thy ===== *)
theory Run_Supervisor
  imports Prelude
begin

text \<open>
  \<open>internal/application/usecases/run_supervisor.go\<close>: the rounds in execution and the
  requests to cancel them. The three Go maps under the mutex are lists used as maps from run IDs;
  each method holds the mutex for all of its accesses, so a method is one step and any
  interleaving of goroutines is a sequence of them. A context is named by its run: it is dead
  once its run is in \<open>sv_dead\<close> (a \<open>CancelFunc\<close> was called), and a completion channel is closed
  once its run is in \<open>sv_closed\<close>. A nil supervisor, on which every method does nothing, is not
  modelled.
\<close>

record RunSupervisor =
  sv_cancels :: "string set"
  sv_cancelled :: "string set"
  sv_done :: "string set"
  sv_dead :: "string set"
  sv_closed :: "string set"

definition NewRunSupervisor :: RunSupervisor where
  "NewRunSupervisor =
     \<lparr>sv_cancels = {}, sv_cancelled = {}, sv_done = {}, sv_dead = {}, sv_closed = {}\<rparr>"

definition Begin :: "string \<Rightarrow> RunSupervisor \<Rightarrow> RunSupervisor" where
  "Begin runID s = s\<lparr>sv_cancels := insert runID (sv_cancels s), sv_done := insert runID (sv_done s)\<rparr>"

text \<open>The function \<open>Begin\<close> returns.\<close>

definition release :: "string \<Rightarrow> RunSupervisor \<Rightarrow> RunSupervisor" where
  "release runID s = s\<lparr>sv_cancels := sv_cancels s - {runID}, sv_dead := insert runID (sv_dead s)\<rparr>"

text \<open>\<open>Wait\<close> returns at once for a run it does not track; otherwise when the channel closes.\<close>

definition Wait_returns :: "string \<Rightarrow> RunSupervisor \<Rightarrow> bool" where
  "Wait_returns runID s \<longleftrightarrow> runID \<notin> sv_done s \<or> runID \<in> sv_closed s"

definition Complete :: "string \<Rightarrow> RunSupervisor \<Rightarrow> RunSupervisor" where
  "Complete runID s =
     (if runID \<in> sv_done s
      then s\<lparr>sv_done := sv_done s - {runID}, sv_closed := insert runID (sv_closed s)\<rparr>
      else s)"

definition Cancel :: "string \<Rightarrow> RunSupervisor \<Rightarrow> bool \<times> RunSupervisor" where
  "Cancel runID s =
     (if runID \<in> sv_cancels s
      then (True, s\<lparr>sv_cancelled := insert runID (sv_cancelled s), sv_dead := insert runID (sv_dead s)\<rparr>)
      else (False, s))"

definition WasCancelled :: "string \<Rightarrow> RunSupervisor \<Rightarrow> bool" where
  "WasCancelled runID s \<longleftrightarrow> runID \<in> sv_cancelled s"

definition Forget :: "string \<Rightarrow> RunSupervisor \<Rightarrow> RunSupervisor" where
  "Forget runID s = s\<lparr>sv_cancelled := sv_cancelled s - {runID}\<rparr>"

section \<open>Interleavings\<close>

datatype supervisor_step =
    DoBegin string | DoRelease string | DoComplete string | DoCancel string | DoForget string

fun supervisor_do :: "supervisor_step \<Rightarrow> RunSupervisor \<Rightarrow> RunSupervisor" where
  "supervisor_do (DoBegin r) s = Begin r s"
| "supervisor_do (DoRelease r) s = release r s"
| "supervisor_do (DoComplete r) s = Complete r s"
| "supervisor_do (DoCancel r) s = snd (Cancel r s)"
| "supervisor_do (DoForget r) s = Forget r s"

definition supervisor_run :: "supervisor_step list \<Rightarrow> RunSupervisor \<Rightarrow> RunSupervisor" where
  "supervisor_run steps s = fold supervisor_do steps s"

fun step_run :: "supervisor_step \<Rightarrow> string" where
  "step_run (DoBegin r) = r"
| "step_run (DoRelease r) = r"
| "step_run (DoComplete r) = r"
| "step_run (DoCancel r) = r"
| "step_run (DoForget r) = r"

lemmas supervisor_defs = Begin_def release_def Complete_def Cancel_def Forget_def WasCancelled_def

text \<open>A method for one run leaves every other run as it was.\<close>

definition same_run :: "string \<Rightarrow> RunSupervisor \<Rightarrow> RunSupervisor \<Rightarrow> bool" where
  "same_run r s t \<longleftrightarrow> (r \<in> sv_cancels s \<longleftrightarrow> r \<in> sv_cancels t) \<and>
     (r \<in> sv_cancelled s \<longleftrightarrow> r \<in> sv_cancelled t) \<and> (r \<in> sv_done s \<longleftrightarrow> r \<in> sv_done t) \<and>
     (r \<in> sv_dead s \<longleftrightarrow> r \<in> sv_dead t) \<and> (r \<in> sv_closed s \<longleftrightarrow> r \<in> sv_closed t)"

lemma supervisor_frame: "step_run a \<noteq> r \<Longrightarrow> same_run r (supervisor_do a s) s"
  by (cases a) (auto simp: same_run_def supervisor_defs)

text \<open>
  What holds in every history of a supervisor: a cancelled run's context is dead, and a run that
  can no longer be cancelled but was begun has a dead context too.
\<close>

definition supervisor_inv :: "RunSupervisor \<Rightarrow> bool" where
  "supervisor_inv s \<longleftrightarrow> sv_cancelled s \<subseteq> sv_dead s"

lemma supervisor_inv_do: "supervisor_inv s \<Longrightarrow> supervisor_inv (supervisor_do a s)"
  by (cases a) (auto simp: supervisor_inv_def supervisor_defs)

lemma supervisor_inv_run: "supervisor_inv s \<Longrightarrow> supervisor_inv (supervisor_run steps s)"
  unfolding supervisor_run_def by (induction steps arbitrary: s) (auto intro: supervisor_inv_do)

lemma supervisor_inv_new: "supervisor_inv NewRunSupervisor"
  by (simp add: supervisor_inv_def NewRunSupervisor_def)

lemma cancel_mark_kept:
  assumes "DoForget r \<notin> set steps"
  shows "r \<in> sv_cancelled s \<Longrightarrow> r \<in> sv_cancelled (supervisor_run steps s)"
  using assms unfolding supervisor_run_def
proof (induction steps arbitrary: s)
  case Nil
  then show ?case by simp
next
  case (Cons a steps)
  then have "r \<in> sv_cancelled (supervisor_do a s)" by (cases a) (auto simp: supervisor_defs)
  with Cons show ?case by simp
qed

lemma released_stays_unreachable:
  assumes "DoBegin r \<notin> set steps"
  shows "r \<notin> sv_cancels s \<Longrightarrow>
    r \<notin> sv_cancels (supervisor_run steps s) \<and>
    (r \<in> sv_cancelled (supervisor_run steps s) \<longrightarrow> r \<in> sv_cancelled s)"
  using assms unfolding supervisor_run_def
proof (induction steps arbitrary: s)
  case Nil
  then show ?case by simp
next
  case (Cons a steps)
  have a: "a \<noteq> DoBegin r" and r: "r \<notin> sv_cancels s" using Cons.prems by auto
  have "r \<notin> sv_cancels (supervisor_do a s) \<and>
      (r \<in> sv_cancelled (supervisor_do a s) \<longrightarrow> r \<in> sv_cancelled s)"
    using a r by (cases a) (auto simp: supervisor_defs)
  with Cons.IH [of "supervisor_do a s"] Cons.prems show ?case by auto
qed

text \<open>Cancelling reaches a round exactly while it is live. However other goroutines interleave,
  a cancel of a begun and unreleased round succeeds, kills its context and is remembered until
  somebody forgets it; after the release a cancel reports false and marks nothing, so a finished
  round is never mistaken for a cancelled one.\<close>

theorem cancel_reaches_live_rounds_only:
  assumes "r \<in> sv_cancels s" and "DoForget r \<notin> set before"
    and "DoBegin r \<notin> set after" and "r \<notin> sv_cancelled u"
  shows "fst (Cancel r s) \<and>
    WasCancelled r (supervisor_run before (snd (Cancel r s))) \<and>
    r \<in> sv_dead (snd (Cancel r s)) \<and>
    (let v = supervisor_run after (release r u)
     in \<not> fst (Cancel r v) \<and> snd (Cancel r v) = v \<and> \<not> WasCancelled r v)"
proof -
  have "r \<in> sv_cancelled (snd (Cancel r s))" using assms(1) by (simp add: Cancel_def)
  then have "WasCancelled r (supervisor_run before (snd (Cancel r s)))"
    using cancel_mark_kept assms(2) by (simp add: WasCancelled_def)
  moreover have "r \<notin> sv_cancels (supervisor_run after (release r u)) \<and>
      r \<notin> sv_cancelled (supervisor_run after (release r u))"
    using released_stays_unreachable [OF assms(3), of "release r u"] assms(4) by (auto simp: release_def)
  ultimately show ?thesis using assms(1) by (simp add: Let_def Cancel_def WasCancelled_def)
qed

lemma cancel_reaches_live_rounds_only_witness:
  "fst (Cancel ''r'' (Begin ''r'' NewRunSupervisor)) \<and>
   WasCancelled ''r'' (supervisor_run [DoRelease ''r'', DoBegin ''q''] (snd (Cancel ''r'' (Begin ''r'' NewRunSupervisor))))"
  using cancel_reaches_live_rounds_only
    [of "''r''" "Begin ''r'' NewRunSupervisor" "[DoRelease ''r'', DoBegin ''q'']" "[]" NewRunSupervisor]
  by (simp add: Begin_def NewRunSupervisor_def)

end
