(* ===== verification/Agent_Rounds.thy ===== *)
theory Agent_Rounds
  imports Agents Run_Supervisor Go_Strings "HOL-Library.Sublist"
begin

text \<open>
  \<open>internal/application/usecases/agent_round.go\<close>: the part of a round that does not depend on
  its subject, and \<open>cancel_agent_run.go\<close>, which ends one from outside. The sandbox provider, the
  engine, the run registry and the clock are ports of the application, so here they are a record
  of functions over an abstract world; the supervisor is part of that world, and a port may
  change it, which is how a cancel from another goroutine arrives in the middle of a round.
\<close>

section \<open>The world and its ports\<close>

record SandboxMount =
  m_HostLocation :: string
  m_GuestLocation :: string
  m_Writable :: bool

record SandboxSpec =
  sp_Sandbox :: Sandbox
  sp_Mounts :: "SandboxMount list"
  sp_InstallDocker :: bool
  sp_SetupScript :: string

record 'x world =
  w_supervisor :: RunSupervisor
  w_ext :: 'x

text \<open>
  What \<open>runtime.Run\<close> and the two guards around it report: the output, the error, and whether the
  stall watch or the deadline ended the run.
\<close>

record run_outcome =
  ro_output :: string
  ro_err :: "go_error option"
  ro_stalled :: bool
  ro_expired :: bool

record 'x round_ports =
  Now :: "'x world \<Rightarrow> int \<times> 'x world"
  MintULID :: "'x world \<Rightarrow> string \<times> 'x world"
  SaveAgentRun :: "AgentRun \<Rightarrow> 'x world \<Rightarrow> go_error option \<times> 'x world"
  GetAgentRun :: "string \<Rightarrow> 'x world \<Rightarrow> (go_error + AgentRun) \<times> 'x world"
  SaveSandbox :: "Sandbox \<Rightarrow> 'x world \<Rightarrow> go_error option \<times> 'x world"
  Ensure :: "SandboxSpec \<Rightarrow> 'x world \<Rightarrow> (go_error + bool) \<times> 'x world"
  Start :: "SandboxRef \<Rightarrow> 'x world \<Rightarrow> go_error option \<times> 'x world"
  Stop :: "SandboxRef \<Rightarrow> 'x world \<Rightarrow> go_error option \<times> 'x world"
  StopNow :: "SandboxRef \<Rightarrow> 'x world \<Rightarrow> go_error option \<times> 'x world"
  RunAgent :: "SandboxRef \<Rightarrow> string \<Rightarrow> string list \<Rightarrow> 'x world \<Rightarrow> run_outcome \<times> 'x world"
  ContextDone :: "string \<Rightarrow> 'x world \<Rightarrow> bool"
  Command :: "AgentRun \<Rightarrow> string \<Rightarrow> (string \<times> string) list \<Rightarrow> go_error + string list"
  ParseUsage :: "string \<Rightarrow> RunUsage"
  ExtractAnswer :: "string \<Rightarrow> string"
  ErrorText :: "go_error \<Rightarrow> string"

definition on_supervisor :: "(RunSupervisor \<Rightarrow> RunSupervisor) \<Rightarrow> 'x world \<Rightarrow> 'x world" where
  "on_supervisor f w = w\<lparr>w_supervisor := f (w_supervisor w)\<rparr>"

section \<open>Round numbers and leftovers\<close>

definition isLiveAgentRunStatus :: "AgentRunStatus \<Rightarrow> bool" where
  "isLiveAgentRunStatus status \<longleftrightarrow>
     status = AgentRunStatusQueued \<or> status = AgentRunStatusAdmitted \<or> status = AgentRunStatusRunning"

fun next_round_loop :: "AgentRun list \<Rightarrow> int \<Rightarrow> int" where
  "next_round_loop [] round = round"
| "next_round_loop (run # runs) round =
     (if \<not> CountsTowardRoundLimit run then next_round_loop runs round
      else if round \<le> r_Round run then next_round_loop runs (r_Round run + 1)
      else next_round_loop runs round)"

definition nextRound :: "AgentRun list \<Rightarrow> int" where
  "nextRound runs = next_round_loop runs 1"

fun stallLiveRuns_loop ::
    "'x round_ports \<Rightarrow> int \<Rightarrow> AgentRun list \<Rightarrow> 'x world \<Rightarrow> go_error option \<times> 'x world" where
  "stallLiveRuns_loop P now [] w = (None, w)"
| "stallLiveRuns_loop P now (run # runs) w =
     (if \<not> isLiveAgentRunStatus (r_Status run) then stallLiveRuns_loop P now runs w
      else
        let run = run\<lparr>r_Error := ''run did not complete before the process restarted''\<rparr>
        in case AgentRun_Apply AgentRunEventStall now run of
             (Some err, _) \<Rightarrow> (Some err, w)
           | (None, run) \<Rightarrow>
               (case SaveAgentRun P run w of
                  (Some err, w) \<Rightarrow> (Some err, w)
                | (None, w) \<Rightarrow> stallLiveRuns_loop P now runs w))"

definition stallLiveRuns :: "'x round_ports \<Rightarrow> AgentRun list \<Rightarrow> 'x world \<Rightarrow> go_error option \<times> 'x world" where
  "stallLiveRuns P runs w = (let (now, w) = Now P w in stallLiveRuns_loop P now runs w)"

section \<open>How a round ends\<close>

definition saveSandboxStatus ::
    "'x round_ports \<Rightarrow> SandboxSpec \<Rightarrow> SandboxStatus \<Rightarrow> 'x world \<Rightarrow>
       (go_error option \<times> SandboxSpec) \<times> 'x world" where
  "saveSandboxStatus P spec status w =
     (case Sandbox_Reconcile status (sp_Sandbox spec) of
        (Some err, _) \<Rightarrow> ((Some err, spec), w)
      | (None, sandbox) \<Rightarrow>
          (let (now, w) = Now P w;
               sandbox = sandbox\<lparr>v_UpdatedAt := now\<rparr>;
               spec = spec\<lparr>sp_Sandbox := sandbox\<rparr>;
               (r, w) = SaveSandbox P sandbox w
           in ((r, spec), w)))"

definition errRunCancelled :: go_error where
  "errRunCancelled = Sentinel ''run was cancelled''"

definition ErrHostFailure :: string where
  "ErrHostFailure = ''host could not run the round''"

text \<open>
  \<open>end\<close> takes the run by value: the copy it stamps and saves is not the caller's, so the model
  returns the error alone.
\<close>

definition end_round ::
    "'x round_ports \<Rightarrow> AgentRun \<Rightarrow> go_error \<Rightarrow> AgentRunEvent \<Rightarrow> 'x world \<Rightarrow> go_error option \<times> 'x world" where
  "end_round P run cause event w =
     (let cancelled = WasCancelled (r_ID run) (w_supervisor w);
          event = (if cancelled then AgentRunEventCancel else event);
          w = (if cancelled then on_supervisor (Forget (r_ID run)) w else w);
          cause = (if cancelled then errRunCancelled else cause);
          run = run\<lparr>r_Error := (if r_Error run = [] then ErrorText P cause
                    else ErrorText P cause @ [CHR 0x0A, CHR 0x0A] @ r_Error run)\<rparr>;
          (now, w) = Now P w
      in case AgentRun_Apply event now run of
           (Some transitionErr, _) \<Rightarrow> (Some transitionErr, w)
         | (None, run) \<Rightarrow>
             (case SaveAgentRun P run w of
                (Some saveErr, w) \<Rightarrow> (Some saveErr, w)
              | (None, w) \<Rightarrow> (Some cause, w)))"

definition fail_round ::
    "'x round_ports \<Rightarrow> AgentRun \<Rightarrow> go_error \<Rightarrow> 'x world \<Rightarrow> go_error option \<times> 'x world" where
  "fail_round P run cause = end_round P run cause AgentRunEventFail"

definition hostFailed ::
    "'x round_ports \<Rightarrow> AgentRun \<Rightarrow> go_error \<Rightarrow> 'x world \<Rightarrow> go_error option \<times> 'x world" where
  "hostFailed P run cause w =
     (let (err, w) = end_round P run cause AgentRunEventHostFail w
      in if r_Status run = AgentRunStatusHostFailed \<and> err \<noteq> None
         then (Some (Wrapf ''%w: %w'' [] [Sentinel ErrHostFailure, the err]), w)
         else (err, w))"

definition succeed_round :: "'x round_ports \<Rightarrow> AgentRun \<Rightarrow> 'x world \<Rightarrow> go_error option \<times> 'x world" where
  "succeed_round P run w =
     (let w = on_supervisor (Forget (r_ID run)) w;
          (now, w) = Now P w
      in case AgentRun_Apply AgentRunEventSucceed now run of
           (Some err, _) \<Rightarrow> (Some err, w)
         | (None, run) \<Rightarrow> SaveAgentRun P run w)"

section \<open>Starting a round\<close>

text \<open>What \<open>begin\<close> returns: the run, and the spec it was handed by pointer.\<close>

definition begin_abort ::
    "AgentRun \<Rightarrow> SandboxSpec \<Rightarrow> go_error \<Rightarrow> 'x world \<Rightarrow>
       (go_error option \<times> AgentRun \<times> SandboxSpec) \<times> 'x world" where
  "begin_abort run spec err w =
     ((Some err, run, spec), on_supervisor (\<lambda>s. Complete (r_ID run) (release (r_ID run) s)) w)"

definition new_run :: "string \<Rightarrow> SandboxSpec \<Rightarrow> AgentProfile \<Rightarrow> int \<Rightarrow> AgentRun list \<Rightarrow> int \<Rightarrow> AgentRun" where
  "new_run ulid spec profile round previous now =
     \<lparr>r_ID = ulid, r_ProjectID = v_ProjectID (sp_Sandbox spec), r_SandboxID = v_ID (sp_Sandbox spec),
      r_Role = v_Role (sp_Sandbox spec), r_Subject = v_Subject (sp_Sandbox spec),
      r_Engine = AgentEngineOpenCode, r_Agent = a_Agent profile, r_Variant = a_Variant profile,
      r_SessionMode = SessionModeAfter AgentEngineOpenCode (v_Role (sp_Sandbox spec)) previous,
      r_Status = AgentRunStatusQueued, r_Round = round, r_Error = [],
      r_Usage = \<lparr>u_TokensIn = 0, u_TokensOut = 0, u_CostUSD = (0, 0)\<rparr>,
      r_CreatedAt = now, r_StartedAt = None, r_FinishedAt = None\<rparr>"

text \<open>The tail of \<open>begin\<close>, once the sandbox exists.\<close>

definition begin_start ::
    "'x round_ports \<Rightarrow> AgentRun \<Rightarrow> SandboxSpec \<Rightarrow> 'x world \<Rightarrow>
       (go_error option \<times> AgentRun \<times> SandboxSpec) \<times> 'x world" where
  "begin_start P run spec w =
     (case saveSandboxStatus P spec SandboxStatusStopped w of
        ((Some err, spec), w) \<Rightarrow> begin_abort run spec err w
      | ((None, spec), w) \<Rightarrow>
          (case Start P (Sandbox_Ref (sp_Sandbox spec)) w of
             (Some err, w) \<Rightarrow>
               (let (e, w) = hostFailed P run err w in begin_abort run spec (the e) w)
           | (None, w) \<Rightarrow>
               (case saveSandboxStatus P spec SandboxStatusRunning w of
                  ((Some err, spec), w) \<Rightarrow> begin_abort run spec err w
                | ((None, spec), w) \<Rightarrow>
                    (let (now, w) = Now P w
                     in case AgentRun_Apply AgentRunEventStart now run of
                          (Some err, run) \<Rightarrow> begin_abort run spec err w
                        | (None, run) \<Rightarrow>
                            (case SaveAgentRun P run w of
                               (Some err, w) \<Rightarrow> begin_abort run spec err w
                             | (None, w) \<Rightarrow> ((None, run, spec), w))))))"

definition begin_round ::
    "'x round_ports \<Rightarrow> SandboxSpec \<Rightarrow> AgentProfile \<Rightarrow> int \<Rightarrow> AgentRun list \<Rightarrow> 'x world \<Rightarrow>
       (go_error option \<times> AgentRun \<times> SandboxSpec) \<times> 'x world" where
  "begin_round P spec profile round previous w =
     (let (now, w) = Now P w;
          (ulid, w) = MintULID P w;
          run = new_run ulid spec profile round previous now;
          w = on_supervisor (Begin (r_ID run)) w
      in case SaveAgentRun P run w of
           (Some err, w) \<Rightarrow> begin_abort run spec err w
         | (None, w) \<Rightarrow>
             (case AgentRun_Apply AgentRunEventAdmit now run of
                (Some err, run) \<Rightarrow> begin_abort run spec err w
              | (None, run) \<Rightarrow>
                  (case SaveAgentRun P run w of
                     (Some err, w) \<Rightarrow> begin_abort run spec err w
                   | (None, w) \<Rightarrow>
                       (case Ensure P spec w of
                          (Inl err, w) \<Rightarrow>
                            (let (e, w) = hostFailed P run err w in begin_abort run spec (the e) w)
                        | (Inr created, w) \<Rightarrow>
                            if created \<and> r_SessionMode run = SessionModeContinue
                            then (let run = run\<lparr>r_SessionMode := SessionModeFresh\<rparr>
                                  in case SaveAgentRun P run w of
                                       (Some err, w) \<Rightarrow> begin_abort run spec err w
                                     | (None, w) \<Rightarrow> begin_start P run spec w)
                            else begin_start P run spec w))))"

section \<open>Running the agent\<close>

definition stopped_error :: "run_outcome \<Rightarrow> int \<Rightarrow> int \<Rightarrow> go_error option" where
  "stopped_error out silence timeout =
     (case ro_err out of
        None \<Rightarrow> None
      | Some err \<Rightarrow>
          if ro_stalled out
          then Some (Wrapf ''round produced no output for %s and was stopped: %w'' [GInt silence] [err])
          else if ro_expired out
          then Some (Wrapf ''round exceeded %s and was stopped: %w'' [GInt timeout] [err])
          else Some err)"

text \<open>\<open>hostFailed\<close> always gives an error back (\<open>end_round_error\<close>), as \<open>invoke\<close> counts on.\<close>

definition invoke ::
    "'x round_ports \<Rightarrow> int \<Rightarrow> int \<Rightarrow> SandboxSpec \<Rightarrow> AgentRun \<Rightarrow> string \<Rightarrow> (string \<times> string) list \<Rightarrow>
       'x world \<Rightarrow> ((go_error + string) \<times> AgentRun \<times> SandboxSpec) \<times> 'x world" where
  "invoke P silence timeout spec run prompt environment w =
     (case Command P run prompt environment of
        Inl err \<Rightarrow> (let (e, w) = fail_round P run err w in ((Inl (the e), run, spec), w))
      | Inr argv \<Rightarrow>
          (let ref = Sandbox_Ref (sp_Sandbox spec);
               (out, w) = RunAgent P ref (r_ID run) argv w;
               runErr = stopped_error out silence timeout;
               run = run\<lparr>r_Usage := ParseUsage P (ro_output out)\<rparr>;
               (stopErr, w) =
                 (if ContextDone P (r_ID run) w then StopNow P ref w else Stop P ref w);
               status = (if stopErr \<noteq> None then SandboxStatusBroken else SandboxStatusStopped)
           in case saveSandboxStatus P spec status w of
                ((Some err, spec), w) \<Rightarrow> ((Inl err, run, spec), w)
              | ((None, spec), w) \<Rightarrow>
                  (case runErr of
                     Some err \<Rightarrow>
                       (let run = run\<lparr>r_Error := trim_space (ro_output out)\<rparr>;
                            (e, w) = hostFailed P run err w
                        in ((Inl (the e), run, spec), w))
                   | None \<Rightarrow>
                       (case stopErr of
                          Some err \<Rightarrow> (let (e, w) = hostFailed P run err w in ((Inl (the e), run, spec), w))
                        | None \<Rightarrow> ((Inr (ExtractAnswer P (ro_output out)), run, spec), w)))))"

section \<open>How every round ends\<close>

lemma live_status_cases:
  "isLiveAgentRunStatus s \<Longrightarrow>
     s = AgentRunStatusQueued \<or> s = AgentRunStatusAdmitted \<or> s = AgentRunStatusRunning"
  by (simp add: isLiveAgentRunStatus_def)

text \<open>The four events that end a live run, and the status each leaves.\<close>

definition ending_status :: "AgentRunEvent \<Rightarrow> AgentRunStatus" where
  "ending_status event = (case event of
     AgentRunEventFail \<Rightarrow> AgentRunStatusFailed | AgentRunEventCancel \<Rightarrow> AgentRunStatusCancelled
   | AgentRunEventStall \<Rightarrow> AgentRunStatusStalled | _ \<Rightarrow> AgentRunStatusHostFailed)"

definition ended_at :: "AgentRunEvent \<Rightarrow> int \<Rightarrow> AgentRun \<Rightarrow> AgentRun" where
  "ended_at event at run = run\<lparr>r_Status := ending_status event, r_FinishedAt := Some at\<rparr>"

lemma live_run_ends:
  assumes "isLiveAgentRunStatus (r_Status run)"
    and "event \<in> {AgentRunEventFail, AgentRunEventHostFail, AgentRunEventStall, AgentRunEventCancel}"
  shows "AgentRun_Apply event at run = (None, ended_at event at run)"
  using live_status_cases [OF assms(1)] assms(2)
  by (elim disjE insertE emptyE)
    (simp_all add: AgentRun_Apply_def agentRunTransition_def ended_at_def ending_status_def
      isTerminalAgentRunStatus_def)

lemma end_round_error: "fst (end_round P run cause event w) \<noteq> None"
  by (simp add: end_round_def Let_def split: prod.split option.split)

lemma hostFailed_error: "fst (hostFailed P run cause w) \<noteq> None"
  using end_round_error [of P run cause AgentRunEventHostFail w]
  by (auto simp: hostFailed_def Let_def split: prod.splits)

text \<open>The message a round leaves on its record: the cause first, the agent's output after it.\<close>

definition diagnostic :: "string \<Rightarrow> string \<Rightarrow> string" where
  "diagnostic cause output = (if output = [] then cause else cause @ [CHR 0x0A, CHR 0x0A] @ output)"

lemma end_round_live:
  assumes "isLiveAgentRunStatus (r_Status run)"
    and "event \<in> {AgentRunEventFail, AgentRunEventHostFail, AgentRunEventStall}"
    and "\<not> WasCancelled (r_ID run) (w_supervisor w)"
    and "Now P w = (now, w')"
  shows "end_round P run cause event w =
    (case SaveAgentRun P (ended_at event now run\<lparr>r_Error := diagnostic (ErrorText P cause) (r_Error run)\<rparr>) w' of
       (Some err, w'') \<Rightarrow> (Some err, w'') | (None, w'') \<Rightarrow> (Some cause, w''))"
proof -
  let ?run = "run\<lparr>r_Error := diagnostic (ErrorText P cause) (r_Error run)\<rparr>"
  have "AgentRun_Apply event now ?run = (None, ended_at event now ?run)"
    using assms(1,2) by (intro live_run_ends) auto
  moreover have "ended_at event now ?run =
      ended_at event now run\<lparr>r_Error := diagnostic (ErrorText P cause) (r_Error run)\<rparr>"
    by (simp add: ended_at_def)
  ultimately show ?thesis
    unfolding end_round_def Let_def
    by (simp only: assms(3,4) if_False prod.case option.case flip: diagnostic_def)
qed

lemma end_round_cancelled:
  assumes "isLiveAgentRunStatus (r_Status run)"
    and "WasCancelled (r_ID run) (w_supervisor w)"
    and "Now P (on_supervisor (Forget (r_ID run)) w) = (now, w')"
  shows "end_round P run cause event w =
    (case SaveAgentRun P (ended_at AgentRunEventCancel now run
         \<lparr>r_Error := diagnostic (ErrorText P errRunCancelled) (r_Error run)\<rparr>) w' of
       (Some err, w'') \<Rightarrow> (Some err, w'') | (None, w'') \<Rightarrow> (Some errRunCancelled, w''))"
proof -
  let ?run = "run\<lparr>r_Error := diagnostic (ErrorText P errRunCancelled) (r_Error run)\<rparr>"
  have "AgentRun_Apply AgentRunEventCancel now ?run = (None, ended_at AgentRunEventCancel now ?run)"
    using assms(1) by (intro live_run_ends) auto
  moreover have "ended_at AgentRunEventCancel now ?run =
      ended_at AgentRunEventCancel now run
         \<lparr>r_Error := diagnostic (ErrorText P errRunCancelled) (r_Error run)\<rparr>"
    by (simp add: ended_at_def)
  ultimately show ?thesis
    unfolding end_round_def Let_def
    by (simp only: assms(2,3) if_True prod.case option.case flip: diagnostic_def)
qed

text \<open>A cancel is never mistaken for a failure, nor a failure for a cancel. When a live round
  ends, whatever ends it, the record that is saved has the status of a cancelled run exactly when
  somebody cancelled it, and the status of the event (failed, host-failed, stalled) otherwise; its
  finish time is set, its message starts with the cause and keeps the agent's output, and the
  caller gets an error: the registry's when the save failed, else the cause (the cancellation for a
  cancelled run). The mark of the cancel is consumed.\<close>

theorem round_end_is_recorded:
  assumes "isLiveAgentRunStatus (r_Status run)"
    and "event \<in> {AgentRunEventFail, AgentRunEventHostFail, AgentRunEventStall}"
    and "Now P = (\<lambda>w. (clock w, w))"
  shows "let cancelled = WasCancelled (r_ID run) (w_supervisor w);
      w1 = (if cancelled then on_supervisor (Forget (r_ID run)) w else w);
      cause' = (if cancelled then errRunCancelled else cause);
      run' = run\<lparr>r_Status := ending_status (if cancelled then AgentRunEventCancel else event),
         r_FinishedAt := Some (clock w1),
         r_Error := diagnostic (ErrorText P cause') (r_Error run)\<rparr>
    in end_round P run cause event w =
         (case SaveAgentRun P run' w1 of
            (Some err, w2) \<Rightarrow> (Some err, w2) | (None, w2) \<Rightarrow> (Some cause', w2)) \<and>
       \<not> WasCancelled (r_ID run) (w_supervisor w1) \<and>
       (r_Status run' = AgentRunStatusCancelled \<longleftrightarrow> cancelled)"
proof (cases "WasCancelled (r_ID run) (w_supervisor w)")
  case True
  from end_round_cancelled [OF assms(1) True, of P] True show ?thesis
    by (simp add: assms(3) Let_def ended_at_def ending_status_def WasCancelled_def Forget_def
      on_supervisor_def)
next
  case False
  from end_round_live [OF assms(1,2) False, of P] False assms(2) show ?thesis
    by (auto simp: assms(3) Let_def ended_at_def ending_status_def)
qed

section \<open>A registry in memory\<close>

text \<open>
  The ports on a concrete world, for evaluating rounds: the registry appends every saved record to
  a log, the clock counts the saves, and every provider call does what the script says.
\<close>

record host_log =
  l_runs :: "AgentRun list"
  l_sandboxes :: "Sandbox list"
  l_stops :: "string list"

definition log_run :: "AgentRun \<Rightarrow> host_log world \<Rightarrow> host_log world" where
  "log_run run w = w\<lparr>w_ext := (w_ext w)\<lparr>l_runs := l_runs (w_ext w) @ [run]\<rparr>\<rparr>"

definition log_ports :: "go_error option \<Rightarrow> run_outcome \<Rightarrow> host_log round_ports" where
  "log_ports ensure outcome =
     \<lparr>Now = (\<lambda>w. (int (length (l_runs (w_ext w))), w)),
      MintULID = (\<lambda>w. (''01J'', w)),
      SaveAgentRun = (\<lambda>run w. (None, log_run run w)),
      GetAgentRun = (\<lambda>i w. (Inl (Sentinel ''record not found''), w)),
      SaveSandbox = (\<lambda>v w. (None, w\<lparr>w_ext := (w_ext w)\<lparr>l_sandboxes := l_sandboxes (w_ext w) @ [v]\<rparr>\<rparr>)),
      Ensure = (\<lambda>spec w. (case ensure of None \<Rightarrow> Inr False | Some e \<Rightarrow> Inl e, w)),
      Start = (\<lambda>ref w. (None, w)),
      Stop = (\<lambda>ref w. (None, w\<lparr>w_ext := (w_ext w)\<lparr>l_stops := l_stops (w_ext w) @ [ref_Name ref]\<rparr>\<rparr>)),
      StopNow = (\<lambda>ref w. (None, w\<lparr>w_ext := (w_ext w)\<lparr>l_stops := l_stops (w_ext w) @ [ref_Name ref]\<rparr>\<rparr>)),
      RunAgent = (\<lambda>ref i argv w. (outcome, w)),
      ContextDone = (\<lambda>i w. False),
      Command = (\<lambda>run prompt env. Inr [prompt]),
      ParseUsage = (\<lambda>out. \<lparr>u_TokensIn = 0, u_TokensOut = 0, u_CostUSD = (0, 0)\<rparr>),
      ExtractAnswer = (\<lambda>out. out),
      ErrorText = (\<lambda>e. case e of Sentinel s \<Rightarrow> s | _ \<Rightarrow> ''error'')\<rparr>"

definition log_world :: "host_log world" where
  "log_world = \<lparr>w_supervisor = NewRunSupervisor,
     w_ext = \<lparr>l_runs = [], l_sandboxes = [], l_stops = []\<rparr>\<rparr>"

definition example_run :: AgentRun where
  "example_run =
     \<lparr>r_ID = ''01J'', r_ProjectID = 1, r_SandboxID = ''sb'', r_Role = AgentRoleCoding,
      r_Subject = \<lparr>s_Kind = AgentSubjectIssue, s_ID = ''i1''\<rparr>, r_Engine = AgentEngineOpenCode,
      r_Agent = ''build'', r_Variant = [], r_SessionMode = SessionModeFresh,
      r_Status = AgentRunStatusRunning, r_Round = 1, r_Error = [],
      r_Usage = \<lparr>u_TokensIn = 0, u_TokensOut = 0, u_CostUSD = (0, 0)\<rparr>,
      r_CreatedAt = 0, r_StartedAt = Some 0, r_FinishedAt = None\<rparr>"

definition quiet_outcome :: run_outcome where
  "quiet_outcome = \<lparr>ro_output = ''done'', ro_err = None, ro_stalled = False, ro_expired = False\<rparr>"

lemmas log_simps = log_ports_def log_world_def log_run_def example_run_def quiet_outcome_def
  NewRunSupervisor_def WasCancelled_def

lemma round_end_is_recorded_witness:
  "let w = on_supervisor (snd \<circ> Cancel ''01J'') (on_supervisor (Begin ''01J'') log_world);
       P = log_ports None quiet_outcome
   in fst (end_round P example_run (Sentinel ''exit status 1'') AgentRunEventFail w)
        = Some errRunCancelled"
proof -
  let ?P = "log_ports None quiet_outcome"
  have "isLiveAgentRunStatus (r_Status example_run)"
    by (simp add: example_run_def isLiveAgentRunStatus_def)
  moreover have "Now ?P = (\<lambda>w. (int (length (l_runs (w_ext w))), w))"
    by (simp add: log_ports_def)
  ultimately show ?thesis
    using round_end_is_recorded [of example_run AgentRunEventFail ?P "\<lambda>w. int (length (l_runs (w_ext w)))"
        "on_supervisor (snd \<circ> Cancel ''01J'') (on_supervisor (Begin ''01J'') log_world)"
        "Sentinel ''exit status 1''"]
    by (simp add: Let_def log_simps on_supervisor_def Begin_def Cancel_def)
qed

section \<open>Host failures\<close>

lemma hostFailed_live:
  assumes "r_Status run \<noteq> AgentRunStatusHostFailed"
  shows "hostFailed P run cause = end_round P run cause AgentRunEventHostFail"
  using assms by (auto simp: hostFailed_def Let_def fun_eq_iff split: prod.split)

lemma errRunCancelled_not_host: "\<not> errors_is errRunCancelled ErrHostFailure"
  by (simp add: errRunCancelled_def ErrHostFailure_def)

lemma hostFailed_unmarked:
  assumes live: "isLiveAgentRunStatus (r_Status run)"
    and clock: "Now P = (\<lambda>w. (clock w, w))"
    and cause: "\<not> errors_is cause ErrHostFailure"
    and save: "\<And>r v e v'. SaveAgentRun P r v = (Some e, v') \<Longrightarrow> \<not> errors_is e ErrHostFailure"
  shows "\<exists>err. fst (hostFailed P run cause w) = Some err \<and> \<not> errors_is err ErrHostFailure"
proof -
  have eq: "hostFailed P run cause w = end_round P run cause AgentRunEventHostFail w"
    using live by (subst hostFailed_live) (auto simp: isLiveAgentRunStatus_def)
  show ?thesis
  proof (cases "WasCancelled (r_ID run) (w_supervisor w)")
    case True
    show ?thesis
      unfolding eq using end_round_cancelled [OF live True, of P] save errRunCancelled_not_host
      by (fastforce simp: clock split: prod.splits option.splits)
  next
    case False
    show ?thesis
      unfolding eq using end_round_live [OF live _ False, of AgentRunEventHostFail P] save cause
      by (fastforce simp: clock split: prod.splits option.splits)
  qed
qed

lemma hostFailed_saves:
  assumes live: "isLiveAgentRunStatus (r_Status run)"
    and clock: "Now P = (\<lambda>w. (clock w, w))"
    and alive: "\<not> WasCancelled (r_ID run) (w_supervisor w)"
  shows "snd (hostFailed P run cause w) =
    snd (SaveAgentRun P (run\<lparr>r_Status := AgentRunStatusHostFailed, r_FinishedAt := Some (clock w),
           r_Error := diagnostic (ErrorText P cause) (r_Error run)\<rparr>) w)"
proof -
  have "hostFailed P run cause w = end_round P run cause AgentRunEventHostFail w"
    using live by (subst hostFailed_live) (auto simp: isLiveAgentRunStatus_def)
  then show ?thesis
    using end_round_live [OF live _ alive, of AgentRunEventHostFail P]
    by (simp add: clock ended_at_def ending_status_def split: prod.splits option.splits)
qed

text \<open>A host failure is recorded but never marked. The round that the host could not run is
  saved as host-failed, yet the error its caller gets does not wrap \<open>ErrHostFailure\<close>: \<open>hostFailed\<close>
  tests the status of its own copy of the run, which \<open>end\<close>, called by value, has not changed. So
  for every live run, and causes and registry errors that do not carry the mark themselves, the
  scheduler cannot tell a host failure from a failed attempt.\<close>

theorem hostFailed_is_never_marked:
  assumes live: "isLiveAgentRunStatus (r_Status run)"
    and clock: "Now P = (\<lambda>w. (clock w, w))"
    and cause: "\<not> errors_is cause ErrHostFailure"
    and save: "\<And>r v e v'. SaveAgentRun P r v = (Some e, v') \<Longrightarrow> \<not> errors_is e ErrHostFailure"
  shows "(\<exists>err. fst (hostFailed P run cause w) = Some err \<and> \<not> errors_is err ErrHostFailure) \<and>
    (\<not> WasCancelled (r_ID run) (w_supervisor w) \<longrightarrow>
       snd (hostFailed P run cause w) =
         snd (SaveAgentRun P (run\<lparr>r_Status := AgentRunStatusHostFailed, r_FinishedAt := Some (clock w),
                r_Error := diagnostic (ErrorText P cause) (r_Error run)\<rparr>) w))"
  by (intro conjI impI hostFailed_unmarked [OF assms] hostFailed_saves [OF live clock])

lemma hostFailed_is_never_marked_witness:
  "(\<exists>err. fst (hostFailed (log_ports None quiet_outcome) example_run (Sentinel ''no disk'') log_world)
      = Some err \<and> \<not> errors_is err ErrHostFailure)"
  using hostFailed_is_never_marked [of example_run "log_ports None quiet_outcome"
      "\<lambda>w. int (length (l_runs (w_ext w)))" "Sentinel ''no disk''" log_world]
  by (simp add: example_run_def isLiveAgentRunStatus_def log_ports_def ErrHostFailure_def)

section \<open>Round numbers\<close>

lemma next_round_loop_spec:
  "next_round_loop runs k =
     fold (\<lambda>run m. max m (r_Round run + 1)) (filter CountsTowardRoundLimit runs) k"
proof (induction runs arbitrary: k)
  case Nil
  then show ?case by simp
next
  case (Cons run runs)
  have "(if k \<le> r_Round run then r_Round run + 1 else k) = max k (r_Round run + 1)" by simp
  then show ?case by (simp add: Cons.IH split: if_splits)
qed

lemma fold_max_bounds:
  "k \<le> fold (\<lambda>run m. max m (r_Round run + 1)) runs (k :: int) \<and>
   (\<forall>run \<in> set runs. r_Round run < fold (\<lambda>run m. max m (r_Round run + 1)) runs k) \<and>
   (fold (\<lambda>run m. max m (r_Round run + 1)) runs k = k \<or>
    (\<exists>run \<in> set runs. fold (\<lambda>run m. max m (r_Round run + 1)) runs k = r_Round run + 1))"
proof (induction runs arbitrary: k)
  case Nil
  then show ?case by simp
next
  case (Cons run runs)
  show ?case using Cons.IH [of "max k (r_Round run + 1)"] by (auto simp: max_def split: if_splits)
qed

text \<open>A round number is never reused by an attempt that counts, and never skipped. The number
  the next round takes is above the number of every run that counts, and is 1 or one more than such
  a run's; runs the host failed change nothing, so their number is handed to the retry; and once
  that retry is recorded the next number is one higher unless the host failed it again.\<close>

theorem nextRound_spends_counted_attempts:
  shows "1 \<le> nextRound runs \<and>
    (\<forall>run. run \<in> set runs \<and> CountsTowardRoundLimit run \<longrightarrow> r_Round run < nextRound runs) \<and>
    (nextRound runs = 1 \<or>
      (\<exists>run \<in> set runs. CountsTowardRoundLimit run \<and> nextRound runs = r_Round run + 1)) \<and>
    nextRound (filter CountsTowardRoundLimit runs) = nextRound runs \<and>
    nextRound (runs @ [run\<lparr>r_Round := nextRound runs\<rparr>]) =
      nextRound runs + (if r_Status run = AgentRunStatusHostFailed then 0 else 1)"
proof -
  let ?counted = "filter CountsTowardRoundLimit runs"
  note b = fold_max_bounds [of 1 ?counted]
  have "nextRound (runs @ [run\<lparr>r_Round := nextRound runs\<rparr>]) =
      nextRound runs + (if r_Status run = AgentRunStatusHostFailed then 0 else 1)"
    by (simp add: nextRound_def next_round_loop_spec CountsTowardRoundLimit_def)
  moreover have "nextRound ?counted = nextRound runs"
    by (simp add: nextRound_def next_round_loop_spec)
  ultimately show ?thesis using b by (fastforce simp: nextRound_def next_round_loop_spec)
qed

text \<open>The theorem at a history whose second attempt the host failed.\<close>

lemma nextRound_spends_counted_attempts_witness:
  "nextRound [example_run, example_run\<lparr>r_Round := 2, r_Status := AgentRunStatusHostFailed\<rparr>] = 2"
  using nextRound_spends_counted_attempts
    [of "[example_run, example_run\<lparr>r_Round := 2, r_Status := AgentRunStatusHostFailed\<rparr>]" example_run]
  by (simp add: example_run_def CountsTowardRoundLimit_def nextRound_def)

section \<open>Leftover runs\<close>

text \<open>What stalling the leftovers of a dead process comes to: one write per live run, in order.\<close>

fun save_runs :: "'x round_ports \<Rightarrow> AgentRun list \<Rightarrow> 'x world \<Rightarrow> go_error option \<times> 'x world" where
  "save_runs P [] w = (None, w)"
| "save_runs P (run # runs) w =
     (case SaveAgentRun P run w of (Some err, w) \<Rightarrow> (Some err, w) | (None, w) \<Rightarrow> save_runs P runs w)"

definition stalled_at :: "int \<Rightarrow> AgentRun \<Rightarrow> AgentRun" where
  "stalled_at now run = run\<lparr>r_Status := AgentRunStatusStalled, r_FinishedAt := Some now,
     r_Error := ''run did not complete before the process restarted''\<rparr>"

lemma stallLiveRuns_loop_spec:
  "stallLiveRuns_loop P now runs w =
     save_runs P (map (stalled_at now) (filter (isLiveAgentRunStatus \<circ> r_Status) runs)) w"
proof (induction runs arbitrary: w)
  case Nil
  then show ?case by simp
next
  case (Cons run runs)
  show ?case
  proof (cases "isLiveAgentRunStatus (r_Status run)")
    case True
    let ?run = "run\<lparr>r_Error := ''run did not complete before the process restarted''\<rparr>"
    have "isLiveAgentRunStatus (r_Status ?run)" using True by simp
    then have "AgentRun_Apply AgentRunEventStall now ?run = (None, ended_at AgentRunEventStall now ?run)"
      by (rule live_run_ends) simp
    moreover have "ended_at AgentRunEventStall now ?run = stalled_at now run"
      by (simp add: ended_at_def ending_status_def stalled_at_def)
    ultimately have "stallLiveRuns_loop P now (run # runs) w =
        (case SaveAgentRun P (stalled_at now run) w of (Some err, w) \<Rightarrow> (Some err, w)
         | (None, w) \<Rightarrow> stallLiveRuns_loop P now runs w)"
      using True by (simp only: stallLiveRuns_loop.simps Let_def simp_thms if_False prod.case option.case)
    with True show ?thesis by (simp only: Cons.IH filter.simps comp_def list.map save_runs.simps if_True)
  qed (simp add: Cons.IH)
qed

text \<open>Recovery stalls exactly the leftovers. Reaping a subject's runs writes one record for
  each run that was still live, in order, stalled, finished at the time of the sweep and saying
  so; a run that had ended is not touched; it stops at the first write that fails and otherwise
  succeeds, so that then no live run is left among the records it went over.\<close>

theorem stallLiveRuns_ends_leftovers:
  "stallLiveRuns P runs w =
     (case Now P w of (now, w') \<Rightarrow>
        save_runs P (map (stalled_at now) (filter (isLiveAgentRunStatus \<circ> r_Status) runs)) w') \<and>
   \<not> list_ex (isLiveAgentRunStatus \<circ> r_Status)
       (map (\<lambda>run. if isLiveAgentRunStatus (r_Status run) then stalled_at now run else run) runs)"
proof -
  have "\<not> isLiveAgentRunStatus (r_Status (stalled_at now run))" for run
    by (simp add: stalled_at_def isLiveAgentRunStatus_def)
  then show ?thesis
    by (auto simp: stallLiveRuns_def stallLiveRuns_loop_spec list_ex_iff split: prod.split)
qed

section \<open>Running the agent\<close>

lemma saveSandboxStatus_known:
  assumes "isSandboxStatus status"
  shows "\<exists>r v. saveSandboxStatus P spec status w =
    ((r, spec\<lparr>sp_Sandbox := sp_Sandbox spec\<lparr>v_Status := status, v_UpdatedAt := fst (Now P w)\<rparr>\<rparr>), v)"
  using assms
  by (auto simp: saveSandboxStatus_def Sandbox_Reconcile_def Let_def split: prod.split)

text \<open>The sandbox of a round that ran is always stopped, and its record says how that went.
  Once the engine's command was built, whatever the agent did, the round's sandbox record ends
  stopped, or broken exactly when stopping it failed (by the graceful stop, or by the abrupt one
  when the worker is shutting down); the run carries the usage the output reports, also when it
  failed; and an answer comes back only if the agent exited cleanly and its sandbox stopped.\<close>

theorem invoke_always_stops:
  assumes "Command P run prompt env = Inr argv"
    and "RunAgent P (Sandbox_Ref (sp_Sandbox spec)) (r_ID run) argv w = (out, w1)"
    and "(if ContextDone P (r_ID run) w1 then StopNow P else Stop P) (Sandbox_Ref (sp_Sandbox spec)) w1
       = (stopErr, w2)"
    and "invoke P silence timeout spec run prompt env w = ((result, run', spec'), w3)"
  shows "v_Status (sp_Sandbox spec') =
      (if stopErr = None then SandboxStatusStopped else SandboxStatusBroken) \<and>
    r_Usage run' = ParseUsage P (ro_output out) \<and>
    (\<forall>answer. result = Inr answer \<longrightarrow>
       ro_err out = None \<and> stopErr = None \<and> answer = ExtractAnswer P (ro_output out))"
proof -
  let ?status = "if stopErr \<noteq> None then SandboxStatusBroken else SandboxStatusStopped"
  have "isSandboxStatus ?status" by simp
  from saveSandboxStatus_known [OF this, of P spec w2] obtain r v where
    save: "saveSandboxStatus P spec ?status w2 = ((r, spec\<lparr>sp_Sandbox :=
      sp_Sandbox spec\<lparr>v_Status := ?status, v_UpdatedAt := fst (Now P w2)\<rparr>\<rparr>), v)" by blast
  have stop: "(if ContextDone P (r_ID run) w1 then StopNow P (Sandbox_Ref (sp_Sandbox spec)) w1
      else Stop P (Sandbox_Ref (sp_Sandbox spec)) w1) = (stopErr, w2)"
    using assms(3) by (simp split: if_splits)
  have err: "stopped_error out silence timeout = None \<longleftrightarrow> ro_err out = None"
    by (simp add: stopped_error_def split: option.split)
  have id: "r_ID (run\<lparr>r_Usage := u\<rparr>) = r_ID run" for u by simp
  show ?thesis
    using assms(4) err
    unfolding invoke_def assms(1) sum.case Let_def assms(2) prod.case id stop save
    by (auto split: option.splits prod.splits if_splits)
qed

lemma invoke_always_stops_witness:
  "v_Status (sp_Sandbox (snd (snd (fst (invoke (log_ports None quiet_outcome) 900 7200
      \<lparr>sp_Sandbox = \<lparr>v_ID = ''sb'', v_ProjectID = 1, v_Name = ''box'', v_Role = AgentRoleCoding,
         v_Subject = \<lparr>s_Kind = AgentSubjectIssue, s_ID = ''i1''\<rparr>, v_Status = SandboxStatusRunning,
         v_CreatedAt = 0, v_UpdatedAt = 0\<rparr>, sp_Mounts = [], sp_InstallDocker = False, sp_SetupScript = []\<rparr>
      example_run ''go'' [] log_world))))) = SandboxStatusStopped"
proof -
  let ?P = "log_ports None quiet_outcome"
  let ?spec = "\<lparr>sp_Sandbox = \<lparr>v_ID = ''sb'', v_ProjectID = 1, v_Name = ''box'', v_Role = AgentRoleCoding,
         v_Subject = \<lparr>s_Kind = AgentSubjectIssue, s_ID = ''i1''\<rparr>, v_Status = SandboxStatusRunning,
         v_CreatedAt = 0, v_UpdatedAt = 0\<rparr>, sp_Mounts = [], sp_InstallDocker = False, sp_SetupScript = []\<rparr>"
  obtain result run' spec' w3 where
    i: "invoke ?P 900 7200 ?spec example_run ''go'' [] log_world = ((result, run', spec'), w3)"
    by (metis surj_pair)
  have "v_Status (sp_Sandbox spec') = SandboxStatusStopped"
    using invoke_always_stops [of ?P example_run "''go''" "[]" "[''go'']" ?spec log_world quiet_outcome
        log_world None "log_world\<lparr>w_ext := (w_ext log_world)\<lparr>l_stops := [''box'']\<rparr>\<rparr>", OF _ _ _ i]
    by (simp add: log_simps Sandbox_Ref_def)
  with i show ?thesis by simp
qed

section \<open>Watching for silence\<close>

text \<open>
  The loop of \<open>watchForSilence\<close> over what \<open>Size\<close> reports at each tick of its timer, up to the end
  of the run: the flag the caller reads afterwards. An unreadable transcript is skipped.
\<close>

fun watch_loop :: "int \<Rightarrow> int \<Rightarrow> int \<Rightarrow> int \<Rightarrow> (go_error + int) list \<Rightarrow> bool" where
  "watch_loop sample limit held quiet [] = False"
| "watch_loop sample limit held quiet (Inl err # ticks) = watch_loop sample limit held quiet ticks"
| "watch_loop sample limit held quiet (Inr current # ticks) =
     (if current \<noteq> held then watch_loop sample limit current 0 ticks
      else let quiet = quiet + sample
           in if limit \<le> quiet then True else watch_loop sample limit held quiet ticks)"

definition watchForSilence :: "int \<Rightarrow> int \<Rightarrow> (go_error + int) list \<Rightarrow> bool" where
  "watchForSilence sample limit ticks = watch_loop sample limit 0 0 ticks"

fun readable :: "(go_error + int) list \<Rightarrow> int list" where
  "readable [] = []"
| "readable (Inl err # ticks) = readable ticks"
| "readable (Inr held # ticks) = held # readable ticks"

text \<open>The number of silent samples that add up to the limit.\<close>

definition silent_samples :: "int \<Rightarrow> int \<Rightarrow> nat" where
  "silent_samples sample limit = nat ((limit + sample - 1) div sample)"

lemma int_div_less:
  fixes q :: int
  assumes "0 < q"
  shows "x div q < n \<longleftrightarrow> x < n * q"
proof
  assume "x div q < n"
  then have "(x div q + 1) * q \<le> n * q" using assms by (intro mult_right_mono) auto
  moreover have "x < (x div q + 1) * q"
    using pos_mod_bound [OF assms, of x] div_mult_mod_eq [of x q] unfolding distrib_right by linarith
  ultimately show "x < n * q" by simp
next
  assume x: "x < n * q"
  show "x div q < n"
  proof (rule ccontr)
    assume "\<not> x div q < n"
    then have "n * q \<le> x div q * q" using assms by (intro mult_right_mono) auto
    also have "\<dots> \<le> x" using pos_mod_sign [OF assms, of x] div_mult_mod_eq [of x q] by linarith
    finally show False using x by simp
  qed
qed

lemma silent_samples_reached:
  assumes "0 < sample" and "0 < limit"
  shows "limit \<le> (int c + 1) * sample \<longleftrightarrow> silent_samples sample limit \<le> Suc c"
proof -
  have "limit \<le> (int c + 1) * sample \<longleftrightarrow> (limit + sample - 1) div sample \<le> int c + 1"
  proof
    assume "limit \<le> (int c + 1) * sample"
    then have "limit + sample - 1 < (int c + 2) * sample" by (simp add: algebra_simps)
    then have "(limit + sample - 1) div sample < int c + 2"
      using assms(1) by (simp add: int_div_less)
    then show "(limit + sample - 1) div sample \<le> int c + 1" by simp
  next
    assume "(limit + sample - 1) div sample \<le> int c + 1"
    then have "(limit + sample - 1) div sample < int c + 2" by simp
    then have "limit + sample - 1 < (int c + 2) * sample"
      using assms(1) by (simp add: int_div_less)
    then show "limit \<le> (int c + 1) * sample" by (simp add: algebra_simps)
  qed
  then show ?thesis by (auto simp: silent_samples_def)
qed

lemma sublist_replicate_break:
  assumes "x \<noteq> s" and "n \<le> k"
  shows "sublist (replicate (Suc k) t) (replicate n s @ x # xs) \<longleftrightarrow>
    sublist (replicate (Suc k) t) (x # xs)"
proof
  assume "sublist (replicate (Suc k) t) (replicate n s @ x # xs)"
  then consider "sublist (replicate (Suc k) t) (replicate n s)" | "sublist (replicate (Suc k) t) (x # xs)"
    | us vs where "replicate (Suc k) t = us @ vs" "suffix us (replicate n s)" "prefix vs (x # xs)"
    by (auto simp: sublist_append)
  then show "sublist (replicate (Suc k) t) (x # xs)"
  proof cases
    case 1
    from sublist_length_le [OF this] assms(2) show ?thesis by simp
  next
    case 3
    have len: "length us \<le> n" using suffix_length_le [OF 3(2)] by simp
    have all: "y = t" if "y \<in> set us \<union> set vs" for y
      using that 3(1) by (metis in_set_replicate set_append)
    have "length us + length vs = Suc k"
      using arg_cong [OF 3(1), of length] by simp
    with len assms(2) have "vs \<noteq> []" by auto
    with 3(3) have x: "x \<in> set vs" by (cases vs) auto
    have "us = []"
    proof (rule ccontr)
      assume "us \<noteq> []"
      then obtain y where y: "y \<in> set us" by (cases us) auto
      have "y = s" using set_mono_suffix [OF 3(2)] y by auto
      with all [of y] all [of x] x y assms(1) show False by auto
    qed
    with 3 show ?thesis by auto
  qed blast
qed (simp add: sublist_appendI sublist_order.order_trans [OF _ sublist_append_leftI])

lemma watch_loop_spec:
  assumes "0 < sample" and "0 < limit" and "c < silent_samples sample limit"
  shows "watch_loop sample limit held (int c * sample) ticks \<longleftrightarrow>
    (\<exists>t. sublist (replicate (Suc (silent_samples sample limit)) t)
       (replicate (Suc c) held @ readable ticks))"
  using assms(3)
proof (induction ticks arbitrary: c held)
  case Nil
  let ?k = "silent_samples sample limit"
  have "\<not> sublist (replicate (Suc ?k) t) (replicate (Suc c) held)" for t
    using sublist_length_le [of "replicate (Suc ?k) t" "replicate (Suc c) held"] Nil by auto
  then show ?case by simp
next
  case (Cons tick ticks)
  let ?k = "silent_samples sample limit"
  show ?case
  proof (cases tick)
    case (Inl err)
    with Cons show ?thesis by simp
  next
    case (Inr current)
    show ?thesis
    proof (cases "current = held")
      case False
      have "0 < ?k" using Cons.prems by simp
      have "watch_loop sample limit held (int c * sample) (tick # ticks) \<longleftrightarrow>
          watch_loop sample limit current (int 0 * sample) ticks"
        using False Inr by simp
      also have "\<dots> \<longleftrightarrow> (\<exists>t. sublist (replicate (Suc ?k) t) (current # readable ticks))"
        using Cons.IH [OF \<open>0 < ?k\<close>] by simp
      finally show ?thesis
        using sublist_replicate_break [OF False, of "Suc c" ?k _ "readable ticks"] Cons.prems Inr
        by (simp add: Suc_leI del: replicate_Suc)
    next
      case True
      have shift: "replicate (Suc c) held @ held # xs = replicate (Suc (Suc c)) held @ xs" for xs
        by (simp add: replicate_app_Cons_same)
      have q: "int c * sample + sample = (int c + 1) * sample" by (simp add: algebra_simps)
      show ?thesis
      proof (cases "?k \<le> Suc c")
        case stop: True
        with Cons.prems have "?k = Suc c" by simp
        then have "sublist (replicate (Suc ?k) held) (replicate (Suc c) held @ readable (tick # ticks))"
          unfolding True Inr readable.simps shift by (simp add: True [symmetric] sublist_append_rightI del: replicate_Suc)
        moreover have "watch_loop sample limit held (int c * sample) (tick # ticks)"
          using True Inr stop silent_samples_reached [OF assms(1,2), of c] by (simp add: Let_def q)
        ultimately show ?thesis by blast
      next
        case go: False
        then have "Suc c < ?k" by simp
        have "watch_loop sample limit held (int c * sample) (tick # ticks) \<longleftrightarrow>
            watch_loop sample limit held (int (Suc c) * sample) ticks"
          using True Inr go silent_samples_reached [OF assms(1,2), of c] by (simp only: watch_loop.simps Let_def q of_nat_Suc add.commute [of 1] simp_thms if_False)
        moreover have "replicate (Suc c) held @ readable (tick # ticks) =
            replicate (Suc (Suc c)) held @ readable ticks"
          unfolding True Inr readable.simps by (simp add: replicate_app_Cons_same)
        ultimately show ?thesis using Cons.IH [OF \<open>Suc c < ?k\<close>, of held] by (simp only:)
      qed
    qed
  qed
qed

text \<open>The stall guard fires exactly on silence. With a positive sampling interval and limit, the
  watch stops the round if and only if, among the sizes it could read (starting from an empty
  transcript), some size is seen again in each of the next \<open>limit / sample\<close> (rounded up) readings:
  a reading that fails neither extends nor ends a silence, and a single change of size restarts it.\<close>

theorem watch_fires_on_silence:
  assumes "0 < sample" and "0 < limit"
  shows "watchForSilence sample limit ticks \<longleftrightarrow>
    (\<exists>held. sublist (replicate (Suc (silent_samples sample limit)) held) (0 # readable ticks))"
proof -
  have "0 < silent_samples sample limit"
    using silent_samples_reached [OF assms, of 0] assms
    by (auto simp: silent_samples_def pos_imp_zdiv_pos_iff)
  from watch_loop_spec [OF assms this, of 0 ticks] show ?thesis by (simp add: watchForSilence_def)
qed

lemma watch_fires_on_silence_witness:
  "\<exists>held. sublist (replicate (Suc (silent_samples 60 120)) held)
     (0 # readable [Inr 7, Inl (Sentinel ''no log''), Inr 7, Inr 7])"
  using watch_fires_on_silence [of 60 120 "[Inr 7, Inl (Sentinel ''no log''), Inr 7, Inr 7]"]
  by (simp add: watchForSilence_def)

end
