(* ===== verification/Sandbox_Specs.thy ===== *)
theory Sandbox_Specs
  imports Agent_Rounds
begin

text \<open>
  Which sandbox a round gets: \<open>usecases/epic_sandbox.go\<close> (the stable identity of one subject and
  role) and the validation of \<open>agent_runtime/sandbox_spec.go\<close> and \<open>sandbox_mount.go\<close>. The hash
  \<open>sha256\<close> in hexadecimal is an argument; Go's \<open>uint\<close> has 64 bits.
\<close>

section \<open>Validation\<close>

definition MaxSandboxNameLength :: nat where
  "MaxSandboxNameLength = 63"

text \<open>\<open>filepath.IsAbs\<close> on a Unix host.\<close>

definition is_abs :: "string \<Rightarrow> bool" where
  "is_abs path \<longleftrightarrow> prefix ''/'' path"

definition SandboxMount_Validate :: "SandboxMount \<Rightarrow> go_error option" where
  "SandboxMount_Validate m =
     (if \<not> is_abs (m_HostLocation m) \<or> \<not> is_abs (m_GuestLocation m)
      then Some (Errorf ''sandbox host location and guest location must be absolute'' [])
      else None)"

definition SandboxSpec_Validate :: "SandboxSpec \<Rightarrow> go_error option" where
  "SandboxSpec_Validate s =
     (case Sandbox_Validate (sp_Sandbox s) of
        Some err \<Rightarrow> Some err
      | None \<Rightarrow>
          if MaxSandboxNameLength < length (v_Name (sp_Sandbox s))
          then Some (Errorf ''sandbox name %q exceeds %d characters''
                 [GStr (v_Name (sp_Sandbox s)), GInt (int MaxSandboxNameLength)])
          else first_error SandboxMount_Validate (sp_Mounts s))"

section \<open>Names\<close>

definition sandboxLayoutVersion :: nat where
  "sandboxLayoutVersion = 5"

definition slug_rune :: "nat \<Rightarrow> char" where
  "slug_rune r = (if in_range 97 122 r \<or> in_range 48 57 r then char_of r else CHR ''-'')"

definition sandboxNameSlug :: "(nat \<Rightarrow> nat) \<Rightarrow> string \<Rightarrow> string" where
  "sandboxNameSlug ulower name =
     trim_char (CHR ''-'') (map slug_rune (code_points (to_lower ulower name)))"

definition subjectSandboxName ::
    "(string \<Rightarrow> string) \<Rightarrow> (nat \<Rightarrow> nat) \<Rightarrow> nat \<Rightarrow> string \<Rightarrow> AgentRole \<Rightarrow> string" where
  "subjectSandboxName sha256 ulower projectID subjectID role =
     (let identity = dec projectID @ ''-'' @ subjectID @ ''-'' @ agent_role_string role @ ''-v'' @
            dec sandboxLayoutVersion;
          digest = take 8 (sha256 identity);
          head = ''gm-'' @ dec projectID @ ''-'';
          tail = ''-'' @ sandboxNameSlug ulower (agent_role_string role) @ ''-'' @ digest;
          subject = sandboxNameSlug ulower subjectID;
          budget = int MaxSandboxNameLength - int (length head) - int (length tail);
          subject = (if budget < int (length subject) then take (nat (max 0 budget)) subject else subject)
      in trim_char (CHR ''-'') (head @ subject @ tail))"

definition epicSandboxName ::
    "(string \<Rightarrow> string) \<Rightarrow> (nat \<Rightarrow> nat) \<Rightarrow> nat \<Rightarrow> string \<Rightarrow> AgentRole \<Rightarrow> string" where
  "epicSandboxName sha256 ulower projectID epicID role =
     subjectSandboxName sha256 ulower projectID epicID role"

definition requiresDocker :: "AgentRole \<Rightarrow> bool" where
  "requiresDocker role \<longleftrightarrow> role = AgentRoleRefiner \<or> role = AgentRoleIssueReviewer \<or>
     role = AgentRoleCoding \<or> role = AgentRolePRReviewer"

definition EpicSandboxSpec ::
    "(string \<Rightarrow> string) \<Rightarrow> (nat \<Rightarrow> nat) \<Rightarrow> nat \<Rightarrow> string \<Rightarrow> AgentRole \<Rightarrow> int \<Rightarrow> SandboxSpec" where
  "EpicSandboxSpec sha256 ulower projectID epicID role now =
     (let name = epicSandboxName sha256 ulower projectID epicID role
      in \<lparr>sp_Sandbox = \<lparr>v_ID = ''sandbox-'' @ name, v_ProjectID = projectID, v_Name = name,
            v_Role = role, v_Subject = \<lparr>s_Kind = AgentSubjectEpic, s_ID = epicID\<rparr>,
            v_Status = SandboxStatusCreating, v_CreatedAt = now, v_UpdatedAt = now\<rparr>,
          sp_Mounts = [], sp_InstallDocker = requiresDocker role, sp_SetupScript = []\<rparr>)"

definition IssueSandboxSpec ::
    "(string \<Rightarrow> string) \<Rightarrow> (nat \<Rightarrow> nat) \<Rightarrow> nat \<Rightarrow> string \<Rightarrow> AgentRole \<Rightarrow> int \<Rightarrow> SandboxSpec" where
  "IssueSandboxSpec sha256 ulower projectID issueID role now =
     (let name = subjectSandboxName sha256 ulower projectID issueID role
      in \<lparr>sp_Sandbox = \<lparr>v_ID = ''sandbox-'' @ name, v_ProjectID = projectID, v_Name = name,
            v_Role = role, v_Subject = \<lparr>s_Kind = AgentSubjectIssue, s_ID = issueID\<rparr>,
            v_Status = SandboxStatusCreating, v_CreatedAt = now, v_UpdatedAt = now\<rparr>,
          sp_Mounts = [], sp_InstallDocker = requiresDocker role, sp_SetupScript = []\<rparr>)"

section \<open>What a name looks like\<close>

text \<open>The characters a container's host name may have.\<close>

definition host_char :: "char \<Rightarrow> bool" where
  "host_char c \<longleftrightarrow> in_range 97 122 (byte c) \<or> in_range 48 57 (byte c) \<or> c = CHR ''-''"

text \<open>What the program relies on in \<open>sha256\<close> printed with \<open>%x\<close>: at least eight lower case hexadecimal digits.\<close>

definition hex_digest :: "(string \<Rightarrow> string) \<Rightarrow> bool" where
  "hex_digest sha256 \<longleftrightarrow>
     (\<forall>s. 8 \<le> length (sha256 s) \<and> (\<forall>c \<in> set (sha256 s). in_range 97 102 (byte c) \<or> in_range 48 57 (byte c)))"

lemma strip_set: "set (strip p xs) \<subseteq> set xs"
  using strip_sublist [of xs p] by (metis Un_iff set_append subsetI)

lemma strip_length: "length (strip p xs) \<le> length xs"
proof -
  obtain us vs where "xs = us @ strip p xs @ vs" using strip_sublist by blast
  then have "length xs = length us + length (strip p xs) + length vs" by (metis add.assoc length_append)
  then show ?thesis by simp
qed

lemma slug_rune_host: "host_char (slug_rune r)"
  by (auto simp: slug_rune_def host_char_def byte_char_of in_range_def)

lemma sandboxNameSlug_host: "c \<in> set (sandboxNameSlug ulower name) \<Longrightarrow> host_char c"
proof -
  assume "c \<in> set (sandboxNameSlug ulower name)"
  then have "c \<in> set (map slug_rune (code_points (to_lower ulower name)))"
    unfolding sandboxNameSlug_def trim_char_def by (rule subsetD [OF strip_set])
  then show ?thesis by (auto intro: slug_rune_host)
qed

lemma dec_host: "c \<in> set (dec n) \<Longrightarrow> host_char c"
  using dec_digits [of n] by (auto simp: list_all_iff host_char_def is_digit_def)

lemma length_dec_uint: "n < 2 ^ 64 \<Longrightarrow> length (dec n) \<le> 20"
proof (rule length_dec)
  have "(2 :: nat) ^ 64 < 10 ^ 20" by simp
  then show "n < 2 ^ 64 \<Longrightarrow> n < 10 ^ 20" by (rule less_trans [rotated])
qed simp

lemma hex_digest_char:
  assumes "hex_digest sha256" and "c \<in> set (take n (sha256 s))"
  shows "host_char c \<and> c \<noteq> CHR ''-''"
proof -
  have "in_range 97 102 (byte c) \<or> in_range 48 57 (byte c)"
    using assms unfolding hex_digest_def by (blast dest: in_set_takeD)
  then show ?thesis
  proof
    assume "in_range 97 102 (byte c)"
    then show ?thesis by (auto simp: host_char_def in_range_def byte_def)
  next
    assume "in_range 48 57 (byte c)"
    then show ?thesis by (auto simp: host_char_def in_range_def byte_def)
  qed
qed

text \<open>A name written as head, subject and tail starts with \<open>g\<close> and ends in a digit of the digest.\<close>

lemma sandbox_name_shape:
  assumes "hex_digest sha256"
  shows "\<exists>mid. subjectSandboxName sha256 ulower projectID subjectID role =
    ''gm-'' @ dec projectID @ ''-'' @ mid @ ''-'' @ take 8 (sha256 (dec projectID @ ''-'' @ subjectID @
      ''-'' @ agent_role_string role @ ''-v'' @ dec sandboxLayoutVersion)) \<and>
    (\<forall>c \<in> set mid. host_char c) \<and>
    (length (dec projectID) + length (sandboxNameSlug ulower (agent_role_string role)) \<le> 49 \<longrightarrow>
       length mid + length (dec projectID) \<le> 50)"
proof -
  define digest where "digest = take 8 (sha256 (dec projectID @ ''-'' @ subjectID @
      ''-'' @ agent_role_string role @ ''-v'' @ dec sandboxLayoutVersion))"
  define r where "r = sandboxNameSlug ulower (agent_role_string role)"
  define k where "k = int MaxSandboxNameLength - int (length (''gm-'' @ dec projectID @ ''-'')) -
      int (length (''-'' @ r @ ''-'' @ digest))"
  define sub where "sub = (if k < int (length (sandboxNameSlug ulower subjectID))
      then take (nat (max 0 k)) (sandboxNameSlug ulower subjectID) else sandboxNameSlug ulower subjectID)"
  have d: "length digest = 8" "digest \<noteq> []" "\<forall>c \<in> set digest. c \<noteq> CHR ''-''"
  proof -
    show "length digest = 8" using assms by (simp add: digest_def hex_digest_def)
    then show "digest \<noteq> []" by auto
    show "\<forall>c \<in> set digest. c \<noteq> CHR ''-''"
      using hex_digest_char [OF assms] by (auto simp: digest_def)
  qed
  let ?full = "''gm-'' @ dec projectID @ ''-'' @ sub @ ''-'' @ r @ ''-'' @ digest"
  have "last ?full = last digest" using d(2) by simp
  then have "last ?full \<noteq> CHR ''-''" using d(2,3) last_in_set by metis
  then have "trim_char (CHR ''-'') ?full = ?full" unfolding trim_char_def by (intro strip_id) simp
  then have eq: "subjectSandboxName sha256 ulower projectID subjectID role =
      ''gm-'' @ dec projectID @ ''-'' @ (sub @ ''-'' @ r) @ ''-'' @ digest"
    unfolding subjectSandboxName_def Let_def digest_def r_def sub_def k_def append_assoc by simp
  have "length sub \<le> nat (max 0 k)" by (auto simp: sub_def)
  moreover have "k = 50 - int (length (dec projectID)) - int (length r) - 1"
    using d(1) by (simp add: k_def MaxSandboxNameLength_def)
  ultimately have "length (dec projectID) + length r \<le> 49 \<Longrightarrow>
      length (sub @ ''-'' @ r) + length (dec projectID) \<le> 50" by simp
  moreover have "\<forall>c \<in> set (sub @ ''-'' @ r). host_char c"
  proof -
    have "\<forall>c \<in> set sub. host_char c"
      by (auto simp: sub_def dest!: in_set_takeD intro: sandboxNameSlug_host)
    moreover have "\<forall>c \<in> set r. host_char c" by (auto simp: r_def intro: sandboxNameSlug_host)
    moreover have "host_char (CHR ''-'')" by (simp add: host_char_def)
    ultimately show ?thesis by auto
  qed
  ultimately show ?thesis using eq unfolding digest_def r_def by blast
qed

lemma role_slug_length:
  assumes "role \<in> set Roles"
  shows "length (sandboxNameSlug ulower (agent_role_string role)) \<le> 14"
proof -
  have "is_ascii (agent_role_string role)"
    using assms by (auto simp: Roles_def is_ascii_def byte_def)
  moreover from this have "is_ascii (map lower_char (agent_role_string role))"
    by (auto simp: is_ascii_def list_all_iff lower_char_def byte_char_of in_range_def)
  ultimately have "length (sandboxNameSlug ulower (agent_role_string role)) \<le> length (agent_role_string role)"
    unfolding sandboxNameSlug_def trim_char_def
    using strip_length [of "\<lambda>x. x = CHR ''-''" "map slug_rune (code_points (to_lower ulower (agent_role_string role)))"]
    by (simp add: to_lower_ascii code_points_ascii)
  also have "\<dots> \<le> 14" using assms by (auto simp: Roles_def)
  finally show ?thesis .
qed

text \<open>C40. Every sandbox the program asks for is one the provider accepts. For a known role, a
  project number of Go's \<open>uint\<close> and a subject with an ID, the specification of an epic's or an
  issue's sandbox validates: its name has at most 63 characters, all of them lower case letters,
  digits and hyphens, so that it is a host name, and names of identities with different digests
  differ, whatever is cut from the subject.\<close>

theorem sandbox_specs_are_accepted:
  assumes "hex_digest sha256" and "role \<in> set Roles" and "projectID < 2 ^ 64" and "subjectID \<noteq> []"
  shows "SandboxSpec_Validate (EpicSandboxSpec sha256 ulower projectID subjectID role now) = None \<and>
    SandboxSpec_Validate (IssueSandboxSpec sha256 ulower projectID subjectID role now) = None \<and>
    list_all host_char (subjectSandboxName sha256 ulower projectID subjectID role) \<and>
    (\<forall>p s r. take 8 (sha256 (dec p @ ''-'' @ s @ ''-'' @ agent_role_string r @ ''-v'' @ dec sandboxLayoutVersion)) \<noteq>
        take 8 (sha256 (dec projectID @ ''-'' @ subjectID @ ''-'' @ agent_role_string role @ ''-v'' @
          dec sandboxLayoutVersion)) \<longrightarrow>
      subjectSandboxName sha256 ulower p s r \<noteq> subjectSandboxName sha256 ulower projectID subjectID role)"
proof -
  let ?name = "subjectSandboxName sha256 ulower projectID subjectID role"
  let ?digest = "\<lambda>p s r. take 8 (sha256 (dec p @ ''-'' @ s @ ''-'' @ agent_role_string r @ ''-v'' @
    dec sandboxLayoutVersion))"
  have d: "length (?digest p s r) = 8" for p s r using assms(1) by (simp add: hex_digest_def)
  obtain mid where mid: "?name = ''gm-'' @ dec projectID @ ''-'' @ mid @ ''-'' @ ?digest projectID subjectID role"
      "\<forall>c \<in> set mid. host_char c"
      "length (dec projectID) + length (sandboxNameSlug ulower (agent_role_string role)) \<le> 49 \<Longrightarrow>
         length mid + length (dec projectID) \<le> 50"
    using sandbox_name_shape [OF assms(1)] by blast
  have "length (dec projectID) + length (sandboxNameSlug ulower (agent_role_string role)) \<le> 49"
    using length_dec_uint [OF assms(3)] role_slug_length [OF assms(2), of ulower] by simp
  from mid(3) [OF this] have len: "length ?name \<le> 63" by (simp add: mid(1) d)
  have ne: "?name \<noteq> []" by (simp add: mid(1))
  have hex: "\<forall>c \<in> set (?digest projectID subjectID role). host_char c"
    using hex_digest_char [OF assms(1)] by blast
  have "list_all host_char ''gm-''" by (simp add: host_char_def in_range_def byte_def)
  then have host: "list_all host_char ?name"
    using mid(2) hex dec_host [of _ projectID] unfolding mid(1) by (auto simp: list_all_iff)
  have inj: "subjectSandboxName sha256 ulower p s r \<noteq> ?name"
    if "?digest p s r \<noteq> ?digest projectID subjectID role" for p s r
  proof
    assume eq: "subjectSandboxName sha256 ulower p s r = ?name"
    obtain mid' where "subjectSandboxName sha256 ulower p s r =
        ''gm-'' @ dec p @ ''-'' @ mid' @ ''-'' @ ?digest p s r"
      using sandbox_name_shape [OF assms(1)] by blast
    with eq have "(''gm-'' @ dec p @ ''-'' @ mid' @ ''-'') @ ?digest p s r =
        (''gm-'' @ dec projectID @ ''-'' @ mid @ ''-'') @ ?digest projectID subjectID role"
      unfolding mid(1) by simp
    then have "?digest p s r = ?digest projectID subjectID role"
      by (subst (asm) append_eq_append_conv) (simp_all only: d simp_thms)
    with that show False by simp
  qed
  have "IsAgentRole role" using assms(2) by (auto simp: IsAgentRole_def list_ex_iff)
  then have "SandboxSpec_Validate (EpicSandboxSpec sha256 ulower projectID subjectID role now) = None"
    and "SandboxSpec_Validate (IssueSandboxSpec sha256 ulower projectID subjectID role now) = None"
    using len ne assms(4)
    by (simp_all add: SandboxSpec_Validate_def EpicSandboxSpec_def IssueSandboxSpec_def Let_def
        epicSandboxName_def Sandbox_Validate_def AgentSubject_Validate_def MaxSandboxNameLength_def)
  with host inj show ?thesis by blast
qed

lemma sandbox_specs_are_accepted_witness:
  "SandboxSpec_Validate (EpicSandboxSpec (\<lambda>s. replicate 64 (CHR ''0'')) id 7
      ''01JQZ8Y6W3V4T5S6R7Q8P9N0MK'' AgentRoleIssueReviewer 0) = None"
  using sandbox_specs_are_accepted [of "\<lambda>s. replicate 64 (CHR ''0'')" AgentRoleIssueReviewer 7
      "''01JQZ8Y6W3V4T5S6R7Q8P9N0MK''" id 0]
  by (simp add: hex_digest_def in_range_def byte_def Roles_def)

end
