(* ===== verification/Push_Gate.thy ===== *)
theory Push_Gate
  imports Go_Strings
begin

text \<open>
  \<open>usecases/push_gate.go\<close>: whether a coding round's commits may be published. Unicode's lower
  case table is the argument \<open>ulower\<close>, as in \<open>Go_Strings\<close>.
\<close>

record RunCommit =
  rc_Hash :: string
  rc_DescendsFromBase :: bool
  rc_Paths :: "string list"

definition protectedPrefixes :: "string list" where
  "protectedPrefixes = [''.github/'']"

definition short :: "string \<Rightarrow> string" where
  "short hash = (if 8 < length hash then take 8 hash else hash)"

definition protected :: "(nat \<Rightarrow> nat) \<Rightarrow> string \<Rightarrow> bool" where
  "protected ulower path =
     (let normalized = to_lower ulower (trim_prefix (trim_space path) ''./'')
      in list_ex (\<lambda>p. prefix p normalized) protectedPrefixes)"

fun paths_loop :: "(nat \<Rightarrow> nat) \<Rightarrow> RunCommit \<Rightarrow> string list \<Rightarrow> go_error option" where
  "paths_loop ulower commit [] = None"
| "paths_loop ulower commit (path # paths) =
     (if protected ulower path
      then Some (Errorf ''push gate: commit %s changes protected path %q''
             [GStr (short (rc_Hash commit)), GStr path])
      else paths_loop ulower commit paths)"

fun commits_loop :: "(nat \<Rightarrow> nat) \<Rightarrow> string \<Rightarrow> RunCommit list \<Rightarrow> go_error option" where
  "commits_loop ulower base [] = None"
| "commits_loop ulower base (commit # commits) =
     (if \<not> rc_DescendsFromBase commit
      then Some (Errorf ''push gate: commit %s does not descend from base %s; history was rewritten''
             [GStr (short (rc_Hash commit)), GStr (short base)])
      else (case paths_loop ulower commit (rc_Paths commit) of
              Some err \<Rightarrow> Some err
            | None \<Rightarrow> commits_loop ulower base commits))"

definition EvaluatePushGate :: "(nat \<Rightarrow> nat) \<Rightarrow> string \<Rightarrow> RunCommit list \<Rightarrow> go_error option" where
  "EvaluatePushGate ulower base commits =
     (if trim_space base = []
      then Some (Errorf ''push gate: no base commit was recorded for this round'' [])
      else commits_loop ulower base commits)"

lemma paths_loop_None:
  "paths_loop ulower commit paths = None \<longleftrightarrow> (\<forall>path \<in> set paths. \<not> protected ulower path)"
  by (induction paths) auto

lemma commits_loop_None:
  "commits_loop ulower base commits = None \<longleftrightarrow>
     (\<forall>commit \<in> set commits. rc_DescendsFromBase commit \<and>
        (\<forall>path \<in> set (rc_Paths commit). \<not> protected ulower path))"
proof (induction commits)
  case (Cons commit commits)
  then show ?case
    using paths_loop_None [of ulower commit "rc_Paths commit"]
    by (cases "paths_loop ulower commit (rc_Paths commit)") auto
qed simp

lemma trim_prefix_ascii: "is_ascii s \<Longrightarrow> is_ascii (trim_prefix s p)"
  by (auto simp: trim_prefix_def is_ascii_def list_all_iff dest: in_set_dropD)

lemma protected_ascii:
  assumes "is_ascii path" and "trim_space path = path"
  shows "protected ulower path \<longleftrightarrow> prefix ''.github/'' (map lower_char (trim_prefix path ''./''))"
  using assms trim_prefix_ascii [OF assms(1), of "''./''"]
  by (simp add: protected_def protectedPrefixes_def Let_def to_lower_ascii)

text \<open>The push gate fails closed and lets through exactly the clean branches. It passes if and
  only if a base was recorded, every commit of the round descends from it and no path of any commit
  is protected; for an ASCII path without white space at its ends, protected means lying under
  \<open>.github/\<close> at the root of the repository, in any letter case and after at most one \<open>./\<close>.\<close>

theorem EvaluatePushGate_passes_clean_branches:
  assumes "\<forall>commit \<in> set commits. \<forall>path \<in> set (rc_Paths commit). is_ascii path \<and> trim_space path = path"
  shows "EvaluatePushGate ulower base commits = None \<longleftrightarrow>
    trim_space base \<noteq> [] \<and>
    (\<forall>commit \<in> set commits. rc_DescendsFromBase commit \<and>
       (\<forall>path \<in> set (rc_Paths commit).
          \<not> prefix ''.github/'' (map lower_char (trim_prefix path ''./''))))"
  using assms by (auto simp: EvaluatePushGate_def commits_loop_None protected_ascii)

lemma EvaluatePushGate_passes_clean_branches_witness:
  "EvaluatePushGate id ''4f2a'' [\<lparr>rc_Hash = ''9bc1'', rc_DescendsFromBase = True,
     rc_Paths = [''main.go'', ''.GitHub/workflows/ci.yml'']\<rparr>] \<noteq> None"
proof -
  have "\<forall>path \<in> set [''main.go'', ''.GitHub/workflows/ci.yml'']. is_ascii path \<and> trim_space path = path"
    by (auto simp: is_ascii_def byte_def is_space_def in_range_def intro!: trim_space_solid)
  moreover have "prefix ''.github/''
      (map lower_char (trim_prefix ''.GitHub/workflows/ci.yml'' ''./''))"
    by code_simp
  ultimately show ?thesis
    using EvaluatePushGate_passes_clean_branches [of "[\<lparr>rc_Hash = ''9bc1'', rc_DescendsFromBase = True,
     rc_Paths = [''main.go'', ''.GitHub/workflows/ci.yml'']\<rparr>]" id "''4f2a''"]
    by auto
qed

text \<open>CODEOWNERS is not protected where GitHub also reads it. The gate is written to keep a
  round from changing who reviews its work, but a round whose only change is a \<open>CODEOWNERS\<close> file at
  the root of the repository or under \<open>docs/\<close> is published, whatever Unicode's tables say.\<close>

theorem EvaluatePushGate_publishes_CODEOWNERS:
  "EvaluatePushGate ulower ''4f2a'' [\<lparr>rc_Hash = h, rc_DescendsFromBase = True,
     rc_Paths = [''CODEOWNERS'', ''docs/CODEOWNERS'']\<rparr>] = None"
proof -
  have "\<forall>path \<in> {''CODEOWNERS'', ''docs/CODEOWNERS''}. is_ascii path \<and> trim_space path = path"
    by (auto simp: is_ascii_def byte_def is_space_def in_range_def intro!: trim_space_solid)
  moreover have "\<not> prefix ''.github/'' (map lower_char (trim_prefix ''CODEOWNERS'' ''./''))"
    and "\<not> prefix ''.github/'' (map lower_char (trim_prefix ''docs/CODEOWNERS'' ''./''))"
    by code_simp+
  moreover have "trim_space ''4f2a'' = ''4f2a''"
    by (rule trim_space_solid) (simp_all add: is_ascii_def byte_def is_space_def in_range_def)
  ultimately show ?thesis
    by (simp add: EvaluatePushGate_def protected_ascii)
qed

end
