(* ===== verification/Round_Roles.thy ===== *)
theory Round_Roles
  imports Epic_Tree Agents
begin

text \<open>
  Who works next: \<open>IssueRole\<close> and \<open>TerminalSubjects\<close> of \<open>usecases/run_issue_agent.go\<close>,
  \<open>epicRole\<close>, \<open>hasPlannedWork\<close> and \<open>roundLimit\<close> of \<open>run_epic_agent.go\<close> and
  \<open>eligibleSubjects\<close> of \<open>epic_worker.go\<close>. The sets of subjects are Go maps with empty
  values; a HOL set and a HOL map stand for them.
\<close>

section \<open>The next role\<close>

definition epicRole :: "EpicState \<Rightarrow> AgentRole option" where
  "epicRole state =
     (case state of
        EpicStateConcept \<Rightarrow> Some AgentRoleRefiner
      | EpicStateChangesRequested \<Rightarrow> Some AgentRoleRefiner
      | EpicStateRefine \<Rightarrow> Some AgentRoleRefiner
      | EpicStateReview \<Rightarrow> Some AgentRoleIssueReviewer
      | _ \<Rightarrow> None)"

definition IssueRole :: "Epic \<Rightarrow> PullRequest \<Rightarrow> AgentRole option" where
  "IssueRole current pullRequest =
     (if e_State current \<noteq> EpicStateReady \<or> p_Status pullRequest \<noteq> PullRequestOpen then None
      else if Blocked current (p_IssueID pullRequest) then None
      else if HasFlag pullRequest FlagStale then Some AgentRoleMerge
      else if p_Reviews pullRequest < p_Rounds pullRequest then Some AgentRolePRReviewer
      else if p_Approved pullRequest then None
      else if \<not> CanCode pullRequest then None
      else Some AgentRoleCoding)"

fun hasPlannedWork_loop :: "Issue list \<Rightarrow> bool" where
  "hasPlannedWork_loop [] = False"
| "hasPlannedWork_loop (issue # issues) =
     (if i_ParentID issue \<noteq> [] \<and> i_State issue \<noteq> IssueStateClosed then True
      else hasPlannedWork_loop issues)"

definition hasPlannedWork :: "Epic \<Rightarrow> bool" where
  "hasPlannedWork current = hasPlannedWork_loop (e_Issues current)"

definition DefaultMaxRounds :: int where
  "DefaultMaxRounds = 10"

definition roundLimit :: "AgentProfile \<Rightarrow> int" where
  "roundLimit profile = (if 0 < a_MaxRounds profile then a_MaxRounds profile else DefaultMaxRounds)"

section \<open>Finished and eligible subjects\<close>

abbreviation epic_subject :: "string \<Rightarrow> AgentSubject" where
  "epic_subject id' \<equiv> \<lparr>s_Kind = AgentSubjectEpic, s_ID = id'\<rparr>"

abbreviation issue_subject :: "string \<Rightarrow> AgentSubject" where
  "issue_subject id' \<equiv> \<lparr>s_Kind = AgentSubjectIssue, s_ID = id'\<rparr>"

fun terminal_issues :: "bool \<Rightarrow> Issue list \<Rightarrow> AgentSubject set \<Rightarrow> AgentSubject set" where
  "terminal_issues epicDone [] terminal = terminal"
| "terminal_issues epicDone (issue # issues) terminal =
     (if \<not> epicDone \<and> i_State issue \<noteq> IssueStateMerged \<and> i_State issue \<noteq> IssueStateClosed
      then terminal_issues epicDone issues terminal
      else terminal_issues epicDone issues (insert (issue_subject (i_ID issue)) terminal))"

fun terminal_loop :: "Epic list \<Rightarrow> AgentSubject set \<Rightarrow> AgentSubject set" where
  "terminal_loop [] terminal = terminal"
| "terminal_loop (current # epics) terminal =
     (let epicDone = e_State current = EpicStateDone \<or> e_State current = EpicStateClosed;
          terminal = (if epicDone then insert (epic_subject (e_ID current)) terminal else terminal)
      in terminal_loop epics (terminal_issues epicDone (e_Issues current) terminal))"

definition TerminalSubjects :: "Epic list \<Rightarrow> AgentSubject set" where
  "TerminalSubjects epics = terminal_loop epics {}"

fun eligible_pull_requests ::
    "Epic \<Rightarrow> PullRequest list \<Rightarrow> (AgentSubject \<rightharpoonup> AgentRole) \<Rightarrow> AgentSubject \<rightharpoonup> AgentRole" where
  "eligible_pull_requests current [] subjects = subjects"
| "eligible_pull_requests current (pullRequest # pullRequests) subjects =
     (case IssueRole current pullRequest of
        Some role \<Rightarrow> eligible_pull_requests current pullRequests
                      (subjects(issue_subject (p_IssueID pullRequest) \<mapsto> role))
      | None \<Rightarrow> eligible_pull_requests current pullRequests subjects)"

fun eligible_loop :: "Epic list \<Rightarrow> (AgentSubject \<rightharpoonup> AgentRole) \<Rightarrow> AgentSubject \<rightharpoonup> AgentRole" where
  "eligible_loop [] subjects = subjects"
| "eligible_loop (current # epics) subjects =
     (let subjects = (case epicRole (e_State current) of
            Some role \<Rightarrow> subjects(epic_subject (e_ID current) \<mapsto> role) | None \<Rightarrow> subjects)
      in eligible_loop epics (eligible_pull_requests current (e_PullRequests current) subjects))"

definition eligibleSubjects :: "Epic list \<Rightarrow> AgentSubject \<rightharpoonup> AgentRole" where
  "eligibleSubjects epics = eligible_loop epics Map.empty"

section \<open>What the loops collect\<close>

lemma hasPlannedWork_iff:
  "hasPlannedWork e \<longleftrightarrow> (\<exists>i \<in> set (e_Issues e). i_ParentID i \<noteq> [] \<and> i_State i \<noteq> IssueStateClosed)"
proof -
  have "hasPlannedWork_loop is \<longleftrightarrow> (\<exists>i \<in> set is. i_ParentID i \<noteq> [] \<and> i_State i \<noteq> IssueStateClosed)"
    for "is" by (induction "is") auto
  then show ?thesis by (simp add: hasPlannedWork_def)
qed

definition epic_finished :: "Epic \<Rightarrow> bool" where
  "epic_finished e \<longleftrightarrow> e_State e = EpicStateDone \<or> e_State e = EpicStateClosed"

lemma terminal_issues_iff:
  "s \<in> terminal_issues fin is terminal \<longleftrightarrow>
     s \<in> terminal \<or> (\<exists>i \<in> set is. (fin \<or> settled i) \<and> s = issue_subject (i_ID i))"
  by (induction fin "is" terminal rule: terminal_issues.induct) (auto simp: settled_def)

lemma terminal_loop_iff:
  "s \<in> terminal_loop epics terminal \<longleftrightarrow> s \<in> terminal \<or>
     (\<exists>e \<in> set epics. epic_finished e \<and> s = epic_subject (e_ID e)) \<or>
     (\<exists>e \<in> set epics. \<exists>i \<in> set (e_Issues e). (epic_finished e \<or> settled i) \<and> s = issue_subject (i_ID i))"
proof (induction epics arbitrary: terminal)
  case Nil
  then show ?case by simp
next
  case (Cons e epics)
  show ?case
    by (simp add: Cons.IH Let_def terminal_issues_iff flip: epic_finished_def) blast
qed

lemma TerminalSubjects_iff:
  "s \<in> TerminalSubjects epics \<longleftrightarrow>
     (\<exists>e \<in> set epics. epic_finished e \<and> s = epic_subject (e_ID e)) \<or>
     (\<exists>e \<in> set epics. \<exists>i \<in> set (e_Issues e). (epic_finished e \<or> settled i) \<and> s = issue_subject (i_ID i))"
  by (simp add: TerminalSubjects_def terminal_loop_iff)

lemma eligible_pull_requests_dom:
  "s \<in> dom (eligible_pull_requests e prs subjects) \<longleftrightarrow>
     s \<in> dom subjects \<or> (\<exists>p \<in> set prs. IssueRole e p \<noteq> None \<and> s = issue_subject (p_IssueID p))"
proof (induction prs arbitrary: subjects)
  case Nil
  then show ?case by simp
next
  case (Cons p prs)
  show ?case
  proof (cases "IssueRole e p")
    case None
    then show ?thesis using Cons.IH [of subjects] by simp
  next
    case (Some role)
    have "s \<in> dom (subjects(issue_subject (p_IssueID p) \<mapsto> role)) \<longleftrightarrow>
        s = issue_subject (p_IssueID p) \<or> s \<in> dom subjects" by (simp only: dom_fun_upd) auto
    with Some show ?thesis
      unfolding eligible_pull_requests.simps Some option.case Cons.IH by (auto simp: Some)
  qed
qed

lemma eligible_loop_dom:
  "s \<in> dom (eligible_loop epics subjects) \<longleftrightarrow> s \<in> dom subjects \<or>
     (\<exists>e \<in> set epics. epicRole (e_State e) \<noteq> None \<and> s = epic_subject (e_ID e)) \<or>
     (\<exists>e \<in> set epics. \<exists>p \<in> set (e_PullRequests e). IssueRole e p \<noteq> None \<and> s = issue_subject (p_IssueID p))"
proof (induction epics arbitrary: subjects)
  case Nil
  then show ?case by simp
next
  case (Cons e epics)
  have "s \<in> dom (case epicRole (e_State e) of
        Some role \<Rightarrow> subjects(epic_subject (e_ID e) \<mapsto> role) | None \<Rightarrow> subjects) \<longleftrightarrow>
      s \<in> dom subjects \<or> (epicRole (e_State e) \<noteq> None \<and> s = epic_subject (e_ID e))"
    by (auto split: option.splits)
  then show ?case unfolding eligible_loop.simps Let_def Cons.IH eligible_pull_requests_dom by auto
qed

lemma eligibleSubjects_iff:
  "s \<in> dom (eligibleSubjects epics) \<longleftrightarrow>
     (\<exists>e \<in> set epics. epicRole (e_State e) \<noteq> None \<and> s = epic_subject (e_ID e)) \<or>
     (\<exists>e \<in> set epics. \<exists>p \<in> set (e_PullRequests e). IssueRole e p \<noteq> None \<and> s = issue_subject (p_IssueID p))"
  by (simp add: eligibleSubjects_def eligible_loop_dom)

section \<open>Finished work is never eligible\<close>

text \<open>
  What makes the two sets fit together: subjects of different epics are different, and an issue
  that is settled has no open pull request left. \<open>CloseIssue\<close> and \<open>TransitionPullRequest\<close> see to
  the second as long as an issue has one open pull request.
\<close>

definition settled_are_closed :: "Epic \<Rightarrow> bool" where
  "settled_are_closed e \<longleftrightarrow>
     (\<forall>p \<in> set (e_PullRequests e). \<forall>i \<in> set (e_Issues e).
        p_IssueID p = i_ID i \<and> settled i \<longrightarrow> p_Status p \<noteq> PullRequestOpen)"

definition separate_epics :: "Epic list \<Rightarrow> bool" where
  "separate_epics epics \<longleftrightarrow>
     (\<forall>e \<in> set epics. \<forall>f \<in> set epics. e \<noteq> f \<longrightarrow> e_ID e \<noteq> e_ID f \<and> issue_ids e \<inter> issue_ids f = {})"

lemma finished_has_no_role: "epic_finished e \<Longrightarrow> epicRole (e_State e) = None \<and> IssueRole e p = None"
  by (auto simp: epic_finished_def epicRole_def IssueRole_def)

text \<open>Nothing is both finished and next in line. In a project whose epics are well formed and
  share no ID, and whose settled issues have no open pull request, the subjects whose sandboxes
  are reclaimed at once and the subjects that get a round are disjoint; every subject with a role
  is one of its epic, and the role of an issue is the one \<open>IssueRole\<close> gives some open pull
  request of it.\<close>

theorem terminal_subjects_get_no_round:
  assumes "\<forall>e \<in> set epics. well_formed e \<and> settled_are_closed e" and "separate_epics epics"
  shows "TerminalSubjects epics \<inter> dom (eligibleSubjects epics) = {}"
proof (rule ccontr)
  assume "TerminalSubjects epics \<inter> dom (eligibleSubjects epics) \<noteq> {}"
  then obtain s where t: "s \<in> TerminalSubjects epics" and el: "s \<in> dom (eligibleSubjects epics)" by blast
  from el consider (epic) f where "f \<in> set epics" "epicRole (e_State f) \<noteq> None" "s = epic_subject (e_ID f)"
    | (issue) f p where "f \<in> set epics" "p \<in> set (e_PullRequests f)" "IssueRole f p \<noteq> None"
        "s = issue_subject (p_IssueID p)"
    unfolding eligibleSubjects_iff by blast
  then show False
  proof cases
    case epic
    with t obtain e where "e \<in> set epics" "epic_finished e" "e_ID e = e_ID f"
      unfolding TerminalSubjects_iff by auto
    moreover from this epic(1) assms(2) have "e = f" unfolding separate_epics_def by blast
    ultimately show False using epic(2) finished_has_no_role [of e undefined] by simp
  next
    case issue
    with t obtain e i where e: "e \<in> set epics" "i \<in> set (e_Issues e)" "epic_finished e \<or> settled i"
        "i_ID i = p_IssueID p"
      unfolding TerminalSubjects_iff by auto
    have "p_IssueID p \<in> issue_ids f" using assms(1) issue(1,2) by (auto simp: well_formed_def)
    moreover have "p_IssueID p \<in> issue_ids e" using e(2) unfolding issue_ids_def e(4) [symmetric] by simp
    ultimately have "e = f" using assms(2) e(1) issue(1) unfolding separate_epics_def by blast
    moreover have "p_Status p = PullRequestOpen"
      using issue(3) by (auto simp: IssueRole_def split: if_splits)
    ultimately show False
      using e assms(1) issue(1-3) finished_has_no_role unfolding settled_are_closed_def by metis
  qed
qed

lemma terminal_subjects_get_no_round_witness:
  "TerminalSubjects [example_epic] \<inter> dom (eligibleSubjects [example_epic]) = {}"
proof (rule terminal_subjects_get_no_round)
  have "settled_are_closed example_epic"
    by (auto simp: settled_are_closed_def example_epic_def example_issue_def settled_def)
  then show "\<forall>e \<in> set [example_epic]. well_formed e \<and> settled_are_closed e"
    using example_well_formed by simp
qed (simp add: separate_epics_def)

section \<open>The automatic rounds end\<close>

text \<open>
  One automatic round on a pull request: whatever role is next runs and its outcome is recorded.
  The verdicts of the reviewers are the list. \<open>None\<close> means that no role is left and the loop
  waits for a person.
\<close>

definition record_round :: "AgentRole \<Rightarrow> bool \<Rightarrow> string \<Rightarrow> string \<Rightarrow> PullRequest \<Rightarrow> PullRequest" where
  "record_round role approved head base p =
     (if role = AgentRoleMerge then RecordMergeRound p
      else if role = AgentRolePRReviewer then snd (RecordReview approved head base p)
      else snd (RecordCodingRound p))"

fun automatic_rounds :: "Epic \<Rightarrow> bool list \<Rightarrow> PullRequest \<Rightarrow> PullRequest option" where
  "automatic_rounds e [] p = Some p"
| "automatic_rounds e (approved # verdicts) p =
     (case IssueRole e p of
        None \<Rightarrow> None
      | Some role \<Rightarrow> automatic_rounds e verdicts (record_round role approved (p_Head p) (p_Base p) p))"

definition round_budget :: "PullRequest \<Rightarrow> int" where
  "round_budget p = 2 * (MaxCodingRounds + p_RoundsGranted p - p_CodingRounds p) +
     (if p_Reviews p < p_Rounds p then 1 else 0) + (if HasFlag p FlagStale then 2 else 0)"

lemma record_round_budget:
  assumes "rounds_inv p" and "IssueRole e p = Some role"
  shows "rounds_inv (record_round role approved h b p) \<and>
    round_budget (record_round role approved h b p) < round_budget p"
proof -
  let ?ev = "if role = AgentRoleMerge then MergeRound
    else if role = AgentRolePRReviewer then ReviewRound approved h b else CodingRound"
  have "round_step p ?ev = Some (record_round role approved h b p)"
    using assms(2) by (auto simp: IssueRole_def round_step_def record_round_def split: if_splits)
  from rounds_inv_step [OF assms(1) this] have inv: "rounds_inv (record_round role approved h b p)" .
  have "round_budget (record_round role approved h b p) < round_budget p"
    using assms(2)
    by (auto simp: IssueRole_def record_round_def round_budget_def round_defs SetFlag_snd HasFlag_iff
        CanCode_def split: if_splits)
  with inv show ?thesis by simp
qed

lemma round_budget_nonneg: "rounds_inv p \<Longrightarrow> 0 \<le> round_budget p"
  by (auto simp: rounds_inv_def round_budget_def)

lemma automatic_rounds_length:
  "rounds_inv p \<Longrightarrow> automatic_rounds e verdicts p = Some q \<Longrightarrow>
     int (length verdicts) \<le> round_budget p \<and> rounds_inv q"
proof (induction verdicts arbitrary: p)
  case Nil
  then show ?case by (simp add: round_budget_nonneg)
next
  case (Cons approved verdicts)
  then obtain role where role: "IssueRole e p = Some role"
    and rest: "automatic_rounds e verdicts (record_round role approved (p_Head p) (p_Base p) p) = Some q"
    by (auto split: option.splits)
  let ?p = "record_round role approved (p_Head p) (p_Base p) p"
  from record_round_budget [OF Cons.prems(1) role]
  have "rounds_inv ?p" "round_budget ?p < round_budget p" by auto
  with Cons.IH [OF _ rest] show ?case by simp
qed

text \<open>The agents' argument over a pull request ends by itself. From a fresh pull request, whatever
  the reviewers decide, at most 20 rounds run without a person (ten coding rounds and a review after
  each): then no role is next, because the branch is approved, out of coding rounds,
  or waiting. From any later point it is two rounds per coding round left, plus a pending review
  and a stale branch's merge.\<close>

theorem automatic_rounds_end:
  assumes "rounds_inv p" and "automatic_rounds e verdicts p = Some q"
  shows "int (length verdicts) \<le> round_budget p \<and> rounds_inv q \<and>
    (p_Rounds p = 0 \<and> p_RoundsGranted p = 0 \<and> p_Flags p = [] \<longrightarrow> length verdicts \<le> 20)"
proof -
  have len: "int (length verdicts) \<le> round_budget p" and inv: "rounds_inv q"
    using automatic_rounds_length [OF assms] by simp_all
  have "length verdicts \<le> 20" if z: "p_Rounds p = 0" "p_RoundsGranted p = 0" "p_Flags p = []"
  proof -
    have "round_budget p \<le> 20"
      using z assms(1) by (auto simp: round_budget_def rounds_inv_def counts_ok_def HasFlag_iff MaxCodingRounds_def)
    with len show ?thesis by simp
  qed
  with len inv show ?thesis by blast
qed

lemma automatic_rounds_end_witness:
  "\<exists>p q. rounds_inv p \<and> automatic_rounds (example_epic\<lparr>e_Issues := []\<rparr>) [True, True] p = Some q \<and>
     int (length [True, True]) \<le> round_budget p"
proof -
  let ?e = "example_epic\<lparr>e_Issues := []\<rparr>"
  define p where "p = \<lparr>p_ID = ''P'', p_IssueID = ''I'', p_Title = ''T'', p_Status = PullRequestOpen,
    p_Repository = ''r'', p_Number = 0, p_URL = [], p_Head = [], p_Base = [], p_Flags = [],
    p_ReviewedHead = [], p_ReviewedBase = [], p_Rounds = 0, p_Reviews = 0, p_RoundsGranted = 0,
    p_CodingRounds = 0, p_Approved = False, p_CreatedAt = 1, p_Comments = []\<rparr>"
  have inv: "rounds_inv p" by (simp add: p_def rounds_inv_def counts_ok_def MaxCodingRounds_def HasFlag_def)
  have "Blocked ?e x = False" for x by (simp add: Blocked_def FindIssue_def find_by_def)
  then obtain q where "automatic_rounds ?e [True, True] p = Some q"
    by (simp add: p_def IssueRole_def example_epic_def HasFlag_def CanCode_def MaxCodingRounds_def
        record_round_def round_defs SetFlag_snd)
  with automatic_rounds_end [OF inv this] inv show ?thesis by blast
qed

end
