(* ===== verification/Scheduler.thy ===== *)
theory Scheduler
  imports Round_Roles Sandbox_Specs "HOL-Library.Word" "HOL-Library.Multiset"
begin

text \<open>
  \<open>usecases/epic_worker.go\<close>: the scheduler. Its fields are owned by the goroutine of \<open>Run\<close>; a
  round is a goroutine of its own that reports back over the channel \<open>results\<close>. The model of a
  worker therefore has the fields of \<open>EpicWorker\<close> and, beside them, the goroutines: the rounds
  executing and the results waiting to be sent. Times and durations are nanoseconds; the back-off
  is computed on a 64 bit word, as \<open>time.Duration\<close> is. The use cases a tick calls are the ports of
  \<open>worker_ports\<close>.
\<close>

section \<open>The worker\<close>

record Project =
  pj_ID :: nat
  pj_Name :: string

record subjectKey =
  k_project :: nat
  k_subject :: AgentSubject

record roundResult =
  rr_key :: subjectKey
  rr_epicID :: string
  rr_err :: "go_error option"

record retry =
  rt_failures :: int
  rt_until :: int
  rt_hostFailures :: int

text \<open>The round a goroutine runs: the closure \<open>Tick\<close> hands to \<open>dispatch\<close>.\<close>

datatype round_job =
    EpicRound Project string SandboxSpec
  | IssueRound Project string string SandboxSpec

record executing_round =
  x_key :: subjectKey
  x_epicID :: string
  x_job :: round_job

record EpicWorker =
  wk_lastSweep :: "int option"
  wk_recovered :: bool
  wk_failures :: "subjectKey \<rightharpoonup> string"
  wk_inflight :: "subjectKey \<rightharpoonup> string"
  wk_retries :: "subjectKey \<rightharpoonup> retry"
  wk_results :: "roundResult list"
  wk_rounds :: nat
  wk_executing :: "executing_round list"
  wk_sending :: "roundResult list"

definition approvedBranchSweepInterval :: int where
  "approvedBranchSweepInterval = 60 * 10 ^ 9"

definition retryBase :: "64 word" where
  "retryBase = 15000000000"

definition retryCap :: int where
  "retryCap = 3600 * 10 ^ 9"

definition hostFailureBreaker :: int where
  "hostFailureBreaker = 5"

definition breakerCooldown :: int where
  "breakerCooldown = 6 * 3600 * 10 ^ 9"

definition maxConcurrentRounds :: nat where
  "maxConcurrentRounds = 8"

definition NewEpicWorker :: EpicWorker where
  "NewEpicWorker =
     \<lparr>wk_lastSweep = None, wk_recovered = False, wk_failures = Map.empty, wk_inflight = Map.empty,
      wk_retries = Map.empty, wk_results = [], wk_rounds = 0, wk_executing = [], wk_sending = []\<rparr>"

section \<open>Booking a finished round\<close>

text \<open>\<open>retryBase << (failures - 1)\<close>, capped; a count of 64 or more shifts everything out.\<close>

definition retry_delay :: "int \<Rightarrow> int" where
  "retry_delay failures =
     (let delay = sint (push_bit (nat (failures - 1)) retryBase)
      in if delay \<le> 0 \<or> retryCap < delay then retryCap else delay)"

definition held_retry :: "EpicWorker \<Rightarrow> subjectKey \<Rightarrow> retry" where
  "held_retry w key =
     (case wk_retries w key of
        None \<Rightarrow> \<lparr>rt_failures = 0, rt_until = 0, rt_hostFailures = 0\<rparr> | Some r \<Rightarrow> r)"

definition record_result :: "int \<Rightarrow> roundResult \<Rightarrow> EpicWorker \<Rightarrow> EpicWorker" where
  "record_result now result w =
     (let key = rr_key result;
          w = w\<lparr>wk_inflight := (wk_inflight w)(key := None)\<rparr>
      in case rr_err result of
           None \<Rightarrow> w\<lparr>wk_retries := (wk_retries w)(key := None)\<rparr>
         | Some err \<Rightarrow>
             (let held = held_retry w key;
                  held = held\<lparr>rt_failures := rt_failures held + 1\<rparr>;
                  delay = retry_delay (rt_failures held);
                  (held, delay) =
                    (if errors_is err ErrHostFailure
                     then let held = held\<lparr>rt_hostFailures := rt_hostFailures held + 1\<rparr>
                          in (held, if hostFailureBreaker \<le> rt_hostFailures held then breakerCooldown else delay)
                     else (held\<lparr>rt_hostFailures := 0\<rparr>, delay));
                  held = held\<lparr>rt_until := now + delay\<rparr>
              in w\<lparr>wk_retries := (wk_retries w)(key \<mapsto> held)\<rparr>))"

text \<open>What \<open>report\<close> was called with is returned as a list.\<close>

definition reportSubject ::
    "(go_error \<Rightarrow> string) \<Rightarrow> subjectKey \<Rightarrow> go_error option \<Rightarrow> EpicWorker \<Rightarrow> go_error list \<times> EpicWorker" where
  "reportSubject error_text key err w =
     (case err of
        None \<Rightarrow> ([], w\<lparr>wk_failures := (wk_failures w)(key := None)\<rparr>)
      | Some e \<Rightarrow>
          if (case wk_failures w key of None \<Rightarrow> [] | Some m \<Rightarrow> m) = error_text e then ([], w)
          else ([e], w\<lparr>wk_failures := (wk_failures w)(key \<mapsto> error_text e)\<rparr>))"

definition zero_key :: subjectKey where
  "zero_key = \<lparr>k_project = 0, k_subject = \<lparr>s_Kind = AgentSubjectOther [], s_ID = []\<rparr>\<rparr>"

definition reportChanged ::
    "(go_error \<Rightarrow> string) \<Rightarrow> go_error option \<Rightarrow> EpicWorker \<Rightarrow> go_error list \<times> EpicWorker" where
  "reportChanged error_text err w = reportSubject error_text zero_key err w"

definition finish ::
    "(go_error \<Rightarrow> string) \<Rightarrow> int \<Rightarrow> roundResult \<Rightarrow> EpicWorker \<Rightarrow> go_error list \<times> EpicWorker" where
  "finish error_text now result w =
     (let w = record_result now result w;
          err = (if rt_hostFailures (held_retry w (rr_key result)) = hostFailureBreaker
                 then Some (Wrapf ''the host failed to run this subject %d times running; holding it for %s: %w''
                        [GInt hostFailureBreaker, GInt breakerCooldown]
                        (case rr_err result of None \<Rightarrow> [] | Some e \<Rightarrow> [e]))
                 else rr_err result)
      in reportSubject error_text (rr_key result) err w)"

section \<open>Dispatching\<close>

definition dispatch ::
    "int \<Rightarrow> nat \<Rightarrow> string \<Rightarrow> AgentSubject \<Rightarrow> round_job \<Rightarrow> EpicWorker \<Rightarrow> EpicWorker" where
  "dispatch now projectID epicID subject job w =
     (let key = \<lparr>k_project = projectID, k_subject = subject\<rparr>
      in if wk_inflight w key \<noteq> None then w
         else if (case wk_retries w key of None \<Rightarrow> False | Some held \<Rightarrow> now < rt_until held) then w
         else if maxConcurrentRounds \<le> wk_rounds w then w
         else w\<lparr>wk_rounds := wk_rounds w + 1,
                wk_inflight := (wk_inflight w)(key \<mapsto> epicID),
                wk_executing := wk_executing w @ [\<lparr>x_key = key, x_epicID = epicID, x_job = job\<rparr>]\<rparr>)"

definition inflightSubjects :: "nat \<Rightarrow> EpicWorker \<Rightarrow> AgentSubject set" where
  "inflightSubjects projectID w = {k_subject key |key. key \<in> dom (wk_inflight w) \<and> k_project key = projectID}"

definition inflightEpics :: "nat \<Rightarrow> EpicWorker \<Rightarrow> string set" where
  "inflightEpics projectID w = {epicID. \<exists>key. wk_inflight w key = Some epicID \<and> k_project key = projectID}"

definition dueForSweep :: "int \<Rightarrow> EpicWorker \<Rightarrow> bool \<times> EpicWorker" where
  "dueForSweep now w =
     (case wk_lastSweep w of
        None \<Rightarrow> (True, w\<lparr>wk_lastSweep := Some now\<rparr>)
      | Some swept \<Rightarrow>
          if now - swept < approvedBranchSweepInterval then (False, w)
          else (True, w\<lparr>wk_lastSweep := Some now\<rparr>))"

section \<open>Back-off\<close>

lemma retry_delay_small:
  "list_all (\<lambda>k. retry_delay (int k + 1) = (if k \<le> 7 then 15000000000 * 2 ^ k else retryCap)) [0..<55]"
  by (simp add: retry_delay_def retryBase_def push_bit_eq_mult retryCap_def upt_rec)

lemma retry_delay_large: "55 \<le> k \<Longrightarrow> retry_delay (int k + 1) = retryCap"
proof -
  assume k: "55 \<le> k"
  have e: "retryBase = push_bit 9 29296875" by (simp add: retryBase_def push_bit_eq_mult)
  have "push_bit k retryBase = push_bit (k + 9) 29296875"
    unfolding e by (rule push_bit_push_bit)
  also have "\<dots> = 0" using k by (intro bit_eqI) (simp add: bit_push_bit_iff)
  finally show ?thesis by (simp add: retry_delay_def)
qed

lemma retry_delay_eq:
  assumes "0 < failures"
  shows "retry_delay failures = min (15000000000 * 2 ^ nat (failures - 1)) retryCap"
proof -
  define k where "k = nat (failures - 1)"
  have f: "failures = int k + 1" using assms by (simp add: k_def)
  have big: "retryCap \<le> 15000000000 * 2 ^ k" if "7 < k"
  proof -
    have "(2 :: int) ^ 8 \<le> 2 ^ k" using that by (intro power_increasing) auto
    then show ?thesis by (simp add: retryCap_def)
  qed
  have small: "15000000000 * 2 ^ k \<le> retryCap" if "k \<le> 7"
  proof -
    have "(2 :: int) ^ k \<le> 2 ^ 7" using that by (intro power_increasing) auto
    then show ?thesis by (simp add: retryCap_def)
  qed
  show ?thesis
  proof (cases "k < 55")
    case True
    then have "retry_delay failures = (if k \<le> 7 then 15000000000 * 2 ^ k else retryCap)"
      using retry_delay_small unfolding f by (simp add: list_all_iff)
    then show ?thesis using big small by (auto simp: min_def f)
  next
    case False
    then have "7 < k" by simp
    from big [OF this] show ?thesis
      using False retry_delay_large [of k] unfolding f by (simp add: min_def)
  qed
qed

lemma retry_delay_bounds: "0 < failures \<Longrightarrow> 0 < retry_delay failures \<and> retry_delay failures \<le> retryCap"
  by (simp add: retry_delay_eq retryCap_def)

definition failed_for :: "subjectKey \<Rightarrow> bool \<Rightarrow> roundResult \<Rightarrow> bool" where
  "failed_for key host result \<longleftrightarrow> rr_key result = key \<and>
     (\<exists>err. rr_err result = Some err \<and> errors_is err ErrHostFailure = host)"

lemma record_failure:
  assumes "failed_for key host result"
  shows "held_retry (record_result now result w) key =
    (let held = held_retry w key;
         host_failures = (if host then rt_hostFailures held + 1 else 0)
     in \<lparr>rt_failures = rt_failures held + 1,
         rt_until = now + (if host \<and> hostFailureBreaker \<le> host_failures then breakerCooldown
                           else retry_delay (rt_failures held + 1)),
         rt_hostFailures = host_failures\<rparr>)"
  using assms by (auto simp: failed_for_def record_result_def held_retry_def Let_def)

lemma record_failures_held:
  assumes "results \<noteq> []" and "\<forall>r \<in> set results. failed_for key host r"
  shows "held_retry (fold (record_result now) results w) key =
    (let n = int (length results); held = held_retry w key;
         host_failures = (if host then rt_hostFailures held + n else 0)
     in \<lparr>rt_failures = rt_failures held + n,
         rt_until = now + (if host \<and> hostFailureBreaker \<le> host_failures then breakerCooldown
                           else retry_delay (rt_failures held + n)),
         rt_hostFailures = host_failures\<rparr>)"
  using assms
proof (induction results rule: rev_induct)
  case Nil
  then show ?case by simp
next
  case (snoc r results)
  have r: "failed_for key host r" using snoc.prems by simp
  show ?case
  proof (cases "results = []")
    case True
    with record_failure [OF r, of now w] show ?thesis by (simp add: Let_def)
  next
    case False
    with snoc have "held_retry (fold (record_result now) results w) key =
      (let n = int (length results); held = held_retry w key;
         host_failures = (if host then rt_hostFailures held + n else 0)
     in \<lparr>rt_failures = rt_failures held + n,
         rt_until = now + (if host \<and> hostFailureBreaker \<le> host_failures then breakerCooldown
                           else retry_delay (rt_failures held + n)),
         rt_hostFailures = host_failures\<rparr>)" by simp
    with record_failure [OF r, of now "fold (record_result now) results w"] show ?thesis
      by (simp add: Let_def algebra_simps)
  qed
qed

text \<open>C39. A failing subject backs off to an hour, exactly. After \<open>n\<close> failures in a row that are not
  marked host failures, a subject without a record may run again \<open>min (15 * 2 ^ (n - 1), 3600)\<close>
  seconds after the last one: the 64 bit shift of the code never wraps to a shorter wait, however
  many failures there are. A success clears the record, and until the hold ends \<open>dispatch\<close> leaves
  the worker as it is.\<close>

theorem backoff_doubles_to_the_cap:
  assumes "results \<noteq> []" and "\<forall>r \<in> set results. failed_for key False r" and "wk_retries w key = None"
  shows "let w' = fold (record_result now) results w;
             hold = min (15 * 10 ^ 9 * 2 ^ (length results - 1)) (3600 * 10 ^ 9)
    in held_retry w' key =
         \<lparr>rt_failures = int (length results), rt_until = now + hold, rt_hostFailures = 0\<rparr> \<and>
       (later < now + hold \<longrightarrow> dispatch later (k_project key) epicID (k_subject key) job w' = w') \<and>
       wk_retries (record_result now \<lparr>rr_key = key, rr_epicID = epicID, rr_err = None\<rparr> w') key = None"
proof -
  define w' where "w' = fold (record_result now) results w"
  define hold :: int where "hold = min (15 * 10 ^ 9 * 2 ^ (length results - 1)) (3600 * 10 ^ 9)"
  have n: "0 < int (length results)" using assms(1) by simp
  have "nat (int (length results) - 1) = length results - 1" by simp
  then have hold: "retry_delay (int (length results)) = hold"
    using retry_delay_eq [OF n] by (simp add: hold_def retryCap_def)
  have held: "held_retry w' key =
      \<lparr>rt_failures = int (length results), rt_until = now + hold, rt_hostFailures = 0\<rparr>"
    unfolding w'_def record_failures_held [OF assms(1,2)] using assms(3) hold
    by (simp add: held_retry_def Let_def)
  then have "wk_retries w' key = Some
      \<lparr>rt_failures = int (length results), rt_until = now + hold, rt_hostFailures = 0\<rparr>"
    using n by (auto simp: held_retry_def split: option.splits)
  moreover have eta: "\<lparr>k_project = k_project key, k_subject = k_subject key\<rparr> = key" by simp
  ultimately have "later < now + hold \<Longrightarrow>
      dispatch later (k_project key) epicID (k_subject key) job w' = w'"
    unfolding dispatch_def Let_def eta by simp
  with held show ?thesis
    unfolding Let_def w'_def [symmetric] hold_def [symmetric] by (simp add: record_result_def Let_def)
qed

lemma backoff_doubles_to_the_cap_witness:
  "rt_until (held_retry (fold (record_result 7)
      (replicate 100 \<lparr>rr_key = zero_key, rr_epicID = ''e'', rr_err = Some (Sentinel ''exit 1'')\<rparr>)
      NewEpicWorker) zero_key) = 7 + 3600 * 10 ^ 9"
proof -
  let ?rs = "replicate 100 \<lparr>rr_key = zero_key, rr_epicID = ''e'', rr_err = Some (Sentinel ''exit 1'')\<rparr>"
  have "\<forall>r \<in> set ?rs. failed_for zero_key False r" by (simp add: failed_for_def ErrHostFailure_def)
  from backoff_doubles_to_the_cap [of ?rs, OF _ this, of NewEpicWorker 7] show ?thesis
    by (simp add: NewEpicWorker_def Let_def)
qed

text \<open>The breaker works on marked errors. Five marked host failures in a row, and every one after
  them, hold a subject for six hours; one round that reached the agent, right or wrong, closes the
  breaker again.\<close>

theorem breaker_trips_on_marked_failures:
  assumes "results \<noteq> []" and "\<forall>r \<in> set results. failed_for key True r"
    and "rt_hostFailures (held_retry w key) = 0" and "rr_key after = key"
    and "\<forall>err. rr_err after = Some err \<longrightarrow> \<not> errors_is err ErrHostFailure"
  shows "let w' = fold (record_result now) results w
    in rt_hostFailures (held_retry w' key) = int (length results) \<and>
       (5 \<le> length results \<longrightarrow> rt_until (held_retry w' key) = now + 6 * 3600 * 10 ^ 9) \<and>
       rt_hostFailures (held_retry (record_result later after w') key) = 0"
proof -
  let ?w = "fold (record_result now) results w"
  have "rt_hostFailures (held_retry (record_result later after ?w) key) = 0"
    using assms(4,5) by (auto simp: record_result_def held_retry_def Let_def split: option.splits)
  then show ?thesis
    using record_failures_held [OF assms(1,2), of now w] assms(3)
    by (simp add: Let_def hostFailureBreaker_def breakerCooldown_def)
qed

lemma breaker_trips_on_marked_failures_witness:
  "rt_until (held_retry (fold (record_result 0)
      (replicate 5 \<lparr>rr_key = zero_key, rr_epicID = ''e'', rr_err = Some (Sentinel ErrHostFailure)\<rparr>)
      NewEpicWorker) zero_key) = 6 * 3600 * 10 ^ 9"
proof -
  let ?r = "\<lparr>rr_key = zero_key, rr_epicID = ''e'', rr_err = Some (Sentinel ErrHostFailure)\<rparr>"
  have "\<forall>r \<in> set (replicate 5 ?r). failed_for zero_key True r" by (simp add: failed_for_def)
  from breaker_trips_on_marked_failures [of "replicate 5 ?r", OF _ this, of NewEpicWorker
      "?r\<lparr>rr_err := None\<rparr>" 0]
  show ?thesis by (simp add: NewEpicWorker_def held_retry_def Let_def)
qed

text \<open>Yet a round never sets the mark, so the breaker never trips. Whatever way the host fails a
  live round, and however its caller wraps the error, booking it leaves the subject's count of host
  failures at zero and lets it retry within the hour, as an ordinary failure.\<close>

theorem host_failures_never_reach_the_breaker:
  assumes "isLiveAgentRunStatus (r_Status run)" and "Now P = (\<lambda>w. (clock w, w))"
    and "\<not> errors_is cause ErrHostFailure"
    and "\<And>r v e v'. SaveAgentRun P r v = (Some e, v') \<Longrightarrow> \<not> errors_is e ErrHostFailure"
    and "fst (hostFailed P run cause v) = Some err" and "0 \<le> rt_failures (held_retry w key)"
  shows "let result = \<lparr>rr_key = key, rr_epicID = epicID, rr_err = Some (Wrapf f args [err])\<rparr>;
             held = held_retry (record_result now result w) key
    in rt_hostFailures held = 0 \<and> rt_until held \<le> now + retryCap"
proof -
  have "\<not> errors_is err ErrHostFailure"
    using hostFailed_unmarked [OF assms(1-4), where w = v] assms(5) by simp
  then have "failed_for key False \<lparr>rr_key = key, rr_epicID = epicID, rr_err = Some (Wrapf f args [err])\<rparr>"
    by (simp add: failed_for_def)
  from record_failure [OF this, of now w] retry_delay_bounds [of "rt_failures (held_retry w key) + 1"]
  show ?thesis using assms(6) by (simp add: Let_def)
qed

lemma host_failures_never_reach_the_breaker_witness:
  "\<exists>err. fst (hostFailed (log_ports None quiet_outcome) example_run (Sentinel ''no disk'') log_world) = Some err \<and>
     rt_hostFailures (held_retry (record_result 0
       \<lparr>rr_key = zero_key, rr_epicID = ''e'', rr_err = Some (Wrapf ''advance epic %q: %w'' [GStr ''e''] [err])\<rparr>
       NewEpicWorker) zero_key) = 0"
proof -
  let ?P = "log_ports None quiet_outcome"
  obtain err where err: "fst (hostFailed ?P example_run (Sentinel ''no disk'') log_world) = Some err"
    using hostFailed_error by blast
  from host_failures_never_reach_the_breaker [of example_run ?P "\<lambda>w. int (length (l_runs (w_ext w)))"
      "Sentinel ''no disk''" log_world err NewEpicWorker zero_key "''e''" "''advance epic %q: %w''"
      "[GStr ''e'']" 0] err
  show ?thesis
    by (auto simp: example_run_def isLiveAgentRunStatus_def log_ports_def ErrHostFailure_def Let_def
        NewEpicWorker_def held_retry_def)
qed

section \<open>Interleavings of the scheduler and its rounds\<close>

text \<open>
  The goroutine of \<open>dispatch\<close>: the round returns (a panic is an error too) and gives its place
  back; then its result is sent, as soon as the buffered channel has room, or dropped once the
  context is done. \<open>Run\<close> receives a result and finishes it; a tick that drains the channel only
  books it.
\<close>

definition round_returns :: "nat \<Rightarrow> go_error option \<Rightarrow> EpicWorker \<Rightarrow> EpicWorker" where
  "round_returns i err w =
     (let x = wk_executing w ! i
      in w\<lparr>wk_executing := take i (wk_executing w) @ drop (Suc i) (wk_executing w),
           wk_rounds := wk_rounds w - 1,
           wk_sending := wk_sending w @ [\<lparr>rr_key = x_key x, rr_epicID = x_epicID x, rr_err = err\<rparr>]\<rparr>)"

definition without_sending :: "nat \<Rightarrow> EpicWorker \<Rightarrow> EpicWorker" where
  "without_sending i w = w\<lparr>wk_sending := take i (wk_sending w) @ drop (Suc i) (wk_sending w)\<rparr>"

definition round_sends :: "nat \<Rightarrow> EpicWorker \<Rightarrow> EpicWorker" where
  "round_sends i w = (without_sending i w)\<lparr>wk_results := wk_results w @ [wk_sending w ! i]\<rparr>"

inductive worker_step :: "bool \<Rightarrow> EpicWorker \<Rightarrow> EpicWorker \<Rightarrow> bool" for stopping :: bool where
  Dispatches: "worker_step stopping w (dispatch now projectID epicID subject job w)"
| Returns: "i < length (wk_executing w) \<Longrightarrow> worker_step stopping w (round_returns i err w)"
| Sends: "i < length (wk_sending w) \<Longrightarrow> length (wk_results w) < maxConcurrentRounds \<Longrightarrow>
    worker_step stopping w (round_sends i w)"
| Drops: "stopping \<Longrightarrow> i < length (wk_sending w) \<Longrightarrow> worker_step stopping w (without_sending i w)"
| Receives: "wk_results w = result # rest \<Longrightarrow>
    worker_step stopping w (snd (finish error_text now result (w\<lparr>wk_results := rest\<rparr>)))"
| Books: "wk_results w = result # rest \<Longrightarrow>
    worker_step stopping w (record_result now result (w\<lparr>wk_results := rest\<rparr>))"
| Reports: "worker_step stopping w (snd (reportSubject error_text key err w))"
| Sweeps: "worker_step stopping w (snd (dueForSweep now w))"
| Recovers: "worker_step stopping w (w\<lparr>wk_recovered := True\<rparr>)"

inductive_cases worker_stepE: "worker_step stopping w w'"

text \<open>A subject with a round somewhere between its dispatch and the booking of its result.\<close>

definition live_rounds :: "EpicWorker \<Rightarrow> (subjectKey \<times> string) list" where
  "live_rounds w = map (\<lambda>x. (x_key x, x_epicID x)) (wk_executing w) @
     map (\<lambda>r. (rr_key r, rr_epicID r)) (wk_sending w @ wk_results w)"

definition scheduler_inv :: "bool \<Rightarrow> EpicWorker \<Rightarrow> bool" where
  "scheduler_inv stopping w \<longleftrightarrow>
     distinct (map fst (live_rounds w)) \<and>
     (\<forall>(key, epicID) \<in> set (live_rounds w). wk_inflight w key = Some epicID) \<and>
     wk_rounds w = length (wk_executing w) \<and> wk_rounds w \<le> maxConcurrentRounds \<and>
     length (wk_results w) \<le> maxConcurrentRounds \<and>
     (\<not> stopping \<longrightarrow> dom (wk_inflight w) = fst ` set (live_rounds w))"

lemma live_rounds_perm:
  assumes "mset (live_rounds w') = mset (live_rounds w)" and "wk_inflight w' = wk_inflight w"
    and "wk_rounds w' = length (wk_executing w')" and "wk_rounds w' \<le> maxConcurrentRounds"
    and "length (wk_results w') \<le> maxConcurrentRounds" and "scheduler_inv stopping w"
  shows "scheduler_inv stopping w'"
proof -
  have "set (live_rounds w') = set (live_rounds w)" using assms(1) by (rule mset_eq_setD)
  moreover have "distinct (map fst (live_rounds w')) \<longleftrightarrow> distinct (map fst (live_rounds w))"
    using assms(1) by (metis mset_eq_imp_distinct_iff mset_map)
  ultimately show ?thesis using assms(2-6) by (simp add: scheduler_inv_def)
qed

lemma nth_split: "i < length xs \<Longrightarrow> xs = take i xs @ xs ! i # drop (Suc i) xs"
  by (rule id_take_nth_drop)

lemma record_result_fields:
  "wk_executing (record_result now r w) = wk_executing w \<and>
   wk_sending (record_result now r w) = wk_sending w \<and> wk_results (record_result now r w) = wk_results w \<and>
   wk_rounds (record_result now r w) = wk_rounds w \<and>
   wk_inflight (record_result now r w) = (wk_inflight w)(rr_key r := None)"
  by (auto simp: record_result_def Let_def split: option.split prod.split)

lemma reportSubject_fields:
  "\<exists>m. snd (reportSubject error_text key err w) = w\<lparr>wk_failures := m\<rparr>"
proof -
  have "\<exists>m. w = w\<lparr>wk_failures := m\<rparr>" by (rule exI [of _ "wk_failures w"]) simp
  moreover have "\<exists>m. w\<lparr>wk_failures := f\<rparr> = w\<lparr>wk_failures := m\<rparr>" for f by blast
  ultimately show ?thesis
    unfolding reportSubject_def by (cases err) (simp_all only: option.case snd_conv split: if_split, simp_all)
qed

lemma scheduler_inv_fields:
  "scheduler_inv stopping (w\<lparr>wk_failures := m\<rparr>) = scheduler_inv stopping w"
  "scheduler_inv stopping (w\<lparr>wk_recovered := b\<rparr>) = scheduler_inv stopping w"
  "scheduler_inv stopping (w\<lparr>wk_lastSweep := t\<rparr>) = scheduler_inv stopping w"
  by (simp_all add: scheduler_inv_def live_rounds_def)

lemma live_rounds_remove:
  assumes inv: "scheduler_inv stopping w" and lr: "live_rounds w = us @ (k, e) # vs"
    and lr': "live_rounds w' = us @ vs"
    and infl: "wk_inflight w' = (wk_inflight w)(k := None) \<or> stopping \<and> wk_inflight w' = wk_inflight w"
    and rest: "wk_rounds w' = length (wk_executing w')" "wk_rounds w' \<le> maxConcurrentRounds"
      "length (wk_results w') \<le> maxConcurrentRounds"
  shows "scheduler_inv stopping w'"
proof -
  have d: "distinct (map fst (us @ (k, e) # vs))" using inv lr by (simp add: scheduler_inv_def)
  then have k: "k \<notin> fst ` set (us @ vs)" by auto
  have all: "\<forall>(key, epicID) \<in> set (us @ vs). wk_inflight w key = Some epicID"
    using inv lr by (auto simp: scheduler_inv_def)
  have all': "\<forall>(key, epicID) \<in> set (us @ vs). wk_inflight w' key = Some epicID"
  proof (clarify)
    fix key epicID assume m: "(key, epicID) \<in> set (us @ vs)"
    then have "key \<noteq> k" using k by (metis fst_conv imageI)
    with m all infl show "wk_inflight w' key = Some epicID" by fastforce
  qed
  have "dom (wk_inflight w') = fst ` set (us @ vs)" if "\<not> stopping"
  proof -
    have "dom (wk_inflight w) = fst ` set (us @ (k, e) # vs)"
      using that inv lr by (simp add: scheduler_inv_def)
    moreover have "dom (wk_inflight w') = dom (wk_inflight w) - {k}" using that infl by simp
    ultimately show ?thesis using k by auto
  qed
  with d all' rest show ?thesis unfolding scheduler_inv_def lr' by simp
qed

lemma scheduler_inv_dispatch:
  assumes "scheduler_inv stopping w"
  shows "scheduler_inv stopping (dispatch now projectID epicID subject job w)"
proof (cases "dispatch now projectID epicID subject job w = w")
  case False
  define key where "key = \<lparr>k_project = projectID, k_subject = subject\<rparr>"
  define w' where "w' = w\<lparr>wk_rounds := wk_rounds w + 1, wk_inflight := (wk_inflight w)(key \<mapsto> epicID),
      wk_executing := wk_executing w @ [\<lparr>x_key = key, x_epicID = epicID, x_job = job\<rparr>]\<rparr>"
  have eq: "dispatch now projectID epicID subject job w = w'" and free: "wk_inflight w key = None"
    and room: "wk_rounds w < maxConcurrentRounds"
    using False by (auto simp: dispatch_def Let_def w'_def key_def split: if_splits)
  have lr: "mset (live_rounds w') = add_mset (key, epicID) (mset (live_rounds w))"
    by (simp add: live_rounds_def w'_def)
  have set_eq: "set (live_rounds w') = insert (key, epicID) (set (live_rounds w))"
    using arg_cong [OF lr, of set_mset] by simp
  have new: "key \<notin> fst ` set (live_rounds w)"
    using assms free by (force simp: scheduler_inv_def)
  have "mset (map fst (live_rounds w')) = add_mset key (mset (map fst (live_rounds w)))"
    unfolding mset_map lr by simp
  then have "distinct (map fst (live_rounds w'))"
    using assms new mset_eq_imp_distinct_iff [of "map fst (live_rounds w')" "key # map fst (live_rounds w)"]
    by (simp add: scheduler_inv_def)
  moreover have "\<forall>(k, e) \<in> set (live_rounds w'). wk_inflight w' k = Some e"
    using assms new unfolding set_eq by (force simp: scheduler_inv_def w'_def)
  moreover have "\<not> stopping \<longrightarrow> dom (wk_inflight w') = fst ` set (live_rounds w')"
    using assms unfolding set_eq by (simp add: scheduler_inv_def w'_def)
  ultimately show ?thesis
    using assms room unfolding eq by (simp add: scheduler_inv_def w'_def)
qed (simp add: assms)

lemma scheduler_inv_booked:
  assumes "scheduler_inv stopping w" and "wk_results w = r # rest"
  shows "scheduler_inv stopping (record_result now r (w\<lparr>wk_results := rest\<rparr>))"
proof (rule live_rounds_remove [OF assms(1)])
  show "live_rounds w = (map (\<lambda>x. (x_key x, x_epicID x)) (wk_executing w) @
      map (\<lambda>r. (rr_key r, rr_epicID r)) (wk_sending w)) @ (rr_key r, rr_epicID r) #
      map (\<lambda>r. (rr_key r, rr_epicID r)) rest" by (simp add: live_rounds_def assms(2))
qed (use assms in \<open>auto simp: live_rounds_def record_result_fields scheduler_inv_def\<close>)

lemma scheduler_inv_step:
  assumes "worker_step stopping w w'" and "scheduler_inv stopping w"
  shows "scheduler_inv stopping w'"
  using assms
proof (cases rule: worker_step.cases)
  case (Returns i err)
  let ?x = "wk_executing w ! i"
  have split: "wk_executing w = take i (wk_executing w) @ ?x # drop (Suc i) (wk_executing w)"
    using Returns(2) by (rule nth_split)
  have "mset (wk_executing w) = add_mset ?x (mset (take i (wk_executing w) @ drop (Suc i) (wk_executing w)))"
    by (subst split) simp
  then have lr: "mset (live_rounds w') = mset (live_rounds w)"
    unfolding Returns(1) by (simp add: live_rounds_def round_returns_def Let_def)
  have len: "length (take i (wk_executing w) @ drop (Suc i) (wk_executing w)) = length (wk_executing w) - 1"
    using Returns(2) by simp
  show ?thesis
  proof (rule live_rounds_perm [OF lr _ _ _ _ assms(2)])
    show "wk_rounds w' = length (wk_executing w')" "wk_rounds w' \<le> maxConcurrentRounds"
      "length (wk_results w') \<le> maxConcurrentRounds"
      using assms(2) len unfolding Returns(1) round_returns_def Let_def scheduler_inv_def by auto
  qed (simp add: Returns(1) round_returns_def Let_def)
next
  case (Sends i)
  have "wk_sending w = take i (wk_sending w) @ wk_sending w ! i # drop (Suc i) (wk_sending w)"
    using Sends(2) by (rule nth_split)
  then have "mset (wk_sending w) =
      add_mset (wk_sending w ! i) (mset (take i (wk_sending w) @ drop (Suc i) (wk_sending w)))"
    by (metis mset_append mset.simps(2) union_mset_add_mset_right)
  then have lr: "mset (live_rounds w') = mset (live_rounds w)"
    unfolding Sends(1) by (simp add: live_rounds_def round_sends_def without_sending_def)
  show ?thesis
  proof (rule live_rounds_perm [OF lr _ _ _ _ assms(2)])
    show "wk_rounds w' = length (wk_executing w')" "wk_rounds w' \<le> maxConcurrentRounds"
      "length (wk_results w') \<le> maxConcurrentRounds"
      using assms(2) Sends(3) unfolding Sends(1) round_sends_def without_sending_def scheduler_inv_def
      by simp_all
  qed (simp add: Sends(1) round_sends_def without_sending_def)
next
  case (Drops i)
  let ?r = "wk_sending w ! i"
  have split: "wk_sending w = take i (wk_sending w) @ ?r # drop (Suc i) (wk_sending w)"
    using Drops(3) by (rule nth_split)
  show ?thesis
  proof (rule live_rounds_remove [OF assms(2)])
    show "live_rounds w = (map (\<lambda>x. (x_key x, x_epicID x)) (wk_executing w) @
        map (\<lambda>r. (rr_key r, rr_epicID r)) (take i (wk_sending w))) @ (rr_key ?r, rr_epicID ?r) #
        (map (\<lambda>r. (rr_key r, rr_epicID r)) (drop (Suc i) (wk_sending w)) @
         map (\<lambda>r. (rr_key r, rr_epicID r)) (wk_results w))"
      unfolding live_rounds_def by (subst (1) split) simp
  qed (use assms(2) Drops in \<open>auto simp: live_rounds_def without_sending_def scheduler_inv_def\<close>)
next
  case (Receives result rest error_text now)
  have "scheduler_inv stopping (record_result now result (w\<lparr>wk_results := rest\<rparr>))"
    using scheduler_inv_booked [OF assms(2) Receives(2)] .
  then show ?thesis
    unfolding Receives(1) finish_def Let_def using reportSubject_fields scheduler_inv_fields(1) by metis
next
  case (Books result rest now)
  then show ?thesis using scheduler_inv_booked [OF assms(2) Books(2)] by simp
next
  case (Reports error_text key err)
  then show ?thesis using assms(2) reportSubject_fields scheduler_inv_fields(1) by metis
next
  case (Sweeps now)
  then show ?thesis
    using assms(2) by (auto simp: dueForSweep_def scheduler_inv_fields split: option.split)
next
  case (Dispatches now projectID epicID subject job)
  then show ?thesis using scheduler_inv_dispatch [OF assms(2)] by simp
next
  case Recovers
  then show ?thesis using assms(2) by (simp add: scheduler_inv_fields)
qed

lemma scheduler_inv_new: "scheduler_inv stopping NewEpicWorker"
  by (simp add: scheduler_inv_def NewEpicWorker_def live_rounds_def)

lemma scheduler_inv_reachable:
  "(worker_step stopping)\<^sup>*\<^sup>* w w' \<Longrightarrow> scheduler_inv stopping w \<Longrightarrow> scheduler_inv stopping w'"
  by (induction rule: rtranclp_induct) (auto intro: scheduler_inv_step)

text \<open>C37. No subject ever has two rounds, and none is ever left unprotected. In every state a worker
  can reach, however its goroutines interleave, the executing rounds are on different subjects and
  at most eight, each subject whose round is executing or not booked yet is among those that
  reconciliation and purging are told to leave alone, with its epic; and as long as the worker is
  not shutting down, a subject is marked in flight only while it has such a round.\<close>

theorem one_round_per_subject:
  assumes "(worker_step stopping)\<^sup>*\<^sup>* NewEpicWorker w"
  shows "distinct (map x_key (wk_executing w)) \<and> length (wk_executing w) \<le> 8 \<and>
    (\<forall>(key, epicID) \<in> set (live_rounds w).
       k_subject key \<in> inflightSubjects (k_project key) w \<and> epicID \<in> inflightEpics (k_project key) w) \<and>
    (\<not> stopping \<longrightarrow> dom (wk_inflight w) = fst ` set (live_rounds w))"
proof -
  from scheduler_inv_reachable [OF assms scheduler_inv_new] have inv: "scheduler_inv stopping w" .
  then have d: "distinct (map fst (live_rounds w))" by (simp add: scheduler_inv_def)
  have "distinct (map x_key (wk_executing w))"
    using d by (simp add: live_rounds_def o_def)
  moreover have "\<forall>(key, epicID) \<in> set (live_rounds w).
       k_subject key \<in> inflightSubjects (k_project key) w \<and> epicID \<in> inflightEpics (k_project key) w"
    using inv by (fastforce simp: scheduler_inv_def inflightSubjects_def inflightEpics_def)
  ultimately show ?thesis using inv by (simp add: scheduler_inv_def maxConcurrentRounds_def)
qed

lemma one_round_per_subject_witness:
  "\<forall>job. length (wk_executing (dispatch 0 1 ''e'' \<lparr>s_Kind = AgentSubjectEpic, s_ID = ''e''\<rparr> job NewEpicWorker)) \<le> 8"
proof
  fix job
  let ?w = "dispatch 0 1 ''e'' \<lparr>s_Kind = AgentSubjectEpic, s_ID = ''e''\<rparr> job NewEpicWorker"
  have "(worker_step False)\<^sup>*\<^sup>* NewEpicWorker ?w"
    using worker_step.Dispatches [of False NewEpicWorker] by blast
  from one_round_per_subject [OF this] show "length (wk_executing ?w) \<le> 8" by blast
qed

end
