(* ===== verification/Worker_Tick.thy ===== *)
theory Worker_Tick
  imports Scheduler
begin

text \<open>
  One pass of the scheduler: \<open>Tick\<close>, \<open>advanceIssues\<close> and the loop of \<open>Run\<close> in
  \<open>usecases/epic_worker.go\<close>. The use cases a pass calls are functions over an abstract world;
  the state is that world and the worker.
\<close>

section \<open>The use cases a tick calls\<close>

text \<open>
  \<open>wp_Reconcile\<close> gives the error of the pass, with the subjects it could not reconcile when the
  error is a \<open>reconcileFailure\<close>; \<open>wp_Purge\<close> is missing when the worker has no purge use case.
\<close>

record 'x worker_ports =
  wp_Now :: "'x \<Rightarrow> int \<times> 'x"
  wp_Projects :: "'x \<Rightarrow> (go_error + Project list) \<times> 'x"
  wp_ListEpics :: "Project \<Rightarrow> 'x \<Rightarrow> (go_error + Epic list) \<times> 'x"
  wp_Reconcile :: "nat \<Rightarrow> bool \<Rightarrow> AgentSubject set \<Rightarrow> AgentSubject set \<Rightarrow> (AgentSubject \<rightharpoonup> AgentRole) \<Rightarrow>
     'x \<Rightarrow> (go_error \<times> AgentSubject set option) option \<times> 'x"
  wp_Purge :: "(nat \<Rightarrow> Epic list \<Rightarrow> string set \<Rightarrow> 'x \<Rightarrow> go_error option \<times> 'x) option"
  wp_issues_ready :: bool
  wp_OpenPullRequests :: "Project \<Rightarrow> string \<Rightarrow> 'x \<Rightarrow> go_error option \<times> 'x"
  wp_ReviewApproved :: "Project \<Rightarrow> string \<Rightarrow> 'x \<Rightarrow> go_error option \<times> 'x"
  wp_GetEpic :: "Project \<Rightarrow> string \<Rightarrow> 'x \<Rightarrow> (go_error + Epic) \<times> 'x"
  wp_CompleteEpic :: "Project \<Rightarrow> string \<Rightarrow> 'x \<Rightarrow> go_error option \<times> 'x"
  wp_sha256 :: "string \<Rightarrow> string"
  wp_ulower :: "nat \<Rightarrow> nat"

section \<open>Draining and dispatching\<close>

text \<open>The clock is read only for a result that failed, and only for a subject that is held.\<close>

fun drain_loop :: "'x worker_ports \<Rightarrow> roundResult list \<Rightarrow> 'x \<times> EpicWorker \<Rightarrow> 'x \<times> EpicWorker" where
  "drain_loop P [] (x, w) = (x, w)"
| "drain_loop P (result # results) (x, w) =
     (let (now, x) = (if rr_err result = None then (0, x) else wp_Now P x)
      in drain_loop P results (x, record_result now result (w\<lparr>wk_results := results\<rparr>)))"

definition drain :: "'x worker_ports \<Rightarrow> 'x \<times> EpicWorker \<Rightarrow> 'x \<times> EpicWorker" where
  "drain P s = drain_loop P (wk_results (snd s)) s"

definition dispatch_round ::
    "'x worker_ports \<Rightarrow> nat \<Rightarrow> string \<Rightarrow> AgentSubject \<Rightarrow> round_job \<Rightarrow> 'x \<times> EpicWorker \<Rightarrow> 'x \<times> EpicWorker" where
  "dispatch_round P projectID epicID subject job s =
     (case s of (x, w) \<Rightarrow>
        let key = \<lparr>k_project = projectID, k_subject = subject\<rparr>;
            (now, x) = (if wk_inflight w key = None \<and> wk_retries w key \<noteq> None then wp_Now P x else (0, x))
        in (x, dispatch now projectID epicID subject job w))"

section \<open>Advancing an epic\<close>

fun pull_requests_loop ::
    "'x worker_ports \<Rightarrow> Project \<Rightarrow> string \<Rightarrow> Epic \<Rightarrow> AgentSubject set \<Rightarrow> PullRequest list \<Rightarrow>
       'x \<times> EpicWorker \<Rightarrow> 'x \<times> EpicWorker" where
  "pull_requests_loop P project epicID current unreconciled [] s = s"
| "pull_requests_loop P project epicID current unreconciled (pullRequest # pullRequests) s =
     (case IssueRole current pullRequest of
        None \<Rightarrow> pull_requests_loop P project epicID current unreconciled pullRequests s
      | Some role \<Rightarrow>
          let subject = issue_subject (p_IssueID pullRequest)
          in if subject \<in> unreconciled
             then pull_requests_loop P project epicID current unreconciled pullRequests s
             else
               let (now, x) = wp_Now P (fst s);
                   spec = IssueSandboxSpec (wp_sha256 P) (wp_ulower P) (pj_ID project)
                            (p_IssueID pullRequest) role now;
                   s = dispatch_round P (pj_ID project) epicID subject
                         (IssueRound project epicID (p_IssueID pullRequest) spec) (x, snd s)
               in pull_requests_loop P project epicID current unreconciled pullRequests s)"

definition advanceIssues ::
    "'x worker_ports \<Rightarrow> Project \<Rightarrow> string \<Rightarrow> bool \<Rightarrow> AgentSubject set \<Rightarrow> 'x \<times> EpicWorker \<Rightarrow>
       go_error option \<times> 'x \<times> EpicWorker" where
  "advanceIssues P project epicID sweep unreconciled s =
     (case s of (x, w) \<Rightarrow>
        if \<not> wp_issues_ready P then (None, x, w)
        else case wp_OpenPullRequests P project epicID x of
               (Some err, x) \<Rightarrow> (Some err, x, w)
             | (None, x) \<Rightarrow>
                 (case (if sweep then wp_ReviewApproved P project epicID x else (None, x)) of
                    (Some err, x) \<Rightarrow> (Some err, x, w)
                  | (None, x) \<Rightarrow>
                      (case wp_GetEpic P project epicID x of
                         (Inl err, x) \<Rightarrow> (Some err, x, w)
                       | (Inr current, x) \<Rightarrow>
                           let (x, w) = pull_requests_loop P project epicID current unreconciled
                                          (e_PullRequests current) (x, w);
                               (r, x) = wp_CompleteEpic P project epicID x
                           in (join_errors (case r of None \<Rightarrow> [] | Some err \<Rightarrow> [err]), x, w))))"

fun epics_loop ::
    "'x worker_ports \<Rightarrow> Project \<Rightarrow> bool \<Rightarrow> AgentSubject set \<Rightarrow> Epic list \<Rightarrow>
       go_error list \<Rightarrow> 'x \<times> EpicWorker \<Rightarrow> go_error list \<times> 'x \<times> EpicWorker" where
  "epics_loop P project sweep unreconciled [] failures s = (failures, s)"
| "epics_loop P project sweep unreconciled (current # epics) failures s =
     (case epicRole (e_State current) of
        Some role \<Rightarrow>
          let subject = epic_subject (e_ID current)
          in if subject \<in> unreconciled then epics_loop P project sweep unreconciled epics failures s
             else
               let (now, x) = wp_Now P (fst s);
                   spec = EpicSandboxSpec (wp_sha256 P) (wp_ulower P) (pj_ID project) (e_ID current) role now;
                   s = dispatch_round P (pj_ID project) (e_ID current) subject
                         (EpicRound project (e_ID current) spec) (x, snd s)
               in epics_loop P project sweep unreconciled epics failures s
      | None \<Rightarrow>
          (case advanceIssues P project (e_ID current) sweep unreconciled s of
             (None, s) \<Rightarrow> epics_loop P project sweep unreconciled epics failures s
           | (Some err, s) \<Rightarrow>
               epics_loop P project sweep unreconciled epics
                 (failures @ [Wrapf ''advance issues of epic %q: %w'' [GStr (e_ID current)] [err]]) s))"

section \<open>One tick\<close>

definition reconcile_project ::
    "'x worker_ports \<Rightarrow> bool \<Rightarrow> Project \<Rightarrow> Epic list \<Rightarrow> go_error list \<Rightarrow> 'x \<times> EpicWorker \<Rightarrow>
       AgentSubject set \<times> go_error list \<times> 'x \<times> EpicWorker" where
  "reconcile_project P recovering project epics failures s =
     (case s of (x, w) \<Rightarrow>
        let priority = eligibleSubjects epics
        in case wp_Reconcile P (pj_ID project) recovering (TerminalSubjects epics)
                  (inflightSubjects (pj_ID project) w) priority x of
             (None, x) \<Rightarrow> ({}, failures, x, w)
           | (Some (err, unreconciled), x) \<Rightarrow>
               (case unreconciled of Some subjects \<Rightarrow> subjects | None \<Rightarrow> dom priority,
                failures @ [Wrapf ''reconcile project %q: %w'' [GStr (pj_Name project)] [err]], x, w))"

definition purge_project ::
    "'x worker_ports \<Rightarrow> Project \<Rightarrow> Epic list \<Rightarrow> go_error list \<Rightarrow> 'x \<times> EpicWorker \<Rightarrow>
       go_error list \<times> 'x \<times> EpicWorker" where
  "purge_project P project epics failures s =
     (case s of (x, w) \<Rightarrow>
        case wp_Purge P of
          None \<Rightarrow> (failures, x, w)
        | Some purge \<Rightarrow>
            (case purge (pj_ID project) epics (inflightEpics (pj_ID project) w) x of
               (None, x) \<Rightarrow> (failures, x, w)
             | (Some err, x) \<Rightarrow>
                 (failures @ [Wrapf ''purge project %q: %w'' [GStr (pj_Name project)] [err]], x, w)))"

fun projects_loop ::
    "'x worker_ports \<Rightarrow> bool \<Rightarrow> bool \<Rightarrow> Project list \<Rightarrow> go_error list \<Rightarrow> 'x \<times> EpicWorker \<Rightarrow>
       go_error list \<times> 'x \<times> EpicWorker" where
  "projects_loop P sweep recovering [] failures s = (failures, s)"
| "projects_loop P sweep recovering (project # projects) failures s =
     (case wp_ListEpics P project (fst s) of
        (Inl err, x) \<Rightarrow>
          projects_loop P sweep recovering projects
            (failures @ [Wrapf ''list epics for project %q: %w'' [GStr (pj_Name project)] [err]]) (x, snd s)
      | (Inr epics, x) \<Rightarrow>
          let (unreconciled, failures, s) =
                reconcile_project P recovering project epics failures (x, snd s);
              (failures, s) = purge_project P project epics failures s;
              (failures, s) = epics_loop P project sweep unreconciled epics failures s
          in projects_loop P sweep recovering projects failures s)"

definition Tick :: "'x worker_ports \<Rightarrow> 'x \<times> EpicWorker \<Rightarrow> go_error option \<times> 'x \<times> EpicWorker" where
  "Tick P s =
     (let (x, w) = drain P s
      in case wp_Projects P x of
           (Inl err, x) \<Rightarrow> (Some err, x, w)
         | (Inr projects, x) \<Rightarrow>
             let (now, x) = wp_Now P x;
                 (sweep, w) = dueForSweep now w;
                 recovering = \<not> wk_recovered w;
                 w = w\<lparr>wk_recovered := True\<rparr>;
                 (failures, s) = projects_loop P sweep recovering projects [] (x, w)
             in (join_errors failures, s))"

text \<open>What the select of \<open>Run\<close> does on a tick of its timer and on a result.\<close>

definition run_tick ::
    "(go_error \<Rightarrow> string) \<Rightarrow> 'x worker_ports \<Rightarrow> 'x \<times> EpicWorker \<Rightarrow> go_error list \<times> 'x \<times> EpicWorker" where
  "run_tick error_text P s =
     (let (err, x, w) = Tick P s; (reports, w) = reportChanged error_text err w in (reports, x, w))"

definition run_receive ::
    "(go_error \<Rightarrow> string) \<Rightarrow> 'x worker_ports \<Rightarrow> 'x \<times> EpicWorker \<Rightarrow> go_error list \<times> 'x \<times> EpicWorker" where
  "run_receive error_text P s =
     (case s of (x, w) \<Rightarrow>
        case wk_results w of
          [] \<Rightarrow> ([], x, w)
        | result # rest \<Rightarrow>
            let (now, x) = (if rr_err result = None then (0, x) else wp_Now P x);
                (reports, w) = finish error_text now result (w\<lparr>wk_results := rest\<rparr>)
            in (reports, x, w))"

section \<open>A tick is a sequence of scheduler steps\<close>

abbreviation steps :: "bool \<Rightarrow> EpicWorker \<Rightarrow> EpicWorker \<Rightarrow> bool" where
  "steps stopping \<equiv> (worker_step stopping)\<^sup>*\<^sup>*"

lemma steps_drain_loop:
  "wk_results w = results \<Longrightarrow> steps b w (snd (drain_loop P results (x, w)))"
proof (induction results arbitrary: x w)
  case Nil
  then show ?case by simp
next
  case (Cons r rs)
  obtain now x' where now: "(if rr_err r = None then (0, x) else wp_Now P x) = (now, x')"
    by fastforce
  let ?w = "record_result now r (w\<lparr>wk_results := rs\<rparr>)"
  have "worker_step b w ?w" using Cons.prems by (rule worker_step.Books)
  moreover have "steps b ?w (snd (drain_loop P rs (x', ?w)))"
    by (rule Cons.IH) (simp add: record_result_fields)
  ultimately show ?case unfolding drain_loop.simps now Let_def prod.case by (rule converse_rtranclp_into_rtranclp)
qed

lemma steps_drain: "steps b (snd s) (snd (drain P s))"
  using steps_drain_loop [of "snd s" "wk_results (snd s)" b P "fst s"] by (simp add: drain_def)

lemma steps_dispatch: "steps b (snd s) (snd (dispatch_round P projectID epicID subject job s))"
proof -
  obtain x w where s: "s = (x, w)" by fastforce
  let ?key = "\<lparr>k_project = projectID, k_subject = subject\<rparr>"
  obtain now x' where now: "(if wk_inflight w ?key = None \<and> wk_retries w ?key \<noteq> None then wp_Now P x
      else (0, x)) = (now, x')" by fastforce
  show ?thesis
    unfolding dispatch_round_def s prod.case Let_def now snd_conv
    by (rule r_into_rtranclp) (rule worker_step.Dispatches)
qed

lemma steps_pull_requests:
  "steps b (snd s) (snd (pull_requests_loop P project epicID current unreconciled prs s))"
proof (induction prs arbitrary: s)
  case Nil
  then show ?case by simp
next
  case (Cons p prs)
  show ?case
  proof (cases "IssueRole current p")
    case None
    with Cons show ?thesis by simp
  next
    case (Some role)
    obtain now x where now: "wp_Now P (fst s) = (now, x)" by fastforce
    let ?s = "dispatch_round P (pj_ID project) epicID (issue_subject (p_IssueID p))
        (IssueRound project epicID (p_IssueID p) (IssueSandboxSpec (wp_sha256 P) (wp_ulower P)
          (pj_ID project) (p_IssueID p) role now)) (x, snd s)"
    have "steps b (snd s) (snd ?s)" using steps_dispatch [of b "(x, snd s)"] by simp
    from rtranclp_trans [OF this Cons.IH [of ?s]] Cons.IH [of s] show ?thesis
      by (simp add: Some now Let_def)
  qed
qed

lemma steps_advance:
  "advanceIssues P project epicID sweep unreconciled s = (r, s') \<Longrightarrow> steps b (snd s) (snd s')"
proof -
  assume a: "advanceIssues P project epicID sweep unreconciled s = (r, s')"
  obtain x w where s: "s = (x, w)" by fastforce
  have "snd s' = w \<or> (\<exists>x' current. snd s' =
      snd (pull_requests_loop P project epicID current unreconciled (e_PullRequests current) (x', w)))"
    using a unfolding advanceIssues_def s
    by (auto simp: Let_def split: if_splits prod.splits option.splits sum.splits) (metis snd_conv)+
  then show ?thesis using steps_pull_requests [of b "(_, w)"] s by (auto simp del: pull_requests_loop.simps)
qed

lemma steps_epics:
  "steps b (snd s) (snd (snd (epics_loop P project sweep unreconciled epics failures s)))"
proof (induction epics arbitrary: failures s)
  case Nil
  then show ?case by simp
next
  case (Cons e epics)
  show ?case
  proof (cases "epicRole (e_State e)")
    case None
    obtain r s' where a: "advanceIssues P project (e_ID e) sweep unreconciled s = (r, s')" by (metis surj_pair)
    from rtranclp_trans [OF steps_advance [OF a, of b] Cons.IH [of s']] show ?thesis
      by (cases r) (simp_all add: None a)
  next
    case (Some role)
    obtain now x where now: "wp_Now P (fst s) = (now, x)" by fastforce
    let ?s = "dispatch_round P (pj_ID project) (e_ID e) (epic_subject (e_ID e))
        (EpicRound project (e_ID e) (EpicSandboxSpec (wp_sha256 P) (wp_ulower P)
          (pj_ID project) (e_ID e) role now)) (x, snd s)"
    have "steps b (snd s) (snd ?s)" using steps_dispatch [of b "(x, snd s)"] by simp
    from rtranclp_trans [OF this Cons.IH [of ?s]] Cons.IH [of s] show ?thesis
      by (simp add: Some now Let_def)
  qed
qed

lemma reconcile_project_worker:
  "snd (snd (snd (reconcile_project P recovering project epics failures s))) = snd s"
  by (auto simp: reconcile_project_def Let_def split: prod.split option.split)

lemma purge_project_worker: "snd (snd (purge_project P project epics failures s)) = snd s"
  by (auto simp: purge_project_def split: prod.split option.split)

lemma steps_projects:
  "steps b (snd s) (snd (snd (projects_loop P sweep recovering projects failures s)))"
proof (induction projects arbitrary: failures s)
  case Nil
  then show ?case by simp
next
  case (Cons project projects)
  obtain r x where l: "wp_ListEpics P project (fst s) = (r, x)" by fastforce
  show ?case
  proof (cases r)
    case (Inl err)
    with Cons.IH [of "(x, snd s)"] l show ?thesis by simp
  next
    case (Inr epics)
    obtain un f1 s1 where 1: "reconcile_project P recovering project epics failures (x, snd s) = (un, f1, s1)"
      by (metis prod_cases3)
    obtain f2 s2 where 2: "purge_project P project epics f1 s1 = (f2, s2)" by (metis surj_pair)
    obtain f3 s3 where 3: "epics_loop P project sweep un epics f2 s2 = (f3, s3)" by (metis surj_pair)
    have "snd s2 = snd s"
      using reconcile_project_worker [of P recovering project epics failures "(x, snd s)"] 1
        purge_project_worker [of P project epics f1 s1] 2 by simp
    then have "steps b (snd s) (snd s3)"
      using steps_epics [of b s2 P project sweep un epics f2] 3 by simp
    from rtranclp_trans [OF this Cons.IH [of s3 f3]] show ?thesis
      by (simp add: l Inr 1 2 3 Let_def)
  qed
qed

lemma steps_Tick: "steps b (snd s) (snd (snd (Tick P s)))"
proof -
  obtain x w where d: "drain P s = (x, w)" by fastforce
  with steps_drain [of b s P] have dw: "steps b (snd s) w" by simp
  obtain r x' where l: "wp_Projects P x = (r, x')" by fastforce
  show ?thesis
  proof (cases r)
    case (Inl err)
    with d l dw show ?thesis by (simp add: Tick_def)
  next
    case (Inr projects)
    obtain now x2 where n: "wp_Now P x' = (now, x2)" by fastforce
    obtain sweep w2 where s: "dueForSweep now w = (sweep, w2)" by fastforce
    have "worker_step b w w2" using worker_step.Sweeps [of b w now] s by simp
    moreover have "worker_step b w2 (w2\<lparr>wk_recovered := True\<rparr>)" by (rule worker_step.Recovers)
    moreover have "steps b (w2\<lparr>wk_recovered := True\<rparr>)
        (snd (snd (projects_loop P sweep (\<not> wk_recovered w2) projects [] (x2, w2\<lparr>wk_recovered := True\<rparr>))))"
      using steps_projects [of b "(x2, w2\<lparr>wk_recovered := True\<rparr>)"] by simp
    ultimately have "steps b (snd s') (snd (snd (projects_loop P sweep (\<not> wk_recovered w2) projects []
        (x2, w2\<lparr>wk_recovered := True\<rparr>))))" if "s' = s" for s'
      using dw that by (meson converse_rtranclp_into_rtranclp rtranclp_trans)
    then show ?thesis by (simp add: Tick_def d l Inr n s Let_def case_prod_beta)
  qed
qed


section \<open>Failures that nobody hears of\<close>

definition quiet_ports :: "unit worker_ports" where
  "quiet_ports =
     \<lparr>wp_Now = (\<lambda>x. (0, x)), wp_Projects = (\<lambda>x. (Inr [], x)), wp_ListEpics = (\<lambda>p x. (Inr [], x)),
      wp_Reconcile = (\<lambda>p r t i e x. (None, x)), wp_Purge = None, wp_issues_ready = False,
      wp_OpenPullRequests = (\<lambda>p e x. (None, x)), wp_ReviewApproved = (\<lambda>p e x. (None, x)),
      wp_GetEpic = (\<lambda>p e x. (Inl (Sentinel ''not found''), x)), wp_CompleteEpic = (\<lambda>p e x. (None, x)),
      wp_sha256 = id, wp_ulower = id\<rparr>"

lemma drain_loop_failures: "wk_failures (snd (drain_loop P results (x, w))) = wk_failures w"
proof (induction results arbitrary: x w)
  case (Cons r rs)
  have "wk_failures (record_result now r v) = wk_failures v" for now v
    by (auto simp: record_result_def Let_def split: option.split prod.split)
  then show ?case by (simp add: Cons.IH case_prod_beta)
qed simp

text \<open>A failure is reported or lost depending on who empties the channel. When \<open>Run\<close> receives the
  result of a failed round itself, a failure not reported before is reported; when the timer wins
  and a tick drains the same result, the subject is put on hold all the same, but its failure is
  neither reported nor remembered as reported.\<close>

theorem drained_failures_are_not_reported:
  assumes "wk_results w = [result]" and "rr_err result = Some err" and "wk_failures w (rr_key result) = None"
    and "error_text err \<noteq> []" and "rr_key result \<noteq> zero_key" and "wk_failures w zero_key = None"
    and "\<not> errors_is err ErrHostFailure"
  shows "fst (run_receive error_text quiet_ports ((), w)) = [err] \<and>
    fst (run_tick error_text quiet_ports ((), w)) = [] \<and>
    (case snd (run_tick error_text quiet_ports ((), w)) of (x, w') \<Rightarrow>
       wk_retries w' (rr_key result) \<noteq> None \<and> wk_failures w' (rr_key result) = None)"
proof -
  let ?v = "record_result 0 result (w\<lparr>wk_results := []\<rparr>)"
  have d: "drain quiet_ports ((), w) = ((), ?v)"
    by (simp add: drain_def assms(1,2) quiet_ports_def)
  have f: "wk_failures ?v = wk_failures w"
    using drain_loop_failures [of quiet_ports "[result]" "()" w] d assms(1) by (simp add: drain_def)
  have h: "rt_hostFailures (held_retry ?v (rr_key result)) = 0"
    using assms(2,7) by (simp add: record_result_def held_retry_def Let_def)
  have r: "wk_retries ?v (rr_key result) \<noteq> None"
    using assms(2) by (auto simp: record_result_def Let_def)
  have "fst (run_receive error_text quiet_ports ((), w)) = [err]"
    using assms(1-4) f h
    by (simp add: run_receive_def quiet_ports_def finish_def Let_def hostFailureBreaker_def
        reportSubject_def case_prod_beta)
  moreover have "Tick quiet_ports ((), w) =
      (None, (), (snd (dueForSweep 0 ?v))\<lparr>wk_recovered := True\<rparr>)"
    unfolding Tick_def d
    by (simp add: quiet_ports_def Let_def case_prod_beta join_errors_def)
  moreover have "wk_retries (snd (dueForSweep 0 ?v)) = wk_retries ?v"
    "wk_failures (snd (dueForSweep 0 ?v)) = wk_failures ?v"
    by (auto simp: dueForSweep_def split: option.split)
  ultimately show ?thesis
    using r f assms(3,5)
    by (simp add: run_tick_def reportChanged_def reportSubject_def)
qed

lemma drained_failures_are_not_reported_witness:
  "let key = \<lparr>k_project = 1, k_subject = epic_subject ''e''\<rparr>;
       w = NewEpicWorker\<lparr>wk_results := [\<lparr>rr_key = key, rr_epicID = ''e'', rr_err = Some (Sentinel ''boom'')\<rparr>]\<rparr>
   in fst (run_tick (\<lambda>e. ''boom'') quiet_ports ((), w)) = []"
  using drained_failures_are_not_reported
    [of "NewEpicWorker\<lparr>wk_results := [\<lparr>rr_key = \<lparr>k_project = 1, k_subject = epic_subject ''e''\<rparr>,
       rr_epicID = ''e'', rr_err = Some (Sentinel ''boom'')\<rparr>]\<rparr>" _ "Sentinel ''boom''" "\<lambda>e. ''boom''"]
  by (simp add: NewEpicWorker_def zero_key_def ErrHostFailure_def)

end
