(* ===== verification/Tracker_Store.thy ===== *)
theory Tracker_Store
  imports Epic_Tree "HOL-Library.Char_ord" "HOL-Library.List_Lexorder" "HOL-Library.Product_Lexorder"
    "HOL-Library.Multiset"
begin

text \<open>
  \<open>adapters/projectstore/store.go\<close> and \<open>repository.go\<close>: how an epic is kept in SQLite and updated
  as one aggregate. The five tables of the schema an epic lives in are lists of rows; the SQL the
  program sends is what it says in \<open>projectSchema\<close> and in the statements: a primary key refuses a
  second row, a foreign key a missing parent, \<open>ON DELETE CASCADE\<close> takes the children along and
  \<open>ORDER BY created_at, id\<close> sorts. A transaction that fails leaves every table as it was;
  \<open>fault\<close> is the error, if any, of a statement for reasons outside the program (the disk). The
  JSON encoding of string lists is a parameter.
\<close>

section \<open>Rows and tables\<close>

record EpicRow =
  er_ID :: string
  er_Title :: string
  er_Assignee :: string
  er_Repositories :: string
  er_Body :: string
  er_State :: EpicState
  er_BranchPrefix :: string
  er_DraftingPasses :: int

record IssueRow =
  ir_ID :: string
  ir_EpicID :: string
  ir_Title :: string
  ir_ParentID :: string
  ir_Repository :: string
  ir_State :: IssueState
  ir_CreatedAt :: int
  ir_Body :: string
  ir_BlockedBy :: string

record PullRequestRow =
  pr_ID :: string
  pr_EpicID :: string
  pr_IssueID :: string
  pr_Title :: string
  pr_Status :: PullRequestStatus
  pr_Repository :: string
  pr_Number :: int
  pr_URL :: string
  pr_Head :: string
  pr_Base :: string
  pr_Flags :: string
  pr_ReviewedHead :: string
  pr_ReviewedBase :: string
  pr_Rounds :: int
  pr_Reviews :: int
  pr_RoundsGranted :: int
  pr_CodingRounds :: int
  pr_Approved :: bool
  pr_CreatedAt :: int

text \<open>A row of \<open>issue_comments\<close> or of \<open>pull_request_comments\<close>; the owner is the foreign key.\<close>

record CommentRow =
  cr_ID :: string
  cr_Owner :: string
  cr_Author :: string
  cr_CreatedAt :: int
  cr_Body :: string

record Store =
  st_epics :: "EpicRow list"
  st_issues :: "IssueRow list"
  st_pull_requests :: "PullRequestRow list"
  st_issue_comments :: "CommentRow list"
  st_pull_request_comments :: "CommentRow list"

record json_codec =
  marshal :: "string list \<Rightarrow> string"
  unmarshal :: "string \<Rightarrow> go_error + string list"
  marshal_flags :: "PullRequestFlag list \<Rightarrow> string"
  unmarshal_flags :: "string \<Rightarrow> go_error + PullRequestFlag list"

definition unique_error :: "string \<Rightarrow> go_error" where
  "unique_error column = Errorf ''UNIQUE constraint failed: %s'' [GStr column]"

definition foreign_key_error :: go_error where
  "foreign_key_error = Errorf ''FOREIGN KEY constraint failed'' []"

section \<open>Statements\<close>

definition insert_epic :: "EpicRow \<Rightarrow> Store update" where
  "insert_epic row st =
     (if er_ID row \<in> er_ID ` set (st_epics st) then (Some (unique_error ''epics.id''), st)
      else (None, st\<lparr>st_epics := st_epics st @ [row]\<rparr>))"

definition insert_issue :: "IssueRow \<Rightarrow> Store update" where
  "insert_issue row st =
     (if ir_ID row \<in> ir_ID ` set (st_issues st) then (Some (unique_error ''issues.id''), st)
      else if ir_EpicID row \<notin> er_ID ` set (st_epics st) then (Some foreign_key_error, st)
      else (None, st\<lparr>st_issues := st_issues st @ [row]\<rparr>))"

definition insert_pull_request :: "PullRequestRow \<Rightarrow> Store update" where
  "insert_pull_request row st =
     (if pr_ID row \<in> pr_ID ` set (st_pull_requests st) then (Some (unique_error ''pull_requests.id''), st)
      else if pr_EpicID row \<notin> er_ID ` set (st_epics st) \<or> pr_IssueID row \<notin> ir_ID ` set (st_issues st)
      then (Some foreign_key_error, st)
      else (None, st\<lparr>st_pull_requests := st_pull_requests st @ [row]\<rparr>))"

definition insert_issue_comment :: "CommentRow \<Rightarrow> Store update" where
  "insert_issue_comment row st =
     (if cr_ID row \<in> cr_ID ` set (st_issue_comments st) then (Some (unique_error ''issue_comments.id''), st)
      else if cr_Owner row \<notin> ir_ID ` set (st_issues st) then (Some foreign_key_error, st)
      else (None, st\<lparr>st_issue_comments := st_issue_comments st @ [row]\<rparr>))"

definition insert_pull_request_comment :: "CommentRow \<Rightarrow> Store update" where
  "insert_pull_request_comment row st =
     (if cr_ID row \<in> cr_ID ` set (st_pull_request_comments st)
      then (Some (unique_error ''pull_request_comments.id''), st)
      else if cr_Owner row \<notin> pr_ID ` set (st_pull_requests st) then (Some foreign_key_error, st)
      else (None, st\<lparr>st_pull_request_comments := st_pull_request_comments st @ [row]\<rparr>))"

text \<open>
  \<open>DELETE FROM epics WHERE id = ?\<close> with its cascades. The reference from a pull request to its
  issue does not cascade, so the statement fails if it leaves a pull request without its issue.
\<close>

definition delete_epic :: "string \<Rightarrow> Store update" where
  "delete_epic id' st =
     (let issues = filter (\<lambda>r. ir_EpicID r \<noteq> id') (st_issues st);
          pull_requests = filter (\<lambda>r. pr_EpicID r \<noteq> id') (st_pull_requests st);
          dead_issues = ir_ID ` set (filter (\<lambda>r. ir_EpicID r = id') (st_issues st));
          dead_pull_requests = pr_ID ` set (filter (\<lambda>r. pr_EpicID r = id') (st_pull_requests st))
      in if list_ex (\<lambda>r. pr_IssueID r \<in> dead_issues) pull_requests then (Some foreign_key_error, st)
         else (None, \<lparr>st_epics = filter (\<lambda>r. er_ID r \<noteq> id') (st_epics st), st_issues = issues,
                st_pull_requests = pull_requests,
                st_issue_comments = filter (\<lambda>r. cr_Owner r \<notin> dead_issues) (st_issue_comments st),
                st_pull_request_comments =
                  filter (\<lambda>r. cr_Owner r \<notin> dead_pull_requests) (st_pull_request_comments st)\<rparr>))"

section \<open>Writing an epic\<close>

definition epic_row :: "json_codec \<Rightarrow> Epic \<Rightarrow> EpicRow" where
  "epic_row J e = \<lparr>er_ID = e_ID e, er_Title = e_Title e, er_Assignee = e_Assignee e,
     er_Repositories = marshal J (e_Repositories e), er_Body = e_Body e, er_State = e_State e,
     er_BranchPrefix = e_BranchPrefix e, er_DraftingPasses = e_DraftingPasses e\<rparr>"

definition issue_row :: "json_codec \<Rightarrow> string \<Rightarrow> Issue \<Rightarrow> IssueRow" where
  "issue_row J epicID i = \<lparr>ir_ID = i_ID i, ir_EpicID = epicID, ir_Title = i_Title i,
     ir_ParentID = i_ParentID i, ir_Repository = i_Repository i, ir_State = i_State i,
     ir_CreatedAt = i_CreatedAt i, ir_Body = i_Body i, ir_BlockedBy = marshal J (i_BlockedBy i)\<rparr>"

definition pull_request_row :: "json_codec \<Rightarrow> string \<Rightarrow> PullRequest \<Rightarrow> PullRequestRow" where
  "pull_request_row J epicID p = \<lparr>pr_ID = p_ID p, pr_EpicID = epicID, pr_IssueID = p_IssueID p,
     pr_Title = p_Title p, pr_Status = p_Status p, pr_Repository = p_Repository p,
     pr_Number = p_Number p, pr_URL = p_URL p, pr_Head = p_Head p, pr_Base = p_Base p,
     pr_Flags = marshal_flags J (p_Flags p), pr_ReviewedHead = p_ReviewedHead p,
     pr_ReviewedBase = p_ReviewedBase p, pr_Rounds = p_Rounds p, pr_Reviews = p_Reviews p,
     pr_RoundsGranted = p_RoundsGranted p, pr_CodingRounds = p_CodingRounds p,
     pr_Approved = p_Approved p, pr_CreatedAt = p_CreatedAt p\<rparr>"

definition comment_row :: "string \<Rightarrow> Comment \<Rightarrow> CommentRow" where
  "comment_row owner c = \<lparr>cr_ID = c_ID c, cr_Owner = owner, cr_Author = c_Author c,
     cr_CreatedAt = c_CreatedAt c, cr_Body = c_Body c\<rparr>"

text \<open>\<open>for _, x := range xs { if err := f(x); err != nil { return err } }\<close> over a mutable state.\<close>

fun do_each :: "('a \<Rightarrow> 's update) \<Rightarrow> 'a list \<Rightarrow> 's update" where
  "do_each f [] s = (None, s)"
| "do_each f (x # xs) s = then_do (f x) (do_each f xs) s"

definition writeIssueComments :: "string \<Rightarrow> Comment list \<Rightarrow> Store update" where
  "writeIssueComments issueID comments =
     do_each (\<lambda>c. insert_issue_comment (comment_row issueID c)) comments"

definition writePullRequestComments :: "string \<Rightarrow> Comment list \<Rightarrow> Store update" where
  "writePullRequestComments pullRequestID comments =
     do_each (\<lambda>c. insert_pull_request_comment (comment_row pullRequestID c)) comments"

definition write_issue :: "json_codec \<Rightarrow> string \<Rightarrow> Issue \<Rightarrow> Store update" where
  "write_issue J epicID i =
     then_do (insert_issue (issue_row J epicID i)) (writeIssueComments (i_ID i) (i_Comments i))"

definition write_pull_request :: "json_codec \<Rightarrow> string \<Rightarrow> PullRequest \<Rightarrow> Store update" where
  "write_pull_request J epicID p =
     then_do (insert_pull_request (pull_request_row J epicID p))
       (writePullRequestComments (p_ID p) (p_Comments p))"

definition writeEpic :: "json_codec \<Rightarrow> Epic \<Rightarrow> Store update" where
  "writeEpic J e =
     then_do (insert_epic (epic_row J e))
       (then_do (do_each (write_issue J (e_ID e)) (e_Issues e))
         (do_each (write_pull_request J (e_ID e)) (e_PullRequests e)))"

text \<open>\<open>db.Transaction\<close>: all or nothing.\<close>

definition transaction :: "go_error option \<Rightarrow> 's update \<Rightarrow> 's update" where
  "transaction fault body st =
     (case fault of
        Some err \<Rightarrow> (Some err, st)
      | None \<Rightarrow> (case body st of (Some err, _) \<Rightarrow> (Some err, st) | (None, st') \<Rightarrow> (None, st')))"

text \<open>\<open>Epic.Validate\<close> always returns (\<open>Validate_returns\<close>), so its result is read with \<open>the\<close>.\<close>

definition WriteEpic :: "json_codec \<Rightarrow> go_error option \<Rightarrow> Epic \<Rightarrow> Store update" where
  "WriteEpic J fault e st =
     (case the (Validate e) of
        Some err \<Rightarrow> (Some (Wrapf ''validate aggregate %s: %w'' [GStr (e_ID e)] [err]), st)
      | None \<Rightarrow> transaction fault (then_do (delete_epic (e_ID e)) (writeEpic J e)) st)"

section \<open>Reading an epic\<close>

definition commentsFrom :: "CommentRow list \<Rightarrow> Comment list" where
  "commentsFrom rows = map (\<lambda>r. \<lparr>c_ID = cr_ID r, c_Author = cr_Author r,
     c_CreatedAt = cr_CreatedAt r, c_Body = cr_Body r\<rparr>) rows"

definition select_comments :: "string \<Rightarrow> CommentRow list \<Rightarrow> CommentRow list" where
  "select_comments owner rows =
     sort_key (\<lambda>r. (cr_CreatedAt r, cr_ID r)) (filter (\<lambda>r. cr_Owner r = owner) rows)"

definition readIssueComments :: "string \<Rightarrow> Store \<Rightarrow> Comment list" where
  "readIssueComments issueID st = commentsFrom (select_comments issueID (st_issue_comments st))"

definition readPullRequestComments :: "string \<Rightarrow> Store \<Rightarrow> Comment list" where
  "readPullRequestComments pullRequestID st =
     commentsFrom (select_comments pullRequestID (st_pull_request_comments st))"

fun read_issues :: "json_codec \<Rightarrow> Store \<Rightarrow> IssueRow list \<Rightarrow> Issue list \<Rightarrow> go_error + Issue list" where
  "read_issues J st [] issues = Inr issues"
| "read_issues J st (r # rows) issues =
     (case unmarshal J (ir_BlockedBy r) of
        Inl err \<Rightarrow> Inl err
      | Inr blockedBy \<Rightarrow>
          read_issues J st rows (issues @ [\<lparr>i_ID = ir_ID r, i_Title = ir_Title r,
            i_ParentID = ir_ParentID r, i_Repository = ir_Repository r, i_State = ir_State r,
            i_CreatedAt = ir_CreatedAt r, i_Body = ir_Body r,
            i_Comments = readIssueComments (ir_ID r) st, i_BlockedBy = blockedBy\<rparr>]))"

fun read_pull_requests ::
    "json_codec \<Rightarrow> Store \<Rightarrow> PullRequestRow list \<Rightarrow> PullRequest list \<Rightarrow> go_error + PullRequest list" where
  "read_pull_requests J st [] pullRequests = Inr pullRequests"
| "read_pull_requests J st (r # rows) pullRequests =
     (case unmarshal_flags J (pr_Flags r) of
        Inl err \<Rightarrow> Inl err
      | Inr flags \<Rightarrow>
          read_pull_requests J st rows (pullRequests @ [\<lparr>p_ID = pr_ID r, p_IssueID = pr_IssueID r,
            p_Title = pr_Title r, p_Status = pr_Status r, p_Repository = pr_Repository r,
            p_Number = pr_Number r, p_URL = pr_URL r, p_Head = pr_Head r, p_Base = pr_Base r,
            p_Flags = flags, p_ReviewedHead = pr_ReviewedHead r, p_ReviewedBase = pr_ReviewedBase r,
            p_Rounds = pr_Rounds r, p_Reviews = pr_Reviews r, p_RoundsGranted = pr_RoundsGranted r,
            p_CodingRounds = pr_CodingRounds r, p_Approved = pr_Approved r,
            p_CreatedAt = pr_CreatedAt r, p_Comments = readPullRequestComments (pr_ID r) st\<rparr>]))"

definition ErrNotExist :: go_error where
  "ErrNotExist = Sentinel ''file does not exist''"

definition readEpic :: "json_codec \<Rightarrow> string \<Rightarrow> Store \<Rightarrow> go_error + Epic" where
  "readEpic J id' st =
     (case find (\<lambda>r. er_ID r = id') (st_epics st) of
        None \<Rightarrow> Inl ErrNotExist
      | Some r \<Rightarrow>
          (case unmarshal J (er_Repositories r) of
             Inl err \<Rightarrow> Inl err
           | Inr repositories \<Rightarrow>
               (case read_issues J st (sort_key (\<lambda>r. (ir_CreatedAt r, ir_ID r))
                        (filter (\<lambda>r. ir_EpicID r = id') (st_issues st))) [] of
                  Inl err \<Rightarrow> Inl err
                | Inr issues \<Rightarrow>
                    (case read_pull_requests J st (sort_key (\<lambda>r. (pr_CreatedAt r, pr_ID r))
                             (filter (\<lambda>r. pr_EpicID r = id') (st_pull_requests st))) [] of
                       Inl err \<Rightarrow> Inl err
                     | Inr pullRequests \<Rightarrow>
                         let aggregate = \<lparr>e_ID = er_ID r, e_Title = er_Title r, e_Assignee = er_Assignee r,
                               e_Repositories = repositories, e_Body = er_Body r, e_State = er_State r,
                               e_BranchPrefix = er_BranchPrefix r, e_Issues = issues,
                               e_PullRequests = pullRequests, e_DraftingPasses = er_DraftingPasses r\<rparr>
                         in case the (Validate aggregate) of
                              Some err \<Rightarrow> Inl (Wrapf ''validate aggregate %s: %w'' [GStr (e_ID aggregate)] [err])
                            | None \<Rightarrow> Inr aggregate))))"

definition ReadEpic :: "json_codec \<Rightarrow> go_error option \<Rightarrow> string \<Rightarrow> Store \<Rightarrow> go_error + Epic" where
  "ReadEpic J fault id' st = (case fault of Some err \<Rightarrow> Inl err | None \<Rightarrow> readEpic J id' st)"

section \<open>Updating an epic\<close>

text \<open>\<open>Repository.UpdateEpic\<close>, with the faults of its read and of its write.\<close>

definition UpdateEpic ::
    "json_codec \<Rightarrow> go_error option \<times> go_error option \<Rightarrow> string \<Rightarrow> Epic update \<Rightarrow> Store update" where
  "UpdateEpic J faults id' change st =
     (case ReadEpic J (fst faults) id' st of
        Inl err \<Rightarrow>
          if errors_is err ''file does not exist'' then (Some (Errorf ''epic %s not found'' [GStr id']), st)
          else (Some (Wrapf ''epic %s not found: %w'' [GStr id'] [err]), st)
      | Inr detail \<Rightarrow>
          (case change detail of
             (Some err, _) \<Rightarrow> (Some err, st)
           | (None, detail) \<Rightarrow> WriteEpic J (snd faults) detail st))"

definition Repository_CreateEpic :: "json_codec \<Rightarrow> go_error option \<Rightarrow> Epic \<Rightarrow> Store update" where
  "Repository_CreateEpic J fault detail = WriteEpic J fault detail"

section \<open>What a stored epic reads back as\<close>

text \<open>The reader orders issues, pull requests and comments by creation time and then ID.\<close>

definition sort_comments :: "Comment list \<Rightarrow> Comment list" where
  "sort_comments = sort_key (\<lambda>c. (c_CreatedAt c, c_ID c))"

definition canonical_issue :: "Issue \<Rightarrow> Issue" where
  "canonical_issue i = i\<lparr>i_Comments := sort_comments (i_Comments i)\<rparr>"

definition canonical_pull_request :: "PullRequest \<Rightarrow> PullRequest" where
  "canonical_pull_request p = p\<lparr>p_Comments := sort_comments (p_Comments p)\<rparr>"

definition canonical :: "Epic \<Rightarrow> Epic" where
  "canonical e = e\<lparr>
     e_Issues := map canonical_issue (sort_key (\<lambda>i. (i_CreatedAt i, i_ID i)) (e_Issues e)),
     e_PullRequests := map canonical_pull_request (sort_key (\<lambda>p. (p_CreatedAt p, p_ID p)) (e_PullRequests e))\<rparr>"

lemma canonical_simps [simp]:
  "e_ID (canonical e) = e_ID e" "e_State (canonical e) = e_State e" "e_Title (canonical e) = e_Title e"
  "e_Repositories (canonical e) = e_Repositories e"
  "i_ID (canonical_issue i) = i_ID i" "i_State (canonical_issue i) = i_State i"
  "i_ParentID (canonical_issue i) = i_ParentID i" "i_BlockedBy (canonical_issue i) = i_BlockedBy i"
  "i_CreatedAt (canonical_issue i) = i_CreatedAt i"
  "p_ID (canonical_pull_request p) = p_ID p" "p_IssueID (canonical_pull_request p) = p_IssueID p"
  "p_CreatedAt (canonical_pull_request p) = p_CreatedAt p"
  by (simp_all add: canonical_def canonical_issue_def canonical_pull_request_def)

lemma set_canonical_issues: "set (e_Issues (canonical e)) = canonical_issue ` set (e_Issues e)"
  and set_canonical_pull_requests:
    "set (e_PullRequests (canonical e)) = canonical_pull_request ` set (e_PullRequests e)"
  by (simp_all add: canonical_def)

lemma issue_ids_canonical [simp]: "issue_ids (canonical e) = issue_ids e"
  by (simp add: issue_ids_def set_canonical_issues image_image)

lemma sort_comments_set [simp]: "set (sort_comments cs) = set cs"
  by (simp add: sort_comments_def)

lemma issue_ok_canonical: "issue_ok rs (canonical_issue i) = issue_ok rs i"
  by (simp add: issue_ok_def canonical_issue_def Issue_Validate_def)

lemma pull_request_canonical: "PullRequest_Validate (canonical_pull_request p) = None \<longleftrightarrow> PullRequest_Validate p = None"
  by (simp add: PullRequest_Validate_None canonical_pull_request_def counts_ok_def)

lemma canonical_ids: "mset (map i_ID (e_Issues (canonical e))) = mset (map i_ID (e_Issues e))"
proof -
  have "map i_ID (e_Issues (canonical e)) = map i_ID (sort_key (\<lambda>i. (i_CreatedAt i, i_ID i)) (e_Issues e))"
    by (simp add: canonical_def o_def)
  then show ?thesis by (simp only: mset_map mset_sort)
qed

lemma canonical_roots:
  "length (filter (\<lambda>i. i_ParentID i = []) (e_Issues (canonical e))) =
   length (filter (\<lambda>i. i_ParentID i = []) (e_Issues e))"
proof -
  have "filter (\<lambda>i. i_ParentID i = []) (e_Issues (canonical e)) =
      map canonical_issue (filter (\<lambda>i. i_ParentID i = []) (sort_key (\<lambda>i. (i_CreatedAt i, i_ID i)) (e_Issues e)))"
    by (simp add: canonical_def filter_map o_def)
  then have "length (filter (\<lambda>i. i_ParentID i = []) (e_Issues (canonical e))) =
      size (filter_mset (\<lambda>i. i_ParentID i = []) (mset (sort_key (\<lambda>i. (i_CreatedAt i, i_ID i)) (e_Issues e))))"
    by (simp flip: size_mset)
  then show ?thesis by (simp flip: size_mset)
qed

lemma well_formed_canonical: "well_formed (canonical e) \<longleftrightarrow> well_formed e"
proof -
  have d: "distinct (map i_ID (e_Issues (canonical e))) \<longleftrightarrow> distinct (map i_ID (e_Issues e))"
    by (rule mset_eq_imp_distinct_iff [OF canonical_ids])
  have w: "waits (canonical e) = waits e" if "distinct (map i_ID (e_Issues e))"
    unfolding set_eq_iff split_paired_All waits_iff [OF that] waits_iff [OF iffD2 [OF d that]]
    by (simp add: set_canonical_issues)
  have "issues_well_formed (canonical e) \<longleftrightarrow> issues_well_formed e"
    unfolding issues_well_formed_def d canonical_roots using w
    by (auto simp: set_canonical_issues issue_ok_canonical)
  then show ?thesis
    unfolding well_formed_def
    by (simp add: set_canonical_pull_requests pull_request_canonical) (simp add: canonical_def)
qed

text \<open>The order of the library's sort.\<close>

lemma insort_key_map: "insort_key k (f x) (map f xs) = map f (insort_key (\<lambda>x. k (f x)) x xs)"
  by (induction xs) auto

lemma sort_key_map: "sort_key k (map f xs) = map f (sort_key (\<lambda>x. k (f x)) xs)"
  by (induction xs) (auto simp: insort_key_map)

lemma sort_key_sorted_id: "sort_key k (sort_key k xs) = sort_key k xs"
  by (rule sort_key_id_if_sorted) simp

lemma sort_comments_idem [simp]: "sort_comments (sort_comments cs) = sort_comments cs"
  by (simp add: sort_comments_def sort_key_sorted_id)

lemma canonical_idem [simp]: "canonical (canonical e) = canonical e"
proof -
  have "canonical_issue \<circ> canonical_issue = canonical_issue"
    and "canonical_pull_request \<circ> canonical_pull_request = canonical_pull_request"
    by (auto simp: canonical_issue_def canonical_pull_request_def)
  then show ?thesis
    by (simp add: canonical_def sort_key_map o_def sort_key_sorted_id)
qed


section \<open>What a successful write does\<close>

definition issue_comment_rows :: "Issue list \<Rightarrow> CommentRow list" where
  "issue_comment_rows is = concat (map (\<lambda>i. map (comment_row (i_ID i)) (i_Comments i)) is)"

definition pull_request_comment_rows :: "PullRequest list \<Rightarrow> CommentRow list" where
  "pull_request_comment_rows ps = concat (map (\<lambda>p. map (comment_row (p_ID p)) (p_Comments p)) ps)"

text \<open>A list of new rows fits a table when the primary key admits all of them.\<close>

definition fits :: "('r \<Rightarrow> string) \<Rightarrow> 'r list \<Rightarrow> 'r list \<Rightarrow> bool" where
  "fits key new old \<longleftrightarrow> distinct (map key new) \<and> key ` set new \<inter> key ` set old = {}"

lemma fits_Nil [simp]: "fits key [] old"
  by (simp add: fits_def)

lemma fits_Cons: "fits key (r # new) old \<longleftrightarrow> key r \<notin> key ` set old \<and> fits key new (old @ [r])"
  by (auto simp: fits_def)

lemma fits_append: "fits key (xs @ ys) old \<longleftrightarrow> fits key xs old \<and> fits key ys (old @ xs)"
  by (auto simp: fits_def)

lemma insert_issue_iff:
  "insert_issue row st = (None, t) \<longleftrightarrow>
     ir_ID row \<notin> ir_ID ` set (st_issues st) \<and> ir_EpicID row \<in> er_ID ` set (st_epics st) \<and>
     t = st\<lparr>st_issues := st_issues st @ [row]\<rparr>"
  by (auto simp: insert_issue_def)

lemma insert_pull_request_iff:
  "insert_pull_request row st = (None, t) \<longleftrightarrow>
     pr_ID row \<notin> pr_ID ` set (st_pull_requests st) \<and> pr_EpicID row \<in> er_ID ` set (st_epics st) \<and>
     pr_IssueID row \<in> ir_ID ` set (st_issues st) \<and>
     t = st\<lparr>st_pull_requests := st_pull_requests st @ [row]\<rparr>"
  by (auto simp: insert_pull_request_def)

lemma insert_issue_comment_iff:
  "insert_issue_comment row st = (None, t) \<longleftrightarrow>
     cr_ID row \<notin> cr_ID ` set (st_issue_comments st) \<and> cr_Owner row \<in> ir_ID ` set (st_issues st) \<and>
     t = st\<lparr>st_issue_comments := st_issue_comments st @ [row]\<rparr>"
  by (auto simp: insert_issue_comment_def)

lemma insert_pull_request_comment_iff:
  "insert_pull_request_comment row st = (None, t) \<longleftrightarrow>
     cr_ID row \<notin> cr_ID ` set (st_pull_request_comments st) \<and>
     cr_Owner row \<in> pr_ID ` set (st_pull_requests st) \<and>
     t = st\<lparr>st_pull_request_comments := st_pull_request_comments st @ [row]\<rparr>"
  by (auto simp: insert_pull_request_comment_def)

lemma cr_ID_comment_row [simp]: "cr_ID (comment_row owner c) = c_ID c"
  and cr_Owner_comment_row [simp]: "cr_Owner (comment_row owner c) = owner"
  by (simp_all add: comment_row_def)

lemma ir_simps [simp]: "ir_ID (issue_row J e i) = i_ID i" "ir_EpicID (issue_row J e i) = e"
  by (simp_all add: issue_row_def)

lemma pr_simps [simp]: "pr_ID (pull_request_row J e p) = p_ID p"
  "pr_EpicID (pull_request_row J e p) = e" "pr_IssueID (pull_request_row J e p) = p_IssueID p"
  by (simp_all add: pull_request_row_def)

lemma writeIssueComments_iff:
  assumes "owner \<in> ir_ID ` set (st_issues st)"
  shows "writeIssueComments owner cs st = (None, t) \<longleftrightarrow>
     fits cr_ID (map (comment_row owner) cs) (st_issue_comments st) \<and>
     t = st\<lparr>st_issue_comments := st_issue_comments st @ map (comment_row owner) cs\<rparr>"
  using assms
proof (induction cs arbitrary: st)
  case (Cons c cs)
  then show ?case
    by (auto simp: writeIssueComments_def then_do_None_iff insert_issue_comment_iff fits_Cons)
qed (auto simp: writeIssueComments_def)

lemma writePullRequestComments_iff:
  assumes "owner \<in> pr_ID ` set (st_pull_requests st)"
  shows "writePullRequestComments owner cs st = (None, t) \<longleftrightarrow>
     fits cr_ID (map (comment_row owner) cs) (st_pull_request_comments st) \<and>
     t = st\<lparr>st_pull_request_comments := st_pull_request_comments st @ map (comment_row owner) cs\<rparr>"
  using assms
proof (induction cs arbitrary: st)
  case (Cons c cs)
  then show ?case
    by (auto simp: writePullRequestComments_def then_do_None_iff insert_pull_request_comment_iff fits_Cons)
qed (auto simp: writePullRequestComments_def)

lemma write_issues_iff:
  assumes "epicID \<in> er_ID ` set (st_epics st)"
  shows "do_each (write_issue J epicID) is st = (None, t) \<longleftrightarrow>
     fits ir_ID (map (issue_row J epicID) is) (st_issues st) \<and>
     fits cr_ID (issue_comment_rows is) (st_issue_comments st) \<and>
     t = st\<lparr>st_issues := st_issues st @ map (issue_row J epicID) is,
            st_issue_comments := st_issue_comments st @ issue_comment_rows is\<rparr>"
  using assms
proof (induction "is" arbitrary: st)
  case (Cons i "is")
  let ?s = "st\<lparr>st_issues := st_issues st @ [issue_row J epicID i]\<rparr>"
  have w: "write_issue J epicID i st = (None, u) \<longleftrightarrow>
      i_ID i \<notin> ir_ID ` set (st_issues st) \<and>
      fits cr_ID (map (comment_row (i_ID i)) (i_Comments i)) (st_issue_comments st) \<and>
      u = ?s\<lparr>st_issue_comments := st_issue_comments st @ map (comment_row (i_ID i)) (i_Comments i)\<rparr>" for u
    using Cons.prems writeIssueComments_iff [of "i_ID i" ?s]
    by (auto simp: write_issue_def then_do_None_iff insert_issue_iff)
  show ?case
    using Cons.prems
    by (auto simp: then_do_None_iff w Cons.IH fits_Cons fits_append issue_comment_rows_def)
qed (auto simp: issue_comment_rows_def fits_def)

lemma write_pull_requests_iff:
  assumes "epicID \<in> er_ID ` set (st_epics st)"
    and "p_IssueID ` set ps \<subseteq> ir_ID ` set (st_issues st)"
  shows "do_each (write_pull_request J epicID) ps st = (None, t) \<longleftrightarrow>
     fits pr_ID (map (pull_request_row J epicID) ps) (st_pull_requests st) \<and>
     fits cr_ID (pull_request_comment_rows ps) (st_pull_request_comments st) \<and>
     t = st\<lparr>st_pull_requests := st_pull_requests st @ map (pull_request_row J epicID) ps,
            st_pull_request_comments := st_pull_request_comments st @ pull_request_comment_rows ps\<rparr>"
  using assms
proof (induction ps arbitrary: st)
  case (Cons p ps)
  let ?s = "st\<lparr>st_pull_requests := st_pull_requests st @ [pull_request_row J epicID p]\<rparr>"
  have w: "write_pull_request J epicID p st = (None, u) \<longleftrightarrow>
      p_ID p \<notin> pr_ID ` set (st_pull_requests st) \<and>
      fits cr_ID (map (comment_row (p_ID p)) (p_Comments p)) (st_pull_request_comments st) \<and>
      u = ?s\<lparr>st_pull_request_comments :=
        st_pull_request_comments st @ map (comment_row (p_ID p)) (p_Comments p)\<rparr>" for u
    using Cons.prems writePullRequestComments_iff [of "p_ID p" ?s]
    by (auto simp: write_pull_request_def then_do_None_iff insert_pull_request_iff)
  show ?case
    using Cons.prems
    by (auto simp: then_do_None_iff w Cons.IH fits_Cons fits_append pull_request_comment_rows_def)
qed (auto simp: pull_request_comment_rows_def fits_def)


section \<open>The invariant of the tables\<close>

text \<open>
  What the schema guarantees: the primary keys are unique, every issue has its epic and every
  comment its owner; and what the aggregates add: a pull request belongs to the epic of its issue.
\<close>

definition store_ok :: "Store \<Rightarrow> bool" where
  "store_ok st \<longleftrightarrow>
     distinct (map er_ID (st_epics st)) \<and> distinct (map ir_ID (st_issues st)) \<and>
     distinct (map pr_ID (st_pull_requests st)) \<and> distinct (map cr_ID (st_issue_comments st)) \<and>
     distinct (map cr_ID (st_pull_request_comments st)) \<and>
     ir_EpicID ` set (st_issues st) \<subseteq> er_ID ` set (st_epics st) \<and>
     (\<forall>p \<in> set (st_pull_requests st). \<exists>i \<in> set (st_issues st).
        ir_ID i = pr_IssueID p \<and> ir_EpicID i = pr_EpicID p) \<and>
     cr_Owner ` set (st_issue_comments st) \<subseteq> ir_ID ` set (st_issues st) \<and>
     cr_Owner ` set (st_pull_request_comments st) \<subseteq> pr_ID ` set (st_pull_requests st)"

definition empty_store :: Store where
  "empty_store = \<lparr>st_epics = [], st_issues = [], st_pull_requests = [], st_issue_comments = [],
     st_pull_request_comments = []\<rparr>"

text \<open>The store without an epic, and with its new version.\<close>

definition dead_issues :: "string \<Rightarrow> Store \<Rightarrow> string set" where
  "dead_issues id' st = ir_ID ` {r \<in> set (st_issues st). ir_EpicID r = id'}"

definition dead_pull_requests :: "string \<Rightarrow> Store \<Rightarrow> string set" where
  "dead_pull_requests id' st = pr_ID ` {r \<in> set (st_pull_requests st). pr_EpicID r = id'}"

definition without_epic :: "string \<Rightarrow> Store \<Rightarrow> Store" where
  "without_epic id' st = \<lparr>st_epics = filter (\<lambda>r. er_ID r \<noteq> id') (st_epics st),
     st_issues = filter (\<lambda>r. ir_EpicID r \<noteq> id') (st_issues st),
     st_pull_requests = filter (\<lambda>r. pr_EpicID r \<noteq> id') (st_pull_requests st),
     st_issue_comments = filter (\<lambda>r. cr_Owner r \<notin> dead_issues id' st) (st_issue_comments st),
     st_pull_request_comments =
       filter (\<lambda>r. cr_Owner r \<notin> dead_pull_requests id' st) (st_pull_request_comments st)\<rparr>"

definition with_epic :: "json_codec \<Rightarrow> Epic \<Rightarrow> Store \<Rightarrow> Store" where
  "with_epic J e st = \<lparr>st_epics = st_epics st @ [epic_row J e],
     st_issues = st_issues st @ map (issue_row J (e_ID e)) (e_Issues e),
     st_pull_requests = st_pull_requests st @ map (pull_request_row J (e_ID e)) (e_PullRequests e),
     st_issue_comments = st_issue_comments st @ issue_comment_rows (e_Issues e),
     st_pull_request_comments =
       st_pull_request_comments st @ pull_request_comment_rows (e_PullRequests e)\<rparr>"

text \<open>None of the IDs of the aggregate's parts is in use, twice or by another epic.\<close>

definition ids_free :: "json_codec \<Rightarrow> Epic \<Rightarrow> Store \<Rightarrow> bool" where
  "ids_free J e st \<longleftrightarrow>
     fits ir_ID (map (issue_row J (e_ID e)) (e_Issues e)) (st_issues st) \<and>
     fits pr_ID (map (pull_request_row J (e_ID e)) (e_PullRequests e)) (st_pull_requests st) \<and>
     fits cr_ID (issue_comment_rows (e_Issues e)) (st_issue_comments st) \<and>
     fits cr_ID (pull_request_comment_rows (e_PullRequests e)) (st_pull_request_comments st)"

lemma store_ok_empty: "store_ok empty_store"
  by (simp add: store_ok_def empty_store_def)

lemma distinct_key_eq: "distinct (map k xs) \<Longrightarrow> x \<in> set xs \<Longrightarrow> y \<in> set xs \<Longrightarrow> k x = k y \<Longrightarrow> x = y"
  by (auto simp: distinct_map inj_on_def)

lemma distinct_map_filter: "distinct (map k xs) \<Longrightarrow> distinct (map k (filter P xs))"
  by (simp add: distinct_map inj_on_def)

lemma delete_epic_ok:
  assumes ok: "store_ok st"
  shows "delete_epic id' st = (None, without_epic id' st)"
proof -
  have "pr_IssueID p \<notin> dead_issues id' st" if p: "p \<in> set (st_pull_requests st)" "pr_EpicID p \<noteq> id'" for p
  proof
    assume "pr_IssueID p \<in> dead_issues id' st"
    then obtain j where j: "j \<in> set (st_issues st)" "ir_EpicID j = id'" "ir_ID j = pr_IssueID p"
      by (auto simp: dead_issues_def)
    from ok p obtain i where i: "i \<in> set (st_issues st)" "ir_ID i = pr_IssueID p" "ir_EpicID i = pr_EpicID p"
      unfolding store_ok_def by blast
    from ok have "distinct (map ir_ID (st_issues st))" by (simp add: store_ok_def)
    from distinct_key_eq [OF this i(1) j(1)] i j have "i = j" by simp
    with i j p show False by simp
  qed
  then show ?thesis
    by (auto simp: delete_epic_def Let_def list_ex_iff without_epic_def dead_issues_def
      dead_pull_requests_def)
qed

lemma writeEpic_iff:
  assumes "e_ID e \<notin> er_ID ` set (st_epics st)" and "p_IssueID ` set (e_PullRequests e) \<subseteq> issue_ids e"
  shows "writeEpic J e st = (None, t) \<longleftrightarrow> ids_free J e st \<and> t = with_epic J e st"
proof -
  have "insert_epic (epic_row J e) st = (None, st\<lparr>st_epics := st_epics st @ [epic_row J e]\<rparr>)"
    using assms(1) by (simp add: insert_epic_def epic_row_def)
  moreover have "e_ID e \<in> er_ID ` set (st_epics (st\<lparr>st_epics := st_epics st @ [epic_row J e]\<rparr>))"
    by (simp add: epic_row_def)
  moreover have "p_IssueID ` set (e_PullRequests e) \<subseteq>
      ir_ID ` set (st_issues st @ map (issue_row J (e_ID e)) (e_Issues e))"
    using assms(2) by (simp add: issue_ids_def image_Un image_image) blast
  ultimately show ?thesis
    by (auto simp: writeEpic_def then_do_None_iff write_issues_iff write_pull_requests_iff ids_free_def
      with_epic_def)
qed

lemma well_formed_references: "well_formed e \<Longrightarrow> p_IssueID ` set (e_PullRequests e) \<subseteq> issue_ids e"
  by (auto simp: well_formed_def)

lemma Validate_the: "the (Validate e) = None \<longleftrightarrow> well_formed e"
  using Validate_returns [of e] Validate_iff [of e] by auto

lemma transaction_None_iff:
  "transaction fault body st = (None, t) \<longleftrightarrow> fault = None \<and> body st = (None, t)"
  by (auto simp: transaction_def split: option.splits prod.splits)

lemma WriteEpic_iff:
  assumes ok: "store_ok st"
  shows "WriteEpic J fault e st = (None, t) \<longleftrightarrow>
     well_formed e \<and> fault = None \<and> ids_free J e (without_epic (e_ID e) st) \<and>
     t = with_epic J e (without_epic (e_ID e) st)"
proof (cases "the (Validate e)")
  case None
  then have wf: "well_formed e" by (simp add: Validate_the)
  have "e_ID e \<notin> er_ID ` set (st_epics (without_epic (e_ID e) st))" by (auto simp: without_epic_def)
  from writeEpic_iff [OF this well_formed_references [OF wf]] None wf show ?thesis
    by (simp add: WriteEpic_def transaction_None_iff then_do_None_iff delete_epic_ok [OF ok])
next
  case (Some err)
  then show ?thesis using Validate_the [of e] by (simp add: WriteEpic_def)
qed

lemma atomic_WriteEpic: "atomic (WriteEpic J fault e)"
  by (rule atomicI) (auto simp: WriteEpic_def transaction_def split: option.splits prod.splits)


lemma without_epic_issues: "r \<in> set (st_issues (without_epic id' st)) \<longleftrightarrow> r \<in> set (st_issues st) \<and> ir_EpicID r \<noteq> id'"
  by (auto simp: without_epic_def)

lemma store_ok_without_epic:
  assumes ok: "store_ok st"
  shows "store_ok (without_epic id' st)"
proof -
  have own: "cr_Owner ` set (st_issue_comments st) \<subseteq> ir_ID ` set (st_issues st)"
    "cr_Owner ` set (st_pull_request_comments st) \<subseteq> pr_ID ` set (st_pull_requests st)"
    using ok by (simp_all add: store_ok_def)
  have c: "ir_ID ` set (st_issues st) - dead_issues id' st \<subseteq> ir_ID ` set (st_issues (without_epic id' st))"
    "pr_ID ` set (st_pull_requests st) - dead_pull_requests id' st
       \<subseteq> pr_ID ` set (st_pull_requests (without_epic id' st))"
    by (auto simp: dead_issues_def dead_pull_requests_def without_epic_def)
  have "cr_Owner ` set (st_issue_comments (without_epic id' st))
      \<subseteq> cr_Owner ` set (st_issue_comments st) - dead_issues id' st"
    "cr_Owner ` set (st_pull_request_comments (without_epic id' st))
      \<subseteq> cr_Owner ` set (st_pull_request_comments st) - dead_pull_requests id' st"
    by (auto simp: without_epic_def)
  with c own have o: "cr_Owner ` set (st_issue_comments (without_epic id' st))
      \<subseteq> ir_ID ` set (st_issues (without_epic id' st))"
    "cr_Owner ` set (st_pull_request_comments (without_epic id' st))
      \<subseteq> pr_ID ` set (st_pull_requests (without_epic id' st))"
    by (meson Diff_mono order_refl order_trans)+
  have e: "ir_EpicID ` set (st_issues (without_epic id' st)) \<subseteq> er_ID ` set (st_epics (without_epic id' st))"
    using ok by (auto simp: store_ok_def without_epic_def)
  have p: "\<forall>p \<in> set (st_pull_requests (without_epic id' st)). \<exists>i \<in> set (st_issues (without_epic id' st)).
      ir_ID i = pr_IssueID p \<and> ir_EpicID i = pr_EpicID p"
  proof
    fix p assume "p \<in> set (st_pull_requests (without_epic id' st))"
    then have p: "p \<in> set (st_pull_requests st)" "pr_EpicID p \<noteq> id'" by (auto simp: without_epic_def)
    with ok obtain i where "i \<in> set (st_issues st)" "ir_ID i = pr_IssueID p" "ir_EpicID i = pr_EpicID p"
      unfolding store_ok_def by blast
    with p show "\<exists>i \<in> set (st_issues (without_epic id' st)). ir_ID i = pr_IssueID p \<and> ir_EpicID i = pr_EpicID p"
      unfolding Bex_def without_epic_issues by (intro exI [of _ i]) simp
  qed
  have "distinct (map er_ID (st_epics (without_epic id' st)))"
    "distinct (map ir_ID (st_issues (without_epic id' st)))"
    "distinct (map pr_ID (st_pull_requests (without_epic id' st)))"
    "distinct (map cr_ID (st_issue_comments (without_epic id' st)))"
    "distinct (map cr_ID (st_pull_request_comments (without_epic id' st)))"
    using ok by (simp_all add: store_ok_def without_epic_def distinct_map_filter)
  with o e p show ?thesis by (simp add: store_ok_def)
qed

lemma fits_distinct: "distinct (map k old) \<Longrightarrow> fits k new old \<Longrightarrow> distinct (map k (old @ new))"
  by (auto simp: fits_def)

lemma issue_comment_owners: "cr_Owner ` set (issue_comment_rows is) \<subseteq> i_ID ` set is"
  by (auto simp: issue_comment_rows_def)

lemma pull_request_comment_owners: "cr_Owner ` set (pull_request_comment_rows ps) \<subseteq> p_ID ` set ps"
  by (auto simp: pull_request_comment_rows_def)

lemma store_ok_with_epic:
  assumes ok: "store_ok st" and free: "ids_free J e st" and new: "e_ID e \<notin> er_ID ` set (st_epics st)"
    and refs: "p_IssueID ` set (e_PullRequests e) \<subseteq> issue_ids e"
  shows "store_ok (with_epic J e st)"
proof -
  have row: "er_ID (epic_row J e) = e_ID e" by (simp add: epic_row_def)
  have own: "cr_Owner ` set (st_issue_comments st) \<subseteq> ir_ID ` set (st_issues st) \<and>
    cr_Owner ` set (st_pull_request_comments st) \<subseteq> pr_ID ` set (st_pull_requests st)"
    using ok by (simp add: store_ok_def)
  have "distinct (map er_ID (st_epics (with_epic J e st)))"
    using ok new by (simp add: store_ok_def with_epic_def row)
  moreover have "distinct (map ir_ID (st_issues (with_epic J e st)))"
    "distinct (map pr_ID (st_pull_requests (with_epic J e st)))"
    "distinct (map cr_ID (st_issue_comments (with_epic J e st)))"
    "distinct (map cr_ID (st_pull_request_comments (with_epic J e st)))"
    using ok free unfolding store_ok_def ids_free_def with_epic_def Store.simps
    by (simp_all only: fits_distinct)
  moreover have "ir_EpicID ` set (st_issues (with_epic J e st)) \<subseteq> er_ID ` set (st_epics (with_epic J e st))"
    using ok by (auto simp: store_ok_def with_epic_def row)
  moreover have "cr_Owner ` set (st_issue_comments (with_epic J e st)) \<subseteq> ir_ID ` set (st_issues (with_epic J e st))"
    using conjunct1 [OF own] issue_comment_owners [of "e_Issues e"]
    by (simp add: with_epic_def image_Un image_image le_supI1 le_supI2)
  moreover have "cr_Owner ` set (st_pull_request_comments (with_epic J e st))
      \<subseteq> pr_ID ` set (st_pull_requests (with_epic J e st))"
    using conjunct2 [OF own] pull_request_comment_owners [of "e_PullRequests e"]
    by (simp add: with_epic_def image_Un image_image le_supI1 le_supI2)
  moreover have "\<exists>i \<in> set (st_issues (with_epic J e st)). ir_ID i = pr_IssueID p \<and> ir_EpicID i = pr_EpicID p"
    if p: "p \<in> set (st_pull_requests (with_epic J e st))" for p
  proof -
    from p consider (old) "p \<in> set (st_pull_requests st)"
      | (new) q where "q \<in> set (e_PullRequests e)" "p = pull_request_row J (e_ID e) q"
      by (auto simp: with_epic_def)
    then show ?thesis
    proof cases
      case old
      with ok have "\<exists>i \<in> set (st_issues st). ir_ID i = pr_IssueID p \<and> ir_EpicID i = pr_EpicID p"
        by (simp add: store_ok_def)
      then show ?thesis by (auto simp: with_epic_def)
    next
      case new
      with refs obtain i where "i \<in> set (e_Issues e)" "i_ID i = p_IssueID q" by (auto simp: issue_ids_def)
      with new show ?thesis by (intro bexI [of _ "issue_row J (e_ID e) i"]) (simp_all add: with_epic_def)
    qed
  qed
  ultimately show ?thesis by (simp add: store_ok_def)
qed

lemma store_ok_WriteEpic:
  assumes "store_ok st" and "WriteEpic J fault e st = (None, t)"
  shows "store_ok t"
proof -
  have "e_ID e \<notin> er_ID ` set (st_epics (without_epic (e_ID e) st))" by (auto simp: without_epic_def)
  with assms show ?thesis
    by (simp add: WriteEpic_iff well_formed_references store_ok_with_epic store_ok_without_epic)
qed


section \<open>Reading back\<close>

text \<open>The codec is faithful on the lists of an aggregate, as \<open>encoding/json\<close> is on lists of valid UTF-8.\<close>

definition json_faithful :: "json_codec \<Rightarrow> Epic \<Rightarrow> bool" where
  "json_faithful J e \<longleftrightarrow>
     unmarshal J (marshal J (e_Repositories e)) = Inr (e_Repositories e) \<and>
     (\<forall>i \<in> set (e_Issues e). unmarshal J (marshal J (i_BlockedBy i)) = Inr (i_BlockedBy i)) \<and>
     (\<forall>p \<in> set (e_PullRequests e). unmarshal_flags J (marshal_flags J (p_Flags p)) = Inr (p_Flags p))"

lemma find_append_miss: "(\<And>x. x \<in> set xs \<Longrightarrow> \<not> P x) \<Longrightarrow> find P (xs @ ys) = find P ys"
  by (induction xs) auto

lemma find_append_end: "\<not> P y \<Longrightarrow> find P (xs @ [y]) = find P xs"
  by (induction xs) auto

lemma find_filter: "(\<And>x. P x \<Longrightarrow> Q x) \<Longrightarrow> find P (filter Q xs) = find P xs"
  by (induction xs) auto

lemma commentsFrom_comment_row [simp]: "commentsFrom (map (comment_row owner) cs) = cs"
  by (simp add: commentsFrom_def comment_row_def o_def map_idI)

lemma select_comments_split:
  assumes "filter (\<lambda>r. cr_Owner r = owner) rows = map (comment_row owner) cs"
  shows "commentsFrom (select_comments owner rows) = sort_comments cs"
proof -
  have k: "(\<lambda>c. (cr_CreatedAt (comment_row owner c), cr_ID (comment_row owner c))) = (\<lambda>c. (c_CreatedAt c, c_ID c))"
    by (simp add: comment_row_def)
  show ?thesis
    unfolding select_comments_def assms sort_key_map k by (simp add: sort_comments_def)
qed

lemma filter_owner_none: "owner \<notin> cr_Owner ` set rows \<Longrightarrow> filter (\<lambda>r. cr_Owner r = owner) rows = []"
  by (auto simp: filter_empty_conv)

lemma filter_owner_rows:
  "filter (\<lambda>r. cr_Owner r = owner) (map (comment_row owner') cs) = (if owner' = owner then map (comment_row owner) cs else [])"
  by (induction cs) auto

lemma issue_comments_of:
  "distinct (map i_ID is) \<Longrightarrow> i \<in> set is \<Longrightarrow>
     filter (\<lambda>r. cr_Owner r = i_ID i) (issue_comment_rows is) = map (comment_row (i_ID i)) (i_Comments i)"
proof (induction "is")
  case (Cons j "is")
  have head: "filter (\<lambda>r. cr_Owner r = i_ID i) (issue_comment_rows (j # is)) =
      (if i_ID j = i_ID i then map (comment_row (i_ID i)) (i_Comments j) else []) @
      filter (\<lambda>r. cr_Owner r = i_ID i) (issue_comment_rows is)"
    by (simp add: issue_comment_rows_def filter_owner_rows)
  show ?case
  proof (cases "i = j")
    case True
    with Cons.prems have "i_ID i \<notin> i_ID ` set is" by simp
    with issue_comment_owners [of "is"] have "i_ID i \<notin> cr_Owner ` set (issue_comment_rows is)" by blast
    with head True show ?thesis by (simp add: filter_owner_none)
  next
    case False
    with Cons.prems have "i \<in> set is" "i_ID j \<noteq> i_ID i" by (auto simp: image_iff)
    with head Cons show ?thesis by simp
  qed
qed simp

lemma pull_request_comments_of:
  "distinct (map p_ID ps) \<Longrightarrow> p \<in> set ps \<Longrightarrow>
     filter (\<lambda>r. cr_Owner r = p_ID p) (pull_request_comment_rows ps) = map (comment_row (p_ID p)) (p_Comments p)"
proof (induction ps)
  case (Cons q ps)
  have head: "filter (\<lambda>r. cr_Owner r = p_ID p) (pull_request_comment_rows (q # ps)) =
      (if p_ID q = p_ID p then map (comment_row (p_ID p)) (p_Comments q) else []) @
      filter (\<lambda>r. cr_Owner r = p_ID p) (pull_request_comment_rows ps)"
    by (simp add: pull_request_comment_rows_def filter_owner_rows)
  show ?case
  proof (cases "p = q")
    case True
    with Cons.prems have "p_ID p \<notin> p_ID ` set ps" by simp
    with pull_request_comment_owners [of ps]
    have "p_ID p \<notin> cr_Owner ` set (pull_request_comment_rows ps)" by blast
    with head True show ?thesis by (simp add: filter_owner_none)
  next
    case False
    with Cons.prems have "p \<in> set ps" "p_ID q \<noteq> p_ID p" by (auto simp: image_iff)
    with head Cons show ?thesis by simp
  qed
qed simp

text \<open>The two loops of the reader on rows the writer made.\<close>

lemma read_issues_rows:
  "(\<And>i. i \<in> set is \<Longrightarrow> unmarshal J (marshal J (i_BlockedBy i)) = Inr (i_BlockedBy i) \<and>
      readIssueComments (i_ID i) st = sort_comments (i_Comments i)) \<Longrightarrow>
   read_issues J st (map (issue_row J epicID) is) acc = Inr (acc @ map canonical_issue is)"
proof (induction "is" arbitrary: acc)
  case (Cons i "is")
  have "canonical_issue i = \<lparr>i_ID = i_ID i, i_Title = i_Title i, i_ParentID = i_ParentID i,
      i_Repository = i_Repository i, i_State = i_State i, i_CreatedAt = i_CreatedAt i,
      i_Body = i_Body i, i_Comments = sort_comments (i_Comments i), i_BlockedBy = i_BlockedBy i\<rparr>"
    by (cases i) (simp add: canonical_issue_def)
  with Cons.prems [of i] Cons.IH [OF Cons.prems] show ?case by (simp add: issue_row_def)
qed simp

lemma read_pull_requests_rows:
  "(\<And>p. p \<in> set ps \<Longrightarrow> unmarshal_flags J (marshal_flags J (p_Flags p)) = Inr (p_Flags p) \<and>
      readPullRequestComments (p_ID p) st = sort_comments (p_Comments p)) \<Longrightarrow>
   read_pull_requests J st (map (pull_request_row J epicID) ps) acc = Inr (acc @ map canonical_pull_request ps)"
proof (induction ps arbitrary: acc)
  case (Cons p ps)
  have "canonical_pull_request p = \<lparr>p_ID = p_ID p, p_IssueID = p_IssueID p, p_Title = p_Title p,
      p_Status = p_Status p, p_Repository = p_Repository p, p_Number = p_Number p, p_URL = p_URL p,
      p_Head = p_Head p, p_Base = p_Base p, p_Flags = p_Flags p, p_ReviewedHead = p_ReviewedHead p,
      p_ReviewedBase = p_ReviewedBase p, p_Rounds = p_Rounds p, p_Reviews = p_Reviews p,
      p_RoundsGranted = p_RoundsGranted p, p_CodingRounds = p_CodingRounds p,
      p_Approved = p_Approved p, p_CreatedAt = p_CreatedAt p, p_Comments = sort_comments (p_Comments p)\<rparr>"
    by (cases p) (simp add: canonical_pull_request_def)
  with Cons.prems [of p] Cons.IH [OF Cons.prems] show ?case by (simp add: pull_request_row_def)
qed simp

text \<open>They look at the store only for the comments of their rows.\<close>

lemma read_issues_cong:
  "(\<And>r. r \<in> set rows \<Longrightarrow> readIssueComments (ir_ID r) st = readIssueComments (ir_ID r) st') \<Longrightarrow>
   read_issues J st rows acc = read_issues J st' rows acc"
  by (induction rows arbitrary: acc) (auto split: sum.splits)

lemma read_pull_requests_cong:
  "(\<And>r. r \<in> set rows \<Longrightarrow> readPullRequestComments (pr_ID r) st = readPullRequestComments (pr_ID r) st') \<Longrightarrow>
   read_pull_requests J st rows acc = read_pull_requests J st' rows acc"
  by (induction rows arbitrary: acc) (auto split: sum.splits)


lemma fits_unused: "fits k new old \<Longrightarrow> x \<in> k ` set new \<Longrightarrow> x \<notin> k ` set old"
  by (auto simp: fits_def)

text \<open>The owners of a table's comments are its rows, so the comments of a new row are the new ones.\<close>

lemma new_issue_comments:
  assumes ok: "store_ok st" and free: "ids_free J e st" and i: "i \<in> set (e_Issues e)"
  shows "readIssueComments (i_ID i) (with_epic J e st) = sort_comments (i_Comments i)"
proof -
  have f: "fits ir_ID (map (issue_row J (e_ID e)) (e_Issues e)) (st_issues st)"
    using free by (simp add: ids_free_def)
  have "i_ID i \<in> ir_ID ` set (map (issue_row J (e_ID e)) (e_Issues e))" using i by (simp add: image_image)
  from fits_unused [OF f this] ok have "i_ID i \<notin> cr_Owner ` set (st_issue_comments st)"
    unfolding store_ok_def by blast
  moreover have "distinct (map i_ID (e_Issues e))" using f by (simp add: fits_def o_def)
  ultimately have "filter (\<lambda>r. cr_Owner r = i_ID i) (st_issue_comments (with_epic J e st)) =
      map (comment_row (i_ID i)) (i_Comments i)"
    using i by (simp add: with_epic_def filter_owner_none issue_comments_of)
  then show ?thesis by (simp add: readIssueComments_def select_comments_split)
qed

lemma new_pull_request_comments:
  assumes ok: "store_ok st" and free: "ids_free J e st" and p: "p \<in> set (e_PullRequests e)"
  shows "readPullRequestComments (p_ID p) (with_epic J e st) = sort_comments (p_Comments p)"
proof -
  have f: "fits pr_ID (map (pull_request_row J (e_ID e)) (e_PullRequests e)) (st_pull_requests st)"
    using free by (simp add: ids_free_def)
  have "p_ID p \<in> pr_ID ` set (map (pull_request_row J (e_ID e)) (e_PullRequests e))"
    using p by (simp add: image_image)
  from fits_unused [OF f this] ok have "p_ID p \<notin> cr_Owner ` set (st_pull_request_comments st)"
    unfolding store_ok_def by blast
  moreover have "distinct (map p_ID (e_PullRequests e))" using f by (simp add: fits_def o_def)
  ultimately have "filter (\<lambda>r. cr_Owner r = p_ID p) (st_pull_request_comments (with_epic J e st)) =
      map (comment_row (p_ID p)) (p_Comments p)"
    using p by (simp add: with_epic_def filter_owner_none pull_request_comments_of)
  then show ?thesis by (simp add: readPullRequestComments_def select_comments_split)
qed

lemma old_issue_comments:
  assumes f: "fits ir_ID (map (issue_row J (e_ID e)) (e_Issues e)) (st_issues st)"
    and r: "r \<in> set (st_issues st)"
  shows "readIssueComments (ir_ID r) (with_epic J e st) = readIssueComments (ir_ID r) st"
proof -
  have "ir_ID r \<notin> i_ID ` set (e_Issues e)"
    using f r by (simp add: fits_def image_image) blast
  with issue_comment_owners [of "e_Issues e"]
  have "ir_ID r \<notin> cr_Owner ` set (issue_comment_rows (e_Issues e))" by blast
  then show ?thesis
    by (simp add: readIssueComments_def select_comments_def with_epic_def filter_owner_none)
qed

lemma old_pull_request_comments:
  assumes f: "fits pr_ID (map (pull_request_row J (e_ID e)) (e_PullRequests e)) (st_pull_requests st)"
    and r: "r \<in> set (st_pull_requests st)"
  shows "readPullRequestComments (pr_ID r) (with_epic J e st) = readPullRequestComments (pr_ID r) st"
proof -
  have "pr_ID r \<notin> p_ID ` set (e_PullRequests e)"
    using f r by (simp add: fits_def image_image) blast
  with pull_request_comment_owners [of "e_PullRequests e"]
  have "pr_ID r \<notin> cr_Owner ` set (pull_request_comment_rows (e_PullRequests e))" by blast
  then show ?thesis
    by (simp add: readPullRequestComments_def select_comments_def with_epic_def filter_owner_none)
qed

lemma store_ok_epics:
  assumes ok: "store_ok st"
  shows "ir_EpicID ` set (st_issues st) \<subseteq> er_ID ` set (st_epics st)"
    and "pr_EpicID ` set (st_pull_requests st) \<subseteq> er_ID ` set (st_epics st)"
proof -
  show i: "ir_EpicID ` set (st_issues st) \<subseteq> er_ID ` set (st_epics st)"
    using ok by (simp add: store_ok_def)
  have "\<forall>p \<in> set (st_pull_requests st). \<exists>i \<in> set (st_issues st). ir_EpicID i = pr_EpicID p"
    using ok unfolding store_ok_def by metis
  with i show "pr_EpicID ` set (st_pull_requests st) \<subseteq> er_ID ` set (st_epics st)" by force
qed

lemma readEpic_new:
  assumes ok: "store_ok st" and free: "ids_free J e st" and new: "e_ID e \<notin> er_ID ` set (st_epics st)"
    and wf: "well_formed e" and json: "json_faithful J e"
  shows "readEpic J (e_ID e) (with_epic J e st) = Inr (canonical e)"
proof -
  let ?t = "with_epic J e st"
  let ?is = "sort_key (\<lambda>i. (i_CreatedAt i, i_ID i)) (e_Issues e)"
  let ?ps = "sort_key (\<lambda>p. (p_CreatedAt p, p_ID p)) (e_PullRequests e)"
  have row: "find (\<lambda>r. er_ID r = e_ID e) (st_epics ?t) = Some (epic_row J e)"
  proof -
    have "find (\<lambda>r. er_ID r = e_ID e) (st_epics st @ [epic_row J e]) = find (\<lambda>r. er_ID r = e_ID e) [epic_row J e]"
      by (rule find_append_miss) (metis new image_eqI)
    then show ?thesis by (simp add: with_epic_def epic_row_def)
  qed
  have "filter (\<lambda>r. ir_EpicID r = e_ID e) (st_issues st) = []"
    unfolding filter_empty_conv using store_ok_epics(1) [OF ok] new by (metis image_eqI subsetD)
  then have "filter (\<lambda>r. ir_EpicID r = e_ID e) (st_issues ?t) = map (issue_row J (e_ID e)) (e_Issues e)"
    by (simp add: with_epic_def filter_map o_def)
  then have issues: "sort_key (\<lambda>r. (ir_CreatedAt r, ir_ID r)) (filter (\<lambda>r. ir_EpicID r = e_ID e) (st_issues ?t)) =
      map (issue_row J (e_ID e)) ?is"
    by (simp add: sort_key_map) (simp add: issue_row_def)
  have "filter (\<lambda>r. pr_EpicID r = e_ID e) (st_pull_requests st) = []"
    unfolding filter_empty_conv using store_ok_epics(2) [OF ok] new by (metis image_eqI subsetD)
  then have "filter (\<lambda>r. pr_EpicID r = e_ID e) (st_pull_requests ?t) =
      map (pull_request_row J (e_ID e)) (e_PullRequests e)"
    by (simp add: with_epic_def filter_map o_def)
  then have prs: "sort_key (\<lambda>r. (pr_CreatedAt r, pr_ID r)) (filter (\<lambda>r. pr_EpicID r = e_ID e) (st_pull_requests ?t)) =
      map (pull_request_row J (e_ID e)) ?ps"
    by (simp add: sort_key_map) (simp add: pull_request_row_def)
  have ri: "read_issues J ?t (map (issue_row J (e_ID e)) ?is) [] = Inr (map canonical_issue ?is)"
    using json by (subst read_issues_rows) (auto simp: json_faithful_def new_issue_comments [OF ok free])
  have rp: "read_pull_requests J ?t (map (pull_request_row J (e_ID e)) ?ps) [] = Inr (map canonical_pull_request ?ps)"
    using json
    by (subst read_pull_requests_rows) (auto simp: json_faithful_def new_pull_request_comments [OF ok free])
  have rr: "unmarshal J (er_Repositories (epic_row J e)) = Inr (e_Repositories e)"
    using json by (simp add: json_faithful_def epic_row_def)
  have agg: "\<lparr>e_ID = er_ID (epic_row J e), e_Title = er_Title (epic_row J e), e_Assignee = er_Assignee (epic_row J e),
      e_Repositories = e_Repositories e, e_Body = er_Body (epic_row J e), e_State = er_State (epic_row J e),
      e_BranchPrefix = er_BranchPrefix (epic_row J e), e_Issues = map canonical_issue ?is,
      e_PullRequests = map canonical_pull_request ?ps,
      e_DraftingPasses = er_DraftingPasses (epic_row J e)\<rparr> = canonical e"
    by (cases e) (simp add: canonical_def epic_row_def)
  have valid: "the (Validate (canonical e)) = None" by (simp add: Validate_the well_formed_canonical wf)
  show ?thesis
    by (simp only: readEpic_def row issues prs ri rp rr agg Let_def valid option.case sum.case)
qed


lemma readEpic_cong:
  assumes "find (\<lambda>r. er_ID r = x) (st_epics t) = find (\<lambda>r. er_ID r = x) (st_epics st)"
    and i: "filter (\<lambda>r. ir_EpicID r = x) (st_issues t) = filter (\<lambda>r. ir_EpicID r = x) (st_issues st)"
    and p: "filter (\<lambda>r. pr_EpicID r = x) (st_pull_requests t) = filter (\<lambda>r. pr_EpicID r = x) (st_pull_requests st)"
    and ic: "\<And>r. r \<in> set (st_issues st) \<Longrightarrow> ir_EpicID r = x \<Longrightarrow>
      readIssueComments (ir_ID r) t = readIssueComments (ir_ID r) st"
    and pc: "\<And>r. r \<in> set (st_pull_requests st) \<Longrightarrow> pr_EpicID r = x \<Longrightarrow>
      readPullRequestComments (pr_ID r) t = readPullRequestComments (pr_ID r) st"
  shows "readEpic J x t = readEpic J x st"
proof -
  have "read_issues J t (sort_key (\<lambda>r. (ir_CreatedAt r, ir_ID r)) (filter (\<lambda>r. ir_EpicID r = x) (st_issues st))) [] =
      read_issues J st (sort_key (\<lambda>r. (ir_CreatedAt r, ir_ID r)) (filter (\<lambda>r. ir_EpicID r = x) (st_issues st))) []"
    by (rule read_issues_cong) (simp add: ic)
  moreover have "read_pull_requests J t
        (sort_key (\<lambda>r. (pr_CreatedAt r, pr_ID r)) (filter (\<lambda>r. pr_EpicID r = x) (st_pull_requests st))) [] =
      read_pull_requests J st
        (sort_key (\<lambda>r. (pr_CreatedAt r, pr_ID r)) (filter (\<lambda>r. pr_EpicID r = x) (st_pull_requests st))) []"
    by (rule read_pull_requests_cong) (simp add: pc)
  ultimately show ?thesis by (simp only: readEpic_def assms(1) i p)
qed

lemma readEpic_with_other:
  assumes free: "ids_free J e st" and x: "x \<noteq> e_ID e"
  shows "readEpic J x (with_epic J e st) = readEpic J x st"
proof (rule readEpic_cong)
  show "find (\<lambda>r. er_ID r = x) (st_epics (with_epic J e st)) = find (\<lambda>r. er_ID r = x) (st_epics st)"
    using x by (simp add: with_epic_def find_append_end epic_row_def)
  show "filter (\<lambda>r. ir_EpicID r = x) (st_issues (with_epic J e st)) = filter (\<lambda>r. ir_EpicID r = x) (st_issues st)"
    using x by (auto simp: with_epic_def filter_empty_conv)
  show "filter (\<lambda>r. pr_EpicID r = x) (st_pull_requests (with_epic J e st)) =
      filter (\<lambda>r. pr_EpicID r = x) (st_pull_requests st)"
    using x by (auto simp: with_epic_def filter_empty_conv)
  from free have f: "fits ir_ID (map (issue_row J (e_ID e)) (e_Issues e)) (st_issues st)"
    "fits pr_ID (map (pull_request_row J (e_ID e)) (e_PullRequests e)) (st_pull_requests st)"
    by (simp_all add: ids_free_def)
  show "readIssueComments (ir_ID r) (with_epic J e st) = readIssueComments (ir_ID r) st"
    if "r \<in> set (st_issues st)" for r
    by (rule old_issue_comments [OF f(1) that])
  show "readPullRequestComments (pr_ID r) (with_epic J e st) = readPullRequestComments (pr_ID r) st"
    if "r \<in> set (st_pull_requests st)" for r
    by (rule old_pull_request_comments [OF f(2) that])
qed

lemma filter_filter_other: "(\<And>r. r \<in> set rows \<Longrightarrow> P r \<Longrightarrow> Q r) \<Longrightarrow> filter P (filter Q rows) = filter P rows"
  by (induction rows) auto

lemma readEpic_without_other:
  assumes ok: "store_ok st" and x: "x \<noteq> y"
  shows "readEpic J x (without_epic y st) = readEpic J x st"
proof (rule readEpic_cong)
  have di: "distinct (map ir_ID (st_issues st))" and dp: "distinct (map pr_ID (st_pull_requests st))"
    using ok by (simp_all add: store_ok_def)
  show "find (\<lambda>r. er_ID r = x) (st_epics (without_epic y st)) = find (\<lambda>r. er_ID r = x) (st_epics st)"
    using x by (simp add: without_epic_def find_filter)
  show "filter (\<lambda>r. ir_EpicID r = x) (st_issues (without_epic y st)) = filter (\<lambda>r. ir_EpicID r = x) (st_issues st)"
    unfolding without_epic_def Store.simps by (rule filter_filter_other) (use x in simp)
  show "filter (\<lambda>r. pr_EpicID r = x) (st_pull_requests (without_epic y st)) =
      filter (\<lambda>r. pr_EpicID r = x) (st_pull_requests st)"
    unfolding without_epic_def Store.simps by (rule filter_filter_other) (use x in simp)
  show "readIssueComments (ir_ID r) (without_epic y st) = readIssueComments (ir_ID r) st"
    if r: "r \<in> set (st_issues st)" "ir_EpicID r = x" for r
  proof -
    have "ir_ID r \<notin> dead_issues y st"
      using distinct_key_eq [OF di r(1)] r x by (auto simp: dead_issues_def)
    then have "filter (\<lambda>c. cr_Owner c = ir_ID r) (st_issue_comments (without_epic y st)) =
        filter (\<lambda>c. cr_Owner c = ir_ID r) (st_issue_comments st)"
      unfolding without_epic_def Store.simps by (intro filter_filter_other) simp
    then show ?thesis by (simp add: readIssueComments_def select_comments_def)
  qed
  show "readPullRequestComments (pr_ID r) (without_epic y st) = readPullRequestComments (pr_ID r) st"
    if r: "r \<in> set (st_pull_requests st)" "pr_EpicID r = x" for r
  proof -
    have "pr_ID r \<notin> dead_pull_requests y st"
      using distinct_key_eq [OF dp r(1)] r x by (auto simp: dead_pull_requests_def)
    then have "filter (\<lambda>c. cr_Owner c = pr_ID r) (st_pull_request_comments (without_epic y st)) =
        filter (\<lambda>c. cr_Owner c = pr_ID r) (st_pull_request_comments st)"
      unfolding without_epic_def Store.simps by (intro filter_filter_other) simp
    then show ?thesis by (simp add: readPullRequestComments_def select_comments_def)
  qed
qed

lemma WriteEpic_reads:
  assumes ok: "store_ok st" and json: "json_faithful J e" and w: "WriteEpic J fault e st = (None, t)"
  shows "readEpic J x t = (if x = e_ID e then Inr (canonical e) else readEpic J x st)"
proof -
  let ?s = "without_epic (e_ID e) st"
  from w ok have *: "well_formed e" "ids_free J e ?s" "t = with_epic J e ?s" by (simp_all add: WriteEpic_iff)
  have "e_ID e \<notin> er_ID ` set (st_epics ?s)" by (auto simp: without_epic_def)
  with * readEpic_new [OF store_ok_without_epic [OF ok], of J e "e_ID e"] json
  have "readEpic J (e_ID e) t = Inr (canonical e)" by simp
  then show ?thesis using * readEpic_with_other [OF *(2)] readEpic_without_other [OF ok] by simp
qed


section \<open>The tracker a store holds\<close>

text \<open>
  The abstract view: a map from the IDs of the epics to what they read as. The specification of
  \<open>UpdateEpic\<close> is an update of that map.
\<close>

definition tracker :: "json_codec \<Rightarrow> Store \<Rightarrow> string \<Rightarrow> Epic option" where
  "tracker J st id' = (case readEpic J id' st of Inl _ \<Rightarrow> None | Inr e \<Rightarrow> Some e)"

definition updated_tracker :: "Epic update \<Rightarrow> string \<Rightarrow> (string \<Rightarrow> Epic option) \<Rightarrow> (string \<Rightarrow> Epic option) option" where
  "updated_tracker change id' m =
     (case m id' of
        None \<Rightarrow> None
      | Some d \<Rightarrow>
          (case change d of
             (Some _, _) \<Rightarrow> None
           | (None, d') \<Rightarrow> if well_formed d' then Some (m(e_ID d' \<mapsto> canonical d')) else None))"

lemma tracker_WriteEpic:
  assumes "store_ok st" "json_faithful J e" "WriteEpic J fault e st = (None, t)"
  shows "tracker J t = (tracker J st)(e_ID e \<mapsto> canonical e)"
  by (rule ext) (simp add: tracker_def WriteEpic_reads [OF assms])

lemma tracker_empty: "tracker J empty_store = (\<lambda>_. None)"
  by (rule ext) (simp add: tracker_def readEpic_def empty_store_def)

lemma UpdateEpic_None_iff:
  "UpdateEpic J faults id' change st = (None, t) \<longleftrightarrow>
     (\<exists>d d'. fst faults = None \<and> tracker J st id' = Some d \<and> change d = (None, d') \<and>
        WriteEpic J (snd faults) d' st = (None, t))"
  by (auto simp: UpdateEpic_def ReadEpic_def tracker_def split: sum.splits option.splits prod.splits if_splits)

lemma atomic_UpdateEpic: "atomic (UpdateEpic J faults id' change)"
  by (rule atomicI)
    (auto simp: UpdateEpic_def dest: atomicD [OF atomic_WriteEpic] split: sum.splits option.splits prod.splits if_splits)

lemma canonical_mset:
  "mset (e_Issues (canonical e)) = mset (map canonical_issue (e_Issues e))"
  "mset (e_PullRequests (canonical e)) = mset (map canonical_pull_request (e_PullRequests e))"
  by (simp_all add: canonical_def)

text \<open>C8. A stored epic reads back. On tables that keep the invariant, writing a valid aggregate whose
  parts use no ID of another epic succeeds and keeps the invariant. The aggregate then reads back
  as it was written, with its issues, pull requests and comments ordered by creation time and ID:
  the same parts, still valid, and a second round trip changes nothing. Every other epic reads as
  it did before.\<close>

theorem stored_epic_reads_back:
  assumes "store_ok st" and "well_formed e" and "ids_free J e (without_epic (e_ID e) st)"
    and "json_faithful J e"
  shows "\<exists>t. WriteEpic J None e st = (None, t) \<and> store_ok t \<and>
    ReadEpic J None (e_ID e) t = Inr (canonical e) \<and>
    (\<forall>x. x \<noteq> e_ID e \<longrightarrow> ReadEpic J None x t = ReadEpic J None x st) \<and>
    mset (e_Issues (canonical e)) = mset (map canonical_issue (e_Issues e)) \<and>
    mset (e_PullRequests (canonical e)) = mset (map canonical_pull_request (e_PullRequests e)) \<and>
    well_formed (canonical e) \<and> canonical (canonical e) = canonical e"
proof -
  have w: "WriteEpic J None e st = (None, with_epic J e (without_epic (e_ID e) st))"
    using assms by (simp add: WriteEpic_iff)
  with assms show ?thesis
    by (intro exI [of _ "with_epic J e (without_epic (e_ID e) st)"])
      (simp add: ReadEpic_def store_ok_WriteEpic [OF assms(1) w] WriteEpic_reads [OF assms(1,4) w]
        canonical_mset well_formed_canonical)
qed

text \<open>C7. Updating an epic is a transaction on the map of epics. Whatever the change does, and whatever
  fails (the read, the change, the validity of its result, a statement, a clash of IDs), an
  unsuccessful \<open>UpdateEpic\<close> leaves every table as it was; a successful one maps to the
  specification: the epic is replaced by the changed one, nothing else moves, and the invariant of
  the tables is kept.\<close>

theorem UpdateEpic_refines_tracker:
  assumes "store_ok st"
    and "\<And>d d'. tracker J st id' = Some d \<Longrightarrow> change d = (None, d') \<Longrightarrow> json_faithful J d'"
    and "UpdateEpic J faults id' change st = (r, t)"
  shows "store_ok t \<and>
    (case r of
       Some err \<Rightarrow> t = st
     | None \<Rightarrow> updated_tracker change id' (tracker J st) = Some (tracker J t))"
proof (cases r)
  case (Some err)
  with assms(3) have "t = st" using atomicD [OF atomic_UpdateEpic] by metis
  with Some assms(1) show ?thesis by simp
next
  case None
  with assms(3) obtain d d' where d: "tracker J st id' = Some d" "change d = (None, d')"
      and w: "WriteEpic J (snd faults) d' st = (None, t)"
    by (auto simp: UpdateEpic_None_iff)
  from w assms(1) have "well_formed d'" by (simp add: WriteEpic_iff)
  with None d show ?thesis
    by (simp add: store_ok_WriteEpic [OF assms(1) w] tracker_WriteEpic [OF assms(1) assms(2) [OF d] w]
      updated_tracker_def)
qed

text \<open>What an unsuccessful update reports. An epic with no row is reported as not found, whatever
  the change; an error of the change is returned as it is; a result that is not a valid aggregate
  is refused before any statement runs, naming the aggregate.\<close>

theorem UpdateEpic_errors:
  "(id' \<notin> er_ID ` set (st_epics st) \<longrightarrow>
     UpdateEpic J (None, fault) id' change st = (Some (Errorf ''epic %s not found'' [GStr id']), st)) \<and>
   (\<forall>d err d'. tracker J st id' = Some d \<longrightarrow> change d = (Some err, d') \<longrightarrow>
     UpdateEpic J (None, fault) id' change st = (Some err, st)) \<and>
   (\<forall>d d'. tracker J st id' = Some d \<longrightarrow> change d = (None, d') \<longrightarrow> \<not> well_formed d' \<longrightarrow>
     (\<exists>cause. UpdateEpic J (None, fault) id' change st =
       (Some (Wrapf ''validate aggregate %s: %w'' [GStr (e_ID d')] [cause]), st)))"
proof (intro conjI allI impI)
  assume "id' \<notin> er_ID ` set (st_epics st)"
  then have "find (\<lambda>r. er_ID r = id') (st_epics st) = None" by (auto simp: find_None_iff)
  then show "UpdateEpic J (None, fault) id' change st = (Some (Errorf ''epic %s not found'' [GStr id']), st)"
    by (simp add: UpdateEpic_def ReadEpic_def readEpic_def ErrNotExist_def)
next
  fix d err d' assume "tracker J st id' = Some d" "change d = (Some err, d')"
  then show "UpdateEpic J (None, fault) id' change st = (Some err, st)"
    by (simp add: UpdateEpic_def ReadEpic_def tracker_def split: sum.splits)
next
  fix d d' assume *: "tracker J st id' = Some d" "change d = (None, d')" "\<not> well_formed d'"
  then obtain cause where "the (Validate d') = Some cause" using Validate_the [of d'] by auto
  with * show "\<exists>cause. UpdateEpic J (None, fault) id' change st =
      (Some (Wrapf ''validate aggregate %s: %w'' [GStr (e_ID d')] [cause]), st)"
    by (simp add: UpdateEpic_def ReadEpic_def tracker_def WriteEpic_def split: sum.splits)
qed

section \<open>An example\<close>

text \<open>A codec that writes each string on a line of its own.\<close>

definition example_codec :: json_codec where
  "example_codec =
     (let parse = (\<lambda>s. butlast (split_on (CHR 0x0A) s));
          print = (\<lambda>xs. concat (map (\<lambda>s. s @ [CHR 0x0A]) xs))
      in \<lparr>marshal = print, unmarshal = (\<lambda>s. Inr (parse s)),
          marshal_flags = (\<lambda>flags. print (map pull_request_flag_string flags)),
          unmarshal_flags = (\<lambda>s. Inr (map PullRequestFlagOther (parse s)))\<rparr>)"

lemma example_faithful: "json_faithful example_codec example_epic"
  by (simp add: json_faithful_def example_codec_def example_epic_def example_pull_request_def)

lemma example_free: "ids_free example_codec example_epic (without_epic x empty_store)"
  by (simp add: ids_free_def fits_def example_epic_def example_pull_request_def without_epic_def
    empty_store_def issue_comment_rows_def pull_request_comment_rows_def)

lemma stored_epic_reads_back_witness:
  "\<exists>t. WriteEpic example_codec None example_epic empty_store = (None, t) \<and>
     ReadEpic example_codec None ''E1'' t = Inr (canonical example_epic) \<and>
     map i_ID (e_Issues (canonical example_epic)) = [''I1'', ''I2'', ''R'']"
proof -
  have "map i_ID (e_Issues (canonical example_epic)) = [''I1'', ''I2'', ''R'']"
    by (simp add: canonical_def example_epic_def example_issue_def)
  moreover have "e_ID example_epic = ''E1''" by (simp add: example_epic_def)
  ultimately show ?thesis
    using stored_epic_reads_back [OF store_ok_empty example_well_formed example_free example_faithful]
    by metis
qed

text \<open>The store that holds the example epic, as the reader gives it back.\<close>

definition example_store :: Store where
  "example_store = with_epic example_codec example_epic empty_store"

lemma example_store_written: "WriteEpic example_codec None example_epic empty_store = (None, example_store)"
proof -
  have "without_epic x empty_store = empty_store" for x
    by (simp add: without_epic_def empty_store_def)
  then show ?thesis
    using example_free example_well_formed by (simp add: WriteEpic_iff store_ok_empty example_store_def)
qed

lemma example_store_ok: "store_ok example_store"
  by (rule store_ok_WriteEpic [OF store_ok_empty example_store_written])

lemma example_tracker: "tracker example_codec example_store = [''E1'' \<mapsto> canonical example_epic]"
  using tracker_WriteEpic [OF store_ok_empty example_faithful example_store_written]
  by (simp add: tracker_empty example_epic_def)

lemma example_canonical:
  "json_faithful example_codec (canonical example_epic)" "e_ID (canonical example_epic) = ''E1''"
  "ids_free example_codec (canonical example_epic) (without_epic ''E1'' example_store)"
proof -
  show "json_faithful example_codec (canonical example_epic)"
    using example_faithful
    by (simp add: json_faithful_def set_canonical_issues set_canonical_pull_requests canonical_pull_request_def)
  show "e_ID (canonical example_epic) = ''E1''" by (simp add: example_epic_def)
  show "ids_free example_codec (canonical example_epic) (without_epic ''E1'' example_store)"
    by (simp add: ids_free_def fits_def example_store_def with_epic_def without_epic_def empty_store_def
      example_epic_def example_pull_request_def issue_comment_rows_def pull_request_comment_rows_def
      canonical_def canonical_issue_def canonical_pull_request_def example_issue_def sort_comments_def
      dead_issues_def)
qed

lemma UpdateEpic_refines_tracker_witness:
  "\<exists>t. UpdateEpic example_codec (None, None) ''E1'' (\<lambda>e. (None, e)) example_store = (None, t) \<and>
     store_ok t \<and> tracker example_codec t = [''E1'' \<mapsto> canonical example_epic]"
proof -
  let ?t = "with_epic example_codec (canonical example_epic) (without_epic ''E1'' example_store)"
  have wf: "well_formed (canonical example_epic)" by (simp add: well_formed_canonical example_well_formed)
  have w: "WriteEpic example_codec None (canonical example_epic) example_store = (None, ?t)"
    unfolding WriteEpic_iff [OF example_store_ok] by (simp only: wf example_canonical simp_thms)
  have u: "UpdateEpic example_codec (None, None) ''E1'' (\<lambda>e. (None, e)) example_store = (None, ?t)"
    unfolding UpdateEpic_None_iff by (simp add: example_tracker w)
  have "tracker example_codec example_store ''E1'' = Some d \<Longrightarrow>
      (\<lambda>e. (None :: go_error option, e)) d = (None, d') \<Longrightarrow> json_faithful example_codec d'" for d d'
    by (auto simp: example_tracker example_canonical)
  moreover have "e_ID example_epic = ''E1''" by (simp add: example_epic_def)
  ultimately show ?thesis
    using UpdateEpic_refines_tracker [OF example_store_ok _ u] wf
    by (simp add: u updated_tracker_def example_tracker)
qed

lemma UpdateEpic_errors_witness:
  "UpdateEpic example_codec (None, None) ''E2'' (\<lambda>e. (None, e)) example_store =
     (Some (Errorf ''epic %s not found'' [GStr ''E2'']), example_store)"
proof -
  have "''E2'' \<notin> er_ID ` set (st_epics example_store)"
    by (simp add: example_store_def with_epic_def empty_store_def epic_row_def example_epic_def)
  with UpdateEpic_errors show ?thesis by blast
qed

end
