(* ===== verification/Go_Paths.thy ===== *)
theory Go_Paths
  imports Go_Strings
begin

text \<open>
  The lexical part of Go's \<open>path/filepath\<close> on Unix: \<open>Clean\<close>, \<open>Join\<close> and \<open>IsAbs\<close>, which the
  stores and the mounts of a sandbox use.
\<close>

abbreviation slash :: char where
  "slash \<equiv> CHR 0x2F"

text \<open>The elements of a path that survive cleaning; \<open>acc\<close> holds them in reverse.\<close>

fun clean_parts :: "bool \<Rightarrow> string list \<Rightarrow> string list \<Rightarrow> string list" where
  "clean_parts rooted [] acc = rev acc"
| "clean_parts rooted (part # parts) acc =
     (if part = [] \<or> part = ''.'' then clean_parts rooted parts acc
      else if part = ''..'' then
        (case acc of
           [] \<Rightarrow> clean_parts rooted parts (if rooted then [] else [''..''])
         | last' # rest \<Rightarrow>
             if last' = ''..'' then clean_parts rooted parts (''..'' # acc)
             else clean_parts rooted parts rest)
      else clean_parts rooted parts (part # acc))"

definition filepath_IsAbs :: "string \<Rightarrow> bool" where
  "filepath_IsAbs path = (case path of [] \<Rightarrow> False | c # _ \<Rightarrow> c = slash)"

definition filepath_Clean :: "string \<Rightarrow> string" where
  "filepath_Clean path =
     (if path = [] then ''.''
      else let rooted = filepath_IsAbs path;
               body = join_with [slash] (clean_parts rooted (split_on slash path) [])
           in if rooted then slash # body else if body = [] then ''.'' else body)"

definition filepath_Join :: "string list \<Rightarrow> string" where
  "filepath_Join parts =
     (case filter (\<lambda>part. part \<noteq> []) parts of
        [] \<Rightarrow> []
      | kept \<Rightarrow> filepath_Clean (join_with [slash] kept))"

text \<open>
  How far above its start a relative path may climb, read element by element: the specification
  that cleaning is measured against.
\<close>

fun climbs :: "string list \<Rightarrow> nat \<Rightarrow> bool" where
  "climbs [] depth = False"
| "climbs (part # parts) depth =
     (if part = [] \<or> part = ''.'' then climbs parts depth
      else if part = ''..'' then (case depth of 0 \<Rightarrow> True | Suc d \<Rightarrow> climbs parts d)
      else climbs parts (Suc depth))"

lemma clean_parts_stays:
  "''..'' \<notin> set acc \<Longrightarrow> \<not> climbs parts (length acc) \<Longrightarrow>
     ''..'' \<notin> set (clean_parts False parts acc) \<and>
     (\<forall>part \<in> set (clean_parts False parts acc). part \<in> set acc \<or> part \<noteq> [] \<and> part \<noteq> ''.'' \<and> part \<in> set parts)"
proof (induction parts arbitrary: acc)
  case Nil
  then show ?case by simp
next
  case (Cons part parts)
  show ?case
  proof (cases "part = ''..''")
    case True
    with Cons.prems obtain a as where "acc = a # as" by (cases acc) auto
    with Cons True show ?thesis by fastforce
  next
    case False
    show ?thesis
    proof (cases "part = [] \<or> part = ''.''")
      case True
      with Cons.prems have "\<not> climbs parts (length acc)" by auto
      from Cons.IH [OF Cons.prems(1) this] True show ?thesis by auto
    next
      case new: False
      with False Cons.prems have "\<not> climbs parts (length (part # acc))" "''..'' \<notin> set (part # acc)" by auto
      from Cons.IH [OF this(2,1)] False new show ?thesis by auto
    qed
  qed
qed


text \<open>Once the path has climbed out, the cleaned path starts with \<open>..\<close> for good.\<close>

lemma clean_parts_keeps_dots:
  "acc \<noteq> [] \<Longrightarrow> last acc = ''..'' \<Longrightarrow> hd (clean_parts False parts acc) = ''..'' \<and> clean_parts False parts acc \<noteq> []"
proof (induction parts arbitrary: acc)
  case Nil
  then show ?case by (simp add: hd_rev)
next
  case (Cons part parts)
  obtain a as where acc: "acc = a # as" using Cons.prems by (cases acc) auto
  show ?case
  proof (cases "part = ''..'' \<and> a \<noteq> ''..''")
    case True
    with Cons.prems acc have "as \<noteq> []" "last as = ''..''" by (auto split: if_splits)
    with Cons.IH [of as] True acc show ?thesis by simp
  next
    case False
    with Cons.IH [of acc] Cons.IH [of "part # acc"] Cons.IH [of "''..'' # acc"] Cons.prems acc
    show ?thesis by auto
  qed
qed

lemma clean_parts_climbs:
  "''..'' \<notin> set acc \<Longrightarrow> climbs parts (length acc) \<Longrightarrow>
     clean_parts False parts acc \<noteq> [] \<and> hd (clean_parts False parts acc) = ''..''"
proof (induction parts arbitrary: acc)
  case Nil
  then show ?case by simp
next
  case (Cons part parts)
  show ?case
  proof (cases "part = ''..''")
    case True
    show ?thesis
    proof (cases acc)
      case Nil
      with True clean_parts_keeps_dots [of "[''..'']" parts] show ?thesis by simp
    next
      case (Cons a as)
      with True Cons.prems Cons.IH [of as] show ?thesis by auto
    qed
  next
    case False
    show ?thesis
    proof (cases "part = [] \<or> part = ''.''")
      case True
      with Cons.prems have "climbs parts (length acc)" by auto
      from Cons.IH [OF Cons.prems(1) this] True show ?thesis by auto
    next
      case new: False
      with False Cons.prems have "climbs parts (length (part # acc))" "''..'' \<notin> set (part # acc)" by auto
      from Cons.IH [OF this(2,1)] False new show ?thesis by auto
    qed
  qed
qed

lemma clean_relative:
  "hd (clean_parts False parts []) = ''..'' \<and> clean_parts False parts [] \<noteq> [] \<longleftrightarrow> climbs parts 0"
  using clean_parts_climbs [of "[]" parts] clean_parts_stays [of "[]" parts] by (metis empty_set emptyE hd_in_set list.size(3))

end
