(* ===== verification/File_Tree.thy ===== *)
theory File_Tree
  imports Go_Paths Prelude "HOL-Library.Char_ord" "HOL-Library.List_Lexorder" "HOL-Library.Sublist" "HOL-Library.AList"
begin

text \<open>
  The part of \<open>os\<close> the stores use, on a tree of files and directories: \<open>ReadFile\<close>, \<open>WriteFile\<close>,
  \<open>MkdirAll\<close>, \<open>RemoveAll\<close> and \<open>ReadDir\<close>. A path is the list of elements of a clean absolute path.
  What fails is what the structure of the tree makes fail (a missing file, a file in the place of a
  directory); a disk that fails is not modelled.
\<close>

section \<open>Paths\<close>

type_synonym path = "string list"

text \<open>\<open>filepath.Join(p, s)\<close> for a clean absolute \<open>p\<close>, its text, and \<open>filepath.Rel\<close>.\<close>

definition path_join :: "path \<Rightarrow> string \<Rightarrow> path" where
  "path_join p s = clean_parts True (p @ split_on slash s) []"

definition path_text :: "path \<Rightarrow> string" where
  "path_text p = slash # join_with [slash] p"

definition path_rel :: "path \<Rightarrow> path \<Rightarrow> string" where
  "path_rel base p =
     (let common = length (longest_common_prefix base p);
          parts = replicate (length base - common) ''..'' @ drop common p
      in if parts = [] then ''.'' else join_with [slash] parts)"

text \<open>\<open>filepath.Ext\<close>: from the last dot of the last element.\<close>

definition filepath_Ext :: "string \<Rightarrow> string" where
  "filepath_Ext name =
     (let tail = takeWhile (\<lambda>c. c \<noteq> CHR ''.'' \<and> c \<noteq> slash) (rev name)
      in case drop (length tail) (rev name) of
           [] \<Rightarrow> []
         | c # _ \<Rightarrow> if c = CHR ''.'' then CHR ''.'' # rev tail else [])"

text \<open>An element that \<open>Join\<close> appends as it is.\<close>

definition bare :: "string \<Rightarrow> bool" where
  "bare s \<longleftrightarrow> s \<noteq> [] \<and> s \<noteq> ''.'' \<and> s \<noteq> ''..'' \<and> slash \<notin> set s"

lemma clean_parts_bare: "list_all bare ps \<Longrightarrow> clean_parts rooted ps acc = rev acc @ ps"
  by (induction ps arbitrary: acc) (auto simp: bare_def)

lemma clean_parts_append:
  "list_all bare ps \<Longrightarrow> clean_parts rooted (ps @ qs) [] = clean_parts rooted qs (rev ps)"
proof -
  have "list_all bare ps \<Longrightarrow> clean_parts rooted (ps @ qs) acc = clean_parts rooted qs (rev ps @ acc)" for acc
    by (induction ps arbitrary: acc) (auto simp: bare_def)
  then show "list_all bare ps \<Longrightarrow> ?thesis" by simp
qed

lemma split_on_join: "qs \<noteq> [] \<Longrightarrow> list_all bare qs \<Longrightarrow> split_on slash (join_with [slash] qs) = qs"
proof (induction "[slash]" qs rule: join_with.induct)
  case (2 w)
  then show ?case by (simp add: bare_def split_on_free)
next
  case (3 w v ws)
  then show ?case by (simp add: bare_def split_on_append)
qed simp

lemma path_join_bare [simp]: "list_all bare p \<Longrightarrow> bare s \<Longrightarrow> path_join p s = p @ [s]"
  by (simp add: path_join_def split_on_free bare_def clean_parts_append)

lemma path_join_folder:
  "list_all bare p \<Longrightarrow> qs \<noteq> [] \<Longrightarrow> list_all bare qs \<Longrightarrow> path_join p (join_with [slash] qs) = p @ qs"
  by (simp add: path_join_def split_on_join clean_parts_append clean_parts_bare)

lemma path_join_same: "list_all bare p \<Longrightarrow> s = [] \<or> s = ''.'' \<Longrightarrow> path_join p s = p"
  by (auto simp: path_join_def clean_parts_append)

lemma path_rel_below: "qs \<noteq> [] \<Longrightarrow> path_rel p (p @ qs) = join_with [slash] qs"
proof -
  have "longest_common_prefix p (p @ qs) = p" by (induction p) auto
  then show "qs \<noteq> [] \<Longrightarrow> ?thesis" by (simp add: path_rel_def)
qed

lemma Ext_md: "filepath_Ext (s @ ''.md'') = ''.md''"
  by (simp add: filepath_Ext_def)

section \<open>Files and directories\<close>

record file_system =
  fs_files :: "(path \<times> string) list"
  fs_dirs :: "path list"

definition ErrNotDir :: go_error where
  "ErrNotDir = Sentinel ''not a directory''"

definition ErrIsDir :: go_error where
  "ErrIsDir = Sentinel ''is a directory''"

definition ErrNoFile :: go_error where
  "ErrNoFile = Sentinel ''file does not exist''"

text \<open>\<open>os.IsNotExist\<close>, which looks at the error of a system call and does not unwrap.\<close>

definition os_IsNotExist :: "go_error \<Rightarrow> bool" where
  "os_IsNotExist err \<longleftrightarrow> err = ErrNoFile"

definition is_dir :: "file_system \<Rightarrow> path \<Rightarrow> bool" where
  "is_dir fs p \<longleftrightarrow> p = [] \<or> p \<in> set (fs_dirs fs)"

definition file_at :: "file_system \<Rightarrow> path \<Rightarrow> string option" where
  "file_at fs p = map_of (fs_files fs) p"

definition blocked_by_file :: "file_system \<Rightarrow> path \<Rightarrow> bool" where
  "blocked_by_file fs p \<longleftrightarrow> list_ex (\<lambda>q. file_at fs q \<noteq> None) (prefixes p)"

definition missing_error :: "file_system \<Rightarrow> path \<Rightarrow> go_error" where
  "missing_error fs p = (if blocked_by_file fs p then ErrNotDir else ErrNoFile)"

definition ReadFile :: "file_system \<Rightarrow> path \<Rightarrow> go_error + string" where
  "ReadFile fs p =
     (case file_at fs p of
        Some contents \<Rightarrow> Inr contents
      | None \<Rightarrow> Inl (if is_dir fs p then ErrIsDir else missing_error fs p))"

text \<open>\<open>os.ReadDir\<close> lists a directory sorted by name, each entry with whether it is a directory.\<close>

definition names_in :: "file_system \<Rightarrow> path \<Rightarrow> string list" where
  "names_in fs p =
     sort (remdups (map last (filter (\<lambda>q. q \<noteq> [] \<and> butlast q = p) (fs_dirs fs @ map fst (fs_files fs)))))"

definition ReadDir :: "file_system \<Rightarrow> path \<Rightarrow> go_error + (string \<times> bool) list" where
  "ReadDir fs p =
     (if is_dir fs p then Inr (map (\<lambda>name. (name, is_dir fs (p @ [name]))) (names_in fs p))
      else Inl (missing_error fs p))"

definition MkdirAll :: "path \<Rightarrow> file_system update" where
  "MkdirAll p fs =
     (if blocked_by_file fs p then (Some ErrNotDir, fs)
      else (None, fs\<lparr>fs_dirs := fs_dirs fs @ filter (\<lambda>q. \<not> is_dir fs q) (prefixes p)\<rparr>))"

definition WriteFile :: "path \<Rightarrow> string \<Rightarrow> file_system update" where
  "WriteFile p contents fs =
     (if is_dir fs p then (Some ErrIsDir, fs)
      else if \<not> is_dir fs (butlast p) then (Some (missing_error fs (butlast p)), fs)
      else (None, fs\<lparr>fs_files := AList.update p contents (fs_files fs)\<rparr>))"

definition RemoveAll :: "path \<Rightarrow> file_system update" where
  "RemoveAll p fs =
     (None, fs\<lparr>fs_files := filter (\<lambda>(q, _). \<not> prefix p q) (fs_files fs),
               fs_dirs := filter (\<lambda>q. \<not> prefix p q) (fs_dirs fs)\<rparr>)"

end
