(* ===== verification/Issue_Loop.thy ===== *)
theory Issue_Loop
  imports Epic_Tree Round_Roles Push_Gate
begin

text \<open>
  What the use cases write on an epic while its issues are implemented: the closures that
  \<open>run_issue_agent.go\<close>, \<open>review_approved_branches.go\<close>, \<open>merge_pull_request.go\<close>,
  \<open>open_pull_requests.go\<close> and \<open>grant_coding_round.go\<close> hand to \<open>UpdateEpic\<close>. The closures reach
  the pull request through a pointer into the aggregate and change the aggregate beside it, so
  the model names the pull request by its index. The ID and the time that \<open>CreateComment\<close> mints
  are arguments.
\<close>

section \<open>A change through a pointer into the aggregate\<close>

definition pull_request_index :: "string \<Rightarrow> PullRequest list \<Rightarrow> nat option" where
  "pull_request_index id' ps = find (\<lambda>k. p_ID (ps ! k) = id') [0..<length ps]"

definition UpdatePullRequest_at :: "string \<Rightarrow> (nat \<Rightarrow> Epic update) \<Rightarrow> Epic update" where
  "UpdatePullRequest_at pullRequestID change e =
     (case pull_request_index pullRequestID (e_PullRequests e) of
        None \<Rightarrow> (Some (Errorf ''pull request not found'' []), e)
      | Some k \<Rightarrow>
          then_do (change k) (\<lambda>e. (PullRequest_Validate (e_PullRequests e ! k), e)) e)"

definition at_record :: "nat \<Rightarrow> PullRequest update \<Rightarrow> Epic update" where
  "at_record k f e =
     (case f (e_PullRequests e ! k) of
        (r, p) \<Rightarrow> (r, e\<lparr>e_PullRequests := (e_PullRequests e)[k := p]\<rparr>))"

definition addReport ::
    "string \<Rightarrow> int \<Rightarrow> nat \<Rightarrow> string \<Rightarrow> string \<Rightarrow> string \<Rightarrow> Epic update" where
  "addReport ulid now k author answer head target =
     (let body = trim_space answer;
          body = (if body = [] then ''The agent returned no report for '' @ short head @ ''.'' else body)
      in case CreateComment ulid now author body of
           Inl err \<Rightarrow> (Some err, target)
         | Inr comment \<Rightarrow> AddPullRequestComment (p_ID (e_PullRequests target ! k)) comment target)"

text \<open>The three completions of an issue round have one shape.\<close>

definition round_body ::
    "PullRequest update \<Rightarrow> string \<Rightarrow> int \<Rightarrow> string \<Rightarrow> string \<Rightarrow> string \<Rightarrow> IssueState \<Rightarrow> nat \<Rightarrow> Epic update" where
  "round_body f ulid now author answer head next' k =
     then_do (at_record k f)
       (then_do (addReport ulid now k author answer head)
         (\<lambda>target. TransitionIssue (p_IssueID (e_PullRequests target ! k)) next' target))"

definition coding_completed :: "string \<Rightarrow> int \<Rightarrow> string \<Rightarrow> string \<Rightarrow> string \<Rightarrow> Epic update" where
  "coding_completed ulid now pullRequestID answer head =
     UpdatePullRequest_at pullRequestID
       (round_body RecordCodingRound ulid now ''coding'' answer head IssueStateReview)"

definition merge_completed :: "string \<Rightarrow> int \<Rightarrow> string \<Rightarrow> string \<Rightarrow> string \<Rightarrow> Epic update" where
  "merge_completed ulid now pullRequestID answer head =
     UpdatePullRequest_at pullRequestID
       (round_body (\<lambda>record. (None, RecordMergeRound record)) ulid now ''merge'' answer head IssueStateReview)"

definition review_completed ::
    "string \<Rightarrow> int \<Rightarrow> string \<Rightarrow> string \<Rightarrow> string \<Rightarrow> string \<Rightarrow> bool \<Rightarrow> Epic update" where
  "review_completed ulid now pullRequestID answer head base approved =
     UpdatePullRequest_at pullRequestID
       (round_body (RecordReview approved head base) ulid now ''pr-reviewer'' answer head
         (if approved then IssueStatePR else IssueStateCoding))"

text \<open>\<open>reportFailure\<close> and the use cases that comment.\<close>

definition comment_pull_request :: "string \<Rightarrow> int \<Rightarrow> string \<Rightarrow> string \<Rightarrow> string \<Rightarrow> Epic update" where
  "comment_pull_request ulid now pullRequestID author body target =
     (case CreateComment ulid now author body of
        Inl err \<Rightarrow> (Some err, target)
      | Inr comment \<Rightarrow> AddPullRequestComment pullRequestID comment target)"

section \<open>The sweep, the merge and the grant\<close>

definition awaitingMerge :: "Epic \<Rightarrow> PullRequest \<Rightarrow> bool" where
  "awaitingMerge current pullRequest =
     (if p_Status pullRequest \<noteq> PullRequestOpen \<or> \<not> p_Approved pullRequest then False
      else (case FindIssue current (p_IssueID pullRequest) of
              Inl _ \<Rightarrow> False
            | Inr issue \<Rightarrow> i_State issue = IssueStatePR))"

definition sweep_markStale :: "PullRequest \<Rightarrow> Epic update" where
  "sweep_markStale pullRequest =
     then_do (UpdatePullRequest (p_ID pullRequest) (SetFlag FlagStale True))
       (TransitionIssue (p_IssueID pullRequest) IssueStateStale)"

definition sendBackToReview :: "string \<Rightarrow> int \<Rightarrow> PullRequest \<Rightarrow> string \<Rightarrow> Epic update" where
  "sendBackToReview ulid now pullRequest body =
     then_do (UpdatePullRequest (p_ID pullRequest) (\<lambda>record. (None, RecordExternalPush record)))
       (then_do (comment_pull_request ulid now (p_ID pullRequest) ''merge'' body)
         (TransitionIssue (p_IssueID pullRequest) IssueStateReview))"

definition conflict_markStale :: "string \<Rightarrow> int \<Rightarrow> PullRequest \<Rightarrow> string \<Rightarrow> Epic update" where
  "conflict_markStale ulid now record body =
     then_do (UpdatePullRequest (p_ID record) (SetFlag FlagStale True))
       (then_do (comment_pull_request ulid now (p_ID record) ''merge'' body)
         (TransitionIssue (p_IssueID record) IssueStateStale))"

definition grant_coding_round :: "string \<Rightarrow> Epic update" where
  "grant_coding_round pullRequestID =
     UpdatePullRequest pullRequestID
       (\<lambda>pullRequest.
          if p_Status pullRequest \<noteq> PullRequestOpen
          then (Some (Errorf ''pull request %s is %s; only an open one can take another round''
                  [GStr pullRequestID, GStr (pull_request_status_string (p_Status pullRequest))]), pullRequest)
          else if CanCode pullRequest
          then (Some (Errorf ''pull request %s still has coding rounds left; the loop retries on its own''
                  [GStr pullRequestID]), pullRequest)
          else GrantCodingRound pullRequest)"

definition open_pull_request :: "string \<Rightarrow> int \<Rightarrow> Issue \<Rightarrow> string \<Rightarrow> string \<Rightarrow> Epic update" where
  "open_pull_request ulid now issue branch base target =
     (case CreatePullRequest ulid now (i_ID issue) (i_Title issue) (i_Repository issue) branch base of
        Inl err \<Rightarrow> (Some err, target)
      | Inr pullRequest \<Rightarrow> AddPullRequest (i_ID issue) pullRequest target)"

section \<open>Normal forms\<close>

definition put_pull_request :: "PullRequest \<Rightarrow> Epic \<Rightarrow> Epic" where
  "put_pull_request p' e =
     e\<lparr>e_PullRequests := map (\<lambda>q. if p_ID q = p_ID p' then p' else q) (e_PullRequests e)\<rparr>"

definition put_state :: "string \<Rightarrow> IssueState \<Rightarrow> Epic \<Rightarrow> Epic" where
  "put_state x s e =
     e\<lparr>e_Issues := map (\<lambda>i. if i_ID i = x then i\<lparr>i_State := s\<rparr> else i) (e_Issues e)\<rparr>"

lemma put_simps [simp]:
  "e_Issues (put_pull_request p e) = e_Issues e" "e_PullRequests (put_state x s e) = e_PullRequests e"
  "e_State (put_pull_request p e) = e_State e" "e_State (put_state x s e) = e_State e"
  "map i_ID (e_Issues (put_state x s e)) = map i_ID (e_Issues e)"
  "map p_ID (e_PullRequests (put_pull_request p e)) = map p_ID (e_PullRequests e)"
  by (simp_all add: put_pull_request_def put_state_def)

lemma key_elsewhere:
  "distinct (map key (ys @ x # zs)) \<Longrightarrow> y \<in> set ys \<or> y \<in> set zs \<Longrightarrow> key y \<noteq> key x"
  by (auto simp: image_iff)

lemma map_at_key:
  assumes "distinct (map key (ys @ x # zs))"
  shows "map (\<lambda>y. if key y = key x then g y else y) (ys @ x # zs) = ys @ g x # zs"
  using key_elsewhere [OF assms] by (auto intro!: map_idI)

lemma TransitionIssue_iff:
  assumes d: "distinct (map i_ID (e_Issues e))" and i: "i \<in> set (e_Issues e)"
  shows "TransitionIssue (i_ID i) s e = (None, e') \<longleftrightarrow>
    isIssueState s \<and> (i_State i = s \<or> issueTransition (i_State i) s) \<and> e' = put_state (i_ID i) s e"
proof -
  from i obtain ys zs where split: "e_Issues e = ys @ i # zs" by (auto simp: in_set_conv_decomp)
  with d have miss: "\<forall>j \<in> set ys. \<not> i_ID j = i_ID i" by (metis key_elsewhere)
  have m: "map (\<lambda>j. if i_ID j = i_ID i then j\<lparr>i_State := s\<rparr> else j) (ys @ i # zs) = ys @ i\<lparr>i_State := s\<rparr> # zs"
    using d unfolding split by (rule map_at_key)
  have put: "put_state (i_ID i) s e = e\<lparr>e_Issues := ys @ i\<lparr>i_State := s\<rparr> # zs\<rparr>"
    unfolding put_state_def split m by simp
  obtain r i' where t: "Issue_TransitionTo s i = (r, i')" by (cases "Issue_TransitionTo s i")
  have eq: "TransitionIssue (i_ID i) s e = (r, e\<lparr>e_Issues := ys @ i' # zs\<rparr>)"
    unfolding TransitionIssue_def on_issues_def split
    by (simp add: update_first_hit [OF miss, where f = "Issue_TransitionTo s"] t)
  show ?thesis
  proof (cases r)
    case None
    with t Issue_TransitionTo_iff [of s i i']
    have "isIssueState s" "i' = i\<lparr>i_State := s\<rparr>" "i_State i = s \<or> issueTransition (i_State i) s" by auto
    then show ?thesis unfolding eq put None by auto
  next
    case (Some err)
    with t Issue_TransitionTo_iff [of s i "i\<lparr>i_State := s\<rparr>"]
    have "\<not> (isIssueState s \<and> (i_State i = s \<or> issueTransition (i_State i) s))" by auto
    then show ?thesis unfolding eq Some by auto
  qed
qed

lemma pull_request_index_eq:
  assumes d: "distinct (map p_ID (ys @ p # zs))"
  shows "pull_request_index (p_ID p) (ys @ p # zs) = Some (length ys)"
  unfolding pull_request_index_def find_Some_iff
proof (intro exI [of _ "length ys"] conjI allI impI)
  fix j assume "j < length ys"
  then have "[0..<length (ys @ p # zs)] ! j = j" "(ys @ p # zs) ! j = ys ! j" "ys ! j \<in> set ys"
    by (simp_all add: nth_append nth_upt)
  with key_elsewhere [OF d] show "p_ID ((ys @ p # zs) ! ([0..<length (ys @ p # zs)] ! j)) \<noteq> p_ID p"
    by metis
qed (simp_all add: nth_append)

lemma on_record_eq:
  assumes d: "distinct (map p_ID (e_PullRequests e))" and p: "p \<in> set (e_PullRequests e)"
  shows "on_pull_requests (update_first (\<lambda>q. p_ID q = p_ID p) f nf) e =
    (fst (f p), e\<lparr>e_PullRequests := map (\<lambda>q. if p_ID q = p_ID p then snd (f p) else q) (e_PullRequests e)\<rparr>)"
proof -
  from p obtain ys zs where split: "e_PullRequests e = ys @ p # zs" by (auto simp: in_set_conv_decomp)
  with d have miss: "\<forall>q \<in> set ys. \<not> p_ID q = p_ID p" by (metis key_elsewhere)
  have m: "map (\<lambda>q. if p_ID q = p_ID p then snd (f p) else q) (ys @ p # zs) = ys @ snd (f p) # zs"
    using map_at_key [OF d [unfolded split], where g = "\<lambda>_. snd (f p)"] .
  show ?thesis
    unfolding on_pull_requests_def split m by (simp add: update_first_hit [OF miss, where f = f])
qed

lemma UpdatePullRequest_eq:
  assumes "distinct (map p_ID (e_PullRequests e))" and "p \<in> set (e_PullRequests e)"
  shows "UpdatePullRequest (p_ID p) f e = (None, e') \<longleftrightarrow>
    (\<exists>p'. f p = (None, p') \<and> PullRequest_Validate p' = None \<and>
       e' = e\<lparr>e_PullRequests := map (\<lambda>q. if p_ID q = p_ID p then p' else q) (e_PullRequests e)\<rparr>)"
proof -
  let ?g = "then_do f (\<lambda>p. (PullRequest_Validate p, p))"
  obtain r p' where t: "?g p = (r, p')" by (cases "?g p")
  have g: "?g p = (None, q) \<longleftrightarrow> f p = (None, q) \<and> PullRequest_Validate q = None" for q
    by (auto simp: then_do_None_iff)
  show ?thesis
  proof (cases r)
    case None
    with t g [of p'] have p': "f p = (None, p')" "PullRequest_Validate p' = None" by auto
    with t None show ?thesis unfolding UpdatePullRequest_def on_record_eq [OF assms] by auto
  next
    case (Some err)
    with t g have "\<not> (f p = (None, q) \<and> PullRequest_Validate q = None)" for q by auto
    with t Some show ?thesis unfolding UpdatePullRequest_def on_record_eq [OF assms] by auto
  qed
qed

lemma AddPullRequestComment_eq:
  assumes "distinct (map p_ID (e_PullRequests e))" and "p \<in> set (e_PullRequests e)"
  shows "AddPullRequestComment (p_ID p) c e = (None, e') \<longleftrightarrow>
    Comment_Validate c = None \<and> e' = put_pull_request (p\<lparr>p_Comments := p_Comments p @ [c]\<rparr>) e"
  unfolding AddPullRequestComment_def on_record_eq [OF assms]
  by (auto simp: PullRequest_AddComment_def put_pull_request_def split: option.splits)

lemma comment_pull_request_eq:
  assumes "distinct (map p_ID (e_PullRequests e))" and "p \<in> set (e_PullRequests e)"
  shows "comment_pull_request ulid now (p_ID p) author body e = (None, e') \<longleftrightarrow>
    (\<exists>c. CreateComment ulid now author body = Inr c \<and>
       e' = put_pull_request (p\<lparr>p_Comments := p_Comments p @ [c]\<rparr>) e)"
  by (auto simp: comment_pull_request_def AddPullRequestComment_eq [OF assms] CreateComment_valid
      split: sum.splits)

text \<open>What an agent's report says, empty answers included.\<close>

definition report_body :: "string \<Rightarrow> string \<Rightarrow> string" where
  "report_body answer head =
     (if trim_space answer = [] then ''The agent returned no report for '' @ short head @ ''.''
      else trim_space answer)"

lemma round_completed_iff:
  assumes dp: "distinct (map p_ID (e_PullRequests e))" and p: "p \<in> set (e_PullRequests e)"
    and di: "distinct (map i_ID (e_Issues e))" and i: "i \<in> set (e_Issues e)" "i_ID i = p_IssueID p"
    and f: "f p = (None, p')" "p_ID p' = p_ID p" "p_IssueID p' = p_IssueID p"
  shows "UpdatePullRequest_at (p_ID p) (round_body f ulid now author answer head s) e = (None, e') \<longleftrightarrow>
    (\<exists>c. CreateComment ulid now author (report_body answer head) = Inr c \<and> isIssueState s \<and>
       (i_State i = s \<or> issueTransition (i_State i) s) \<and>
       PullRequest_Validate (p'\<lparr>p_Comments := p_Comments p' @ [c]\<rparr>) = None \<and>
       e' = put_state (p_IssueID p) s (put_pull_request (p'\<lparr>p_Comments := p_Comments p' @ [c]\<rparr>) e))"
proof -
  from p obtain ys zs where split: "e_PullRequests e = ys @ p # zs" by (auto simp: in_set_conv_decomp)
  let ?k = "length ys" and ?e1 = "e\<lparr>e_PullRequests := ys @ p' # zs\<rparr>"
  have k: "pull_request_index (p_ID p) (e_PullRequests e) = Some ?k"
    unfolding split by (rule pull_request_index_eq) (use dp split in simp)
  have r1: "at_record ?k f e = (None, ?e1)"
    by (simp add: at_record_def split f)
  have d1: "distinct (map p_ID (e_PullRequests ?e1))" using dp by (simp add: split f)
  have p1: "p' \<in> set (e_PullRequests ?e1)" by simp
  let ?q = "\<lambda>c. p'\<lparr>p_Comments := p_Comments p' @ [c]\<rparr>"
  have put1: "put_pull_request (?q c) ?e1 = e\<lparr>e_PullRequests := ys @ ?q c # zs\<rparr>" for c
    using map_at_key [of p_ID ys p' zs "\<lambda>_. ?q c"] d1 by (simp add: put_pull_request_def)
  have put: "put_pull_request (?q c) e = e\<lparr>e_PullRequests := ys @ ?q c # zs\<rparr>" for c
    using map_at_key [OF dp [unfolded split], where g = "\<lambda>_. ?q c"] by (simp add: put_pull_request_def split f)
  have r2: "addReport ulid now ?k author answer head ?e1 = (None, e2) \<longleftrightarrow>
      (\<exists>c. CreateComment ulid now author (report_body answer head) = Inr c \<and>
         e2 = e\<lparr>e_PullRequests := ys @ ?q c # zs\<rparr>)" for e2
    using AddPullRequestComment_eq [OF d1 p1]
    by (auto simp: addReport_def report_body_def Let_def CreateComment_valid f put1 split: sum.splits)
  have r3: "TransitionIssue (p_IssueID p) s (e\<lparr>e_PullRequests := xs\<rparr>) = (None, e3) \<longleftrightarrow>
      isIssueState s \<and> (i_State i = s \<or> issueTransition (i_State i) s) \<and>
      e3 = put_state (p_IssueID p) s (e\<lparr>e_PullRequests := xs\<rparr>)" for xs e3
    using TransitionIssue_iff [of "e\<lparr>e_PullRequests := xs\<rparr>" i s e3] di i by simp
  have r: "round_body f ulid now author answer head s ?k e = (None, e3) \<longleftrightarrow>
      (\<exists>c. CreateComment ulid now author (report_body answer head) = Inr c \<and> isIssueState s \<and>
         (i_State i = s \<or> issueTransition (i_State i) s) \<and>
         e3 = put_state (p_IssueID p) s (e\<lparr>e_PullRequests := ys @ ?q c # zs\<rparr>))" for e3
  proof -
    have "round_body f ulid now author answer head s ?k e = (None, e3) \<longleftrightarrow>
        (\<exists>e2. addReport ulid now ?k author answer head ?e1 = (None, e2) \<and>
           TransitionIssue (p_IssueID (e_PullRequests e2 ! ?k)) s e2 = (None, e3))"
      unfolding round_body_def then_do_None_iff r1 by simp
    then show ?thesis unfolding r2 using r3 f by auto
  qed
  show ?thesis
    unfolding UpdatePullRequest_at_def k option.case then_do_None_iff r put by auto
qed


section \<open>The phase of an issue\<close>

text \<open>
  What the counters and flags of its open pull request say an issue is in: stale work first, then
  code nobody judged, then an approval, and otherwise another coding round.
\<close>

definition phase :: "PullRequest \<Rightarrow> IssueState" where
  "phase p =
     (if HasFlag p FlagStale then IssueStateStale
      else if p_Reviews p < p_Rounds p then IssueStateReview
      else if p_Approved p then IssueStatePR
      else IssueStateCoding)"

definition in_phase :: "Epic \<Rightarrow> PullRequest \<Rightarrow> bool" where
  "in_phase e p \<longleftrightarrow> (\<exists>i \<in> set (e_Issues e). i_ID i = p_IssueID p \<and> i_State i = phase p)"

definition loop_inv :: "Epic \<Rightarrow> bool" where
  "loop_inv e \<longleftrightarrow> well_formed e \<and> distinct (map p_ID (e_PullRequests e)) \<and>
     (\<forall>p \<in> set (e_PullRequests e). rounds_inv p \<and> (p_Status p = PullRequestOpen \<longrightarrow> in_phase e p)) \<and>
     (\<forall>p \<in> set (e_PullRequests e). \<forall>q \<in> set (e_PullRequests e).
        p_Status p = PullRequestOpen \<longrightarrow> p_Status q = PullRequestOpen \<longrightarrow> p_IssueID p = p_IssueID q \<longrightarrow> p = q)"

lemma phase_simps [simp]:
  "isIssueState (phase p)" "phase p \<noteq> IssueStateMerged" "phase p \<noteq> IssueStateClosed" "phase p \<noteq> IssueStateOpen"
  "phase (p\<lparr>p_Comments := cs\<rparr>) = phase p"
  by (simp_all add: phase_def HasFlag_def)

lemma rounds_inv_comments [simp]: "rounds_inv (p\<lparr>p_Comments := cs\<rparr>) = rounds_inv p"
  by (simp add: rounds_inv_def counts_ok_def HasFlag_def CanCode_def)

lemma set_map_at_key:
  assumes d: "distinct (map key xs)" and x: "x \<in> set xs"
  shows "set (map (\<lambda>y. if key y = key x then g y else y) xs) = insert (g x) (set xs - {x})"
proof -
  from x obtain ys zs where split: "xs = ys @ x # zs" by (auto simp: in_set_conv_decomp)
  have "x \<notin> set ys" "x \<notin> set zs" using key_elsewhere [OF d [unfolded split]] by blast+
  then show ?thesis unfolding split map_at_key [OF d [unfolded split]] by auto
qed

lemma put_pull_request_set:
  assumes "distinct (map p_ID (e_PullRequests e))" "p \<in> set (e_PullRequests e)" "p_ID p' = p_ID p"
  shows "set (e_PullRequests (put_pull_request p' e)) = insert p' (set (e_PullRequests e) - {p})"
  using set_map_at_key [OF assms(1,2), of "\<lambda>_. p'"] assms(3) by (simp add: put_pull_request_def)

lemma put_state_set:
  assumes "distinct (map i_ID (e_Issues e))" "i \<in> set (e_Issues e)"
  shows "set (e_Issues (put_state (i_ID i) s e)) = insert (i\<lparr>i_State := s\<rparr>) (set (e_Issues e) - {i})"
  using set_map_at_key [OF assms, of "\<lambda>j. j\<lparr>i_State := s\<rparr>"] by (simp add: put_state_def)

lemma put_state_same:
  assumes d: "distinct (map i_ID (e_Issues e))" and i: "i \<in> set (e_Issues e)"
  shows "put_state (i_ID i) (i_State i) e = e"
proof -
  have "j\<lparr>i_State := i_State i\<rparr> = j" if "j \<in> set (e_Issues e)" "i_ID j = i_ID i" for j
    using distinct_map_unique [OF d that(1) i that(2)] by simp
  then have "map (\<lambda>j. if i_ID j = i_ID i then j\<lparr>i_State := i_State i\<rparr> else j) (e_Issues e) = e_Issues e"
    by (intro map_idI) simp
  then show ?thesis by (simp add: put_state_def)
qed

lemma put_fields [simp]:
  "e_ID (put_state x s e) = e_ID e" "e_ID (put_pull_request p e) = e_ID e"
  "e_Title (put_state x s e) = e_Title e" "e_Title (put_pull_request p e) = e_Title e"
  "e_Assignee (put_state x s e) = e_Assignee e" "e_Assignee (put_pull_request p e) = e_Assignee e"
  "e_Repositories (put_state x s e) = e_Repositories e"
  "e_Repositories (put_pull_request p e) = e_Repositories e"
  "e_BranchPrefix (put_state x s e) = e_BranchPrefix e"
  "e_BranchPrefix (put_pull_request p e) = e_BranchPrefix e"
  "e_DraftingPasses (put_state x s e) = e_DraftingPasses e"
  "e_DraftingPasses (put_pull_request p e) = e_DraftingPasses e"
  by (simp_all add: put_pull_request_def put_state_def)

lemma well_formed_put:
  assumes wf: "well_formed e" and s: "isIssueState s"
    and p': "PullRequest_Validate p' = None" "p_IssueID p' \<in> issue_ids e"
  shows "well_formed (put_state x s (put_pull_request p' e))"
proof (rule well_formed_skeleton [OF wf])
  show "map skeleton (e_Issues (put_state x s (put_pull_request p' e))) = map skeleton (e_Issues e)"
    by (simp add: put_state_def o_def skeleton_def)
  show "\<forall>i \<in> set (e_Issues (put_state x s (put_pull_request p' e))). content_ok i"
    using well_formed_content [OF wf] s
    by (auto simp: put_state_def content_ok_def Issue_Validate_def split: if_splits)
  show "\<forall>p \<in> set (e_PullRequests (put_state x s (put_pull_request p' e))).
      PullRequest_Validate p = None \<and> p_IssueID p \<in> issue_ids e"
    using wf p' by (auto simp: put_pull_request_def well_formed_def)
qed (use wf in \<open>simp_all add: well_formed_def\<close>)

text \<open>Rewriting an open pull request together with the state of its issue keeps the loop in step.\<close>

lemma loop_inv_put:
  assumes inv: "loop_inv e" and p: "p \<in> set (e_PullRequests e)" "p_Status p = PullRequestOpen"
    and p': "p_ID p' = p_ID p" "p_IssueID p' = p_IssueID p" "PullRequest_Validate p' = None" "rounds_inv p'"
    and s: "isIssueState s" "p_Status p' = PullRequestOpen \<Longrightarrow> s = phase p'"
  shows "loop_inv (put_state (p_IssueID p) s (put_pull_request p' e))"
proof -
  let ?e = "put_state (p_IssueID p) s (put_pull_request p' e)"
  have wf: "well_formed e" and dp: "distinct (map p_ID (e_PullRequests e))"
    using inv by (simp_all add: loop_inv_def)
  have di: "distinct (map i_ID (e_Issues e))" by (rule well_formed_distinct [OF wf])
  have uniq: "q = p" if "q \<in> set (e_PullRequests e)" "p_Status q = PullRequestOpen" "p_IssueID q = p_IssueID p" for q
    using inv p that unfolding loop_inv_def by blast
  from inv p obtain i where i: "i \<in> set (e_Issues e)" "i_ID i = p_IssueID p"
    by (auto simp: loop_inv_def in_phase_def)
  have prs: "set (e_PullRequests ?e) = insert p' (set (e_PullRequests e) - {p})"
    using put_pull_request_set [OF dp p(1) p'(1)] by simp
  have "set (e_Issues (put_state (i_ID i) s (put_pull_request p' e))) = insert (i\<lparr>i_State := s\<rparr>) (set (e_Issues e) - {i})"
    using put_state_set [of "put_pull_request p' e" i s] di i by simp
  then have issues: "set (e_Issues ?e) = insert (i\<lparr>i_State := s\<rparr>) (set (e_Issues e) - {i})" by (simp add: i)
  have "rounds_inv q \<and> (p_Status q = PullRequestOpen \<longrightarrow> in_phase ?e q)" if q: "q \<in> set (e_PullRequests ?e)" for q
  proof (cases "q = p'")
    case True
    with p' s show ?thesis unfolding in_phase_def issues using i by auto
  next
    case False
    with q prs have q: "q \<in> set (e_PullRequests e)" "q \<noteq> p" by auto
    with inv have "rounds_inv q" "p_Status q = PullRequestOpen \<longrightarrow> in_phase e q" by (simp_all add: loop_inv_def)
    moreover have "in_phase ?e q" if "p_Status q = PullRequestOpen" "in_phase e q"
    proof -
      from that uniq q have "p_IssueID q \<noteq> p_IssueID p" by blast
      with that(2) show ?thesis unfolding in_phase_def issues using i by auto
    qed
    ultimately show ?thesis by blast
  qed
  moreover have "q = r" if "q \<in> set (e_PullRequests ?e)" "r \<in> set (e_PullRequests ?e)"
      "p_Status q = PullRequestOpen" "p_Status r = PullRequestOpen" "p_IssueID q = p_IssueID r" for q r
    using that inv uniq p' unfolding prs loop_inv_def by auto
  moreover have "well_formed ?e"
    using wf s(1) p' p(1) by (intro well_formed_put) (auto simp: well_formed_def)
  ultimately show ?thesis using dp unfolding loop_inv_def by (auto simp del: map_map)
qed

lemma loop_inv_put_pull_request:
  assumes inv: "loop_inv e" and p: "p \<in> set (e_PullRequests e)" "p_Status p = PullRequestOpen"
    and p': "p_ID p' = p_ID p" "p_IssueID p' = p_IssueID p" "PullRequest_Validate p' = None" "rounds_inv p'"
    and s: "phase p' = phase p"
  shows "loop_inv (put_pull_request p' e)"
proof -
  from inv p obtain i where i: "i \<in> set (e_Issues e)" "i_ID i = p_IssueID p" "i_State i = phase p"
    by (auto simp: loop_inv_def in_phase_def)
  have "distinct (map i_ID (e_Issues (put_pull_request p' e)))"
    using inv by (simp add: loop_inv_def well_formed_distinct)
  with i have "put_state (p_IssueID p) (phase p) (put_pull_request p' e) = put_pull_request p' e"
    using put_state_same [of "put_pull_request p' e" i] by simp
  with loop_inv_put [OF inv p p', of "phase p"] s show ?thesis by simp
qed


section \<open>The steps of the loop\<close>

inductive loop_step :: "Epic \<Rightarrow> Epic \<Rightarrow> bool" where
  Codes: "p \<in> set (e_PullRequests e) \<Longrightarrow> IssueRole e p = Some AgentRoleCoding \<Longrightarrow>
    coding_completed ulid now (p_ID p) answer head e = (None, e') \<Longrightarrow> loop_step e e'"
| Resolves: "p \<in> set (e_PullRequests e) \<Longrightarrow> IssueRole e p = Some AgentRoleMerge \<Longrightarrow>
    merge_completed ulid now (p_ID p) answer head e = (None, e') \<Longrightarrow> loop_step e e'"
| Reviews: "p \<in> set (e_PullRequests e) \<Longrightarrow> IssueRole e p = Some AgentRolePRReviewer \<Longrightarrow>
    review_completed ulid now (p_ID p) answer head base approved e = (None, e') \<Longrightarrow> loop_step e e'"
| Stales: "p \<in> set (e_PullRequests e) \<Longrightarrow> awaitingMerge e p \<Longrightarrow>
    sweep_markStale p e = (None, e') \<Longrightarrow> loop_step e e'"
| Pushed: "p \<in> set (e_PullRequests e) \<Longrightarrow> awaitingMerge e p \<Longrightarrow>
    sendBackToReview ulid now p body e = (None, e') \<Longrightarrow> loop_step e e'"
| Conflicts: "p \<in> set (e_PullRequests e) \<Longrightarrow> p_Status p = PullRequestOpen \<Longrightarrow>
    conflict_markStale ulid now p body e = (None, e') \<Longrightarrow> loop_step e e'"
| Granted: "p \<in> set (e_PullRequests e) \<Longrightarrow> grant_coding_round (p_ID p) e = (None, e') \<Longrightarrow> loop_step e e'"
| Flagged: "p \<in> set (e_PullRequests e) \<Longrightarrow> p_Status p = PullRequestOpen \<Longrightarrow>
    UpdatePullRequest (p_ID p) (SetFlag FlagBlocked blocked) e = (None, e') \<Longrightarrow> loop_step e e'"
| Opens: "i \<in> set (e_Issues e) \<Longrightarrow> i_State i = IssueStateOpen \<Longrightarrow> OpenPullRequestFor e (i_ID i) = None \<Longrightarrow>
    ulid \<notin> p_ID ` set (e_PullRequests e) \<Longrightarrow>
    open_pull_request ulid now i branch base e = (None, e') \<Longrightarrow> loop_step e e'"
| Settles: "p \<in> set (e_PullRequests e) \<Longrightarrow> TransitionPullRequest (p_ID p) status e = (None, e') \<Longrightarrow> loop_step e e'"
| Closes: "CloseIssue x e = Some (None, e') \<Longrightarrow> loop_step e e'"

inductive_cases loop_stepE: "loop_step e e'"

lemma loop_inv_facts:
  assumes "loop_inv e"
  shows "distinct (map p_ID (e_PullRequests e))" "distinct (map i_ID (e_Issues e))" "well_formed e"
    "p \<in> set (e_PullRequests e) \<Longrightarrow> PullRequest_Validate p = None"
    "p \<in> set (e_PullRequests e) \<Longrightarrow> rounds_inv p"
    "p \<in> set (e_PullRequests e) \<Longrightarrow> p_Status p = PullRequestOpen \<Longrightarrow> in_phase e p"
    "p \<in> set (e_PullRequests e) \<Longrightarrow> p_IssueID p \<in> issue_ids e"
  using assms by (auto simp: loop_inv_def well_formed_distinct) (auto simp: well_formed_def)

text \<open>What every change of an open record keeps, and how it moves the phase.\<close>

definition record_step :: "PullRequest \<Rightarrow> PullRequest \<Rightarrow> bool" where
  "record_step p q \<longleftrightarrow> p_ID q = p_ID p \<and> p_IssueID q = p_IssueID p \<and> p_Status q = p_Status p \<and>
     (PullRequest_Validate p = None \<longrightarrow> PullRequest_Validate q = None) \<and> (rounds_inv p \<longrightarrow> rounds_inv q)"

lemma record_step_trans: "record_step p q \<Longrightarrow> record_step q r \<Longrightarrow> record_step p r"
  by (simp add: record_step_def)

lemma record_step_comment:
  "Comment_Validate c = None \<Longrightarrow> record_step p (p\<lparr>p_Comments := p_Comments p @ [c]\<rparr>)"
  by (auto simp: record_step_def PullRequest_Validate_None counts_ok_def)

lemma record_step_round:
  assumes "round_step p event = Some q"
  shows "record_step p q"
proof -
  have "rounds_inv p \<Longrightarrow> rounds_inv q" using rounds_inv_step assms by blast
  moreover have "p_ID q = p_ID p \<and> p_IssueID q = p_IssueID p \<and> p_Status q = p_Status p"
    using assms by (cases event) (auto simp: round_step_def round_defs SetFlag_snd split: if_splits)
  moreover have "PullRequest_Validate q = None" if "PullRequest_Validate p = None"
  proof (cases event)
    case CodingRound
    with assms that coding_change show ?thesis
      by (auto simp: round_step_def pull_request_change_ok_def prod_eq_iff RecordCodingRound_total split: if_splits)
  next
    case MergeRound
    with assms that merge_change show ?thesis by (auto simp: round_step_def pull_request_change_ok_def)
  next
    case ExternalPush
    with assms that push_change show ?thesis by (auto simp: round_step_def pull_request_change_ok_def)
  next
    case (ReviewRound approved head base)
    with assms that review_change [of approved head base] show ?thesis
      by (auto simp: round_step_def pull_request_change_ok_def prod_eq_iff RecordReview_total)
  next
    case Grant
    with assms that grant_change show ?thesis
      by (auto simp: round_step_def pull_request_change_ok_def prod_eq_iff GrantCodingRound_total)
  qed
  ultimately show ?thesis by (simp add: record_step_def)
qed

lemma record_step_flag:
  assumes "flag = FlagStale \<or> flag = FlagBlocked"
  shows "record_step p (snd (SetFlag flag present p))"
  using assms
  by (auto simp: record_step_def SetFlag_snd PullRequest_Validate_None rounds_inv_def counts_ok_def HasFlag_iff
      CanCode_def split: if_splits)

lemma phase_after:
  assumes "rounds_inv p"
  shows "phase p = IssueStateCoding \<Longrightarrow> phase (snd (RecordCodingRound p)) = IssueStateReview"
    and "phase (RecordMergeRound p) = IssueStateReview"
    and "phase p = IssueStateReview \<Longrightarrow>
      phase (snd (RecordReview approved head base p)) = (if approved then IssueStatePR else IssueStateCoding)"
    and "\<not> HasFlag p FlagStale \<Longrightarrow> phase (RecordExternalPush p) = IssueStateReview"
    and "phase (snd (SetFlag FlagStale True p)) = IssueStateStale"
    and "phase (snd (SetFlag FlagBlocked b p)) = phase p"
    and "phase (snd (GrantCodingRound p)) = phase p"
  using assms
  by (auto simp: phase_def round_defs SetFlag_snd HasFlag_iff rounds_inv_def counts_ok_def split: if_splits)

text \<open>The role that is next, read as a phase.\<close>

lemma IssueRole_phase:
  assumes "rounds_inv p"
  shows "IssueRole e p = Some AgentRoleCoding \<Longrightarrow> phase p = IssueStateCoding \<and> CanCode p"
    and "IssueRole e p = Some AgentRoleMerge \<Longrightarrow> phase p = IssueStateStale"
    and "IssueRole e p = Some AgentRolePRReviewer \<Longrightarrow> phase p = IssueStateReview"
    and "IssueRole e p = Some role \<Longrightarrow> p_Status p = PullRequestOpen"
  using assms by (auto simp: IssueRole_def phase_def rounds_inv_def counts_ok_def split: if_splits)


text \<open>A completed round, from its normal form.\<close>

lemma loop_inv_round:
  assumes inv: "loop_inv e" and p: "p \<in> set (e_PullRequests e)" "p_Status p = PullRequestOpen"
    and f: "f p = (None, p')" "record_step p p'" and s: "phase p' = s"
    and move: "phase p = s \<or> issueTransition (phase p) s"
  shows "UpdatePullRequest_at (p_ID p) (round_body f ulid now author answer head s) e = (None, e') \<longleftrightarrow>
      (\<exists>c. CreateComment ulid now author (report_body answer head) = Inr c \<and>
         e' = put_state (p_IssueID p) s (put_pull_request (p'\<lparr>p_Comments := p_Comments p' @ [c]\<rparr>) e))"
    and "UpdatePullRequest_at (p_ID p) (round_body f ulid now author answer head s) e = (None, e') \<Longrightarrow> loop_inv e'"
proof -
  note facts = loop_inv_facts [OF inv]
  from facts(6) p obtain i where i: "i \<in> set (e_Issues e)" "i_ID i = p_IssueID p" "i_State i = phase p"
    by (auto simp: in_phase_def)
  from f(2) have p': "p_ID p' = p_ID p" "p_IssueID p' = p_IssueID p" "p_Status p' = PullRequestOpen"
      "PullRequest_Validate p' = None" "rounds_inv p'"
    using p facts by (auto simp: record_step_def)
  have valid: "PullRequest_Validate (p'\<lparr>p_Comments := p_Comments p' @ [c]\<rparr>) = None"
    if "CreateComment ulid now author b = Inr c" for c b
    using record_step_comment [of c p'] CreateComment_valid [OF that] p' by (simp add: record_step_def)
  have "isIssueState s" using s by auto
  then show iff: "UpdatePullRequest_at (p_ID p) (round_body f ulid now author answer head s) e = (None, e') \<longleftrightarrow>
      (\<exists>c. CreateComment ulid now author (report_body answer head) = Inr c \<and>
         e' = put_state (p_IssueID p) s (put_pull_request (p'\<lparr>p_Comments := p_Comments p' @ [c]\<rparr>) e))"
    unfolding round_completed_iff [where f = f, OF facts(1) p(1) facts(2) i(1,2) f(1) p'(1,2)]
    using move valid i(3) by auto
  assume "UpdatePullRequest_at (p_ID p) (round_body f ulid now author answer head s) e = (None, e')"
  with iff obtain c where c: "CreateComment ulid now author (report_body answer head) = Inr c"
    "e' = put_state (p_IssueID p) s (put_pull_request (p'\<lparr>p_Comments := p_Comments p' @ [c]\<rparr>) e)" by blast
  show "loop_inv e'"
    unfolding c(2) using p' valid [OF c(1)] s by (intro loop_inv_put [OF inv p]) auto
qed

lemmas completed_defs = coding_completed_def merge_completed_def review_completed_def

lemma update_then_transition_form:
  assumes inv: "loop_inv e" and p: "p \<in> set (e_PullRequests e)" "p_Status p = PullRequestOpen"
    and f: "f p = (None, p')" "record_step p p'" and s: "phase p' = s"
    and r: "then_do (UpdatePullRequest (p_ID p) f)
        (then_do g (TransitionIssue (p_IssueID p) s)) e = (None, e')"
    and g: "\<And>e1 e2. e1 = put_pull_request p' e \<Longrightarrow> g e1 = (None, e2) \<Longrightarrow>
        e2 = e1 \<or> (\<exists>c. Comment_Validate c = None \<and>
          e2 = put_pull_request (p'\<lparr>p_Comments := p_Comments p' @ [c]\<rparr>) e1)"
  obtains q where "e' = put_state (p_IssueID p) s (put_pull_request q e)" "record_step p q" "phase q = s"
proof -
  note facts = loop_inv_facts [OF inv]
  from f(2) have p': "p_ID p' = p_ID p" by (simp add: record_step_def)
  from r obtain e1 e2 where e1: "UpdatePullRequest (p_ID p) f e = (None, e1)"
    and e2: "g e1 = (None, e2)" "TransitionIssue (p_IssueID p) s e2 = (None, e')"
    by (auto simp: then_do_None_iff)
  from e1 f(1) have e1: "e1 = put_pull_request p' e"
    unfolding UpdatePullRequest_eq [OF facts(1) p(1)] by (simp add: put_pull_request_def p')
  have twice: "put_pull_request q (put_pull_request p' e) = put_pull_request q e" if "p_ID q = p_ID p" for q
    using that p' by (auto simp: put_pull_request_def)
  from g [OF e1 e2(1)] obtain q where q: "e2 = put_pull_request q e" "record_step p' q" "phase q = s"
  proof (rule disjE, goal_cases)
    case 1
    with e1 s show ?thesis by (intro 1(1) [of p']) (auto simp: record_step_def)
  next
    case 2
    then obtain c where "Comment_Validate c = None"
      "e2 = put_pull_request (p'\<lparr>p_Comments := p_Comments p' @ [c]\<rparr>) e1" by blast
    with e1 s show ?thesis
      by (intro 2(1) [of "p'\<lparr>p_Comments := p_Comments p' @ [c]\<rparr>"])
        (auto simp: twice p' record_step_comment)
  qed
  from facts(6) p obtain i where i: "i \<in> set (e_Issues e)" "i_ID i = p_IssueID p" by (auto simp: in_phase_def)
  have "distinct (map i_ID (e_Issues e2))" "i \<in> set (e_Issues e2)" using facts(2) i by (simp_all add: q)
  from TransitionIssue_iff [OF this, of s e'] e2(2) i(2) have "e' = put_state (p_IssueID p) s e2" by simp
  with q record_step_trans [OF f(2) q(2)] show ?thesis by (intro that [of q]) simp_all
qed

lemma loop_inv_put_step:
  assumes inv: "loop_inv e" and p: "p \<in> set (e_PullRequests e)" "p_Status p = PullRequestOpen"
    and q: "record_step p q" "phase q = s"
  shows "loop_inv (put_state (p_IssueID p) s (put_pull_request q e))"
  using q p loop_inv_facts(4,5) [OF inv p(1)] unfolding record_step_def
  by (auto intro!: loop_inv_put [OF inv p])

lemma update_record:
  assumes inv: "loop_inv e" and p: "p \<in> set (e_PullRequests e)" "p_Status p = PullRequestOpen"
    and f: "f p = (None, p')" "record_step p p'" and s: "phase p' = phase p"
    and r: "UpdatePullRequest (p_ID p) f e = (None, e')"
  shows "loop_inv e'"
proof -
  note facts = loop_inv_facts [OF inv]
  from f(2) have p': "p_ID p' = p_ID p" "p_IssueID p' = p_IssueID p" "PullRequest_Validate p' = None" "rounds_inv p'"
    using p facts by (auto simp: record_step_def)
  from r f(1) have "e' = put_pull_request p' e"
    unfolding UpdatePullRequest_eq [OF facts(1) p(1)] by (simp add: put_pull_request_def p')
  with loop_inv_put_pull_request [OF inv p p' s] show ?thesis by simp
qed

lemma loop_inv_close_set:
  assumes inv: "loop_inv e"
  shows "loop_inv (close_set S e)"
proof -
  note facts = loop_inv_facts [OF inv]
  let ?c = "close_pull_request_in (S - merged_ids e)"
  have prs: "e_PullRequests (close_set S e) = map ?c (e_PullRequests e)" by (simp add: close_set_def)
  have c: "p_ID (?c p) = p_ID p" "p_IssueID (?c p) = p_IssueID p" "rounds_inv (?c p) = rounds_inv p"
    "p_Status (?c p) = PullRequestOpen \<longleftrightarrow> p_Status p = PullRequestOpen \<and> p_IssueID p \<notin> S - merged_ids e"
    "p_Status (?c p) = PullRequestOpen \<Longrightarrow> ?c p = p" for p
    by (auto simp: close_pull_request_in_def rounds_inv_def counts_ok_def HasFlag_def CanCode_def)
  have stay: "in_phase (close_set S e) p" if p: "p \<in> set (e_PullRequests e)" "p_Status p = PullRequestOpen"
      "p_IssueID p \<notin> S - merged_ids e" for p
  proof -
    from facts(6) [OF p(1,2)] obtain i where i: "i \<in> set (e_Issues e)" "i_ID i = p_IssueID p" "i_State i = phase p"
      by (auto simp: in_phase_def)
    have "p_IssueID p \<notin> merged_ids e"
    proof
      assume "p_IssueID p \<in> merged_ids e"
      then obtain j where "j \<in> set (e_Issues e)" "i_ID j = p_IssueID p" "i_State j = IssueStateMerged"
        by (auto simp: merged_ids_def)
      with i distinct_map_unique [OF facts(2), of i j] show False by (metis phase_simps(2))
    qed
    with p i have "close_issue_in S i = i" by (auto simp: close_issue_in_def)
    with i show ?thesis by (auto simp: in_phase_def intro!: bexI [of _ i] image_eqI [of _ _ i])
  qed
  have "rounds_inv q \<and> (p_Status q = PullRequestOpen \<longrightarrow> in_phase (close_set S e) q)"
    if "q \<in> set (e_PullRequests (close_set S e))" for q
  proof -
    from that prs obtain p where "p \<in> set (e_PullRequests e)" "q = ?c p" by auto
    with c stay facts(5) show ?thesis by metis
  qed
  moreover have "q = r" if "q \<in> set (e_PullRequests (close_set S e))" "r \<in> set (e_PullRequests (close_set S e))"
      "p_Status q = PullRequestOpen" "p_Status r = PullRequestOpen" "p_IssueID q = p_IssueID r" for q r
  proof -
    from that prs obtain p p' where "p \<in> set (e_PullRequests e)" "q = ?c p" "p' \<in> set (e_PullRequests e)" "r = ?c p'"
      by auto
    with that c inv show ?thesis unfolding loop_inv_def by metis
  qed
  moreover have "distinct (map p_ID (e_PullRequests (close_set S e)))"
    using facts(1) by (simp add: prs o_def c)
  ultimately show ?thesis using close_set_well_formed [OF facts(3)] unfolding loop_inv_def by blast
qed


lemma open_pull_request_form:
  assumes d: "distinct (map i_ID (e_Issues e))" and i: "i \<in> set (e_Issues e)" "i_State i = IssueStateOpen"
    and r: "open_pull_request ulid now i branch base e = (None, e')"
  obtains p where "CreatePullRequest ulid now (i_ID i) (i_Title i) (i_Repository i) branch base = Inr p"
    "AddPullRequest (i_ID i) p e = (None, e')" "phase p = IssueStateCoding"
    "e' = (put_state (i_ID i) IssueStateCoding e)\<lparr>e_PullRequests := e_PullRequests e @ [p]\<rparr>"
proof -
  from r obtain p where p: "CreatePullRequest ulid now (i_ID i) (i_Title i) (i_Repository i) branch base = Inr p"
    and add: "AddPullRequest (i_ID i) p e = (None, e')"
    by (auto simp: open_pull_request_def split: sum.splits)
  note fields = CreatePullRequest_fields [OF p]
  have ph: "phase p = IssueStateCoding" using fields by (simp add: phase_def HasFlag_iff)
  have "TransitionIssue (i_ID i) IssueStateCoding e = (None, put_state (i_ID i) IssueStateCoding e)"
    using TransitionIssue_iff [OF d i(1)] i(2) by (simp add: issueTransition_def)
  moreover have same: "p\<lparr>p_IssueID := i_ID i\<rparr> = p" using fields by (cases p) simp
  ultimately have "e' = (put_state (i_ID i) IssueStateCoding e)\<lparr>e_PullRequests := e_PullRequests e @ [p]\<rparr>"
    using add fields unfolding AddPullRequest_def then_do_def same by (simp flip: TransitionIssue_def)
  with p add ph show ?thesis by (rule that)
qed

lemma loop_inv_open:
  assumes inv: "loop_inv e" and i: "i \<in> set (e_Issues e)" "i_State i = IssueStateOpen"
    and none: "OpenPullRequestFor e (i_ID i) = None" and fresh: "ulid \<notin> p_ID ` set (e_PullRequests e)"
    and r: "open_pull_request ulid now i branch base e = (None, e')"
  shows "loop_inv e'"
proof -
  note facts = loop_inv_facts [OF inv]
  from open_pull_request_form [OF facts(2) i r] obtain p where
    p: "CreatePullRequest ulid now (i_ID i) (i_Title i) (i_Repository i) branch base = Inr p"
    and add: "AddPullRequest (i_ID i) p e = (None, e')" and ph: "phase p = IssueStateCoding"
    and e': "e' = (put_state (i_ID i) IssueStateCoding e)\<lparr>e_PullRequests := e_PullRequests e @ [p]\<rparr>" .
  note fields = CreatePullRequest_fields [OF p]
  have issues: "set (e_Issues e') = insert (i\<lparr>i_State := IssueStateCoding\<rparr>) (set (e_Issues e) - {i})"
    using put_state_set [OF facts(2) i(1)] by (simp add: e')
  have other: "p_IssueID q \<noteq> i_ID i" if "q \<in> set (e_PullRequests e)" "p_Status q = PullRequestOpen" for q
    using none that by (auto simp: OpenPullRequestFor_def find_None_iff)
  have phases: "rounds_inv q \<and> (p_Status q = PullRequestOpen \<longrightarrow> in_phase e' q)"
    if "q \<in> set (e_PullRequests e')" for q
  proof (cases "q = p")
    case True
    then show ?thesis
      using rounds_inv_create [OF p] fields ph unfolding in_phase_def issues by auto
  next
    case False
    with that have q: "q \<in> set (e_PullRequests e)" by (simp add: e')
    have "in_phase e' q" if "p_Status q = PullRequestOpen"
      using facts(6) [OF q that] other [OF q that] unfolding in_phase_def issues by auto
    with facts(5) [OF q] show ?thesis by blast
  qed
  have wf: "well_formed e'"
    using keepsD [OF keeps_AddPullRequest add facts(3)] by simp
  have "q = r" if "q \<in> set (e_PullRequests e')" "r \<in> set (e_PullRequests e')"
      "p_Status q = PullRequestOpen" "p_Status r = PullRequestOpen" "p_IssueID q = p_IssueID r" for q r
  proof -
    have "q = p \<or> q \<in> set (e_PullRequests e)" "r = p \<or> r \<in> set (e_PullRequests e)"
      using that by (auto simp: e')
    moreover have "p_IssueID p = i_ID i" using fields by simp
    ultimately show ?thesis using that other inv unfolding loop_inv_def by metis
  qed
  moreover have "distinct (map p_ID (e_PullRequests e'))" using facts(1) fresh fields by (auto simp: e')
  ultimately show ?thesis using wf phases unfolding loop_inv_def by blast
qed

lemma settle_form:
  assumes inv: "loop_inv e" and p: "p \<in> set (e_PullRequests e)"
    and r: "TransitionPullRequest (p_ID p) status e = (None, e')"
  shows "loop_inv e' \<and> p_Status p = PullRequestOpen \<and>
    (status = PullRequestMerged \<and> phase p = IssueStatePR \<or> status = PullRequestClosed) \<and>
    e' = put_state (p_IssueID p) (if status = PullRequestClosed then IssueStateOpen else IssueStateMerged)
      (put_pull_request (p\<lparr>p_Status := status\<rparr>) e)"
proof -
  note facts = loop_inv_facts [OF inv]
  have status: "status = PullRequestMerged \<or> status = PullRequestClosed"
    using r by (cases status) (auto simp: TransitionPullRequest_def)
  define event where "event = (if status = PullRequestMerged then PullRequestEventMerge else PullRequestEventClose)"
  define s where "s = (if status = PullRequestClosed then IssueStateOpen else IssueStateMerged)"
  let ?p' = "p\<lparr>p_Status := status\<rparr>"
  from r status obtain u where u: "transition_pull_request_body (p_ID p) status event e = (None, u)"
    and e': "e' = e\<lparr>e_Issues := e_Issues u, e_PullRequests := e_PullRequests u\<rparr>"
    by (auto simp: TransitionPullRequest_def mutate_None event_def)
  have f: "find (\<lambda>q. p_ID q = p_ID p) (e_PullRequests e) = Some p" using find_distinct_key [OF facts(1) p] .
  from u obtain e1 where
    e1: "on_pull_requests (update_first (\<lambda>q. p_ID q = p_ID p) (PullRequest_Apply event)
        (Errorf ''pull request not found'' [])) e = (None, e1)"
    and e2: "TransitionIssue (p_IssueID p) s e1 = (None, u)"
    by (auto simp: transition_pull_request_body_def f then_do_None_iff TransitionIssue_def s_def Let_def)
  from e1 obtain p' where a: "PullRequest_Apply event p = (None, p')"
    and e1: "e1 = e\<lparr>e_PullRequests := map (\<lambda>q. if p_ID q = p_ID p then p' else q) (e_PullRequests e)\<rparr>"
    unfolding on_record_eq [OF facts(1) p] by (cases "PullRequest_Apply event p") auto
  from a status have open': "p_Status p = PullRequestOpen" and p': "p' = ?p'"
    by (auto simp: PullRequest_Apply_def event_def pullRequestTransition_def split: if_splits option.splits)
  with e1 have e1: "e1 = put_pull_request ?p' e" by (simp add: put_pull_request_def)
  from facts(6) [OF p open'] obtain i where i: "i \<in> set (e_Issues e)" "i_ID i = p_IssueID p" "i_State i = phase p"
    by (auto simp: in_phase_def)
  have d1: "distinct (map i_ID (e_Issues e1))" "i \<in> set (e_Issues e1)" using facts(2) i by (simp_all add: e1)
  from TransitionIssue_iff [OF d1, of s u] e2 i
  have u': "u = put_state (p_IssueID p) s e1" and move: "phase p = s \<or> issueTransition (phase p) s"
    by simp_all
  have e'_eq: "e' = put_state (p_IssueID p) s (put_pull_request ?p' e)"
    unfolding e' u' e1 by (simp add: put_state_def put_pull_request_def)
  have ok: "PullRequest_Validate ?p' = None" "rounds_inv ?p'"
    using facts(4,5) [OF p] status
    by (auto simp: PullRequest_Validate_None counts_ok_def rounds_inv_def HasFlag_def CanCode_def)
  have "isIssueState s" "p_Status ?p' \<noteq> PullRequestOpen" using status by (auto simp: s_def)
  then have "loop_inv e'"
    unfolding e'_eq using loop_inv_put [OF inv p open', of ?p' s] ok by simp
  moreover have "status = PullRequestMerged \<Longrightarrow> phase p = IssueStatePR"
    using move by (auto simp: s_def issueTransition_def)
  ultimately show ?thesis using status open' e'_eq unfolding s_def by blast
qed


lemma loop_inv_settle:
  assumes "loop_inv e" and "p \<in> set (e_PullRequests e)" and "TransitionPullRequest (p_ID p) status e = (None, e')"
  shows "loop_inv e' \<and> p_Status p = PullRequestOpen \<and>
    (status = PullRequestMerged \<and> phase p = IssueStatePR \<or> status = PullRequestClosed)"
  using settle_form [OF assms] by blast


lemma awaitingMerge_phase:
  assumes inv: "loop_inv e" and p: "p \<in> set (e_PullRequests e)" "awaitingMerge e p"
  shows "p_Status p = PullRequestOpen \<and> phase p = IssueStatePR \<and> \<not> HasFlag p FlagStale"
proof -
  note facts = loop_inv_facts [OF inv]
  from p(2) obtain j where o: "p_Status p = PullRequestOpen"
    and j: "FindIssue e (p_IssueID p) = Inr j" "i_State j = IssueStatePR"
    by (auto simp: awaitingMerge_def split: if_splits sum.splits)
  from facts(6) [OF p(1) o] obtain i where i: "i \<in> set (e_Issues e)" "i_ID i = p_IssueID p" "i_State i = phase p"
    by (auto simp: in_phase_def)
  with FindIssue_eq [OF facts(2) i(1)] j have "phase p = IssueStatePR" by simp
  with o show ?thesis by (auto simp: phase_def split: if_splits)
qed

text \<open>The completion of the round that \<open>IssueRole\<close> chose.\<close>

definition with_comment :: "Comment \<Rightarrow> PullRequest \<Rightarrow> PullRequest" where
  "with_comment c p = p\<lparr>p_Comments := p_Comments p @ [c]\<rparr>"

lemma coding_in_loop:
  assumes inv: "loop_inv e" and p: "p \<in> set (e_PullRequests e)" and role: "IssueRole e p = Some AgentRoleCoding"
  shows "coding_completed ulid now (p_ID p) answer head e = (None, e') \<longleftrightarrow>
      (\<exists>c. CreateComment ulid now ''coding'' (report_body answer head) = Inr c \<and>
         e' = put_state (p_IssueID p) IssueStateReview
           (put_pull_request (with_comment c (snd (RecordCodingRound p))) e))"
    and "coding_completed ulid now (p_ID p) answer head e = (None, e') \<Longrightarrow> loop_inv e'"
proof -
  note rinv = loop_inv_facts(5) [OF inv p]
  from IssueRole_phase [OF rinv] role
  have *: "p_Status p = PullRequestOpen" "phase p = IssueStateCoding" "CanCode p" by auto
  have f: "RecordCodingRound p = (None, snd (RecordCodingRound p))" by (simp add: prod_eq_iff RecordCodingRound_total)
  have rs: "record_step p (snd (RecordCodingRound p))"
    by (rule record_step_round [where event = CodingRound]) (simp add: round_step_def *)
  have m: "phase p = IssueStateReview \<or> issueTransition (phase p) IssueStateReview"
    by (simp add: * issueTransition_def)
  note r = loop_inv_round [where f = RecordCodingRound, OF inv p *(1) f rs phase_after(1) [OF rinv *(2)] m]
  show "coding_completed ulid now (p_ID p) answer head e = (None, e') \<longleftrightarrow>
      (\<exists>c. CreateComment ulid now ''coding'' (report_body answer head) = Inr c \<and>
         e' = put_state (p_IssueID p) IssueStateReview
           (put_pull_request (with_comment c (snd (RecordCodingRound p))) e))"
    unfolding coding_completed_def r(1) with_comment_def ..
  show "coding_completed ulid now (p_ID p) answer head e = (None, e') \<Longrightarrow> loop_inv e'"
    unfolding coding_completed_def by (rule r(2))
qed

lemma merging_in_loop:
  assumes inv: "loop_inv e" and p: "p \<in> set (e_PullRequests e)" and role: "IssueRole e p = Some AgentRoleMerge"
  shows "merge_completed ulid now (p_ID p) answer head e = (None, e') \<longleftrightarrow>
      (\<exists>c. CreateComment ulid now ''merge'' (report_body answer head) = Inr c \<and>
         e' = put_state (p_IssueID p) IssueStateReview
           (put_pull_request (with_comment c (RecordMergeRound p)) e))"
    and "merge_completed ulid now (p_ID p) answer head e = (None, e') \<Longrightarrow> loop_inv e'"
proof -
  note rinv = loop_inv_facts(5) [OF inv p]
  from IssueRole_phase [OF rinv] role
  have *: "p_Status p = PullRequestOpen" "phase p = IssueStateStale" by auto
  have rs: "record_step p (RecordMergeRound p)"
    by (rule record_step_round [where event = MergeRound]) (simp add: round_step_def)
  have m: "phase p = IssueStateReview \<or> issueTransition (phase p) IssueStateReview"
    by (simp add: * issueTransition_def)
  note r = loop_inv_round [where f = "\<lambda>record. (None, RecordMergeRound record)",
      OF inv p *(1) refl rs phase_after(2) [OF rinv] m]
  show "merge_completed ulid now (p_ID p) answer head e = (None, e') \<longleftrightarrow>
      (\<exists>c. CreateComment ulid now ''merge'' (report_body answer head) = Inr c \<and>
         e' = put_state (p_IssueID p) IssueStateReview
           (put_pull_request (with_comment c (RecordMergeRound p)) e))"
    unfolding merge_completed_def r(1) with_comment_def ..
  show "merge_completed ulid now (p_ID p) answer head e = (None, e') \<Longrightarrow> loop_inv e'"
    unfolding merge_completed_def by (rule r(2))
qed

lemma review_in_loop:
  assumes inv: "loop_inv e" and p: "p \<in> set (e_PullRequests e)" and role: "IssueRole e p = Some AgentRolePRReviewer"
  shows "review_completed ulid now (p_ID p) answer head base approved e = (None, e') \<longleftrightarrow>
      (\<exists>c. CreateComment ulid now ''pr-reviewer'' (report_body answer head) = Inr c \<and>
         e' = put_state (p_IssueID p) (if approved then IssueStatePR else IssueStateCoding)
           (put_pull_request (with_comment c (snd (RecordReview approved head base p))) e))"
    and "review_completed ulid now (p_ID p) answer head base approved e = (None, e') \<Longrightarrow> loop_inv e'"
proof -
  note rinv = loop_inv_facts(5) [OF inv p]
  from IssueRole_phase [OF rinv] role
  have *: "p_Status p = PullRequestOpen" "phase p = IssueStateReview" by auto
  have f: "RecordReview approved head base p = (None, snd (RecordReview approved head base p))"
    by (simp add: prod_eq_iff RecordReview_total)
  have rs: "record_step p (snd (RecordReview approved head base p))"
    by (rule record_step_round [where event = "ReviewRound approved head base"]) (simp add: round_step_def)
  let ?s = "if approved then IssueStatePR else IssueStateCoding"
  have m: "phase p = ?s \<or> issueTransition (phase p) ?s" by (simp add: * issueTransition_def)
  note r = loop_inv_round [where f = "RecordReview approved head base",
      OF inv p *(1) f rs phase_after(3) [OF rinv *(2)] m]
  show "review_completed ulid now (p_ID p) answer head base approved e = (None, e') \<longleftrightarrow>
      (\<exists>c. CreateComment ulid now ''pr-reviewer'' (report_body answer head) = Inr c \<and>
         e' = put_state (p_IssueID p) ?s
           (put_pull_request (with_comment c (snd (RecordReview approved head base p))) e))"
    unfolding review_completed_def r(1) with_comment_def ..
  show "review_completed ulid now (p_ID p) answer head base approved e = (None, e') \<Longrightarrow> loop_inv e'"
    unfolding review_completed_def by (rule r(2))
qed

lemma comment_after:
  assumes "distinct (map p_ID (e_PullRequests e))" and "p \<in> set (e_PullRequests e)" and rs: "record_step p q"
    and r: "comment_pull_request ulid now (p_ID p) author body (put_pull_request q e) = (None, e2)"
  shows "\<exists>c. Comment_Validate c = None \<and>
    e2 = put_pull_request (q\<lparr>p_Comments := p_Comments q @ [c]\<rparr>) (put_pull_request q e)"
proof -
  have id: "p_ID q = p_ID p" using rs by (simp add: record_step_def)
  have d: "distinct (map p_ID (e_PullRequests (put_pull_request q e)))" "q \<in> set (e_PullRequests (put_pull_request q e))"
    using assms(1) put_pull_request_set [OF assms(1,2) id] by simp_all
  from r comment_pull_request_eq [OF d, of ulid now author body e2] id CreateComment_valid show ?thesis by metis
qed

lemma sweep_markStale_form:
  assumes inv: "loop_inv e" and p: "p \<in> set (e_PullRequests e)" "p_Status p = PullRequestOpen"
    and r: "sweep_markStale p e = (None, e')"
  obtains q where "e' = put_state (p_IssueID p) IssueStateStale (put_pull_request q e)"
    "record_step p q" "phase q = IssueStateStale"
proof -
  note facts = loop_inv_facts [OF inv]
  have f: "SetFlag FlagStale True p = (None, snd (SetFlag FlagStale True p))" by (simp add: prod_eq_iff SetFlag_known)
  have rs: "record_step p (snd (SetFlag FlagStale True p))" by (simp add: record_step_flag)
  have "then_do (\<lambda>e. (None, e)) g = g" for g :: "Epic update" by (rule ext) (simp add: then_do_def)
  with r have r: "then_do (UpdatePullRequest (p_ID p) (SetFlag FlagStale True))
      (then_do (\<lambda>e. (None, e)) (TransitionIssue (p_IssueID p) IssueStateStale)) e = (None, e')"
    by (simp add: sweep_markStale_def)
  show ?thesis
    by (rule update_then_transition_form [where f = "SetFlag FlagStale True" and g = "\<lambda>e. (None, e)",
        OF inv p f rs phase_after(5) [OF facts(5) [OF p(1)]] r _ that]) simp_all
qed

lemma sendBackToReview_form:
  assumes inv: "loop_inv e" and p: "p \<in> set (e_PullRequests e)" "p_Status p = PullRequestOpen" "\<not> HasFlag p FlagStale"
    and r: "sendBackToReview ulid now p body e = (None, e')"
  obtains q where "e' = put_state (p_IssueID p) IssueStateReview (put_pull_request q e)"
    "record_step p q" "phase q = IssueStateReview"
proof -
  note facts = loop_inv_facts [OF inv]
  have rs: "record_step p (RecordExternalPush p)"
    by (rule record_step_round [where event = ExternalPush]) (simp add: round_step_def)
  note comment = comment_after [where ulid = ulid and now = now and author = "''merge''" and body = body, OF facts(1) p(1) rs]
  show ?thesis
    by (rule update_then_transition_form [where f = "\<lambda>record. (None, RecordExternalPush record)"
          and g = "comment_pull_request ulid now (p_ID p) ''merge'' body",
        OF inv p(1,2) refl rs phase_after(4) [OF facts(5) [OF p(1)] p(3)] r [unfolded sendBackToReview_def] _ that])
      (use comment in blast)+
qed

lemma conflict_markStale_form:
  assumes inv: "loop_inv e" and p: "p \<in> set (e_PullRequests e)" "p_Status p = PullRequestOpen"
    and r: "conflict_markStale ulid now p body e = (None, e')"
  obtains q where "e' = put_state (p_IssueID p) IssueStateStale (put_pull_request q e)"
    "record_step p q" "phase q = IssueStateStale"
proof -
  note facts = loop_inv_facts [OF inv]
  let ?q = "snd (SetFlag FlagStale True p)"
  have rs: "record_step p ?q" by (simp add: record_step_flag)
  have f: "SetFlag FlagStale True p = (None, ?q)" by (simp add: prod_eq_iff SetFlag_known)
  note comment = comment_after [where ulid = ulid and now = now and author = "''merge''" and body = body, OF facts(1) p(1) rs]
  show ?thesis
    by (rule update_then_transition_form [where f = "SetFlag FlagStale True"
          and g = "comment_pull_request ulid now (p_ID p) ''merge'' body",
        OF inv p f rs phase_after(5) [OF facts(5) [OF p(1)]] r [unfolded conflict_markStale_def] _ that])
      (use comment in blast)+
qed

lemma loop_inv_step:
  assumes inv: "loop_inv e" and step: "loop_step e e'"
  shows "loop_inv e'"
  using step
proof (rule loop_stepE, goal_cases)
  case (1 p ulid now answer head)
  from coding_in_loop(2) [OF inv 1] show ?case .
next
  case (2 p ulid now answer head)
  from merging_in_loop(2) [OF inv 2] show ?case .
next
  case (3 p ulid now answer head base approved)
  from review_in_loop(2) [OF inv 3] show ?case .
next
  case (4 p)
  from awaitingMerge_phase [OF inv 4(1,2)] have p: "p_Status p = PullRequestOpen" by simp
  show ?case by (rule sweep_markStale_form [OF inv 4(1) p 4(3)]) (use loop_inv_put_step [OF inv 4(1) p] in blast)
next
  case (5 p ulid now body)
  from awaitingMerge_phase [OF inv 5(1,2)] have p: "p_Status p = PullRequestOpen" "\<not> HasFlag p FlagStale" by simp_all
  show ?case by (rule sendBackToReview_form [OF inv 5(1) p 5(3)]) (use loop_inv_put_step [OF inv 5(1) p(1)] in blast)
next
  case (6 p ulid now body)
  show ?case by (rule conflict_markStale_form [OF inv 6]) (use loop_inv_put_step [OF inv 6(1,2)] in blast)
next
  case (7 p)
  note facts = loop_inv_facts [OF inv]
  let ?f = "\<lambda>pullRequest. if p_Status pullRequest \<noteq> PullRequestOpen
      then (Some (Errorf ''pull request %s is %s; only an open one can take another round''
              [GStr (p_ID p), GStr (pull_request_status_string (p_Status pullRequest))]), pullRequest)
      else if CanCode pullRequest
      then (Some (Errorf ''pull request %s still has coding rounds left; the loop retries on its own''
              [GStr (p_ID p)]), pullRequest)
      else GrantCodingRound pullRequest"
  from 7(2) have p: "p_Status p = PullRequestOpen" and f: "?f p = (None, snd (GrantCodingRound p))"
    unfolding grant_coding_round_def UpdatePullRequest_eq [OF facts(1) 7(1)]
    by (auto simp: prod_eq_iff GrantCodingRound_total split: if_splits)
  have rs: "record_step p (snd (GrantCodingRound p))"
    by (rule record_step_round [where event = Grant]) (simp add: round_step_def)
  show ?case
    by (rule update_record [where f = ?f, OF inv 7(1) p f rs phase_after(7) [OF facts(5) [OF 7(1)]] 7(2)
        [unfolded grant_coding_round_def]])
next
  case (8 p blocked)
  note facts = loop_inv_facts [OF inv]
  have f: "SetFlag FlagBlocked blocked p = (None, snd (SetFlag FlagBlocked blocked p))"
    by (simp add: prod_eq_iff SetFlag_known)
  show ?case
    by (rule update_record [where f = "SetFlag FlagBlocked blocked", OF inv 8(1,2) f _ phase_after(6) [OF facts(5) [OF 8(1)]] 8(3)])
      (simp add: record_step_flag)
next
  case (9 i ulid now branch base)
  then show ?case by (rule loop_inv_open [OF inv])
next
  case (10 p status)
  with loop_inv_settle [OF inv] show ?case by blast
next
  case (11 x)
  with CloseIssue_eq [of e x] loop_inv_facts(3) [OF inv] loop_inv_close_set [OF inv] show ?case
    by (auto split: if_splits)
qed


lemma loop_inv_start: "well_formed e \<Longrightarrow> e_PullRequests e = [] \<Longrightarrow> loop_inv e"
  by (simp add: loop_inv_def)

lemma loop_inv_reachable: "loop_step\<^sup>*\<^sup>* e0 e \<Longrightarrow> loop_inv e0 \<Longrightarrow> loop_inv e"
  by (induction rule: rtranclp_induct) (auto intro: loop_inv_step)

lemma report_authors:
  "trim_space ''coding'' = ''coding''" "trim_space ''merge'' = ''merge''"
  "trim_space ''pr-reviewer'' = ''pr-reviewer''"
  by (intro trim_space_solid; simp add: byte_def is_space_def in_range_def)+

lemma CreateComment_total:
  assumes "ulid \<noteq> []" and "now \<noteq> 0" and "trim_space author = author" and "author \<noteq> []"
  shows "CreateComment ulid now author body =
    Inr \<lparr>c_ID = ulid, c_Author = author, c_CreatedAt = now, c_Body = body\<rparr>"
  using assms by (simp add: CreateComment_def Comment_Validate_def Comment_SetBody_def Let_def)



text \<open>C13. Only approved work is recorded as merged. In every state the loop can reach, a pull request
  can be recorded as merged exactly when it is open and its issue is in Pr; then it is approved, the
  approval covers every round it had, and its branch is not known to be behind.\<close>

theorem only_approved_work_is_merged:
  assumes "well_formed e0" and "e_PullRequests e0 = []" and "loop_step\<^sup>*\<^sup>* e0 e"
    and "p \<in> set (e_PullRequests e)" and "TransitionPullRequest (p_ID p) PullRequestMerged e = (None, e')"
  shows "p_Status p = PullRequestOpen \<and> p_Approved p \<and> p_Reviews p = p_Rounds p \<and> \<not> HasFlag p FlagStale \<and>
    (\<exists>i \<in> set (e_Issues e). i_ID i = p_IssueID p \<and> i_State i = IssueStatePR)"
proof -
  have inv: "loop_inv e" by (rule loop_inv_reachable [OF assms(3) loop_inv_start [OF assms(1,2)]])
  from loop_inv_settle [OF inv assms(4,5)] have o: "p_Status p = PullRequestOpen" and ph: "phase p = IssueStatePR"
    by auto
  have "rounds_inv p" by (rule loop_inv_facts(5) [OF inv assms(4)])
  with ph o loop_inv_facts(6) [OF inv assms(4) o] show ?thesis
    by (auto simp: phase_def in_phase_def rounds_inv_def counts_ok_def split: if_splits)
qed


section \<open>An example\<close>

text \<open>The example epic before its branches are cut, and with the first of them cut.\<close>

definition uncut_epic :: Epic where
  "uncut_epic = example_epic\<lparr>e_PullRequests := [],
     e_Issues := [example_issue ''R'' [] [] IssueStateOpen [],
        example_issue ''I1'' ''R'' ''acme/api'' IssueStateOpen [],
        example_issue ''I2'' ''R'' ''acme/api'' IssueStateOpen [''I1'']]\<rparr>"

definition cut_pull_request :: PullRequest where
  "cut_pull_request =
     \<lparr>p_ID = ''P1'', p_IssueID = ''I1'', p_Title = ''Task'', p_Status = PullRequestOpen,
      p_Repository = ''acme/api'', p_Number = 0, p_URL = [], p_Head = ''gm/task-I1'', p_Base = ''main'',
      p_Flags = [], p_ReviewedHead = [], p_ReviewedBase = [], p_Rounds = 0, p_Reviews = 0,
      p_RoundsGranted = 0, p_CodingRounds = 0, p_Approved = False, p_CreatedAt = 1, p_Comments = []\<rparr>"

definition cut_epic :: Epic where
  "cut_epic = (put_state ''I1'' IssueStateCoding uncut_epic)\<lparr>e_PullRequests := [cut_pull_request]\<rparr>"

lemma uncut_well_formed: "well_formed uncut_epic" "e_PullRequests uncut_epic = []"
proof -
  show "e_PullRequests uncut_epic = []" by (simp add: uncut_epic_def)
  show "well_formed uncut_epic"
  proof (rule well_formed_skeleton [OF example_well_formed])
    show "\<forall>i \<in> set (e_Issues uncut_epic). content_ok i"
      using well_formed_content [OF example_well_formed]
      by (simp add: uncut_epic_def example_epic_def content_ok_def Issue_Validate_def trim_space_example)
  qed (use example_well_formed in \<open>simp_all add: uncut_epic_def example_epic_def skeleton_def
      example_issue_def well_formed_def\<close>)
qed

lemma cut_step: "loop_step uncut_epic cut_epic"
proof -
  have "trim_space ''gm/task-I1'' = ''gm/task-I1''" "trim_space ''main'' = ''main''"
    by (intro trim_space_solid; simp add: byte_def is_space_def in_range_def)+
  then have "open_pull_request ''P1'' 1 (example_issue ''I1'' ''R'' ''acme/api'' IssueStateOpen [])
      ''gm/task-I1'' ''main'' uncut_epic = (None, cut_epic)"
    by (simp add: open_pull_request_def CreatePullRequest_def PullRequest_Validate_def trim_space_example
      AddPullRequest_def then_do_def on_issues_def Issue_TransitionTo_def issueTransition_def
      cut_epic_def cut_pull_request_def put_state_def uncut_epic_def example_epic_def example_issue_def)
  then show ?thesis
    by (rule loop_step.Opens [rotated 4])
      (simp_all add: uncut_epic_def OpenPullRequestFor_def example_issue_def)
qed

lemma cut_role: "cut_pull_request \<in> set (e_PullRequests cut_epic)"
  "IssueRole cut_epic cut_pull_request = Some AgentRoleCoding"
  by (simp_all add: cut_epic_def IssueRole_def cut_pull_request_def HasFlag_def CanCode_def MaxCodingRounds_def
    Blocked_def FindIssue_def find_by_def put_state_def uncut_epic_def example_epic_def example_issue_def
    settled_def)




text \<open>The same pull request after a coding round and an approving review.\<close>

definition reviewed_pull_request :: PullRequest where
  "reviewed_pull_request = cut_pull_request\<lparr>p_Rounds := 1, p_CodingRounds := 1, p_Reviews := 1,
     p_Approved := True, p_ReviewedHead := ''h1'', p_ReviewedBase := ''b1'',
     p_Comments := [\<lparr>c_ID = ''C1'', c_Author = ''coding'', c_CreatedAt = 7, c_Body = ''done''\<rparr>,
       \<lparr>c_ID = ''C2'', c_Author = ''pr-reviewer'', c_CreatedAt = 8, c_Body = ''fine''\<rparr>]\<rparr>"

definition coded_pull_request :: PullRequest where
  "coded_pull_request = cut_pull_request\<lparr>p_Rounds := 1, p_CodingRounds := 1,
     p_Comments := [\<lparr>c_ID = ''C1'', c_Author = ''coding'', c_CreatedAt = 7, c_Body = ''done''\<rparr>]\<rparr>"

definition coded_epic :: Epic where
  "coded_epic = put_state ''I1'' IssueStateReview (put_pull_request coded_pull_request cut_epic)"

definition reviewed_epic :: Epic where
  "reviewed_epic = put_state ''I1'' IssueStatePR (put_pull_request reviewed_pull_request coded_epic)"

lemma example_reports: "report_body ''done'' ''h1'' = ''done''" "report_body ''fine'' ''h1'' = ''fine''"
proof -
  have "trim_space ''done'' = ''done''" "trim_space ''fine'' = ''fine''"
    by (intro trim_space_solid; simp add: byte_def is_space_def in_range_def)+
  then show "report_body ''done'' ''h1'' = ''done''" "report_body ''fine'' ''h1'' = ''fine''"
    by (simp_all add: report_body_def)
qed

lemma cut_inv: "loop_inv cut_epic"
  by (rule loop_inv_step [OF loop_inv_start [OF uncut_well_formed] cut_step])

lemma coded_step: "loop_step cut_epic coded_epic"
proof -
  have "coding_completed ''C1'' 7 (p_ID cut_pull_request) ''done'' ''h1'' cut_epic = (None, coded_epic)"
    unfolding coding_in_loop(1) [OF cut_inv cut_role]
    by (simp add: CreateComment_total report_authors example_reports coded_epic_def coded_pull_request_def
      with_comment_def cut_pull_request_def round_defs SetFlag_snd CanCode_def MaxCodingRounds_def)
  then show ?thesis by (rule loop_step.Codes [OF cut_role])
qed

lemma coded_inv: "loop_inv coded_epic"
  by (rule loop_inv_step [OF cut_inv coded_step])

lemma coded_role: "coded_pull_request \<in> set (e_PullRequests coded_epic)"
  "IssueRole coded_epic coded_pull_request = Some AgentRolePRReviewer"
  by (simp_all add: coded_epic_def coded_pull_request_def cut_epic_def IssueRole_def cut_pull_request_def
    HasFlag_def Blocked_def FindIssue_def find_by_def put_state_def put_pull_request_def uncut_epic_def
    example_epic_def example_issue_def settled_def)

lemma reviewed_step: "loop_step coded_epic reviewed_epic"
proof -
  have "review_completed ''C2'' 8 (p_ID coded_pull_request) ''fine'' ''h1'' ''b1'' True coded_epic = (None, reviewed_epic)"
    unfolding review_in_loop(1) [OF coded_inv coded_role]
    by (simp add: CreateComment_total report_authors example_reports coded_pull_request_def reviewed_epic_def
      reviewed_pull_request_def with_comment_def cut_pull_request_def round_defs SetFlag_snd)
  then show ?thesis by (rule loop_step.Reviews [OF coded_role])
qed

lemma reviewed_reachable: "loop_step\<^sup>*\<^sup>* uncut_epic reviewed_epic"
proof -
  note one = rtranclp.rtrancl_into_rtrancl [of loop_step, OF rtranclp.rtrancl_refl cut_step]
  note two = rtranclp.rtrancl_into_rtrancl [of loop_step, OF one coded_step]
  show ?thesis by (rule rtranclp.rtrancl_into_rtrancl [of loop_step, OF two reviewed_step])
qed

lemma only_approved_work_is_merged_witness:
  "\<exists>e'. TransitionPullRequest ''P1'' PullRequestMerged reviewed_epic = (None, e') \<and> p_Approved reviewed_pull_request"
proof -
  have p: "reviewed_pull_request \<in> set (e_PullRequests reviewed_epic)" "p_ID reviewed_pull_request = ''P1''"
    by (simp_all add: reviewed_epic_def coded_epic_def cut_epic_def put_pull_request_def
      reviewed_pull_request_def coded_pull_request_def cut_pull_request_def)
  obtain e' where e': "TransitionPullRequest ''P1'' PullRequestMerged reviewed_epic = (None, e')"
    by (simp add: TransitionPullRequest_def mutate_def transition_pull_request_body_def then_do_def
      on_pull_requests_def on_issues_def reviewed_epic_def coded_epic_def cut_epic_def put_pull_request_def
      put_state_def reviewed_pull_request_def coded_pull_request_def cut_pull_request_def uncut_epic_def
      example_epic_def example_issue_def PullRequest_Apply_def pullRequestTransition_def
      Issue_TransitionTo_def issueTransition_def)
  from only_approved_work_is_merged [OF uncut_well_formed reviewed_reachable p(1)] e' p(2) show ?thesis by auto
qed

end
