(* ===== verification/Host_Ports.thy ===== *)
theory Host_Ports
  imports Issue_Loop Agent_Rounds Go_Paths
begin

text \<open>
  The ports the use cases of \<open>internal/application/usecases\<close> are written against
  (\<open>application/workspace.go\<close>, \<open>application/agent_runtime/ports.go\<close>), as records of functions
  over an abstract world, and the shape of a handler: a chain of calls each followed by
  \<open>if err != nil { return err }\<close>.
\<close>

section \<open>Chains of fallible calls\<close>

type_synonym ('a, 'x) io = "'x world \<Rightarrow> (go_error + 'a) \<times> 'x world"

definition returning :: "'a \<Rightarrow> ('a, 'x) io" where
  "returning a w = (Inr a, w)"

definition failing :: "go_error \<Rightarrow> ('a, 'x) io" where
  "failing err w = (Inl err, w)"

definition calling :: "('a, 'x) io \<Rightarrow> ('a \<Rightarrow> ('b, 'x) io) \<Rightarrow> ('b, 'x) io" where
  "calling m f w = (case m w of (Inl err, w) \<Rightarrow> (Inl err, w) | (Inr a, w) \<Rightarrow> f a w)"

text \<open>A call that returns only an error, a pure computation that may fail, and \<open>defer\<close>.\<close>

definition doing :: "('x world \<Rightarrow> go_error option \<times> 'x world) \<Rightarrow> (unit, 'x) io" where
  "doing m w = (case m w of (Some err, w) \<Rightarrow> (Inl err, w) | (None, w) \<Rightarrow> (Inr (), w))"

definition settling :: "go_error + 'a \<Rightarrow> ('a, 'x) io" where
  "settling r w = (r, w)"

definition deferring :: "('x world \<Rightarrow> 'x world) \<Rightarrow> ('a, 'x) io \<Rightarrow> ('a, 'x) io" where
  "deferring cleanup m w = (let (r, w) = m w in (r, cleanup w))"

lemma calling_Inr:
  "calling m f w = (Inr b, w') \<longleftrightarrow> (\<exists>a w1. m w = (Inr a, w1) \<and> f a w1 = (Inr b, w'))"
  by (auto simp: calling_def split: prod.splits sum.splits)

lemma calling_cases:
  assumes "calling m f w = (r, w')"
  obtains (fails) err where "m w = (Inl err, w')" "r = Inl err"
  | (continues) a w1 where "m w = (Inr a, w1)" "f a w1 = (r, w')"
  using assms by (auto simp: calling_def split: prod.splits sum.splits)

text \<open>
  What an observer of the world (a count of pushes, of reservations) sees of a call: \<open>silent obs m\<close>
  says the call leaves the observation as it was, whatever it returns.
\<close>

definition silent :: "('x world \<Rightarrow> 'o) \<Rightarrow> ('x world \<Rightarrow> 'r \<times> 'x world) \<Rightarrow> bool" where
  "silent obs m \<longleftrightarrow> (\<forall>w. obs (snd (m w)) = obs w)"

lemma silentI: "(\<And>w r w'. m w = (r, w') \<Longrightarrow> obs w' = obs w) \<Longrightarrow> silent obs m"
  by (auto simp: silent_def prod_eq_iff)

lemma silentD: "silent obs m \<Longrightarrow> m w = (r, w') \<Longrightarrow> obs w' = obs w"
  by (metis silent_def snd_conv)

lemma silent_snd: "silent obs m \<Longrightarrow> obs (snd (m w)) = obs w"
  by (simp add: silent_def)

lemma silent_pure [simp]:
  "silent obs (returning a)" "silent obs (failing err)" "silent obs (settling r)" "silent obs (Pair s)"
  "silent obs (\<lambda>w. (s, w))"
  by (simp_all add: silent_def returning_def failing_def settling_def)

lemma silent_calling: "silent obs m \<Longrightarrow> (\<And>a. silent obs (f a)) \<Longrightarrow> silent obs (calling m f)"
  by (rule silentI, erule calling_cases) (metis silentD)+

lemma silent_doing: "silent obs m \<Longrightarrow> silent obs (doing m)"
  unfolding silent_def doing_def
  by (intro allI) (metis (mono_tags, lifting) option.exhaust option.simps(4) option.simps(5) prod.collapse split_conv snd_conv)

text \<open>A call followed by a computation on its result, in any of the shapes of the code.\<close>

lemma silent_then: "silent obs m \<Longrightarrow> (\<And>r. silent obs (g r)) \<Longrightarrow> silent obs (\<lambda>w. case m w of (r, w) \<Rightarrow> g r w)"
  by (rule silentI) (auto split: prod.splits, metis silentD)

lemma silent_if: "(b \<Longrightarrow> silent obs f) \<Longrightarrow> (\<not> b \<Longrightarrow> silent obs g) \<Longrightarrow> silent obs (if b then f else g)"
  by simp

section \<open>The tracker\<close>

text \<open>
  A change handed to \<open>UpdateEpic\<close> may use the world: \<open>CreateComment\<close> mints an ID and reads the
  time. What it does to the world beside that is not undone when the change is refused.
\<close>

type_synonym 'x change = "Epic \<Rightarrow> 'x world \<Rightarrow> (go_error option \<times> Epic) \<times> 'x world"

record 'x tracker_ports =
  t_Mint :: "'x world \<Rightarrow> (string \<times> int) \<times> 'x world"
  t_ReadEpic :: "string \<Rightarrow> (Epic, 'x) io"
  t_UpdateEpic :: "string \<Rightarrow> 'x change \<Rightarrow> 'x world \<Rightarrow> go_error option \<times> 'x world"
  t_AgentSettings :: "(AgentSettings, 'x) io"
  t_RepositorySettings :: "string \<Rightarrow> (RepositorySettings, 'x) io"
  t_ReadFile :: "string \<Rightarrow> (string, 'x) io"

definition minting :: "'x tracker_ports \<Rightarrow> (string \<Rightarrow> int \<Rightarrow> Epic update) \<Rightarrow> 'x change" where
  "minting T f e w = (let ((ulid, now), w) = t_Mint T w in (f ulid now e, w))"

definition plain :: "Epic update \<Rightarrow> 'x change" where
  "plain f e w = (f e, w)"

section \<open>Code and sandboxes\<close>

record CodeCheckout =
  co_EpicID :: string
  co_IssueID :: string
  co_Repository :: string

record CommitInfo =
  ci_Hash :: string
  ci_Paths :: "string list"

record BranchState =
  bs_Head :: string
  bs_Behind :: bool

definition ErrMergeConflict :: string where
  "ErrMergeConflict = ''merge conflict''"

record 'x code_ports =
  g_DefaultBranch :: "string \<Rightarrow> (string, 'x) io"
  g_PurgeEpic :: "string \<Rightarrow> 'x world \<Rightarrow> go_error option \<times> 'x world"
  g_Checkout :: "CodeCheckout \<Rightarrow> string \<Rightarrow> string \<Rightarrow> (string, 'x) io"
  g_Resolve :: "CodeCheckout \<Rightarrow> string \<Rightarrow> (string, 'x) io"
  g_CommitAll :: "CodeCheckout \<Rightarrow> string \<Rightarrow> (string, 'x) io"
  g_CommitsSince :: "CodeCheckout \<Rightarrow> string \<Rightarrow> (CommitInfo list, 'x) io"
  g_DescendsFrom :: "CodeCheckout \<Rightarrow> string \<Rightarrow> (bool, 'x) io"
  g_Push :: "CodeCheckout \<Rightarrow> string \<Rightarrow> 'x world \<Rightarrow> go_error option \<times> 'x world"
  g_DeleteBranch :: "CodeCheckout \<Rightarrow> string \<Rightarrow> 'x world \<Rightarrow> go_error option \<times> 'x world"
  g_Merge :: "CodeCheckout \<Rightarrow> string \<Rightarrow> string \<Rightarrow> 'x world \<Rightarrow> go_error option \<times> 'x world"
  g_InspectBranches :: "string \<Rightarrow> string \<Rightarrow> string \<Rightarrow> string list \<Rightarrow> (string \<rightharpoonup> BranchState, 'x) io"

text \<open>\<open>prompts.IssueContext\<close>; the templates are a port.\<close>

record IssueContext =
  ic_IssuePath :: string
  ic_IssueTitle :: string
  ic_RepoDir :: string
  ic_Branch :: string
  ic_BaseBranch :: string
  ic_BaseCommit :: string
  ic_Conversation :: string
  ic_Repositories :: "string list"

record 'x agent_host =
  h_round :: "'x round_ports"
  h_tracker :: "'x tracker_ports"
  h_code :: "'x code_ports"
  h_ListAgentRuns :: "nat \<Rightarrow> AgentSubject \<Rightarrow> (AgentRun list, 'x) io"
  h_Reserve :: "SandboxSpec \<Rightarrow> (bool, 'x) io"
  h_Release :: "SandboxSpec \<Rightarrow> 'x world \<Rightarrow> 'x world"
  h_OpenCodeMount :: "string \<Rightarrow> string \<Rightarrow> (SandboxMount, 'x) io"
  h_WriteTree :: "string \<Rightarrow> Epic \<Rightarrow> (string, 'x) io"
  h_ReadTree :: "string \<Rightarrow> Epic \<Rightarrow> 'x world \<Rightarrow> (go_error + Epic) \<times> 'x world"
  h_EnsureRepository :: "string \<Rightarrow> string \<Rightarrow> (string, 'x) io"
  h_IssuePrompt :: "IssueContext \<Rightarrow> AgentRole \<Rightarrow> SessionMode \<Rightarrow> go_error + string"
  h_EpicPrompt :: "Epic \<Rightarrow> AgentRole \<Rightarrow> SessionMode \<Rightarrow> go_error + string"
  h_ReviewApproved :: "string \<Rightarrow> bool"
  h_ulower :: "nat \<Rightarrow> nat"
  h_silence :: int
  h_timeout :: int

section \<open>The round both handlers drive\<close>

text \<open>
  \<open>begin\<close> with its deferred \<open>finish\<close>, which releases the run's context and drops it from the
  supervisor on every path out of the handler.
\<close>

definition finish_round :: "AgentRun \<Rightarrow> 'x world \<Rightarrow> 'x world" where
  "finish_round run = on_supervisor (\<lambda>s. Complete (r_ID run) (release (r_ID run) s))"

definition beginning ::
    "'x agent_host \<Rightarrow> SandboxSpec \<Rightarrow> AgentProfile \<Rightarrow> int \<Rightarrow> AgentRun list \<Rightarrow>
       (AgentRun \<Rightarrow> SandboxSpec \<Rightarrow> ('a, 'x) io) \<Rightarrow> ('a, 'x) io" where
  "beginning H spec profile round previous rest w =
     (case begin_round (h_round H) spec profile round previous w of
        ((Some err, run, spec), w) \<Rightarrow> (Inl err, w)
      | ((None, run, spec), w) \<Rightarrow> deferring (finish_round run) (rest run spec) w)"

text \<open>\<open>fail\<close> always gives an error back (\<open>end_round_error\<close>).\<close>

definition failing_round :: "'x agent_host \<Rightarrow> AgentRun \<Rightarrow> go_error \<Rightarrow> 'x world \<Rightarrow> go_error \<times> 'x world" where
  "failing_round H run err w = (case fail_round (h_round H) run err w of (e, w) \<Rightarrow> (the e, w))"

text \<open>\<open>errors.Is(cause, errRunCancelled)\<close>.\<close>

definition was_cancelled :: "go_error \<Rightarrow> bool" where
  "was_cancelled cause = errors_is cause ''run was cancelled''"

definition mount :: "string \<Rightarrow> string \<Rightarrow> bool \<Rightarrow> SandboxMount" where
  "mount host guest writable = \<lparr>m_HostLocation = host, m_GuestLocation = guest, m_Writable = writable\<rparr>"

definition add_mounts :: "SandboxMount list \<Rightarrow> SandboxSpec \<Rightarrow> SandboxSpec" where
  "add_mounts ms spec = spec\<lparr>sp_Mounts := sp_Mounts spec @ ms\<rparr>"

text \<open>\<open>settings.SetupScript\<close>, read from the tracker into the specification.\<close>

definition with_setup_script :: "'x agent_host \<Rightarrow> string \<Rightarrow> SandboxSpec \<Rightarrow> (SandboxSpec, 'x) io" where
  "with_setup_script H script spec =
     (if script = [] then returning spec
      else calling (t_ReadFile (h_tracker H) script)
        (\<lambda>content. returning (spec\<lparr>sp_SetupScript := content\<rparr>)))"

text \<open>The error a failed round leaves behind, when the comment about it cannot be written either.\<close>

definition joined_failure :: "go_error \<Rightarrow> go_error option \<Rightarrow> go_error" where
  "joined_failure cause commentErr =
     (case commentErr of
        None \<Rightarrow> cause
      | Some err \<Rightarrow> JoinErr [cause, Wrapf ''record failure comment: %w'' [] [err]])"

lemma joined_failure_keeps: "errors_is cause target \<Longrightarrow> errors_is (joined_failure cause commentErr) target"
  by (simp add: joined_failure_def split: option.split)


section \<open>A round seen from outside\<close>

definition quiet_round :: "('x world \<Rightarrow> 'o) \<Rightarrow> 'x round_ports \<Rightarrow> bool" where
  "quiet_round obs P \<longleftrightarrow>
     silent obs (Now P) \<and> silent obs (MintULID P) \<and> (\<forall>run. silent obs (SaveAgentRun P run)) \<and>
     (\<forall>sandbox. silent obs (SaveSandbox P sandbox)) \<and> (\<forall>spec. silent obs (Ensure P spec)) \<and>
     (\<forall>ref. silent obs (Start P ref) \<and> silent obs (Stop P ref) \<and> silent obs (StopNow P ref)) \<and>
     (\<forall>ref run argv. silent obs (RunAgent P ref run argv)) \<and> (\<forall>f w. obs (on_supervisor f w) = obs w)"

lemma quiet_roundD:
  assumes "quiet_round obs P"
  shows "Now P w = (n, w') \<Longrightarrow> obs w' = obs w" "MintULID P w = (u, w') \<Longrightarrow> obs w' = obs w"
    "SaveAgentRun P run w = (e, w') \<Longrightarrow> obs w' = obs w" "SaveSandbox P sandbox w = (e, w') \<Longrightarrow> obs w' = obs w"
    "Ensure P spec w = (c, w') \<Longrightarrow> obs w' = obs w" "Start P ref w = (e, w') \<Longrightarrow> obs w' = obs w"
    "Stop P ref w = (e, w') \<Longrightarrow> obs w' = obs w" "StopNow P ref w = (e, w') \<Longrightarrow> obs w' = obs w"
    "RunAgent P ref id' argv w = (out, w') \<Longrightarrow> obs w' = obs w" "obs (on_supervisor f w) = obs w"
  using assms unfolding quiet_round_def by (blast dest: silentD)+

lemma quiet_stallLiveRuns:
  assumes q: "quiet_round obs P"
  shows "silent obs (stallLiveRuns P runs)"
proof -
  have "stallLiveRuns_loop P now runs w = (r, w') \<Longrightarrow> obs w' = obs w" for now w r w'
  proof (induction runs arbitrary: w)
    case (Cons run runs)
    then show ?case
      by (fastforce simp: Let_def split: if_splits prod.splits option.splits dest: quiet_roundD(3) [OF q])
  qed simp
  then show ?thesis
    by (intro silentI) (fastforce simp: stallLiveRuns_def Let_def split: prod.splits dest: quiet_roundD(1) [OF q])
qed

lemma quiet_end_round:
  assumes q: "quiet_round obs P"
  shows "silent obs (end_round P run cause event)"
  by (rule silentI)
    (auto simp: end_round_def Let_def split: prod.splits option.splits if_splits
      dest!: quiet_roundD(1,3) [OF q] simp: quiet_roundD(10) [OF q])

lemma quiet_fail_round: "quiet_round obs P \<Longrightarrow> silent obs (fail_round P run cause)"
  by (simp add: fail_round_def quiet_end_round)

lemma quiet_hostFailed:
  assumes q: "quiet_round obs P"
  shows "silent obs (hostFailed P run cause)"
  by (rule silentI)
    (auto simp: hostFailed_def Let_def split: prod.splits if_splits dest: silentD [OF quiet_end_round [OF q]])

lemma quiet_succeed_round:
  assumes q: "quiet_round obs P"
  shows "silent obs (succeed_round P run)"
  by (rule silentI)
    (auto simp: succeed_round_def Let_def split: prod.splits option.splits
      dest!: quiet_roundD(1,3) [OF q] simp: quiet_roundD(10) [OF q])

lemma quiet_saveSandboxStatus:
  assumes q: "quiet_round obs P"
  shows "silent obs (saveSandboxStatus P spec status)"
  by (rule silentI)
    (auto simp: saveSandboxStatus_def Let_def split: prod.splits option.splits dest!: quiet_roundD(1,4) [OF q])

lemma quiet_begin_abort:
  assumes q: "quiet_round obs P"
  shows "silent obs (begin_abort run spec err)"
  by (rule silentI) (auto simp: begin_abort_def quiet_roundD(10) [OF q])

lemmas quiet_rules = silentD [OF quiet_saveSandboxStatus] silentD [OF quiet_hostFailed]
  silentD [OF quiet_begin_abort] silentD [OF quiet_fail_round]

lemma quiet_begin_start:
  assumes q: "quiet_round obs P"
  shows "silent obs (begin_start P run spec)"
  by (rule silentI)
    (auto simp: begin_start_def Let_def split: prod.splits option.splits
      dest!: quiet_roundD(1,3,6) [OF q] quiet_rules [OF q])

lemma quiet_begin_round:
  assumes q: "quiet_round obs P"
  shows "silent obs (begin_round P spec profile round previous)"
  by (rule silentI)
    (auto simp: begin_round_def Let_def split: prod.splits option.splits sum.splits if_splits
      dest!: quiet_roundD(1,2,3,5) [OF q] quiet_rules [OF q] silentD [OF quiet_begin_start [OF q]]
      simp: quiet_roundD(10) [OF q])

lemma quiet_invoke:
  assumes q: "quiet_round obs P"
  shows "silent obs (invoke P silence timeout spec run prompt env)"
  by (rule silentI)
    (auto simp: invoke_def Let_def split: prod.splits option.splits sum.splits if_splits
      dest!: quiet_roundD(7,8,9) [OF q] quiet_rules [OF q])

section \<open>A host seen from outside\<close>

text \<open>
  \<open>within R obs m\<close>: whatever the call does, the observation moves along \<open>R\<close>.
\<close>

definition within :: "('o \<Rightarrow> 'o \<Rightarrow> bool) \<Rightarrow> ('x world \<Rightarrow> 'o) \<Rightarrow> ('x world \<Rightarrow> 'r \<times> 'x world) \<Rightarrow> bool" where
  "within R obs m \<longleftrightarrow> (\<forall>w. R (obs w) (obs (snd (m w))))"

lemma withinD: "within R obs m \<Longrightarrow> m w = (r, w') \<Longrightarrow> R (obs w) (obs w')"
  by (metis within_def snd_conv)

lemma withinI: "(\<And>w r w'. m w = (r, w') \<Longrightarrow> R (obs w) (obs w')) \<Longrightarrow> within R obs m"
  by (auto simp: within_def prod_eq_iff)

lemma within_silent: "silent obs m \<Longrightarrow> reflp R \<Longrightarrow> within R obs m"
  by (simp add: within_def silent_def reflp_def)

text \<open>A silent call hands its results on; what follows the first call that is not is silent.\<close>

lemma within_calling:
  assumes "silent obs m" "reflp R" "\<And>a w w'. m w = (Inr a, w') \<Longrightarrow> within R obs (f a)"
  shows "within R obs (calling m f)"
  using assms by (intro withinI, elim calling_cases) (metis reflpD silentD withinD)+

lemma within_doing: "within R obs m \<Longrightarrow> within R obs (doing m)"
  by (rule withinI) (auto simp: doing_def split: prod.splits option.splits dest: withinD)

lemma within_calling_last:
  assumes "within R obs m" "\<And>a. silent obs (f a)"
  shows "within R obs (calling m f)"
  using assms by (intro withinI, elim calling_cases) (metis silentD withinD)+

definition quiet_tracker :: "('x world \<Rightarrow> 'o) \<Rightarrow> 'x tracker_ports \<Rightarrow> bool" where
  "quiet_tracker obs T \<longleftrightarrow>
     silent obs (t_Mint T) \<and> silent obs (t_AgentSettings T) \<and>
     (\<forall>i. silent obs (t_ReadEpic T i) \<and> silent obs (t_RepositorySettings T i) \<and> silent obs (t_ReadFile T i)) \<and>
     (\<forall>i change. (\<forall>e. silent obs (change e)) \<longrightarrow> silent obs (t_UpdateEpic T i change))"

text \<open>Every port but the publishing one, and but the two that take and return a reservation.\<close>

definition quiet_host :: "('x world \<Rightarrow> 'o) \<Rightarrow> 'x agent_host \<Rightarrow> bool" where
  "quiet_host obs H \<longleftrightarrow>
     quiet_round obs (h_round H) \<and> quiet_tracker obs (h_tracker H) \<and>
     (\<forall>c s t. silent obs (g_Checkout (h_code H) c s t) \<and> silent obs (g_Resolve (h_code H) c s) \<and>
        silent obs (g_CommitAll (h_code H) c s) \<and> silent obs (g_CommitsSince (h_code H) c s) \<and>
        silent obs (g_DescendsFrom (h_code H) c s)) \<and>
     (\<forall>n subject. silent obs (h_ListAgentRuns H n subject)) \<and>
     (\<forall>s t. silent obs (h_OpenCodeMount H s t) \<and> silent obs (h_EnsureRepository H s t)) \<and>
     (\<forall>s e. silent obs (h_WriteTree H s e) \<and> silent obs (h_ReadTree H s e))"

named_theorems quiet

lemmas [quiet] = silent_pure silent_calling silent_doing

lemma quiet_hostD [quiet]:
  assumes "quiet_host obs H"
  shows "silent obs (g_Checkout (h_code H) c s t)" "silent obs (g_Resolve (h_code H) c s)"
    "silent obs (g_CommitAll (h_code H) c s)" "silent obs (g_CommitsSince (h_code H) c s)"
    "silent obs (g_DescendsFrom (h_code H) c s)" "silent obs (h_ListAgentRuns H n subject)"
    "silent obs (h_OpenCodeMount H s t)" "silent obs (h_EnsureRepository H s t)"
    "silent obs (h_WriteTree H s e)" "silent obs (h_ReadTree H s e)"
    "silent obs (t_ReadEpic (h_tracker H) s)" "silent obs (t_AgentSettings (h_tracker H))"
    "silent obs (t_RepositorySettings (h_tracker H) s)" "silent obs (t_ReadFile (h_tracker H) s)"
  using assms unfolding quiet_host_def quiet_tracker_def by blast+

lemma quiet_host_round: "quiet_host obs H \<Longrightarrow> quiet_round obs (h_round H)"
  by (simp add: quiet_host_def)

lemma quiet_UpdateEpic:
  "quiet_host obs H \<Longrightarrow> (\<And>e. silent obs (change e)) \<Longrightarrow> silent obs (t_UpdateEpic (h_tracker H) i change)"
  by (simp add: quiet_host_def quiet_tracker_def)

lemma quiet_update_minting [quiet]:
  assumes q: "quiet_host obs H"
  shows "silent obs (t_UpdateEpic (h_tracker H) i (minting (h_tracker H) f))"
proof (rule quiet_UpdateEpic [OF q], rule silentI)
  fix e w r w'
  assume "minting (h_tracker H) f e w = (r, w')"
  then show "obs w' = obs w"
    using q by (auto simp: minting_def Let_def quiet_host_def quiet_tracker_def split: prod.splits dest: silentD)
qed

lemma quiet_update_plain [quiet]:
  "quiet_host obs H \<Longrightarrow> silent obs (t_UpdateEpic (h_tracker H) i (plain f))"
  by (rule quiet_UpdateEpic) (auto simp: silent_def plain_def)

lemma quiet_of_round [quiet]:
  assumes "quiet_host obs H"
  shows "silent obs (stallLiveRuns (h_round H) runs)" "silent obs (succeed_round (h_round H) run)"
    "silent obs (begin_round (h_round H) spec profile round previous)"
    "silent obs (invoke (h_round H) silence timeout spec run prompt env)"
  using quiet_host_round [OF assms]
  by (simp_all add: quiet_stallLiveRuns quiet_succeed_round quiet_begin_round quiet_invoke)

lemma quiet_failing_round [quiet]:
  assumes "quiet_host obs H"
  shows "silent obs (failing_round H run err)"
  by (rule silentI)
    (auto simp: failing_round_def split: prod.splits
      dest: silentD [OF quiet_fail_round [OF quiet_host_round [OF assms]]])

lemma quiet_with_setup_script [quiet]:
  "quiet_host obs H \<Longrightarrow> silent obs (with_setup_script H script spec)"
  by (simp add: with_setup_script_def quiet)

lemma within_deferring:
  "within R obs m \<Longrightarrow> (\<And>w. obs (cleanup w) = obs w) \<Longrightarrow> within R obs (deferring cleanup m)"
  by (rule withinI) (auto simp: deferring_def split: prod.splits, metis withinD)

lemma within_beginning:
  assumes q: "quiet_host obs H" and R: "reflp R" and rest: "\<And>run spec. within R obs (rest run spec)"
  shows "within R obs (beginning H spec profile round previous rest)"
proof (rule withinI)
  fix w r w'
  assume b: "beginning H spec profile round previous rest w = (r, w')"
  obtain err run spec' w1 where
    s: "begin_round (h_round H) spec profile round previous w = ((err, run, spec'), w1)"
    by (metis prod.exhaust)
  have same: "obs w1 = obs w"
    using quiet_of_round(3) [OF q] s by (rule silentD)
  have "within R obs (deferring (finish_round run) (rest run spec'))"
    using rest quiet_roundD(10) [OF quiet_host_round [OF q]]
    by (intro within_deferring) (auto simp: finish_round_def)
  then show "R (obs w) (obs w')"
    using b s same [symmetric] R by (auto simp: beginning_def reflp_def dest: withinD split: option.splits)
qed

section \<open>A small host\<close>

text \<open>
  One epic in memory, a code workspace that only counts its pushes, and admission that counts its
  reservations: a host on which the facts above can be run.
\<close>

record books =
  k_epic :: Epic
  k_pushes :: "(CodeCheckout \<times> string) list"
  k_held :: int

definition on_books :: "(books \<Rightarrow> books) \<Rightarrow> books world \<Rightarrow> books world" where
  "on_books f w = w\<lparr>w_ext := f (w_ext w)\<rparr>"

definition small_round_ports :: "books round_ports" where
  "small_round_ports =
     \<lparr>Now = Pair 0, MintULID = Pair ''01J'', SaveAgentRun = (\<lambda>run. Pair None),
      GetAgentRun = (\<lambda>i. Pair (Inl (Sentinel ''record not found''))), SaveSandbox = (\<lambda>v. Pair None),
      Ensure = (\<lambda>spec. Pair (Inr False)), Start = (\<lambda>ref. Pair None), Stop = (\<lambda>ref. Pair None),
      StopNow = (\<lambda>ref. Pair None), RunAgent = (\<lambda>ref i argv. Pair quiet_outcome),
      ContextDone = (\<lambda>i w. False), Command = (\<lambda>run prompt env. Inr [prompt]),
      ParseUsage = (\<lambda>out. \<lparr>u_TokensIn = 0, u_TokensOut = 0, u_CostUSD = (0, 0)\<rparr>),
      ExtractAnswer = (\<lambda>out. out), ErrorText = (\<lambda>e. ''error'')\<rparr>"

definition small_UpdateEpic :: "string \<Rightarrow> books change \<Rightarrow> books world \<Rightarrow> go_error option \<times> books world" where
  "small_UpdateEpic i change w =
     (case change (k_epic (w_ext w)) w of
        ((Some err, _), w) \<Rightarrow> (Some err, w)
      | ((None, e), w) \<Rightarrow> (None, on_books (k_epic_update (\<lambda>_. e)) w))"

definition small_tracker :: "books tracker_ports" where
  "small_tracker =
     \<lparr>t_Mint = Pair (''C9'', 7), t_ReadEpic = (\<lambda>i w. (Inr (k_epic (w_ext w)), w)),
      t_UpdateEpic = small_UpdateEpic,
      t_AgentSettings = Pair (Inr \<lparr>as_SetupScript = [],
        as_Roles = (\<lambda>role. Some \<lparr>a_Agent = ''build'', a_Variant = [], a_MaxRounds = 3\<rparr>)\<rparr>),
      t_RepositorySettings = (\<lambda>repository. Pair (Inr \<lparr>rs_SetupScript = [], rs_Roles = Map.empty\<rparr>)),
      t_ReadFile = (\<lambda>path. Pair (Inl (Sentinel ''file not found'')))\<rparr>"

definition small_code :: "string list \<Rightarrow> books code_ports" where
  "small_code changed =
     \<lparr>g_DefaultBranch = (\<lambda>repository. Pair (Inr ''main'')), g_PurgeEpic = (\<lambda>i. Pair None),
      g_Checkout = (\<lambda>checkout branch base. Pair (Inr ''/src'')),
      g_Resolve = (\<lambda>checkout ref. Pair (Inr ref)), g_CommitAll = (\<lambda>checkout message. Pair (Inr ''h1'')),
      g_CommitsSince = (\<lambda>checkout base. Pair (Inr [\<lparr>ci_Hash = ''h1'', ci_Paths = changed\<rparr>])),
      g_DescendsFrom = (\<lambda>checkout base. Pair (Inr True)),
      g_Push = (\<lambda>checkout branch w.
        (None, on_books (k_pushes_update (\<lambda>pushes. pushes @ [(checkout, branch)])) w)),
      g_DeleteBranch = (\<lambda>checkout branch. Pair None), g_Merge = (\<lambda>checkout base branch. Pair None),
      g_InspectBranches = (\<lambda>i repository base branches. Pair (Inr Map.empty))\<rparr>"

definition small_host :: "string list \<Rightarrow> books agent_host" where
  "small_host changed =
     \<lparr>h_round = small_round_ports, h_tracker = small_tracker, h_code = small_code changed,
      h_ListAgentRuns = (\<lambda>project subject. Pair (Inr [])),
      h_Reserve = (\<lambda>spec w. (Inr True, on_books (k_held_update (\<lambda>n. n + 1)) w)),
      h_Release = (\<lambda>spec. on_books (k_held_update (\<lambda>n. n - 1))),
      h_OpenCodeMount = (\<lambda>name model. Pair (Inr (mount ''/creds'' ''/root/creds'' False))),
      h_WriteTree = (\<lambda>name e. Pair (Inr ''/tree'')), h_ReadTree = (\<lambda>name e. Pair (Inr e)),
      h_EnsureRepository = (\<lambda>i repository. Pair (Inr ''/other'')),
      h_IssuePrompt = (\<lambda>context role mode. Inr ''go''), h_EpicPrompt = (\<lambda>e role mode. Inr ''go''),
      h_ReviewApproved = (\<lambda>answer. True), h_ulower = (\<lambda>c. c), h_silence = 900, h_timeout = 7200\<rparr>"

lemmas small_defs = small_host_def small_code_def small_tracker_def small_round_ports_def

lemma small_UpdateEpic_silent:
  assumes "\<And>f w. obs (on_books (k_epic_update f) w) = obs w" "\<And>e. silent obs (change e)"
  shows "silent obs (small_UpdateEpic i change)"
  by (rule silentI)
    (auto simp: small_UpdateEpic_def assms(1) split: prod.splits option.splits dest!: silentD [OF assms(2)])

lemma small_host_quiet:
  assumes "\<And>f w. obs (on_supervisor f w) = obs w" "\<And>f w. obs (on_books (k_epic_update f) w) = obs w"
  shows "quiet_host obs (small_host changed)"
  using small_UpdateEpic_silent [OF assms(2)] assms(1)
  by (auto simp: quiet_host_def quiet_round_def quiet_tracker_def small_defs silent_def)

definition small_spec :: "AgentRole \<Rightarrow> string \<Rightarrow> SandboxSpec" where
  "small_spec role i =
     \<lparr>sp_Sandbox = \<lparr>v_ID = ''sb'', v_ProjectID = 1, v_Name = ''box'', v_Role = role,
        v_Subject = issue_subject i, v_Status = SandboxStatusStopped, v_CreatedAt = 0, v_UpdatedAt = 0\<rparr>,
      sp_Mounts = [], sp_InstallDocker = False, sp_SetupScript = []\<rparr>"

definition small_world :: "Epic \<Rightarrow> books world" where
  "small_world e = \<lparr>w_supervisor = NewRunSupervisor, w_ext = \<lparr>k_epic = e, k_pushes = [], k_held = 0\<rparr>\<rparr>"

end
