(* ===== verification/Issue_Rounds.thy ===== *)
theory Issue_Rounds
  imports Host_Ports Repository_Paths
begin

text \<open>
  \<open>internal/application/usecases/run_issue_agent.go\<close>: one round on the pull request of an issue,
  from the admission of its sandbox to the record it leaves.
\<close>

section \<open>What the prompt says\<close>

fun comments_since_loop :: "string \<Rightarrow> Comment list \<Rightarrow> Comment list \<Rightarrow> Comment list option" where
  "comments_since_loop author [] later = None"
| "comments_since_loop author (comment # earlier) later =
     (if c_Author comment = author then Some later
      else comments_since_loop author earlier (comment # later))"

definition commentsSince :: "PullRequest \<Rightarrow> AgentRole \<Rightarrow> Comment list" where
  "commentsSince pullRequest role =
     (case comments_since_loop (agent_role_string role) (rev (p_Comments pullRequest)) [] of
        Some later \<Rightarrow> later
      | None \<Rightarrow> p_Comments pullRequest)"

definition conversationSection :: "Comment list \<Rightarrow> string \<Rightarrow> string \<Rightarrow> string" where
  "conversationSection comments heading nothing =
     (if comments = [] then nothing
      else heading @ [CHR 0x0A] @ concat (map (\<lambda>comment.
        [CHR 0x0A] @ ''### '' @ c_Author comment @ [CHR 0x0A, CHR 0x0A] @ trim_space (c_Body comment) @ [CHR 0x0A])
        comments))"

definition conversationFor :: "PullRequest \<Rightarrow> AgentRole \<Rightarrow> SessionMode \<Rightarrow> string" where
  "conversationFor pullRequest role mode =
     (if mode \<noteq> SessionModeContinue
      then conversationSection (p_Comments pullRequest) ''## Discussion so far''
             ''No discussion on this pull request yet.''
      else conversationSection (commentsSince pullRequest role) ''## Said since your last round''
             ''Nothing has been said on the pull request since your last round.'')"

definition issueContext ::
    "Epic \<Rightarrow> Issue \<Rightarrow> PullRequest \<Rightarrow> string \<Rightarrow> AgentRole \<Rightarrow> SessionMode \<Rightarrow> IssueContext" where
  "issueContext current issue pullRequest base role mode =
     \<lparr>ic_IssuePath = ''/work/issues/'' @ Encode (i_Repository issue) @ ''/'' @ i_ID issue @ ''.md'',
      ic_IssueTitle = i_Title issue, ic_RepoDir = ''/work/repo'', ic_Branch = p_Head pullRequest,
      ic_BaseBranch = p_Base pullRequest, ic_BaseCommit = base,
      ic_Conversation = conversationFor pullRequest role mode,
      ic_Repositories = map Encode
        (filter (\<lambda>repository. repository \<noteq> p_Repository pullRequest) (e_Repositories current))\<rparr>"

section \<open>Mounts\<close>

fun reference_mounts ::
    "'x agent_host \<Rightarrow> string \<Rightarrow> string \<Rightarrow> string list \<Rightarrow> SandboxSpec \<Rightarrow> (SandboxSpec, 'x) io" where
  "reference_mounts H epicID activeRepository [] spec = returning spec"
| "reference_mounts H epicID activeRepository (repository # repositories) spec =
     (if repository = activeRepository
      then reference_mounts H epicID activeRepository repositories spec
      else calling (h_EnsureRepository H epicID repository) (\<lambda>path.
        let guestPath = ''/work/repos/'' @ Encode repository
        in reference_mounts H epicID activeRepository repositories
             (add_mounts [mount path guestPath False,
                mount (filepath_Join [path, ''.git'']) (guestPath @ ''/.git'') False] spec)))"

definition issue_mount ::
    "'x agent_host \<Rightarrow> SandboxSpec \<Rightarrow> Epic \<Rightarrow> string \<Rightarrow> string \<Rightarrow> string \<Rightarrow> (SandboxSpec, 'x) io" where
  "issue_mount H spec current activeRepository repoPath model =
     calling (h_OpenCodeMount H (v_Name (sp_Sandbox spec)) model) (\<lambda>credentials.
       let spec = add_mounts [credentials] spec
       in calling (h_WriteTree H (v_Name (sp_Sandbox spec)) current) (\<lambda>treePath.
            reference_mounts H (e_ID current) activeRepository (e_Repositories current)
              (add_mounts [mount treePath ''/work/issues'' False, mount repoPath ''/work/repo'' True,
                 mount (filepath_Join [repoPath, ''.git'']) ''/work/repo/.git'' False,
                 mount repoPath repoPath False] spec)))"

section \<open>Completing a round\<close>

definition issue_gate :: "'x agent_host \<Rightarrow> CodeCheckout \<Rightarrow> string \<Rightarrow> (unit, 'x) io" where
  "issue_gate H checkout base =
     calling (g_DescendsFrom (h_code H) checkout base) (\<lambda>descends.
       calling (g_CommitsSince (h_code H) checkout base) (\<lambda>infos.
         doing (\<lambda>w. (EvaluatePushGate (h_ulower H) base
           (map (\<lambda>info. \<lparr>rc_Hash = ci_Hash info, rc_DescendsFromBase = descends, rc_Paths = ci_Paths info\<rparr>)
              infos), w))))"

definition completeCoding ::
    "'x agent_host \<Rightarrow> Epic \<Rightarrow> PullRequest \<Rightarrow> CodeCheckout \<Rightarrow> string \<Rightarrow> string \<Rightarrow> (unit, 'x) io" where
  "completeCoding H current pullRequest checkout base answer =
     (let message = ''ai: round '' @ dec (nat (p_Rounds pullRequest + 1)) @ '' on issue '' @ p_IssueID pullRequest
      in calling (g_CommitAll (h_code H) checkout message) (\<lambda>_.
           calling (issue_gate H checkout base) (\<lambda>_.
             calling (doing (g_Push (h_code H) checkout (p_Head pullRequest))) (\<lambda>_.
               calling (g_Resolve (h_code H) checkout (p_Head pullRequest)) (\<lambda>head.
                 doing (t_UpdateEpic (h_tracker H) (e_ID current)
                   (minting (h_tracker H) (\<lambda>ulid now.
                      coding_completed ulid now (p_ID pullRequest) answer head))))))))"

definition completeMerge ::
    "'x agent_host \<Rightarrow> Epic \<Rightarrow> PullRequest \<Rightarrow> CodeCheckout \<Rightarrow> string \<Rightarrow> (unit, 'x) io" where
  "completeMerge H current pullRequest checkout answer =
     (let message = ''ai: merge '' @ p_Base pullRequest @ '' into issue '' @ p_IssueID pullRequest
      in calling (g_CommitAll (h_code H) checkout message) (\<lambda>_.
           calling (doing (g_Push (h_code H) checkout (p_Head pullRequest))) (\<lambda>_.
             calling (g_Resolve (h_code H) checkout (p_Head pullRequest)) (\<lambda>head.
               doing (t_UpdateEpic (h_tracker H) (e_ID current)
                 (minting (h_tracker H) (\<lambda>ulid now.
                    merge_completed ulid now (p_ID pullRequest) answer head)))))))"

definition completeReview ::
    "'x agent_host \<Rightarrow> Epic \<Rightarrow> PullRequest \<Rightarrow> CodeCheckout \<Rightarrow> string \<Rightarrow> string \<Rightarrow> (unit, 'x) io" where
  "completeReview H current pullRequest checkout base answer =
     calling (g_Resolve (h_code H) checkout (p_Head pullRequest)) (\<lambda>head.
       let approved = h_ReviewApproved H answer
       in doing (t_UpdateEpic (h_tracker H) (e_ID current)
            (minting (h_tracker H) (\<lambda>ulid now.
               review_completed ulid now (p_ID pullRequest) answer head base approved))))"

definition complete_issue_round ::
    "'x agent_host \<Rightarrow> Epic \<Rightarrow> PullRequest \<Rightarrow> CodeCheckout \<Rightarrow> AgentRole \<Rightarrow> string \<Rightarrow> string \<Rightarrow> (unit, 'x) io" where
  "complete_issue_round H current pullRequest checkout role base answer =
     (case role of
        AgentRoleCoding \<Rightarrow> completeCoding H current pullRequest checkout base answer
      | AgentRoleMerge \<Rightarrow> completeMerge H current pullRequest checkout answer
      | _ \<Rightarrow> completeReview H current pullRequest checkout base answer)"

definition issue_reportFailure ::
    "'x agent_host \<Rightarrow> Epic \<Rightarrow> PullRequest \<Rightarrow> AgentRole \<Rightarrow> go_error \<Rightarrow> (unit, 'x) io" where
  "issue_reportFailure H current pullRequest role cause w =
     (if was_cancelled cause then (Inl cause, w)
      else
        let body = ''The '' @ agent_role_string role @ '' round failed: '' @ ErrorText (h_round H) cause;
            (commentErr, w) = t_UpdateEpic (h_tracker H) (e_ID current)
              (minting (h_tracker H) (\<lambda>ulid now.
                 comment_pull_request ulid now (p_ID pullRequest) (agent_role_string role) body)) w
        in (Inl (joined_failure cause commentErr), w))"

section \<open>One round\<close>

text \<open>What happens between \<open>begin\<close> and its deferred end.\<close>

definition issue_round_body ::
    "'x agent_host \<Rightarrow> Epic \<Rightarrow> Issue \<Rightarrow> PullRequest \<Rightarrow> AgentRole \<Rightarrow> CodeCheckout \<Rightarrow> string \<Rightarrow> string \<Rightarrow>
       AgentRun \<Rightarrow> SandboxSpec \<Rightarrow> (unit, 'x) io" where
  "issue_round_body H current issue pullRequest role checkout repoPath base run spec w =
     (case h_IssuePrompt H (issueContext current issue pullRequest base role (r_SessionMode run))
             role (r_SessionMode run) of
        Inl err \<Rightarrow> (let (e, w) = failing_round H run err w in (Inl e, w))
      | Inr prompt \<Rightarrow>
          (case invoke (h_round H) (h_silence H) (h_timeout H) spec run prompt
                  [(''GO_MERGE_DOCKER_BIND_SOURCE'', repoPath)] w of
             ((Inl err, _, _), w) \<Rightarrow> issue_reportFailure H current pullRequest role err w
           | ((Inr answer, run, _), w) \<Rightarrow>
               if role = AgentRolePRReviewer \<and> answer = []
               then (let (e, w) = failing_round H run (Errorf ''agent did not return a marked answer'' []) w
                     in issue_reportFailure H current pullRequest role e w)
               else
                 (case complete_issue_round H current pullRequest checkout role base answer w of
                    (Inl err, w) \<Rightarrow>
                      (let (e, w) = failing_round H run err w
                       in issue_reportFailure H current pullRequest role e w)
                  | (Inr _, w) \<Rightarrow> doing (succeed_round (h_round H) run) w)))"

text \<open>What happens once the host has admitted the sandbox; the reservation is released at the end.\<close>

definition admitted_issue_round ::
    "'x agent_host \<Rightarrow> Epic \<Rightarrow> Issue \<Rightarrow> PullRequest \<Rightarrow> AgentRole \<Rightarrow> AgentProfile \<Rightarrow> AgentRun list \<Rightarrow>
       SandboxSpec \<Rightarrow> (unit, 'x) io" where
  "admitted_issue_round H current issue pullRequest role profile runs spec =
     (let checkout = \<lparr>co_EpicID = e_ID current, co_IssueID = i_ID issue, co_Repository = p_Repository pullRequest\<rparr>
      in calling (g_Checkout (h_code H) checkout (p_Head pullRequest) (p_Base pullRequest)) (\<lambda>repoPath.
           calling (g_Resolve (h_code H) checkout (p_Base pullRequest)) (\<lambda>base.
             calling (issue_mount H spec current (p_Repository pullRequest) repoPath (a_Agent profile)) (\<lambda>spec.
               beginning H spec profile (nextRound runs) runs
                 (issue_round_body H current issue pullRequest role checkout repoPath base)))))"

definition RunIssueAgent_Handle ::
    "'x agent_host \<Rightarrow> nat \<Rightarrow> string \<Rightarrow> string \<Rightarrow> SandboxSpec \<Rightarrow> (unit, 'x) io" where
  "RunIssueAgent_Handle H projectID epicID issueID spec =
     calling (t_ReadEpic (h_tracker H) epicID) (\<lambda>current.
       calling (settling (FindIssue current issueID)) (\<lambda>issue.
         case OpenPullRequestFor current issueID of
           None \<Rightarrow> returning ()
         | Some pullRequest \<Rightarrow>
             (case IssueRole current pullRequest of
                None \<Rightarrow> returning ()
              | Some role \<Rightarrow>
                  calling (t_AgentSettings (h_tracker H)) (\<lambda>settings.
                    calling (t_RepositorySettings (h_tracker H) (p_Repository pullRequest)) (\<lambda>repoSettings.
                      let effective = Override settings repoSettings
                      in calling (settling (Profile effective role)) (\<lambda>profile.
                        calling (with_setup_script H (as_SetupScript effective) spec) (\<lambda>spec.
                          if v_ProjectID (sp_Sandbox spec) \<noteq> projectID \<or> v_Role (sp_Sandbox spec) \<noteq> role \<or>
                             v_Subject (sp_Sandbox spec) \<noteq> issue_subject (i_ID issue)
                          then failing (Errorf ''sandbox does not belong to issue %q and role %q''
                                 [GStr (i_ID issue), GStr (agent_role_string role)])
                          else calling (h_ListAgentRuns H projectID (v_Subject (sp_Sandbox spec))) (\<lambda>runs.
                            calling (doing (stallLiveRuns (h_round H) runs)) (\<lambda>_.
                              calling (h_Reserve H spec) (\<lambda>admitted.
                                if \<not> admitted then returning ()
                                else deferring (h_Release H spec)
                                  (admitted_issue_round H current issue pullRequest role profile runs spec)))))))))))"

section \<open>What a round publishes\<close>

lemma quiet_reference_mounts [quiet]:
  "quiet_host obs H \<Longrightarrow> silent obs (reference_mounts H epicID active repositories spec)"
  by (induction H epicID active repositories spec rule: reference_mounts.induct)
    (auto simp: Let_def intro: quiet)

lemma quiet_issue_mount [quiet]:
  "quiet_host obs H \<Longrightarrow> silent obs (issue_mount H spec current active repoPath model)"
  by (auto simp: issue_mount_def Let_def intro!: quiet)

lemma quiet_issue_gate [quiet]: "quiet_host obs H \<Longrightarrow> silent obs (issue_gate H checkout base)"
  by (auto simp: issue_gate_def intro!: quiet)

lemma quiet_completeReview [quiet]:
  "quiet_host obs H \<Longrightarrow> silent obs (completeReview H current pullRequest checkout base answer)"
  by (auto simp: completeReview_def Let_def intro!: quiet)

lemma quiet_issue_reportFailure [quiet]:
  "quiet_host obs H \<Longrightarrow> silent obs (issue_reportFailure H current pullRequest role cause)"
  by (rule silentI)
    (auto simp: issue_reportFailure_def Let_def split: if_splits prod.splits
      dest: silentD [OF quiet_update_minting])

text \<open>A coding round publishes only behind the gate, a merge round without it, a review never.\<close>

lemma within_completeCoding:
  assumes q: "quiet_host obs H" and R: "reflp R"
    and push: "(\<exists>w w'. issue_gate H checkout base w = (Inr (), w')) \<Longrightarrow>
      within R obs (g_Push (h_code H) checkout (p_Head pullRequest))"
  shows "within R obs (completeCoding H current pullRequest checkout base answer)"
proof -
  have "within R obs (calling (issue_gate H checkout base) (\<lambda>_.
      calling (doing (g_Push (h_code H) checkout (p_Head pullRequest))) (\<lambda>_.
        calling (g_Resolve (h_code H) checkout (p_Head pullRequest)) (\<lambda>head.
          doing (t_UpdateEpic (h_tracker H) (e_ID current)
            (minting (h_tracker H) (\<lambda>ulid now. coding_completed ulid now (p_ID pullRequest) answer head)))))))"
    using q by (intro within_calling [OF _ R] within_calling_last within_doing push quiet) auto
  then show ?thesis
    unfolding completeCoding_def Let_def by (rule within_calling [OF quiet_hostD(3) [OF q] R])
qed

lemma within_completeMerge:
  assumes q: "quiet_host obs H" and R: "reflp R"
    and push: "within R obs (g_Push (h_code H) checkout (p_Head pullRequest))"
  shows "within R obs (completeMerge H current pullRequest checkout answer)"
proof -
  have "within R obs (calling (doing (g_Push (h_code H) checkout (p_Head pullRequest))) (\<lambda>_.
        calling (g_Resolve (h_code H) checkout (p_Head pullRequest)) (\<lambda>head.
          doing (t_UpdateEpic (h_tracker H) (e_ID current)
            (minting (h_tracker H) (\<lambda>ulid now. merge_completed ulid now (p_ID pullRequest) answer head))))))"
    using q by (intro within_calling_last within_doing push quiet)
  then show ?thesis
    unfolding completeMerge_def Let_def by (rule within_calling [OF quiet_hostD(3) [OF q] R])
qed

text \<open>When a role publishes: a merge round always, a coding round once the gate has let it through.\<close>

definition publishes :: "'x agent_host \<Rightarrow> AgentRole \<Rightarrow> CodeCheckout \<Rightarrow> string \<Rightarrow> bool" where
  "publishes H role checkout base \<longleftrightarrow>
     role = AgentRoleMerge \<or>
     role = AgentRoleCoding \<and> (\<exists>w w'. issue_gate H checkout base w = (Inr (), w'))"

lemma within_complete_issue_round:
  assumes q: "quiet_host obs H" and R: "reflp R"
    and push: "publishes H role checkout base \<Longrightarrow>
      within R obs (g_Push (h_code H) checkout (p_Head pullRequest))"
  shows "within R obs (complete_issue_round H current pullRequest checkout role base answer)"
  using push within_completeCoding [OF q R] within_completeMerge [OF q R]
    within_silent [OF quiet_completeReview [OF q] R]
  by (auto simp: complete_issue_round_def publishes_def split: AgentRole.split)

lemma within_issue_round_body:
  assumes q: "quiet_host obs H" and R: "reflp R"
    and push: "publishes H role checkout base \<Longrightarrow>
      within R obs (g_Push (h_code H) checkout (p_Head pullRequest))"
  shows "within R obs (issue_round_body H current issue pullRequest role checkout repoPath base run spec)"
proof (rule withinI)
  fix w r w'
  assume b: "issue_round_body H current issue pullRequest role checkout repoPath base run spec w = (r, w')"
  note quiets = silentD [OF quiet_failing_round [OF q]] silentD [OF quiet_issue_reportFailure [OF q]]
    silentD [OF quiet_of_round(4) [OF q]] silentD [OF silent_doing [OF quiet_of_round(2) [OF q]]]
  note complete = withinD [OF within_complete_issue_round [OF q R push]]
  have "obs w' = obs w \<or> (\<exists>answer r1 v v'.
      complete_issue_round H current pullRequest checkout role base answer v = (r1, v') \<and>
      obs v = obs w \<and> obs w' = obs v')"
    using b unfolding issue_round_body_def Let_def
    by (auto split: sum.splits prod.splits if_splits dest!: quiets) metis+
  then show "R (obs w) (obs w')"
    using complete R by (metis reflpD)
qed

lemma within_admitted_issue_round:
  assumes q: "quiet_host obs H" and R: "reflp R"
    and push: "\<And>checkout base. co_EpicID checkout = e_ID current \<Longrightarrow> co_IssueID checkout = i_ID issue \<Longrightarrow>
      co_Repository checkout = p_Repository pullRequest \<Longrightarrow> publishes H role checkout base \<Longrightarrow>
      within R obs (g_Push (h_code H) checkout (p_Head pullRequest))"
  shows "within R obs (admitted_issue_round H current issue pullRequest role profile runs spec)"
  unfolding admitted_issue_round_def Let_def
proof (rule within_calling [OF quiet_hostD(1) [OF q] R], rule within_calling [OF quiet_hostD(2) [OF q] R],
    rule within_calling [OF quiet_issue_mount [OF q] R], rule within_beginning [OF q R],
    rule within_issue_round_body [OF q R])
qed (simp add: push)

text \<open>What precedes the admission of the sandbox.\<close>

lemma within_RunIssueAgent_Handle:
  assumes q: "quiet_host obs H" and R: "reflp R"
    and admitted: "\<And>current issue pullRequest role profile runs spec'.
      FindIssue current issueID = Inr issue \<Longrightarrow> OpenPullRequestFor current issueID = Some pullRequest \<Longrightarrow>
      IssueRole current pullRequest = Some role \<Longrightarrow> sp_Sandbox spec' = sp_Sandbox spec \<Longrightarrow>
      v_Role (sp_Sandbox spec) = role \<Longrightarrow> v_Subject (sp_Sandbox spec) = issue_subject (i_ID issue) \<Longrightarrow>
      (\<exists>w w'. t_ReadEpic (h_tracker H) epicID w = (Inr current, w')) \<Longrightarrow>
      within R obs (calling (h_Reserve H spec') (\<lambda>admitted. if \<not> admitted then returning ()
        else deferring (h_Release H spec')
          (admitted_issue_round H current issue pullRequest role profile runs spec')))"
  shows "within R obs (RunIssueAgent_Handle H projectID epicID issueID spec)"
proof -
  have script: "sp_Sandbox spec' = sp_Sandbox spec"
    if "with_setup_script H script spec w = (Inr spec', w')" for script spec' w w'
    using that by (auto simp: with_setup_script_def returning_def calling_Inr split: if_splits)
  note calls = within_calling [OF quiet_hostD(11) [OF q] R] within_calling [OF silent_pure(3) R]
    within_calling [OF quiet_hostD(12) [OF q] R] within_calling [OF quiet_hostD(13) [OF q] R]
    within_calling [OF quiet_with_setup_script [OF q] R] within_calling [OF quiet_hostD(6) [OF q] R]
    within_calling [OF silent_doing [OF quiet_of_round(1) [OF q]] R]
  have "within R obs (case OpenPullRequestFor current issueID of
       None \<Rightarrow> returning ()
     | Some pullRequest \<Rightarrow> (case IssueRole current pullRequest of
         None \<Rightarrow> returning ()
       | Some role \<Rightarrow> rest pullRequest role))"
    if "\<And>pullRequest role. OpenPullRequestFor current issueID = Some pullRequest \<Longrightarrow>
      IssueRole current pullRequest = Some role \<Longrightarrow> within R obs (rest pullRequest role)"
    for current and rest :: "PullRequest \<Rightarrow> AgentRole \<Rightarrow> (unit, 'a) io"
    using that by (auto simp: within_silent [OF silent_pure(1) R] split: option.split)
  note roles = this
  have "within R obs (if b then failing err else m)" if "\<not> b \<Longrightarrow> within R obs m"
    for b err and m :: "(unit, 'a) io"
    using that by (simp add: within_silent [OF silent_pure(2) R])
  note guard = this
  show ?thesis
    unfolding RunIssueAgent_Handle_def Let_def
    by (rule calls(1), rule calls(2), rule roles, rule calls(3), rule calls(4), rule calls(2), rule calls(5),
        rule guard, rule calls(6), rule calls(7), rule admitted)
      (auto simp: settling_def dest: script)
qed


lemma reservation_balances:
  fixes held :: "'x world \<Rightarrow> int"
  assumes reserve: "\<And>s v a v'. h_Reserve H s v = (a, v') \<Longrightarrow> held v' = held v + (if a = Inr True then 1 else 0)"
    and release: "\<And>s v. held (h_Release H s v) = held v - 1"
    and m: "silent held (m :: (unit, 'x) io)"
  shows "within (=) held (calling (h_Reserve H spec)
    (\<lambda>admitted. if \<not> admitted then returning () else deferring (h_Release H spec) m))"
proof (rule withinI, erule calling_cases)
  fix v r v' err
  assume "h_Reserve H spec v = (Inl err, v')"
  then show "held v = held v'" using reserve by fastforce
next
  fix v r v' a v1
  assume h: "h_Reserve H spec v = (Inr a, v1)"
    and rest: "(if \<not> a then returning () else deferring (h_Release H spec) m) v1 = (r, v')"
  show "held v = held v'"
    using reserve [OF h] rest
    by (cases a) (auto simp: returning_def deferring_def release split: prod.splits dest: silentD [OF m])
qed

section \<open>On the small host\<close>

abbreviation coding_round :: "string list \<Rightarrow> (go_error + unit) \<times> books world" where
  "coding_round changed \<equiv> RunIssueAgent_Handle (small_host changed) 1 ''E1'' ''I1''
     (small_spec AgentRoleCoding ''I1'') (small_world cut_epic)"


section \<open>The conversation\<close>

lemma comments_since_loop_spec:
  "case comments_since_loop author earlier later of
     None \<Rightarrow> \<forall>c \<in> set earlier. c_Author c \<noteq> author
   | Some since \<Rightarrow> \<exists>c older newer. earlier = newer @ c # older \<and> c_Author c = author \<and>
       (\<forall>d \<in> set newer. c_Author d \<noteq> author) \<and> since = rev newer @ later"
proof (induction author earlier later rule: comments_since_loop.induct)
  case (2 author comment earlier later)
  show ?case
  proof (cases "c_Author comment = author")
    case True
    then show ?thesis by (intro option.case_eq_if [THEN iffD2]) (auto intro: exI [of _ "[]"])
  next
    case False
    with 2 show ?thesis
      by (auto split: option.splits) (metis append_Cons append.assoc append_Nil rev.simps(2) set_ConsD)
  qed
qed simp

text \<open>
  A resumed session is sent exactly what follows its own last turn: the thread splits at the role's
  last comment, and a role that never spoke gets it whole.
\<close>

lemma commentsSince_after_last_turn:
  "\<exists>heard. p_Comments pullRequest = heard @ commentsSince pullRequest role \<and>
     (\<forall>c \<in> set (commentsSince pullRequest role). c_Author c \<noteq> agent_role_string role) \<and>
     (heard = [] \<or> c_Author (last heard) = agent_role_string role)"
proof (cases "comments_since_loop (agent_role_string role) (rev (p_Comments pullRequest)) []")
  case None
  then show ?thesis
    using comments_since_loop_spec [where author = "agent_role_string role" and earlier = "rev (p_Comments pullRequest)" and later = "[]"]
    by (auto simp: commentsSince_def)
next
  case (Some since)
  then obtain c older newer where n: "rev (p_Comments pullRequest) = newer @ c # older"
      "c_Author c = agent_role_string role" "\<forall>d \<in> set newer. c_Author d \<noteq> agent_role_string role"
      "since = rev newer"
    using comments_since_loop_spec [where author = "agent_role_string role" and earlier = "rev (p_Comments pullRequest)" and later = "[]"] by auto
  from n(1) have "p_Comments pullRequest = (rev older @ [c]) @ rev newer"
    by (metis append.assoc append_Cons append_Nil rev.simps(2) rev_append rev_rev_ident)
  with n Some show ?thesis
    by (intro exI [of _ "rev older @ [c]"]) (auto simp: commentsSince_def)
qed

end
