(* ===== verification/Epic_Rounds.thy ===== *)
theory Epic_Rounds
  imports Issue_Rounds
begin

text \<open>
  \<open>internal/application/usecases/run_epic_agent.go\<close>: one drafting round on an epic. The refiner
  rewrites the issue tree, the issue reviewer comments on it, and the epic moves by the verdict. An
  \<open>UpdateEpic\<close> change that mints an ID is given it when the change starts.
\<close>

section \<open>What a round does to the epic\<close>

text \<open>
  The loops that hang a comment on the root issue: over every issue of that ID, or up to the first.
\<close>

fun comment_issues :: "bool \<Rightarrow> string \<Rightarrow> Comment \<Rightarrow> Issue list update" where
  "comment_issues stop issueID comment [] = (None, [])"
| "comment_issues stop issueID comment (issue # issues) =
     (if i_ID issue = issueID then
        (case Issue_AddComment comment issue of
           (Some err, issue) \<Rightarrow> (Some err, issue # issues)
         | (None, issue) \<Rightarrow>
             if stop then (None, issue # issues)
             else (let (r, issues) = comment_issues stop issueID comment issues in (r, issue # issues)))
      else (let (r, issues) = comment_issues stop issueID comment issues in (r, issue # issues)))"

text \<open>\<open>completeEpicRun\<close>, the refiner's half, given what the tree reads back as.\<close>

definition refiner_completed :: "go_error + Epic \<Rightarrow> Epic update" where
  "refiner_completed tree current =
     (case tree of
        Inl err \<Rightarrow> (Some err, current)
      | Inr refined \<Rightarrow>
          if \<not> hasPlannedWork refined
          then (Some (Errorf ''refiner produced no issues: the epic tree still has only its root issue'' []), current)
          else Epic_Apply EpicEventReview refined)"

definition critique_completed :: "string \<Rightarrow> int \<Rightarrow> string \<Rightarrow> bool \<Rightarrow> Epic update" where
  "critique_completed ulid now answer approved current =
     (case RootIssue current of
        Inl err \<Rightarrow> (Some err, current)
      | Inr root \<Rightarrow>
          (case CreateComment ulid now ''issue-reviewer'' answer of
             Inl err \<Rightarrow> (Some err, current)
           | Inr critique \<Rightarrow>
               then_do (on_issues (comment_issues False (i_ID root) critique)) (RecordDraftingPass approved)
                 current))"

definition round_limit_reached :: "string \<Rightarrow> int \<Rightarrow> AgentRole \<Rightarrow> int \<Rightarrow> Epic update" where
  "round_limit_reached ulid now role limit current =
     (case CreateComment ulid now ''go-merge''
             (agent_role_string role @ '' reached its round limit of '' @ dec (nat limit) @ '' without completing.'') of
        Inl err \<Rightarrow> (Some err, current)
      | Inr comment \<Rightarrow>
          (case RootIssue current of
             Inl err \<Rightarrow> (Some err, current)
           | Inr root \<Rightarrow>
               then_do (on_issues (comment_issues True (i_ID root) comment)) (Epic_Apply EpicEventFail) current))"

definition comment_root :: "string \<Rightarrow> int \<Rightarrow> string \<Rightarrow> string \<Rightarrow> Epic update" where
  "comment_root ulid now author body current =
     (case RootIssue current of
        Inl err \<Rightarrow> (Some err, current)
      | Inr root \<Rightarrow>
          (case CreateComment ulid now author body of
             Inl err \<Rightarrow> (Some err, current)
           | Inr comment \<Rightarrow> AddIssueComment (i_ID root) comment current))"

section \<open>The handler\<close>

definition withRepositoryFolders :: "Epic \<Rightarrow> Epic" where
  "withRepositoryFolders e = e\<lparr>e_Repositories := map Encode (e_Repositories e)\<rparr>"

definition completeEpicRun :: "'x agent_host \<Rightarrow> Epic \<Rightarrow> AgentRole \<Rightarrow> string \<Rightarrow> string \<Rightarrow> (unit, 'x) io" where
  "completeEpicRun H currentEpic role treePath answer =
     doing (t_UpdateEpic (h_tracker H) (e_ID currentEpic) (\<lambda>current w.
       if role = AgentRoleRefiner
       then (case h_ReadTree H treePath current w of (tree, w) \<Rightarrow> (refiner_completed tree current, w))
       else minting (h_tracker H)
              (\<lambda>ulid now. critique_completed ulid now answer (h_ReviewApproved H answer)) current w))"

definition failEpicForRoundLimit :: "'x agent_host \<Rightarrow> Epic \<Rightarrow> AgentRole \<Rightarrow> int \<Rightarrow> (unit, 'x) io" where
  "failEpicForRoundLimit H currentEpic role limit =
     doing (t_UpdateEpic (h_tracker H) (e_ID currentEpic)
       (minting (h_tracker H) (\<lambda>ulid now. round_limit_reached ulid now role limit)))"

definition epic_reportFailure :: "'x agent_host \<Rightarrow> Epic \<Rightarrow> AgentRole \<Rightarrow> go_error \<Rightarrow> (unit, 'x) io" where
  "epic_reportFailure H currentEpic role cause w =
     (if was_cancelled cause then (Inl cause, w)
      else
        let body = ''The '' @ agent_role_string role @ '' round failed: '' @ ErrorText (h_round H) cause;
            (commentErr, w) = t_UpdateEpic (h_tracker H) (e_ID currentEpic)
              (minting (h_tracker H) (\<lambda>ulid now. comment_root ulid now (agent_role_string role) body)) w
        in (Inl (joined_failure cause commentErr), w))"

fun epic_mounts :: "'x agent_host \<Rightarrow> string \<Rightarrow> string list \<Rightarrow> SandboxSpec \<Rightarrow> (SandboxSpec, 'x) io" where
  "epic_mounts H epicID [] spec = returning spec"
| "epic_mounts H epicID (repository # repositories) spec =
     calling (h_EnsureRepository H epicID repository) (\<lambda>path.
       let guestPath = ''/work/repos/'' @ Encode repository
       in epic_mounts H epicID repositories
            (add_mounts [mount path guestPath True,
               mount (filepath_Join [path, ''.git'']) (guestPath @ ''/.git'') False] spec))"

definition epic_round_body ::
    "'x agent_host \<Rightarrow> Epic \<Rightarrow> AgentRole \<Rightarrow> string \<Rightarrow> AgentRun \<Rightarrow> SandboxSpec \<Rightarrow> (unit, 'x) io" where
  "epic_round_body H currentEpic role treePath run spec w =
     (case h_EpicPrompt H (withRepositoryFolders currentEpic) role (r_SessionMode run) of
        Inl err \<Rightarrow> (let (e, w) = failing_round H run err w in (Inl e, w))
      | Inr prompt \<Rightarrow>
          (case invoke (h_round H) (h_silence H) (h_timeout H) spec run prompt [] w of
             ((Inl err, _, _), w) \<Rightarrow> epic_reportFailure H currentEpic role err w
           | ((Inr answer, run, _), w) \<Rightarrow>
               if role = AgentRoleIssueReviewer \<and> answer = []
               then (let (e, w) = failing_round H run (Errorf ''agent did not return a marked answer'' []) w
                     in epic_reportFailure H currentEpic role e w)
               else
                 (case completeEpicRun H currentEpic role treePath answer w of
                    (Inl err, w) \<Rightarrow>
                      (let (e, w) = failing_round H run err w in epic_reportFailure H currentEpic role e w)
                  | (Inr _, w) \<Rightarrow> doing (succeed_round (h_round H) run) w)))"

definition admitted_epic_round ::
    "'x agent_host \<Rightarrow> Epic \<Rightarrow> AgentRole \<Rightarrow> AgentProfile \<Rightarrow> AgentRun list \<Rightarrow> SandboxSpec \<Rightarrow> (unit, 'x) io" where
  "admitted_epic_round H currentEpic role profile runs spec =
     calling (h_OpenCodeMount H (v_Name (sp_Sandbox spec)) (a_Agent profile)) (\<lambda>credentials.
       calling (h_WriteTree H (v_Name (sp_Sandbox spec)) currentEpic) (\<lambda>treePath.
         calling (epic_mounts H (e_ID currentEpic) (e_Repositories currentEpic)
             (add_mounts [credentials, mount treePath ''/work/issues'' (role = AgentRoleRefiner)] spec)) (\<lambda>spec.
           beginning H spec profile (nextRound runs) runs (epic_round_body H currentEpic role treePath))))"

text \<open>A refiner round commits \<open>Refine\<close> before its sandbox exists.\<close>

definition refining :: "'x agent_host \<Rightarrow> AgentRole \<Rightarrow> Epic \<Rightarrow> (Epic, 'x) io" where
  "refining H role currentEpic =
     (if role = AgentRoleRefiner \<and> e_State currentEpic \<noteq> EpicStateRefine
      then calling (doing (t_UpdateEpic (h_tracker H) (e_ID currentEpic) (plain (Epic_Apply EpicEventRefine))))
             (\<lambda>_. returning (currentEpic\<lparr>e_State := EpicStateRefine\<rparr>))
      else returning currentEpic)"

definition RunEpicAgent_Handle :: "'x agent_host \<Rightarrow> nat \<Rightarrow> string \<Rightarrow> SandboxSpec \<Rightarrow> (unit, 'x) io" where
  "RunEpicAgent_Handle H projectID epicID spec =
     calling (t_ReadEpic (h_tracker H) epicID) (\<lambda>currentEpic.
       case epicRole (e_State currentEpic) of
         None \<Rightarrow> returning ()
       | Some role \<Rightarrow>
           calling (t_AgentSettings (h_tracker H)) (\<lambda>settings.
             calling (settling (Profile settings role)) (\<lambda>profile.
               calling (with_setup_script H (as_SetupScript settings) spec) (\<lambda>spec.
                 if e_Repositories currentEpic = []
                 then failing (Errorf ''epic %q has no repository scope'' [GStr (e_ID currentEpic)])
                 else if v_ProjectID (sp_Sandbox spec) \<noteq> projectID \<or> v_Role (sp_Sandbox spec) \<noteq> role \<or>
                    v_Subject (sp_Sandbox spec) \<noteq> epic_subject (e_ID currentEpic)
                 then failing (Errorf ''sandbox does not belong to epic %q and role %q''
                        [GStr (e_ID currentEpic), GStr (agent_role_string role)])
                 else calling (h_ListAgentRuns H projectID (v_Subject (sp_Sandbox spec))) (\<lambda>runs.
                   calling (doing (stallLiveRuns (h_round H) runs)) (\<lambda>_.
                     calling (refining H role currentEpic) (\<lambda>currentEpic.
                       if roundLimit profile < nextRound runs
                       then failEpicForRoundLimit H currentEpic role (roundLimit profile)
                       else calling (h_Reserve H spec) (\<lambda>admitted.
                         if \<not> admitted then returning ()
                         else deferring (h_Release H spec)
                           (admitted_epic_round H currentEpic role profile runs spec)))))))))"

section \<open>Seen from outside\<close>

lemma quiet_completeEpicRun [quiet]:
  assumes q: "quiet_host obs H"
  shows "silent obs (completeEpicRun H currentEpic role treePath answer)"
  unfolding completeEpicRun_def
proof (rule silent_doing, rule quiet_UpdateEpic [OF q], rule silentI)
  fix current w r w'
  assume change: "(if role = AgentRoleRefiner
      then (case h_ReadTree H treePath current w of (tree, w) \<Rightarrow> (refiner_completed tree current, w))
      else minting (h_tracker H)
             (\<lambda>ulid now. critique_completed ulid now answer (h_ReviewApproved H answer)) current w) = (r, w')"
  have "silent obs (t_Mint (h_tracker H))"
    using q by (simp add: quiet_host_def quiet_tracker_def)
  then show "obs w' = obs w"
    using change quiet_hostD(10) [OF q]
    by (auto simp: minting_def Let_def split: if_splits prod.splits dest: silentD)
qed

lemma quiet_failEpicForRoundLimit [quiet]:
  "quiet_host obs H \<Longrightarrow> silent obs (failEpicForRoundLimit H currentEpic role limit)"
  by (auto simp: failEpicForRoundLimit_def intro!: quiet)

lemma quiet_epic_reportFailure [quiet]:
  "quiet_host obs H \<Longrightarrow> silent obs (epic_reportFailure H currentEpic role cause)"
  by (rule silentI)
    (auto simp: epic_reportFailure_def Let_def split: if_splits prod.splits
      dest: silentD [OF quiet_update_minting])

lemma quiet_epic_mounts [quiet]:
  "quiet_host obs H \<Longrightarrow> silent obs (epic_mounts H epicID repositories spec)"
  by (induction H epicID repositories spec rule: epic_mounts.induct) (auto simp: Let_def intro: quiet)

lemma quiet_refining [quiet]: "quiet_host obs H \<Longrightarrow> silent obs (refining H role currentEpic)"
  by (auto simp: refining_def intro!: quiet)

lemma quiet_epic_round_body:
  assumes q: "quiet_host obs H"
  shows "silent obs (epic_round_body H currentEpic role treePath run spec)"
proof (rule silentI)
  fix w r w'
  assume b: "epic_round_body H currentEpic role treePath run spec w = (r, w')"
  note quiets = silentD [OF quiet_failing_round [OF q]] silentD [OF quiet_epic_reportFailure [OF q]]
    silentD [OF quiet_of_round(4) [OF q]] silentD [OF silent_doing [OF quiet_of_round(2) [OF q]]]
    silentD [OF quiet_completeEpicRun [OF q]]
  show "obs w' = obs w"
    using b unfolding epic_round_body_def Let_def
    by (auto split: sum.splits prod.splits if_splits dest!: quiets)
qed

text \<open>An epic round moves the observation only by its reservation.\<close>

lemma quiet_admitted_epic_round:
  assumes q: "quiet_host obs H"
  shows "silent obs (admitted_epic_round H currentEpic role profile runs spec)"
proof -
  have R: "reflp ((=) :: 'b \<Rightarrow> 'b \<Rightarrow> bool)" by (simp add: reflp_def)
  have "within (=) obs (admitted_epic_round H currentEpic role profile runs spec)"
    unfolding admitted_epic_round_def
    by (rule within_calling [OF quiet_hostD(7) [OF q] R], rule within_calling [OF quiet_hostD(9) [OF q] R],
        rule within_calling [OF quiet_epic_mounts [OF q] R], rule within_beginning [OF q R],
        rule within_silent [OF quiet_epic_round_body [OF q] R])
  then show ?thesis by (simp add: within_def silent_def)
qed

lemma within_RunEpicAgent_Handle:
  assumes q: "quiet_host obs H" and R: "reflp R"
    and admitted: "\<And>currentEpic role profile runs spec.
      within R obs (calling (h_Reserve H spec) (\<lambda>admitted. if \<not> admitted then returning ()
        else deferring (h_Release H spec) (admitted_epic_round H currentEpic role profile runs spec)))"
  shows "within R obs (RunEpicAgent_Handle H projectID epicID spec)"
proof -
  note calls = within_calling [OF quiet_hostD(11) [OF q] R] within_calling [OF silent_pure(3) R]
    within_calling [OF quiet_hostD(12) [OF q] R] within_calling [OF quiet_refining [OF q] R]
    within_calling [OF quiet_with_setup_script [OF q] R] within_calling [OF quiet_hostD(6) [OF q] R]
    within_calling [OF silent_doing [OF quiet_of_round(1) [OF q]] R]
  have role: "within R obs (case epicRole s of None \<Rightarrow> returning () | Some role \<Rightarrow> rest role)"
    if "\<And>role. within R obs (rest role)" for s and rest :: "AgentRole \<Rightarrow> (unit, 'a) io"
    using that by (auto simp: within_silent [OF silent_pure(1) R] split: option.split)
  have guard: "within R obs (if b then failing err else m)" if "within R obs m"
    for b err and m :: "(unit, 'a) io"
    using that by (simp add: within_silent [OF silent_pure(2) R])
  have limit: "within R obs (if b then failEpicForRoundLimit H e role n else m)" if "within R obs m"
    for b e role n and m :: "(unit, 'a) io"
    using that by (simp add: within_silent [OF quiet_failEpicForRoundLimit [OF q] R])
  show ?thesis
    unfolding RunEpicAgent_Handle_def
    by (rule calls(1), rule role, rule calls(3), rule calls(2), rule calls(5), rule guard, rule guard,
        rule calls(6), rule calls(7), rule calls(4), rule limit, rule admitted)
qed

text \<open>C15. Whatever happens in a round of an epic or of an issue, every path out of its handler gives back
  exactly the reservation it took: the books of the host balance after every round, refused, failed,
  cancelled or completed.\<close>

theorem rounds_return_their_reservations:
  fixes held :: "'x world \<Rightarrow> int"
  assumes q: "quiet_host held H"
    and push: "\<And>c b. silent held (g_Push (h_code H) c b)"
    and reserve: "\<And>s v a v'. h_Reserve H s v = (a, v') \<Longrightarrow> held v' = held v + (if a = Inr True then 1 else 0)"
    and release: "\<And>s v. held (h_Release H s v) = held v - 1"
    and handle: "out = RunIssueAgent_Handle H projectID epicID issueID spec w \<or>
      out = RunEpicAgent_Handle H projectID epicID spec w"
  shows "held (snd out) = held w"
proof -
  have R: "reflp ((=) :: int \<Rightarrow> int \<Rightarrow> bool)" by (simp add: reflp_def)
  note balances = reservation_balances [where H = H and held = held, OF reserve release]
  have "silent held (admitted_issue_round H current issue pullRequest role profile runs spec')"
    for current issue pullRequest role profile runs spec'
    using within_admitted_issue_round [OF q R] within_silent [OF push R] by (simp add: within_def silent_def)
  then have "within (=) held (RunIssueAgent_Handle H projectID epicID issueID spec)"
    by (intro within_RunIssueAgent_Handle [OF q R] balances)
  moreover have "within (=) held (RunEpicAgent_Handle H projectID epicID spec)"
    by (intro within_RunEpicAgent_Handle [OF q R] balances quiet_admitted_epic_round [OF q])
  ultimately show ?thesis
    using handle by (auto simp: within_def)
qed

lemma rounds_return_their_reservations_witness:
  "k_held (w_ext (snd (coding_round [''.github/ci.yml'']))) = 0"
proof -
  have "quiet_host (\<lambda>w. k_held (w_ext w)) (small_host [''.github/ci.yml''])"
    by (rule small_host_quiet) (simp_all add: on_supervisor_def on_books_def)
  then show ?thesis
    using rounds_return_their_reservations [of "\<lambda>w. k_held (w_ext w)" "small_host [''.github/ci.yml'']"
        "coding_round [''.github/ci.yml'']" 1 "''E1''" "''I1''"
        "small_spec AgentRoleCoding ''I1''" "small_world cut_epic"]
    by (fastforce simp: small_host_def small_code_def small_world_def silent_def on_books_def prod_eq_iff)
qed

section \<open>The drafting cycle\<close>

text \<open>
  What the automatic rounds of an epic write, when they complete: the move to \<open>Refine\<close> that opens a
  refiner round, the refiner's tree, the reviewer's verdict and the round limit. The tree the refiner
  leaves keeps the epic's state and counter (\<open>Issue_Tree.Read\<close>).
\<close>

inductive drafting_step :: "Epic \<Rightarrow> Epic \<Rightarrow> bool" where
  Refining: "epicRole (e_State e) = Some AgentRoleRefiner \<Longrightarrow> e_State e \<noteq> EpicStateRefine \<Longrightarrow>
     Epic_Apply EpicEventRefine e = (None, e') \<Longrightarrow> drafting_step e e'"
| Refined: "e_State refined = e_State e \<Longrightarrow> e_DraftingPasses refined = e_DraftingPasses e \<Longrightarrow>
     e_State e = EpicStateRefine \<Longrightarrow> refiner_completed (Inr refined) e = (None, e') \<Longrightarrow> drafting_step e e'"
| Reviewed: "epicRole (e_State e) = Some AgentRoleIssueReviewer \<Longrightarrow>
     critique_completed ulid now answer approved e = (None, e') \<Longrightarrow> drafting_step e e'"
| Limited: "epicRole (e_State e) = Some role \<Longrightarrow>
     round_limit_reached ulid now role limit e = (None, e') \<Longrightarrow> drafting_step e e'"

text \<open>How many steps are left before a person is needed.\<close>

definition drafting_budget :: "Epic \<Rightarrow> nat" where
  "drafting_budget e = 3 * nat (MaxDraftingPasses - e_DraftingPasses e) +
     (case e_State e of EpicStateConcept \<Rightarrow> 3 | EpicStateChangesRequested \<Rightarrow> 3
      | EpicStateRefine \<Rightarrow> 2 | EpicStateReview \<Rightarrow> 1 | _ \<Rightarrow> 0)"

lemma comment_issues_skeleton:
  "comment_issues stop issueID comment issues = (r, issues') \<Longrightarrow>
     map (\<lambda>i. (i_ID i, i_ParentID i, i_State i)) issues' = map (\<lambda>i. (i_ID i, i_ParentID i, i_State i)) issues"
  by (induction stop issueID comment issues arbitrary: r issues' rule: comment_issues.induct)
    (auto simp: Issue_AddComment_def Let_def split: if_splits prod.splits option.splits)

lemma on_issues_result: "on_issues f e = (r, e') \<Longrightarrow> \<exists>issues. f (e_Issues e) = (r, issues) \<and> e' = e\<lparr>e_Issues := issues\<rparr>"
  by (auto simp: on_issues_def split: prod.splits)

lemma hasPlannedWork_commented:
  assumes "comment_issues stop issueID comment (e_Issues e) = (r, issues)"
  shows "hasPlannedWork (e\<lparr>e_Issues := issues\<rparr>) = hasPlannedWork e"
proof -
  have "hasPlannedWork e \<longleftrightarrow>
      list_ex (\<lambda>k. fst (snd k) \<noteq> [] \<and> snd (snd k) \<noteq> IssueStateClosed)
        (map (\<lambda>i. (i_ID i, i_ParentID i, i_State i)) (e_Issues e))"
    for e by (simp add: hasPlannedWork_iff list_ex_iff)
  moreover have "e_Issues (e\<lparr>e_Issues := issues\<rparr>) = issues" by simp
  ultimately show ?thesis by (simp only: comment_issues_skeleton [OF assms])
qed

lemma critique_completed_None:
  assumes "critique_completed ulid now answer approved e = (None, e')"
  obtains issues where "hasPlannedWork (e\<lparr>e_Issues := issues\<rparr>) = hasPlannedWork e"
    "RecordDraftingPass approved (e\<lparr>e_Issues := issues\<rparr>) = (None, e')"
  using assms
  by (fastforce simp: critique_completed_def then_do_None_iff dest!: on_issues_result
      dest: hasPlannedWork_commented split: sum.splits)

lemma round_limit_reached_None:
  assumes "round_limit_reached ulid now role limit e = (None, e')"
  shows "e_State e' = EpicStateFailed" "e_DraftingPasses e' = e_DraftingPasses e"
  using assms
  by (auto simp: round_limit_reached_def then_do_None_iff Epic_Apply_iff epicTransition_def
      dest!: on_issues_result split: sum.splits if_splits)

lemma epicRole_states:
  "epicRole s = Some AgentRoleRefiner \<longleftrightarrow> s \<in> {EpicStateConcept, EpicStateChangesRequested, EpicStateRefine}"
  "epicRole s = Some AgentRoleIssueReviewer \<longleftrightarrow> s = EpicStateReview"
  "epicRole s = None \<or> epicRole s = Some AgentRoleRefiner \<or> epicRole s = Some AgentRoleIssueReviewer"
  by (auto simp: epicRole_def split: EpicState.split)

lemma hasPlannedWork_state: "hasPlannedWork (e\<lparr>e_State := s\<rparr>) = hasPlannedWork e"
  "hasPlannedWork (e\<lparr>e_State := s, e_DraftingPasses := n\<rparr>) = hasPlannedWork e"
  by (simp_all add: hasPlannedWork_def)

lemma drafting_step_spends:
  assumes "drafting_step e e'"
  shows "drafting_budget e' < drafting_budget e \<and>
    ((e_State e \<in> {EpicStateReview, EpicStateProposed} \<longrightarrow> hasPlannedWork e) \<longrightarrow>
     (e_State e' \<in> {EpicStateReview, EpicStateProposed} \<longrightarrow> hasPlannedWork e'))"
  using assms
proof cases
  case Refining
  then show ?thesis
    by (auto simp: epicRole_states Epic_Apply_iff epicTransition_def drafting_budget_def split: if_splits)
next
  case (Refined refined)
  then show ?thesis
    by (auto simp: refiner_completed_def Epic_Apply_iff epicTransition_def drafting_budget_def
      hasPlannedWork_state split: if_splits)
next
  case (Reviewed ulid now answer approved)
  then show ?thesis
    by (elim critique_completed_None)
      (auto simp: epicRole_states RecordDraftingPass_iff drafting_budget_def hasPlannedWork_state split: if_splits)
next
  case (Limited role ulid now limit)
  from round_limit_reached_None [OF Limited(2)] Limited(1) epicRole_states(3) [of "e_State e"] show ?thesis
    by (auto simp: epicRole_states drafting_budget_def)
qed

text \<open>C28. The automatic drafting of an epic ends: its completed rounds are at most three for each verdict
  left of the three it gets, and three more, then a person is needed. On the way no epic is put up for
  review or proposed without planned work in its tree.\<close>

theorem automatic_drafting_ends:
  assumes "(drafting_step ^^ n) e e'"
    and "e_State e \<in> {EpicStateReview, EpicStateProposed} \<longrightarrow> hasPlannedWork e"
  shows "n + drafting_budget e' \<le> drafting_budget e \<and>
    drafting_budget e \<le> 3 * nat (MaxDraftingPasses - e_DraftingPasses e) + 3 \<and>
    (e_State e' \<in> {EpicStateReview, EpicStateProposed} \<longrightarrow> hasPlannedWork e')"
proof -
  have "n + drafting_budget e' \<le> drafting_budget e \<and>
      (e_State e' \<in> {EpicStateReview, EpicStateProposed} \<longrightarrow> hasPlannedWork e')"
    using assms(1)
  proof (induction n arbitrary: e')
    case 0
    with assms(2) show ?case by simp
  next
    case (Suc n)
    then obtain d where d: "(drafting_step ^^ n) e d" "drafting_step d e'" by auto
    from Suc.IH [OF d(1)] drafting_step_spends [OF d(2)] show ?case by linarith
  qed
  then show ?thesis by (simp add: drafting_budget_def split: EpicState.split)
qed

definition draft_epic :: Epic where
  "draft_epic = uncut_epic\<lparr>e_State := EpicStateReview\<rparr>"

lemma automatic_drafting_ends_witness:
  "1 + drafting_budget (snd (critique_completed ''C1'' 5 ''fine'' True draft_epic)) \<le> drafting_budget draft_epic"
proof -
  have [simp]: "trim_space ''issue-reviewer'' = ''issue-reviewer''"
    by (intro trim_space_solid; simp add: byte_def is_space_def in_range_def)
  have "drafting_step draft_epic (snd (critique_completed ''C1'' 5 ''fine'' True draft_epic))"
    by (rule Reviewed [where ulid = "''C1''" and now = 5 and answer = "''fine''" and approved = True])
      (simp_all add: draft_epic_def uncut_epic_def example_epic_def example_issue_def epicRole_def
        critique_completed_def RootIssue_def find_by_def CreateComment_def Comment_Validate_def
        Comment_SetBody_def then_do_def on_issues_def Issue_AddComment_def RecordDraftingPass_def
        Epic_Apply_def epicTransition_def Let_def)
  moreover have "hasPlannedWork draft_epic"
    by (simp add: hasPlannedWork_def draft_epic_def uncut_epic_def example_epic_def example_issue_def)
  ultimately show ?thesis
    using automatic_drafting_ends [of 1 draft_epic] by (simp del: One_nat_def add: relpowp_1)
qed

end
