(* ===== verification/Issue_Tree.thy ===== *)
theory Issue_Tree
  imports File_Tree Epic_Rounds "HOL-Library.Multiset"
begin

text \<open>
  \<open>internal/adapters/filestore\<close>: the issue tree a sandbox edits. \<open>Write\<close> lays an epic out as a
  directory of Markdown files, one per issue, children in a folder named after their parent's file;
  \<open>Read\<close> imports what the refiner left there. The YAML library is a parameter. The walks recurse
  over what they find, without a bound, so they are partial functions: \<open>None\<close> is a walk that does
  not return. \<open>sort.Slice\<close> is not stable, so the two sorts of \<open>Epic.Sort\<close> are arguments; the sorts
  by issue ID have one result.
\<close>

section \<open>Documents\<close>

record issueDocument =
  d_Title :: string
  d_ID :: string
  d_BlockedBy :: "string list"

record yaml_codec =
  y_Marshal :: "issueDocument \<Rightarrow> go_error + string"
  y_Unmarshal :: "string \<Rightarrow> go_error + issueDocument"

definition validatePathComponent :: "string \<Rightarrow> string \<Rightarrow> go_error option" where
  "validatePathComponent label value' =
     (if value' = [] \<or> value' = ''.'' \<or> value' = ''..'' \<or> contains_any value' [slash, CHR 0x5C]
      then Some (Errorf ''%s %q is not a bare path component'' [GStr label, GStr value'])
      else None)"

definition validateIssueIDs :: "Issue list \<Rightarrow> go_error option" where
  "validateIssueIDs = first_error (\<lambda>issue. validatePathComponent ''issue ID'' (i_ID issue))"

definition treePath :: "path \<Rightarrow> string \<Rightarrow> string \<Rightarrow> go_error + path" where
  "treePath root sandboxName epicID =
     (case validatePathComponent ''sandbox name'' sandboxName of
        Some err \<Rightarrow> Inl err
      | None \<Rightarrow>
          (case validatePathComponent ''epic ID'' epicID of
             Some err \<Rightarrow> Inl err
           | None \<Rightarrow> Inr (path_join (path_join (path_join root epicID) ''trees'') sandboxName)))"

section \<open>Writing\<close>

text \<open>\<open>childrenByParent\<close>: the map as a function; a key without children is a nil slice.\<close>

definition childrenByParent :: "Issue list \<Rightarrow> string \<Rightarrow> Issue list" where
  "childrenByParent issues parent =
     sort_key i_ID (filter (\<lambda>issue. i_ParentID issue \<noteq> [] \<and> i_ParentID issue = parent) issues)"

text \<open>\<open>validateBranch\<close> over the children of one issue.\<close>

partial_function (option) validate_children ::
    "(string \<Rightarrow> Issue list) \<Rightarrow> Issue \<Rightarrow> Issue list \<Rightarrow> go_error option option" where
  "validate_children children issue todo =
     (case todo of
        [] \<Rightarrow> Some None
      | child # rest \<Rightarrow>
          if i_State child = IssueStateClosed then validate_children children issue rest
          else if i_Repository child \<noteq> i_Repository issue
          then Some (Some (Errorf ''issue %q has child %q in another repository'' [GStr (i_ID issue), GStr (i_ID child)]))
          else Option.bind (validate_children children child (children (i_ID child)))
            (\<lambda>r. case r of
               Some err \<Rightarrow> Some (Some err)
             | None \<Rightarrow> validate_children children issue rest))"

fun validate_branches :: "(string \<Rightarrow> Issue list) \<Rightarrow> Issue list \<Rightarrow> go_error option option" where
  "validate_branches children [] = Some None"
| "validate_branches children (issue # rest) =
     (if i_State issue = IssueStateClosed then validate_branches children rest
      else if i_Repository issue = []
      then Some (Some (Errorf ''issue %q has no repository'' [GStr (i_ID issue)]))
      else (case validate_children children issue (children (i_ID issue)) of
              None \<Rightarrow> None
            | Some (Some err) \<Rightarrow> Some (Some err)
            | Some None \<Rightarrow> validate_branches children rest))"

definition validateTreeStructure :: "Epic \<Rightarrow> (go_error + Issue \<times> (string \<Rightarrow> Issue list)) option" where
  "validateTreeStructure e =
     (case RootIssue e of
        Inl err \<Rightarrow> Some (Inl err)
      | Inr root \<Rightarrow>
          let children = childrenByParent (e_Issues e)
          in map_option (\<lambda>r. case r of Some err \<Rightarrow> Inl err | None \<Rightarrow> Inr (root, children))
               (validate_branches children (children (i_ID root))))"

partial_function (option) tree_paths_walk ::
    "(string \<Rightarrow> Issue list) \<Rightarrow> string \<Rightarrow> Issue list \<Rightarrow> (string \<rightharpoonup> string) \<Rightarrow> (string \<rightharpoonup> string) option" where
  "tree_paths_walk children parentDir todo paths =
     (case todo of
        [] \<Rightarrow> Some paths
      | issue # rest \<Rightarrow>
          if i_State issue = IssueStateClosed then tree_paths_walk children parentDir rest paths
          else
            let folder = (if parentDir = [] then Encode (i_Repository issue) else parentDir)
            in if folder = [] then tree_paths_walk children parentDir rest paths
               else Option.bind
                 (tree_paths_walk children (folder @ [slash] @ i_ID issue) (children (i_ID issue))
                    (paths(i_ID issue \<mapsto> folder @ [slash] @ i_ID issue @ ''.md'')))
                 (\<lambda>paths. tree_paths_walk children parentDir rest paths))"

definition treePaths :: "Issue \<Rightarrow> (string \<Rightarrow> Issue list) \<Rightarrow> (string \<rightharpoonup> string) option" where
  "treePaths root children = tree_paths_walk children [] (children (i_ID root)) Map.empty"

definition blockedByPaths :: "Issue \<Rightarrow> (string \<rightharpoonup> string) \<Rightarrow> string list" where
  "blockedByPaths issue paths = List.map_filter paths (i_BlockedBy issue)"

fun remove_entries :: "path \<Rightarrow> (string \<times> bool) list \<Rightarrow> file_system update" where
  "remove_entries p [] fs = (None, fs)"
| "remove_entries p (entry # entries) fs =
     then_do (RemoveAll (path_join p (fst entry))) (remove_entries p entries) fs"

definition clearDirectory :: "path \<Rightarrow> file_system update" where
  "clearDirectory p fs =
     (case ReadDir fs p of
        Inl err \<Rightarrow> (Some err, fs)
      | Inr entries \<Rightarrow> remove_entries p entries fs)"

definition issue_file :: "string \<Rightarrow> string \<Rightarrow> string" where
  "issue_file frontMatter body =
     ''---'' @ [CHR 0x0A] @ frontMatter @ ''---'' @ [CHR 0x0A, CHR 0x0A] @ trim_space body @ [CHR 0x0A]"

definition writeIssueFile ::
    "yaml_codec \<Rightarrow> path \<Rightarrow> string \<Rightarrow> Issue \<Rightarrow> string list \<Rightarrow> file_system update" where
  "writeIssueFile Y folder name issue blockedBy =
     then_do (MkdirAll folder) (\<lambda>fs.
       case y_Marshal Y \<lparr>d_Title = i_Title issue, d_ID = i_ID issue, d_BlockedBy = blockedBy\<rparr> of
         Inl err \<Rightarrow> (Some err, fs)
       | Inr frontMatter \<Rightarrow> WriteFile (path_join folder name) (issue_file frontMatter (i_Body issue)) fs)"

definition comments_file :: "Comment list \<Rightarrow> string" where
  "comments_file comments = concat (map (\<lambda>comment.
     ''## '' @ c_Author comment @ [CHR 0x0A, CHR 0x0A] @ trim_space (c_Body comment) @ [CHR 0x0A, CHR 0x0A]) comments)"

definition writeIssueComments :: "path \<Rightarrow> string \<Rightarrow> Comment list \<Rightarrow> file_system update" where
  "writeIssueComments folder name comments fs =
     (if comments = [] then (None, fs) else WriteFile (path_join folder name) (comments_file comments) fs)"

text \<open>
  \<open>writeBranch\<close> over a list of siblings; \<open>parent\<close> is the issue they hang under, absent at the top,
  where \<open>parentDir\<close> is empty and the repositories may differ.
\<close>

partial_function (option) write_branches ::
    "yaml_codec \<Rightarrow> (string \<Rightarrow> Issue list) \<Rightarrow> (string \<rightharpoonup> string) \<Rightarrow> path \<Rightarrow> Issue option \<Rightarrow> string \<Rightarrow>
       Issue list \<Rightarrow> file_system \<Rightarrow> (go_error option \<times> file_system) option" where
  "write_branches Y children paths root parent parentDir todo fs =
     (case todo of
        [] \<Rightarrow> Some (None, fs)
      | issue # rest \<Rightarrow>
          if i_State issue = IssueStateClosed
          then write_branches Y children paths root parent parentDir rest fs
          else if parent \<noteq> None \<and> i_Repository issue \<noteq> i_Repository (the parent)
          then Some (Some (Errorf ''issue %q has child %q in another repository''
                 [GStr (i_ID (the parent)), GStr (i_ID issue)]), fs)
          else
            let folder = (if parentDir = [] then Encode (i_Repository issue) else parentDir)
            in if folder = [] then Some (Some (Errorf ''issue %q has no repository'' [GStr (i_ID issue)]), fs)
               else
                 (case then_do
                     (writeIssueFile Y (path_join root folder) (i_ID issue @ ''.md'') issue (blockedByPaths issue paths))
                     (writeIssueComments (path_join root folder) (i_ID issue @ ''-comments.md'') (i_Comments issue)) fs of
                    (Some err, fs) \<Rightarrow> Some (Some err, fs)
                  | (None, fs) \<Rightarrow>
                      Option.bind
                        (write_branches Y children paths root (Some issue) (filepath_Join [folder, i_ID issue])
                           (children (i_ID issue)) fs)
                        (\<lambda>result. case result of
                           (Some err, fs) \<Rightarrow> Some (Some err, fs)
                         | (None, fs) \<Rightarrow> write_branches Y children paths root parent parentDir rest fs)))"

definition Tree_Write ::
    "yaml_codec \<Rightarrow> path \<Rightarrow> string \<Rightarrow> Epic \<Rightarrow> file_system \<Rightarrow> ((go_error + path) \<times> file_system) option" where
  "Tree_Write Y storeRoot sandboxName e fs =
     (case treePath storeRoot sandboxName (e_ID e) of
        Inl err \<Rightarrow> Some (Inl err, fs)
      | Inr p \<Rightarrow>
          (case validateIssueIDs (e_Issues e) of
             Some err \<Rightarrow> Some (Inl err, fs)
           | None \<Rightarrow>
               Option.bind (validateTreeStructure e) (\<lambda>structure.
                 case structure of
                   Inl err \<Rightarrow> Some (Inl err, fs)
                 | Inr (root, children) \<Rightarrow>
                     (case then_do (MkdirAll p) (then_do (clearDirectory p)
                         (then_do (writeIssueFile Y p ''root.md'' root [])
                           (writeIssueComments p ''root-comments.md'' (i_Comments root)))) fs of
                        (Some err, fs) \<Rightarrow> Some (Inl err, fs)
                      | (None, fs) \<Rightarrow>
                          Option.bind (treePaths root children) (\<lambda>paths.
                            map_option (\<lambda>(r, fs). (case r of Some err \<Rightarrow> Inl err | None \<Rightarrow> Inr p, fs))
                              (write_branches Y children paths p None [] (children (i_ID root)) fs))))))"

section \<open>Reading a file\<close>

definition plannedSections :: "string list" where
  "plannedSections = [''# Summary'', ''# Problem'', ''# Context'', ''# Proposal'']"

fun sections_met :: "nat \<Rightarrow> string list \<Rightarrow> nat" where
  "sections_met wanted [] = wanted"
| "sections_met wanted (line # lines) =
     (if wanted = length plannedSections then wanted
      else if trim_space line = plannedSections ! wanted then sections_met (Suc wanted) lines
      else sections_met wanted lines)"

definition validateSections :: "path \<Rightarrow> string \<Rightarrow> go_error option" where
  "validateSections p body =
     (let wanted = sections_met 0 (split_on (CHR 0x0A) body)
      in if wanted = length plannedSections then None
         else Some (Errorf ''%s is missing the %q section: an issue body must carry %s, in that order''
                [GStr (path_text p), GStr (plannedSections ! wanted), GStr (join_with '', '' plannedSections)]))"

text \<open>The front matter line that \<open>strings.SplitN(contents, sep, 3)\<close> splits at.\<close>

definition fence :: string where
  "fence = ''---'' @ [CHR 0x0A]"

definition readIssueFile :: "yaml_codec \<Rightarrow> file_system \<Rightarrow> path \<Rightarrow> go_error + Issue" where
  "readIssueFile Y fs p =
     (case ReadFile fs p of
        Inl err \<Rightarrow> Inl err
      | Inr contents \<Rightarrow>
          (case Option.bind (cut contents fence) (\<lambda>(first, rest).
                map_option (\<lambda>(frontMatter, body). (first, frontMatter, body)) (cut rest fence)) of
             None \<Rightarrow> Inl (Errorf ''%s must start with YAML front matter'' [GStr (path_text p)])
           | Some (first, frontMatter, body) \<Rightarrow>
               if first \<noteq> [] then Inl (Errorf ''%s must start with YAML front matter'' [GStr (path_text p)])
               else (case y_Unmarshal Y frontMatter of
                       Inl err \<Rightarrow> Inl err
                     | Inr document \<Rightarrow>
                         let issue = zero_Issue\<lparr>i_ID := d_ID document, i_Title := trim_space (d_Title document),
                               i_BlockedBy := d_BlockedBy document, i_Body := trim_space body\<rparr>
                         in if i_Title issue = [] \<or> i_Body issue = []
                            then Inl (Errorf ''%s requires title and body'' [GStr (path_text p)])
                            else Inr issue)))"

definition readPlannedIssue :: "yaml_codec \<Rightarrow> file_system \<Rightarrow> path \<Rightarrow> go_error + Issue" where
  "readPlannedIssue Y fs p =
     (case readIssueFile Y fs p of
        Inl err \<Rightarrow> Inl err
      | Inr issue \<Rightarrow>
          (case validateSections p (i_Body issue) of Some err \<Rightarrow> Inl err | None \<Rightarrow> Inr issue))"

section \<open>Reading the tree\<close>

text \<open>
  \<open>issueTreeReader\<close>: what the walk has collected. \<open>ulids\<close> is the sequence \<open>domain.MintULID\<close>
  hands out and \<open>rd_minted\<close> how many of it are used.
\<close>

record issueTreeReader =
  rd_issues :: "Issue list"
  rd_seen :: "string list"
  rd_idByPath :: "string \<rightharpoonup> string"
  rd_minted :: nat

definition oldByID :: "Epic \<Rightarrow> string \<rightharpoonup> Issue" where
  "oldByID previous = map_of (rev (map (\<lambda>issue. (i_ID issue, issue)) (e_Issues previous)))"

text \<open>The body of \<open>readDirectory\<close> for one issue file, up to the walk into its folder.\<close>

definition read_entry ::
    "yaml_codec \<Rightarrow> (nat \<Rightarrow> string) \<Rightarrow> file_system \<Rightarrow> path \<Rightarrow> Epic \<Rightarrow> path \<Rightarrow> string \<Rightarrow> string \<Rightarrow>
       issueTreeReader \<Rightarrow> go_error + string \<times> issueTreeReader" where
  "read_entry Y ulids fs treeRoot previous file parentID repository r =
     (case readPlannedIssue Y fs file of
        Inl err \<Rightarrow> Inl err
      | Inr issue \<Rightarrow>
          let issue = issue\<lparr>i_ParentID := parentID, i_Repository := repository\<rparr>;
              (issue, minted) = (case oldByID previous (i_ID issue) of
                 Some old \<Rightarrow> (issue\<lparr>i_CreatedAt := i_CreatedAt old, i_Comments := i_Comments old,
                                  i_State := i_State old\<rparr>, rd_minted r)
               | None \<Rightarrow> (issue\<lparr>i_ID := ulids (rd_minted r), i_CreatedAt := i_CreatedAt (hd (e_Issues previous)),
                              i_State := IssueStateOpen\<rparr>, Suc (rd_minted r)))
          in if i_ID issue \<in> set (rd_seen r)
             then Inl (Errorf ''issue tree repeats ID %q'' [GStr (i_ID issue)])
             else Inr (i_ID issue, \<lparr>rd_issues = rd_issues r @ [issue], rd_seen = rd_seen r @ [i_ID issue],
                    rd_idByPath = (rd_idByPath r)(path_rel treeRoot file \<mapsto> i_ID issue), rd_minted = minted\<rparr>))"

definition is_issue_entry :: "string \<times> bool \<Rightarrow> bool" where
  "is_issue_entry entry \<longleftrightarrow>
     \<not> snd entry \<and> filepath_Ext (fst entry) = ''.md'' \<and> \<not> suffix ''-comments.md'' (fst entry)"

text \<open>
  \<open>readDirectory\<close> over the entries of one directory. An error of the inner walk that is a missing
  file is passed over, with what the walk collected.
\<close>

partial_function (option) read_entries ::
    "yaml_codec \<Rightarrow> (nat \<Rightarrow> string) \<Rightarrow> file_system \<Rightarrow> path \<Rightarrow> Epic \<Rightarrow> path \<Rightarrow> string \<Rightarrow> string \<Rightarrow>
       (string \<times> bool) list \<Rightarrow> issueTreeReader \<Rightarrow> (go_error option \<times> issueTreeReader) option" where
  "read_entries Y ulids fs treeRoot previous directory parentID repository entries r =
     (case entries of
        [] \<Rightarrow> Some (None, r)
      | entry # entries \<Rightarrow>
          if \<not> is_issue_entry entry
          then read_entries Y ulids fs treeRoot previous directory parentID repository entries r
          else
            (case read_entry Y ulids fs treeRoot previous (path_join directory (fst entry)) parentID repository r of
               Inl err \<Rightarrow> Some (Some err, r)
             | Inr (id', r) \<Rightarrow>
                 let folder = path_join directory (trim_suffix (fst entry) ''.md'')
                 in Option.bind
                      (case ReadDir fs folder of
                         Inl err \<Rightarrow> Some (Some err, r)
                       | Inr children \<Rightarrow> read_entries Y ulids fs treeRoot previous folder id' repository children r)
                      (\<lambda>(err, r).
                         if err \<noteq> None \<and> \<not> os_IsNotExist (the err) then Some (err, r)
                         else read_entries Y ulids fs treeRoot previous directory parentID repository entries r)))"

definition readDirectory ::
    "yaml_codec \<Rightarrow> (nat \<Rightarrow> string) \<Rightarrow> file_system \<Rightarrow> path \<Rightarrow> Epic \<Rightarrow> path \<Rightarrow> string \<Rightarrow> string \<Rightarrow>
       issueTreeReader \<Rightarrow> (go_error option \<times> issueTreeReader) option" where
  "readDirectory Y ulids fs treeRoot previous directory parentID repository r =
     (case ReadDir fs directory of
        Inl err \<Rightarrow> Some (Some err, r)
      | Inr entries \<Rightarrow> read_entries Y ulids fs treeRoot previous directory parentID repository entries r)"

fun read_repositories ::
    "yaml_codec \<Rightarrow> (nat \<Rightarrow> string) \<Rightarrow> file_system \<Rightarrow> path \<Rightarrow> Epic \<Rightarrow> string \<Rightarrow>
       (string \<times> bool) list \<Rightarrow> issueTreeReader \<Rightarrow> (go_error option \<times> issueTreeReader) option" where
  "read_repositories Y ulids fs treeRoot previous parentID [] r = Some (None, r)"
| "read_repositories Y ulids fs treeRoot previous parentID ((name, directory) # entries) r =
     (if \<not> directory then read_repositories Y ulids fs treeRoot previous parentID entries r
      else (case Decode name of
        Inl err \<Rightarrow> Some (Some (Wrapf ''issue tree has invalid repository directory %q: %w'' [GStr name] [err]), r)
      | Inr repository \<Rightarrow>
          if repository \<notin> set (e_Repositories previous)
          then Some (Some (Errorf ''issue tree names unscoped repository %q'' [GStr repository]), r)
          else Option.bind
            (readDirectory Y ulids fs treeRoot previous (path_join treeRoot name) parentID repository r)
            (\<lambda>(err, r). case err of
               Some err \<Rightarrow> Some (Some err, r)
             | None \<Rightarrow> read_repositories Y ulids fs treeRoot previous parentID entries r)))"

definition readRepositories ::
    "yaml_codec \<Rightarrow> (nat \<Rightarrow> string) \<Rightarrow> file_system \<Rightarrow> path \<Rightarrow> Epic \<Rightarrow> string \<Rightarrow>
       issueTreeReader \<Rightarrow> (go_error option \<times> issueTreeReader) option" where
  "readRepositories Y ulids fs treeRoot previous parentID r =
     (case ReadDir fs treeRoot of
        Inl err \<Rightarrow> Some (Some err, r)
      | Inr entries \<Rightarrow> read_repositories Y ulids fs treeRoot previous parentID entries r)"

section \<open>Importing what was read\<close>

definition normalizeReference :: "string \<Rightarrow> string" where
  "normalizeReference reference =
     trim_prefix (trim_prefix (trim_prefix (trim_space reference) ''/work/issues/'') ''./'') ''/''"

fun resolve_references :: "(string \<rightharpoonup> string) \<Rightarrow> string \<Rightarrow> string list \<Rightarrow> go_error + string list" where
  "resolve_references idByPath title [] = Inr []"
| "resolve_references idByPath title (reference # references) =
     (case idByPath (normalizeReference reference) of
        None \<Rightarrow> Inl (Errorf ''issue %q is blocked by %q, which is not a file in the tree'' [GStr title, GStr reference])
      | Some id' \<Rightarrow> map_sum id (Cons id') (resolve_references idByPath title references))"

fun resolveBlockedBy :: "(string \<rightharpoonup> string) \<Rightarrow> Issue list \<Rightarrow> go_error + Issue list" where
  "resolveBlockedBy idByPath [] = Inr []"
| "resolveBlockedBy idByPath (issue # issues) =
     (case resolve_references idByPath (i_Title issue) (i_BlockedBy issue) of
        Inl err \<Rightarrow> Inl err
      | Inr resolved \<Rightarrow>
          map_sum id (Cons (issue\<lparr>i_BlockedBy := resolved\<rparr>)) (resolveBlockedBy idByPath issues))"

text \<open>The issues the refiner left out are closed, each with everything below it.\<close>

fun close_omitted :: "string list \<Rightarrow> Issue list \<Rightarrow> Epic call" where
  "close_omitted seen [] updated = Some (None, updated)"
| "close_omitted seen (old # olds) updated =
     (if i_ParentID old = [] \<or> i_State old = IssueStateClosed \<or> i_ID old \<in> set seen
      then close_omitted seen olds updated
      else (case CloseIssue (i_ID old) updated of
              None \<Rightarrow> None
            | Some (Some err, updated) \<Rightarrow>
                Some (Some (Wrapf ''close omitted issue %q: %w'' [GStr (i_ID old)] [err]), updated)
            | Some (None, updated) \<Rightarrow> close_omitted seen olds updated))"

text \<open>The two loops that take over what was read, and \<open>Epic.Sort\<close>.\<close>

definition adopt_issues :: "Issue list \<Rightarrow> Epic \<Rightarrow> Epic" where
  "adopt_issues issues updated =
     (let stagedByID = map_of (rev (map (\<lambda>issue. (i_ID issue, issue)) issues));
          known = map i_ID (e_Issues updated)
      in updated\<lparr>e_Issues :=
           map (\<lambda>issue. case stagedByID (i_ID issue) of Some staged \<Rightarrow> staged | None \<Rightarrow> issue) (e_Issues updated) @
           filter (\<lambda>issue. i_ID issue \<notin> set known) issues\<rparr>)"

record epic_sorts =
  sort_issues :: "Issue list \<Rightarrow> Issue list"
  sort_pull_requests :: "PullRequest list \<Rightarrow> PullRequest list"

definition Epic_Sort :: "epic_sorts \<Rightarrow> Epic \<Rightarrow> Epic" where
  "Epic_Sort S e = e\<lparr>e_Issues := sort_issues S (e_Issues e), e_PullRequests := sort_pull_requests S (e_PullRequests e)\<rparr>"

text \<open>What \<open>sort.Slice\<close> promises: a permutation in order of creation.\<close>

definition lawful_sorts :: "epic_sorts \<Rightarrow> bool" where
  "lawful_sorts S \<longleftrightarrow>
     (\<forall>issues. mset (sort_issues S issues) = mset issues \<and> sorted (map i_CreatedAt (sort_issues S issues))) \<and>
     (\<forall>prs. mset (sort_pull_requests S prs) = mset prs \<and> sorted (map p_CreatedAt (sort_pull_requests S prs)))"

text \<open>The end of \<open>Read\<close>, from the resolved issues on.\<close>

definition import_tree :: "epic_sorts \<Rightarrow> Epic \<Rightarrow> Issue \<Rightarrow> string list \<Rightarrow> Issue list \<Rightarrow> (go_error + Epic) option" where
  "import_tree S previous root seen issues =
     Option.bind (close_omitted seen (e_Issues previous) previous) (\<lambda>(err, updated).
       case err of
         Some err \<Rightarrow> Some (Inl err)
       | None \<Rightarrow>
           let updated = Epic_Sort S (adopt_issues (sort_key i_ID issues) updated)
           in case then_do (Epic_SetTitle (i_Title root)) (Epic_SetBody (i_Body root)) updated of
                (Some err, _) \<Rightarrow> Some (Inl err)
              | (None, updated) \<Rightarrow>
                  map_option (\<lambda>r. case r of
                      Some err \<Rightarrow> Inl (Wrapf ''validate refined tree: %w'' [] [err])
                    | None \<Rightarrow> Inr updated) (Validate updated))"

text \<open>\<open>root.md\<close>, anchored on the root issue of the epic.\<close>

definition anchored :: "Issue \<Rightarrow> Issue \<Rightarrow> Issue" where
  "anchored root previousRoot =
     root\<lparr>i_ID := i_ID previousRoot, i_ParentID := [], i_State := i_State previousRoot,
       i_CreatedAt := i_CreatedAt previousRoot, i_Comments := i_Comments previousRoot, i_BlockedBy := []\<rparr>"

definition Tree_Read ::
    "yaml_codec \<Rightarrow> (nat \<Rightarrow> string) \<Rightarrow> epic_sorts \<Rightarrow> file_system \<Rightarrow> path \<Rightarrow> Epic \<Rightarrow> (go_error + Epic) option" where
  "Tree_Read Y ulids S fs p previous =
     (case readIssueFile Y fs (path_join p ''root.md'') of
        Inl err \<Rightarrow> Some (Inl err)
      | Inr root \<Rightarrow>
          (case RootIssue previous of
             Inl err \<Rightarrow> Some (Inl err)
           | Inr previousRoot \<Rightarrow>
               let root = anchored root previousRoot
               in Option.bind
                    (readRepositories Y ulids fs p previous (i_ID root)
                       \<lparr>rd_issues = [root], rd_seen = [i_ID root], rd_idByPath = Map.empty, rd_minted = 0\<rparr>)
                    (\<lambda>(err, reader). case err of
                       Some err \<Rightarrow> Some (Inl err)
                     | None \<Rightarrow>
                         (case resolveBlockedBy (rd_idByPath reader) (rd_issues reader) of
                            Inl err \<Rightarrow> Some (Inl err)
                          | Inr issues \<Rightarrow> import_tree S previous root (rd_seen reader) issues))))"

end
