(* ===== verification/Tree_Import.thy ===== *)
theory Tree_Import
  imports Issue_Tree
begin

text \<open>
  What \<open>Read\<close> of the issue tree may do to an epic: the record a round cannot touch, and the walk
  that does not return.
\<close>

section \<open>Induction over the walk\<close>

text \<open>A property every issue file keeps holds of the reader whatever the walk meets.\<close>

lemma read_entries_keeps:
  assumes step: "\<And>file parentID repository r id' r'. I r \<Longrightarrow>
      read_entry Y ulids fs treeRoot previous file parentID repository r = Inr (id', r') \<Longrightarrow> I r'"
    and run: "read_entries Y ulids fs treeRoot previous directory parentID repository entries r = Some out"
    and start: "I r"
  shows "I (snd out)"
proof -
  let ?P = "\<lambda>Y' ulids' fs' treeRoot' previous' directory parentID repository entries r out.
    Y' = Y \<and> ulids' = ulids \<and> fs' = fs \<and> treeRoot' = treeRoot \<and> previous' = previous \<and> I r \<longrightarrow> I (snd out)"
  have "?P Y ulids fs treeRoot previous directory parentID repository entries r out"
  proof (rule read_entries.raw_induct [of ?P, OF _ run], goal_cases)
    case (1 walk Y' ulids' fs' treeRoot' previous' directory parentID repository entries r out)
    show ?case
    proof (intro impI, elim conjE)
      assume same: "Y' = Y" "ulids' = ulids" "fs' = fs" "treeRoot' = treeRoot" "previous' = previous" and r: "I r"
      have rec: "I r \<Longrightarrow> walk Y ulids fs treeRoot previous d p q es r = Some out \<Longrightarrow> I (snd out)" for d p q es r out
        using 1(1) by blast
      show "I (snd out)"
        using 1(2) r unfolding same
        by (auto split: list.splits if_splits sum.splits prod.splits simp: Let_def bind_eq_Some_conv)
          (metis step rec snd_conv)+
    qed
  qed
  with start show ?thesis by simp
qed

section \<open>The record of an issue\<close>

text \<open>
  What the walk takes in is an issue of the epic with its creation time, comments and state, or a new
  one that is open and has no comments.
\<close>

definition kept_or_new :: "Epic \<Rightarrow> Issue \<Rightarrow> bool" where
  "kept_or_new previous i \<longleftrightarrow>
     (\<exists>old \<in> set (e_Issues previous). i_ID old = i_ID i \<and> i_CreatedAt i = i_CreatedAt old \<and>
        i_Comments i = i_Comments old \<and> i_State i = i_State old) \<or>
     i_ID i \<notin> issue_ids previous \<and> i_State i = IssueStateOpen \<and> i_Comments i = []"

definition reader_ok :: "Epic \<Rightarrow> string \<Rightarrow> issueTreeReader \<Rightarrow> bool" where
  "reader_ok previous rootID r \<longleftrightarrow>
     rd_seen r = map i_ID (rd_issues r) \<and> distinct (rd_seen r) \<and> rootID \<in> set (rd_seen r) \<and>
     (\<forall>i \<in> set (rd_issues r). kept_or_new previous i)"

lemma oldByID_Some: "oldByID previous x = Some old \<Longrightarrow> old \<in> set (e_Issues previous) \<and> i_ID old = x"
  by (auto simp: oldByID_def dest!: map_of_SomeD)

lemma oldByID_None: "oldByID previous x = None \<longleftrightarrow> x \<notin> issue_ids previous"
  by (force simp: oldByID_def map_of_eq_None_iff issue_ids_def)

lemma read_entry_ok:
  assumes fresh: "\<And>k. ulids k \<notin> issue_ids previous" and r: "reader_ok previous rootID r"
    and e: "read_entry Y ulids fs treeRoot previous file parentID repository r = Inr (id', r')"
  shows "reader_ok previous rootID r'"
proof -
  have blank: "readPlannedIssue Y fs file = Inr i \<Longrightarrow> i_Comments i = []" for i
    by (auto simp: readPlannedIssue_def readIssueFile_def Let_def zero_Issue_def
      split: sum.splits option.splits if_splits prod.splits)
  obtain issue where p: "readPlannedIssue Y fs file = Inr issue"
    using e by (auto simp: read_entry_def split: sum.splits)
  define new where "new = (case oldByID previous (i_ID issue) of
      Some old \<Rightarrow> issue\<lparr>i_ParentID := parentID, i_Repository := repository, i_CreatedAt := i_CreatedAt old,
        i_Comments := i_Comments old, i_State := i_State old\<rparr>
    | None \<Rightarrow> issue\<lparr>i_ParentID := parentID, i_Repository := repository, i_ID := ulids (rd_minted r),
        i_CreatedAt := i_CreatedAt (hd (e_Issues previous)), i_State := IssueStateOpen\<rparr>)"
  have new: "kept_or_new previous new"
  proof (cases "oldByID previous (i_ID issue)")
    case None
    then show ?thesis using fresh blank [OF p] by (simp add: new_def kept_or_new_def)
  next
    case (Some old)
    with oldByID_Some [OF Some] show ?thesis
      unfolding kept_or_new_def by (intro disjI1 bexI [of _ old]) (simp_all add: new_def)
  qed
  have "rd_issues r' = rd_issues r @ [new] \<and> rd_seen r' = rd_seen r @ [i_ID new] \<and> i_ID new \<notin> set (rd_seen r)"
    using e p by (auto simp: read_entry_def new_def Let_def split: option.splits if_splits)
  with r new show ?thesis by (auto simp: reader_ok_def)
qed

lemma readRepositories_ok:
  assumes fresh: "\<And>k. ulids k \<notin> issue_ids previous" and r: "reader_ok previous rootID r"
    and run: "readRepositories Y ulids fs treeRoot previous parentID r = Some (err, r')"
  shows "reader_ok previous rootID r'"
proof -
  have directory: "reader_ok previous rootID r'"
    if "readDirectory Y ulids fs treeRoot previous d p repository r = Some (err, r')" "reader_ok previous rootID r"
    for d p repository r err r'
  proof (cases "ReadDir fs d")
    case (Inl e)
    with that show ?thesis by (simp add: readDirectory_def)
  next
    case (Inr entries)
    with that(1) have "read_entries Y ulids fs treeRoot previous d p repository entries r = Some (err, r')"
      by (simp add: readDirectory_def)
    from read_entries_keeps [where I = "reader_ok previous rootID", OF read_entry_ok [OF fresh] this that(2)]
    show ?thesis by simp
  qed
  have "reader_ok previous rootID r'"
    if "read_repositories Y ulids fs treeRoot previous parentID entries r = Some (err, r')" "reader_ok previous rootID r"
    for entries r err r'
    using that
  proof (induction entries arbitrary: r)
    case (Cons entry entries)
    obtain name dir where [simp]: "entry = (name, dir)" by force
    show ?case
    proof (cases dir)
      case False
      with Cons show ?thesis by simp
    next
      case True
      from Cons.prems(1) consider (stop) "r' = r"
        | (error) repository e where "readDirectory Y ulids fs treeRoot previous (path_join treeRoot name) parentID repository r = Some (e, r')"
        | (next') repository r1 where
            "readDirectory Y ulids fs treeRoot previous (path_join treeRoot name) parentID repository r = Some (None, r1)"
            "read_repositories Y ulids fs treeRoot previous parentID entries r1 = Some (err, r')"
        using True by (auto simp: bind_eq_Some_conv split: sum.splits if_splits option.splits) (metis option.exhaust)
      then show ?thesis
        by cases (use Cons.prems(2) in \<open>auto intro: directory Cons.IH\<close>)
    qed
  qed simp
  with run r show ?thesis by (auto simp: readRepositories_def split: sum.splits)
qed

lemma resolveBlockedBy_same:
  "resolveBlockedBy idByPath issues = Inr issues' \<Longrightarrow>
     list_all2 (\<lambda>i i'. \<exists>blockers. i' = i\<lparr>i_BlockedBy := blockers\<rparr>) issues issues'"
proof (induction issues arbitrary: issues')
  case (Cons issue issues)
  then show ?case
    by (auto split: sum.splits simp: list_all2_Cons1) (case_tac "resolveBlockedBy idByPath issues"; auto)+
qed simp

section \<open>Closing what was left out\<close>

definition omitted :: "string list \<Rightarrow> Issue list \<Rightarrow> Epic \<Rightarrow> string set" where
  "omitted seen olds e = (\<Union>old \<in> {old \<in> set olds.
     i_ParentID old \<noteq> [] \<and> i_State old \<noteq> IssueStateClosed \<and> i_ID old \<notin> set seen}. subtree e (i_ID old))"

lemma omitted_filter: "omitted seen olds e = (\<Union>old \<in> set (filter (\<lambda>old.
    i_ParentID old \<noteq> [] \<and> i_State old \<noteq> IssueStateClosed \<and> i_ID old \<notin> set seen) olds). subtree e (i_ID old))"
  by (simp add: omitted_def)

lemma subtree_close_set [simp]: "subtree (close_set T e) x = subtree e x"
proof -
  have "child_of (close_set T e) = child_of e"
    by (auto simp: child_of_def image_iff) (metis close_issue_simps(1,2))+
  then show ?thesis by (simp add: subtree_def)
qed

lemma close_omitted_eq:
  assumes wf: "well_formed e"
  shows "set olds \<subseteq> set (e_Issues e) \<Longrightarrow>
    close_omitted seen olds (close_set T e) = Some (None, close_set (T \<union> omitted seen olds e) e)"
proof (induction olds arbitrary: T)
  case Nil
  then show ?case by (simp add: omitted_def)
next
  case (Cons old olds)
  show ?case
  proof (cases "i_ParentID old = [] \<or> i_State old = IssueStateClosed \<or> i_ID old \<in> set seen")
    case True
    then have "omitted seen (old # olds) e = omitted seen olds e" by (auto simp: omitted_def)
    with Cons True show ?thesis by auto
  next
    case False
    then have o: "omitted seen (old # olds) e = subtree e (i_ID old) \<union> omitted seen olds e"
      by (auto simp: omitted_def)
    have "i_ID old \<in> issue_ids (close_set T e)"
      using Cons.prems by (auto simp: issue_ids_def image_iff intro!: bexI [of _ old])
    then have "CloseIssue (i_ID old) (close_set T e) = Some (None, close_set (subtree e (i_ID old) \<union> T) e)"
      by (simp add: CloseIssue_eq [OF close_set_well_formed [OF wf]] close_set_union)
    with False Cons o show ?thesis by (simp add: Un_ac)
  qed
qed

lemma close_issue_kept:
  "i_CreatedAt (close_issue_in S i) = i_CreatedAt i" "i_Comments (close_issue_in S i) = i_Comments i"
  "i_State (close_issue_in S i) = i_State i \<or>
     i_State (close_issue_in S i) = IssueStateClosed \<and> \<not> settled i"
  by (auto simp: close_issue_in_def settled_def)

section \<open>The result\<close>

lemma import_tree_Inr:
  assumes wf: "well_formed previous" and S: "lawful_sorts S"
    and run: "import_tree S previous root seen issues = Some (Inr e')"
  obtains T where "T = omitted seen (e_Issues previous) previous" "well_formed e'"
    "e' = e'\<lparr>e_Issues := e_Issues e'\<rparr>"
    "mset (e_Issues e') = mset (e_Issues (adopt_issues (sort_key i_ID issues) (close_set T previous)))"
    "mset (e_PullRequests e') = mset (e_PullRequests (close_set T previous))"
    "e_ID e' = e_ID previous" "e_State e' = e_State previous" "e_DraftingPasses e' = e_DraftingPasses previous"
    "e_Repositories e' = e_Repositories previous" "e_Assignee e' = e_Assignee previous"
    "e_BranchPrefix e' = e_BranchPrefix previous"
    "e_Title e' = trim_space (i_Title root)" "e_Body e' = i_Body root"
proof
  let ?T = "omitted seen (e_Issues previous) previous"
  have c: "close_omitted seen (e_Issues previous) previous = Some (None, close_set ?T previous)"
    using close_omitted_eq [OF wf, of "e_Issues previous" seen "{}"] by simp
  let ?u = "Epic_Sort S (adopt_issues (sort_key i_ID issues) (close_set ?T previous))"
  have m: "(case then_do (Epic_SetTitle (i_Title root)) (Epic_SetBody (i_Body root)) ?u of
      (Some err, _) \<Rightarrow> Some (Inl err)
    | (None, updated) \<Rightarrow> map_option (\<lambda>r. case r of
          Some err \<Rightarrow> Inl (Wrapf ''validate refined tree: %w'' [] [err]) | None \<Rightarrow> Inr updated) (Validate updated)) =
      Some (Inr e')"
    using run c by (simp add: import_tree_def Let_def)
  obtain r u where tu: "then_do (Epic_SetTitle (i_Title root)) (Epic_SetBody (i_Body root)) ?u = (r, u)"
    by force
  with m have u: "then_do (Epic_SetTitle (i_Title root)) (Epic_SetBody (i_Body root)) ?u = (None, u)"
    and v: "Validate u = Some None" "e' = u"
    by (auto split: option.splits)
  have e': "e' = ?u\<lparr>e_Title := trim_space (i_Title root), e_Body := i_Body root\<rparr>"
    using u v(2) by (auto simp: then_do_def Epic_SetTitle_def Epic_SetBody_def Let_def split: if_splits)
  show "well_formed e'" using v Validate_iff by simp
  show "mset (e_Issues e') = mset (e_Issues (adopt_issues (sort_key i_ID issues) (close_set ?T previous)))"
    "mset (e_PullRequests e') = mset (e_PullRequests (close_set ?T previous))"
    using S unfolding e' Epic_Sort_def lawful_sorts_def by (simp_all add: adopt_issues_def Let_def)
  show "e_ID e' = e_ID previous" "e_State e' = e_State previous" "e_DraftingPasses e' = e_DraftingPasses previous"
    "e_Repositories e' = e_Repositories previous" "e_Assignee e' = e_Assignee previous"
    "e_BranchPrefix e' = e_BranchPrefix previous" "e_Title e' = trim_space (i_Title root)" "e_Body e' = i_Body root"
    unfolding e' by (simp_all add: Epic_Sort_def adopt_issues_def Let_def close_set_def)
qed simp_all

lemma Tree_Read_Inr:
  assumes run: "Tree_Read Y ulids S fs p previous = Some (Inr e')"
    and fresh: "\<And>k. ulids k \<notin> issue_ids previous"
  obtains root previousRoot reader issues where
    "RootIssue previous = Inr previousRoot" "readIssueFile Y fs (path_join p ''root.md'') = Inr root"
    "reader_ok previous (i_ID previousRoot) reader"
    "resolveBlockedBy (rd_idByPath reader) (rd_issues reader) = Inr issues"
    "import_tree S previous (anchored root previousRoot) (rd_seen reader) issues = Some (Inr e')"
proof -
  obtain root where f: "readIssueFile Y fs (path_join p ''root.md'') = Inr root"
    using run by (auto simp: Tree_Read_def split: sum.splits)
  obtain previousRoot where r: "RootIssue previous = Inr previousRoot"
    using run f by (auto simp: Tree_Read_def split: sum.splits)
  let ?start = "\<lparr>rd_issues = [anchored root previousRoot], rd_seen = [i_ID (anchored root previousRoot)],
    rd_idByPath = Map.empty, rd_minted = 0\<rparr>"
  obtain err reader where w: "readRepositories Y ulids fs p previous (i_ID (anchored root previousRoot)) ?start =
      Some (err, reader)"
    and rest: "(case err of Some err \<Rightarrow> Some (Inl err) | None \<Rightarrow>
      (case resolveBlockedBy (rd_idByPath reader) (rd_issues reader) of
         Inl err \<Rightarrow> Some (Inl err)
       | Inr issues \<Rightarrow> import_tree S previous (anchored root previousRoot) (rd_seen reader) issues)) = Some (Inr e')"
    using run f r by (auto simp: Tree_Read_def bind_eq_Some_conv Let_def)
  from RootIssue_Inr [OF r] have "reader_ok previous (i_ID previousRoot) ?start"
    by (auto simp: reader_ok_def kept_or_new_def anchored_def)
  from readRepositories_ok [OF fresh this w] have ok: "reader_ok previous (i_ID previousRoot) reader" .
  from rest obtain issues where "resolveBlockedBy (rd_idByPath reader) (rd_issues reader) = Inr issues"
    "import_tree S previous (anchored root previousRoot) (rd_seen reader) issues = Some (Inr e')"
    by (cases err; cases "resolveBlockedBy (rd_idByPath reader) (rd_issues reader)") auto
  from that [OF r f ok this] show thesis .
qed

lemma adopted_issues:
  assumes d: "distinct (map i_ID staged)"
  shows "old \<in> set (e_Issues e) \<Longrightarrow> i \<in> set staged \<Longrightarrow> i_ID i = i_ID old \<Longrightarrow> i \<in> set (e_Issues (adopt_issues staged e))"
    and "old \<in> set (e_Issues e) \<Longrightarrow> i_ID old \<notin> i_ID ` set staged \<Longrightarrow> old \<in> set (e_Issues (adopt_issues staged e))"
    and "i \<in> set (e_Issues (adopt_issues staged e)) \<Longrightarrow>
      i \<in> set staged \<or> i \<in> set (e_Issues e) \<and> i_ID i \<notin> i_ID ` set staged"
proof -
  let ?m = "map_of (rev (map (\<lambda>issue. (i_ID issue, issue)) staged))"
  have m: "?m x = Some i \<longleftrightarrow> i \<in> set staged \<and> i_ID i = x" for x i
  proof -
    have "distinct (map fst (rev (map (\<lambda>issue. (i_ID issue, issue)) staged)))"
      using d by (simp add: rev_map [symmetric] o_def)
    then show ?thesis by (subst map_of_eq_Some_iff) auto
  qed
  have n: "?m x = None \<longleftrightarrow> x \<notin> i_ID ` set staged" for x
    by (force simp: map_of_eq_None_iff)
  let ?f = "\<lambda>issue. case ?m (i_ID issue) of Some staged \<Rightarrow> staged | None \<Rightarrow> issue"
  have set': "set (e_Issues (adopt_issues staged e)) =
      ?f ` set (e_Issues e) \<union> {i \<in> set staged. i_ID i \<notin> i_ID ` set (e_Issues e)}"
    by (simp add: adopt_issues_def Let_def)
  have hit: "i \<in> set staged \<Longrightarrow> i_ID i = i_ID old \<Longrightarrow> ?f old = i" for i old
    using m [of "i_ID old" i] by simp
  have miss: "i_ID old \<notin> i_ID ` set staged \<Longrightarrow> ?f old = old" for old
    using n [of "i_ID old"] by simp
  show "old \<in> set (e_Issues e) \<Longrightarrow> i \<in> set staged \<Longrightarrow> i_ID i = i_ID old \<Longrightarrow> i \<in> set (e_Issues (adopt_issues staged e))"
    unfolding set' by (metis (no_types, lifting) UnI1 hit image_eqI)
  show "old \<in> set (e_Issues e) \<Longrightarrow> i_ID old \<notin> i_ID ` set staged \<Longrightarrow> old \<in> set (e_Issues (adopt_issues staged e))"
    unfolding set' by (metis (no_types, lifting) UnI1 miss image_eqI)
  show "i \<in> set staged \<or> i \<in> set (e_Issues e) \<and> i_ID i \<notin> i_ID ` set staged"
    if "i \<in> set (e_Issues (adopt_issues staged e))"
  proof -
    from that consider "i \<in> set staged" | old where "old \<in> set (e_Issues e)" "i = ?f old"
      unfolding set' by blast
    then show ?thesis
    proof cases
      case (2 old)
      then show ?thesis
        using hit miss by (cases "i_ID old \<in> i_ID ` set staged") (metis (no_types, lifting) image_iff)+
    qed simp
  qed
qed

text \<open>C29. Whatever the refiner leaves in its tree, what is imported is a valid epic with the epic's own
  identity, state and drafting count, in which every issue keeps its ID, creation time and comments;
  its state changes only to closed, and only for an issue that was neither merged nor closed. Everything
  else is new work: open, without comments. So a refiner cannot reopen, approve or merge anything.\<close>

theorem import_keeps_the_record:
  assumes wf: "well_formed previous" and S: "lawful_sorts S" and fresh: "\<And>k. ulids k \<notin> issue_ids previous"
    and run: "Tree_Read Y ulids S fs p previous = Some (Inr e')"
  shows "well_formed e' \<and> e_ID e' = e_ID previous \<and> e_State e' = e_State previous \<and>
    e_DraftingPasses e' = e_DraftingPasses previous \<and> e_Repositories e' = e_Repositories previous \<and>
    (\<forall>old \<in> set (e_Issues previous). \<exists>i \<in> set (e_Issues e'). i_ID i = i_ID old \<and>
       i_CreatedAt i = i_CreatedAt old \<and> i_Comments i = i_Comments old \<and>
       (i_State i = i_State old \<or> i_State i = IssueStateClosed \<and> \<not> settled old)) \<and>
    (\<forall>i \<in> set (e_Issues e'). i_ID i \<notin> issue_ids previous \<longrightarrow> i_State i = IssueStateOpen \<and> i_Comments i = [])"
proof -
  obtain root previousRoot reader issues where
    ok: "reader_ok previous (i_ID previousRoot) reader" and
    res: "resolveBlockedBy (rd_idByPath reader) (rd_issues reader) = Inr issues" and
    imp: "import_tree S previous (anchored root previousRoot) (rd_seen reader) issues = Some (Inr e')"
    by (rule Tree_Read_Inr [OF run fresh])
  have all2: "list_all2 (\<lambda>i i'. \<exists>blockers. i' = i\<lparr>i_BlockedBy := blockers\<rparr>) (rd_issues reader) issues"
    by (rule resolveBlockedBy_same [OF res])
  have ids: "map i_ID issues = rd_seen reader"
  proof -
    have "map i_ID issues = map i_ID (rd_issues reader)"
      using all2 by (induction rule: list_all2_induct) auto
    with ok show ?thesis by (simp add: reader_ok_def)
  qed
  have kept: "kept_or_new previous i'" if "i' \<in> set issues" for i'
  proof -
    from that obtain k where k: "k < length issues" "issues ! k = i'" by (auto simp: in_set_conv_nth)
    from all2 k(1) have "k < length (rd_issues reader)" by (simp add: list_all2_lengthD)
    then have "kept_or_new previous (rd_issues reader ! k)" using ok by (simp add: reader_ok_def)
    moreover obtain blockers where "i' = (rd_issues reader ! k)\<lparr>i_BlockedBy := blockers\<rparr>"
      using list_all2_nthD2 [OF all2 k(1)] k(2) by auto
    ultimately show ?thesis by (simp add: kept_or_new_def)
  qed
  obtain T where e': "well_formed e'" "mset (e_Issues e') = mset (e_Issues (adopt_issues (sort_key i_ID issues) (close_set T previous)))"
    "e_ID e' = e_ID previous" "e_State e' = e_State previous" "e_DraftingPasses e' = e_DraftingPasses previous"
    "e_Repositories e' = e_Repositories previous"
    by (rule import_tree_Inr [OF wf S imp])
  let ?staged = "sort_key i_ID issues" and ?e = "close_set T previous"
  have d: "distinct (map i_ID ?staged)"
  proof -
    have "mset (map i_ID ?staged) = mset (map i_ID issues)" by simp
    then show ?thesis using ids ok by (metis mset_eq_imp_distinct_iff reader_ok_def)
  qed
  have set': "set (e_Issues e') = set (e_Issues (adopt_issues ?staged ?e))"
    by (rule mset_eq_setD [OF e'(2)])
  note adopted = adopted_issues [OF d, where e = ?e, unfolded set' [symmetric]]
  have old: "\<exists>i \<in> set (e_Issues e'). i_ID i = i_ID old \<and>
       i_CreatedAt i = i_CreatedAt old \<and> i_Comments i = i_Comments old \<and>
       (i_State i = i_State old \<or> i_State i = IssueStateClosed \<and> \<not> settled old)"
    if o: "old \<in> set (e_Issues previous)" for old
  proof (cases "i_ID old \<in> i_ID ` set ?staged")
    case True
    then obtain i where i: "i \<in> set ?staged" "i_ID i = i_ID old" by force
    with o have "i \<in> set (e_Issues e')"
      by (intro adopted(1) [of "close_issue_in T old"]) auto
    moreover have "kept_or_new previous i" using kept [of i] i(1) by simp
    moreover have "i_ID i \<in> issue_ids previous" using i(2) o by (simp add: issue_ids_def)
    ultimately obtain old' where o': "i \<in> set (e_Issues e')" "old' \<in> set (e_Issues previous)" "i_ID old' = i_ID old"
      "i_CreatedAt i = i_CreatedAt old'" "i_Comments i = i_Comments old'" "i_State i = i_State old'"
      using i(2) unfolding kept_or_new_def by auto
    have "old' = old" using distinct_map_unique [OF well_formed_distinct [OF wf] o'(2) o] o'(3) by simp
    with o' i(2) show ?thesis by auto
  next
    case False
    have "close_issue_in T old \<in> set (e_Issues e')"
      using o False by (intro adopted(2)) auto
    with close_issue_kept [of T old] show ?thesis by (intro bexI) auto
  qed
  have new: "i_State i = IssueStateOpen \<and> i_Comments i = []"
    if "i \<in> set (e_Issues e')" "i_ID i \<notin> issue_ids previous" for i
  proof -
    from adopted(3) [OF that(1)] that(2) have "i \<in> set issues"
      by (auto simp: issue_ids_def)
    from kept [OF this] that(2) show ?thesis
      by (auto simp: kept_or_new_def issue_ids_def image_iff)
  qed
  from e' old new show ?thesis by blast
qed

section \<open>Does the walk return?\<close>

lemma Ext_suffix: "filepath_Ext name = ''.md'' \<Longrightarrow> suffix ''.md'' name"
proof -
  assume e: "filepath_Ext name = ''.md''"
  let ?tail = "takeWhile (\<lambda>c. c \<noteq> CHR ''.'' \<and> c \<noteq> slash) (rev name)"
  from e obtain cs where "drop (length ?tail) (rev name) = CHR ''.'' # cs" and t: "rev ?tail = ''md''"
    by (auto simp: filepath_Ext_def Let_def split: list.splits if_splits)
  then have "rev name = ?tail @ CHR ''.'' # cs"
    by (metis append_take_drop_id takeWhile_eq_take)
  then have "name = rev cs @ ''.'' @ rev ?tail"
    by (metis append.assoc append_Cons append_Nil rev.simps(2) rev_append rev_rev_ident)
  then show "suffix ''.md'' name" by (simp add: t suffix_def)
qed

lemma read_entries_returns:
  assumes proper: "\<And>d name. name \<in> set (names_in fs d) \<Longrightarrow> suffix ''.md'' name \<Longrightarrow> bare (trim_suffix name ''.md'')"
    and deep: "\<And>d. d \<in> set (fs_dirs fs) \<Longrightarrow> length d \<le> depth"
  shows "list_all bare d \<Longrightarrow> \<forall>entry \<in> set entries. fst entry \<in> set (names_in fs d) \<Longrightarrow>
    depth < length d + n \<Longrightarrow>
    read_entries Y ulids fs treeRoot previous d parentID repository entries r \<noteq> None"
proof (induction n arbitrary: d entries parentID r)
  case 0
  have "read_entries Y ulids fs treeRoot previous d parentID repository entries r \<noteq> None"
    using 0(2)
  proof (induction entries arbitrary: r)
    case Nil
    then show ?case by (subst read_entries.simps) simp
  next
    case (Cons entry entries)
    let ?folder = "path_join d (trim_suffix (fst entry) ''.md'')"
    show ?case
    proof (cases "is_issue_entry entry")
      case False
      with Cons show ?thesis by (subst read_entries.simps) simp
    next
      case True
      then have "bare (trim_suffix (fst entry) ''.md'')"
        using proper Cons.prems Ext_suffix by (auto simp: is_issue_entry_def)
      then have "?folder \<notin> set (fs_dirs fs)" "?folder \<noteq> []"
        using deep [of ?folder] 0(1,3) by auto
      then have "\<exists>err. ReadDir fs ?folder = Inl err" by (auto simp: ReadDir_def is_dir_def)
      with Cons True show ?thesis
        by (subst read_entries.simps) (auto split: sum.splits prod.splits simp: Let_def)
    qed
  qed
  then show ?case .
next
  case (Suc n)
  show ?case
    using Suc.prems(2)
  proof (induction entries arbitrary: r)
    case Nil
    then show ?case by (subst read_entries.simps) simp
  next
    case (Cons entry entries)
    let ?folder = "path_join d (trim_suffix (fst entry) ''.md'')"
    show ?case
    proof (cases "is_issue_entry entry")
      case False
      with Cons show ?thesis by (subst read_entries.simps) simp
    next
      case True
      then have b: "bare (trim_suffix (fst entry) ''.md'')"
        using proper Cons.prems Ext_suffix by (auto simp: is_issue_entry_def)
      have "read_entries Y ulids fs treeRoot previous ?folder id' repository
          (map (\<lambda>name. (name, is_dir fs (?folder @ [name]))) (names_in fs ?folder)) r \<noteq> None" for id' r
        using Suc.prems b by (intro Suc.IH) auto
      then have inner: "(case ReadDir fs ?folder of Inl err \<Rightarrow> Some (Some err, r)
          | Inr children \<Rightarrow> read_entries Y ulids fs treeRoot previous ?folder id' repository children r) \<noteq> None"
        for id' r by (simp add: ReadDir_def)
      show ?thesis
      proof (cases "read_entry Y ulids fs treeRoot previous (path_join d (fst entry)) parentID repository r")
        case (Inl err)
        with True show ?thesis by (subst read_entries.simps) simp
      next
        case (Inr out)
        obtain id' r1 where o: "out = (id', r1)" by force
        obtain err r2 where "(case ReadDir fs ?folder of Inl err \<Rightarrow> Some (Some err, r1)
          | Inr children \<Rightarrow> read_entries Y ulids fs treeRoot previous ?folder id' repository children r1) = Some (err, r2)"
          using inner [of r1 id'] by (cases "case ReadDir fs ?folder of Inl err \<Rightarrow> Some (Some err, r1)
            | Inr children \<Rightarrow> read_entries Y ulids fs treeRoot previous ?folder id' repository children r1") auto
        with True Inr o Cons show ?thesis by (subst read_entries.simps) (simp add: Let_def)
      qed
    qed
  qed
qed

text \<open>Reading a tree returns as long as no issue file is named so that its folder would be its own
  directory or the one above: every name ending in \<open>.md\<close> has a proper name before the suffix.\<close>

theorem tree_walk_returns:
  assumes proper: "\<And>d name. name \<in> set (names_in fs d) \<Longrightarrow> suffix ''.md'' name \<Longrightarrow> bare (trim_suffix name ''.md'')"
    and d: "list_all bare directory"
  shows "readDirectory Y ulids fs treeRoot previous directory parentID repository r \<noteq> None"
proof -
  let ?depth = "Max (length ` set (fs_dirs fs))"
  have "d \<in> set (fs_dirs fs) \<Longrightarrow> length d \<le> ?depth" for d by simp
  from read_entries_returns [OF proper this d, where n = "Suc ?depth"] show ?thesis
    by (auto simp: readDirectory_def ReadDir_def split: if_splits)
qed

text \<open>C36. A file the refiner names just \<open>.md\<close>, with a complete issue in it that is not one of the epic's,
  makes the import run for ever: the folder of that file is the directory it is in, each turn mints a
  new ID for it, and nothing stops the recursion.\<close>

theorem tree_walk_runs_away:
  assumes listing: "ReadDir fs directory = Inr [(''.md'', False)]" and d: "list_all bare directory"
    and issue: "readPlannedIssue Y fs (path_join directory ''.md'') = Inr issue" "i_ID issue \<notin> issue_ids previous"
    and ulids: "inj ulids" and fresh: "\<And>n. ulids n \<notin> set (rd_seen r)"
  shows "readDirectory Y ulids fs treeRoot previous directory parentID repository r = None"
proof -
  let ?fresh = "\<lambda>r. \<forall>n \<ge> rd_minted r. ulids n \<notin> set (rd_seen r)"
  let ?P = "\<lambda>Y' ulids' fs' treeRoot' previous' directory' parentID repository' entries r out.
    \<not> (Y' = Y \<and> ulids' = ulids \<and> fs' = fs \<and> treeRoot' = treeRoot \<and> previous' = previous \<and>
       directory' = directory \<and> entries = [(''.md'', False)] \<and> ?fresh r)"
  have entry: "is_issue_entry (''.md'', False)"
    by (simp add: is_issue_entry_def filepath_Ext_def suffix_def)
  have folder: "path_join directory (trim_suffix ''.md'' ''.md'') = directory"
    using path_join_same [OF d] by (simp add: trim_suffix_def)
  have old: "oldByID previous (i_ID issue) = None"
    using issue(2) by (simp add: oldByID_None)
  have step: "\<exists>id' r'. read_entry Y ulids fs treeRoot previous (path_join directory ''.md'') parentID repository r =
      Inr (id', r') \<and> ?fresh r'" if "?fresh r" for parentID repository r
  proof -
    have "ulids (rd_minted r) \<notin> set (rd_seen r)" using that by simp
    moreover have "n \<noteq> rd_minted r \<Longrightarrow> ulids n \<noteq> ulids (rd_minted r)" for n
      using ulids by (auto dest: injD)
    ultimately show ?thesis
      using that issue old by (auto simp: read_entry_def Let_def)
  qed
  have "?P Y ulids fs treeRoot previous directory parentID repository [(''.md'', False)] r out"
    if run: "read_entries Y ulids fs treeRoot previous directory parentID repository [(''.md'', False)] r = Some out"
    for parentID repository r out
  proof (rule read_entries.raw_induct [of ?P, OF _ run], goal_cases)
    case (1 walk Y' ulids' fs' treeRoot' previous' directory' parentID repository' entries r out)
    show ?case
    proof (intro notI, elim conjE)
      assume same: "Y' = Y" "ulids' = ulids" "fs' = fs" "treeRoot' = treeRoot" "previous' = previous"
        "directory' = directory" "entries = [(''.md'', False)]" and r: "?fresh r"
      obtain id' r' where s: "read_entry Y ulids fs treeRoot previous (path_join directory ''.md'') parentID repository' r =
          Inr (id', r')" "?fresh r'"
        using step [OF r] by blast
      have "walk Y ulids fs treeRoot previous directory id' repository' [(''.md'', False)] r' = None"
        using 1(1) [of Y ulids fs treeRoot previous directory id' repository' "[(''.md'', False)]" r'] s(2)
        by (cases "walk Y ulids fs treeRoot previous directory id' repository' [(''.md'', False)] r'") auto
      with 1(2) s(1) listing entry folder show False
        unfolding same by (simp add: Let_def)
    qed
  qed
  then have "read_entries Y ulids fs treeRoot previous directory parentID repository [(''.md'', False)] r = None"
    using fresh by (cases "read_entries Y ulids fs treeRoot previous directory parentID repository [(''.md'', False)] r") blast+
  with listing show ?thesis by (simp add: readDirectory_def)
qed

section \<open>Small trees\<close>

text \<open>A codec that reads every document as one without an ID, and a tree with a file named \<open>.md\<close>.\<close>

definition blank_codec :: yaml_codec where
  "blank_codec = \<lparr>y_Marshal = (\<lambda>document. Inr []),
     y_Unmarshal = (\<lambda>frontMatter. Inr \<lparr>d_Title = ''Task'', d_ID = [], d_BlockedBy = []\<rparr>)\<rparr>"

definition planned_body :: string where
  "planned_body = join_with [CHR 0x0A] plannedSections"

definition runaway_tree :: file_system where
  "runaway_tree = \<lparr>fs_files = [([''repo'', ''.md''], fence @ fence @ planned_body)], fs_dirs = [[''repo'']]\<rparr>"

lemma trim_section: "c \<in> set plannedSections \<Longrightarrow> trim_space c = c"
  by (auto simp: plannedSections_def intro!: trim_space_solid simp: byte_def is_space_def in_range_def)

lemma runaway_issue:
  "readPlannedIssue blank_codec runaway_tree (path_join [''repo''] ''.md'') =
     Inr (zero_Issue\<lparr>i_Title := ''Task'', i_Body := planned_body\<rparr>)"
proof -
  have j: "path_join [''repo''] ''.md'' = [''repo'', ''.md'']" by (simp add: bare_def)
  have b: "trim_space planned_body = planned_body"
    by (intro trim_space_solid; simp add: planned_body_def plannedSections_def byte_def is_space_def in_range_def)
  have s: "split_on (CHR 0x0A) planned_body = plannedSections"
    by (simp add: planned_body_def plannedSections_def)
  have m: "sections_met 0 plannedSections = length plannedSections"
    using trim_section by (simp add: plannedSections_def)
  have c: "cut (fence @ fence @ planned_body) fence = Some ([], fence @ planned_body)"
    "cut (fence @ planned_body) fence = Some ([], planned_body)"
    by (simp_all add: cut_def fence_def)
  have t: "trim_space ''Task'' = ''Task''" by (rule trim_space_example)
  show ?thesis
    unfolding j by (simp add: readPlannedIssue_def readIssueFile_def ReadFile_def file_at_def runaway_tree_def c
      blank_codec_def t b s m validateSections_def Let_def zero_Issue_def)
      (simp add: planned_body_def plannedSections_def)
qed

definition letters :: "nat \<Rightarrow> string" where
  "letters n = replicate (Suc n) (CHR ''A'')"

abbreviation empty_reader :: issueTreeReader where
  "empty_reader \<equiv> \<lparr>rd_issues = [], rd_seen = [], rd_idByPath = Map.empty, rd_minted = 0\<rparr>"

lemma tree_walk_runs_away_witness:
  "readDirectory blank_codec letters runaway_tree [] example_epic [''repo''] ''R'' ''acme/api'' empty_reader = None"
proof (rule tree_walk_runs_away [OF _ _ runaway_issue])
  show "ReadDir runaway_tree [''repo''] = Inr [(''.md'', False)]"
    by (simp add: ReadDir_def is_dir_def names_in_def runaway_tree_def)
  show "inj letters"
    by (rule injI) (simp add: letters_def replicate_eq_replicate)
qed (simp_all add: bare_def zero_Issue_def issue_ids_def example_epic_def)

lemma tree_walk_returns_witness:
  "readDirectory blank_codec letters \<lparr>fs_files = [([''repo'', ''I1.md''], [])], fs_dirs = [[''repo'']]\<rparr> []
     example_epic [''repo''] ''R'' ''acme/api'' empty_reader \<noteq> None"
proof (rule tree_walk_returns)
  fix d name
  assume "name \<in> set (names_in \<lparr>fs_files = [([''repo'', ''I1.md''], [])], fs_dirs = [[''repo'']]\<rparr> d)"
    and md: "suffix ''.md'' name"
  then have "name = ''repo'' \<or> name = ''I1.md''" by (auto simp: names_in_def split: if_splits)
  with md show "bare (trim_suffix name ''.md'')" by (auto simp: trim_suffix_def bare_def suffix_def)
qed (simp add: bare_def)

text \<open>A refiner that leaves only \<open>root.md\<close> behind: everything below the root is closed.\<close>

definition bare_tree :: file_system where
  "bare_tree = \<lparr>fs_files = [([''root.md''], fence @ fence @ ''plan'')], fs_dirs = []\<rparr>"

definition stable_sorts :: epic_sorts where
  "stable_sorts = \<lparr>sort_issues = sort_key i_CreatedAt, sort_pull_requests = sort_key p_CreatedAt\<rparr>"

lemma stable_sorts_lawful: "lawful_sorts stable_sorts"
  by (simp add: lawful_sorts_def stable_sorts_def)

lemma example_subtree: "subtree example_epic ''I1'' = {''I1''}" "subtree example_epic ''I2'' = {''I2''}"
proof -
  have "child_of example_epic \<subseteq> {(''R'', ''I1''), (''R'', ''I2'')}"
    by (auto simp: child_of_def example_epic_def)
  then show "subtree example_epic ''I1'' = {''I1''}" "subtree example_epic ''I2'' = {''I2''}"
    by (auto simp: subtree_def elim: converse_rtranclE)
qed

lemma bare_tree_imports:
  "\<exists>e'. Tree_Read blank_codec letters stable_sorts bare_tree [] example_epic = Some (Inr e')"
proof -
  have plan: "trim_space ''plan'' = ''plan''"
    by (intro trim_space_solid; simp add: byte_def is_space_def in_range_def)
  have c: "cut (fence @ fence @ ''plan'') fence = Some ([], fence @ ''plan'')"
    "cut (fence @ ''plan'') fence = Some ([], ''plan'')"
    by (simp_all add: cut_def fence_def)
  let ?file = "zero_Issue\<lparr>i_Title := ''Task'', i_Body := ''plan''\<rparr>"
  let ?root = "anchored ?file (example_issue ''R'' [] [] IssueStateOpen [])"
  have f: "readIssueFile blank_codec bare_tree (path_join [] ''root.md'') = Inr ?file"
    by (simp add: readIssueFile_def ReadFile_def file_at_def bare_tree_def bare_def c blank_codec_def
      trim_space_example plan Let_def zero_Issue_def)
  have r: "RootIssue example_epic = Inr (example_issue ''R'' [] [] IssueStateOpen [])"
    by (simp add: RootIssue_def find_by_def example_epic_def)
  have w: "readRepositories blank_codec letters bare_tree [] example_epic x reader = Some (None, reader)" for x reader
    by (simp add: readRepositories_def ReadDir_def is_dir_def names_in_def bare_tree_def)
  let ?T = "omitted [''R''] (e_Issues example_epic) example_epic"
  have T: "?T = {''I1'', ''I2''}"
  proof -
    have l: "e_Issues example_epic = [example_issue ''R'' [] [] IssueStateOpen [],
        example_issue ''I1'' ''R'' ''acme/api'' IssueStatePR [],
        example_issue ''I2'' ''R'' ''acme/api'' IssueStateOpen [''I1'']]"
      by (simp add: example_epic_def)
    show ?thesis unfolding omitted_filter unfolding l by (auto simp: example_subtree)
  qed
  let ?e = "close_set {''I1'', ''I2''} example_epic"
  have o: "close_omitted [''R''] (e_Issues example_epic) example_epic = Some (None, ?e)"
    using close_omitted_eq [OF example_well_formed, of "e_Issues example_epic" "[''R'']" "{}"] T by simp
  let ?u = "(Epic_Sort stable_sorts (adopt_issues [?root] ?e))\<lparr>e_Title := ''Task'', e_Body := ''plan''\<rparr>"
  have issues: "e_Issues ?u = [?root, example_issue ''I1'' ''R'' ''acme/api'' IssueStateClosed [],
      example_issue ''I2'' ''R'' ''acme/api'' IssueStateClosed [''I1'']]"
    by (simp add: Epic_Sort_def stable_sorts_def adopt_issues_def Let_def example_epic_def close_issue_in_def
      anchored_def example_issue_def zero_Issue_def)
  have "well_formed ?u"
  proof (rule well_formed_skeleton [OF example_well_formed])
    show "map skeleton (e_Issues ?u) = map skeleton (e_Issues example_epic)"
      unfolding issues by (simp add: example_epic_def skeleton_def anchored_def example_issue_def zero_Issue_def)
    show "\<forall>i \<in> set (e_Issues ?u). content_ok i"
      unfolding issues by (simp add: content_ok_def Issue_Validate_def trim_space_example anchored_def zero_Issue_def example_issue_def)
    show "\<forall>p \<in> set (e_PullRequests ?u). PullRequest_Validate p = None \<and> p_IssueID p \<in> issue_ids example_epic"
    proof -
      have "issue_ids ?e = issue_ids example_epic" by (simp add: issue_ids_def image_image)
      moreover have "\<forall>p \<in> set (e_PullRequests ?e). PullRequest_Validate p = None \<and> p_IssueID p \<in> issue_ids ?e"
        using close_set_well_formed [OF example_well_formed] unfolding well_formed_def by blast
      ultimately show ?thesis by (simp add: Epic_Sort_def stable_sorts_def adopt_issues_def Let_def)
    qed
  qed (use example_well_formed in \<open>simp_all add: well_formed_def Epic_Sort_def adopt_issues_def Let_def close_set_def
      trim_space_example\<close>)
  then have v: "Validate ?u = Some None" using Validate_iff by blast
  have s: "e_State (Epic_Sort stable_sorts (adopt_issues [?root] ?e)) \<noteq> EpicStateClosed"
    by (simp add: Epic_Sort_def adopt_issues_def Let_def close_set_def example_epic_def)
  have i: "i_Title ?root = ''Task''" "i_Body ?root = ''plan''" "i_ID ?root = ''R''" "i_BlockedBy ?root = []"
    "?root\<lparr>i_BlockedBy := []\<rparr> = ?root"
    by (simp_all add: anchored_def)
  have "import_tree stable_sorts example_epic ?root [''R''] [?root] = Some (Inr ?u)"
    using v s by (simp add: import_tree_def o then_do_def Epic_SetTitle_def Epic_SetBody_def i trim_space_example Let_def)
  then show ?thesis
    by (simp add: Tree_Read_def f r w i)
qed

lemma import_keeps_the_record_witness:
  "\<exists>e'. Tree_Read blank_codec letters stable_sorts bare_tree [] example_epic = Some (Inr e') \<and>
     e_State e' = EpicStateReady \<and> (\<exists>i \<in> set (e_Issues e'). i_ID i = ''I1'')"
proof -
  obtain e' where r: "Tree_Read blank_codec letters stable_sorts bare_tree [] example_epic = Some (Inr e')"
    using bare_tree_imports by blast
  have "letters k \<notin> issue_ids example_epic" for k
    by (cases k) (auto simp: letters_def issue_ids_def example_epic_def)
  from import_keeps_the_record [OF example_well_formed stable_sorts_lawful this r] r show ?thesis
    by (auto simp: example_epic_def)
qed

end
