(* ===== verification/Tree_Strands.thy ===== *)
theory Tree_Strands
  imports Tree_Import
begin

text \<open>
  What happens to work in progress when the refiner moves it: \<open>Read\<close> closes what is missing with
  everything that was below it, before it takes over what moved away.
\<close>

text \<open>When the refiner drops an issue and keeps one that was below it elsewhere in the tree, the kept
  issue comes out as the tree has it, in the state it had, but its open pull request is closed: the
  closing runs over the old tree.\<close>

theorem reparented_issue_loses_its_pull_request:
  assumes wf: "well_formed previous" and S: "lawful_sorts S"
    and run: "import_tree S previous root seen issues = Some (Inr e')" and d: "distinct (map i_ID issues)"
    and gone: "gone \<in> set (e_Issues previous)" "i_ParentID gone \<noteq> []" "i_State gone \<noteq> IssueStateClosed"
      "i_ID gone \<notin> set seen"
    and kept: "old \<in> set (e_Issues previous)" "i_ID old \<in> subtree previous (i_ID gone)"
      "i_State old \<noteq> IssueStateMerged" "b \<in> set issues" "i_ID b = i_ID old"
    and p: "p \<in> set (e_PullRequests previous)" "p_IssueID p = i_ID old" "p_Status p = PullRequestOpen"
  shows "b \<in> set (e_Issues e') \<and> p\<lparr>p_Status := PullRequestClosed\<rparr> \<in> set (e_PullRequests e')"
proof -
  obtain T where T: "T = omitted seen (e_Issues previous) previous"
    and i: "mset (e_Issues e') = mset (e_Issues (adopt_issues (sort_key i_ID issues) (close_set T previous)))"
    and pr: "mset (e_PullRequests e') = mset (e_PullRequests (close_set T previous))"
    by (rule import_tree_Inr [OF wf S run])
  have "mset (map i_ID (sort_key i_ID issues)) = mset (map i_ID issues)" by simp
  then have "distinct (map i_ID (sort_key i_ID issues))" using d by (metis mset_eq_imp_distinct_iff)
  from adopted_issues(1) [OF this, of "close_issue_in T old" "close_set T previous" b] kept
  have "b \<in> set (e_Issues e')"
    unfolding mset_eq_setD [OF i] by simp
  moreover have "i_ID old \<in> T - merged_ids previous"
    using gone kept distinct_map_unique [OF well_formed_distinct [OF wf]] unfolding T
    by (auto simp: omitted_def merged_ids_def)
  then have "p\<lparr>p_Status := PullRequestClosed\<rparr> \<in> set (e_PullRequests (close_set T previous))"
    using p by (auto simp: close_set_def close_pull_request_in_def image_iff intro!: bexI [of _ p])
  ultimately show ?thesis unfolding mset_eq_setD [OF pr] by simp
qed

section \<open>An issue moved out from under its parent\<close>

lemma acyclic_by_rank:
  assumes "r \<subseteq> steps" and "\<forall>(x, y) \<in> steps. f y < (f x :: nat)"
  shows "acyclic r"
proof -
  have "steps \<subseteq> (measure f)\<inverse>" using assms(2) by auto
  moreover have "acyclic ((measure f)\<inverse>)"
    unfolding acyclic_converse by (rule wf_acyclic [OF wf_measure])
  ultimately show ?thesis using assms(1) acyclic_subset by blast
qed

lemma child_of_list:
  "child_of e = set (map (\<lambda>c. (i_ParentID c, i_ID c)) (filter (\<lambda>c. i_ParentID c \<noteq> []) (e_Issues e)))"
  by (auto simp: child_of_def)

definition nested_epic :: Epic where
  "nested_epic = example_epic\<lparr>e_Issues := [example_issue ''R'' [] [] IssueStateOpen [],
      example_issue ''I1'' ''R'' ''acme/api'' IssueStateOpen [],
      example_issue ''I2'' ''I1'' ''acme/api'' IssueStateCoding []],
    e_PullRequests := [example_pull_request\<lparr>p_IssueID := ''I2''\<rparr>]\<rparr>"

lemma nested_well_formed: "well_formed nested_epic"
proof -
  have d: "distinct (map i_ID (e_Issues nested_epic))" by (simp add: nested_epic_def)
  have "(x, y) \<in> waits nested_epic \<longrightarrow> (x, y) \<in> {(''R'', ''I1''), (''I1'', ''I2'')}" for x y
    unfolding waits_iff [OF d] by (auto simp: nested_epic_def issue_ids_def)
  then have w: "waits nested_epic \<subseteq> {(''R'', ''I1''), (''I1'', ''I2'')}" by (metis subrelI)
  have "acyclic (waits nested_epic)"
    by (rule acyclic_by_rank [OF w, where f = "\<lambda>x. if x = ''R'' then 2 else if x = ''I1'' then 1 else 0"]) simp
  moreover have "\<forall>i \<in> set (e_Issues nested_epic). issue_ok (e_Repositories nested_epic) i"
    by (simp add: nested_epic_def example_epic_def issue_ok_def Issue_Validate_def trim_space_example)
  moreover have "PullRequest_Validate (example_pull_request\<lparr>p_IssueID := ''I2''\<rparr>) = None"
    by (simp add: PullRequest_Validate_None example_pull_request_def counts_ok_def trim_space_example)
  moreover have "issue_ids nested_epic = {''R'', ''I1'', ''I2''}"
    by (simp add: issue_ids_def nested_epic_def)
  ultimately show ?thesis
    using example_well_formed unfolding well_formed_def issues_well_formed_def
    by (simp add: nested_epic_def)
qed

definition moved_issue :: Issue where
  "moved_issue = example_issue ''I2'' ''R'' ''acme/api'' IssueStateCoding []"

abbreviation nested_root :: Issue where
  "nested_root \<equiv> (example_issue ''R'' [] [] IssueStateOpen [])\<lparr>i_Body := ''plan''\<rparr>"

lemma nested_issues:
  "e_Issues nested_epic = [example_issue ''R'' [] [] IssueStateOpen [],
     example_issue ''I1'' ''R'' ''acme/api'' IssueStateOpen [],
     example_issue ''I2'' ''I1'' ''acme/api'' IssueStateCoding []]"
  by (simp add: nested_epic_def)

lemma nested_children: "child_of nested_epic = {(''R'', ''I1''), (''I1'', ''I2'')}"
  unfolding child_of_list nested_issues by simp

lemma nested_imports:
  "\<exists>e'. import_tree stable_sorts nested_epic nested_root [''R'', ''I2''] [nested_root, moved_issue] = Some (Inr e')"
proof -
  have "subtree nested_epic ''I2'' = {''I2''}"
    using subtree_unfold [of nested_epic "''I2''"] by (simp add: nested_children)
  then have sub: "subtree nested_epic ''I1'' = {''I1'', ''I2''}"
    using subtree_unfold [of nested_epic "''I1''"] by (simp add: nested_children)
  note l = nested_issues
  have T: "omitted [''R'', ''I2''] (e_Issues nested_epic) nested_epic = {''I1'', ''I2''}"
    unfolding omitted_filter unfolding l by (simp add: sub insert_commute)
  let ?e = "close_set {''I1'', ''I2''} nested_epic"
  have o: "close_omitted [''R'', ''I2''] (e_Issues nested_epic) nested_epic = Some (None, ?e)"
    using close_omitted_eq [OF nested_well_formed, of "e_Issues nested_epic" "[''R'', ''I2'']" "{}"] T by simp
  let ?staged = "sort_key i_ID [nested_root, moved_issue]"
  let ?u = "(Epic_Sort stable_sorts (adopt_issues ?staged ?e))\<lparr>e_Title := ''Task'', e_Body := ''plan''\<rparr>"
  have issues: "e_Issues ?u = [nested_root, example_issue ''I1'' ''R'' ''acme/api'' IssueStateClosed [], moved_issue]"
    by (simp add: Epic_Sort_def stable_sorts_def adopt_issues_def Let_def l close_issue_in_def
      moved_issue_def example_issue_def)
  have d: "distinct (map i_ID (e_Issues ?u))" unfolding issues by (simp add: moved_issue_def)
  have ids: "issue_ids ?u = {''R'', ''I1'', ''I2''}" unfolding issue_ids_def issues by (simp add: moved_issue_def)
  have "(x, y) \<in> waits ?u \<longrightarrow> (x, y) \<in> {(''R'', ''I1''), (''R'', ''I2'')}" for x y
    unfolding waits_iff [OF d] unfolding issues ids by (auto simp: moved_issue_def)
  then have w: "waits ?u \<subseteq> {(''R'', ''I1''), (''R'', ''I2'')}" by (metis subrelI)
  have ac: "acyclic (waits ?u)"
    by (rule acyclic_by_rank [OF w, where f = "\<lambda>x. if x = ''R'' then 1 else 0"]) simp
  have iw: "issues_well_formed ?u"
    unfolding issues_well_formed_def ids unfolding issues
    using ac by (simp add: issue_ok_def Issue_Validate_def trim_space_example moved_issue_def
      Epic_Sort_def adopt_issues_def Let_def close_set_def nested_epic_def example_epic_def)
  have prs: "e_PullRequests ?u = [example_pull_request\<lparr>p_IssueID := ''I2'', p_Status := PullRequestClosed\<rparr>]"
  proof -
    have "merged_ids nested_epic = {}" by (auto simp: merged_ids_def nested_epic_def)
    then show ?thesis
      by (simp add: Epic_Sort_def stable_sorts_def adopt_issues_def Let_def close_set_def nested_epic_def
        close_pull_request_in_def example_pull_request_def)
  qed
  have "PullRequest_Validate (example_pull_request\<lparr>p_IssueID := ''I2'', p_Status := PullRequestClosed\<rparr>) = None"
    by (simp add: PullRequest_Validate_None example_pull_request_def counts_ok_def trim_space_example)
  then have "well_formed ?u"
    unfolding well_formed_def prs ids using iw example_well_formed
    by (simp add: well_formed_def Epic_Sort_def adopt_issues_def Let_def close_set_def nested_epic_def trim_space_example)
  then have v: "Validate ?u = Some None" using Validate_iff by blast
  have s: "e_State (Epic_Sort stable_sorts (adopt_issues ?staged ?e)) \<noteq> EpicStateClosed"
    by (simp add: Epic_Sort_def adopt_issues_def Let_def close_set_def nested_epic_def example_epic_def)
  have "import_tree stable_sorts nested_epic nested_root [''R'', ''I2''] [nested_root, moved_issue] = Some (Inr ?u)"
    using v s by (simp add: import_tree_def o then_do_def Epic_SetTitle_def Epic_SetBody_def trim_space_example Let_def)
  then show ?thesis by blast
qed

lemma reparented_issue_loses_its_pull_request_witness:
  "\<exists>e'. import_tree stable_sorts nested_epic nested_root [''R'', ''I2''] [nested_root, moved_issue] = Some (Inr e') \<and>
     moved_issue \<in> set (e_Issues e') \<and>
     example_pull_request\<lparr>p_IssueID := ''I2'', p_Status := PullRequestClosed\<rparr> \<in> set (e_PullRequests e')"
proof -
  obtain e' where r: "import_tree stable_sorts nested_epic nested_root [''R'', ''I2''] [nested_root, moved_issue] = Some (Inr e')"
    using nested_imports by blast
  have c: "(''I1'', ''I2'') \<in> child_of nested_epic"
    by (simp add: nested_children)
  from reparented_issue_loses_its_pull_request [OF nested_well_formed stable_sorts_lawful r,
      of "example_issue ''I1'' ''R'' ''acme/api'' IssueStateOpen []"
        "example_issue ''I2'' ''I1'' ''acme/api'' IssueStateCoding []" moved_issue
        "example_pull_request\<lparr>p_IssueID := ''I2''\<rparr>"] r c
  show ?thesis
    by (auto simp: nested_epic_def moved_issue_def subtree_def example_pull_request_def)
qed

end
