(* ===== verification/Epic_Desk.thy ===== *)
theory Epic_Desk
  imports Host_Ports Tracker_Store
begin

text \<open>
  The contract between the use cases and the tracker: what reading and updating an epic through
  \<open>application.Workspace\<close> promises. The contract is a locale over the tracker ports; the tables of
  \<open>internal/adapters/projectstore\<close> provide it.
\<close>

section \<open>Changes that keep the plan\<close>

text \<open>A change that leaves the identity of the epic, its scope and the tree of its issues alone.\<close>

definition frames :: "Epic update \<Rightarrow> bool" where
  "frames f \<longleftrightarrow> (\<forall>e e'. f e = (None, e') \<longrightarrow>
     e_ID e' = e_ID e \<and> e_Repositories e' = e_Repositories e \<and>
     map skeleton (e_Issues e') = map skeleton (e_Issues e))"

named_theorems framing

lemma framesD:
  assumes "frames f" and "f e = (None, e')"
  shows "e_ID e' = e_ID e" "e_Repositories e' = e_Repositories e"
    "map skeleton (e_Issues e') = map skeleton (e_Issues e)"
  using assms unfolding frames_def by blast+

lemma frames_then_do [framing]: "frames f \<Longrightarrow> frames g \<Longrightarrow> frames (then_do f g)"
  by (auto simp: frames_def then_do_None_iff)

lemma frames_none [framing]: "frames (\<lambda>e. (Some err, e))"
  by (simp add: frames_def)

lemma frames_pull_requests [framing]: "frames (on_pull_requests f)"
  by (auto simp: frames_def on_pull_requests_None)

lemma frames_UpdatePullRequest [framing]: "frames (UpdatePullRequest id' change)"
  unfolding UpdatePullRequest_def by (rule framing)

lemma frames_AddPullRequestComment [framing]: "frames (AddPullRequestComment id' comment)"
  unfolding AddPullRequestComment_def by (rule framing)

lemma frames_TransitionIssue [framing]: "frames (TransitionIssue id' next')"
  unfolding frames_def
proof (intro allI impI)
  fix e e' assume "TransitionIssue id' next' e = (None, e')"
  then obtain xs where xs: "update_first (\<lambda>i. i_ID i = id') (Issue_TransitionTo next')
      (Errorf ''issue not found'' []) (e_Issues e) = (None, xs)" and e': "e' = e\<lparr>e_Issues := xs\<rparr>"
    by (auto simp: TransitionIssue_def on_issues_None)
  from xs show "e_ID e' = e_ID e \<and> e_Repositories e' = e_Repositories e \<and>
      map skeleton (e_Issues e') = map skeleton (e_Issues e)"
    by (elim update_first_None) (auto simp: e' Issue_TransitionTo_iff skeleton_def)
qed

lemma frames_comment_pull_request [framing]: "frames (comment_pull_request ulid now id' author body)"
  by (auto simp: frames_def comment_pull_request_def dest: framesD [OF frames_AddPullRequestComment] split: sum.splits)

lemma frames_mutate [framing]: "frames f \<Longrightarrow> frames (mutate f)"
  by (auto simp: frames_def mutate_None)

text \<open>A change that looks at the epic before it chooses what to do.\<close>

lemma frames_choose: "(\<And>e. \<exists>g. f e = g e \<and> frames g) \<Longrightarrow> frames f"
  unfolding frames_def by metis

lemma frames_on_issues [framing]:
  "frames (on_issues (update_first (\<lambda>i. i_ID i = x) (Issue_TransitionTo s) (Errorf ''issue not found'' [])))"
  using frames_TransitionIssue by (simp add: TransitionIssue_def)

lemma frames_TransitionPullRequest [framing]: "frames (TransitionPullRequest id' status)"
proof -
  have "frames (transition_pull_request_body id' status event)" for event
  proof (rule frames_choose)
    fix e
    show "\<exists>g. transition_pull_request_body id' status event e = g e \<and> frames g"
    proof (cases "find (\<lambda>p. p_ID p = id') (e_PullRequests e)")
      case None
      then show ?thesis
        by (intro exI [of _ "\<lambda>e. (Some (Errorf ''pull request not found'' []), e)"])
          (simp add: transition_pull_request_body_def frames_none)
    next
      case (Some p)
      show ?thesis
        unfolding transition_pull_request_body_def Some option.case Let_def
        by (intro exI conjI) (rule refl, intro framing)
    qed
  qed
  then show ?thesis
    by (intro frames_choose, cases status)
      (auto simp: TransitionPullRequest_def intro: framing)
qed

lemmas change_defs = sweep_markStale_def sendBackToReview_def conflict_markStale_def grant_coding_round_def

lemma frames_changes [framing]:
  "frames (sweep_markStale p)" "frames (sendBackToReview ulid now p body)"
  "frames (conflict_markStale ulid now p body)" "frames (grant_coding_round i)"
  unfolding change_defs by (intro framing)+

lemma frames_AddPullRequest [framing]: "frames (AddPullRequest i p)"
proof (rule frames_choose)
  fix e
  have "frames (\<lambda>e. (None, e\<lparr>e_PullRequests := e_PullRequests e @ [q]\<rparr>))" for q
    by (simp add: frames_def)
  then show "\<exists>g. AddPullRequest i p e = g e \<and> frames g"
    unfolding AddPullRequest_def
    by (cases "PullRequest_Validate p"; simp only: option.case)
      (intro exI conjI, rule refl, intro framing, simp, metis frames_none)
qed

lemma frames_open [framing]: "frames (open_pull_request ulid now issue branch base)"
  unfolding open_pull_request_def
  by (rule frames_choose, cases "CreatePullRequest ulid now (i_ID issue) (i_Title issue) (i_Repository issue) branch base")
    (auto intro: framing)

section \<open>What the reader gives back\<close>

lemma readComments_sorted [simp]:
  "sort_comments (readIssueComments x st) = readIssueComments x st"
  "sort_comments (readPullRequestComments x st) = readPullRequestComments x st"
  by (simp_all add: readIssueComments_def readPullRequestComments_def sort_comments_def commentsFrom_def
      select_comments_def sort_key_map sort_key_sorted_id)

lemma read_issues_shape:
  "read_issues J st rows acc = Inr issues \<Longrightarrow>
     \<exists>more. issues = acc @ more \<and> map (\<lambda>i. (i_CreatedAt i, i_ID i)) more = map (\<lambda>r. (ir_CreatedAt r, ir_ID r)) rows \<and>
       map canonical_issue more = more"
proof (induction J st rows acc rule: read_issues.induct)
  case (2 J st r rows acc)
  from 2(2) obtain blockedBy where b: "unmarshal J (ir_BlockedBy r) = Inr blockedBy" by (auto split: sum.splits)
  from 2(1) [OF b] 2(2) b obtain more where more: "issues = (acc @ [\<lparr>i_ID = ir_ID r, i_Title = ir_Title r,
      i_ParentID = ir_ParentID r, i_Repository = ir_Repository r, i_State = ir_State r, i_CreatedAt = ir_CreatedAt r,
      i_Body = ir_Body r, i_Comments = readIssueComments (ir_ID r) st, i_BlockedBy = blockedBy\<rparr>]) @ more"
    and keys: "map (\<lambda>i. (i_CreatedAt i, i_ID i)) more = map (\<lambda>r. (ir_CreatedAt r, ir_ID r)) rows"
    and tidy: "map canonical_issue more = more"
    by auto
  then show ?case by (intro exI, intro conjI) (simp only: append.assoc, simp_all, simp add: canonical_issue_def)
qed simp

lemma read_pull_requests_shape:
  "read_pull_requests J st rows acc = Inr ps \<Longrightarrow>
     \<exists>more. ps = acc @ more \<and> map (\<lambda>p. (p_CreatedAt p, p_ID p)) more = map (\<lambda>r. (pr_CreatedAt r, pr_ID r)) rows \<and>
       map canonical_pull_request more = more"
proof (induction J st rows acc rule: read_pull_requests.induct)
  case (2 J st r rows acc)
  from 2(2) obtain flags where f: "unmarshal_flags J (pr_Flags r) = Inr flags" by (auto split: sum.splits)
  define p where "p = \<lparr>p_ID = pr_ID r, p_IssueID = pr_IssueID r, p_Title = pr_Title r, p_Status = pr_Status r,
    p_Repository = pr_Repository r, p_Number = pr_Number r, p_URL = pr_URL r, p_Head = pr_Head r,
    p_Base = pr_Base r, p_Flags = flags, p_ReviewedHead = pr_ReviewedHead r, p_ReviewedBase = pr_ReviewedBase r,
    p_Rounds = pr_Rounds r, p_Reviews = pr_Reviews r, p_RoundsGranted = pr_RoundsGranted r,
    p_CodingRounds = pr_CodingRounds r, p_Approved = pr_Approved r, p_CreatedAt = pr_CreatedAt r,
    p_Comments = readPullRequestComments (pr_ID r) st\<rparr>"
  from 2(1) [OF f] 2(2) f obtain more where more: "ps = (acc @ [p]) @ more"
    and keys: "map (\<lambda>p. (p_CreatedAt p, p_ID p)) more = map (\<lambda>r. (pr_CreatedAt r, pr_ID r)) rows"
    and tidy: "map canonical_pull_request more = more"
    by (auto simp: p_def)
  have "p_CreatedAt p = pr_CreatedAt r" "p_ID p = pr_ID r" "canonical_pull_request p = p"
    by (simp_all add: p_def canonical_pull_request_def)
  with more keys tidy show ?case by (intro exI [of _ "p # more"]) simp
qed simp

lemma sort_key_same_keys: "map k xs = map l (sort_key l rows) \<Longrightarrow> sort_key k xs = xs"
  by (rule sort_key_id_if_sorted) simp

lemma readEpic_tidy:
  assumes "readEpic J id' st = Inr e"
  shows "canonical e = e" "e_ID e = id'" "well_formed e"
proof -
  from assms obtain r issues pullRequests where
    r: "find (\<lambda>r. er_ID r = id') (st_epics st) = Some r"
    and i: "read_issues J st (sort_key (\<lambda>r. (ir_CreatedAt r, ir_ID r))
        (filter (\<lambda>r. ir_EpicID r = id') (st_issues st))) [] = Inr issues"
    and p: "read_pull_requests J st (sort_key (\<lambda>r. (pr_CreatedAt r, pr_ID r))
        (filter (\<lambda>r. pr_EpicID r = id') (st_pull_requests st))) [] = Inr pullRequests"
    and e: "e_Issues e = issues" "e_PullRequests e = pullRequests" "e_ID e = er_ID r" "the (Validate e) = None"
    by (auto simp: readEpic_def Let_def split: option.splits sum.splits)
  show "e_ID e = id'" using r e(3) by (auto simp: find_Some_iff)
  show "well_formed e" using e(4) Validate_the by metis
  from read_issues_shape [OF i] read_pull_requests_shape [OF p]
  have "sort_key (\<lambda>i. (i_CreatedAt i, i_ID i)) issues = issues" "map canonical_issue issues = issues"
    "sort_key (\<lambda>p. (p_CreatedAt p, p_ID p)) pullRequests = pullRequests"
    "map canonical_pull_request pullRequests = pullRequests"
    by (auto intro: sort_key_same_keys)
  then show "canonical e = e" by (simp add: canonical_def e(1,2))
qed

lemma tidy_parts:
  assumes "canonical e = e"
  shows "i \<in> set (e_Issues e) \<Longrightarrow> canonical_issue i = i"
    "p \<in> set (e_PullRequests e) \<Longrightarrow> canonical_pull_request p = p"
proof -
  assume "i \<in> set (e_Issues e)"
  with assms have "i \<in> set (e_Issues (canonical e))" by simp
  then obtain j where "i = canonical_issue j" unfolding set_canonical_issues by blast
  then show "canonical_issue i = i" by (simp add: canonical_issue_def)
next
  assume "p \<in> set (e_PullRequests e)"
  with assms have "p \<in> set (e_PullRequests (canonical e))" by simp
  then obtain q where "p = canonical_pull_request q" unfolding set_canonical_pull_requests by blast
  then show "canonical_pull_request p = p" by (simp add: canonical_pull_request_def)
qed

lemma canonical_phase [simp]:
  "phase (canonical_pull_request p) = phase p" "p_Status (canonical_pull_request p) = p_Status p"
  "rounds_inv (canonical_pull_request p) = rounds_inv p"
  by (simp_all add: canonical_pull_request_def)

lemma canonical_key_mset: "mset (map p_ID (e_PullRequests (canonical e))) = mset (map p_ID (e_PullRequests e))"
  by (simp only: mset_map canonical_mset) (simp add: image_mset.compositionality o_def)

lemma loop_inv_canonical:
  assumes inv: "loop_inv e"
  shows "loop_inv (canonical e)"
proof -
  note facts = loop_inv_facts [OF inv]
  have phases: "in_phase (canonical e) (canonical_pull_request p)" if "in_phase e p" for p
    using that by (auto simp: in_phase_def set_canonical_issues)
  have one: "p = q" if "p \<in> set (e_PullRequests e)" "q \<in> set (e_PullRequests e)" "p_Status p = PullRequestOpen"
    "p_Status q = PullRequestOpen" "p_IssueID p = p_IssueID q" for p q
    using inv that unfolding loop_inv_def by blast
  have "distinct (map p_ID (e_PullRequests (canonical e)))"
    using facts(1) mset_eq_imp_distinct_iff [OF canonical_key_mset] by blast
  moreover have "\<forall>p \<in> set (e_PullRequests (canonical e)).
      rounds_inv p \<and> (p_Status p = PullRequestOpen \<longrightarrow> in_phase (canonical e) p)"
    using facts(5,6) phases by (auto simp: set_canonical_pull_requests)
  moreover have "p = q" if "p \<in> set (e_PullRequests (canonical e))" "q \<in> set (e_PullRequests (canonical e))"
    "p_Status p = PullRequestOpen" "p_Status q = PullRequestOpen" "p_IssueID p = p_IssueID q" for p q
  proof -
    from that obtain p' q' where "p = canonical_pull_request p'" "p' \<in> set (e_PullRequests e)"
      "q = canonical_pull_request q'" "q' \<in> set (e_PullRequests e)"
      unfolding set_canonical_pull_requests by blast
    with that one [of p' q'] show ?thesis by simp
  qed
  ultimately show ?thesis using facts(3) unfolding loop_inv_def well_formed_canonical by blast
qed

section \<open>The loop over a stored epic\<close>

text \<open>Steps of the loop in one update, as the reader gives their result back.\<close>

definition desk_step :: "Epic \<Rightarrow> Epic \<Rightarrow> bool" where
  "desk_step e e' \<longleftrightarrow> (\<exists>d. loop_step\<^sup>*\<^sup>* e d \<and> e' = canonical d)"

lemma desk_steps_inv: "desk_step\<^sup>*\<^sup>* e e' \<Longrightarrow> loop_inv e \<Longrightarrow> loop_inv e'"
  by (induction rule: rtranclp_induct) (auto simp: desk_step_def intro: loop_inv_reachable loop_inv_canonical)

text \<open>An epic in the loop, on file under its ID.\<close>

definition filed ::
    "('x world \<Rightarrow> string \<Rightarrow> Epic option) \<Rightarrow> ('x world \<Rightarrow> bool) \<Rightarrow> (Epic \<Rightarrow> bool) \<Rightarrow> string \<Rightarrow>
       'x world \<Rightarrow> Epic \<Rightarrow> bool" where
  "filed held good storable i w e \<longleftrightarrow> good w \<and> held w i = Some e \<and> storable e \<and> loop_inv e"

section \<open>The contract\<close>

text \<open>
  \<open>held w\<close> is what the epics read as, \<open>good w\<close> that the store behind them is consistent, and
  \<open>storable\<close> that an aggregate survives its encoding. A refused update changes nothing; one that is
  taken replaces the epic by the changed one, as the reader orders it.
\<close>

locale epic_tracker =
  fixes T :: "'x tracker_ports"
    and held :: "'x world \<Rightarrow> string \<Rightarrow> Epic option"
    and good :: "'x world \<Rightarrow> bool"
    and storable :: "Epic \<Rightarrow> bool"
  assumes mint_silent: "silent (\<lambda>w. (held w, good w)) (t_Mint T)"
    and read_silent: "silent (\<lambda>w. (held w, good w)) (t_ReadEpic T i)"
    and read_held: "t_ReadEpic T i w = (Inr e, w') \<Longrightarrow> held w i = Some e"
    and held_tidy: "held w i = Some e \<Longrightarrow> canonical e = e \<and> e_ID e = i \<and> well_formed e"
    and refused: "(\<And>e. silent (\<lambda>w. (held w, good w)) (change e)) \<Longrightarrow>
      t_UpdateEpic T i change w = (Some err, w') \<Longrightarrow> held w' = held w \<and> good w' = good w"
    and taken: "(\<And>e. silent (\<lambda>w. (held w, good w)) (change e)) \<Longrightarrow>
      t_UpdateEpic T i change w = (None, w') \<Longrightarrow> good w \<Longrightarrow>
      (\<And>e v e' v'. held w i = Some e \<Longrightarrow> change e v = ((None, e'), v') \<Longrightarrow> well_formed e' \<Longrightarrow> storable e') \<Longrightarrow>
      good w' \<and> (\<exists>e v e' v'. held w i = Some e \<and> change e v = ((None, e'), v') \<and> well_formed e' \<and>
        distinct (map p_ID (e_PullRequests e')) \<and> held w' = (held w)(e_ID e' \<mapsto> canonical e'))"
    and storable_framed: "storable e \<Longrightarrow> e_Repositories e' = e_Repositories e \<Longrightarrow>
      map skeleton (e_Issues e') = map skeleton (e_Issues e) \<Longrightarrow> well_formed e' \<Longrightarrow> storable e'"
    and storable_tidy: "storable (canonical e) = storable e"
begin

lemma view_D:
  assumes "silent (\<lambda>w. (held w, good w)) m" and "m w = (r, w')"
  shows "held w' = held w" "good w' = good w"
  using silentD [OF assms] by simp_all

lemma silent_minting: "silent (\<lambda>w. (held w, good w)) (minting T f e)"
  by (rule silentI) (auto simp: minting_def Let_def split: prod.splits dest: view_D [OF mint_silent])

lemma silent_plain: "silent (\<lambda>w. (held w, good w)) (plain f e)"
  by (rule silentI) (simp add: plain_def)

text \<open>An update that keeps the plan, refused or taken.\<close>

lemma update_cases:
  assumes run: "t_UpdateEpic T i change w = (r, w')"
    and at: "good w" "held w i = Some e" "storable e"
    and silent: "\<And>e. silent (\<lambda>w. (held w, good w)) (change e)"
    and framed: "\<And>v e' v'. change e v = ((None, e'), v') \<Longrightarrow>
      e_Repositories e' = e_Repositories e \<and> map skeleton (e_Issues e') = map skeleton (e_Issues e) \<and> e_ID e' = e_ID e"
  obtains (rejected) err where "r = Some err" "held w' = held w" "good w'"
  | (accepted) v e' v' where "r = None" "change e v = ((None, e'), v')" "good w'"
      "distinct (map p_ID (e_PullRequests e'))"
      "held w' i = Some (canonical e')" "storable (canonical e')"
proof (cases r)
  case (Some err)
  with refused [OF silent run [unfolded Some]] at show ?thesis using that(1) by simp
next
  case None
  note keep = framed
  have ok: "storable e'" if "change e v = ((None, e'), v')" "well_formed e'" for v e' v'
    using storable_framed [OF at(3)] keep [OF that(1)] that(2) by blast
  from taken [OF silent run [unfolded None] at(1)] at(2) ok obtain v e' v' where
    *: "good w'" "change e v = ((None, e'), v')" "well_formed e'" "held w' = (held w)(e_ID e' \<mapsto> canonical e')"
      "distinct (map p_ID (e_PullRequests e'))"
    by auto
  moreover have "e_ID e' = i" using keep [OF *(2)] held_tidy [OF at(2)] by simp
  ultimately show ?thesis using that(2) [OF None] ok storable_tidy by simp
qed

lemma plain_cases:
  assumes "t_UpdateEpic T i (plain f) w = (r, w')" "good w" "held w i = Some e" "storable e" "frames f"
  obtains (rejected) err where "r = Some err" "held w' = held w" "good w'"
  | (accepted) e' where "r = None" "f e = (None, e')" "good w'" "held w' i = Some (canonical e')"
      "storable (canonical e')" "distinct (map p_ID (e_PullRequests e'))"
  by (rule update_cases [OF assms(1-4) silent_plain])
    (use framesD [OF assms(5)] that in \<open>auto simp: plain_def\<close>)

lemma minting_cases:
  assumes "t_UpdateEpic T i (minting T f) w = (r, w')" "good w" "held w i = Some e" "storable e"
    and "\<And>ulid now. frames (f ulid now)"
  obtains (rejected) err where "r = Some err" "held w' = held w" "good w'"
  | (accepted) ulid now e' where "r = None" "f ulid now e = (None, e')" "good w'" "held w' i = Some (canonical e')"
      "storable (canonical e')" "distinct (map p_ID (e_PullRequests e'))"
  by (rule update_cases [OF assms(1-4) silent_minting])
    (use framesD [OF assms(5)] that in \<open>auto simp: minting_def Let_def split: prod.splits\<close>)

lemma filed_frame: "filed held good storable i w e \<Longrightarrow> held w' = held w \<Longrightarrow> good w' = good w \<Longrightarrow>
    filed held good storable i w' e"
  by (simp add: filed_def)

lemma filed_silent:
  assumes "filed held good storable i w e" "silent (\<lambda>w. (held w, good w)) m" "m w = (r, w')"
  shows "filed held good storable i w' e"
  using filed_frame [OF assms(1) view_D [OF assms(2,3)]] .

lemma filed_step:
  assumes "filed held good storable i w e" "loop_step\<^sup>*\<^sup>* e d" "good w'" "held w' i = Some (canonical d)"
    "storable (canonical d)"
  shows "filed held good storable i w' (canonical d) \<and> desk_step e (canonical d)"
  using assms loop_inv_reachable loop_inv_canonical unfolding filed_def desk_step_def by blast

end

text \<open>Git does not touch the tracker.\<close>

definition quiet_code :: "('x world \<Rightarrow> 'o) \<Rightarrow> 'x code_ports \<Rightarrow> bool" where
  "quiet_code obs C \<longleftrightarrow>
     (\<forall>s. silent obs (g_DefaultBranch C s) \<and> silent obs (g_PurgeEpic C s)) \<and>
     (\<forall>c s t. silent obs (g_Checkout C c s t) \<and> silent obs (g_Merge C c s t)) \<and>
     (\<forall>c s. silent obs (g_Push C c s) \<and> silent obs (g_DeleteBranch C c s)) \<and>
     (\<forall>i s t hs. silent obs (g_InspectBranches C i s t hs))"

lemma quiet_codeD:
  assumes "quiet_code obs C"
  shows "silent obs (g_DefaultBranch C s)" "silent obs (g_Checkout C c s t)" "silent obs (g_Merge C c s t)"
    "silent obs (g_Push C c s)" "silent obs (g_DeleteBranch C c s)" "silent obs (g_InspectBranches C i s t hs)"
  using assms by (simp_all add: quiet_code_def)

section \<open>The tables as the tracker\<close>

text \<open>
  A desk: the tables of the tracker, the one variable a handler shares with its closure
  (\<open>abandoned\<close>), and the rest of the host. A fault of the read and one of the write come from
  the host, as the IDs and the time do.
\<close>

record 'g desk =
  d_store :: Store
  d_abandoned :: "Branch list"
  d_host :: 'g

record 'g desk_side =
  ds_Mint :: "'g \<Rightarrow> (string \<times> int) \<times> 'g"
  ds_Faults :: "'g \<Rightarrow> (go_error option \<times> go_error option) \<times> 'g"

definition on_desk :: "('g desk \<Rightarrow> 'g desk) \<Rightarrow> 'g desk world \<Rightarrow> 'g desk world" where
  "on_desk f w = w\<lparr>w_ext := f (w_ext w)\<rparr>"

definition at_host :: "('g \<Rightarrow> 'a \<times> 'g) \<Rightarrow> 'g desk world \<Rightarrow> 'a \<times> 'g desk world" where
  "at_host f w = (let (a, g) = f (d_host (w_ext w)) in (a, on_desk (d_host_update (\<lambda>_. g)) w))"

definition store_ReadEpic :: "json_codec \<Rightarrow> 'g desk_side \<Rightarrow> string \<Rightarrow> (Epic, 'g desk) io" where
  "store_ReadEpic J S i w =
     (let ((fault, _), w) = at_host (ds_Faults S) w in (ReadEpic J fault i (d_store (w_ext w)), w))"

definition store_UpdateEpic ::
    "json_codec \<Rightarrow> 'g desk_side \<Rightarrow> string \<Rightarrow> 'g desk change \<Rightarrow> 'g desk world \<Rightarrow> go_error option \<times> 'g desk world" where
  "store_UpdateEpic J S i change w =
     (let (faults, w) = at_host (ds_Faults S) w;
          st = d_store (w_ext w)
      in case ReadEpic J (fst faults) i st of
           Inl _ \<Rightarrow> (fst (UpdateEpic J faults i (\<lambda>e. (None, e)) st), w)
         | Inr e \<Rightarrow>
             (let (outcome, w) = change e w;
                  (r, st) = UpdateEpic J faults i (\<lambda>_. outcome) st
              in (r, on_desk (d_store_update (\<lambda>_. st)) w)))"

definition store_tracker ::
    "json_codec \<Rightarrow> 'g desk_side \<Rightarrow> 'g desk tracker_ports \<Rightarrow> 'g desk tracker_ports" where
  "store_tracker J S T = T\<lparr>t_Mint := at_host (ds_Mint S), t_ReadEpic := store_ReadEpic J S,
     t_UpdateEpic := store_UpdateEpic J S\<rparr>"

definition desk_held :: "json_codec \<Rightarrow> 'g desk world \<Rightarrow> string \<Rightarrow> Epic option" where
  "desk_held J w = tracker J (d_store (w_ext w))"

definition desk_good :: "'g desk world \<Rightarrow> bool" where
  "desk_good w = store_ok (d_store (w_ext w))"

text \<open>The encoding of flags is faithful on the known ones, the encoding of strings on the epic's own.\<close>

definition desk_storable :: "json_codec \<Rightarrow> Epic \<Rightarrow> bool" where
  "desk_storable J e \<longleftrightarrow> json_faithful J e \<and>
     (\<forall>fs. (\<forall>f \<in> set fs. isPullRequestFlag f) \<longrightarrow> unmarshal_flags J (marshal_flags J fs) = Inr fs)"

lemma at_host_fields:
  assumes "at_host f w = (a, w')"
  shows "d_store (w_ext w') = d_store (w_ext w)" "d_abandoned (w_ext w') = d_abandoned (w_ext w)"
    "w_supervisor w' = w_supervisor w"
  using assms by (auto simp: at_host_def on_desk_def Let_def split: prod.splits)

lemma desk_fields [simp]:
  "desk_held J (on_desk (d_store_update (\<lambda>_. st)) w) = tracker J st"
  "desk_good (on_desk (d_store_update (\<lambda>_. st)) w) = store_ok st"
  by (simp_all add: desk_held_def desk_good_def on_desk_def)

lemma UpdateEpic_fixed:
  assumes "ReadEpic J (fst faults) i st = Inr e"
  shows "UpdateEpic J faults i (\<lambda>_. change e) st = UpdateEpic J faults i change st"
  by (simp add: UpdateEpic_def assms)

lemma json_faithful_canonical: "json_faithful J (canonical e) = json_faithful J e"
  by (simp add: json_faithful_def set_canonical_issues set_canonical_pull_requests canonical_pull_request_def)

lemma skeleton_blockers:
  "map skeleton xs = map skeleton ys \<Longrightarrow> i_BlockedBy ` set xs = i_BlockedBy ` set ys"
proof -
  assume "map skeleton xs = map skeleton ys"
  then have "(\<lambda>(a, b, c, d). d) ` set (map skeleton xs) = (\<lambda>(a, b, c, d). d) ` set (map skeleton ys)" by simp
  then show ?thesis by (simp add: image_image skeleton_def)
qed

lemma desk_storable_framed:
  assumes "desk_storable J e" "e_Repositories e' = e_Repositories e"
    "map skeleton (e_Issues e') = map skeleton (e_Issues e)" "well_formed e'"
  shows "desk_storable J e'"
proof -
  have "i_BlockedBy ` set (e_Issues e') = i_BlockedBy ` set (e_Issues e)"
    by (rule skeleton_blockers [OF assms(3)])
  moreover have "\<forall>p \<in> set (e_PullRequests e'). \<forall>f \<in> set (p_Flags p). isPullRequestFlag f"
    using assms(4) by (auto simp: well_formed_def PullRequest_Validate_None)
  ultimately show ?thesis
    using assms(1,2) unfolding desk_storable_def json_faithful_def
    by (smt (verit) imageE imageI)
qed

interpretation desk: epic_tracker "store_tracker J S T" "desk_held J" desk_good "desk_storable J"
  for J :: json_codec and S :: "'g desk_side" and T :: "'g desk tracker_ports"
proof (unfold_locales, goal_cases)
  case 1
  then show ?case
    by (intro silentI) (auto simp: store_tracker_def desk_held_def desk_good_def dest!: at_host_fields(1))
next
  case (2 i)
  then show ?case
    by (intro silentI)
      (auto simp: store_tracker_def store_ReadEpic_def desk_held_def desk_good_def Let_def split: prod.splits
        dest!: at_host_fields(1))
next
  case (3 i w e w')
  then show ?case
    by (auto simp: store_tracker_def store_ReadEpic_def desk_held_def ReadEpic_def tracker_def Let_def
        split: prod.splits option.splits dest!: at_host_fields(1))
next
  case (4 w i e)
  then show ?case by (auto simp: desk_held_def tracker_def dest: readEpic_tidy split: sum.splits)
next
  case (5 change i w err w')
  then show ?case
    by (auto simp: store_tracker_def store_UpdateEpic_def desk_held_def desk_good_def Let_def on_desk_def
        split: prod.splits sum.splits dest!: at_host_fields(1) atomicD [OF atomic_UpdateEpic])
next
  case (6 change i w w')
  obtain faults w1 where f: "at_host (ds_Faults S) w = (faults, w1)" by fastforce
  let ?st = "d_store (w_ext w)"
  have st: "d_store (w_ext w1) = ?st" by (rule at_host_fields(1) [OF f])
  have "ReadEpic J (fst faults) i ?st \<noteq> Inl err" for err
    using 6(2) f st
    by (auto simp: store_tracker_def store_UpdateEpic_def UpdateEpic_def Let_def split: if_splits)
  then obtain e where e: "ReadEpic J (fst faults) i ?st = Inr e" by (metis sum.exhaust)
  obtain outcome w2 where o: "change e w1 = (outcome, w2)" by fastforce
  obtain st' where u: "UpdateEpic J faults i (\<lambda>_. outcome) ?st = (None, st')"
    and w': "w' = on_desk (d_store_update (\<lambda>_. st')) w2"
    using 6(2) f st e o
    by (auto simp: store_tracker_def store_UpdateEpic_def split: prod.splits)
  from e have held: "desk_held J w i = Some e"
    by (simp add: desk_held_def tracker_def ReadEpic_def split: option.splits)
  from u held obtain e' where e': "outcome = (None, e')" and wr: "WriteEpic J (snd faults) e' ?st = (None, st')"
    by (auto simp: UpdateEpic_None_iff desk_held_def)
  have ok: "store_ok ?st" using 6(3) by (simp add: desk_good_def)
  from wr have wf: "well_formed e'" by (simp add: WriteEpic_iff [OF ok])
  from 6(4) [OF held] o e' wf have faithful: "json_faithful J e'" by (simp add: desk_storable_def)
  have "distinct (map p_ID (e_PullRequests e'))"
    using wr by (auto simp: WriteEpic_iff [OF ok] ids_free_def fits_def o_def)
  moreover have "desk_held J w' = (desk_held J w)(e_ID e' \<mapsto> canonical e')"
    unfolding w' desk_fields using tracker_WriteEpic [OF ok faithful wr] by (simp add: desk_held_def)
  moreover have "desk_good w'" unfolding w' desk_fields by (rule store_ok_WriteEpic [OF ok wr])
  ultimately show ?case using held o wf unfolding e' by blast
next
  case (7 e e')
  then show ?case by (rule desk_storable_framed)
next
  case (8 e)
  then show ?case by (simp add: desk_storable_def json_faithful_canonical)
qed

section \<open>A desk\<close>

text \<open>A codec that also reads flags back, and a host that keeps a log of its calls of git.\<close>

definition known_flags :: "PullRequestFlag list" where
  "known_flags = [FlagBlocked, FlagRoundLimit, FlagFailed, FlagHumanNeeded, FlagStale]"

definition desk_codec :: json_codec where
  "desk_codec = example_codec\<lparr>unmarshal_flags := (\<lambda>s. Inr (map
     (\<lambda>t. case find (\<lambda>f. pull_request_flag_string f = t) known_flags of
            Some f \<Rightarrow> f | None \<Rightarrow> PullRequestFlagOther t)
     (butlast (split_on (CHR 0x0A) s))))\<rparr>"

datatype git_call =
    GitMerge CodeCheckout string string
  | GitPush CodeCheckout string
  | GitDelete CodeCheckout string

definition git :: "git_call \<Rightarrow> git_call list desk world \<Rightarrow> git_call list desk world" where
  "git call = on_desk (d_host_update (\<lambda>calls. calls @ [call]))"

definition desk_side :: "git_call list desk_side" where
  "desk_side = \<lparr>ds_Mint = Pair (''C9'', 7), ds_Faults = Pair (None, None)\<rparr>"

definition desk_code :: "(string \<Rightarrow> string \<Rightarrow> string \<rightharpoonup> BranchState) \<Rightarrow> git_call list desk code_ports" where
  "desk_code R =
     \<lparr>g_DefaultBranch = (\<lambda>repository. Pair (Inr ''main'')), g_PurgeEpic = (\<lambda>i. Pair None),
      g_Checkout = (\<lambda>checkout branch base. Pair (Inr ''/src'')),
      g_Resolve = (\<lambda>checkout ref. Pair (Inr ref)), g_CommitAll = (\<lambda>checkout message. Pair (Inr ''h1'')),
      g_CommitsSince = (\<lambda>checkout base. Pair (Inr [])), g_DescendsFrom = (\<lambda>checkout base. Pair (Inr True)),
      g_Push = (\<lambda>checkout branch w. (None, git (GitPush checkout branch) w)),
      g_DeleteBranch = (\<lambda>checkout branch w. (None, git (GitDelete checkout branch) w)),
      g_Merge = (\<lambda>checkout head base w. (None, git (GitMerge checkout head base) w)),
      g_InspectBranches = (\<lambda>i repository base hs. Pair (Inr (\<lambda>h. if h \<in> set hs then R repository base h else None)))\<rparr>"

definition idle_tracker :: "'x tracker_ports" where
  "idle_tracker =
     \<lparr>t_Mint = Pair ([], 0), t_ReadEpic = (\<lambda>i. Pair (Inl ErrNotExist)),
      t_UpdateEpic = (\<lambda>i change. Pair (Some ErrNotExist)), t_AgentSettings = Pair (Inl ErrNotExist),
      t_RepositorySettings = (\<lambda>repository. Pair (Inl ErrNotExist)), t_ReadFile = (\<lambda>path. Pair (Inl ErrNotExist))\<rparr>"

abbreviation desk_tracker :: "git_call list desk tracker_ports" where
  "desk_tracker \<equiv> store_tracker desk_codec desk_side idle_tracker"

definition desk_world :: "Epic \<Rightarrow> git_call list desk world" where
  "desk_world e = \<lparr>w_supervisor = NewRunSupervisor,
     w_ext = \<lparr>d_store = with_epic desk_codec e empty_store, d_abandoned = [], d_host = []\<rparr>\<rparr>"

lemma lines_back:
  "\<forall>s \<in> set xs. CHR 0x0A \<notin> set s \<Longrightarrow>
     butlast (split_on (CHR 0x0A) (concat (map (\<lambda>s. s @ [CHR 0x0A]) xs))) = xs"
  by (induction xs) (simp_all add: split_on_append)

lemma desk_codec_flags:
  assumes "\<forall>f \<in> set fs. isPullRequestFlag f"
  shows "unmarshal_flags desk_codec (marshal_flags desk_codec fs) = Inr fs"
proof -
  have "isPullRequestFlag f \<Longrightarrow> f \<in> set known_flags" for f
    by (cases f) (simp_all add: known_flags_def)
  with assms have known: "f \<in> set known_flags" if "f \<in> set fs" for f using that by blast
  have "\<forall>f \<in> set known_flags. CHR 0x0A \<notin> set (pull_request_flag_string f)"
    by (simp add: known_flags_def)
  with known have "butlast (split_on (CHR 0x0A) (concat (map (\<lambda>s. s @ [CHR 0x0A])
      (map pull_request_flag_string fs)))) = map pull_request_flag_string fs"
    by (intro lines_back) auto
  moreover have "(case find (\<lambda>g. pull_request_flag_string g = pull_request_flag_string f) known_flags of
      Some f \<Rightarrow> f | None \<Rightarrow> PullRequestFlagOther (pull_request_flag_string f)) = f"
    if "f \<in> set fs" for f
  proof -
    have "\<forall>f \<in> set known_flags. (case find (\<lambda>g. pull_request_flag_string g = pull_request_flag_string f) known_flags of
        Some f \<Rightarrow> f | None \<Rightarrow> PullRequestFlagOther (pull_request_flag_string f)) = f"
      by (simp add: known_flags_def)
    with known [OF that] show ?thesis by blast
  qed
  ultimately show ?thesis
    by (simp add: desk_codec_def example_codec_def Let_def o_def map_idI)
qed

text \<open>An epic whose parts have IDs of their own can be put on the desk.\<close>

lemma desk_world_filed:
  assumes inv: "loop_inv e" and faithful: "json_faithful desk_codec e"
    and ids: "ids_free desk_codec e empty_store"
  shows "filed (desk_held desk_codec) desk_good (desk_storable desk_codec) (e_ID e) (desk_world e) (canonical e)"
proof -
  have "without_epic (e_ID e) empty_store = empty_store" by (simp add: without_epic_def empty_store_def)
  with inv ids have wr: "WriteEpic desk_codec None e empty_store = (None, with_epic desk_codec e empty_store)"
    by (simp add: WriteEpic_iff store_ok_empty loop_inv_def)
  have "tracker desk_codec (with_epic desk_codec e empty_store) = [e_ID e \<mapsto> canonical e]"
    using tracker_WriteEpic [OF store_ok_empty faithful wr] by (simp add: tracker_empty)
  then show ?thesis
    using store_ok_WriteEpic [OF store_ok_empty wr] loop_inv_canonical [OF inv] faithful desk_codec_flags
    by (simp add: filed_def desk_held_def desk_good_def desk_storable_def desk_world_def json_faithful_canonical)
qed

text \<open>The example epic, its pull request approved and waiting, on the desk.\<close>

lemma example_inv: "loop_inv example_epic"
proof -
  have "phase example_pull_request = IssueStatePR" "rounds_inv example_pull_request"
    by (simp_all add: phase_def HasFlag_def example_pull_request_def rounds_inv_def counts_ok_def
      CanCode_def MaxCodingRounds_def)
  then show ?thesis
    using example_well_formed
    by (simp add: loop_inv_def in_phase_def example_epic_def) (simp add: example_pull_request_def)
qed

lemma example_desk:
  "filed (desk_held desk_codec) desk_good (desk_storable desk_codec) ''E1'' (desk_world example_epic)
     (canonical example_epic)"
proof -
  have "json_faithful desk_codec example_epic"
    by (simp add: json_faithful_def desk_codec_def example_codec_def example_epic_def example_pull_request_def)
  moreover have "ids_free desk_codec example_epic empty_store"
    by (simp add: ids_free_def fits_def example_epic_def example_pull_request_def
      empty_store_def issue_comment_rows_def pull_request_comment_rows_def)
  moreover have "e_ID example_epic = ''E1''" by (simp add: example_epic_def)
  ultimately show ?thesis using desk_world_filed [OF example_inv] by metis
qed

end
