(* ===== verification/Branch_Sweep.thy ===== *)
theory Branch_Sweep
  imports Epic_Desk
begin

text \<open>
  \<open>internal/application/usecases/review_approved_branches.go\<close>: the sweep that takes an approval
  back when base moved past its branch or somebody pushed to it.
\<close>

section \<open>The sweep\<close>

record remoteGroup =
  rg_repository :: string
  rg_base :: string
  rg_records :: "PullRequest list"

definition heads :: "remoteGroup \<Rightarrow> string list" where
  "heads g = map p_Head (rg_records g)"

definition group_key :: "PullRequest \<Rightarrow> string" where
  "group_key pullRequest = p_Repository pullRequest @ [CHR 0x00] @ p_Base pullRequest"

fun group_loop :: "Epic \<Rightarrow> PullRequest list \<Rightarrow> remoteGroup list \<Rightarrow> (string \<rightharpoonup> nat) \<Rightarrow> remoteGroup list" where
  "group_loop current [] groups index = groups"
| "group_loop current (pullRequest # pullRequests) groups index =
     (if \<not> awaitingMerge current pullRequest then group_loop current pullRequests groups index
      else
        case index (group_key pullRequest) of
          Some at \<Rightarrow>
            group_loop current pullRequests
              (groups[at := (groups ! at)\<lparr>rg_records := rg_records (groups ! at) @ [pullRequest]\<rparr>]) index
        | None \<Rightarrow>
            group_loop current pullRequests
              (groups @ [\<lparr>rg_repository = p_Repository pullRequest, rg_base = p_Base pullRequest,
                 rg_records = [pullRequest]\<rparr>])
              (index(group_key pullRequest \<mapsto> length groups)))"

definition groupByRemote :: "Epic \<Rightarrow> remoteGroup list" where
  "groupByRemote current = group_loop current (e_PullRequests current) [] Map.empty"

definition pushed_outside :: "PullRequest \<Rightarrow> string \<Rightarrow> string" where
  "pushed_outside pullRequest head =
     ''`'' @ p_Head pullRequest @ ''` was pushed to outside the loop and is now at '' @ short head @
     '', which the approval did not cover. Sending it back for review.''"

definition sweep_apply ::
    "'x tracker_ports \<Rightarrow> Epic \<Rightarrow> PullRequest \<Rightarrow> BranchState \<Rightarrow> 'x world \<Rightarrow> go_error option \<times> 'x world" where
  "sweep_apply T current pullRequest state w =
     (if bs_Behind state then t_UpdateEpic T (e_ID current) (plain (sweep_markStale pullRequest)) w
      else if p_ReviewedHead pullRequest = bs_Head state then (None, w)
      else t_UpdateEpic T (e_ID current)
             (minting T (\<lambda>ulid now. sendBackToReview ulid now pullRequest
                (pushed_outside pullRequest (bs_Head state)))) w)"

fun sweep_records ::
    "'x tracker_ports \<Rightarrow> Epic \<Rightarrow> (string \<rightharpoonup> BranchState) \<Rightarrow> PullRequest list \<Rightarrow> go_error list \<Rightarrow> 'x world \<Rightarrow>
       go_error list \<times> 'x world" where
  "sweep_records T current states [] failures w = (failures, w)"
| "sweep_records T current states (pullRequest # records) failures w =
     (case states (p_Head pullRequest) of
        None \<Rightarrow> sweep_records T current states records failures w
      | Some state \<Rightarrow>
          (case sweep_apply T current pullRequest state w of
             (Some err, w) \<Rightarrow>
               sweep_records T current states records
                 (failures @ [Wrapf ''issue %q: %w'' [GStr (p_IssueID pullRequest)] [err]]) w
           | (None, w) \<Rightarrow> sweep_records T current states records failures w))"

fun sweep_groups ::
    "'x code_ports \<Rightarrow> 'x tracker_ports \<Rightarrow> Epic \<Rightarrow> remoteGroup list \<Rightarrow> go_error list \<Rightarrow> 'x world \<Rightarrow>
       go_error list \<times> 'x world" where
  "sweep_groups C T current [] failures w = (failures, w)"
| "sweep_groups C T current (remote # remotes) failures w =
     (case g_InspectBranches C (e_ID current) (rg_repository remote) (rg_base remote) (heads remote) w of
        (Inl err, w) \<Rightarrow>
          sweep_groups C T current remotes
            (failures @ [Wrapf ''inspect %q: %w'' [GStr (rg_repository remote)] [err]]) w
      | (Inr states, w) \<Rightarrow>
          (case sweep_records T current states (rg_records remote) failures w of
             (failures, w) \<Rightarrow> sweep_groups C T current remotes failures w))"

definition ReviewApprovedBranches_Handle ::
    "'x code_ports option \<Rightarrow> 'x tracker_ports \<Rightarrow> string \<Rightarrow> 'x world \<Rightarrow> go_error option \<times> 'x world" where
  "ReviewApprovedBranches_Handle code T epicID w =
     (case code of
        None \<Rightarrow> (None, w)
      | Some C \<Rightarrow>
          (case t_ReadEpic T epicID w of
             (Inl err, w) \<Rightarrow> (Some err, w)
           | (Inr current, w) \<Rightarrow>
               (case sweep_groups C T current (groupByRemote current) [] w of
                  (failures, w) \<Rightarrow> (join_errors failures, w))))"

section \<open>What the groups hold\<close>

text \<open>The pull requests of an epic that wait for a person to merge them.\<close>

definition awaiting :: "Epic \<Rightarrow> PullRequest set" where
  "awaiting e = {p \<in> set (e_PullRequests e). awaitingMerge e p}"

text \<open>
  The index finds the group of a key, and every record of a group has the repository and the base the
  group is inspected under, as long as no repository name holds the separator.
\<close>

definition group_has :: "remoteGroup \<Rightarrow> PullRequest \<Rightarrow> bool" where
  "group_has g p \<longleftrightarrow> p_Repository p = rg_repository g \<and> p_Base p = rg_base g"

definition indexed :: "(string \<rightharpoonup> nat) \<Rightarrow> remoteGroup list \<Rightarrow> bool" where
  "indexed index groups \<longleftrightarrow>
     (\<forall>key k. index key = Some k \<longrightarrow> k < length groups \<and>
        rg_repository (groups ! k) @ [CHR 0x00] @ rg_base (groups ! k) = key \<and>
        CHR 0x00 \<notin> set (rg_repository (groups ! k))) \<and>
     (\<forall>g \<in> set groups. \<forall>p \<in> set (rg_records g). group_has g p)"

lemma cut_at_first: "a @ x # b = c @ x # d \<Longrightarrow> x \<notin> set a \<Longrightarrow> x \<notin> set c \<Longrightarrow> a = c \<and> b = d"
  by (induction a arbitrary: c) (case_tac c; auto)+

lemma group_loop_records:
  assumes "indexed index groups" and "\<forall>p \<in> set ps. CHR 0x00 \<notin> set (p_Repository p)"
  shows "mset (concat (map rg_records (group_loop current ps groups index))) =
      mset (concat (map rg_records groups)) + mset (filter (awaitingMerge current) ps) \<and>
    (\<forall>g \<in> set (group_loop current ps groups index). \<forall>p \<in> set (rg_records g). group_has g p)"
  using assms
proof (induction current ps groups index rule: group_loop.induct)
  case (1 current groups index)
  then show ?case by (simp add: indexed_def)
next
  case (2 current p ps groups index)
  note inv = 2(4) and plain = 2(5)
  show ?case
  proof (cases "awaitingMerge current p")
    case False
    with 2 show ?thesis by simp
  next
    case True
    note waits = this
    show ?thesis
    proof (cases "index (group_key p)")
      case None
      let ?groups = "groups @ [\<lparr>rg_repository = p_Repository p, rg_base = p_Base p, rg_records = [p]\<rparr>]"
      have "indexed (index(group_key p \<mapsto> length groups)) ?groups"
        using inv plain by (fastforce simp: indexed_def group_has_def group_key_def nth_append)
      from 2(2) [OF _ None this] waits None plain show ?thesis by (simp del: fun_upd_apply)
    next
      case (Some at)
      let ?g = "(groups ! at)\<lparr>rg_records := rg_records (groups ! at) @ [p]\<rparr>"
      from inv Some have at: "at < length groups"
        and key: "rg_repository (groups ! at) @ [CHR 0x00] @ rg_base (groups ! at) = group_key p"
        and nul: "CHR 0x00 \<notin> set (rg_repository (groups ! at))"
        by (auto simp: indexed_def)
      have "group_has (groups ! at) p"
        using cut_at_first key nul plain unfolding group_has_def group_key_def
        by (metis append_Cons append_Nil list.set_intros(1))
      then have has: "group_has ?g p" and same: "group_has ?g q = group_has (groups ! at) q" for q
        by (simp_all add: group_has_def)
      have "indexed index (groups[at := ?g])"
        unfolding indexed_def
      proof (intro conjI allI impI ballI)
        fix key' k assume "index key' = Some k"
        with inv have "k < length groups" "rg_repository (groups ! k) @ [CHR 0x00] @ rg_base (groups ! k) = key'"
          "CHR 0x00 \<notin> set (rg_repository (groups ! k))" by (simp_all add: indexed_def)
        moreover have "rg_repository (groups[at := ?g] ! k) = rg_repository (groups ! k)"
          "rg_base (groups[at := ?g] ! k) = rg_base (groups ! k)"
          using at by (cases "k = at"; simp)+
        ultimately show "k < length (groups[at := ?g])"
          "rg_repository (groups[at := ?g] ! k) @ [CHR 0x00] @ rg_base (groups[at := ?g] ! k) = key'"
          "CHR 0x00 \<notin> set (rg_repository (groups[at := ?g] ! k))"
          by simp_all
      next
        fix g q assume g: "g \<in> set (groups[at := ?g])" "q \<in> set (rg_records g)"
        from g(1) have "g = ?g \<or> g \<in> set groups" using set_update_subset_insert by fastforce
        moreover have "groups ! at \<in> set groups" using at by simp
        ultimately show "group_has g q"
          using inv g(2) same has by (auto simp: indexed_def)
      qed
      note ih = 2(3) [OF _ Some this]
      obtain ys zs where split: "groups = ys @ (groups ! at) # zs" "length ys = at"
        using at by (metis id_take_nth_drop length_take min.absorb4)
      have "groups[at := ?g] = ys @ ?g # zs" by (metis split list_update_length)
      moreover have "concat (map rg_records groups) =
          concat (map rg_records ys) @ rg_records (groups ! at) @ concat (map rg_records zs)"
        by (subst split(1)) simp
      ultimately have "mset (concat (map rg_records (groups[at := ?g]))) =
          mset (concat (map rg_records groups)) + {#p#}"
        by (simp add: union_ac)
      with ih waits Some plain show ?thesis by simp
    qed
  qed
qed

lemma groupByRemote_records:
  assumes "\<forall>p \<in> set (e_PullRequests e). CHR 0x00 \<notin> set (p_Repository p)"
  shows "mset (concat (map rg_records (groupByRemote e))) = mset (filter (awaitingMerge e) (e_PullRequests e))"
    "g \<in> set (groupByRemote e) \<Longrightarrow> p \<in> set (rg_records g) \<Longrightarrow> group_has g p"
  using group_loop_records [of Map.empty "[]", OF _ assms] by (auto simp: groupByRemote_def indexed_def)

section \<open>What a step of the sweep does\<close>

lemma awaitingMerge_iff:
  assumes "distinct (map i_ID (e_Issues e))"
  shows "awaitingMerge e p \<longleftrightarrow> p_Status p = PullRequestOpen \<and> p_Approved p \<and>
    (\<exists>i \<in> set (e_Issues e). i_ID i = p_IssueID p \<and> i_State i = IssueStatePR)"
proof (cases "FindIssue e (p_IssueID p)")
  case (Inl err)
  then have "p_IssueID p \<notin> issue_ids e" using FindIssue_Inl by blast
  then have "i_ID i \<noteq> p_IssueID p" if "i \<in> set (e_Issues e)" for i
    using that by (metis imageI issue_ids_def)
  with Inl show ?thesis by (auto simp: awaitingMerge_def)
next
  case (Inr j)
  from FindIssue_Inr [OF Inr] have "j \<in> set (e_Issues e)" "i_ID j = p_IssueID p" by simp_all
  moreover from this have "i = j" if "i \<in> set (e_Issues e)" "i_ID i = p_IssueID p" for i
    using distinct_map_unique [OF assms that(1)] that(2) by simp
  ultimately have "i_State j = IssueStatePR \<longleftrightarrow>
      (\<exists>i \<in> set (e_Issues e). i_ID i = p_IssueID p \<and> i_State i = IssueStatePR)" by blast
  then show ?thesis
    unfolding awaitingMerge_def Inr by (cases "p_Status p = PullRequestOpen"; cases "p_Approved p") simp_all
qed

lemma awaiting_put:
  assumes inv: "loop_inv e" and p: "p \<in> awaiting e" and q: "record_step p q" and s: "s \<noteq> IssueStatePR"
  shows "awaiting (put_state (p_IssueID p) s (put_pull_request q e)) = awaiting e - {p}"
proof -
  let ?d = "put_state (p_IssueID p) s (put_pull_request q e)"
  note facts = loop_inv_facts [OF inv]
  have p': "p \<in> set (e_PullRequests e)" "p_Status p = PullRequestOpen"
    using p awaitingMerge_phase [OF inv] by (auto simp: awaiting_def)
  from facts(6) [OF p'] obtain i where i: "i \<in> set (e_Issues e)" "i_ID i = p_IssueID p"
    by (auto simp: in_phase_def)
  have prs: "set (e_PullRequests ?d) = insert q (set (e_PullRequests e) - {p})"
    using put_pull_request_set [OF facts(1) p'(1)] q by (simp add: record_step_def)
  have issues: "set (e_Issues ?d) = insert (i\<lparr>i_State := s\<rparr>) (set (e_Issues e) - {i})"
    using put_state_set [of "put_pull_request q e" i s] facts(2) i by simp
  have d: "distinct (map i_ID (e_Issues ?d))" using facts(2) by simp
  have only: "j = i" if "j \<in> set (e_Issues e)" "i_ID j = p_IssueID p" for j
    using distinct_map_unique [OF facts(2) that(1) i(1)] that(2) i(2) by simp
  have here: "\<not> awaitingMerge ?d r" if "p_IssueID r = p_IssueID p" for r
    unfolding awaitingMerge_iff [OF d] issues using that s only by auto
  have there: "awaitingMerge ?d r = awaitingMerge e r" if "p_IssueID r \<noteq> p_IssueID p" for r
    unfolding awaitingMerge_iff [OF d] awaitingMerge_iff [OF facts(2)] issues using that i by auto
  have uniq: "r = p" if "r \<in> set (e_PullRequests e)" "awaitingMerge e r" "p_IssueID r = p_IssueID p" for r
    using inv p' that awaitingMerge_iff [OF facts(2)] unfolding loop_inv_def by blast
  have "p_IssueID q = p_IssueID p" using q by (simp add: record_step_def)
  then show ?thesis
    unfolding awaiting_def prs using here there uniq p by (auto simp: awaiting_def)
qed

lemma awaiting_canonical:
  assumes inv: "loop_inv e" and tidy: "canonical e = e" and d: "distinct (map i_ID (e_Issues d))"
    and sub: "awaiting d \<subseteq> awaiting e"
  shows "awaiting (canonical d) = awaiting d"
proof -
  have "distinct (map i_ID (e_Issues (canonical d)))"
    using d mset_eq_imp_distinct_iff [OF canonical_ids] by blast
  then have "awaitingMerge (canonical d) (canonical_pull_request p) = awaitingMerge d p" for p
    unfolding awaitingMerge_iff [OF d]
    by (simp add: awaitingMerge_iff set_canonical_issues canonical_pull_request_def)
  then have image: "awaiting (canonical d) = canonical_pull_request ` awaiting d"
    by (auto simp: awaiting_def set_canonical_pull_requests)
  have "canonical_pull_request p = p" if "p \<in> awaiting d" for p
    using that sub tidy_parts(2) [OF tidy] by (auto simp: awaiting_def)
  then show ?thesis unfolding image by force
qed

section \<open>The sweep of a tracker\<close>

text \<open>What the remote says of a head, and that an inspection reports it.\<close>

type_synonym remote = "string \<Rightarrow> string \<Rightarrow> string \<rightharpoonup> BranchState"

definition stale_state :: "PullRequest \<Rightarrow> BranchState option \<Rightarrow> bool" where
  "stale_state p state =
     (case state of None \<Rightarrow> False | Some s \<Rightarrow> bs_Behind s \<or> p_ReviewedHead p \<noteq> bs_Head s)"

definition outdated :: "remote \<Rightarrow> PullRequest \<Rightarrow> bool" where
  "outdated R p = stale_state p (R (p_Repository p) (p_Base p) (p_Head p))"

definition inspects :: "remote \<Rightarrow> ('x world \<Rightarrow> 'o) \<Rightarrow> 'x code_ports \<Rightarrow> bool" where
  "inspects R obs C \<longleftrightarrow>
     (\<forall>i repository base hs. silent obs (g_InspectBranches C i repository base hs)) \<and>
     (\<forall>i repository base hs w states w'.
        g_InspectBranches C i repository base hs w = (Inr states, w') \<longrightarrow>
        (\<forall>h \<in> set hs. states h = R repository base h))"

text \<open>How far a sweep got: what is gone is out of date, and without a failure all of that is gone.\<close>

definition swept :: "Epic \<Rightarrow> Epic \<Rightarrow> PullRequest set \<Rightarrow> go_error list \<Rightarrow> go_error list \<Rightarrow> bool" where
  "swept e e' stale failures failures' \<longleftrightarrow>
     desk_step\<^sup>*\<^sup>* e e' \<and> awaiting e - stale \<subseteq> awaiting e' \<and> awaiting e' \<subseteq> awaiting e \<and>
     (failures' = [] \<longrightarrow> failures = [] \<and> awaiting e' = awaiting e - stale)"

lemma swept_trans:
  assumes "swept e e1 A f f1" "swept e1 e2 B f1 f2"
  shows "swept e e2 (A \<union> B) f f2"
  using assms unfolding swept_def by (auto intro: rtranclp_trans)

lemma swept_refl: "f' = [] \<longrightarrow> f = [] \<Longrightarrow> A \<inter> awaiting e = {} \<or> f' \<noteq> [] \<Longrightarrow> swept e e A f f'"
  by (auto simp: swept_def)

context epic_tracker
begin

lemma sweep_apply_spec:
  assumes run: "sweep_apply T e0 p state w = (r, w')" and e0: "e_ID e0 = i"
    and at: "filed held good storable i w e" and p: "p \<in> awaiting e"
  shows "\<exists>e'. filed held good storable i w' e' \<and> desk_step\<^sup>*\<^sup>* e e' \<and>
    awaiting e' = (if r = None \<and> stale_state p (Some state) then awaiting e - {p} else awaiting e)"
proof -
  have inv: "loop_inv e" and good: "good w" and held: "held w i = Some e" and st: "storable e"
    using at by (simp_all add: filed_def)
  have tidy: "canonical e = e" using held_tidy [OF held] by simp
  from p have p': "p \<in> set (e_PullRequests e)" "awaitingMerge e p" by (simp_all add: awaiting_def)
  note phase = awaitingMerge_phase [OF inv p']
  have moved: "awaiting (canonical d) = awaiting e - {p}"
    if d: "d = put_state (p_IssueID p) s (put_pull_request q e)" and q: "record_step p q" and s: "s \<noteq> IssueStatePR"
    for d q s
  proof -
    have a: "awaiting d = awaiting e - {p}" unfolding d by (rule awaiting_put [OF inv p q s])
    have "distinct (map i_ID (e_Issues d))" unfolding d using loop_inv_facts(2) [OF inv] by simp
    from awaiting_canonical [OF inv tidy this] a show ?thesis by blast
  qed
  consider (behind) "bs_Behind state" | (current) "\<not> bs_Behind state" "p_ReviewedHead p = bs_Head state"
    | (pushed) "\<not> bs_Behind state" "p_ReviewedHead p \<noteq> bs_Head state" by blast
  then show ?thesis
  proof cases
    case behind
    then have "t_UpdateEpic T i (plain (sweep_markStale p)) w = (r, w')"
      using run e0 by (simp add: sweep_apply_def)
    then show ?thesis
    proof (rule plain_cases [OF _ good held st frames_changes(1)])
      fix err assume "r = Some err" "held w' = held w" "good w'"
      with at good show ?thesis by (auto simp: filed_def)
    next
      fix d assume r: "r = None" and d: "sweep_markStale p e = (None, d)" and ok: "good w'"
        "held w' i = Some (canonical d)" "storable (canonical d)"
      obtain q where q: "d = put_state (p_IssueID p) IssueStateStale (put_pull_request q e)" "record_step p q"
        using sweep_markStale_form [OF inv p'(1) _ d] phase by blast
      from filed_step [OF at r_into_rtranclp [of loop_step, OF loop_step.Stales [OF p' d]] ok(1-3)] moved [OF q] r behind show ?thesis
        by (auto simp: stale_state_def)
    qed
  next
    case current
    with run at show ?thesis by (auto simp: sweep_apply_def stale_state_def)
  next
    case pushed
    then have "t_UpdateEpic T i (minting T (\<lambda>ulid now. sendBackToReview ulid now p
        (pushed_outside p (bs_Head state)))) w = (r, w')"
      using run e0 by (simp add: sweep_apply_def)
    then show ?thesis
    proof (rule minting_cases [OF _ good held st frames_changes(2)])
      fix err assume "r = Some err" "held w' = held w" "good w'"
      with at good show ?thesis by (auto simp: filed_def)
    next
      fix ulid now d assume r: "r = None"
        and d: "sendBackToReview ulid now p (pushed_outside p (bs_Head state)) e = (None, d)" and ok: "good w'"
        "held w' i = Some (canonical d)" "storable (canonical d)"
      obtain q where q: "d = put_state (p_IssueID p) IssueStateReview (put_pull_request q e)" "record_step p q"
        using sendBackToReview_form [OF inv p'(1) _ _ d] phase by blast
      from filed_step [OF at r_into_rtranclp [of loop_step, OF loop_step.Pushed [OF p' d]] ok(1-3)] moved [OF q] r pushed show ?thesis
        by (auto simp: stale_state_def)
    qed
  qed
qed

lemma sweep_records_spec:
  assumes "sweep_records T e0 states records failures w = (failures', w')" "e_ID e0 = i"
    and "filed held good storable i w e" "set records \<subseteq> awaiting e" "distinct records"
  shows "\<exists>e'. filed held good storable i w' e' \<and>
    swept e e' {p \<in> set records. stale_state p (states (p_Head p))} failures failures'"
  using assms
proof (induction records arbitrary: failures w e)
  case Nil
  then show ?case by (auto intro: swept_refl)
next
  case (Cons p records)
  let ?stale = "\<lambda>ps. {p \<in> set ps. stale_state p (states (p_Head p))}"
  have p: "p \<in> awaiting e" "p \<notin> set records" "set records \<subseteq> awaiting e" "distinct records"
    using Cons.prems by auto
  show ?case
  proof (cases "states (p_Head p)")
    case None
    with Cons.prems have "sweep_records T e0 states records failures w = (failures', w')" by simp
    moreover have "?stale (p # records) = ?stale records" using None by (auto simp: stale_state_def)
    ultimately show ?thesis using Cons.IH [OF _ Cons.prems(2,3) p(3,4)] by metis
  next
    case (Some state)
    obtain r w1 where a: "sweep_apply T e0 p state w = (r, w1)" by fastforce
    from sweep_apply_spec [OF a Cons.prems(2,3) p(1)] obtain e1 where
      e1: "filed held good storable i w1 e1" "desk_step\<^sup>*\<^sup>* e e1"
      "awaiting e1 = (if r = None \<and> stale_state p (Some state) then awaiting e - {p} else awaiting e)" by blast
    with p have sub: "set records \<subseteq> awaiting e1" by auto
    let ?f = "case r of None \<Rightarrow> failures
      | Some err \<Rightarrow> failures @ [Wrapf ''issue %q: %w'' [GStr (p_IssueID p)] [err]]"
    have "sweep_records T e0 states records ?f w1 = (failures', w')"
      using Cons.prems(1) Some a by (cases r) auto
    from Cons.IH [OF this Cons.prems(2) e1(1) sub p(4)] obtain e' where
      e': "filed held good storable i w' e'" "swept e1 e' (?stale records) ?f failures'" by blast
    have "swept e e1 (?stale [p]) failures ?f"
      using e1(2,3) p(1) Some by (cases r) (auto simp: swept_def)
    from swept_trans [OF this e'(2)] have "swept e e' (?stale [p] \<union> ?stale records) failures failures'" .
    moreover have "?stale [p] \<union> ?stale records = ?stale (p # records)" by auto
    ultimately have "swept e e' (?stale (p # records)) failures failures'" by (simp only:)
    with e'(1) show ?thesis by blast
  qed
qed

lemma sweep_groups_spec:
  assumes "sweep_groups C T e0 groups failures w = (failures', w')" "e_ID e0 = i"
    and "filed held good storable i w e" "set (concat (map rg_records groups)) \<subseteq> awaiting e"
    and "distinct (concat (map rg_records groups))"
    and "\<forall>g \<in> set groups. \<forall>p \<in> set (rg_records g). group_has g p"
    and C: "inspects R (\<lambda>w. (held w, good w)) C"
  shows "\<exists>e'. filed held good storable i w' e' \<and>
    swept e e' {p \<in> set (concat (map rg_records groups)). outdated R p} failures failures'"
  using assms(1-6)
proof (induction groups arbitrary: failures w e)
  case Nil
  then show ?case by (auto intro: swept_refl)
next
  case (Cons g groups)
  let ?out = "\<lambda>gs. {p \<in> set (concat (map rg_records gs)). outdated R p}"
  have split: "?out (g # groups) = {p \<in> set (rg_records g). outdated R p} \<union> ?out groups" by auto
  obtain r w1 where ins: "g_InspectBranches C (e_ID e0) (rg_repository g) (rg_base g) (heads g) w = (r, w1)"
    by fastforce
  have at: "filed held good storable i w1 e"
  proof -
    have "silent (\<lambda>w. (held w, good w))
        (g_InspectBranches C (e_ID e0) (rg_repository g) (rg_base g) (heads g))"
      using C by (simp add: inspects_def)
    from filed_frame [OF Cons.prems(3) view_D [OF this ins]] show ?thesis .
  qed
  show ?case
  proof (cases r)
    case (Inl err)
    let ?f = "failures @ [Wrapf ''inspect %q: %w'' [GStr (rg_repository g)] [err]]"
    have "sweep_groups C T e0 groups ?f w1 = (failures', w')" using Cons.prems(1) ins Inl by simp
    from Cons.IH [OF this Cons.prems(2) at] Cons.prems(4-6) obtain e' where
      e': "filed held good storable i w' e'" "swept e e' (?out groups) ?f failures'" by auto
    have "swept e e {p \<in> set (rg_records g). outdated R p} failures ?f" by (rule swept_refl) auto
    from swept_trans [OF this e'(2)] e'(1) show ?thesis unfolding split by blast
  next
    case (Inr states)
    obtain f1 w2 where rec: "sweep_records T e0 states (rg_records g) failures w1 = (f1, w2)" by fastforce
    have "states (p_Head p) = R (p_Repository p) (p_Base p) (p_Head p)" if "p \<in> set (rg_records g)" for p
    proof -
      have "p_Head p \<in> set (heads g)" using that by (simp add: heads_def)
      then have "states (p_Head p) = R (rg_repository g) (rg_base g) (p_Head p)"
        using C ins Inr unfolding inspects_def by blast
      moreover have "group_has g p" using Cons.prems(6) that by simp
      ultimately show ?thesis by (simp add: group_has_def)
    qed
    then have same: "{p \<in> set (rg_records g). stale_state p (states (p_Head p))} = {p \<in> set (rg_records g). outdated R p}"
      by (auto simp: outdated_def)
    from sweep_records_spec [OF rec Cons.prems(2) at] Cons.prems(4,5) obtain e1 where
      e1: "filed held good storable i w2 e1" "swept e e1 {p \<in> set (rg_records g). outdated R p} failures f1"
      unfolding same by auto
    have rest: "sweep_groups C T e0 groups f1 w2 = (failures', w')"
      using Cons.prems(1) ins Inr rec by simp
    have "set (concat (map rg_records groups)) \<subseteq> awaiting e1"
    proof
      fix p assume p: "p \<in> set (concat (map rg_records groups))"
      then have "p \<in> awaiting e" "p \<notin> set (rg_records g)" using Cons.prems(4,5) by auto
      then show "p \<in> awaiting e1" using e1(2) unfolding swept_def by blast
    qed
    from Cons.IH [OF rest Cons.prems(2) e1(1) this] Cons.prems(5,6) obtain e' where
      e': "filed held good storable i w' e'" "swept e1 e' (?out groups) f1 failures'" by auto
    from swept_trans [OF e1(2) e'(2)] e'(1) show ?thesis unfolding split by blast
  qed
qed

lemma sweep_spec:
  assumes run: "ReviewApprovedBranches_Handle (Some C) T i w = (r, w')"
    and at: "filed held good storable i w e" and C: "inspects R (\<lambda>w. (held w, good w)) C"
    and plain: "\<forall>p \<in> set (e_PullRequests e). CHR 0x00 \<notin> set (p_Repository p)"
  shows "\<exists>e'. filed held good storable i w' e' \<and> desk_step\<^sup>*\<^sup>* e e' \<and>
    awaiting e' \<subseteq> awaiting e \<and> {p \<in> awaiting e. \<not> outdated R p} \<subseteq> awaiting e' \<and>
    (r = None \<longrightarrow> awaiting e' = {p \<in> awaiting e. \<not> outdated R p})"
proof -
  obtain x w1 where rd: "t_ReadEpic T i w = (x, w1)" by fastforce
  have at1: "filed held good storable i w1 e"
    using view_D [OF read_silent rd] by (intro filed_frame [OF at])
  show ?thesis
  proof (cases x)
    case (Inl err)
    with run rd at1 show ?thesis by (auto simp: ReviewApprovedBranches_Handle_def)
  next
    case (Inr e0)
    from read_held [OF rd [unfolded Inr]] at have e0: "e0 = e" by (simp add: filed_def)
    have inv: "loop_inv e" and id: "e_ID e = i" using at held_tidy by (auto simp: filed_def)
    obtain failures w2 where s: "sweep_groups C T e (groupByRemote e) [] w1 = (failures, w2)" by fastforce
    with run rd Inr e0 have r: "r = join_errors failures" "w' = w2"
      by (auto simp: ReviewApprovedBranches_Handle_def)
    note records = groupByRemote_records [OF plain]
    have set: "set (concat (map rg_records (groupByRemote e))) = awaiting e"
      using mset_eq_setD [OF records(1)] by (auto simp: awaiting_def)
    have "distinct (e_PullRequests e)" using loop_inv_facts(1) [OF inv] by (auto simp: distinct_map)
    then have "distinct (concat (map rg_records (groupByRemote e)))"
      using mset_eq_imp_distinct_iff [OF records(1)] by simp
    with sweep_groups_spec [OF s id at1 _ _ _ C] set records(2) obtain e' where
      "filed held good storable i w2 e'"
      "swept e e' {p \<in> set (concat (map rg_records (groupByRemote e))). outdated R p} [] failures" by blast
    then have "filed held good storable i w2 e'" "swept e e' {p \<in> awaiting e. outdated R p} [] failures"
      by (simp_all only: set)
    then show ?thesis unfolding r swept_def by (intro exI [of _ e']) auto
  qed
qed

end

section \<open>The sweep of the tables\<close>


abbreviation example_remote :: remote where
  "example_remote \<equiv> \<lambda>repository base head. Some \<lparr>bs_Head = ''h2'', bs_Behind = False\<rparr>"


end
