(* ===== verification/Branch_Opening.thy ===== *)
theory Branch_Opening
  imports Epic_Desk "HOL-Library.AList"
begin

text \<open>
  \<open>internal/application/usecases/open_pull_requests.go\<close>: the handoff from drafting to
  implementation. An issue that waits for nothing gets a branch and a pull request, and the flags
  that say a pull request is blocked follow the tree.
\<close>

section \<open>The handler\<close>

text \<open>
  \<open>stale\<close> is a Go map, an association list here; the order in which \<open>range\<close> visits it is a parameter.
\<close>

fun stale_flags :: "Epic \<Rightarrow> PullRequest list \<Rightarrow> (string \<times> bool) list \<Rightarrow> (string \<times> bool) list" where
  "stale_flags current [] stale = stale"
| "stale_flags current (pullRequest # pullRequests) stale =
     (if p_Status pullRequest \<noteq> PullRequestOpen then stale_flags current pullRequests stale
      else
        let blocked = Blocked current (p_IssueID pullRequest)
        in stale_flags current pullRequests
             (if HasFlag pullRequest FlagBlocked \<noteq> blocked then AList.update (p_ID pullRequest) blocked stale
              else stale))"

definition set_blocked :: "(string \<times> bool) list \<Rightarrow> Epic update" where
  "set_blocked stale =
     do_each (\<lambda>(id', blocked). UpdatePullRequest id' (SetFlag FlagBlocked blocked)) stale"

definition resyncBlocked ::
    "((string \<times> bool) list \<Rightarrow> (string \<times> bool) list) \<Rightarrow> 'x tracker_ports \<Rightarrow> Epic \<Rightarrow> 'x world \<Rightarrow>
       go_error option \<times> 'x world" where
  "resyncBlocked order T current w =
     (let stale = stale_flags current (e_PullRequests current) []
      in if stale = [] then (None, w)
         else t_UpdateEpic T (e_ID current) (plain (set_blocked (order stale))) w)"

definition issue_checkout :: "Epic \<Rightarrow> Issue \<Rightarrow> CodeCheckout" where
  "issue_checkout current issue =
     \<lparr>co_EpicID = e_ID current, co_IssueID = i_ID issue, co_Repository = i_Repository issue\<rparr>"

definition open_branch ::
    "'x code_ports \<Rightarrow> 'x tracker_ports \<Rightarrow> Epic \<Rightarrow> Issue \<Rightarrow> (unit, 'x) io" where
  "open_branch C T current issue w =
     (case g_DefaultBranch C (i_Repository issue) w of
        (Inl err, w) \<Rightarrow>
          (Inl (Wrapf ''resolve default branch for %s: %w'' [GStr (i_Repository issue)] [err]), w)
      | (Inr base, w) \<Rightarrow>
          (let branch = BranchName current issue; checkout = issue_checkout current issue
           in calling (g_Checkout C checkout branch base) (\<lambda>_.
                calling (doing (g_Push C checkout branch)) (\<lambda>_.
                  doing (t_UpdateEpic T (e_ID current)
                    (minting T (\<lambda>ulid now. open_pull_request ulid now issue branch base))))) w))"

definition wants_branch :: "Epic \<Rightarrow> Issue \<Rightarrow> bool" where
  "wants_branch current issue \<longleftrightarrow>
     \<not> (i_ParentID issue = [] \<or> i_State issue \<noteq> IssueStateOpen) \<and>
     \<not> Blocked current (i_ID issue) \<and> OpenPullRequestFor current (i_ID issue) = None"

fun open_branches ::
    "'x code_ports \<Rightarrow> 'x tracker_ports \<Rightarrow> Epic \<Rightarrow> Issue list \<Rightarrow> nat \<Rightarrow> 'x world \<Rightarrow>
       (nat \<times> go_error option) \<times> 'x world" where
  "open_branches C T current [] opened w = ((opened, None), w)"
| "open_branches C T current (issue # issues) opened w =
     (if \<not> wants_branch current issue then open_branches C T current issues opened w
      else
        case open_branch C T current issue w of
          (Inl err, w) \<Rightarrow> ((opened, Some err), w)
        | (Inr _, w) \<Rightarrow> open_branches C T current issues (opened + 1) w)"

definition OpenPullRequests_Handle ::
    "((string \<times> bool) list \<Rightarrow> (string \<times> bool) list) \<Rightarrow> 'x code_ports option \<Rightarrow> 'x tracker_ports \<Rightarrow> string \<Rightarrow>
       'x world \<Rightarrow> (nat \<times> go_error option) \<times> 'x world" where
  "OpenPullRequests_Handle order code T epicID w =
     (case code of
        None \<Rightarrow> ((0, Some (Errorf ''no code workspace is configured to cut branches in'' [])), w)
      | Some C \<Rightarrow>
          (case t_ReadEpic T epicID w of
             (Inl err, w) \<Rightarrow> ((0, Some err), w)
           | (Inr current, w) \<Rightarrow>
               if e_State current \<noteq> EpicStateReady then ((0, None), w)
               else
                 (case resyncBlocked order T current w of
                    (Some err, w) \<Rightarrow> ((0, Some err), w)
                  | (None, w) \<Rightarrow> open_branches C T current (e_Issues current) 0 w)))"

section \<open>The flags\<close>

definition flagged :: "(string \<rightharpoonup> bool) \<Rightarrow> PullRequest \<Rightarrow> PullRequest" where
  "flagged m p = (case m (p_ID p) of None \<Rightarrow> p | Some b \<Rightarrow> snd (SetFlag FlagBlocked b p))"

lemma flagged_fields:
  "p_ID (flagged m p) = p_ID p" "p_IssueID (flagged m p) = p_IssueID p" "p_Status (flagged m p) = p_Status p"
  "HasFlag (flagged m p) FlagBlocked = (case m (p_ID p) of None \<Rightarrow> HasFlag p FlagBlocked | Some b \<Rightarrow> b)"
  "canonical_pull_request (flagged m p) = flagged m (canonical_pull_request p)"
  by (auto simp: flagged_def SetFlag_snd HasFlag_iff canonical_pull_request_def split: option.split)

lemma frames_set_blocked [framing]: "frames (set_blocked kvs)"
proof -
  have "frames (\<lambda>e. (None, e))" by (simp add: frames_def)
  then show ?thesis
    unfolding set_blocked_def
  proof (induction kvs)
    case Nil
    then show ?case by (simp add: frames_def)
  next
    case (Cons kv kvs)
    have "do_each f (x # xs) = then_do (f x) (do_each f xs)" for f :: "string \<times> bool \<Rightarrow> Epic update" and x xs
      by (rule ext) simp
    with Cons show ?case by (cases kv) (auto intro!: framing)
  qed
qed

lemma set_blocked_spec:
  assumes "set_blocked kvs e = (None, d)" "loop_inv e" "distinct (map fst kvs)"
    and "\<forall>(k, b) \<in> set kvs. \<exists>p \<in> set (e_PullRequests e). p_ID p = k \<and> p_Status p = PullRequestOpen"
  shows "loop_step\<^sup>*\<^sup>* e d \<and> e_Issues d = e_Issues e \<and> set (e_PullRequests d) = flagged (map_of kvs) ` set (e_PullRequests e)"
  using assms
proof (induction kvs arbitrary: e)
  case Nil
  then show ?case by (simp add: set_blocked_def flagged_def [abs_def])
next
  case (Cons kv kvs)
  obtain k b where kv: "kv = (k, b)" by fastforce
  from Cons.prems(4) kv obtain p where p: "p \<in> set (e_PullRequests e)" "p_ID p = k" "p_Status p = PullRequestOpen"
    by auto
  from Cons.prems(1) obtain e1 where e1: "UpdatePullRequest k (SetFlag FlagBlocked b) e = (None, e1)"
    and rest: "set_blocked kvs e1 = (None, d)"
    by (auto simp: set_blocked_def kv then_do_None_iff)
  let ?q = "snd (SetFlag FlagBlocked b p)"
  note dp = loop_inv_facts(1) [OF Cons.prems(2)]
  have id: "p_ID ?q = p_ID p" by (simp add: SetFlag_snd)
  have form: "e1 = put_pull_request ?q e"
    using e1 UpdatePullRequest_eq [OF dp p(1), of "SetFlag FlagBlocked b" e1] id
    by (auto simp: p(2) put_pull_request_def prod_eq_iff)
  have step: "loop_step e e1" by (rule loop_step.Flagged [OF p(1,3)]) (use e1 p(2) in simp)
  have inv: "loop_inv e1" by (rule loop_inv_step [OF Cons.prems(2) step])
  have prs: "set (e_PullRequests e1) = insert ?q (set (e_PullRequests e) - {p})"
    unfolding form by (rule put_pull_request_set [OF dp p(1) id])
  have fresh: "k \<notin> fst ` set kvs" using Cons.prems(3) by (simp add: kv)
  have "\<forall>(k', b) \<in> set kvs. \<exists>p \<in> set (e_PullRequests e1). p_ID p = k' \<and> p_Status p = PullRequestOpen"
  proof clarify
    fix k' b' assume k': "(k', b') \<in> set kvs"
    with Cons.prems(4) kv obtain r where r: "r \<in> set (e_PullRequests e)" "p_ID r = k'" "p_Status r = PullRequestOpen"
      by auto
    from k' fresh have "k' \<noteq> k" by force
    with r p prs show "\<exists>p \<in> set (e_PullRequests e1). p_ID p = k' \<and> p_Status p = PullRequestOpen" by auto
  qed
  with Cons.IH [OF rest inv] Cons.prems(3) kv have
    ih: "loop_step\<^sup>*\<^sup>* e1 d" "e_Issues d = e_Issues e1" "set (e_PullRequests d) = flagged (map_of kvs) ` set (e_PullRequests e1)"
    by simp_all
  have "map_of kvs k = None" using fresh by (simp add: map_of_eq_None_iff)
  then have q: "flagged (map_of kvs) ?q = flagged (map_of (kv # kvs)) p"
    by (simp add: flagged_def id p(2) kv)
  have other: "flagged (map_of kvs) r = flagged (map_of (kv # kvs)) r" if "r \<in> set (e_PullRequests e) - {p}" for r
  proof -
    have "p_ID r \<noteq> k" using distinct_map_unique [OF dp, of r p] that p by auto
    then show ?thesis by (simp add: flagged_def kv)
  qed
  have "flagged (map_of kvs) ` set (e_PullRequests e1) = flagged (map_of (kv # kvs)) ` set (e_PullRequests e)"
    unfolding prs image_insert q using other p(1) by (auto simp: image_iff)
  with ih(3) have "set (e_PullRequests d) = flagged (map_of (kv # kvs)) ` set (e_PullRequests e)" by (rule trans)
  moreover have "loop_step\<^sup>*\<^sup>* e d" by (rule converse_rtranclp_into_rtranclp [of loop_step, OF step ih(1)])
  moreover have "e_Issues d = e_Issues e" using ih(2) form by simp
  ultimately show ?case by blast
qed

lemma stale_flags_spec:
  assumes "distinct (map p_ID ps)" "distinct (map fst stale)"
  shows "distinct (map fst (stale_flags current ps stale)) \<and>
    (\<forall>k. k \<notin> p_ID ` set ps \<longrightarrow> map_of (stale_flags current ps stale) k = map_of stale k) \<and>
    (\<forall>p \<in> set ps. map_of (stale_flags current ps stale) (p_ID p) =
       (if p_Status p = PullRequestOpen \<and> HasFlag p FlagBlocked \<noteq> Blocked current (p_IssueID p)
        then Some (Blocked current (p_IssueID p)) else map_of stale (p_ID p)))"
  using assms
proof (induction current ps stale rule: stale_flags.induct)
  case (2 current p ps stale)
  let ?stale = "if p_Status p = PullRequestOpen \<and> HasFlag p FlagBlocked \<noteq> Blocked current (p_IssueID p)
    then AList.update (p_ID p) (Blocked current (p_IssueID p)) stale else stale"
  have eq: "stale_flags current (p # ps) stale = stale_flags current ps ?stale" by (simp add: Let_def)
  have d: "distinct (map fst ?stale)" using 2(4) by (simp add: distinct_update)
  have ih: "distinct (map fst (stale_flags current ps ?stale)) \<and>
    (\<forall>k. k \<notin> p_ID ` set ps \<longrightarrow> map_of (stale_flags current ps ?stale) k = map_of ?stale k) \<and>
    (\<forall>p \<in> set ps. map_of (stale_flags current ps ?stale) (p_ID p) =
       (if p_Status p = PullRequestOpen \<and> HasFlag p FlagBlocked \<noteq> Blocked current (p_IssueID p)
        then Some (Blocked current (p_IssueID p)) else map_of ?stale (p_ID p)))"
    using 2(1,2) 2(3,4) d by (cases "p_Status p = PullRequestOpen") (auto simp: distinct_update)
  have else: "map_of ?stale k = map_of stale k" if "k \<noteq> p_ID p" for k
    using that by (simp add: update_conv')
  have here: "map_of ?stale (p_ID p) = (if p_Status p = PullRequestOpen \<and>
      HasFlag p FlagBlocked \<noteq> Blocked current (p_IssueID p)
      then Some (Blocked current (p_IssueID p)) else map_of stale (p_ID p))"
    by (simp add: update_conv')
  have new: "p_ID p \<notin> p_ID ` set ps" using 2(3) by simp
  show ?case
    unfolding eq
  proof (intro conjI allI impI ballI)
    show "distinct (map fst (stale_flags current ps ?stale))" using ih by blast
  next
    fix k assume "k \<notin> p_ID ` set (p # ps)"
    then show "map_of (stale_flags current ps ?stale) k = map_of stale k" using ih else [of k] by simp
  next
    fix q assume "q \<in> set (p # ps)"
    then consider "q = p" | "q \<in> set ps" "p_ID q \<noteq> p_ID p" using new by (metis imageI set_ConsD)
    then show "map_of (stale_flags current ps ?stale) (p_ID q) =
        (if p_Status q = PullRequestOpen \<and> HasFlag q FlagBlocked \<noteq> Blocked current (p_IssueID q)
         then Some (Blocked current (p_IssueID q)) else map_of stale (p_ID q))"
    proof cases
      case 1
      have "map_of (stale_flags current ps ?stale) (p_ID p) = map_of ?stale (p_ID p)" using ih new by blast
      then show ?thesis unfolding 1 here .
    next
      case 2
      have "map_of ?stale (p_ID q) = map_of stale (p_ID q)" by (rule else [OF 2(2)])
      moreover have "map_of (stale_flags current ps ?stale) (p_ID q) =
          (if p_Status q = PullRequestOpen \<and> HasFlag q FlagBlocked \<noteq> Blocked current (p_IssueID q)
           then Some (Blocked current (p_IssueID q)) else map_of ?stale (p_ID q))"
        using ih 2(1) by blast
      ultimately show ?thesis by (simp only:)
    qed
  qed
qed simp

section \<open>What blocks an issue\<close>

definition plan :: "Epic \<Rightarrow> ((string \<times> string \<times> string \<times> string list) \<times> bool) set" where
  "plan e = (\<lambda>i. (skeleton i, settled i)) ` set (e_Issues e)"

lemma plan_canonical [simp]: "plan (canonical e) = plan e"
  by (simp add: plan_def set_canonical_issues image_image skeleton_def settled_def canonical_issue_def)

lemma plan_has:
  assumes "plan e' = plan e"
  shows "(\<exists>i \<in> set (e_Issues e'). P (skeleton i) (settled i)) \<longleftrightarrow> (\<exists>i \<in> set (e_Issues e). P (skeleton i) (settled i))"
proof -
  have "(\<exists>i \<in> set (e_Issues x). P (skeleton i) (settled i)) \<longleftrightarrow> (\<exists>t \<in> plan x. P (fst t) (snd t))" for x
    by (auto simp: plan_def)
  with assms show ?thesis by simp
qed

lemma Blocked_plan:
  assumes wf: "well_formed e" "well_formed e'" and plan: "plan e' = plan e" and x: "x \<in> issue_ids e"
  shows "Blocked e' x = Blocked e x"
proof -
  note d = well_formed_distinct [OF wf(1)] well_formed_distinct [OF wf(2)]
  have ids: "issue_ids e' = issue_ids e"
  proof -
    have "y \<in> issue_ids d \<longleftrightarrow> (\<exists>i \<in> set (e_Issues d). i_ID i = y)" for y d
      by (auto simp: issue_ids_def)
    with plan_has [OF plan, of "\<lambda>t s. fst t = y" for y] show ?thesis by (auto simp: skeleton_def)
  qed
  have waits: "waits e' = waits e"
  proof -
    have "(y, z) \<in> waits e' \<longleftrightarrow> (y, z) \<in> waits e" for y z
      unfolding waits_iff [OF d(1)] waits_iff [OF d(2)] ids
      using plan_has [OF plan, of "\<lambda>t s. fst t = z \<and> fst (snd t) = y \<and> y \<noteq> []"]
        plan_has [OF plan, of "\<lambda>t s. fst t = y \<and> z \<in> set (snd (snd (snd t))) \<and> z \<in> issue_ids e"]
      by (simp add: skeleton_def)
    then show ?thesis by (auto simp: set_eq_iff)
  qed
  obtain i where i: "i \<in> set (e_Issues e)" "i_ID i = x" using x by (auto simp: issue_ids_def)
  obtain i' where i': "i' \<in> set (e_Issues e')" "i_ID i' = x"
    using x unfolding ids [symmetric] by (auto simp: issue_ids_def)
  show ?thesis
    using Blocked_iff [OF wf(1) i(1)] Blocked_iff [OF wf(2) i'(1)] i(2) i'(2) waits
      plan_has [OF plan, of "\<lambda>t s. (x, fst t) \<in> waits e \<and> \<not> s"]
    by (simp add: skeleton_def)
qed

section \<open>Opening over a tracker\<close>

text \<open>The record of an issue's branch, with the calls of git that were accepted before it was written.\<close>

definition opened_as :: "'x code_ports \<Rightarrow> Epic \<Rightarrow> Issue \<Rightarrow> PullRequest \<Rightarrow> bool" where
  "opened_as C current issue p \<longleftrightarrow>
     p_IssueID p = i_ID issue \<and> p_Status p = PullRequestOpen \<and> p_Flags p = [] \<and>
     p_Head p = trim_space (BranchName current issue) \<and>
     (\<exists>base w1 w2. g_DefaultBranch C (i_Repository issue) w1 = (Inr base, w2) \<and> p_Base p = trim_space base) \<and>
     (\<exists>w1 w2. g_Push C (issue_checkout current issue) (BranchName current issue) w1 = (None, w2))"

lemma open_issue_has_none:
  assumes inv: "loop_inv e" and i: "i \<in> set (e_Issues e)" "i_State i = IssueStateOpen"
  shows "OpenPullRequestFor e (i_ID i) = None"
  unfolding OpenPullRequestFor_def find_None_iff
proof (rule notI, elim exE conjE)
  fix p assume p: "p \<in> set (e_PullRequests e)" "p_IssueID p = i_ID i" "p_Status p = PullRequestOpen"
  from loop_inv_facts(6) [OF inv p(1,3)] obtain j where
    j: "j \<in> set (e_Issues e)" "i_ID j = p_IssueID p" "i_State j = phase p" by (auto simp: in_phase_def)
  with distinct_map_unique [OF loop_inv_facts(2) [OF inv] j(1) i(1)] p(2) have "j = i" by simp
  with i(2) j(3) show False using phase_simps(4) by metis
qed

lemma doing_Inr: "doing m w = (Inr u, w') \<longleftrightarrow> m w = (None, w')"
  by (auto simp: doing_def split: prod.splits option.splits)

lemma doing_Inl: "doing m w = (Inl err, w') \<longleftrightarrow> m w = (Some err, w')"
  by (auto simp: doing_def split: prod.splits option.splits)

lemma CreatePullRequest_names:
  "CreatePullRequest ulid now issueID title repository head base = Inr p \<Longrightarrow>
     p_Head p = trim_space head \<and> p_Base p = trim_space base"
  by (auto simp: CreatePullRequest_def Let_def split: option.splits)

context epic_tracker
begin

lemma open_branch_spec:
  assumes run: "open_branch C T e0 issue w = (r, w')" and e0: "e_ID e0 = i"
    and at: "filed held good storable i w e" and C: "quiet_code (\<lambda>w. (held w, good w)) C"
    and issue: "issue \<in> set (e_Issues e)" "i_State issue = IssueStateOpen"
  obtains (rejected) err where "r = Inl err" "filed held good storable i w' e"
  | (accepted) p e' where "r = Inr ()" "filed held good storable i w' e'" "desk_step e e'"
      "set (e_Issues e') = insert (issue\<lparr>i_State := IssueStateCoding\<rparr>) (set (e_Issues e) - {issue})"
      "set (e_PullRequests e') = insert p (set (e_PullRequests e))" "opened_as C e0 issue p"
proof -
  let ?branch = "BranchName e0 issue" and ?checkout = "issue_checkout e0 issue"
  have inv: "loop_inv e" and tidy: "canonical e = e" using at held_tidy by (auto simp: filed_def)
  obtain b w1 where b: "g_DefaultBranch C (i_Repository issue) w = (b, w1)" by fastforce
  have at1: "filed held good storable i w1 e"
    by (rule filed_silent [OF at quiet_codeD(1) [OF C] b])
  show ?thesis
  proof (cases b)
    case (Inl err)
    with run b at1 show ?thesis by (intro rejected) (auto simp: open_branch_def)
  next
    case (Inr base)
    obtain c w2 where c: "g_Checkout C ?checkout ?branch base w1 = (c, w2)" by fastforce
    have at2: "filed held good storable i w2 e"
      by (rule filed_silent [OF at1 quiet_codeD(2) [OF C] c])
    show ?thesis
    proof (cases c)
      case (Inl err)
      with run b c \<open>b = Inr base\<close> at2 show ?thesis
        by (intro rejected) (auto simp: open_branch_def Let_def calling_def)
    next
      case (Inr path)
      obtain p w3 where p: "g_Push C ?checkout ?branch w2 = (p, w3)" by fastforce
      have at3: "filed held good storable i w3 e"
        by (rule filed_silent [OF at2 quiet_codeD(4) [OF C] p])
      show ?thesis
      proof (cases p)
        case (Some err)
        with run b c p \<open>b = Inr base\<close> Inr at3 show ?thesis
          by (intro rejected) (auto simp: open_branch_def Let_def calling_def doing_def)
      next
        case None
        obtain u where u: "t_UpdateEpic T i (minting T (\<lambda>ulid now. open_pull_request ulid now issue ?branch base)) w3
            = (u, w')" and r: "r = (case u of None \<Rightarrow> Inr () | Some err \<Rightarrow> Inl err)"
          using run b c p \<open>b = Inr base\<close> Inr None e0
          by (auto simp: open_branch_def Let_def calling_def doing_def split: prod.splits option.splits)
        from at3 have held3: "good w3" "held w3 i = Some e" "storable e" by (simp_all add: filed_def)
        show ?thesis
        proof (rule minting_cases [OF u held3 frames_open])
          fix err assume "u = Some err" "held w' = held w3" "good w'"
          with r at3 show ?thesis by (intro rejected) (auto simp: filed_def)
        next
          fix ulid now d assume taken: "u = None" "good w'" "held w' i = Some (canonical d)"
            "storable (canonical d)" "distinct (map p_ID (e_PullRequests d))"
            and d: "open_pull_request ulid now issue ?branch base e = (None, d)"
          from open_pull_request_form [OF loop_inv_facts(2) [OF inv] issue d] obtain q where
            q: "CreatePullRequest ulid now (i_ID issue) (i_Title issue) (i_Repository issue) ?branch base = Inr q"
            and form: "d = (put_state (i_ID issue) IssueStateCoding e)\<lparr>e_PullRequests := e_PullRequests e @ [q]\<rparr>" .
          note fields = CreatePullRequest_fields [OF q]
          have "ulid \<notin> p_ID ` set (e_PullRequests e)" using taken(5) fields by (simp add: form)
          with d have "loop_step e d"
            by (intro loop_step.Opens [OF issue open_issue_has_none [OF inv issue]]) simp_all
          with taken filed_step [OF at3, of d w'] have at': "filed held good storable i w' (canonical d)"
            "desk_step e (canonical d)" by (simp_all add: r_into_rtranclp)
          note fixed = tidy_parts [OF tidy]
          have "canonical_issue (issue\<lparr>i_State := IssueStateCoding\<rparr>) = issue\<lparr>i_State := IssueStateCoding\<rparr>"
            using fixed(1) [OF issue(1)] by (cases issue) (simp add: canonical_issue_def)
          with fixed(1) put_state_set [OF loop_inv_facts(2) [OF inv] issue(1), of IssueStateCoding]
          have "set (e_Issues (canonical d)) = insert (issue\<lparr>i_State := IssueStateCoding\<rparr>) (set (e_Issues e) - {issue})"
            by (simp add: set_canonical_issues form)
          moreover have "set (e_PullRequests (canonical d)) = insert q (set (e_PullRequests e))"
          proof -
            have "canonical_pull_request q = q"
              using fields by (cases q) (simp add: canonical_pull_request_def sort_comments_def)
            with fixed(2) show ?thesis by (simp add: set_canonical_pull_requests form)
          qed
          moreover have "opened_as C e0 issue q"
            unfolding opened_as_def using fields CreatePullRequest_names [OF q] b p \<open>b = Inr base\<close> None by blast
          ultimately show ?thesis
            using at' r taken(1) by (intro accepted) simp_all
        qed
      qed
    qed
  qed
qed

lemma open_branches_spec:
  assumes "open_branches C T e0 issues opened w = ((n, r), w')" "e_ID e0 = i"
    and "filed held good storable i w e" "distinct issues"
    and "\<forall>j \<in> set issues. wants_branch e0 j \<longrightarrow> j \<in> set (e_Issues e)"
    and C: "quiet_code (\<lambda>w. (held w, good w)) C"
  shows "\<exists>e'. filed held good storable i w' e' \<and> desk_step\<^sup>*\<^sup>* e e' \<and> plan e' = plan e \<and>
    set (e_PullRequests e) \<subseteq> set (e_PullRequests e') \<and>
    (\<forall>p \<in> set (e_PullRequests e') - set (e_PullRequests e). \<exists>j \<in> set issues. wants_branch e0 j \<and> opened_as C e0 j p) \<and>
    (r = None \<longrightarrow> n = opened + length (filter (wants_branch e0) issues) \<and>
       (\<forall>j \<in> set issues. wants_branch e0 j \<longrightarrow> (\<exists>p \<in> set (e_PullRequests e'). opened_as C e0 j p)))"
  using assms(1-5)
proof (induction issues arbitrary: opened w e)
  case Nil
  then show ?case by auto
next
  case (Cons j issues)
  show ?case
  proof (cases "wants_branch e0 j")
    case False
    with Cons.prems Cons.IH [of opened w e] show ?thesis by fastforce
  next
    case True
    then have j: "j \<in> set (e_Issues e)" "i_State j = IssueStateOpen" "j \<notin> set issues"
      using Cons.prems(4,5) by (auto simp: wants_branch_def)
    obtain x w1 where o: "open_branch C T e0 j w = (x, w1)" by fastforce
    show ?thesis
    proof (rule open_branch_spec [OF o Cons.prems(2,3) C j(1,2)])
      fix err assume "x = Inl err" "filed held good storable i w1 e"
      with Cons.prems(1) True o show ?thesis by auto
    next
      fix p e1 assume x: "x = Inr ()" and e1: "filed held good storable i w1 e1" "desk_step e e1"
        and issues: "set (e_Issues e1) = insert (j\<lparr>i_State := IssueStateCoding\<rparr>) (set (e_Issues e) - {j})"
        and prs: "set (e_PullRequests e1) = insert p (set (e_PullRequests e))" and p: "opened_as C e0 j p"
      have plan1: "plan e1 = plan e"
      proof -
        have "(skeleton (j\<lparr>i_State := IssueStateCoding\<rparr>), settled (j\<lparr>i_State := IssueStateCoding\<rparr>)) =
            (skeleton j, settled j)" using j(2) by (simp add: skeleton_def settled_def)
        then have "plan e1 = (\<lambda>i. (skeleton i, settled i)) ` insert j (set (e_Issues e) - {j})"
          unfolding plan_def issues image_insert by (simp only:)
        with j(1) show ?thesis by (simp add: plan_def insert_absorb)
      qed
      have run: "open_branches C T e0 issues (opened + 1) w1 = ((n, r), w')"
        using Cons.prems(1) True o x by simp
      have "\<forall>j' \<in> set issues. wants_branch e0 j' \<longrightarrow> j' \<in> set (e_Issues e1)"
        using Cons.prems(5) j(3) unfolding issues by auto
      from Cons.IH [OF run Cons.prems(2) e1(1) _ this] Cons.prems(4) obtain e' where
        e': "filed held good storable i w' e'" "desk_step\<^sup>*\<^sup>* e1 e'" "plan e' = plan e1"
          "set (e_PullRequests e1) \<subseteq> set (e_PullRequests e')"
          "\<forall>p \<in> set (e_PullRequests e') - set (e_PullRequests e1). \<exists>j \<in> set issues. wants_branch e0 j \<and> opened_as C e0 j p"
          "r = None \<longrightarrow> n = opened + 1 + length (filter (wants_branch e0) issues) \<and>
            (\<forall>j \<in> set issues. wants_branch e0 j \<longrightarrow> (\<exists>p \<in> set (e_PullRequests e'). opened_as C e0 j p))"
        by auto
      have "desk_step\<^sup>*\<^sup>* e e'" by (rule converse_rtranclp_into_rtranclp [of desk_step, OF e1(2) e'(2)])
      moreover have "p \<in> set (e_PullRequests e')" "set (e_PullRequests e) \<subseteq> set (e_PullRequests e')"
        using e'(4) prs by auto
      moreover have "\<forall>q \<in> set (e_PullRequests e') - set (e_PullRequests e).
          \<exists>k \<in> set (j # issues). wants_branch e0 k \<and> opened_as C e0 k q"
        using e'(5) p True unfolding prs by auto
      moreover have "r = None \<longrightarrow> n = opened + length (filter (wants_branch e0) (j # issues)) \<and>
          (\<forall>k \<in> set (j # issues). wants_branch e0 k \<longrightarrow> (\<exists>p \<in> set (e_PullRequests e'). opened_as C e0 k p))"
      proof
        assume "r = None"
        with e'(6) have "n = opened + 1 + length (filter (wants_branch e0) issues)"
          "\<forall>k \<in> set issues. wants_branch e0 k \<longrightarrow> (\<exists>p \<in> set (e_PullRequests e'). opened_as C e0 k p)" by blast+
        with True p \<open>p \<in> set (e_PullRequests e')\<close>
        show "n = opened + length (filter (wants_branch e0) (j # issues)) \<and>
            (\<forall>k \<in> set (j # issues). wants_branch e0 k \<longrightarrow> (\<exists>p \<in> set (e_PullRequests e'). opened_as C e0 k p))"
          by auto
      qed
      moreover have "plan e' = plan e" using e'(3) plan1 by simp
      ultimately show ?thesis using e'(1) by blast
    qed
  qed
qed

lemma resyncBlocked_spec:
  assumes run: "resyncBlocked order T e w = (r, w')" and order: "\<And>kvs. mset (order kvs) = mset kvs"
    and at: "filed held good storable i w e"
  shows "(r \<noteq> None \<and> filed held good storable i w' e) \<or>
    (r = None \<and> (\<exists>e'. filed held good storable i w' e' \<and> desk_step\<^sup>*\<^sup>* e e' \<and> set (e_Issues e') = set (e_Issues e) \<and>
       p_ID ` set (e_PullRequests e') = p_ID ` set (e_PullRequests e) \<and>
       (\<forall>p \<in> set (e_PullRequests e'). p_Status p = PullRequestOpen \<longrightarrow>
          p_IssueID p \<in> issue_ids e \<and> HasFlag p FlagBlocked = Blocked e (p_IssueID p))))"
proof -
  let ?stale = "stale_flags e (e_PullRequests e) []"
  have inv: "loop_inv e" and stored: "good w" "held w i = Some e" "storable e" and tidy: "canonical e = e" "e_ID e = i"
    using at held_tidy by (auto simp: filed_def)
  note facts = loop_inv_facts [OF inv]
  have nil: "distinct (map fst ([] :: (string \<times> bool) list))" by simp
  note spec = stale_flags_spec [OF facts(1) nil, of e]
  have sync: "HasFlag (flagged (map_of ?stale) p) FlagBlocked = Blocked e (p_IssueID p)"
    if "p \<in> set (e_PullRequests e)" "p_Status p = PullRequestOpen" for p
    using spec that by (simp add: flagged_fields)
  show ?thesis
  proof (cases "?stale = []")
    case True
    then have "flagged (map_of ?stale) p = p" for p by (simp add: flagged_def)
    with sync run True at facts(7) show ?thesis
      by (auto simp: resyncBlocked_def)
  next
    case False
    let ?kvs = "order ?stale"
    have same: "set ?kvs = set ?stale" using mset_eq_setD [OF order] .
    have keys: "distinct (map fst ?kvs)"
      using spec mset_eq_imp_distinct_iff [of "map fst ?kvs" "map fst ?stale"] order [of ?stale] by simp
    have maps: "map_of ?kvs = map_of ?stale"
      using map_of_inject_set [OF keys, of ?stale] spec same by blast
    have own: "\<forall>(k, b) \<in> set ?kvs. \<exists>p \<in> set (e_PullRequests e). p_ID p = k \<and> p_Status p = PullRequestOpen"
    proof clarify
      fix k b assume "(k, b) \<in> set ?kvs"
      then have kb: "map_of ?stale k = Some b" using same spec by (simp add: map_of_eq_Some_iff)
      then have "k \<in> p_ID ` set (e_PullRequests e)" using spec by (metis map_of.simps(1) option.distinct(1))
      then obtain p where p: "p \<in> set (e_PullRequests e)" "k = p_ID p" by blast
      with kb spec show "\<exists>p \<in> set (e_PullRequests e). p_ID p = k \<and> p_Status p = PullRequestOpen"
        by (metis map_of.simps(1) option.distinct(1))
    qed
    have upd: "t_UpdateEpic T i (plain (set_blocked ?kvs)) w = (r, w')"
      using run False tidy by (simp add: resyncBlocked_def Let_def)
    show ?thesis
    proof (rule plain_cases [OF upd stored frames_set_blocked])
      fix err assume "r = Some err" "held w' = held w" "good w'"
      with at show ?thesis by (auto simp: filed_def)
    next
      fix d assume r: "r = None" and ok: "good w'" "held w' i = Some (canonical d)" "storable (canonical d)"
        and d: "set_blocked ?kvs e = (None, d)"
      from set_blocked_spec [OF d inv keys own] have
        d': "loop_step\<^sup>*\<^sup>* e d" "e_Issues d = e_Issues e"
          "set (e_PullRequests d) = flagged (map_of ?stale) ` set (e_PullRequests e)" by (simp_all add: maps)
      have prs: "set (e_PullRequests (canonical d)) = flagged (map_of ?stale) ` set (e_PullRequests e)"
        using tidy_parts(2) [OF tidy(1)]
        by (simp add: set_canonical_pull_requests d'(3) image_image flagged_fields cong: image_cong)
      have issues: "set (e_Issues (canonical d)) = set (e_Issues e)"
        using tidy_parts(1) [OF tidy(1)] by (simp add: set_canonical_issues d'(2))
      have "\<forall>p \<in> set (e_PullRequests (canonical d)). p_Status p = PullRequestOpen \<longrightarrow>
          p_IssueID p \<in> issue_ids e \<and> HasFlag p FlagBlocked = Blocked e (p_IssueID p)"
        unfolding prs using sync facts(7) by (simp add: flagged_fields)
      moreover have "p_ID ` set (e_PullRequests (canonical d)) = p_ID ` set (e_PullRequests e)"
        unfolding prs by (simp add: image_image flagged_fields)
      ultimately show ?thesis
        using r issues filed_step [OF at d'(1) ok] by (auto intro: r_into_rtranclp)
    qed
  qed
qed

lemma opening_spec:
  assumes run: "OpenPullRequests_Handle order (Some C) T i w = ((n, r), w')"
    and order: "\<And>kvs. mset (order kvs) = mset kvs"
    and at: "filed held good storable i w e" and C: "quiet_code (\<lambda>w. (held w, good w)) C"
  shows "\<exists>e'. filed held good storable i w' e' \<and> desk_step\<^sup>*\<^sup>* e e' \<and>
    (\<forall>p \<in> set (e_PullRequests e'). p_ID p \<notin> p_ID ` set (e_PullRequests e) \<longrightarrow>
       (\<exists>j \<in> set (e_Issues e). wants_branch e j \<and> opened_as C e j p)) \<and>
    (r = None \<longrightarrow> e_State e = EpicStateReady \<longrightarrow>
       n = length (filter (wants_branch e) (e_Issues e)) \<and>
       (\<forall>j \<in> set (e_Issues e). wants_branch e j \<longrightarrow> (\<exists>p \<in> set (e_PullRequests e'). opened_as C e j p)) \<and>
       (\<forall>p \<in> set (e_PullRequests e'). p_Status p = PullRequestOpen \<longrightarrow>
          HasFlag p FlagBlocked = Blocked e' (p_IssueID p)))"
proof -
  have inv: "loop_inv e" and tidy: "canonical e = e" "e_ID e = i" using at held_tidy by (auto simp: filed_def)
  obtain x w1 where rd: "t_ReadEpic T i w = (x, w1)" by fastforce
  have at1: "filed held good storable i w1 e" by (rule filed_silent [OF at read_silent rd])
  show ?thesis
  proof (cases x)
    case (Inl err)
    with run rd at1 show ?thesis by (auto simp: OpenPullRequests_Handle_def intro!: exI [of _ e])
  next
    case (Inr e0)
    from read_held [OF rd [unfolded Inr]] at have e0: "e0 = e" by (simp add: filed_def)
    show ?thesis
    proof (cases "e_State e = EpicStateReady")
      case False
      with run rd Inr e0 at1 show ?thesis by (auto simp: OpenPullRequests_Handle_def intro!: exI [of _ e])
    next
      case True
      obtain y w2 where sync: "resyncBlocked order T e w1 = (y, w2)" by fastforce
      from resyncBlocked_spec [OF sync order at1] show ?thesis
      proof (elim disjE conjE exE)
        assume "y \<noteq> None" "filed held good storable i w2 e"
        with run rd Inr e0 True sync show ?thesis
          by (auto simp: OpenPullRequests_Handle_def intro!: exI [of _ e])
      next
        fix e1 assume y: "y = None" and e1: "filed held good storable i w2 e1" "desk_step\<^sup>*\<^sup>* e e1"
          and issues: "set (e_Issues e1) = set (e_Issues e)"
          and ids: "p_ID ` set (e_PullRequests e1) = p_ID ` set (e_PullRequests e)"
          and flags: "\<forall>p \<in> set (e_PullRequests e1). p_Status p = PullRequestOpen \<longrightarrow>
            p_IssueID p \<in> issue_ids e \<and> HasFlag p FlagBlocked = Blocked e (p_IssueID p)"
        have run2: "open_branches C T e (e_Issues e) 0 w2 = ((n, r), w')"
          using run rd Inr e0 True sync y by (simp add: OpenPullRequests_Handle_def)
        have d: "distinct (e_Issues e)" using loop_inv_facts(2) [OF inv] by (simp add: distinct_map)
        have "\<forall>j \<in> set (e_Issues e). wants_branch e j \<longrightarrow> j \<in> set (e_Issues e1)" using issues by simp
        from open_branches_spec [OF run2 tidy(2) e1(1) d this C] obtain e' where
          e': "filed held good storable i w' e'" "desk_step\<^sup>*\<^sup>* e1 e'" "plan e' = plan e1"
            "set (e_PullRequests e1) \<subseteq> set (e_PullRequests e')"
            "\<forall>p \<in> set (e_PullRequests e') - set (e_PullRequests e1).
               \<exists>j \<in> set (e_Issues e). wants_branch e j \<and> opened_as C e j p"
            "r = None \<longrightarrow> n = length (filter (wants_branch e) (e_Issues e)) \<and>
               (\<forall>j \<in> set (e_Issues e). wants_branch e j \<longrightarrow> (\<exists>p \<in> set (e_PullRequests e'). opened_as C e j p))"
          by auto
        have steps: "desk_step\<^sup>*\<^sup>* e e'" using e1(2) e'(2) by (rule rtranclp_trans)
        have "plan e1 = plan e" by (simp add: plan_def issues)
        with e'(3) have blocked: "x \<in> issue_ids e \<Longrightarrow> Blocked e' x = Blocked e x" for x
          using Blocked_plan [of e e'] inv e'(1) by (simp add: filed_def loop_inv_def)
        have "HasFlag p FlagBlocked = Blocked e' (p_IssueID p)"
          if p: "p \<in> set (e_PullRequests e')" "p_Status p = PullRequestOpen" for p
        proof (cases "p \<in> set (e_PullRequests e1)")
          case True
          with p flags blocked show ?thesis by simp
        next
          case False
          with e'(5) p obtain j where j: "j \<in> set (e_Issues e)" "wants_branch e j" "opened_as C e j p" by auto
          then have "i_ID j \<in> issue_ids e" by (simp add: issue_ids_def)
          with j blocked show ?thesis by (simp add: opened_as_def wants_branch_def HasFlag_def)
        qed
        moreover have "\<forall>p \<in> set (e_PullRequests e'). p_ID p \<notin> p_ID ` set (e_PullRequests e) \<longrightarrow>
            (\<exists>j \<in> set (e_Issues e). wants_branch e j \<and> opened_as C e j p)"
          using e'(5) unfolding ids [symmetric] by blast
        ultimately show ?thesis using e'(1,6) steps by blast
      qed
    qed
  qed
qed

end


lemma desk_code_quiet:
  "quiet_code (\<lambda>w. (desk_held desk_codec w, desk_good w)) (desk_code R)"
  by (simp add: quiet_code_def desk_code_def silent_def git_def desk_held_def desk_good_def on_desk_def)


end
