(* ===== verification/Branch_Closing.thy ===== *)
theory Branch_Closing
  imports Epic_Desk
begin

text \<open>
  How work leaves the loop: \<open>merge_pull_request.go\<close>, and the ways to abandon it, \<open>close_issue.go\<close>,
  \<open>close_epic.go\<close> and \<open>transition_pull_request.go\<close>, with the deletion of the branches left behind
  (\<open>abandon_branches.go\<close>).
\<close>

section \<open>Abandoned branches\<close>

definition openPullRequestIDs :: "Epic \<Rightarrow> string set" where
  "openPullRequestIDs detail =
     set (map p_ID (filter (\<lambda>p. p_Status p = PullRequestOpen) (e_PullRequests detail)))"

definition newlyAbandoned :: "Epic \<Rightarrow> string set \<Rightarrow> Branch list" where
  "newlyAbandoned detail wasOpen = filter (\<lambda>b. b_PullRequestID b \<in> wasOpen) (AbandonedBranches detail)"

fun delete_branches ::
    "'x code_ports \<Rightarrow> string \<Rightarrow> Branch list \<Rightarrow> go_error list \<Rightarrow> 'x world \<Rightarrow> go_error list \<times> 'x world" where
  "delete_branches C epicID [] failures w = (failures, w)"
| "delete_branches C epicID (b # bs) failures w =
     (case g_DeleteBranch C \<lparr>co_EpicID = epicID, co_IssueID = b_IssueID b, co_Repository = b_Repository b\<rparr>
             (b_Name b) w of
        (Some err, w) \<Rightarrow>
          delete_branches C epicID bs (failures @ [Wrapf ''delete branch %s: %w'' [GStr (b_Name b)] [err]]) w
      | (None, w) \<Rightarrow> delete_branches C epicID bs failures w)"

definition deleteAbandonedBranches ::
    "'x code_ports option \<Rightarrow> string \<Rightarrow> Branch list \<Rightarrow> 'x world \<Rightarrow> go_error option \<times> 'x world" where
  "deleteAbandonedBranches code epicID branches w =
     (case code of
        None \<Rightarrow> (None, w)
      | Some C \<Rightarrow>
          (case delete_branches C epicID branches [] w of (failures, w) \<Rightarrow> (join_errors failures, w)))"

section \<open>Closing\<close>

text \<open>
  The variable \<open>abandoned\<close> of the handler, which the closure it hands to \<open>UpdateEpic\<close> assigns, is a
  cell of the world.
\<close>

record 'x branches_cell =
  cell_put :: "Branch list \<Rightarrow> 'x world \<Rightarrow> 'x world"
  cell_get :: "'x world \<Rightarrow> Branch list"

text \<open>
  The closure the three handlers share, around the change that is theirs. \<open>CloseIssue\<close> and
  \<open>Epic_Close\<close> are \<open>None\<close> when the walk over the tree does not end; on a stored aggregate it does,
  which the properties below show with what the walk closes.
\<close>

definition abandoning :: "'x branches_cell \<Rightarrow> Epic update \<Rightarrow> 'x change" where
  "abandoning V f detail w =
     (let wasOpen = openPullRequestIDs detail
      in case f detail of
           (Some err, detail) \<Rightarrow> ((Some err, detail), w)
         | (None, detail) \<Rightarrow> ((None, detail), cell_put V (newlyAbandoned detail wasOpen) w))"

definition CloseIssue_Handle ::
    "'x branches_cell \<Rightarrow> 'x code_ports option \<Rightarrow> 'x tracker_ports \<Rightarrow> string \<Rightarrow> string \<Rightarrow> 'x world \<Rightarrow>
       go_error option \<times> 'x world" where
  "CloseIssue_Handle V code T epicID issueID w =
     (case t_UpdateEpic T epicID (abandoning V (\<lambda>detail. the (CloseIssue issueID detail))) (cell_put V [] w) of
        (Some err, w) \<Rightarrow> (Some err, w)
      | (None, w) \<Rightarrow> deleteAbandonedBranches code epicID (cell_get V w) w)"

definition CloseEpic_Handle ::
    "'x branches_cell \<Rightarrow> 'x code_ports option \<Rightarrow> 'x tracker_ports \<Rightarrow> string \<Rightarrow> 'x world \<Rightarrow>
       go_error option \<times> 'x world" where
  "CloseEpic_Handle V code T epicID w =
     (case t_UpdateEpic T epicID (abandoning V (\<lambda>detail. the (Epic_Close detail))) (cell_put V [] w) of
        (Some err, w) \<Rightarrow> (Some err, w)
      | (None, w) \<Rightarrow> deleteAbandonedBranches code epicID (cell_get V w) w)"

definition TransitionPullRequest_Handle ::
    "'x branches_cell \<Rightarrow> 'x code_ports option \<Rightarrow> 'x tracker_ports \<Rightarrow> string \<Rightarrow> string \<Rightarrow> PullRequestStatus \<Rightarrow>
       'x world \<Rightarrow> go_error option \<times> 'x world" where
  "TransitionPullRequest_Handle V code T epicID pullRequestID status w =
     (if status \<noteq> PullRequestClosed
      then (Some (Errorf ''cannot record pull request status %q here; merging goes through the merge use case''
              [GStr (pull_request_status_string status)]), w)
      else
        case t_UpdateEpic T epicID (abandoning V (TransitionPullRequest pullRequestID status)) (cell_put V [] w) of
          (Some err, w) \<Rightarrow> (Some err, w)
        | (None, w) \<Rightarrow> deleteAbandonedBranches code epicID (cell_get V w) w)"

section \<open>Merging\<close>

fun open_record :: "PullRequest list \<Rightarrow> string \<Rightarrow> go_error + PullRequest" where
  "open_record [] pullRequestID = Inl (Errorf ''pull request not found'' [])"
| "open_record (pullRequest # pullRequests) pullRequestID =
     (if p_ID pullRequest \<noteq> pullRequestID then open_record pullRequests pullRequestID
      else if p_Status pullRequest \<noteq> PullRequestOpen
      then Inl (Errorf ''pull request %s is %s''
             [GStr pullRequestID, GStr (pull_request_status_string (p_Status pullRequest))])
      else Inr pullRequest)"

definition openPullRequest :: "Epic \<Rightarrow> string \<Rightarrow> go_error + PullRequest" where
  "openPullRequest current pullRequestID = open_record (e_PullRequests current) pullRequestID"

definition conflict_comment :: "(go_error \<Rightarrow> string) \<Rightarrow> PullRequest \<Rightarrow> go_error \<Rightarrow> string" where
  "conflict_comment error_text record' conflict =
     ''Could not publish `'' @ p_Head record' @ ''` onto `'' @ p_Base record' @ ''`: '' @ error_text conflict @
     [CHR 0x0A, CHR 0x0A] @ ''`'' @ p_Base record' @
     ''` has to be merged into this branch before it can land.''"

definition MergePullRequest_Handle ::
    "(go_error \<Rightarrow> string) \<Rightarrow> 'x code_ports option \<Rightarrow> 'x tracker_ports \<Rightarrow> string \<Rightarrow> string \<Rightarrow> 'x world \<Rightarrow>
       go_error option \<times> 'x world" where
  "MergePullRequest_Handle error_text code T epicID pullRequestID w =
     (case code of
        None \<Rightarrow> (Some (Errorf ''no code workspace is configured to merge branches in'' []), w)
      | Some C \<Rightarrow>
          (case t_ReadEpic T epicID w of
             (Inl err, w) \<Rightarrow> (Some err, w)
           | (Inr current, w) \<Rightarrow>
               (case openPullRequest current pullRequestID of
                  Inl err \<Rightarrow> (Some err, w)
                | Inr record' \<Rightarrow>
                    let checkout = \<lparr>co_EpicID = e_ID current, co_IssueID = p_IssueID record',
                          co_Repository = p_Repository record'\<rparr>
                    in case g_Merge C checkout (p_Head record') (p_Base record') w of
                         (Some err, w) \<Rightarrow>
                           if \<not> errors_is err ErrMergeConflict then (Some err, w)
                           else
                             (case t_UpdateEpic T (e_ID current)
                                     (minting T (\<lambda>ulid now. conflict_markStale ulid now record'
                                        (conflict_comment error_text record' err))) w of
                                (Some recordErr, w) \<Rightarrow> (Some recordErr, w)
                              | (None, w) \<Rightarrow> (Some err, w))
                       | (None, w) \<Rightarrow>
                           (case t_UpdateEpic T (e_ID current)
                                   (plain (TransitionPullRequest (p_ID record') PullRequestMerged)) w of
                              (Some err, w) \<Rightarrow> (Some err, w)
                            | (None, w) \<Rightarrow> g_DeleteBranch C checkout (p_Head record') w))))"

section \<open>Completing and moving an epic\<close>

definition CompleteEpic_Handle ::
    "'x tracker_ports \<Rightarrow> string \<Rightarrow> 'x world \<Rightarrow> (bool \<times> go_error option) \<times> 'x world" where
  "CompleteEpic_Handle T epicID w =
     (case t_ReadEpic T epicID w of
        (Inl err, w) \<Rightarrow> ((False, Some err), w)
      | (Inr current, w) \<Rightarrow>
          if e_State current \<noteq> EpicStateReady \<or> \<not> Delivered current then ((False, None), w)
          else
            (case t_UpdateEpic T (e_ID current) (plain (Epic_Apply EpicEventDone)) w of
               (r, w) \<Rightarrow> ((True, r), w)))"

definition TransitionEpicState_Handle ::
    "'x tracker_ports \<Rightarrow> string \<Rightarrow> EpicState \<Rightarrow> bool \<Rightarrow> 'x world \<Rightarrow> go_error option \<times> 'x world" where
  "TransitionEpicState_Handle T epicID state force =
     t_UpdateEpic T epicID (plain (\<lambda>detail.
       if force then ForceState state detail else Epic_TransitionTo state detail))"

definition GrantCodingRound_Handle ::
    "'x tracker_ports \<Rightarrow> string \<Rightarrow> string \<Rightarrow> 'x world \<Rightarrow> go_error option \<times> 'x world" where
  "GrantCodingRound_Handle T epicID pullRequestID =
     t_UpdateEpic T epicID (plain (grant_coding_round pullRequestID))"

section \<open>What is abandoned\<close>

datatype closing = ClosesIssue string | ClosesEpic | ClosesPullRequest string

fun closing_change :: "closing \<Rightarrow> Epic update" where
  "closing_change (ClosesIssue x) detail = the (CloseIssue x detail)"
| "closing_change ClosesEpic detail = the (Epic_Close detail)"
| "closing_change (ClosesPullRequest x) detail = TransitionPullRequest x PullRequestClosed detail"

fun closing_Handle ::
    "closing \<Rightarrow> 'x branches_cell \<Rightarrow> 'x code_ports option \<Rightarrow> 'x tracker_ports \<Rightarrow> string \<Rightarrow> 'x world \<Rightarrow>
       go_error option \<times> 'x world" where
  "closing_Handle (ClosesIssue x) V code T epicID = CloseIssue_Handle V code T epicID x"
| "closing_Handle ClosesEpic V code T epicID = CloseEpic_Handle V code T epicID"
| "closing_Handle (ClosesPullRequest x) V code T epicID =
     TransitionPullRequest_Handle V code T epicID x PullRequestClosed"

lemma closing_Handle_eq:
  "closing_Handle c V code T epicID w =
     (case t_UpdateEpic T epicID (abandoning V (closing_change c)) (cell_put V [] w) of
        (Some err, w) \<Rightarrow> (Some err, w)
      | (None, w) \<Rightarrow> deleteAbandonedBranches code epicID (cell_get V w) w)"
proof -
  have "closing_change (ClosesIssue x) = (\<lambda>detail. the (CloseIssue x detail))"
    "closing_change ClosesEpic = (\<lambda>detail. the (Epic_Close detail))"
    "closing_change (ClosesPullRequest x) = TransitionPullRequest x PullRequestClosed" for x
    by (rule ext, simp)+
  then show ?thesis
    by (cases c) (simp_all add: CloseIssue_Handle_def CloseEpic_Handle_def TransitionPullRequest_Handle_def)
qed

text \<open>Which pull requests a command means.\<close>

fun leaves_work :: "closing \<Rightarrow> Epic \<Rightarrow> PullRequest \<Rightarrow> bool" where
  "leaves_work (ClosesIssue x) e p \<longleftrightarrow> p_IssueID p \<in> subtree e x"
| "leaves_work ClosesEpic e p \<longleftrightarrow> True"
| "leaves_work (ClosesPullRequest x) e p \<longleftrightarrow> p_ID p = x"

definition gone :: "closing \<Rightarrow> Epic \<Rightarrow> PullRequest \<Rightarrow> bool" where
  "gone c e p \<longleftrightarrow> p_Status p = PullRequestOpen \<and> leaves_work c e p"

definition shut :: "closing \<Rightarrow> Epic \<Rightarrow> PullRequest \<Rightarrow> PullRequest" where
  "shut c e p = (if gone c e p then p\<lparr>p_Status := PullRequestClosed\<rparr> else p)"

lemma loop_inv_state:
  assumes "loop_inv e" "isEpicState s"
  shows "loop_inv (e\<lparr>e_State := s\<rparr>)"
proof -
  have "well_formed (e\<lparr>e_State := s\<rparr>)"
    using keepsD [OF keeps_ForceState, of s e] assms by (simp add: ForceState_def loop_inv_def)
  moreover have "in_phase (e\<lparr>e_State := s\<rparr>) p = in_phase e p" for p by (simp add: in_phase_def)
  ultimately show ?thesis using assms(1) by (simp add: loop_inv_def)
qed

lemma close_set_shut:
  assumes inv: "loop_inv e" and p: "p \<in> set (e_PullRequests e)"
  shows "close_pull_request_in (S - merged_ids e) p =
    (if p_Status p = PullRequestOpen \<and> p_IssueID p \<in> S then p\<lparr>p_Status := PullRequestClosed\<rparr> else p)"
proof (cases "p_Status p = PullRequestOpen")
  case True
  from loop_inv_facts(6) [OF inv p True] obtain i where
    i: "i \<in> set (e_Issues e)" "i_ID i = p_IssueID p" "i_State i = phase p" by (auto simp: in_phase_def)
  have "p_IssueID p \<notin> merged_ids e"
  proof
    assume "p_IssueID p \<in> merged_ids e"
    then obtain j where j: "j \<in> set (e_Issues e)" "i_ID j = p_IssueID p" "i_State j = IssueStateMerged"
      by (auto simp: merged_ids_def)
    with i distinct_map_unique [OF loop_inv_facts(2) [OF inv], of i j] show False by (metis phase_simps(2))
  qed
  with True show ?thesis by (simp add: close_pull_request_in_def)
qed (simp add: close_pull_request_in_def)

lemma close_set_keeps:
  "e_ID (close_set S e) = e_ID e" "e_Repositories (close_set S e) = e_Repositories e"
  "map skeleton (e_Issues (close_set S e)) = map skeleton (e_Issues e)"
  by (simp_all add: close_set_def o_def)

lemma closing_change_form:
  assumes inv: "loop_inv e" and d: "closing_change c e = (None, d)"
  shows "loop_inv d \<and> e_PullRequests d = map (shut c e) (e_PullRequests e) \<and>
    e_Repositories d = e_Repositories e \<and> map skeleton (e_Issues d) = map skeleton (e_Issues e) \<and> e_ID d = e_ID e"
proof (cases c)
  case (ClosesIssue x)
  note wf = loop_inv_facts(3) [OF inv]
  from d ClosesIssue have d: "d = close_set (subtree e x) e" by (simp add: CloseIssue_eq [OF wf] split: if_splits)
  have "e_PullRequests d = map (shut c e) (e_PullRequests e)"
    unfolding d using close_set_shut [OF inv]
    by (simp add: close_set_def shut_def gone_def ClosesIssue)
  then show ?thesis using loop_inv_close_set [OF inv] by (simp add: d close_set_keeps)
next
  case ClosesEpic
  note wf = loop_inv_facts(3) [OF inv]
  from d ClosesEpic have d: "d = (close_set (issue_ids e) e)\<lparr>e_State := EpicStateClosed\<rparr>"
    by (simp add: Epic_Close_eq [OF wf] split: if_splits)
  have "e_PullRequests d = map (shut c e) (e_PullRequests e)"
    unfolding d using close_set_shut [OF inv] loop_inv_facts(7) [OF inv]
    by (simp add: close_set_def shut_def gone_def ClosesEpic)
  moreover have "loop_inv d"
    unfolding d by (rule loop_inv_state [OF loop_inv_close_set [OF inv]]) simp
  ultimately show ?thesis by (simp add: d close_set_keeps)
next
  case (ClosesPullRequest x)
  with d have t: "TransitionPullRequest x PullRequestClosed e = (None, d)" by simp
  then have "\<exists>p \<in> set (e_PullRequests e). p_ID p = x"
    by (auto simp: TransitionPullRequest_def mutate_None transition_pull_request_body_def find_Some_iff
        split: option.splits)
  then obtain p where p: "p \<in> set (e_PullRequests e)" "p_ID p = x" by blast
  note d1 = loop_inv_facts(1) [OF inv]
  have "TransitionPullRequest (p_ID p) PullRequestClosed e = (None, d)" using t p(2) by simp
  note settled = settle_form [OF inv p(1) this]
  from settled have l: "loop_inv d" "p_Status p = PullRequestOpen" by blast+
  from settled have form:
    "d = put_state (p_IssueID p) IssueStateOpen (put_pull_request (p\<lparr>p_Status := PullRequestClosed\<rparr>) e)"
    by simp
  have "shut c e q = (if p_ID q = p_ID p then p\<lparr>p_Status := PullRequestClosed\<rparr> else q)"
    if "q \<in> set (e_PullRequests e)" for q
    using distinct_map_unique [OF d1 that p(1)] l(2) p(2) by (auto simp: shut_def gone_def ClosesPullRequest)
  then have "e_PullRequests d = map (shut c e) (e_PullRequests e)"
    by (simp add: form put_pull_request_def)
  moreover have "map skeleton (e_Issues d) = map skeleton (e_Issues e)"
    by (simp add: form put_state_def skeleton_def o_def)
  ultimately show ?thesis using l(1) by (simp add: form)
qed

section \<open>The contract, with the variable\<close>

text \<open>
  A tracker whose updates run the closure once, on the epic as it is held: after one that is taken,
  the variable holds what the closure assigned.
\<close>

locale abandoning_tracker = epic_tracker +
  fixes V :: "'a branches_cell"
  assumes put_silent: "held (cell_put V bs w) = held w" "good (cell_put V bs w) = good w"
    and update_cell: "t_UpdateEpic T i (abandoning V f) w = (None, w') \<Longrightarrow> held w i = Some e \<Longrightarrow>
      \<exists>d. f e = (None, d) \<and> cell_get V w' = newlyAbandoned d (openPullRequestIDs e)"
begin

lemma silent_abandoning: "silent (\<lambda>w. (held w, good w)) (abandoning V f e)"
  by (rule silentI) (auto simp: abandoning_def Let_def put_silent split: prod.splits option.splits)

end

definition branch_of :: "PullRequest \<Rightarrow> Branch" where
  "branch_of p = \<lparr>b_PullRequestID = p_ID p, b_IssueID = p_IssueID p, b_Repository = p_Repository p,
     b_Name = p_Head p\<rparr>"

lemma newlyAbandoned_shut:
  assumes d: "distinct (map p_ID (e_PullRequests e))" and prs: "e_PullRequests d = map (shut c e) (e_PullRequests e)"
  shows "newlyAbandoned d (openPullRequestIDs e) = map branch_of (filter (gone c e) (e_PullRequests e))"
proof -
  have "newlyAbandoned d (openPullRequestIDs e) =
      map branch_of (filter (\<lambda>p. p_Status p = PullRequestClosed \<and> p_ID p \<in> openPullRequestIDs e) (e_PullRequests d))"
    by (simp add: newlyAbandoned_def AbandonedBranches_def branch_of_def filter_map o_def)

  also have "\<dots> = map branch_of (map (shut c e) (filter (gone c e) (e_PullRequests e)))"
  proof -
    have "p_Status (shut c e p) = PullRequestClosed \<and> p_ID (shut c e p) \<in> openPullRequestIDs e \<longleftrightarrow> gone c e p"
      if p: "p \<in> set (e_PullRequests e)" for p
    proof -
      have "p_ID p \<in> openPullRequestIDs e \<longleftrightarrow> p_Status p = PullRequestOpen"
        using distinct_map_unique [OF d p] p by (auto simp: openPullRequestIDs_def)
      then show ?thesis by (auto simp: shut_def gone_def)
    qed
    then show ?thesis unfolding prs filter_map o_def by (simp cong: filter_cong)
  qed
  also have "\<dots> = map branch_of (filter (gone c e) (e_PullRequests e))"
    by (simp add: branch_of_def shut_def o_def)
  finally show ?thesis .
qed

text \<open>Every branch on the list is tried, whatever happens to those before it.\<close>

definition delete_call :: "string \<Rightarrow> Branch \<Rightarrow> CodeCheckout \<times> string" where
  "delete_call epicID b =
     (\<lparr>co_EpicID = epicID, co_IssueID = b_IssueID b, co_Repository = b_Repository b\<rparr>, b_Name b)"

lemma delete_branches_log:
  assumes "\<And>c b w. log (snd (g_DeleteBranch C c b w)) = log w @ [(c, b)]"
  shows "log (snd (delete_branches C epicID bs failures w)) = log w @ map (delete_call epicID) bs"
proof (induction bs arbitrary: failures w)
  case (Cons b bs)
  let ?c = "\<lparr>co_EpicID = epicID, co_IssueID = b_IssueID b, co_Repository = b_Repository b\<rparr>"
  obtain r w1 where d: "g_DeleteBranch C ?c (b_Name b) w = (r, w1)" by fastforce
  with assms [of ?c "b_Name b" w] have "log w1 = log w @ [delete_call epicID b]" by (simp add: delete_call_def)
  with Cons d show ?case by (cases r) auto
qed simp

lemma silent_delete_branches:
  assumes "\<And>c b. silent obs (g_DeleteBranch C c b)"
  shows "silent obs (delete_branches C epicID bs failures)"
proof (rule silentI)
  fix w r w' assume "delete_branches C epicID bs failures w = (r, w')"
  then show "obs w' = obs w"
  proof (induction bs arbitrary: failures w)
    case (Cons b bs)
    then show ?case by (auto split: prod.splits option.splits) (metis silentD [OF assms])+
  qed simp
qed

context abandoning_tracker
begin

lemma closing_spec:
  assumes run: "closing_Handle c V (Some C) T i w = (r, w')" and at: "filed held good storable i w e"
    and C: "quiet_code (\<lambda>w. (held w, good w)) C"
    and delete: "\<And>c b w. log (snd (g_DeleteBranch C c b w)) = log w @ [(c, b)]"
    and update: "\<And>f w. log (snd (t_UpdateEpic T i (abandoning V f) w)) = log w"
    and put: "\<And>bs w. log (cell_put V bs w) = log w"
  shows "(r \<noteq> None \<and> filed held good storable i w' e \<and> log w' = log w) \<or>
    (\<exists>d. closing_change c e = (None, d) \<and> filed held good storable i w' (canonical d) \<and>
       e_PullRequests d = map (shut c e) (e_PullRequests e) \<and>
       log w' = log w @ map (\<lambda>p. delete_call i (branch_of p)) (filter (gone c e) (e_PullRequests e)))"
proof -
  let ?w = "cell_put V [] w"
  have at0: "filed held good storable i ?w e" by (rule filed_frame [OF at put_silent])
  have inv: "loop_inv e" and stored: "good ?w" "held ?w i = Some e" "storable e"
    using at0 by (auto simp: filed_def)
  obtain x w1 where u: "t_UpdateEpic T i (abandoning V (closing_change c)) ?w = (x, w1)" by fastforce
  have log1: "log w1 = log w" using update [of "closing_change c" ?w] put u by simp
  have framed: "e_Repositories d = e_Repositories e \<and> map skeleton (e_Issues d) = map skeleton (e_Issues e) \<and>
      e_ID d = e_ID e" if "abandoning V (closing_change c) e v = ((None, d), v')" for v d v'
    using that closing_change_form [OF inv]
    by (auto simp: abandoning_def Let_def split: prod.splits option.splits)
  show ?thesis
  proof (rule update_cases [OF u stored silent_abandoning framed])
    fix err assume "x = Some err" "held w1 = held ?w" "good w1"
    with run u at0 log1 show ?thesis by (auto simp: closing_Handle_eq filed_def)
  next
    fix v d v' assume x: "x = None" and ok: "good w1" "held w1 i = Some (canonical d)" "storable (canonical d)"
      and ch: "abandoning V (closing_change c) e v = ((None, d), v')"
    from ch have d: "closing_change c e = (None, d)"
      by (auto simp: abandoning_def Let_def split: prod.splits option.splits)
    note form = closing_change_form [OF inv d]
    have at1: "filed held good storable i w1 (canonical d)"
      using ok form loop_inv_canonical by (simp add: filed_def)
    from update_cell [OF u [unfolded x] stored(2)] d have "cell_get V w1 = newlyAbandoned d (openPullRequestIDs e)"
      by auto
    then have cell: "cell_get V w1 = map branch_of (filter (gone c e) (e_PullRequests e))"
      using newlyAbandoned_shut [OF loop_inv_facts(1) [OF inv], of d c] form by simp
    obtain fs w2 where del: "delete_branches C i (cell_get V w1) [] w1 = (fs, w2)" by fastforce
    have w': "w' = w2" using run u x del by (auto simp: closing_Handle_eq deleteAbandonedBranches_def)
    have "filed held good storable i w' (canonical d)"
      unfolding w' by (rule filed_silent [OF at1 silent_delete_branches [OF quiet_codeD(5) [OF C]] del])
    moreover have "log w' = log w @ map (\<lambda>p. delete_call i (branch_of p)) (filter (gone c e) (e_PullRequests e))"
      using delete_branches_log [where log = log and C = C, OF delete, of i "cell_get V w1" "[]" w1] del log1 cell w'
      by (simp add: o_def)
    ultimately show ?thesis using d form by blast
  qed
qed

end

section \<open>The desk\<close>

definition desk_cell :: "'g desk branches_cell" where
  "desk_cell = \<lparr>cell_put = (\<lambda>bs. on_desk (d_abandoned_update (\<lambda>_. bs))), cell_get = (\<lambda>w. d_abandoned (w_ext w))\<rparr>"

interpretation desk_abandons: abandoning_tracker "store_tracker J S T" "desk_held J" desk_good "desk_storable J" desk_cell
  for J :: json_codec and S :: "'g desk_side" and T :: "'g desk tracker_ports"
proof (unfold_locales, goal_cases)
  case (1 bs w)
  then show ?case by (simp add: desk_cell_def desk_held_def on_desk_def)
next
  case (2 bs w)
  then show ?case by (simp add: desk_cell_def desk_good_def on_desk_def)
next
  case (3 i f w w' e)
  obtain faults w1 where f: "at_host (ds_Faults S) w = (faults, w1)" by fastforce
  note st = at_host_fields(1) [OF f]
  from 3(2) have read: "readEpic J i (d_store (w_ext w)) = Inr e"
    by (simp add: desk_held_def tracker_def split: sum.splits)
  show ?case
  proof (cases "fst faults")
    case (Some err)
    then have "ReadEpic J (fst faults) i (d_store (w_ext w)) = Inl err" by (simp add: ReadEpic_def)
    with 3(1) f st show ?thesis
      by (auto simp: store_tracker_def store_UpdateEpic_def UpdateEpic_def Let_def split: if_splits)
  next
    case None
    with read have e: "ReadEpic J (fst faults) i (d_store (w_ext w)) = Inr e" by (simp add: ReadEpic_def)
    obtain outcome w2 where o: "abandoning desk_cell f e w1 = (outcome, w2)" by fastforce
    obtain st' where u: "UpdateEpic J faults i (\<lambda>_. outcome) (d_store (w_ext w)) = (None, st')"
      and w': "w' = on_desk (d_store_update (\<lambda>_. st')) w2"
      using 3(1) f st e o by (auto simp: store_tracker_def store_UpdateEpic_def split: prod.splits)
    from u have taken: "fst outcome = None" by (auto simp: UpdateEpic_None_iff)
    obtain x d where fe: "f e = (x, d)" by fastforce
    show ?thesis
      using o w' taken by (cases x) (auto simp: abandoning_def Let_def desk_cell_def on_desk_def fe)
  qed
qed

text \<open>A log the host keeps, which neither the tables nor the faults touch.\<close>

lemma store_log:
  assumes faults: "\<And>g. l (snd (ds_Faults S g)) = l g"
    and change: "\<And>e w. l (d_host (w_ext (snd (change e w)))) = l (d_host (w_ext w))"
  shows "l (d_host (w_ext (snd (t_UpdateEpic (store_tracker J S T) i change w)))) = l (d_host (w_ext w))"
proof -
  obtain fs w1 where f: "at_host (ds_Faults S) w = (fs, w1)" by fastforce
  then have "l (d_host (w_ext w1)) = l (d_host (w_ext w))"
    using faults [of "d_host (w_ext w)"] by (auto simp: at_host_def on_desk_def Let_def split: prod.splits)
  moreover have "l (d_host (w_ext (snd (change e w1)))) = l (d_host (w_ext w1))" for e by (rule change)
  ultimately show ?thesis
    using f by (simp add: store_tracker_def store_UpdateEpic_def on_desk_def Let_def split: sum.split prod.split)
      (metis snd_conv)
qed

text \<open>C22. Closing an issue, an epic or a pull request deletes exactly the branches it abandons. A command
  that is refused leaves the stored epic and the remote alone. One that is taken closes the open pull
  requests it means (those in the subtree of the issue, those of the epic, that one) and no other,
  and asks git, once each and in order, to delete the branches of these, in the checkout of their own
  issue, also after a deletion that failed.\<close>

theorem closing_deletes_what_it_abandons:
  fixes S :: "'g desk_side" and l :: "'g \<Rightarrow> (CodeCheckout \<times> string) list"
  assumes "closing_Handle c desk_cell (Some C) (store_tracker J S T) i w = (r, w')"
    and "filed (desk_held J) desk_good (desk_storable J) i w e"
    and "quiet_code (\<lambda>w. (desk_held J w, desk_good w)) C"
    and "\<And>c b w. l (d_host (w_ext (snd (g_DeleteBranch C c b w)))) = l (d_host (w_ext w)) @ [(c, b)]"
    and "\<And>g. l (snd (ds_Faults S g)) = l g"
  shows "(r \<noteq> None \<and> filed (desk_held J) desk_good (desk_storable J) i w' e \<and>
      l (d_host (w_ext w')) = l (d_host (w_ext w))) \<or>
    (\<exists>d. closing_change c e = (None, d) \<and> filed (desk_held J) desk_good (desk_storable J) i w' (canonical d) \<and>
       e_PullRequests d = map (\<lambda>p. if gone c e p then p\<lparr>p_Status := PullRequestClosed\<rparr> else p) (e_PullRequests e) \<and>
       l (d_host (w_ext w')) = l (d_host (w_ext w)) @
         map (\<lambda>p. delete_call i (branch_of p)) (filter (gone c e) (e_PullRequests e)))"
proof -
  have "l (d_host (w_ext (snd (abandoning desk_cell f e w)))) = l (d_host (w_ext w))" for f e w
    by (auto simp: abandoning_def Let_def desk_cell_def on_desk_def split: prod.split option.split)
  then show ?thesis
    using desk_abandons.closing_spec [where log = "\<lambda>w. l (d_host (w_ext w))", OF assms(1-4) store_log [where l = l and S = S, OF assms(5)]]
    by (simp add: desk_cell_def on_desk_def shut_def [abs_def])
qed

text \<open>The branches the host of the example was asked to delete.\<close>

fun deletions :: "git_call list \<Rightarrow> (CodeCheckout \<times> string) list" where
  "deletions [] = []"
| "deletions (GitDelete c b # calls) = (c, b) # deletions calls"
| "deletions (call # calls) = deletions calls"

lemma deletions_snoc: "deletions (calls @ [GitDelete c b]) = deletions calls @ [(c, b)]"
  by (induction calls rule: deletions.induct) simp_all

lemma closing_deletes_what_it_abandons_witness:
  "\<exists>e'. filed (desk_held desk_codec) desk_good (desk_storable desk_codec) ''E1''
     (snd (closing_Handle (ClosesIssue ''I1'') desk_cell (Some (desk_code (\<lambda>_ _. Map.empty))) desk_tracker ''E1''
        (desk_world example_epic))) e'"
proof -
  have "deletions (d_host (w_ext (snd (g_DeleteBranch (desk_code (\<lambda>_ _. Map.empty)) c b w)))) =
      deletions (d_host (w_ext w)) @ [(c, b)]" for c b w
    by (simp add: desk_code_def git_def on_desk_def deletions_snoc)
  moreover have "deletions (snd (ds_Faults desk_side g)) = deletions g" for g by (simp add: desk_side_def)
  moreover have "quiet_code (\<lambda>w. (desk_held desk_codec w, desk_good w)) (desk_code (\<lambda>_ _. Map.empty))"
    by (simp add: quiet_code_def desk_code_def silent_def git_def desk_held_def desk_good_def on_desk_def)
  ultimately show ?thesis
    using closing_deletes_what_it_abandons [where l = deletions and c = "ClosesIssue ''I1''",
        OF prod.collapse [symmetric] example_desk] by blast
qed

section \<open>What merging does\<close>

lemma open_record_Inr:
  "open_record ps x = Inr p \<Longrightarrow> p \<in> set ps \<and> p_ID p = x \<and> p_Status p = PullRequestOpen"
  by (induction ps) (auto split: if_splits)

definition merge_checkout :: "string \<Rightarrow> PullRequest \<Rightarrow> CodeCheckout" where
  "merge_checkout epicID p = \<lparr>co_EpicID = epicID, co_IssueID = p_IssueID p, co_Repository = p_Repository p\<rparr>"

text \<open>The four ways the handler ends once git was asked to merge.\<close>

definition merge_left_alone :: "Epic \<Rightarrow> PullRequest \<Rightarrow> Epic \<Rightarrow> bool" where
  "merge_left_alone e p e' \<longleftrightarrow> e' = e \<or>
     (\<exists>d. loop_step e d \<and> e' = canonical d \<and>
        (\<forall>q \<in> set (e_PullRequests e'). p_ID q = p_ID p \<longrightarrow> p_Status q = PullRequestOpen \<and> phase q = IssueStateStale))"

definition merge_recorded :: "Epic \<Rightarrow> PullRequest \<Rightarrow> Epic \<Rightarrow> bool" where
  "merge_recorded e p e' \<longleftrightarrow> phase p = IssueStatePR \<and>
     e' = canonical (put_state (p_IssueID p) IssueStateMerged (put_pull_request (p\<lparr>p_Status := PullRequestMerged\<rparr>) e))"

context epic_tracker
begin

lemma merging_spec:
  assumes run: "MergePullRequest_Handle error_text (Some C) T i x w = (r, w')"
    and at: "filed held good storable i w e" and C: "quiet_code (\<lambda>w. (held w, good w)) C"
    and merge: "\<And>c h b w. log (snd (g_Merge C c h b w)) = log w @ [GitMerge c h b]"
    and delete: "\<And>c b w. log (snd (g_DeleteBranch C c b w)) = log w @ [GitDelete c b]"
    and read: "\<And>w. log (snd (t_ReadEpic T i w)) = log w"
    and plainly: "\<And>f w. log (snd (t_UpdateEpic T i (plain f) w)) = log w"
    and minted: "\<And>f w. log (snd (t_UpdateEpic T i (minting T f) w)) = log w"
  shows "(r \<noteq> None \<and> filed held good storable i w' e \<and> log w' = log w) \<or>
    (\<exists>p e'. openPullRequest e x = Inr p \<and> filed held good storable i w' e' \<and>
       (r \<noteq> None \<and> log w' = log w @ [GitMerge (merge_checkout i p) (p_Head p) (p_Base p)] \<and>
          merge_left_alone e p e' \<or>
        log w' = log w @ [GitMerge (merge_checkout i p) (p_Head p) (p_Base p), GitDelete (merge_checkout i p) (p_Head p)] \<and>
          merge_recorded e p e' \<and> (\<exists>v v'. g_Merge C (merge_checkout i p) (p_Head p) (p_Base p) v = (None, v'))))"
proof -
  have inv: "loop_inv e" and id: "e_ID e = i" and st: "storable e" and held0: "held w i = Some e"
    using at held_tidy by (auto simp: filed_def)
  obtain y w1 where rd: "t_ReadEpic T i w = (y, w1)" by fastforce
  have at1: "filed held good storable i w1 e" by (rule filed_silent [OF at read_silent rd])
  have log1: "log w1 = log w" using read [of w] rd by simp
  consider err where "y = Inl err" | err where "y = Inr e" "openPullRequest e x = Inl err"
    | p where "y = Inr e" "openPullRequest e x = Inr p"
    using read_held [of i w] rd held0 by (cases y; cases "openPullRequest e x") auto
  then show ?thesis
  proof cases
    case 1
    with run rd at1 log1 show ?thesis by (auto simp: MergePullRequest_Handle_def)
  next
    case 2
    with run rd at1 log1 show ?thesis by (auto simp: MergePullRequest_Handle_def)
  next
    case (3 p)
    have p: "p \<in> set (e_PullRequests e)" "p_ID p = x" "p_Status p = PullRequestOpen"
      using open_record_Inr 3(2) by (auto simp: openPullRequest_def)
    let ?c = "merge_checkout i p"
    let ?merge = "GitMerge ?c (p_Head p) (p_Base p)"
    obtain m w2 where m: "g_Merge C ?c (p_Head p) (p_Base p) w1 = (m, w2)" by fastforce
    have at2: "filed held good storable i w2 e" by (rule filed_silent [OF at1 quiet_codeD(3) [OF C] m])
    have log2: "log w2 = log w @ [?merge]" using merge [of ?c "p_Head p" "p_Base p" w1] m log1 by simp
    have stored: "good w2" "held w2 i = Some e" "storable e" using at2 by (simp_all add: filed_def)
    have head: "MergePullRequest_Handle error_text (Some C) T i x w =
        (case m of
           Some err \<Rightarrow>
             if \<not> errors_is err ErrMergeConflict then (Some err, w2)
             else (case t_UpdateEpic T i (minting T (\<lambda>ulid now. conflict_markStale ulid now p
                      (conflict_comment error_text p err))) w2 of
                     (Some recordErr, w) \<Rightarrow> (Some recordErr, w) | (None, w) \<Rightarrow> (Some err, w))
         | None \<Rightarrow>
             (case t_UpdateEpic T i (plain (TransitionPullRequest (p_ID p) PullRequestMerged)) w2 of
                (Some err, w) \<Rightarrow> (Some err, w) | (None, w) \<Rightarrow> g_DeleteBranch C ?c (p_Head p) w))"
      using rd 3 m id unfolding merge_checkout_def
      by (simp add: MergePullRequest_Handle_def Let_def split: option.split)
    have stays: "(\<exists>e'. filed held good storable i w' e' \<and> r \<noteq> None \<and> log w' = log w @ [?merge] \<and> merge_left_alone e p e') \<Longrightarrow> ?thesis"
      using 3(2) by blast
    show ?thesis
    proof (cases m)
      case (Some err)
      show ?thesis
      proof (cases "errors_is err ErrMergeConflict")
        case False
        with run head Some at2 log2 show ?thesis by (intro stays exI [of _ e]) (auto simp: merge_left_alone_def)
      next
        case True
        let ?f = "\<lambda>ulid now. conflict_markStale ulid now p (conflict_comment error_text p err)"
        obtain u w3 where u: "t_UpdateEpic T i (minting T ?f) w2 = (u, w3)" by fastforce
        have r: "r \<noteq> None" "w' = w3" using run head Some True u by (auto split: option.splits)
        have log3: "log w3 = log w @ [?merge]" using minted [of ?f w2] u log2 by simp
        show ?thesis
        proof (rule minting_cases [OF u stored frames_changes(3)])
          fix err' assume "u = Some err'" "held w3 = held w2" "good w3"
          with at2 r log3 show ?thesis
            by (intro stays exI [of _ e]) (auto simp: merge_left_alone_def filed_def)
        next
          fix ulid now d assume ok: "good w3" "held w3 i = Some (canonical d)" "storable (canonical d)"
            and d: "?f ulid now e = (None, d)"
          obtain q where q: "d = put_state (p_IssueID p) IssueStateStale (put_pull_request q e)"
            "record_step p q" "phase q = IssueStateStale"
            by (rule conflict_markStale_form [OF inv p(1,3) d])
          have "\<forall>q \<in> set (e_PullRequests (canonical d)). p_ID q = p_ID p \<longrightarrow> p_Status q = PullRequestOpen \<and> phase q = IssueStateStale"
            using q(2,3) p(3) distinct_map_unique [OF loop_inv_facts(1) [OF inv] _ p(1)]
              put_pull_request_set [OF loop_inv_facts(1) [OF inv] p(1), of q]
            by (auto simp: set_canonical_pull_requests q(1) record_step_def)
          with filed_step [OF at2 r_into_rtranclp [of loop_step, OF loop_step.Conflicts [OF p(1,3) d]] ok]
            loop_step.Conflicts [OF p(1,3) d] r log3
          show ?thesis by (intro stays exI [of _ "canonical d"]) (auto simp: merge_left_alone_def)
        qed
      qed
    next
      case None
      let ?f = "TransitionPullRequest (p_ID p) PullRequestMerged"
      obtain u w3 where u: "t_UpdateEpic T i (plain ?f) w2 = (u, w3)" by fastforce
      have log3: "log w3 = log w @ [?merge]" using plainly [of ?f w2] u log2 by simp
      show ?thesis
      proof (rule plain_cases [OF u stored frames_TransitionPullRequest])
        fix err' assume "u = Some err'" "held w3 = held w2" "good w3"
        with run head None u at2 log3 show ?thesis
          by (intro stays exI [of _ e]) (auto simp: merge_left_alone_def filed_def)
      next
        fix d assume u0: "u = None" and ok: "good w3" "held w3 i = Some (canonical d)" "storable (canonical d)"
          and d: "?f e = (None, d)"
        note settled = settle_form [OF inv p(1) d]
        then have "phase p = IssueStatePR" by auto
        moreover from settled have "canonical d = canonical (put_state (p_IssueID p) IssueStateMerged
            (put_pull_request (p\<lparr>p_Status := PullRequestMerged\<rparr>) e))" by simp
        ultimately have rec: "merge_recorded e p (canonical d)" by (simp add: merge_recorded_def)
        obtain del w4 where del: "g_DeleteBranch C ?c (p_Head p) w3 = (del, w4)" by fastforce
        have w': "r = del" "w' = w4" using run head None u u0 del by auto
        have at3: "filed held good storable i w3 (canonical d)"
          using filed_step [OF at2 r_into_rtranclp [of loop_step, OF loop_step.Settles [OF p(1) d]] ok] by blast
        have "filed held good storable i w' (canonical d)"
          unfolding w' by (rule filed_silent [OF at3 quiet_codeD(5) [OF C] del])
        moreover have "log w' = log w @ [?merge, GitDelete ?c (p_Head p)]"
          using delete [of ?c "p_Head p" w3] del log3 w' by simp
        ultimately show ?thesis using rec 3(2) m None by blast
      qed
    qed
  qed
qed

end

lemma store_log_read:
  assumes faults: "\<And>g. l (snd (ds_Faults S g)) = l g"
  shows "l (d_host (w_ext (snd (t_ReadEpic (store_tracker J S T) i w)))) = l (d_host (w_ext w))"
  using faults [of "d_host (w_ext w)"]
  by (auto simp: store_tracker_def store_ReadEpic_def at_host_def on_desk_def Let_def split: prod.split)

lemma store_log_minting:
  assumes mint: "\<And>g. l (snd (ds_Mint S g)) = l g"
  shows "l (d_host (w_ext (snd (minting (store_tracker J S T) f e w)))) = l (d_host (w_ext w))"
  using mint [of "d_host (w_ext w)"]
  by (auto simp: minting_def store_tracker_def at_host_def on_desk_def Let_def split: prod.split)

text \<open>C21. A branch is deleted only when its commits are on its base and the merge is on record, and a merge
  is recorded only after git merged. Asked to merge a pull request, the handler leaves the remote and
  the stored epic alone; or it asks git to merge, and then either reports an error, with the pull
  request still open (as it was, or handed to the merge role), or the merge had been accepted, the
  pull request was approved and is recorded with its issue as merged, and the branch is deleted.\<close>

theorem merged_branches_are_on_record:
  fixes S :: "'g desk_side" and l :: "'g \<Rightarrow> git_call list"
  assumes "MergePullRequest_Handle error_text (Some C) (store_tracker J S T) i x w = (r, w')"
    and "filed (desk_held J) desk_good (desk_storable J) i w e"
    and "quiet_code (\<lambda>w. (desk_held J w, desk_good w)) C"
    and "\<And>c h b w. l (d_host (w_ext (snd (g_Merge C c h b w)))) = l (d_host (w_ext w)) @ [GitMerge c h b]"
    and "\<And>c b w. l (d_host (w_ext (snd (g_DeleteBranch C c b w)))) = l (d_host (w_ext w)) @ [GitDelete c b]"
    and "\<And>g. l (snd (ds_Faults S g)) = l g" and "\<And>g. l (snd (ds_Mint S g)) = l g"
  shows "(r \<noteq> None \<and> filed (desk_held J) desk_good (desk_storable J) i w' e \<and>
      l (d_host (w_ext w')) = l (d_host (w_ext w))) \<or>
    (\<exists>p e'. openPullRequest e x = Inr p \<and> filed (desk_held J) desk_good (desk_storable J) i w' e' \<and>
       (r \<noteq> None \<and> l (d_host (w_ext w')) = l (d_host (w_ext w)) @
            [GitMerge (merge_checkout i p) (p_Head p) (p_Base p)] \<and> merge_left_alone e p e' \<or>
        l (d_host (w_ext w')) = l (d_host (w_ext w)) @
            [GitMerge (merge_checkout i p) (p_Head p) (p_Base p), GitDelete (merge_checkout i p) (p_Head p)] \<and>
          merge_recorded e p e' \<and> (\<exists>v v'. g_Merge C (merge_checkout i p) (p_Head p) (p_Base p) v = (None, v'))))"
proof (rule desk.merging_spec [where log = "\<lambda>w. l (d_host (w_ext w))", OF assms(1-5)])
  show "l (d_host (w_ext (snd (t_UpdateEpic (store_tracker J S T) i (plain f) w)))) = l (d_host (w_ext w))" for f w
    by (rule store_log [where l = l and S = S, OF assms(6)]) (simp add: plain_def)
  show "l (d_host (w_ext (snd (t_UpdateEpic (store_tracker J S T) i (minting (store_tracker J S T) f) w)))) =
      l (d_host (w_ext w))" for f w
    by (rule store_log [where l = l and S = S, OF assms(6) store_log_minting [where l = l and S = S, OF assms(7)]])
qed (rule store_log_read [where l = l and S = S, OF assms(6)])

lemma desk_code_facts:
  "quiet_code (\<lambda>w. (desk_held desk_codec w, desk_good w)) (desk_code R)"
  "d_host (w_ext (snd (g_Merge (desk_code R) c h b w))) = d_host (w_ext w) @ [GitMerge c h b]"
  "d_host (w_ext (snd (g_DeleteBranch (desk_code R) c b w))) = d_host (w_ext w) @ [GitDelete c b]"
  "snd (ds_Faults desk_side g) = g" "snd (ds_Mint desk_side g) = g"
  by (simp_all add: quiet_code_def desk_code_def silent_def git_def desk_held_def desk_good_def on_desk_def
    desk_side_def)

lemma merged_branches_are_on_record_witness:
  "\<exists>e'. filed (desk_held desk_codec) desk_good (desk_storable desk_codec) ''E1''
     (snd (MergePullRequest_Handle (\<lambda>err. ''error'') (Some (desk_code (\<lambda>_ _. Map.empty))) desk_tracker ''E1'' ''P1''
        (desk_world example_epic))) e' \<and>
     (e' = canonical example_epic \<or> (\<exists>p. merge_left_alone (canonical example_epic) p e') \<or>
      (\<exists>p. merge_recorded (canonical example_epic) p e'))"
  using merged_branches_are_on_record [where l = "\<lambda>g. g" and C = "desk_code (\<lambda>_ _. Map.empty)", OF prod.collapse [symmetric]
      example_desk desk_code_facts, of "\<lambda>err. ''error''" idle_tracker "''P1''"]
  by blast

lemma open_record_hit:
  "distinct (map p_ID ps) \<Longrightarrow> p \<in> set ps \<Longrightarrow> p_Status p = PullRequestOpen \<Longrightarrow> open_record ps (p_ID p) = Inr p"
  by (induction ps) (auto simp: image_iff)

context epic_tracker
begin

lemma unapproved_spec:
  assumes run: "MergePullRequest_Handle error_text (Some C) T i (p_ID p) w = (r, w')"
    and at: "filed held good storable i w e" and C: "quiet_code (\<lambda>w. (held w, good w)) C"
    and read: "fst (t_ReadEpic T i w) = Inr e"
    and p: "p \<in> set (e_PullRequests e)" "p_Status p = PullRequestOpen" "phase p \<noteq> IssueStatePR"
    and merges: "\<And>w. fst (g_Merge C (merge_checkout i p) (p_Head p) (p_Base p) w) = None"
    and merge: "\<And>c h b w. log (snd (g_Merge C c h b w)) = log w @ [GitMerge c h b]"
    and reads: "\<And>w. log (snd (t_ReadEpic T i w)) = log w"
    and plainly: "\<And>f w. log (snd (t_UpdateEpic T i (plain f) w)) = log w"
  shows "r \<noteq> None \<and> filed held good storable i w' e \<and>
    log w' = log w @ [GitMerge (merge_checkout i p) (p_Head p) (p_Base p)]"
proof -
  have inv: "loop_inv e" and id: "e_ID e = i" using at held_tidy by (auto simp: filed_def)
  obtain w1 where rd: "t_ReadEpic T i w = (Inr e, w1)" using read by (metis prod.collapse)
  have at1: "filed held good storable i w1 e" by (rule filed_silent [OF at read_silent rd])
  let ?c = "merge_checkout i p"
  obtain w2 where m: "g_Merge C ?c (p_Head p) (p_Base p) w1 = (None, w2)" using merges by (metis prod.collapse)
  have at2: "filed held good storable i w2 e" by (rule filed_silent [OF at1 quiet_codeD(3) [OF C] m])
  have stored: "good w2" "held w2 i = Some e" "storable e" using at2 by (simp_all add: filed_def)
  let ?f = "TransitionPullRequest (p_ID p) PullRequestMerged"
  obtain u w3 where u: "t_UpdateEpic T i (plain ?f) w2 = (u, w3)" by fastforce
  have logs: "log w3 = log w @ [GitMerge ?c (p_Head p) (p_Base p)]"
    using plainly [of ?f w2] merge [of ?c "p_Head p" "p_Base p" w1] reads [of w] u m rd by simp
  have hit: "openPullRequest e (p_ID p) = Inr p"
    unfolding openPullRequest_def by (rule open_record_hit [OF loop_inv_facts(1) [OF inv] p(1,2)])
  show ?thesis
  proof (rule plain_cases [OF u stored frames_TransitionPullRequest])
    fix err assume "u = Some err" "held w3 = held w2" "good w3"
    with run rd hit m id u at2 logs show ?thesis
      unfolding merge_checkout_def by (auto simp: MergePullRequest_Handle_def filed_def)
  next
    fix d assume "?f e = (None, d)"
    from settle_form [OF inv p(1) this] p(3) show ?thesis by simp
  qed
qed

end

text \<open>Merging asks only whether the record is open. Asked to merge a pull request that is not approved,
  with git ready to merge, the handler has git merge its branch into the base and publish it, and only
  then is the record refused: the commits are on the base, while in the tracker nothing has changed.\<close>

theorem unapproved_work_lands_unrecorded:
  fixes S :: "'g desk_side" and l :: "'g \<Rightarrow> git_call list"
  assumes "MergePullRequest_Handle error_text (Some C) (store_tracker J S T) i (p_ID p) w = (r, w')"
    and "filed (desk_held J) desk_good (desk_storable J) i w e"
    and "quiet_code (\<lambda>w. (desk_held J w, desk_good w)) C"
    and "\<And>g. fst (ds_Faults S g) = (None, None)"
    and "p \<in> set (e_PullRequests e)" and "p_Status p = PullRequestOpen" and "phase p \<noteq> IssueStatePR"
    and "\<And>w. fst (g_Merge C (merge_checkout i p) (p_Head p) (p_Base p) w) = None"
    and "\<And>c h b w. l (d_host (w_ext (snd (g_Merge C c h b w)))) = l (d_host (w_ext w)) @ [GitMerge c h b]"
    and "\<And>g. l (snd (ds_Faults S g)) = l g"
  shows "r \<noteq> None \<and> filed (desk_held J) desk_good (desk_storable J) i w' e \<and>
    l (d_host (w_ext w')) = l (d_host (w_ext w)) @ [GitMerge (merge_checkout i p) (p_Head p) (p_Base p)]"
proof (rule desk.unapproved_spec [where log = "\<lambda>w. l (d_host (w_ext w))", OF assms(1-3) _ assms(5-9)])
  obtain w1 where f: "at_host (ds_Faults S) w = ((None, None), w1)"
    using assms(4) [of "d_host (w_ext w)"] by (cases "ds_Faults S (d_host (w_ext w))") (auto simp: at_host_def)
  with at_host_fields(1) [OF f] assms(2) show "fst (t_ReadEpic (store_tracker J S T) i w) = Inr e"
    by (simp add: store_tracker_def store_ReadEpic_def ReadEpic_def filed_def desk_held_def tracker_def split: sum.splits)
  show "l (d_host (w_ext (snd (t_UpdateEpic (store_tracker J S T) i (plain f) w)))) = l (d_host (w_ext w))" for f w
    by (rule store_log [where l = l and S = S, OF assms(10)]) (simp add: plain_def)
qed (rule store_log_read [where l = l and S = S, OF assms(10)])

text \<open>The epic whose only pull request has not been coded yet, on the desk.\<close>

lemma cut_desk:
  "filed (desk_held desk_codec) desk_good (desk_storable desk_codec) ''E1'' (desk_world cut_epic) (canonical cut_epic)"
proof -
  have "json_faithful desk_codec cut_epic"
    by (simp add: json_faithful_def desk_codec_def example_codec_def cut_epic_def put_state_def uncut_epic_def
      example_epic_def cut_pull_request_def)
  moreover have "ids_free desk_codec cut_epic empty_store"
    by (simp add: ids_free_def fits_def cut_epic_def put_state_def uncut_epic_def example_epic_def
      cut_pull_request_def empty_store_def issue_comment_rows_def pull_request_comment_rows_def)
  moreover have "e_ID cut_epic = ''E1''" by (simp add: cut_epic_def uncut_epic_def example_epic_def)
  ultimately show ?thesis using desk_world_filed [OF cut_inv] by metis
qed

lemma unapproved_work_lands_unrecorded_witness:
  "fst (MergePullRequest_Handle (\<lambda>err. ''error'') (Some (desk_code (\<lambda>_ _. Map.empty))) desk_tracker ''E1'' ''P1'' (desk_world cut_epic)) \<noteq> None \<and>
   d_host (w_ext (snd (MergePullRequest_Handle (\<lambda>err. ''error'') (Some (desk_code (\<lambda>_ _. Map.empty))) desk_tracker ''E1'' ''P1''
     (desk_world cut_epic)))) = [GitMerge (merge_checkout ''E1'' cut_pull_request) ''gm/task-I1'' ''main'']"
proof -
  have p: "cut_pull_request \<in> set (e_PullRequests (canonical cut_epic))" "p_Status cut_pull_request = PullRequestOpen"
    "phase cut_pull_request \<noteq> IssueStatePR" "p_ID cut_pull_request = ''P1''" "p_Head cut_pull_request = ''gm/task-I1''"
    "p_Base cut_pull_request = ''main''"
    by (simp_all add: set_canonical_pull_requests cut_epic_def canonical_pull_request_def cut_pull_request_def
      phase_def HasFlag_def sort_comments_def)
  have "fst (ds_Faults desk_side g) = (None, None)" "fst (g_Merge (desk_code (\<lambda>_ _. Map.empty)) c h b w) = None" for g c h b w
    by (simp_all add: desk_side_def desk_code_def)
  then show ?thesis
    using unapproved_work_lands_unrecorded [where l = "\<lambda>g. g" and C = "desk_code (\<lambda>_ _. Map.empty)" and p = cut_pull_request,
        OF prod.collapse [symmetric] cut_desk desk_code_facts(1) _ p(1-3) _ desk_code_facts(2,4),
        of "\<lambda>err. ''error''" idle_tracker] p(4-6)
    by (simp add: desk_world_def)
qed

end
