(* ===== verification/Sandbox_Upkeep.thy ===== *)
theory Sandbox_Upkeep
  imports Host_Ports Round_Roles
begin

text \<open>
  \<open>internal/application/usecases/reconcile_sandboxes.go\<close>: the pass at the top of a tick that brings
  the sandbox records in line with the provider, stops what nothing owns, reclaims what is finished,
  broken or idle, and stops the host of a quiet project.
\<close>

section \<open>The runtime's ports\<close>

record 'x project_host =
  ph_ReapExpiredContainers :: "nat \<Rightarrow> int \<Rightarrow> int \<Rightarrow> (bool, 'x) io"
  ph_StopProfile :: "nat \<Rightarrow> (bool, 'x) io"
  ph_DeleteProfile :: "nat \<Rightarrow> 'x world \<Rightarrow> go_error option \<times> 'x world"

text \<open>
  The clock, \<open>SaveSandbox\<close>, \<open>SaveAgentRun\<close> and \<open>StopNow\<close> are those of a round. A port that may be
  nil is an option.
\<close>

record 'x runtime_ports =
  k_round :: "'x round_ports"
  k_ListAgentRuns :: "nat \<Rightarrow> AgentSubject \<Rightarrow> (AgentRun list, 'x) io"
  k_ListProjectAgentRuns :: "nat \<Rightarrow> (AgentRun list, 'x) io"
  k_ListSandboxes :: "nat \<Rightarrow> (Sandbox list, 'x) io"
  k_DeleteSubjectRuntime :: "nat \<Rightarrow> AgentSubject \<Rightarrow> 'x world \<Rightarrow> go_error option \<times> 'x world"
  k_DeleteProjectRuntime :: "nat \<Rightarrow> 'x world \<Rightarrow> go_error option \<times> 'x world"
  k_Inspect :: "SandboxRef \<Rightarrow> (SandboxStatus, 'x) io"
  k_Delete :: "SandboxRef \<Rightarrow> 'x world \<Rightarrow> go_error option \<times> 'x world"
  k_DiscardCredentials :: "(string \<Rightarrow> 'x world \<Rightarrow> go_error option \<times> 'x world) option"
  k_DiscardOutput :: "(string \<Rightarrow> 'x world \<Rightarrow> go_error option \<times> 'x world) option"
  k_FreeBytes :: "(int, 'x) io option"
  k_host :: "'x project_host option"

text \<open>The durations the use case is built with, in nanoseconds, and the threshold of free space.\<close>

record upkeep =
  idleAfter :: int
  maxRuntime :: int
  pressureBelow :: int
  idleUnderPressure :: int
  hostIdleAfter :: int
  hostRunningAfter :: int
  hostStoppedAfter :: int

text \<open>What the use case remembers between two passes.\<close>

record host_memory =
  lastBusy :: "nat \<rightharpoonup> int"
  hostReleased :: "nat set"

record ReconcileSandboxesCommand =
  rc_ProjectID :: nat
  rc_Priority :: "AgentSubject \<rightharpoonup> AgentRole"
  rc_Recover :: bool
  rc_Terminal :: "AgentSubject set"
  rc_InFlight :: "AgentSubject set"

section \<open>One sandbox\<close>

definition idleWindow :: "upkeep \<Rightarrow> 'x runtime_ports \<Rightarrow> 'x world \<Rightarrow> int \<times> 'x world" where
  "idleWindow U K w =
     (case k_FreeBytes K of
        None \<Rightarrow> (idleAfter U, w)
      | Some FreeBytes \<Rightarrow>
          if pressureBelow U \<le> 0 \<or> idleUnderPressure U \<le> 0 then (idleAfter U, w)
          else
            (case FreeBytes w of
               (Inl err, w) \<Rightarrow> (idleAfter U, w)
             | (Inr free, w) \<Rightarrow>
                 if free \<ge> pressureBelow U then (idleAfter U, w)
                 else if idleAfter U > 0 \<and> idleUnderPressure U > idleAfter U then (idleAfter U, w)
                 else (idleUnderPressure U, w)))"

fun live_runs_loop :: "AgentRun list \<Rightarrow> (string \<Rightarrow> AgentRun list) \<Rightarrow> string \<Rightarrow> AgentRun list" where
  "live_runs_loop [] live = live"
| "live_runs_loop (run # runs) live =
     live_runs_loop runs
       (if isLiveAgentRunStatus (r_Status run)
        then live(r_SandboxID run := live (r_SandboxID run) @ [run]) else live)"

definition liveRunsBySandbox :: "AgentRun list \<Rightarrow> string \<Rightarrow> AgentRun list" where
  "liveRunsBySandbox runs = live_runs_loop runs (\<lambda>_. [])"

definition prioritySandboxes :: "Sandbox list \<Rightarrow> (AgentSubject \<rightharpoonup> AgentRole) \<Rightarrow> Sandbox list" where
  "prioritySandboxes sandboxes priority =
     (if priority = Map.empty then sandboxes
      else filter (\<lambda>sandbox. priority (v_Subject sandbox) = Some (v_Role sandbox)) sandboxes)"

definition stopUnowned ::
    "upkeep \<Rightarrow> 'x runtime_ports \<Rightarrow> Sandbox \<Rightarrow> AgentRun list \<Rightarrow> int \<Rightarrow> bool \<Rightarrow> (bool, 'x) io" where
  "stopUnowned U K sandbox owners now finished w =
     (let overran = maxRuntime U > 0 \<and> now - v_UpdatedAt sandbox \<ge> maxRuntime U
      in if owners \<noteq> [] \<and> \<not> overran \<and> \<not> finished then (Inr False, w)
         else
           (case StopNow (k_round K) (Sandbox_Ref sandbox) w of
              (Some err, w) \<Rightarrow> (Inl (Wrapf ''stop unowned sandbox %q: %w'' [GStr (v_Name sandbox)] [err]), w)
            | (None, w) \<Rightarrow>
                (case stallLiveRuns (k_round K) owners w of
                   (Some err, w) \<Rightarrow>
                     (Inl (Wrapf ''stall runs of sandbox %q: %w'' [GStr (v_Name sandbox)] [err]), w)
                 | (None, w) \<Rightarrow> (Inr True, w))))"

text \<open>The tail of \<open>reclaim\<close>: what is left once the credentials are gone.\<close>

definition record_reclaimed ::
    "'x runtime_ports \<Rightarrow> Sandbox \<Rightarrow> int \<Rightarrow> 'x world \<Rightarrow> go_error option \<times> 'x world" where
  "record_reclaimed K sandbox now w =
     (case Sandbox_Apply SandboxEventDelete sandbox of
        (Some err, _) \<Rightarrow> (Some err, w)
      | (None, sandbox) \<Rightarrow>
          (case Sandbox_Apply SandboxEventDeleteDone sandbox of
             (Some err, _) \<Rightarrow> (Some err, w)
           | (None, sandbox) \<Rightarrow> SaveSandbox (k_round K) (sandbox\<lparr>v_UpdatedAt := now\<rparr>) w))"

definition reclaim :: "'x runtime_ports \<Rightarrow> Sandbox \<Rightarrow> int \<Rightarrow> 'x world \<Rightarrow> go_error option \<times> 'x world" where
  "reclaim K sandbox now w =
     (case k_Delete K (Sandbox_Ref sandbox) w of
        (Some err, w) \<Rightarrow> (Some err, w)
      | (None, w) \<Rightarrow>
          (case k_DiscardCredentials K of
             None \<Rightarrow> record_reclaimed K sandbox now w
           | Some Discard \<Rightarrow>
               (case Discard (v_Name sandbox) w of
                  (Some err, w) \<Rightarrow> (Some err, w)
                | (None, w) \<Rightarrow> record_reclaimed K sandbox now w)))"

definition retire :: "'x runtime_ports \<Rightarrow> Sandbox \<Rightarrow> int \<Rightarrow> 'x world \<Rightarrow> go_error option \<times> 'x world" where
  "retire K sandbox now w =
     (if v_Status sandbox = SandboxStatusAbsent
      then SaveSandbox (k_round K) (sandbox\<lparr>v_UpdatedAt := now\<rparr>) w
      else reclaim K sandbox now w)"

text \<open>What the loop of \<open>Handle\<close> collects: the errors, the subjects not reconciled, and whether anything runs.\<close>

record tally =
  y_errs :: "go_error list"
  y_unreconciled :: "AgentSubject set"
  y_busy :: bool

definition failed_on :: "AgentSubject \<Rightarrow> go_error \<Rightarrow> tally \<Rightarrow> tally" where
  "failed_on subject err y =
     y\<lparr>y_errs := y_errs y @ [err], y_unreconciled := insert subject (y_unreconciled y)\<rparr>"

text \<open>A step of the loop that may fail, with the message it is reported under.\<close>

definition reporting ::
    "Sandbox \<Rightarrow> string \<Rightarrow> tally \<Rightarrow> go_error option \<times> 'x world \<Rightarrow> tally \<times> 'x world" where
  "reporting sandbox message y r =
     (case r of
        (Some err, w) \<Rightarrow> (failed_on (v_Subject sandbox) (Wrapf message [GStr (v_Name sandbox)] [err]) y, w)
      | (None, w) \<Rightarrow> (y, w))"

text \<open>The rest of the loop's body, once the provider's status is known.\<close>

definition settle_sandbox ::
    "'x runtime_ports \<Rightarrow> int \<Rightarrow> int \<Rightarrow> bool \<Rightarrow> bool \<Rightarrow> SandboxStatus \<Rightarrow> SandboxStatus \<Rightarrow> Sandbox \<Rightarrow> tally \<Rightarrow>
       'x world \<Rightarrow> tally \<times> 'x world" where
  "settle_sandbox K idle now finished stopped recorded status sandbox y w =
     (case Sandbox_Reconcile status sandbox of
        (Some err, _) \<Rightarrow> reporting sandbox ''reconcile sandbox %q: %w'' y (Some err, w)
      | (None, sandbox) \<Rightarrow>
          if finished
          then reporting sandbox ''reclaim finished sandbox %q: %w'' y (retire K sandbox now w)
          else if status = SandboxStatusBroken
          then reporting sandbox ''reclaim broken sandbox %q: %w'' y (reclaim K sandbox now w)
          else if idle > 0 \<and> status = SandboxStatusStopped \<and> now - v_UpdatedAt sandbox \<ge> idle
          then reporting sandbox ''reclaim idle sandbox %q: %w'' y (reclaim K sandbox now w)
          else if recorded = status \<and> \<not> stopped then (y, w)
          else
            (case SaveSandbox (k_round K) (sandbox\<lparr>v_UpdatedAt := now\<rparr>) w of
               (Some err, w) \<Rightarrow>
                 (y\<lparr>y_errs := y_errs y @ [Wrapf ''save sandbox %q: %w'' [GStr (v_Name sandbox)] [err]]\<rparr>, w)
             | (None, w) \<Rightarrow> (y, w)))"

definition reconcile_sandbox ::
    "upkeep \<Rightarrow> 'x runtime_ports \<Rightarrow> ReconcileSandboxesCommand \<Rightarrow> (string \<Rightarrow> AgentRun list) \<Rightarrow> int \<Rightarrow> int \<Rightarrow> Sandbox \<Rightarrow>
       tally \<Rightarrow> 'x world \<Rightarrow> tally \<times> 'x world" where
  "reconcile_sandbox U K command live idle now sandbox y w =
     (if v_Subject sandbox \<in> rc_InFlight command then (y, w)
      else
        case k_Inspect K (Sandbox_Ref sandbox) w of
          (Inl err, w) \<Rightarrow> reporting sandbox ''inspect sandbox %q: %w'' y (Some err, w)
        | (Inr status, w) \<Rightarrow>
            (let recorded = v_Status sandbox; finished = v_Subject sandbox \<in> rc_Terminal command
             in if status \<noteq> SandboxStatusRunning
                then settle_sandbox K idle now finished False recorded status sandbox y w
                else
                  (case stopUnowned U K sandbox (live (v_ID sandbox)) now finished w of
                     (Inl err, w) \<Rightarrow> (failed_on (v_Subject sandbox) err y, w)
                   | (Inr stopped, w) \<Rightarrow>
                       if stopped
                       then settle_sandbox K idle now finished True recorded SandboxStatusStopped
                              (sandbox\<lparr>v_UpdatedAt := now\<rparr>) y w
                       else settle_sandbox K idle now finished False recorded status sandbox
                              (y\<lparr>y_busy := True\<rparr>) w)))"

fun reconcile_all ::
    "upkeep \<Rightarrow> 'x runtime_ports \<Rightarrow> ReconcileSandboxesCommand \<Rightarrow> (string \<Rightarrow> AgentRun list) \<Rightarrow> int \<Rightarrow> int \<Rightarrow>
       Sandbox list \<Rightarrow> tally \<Rightarrow> 'x world \<Rightarrow> tally \<times> 'x world" where
  "reconcile_all U K command live idle now [] y w = (y, w)"
| "reconcile_all U K command live idle now (sandbox # sandboxes) y w =
     (case reconcile_sandbox U K command live idle now sandbox y w of
        (y, w) \<Rightarrow> reconcile_all U K command live idle now sandboxes y w)"

section \<open>The host and the pass\<close>

definition releaseHost ::
    "upkeep \<Rightarrow> 'x runtime_ports \<Rightarrow> ReconcileSandboxesCommand \<Rightarrow> bool \<Rightarrow> int \<Rightarrow> go_error list \<Rightarrow> host_memory \<Rightarrow>
       'x world \<Rightarrow> (go_error option \<times> host_memory) \<times> 'x world" where
  "releaseHost U K command busy now failures m w =
     (let project = rc_ProjectID command
      in case k_host K of
           None \<Rightarrow> ((None, m), w)
         | Some H \<Rightarrow>
             if busy \<or> rc_InFlight command \<noteq> {} \<or> failures \<noteq> []
             then ((None, m\<lparr>lastBusy := (lastBusy m)(project \<mapsto> now),
                    hostReleased := hostReleased m - {project}\<rparr>), w)
             else if project \<in> hostReleased m then ((None, m), w)
             else
               case lastBusy m project of
                 None \<Rightarrow> ((None, m\<lparr>lastBusy := (lastBusy m)(project \<mapsto> now)\<rparr>), w)
               | Some quiet \<Rightarrow>
                   if now - quiet < hostIdleAfter U then ((None, m), w)
                   else
                     (case ph_ReapExpiredContainers H project (now - hostRunningAfter U)
                             (now - hostStoppedAfter U) w of
                        (Inl err, w) \<Rightarrow>
                          ((Some (Wrapf ''reap expired containers of project %d: %w'' [GInt (int project)] [err]),
                            m), w)
                      | (Inr _, w) \<Rightarrow>
                          (case ph_StopProfile H project w of
                             (Inl err, w) \<Rightarrow>
                               ((Some (Wrapf ''stop host of project %d: %w'' [GInt (int project)] [err]), m), w)
                           | (Inr stopped, w) \<Rightarrow>
                               if \<not> stopped then ((None, m), w)
                               else ((None, m\<lparr>hostReleased := insert project (hostReleased m)\<rparr>), w))))"

text \<open>
  The pass. Its error carries the subjects it could not reconcile when it is a \<open>reconcileFailure\<close>.
\<close>

definition ReconcileSandboxes_Handle ::
    "upkeep \<Rightarrow> 'x runtime_ports \<Rightarrow> ReconcileSandboxesCommand \<Rightarrow> host_memory \<Rightarrow> 'x world \<Rightarrow>
       ((go_error \<times> AgentSubject set option) option \<times> host_memory) \<times> 'x world" where
  "ReconcileSandboxes_Handle U K command m w =
     (case k_ListProjectAgentRuns K (rc_ProjectID command) w of
        (Inl err, w) \<Rightarrow> ((Some (err, None), m), w)
      | (Inr runs, w) \<Rightarrow>
          (case (if rc_Recover command then stallLiveRuns (k_round K) runs w else (None, w)) of
             (Some err, w) \<Rightarrow> ((Some (err, None), m), w)
           | (None, w) \<Rightarrow>
               let runs = (if rc_Recover command then [] else runs); live = liveRunsBySandbox runs
               in case k_ListSandboxes K (rc_ProjectID command) w of
                    (Inl err, w) \<Rightarrow> ((Some (err, None), m), w)
                  | (Inr sandboxes, w) \<Rightarrow>
                      let sandboxes = prioritySandboxes sandboxes (rc_Priority command);
                          (idle, w) = idleWindow U K w;
                          (now, w) = Now (k_round K) w;
                          (y, w) = reconcile_all U K command live idle now sandboxes
                            \<lparr>y_errs = [], y_unreconciled = {}, y_busy = rc_Priority command \<noteq> Map.empty\<rparr> w;
                          ((released, m), w) = releaseHost U K command (y_busy y) now (y_errs y) m w;
                          errs = y_errs y @ (case released of Some err \<Rightarrow> [err] | None \<Rightarrow> [])
                      in ((case join_errors errs of
                             None \<Rightarrow> None | Some err \<Rightarrow> Some (err, Some (y_unreconciled y)), m), w)))"

section \<open>What a pass does to the provider\<close>

text \<open>
  The calls of a pass, as an observer of the world records them: what was read, and every call that
  may change what the provider holds.
\<close>

datatype host_call =
    RunsRead "AgentRun list"
  | SandboxesRead "Sandbox list"
  | Inspected SandboxRef "SandboxStatus option"
  | StoppedNow SandboxRef bool
  | Deleted SandboxRef
  | CredentialsDiscarded string
  | HostReaped nat
  | HostStopped nat

definition answered :: "go_error + 'a \<Rightarrow> 'a option" where
  "answered r = (case r of Inl err \<Rightarrow> None | Inr a \<Rightarrow> Some a)"

lemma answered_simps [simp]: "answered (Inl err) = None" "answered (Inr a) = Some a"
  by (simp_all add: answered_def)

definition records_calls :: "('x world \<Rightarrow> host_call list) \<Rightarrow> 'x runtime_ports \<Rightarrow> bool" where
  "records_calls l K \<longleftrightarrow>
     silent l (Now (k_round K)) \<and> (\<forall>run. silent l (SaveAgentRun (k_round K) run)) \<and>
     (\<forall>v. silent l (SaveSandbox (k_round K) v)) \<and> (\<forall>f. k_FreeBytes K = Some f \<longrightarrow> silent l f) \<and>
     (\<forall>p w. l (snd (k_ListProjectAgentRuns K p w)) =
        l w @ (case fst (k_ListProjectAgentRuns K p w) of Inl _ \<Rightarrow> [] | Inr runs \<Rightarrow> [RunsRead runs])) \<and>
     (\<forall>p w. l (snd (k_ListSandboxes K p w)) =
        l w @ (case fst (k_ListSandboxes K p w) of Inl _ \<Rightarrow> [] | Inr vs \<Rightarrow> [SandboxesRead vs])) \<and>
     (\<forall>ref w. l (snd (k_Inspect K ref w)) = l w @ [Inspected ref (answered (fst (k_Inspect K ref w)))]) \<and>
     (\<forall>ref w. l (snd (StopNow (k_round K) ref w)) = l w @ [StoppedNow ref (fst (StopNow (k_round K) ref w) = None)]) \<and>
     (\<forall>ref w. l (snd (k_Delete K ref w)) = l w @ [Deleted ref]) \<and>
     (\<forall>f name w. k_DiscardCredentials K = Some f \<longrightarrow> l (snd (f name w)) = l w @ [CredentialsDiscarded name]) \<and>
     (\<forall>H p a b w. k_host K = Some H \<longrightarrow>
        l (snd (ph_ReapExpiredContainers H p a b w)) = l w @ [HostReaped p] \<and>
        l (snd (ph_StopProfile H p w)) = l w @ [HostStopped p])"

lemma records_callsD:
  assumes "records_calls l K"
  shows "Now (k_round K) w = (n, w') \<Longrightarrow> l w' = l w"
    "SaveAgentRun (k_round K) run w = (e, w') \<Longrightarrow> l w' = l w"
    "SaveSandbox (k_round K) v w = (e, w') \<Longrightarrow> l w' = l w"
    "k_FreeBytes K = Some f \<Longrightarrow> f w = (b, w') \<Longrightarrow> l w' = l w"
    "k_ListProjectAgentRuns K p w = (Inl err, w') \<Longrightarrow> l w' = l w"
    "k_ListProjectAgentRuns K p w = (Inr runs, w') \<Longrightarrow> l w' = l w @ [RunsRead runs]"
    "k_ListSandboxes K p w = (Inl err, w') \<Longrightarrow> l w' = l w"
    "k_ListSandboxes K p w = (Inr vs, w') \<Longrightarrow> l w' = l w @ [SandboxesRead vs]"
    "k_Inspect K ref w = (r, w') \<Longrightarrow> l w' = l w @ [Inspected ref (answered r)]"
    "StopNow (k_round K) ref w = (e, w') \<Longrightarrow> l w' = l w @ [StoppedNow ref (e = None)]"
    "k_Delete K ref w = (e, w') \<Longrightarrow> l w' = l w @ [Deleted ref]"
    "k_DiscardCredentials K = Some d \<Longrightarrow> d name w = (e, w') \<Longrightarrow> l w' = l w @ [CredentialsDiscarded name]"
    "k_host K = Some H \<Longrightarrow> ph_ReapExpiredContainers H p a b' w = (q, w') \<Longrightarrow> l w' = l w @ [HostReaped p]"
    "k_host K = Some H \<Longrightarrow> ph_StopProfile H p w = (q, w') \<Longrightarrow> l w' = l w @ [HostStopped p]"
  using assms unfolding records_calls_def silent_def
  by (metis snd_conv fst_conv sum.case append_Nil2)+

text \<open>\<open>stallLiveRuns\<close> only writes runs.\<close>

lemma stallLiveRuns_silent:
  assumes "silent obs (Now P)" "\<And>run. silent obs (SaveAgentRun P run)"
  shows "silent obs (stallLiveRuns P runs)"
proof -
  have "stallLiveRuns_loop P now runs w = (r, w') \<Longrightarrow> obs w' = obs w" for now w r w'
  proof (induction runs arbitrary: w)
    case (Cons run runs)
    then show ?case
      by (fastforce simp: Let_def split: if_splits prod.splits option.splits dest: silentD [OF assms(2)])
  qed simp
  then show ?thesis
    by (intro silentI) (fastforce simp: stallLiveRuns_def Let_def split: prod.splits dest: silentD [OF assms(1)])
qed

lemma stalling_records:
  assumes "records_calls l K"
  shows "stallLiveRuns (k_round K) runs w = (r, w') \<Longrightarrow> l w' = l w"
  using assms stallLiveRuns_silent [of l "k_round K" runs]
  by (auto simp: records_calls_def dest: silentD)

lemma idleWindow_records:
  assumes "records_calls l K" "idleWindow U K w = (idle, w')"
  shows "l w' = l w" "idle \<in> {idleAfter U, idleUnderPressure U}"
  using assms(2) unfolding idleWindow_def
  by (auto split: option.splits if_splits prod.splits sum.splits dest!: records_callsD(4) [OF assms(1)])

section \<open>The calls on one sandbox\<close>

text \<open>What may be stopped, and what goes: the conditions of the code over what it read.\<close>

definition unowned ::
    "upkeep \<Rightarrow> ReconcileSandboxesCommand \<Rightarrow> (string \<Rightarrow> AgentRun list) \<Rightarrow> int \<Rightarrow> Sandbox \<Rightarrow> bool" where
  "unowned U c live now v \<longleftrightarrow>
     live (v_ID v) = [] \<or> v_Subject v \<in> rc_Terminal c \<or>
     maxRuntime U > 0 \<and> now - v_UpdatedAt v \<ge> maxRuntime U"

definition due ::
    "ReconcileSandboxesCommand \<Rightarrow> int \<Rightarrow> int \<Rightarrow> Sandbox \<Rightarrow> SandboxStatus \<Rightarrow> bool" where
  "due c idle now v s \<longleftrightarrow>
     (if v_Subject v \<in> rc_Terminal c then s \<noteq> SandboxStatusAbsent
      else s = SandboxStatusBroken \<or>
           idle > 0 \<and> s = SandboxStatusStopped \<and> now - v_UpdatedAt v \<ge> idle)"

text \<open>
  All a pass does about a sandbox: nothing when a round holds it, else one look at it, a stop exactly
  when it runs unowned, and a deletion exactly when it is due and no stop went wrong before.
\<close>

definition sandbox_calls ::
    "upkeep \<Rightarrow> ReconcileSandboxesCommand \<Rightarrow> (string \<Rightarrow> AgentRun list) \<Rightarrow> int \<Rightarrow> int \<Rightarrow> Sandbox \<Rightarrow> host_call list \<Rightarrow> bool" where
  "sandbox_calls U c live idle now v tr \<longleftrightarrow>
     (if v_Subject v \<in> rc_InFlight c then tr = []
      else tr = [Inspected (Sandbox_Ref v) None] \<or>
        (\<exists>s stops gone. tr = Inspected (Sandbox_Ref v) (Some s) # stops @ gone \<and>
           (if s = SandboxStatusRunning \<and> unowned U c live now v
            then \<exists>ok. stops = [StoppedNow (Sandbox_Ref v) ok] \<and> (gone \<noteq> [] \<longrightarrow> ok) else stops = []) \<and>
           (gone = [] \<or> due c idle now v s \<and>
             gone \<in> {[Deleted (Sandbox_Ref v)],
               [Deleted (Sandbox_Ref v), CredentialsDiscarded (v_Name v)]}) \<and>
           (gone = [] \<longrightarrow> s = SandboxStatusRunning \<or> \<not> isSandboxStatus s \<or> \<not> due c idle now v s)))"

lemma sandbox_callsI:
  assumes "v_Subject v \<notin> rc_InFlight c"
    and "tr = Inspected (Sandbox_Ref v) (Some s) #
      (if s = SandboxStatusRunning \<and> unowned U c live now v then [StoppedNow (Sandbox_Ref v) ok] else []) @ gone"
    and "s = SandboxStatusRunning \<Longrightarrow> gone \<noteq> [] \<Longrightarrow> ok"
    and "gone = [] \<or> due c idle now v s \<and>
      gone \<in> {[Deleted (Sandbox_Ref v)], [Deleted (Sandbox_Ref v), CredentialsDiscarded (v_Name v)]}"
    and "gone = [] \<Longrightarrow> s = SandboxStatusRunning \<or> \<not> isSandboxStatus s \<or> \<not> due c idle now v s"
  shows "sandbox_calls U c live idle now v tr"
  unfolding sandbox_calls_def if_not_P [OF assms(1)] using assms(2-5)
  by (intro disjI2 exI [of _ s] exI [of _ gone]
      exI [of _ "if s = SandboxStatusRunning \<and> unowned U c live now v then [StoppedNow (Sandbox_Ref v) ok] else []"]) auto

lemma reclaim_calls:
  assumes "records_calls l K" "reclaim K v now w = (r, w')"
  shows "\<exists>gone \<in> {[Deleted (Sandbox_Ref v)], [Deleted (Sandbox_Ref v), CredentialsDiscarded (v_Name v)]}.
    l w' = l w @ gone"
  using assms(2) unfolding reclaim_def record_reclaimed_def
  by (auto split: option.splits prod.splits dest!: records_callsD(3,11,12) [OF assms(1)])

definition goes_on :: "tally \<Rightarrow> tally \<Rightarrow> bool" where
  "goes_on y y' \<longleftrightarrow> (\<exists>es. y_errs y' = y_errs y @ es) \<and> (y_busy y \<longrightarrow> y_busy y')"

lemma goes_on_refl [simp]: "goes_on y y" by (simp add: goes_on_def)

lemma goes_on_trans: "goes_on x y \<Longrightarrow> goes_on y z \<Longrightarrow> goes_on x z" by (auto simp: goes_on_def)

lemma reporting_same:
  "reporting v msg y (r, w) = (y', w') \<Longrightarrow> w' = w \<and> goes_on y y' \<and> y_busy y' = y_busy y \<and> (r \<noteq> None \<longrightarrow> y_errs y' \<noteq> [])"
  by (auto simp: reporting_def failed_on_def goes_on_def split: option.splits)

lemma settle_calls:
  assumes l: "records_calls l K"
    and run: "settle_sandbox K idle now (v_Subject v \<in> rc_Terminal c) stopped recorded s v y w = (y', w')"
  shows "\<exists>gone. l w' = l w @ gone \<and>
    (gone = [] \<or> due c idle now v s \<and>
       gone \<in> {[Deleted (Sandbox_Ref v)], [Deleted (Sandbox_Ref v), CredentialsDiscarded (v_Name v)]}) \<and>
    (gone = [] \<longrightarrow> \<not> isSandboxStatus s \<or> \<not> due c idle now v s) \<and>
    goes_on y y' \<and> y_busy y' = y_busy y"
proof (cases "isSandboxStatus s")
  case False
  then have "Sandbox_Reconcile s v = (Some (Errorf ''cannot reconcile sandbox to invalid status %q''
      [GStr (sandbox_status_string s)]), v)"
    by (simp add: Sandbox_Reconcile_def)
  with run reporting_same show ?thesis using False unfolding settle_sandbox_def by fastforce
next
  case True
  let ?v = "v\<lparr>v_Status := s\<rparr>"
  have gone: "\<exists>gone \<in> {[Deleted (Sandbox_Ref v)], [Deleted (Sandbox_Ref v), CredentialsDiscarded (v_Name v)]}.
      l w' = l w @ gone \<and> goes_on y y' \<and> y_busy y' = y_busy y"
    if r: "reporting v msg y (reclaim K ?v now w) = (y', w')" for msg
  proof -
    obtain r w1 where k: "reclaim K ?v now w = (r, w1)" by (metis surj_pair)
    from reclaim_calls [OF l k] reporting_same [OF r [unfolded k]] show ?thesis
      by (simp add: Sandbox_Ref_def)
  qed
  have saved: "l w' = l w \<and> goes_on y y' \<and> y_busy y' = y_busy y"
    if "reporting v msg y (SaveSandbox (k_round K) u w) = (y', w')" for msg u
    using that records_callsD(3) [OF l, of u w] reporting_same [of v msg y _ _ y' w']
    by (metis surj_pair)
  note S = run [unfolded settle_sandbox_def Sandbox_Reconcile_def, simplified True, simplified]
  have R: "reporting (v\<lparr>v_Status := t\<rparr>) = reporting v" for t by (auto simp: reporting_def fun_eq_iff split: option.splits)
  show ?thesis
  proof (cases "v_Subject v \<in> rc_Terminal c")
    case fin: True
    show ?thesis
    proof (cases "s = SandboxStatusAbsent")
      case True
      with S fin saved show ?thesis by (auto simp: due_def R retire_def)
    next
      case False
      with S fin gone have "\<exists>gone \<in> {[Deleted (Sandbox_Ref v)], [Deleted (Sandbox_Ref v), CredentialsDiscarded (v_Name v)]}.
          l w' = l w @ gone \<and> goes_on y y' \<and> y_busy y' = y_busy y"
        by (simp add: R retire_def)
      moreover have "due c idle now v s" using fin False by (simp add: due_def)
      ultimately show ?thesis by blast
    qed
  next
    case open': False
    show ?thesis
    proof (cases "due c idle now v s")
      case True
      with open' have "\<exists>msg. reporting v msg y (reclaim K ?v now w) = (y', w')"
        using S by (auto simp: due_def R split: if_splits)
      with gone True show ?thesis by blast
    next
      case False
      with open' S have "(y', w') = (y, w) \<or>
          (case SaveSandbox (k_round K) (?v\<lparr>v_UpdatedAt := now\<rparr>) w of
             (Some err, w) \<Rightarrow>
               (y\<lparr>y_errs := y_errs y @ [Wrapf ''save sandbox %q: %w'' [GStr (v_Name ?v)] [err]]\<rparr>, w)
           | (None, w) \<Rightarrow> (y, w)) = (y', w')"
        by (auto simp: due_def split: if_splits)
      then have "l w' = l w \<and> goes_on y y' \<and> y_busy y' = y_busy y"
        by (auto simp: goes_on_def split: prod.splits option.splits dest!: records_callsD(3) [OF l])
      with False show ?thesis by auto
    qed
  qed
qed

lemma stopUnowned_calls:
  assumes l: "records_calls l K" and run: "stopUnowned U K v (live (v_ID v)) now (v_Subject v \<in> rc_Terminal c) w = (r, w')"
  shows "\<exists>ok. l w' = l w @ (if unowned U c live now v then [StoppedNow (Sandbox_Ref v) ok] else []) \<and>
    (\<forall>stopped. r = Inr stopped \<longrightarrow> stopped = unowned U c live now v \<and> (stopped \<longrightarrow> ok))"
  using run unfolding stopUnowned_def unowned_def
  by (auto simp: Let_def split: if_splits prod.splits option.splits
      dest!: records_callsD(10) [OF l] stalling_records [OF l])

text \<open>A sandbox seen running and left so is what makes the project busy; a look that fails is an error.\<close>

lemma reconcile_sandbox_calls:
  assumes l: "records_calls l K"
    and run: "reconcile_sandbox U K c live idle now v y w = (y', w')"
  shows "\<exists>tr. l w' = l w @ tr \<and> sandbox_calls U c live idle now v tr \<and> goes_on y y' \<and>
    (tr = [Inspected (Sandbox_Ref v) (Some SandboxStatusRunning)] \<longrightarrow> y_busy y') \<and>
    (tr = [Inspected (Sandbox_Ref v) None] \<or> StoppedNow (Sandbox_Ref v) False \<in> set tr \<longrightarrow> y_errs y' \<noteq> [])"
proof (cases "v_Subject v \<in> rc_InFlight c")
  case True
  with run show ?thesis by (simp add: reconcile_sandbox_def sandbox_calls_def)
next
  case free: False
  obtain r w1 where i: "k_Inspect K (Sandbox_Ref v) w = (r, w1)" by (metis surj_pair)
  note l1 = records_callsD(9) [OF l i]
  show ?thesis
  proof (cases r)
    case (Inl err)
    with run free i have "reporting v ''inspect sandbox %q: %w'' y (Some err, w1) = (y', w')"
      by (simp add: reconcile_sandbox_def)
    from reporting_same [OF this] l1 Inl free show ?thesis by (auto simp: sandbox_calls_def)
  next
    case (Inr s)
    show ?thesis
    proof (cases "s = SandboxStatusRunning")
      case False
      with run free i Inr have "settle_sandbox K idle now (v_Subject v \<in> rc_Terminal c) False (v_Status v) s v y w1 = (y', w')"
        by (simp add: reconcile_sandbox_def Let_def)
      from settle_calls [OF l this] l1 Inr False free show ?thesis
        by (auto simp: sandbox_calls_def)
    next
      case True
      obtain t w2 where u: "stopUnowned U K v (live (v_ID v)) now (v_Subject v \<in> rc_Terminal c) w1 = (t, w2)"
        by (metis surj_pair)
      from stopUnowned_calls [where live = live and c = c, OF l u] obtain ok where
        l2: "l w2 = l w1 @ (if unowned U c live now v then [StoppedNow (Sandbox_Ref v) ok] else [])"
          "\<And>stopped. t = Inr stopped \<Longrightarrow> stopped = unowned U c live now v \<and> (stopped \<longrightarrow> ok)" by blast
      let ?tr = "Inspected (Sandbox_Ref v) (Some s) #
        (if s = SandboxStatusRunning \<and> unowned U c live now v then [StoppedNow (Sandbox_Ref v) ok] else [])"
      have l3: "l w2 = l w @ ?tr" using l1 l2(1) \<open>r = Inr s\<close> True by simp
      show ?thesis
      proof (cases t)
        case (Inl err)
        with run free i \<open>r = Inr s\<close> True u have y: "y' = failed_on (v_Subject v) err y" "w' = w2"
          by (simp_all add: reconcile_sandbox_def Let_def)
        have "unowned U c live now v"
          using u Inl by (auto simp: stopUnowned_def unowned_def Let_def split: if_splits)
        then show ?thesis
          using l3 y True by (intro exI [of _ ?tr] conjI sandbox_callsI [OF free, of _ s _ _ _ ok "[]"])
            (simp_all add: failed_on_def goes_on_def)
      next
        case (Inr stopped)
        show ?thesis
        proof (cases stopped)
          case stops: True
          let ?v = "v\<lparr>v_UpdatedAt := now\<rparr>"
          note ok = l2(2) [OF Inr]
          have "settle_sandbox K idle now (v_Subject ?v \<in> rc_Terminal c) True (v_Status v) SandboxStatusStopped ?v y w2 = (y', w')"
            using run free i \<open>r = Inr s\<close> True u Inr stops by (simp add: reconcile_sandbox_def Let_def)
          from settle_calls [OF l this] obtain gone where gone: "l w' = l w2 @ gone" "goes_on y y'"
            "gone = [] \<or> due c idle now ?v SandboxStatusStopped \<and>
              gone \<in> {[Deleted (Sandbox_Ref v)], [Deleted (Sandbox_Ref v), CredentialsDiscarded (v_Name v)]}"
            by (auto simp: Sandbox_Ref_def)
          moreover have "due c idle now ?v SandboxStatusStopped \<Longrightarrow> due c idle now v SandboxStatusRunning"
            by (auto simp: due_def split: if_splits)
          ultimately show ?thesis
            using l3 True ok stops
            by (intro exI [of _ "?tr @ gone"] conjI sandbox_callsI [OF free, of _ s _ _ _ ok gone]) auto
        next
          case runs: False
          note un = l2(2) [OF Inr]
          have "settle_sandbox K idle now (v_Subject v \<in> rc_Terminal c) False (v_Status v) s v (y\<lparr>y_busy := True\<rparr>) w2 = (y', w')"
            using run free i \<open>r = Inr s\<close> True u Inr runs by (simp add: reconcile_sandbox_def Let_def)
          from settle_calls [OF l this] obtain gone where gone: "l w' = l w2 @ gone" "goes_on y y'" "y_busy y'"
            "gone = [] \<or> due c idle now v s \<and>
              gone \<in> {[Deleted (Sandbox_Ref v)], [Deleted (Sandbox_Ref v), CredentialsDiscarded (v_Name v)]}"
            by (auto simp: goes_on_def)
          moreover have "\<not> due c idle now v s"
            using un runs True by (auto simp: due_def unowned_def)
          ultimately show ?thesis
            using l3 True un runs
            by (intro exI [of _ "?tr @ gone"] conjI sandbox_callsI [OF free, of _ s _ _ _ ok gone]) auto
      qed
      qed
    qed
  qed
qed

section \<open>The calls of a pass\<close>

text \<open>Nothing was seen running and left so, no look failed and no stop failed.\<close>

definition seen_quiet :: "host_call list list \<Rightarrow> bool" where
  "seen_quiet trs \<longleftrightarrow> (\<forall>tr \<in> set trs. \<forall>ref.
     tr \<noteq> [Inspected ref (Some SandboxStatusRunning)] \<and> tr \<noteq> [Inspected ref None] \<and> StoppedNow ref False \<notin> set tr)"

lemma sandbox_calls_ref:
  assumes "sandbox_calls U c live idle now v tr"
  shows "tr = [Inspected ref x] \<Longrightarrow> ref = Sandbox_Ref v" "StoppedNow ref ok \<in> set tr \<Longrightarrow> ref = Sandbox_Ref v"
  using assms by (auto simp: sandbox_calls_def split: if_splits)

lemma reconcile_all_calls:
  assumes l: "records_calls l K"
  shows "reconcile_all U K c live idle now vs y w = (y', w') \<Longrightarrow>
    \<exists>trs. l w' = l w @ concat trs \<and> list_all2 (sandbox_calls U c live idle now) vs trs \<and> goes_on y y' \<and>
      (\<not> y_busy y' \<longrightarrow> y_errs y' = [] \<longrightarrow> seen_quiet trs)"
proof (induction vs arbitrary: y w)
  case Nil
  then show ?case by (intro exI [of _ "[]"]) (simp add: seen_quiet_def)
next
  case (Cons v vs)
  obtain y1 w1 where 1: "reconcile_sandbox U K c live idle now v y w = (y1, w1)" by (metis surj_pair)
  with Cons.prems have 2: "reconcile_all U K c live idle now vs y1 w1 = (y', w')" by simp
  from reconcile_sandbox_calls [OF l 1] obtain tr where tr: "l w1 = l w @ tr" "goes_on y y1"
    "sandbox_calls U c live idle now v tr"
    "tr = [Inspected (Sandbox_Ref v) (Some SandboxStatusRunning)] \<Longrightarrow> y_busy y1"
    "tr = [Inspected (Sandbox_Ref v) None] \<or> StoppedNow (Sandbox_Ref v) False \<in> set tr \<Longrightarrow> y_errs y1 \<noteq> []" by blast
  from Cons.IH [OF 2] obtain trs where trs: "l w' = l w1 @ concat trs" "goes_on y1 y'"
    "list_all2 (sandbox_calls U c live idle now) vs trs" "\<not> y_busy y' \<longrightarrow> y_errs y' = [] \<longrightarrow> seen_quiet trs" by blast
  have "seen_quiet (tr # trs)" if q: "\<not> y_busy y'" "y_errs y' = []"
  proof -
    from q trs(2) have "\<not> y_busy y1" "y_errs y1 = []" by (auto simp: goes_on_def)
    with trs(4) q tr(4,5) sandbox_calls_ref [OF tr(3)] show ?thesis
      unfolding seen_quiet_def by (simp, metis)
  qed
  with tr trs show ?case
    by (intro exI [of _ "tr # trs"]) (auto intro: goes_on_trans)
qed

lemma releaseHost_calls:
  assumes l: "records_calls l K"
    and run: "releaseHost U K c busy now failures m w = ((r, m'), w')"
  shows "\<exists>tail. l w' = l w @ tail \<and>
    tail \<in> {[], [HostReaped (rc_ProjectID c)], [HostReaped (rc_ProjectID c), HostStopped (rc_ProjectID c)]} \<and>
    (tail \<noteq> [] \<longrightarrow> \<not> busy \<and> rc_InFlight c = {} \<and> failures = [] \<and> rc_ProjectID c \<notin> hostReleased m \<and>
       (\<exists>quiet. lastBusy m (rc_ProjectID c) = Some quiet \<and> now - quiet \<ge> hostIdleAfter U))"
proof (cases "k_host K")
  case (Some H)
  note calls = records_callsD(13,14) [OF l Some]
  show ?thesis
    using run unfolding releaseHost_def Some option.case
    by (auto simp: Let_def split: option.splits if_splits prod.splits sum.splits dest!: calls)
qed (use run in \<open>simp add: releaseHost_def\<close>)

text \<open>The calls of a whole pass, over what it read first.\<close>

definition pass_calls ::
    "upkeep \<Rightarrow> ReconcileSandboxesCommand \<Rightarrow> host_memory \<Rightarrow> host_call list \<Rightarrow> bool" where
  "pass_calls U c m tr \<longleftrightarrow> tr = [] \<or> (\<exists>runs. tr = [RunsRead runs]) \<or>
     (\<exists>runs vs idle now trs tail.
        tr = RunsRead runs # SandboxesRead vs # concat trs @ tail \<and>
        idle \<in> {idleAfter U, idleUnderPressure U} \<and>
        list_all2 (sandbox_calls U c (liveRunsBySandbox (if rc_Recover c then [] else runs)) idle now)
          (prioritySandboxes vs (rc_Priority c)) trs \<and>
        tail \<in> {[], [HostReaped (rc_ProjectID c)], [HostReaped (rc_ProjectID c), HostStopped (rc_ProjectID c)]} \<and>
        (tail \<noteq> [] \<longrightarrow> rc_Priority c = Map.empty \<and> rc_InFlight c = {} \<and> seen_quiet trs \<and>
           rc_ProjectID c \<notin> hostReleased m \<and>
           (\<exists>quiet. lastBusy m (rc_ProjectID c) = Some quiet \<and> now - quiet \<ge> hostIdleAfter U)))"

text \<open>C23. Whatever the provider, the registry and the clock answer, a reconciliation pass does nothing to
  a sandbox whose subject has a round in flight; it stops a sandbox only when it is seen running and
  is unowned, finished or past its longest run, deletes one only when it is finished, broken or idle
  for the window and is not left running, and stops the host only when nothing may run, nothing was
  seen running, nothing failed and the project has been quiet long enough.
\<close>

theorem reconciliation_spares_live_work:
  assumes l: "records_calls l K"
    and run: "ReconcileSandboxes_Handle U K c m w = ((r, m'), w')"
  shows "\<exists>tr. l w' = l w @ tr \<and> pass_calls U c m tr"
proof -
  note H = run [unfolded ReconcileSandboxes_Handle_def]
  obtain a w1 where a: "k_ListProjectAgentRuns K (rc_ProjectID c) w = (a, w1)" by (metis surj_pair)
  show ?thesis
  proof (cases a)
    case (Inl err)
    with H a records_callsD(5) [OF l] show ?thesis by (intro exI [of _ "[]"]) (simp add: pass_calls_def)
  next
    case (Inr runs)
    note l1 = records_callsD(6) [OF l a [unfolded Inr]]
    define stalled where "stalled = (if rc_Recover c then stallLiveRuns (k_round K) runs w1 else (None, w1))"
    obtain e w2 where s: "stalled = (e, w2)" by (metis surj_pair)
    then have l2: "l w2 = l w1" using stalling_records [OF l] by (auto simp: stalled_def split: if_splits)
    obtain b w3 where b: "k_ListSandboxes K (rc_ProjectID c) w2 = (b, w3)" by (metis surj_pair)
    note H = H [unfolded a prod.case Inr sum.case, folded stalled_def, unfolded s prod.case]
    show ?thesis
    proof (cases "e = None \<and> \<not> isl b")
      case False
      then have "l w' = l w2 \<or> l w' = l w3 \<and> \<not> \<not> isl b"
        using H b by (auto simp: Let_def split: option.splits sum.splits)
      moreover have "isl b \<Longrightarrow> l w3 = l w2" using records_callsD(7) [OF l] b by (cases b) auto
      ultimately show ?thesis
        using l1 l2 by (intro exI [of _ "[RunsRead runs]"]) (auto simp: pass_calls_def)
    next
      case True
      then obtain vs where e: "e = None" and vs: "b = Inr vs" by (cases b) auto
      note l3 = records_callsD(8) [OF l b [unfolded vs]]
      obtain idle w4 where i: "idleWindow U K w3 = (idle, w4)" by (metis surj_pair)
      obtain now w5 where n: "Now (k_round K) w4 = (now, w5)" by (metis surj_pair)
      let ?live = "liveRunsBySandbox (if rc_Recover c then [] else runs)"
      let ?y = "\<lparr>y_errs = [], y_unreconciled = {}, y_busy = rc_Priority c \<noteq> Map.empty\<rparr>"
      obtain y w6 where y: "reconcile_all U K c ?live idle now (prioritySandboxes vs (rc_Priority c)) ?y w5 = (y, w6)"
        by (metis surj_pair)
      obtain f m1 w7 where h: "releaseHost U K c (y_busy y) now (y_errs y) m w6 = ((f, m1), w7)" by (metis surj_pair)
      have "w' = w7" using H unfolding e vs option.case b prod.case sum.case Let_def i n y h by simp
      moreover note idleWindow_records [OF l i] records_callsD(1) [OF l n]
      moreover from reconcile_all_calls [OF l y] obtain trs where trs: "l w6 = l w5 @ concat trs"
        "list_all2 (sandbox_calls U c ?live idle now) (prioritySandboxes vs (rc_Priority c)) trs" "goes_on ?y y"
        "\<not> y_busy y \<longrightarrow> y_errs y = [] \<longrightarrow> seen_quiet trs" by blast
      moreover from releaseHost_calls [OF l h] obtain tail where tail: "l w7 = l w6 @ tail"
        "tail \<in> {[], [HostReaped (rc_ProjectID c)], [HostReaped (rc_ProjectID c), HostStopped (rc_ProjectID c)]}"
        "tail \<noteq> [] \<longrightarrow> \<not> y_busy y \<and> rc_InFlight c = {} \<and> y_errs y = [] \<and> rc_ProjectID c \<notin> hostReleased m \<and>
           (\<exists>quiet. lastBusy m (rc_ProjectID c) = Some quiet \<and> now - quiet \<ge> hostIdleAfter U)" by blast
      ultimately have "l w' = l w @ RunsRead runs # SandboxesRead vs # concat trs @ tail"
        using l1 l2 l3 by simp
      moreover have "tail \<noteq> [] \<longrightarrow> rc_Priority c = Map.empty \<and> seen_quiet trs"
        using tail(3) trs(3,4) by (auto simp: goes_on_def)
      ultimately show ?thesis
        using trs(2) tail(2,3) idleWindow_records(2) [OF l i] unfolding pass_calls_def by blast
    qed
  qed
qed

section \<open>A pass over a healthy host\<close>

text \<open>
  A host that works: the provider answers from the state it holds, a stop and a deletion take effect,
  the registry keeps what is saved. The observation is the provider's state and the records.
\<close>

type_synonym host_view = "(SandboxRef \<Rightarrow> SandboxStatus) \<times> (string \<rightharpoonup> Sandbox)"

definition healthy :: "('x world \<Rightarrow> host_view) \<Rightarrow> 'x runtime_ports \<Rightarrow> bool" where
  "healthy obs K \<longleftrightarrow>
     silent obs (Now (k_round K)) \<and>
     (\<forall>run w. fst (SaveAgentRun (k_round K) run w) = None \<and> obs (snd (SaveAgentRun (k_round K) run w)) = obs w) \<and>
     (\<forall>v w. fst (SaveSandbox (k_round K) v w) = None \<and>
        obs (snd (SaveSandbox (k_round K) v w)) = (fst (obs w), (snd (obs w))(v_ID v \<mapsto> v))) \<and>
     (\<forall>f. k_FreeBytes K = Some f \<longrightarrow> silent obs f) \<and>
     (\<forall>ref w. fst (k_Inspect K ref w) = Inr (fst (obs w) ref) \<and> obs (snd (k_Inspect K ref w)) = obs w) \<and>
     (\<forall>ref w. fst (StopNow (k_round K) ref w) = None \<and>
        obs (snd (StopNow (k_round K) ref w)) = ((fst (obs w))(ref := SandboxStatusStopped), snd (obs w))) \<and>
     (\<forall>ref w. fst (k_Delete K ref w) = None \<and>
        obs (snd (k_Delete K ref w)) = ((fst (obs w))(ref := SandboxStatusAbsent), snd (obs w))) \<and>
     (\<forall>f name w. k_DiscardCredentials K = Some f \<longrightarrow> fst (f name w) = None \<and> obs (snd (f name w)) = obs w)"

lemma healthyD:
  assumes "healthy obs K"
  shows "Now (k_round K) w = (n, w') \<Longrightarrow> obs w' = obs w"
    "SaveAgentRun (k_round K) run w = (e, w') \<Longrightarrow> e = None \<and> obs w' = obs w"
    "SaveSandbox (k_round K) v w = (e, w') \<Longrightarrow> e = None \<and> obs w' = (fst (obs w), (snd (obs w))(v_ID v \<mapsto> v))"
    "k_FreeBytes K = Some f \<Longrightarrow> f w = (b, w') \<Longrightarrow> obs w' = obs w"
    "k_Inspect K ref w = (r, w') \<Longrightarrow> r = Inr (fst (obs w) ref) \<and> obs w' = obs w"
    "StopNow (k_round K) ref w = (e, w') \<Longrightarrow>
       e = None \<and> obs w' = ((fst (obs w))(ref := SandboxStatusStopped), snd (obs w))"
    "k_Delete K ref w = (e, w') \<Longrightarrow> e = None \<and> obs w' = ((fst (obs w))(ref := SandboxStatusAbsent), snd (obs w))"
    "k_DiscardCredentials K = Some d \<Longrightarrow> d name w = (e, w') \<Longrightarrow> e = None \<and> obs w' = obs w"
  using assms unfolding healthy_def silent_def by (metis snd_conv fst_conv)+

lemma stallLiveRuns_healthy:
  assumes h: "healthy obs K"
  shows "stallLiveRuns (k_round K) runs w = (r, w') \<Longrightarrow> r = None \<and> obs w' = obs w"
proof -
  have "stallLiveRuns_loop (k_round K) now runs w = (r, w') \<Longrightarrow> r = None \<and> obs w' = obs w" for now w
  proof (induction runs arbitrary: w)
    case (Cons run runs)
    show ?case
    proof (cases "isLiveAgentRunStatus (r_Status run)")
      case True
      let ?run = "run\<lparr>r_Error := ''run did not complete before the process restarted''\<rparr>"
      have "AgentRun_Apply AgentRunEventStall now ?run = (None, ended_at AgentRunEventStall now ?run)"
        using True by (intro live_run_ends) auto
      moreover obtain e w1 where e: "SaveAgentRun (k_round K) (ended_at AgentRunEventStall now ?run) w = (e, w1)"
        by (metis surj_pair)
      ultimately show ?thesis
        using Cons True healthyD(2) [OF h e] by (simp add: Let_def)
    qed (use Cons in simp)
  qed simp
  then show "stallLiveRuns (k_round K) runs w = (r, w') \<Longrightarrow> r = None \<and> obs w' = obs w"
    unfolding stallLiveRuns_def Let_def
    by (metis (mono_tags, lifting) case_prod_beta healthyD(1) [OF h] prod.collapse)
qed

text \<open>The provider's states as the adapter reports them: nothing is in transit.\<close>

definition at_rest :: "SandboxStatus \<Rightarrow> bool" where
  "at_rest s \<longleftrightarrow> s \<in> {SandboxStatusAbsent, SandboxStatusStopped, SandboxStatusRunning, SandboxStatusBroken}"

text \<open>Where a pass takes a sandbox.\<close>

definition settled_as ::
    "upkeep \<Rightarrow> ReconcileSandboxesCommand \<Rightarrow> (string \<Rightarrow> AgentRun list) \<Rightarrow> int \<Rightarrow> int \<Rightarrow> Sandbox \<Rightarrow> SandboxStatus \<Rightarrow> SandboxStatus" where
  "settled_as U c live idle now v s =
     (if due c idle now v s then SandboxStatusAbsent
      else if s = SandboxStatusRunning \<and> unowned U c live now v then SandboxStatusStopped
      else s)"

lemma reclaim_healthy:
  assumes h: "healthy obs K" and "v_Status v \<in> {SandboxStatusStopped, SandboxStatusBroken}"
    and run: "reclaim K v now w = (r, w')"
  shows "r = None \<and> obs w' = ((fst (obs w))(Sandbox_Ref v := SandboxStatusAbsent),
    (snd (obs w))(v_ID v \<mapsto> v\<lparr>v_Status := SandboxStatusAbsent, v_UpdatedAt := now\<rparr>))"
proof -
  obtain d w1 where d: "k_Delete K (Sandbox_Ref v) w = (d, w1)" by (metis surj_pair)
  note d' = healthyD(7) [OF h d]
  have "\<exists>w2. obs w2 = obs w1 \<and> record_reclaimed K v now w2 = (r, w')"
  proof (cases "k_DiscardCredentials K")
    case (Some f)
    obtain e w2 where "f (v_Name v) w1 = (e, w2)" by (metis surj_pair)
    with healthyD(8) [OF h Some this] run d d' Some show ?thesis by (auto simp: reclaim_def)
  qed (use run d d' in \<open>auto simp: reclaim_def\<close>)
  moreover have "Sandbox_Apply SandboxEventDelete v = (None, v\<lparr>v_Status := SandboxStatusDeleting\<rparr>)"
    using assms(2) by (auto simp: Sandbox_Apply_def sandboxTransition_def)
  moreover have "Sandbox_Apply SandboxEventDeleteDone (v\<lparr>v_Status := SandboxStatusDeleting\<rparr>) =
      (None, v\<lparr>v_Status := SandboxStatusAbsent\<rparr>)"
    by (simp add: Sandbox_Apply_def sandboxTransition_def)
  ultimately show ?thesis
    using d' by (auto simp: record_reclaimed_def dest!: healthyD(3) [OF h])
qed

definition recorded_as :: "Sandbox \<Rightarrow> SandboxStatus \<Rightarrow> host_view \<Rightarrow> host_view \<Rightarrow> bool" where
  "recorded_as v s h h' \<longleftrightarrow>
     (\<exists>t. h' = ((fst h)(Sandbox_Ref v := s),
        (snd h)(v_ID v \<mapsto> v\<lparr>v_Status := s, v_UpdatedAt := t\<rparr>)))"

lemma recorded_asI:
  "snd h (v_ID v) = Some (v\<lparr>v_Status := s, v_UpdatedAt := t\<rparr>) \<Longrightarrow> fst h (Sandbox_Ref v) = s \<Longrightarrow> recorded_as v s h h"
  unfolding recorded_as_def by (intro exI [of _ t]) (simp add: prod_eq_iff fun_upd_idem)

lemma settle_healthy:
  assumes h: "healthy obs K" and s: "at_rest s" "fst (obs w) (Sandbox_Ref v) = s"
    and v0: "snd (obs w) (v_ID v) = Some (v\<lparr>v_Status := recorded, v_UpdatedAt := t\<rparr>)"
    and runs: "s = SandboxStatusRunning \<Longrightarrow> v_Subject v \<notin> rc_Terminal c"
    and run: "settle_sandbox K idle now (v_Subject v \<in> rc_Terminal c) stopped recorded s v y w = (y', w')"
  shows "y' = y \<and> recorded_as v (if due c idle now v s then SandboxStatusAbsent else s) (obs w) (obs w')"
proof -
  let ?v = "v\<lparr>v_Status := s\<rparr>"
  have ok: "Sandbox_Reconcile s v = (None, ?v)" using s by (auto simp: Sandbox_Reconcile_def at_rest_def)
  note S = run [unfolded settle_sandbox_def ok prod.case option.case]
  have gone: "y' = y \<and> recorded_as v SandboxStatusAbsent (obs w) (obs w')"
    if r: "reporting ?v msg y (reclaim K ?v now w) = (y', w')" "s \<in> {SandboxStatusStopped, SandboxStatusBroken}" for msg
  proof -
    obtain r w1 where k: "reclaim K ?v now w = (r, w1)" by (metis surj_pair)
    from reclaim_healthy [OF h _ k] r show ?thesis
      unfolding k by (auto simp: reporting_def recorded_as_def Sandbox_Ref_def)
  qed
  show ?thesis
  proof (cases "due c idle now v s")
    case True
    show ?thesis
    proof (cases "s = SandboxStatusRunning")
      case False
      with True s(1) have "s \<in> {SandboxStatusStopped, SandboxStatusBroken}"
        by (auto simp: at_rest_def due_def split: if_splits)
      moreover from this have "\<exists>msg. reporting ?v msg y (reclaim K ?v now w) = (y', w')"
        using S True by (auto simp: due_def retire_def split: if_splits)
      ultimately show ?thesis using gone True by auto
    qed (use True runs in \<open>simp add: due_def\<close>)
  next
    case False
    obtain e w1 where e: "SaveSandbox (k_round K) (?v\<lparr>v_UpdatedAt := now\<rparr>) w = (e, w1)" by (metis surj_pair)
    note e' = healthyD(3) [OF h e]
    have "y' = y \<and> (w' = w1 \<or> w' = w \<and> recorded = s)"
    proof (cases "v_Subject v \<in> rc_Terminal c")
      case True
      with False have "s = SandboxStatusAbsent" by (simp add: due_def)
      with S True e e' show ?thesis by (simp add: retire_def reporting_def)
    next
      case open': False
      with False S e e' show ?thesis by (auto simp: due_def split: if_splits)
    qed
    moreover have "recorded_as v s (obs w) (obs w1)"
      using e' s(2) by (auto simp: recorded_as_def Sandbox_Ref_def fun_upd_idem)
    moreover have "recorded = s \<Longrightarrow> recorded_as v s (obs w) (obs w)"
      using v0 s(2) by (intro recorded_asI) auto
    ultimately show ?thesis using False by auto
  qed
qed

lemma recorded_as_trans:
  assumes "recorded_as v s h h'" "recorded_as (v\<lparr>v_UpdatedAt := t\<rparr>) s' h' h''"
  shows "recorded_as v s' h h''"
  using assms by (auto simp: recorded_as_def Sandbox_Ref_def)

lemma reconcile_sandbox_healthy:
  assumes h: "healthy obs K" and s: "at_rest (fst (obs w) (Sandbox_Ref v))"
    and v: "snd (obs w) (v_ID v) = Some v" and free: "v_Subject v \<notin> rc_InFlight c"
    and run: "reconcile_sandbox U K c live idle now v y w = (y', w')"
  shows "y_errs y' = y_errs y \<and>
    recorded_as v (settled_as U c live idle now v (fst (obs w) (Sandbox_Ref v))) (obs w) (obs w')"
proof -
  let ?s = "fst (obs w) (Sandbox_Ref v)"
  obtain r w1 where i: "k_Inspect K (Sandbox_Ref v) w = (r, w1)" by (metis surj_pair)
  from healthyD(5) [OF h i] have r: "r = Inr ?s" and o1: "obs w1 = obs w" by auto
  note R = run [unfolded reconcile_sandbox_def if_not_P [OF free] i prod.case r sum.case Let_def]
  have v': "snd (obs w1) (v_ID v) = Some (v\<lparr>v_Status := v_Status v, v_UpdatedAt := v_UpdatedAt v\<rparr>)"
    using v o1 by simp
  show ?thesis
  proof (cases "?s = SandboxStatusRunning \<and> unowned U c live now v")
    case True
    let ?v = "v\<lparr>v_UpdatedAt := now\<rparr>"
    obtain e w2 where st: "StopNow (k_round K) (Sandbox_Ref v) w1 = (e, w2)" by (metis surj_pair)
    obtain e' w3 where sl: "stallLiveRuns (k_round K) (live (v_ID v)) w2 = (e', w3)" by (metis surj_pair)
    have o3: "obs w3 = ((fst (obs w))(Sandbox_Ref v := SandboxStatusStopped), snd (obs w))"
      "e = None" "e' = None"
      using healthyD(6) [OF h st] stallLiveRuns_healthy [OF h sl] o1 by auto
    have "stopUnowned U K v (live (v_ID v)) now (v_Subject v \<in> rc_Terminal c) w1 = (Inr True, w3)"
      using True st sl o3(2,3) by (auto simp: stopUnowned_def unowned_def Let_def)
    with R True have settle: "settle_sandbox K idle now (v_Subject ?v \<in> rc_Terminal c) True (v_Status v)
        SandboxStatusStopped ?v y w3 = (y', w')" by simp
    have "y' = y \<and> recorded_as ?v (if due c idle now ?v SandboxStatusStopped then SandboxStatusAbsent
        else SandboxStatusStopped) (obs w3) (obs w')"
      by (rule settle_healthy [OF h _ _ _ _ settle, of "v_UpdatedAt v"])
        (use v o3 in \<open>simp_all add: at_rest_def Sandbox_Ref_def\<close>)
    moreover have "(if due c idle now ?v SandboxStatusStopped then SandboxStatusAbsent else SandboxStatusStopped) =
        settled_as U c live idle now v ?s"
      using True by (auto simp: settled_as_def due_def)
    ultimately show ?thesis
      using o3(1) by (auto simp: recorded_as_def Sandbox_Ref_def)
  next
    case False
    have "\<exists>y1. y_errs y1 = y_errs y \<and>
        settle_sandbox K idle now (v_Subject v \<in> rc_Terminal c) False (v_Status v) ?s v y1 w1 = (y', w')"
    proof (cases "?s = SandboxStatusRunning")
      case True
      with False have "stopUnowned U K v (live (v_ID v)) now (v_Subject v \<in> rc_Terminal c) w1 = (Inr False, w1)"
        by (auto simp: stopUnowned_def unowned_def Let_def)
      with R True show ?thesis by (intro exI [of _ "y\<lparr>y_busy := True\<rparr>"]) simp
    next
      case False
      with R show ?thesis by auto
    qed
    then obtain y1 where y1: "y_errs y1 = y_errs y"
      "settle_sandbox K idle now (v_Subject v \<in> rc_Terminal c) False (v_Status v) ?s v y1 w1 = (y', w')" by blast
    have "?s = SandboxStatusRunning \<Longrightarrow> v_Subject v \<notin> rc_Terminal c"
      using False by (auto simp: unowned_def)
    from settle_healthy [OF h s _ v' this y1(2)] y1(1) o1 False show ?thesis
      by (auto simp: settled_as_def)
  qed
qed

text \<open>The loop, over sandboxes with names and IDs of their own.\<close>

definition one_each :: "Sandbox list \<Rightarrow> bool" where
  "one_each vs \<longleftrightarrow> distinct (map Sandbox_Ref vs) \<and> distinct (map v_ID vs)"

definition settles ::
    "upkeep \<Rightarrow> ReconcileSandboxesCommand \<Rightarrow> (string \<Rightarrow> AgentRun list) \<Rightarrow> int \<Rightarrow> int \<Rightarrow> host_view \<Rightarrow> host_view \<Rightarrow> Sandbox \<Rightarrow> bool" where
  "settles U c live idle now h h' v \<longleftrightarrow>
     (if v_Subject v \<in> rc_InFlight c
      then fst h' (Sandbox_Ref v) = fst h (Sandbox_Ref v) \<and> snd h' (v_ID v) = snd h (v_ID v)
      else \<exists>t. fst h' (Sandbox_Ref v) = settled_as U c live idle now v (fst h (Sandbox_Ref v)) \<and>
             snd h' (v_ID v) = Some (v\<lparr>v_Status := settled_as U c live idle now v (fst h (Sandbox_Ref v)),
               v_UpdatedAt := t\<rparr>))"

lemma reconcile_all_healthy:
  assumes h: "healthy obs K"
  shows "reconcile_all U K c live idle now vs y w = (y', w') \<Longrightarrow> one_each vs \<Longrightarrow>
    (\<And>v. v \<in> set vs \<Longrightarrow> at_rest (fst (obs w) (Sandbox_Ref v)) \<and> snd (obs w) (v_ID v) = Some v) \<Longrightarrow>
    y_errs y' = y_errs y \<and> (\<forall>v \<in> set vs. settles U c live idle now (obs w) (obs w') v) \<and>
    (\<forall>ref. ref \<notin> Sandbox_Ref ` set vs \<longrightarrow> fst (obs w') ref = fst (obs w) ref) \<and>
    (\<forall>id'. id' \<notin> v_ID ` set vs \<longrightarrow> snd (obs w') id' = snd (obs w) id')"
proof (induction vs arbitrary: y w)
  case (Cons v vs)
  obtain y1 w1 where 1: "reconcile_sandbox U K c live idle now v y w = (y1, w1)" by (metis surj_pair)
  with Cons.prems(1) have 2: "reconcile_all U K c live idle now vs y1 w1 = (y', w')" by simp
  have v: "at_rest (fst (obs w) (Sandbox_Ref v))" "snd (obs w) (v_ID v) = Some v"
    using Cons.prems(3) by auto
  have one: "y_errs y1 = y_errs y \<and> settles U c live idle now (obs w) (obs w1) v \<and>
      (\<forall>ref. ref \<noteq> Sandbox_Ref v \<longrightarrow> fst (obs w1) ref = fst (obs w) ref) \<and>
      (\<forall>id'. id' \<noteq> v_ID v \<longrightarrow> snd (obs w1) id' = snd (obs w) id')"
  proof (cases "v_Subject v \<in> rc_InFlight c")
    case True
    with 1 show ?thesis by (auto simp: reconcile_sandbox_def settles_def)
  next
    case False
    from reconcile_sandbox_healthy [OF h v False 1] False show ?thesis
      by (auto simp: recorded_as_def settles_def)
  qed
  have new: "Sandbox_Ref v \<notin> Sandbox_Ref ` set vs" "v_ID v \<notin> v_ID ` set vs" "one_each vs"
    using Cons.prems(2) by (auto simp: one_each_def)
  have keep: "fst (obs w1) (Sandbox_Ref u) = fst (obs w) (Sandbox_Ref u)" "snd (obs w1) (v_ID u) = snd (obs w) (v_ID u)"
    if "u \<in> set vs" for u
    using one new that by (metis image_eqI)+
  have IH: "y_errs y' = y_errs y1 \<and> (\<forall>v \<in> set vs. settles U c live idle now (obs w1) (obs w') v) \<and>
      (\<forall>ref. ref \<notin> Sandbox_Ref ` set vs \<longrightarrow> fst (obs w') ref = fst (obs w1) ref) \<and>
      (\<forall>id'. id' \<notin> v_ID ` set vs \<longrightarrow> snd (obs w') id' = snd (obs w1) id')"
    using Cons.prems(3) keep by (intro Cons.IH [OF 2 new(3)]) simp
  have "settles U c live idle now (obs w) (obs w') u" if "u \<in> set vs" for u
    using IH that keep [OF that] unfolding settles_def by auto
  moreover have "settles U c live idle now (obs w) (obs w') v"
    using one IH new unfolding settles_def by auto
  ultimately show ?case using one IH by auto
qed simp

lemma settled_as_facts:
  "settled_as U c live idle now v s \<noteq> SandboxStatusBroken"
  "v_Subject v \<in> rc_Terminal c \<Longrightarrow> settled_as U c live idle now v s = SandboxStatusAbsent"
  "settled_as U c live idle now v s = SandboxStatusRunning \<Longrightarrow> live (v_ID v) \<noteq> []"
  by (auto simp: settled_as_def due_def unowned_def split: if_splits)

lemma live_runs_loop_eq:
  "live_runs_loop runs live i = live i @ filter (\<lambda>r. r_SandboxID r = i \<and> isLiveAgentRunStatus (r_Status r)) runs"
  by (induction runs arbitrary: live) auto

lemma liveRunsBySandbox_eq:
  "liveRunsBySandbox runs i = filter (\<lambda>r. r_SandboxID r = i \<and> isLiveAgentRunStatus (r_Status r)) runs"
  by (simp add: liveRunsBySandbox_def live_runs_loop_eq)

text \<open>A host whose machine can be asked to rest, and a registry that lists its records.\<close>

definition resting_host :: "('x world \<Rightarrow> host_view) \<Rightarrow> 'x runtime_ports \<Rightarrow> bool" where
  "resting_host obs K \<longleftrightarrow>
     (\<forall>H p a b w. k_host K = Some H \<longrightarrow>
        \<not> isl (fst (ph_ReapExpiredContainers H p a b w)) \<and> \<not> isl (fst (ph_StopProfile H p w)) \<and>
        obs (snd (ph_ReapExpiredContainers H p a b w)) = obs w \<and> obs (snd (ph_StopProfile H p w)) = obs w) \<and>
     (\<forall>p. silent obs (k_ListProjectAgentRuns K p) \<and> silent obs (k_ListSandboxes K p))"

lemma releaseHost_resting:
  assumes r: "resting_host obs K" and run: "releaseHost U K c busy now failures m w = ((r, m'), w')"
  shows "r = None \<and> obs w' = obs w"
proof (cases "k_host K")
  case (Some H)
  have "ph_ReapExpiredContainers H p a b w1 = (e, w2) \<Longrightarrow> \<not> isl e \<and> obs w2 = obs w1"
    "ph_StopProfile H p w1 = (e, w2) \<Longrightarrow> \<not> isl e \<and> obs w2 = obs w1" for p a b w1 e w2
    using r Some unfolding resting_host_def by (metis fst_conv snd_conv)+
  note calls = this
  show ?thesis
    using run unfolding releaseHost_def Some option.case
    by (auto simp: Let_def split: option.splits if_splits prod.splits sum.splits dest!: calls)
qed (use run in \<open>simp add: releaseHost_def\<close>)

lemma idleWindow_healthy: "healthy obs K \<Longrightarrow> idleWindow U K w = (idle, w') \<Longrightarrow> obs w' = obs w"
  unfolding idleWindow_def
  by (auto split: option.splits if_splits prod.splits sum.splits dest: healthyD(4))

text \<open>C27. On a host that works a pass succeeds and leaves the records true: the record of every sandbox
  it looked at says what the provider now holds, what belongs to finished subjects is gone, nothing
  is broken, whatever still runs is claimed by a live run, and the sandboxes of rounds in flight are
  as they were.
\<close>

theorem healthy_pass_leaves_true_records:
  assumes h: "healthy obs K" and rest: "resting_host obs K"
    and runs: "fst (k_ListProjectAgentRuns K (rc_ProjectID c) w) = Inr runs"
    and vs: "\<And>w1. obs w1 = obs w \<Longrightarrow> fst (k_ListSandboxes K (rc_ProjectID c) w1) = Inr vs"
    and one: "one_each vs"
    and held: "\<And>v. v \<in> set vs \<Longrightarrow> at_rest (fst (obs w) (Sandbox_Ref v)) \<and> snd (obs w) (v_ID v) = Some v"
    and run: "ReconcileSandboxes_Handle U K c m w = ((r, m'), w')"
  shows "r = None \<and> (\<forall>v \<in> set (prioritySandboxes vs (rc_Priority c)).
    if v_Subject v \<in> rc_InFlight c
    then fst (obs w') (Sandbox_Ref v) = fst (obs w) (Sandbox_Ref v) \<and> snd (obs w') (v_ID v) = Some v
    else \<exists>v'. snd (obs w') (v_ID v) = Some v' \<and> v_Status v' = fst (obs w') (Sandbox_Ref v) \<and>
      v_Status v' \<noteq> SandboxStatusBroken \<and>
      (v_Subject v \<in> rc_Terminal c \<longrightarrow> v_Status v' = SandboxStatusAbsent) \<and>
      (v_Status v' = SandboxStatusRunning \<longrightarrow> \<not> rc_Recover c \<and>
         (\<exists>run \<in> set runs. r_SandboxID run = v_ID v \<and> isLiveAgentRunStatus (r_Status run))))"
proof -
  let ?runs = "if rc_Recover c then [] else runs"
  let ?live = "liveRunsBySandbox ?runs" and ?vs = "prioritySandboxes vs (rc_Priority c)"
  let ?y = "\<lparr>y_errs = [], y_unreconciled = {}, y_busy = rc_Priority c \<noteq> Map.empty\<rparr>"
  have L: "obs (snd (k_ListProjectAgentRuns K p u)) = obs u" "obs (snd (k_ListSandboxes K p u)) = obs u" for p u
    using rest by (simp_all add: resting_host_def silent_def)
  obtain w1 where 1: "k_ListProjectAgentRuns K (rc_ProjectID c) w = (Inr runs, w1)"
    using runs by (metis prod.collapse)
  obtain e w2 where 2: "(if rc_Recover c then stallLiveRuns (k_round K) runs w1 else (None, w1)) = (e, w2)"
    by (metis surj_pair)
  then have e: "e = None" "obs w2 = obs w1"
    using stallLiveRuns_healthy [OF h] by (auto split: if_splits)
  obtain w3 where 3: "k_ListSandboxes K (rc_ProjectID c) w2 = (Inr vs, w3)"
    using vs [of w2] e L(1) [of "rc_ProjectID c" w] 1 by (metis prod.collapse snd_conv)
  obtain idle w4 where 4: "idleWindow U K w3 = (idle, w4)" by (metis surj_pair)
  obtain now w5 where 5: "Now (k_round K) w4 = (now, w5)" by (metis surj_pair)
  obtain y w6 where 6: "reconcile_all U K c ?live idle now ?vs ?y w5 = (y, w6)" by (metis surj_pair)
  obtain f m1 w7 where 7: "releaseHost U K c (y_busy y) now (y_errs y) m w6 = ((f, m1), w7)" by (metis surj_pair)
  have o5: "obs w5 = obs w"
    using L(1) [of "rc_ProjectID c" w] L(2) [of "rc_ProjectID c" w2] 1 3 e idleWindow_healthy [OF h 4] healthyD(1) [OF h 5]
    by simp
  have sub: "set ?vs \<subseteq> set vs" "one_each ?vs"
    using one by (auto simp: prioritySandboxes_def one_each_def distinct_map_filter)
  have "at_rest (fst (obs w5) (Sandbox_Ref v)) \<and> snd (obs w5) (v_ID v) = Some v" if "v \<in> set ?vs" for v
    using held sub(1) o5 that by auto
  from reconcile_all_healthy [OF h 6 sub(2) this] o5
  have done': "y_errs y = []" "\<And>v. v \<in> set ?vs \<Longrightarrow> settles U c ?live idle now (obs w) (obs w6) v" by simp_all
  from releaseHost_resting [OF rest 7] have f: "f = None" "obs w7 = obs w6" by auto
  have "r = None" "w' = w7"
    using run unfolding ReconcileSandboxes_Handle_def 1 prod.case sum.case 2 e(1) option.case Let_def 3 4 5 6 7
    by (auto simp: done'(1) f(1) join_errors_def)
  moreover have "if v_Subject v \<in> rc_InFlight c
    then fst (obs w') (Sandbox_Ref v) = fst (obs w) (Sandbox_Ref v) \<and> snd (obs w') (v_ID v) = Some v
    else \<exists>v'. snd (obs w') (v_ID v) = Some v' \<and> v_Status v' = fst (obs w') (Sandbox_Ref v) \<and>
      v_Status v' \<noteq> SandboxStatusBroken \<and>
      (v_Subject v \<in> rc_Terminal c \<longrightarrow> v_Status v' = SandboxStatusAbsent) \<and>
      (v_Status v' = SandboxStatusRunning \<longrightarrow> \<not> rc_Recover c \<and>
         (\<exists>run \<in> set runs. r_SandboxID run = v_ID v \<and> isLiveAgentRunStatus (r_Status run)))"
    if v: "v \<in> set ?vs" for v
  proof (cases "v_Subject v \<in> rc_InFlight c")
    case True
    with done'(2) [OF v] f(2) \<open>w' = w7\<close> held [of v] sub(1) v show ?thesis by (auto simp: settles_def)
  next
    case False
    let ?s = "settled_as U c ?live idle now v (fst (obs w) (Sandbox_Ref v))"
    from done'(2) [OF v] f(2) \<open>w' = w7\<close> False obtain t where
      t: "fst (obs w') (Sandbox_Ref v) = ?s" "snd (obs w') (v_ID v) = Some (v\<lparr>v_Status := ?s, v_UpdatedAt := t\<rparr>)"
      by (auto simp: settles_def)
    note s = settled_as_facts [where U = U and c = c and live = ?live and idle = idle and now = now and v = v]
    have "?s = SandboxStatusRunning \<Longrightarrow> \<not> rc_Recover c \<and>
        (\<exists>run \<in> set runs. r_SandboxID run = v_ID v \<and> isLiveAgentRunStatus (r_Status run))"
      using s(3) by (fastforce simp: liveRunsBySandbox_eq filter_empty_conv split: if_splits)
    with t s(1,2) False show ?thesis by auto
  qed
  ultimately show ?thesis by blast
qed

section \<open>A failed discard\<close>

text \<open>The credentials of a sandbox outlive it when they cannot be discarded at once: the pass that
  deletes the instance and fails on its credentials reports the error, the instance is gone, and as
  long as it stays gone no later pass does more than look at it, so the discard is never tried again.
\<close>

theorem failed_discard_is_never_retried:
  assumes l: "records_calls l K"
    and del: "k_Delete K (Sandbox_Ref v) w = (None, w1)" and f: "k_DiscardCredentials K = Some f"
    and fails: "f (v_Name v) w1 = (Some err, w2)"
    and gone: "fst (k_Inspect K (Sandbox_Ref v) u) = Inr SandboxStatusAbsent"
    and later: "reconcile_sandbox U K c live idle now' v' y u = (y', u')" and same: "Sandbox_Ref v' = Sandbox_Ref v"
  shows "reclaim K v now w = (Some err, w2) \<and>
    (l u' = l u \<or> l u' = l u @ [Inspected (Sandbox_Ref v) (Some SandboxStatusAbsent)])"
proof
  show "reclaim K v now w = (Some err, w2)" using del f fails by (simp add: reclaim_def)
  obtain u1 where i: "k_Inspect K (Sandbox_Ref v') u = (Inr SandboxStatusAbsent, u1)"
    using gone same by (metis prod.collapse)
  show "l u' = l u \<or> l u' = l u @ [Inspected (Sandbox_Ref v) (Some SandboxStatusAbsent)]"
  proof (cases "v_Subject v' \<in> rc_InFlight c")
    case False
    have "settle_sandbox K idle now' (v_Subject v' \<in> rc_Terminal c) False (v_Status v') SandboxStatusAbsent v' y u1 = (y', u')"
      using later False i by (simp add: reconcile_sandbox_def Let_def)
    from settle_calls [OF l this] have "l u' = l u1" by (auto simp: due_def split: if_splits)
    with records_callsD(9) [OF l i] same show ?thesis by simp
  qed (use later in \<open>simp add: reconcile_sandbox_def\<close>)
qed

section \<open>A small host\<close>

record ward =
  wd_states :: "SandboxRef \<Rightarrow> SandboxStatus"
  wd_records :: "string \<rightharpoonup> Sandbox"
  wd_calls :: "host_call list"

definition on_ward :: "(ward \<Rightarrow> ward) \<Rightarrow> ward world \<Rightarrow> ward world" where
  "on_ward f w = w\<lparr>w_ext := f (w_ext w)\<rparr>"

definition ward_call :: "host_call \<Rightarrow> ward \<Rightarrow> ward" where
  "ward_call call s = s\<lparr>wd_calls := wd_calls s @ [call]\<rparr>"

definition ward_set :: "SandboxRef \<Rightarrow> SandboxStatus \<Rightarrow> ward \<Rightarrow> ward" where
  "ward_set ref status s = s\<lparr>wd_states := (wd_states s)(ref := status)\<rparr>"

definition ward_round :: "ward round_ports" where
  "ward_round =
     \<lparr>Now = Pair 100, MintULID = Pair ''01J'', SaveAgentRun = (\<lambda>run. Pair None),
      GetAgentRun = (\<lambda>i. Pair (Inl (Sentinel ''record not found''))),
      SaveSandbox = (\<lambda>v w. (None, on_ward (\<lambda>s. s\<lparr>wd_records := (wd_records s)(v_ID v \<mapsto> v)\<rparr>) w)),
      Ensure = (\<lambda>spec. Pair (Inr False)), Start = (\<lambda>ref. Pair None), Stop = (\<lambda>ref. Pair None),
      StopNow = (\<lambda>ref w. (None, on_ward (ward_call (StoppedNow ref True) \<circ> ward_set ref SandboxStatusStopped) w)),
      RunAgent = (\<lambda>ref i argv. Pair quiet_outcome), ContextDone = (\<lambda>i w. False),
      Command = (\<lambda>run prompt env. Inr [prompt]),
      ParseUsage = (\<lambda>out. \<lparr>u_TokensIn = 0, u_TokensOut = 0, u_CostUSD = (0, 0)\<rparr>),
      ExtractAnswer = (\<lambda>out. out), ErrorText = (\<lambda>e. ''error'')\<rparr>"

definition ward_ports :: "AgentRun list \<Rightarrow> string list \<Rightarrow> go_error option \<Rightarrow> ward runtime_ports" where
  "ward_ports runs ids discard =
     \<lparr>k_round = ward_round,
      k_ListAgentRuns = (\<lambda>p subject. Pair (Inr (filter (\<lambda>r. r_Subject r = subject) runs))),
      k_ListProjectAgentRuns = (\<lambda>p w. (Inr runs, on_ward (ward_call (RunsRead runs)) w)),
      k_ListSandboxes = (\<lambda>p w. let vs = List.map_filter (wd_records (w_ext w)) ids
        in (Inr vs, on_ward (ward_call (SandboxesRead vs)) w)),
      k_DeleteSubjectRuntime = (\<lambda>p subject. Pair None), k_DeleteProjectRuntime = (\<lambda>p. Pair None),
      k_Inspect = (\<lambda>ref w. let status = wd_states (w_ext w) ref
        in (Inr status, on_ward (ward_call (Inspected ref (Some status))) w)),
      k_Delete = (\<lambda>ref w. (None, on_ward (ward_call (Deleted ref) \<circ> ward_set ref SandboxStatusAbsent) w)),
      k_DiscardCredentials = Some (\<lambda>name w. (discard, on_ward (ward_call (CredentialsDiscarded name)) w)),
      k_DiscardOutput = None, k_FreeBytes = None, k_host = None\<rparr>"

definition ward_view :: "ward world \<Rightarrow> host_view" where
  "ward_view w = (wd_states (w_ext w), wd_records (w_ext w))"

definition ward_sandbox :: Sandbox where
  "ward_sandbox = \<lparr>v_ID = ''V1'', v_ProjectID = 1, v_Name = ''gm-1'', v_Role = AgentRoleCoding,
     v_Subject = \<lparr>s_Kind = AgentSubjectIssue, s_ID = ''I1''\<rparr>, v_Status = SandboxStatusRunning,
     v_CreatedAt = 0, v_UpdatedAt = 0\<rparr>"

definition ward_world :: "ward world" where
  "ward_world = \<lparr>w_supervisor = NewRunSupervisor,
     w_ext = \<lparr>wd_states = (\<lambda>ref. if ref = Sandbox_Ref ward_sandbox then SandboxStatusRunning else SandboxStatusAbsent),
       wd_records = [''V1'' \<mapsto> ward_sandbox], wd_calls = []\<rparr>\<rparr>"

definition ward_upkeep :: upkeep where
  "ward_upkeep = \<lparr>idleAfter = 50, maxRuntime = 1000, pressureBelow = 0, idleUnderPressure = 0, hostIdleAfter = 30,
     hostRunningAfter = 0, hostStoppedAfter = 0\<rparr>"

definition ward_command :: ReconcileSandboxesCommand where
  "ward_command = \<lparr>rc_ProjectID = 1, rc_Priority = Map.empty, rc_Recover = False,
     rc_Terminal = {v_Subject ward_sandbox}, rc_InFlight = {}\<rparr>"

lemmas ward_defs = ward_ports_def ward_round_def on_ward_def ward_call_def ward_set_def ward_view_def

lemma ward_ports_laws:
  "records_calls (\<lambda>w. wd_calls (w_ext w)) (ward_ports runs ids discard)"
  "healthy ward_view (ward_ports runs ids None)" "resting_host ward_view (ward_ports runs ids discard)"
  by (simp_all add: records_calls_def healthy_def resting_host_def silent_def ward_defs Let_def)

lemma reconciliation_spares_live_work_witness:
  "\<exists>tr. wd_calls (w_ext (snd (ReconcileSandboxes_Handle ward_upkeep (ward_ports [] [''V1''] None) ward_command
      \<lparr>lastBusy = Map.empty, hostReleased = {}\<rparr> ward_world))) = tr \<and>
    pass_calls ward_upkeep ward_command \<lparr>lastBusy = Map.empty, hostReleased = {}\<rparr> tr"
proof -
  let ?H = "ReconcileSandboxes_Handle ward_upkeep (ward_ports [] [''V1''] None) ward_command
      \<lparr>lastBusy = Map.empty, hostReleased = {}\<rparr> ward_world"
  have "?H = ((fst (fst ?H), snd (fst ?H)), snd ?H)" by simp
  from reconciliation_spares_live_work [OF ward_ports_laws(1) this] show ?thesis
    by (simp add: ward_world_def)
qed

lemma healthy_pass_leaves_true_records_witness:
  "\<exists>v'. wd_records (w_ext (snd (ReconcileSandboxes_Handle ward_upkeep (ward_ports [] [''V1''] None) ward_command
      \<lparr>lastBusy = Map.empty, hostReleased = {}\<rparr> ward_world))) ''V1'' = Some v' \<and> v_Status v' = SandboxStatusAbsent"
proof -
  let ?H = "ReconcileSandboxes_Handle ward_upkeep (ward_ports [] [''V1''] None) ward_command
      \<lparr>lastBusy = Map.empty, hostReleased = {}\<rparr> ward_world"
  have H: "?H = ((fst (fst ?H), snd (fst ?H)), snd ?H)" by simp
  have vs: "fst (k_ListSandboxes (ward_ports [] [''V1''] None) (rc_ProjectID ward_command) w1) = Inr [ward_sandbox]"
    if "ward_view w1 = ward_view ward_world" for w1
    using that by (simp add: ward_ports_def ward_view_def ward_world_def map_filter_simps Let_def)
  have held: "at_rest (fst (ward_view ward_world) (Sandbox_Ref v)) \<and> snd (ward_view ward_world) (v_ID v) = Some v"
    if "v \<in> set [ward_sandbox]" for v
    using that by (simp add: ward_view_def ward_world_def at_rest_def) (simp add: ward_sandbox_def)
  have "fst (k_ListProjectAgentRuns (ward_ports [] [''V1''] None) (rc_ProjectID ward_command) ward_world) = Inr []"
    by (simp add: ward_ports_def)
  from healthy_pass_leaves_true_records [OF ward_ports_laws(2,3) this vs _ held H]
  show ?thesis
    by (auto simp: ward_command_def prioritySandboxes_def one_each_def ward_view_def) (simp add: ward_sandbox_def)
qed

lemma failed_discard_is_never_retried_witness:
  "let K = ward_ports [] [''V1''] (Some (Sentinel ''busy'')); u = snd (reclaim K ward_sandbox 100 ward_world);
       u' = snd (reconcile_sandbox ward_upkeep K ward_command (\<lambda>_. []) 50 200 ward_sandbox
         \<lparr>y_errs = [], y_unreconciled = {}, y_busy = False\<rparr> u)
   in fst (reclaim K ward_sandbox 100 ward_world) = Some (Sentinel ''busy'') \<and>
      CredentialsDiscarded ''gm-1'' \<notin> set (drop (length (wd_calls (w_ext u))) (wd_calls (w_ext u')))"
proof -
  let ?K = "ward_ports [] [''V1''] (Some (Sentinel ''busy''))"
  let ?u = "snd (reclaim ?K ward_sandbox 100 ward_world)"
  let ?y = "\<lparr>y_errs = [], y_unreconciled = {}, y_busy = False\<rparr>"
  let ?R = "reconcile_sandbox ward_upkeep ?K ward_command (\<lambda>_. []) 50 200 ward_sandbox ?y ?u"
  have "?R = (fst ?R, snd ?R)" by simp
  have gone: "fst (k_Inspect ?K (Sandbox_Ref ward_sandbox) ?u) = Inr SandboxStatusAbsent"
    by (simp add: reclaim_def ward_defs Let_def)
  have *: "k_Delete ?K (Sandbox_Ref ward_sandbox) ward_world = (None, snd (k_Delete ?K (Sandbox_Ref ward_sandbox) ward_world))"
    "k_DiscardCredentials ?K = Some (\<lambda>name w. (Some (Sentinel ''busy''), on_ward (ward_call (CredentialsDiscarded name)) w))"
    by (simp_all add: ward_ports_def)
  note F = failed_discard_is_never_retried [OF ward_ports_laws(1) * refl gone \<open>?R = (fst ?R, snd ?R)\<close> refl]
  have "fst (reclaim ?K ward_sandbox 100 ward_world) = Some (Sentinel ''busy'')"
    using F [THEN conjunct1] by (metis fst_conv)
  moreover have "wd_calls (w_ext (snd ?R)) = wd_calls (w_ext ?u) \<or> wd_calls (w_ext (snd ?R)) =
       wd_calls (w_ext ?u) @ [Inspected (Sandbox_Ref ward_sandbox) (Some SandboxStatusAbsent)]"
    by (rule F [THEN conjunct2])
  ultimately show ?thesis unfolding Let_def by auto
qed

end
