(* ===== verification/Runtime_Cleanup.thy ===== *)
theory Runtime_Cleanup
  imports Sandbox_Upkeep Branch_Opening
begin

text \<open>
  What ends a run, an issue's work, finished work and a project from outside the loop:
  \<open>cancel_agent_run.go\<close>, \<open>reset_issue.go\<close>, \<open>purge_finished_work.go\<close> and \<open>forget_project.go\<close> of
  \<open>internal/application/usecases\<close>.
\<close>

section \<open>Cancelling a run\<close>

definition CancelAgentRun_Handle ::
    "'x round_ports \<Rightarrow> string \<Rightarrow> 'x world \<Rightarrow> (bool \<times> go_error option) \<times> 'x world" where
  "CancelAgentRun_Handle P runID w =
     (if trim_space runID = [] then ((False, Some (Errorf ''agent run ID is required'' [])), w)
      else
        case GetAgentRun P runID w of
          (Inl err, w) \<Rightarrow> ((False, Some err), w)
        | (Inr run, w) \<Rightarrow>
            if \<not> isLiveAgentRunStatus (r_Status run) then ((False, None), w)
            else
              let (signalled, s) = Cancel runID (w_supervisor w); w = on_supervisor (\<lambda>_. s) w
              in if signalled then ((True, None), w)
                 else
                   let (now, w) = Now P w
                   in case AgentRun_Apply AgentRunEventCancel now run of
                        (Some err, _) \<Rightarrow> ((False, Some err), w)
                      | (None, run) \<Rightarrow> (case SaveAgentRun P run w of (r, w) \<Rightarrow> ((True, r), w)))"

section \<open>Resetting an issue\<close>

text \<open>
  The registry and the sandbox manager come with the runtime; \<open>z_Wait\<close> is the select between the end
  of the context and the 25 milliseconds of the poll.
\<close>

record 'x reset_ports =
  z_tracker :: "'x tracker_ports"
  z_code :: "'x code_ports option"
  z_runtime :: "'x runtime_ports option"
  z_cancel :: "'x round_ports option"
  z_Wait :: "'x world \<Rightarrow> go_error option \<times> 'x world"

fun resettable :: "PullRequest list \<Rightarrow> string \<Rightarrow> go_error + PullRequest" where
  "resettable [] pullRequestID = Inl (Errorf ''pull request %q not found'' [GStr pullRequestID])"
| "resettable (pullRequest # pullRequests) pullRequestID =
     (if p_ID pullRequest \<noteq> pullRequestID then resettable pullRequests pullRequestID
      else if p_Status pullRequest \<noteq> PullRequestOpen
      then Inl (Errorf ''pull request %q is not open'' [GStr pullRequestID])
      else Inr pullRequest)"

definition resettablePullRequest :: "Epic \<Rightarrow> string \<Rightarrow> go_error + PullRequest" where
  "resettablePullRequest current pullRequestID = resettable (e_PullRequests current) pullRequestID"

fun cancel_live :: "'x round_ports option \<Rightarrow> AgentRun list \<Rightarrow> 'x world \<Rightarrow> go_error option \<times> 'x world" where
  "cancel_live cancel [] w = (None, w)"
| "cancel_live cancel (run # runs) w =
     (if \<not> isLiveAgentRunStatus (r_Status run) then cancel_live cancel runs w
      else
        case cancel of
          None \<Rightarrow> (Some (Errorf ''cannot cancel live agent run %q'' [GStr (r_ID run)]), w)
        | Some P \<Rightarrow>
            (case CancelAgentRun_Handle P (r_ID run) w of
               ((_, Some err), w) \<Rightarrow> (Some err, w)
             | ((_, None), w) \<Rightarrow> cancel_live cancel runs w))"

text \<open>The poll may go on for ever, so \<open>None\<close> is a drain that does not end.\<close>

partial_function (option) drain ::
    "(AgentRun list, 'x) io \<Rightarrow> ('x world \<Rightarrow> go_error option \<times> 'x world) \<Rightarrow> 'x world \<Rightarrow>
       (go_error option \<times> 'x world) option" where
  "drain listing wait w =
     (case listing w of
        (Inl err, w) \<Rightarrow> Some (Some err, w)
      | (Inr runs, w) \<Rightarrow>
          if \<not> list_ex (\<lambda>run. isLiveAgentRunStatus (r_Status run)) runs then Some (None, w)
          else
            (case wait w of
               (Some err, w) \<Rightarrow> Some (Some err, w)
             | (None, w) \<Rightarrow> drain listing wait w))"

definition cancelAndDrain ::
    "'x reset_ports \<Rightarrow> 'x runtime_ports \<Rightarrow> nat \<Rightarrow> AgentSubject \<Rightarrow> AgentRun list \<Rightarrow> 'x world \<Rightarrow>
       (go_error option \<times> 'x world) option" where
  "cancelAndDrain Z K projectID subject runs w =
     (case cancel_live (z_cancel Z) runs w of
        (Some err, w) \<Rightarrow> Some (Some err, w)
      | (None, w) \<Rightarrow> drain (k_ListAgentRuns K projectID subject) (z_Wait Z) w)"

text \<open>A cleanup step that only reports: its error joins the others.\<close>

definition noting ::
    "string \<Rightarrow> string \<Rightarrow> go_error list \<Rightarrow> go_error option \<times> 'x world \<Rightarrow> go_error list \<times> 'x world" where
  "noting message name cleanup r =
     (case r of
        (Some err, w) \<Rightarrow> (cleanup @ [Wrapf message [GStr name] [err]], w)
      | (None, w) \<Rightarrow> (cleanup, w))"

definition delete_sandbox ::
    "'x runtime_ports \<Rightarrow> string \<Rightarrow> Sandbox \<Rightarrow> go_error list \<Rightarrow> 'x world \<Rightarrow> go_error list \<times> 'x world" where
  "delete_sandbox K discardMessage sandbox cleanup w =
     (case k_Delete K (Sandbox_Ref sandbox) w of
        (Some err, w) \<Rightarrow> (cleanup @ [Wrapf ''delete sandbox %q: %w'' [GStr (v_Name sandbox)] [err]], w)
      | (None, w) \<Rightarrow>
          (case k_DiscardCredentials K of
             None \<Rightarrow> (cleanup, w)
           | Some Discard \<Rightarrow> noting discardMessage (v_Name sandbox) cleanup (Discard (v_Name sandbox) w)))"

fun delete_sandboxes ::
    "'x runtime_ports \<Rightarrow> AgentSubject \<Rightarrow> Sandbox list \<Rightarrow> go_error list \<Rightarrow> 'x world \<Rightarrow> go_error list \<times> 'x world" where
  "delete_sandboxes K subject [] cleanup w = (cleanup, w)"
| "delete_sandboxes K subject (sandbox # sandboxes) cleanup w =
     (if v_Subject sandbox \<noteq> subject \<or> v_Status sandbox = SandboxStatusAbsent
      then delete_sandboxes K subject sandboxes cleanup w
      else
        case delete_sandbox K ''discard credentials for sandbox %q: %w'' sandbox cleanup w of
          (cleanup, w) \<Rightarrow> delete_sandboxes K subject sandboxes cleanup w)"

fun discard_runs ::
    "(string \<Rightarrow> 'x world \<Rightarrow> go_error option \<times> 'x world) \<Rightarrow> AgentRun list \<Rightarrow> go_error list \<Rightarrow> 'x world \<Rightarrow>
       go_error list \<times> 'x world" where
  "discard_runs Discard [] cleanup w = (cleanup, w)"
| "discard_runs Discard (run # runs) cleanup w =
     (case noting ''discard transcript %q: %w'' (r_ID run) cleanup (Discard (r_ID run) w) of
        (cleanup, w) \<Rightarrow> discard_runs Discard runs cleanup w)"

text \<open>The rest of \<open>Handle\<close>, once no round of the subject runs.\<close>

definition reset_drained ::
    "'x reset_ports \<Rightarrow> 'x code_ports \<Rightarrow> 'x runtime_ports \<Rightarrow> nat \<Rightarrow> string \<Rightarrow> string \<Rightarrow> PullRequest \<Rightarrow> AgentSubject \<Rightarrow>
       AgentRun list \<Rightarrow> 'x world \<Rightarrow> go_error option \<times> 'x world" where
  "reset_drained Z C K projectID epicID pullRequestID pullRequest subject runs w =
     (case k_ListSandboxes K projectID w of
        (Inl err, w) \<Rightarrow> (Some err, w)
      | (Inr sandboxes, w) \<Rightarrow>
          let (cleanup, w) = delete_sandboxes K subject sandboxes [] w;
              checkout = \<lparr>co_EpicID = epicID, co_IssueID = p_IssueID pullRequest,
                co_Repository = p_Repository pullRequest\<rparr>;
              (cleanup, w) = noting ''delete branch %q: %w'' (p_Head pullRequest) cleanup
                (g_DeleteBranch C checkout (p_Head pullRequest) w);
              (cleanup, w) = (case k_DiscardOutput K of
                 None \<Rightarrow> (cleanup, w) | Some Discard \<Rightarrow> discard_runs Discard runs cleanup w)
          in case join_errors cleanup of
               Some err \<Rightarrow> (Some err, w)
             | None \<Rightarrow>
                 (case k_DeleteSubjectRuntime K projectID subject w of
                    (Some err, w) \<Rightarrow> (Some err, w)
                  | (None, w) \<Rightarrow>
                      t_UpdateEpic (z_tracker Z) epicID
                        (plain (TransitionPullRequest pullRequestID PullRequestClosed)) w))"

definition ResetIssue_Handle ::
    "'x reset_ports \<Rightarrow> nat \<Rightarrow> string \<Rightarrow> string \<Rightarrow> 'x world \<Rightarrow> (go_error option \<times> 'x world) option" where
  "ResetIssue_Handle Z projectID epicID pullRequestID w =
     (if epicID = [] \<or> pullRequestID = []
      then Some (Some (Errorf ''epic and pull request IDs are required'' []), w)
      else
        case (z_code Z, z_runtime Z) of
          (Some C, Some K) \<Rightarrow>
            (case t_ReadEpic (z_tracker Z) epicID w of
               (Inl err, w) \<Rightarrow> Some (Some err, w)
             | (Inr current, w) \<Rightarrow>
                 (case resettablePullRequest current pullRequestID of
                    Inl err \<Rightarrow> Some (Some err, w)
                  | Inr pullRequest \<Rightarrow>
                      let subject = \<lparr>s_Kind = AgentSubjectIssue, s_ID = p_IssueID pullRequest\<rparr>
                      in case k_ListAgentRuns K projectID subject w of
                           (Inl err, w) \<Rightarrow> Some (Some err, w)
                         | (Inr runs, w) \<Rightarrow>
                             (case cancelAndDrain Z K projectID subject runs w of
                                None \<Rightarrow> None
                              | Some (Some err, w) \<Rightarrow> Some (Some err, w)
                              | Some (None, w) \<Rightarrow>
                                  Some (reset_drained Z C K projectID epicID pullRequestID pullRequest subject runs w))))
        | _ \<Rightarrow> Some (Some (Errorf ''issue reset requires an agent runtime'' []), w))"

section \<open>Purging finished work\<close>

definition finishedEpics :: "Epic list \<Rightarrow> string list" where
  "finishedEpics epics =
     map e_ID (filter (\<lambda>e. e_State e = EpicStateDone \<or> e_State e = EpicStateClosed) epics)"

text \<open>A root of an epic's files, when it is there, and its error among those of the pass.\<close>

definition purging ::
    "string \<Rightarrow> string \<Rightarrow> (string \<Rightarrow> 'x world \<Rightarrow> go_error option \<times> 'x world) option \<Rightarrow> go_error list \<Rightarrow> 'x world \<Rightarrow>
       go_error list \<times> 'x world" where
  "purging message current Purge errs w =
     (case Purge of None \<Rightarrow> (errs, w) | Some f \<Rightarrow> noting message current errs (f current w))"

fun purge_epics ::
    "(string \<Rightarrow> 'x world \<Rightarrow> go_error option \<times> 'x world) option \<Rightarrow>
     (string \<Rightarrow> 'x world \<Rightarrow> go_error option \<times> 'x world) option \<Rightarrow> string set \<Rightarrow> string list \<Rightarrow> go_error list \<Rightarrow>
       'x world \<Rightarrow> go_error list \<times> 'x world" where
  "purge_epics repos code inFlight [] errs w = (errs, w)"
| "purge_epics repos code inFlight (current # epics) errs w =
     (if current \<in> inFlight then purge_epics repos code inFlight epics errs w
      else
        let (errs, w) = purging ''purge workspace of epic %q: %w'' current repos errs w;
            (errs, w) = purging ''purge checkouts of epic %q: %w'' current code errs w
        in purge_epics repos code inFlight epics errs w)"

fun discard_finished ::
    "(string \<Rightarrow> 'x world \<Rightarrow> go_error option \<times> 'x world) \<Rightarrow> AgentSubject set \<Rightarrow> AgentRun list \<Rightarrow> go_error list \<Rightarrow>
       'x world \<Rightarrow> go_error list \<times> 'x world" where
  "discard_finished Discard terminal [] errs w = (errs, w)"
| "discard_finished Discard terminal (run # runs) errs w =
     (if r_Subject run \<notin> terminal \<or> isLiveAgentRunStatus (r_Status run)
      then discard_finished Discard terminal runs errs w
      else
        case noting ''discard transcript of run %q: %w'' (r_ID run) errs (Discard (r_ID run) w) of
          (errs, w) \<Rightarrow> discard_finished Discard terminal runs errs w)"

definition discardTranscripts ::
    "'x runtime_ports option \<Rightarrow> nat \<Rightarrow> Epic list \<Rightarrow> 'x world \<Rightarrow> go_error option \<times> 'x world" where
  "discardTranscripts runtime projectID epics w =
     (case runtime of
        None \<Rightarrow> (None, w)
      | Some K \<Rightarrow>
          (case k_DiscardOutput K of
             None \<Rightarrow> (None, w)
           | Some Discard \<Rightarrow>
               if TerminalSubjects epics = {} then (None, w)
               else
                 (case k_ListProjectAgentRuns K projectID w of
                    (Inl err, w) \<Rightarrow> (Some err, w)
                  | (Inr runs, w) \<Rightarrow>
                      (case discard_finished Discard (TerminalSubjects epics) runs [] w of
                         (errs, w) \<Rightarrow> (join_errors errs, w)))))"

definition PurgeFinishedWork_Handle ::
    "(string \<Rightarrow> 'x world \<Rightarrow> go_error option \<times> 'x world) option \<Rightarrow> 'x code_ports option \<Rightarrow> 'x runtime_ports option \<Rightarrow>
       nat \<Rightarrow> Epic list \<Rightarrow> string set \<Rightarrow> 'x world \<Rightarrow> go_error option \<times> 'x world" where
  "PurgeFinishedWork_Handle repos code runtime projectID epics inFlight w =
     (let (errs, w) = purge_epics repos (map_option g_PurgeEpic code) inFlight (finishedEpics epics) [] w
      in case discardTranscripts runtime projectID epics w of
           (r, w) \<Rightarrow> (join_errors (errs @ (case r of Some err \<Rightarrow> [err] | None \<Rightarrow> [])), w))"

section \<open>Forgetting a project\<close>

fun release_each ::
    "'x runtime_ports \<Rightarrow> Sandbox list \<Rightarrow> go_error list \<Rightarrow> 'x world \<Rightarrow> go_error list \<times> 'x world" where
  "release_each K [] errs w = (errs, w)"
| "release_each K (sandbox # sandboxes) errs w =
     (if v_Status sandbox = SandboxStatusAbsent then release_each K sandboxes errs w
      else
        case delete_sandbox K ''discard credentials of sandbox %q: %w'' sandbox errs w of
          (errs, w) \<Rightarrow> release_each K sandboxes errs w)"

definition releaseSandboxes ::
    "'x runtime_ports option \<Rightarrow> nat \<Rightarrow> 'x world \<Rightarrow> go_error option \<times> 'x world" where
  "releaseSandboxes runtime projectID w =
     (case runtime of
        None \<Rightarrow> (None, w)
      | Some K \<Rightarrow>
          (case k_ListSandboxes K projectID w of
             (Inl err, w) \<Rightarrow> (Some err, w)
           | (Inr sandboxes, w) \<Rightarrow>
               let (errs, w) = release_each K sandboxes [] w;
                   (errs, w) = (case k_host K of
                      None \<Rightarrow> (errs, w)
                    | Some H \<Rightarrow>
                        (case ph_DeleteProfile H projectID w of
                           (Some err, w) \<Rightarrow>
                             (errs @ [Wrapf ''delete host of project %d: %w'' [GInt (int projectID)] [err]], w)
                         | (None, w) \<Rightarrow> (errs, w)))
               in case join_errors errs of
                    Some err \<Rightarrow> (Some err, w)
                  | None \<Rightarrow> k_DeleteProjectRuntime K projectID w))"

definition ForgetProject_Handle ::
    "(nat \<Rightarrow> 'x world \<Rightarrow> go_error option \<times> 'x world) \<Rightarrow> 'x runtime_ports option \<Rightarrow> nat \<Rightarrow> 'x world \<Rightarrow>
       go_error option \<times> 'x world" where
  "ForgetProject_Handle Delete runtime projectID w =
     (if projectID = 0 then (Some (Errorf ''project ID is required'' []), w)
      else
        case releaseSandboxes runtime projectID w of
          (Some err, w) \<Rightarrow>
            (case Delete projectID w of
               (r, w) \<Rightarrow> (join_errors (err # (case r of Some e \<Rightarrow> [e] | None \<Rightarrow> [])), w))
        | (None, w) \<Rightarrow> Delete projectID w)"

section \<open>The drain\<close>

definition idle_runs :: "AgentRun list \<Rightarrow> bool" where
  "idle_runs runs \<longleftrightarrow> \<not> list_ex (\<lambda>run. isLiveAgentRunStatus (r_Status run)) runs"

text \<open>A drain that ends well has just read a list with nothing live on it.\<close>

lemma drain_reads_idle:
  "drain listing wait w = Some (None, w') \<Longrightarrow> \<exists>w1 runs. listing w1 = (Inr runs, w') \<and> idle_runs runs"
proof -
  have "r = None \<longrightarrow> (\<exists>w1 runs. listing w1 = (Inr runs, v) \<and> idle_runs runs)"
    if "drain listing wait w = Some (r, v)" for r v
  proof -
    have "case rv of (r, v) \<Rightarrow> r = None \<longrightarrow> (\<exists>w1 runs. listing w1 = (Inr runs, v) \<and> idle_runs runs)"
      if "drain listing wait w = Some rv" for rv
      by (rule drain.raw_induct [OF _ that])
        (auto simp: idle_runs_def split: prod.splits sum.splits if_splits option.splits)
    with that show ?thesis by fastforce
  qed
  then show "drain listing wait w = Some (None, w') \<Longrightarrow> \<exists>w1 runs. listing w1 = (Inr runs, w') \<and> idle_runs runs"
    by blast
qed

lemma drain_silent:
  assumes "silent obs listing" "silent obs wait" "drain listing wait w = Some (r, w')"
  shows "obs w' = obs w"
proof -
  have "obs (snd rv) = obs w" if "drain listing wait w = Some rv" for rv
  proof (rule drain.raw_induct [where P = "\<lambda>listing wait w rv. silent obs listing \<longrightarrow> silent obs wait \<longrightarrow> obs (snd rv) = obs w", THEN mp, THEN mp, OF _ that assms(1,2)])
    fix drain' :: "(AgentRun list, 'a) io \<Rightarrow> ('a world \<Rightarrow> go_error option \<times> 'a world) \<Rightarrow> 'a world \<Rightarrow> (go_error option \<times> 'a world) option"
      and listing wait w rv
    assume IH: "\<And>listing wait w rv. drain' listing wait w = Some rv \<Longrightarrow>
        silent obs listing \<longrightarrow> silent obs wait \<longrightarrow> obs (snd rv) = obs w"
      and run: "(case listing w of
        (Inl err, w) \<Rightarrow> Some (Some err, w)
      | (Inr runs, w) \<Rightarrow>
          if \<not> list_ex (\<lambda>run. isLiveAgentRunStatus (r_Status run)) runs then Some (None, w)
          else (case wait w of (Some err, w) \<Rightarrow> Some (Some err, w) | (None, w) \<Rightarrow> drain' listing wait w)) = Some rv"
    show "silent obs listing \<longrightarrow> silent obs wait \<longrightarrow> obs (snd rv) = obs w"
    proof (intro impI)
      assume q: "silent obs listing" "silent obs wait"
      obtain a w1 where a: "listing w = (a, w1)" by (metis surj_pair)
      obtain b w2 where b: "wait w1 = (b, w2)" by (metis surj_pair)
      show "obs (snd rv) = obs w"
        using run IH [of listing wait w2 rv] q silentD [OF q(1) a] silentD [OF q(2) b]
        by (cases a; cases b) (auto simp: a b split: if_splits)
    qed
  qed
  from this [OF assms(3)] show ?thesis by simp
qed

text \<open>It ends when every wait it gets brings the live runs closer to their end.\<close>

lemma drain_ends:
  assumes "\<And>w w1 runs w2. listing w = (Inr runs, w1) \<Longrightarrow> \<not> idle_runs runs \<Longrightarrow> wait w1 = (None, w2) \<Longrightarrow>
    (f w2 :: nat) < f w"
  shows "\<exists>r. drain listing wait w = Some r"
proof (induction "f w" arbitrary: w rule: less_induct)
  case less
  obtain a w1 where a: "listing w = (a, w1)" by (metis surj_pair)
  obtain b w2 where b: "wait w1 = (b, w2)" by (metis surj_pair)
  show ?case
  proof (cases a)
    case (Inr runs)
    show ?thesis
    proof (cases "idle_runs runs \<or> b \<noteq> None")
      case True
      with a b Inr show ?thesis by (subst drain.simps) (auto simp: idle_runs_def)
    next
      case False
      with assms [OF a [unfolded Inr]] b have "f w2 < f w" by auto
      with less [of w2] False a b Inr show ?thesis by (subst drain.simps) (auto simp: idle_runs_def)
    qed
  qed (subst drain.simps, simp add: a)
qed

section \<open>A reset seen from the tracker\<close>

definition quiet_cancel :: "('x world \<Rightarrow> 'o) \<Rightarrow> 'x round_ports \<Rightarrow> bool" where
  "quiet_cancel obs P \<longleftrightarrow> silent obs (Now P) \<and> (\<forall>i. silent obs (GetAgentRun P i)) \<and>
     (\<forall>run. silent obs (SaveAgentRun P run)) \<and> (\<forall>f w. obs (on_supervisor f w) = obs w)"

definition quiet_runtime :: "('x world \<Rightarrow> 'o) \<Rightarrow> 'x runtime_ports \<Rightarrow> bool" where
  "quiet_runtime obs K \<longleftrightarrow>
     (\<forall>p subject. silent obs (k_ListAgentRuns K p subject)) \<and> (\<forall>p. silent obs (k_ListSandboxes K p)) \<and>
     (\<forall>p subject. silent obs (k_DeleteSubjectRuntime K p subject)) \<and> (\<forall>ref. silent obs (k_Delete K ref)) \<and>
     (\<forall>f name. k_DiscardCredentials K = Some f \<longrightarrow> silent obs (f name)) \<and>
     (\<forall>f name. k_DiscardOutput K = Some f \<longrightarrow> silent obs (f name))"

lemma silent_CancelAgentRun:
  assumes "quiet_cancel obs P"
  shows "silent obs (CancelAgentRun_Handle P runID)"
proof -
  have q: "Now P w = (n, w') \<Longrightarrow> obs w' = obs w" "GetAgentRun P i w = (g, w') \<Longrightarrow> obs w' = obs w"
    "SaveAgentRun P run w = (e, w') \<Longrightarrow> obs w' = obs w" "obs (on_supervisor f w) = obs w" for n i g run e f w w'
    using assms unfolding quiet_cancel_def by (blast dest: silentD)+
  show ?thesis
    by (rule silentI)
      (auto simp: CancelAgentRun_Handle_def Let_def q(4) split: if_splits prod.splits sum.splits option.splits
        dest!: q(1-3))
qed

lemma silent_cancel_live:
  assumes "\<And>P. cancel = Some P \<Longrightarrow> quiet_cancel obs P"
  shows "obs (snd (cancel_live cancel runs w)) = obs w"
proof (induction runs arbitrary: w)
  case (Cons run runs)
  show ?case
  proof (cases cancel)
    case (Some P)
    obtain r w1 where c: "CancelAgentRun_Handle P (r_ID run) w = (r, w1)" by (metis surj_pair)
    then have "obs w1 = obs w" using silentD [OF silent_CancelAgentRun [OF assms [OF Some]] c] by simp
    with Cons [of w] Cons [of w1] c Some show ?thesis by (auto split: prod.splits option.splits)
  qed (use Cons in simp)
qed simp

lemma noting_world [simp]: "snd (noting msg name cleanup r) = snd r"
  by (auto simp: noting_def split: prod.splits option.splits)

lemma noting_errs: "fst (noting msg name cleanup r) = [] \<longleftrightarrow> cleanup = [] \<and> fst r = None"
  by (auto simp: noting_def split: prod.splits option.splits)

lemma silent_delete_sandbox:
  assumes q: "quiet_runtime obs K"
  shows "obs (snd (delete_sandbox K msg v cleanup w)) = obs w"
proof -
  have "silent obs (k_Delete K (Sandbox_Ref v))" "k_DiscardCredentials K = Some f \<Longrightarrow> silent obs (f name)" for f name
    using q by (simp_all add: quiet_runtime_def)
  then show ?thesis
    by (auto simp: delete_sandbox_def silent_snd split: prod.splits option.splits dest: silentD)
qed

lemma silent_delete_sandboxes:
  assumes q: "quiet_runtime obs K"
  shows "obs (snd (delete_sandboxes K subject vs cleanup w)) = obs w"
proof (induction vs arbitrary: cleanup w)
  case (Cons v vs)
  then show ?case
    using silent_delete_sandbox [OF q, of "''discard credentials for sandbox %q: %w''" v cleanup w]
    by (auto split: prod.split)
qed simp

lemma silent_discard_runs:
  assumes "\<And>name. silent obs (f name)"
  shows "obs (snd (discard_runs f runs cleanup w)) = obs w"
proof (induction runs arbitrary: cleanup w)
  case (Cons run runs)
  obtain c1 w1 where n: "noting ''discard transcript %q: %w'' (r_ID run) cleanup (f (r_ID run) w) = (c1, w1)"
    by (metis surj_pair)
  then have "w1 = snd (f (r_ID run) w)" by (metis noting_world snd_conv)
  then have "obs w1 = obs w" by (simp add: silent_snd [OF assms])
  with Cons n show ?case by simp
qed simp

text \<open>What a reset has removed when nothing failed: the sandboxes of the subject and the branch.\<close>

definition cleared ::
    "'x runtime_ports \<Rightarrow> 'x code_ports \<Rightarrow> nat \<Rightarrow> string \<Rightarrow> PullRequest \<Rightarrow> AgentSubject \<Rightarrow> bool" where
  "cleared K C projectID epicID p subject \<longleftrightarrow>
     (\<exists>u u' vs. k_ListSandboxes K projectID u = (Inr vs, u') \<and>
        (\<forall>v \<in> set vs. v_Subject v = subject \<longrightarrow> v_Status v \<noteq> SandboxStatusAbsent \<longrightarrow>
           (\<exists>u u'. k_Delete K (Sandbox_Ref v) u = (None, u')))) \<and>
     (\<exists>u u'. g_DeleteBranch C \<lparr>co_EpicID = epicID, co_IssueID = p_IssueID p, co_Repository = p_Repository p\<rparr>
        (p_Head p) u = (None, u'))"

lemma delete_sandbox_ok:
  "delete_sandbox K msg v cleanup w = ([], w') \<Longrightarrow> cleanup = [] \<and> (\<exists>u'. k_Delete K (Sandbox_Ref v) w = (None, u'))"
  by (auto simp: delete_sandbox_def noting_def split: prod.splits option.splits)

lemma delete_sandboxes_ok:
  "delete_sandboxes K subject vs cleanup w = ([], w') \<Longrightarrow> cleanup = [] \<and>
     (\<forall>v \<in> set vs. v_Subject v = subject \<longrightarrow> v_Status v \<noteq> SandboxStatusAbsent \<longrightarrow>
        (\<exists>u u'. k_Delete K (Sandbox_Ref v) u = (None, u')))"
proof (induction vs arbitrary: cleanup w)
  case (Cons v vs)
  show ?case
  proof (cases "v_Subject v \<noteq> subject \<or> v_Status v = SandboxStatusAbsent")
    case True
    with Cons.prems have "delete_sandboxes K subject vs cleanup w = ([], w')" by auto
    from Cons.IH [OF this] True show ?thesis by auto
  next
    case False
    obtain c w1 where d: "delete_sandbox K ''discard credentials for sandbox %q: %w'' v cleanup w = (c, w1)"
      by (metis surj_pair)
    with Cons.prems False have "delete_sandboxes K subject vs c w1 = ([], w')" by simp
    note IH = Cons.IH [OF this]
    from delete_sandbox_ok [OF d [unfolded IH [THEN conjunct1]]] IH show ?thesis by auto
  qed
qed simp

lemma discard_runs_ok: "discard_runs f runs cleanup w = ([], w') \<Longrightarrow> cleanup = []"
  by (induction runs arbitrary: cleanup w) (auto simp: noting_def split: prod.splits option.splits)

text \<open>
  Up to its last call a reset leaves the tracker alone; it gets there only when every sandbox of the
  subject, the branch and the transcripts are gone.
\<close>

lemma reset_drained_cases:
  assumes run: "reset_drained Z C K projectID epicID x p subject runs w = (r, w')"
    and K: "quiet_runtime obs K" and C: "\<And>c b. silent obs (g_DeleteBranch C c b)"
  obtains (fails) err where "r = Some err" "obs w' = obs w"
  | (closes) w1 where "obs w1 = obs w" "cleared K C projectID epicID p subject"
      "t_UpdateEpic (z_tracker Z) epicID (plain (TransitionPullRequest x PullRequestClosed)) w1 = (r, w')"
proof -
  let ?c = "\<lparr>co_EpicID = epicID, co_IssueID = p_IssueID p, co_Repository = p_Repository p\<rparr>"
  have q: "silent obs (k_ListSandboxes K projectID)" "silent obs (k_DeleteSubjectRuntime K projectID subject)"
    "k_DiscardOutput K = Some f \<Longrightarrow> silent obs (f name)" for f name
    using K by (simp_all add: quiet_runtime_def)
  obtain a w1 where a: "k_ListSandboxes K projectID w = (a, w1)" by (metis surj_pair)
  note o1 = silentD [OF q(1) a]
  show thesis
  proof (cases a)
    case (Inl err)
    with run a o1 fails [of err] show thesis by (auto simp: reset_drained_def)
  next
    case (Inr vs)
    obtain c2 w2 where d: "delete_sandboxes K subject vs [] w1 = (c2, w2)" by (metis surj_pair)
    have o2: "obs w2 = obs w1" using silent_delete_sandboxes [OF K, of subject vs "[]" w1] d by simp
    obtain c3 w3 where b: "noting ''delete branch %q: %w'' (p_Head p) c2 (g_DeleteBranch C ?c (p_Head p) w2) = (c3, w3)"
      by (metis surj_pair)
    have o3: "obs w3 = obs w2"
      using arg_cong [OF b, of snd] silent_snd [OF C, of ?c "p_Head p" w2] by simp
    obtain c4 w4 where t: "(case k_DiscardOutput K of None \<Rightarrow> (c3, w3) | Some f \<Rightarrow> discard_runs f runs c3 w3) = (c4, w4)"
      by (metis surj_pair)
    have o4: "obs w4 = obs w3"
    proof (cases "k_DiscardOutput K")
      case (Some f)
      with t silent_discard_runs [where f = f and obs = obs, OF q(3) [OF Some], of runs c3 w3] show ?thesis by simp
    qed (use t in simp)
    note S = run [unfolded reset_drained_def a prod.case Inr sum.case d Let_def b t]
    show thesis
    proof (cases "c4 = []")
      case False
      with S o1 o2 o3 o4 fails [of "JoinErr c4"] show thesis by (auto simp: join_errors_def)
    next
      case True
      have "c3 = []" using t True discard_runs_ok by (auto split: option.splits)
      then have "c2 = []" "fst (g_DeleteBranch C ?c (p_Head p) w2) = None"
        using arg_cong [OF b, of fst] by (simp_all add: noting_errs)
      with delete_sandboxes_ok [of K subject vs "[]" w1 w2] d a Inr have "cleared K C projectID epicID p subject"
        unfolding cleared_def by (metis prod.collapse)
      moreover obtain e w5 where e: "k_DeleteSubjectRuntime K projectID subject w4 = (e, w5)" by (metis surj_pair)
      ultimately show thesis
        using S True silentD [OF q(2) e] o1 o2 o3 o4 fails closes [of w5]
        by (cases e) (auto simp: join_errors_def)
    qed
  qed
qed

lemma resettable_Inr:
  "resettable ps x = Inr p \<Longrightarrow> p \<in> set ps \<and> p_ID p = x \<and> p_Status p = PullRequestOpen"
  by (induction ps) (auto split: if_splits)

context epic_tracker
begin

lemma reset_spec:
  assumes run: "ResetIssue_Handle Z projectID i x w = Some (r, w')" and T: "z_tracker Z = T"
    and at: "filed held good storable i w e"
    and K: "\<And>K. z_runtime Z = Some K \<Longrightarrow> quiet_runtime (\<lambda>w. (held w, good w)) K"
    and C: "\<And>C c b. z_code Z = Some C \<Longrightarrow> silent (\<lambda>w. (held w, good w)) (g_DeleteBranch C c b)"
    and P: "\<And>P. z_cancel Z = Some P \<Longrightarrow> quiet_cancel (\<lambda>w. (held w, good w)) P"
    and wait: "silent (\<lambda>w. (held w, good w)) (z_Wait Z)"
  shows "(r \<noteq> None \<and> filed held good storable i w' e) \<or>
    (\<exists>p e'. r = None \<and> p \<in> set (e_PullRequests e) \<and> p_ID p = x \<and> p_Status p = PullRequestOpen \<and>
       filed held good storable i w' e' \<and> desk_step e e' \<and>
       (\<exists>K C. z_runtime Z = Some K \<and> z_code Z = Some C \<and>
          cleared K C projectID i p \<lparr>s_Kind = AgentSubjectIssue, s_ID = p_IssueID p\<rparr>) \<and>
       e' = canonical (put_state (p_IssueID p) IssueStateOpen (put_pull_request (p\<lparr>p_Status := PullRequestClosed\<rparr>) e)))"
proof -
  let ?o = "\<lambda>w. (held w, good w)"
  have held0: "held w i = Some e" and st: "storable e" and inv: "loop_inv e" using at by (simp_all add: filed_def)
  have stays: "?thesis" if "r = Some err" "?o w' = ?o w" for err
    using that filed_frame [OF at, of w'] by auto
  show ?thesis
  proof (cases "i = [] \<or> x = [] \<or> z_code Z = None \<or> z_runtime Z = None")
    case True
    with run stays show ?thesis by (auto simp: ResetIssue_Handle_def split: if_splits option.splits)
  next
    case False
    then obtain C K where CK: "z_code Z = Some C" "z_runtime Z = Some K" and ids: "\<not> (i = [] \<or> x = [])" by auto
    note qK = K [OF CK(2)]
    obtain a w1 where a: "t_ReadEpic T i w = (a, w1)" by (metis surj_pair)
    note o1 = silentD [OF read_silent a]
    note R = run [unfolded ResetIssue_Handle_def if_not_P [OF ids] CK prod.case option.case T a]
    show ?thesis
    proof (cases "isl a \<or> isl (resettablePullRequest e x)")
      case True
      with R o1 read_held [of i w] a held0 stays show ?thesis by (cases a; cases "resettablePullRequest e x") auto
    next
      case False
      with read_held [of i w] a held0 obtain p where ap: "a = Inr e" "resettablePullRequest e x = Inr p"
        by (cases a; cases "resettablePullRequest e x") auto
      note p = resettable_Inr [OF ap(2) [unfolded resettablePullRequest_def]]
      let ?s = "\<lparr>s_Kind = AgentSubjectIssue, s_ID = p_IssueID p\<rparr>"
      obtain b w2 where b: "k_ListAgentRuns K projectID ?s w1 = (b, w2)" by (metis surj_pair)
      have qL: "silent ?o (k_ListAgentRuns K projectID ?s)" using qK by (simp add: quiet_runtime_def)
      note o2 = silentD [OF qL b]
      note R = R [unfolded ap sum.case prod.case Let_def b]
      show ?thesis
      proof (cases b)
        case (Inl err)
        with R o1 o2 stays show ?thesis by auto
      next
        case (Inr runs)
        obtain c w3 where c: "cancel_live (z_cancel Z) runs w2 = (c, w3)" by (metis surj_pair)
        have o3: "?o w3 = ?o w2" using silent_cancel_live [of "z_cancel Z" ?o runs w2] P c by simp
        show ?thesis
        proof (cases "drain (k_ListAgentRuns K projectID ?s) (z_Wait Z) w3")
          case None
          with R Inr c o1 o2 o3 stays show ?thesis by (auto simp: cancelAndDrain_def split: option.splits)
        next
          case (Some dw)
          obtain d w4 where dw: "dw = (d, w4)" by fastforce
          from drain_silent [OF qL wait Some [unfolded dw]] have o4: "?o w4 = ?o w3" .
          show ?thesis
          proof (cases "c = None \<and> d = None")
            case False
            with R Inr c Some dw o1 o2 o3 o4 stays show ?thesis
              by (auto simp: cancelAndDrain_def split: option.splits)
          next
            case True
            with R Inr c Some dw have last': "reset_drained Z C K projectID i x p ?s runs w4 = (r, w')"
              by (simp add: cancelAndDrain_def)
            have o: "?o w4 = ?o w" using o1 o2 o3 o4 by simp
            show ?thesis
            proof (rule reset_drained_cases [OF last' qK C [OF CK(1)]])
              fix err assume "r = Some err" "?o w' = ?o w4"
              with o stays show ?thesis by simp
            next
              fix w5 assume w5: "?o w5 = ?o w4" and gone: "cleared K C projectID i p ?s"
                and u: "t_UpdateEpic (z_tracker Z) i (plain (TransitionPullRequest x PullRequestClosed)) w5 = (r, w')"
              have stored: "good w5" "held w5 i = Some e" "storable e"
                using w5 o at held0 st by (auto simp: filed_def)
              show ?thesis
              proof (rule plain_cases [OF u [unfolded T] stored frames_TransitionPullRequest])
                fix err assume "r = Some err" "held w' = held w5" "good w'"
                with stored w5 o at stays show ?thesis by (simp add: filed_def)
              next
                fix e' assume e': "r = None" "TransitionPullRequest x PullRequestClosed e = (None, e')" "good w'"
                  "held w' i = Some (canonical e')" "storable (canonical e')"
                have t: "TransitionPullRequest (p_ID p) PullRequestClosed e = (None, e')" using e'(2) p by simp
                have "loop_step\<^sup>*\<^sup>* e e'" using loop_step.Settles [OF _ t] p by blast
                from filed_step [OF at this e'(3-5)] settle_form [OF inv _ t] p e'(1) gone CK show ?thesis by auto
              qed
            qed
          qed
        qed
      qed
    qed
  qed
qed

end

lemma in_canonical_put:
  assumes inv: "loop_inv e" and p: "p \<in> set (e_PullRequests e)"
    and e': "e' = canonical (put_state (p_IssueID p) IssueStateOpen (put_pull_request (p\<lparr>p_Status := PullRequestClosed\<rparr>) e))"
  shows "q \<in> set (e_PullRequests e') \<Longrightarrow> p_ID q = p_ID p \<Longrightarrow> p_Status q = PullRequestClosed"
    "j \<in> set (e_Issues e') \<Longrightarrow> i_ID j = p_IssueID p \<Longrightarrow> i_State j = IssueStateOpen"
proof -
  assume "q \<in> set (e_PullRequests e')" "p_ID q = p_ID p"
  then show "p_Status q = PullRequestClosed"
    using distinct_map_unique [OF loop_inv_facts(1) [OF inv] _ p]
    by (auto simp: e' set_canonical_pull_requests put_pull_request_def put_state_def canonical_pull_request_def split: if_splits)
next
  assume "j \<in> set (e_Issues e')" "i_ID j = p_IssueID p"
  then show "i_State j = IssueStateOpen"
    by (auto simp: e' set_canonical_issues put_pull_request_def put_state_def canonical_issue_def split: if_splits)
qed


text \<open>A runtime with nothing in it.\<close>

definition idle_round :: "'x round_ports" where
  "idle_round =
     \<lparr>Now = Pair 0, MintULID = Pair ''01J'', SaveAgentRun = (\<lambda>run. Pair None),
      GetAgentRun = (\<lambda>i. Pair (Inl (Sentinel ''record not found''))), SaveSandbox = (\<lambda>v. Pair None),
      Ensure = (\<lambda>spec. Pair (Inr False)), Start = (\<lambda>ref. Pair None), Stop = (\<lambda>ref. Pair None),
      StopNow = (\<lambda>ref. Pair None), RunAgent = (\<lambda>ref i argv. Pair quiet_outcome), ContextDone = (\<lambda>i w. False),
      Command = (\<lambda>run prompt env. Inr [prompt]),
      ParseUsage = (\<lambda>out. \<lparr>u_TokensIn = 0, u_TokensOut = 0, u_CostUSD = (0, 0)\<rparr>),
      ExtractAnswer = (\<lambda>out. out), ErrorText = (\<lambda>e. ''error'')\<rparr>"

definition idle_runtime :: "'x runtime_ports" where
  "idle_runtime =
     \<lparr>k_round = idle_round, k_ListAgentRuns = (\<lambda>p subject. Pair (Inr [])), k_ListProjectAgentRuns = (\<lambda>p. Pair (Inr [])),
      k_ListSandboxes = (\<lambda>p. Pair (Inr [])), k_DeleteSubjectRuntime = (\<lambda>p subject. Pair None),
      k_DeleteProjectRuntime = (\<lambda>p. Pair None), k_Inspect = (\<lambda>ref. Pair (Inr SandboxStatusAbsent)),
      k_Delete = (\<lambda>ref. Pair None), k_DiscardCredentials = None, k_DiscardOutput = None, k_FreeBytes = None,
      k_host = None\<rparr>"

definition reset_desk :: "git_call list desk reset_ports" where
  "reset_desk = \<lparr>z_tracker = desk_tracker, z_code = Some (desk_code (\<lambda>_ _. Map.empty)), z_runtime = Some idle_runtime,
     z_cancel = Some idle_round, z_Wait = Pair None\<rparr>"

lemma drain_idle: "drain (Pair (Inr [])) wait w = Some (None, w)"
  by (subst drain.simps) simp

lemma reset_desk_returns: "\<exists>r w'. ResetIssue_Handle reset_desk projectID i x w = Some (r, w')"
proof -
  have "ResetIssue_Handle reset_desk projectID i x w \<noteq> None"
    by (simp add: ResetIssue_Handle_def reset_desk_def idle_runtime_def cancelAndDrain_def Let_def drain_idle
        split: prod.split sum.split)
  then show ?thesis by (metis not_Some_eq surj_pair)
qed


section \<open>What a purge removes\<close>

datatype purge_call = PurgedWorkspace string | PurgedCheckouts string | DiscardedTranscript string

definition records_purges ::
    "('x world \<Rightarrow> purge_call list) \<Rightarrow> (string \<Rightarrow> 'x world \<Rightarrow> go_error option \<times> 'x world) option \<Rightarrow>
       'x code_ports option \<Rightarrow> 'x runtime_ports option \<Rightarrow> bool" where
  "records_purges l repos code runtime \<longleftrightarrow>
     (\<forall>f i w. repos = Some f \<longrightarrow> l (snd (f i w)) = l w @ [PurgedWorkspace i]) \<and>
     (\<forall>C i w. code = Some C \<longrightarrow> l (snd (g_PurgeEpic C i w)) = l w @ [PurgedCheckouts i]) \<and>
     (\<forall>K f i w. runtime = Some K \<longrightarrow> k_DiscardOutput K = Some f \<longrightarrow> l (snd (f i w)) = l w @ [DiscardedTranscript i]) \<and>
     (\<forall>K p. runtime = Some K \<longrightarrow> silent l (k_ListProjectAgentRuns K p))"

text \<open>The roots of an epic, in the order the pass removes them.\<close>

definition roots_of ::
    "(string \<Rightarrow> 'x world \<Rightarrow> go_error option \<times> 'x world) option \<Rightarrow> 'x code_ports option \<Rightarrow> string \<Rightarrow> purge_call list" where
  "roots_of repos code i =
     (if repos = None then [] else [PurgedWorkspace i]) @ (if code = None then [] else [PurgedCheckouts i])"

lemma purge_epics_calls:
  assumes l: "records_purges l repos code runtime"
  shows "l (snd (purge_epics repos (map_option g_PurgeEpic code) inFlight is errs w)) =
    l w @ concat (map (roots_of repos code) (filter (\<lambda>i. i \<notin> inFlight) is))"
proof (induction "is" arbitrary: errs w)
  case (Cons i "is")
  let ?a = "purging ''purge workspace of epic %q: %w'' i repos errs w"
  let ?b = "purging ''purge checkouts of epic %q: %w'' i (map_option g_PurgeEpic code) (fst ?a) (snd ?a)"
  have a: "l (snd ?a) = l w @ (if repos = None then [] else [PurgedWorkspace i])"
    using l by (auto simp: purging_def records_purges_def split: option.splits)
  have b: "l (snd ?b) = l (snd ?a) @ (if code = None then [] else [PurgedCheckouts i])"
    using l by (auto simp: purging_def records_purges_def split: option.splits)
  show ?case
  proof (cases "i \<in> inFlight")
    case False
    then have "purge_epics repos (map_option g_PurgeEpic code) inFlight (i # is) errs w =
        purge_epics repos (map_option g_PurgeEpic code) inFlight is (fst ?b) (snd ?b)"
      by (simp add: Let_def case_prod_beta)
    with a b Cons.IH False show ?thesis by (simp add: roots_of_def)
  qed (use Cons.IH in simp)
qed simp

lemma discard_finished_calls:
  assumes "\<And>i w. l (snd (f i w)) = l w @ [DiscardedTranscript i]"
  shows "l (snd (discard_finished f terminal runs errs w)) =
    l w @ map (DiscardedTranscript \<circ> r_ID)
      (filter (\<lambda>run. r_Subject run \<in> terminal \<and> \<not> isLiveAgentRunStatus (r_Status run)) runs)"
proof (induction runs arbitrary: errs w)
  case (Cons run runs)
  obtain e w1 where n: "noting ''discard transcript of run %q: %w'' (r_ID run) errs (f (r_ID run) w) = (e, w1)"
    by (metis surj_pair)
  then have "l w1 = l w @ [DiscardedTranscript (r_ID run)]"
    using assms by (metis noting_world snd_conv)
  with Cons n show ?case by auto
qed simp

text \<open>A purge removes the directories of exactly the finished epics that have no round in flight, and
  the transcripts of exactly the ended runs of finished subjects, each once and whatever fails on the
  way.
\<close>

theorem purge_spares_rounds_in_flight:
  assumes l: "records_purges l repos code runtime"
    and run: "PurgeFinishedWork_Handle repos code runtime projectID epics inFlight w = (r, w')"
  shows "\<exists>discarded. l w' = l w @ concat (map (roots_of repos code) (filter (\<lambda>i. i \<notin> inFlight)
      (map e_ID (filter (\<lambda>e. e_State e \<in> {EpicStateDone, EpicStateClosed}) epics)))) @ discarded \<and>
    (discarded = [] \<or> (\<exists>K v runs v'. runtime = Some K \<and> k_ListProjectAgentRuns K projectID v = (Inr runs, v') \<and>
       discarded = map (DiscardedTranscript \<circ> r_ID)
         (filter (\<lambda>run. r_Subject run \<in> TerminalSubjects epics \<and> \<not> isLiveAgentRunStatus (r_Status run)) runs)))"
proof -
  obtain errs w1 where p: "purge_epics repos (map_option g_PurgeEpic code) inFlight (finishedEpics epics) [] w = (errs, w1)"
    by (metis surj_pair)
  obtain d w2 where d: "discardTranscripts runtime projectID epics w1 = (d, w2)" by (metis surj_pair)
  have w': "w' = w2" using run by (simp add: PurgeFinishedWork_Handle_def p d)
  have l1: "l w1 = l w @ concat (map (roots_of repos code) (filter (\<lambda>i. i \<notin> inFlight)
      (map e_ID (filter (\<lambda>e. e_State e \<in> {EpicStateDone, EpicStateClosed}) epics))))"
  proof -
    have "map e_ID (filter (\<lambda>e. e_State e \<in> {EpicStateDone, EpicStateClosed}) epics) = finishedEpics epics"
      by (simp add: finishedEpics_def)
    then show ?thesis using purge_epics_calls [OF l, of inFlight "finishedEpics epics" "[]" w] by (simp only: p snd_conv)
  qed
  have "l w2 = l w1 \<or> (\<exists>K v runs v'. runtime = Some K \<and> k_ListProjectAgentRuns K projectID v = (Inr runs, v') \<and>
      l w2 = l w1 @ map (DiscardedTranscript \<circ> r_ID)
        (filter (\<lambda>run. r_Subject run \<in> TerminalSubjects epics \<and> \<not> isLiveAgentRunStatus (r_Status run)) runs))"
  proof (cases "\<exists>K f. runtime = Some K \<and> k_DiscardOutput K = Some f \<and> TerminalSubjects epics \<noteq> {}")
    case False
    with d show ?thesis by (auto simp: discardTranscripts_def split: option.splits)
  next
    case True
    then obtain K f where K: "runtime = Some K" "k_DiscardOutput K = Some f" "TerminalSubjects epics \<noteq> {}" by blast
    obtain a w3 where a: "k_ListProjectAgentRuns K projectID w1 = (a, w3)" by (metis surj_pair)
    have "silent l (k_ListProjectAgentRuns K projectID)" using l K(1) by (simp add: records_purges_def)
    from silentD [OF this a] have l3: "l w3 = l w1" .
    show ?thesis
    proof (cases a)
      case (Inl err)
      with d K a l3 show ?thesis by (simp add: discardTranscripts_def)
    next
      case (Inr runs)
      have "l (snd (f i v)) = l v @ [DiscardedTranscript i]" for i v
        using l K by (simp add: records_purges_def)
      from discard_finished_calls [of l, OF this, of "TerminalSubjects epics" runs "[]" w3] d K a Inr l3
      show ?thesis by (auto simp: discardTranscripts_def split: prod.splits)
    qed
  qed
  then show ?thesis
  proof (elim disjE)
    assume "l w2 = l w1"
    with l1 w' show ?thesis by (intro exI [of _ "[]"]) simp
  next
    assume "\<exists>K v runs v'. runtime = Some K \<and> k_ListProjectAgentRuns K projectID v = (Inr runs, v') \<and>
      l w2 = l w1 @ map (DiscardedTranscript \<circ> r_ID)
        (filter (\<lambda>run. r_Subject run \<in> TerminalSubjects epics \<and> \<not> isLiveAgentRunStatus (r_Status run)) runs)"
    then obtain K v runs v' where k: "runtime = Some K" "k_ListProjectAgentRuns K projectID v = (Inr runs, v')"
      "l w2 = l w1 @ map (DiscardedTranscript \<circ> r_ID)
        (filter (\<lambda>run. r_Subject run \<in> TerminalSubjects epics \<and> \<not> isLiveAgentRunStatus (r_Status run)) runs)" by blast
    then show ?thesis
      unfolding w' k(3) l1 append_assoc by blast
  qed
qed

lemma purge_spares_rounds_in_flight_witness:
  "\<exists>discarded. w_ext (snd (PurgeFinishedWork_Handle
      (Some (\<lambda>i w. (None, w\<lparr>w_ext := w_ext w @ [PurgedWorkspace i]\<rparr>))) None None 1
      [example_epic\<lparr>e_State := EpicStateClosed\<rparr>, example_epic\<lparr>e_ID := ''E2'', e_State := EpicStateDone\<rparr>] {''E2''}
      \<lparr>w_supervisor = NewRunSupervisor, w_ext = []\<rparr>)) = [PurgedWorkspace ''E1''] @ discarded"
proof -
  let ?repos = "Some (\<lambda>i w. (None, w\<lparr>w_ext := w_ext w @ [PurgedWorkspace i]\<rparr>)) ::
    (string \<Rightarrow> purge_call list world \<Rightarrow> go_error option \<times> purge_call list world) option"
  have "records_purges w_ext ?repos None None" by (simp add: records_purges_def)
  from purge_spares_rounds_in_flight [OF this prod.collapse [symmetric], of 1
      "[example_epic\<lparr>e_State := EpicStateClosed\<rparr>, example_epic\<lparr>e_ID := ''E2'', e_State := EpicStateDone\<rparr>]" "{''E2''}"
      "\<lparr>w_supervisor = NewRunSupervisor, w_ext = []\<rparr>"]
  show ?thesis by (auto simp: roots_of_def example_epic_def)
qed

section \<open>What a cancel leaves\<close>

text \<open>A cancel that reports success was of a live run, and either reached the round of this process
  that executes it, which is marked as cancelled (and so ends as cancelled), without touching the
  record, or saved the record as cancelled because nothing here executes it: never both.
\<close>

theorem cancel_is_recorded_once:
  assumes run: "CancelAgentRun_Handle P runID w = ((True, None), w')"
  shows "\<exists>run w1. GetAgentRun P runID w = (Inr run, w1) \<and> isLiveAgentRunStatus (r_Status run) \<and>
    (if runID \<in> sv_cancels (w_supervisor w1)
     then w' = on_supervisor (\<lambda>s. snd (Cancel runID s)) w1 \<and> WasCancelled runID (w_supervisor w')
     else \<exists>now v. Now P w1 = (now, v) \<and> SaveAgentRun P (ended_at AgentRunEventCancel now run) v = (None, w'))"
proof -
  obtain r w1 where g: "GetAgentRun P runID w = (r, w1)" by (metis surj_pair)
  with run obtain run where r: "r = Inr run" and live: "isLiveAgentRunStatus (r_Status run)"
    by (cases r) (auto simp: CancelAgentRun_Handle_def split: if_splits)
  note R = run [unfolded CancelAgentRun_Handle_def g r prod.case sum.case]
  have w: "on_supervisor (\<lambda>_. w_supervisor w1) w1 = w1" by (simp add: on_supervisor_def)
  show ?thesis
  proof (cases "runID \<in> sv_cancels (w_supervisor w1)")
    case True
    with R live g r show ?thesis
      by (auto simp: Cancel_def Let_def on_supervisor_def WasCancelled_def split: if_splits)
  next
    case False
    obtain now v where n: "Now P w1 = (now, v)" by (metis surj_pair)
    have "AgentRun_Apply AgentRunEventCancel now run = (None, ended_at AgentRunEventCancel now run)"
      using live by (intro live_run_ends) auto
    with R False live n have "SaveAgentRun P (ended_at AgentRunEventCancel now run) v = (None, w')"
      by (auto simp: Cancel_def Let_def w split: if_splits prod.splits)
    with False g r live n show ?thesis by auto
  qed
qed

lemma cancel_is_recorded_once_witness:
  "\<exists>run w1. GetAgentRun (idle_round\<lparr>GetAgentRun := \<lambda>i. Pair (Inr example_run)\<rparr>) ''01J'' log_world = (Inr run, w1) \<and>
     isLiveAgentRunStatus (r_Status run)"
proof -
  let ?P = "idle_round\<lparr>GetAgentRun := \<lambda>i. Pair (Inr example_run)\<rparr> :: host_log round_ports"
  have "trim_space ''01J'' = ''01J''"
    by (intro trim_space_solid; simp add: byte_def is_space_def in_range_def)
  moreover have "AgentRun_Apply AgentRunEventCancel 0 example_run = (None, ended_at AgentRunEventCancel 0 example_run)"
    by (intro live_run_ends) (simp_all add: example_run_def isLiveAgentRunStatus_def)
  ultimately have "CancelAgentRun_Handle ?P ''01J'' log_world = ((True, None), log_world)"
    by (simp add: CancelAgentRun_Handle_def idle_round_def log_world_def NewRunSupervisor_def Cancel_def
        on_supervisor_def isLiveAgentRunStatus_def) (simp add: example_run_def)
  from cancel_is_recorded_once [OF this] show ?thesis by blast
qed

end
