(* ===== verification/Agent_Registry.thy ===== *)
theory Agent_Registry
  imports Agent_Rounds Tracker_Store
begin

text \<open>
  \<open>adapters/projectstore/registry_open.go\<close> and \<open>registry_records.go\<close>: the daemon's own database of
  sandboxes and runs. A table is a list of rows. \<open>Save\<close> of gorm writes over the row with the same
  primary key, setting a column named \<open>UpdatedAt\<close> to its own \<open>clock\<close>, and inserts the row as it is when
  there is none; the unique index on the names of sandboxes refuses a second row with a name. Rows
  that \<open>ORDER BY\<close> does not tell apart keep the order of the table. \<open>fault\<close> is the error of a
  statement for reasons outside the program.
\<close>

section \<open>Rows\<close>

record sandboxRecord =
  sb_ID :: string
  sb_ProjectID :: nat
  sb_Name :: string
  sb_Role :: string
  sb_SubjectKind :: string
  sb_SubjectID :: string
  sb_Status :: string
  sb_CreatedAt :: int
  sb_UpdatedAt :: int

record agentRunRecord =
  ar_ID :: string
  ar_ProjectID :: nat
  ar_SandboxID :: string
  ar_Role :: string
  ar_SubjectKind :: string
  ar_SubjectID :: string
  ar_Engine :: string
  ar_Agent :: string
  ar_Variant :: string
  ar_SessionMode :: string
  ar_Status :: string
  ar_Round :: int
  ar_Error :: string
  ar_TokensIn :: int
  ar_TokensOut :: int
  ar_CostUSD :: float64
  ar_CreatedAt :: int
  ar_StartedAt :: "int option"
  ar_FinishedAt :: "int option"

text \<open>
  A conversion such as \<open>agent.AgentRole(record.Role)\<close>: the constant with that value, or a string that
  is none.
\<close>

definition reads_as :: "('a \<Rightarrow> string) \<Rightarrow> 'a list \<Rightarrow> (string \<Rightarrow> 'a) \<Rightarrow> string \<Rightarrow> 'a" where
  "reads_as print known other s = (case find (\<lambda>a. print a = s) known of Some a \<Rightarrow> a | None \<Rightarrow> other s)"

definition AgentRole_of :: "string \<Rightarrow> AgentRole" where
  "AgentRole_of = reads_as agent_role_string Roles AgentRoleOther"

definition AgentSubjectKind_of :: "string \<Rightarrow> AgentSubjectKind" where
  "AgentSubjectKind_of = reads_as subject_kind_string [AgentSubjectEpic, AgentSubjectIssue] AgentSubjectOther"

definition SandboxStatus_of :: "string \<Rightarrow> SandboxStatus" where
  "SandboxStatus_of = reads_as sandbox_status_string
     [SandboxStatusAbsent, SandboxStatusCreating, SandboxStatusStopped, SandboxStatusStarting,
      SandboxStatusRunning, SandboxStatusStopping, SandboxStatusBroken, SandboxStatusDeleting] SandboxStatusOther"

definition AgentRunStatus_of :: "string \<Rightarrow> AgentRunStatus" where
  "AgentRunStatus_of = reads_as agent_run_status_string
     [AgentRunStatusQueued, AgentRunStatusAdmitted, AgentRunStatusRunning, AgentRunStatusSucceeded,
      AgentRunStatusFailed, AgentRunStatusCancelled, AgentRunStatusStalled, AgentRunStatusHostFailed]
     AgentRunStatusOther"

fun agent_engine_string :: "AgentEngine \<Rightarrow> string" where
  "agent_engine_string AgentEngineOpenCode = ''opencode''"
| "agent_engine_string (AgentEngineOther s) = s"

definition AgentEngine_of :: "string \<Rightarrow> AgentEngine" where
  "AgentEngine_of = reads_as agent_engine_string [AgentEngineOpenCode] AgentEngineOther"

fun session_mode_string :: "SessionMode \<Rightarrow> string" where
  "session_mode_string SessionModeFresh = ''fresh''"
| "session_mode_string SessionModeContinue = ''continue''"
| "session_mode_string (SessionModeOther s) = s"

definition SessionMode_of :: "string \<Rightarrow> SessionMode" where
  "SessionMode_of = reads_as session_mode_string [SessionModeFresh, SessionModeContinue] SessionModeOther"

definition sandboxToRecord :: "Sandbox \<Rightarrow> sandboxRecord" where
  "sandboxToRecord v =
     \<lparr>sb_ID = v_ID v, sb_ProjectID = v_ProjectID v, sb_Name = v_Name v, sb_Role = agent_role_string (v_Role v),
      sb_SubjectKind = subject_kind_string (s_Kind (v_Subject v)), sb_SubjectID = s_ID (v_Subject v),
      sb_Status = sandbox_status_string (v_Status v), sb_CreatedAt = v_CreatedAt v, sb_UpdatedAt = v_UpdatedAt v\<rparr>"

definition recordToSandbox :: "sandboxRecord \<Rightarrow> Sandbox" where
  "recordToSandbox r =
     \<lparr>v_ID = sb_ID r, v_ProjectID = sb_ProjectID r, v_Name = sb_Name r, v_Role = AgentRole_of (sb_Role r),
      v_Subject = \<lparr>s_Kind = AgentSubjectKind_of (sb_SubjectKind r), s_ID = sb_SubjectID r\<rparr>,
      v_Status = SandboxStatus_of (sb_Status r), v_CreatedAt = sb_CreatedAt r, v_UpdatedAt = sb_UpdatedAt r\<rparr>"

definition runToRecord :: "AgentRun \<Rightarrow> agentRunRecord" where
  "runToRecord run =
     \<lparr>ar_ID = r_ID run, ar_ProjectID = r_ProjectID run, ar_SandboxID = r_SandboxID run,
      ar_Role = agent_role_string (r_Role run), ar_SubjectKind = subject_kind_string (s_Kind (r_Subject run)),
      ar_SubjectID = s_ID (r_Subject run), ar_Engine = agent_engine_string (r_Engine run), ar_Agent = r_Agent run,
      ar_Variant = r_Variant run, ar_SessionMode = session_mode_string (r_SessionMode run),
      ar_Status = agent_run_status_string (r_Status run), ar_Round = r_Round run, ar_Error = r_Error run,
      ar_TokensIn = u_TokensIn (r_Usage run), ar_TokensOut = u_TokensOut (r_Usage run),
      ar_CostUSD = u_CostUSD (r_Usage run), ar_CreatedAt = r_CreatedAt run, ar_StartedAt = r_StartedAt run,
      ar_FinishedAt = r_FinishedAt run\<rparr>"

definition recordToRun :: "agentRunRecord \<Rightarrow> AgentRun" where
  "recordToRun r =
     \<lparr>r_ID = ar_ID r, r_ProjectID = ar_ProjectID r, r_SandboxID = ar_SandboxID r, r_Role = AgentRole_of (ar_Role r),
      r_Subject = \<lparr>s_Kind = AgentSubjectKind_of (ar_SubjectKind r), s_ID = ar_SubjectID r\<rparr>,
      r_Engine = AgentEngine_of (ar_Engine r), r_Agent = ar_Agent r, r_Variant = ar_Variant r,
      r_SessionMode = SessionMode_of (ar_SessionMode r), r_Status = AgentRunStatus_of (ar_Status r),
      r_Round = ar_Round r, r_Error = ar_Error r,
      r_Usage = \<lparr>u_TokensIn = ar_TokensIn r, u_TokensOut = ar_TokensOut r, u_CostUSD = ar_CostUSD r\<rparr>,
      r_CreatedAt = ar_CreatedAt r, r_StartedAt = ar_StartedAt r, r_FinishedAt = ar_FinishedAt r\<rparr>"

section \<open>Operations on sandboxes and runs\<close>

record Registry =
  g_sandboxes :: "sandboxRecord list"
  g_runs :: "agentRunRecord list"

definition save_row :: "('r \<Rightarrow> string) \<Rightarrow> 'r \<Rightarrow> 'r list \<Rightarrow> 'r list" where
  "save_row key row rows =
     (if key row \<in> key ` set rows then map (\<lambda>r. if key r = key row then row else r) rows else rows @ [row])"

definition written_row :: "int \<Rightarrow> sandboxRecord \<Rightarrow> sandboxRecord list \<Rightarrow> sandboxRecord" where
  "written_row clock row rows = (if sb_ID row \<in> sb_ID ` set rows then row\<lparr>sb_UpdatedAt := clock\<rparr> else row)"

definition save_sandbox_row :: "int \<Rightarrow> sandboxRecord \<Rightarrow> Registry update" where
  "save_sandbox_row clock row g =
     (if \<exists>r \<in> set (g_sandboxes g). sb_Name r = sb_Name row \<and> sb_ID r \<noteq> sb_ID row
      then (Some (unique_error ''sandbox_records.name''), g)
      else (None, g\<lparr>g_sandboxes := save_row sb_ID (written_row clock row (g_sandboxes g)) (g_sandboxes g)\<rparr>))"

definition save_run_row :: "agentRunRecord \<Rightarrow> Registry update" where
  "save_run_row row g = (None, g\<lparr>g_runs := save_row ar_ID row (g_runs g)\<rparr>)"

definition Registry_SaveSandbox :: "go_error option \<Rightarrow> int \<Rightarrow> Sandbox \<Rightarrow> Registry update" where
  "Registry_SaveSandbox fault clock sandbox g =
     (case Sandbox_Validate sandbox of
        Some err \<Rightarrow> (Some err, g)
      | None \<Rightarrow> transaction fault (save_sandbox_row clock (sandboxToRecord sandbox)) g)"

definition Registry_ListSandboxes :: "go_error option \<Rightarrow> nat \<Rightarrow> Registry \<Rightarrow> go_error + Sandbox list" where
  "Registry_ListSandboxes fault projectID g =
     (case fault of
        Some err \<Rightarrow> Inl err
      | None \<Rightarrow> Inr (map recordToSandbox (sort_key sb_Name
                 (filter (\<lambda>r. sb_ProjectID r = projectID) (g_sandboxes g)))))"

text \<open>Two statements, each with its own fault: the first is not undone when the second fails.\<close>

definition Registry_DeleteProjectRuntime :: "go_error option \<times> go_error option \<Rightarrow> nat \<Rightarrow> Registry update" where
  "Registry_DeleteProjectRuntime faults projectID =
     then_do
       (transaction (fst faults) (\<lambda>g. (None, g\<lparr>g_sandboxes := filter (\<lambda>r. sb_ProjectID r \<noteq> projectID) (g_sandboxes g)\<rparr>)))
       (transaction (snd faults) (\<lambda>g. (None, g\<lparr>g_runs := filter (\<lambda>r. ar_ProjectID r \<noteq> projectID) (g_runs g)\<rparr>)))"

definition sandbox_row_of :: "nat \<Rightarrow> AgentSubject \<Rightarrow> sandboxRecord \<Rightarrow> bool" where
  "sandbox_row_of projectID subject r \<longleftrightarrow> sb_ProjectID r = projectID \<and>
     sb_SubjectKind r = subject_kind_string (s_Kind subject) \<and> sb_SubjectID r = s_ID subject"

definition run_row_of :: "nat \<Rightarrow> AgentSubject \<Rightarrow> agentRunRecord \<Rightarrow> bool" where
  "run_row_of projectID subject r \<longleftrightarrow> ar_ProjectID r = projectID \<and>
     ar_SubjectKind r = subject_kind_string (s_Kind subject) \<and> ar_SubjectID r = s_ID subject"

definition Registry_DeleteSubjectRuntime :: "go_error option \<Rightarrow> nat \<Rightarrow> AgentSubject \<Rightarrow> Registry update" where
  "Registry_DeleteSubjectRuntime fault projectID subject g =
     (case AgentSubject_Validate subject of
        Some err \<Rightarrow> (Some err, g)
      | None \<Rightarrow> transaction fault
          (then_do
             (\<lambda>g. (None, g\<lparr>g_sandboxes := filter (Not \<circ> sandbox_row_of projectID subject) (g_sandboxes g)\<rparr>))
             (\<lambda>g. (None, g\<lparr>g_runs := filter (Not \<circ> run_row_of projectID subject) (g_runs g)\<rparr>))) g)"

definition Registry_SaveAgentRun :: "go_error option \<Rightarrow> AgentRun \<Rightarrow> Registry update" where
  "Registry_SaveAgentRun fault run g =
     (case AgentRun_Validate run of
        Some err \<Rightarrow> (Some err, g)
      | None \<Rightarrow> transaction fault (save_run_row (runToRecord run)) g)"

definition Registry_ListAgentRuns ::
    "go_error option \<Rightarrow> nat \<Rightarrow> AgentSubject \<Rightarrow> Registry \<Rightarrow> go_error + AgentRun list" where
  "Registry_ListAgentRuns fault projectID subject g =
     (case AgentSubject_Validate subject of
        Some err \<Rightarrow> Inl err
      | None \<Rightarrow>
          (case fault of
             Some err \<Rightarrow> Inl err
           | None \<Rightarrow> Inr (map recordToRun (sort_key (\<lambda>r. - ar_Round r)
                      (filter (run_row_of projectID subject) (g_runs g))))))"

definition Registry_ListProjectAgentRuns ::
    "go_error option \<Rightarrow> nat \<Rightarrow> Registry \<Rightarrow> go_error + AgentRun list" where
  "Registry_ListProjectAgentRuns fault projectID g =
     (case fault of
        Some err \<Rightarrow> Inl err
      | None \<Rightarrow> Inr (map recordToRun (sort_key (\<lambda>r. - ar_CreatedAt r)
                 (filter (\<lambda>r. ar_ProjectID r = projectID) (g_runs g)))))"

definition Registry_GetAgentRun :: "go_error option \<Rightarrow> string \<Rightarrow> Registry \<Rightarrow> go_error + AgentRun" where
  "Registry_GetAgentRun fault runID g =
     (case fault of
        Some err \<Rightarrow> Inl err
      | None \<Rightarrow>
          (case find (\<lambda>r. ar_ID r = runID) (g_runs g) of
             None \<Rightarrow> Inl (Sentinel ''record not found'')
           | Some r \<Rightarrow> Inr (recordToRun r)))"

section \<open>Rows keep what was saved\<close>

lemma reads_as_known:
  assumes "a \<in> set known" "inj_on print (set known)"
  shows "reads_as print known other (print a) = a"
proof -
  have "find (\<lambda>b. print b = print a) known = Some a"
    using assms by (induction known) auto
  then show ?thesis by (simp add: reads_as_def)
qed

lemma reads_back [simp]:
  "IsAgentRole role \<Longrightarrow> AgentRole_of (agent_role_string role) = role"
  "isSandboxStatus s \<Longrightarrow> SandboxStatus_of (sandbox_status_string s) = s"
  "isAgentRunStatus t \<Longrightarrow> AgentRunStatus_of (agent_run_status_string t) = t"
  "AgentEngine_of ''opencode'' = AgentEngineOpenCode"
  "SessionMode_of ''fresh'' = SessionModeFresh" "SessionMode_of ''continue'' = SessionModeContinue"
  "AgentSubjectKind_of ''epic'' = AgentSubjectEpic" "AgentSubjectKind_of ''issue'' = AgentSubjectIssue"
proof -
  show "IsAgentRole role \<Longrightarrow> AgentRole_of (agent_role_string role) = role"
    by (cases role) (simp_all add: AgentRole_of_def reads_as_def Roles_def IsAgentRole_def)
  show "isSandboxStatus s \<Longrightarrow> SandboxStatus_of (sandbox_status_string s) = s"
    by (cases s) (simp_all add: SandboxStatus_of_def reads_as_def)
  show "isAgentRunStatus t \<Longrightarrow> AgentRunStatus_of (agent_run_status_string t) = t"
    by (cases t) (simp_all add: AgentRunStatus_of_def reads_as_def)
qed (simp_all add: AgentEngine_of_def SessionMode_of_def AgentSubjectKind_of_def reads_as_def)

lemma sandbox_row_reads_back: "Sandbox_Validate v = None \<Longrightarrow> recordToSandbox (sandboxToRecord v) = v"
  by (auto simp: recordToSandbox_def sandboxToRecord_def Sandbox_Validate_def AgentSubject_Validate_def
      split: if_splits)

lemma run_row_reads_back: "AgentRun_Validate run = None \<Longrightarrow> recordToRun (runToRecord run) = run"
  by (cases run; cases "r_Subject run"; cases "r_Usage run") (auto simp: recordToRun_def runToRecord_def AgentRun_Validate_def AgentSubject_Validate_def split: if_splits)

section \<open>The contract of the registry\<close>

text \<open>
  What the use cases count on, over any state: the sandboxes and the runs are maps from their IDs, a
  save that succeeds sets one entry and a deletion drops those of a subject, a call that fails changes
  nothing, and a list holds each entry once.
\<close>

locale agent_registry =
  fixes save_sandbox :: "go_error option \<Rightarrow> int \<Rightarrow> Sandbox \<Rightarrow> 's update"
    and save_run :: "go_error option \<Rightarrow> AgentRun \<Rightarrow> 's update"
    and delete_subject :: "go_error option \<Rightarrow> nat \<Rightarrow> AgentSubject \<Rightarrow> 's update"
    and list_sandboxes :: "go_error option \<Rightarrow> nat \<Rightarrow> 's \<Rightarrow> go_error + Sandbox list"
    and list_runs :: "go_error option \<Rightarrow> nat \<Rightarrow> AgentSubject \<Rightarrow> 's \<Rightarrow> go_error + AgentRun list"
    and get_run :: "go_error option \<Rightarrow> string \<Rightarrow> 's \<Rightarrow> go_error + AgentRun"
    and sandboxes :: "'s \<Rightarrow> string \<rightharpoonup> Sandbox"
    and runs :: "'s \<Rightarrow> string \<rightharpoonup> AgentRun"
    and sound :: "'s \<Rightarrow> bool"
  assumes save_sandbox_taken: "sound g \<Longrightarrow> save_sandbox f t v g = (None, g') \<Longrightarrow> sound g' \<and>
      sandboxes g' = (sandboxes g)(v_ID v \<mapsto> if sandboxes g (v_ID v) = None then v else v\<lparr>v_UpdatedAt := t\<rparr>) \<and>
      runs g' = runs g"
    and save_run_taken: "sound g \<Longrightarrow> save_run f r g = (None, g') \<Longrightarrow>
      sound g' \<and> sandboxes g' = sandboxes g \<and> runs g' = (runs g)(r_ID r \<mapsto> r)"
    and delete_subject_taken: "sound g \<Longrightarrow> delete_subject f p subject g = (None, g') \<Longrightarrow> sound g' \<and>
      sandboxes g' = (\<lambda>i. if \<exists>v. sandboxes g i = Some v \<and> v_ProjectID v = p \<and> v_Subject v = subject
        then None else sandboxes g i) \<and>
      runs g' = (\<lambda>i. if \<exists>r. runs g i = Some r \<and> r_ProjectID r = p \<and> r_Subject r = subject
        then None else runs g i)"
    and refused: "save_sandbox f t v g = (Some err, g') \<Longrightarrow> g' = g"
      "save_run f r g = (Some err, g') \<Longrightarrow> g' = g"
      "delete_subject f p subject g = (Some err, g') \<Longrightarrow> g' = g"
    and sandboxes_listed: "sound g \<Longrightarrow> list_sandboxes f p g = Inr vs \<Longrightarrow>
      distinct (map v_ID vs) \<and> distinct (map v_Name vs) \<and> set vs = {v. sandboxes g (v_ID v) = Some v \<and> v_ProjectID v = p}"
    and runs_listed: "sound g \<Longrightarrow> list_runs f p subject g = Inr rs \<Longrightarrow>
      distinct (map r_ID rs) \<and> sorted_wrt (\<lambda>a b. r_Round a \<ge> r_Round b) rs \<and>
      set rs = {r. runs g (r_ID r) = Some r \<and> r_ProjectID r = p \<and> r_Subject r = subject}"
    and run_got: "sound g \<Longrightarrow> get_run f i g = Inr r \<Longrightarrow> runs g i = Some r"
begin

text \<open>The number of the next round is above every round that counts.\<close>

lemma next_round_is_new:
  assumes "sound g" "list_runs f p subject g = Inr rs" "runs g (r_ID r) = Some r" "r_ProjectID r = p"
    "r_Subject r = subject" "CountsTowardRoundLimit r"
  shows "r_Round r < nextRound rs"
proof -
  have "r \<in> set rs" using runs_listed [OF assms(1,2)] assms(3-5) by blast
  with assms(6) have "r \<in> set (filter CountsTowardRoundLimit rs)" by simp
  then show ?thesis
    unfolding nextRound_def next_round_loop_spec using fold_max_bounds [of 1] by blast
qed

text \<open>Once the runtime of a subject is deleted, its next round is the first again and starts a session of its own.\<close>

lemma deleted_subject_restarts:
  assumes "sound g" "delete_subject f p subject g = (None, g')" "list_runs f' p subject g' = Inr rs"
  shows "rs = [] \<and> nextRound rs = 1 \<and> SessionModeAfter engine role rs = SessionModeFresh"
proof -
  note d = delete_subject_taken [OF assms(1,2)]
  have "set rs = {}"
    using runs_listed [OF d [THEN conjunct1] assms(3)] d by auto
  then show ?thesis by (simp add: nextRound_def SessionModeAfter_def lastRoundSucceeded_def sessionContinuationEnabled_def)
qed

lemma deletion_spares_others:
  assumes "sound g" "delete_subject f p subject g = (None, g')" "p' \<noteq> p \<or> subject' \<noteq> subject"
    and "list_runs f1 p' subject' g = Inr rs" "list_runs f2 p' subject' g' = Inr rs'"
  shows "set rs' = set rs"
proof -
  note d = delete_subject_taken [OF assms(1,2)]
  show ?thesis
    using runs_listed [OF assms(1,4)] runs_listed [OF d [THEN conjunct1] assms(5)] d assms(3) by auto
qed

end

section \<open>The rows keep the contract\<close>

text \<open>
  A sound registry: primary keys and names are unique and every row is one a save has written.
\<close>

definition registry_ok :: "Registry \<Rightarrow> bool" where
  "registry_ok g \<longleftrightarrow>
     distinct (map sb_ID (g_sandboxes g)) \<and> distinct (map sb_Name (g_sandboxes g)) \<and>
     distinct (map ar_ID (g_runs g)) \<and>
     (\<forall>r \<in> set (g_sandboxes g). \<exists>v. Sandbox_Validate v = None \<and> r = sandboxToRecord v) \<and>
     (\<forall>r \<in> set (g_runs g). \<exists>run. AgentRun_Validate run = None \<and> r = runToRecord run)"

definition registered_sandboxes :: "Registry \<Rightarrow> string \<rightharpoonup> Sandbox" where
  "registered_sandboxes g i = map_option recordToSandbox (find (\<lambda>r. sb_ID r = i) (g_sandboxes g))"

definition registered_runs :: "Registry \<Rightarrow> string \<rightharpoonup> AgentRun" where
  "registered_runs g i = map_option recordToRun (find (\<lambda>r. ar_ID r = i) (g_runs g))"

lemma find_unique:
  "distinct (map key rows) \<Longrightarrow> find (\<lambda>r. key r = i) rows = Some r \<longleftrightarrow> r \<in> set rows \<and> key r = i"
  by (induction rows) auto

lemma find_none: "find (\<lambda>r. key r = i) rows = None \<longleftrightarrow> i \<notin> key ` set rows"
  by (auto simp: find_None_iff)

lemma find_over:
  "find (\<lambda>r. key r = i) (map (\<lambda>r. if key r = key row then row else r) rows) =
     (if i = key row \<and> i \<in> key ` set rows then Some row else find (\<lambda>r. key r = i) rows)"
  by (induction rows) auto

lemma find_snoc:
  "find P (rows @ [row]) = (case find P rows of None \<Rightarrow> if P row then Some row else None | Some r \<Rightarrow> Some r)"
  by (induction rows) auto

lemma find_save_row:
  "find (\<lambda>r. key r = i) (save_row key row rows) = (if i = key row then Some row else find (\<lambda>r. key r = i) rows)"
proof (cases "key row \<in> key ` set rows")
  case True
  then show ?thesis by (simp add: save_row_def find_over)
next
  case False
  then have "find (\<lambda>r. key r = key row) rows = None" by (simp add: find_none)
  with False show ?thesis by (simp add: save_row_def find_snoc split: option.split)
qed

lemma save_row_keys:
  "distinct (map key rows) \<Longrightarrow> distinct (map key (save_row key row rows))"
  "set (save_row key row rows) \<subseteq> insert row (set rows)"
  "r \<in> set (save_row key row rows) \<Longrightarrow> r = row \<or> r \<in> set rows \<and> key r \<noteq> key row"
proof -
  have "map key (map (\<lambda>r. if key r = key row then row else r) rows) = map key rows"
    by simp
  then show "distinct (map key rows) \<Longrightarrow> distinct (map key (save_row key row rows))"
    by (auto simp: save_row_def simp del: map_map)
  show "r \<in> set (save_row key row rows) \<Longrightarrow> r = row \<or> r \<in> set rows \<and> key r \<noteq> key row"
    by (cases "key row \<in> key ` set rows") (auto simp: save_row_def image_iff split: if_splits)
qed (auto simp: save_row_def split: if_splits)

lemma save_row_names:
  assumes "distinct (map key rows)" "distinct (map name rows)"
    and free: "\<forall>r \<in> set rows. name r = name row \<longrightarrow> key r = key row"
  shows "distinct (map name (save_row key row rows))"
proof (cases "key row \<in> key ` set rows")
  case False
  then have "\<forall>r \<in> set rows. key r \<noteq> key row" by (metis image_eqI)
  with free have "name row \<notin> name ` set rows" by (auto simp: image_iff)
  with False assms(2) show ?thesis by (simp add: save_row_def)
next
  case True
  have "inj_on (\<lambda>r. name (if key r = key row then row else r)) (set rows)"
    using assms by (intro inj_onI) (auto simp: distinct_map inj_on_def split: if_splits)
  with True assms(1) show ?thesis by (simp add: save_row_def distinct_map o_def)
qed

lemma find_filter_key:
  assumes "distinct (map key rows)"
  shows "find (\<lambda>r. key r = i) (filter P rows) =
    (case find (\<lambda>r. key r = i) rows of Some r \<Rightarrow> if P r then Some r else None | None \<Rightarrow> None)"
  using assms
proof (induction rows)
  case (Cons a rows)
  have "key a = i \<Longrightarrow> find (\<lambda>r. key r = i) rows = None"
    using Cons.prems unfolding find_none by auto
  with Cons show ?case by (auto split: option.splits)
qed simp

lemma registry_okD:
  assumes "registry_ok g"
  shows "distinct (map sb_ID (g_sandboxes g))" "distinct (map sb_Name (g_sandboxes g))" "distinct (map ar_ID (g_runs g))"
    "r \<in> set (g_sandboxes g) \<Longrightarrow> sandboxToRecord (recordToSandbox r) = r \<and> Sandbox_Validate (recordToSandbox r) = None"
    "q \<in> set (g_runs g) \<Longrightarrow> runToRecord (recordToRun q) = q \<and> AgentRun_Validate (recordToRun q) = None"
  using assms sandbox_row_reads_back run_row_reads_back unfolding registry_ok_def by fastforce+

lemma record_fields [simp]:
  "v_ID (recordToSandbox r) = sb_ID r" "v_Name (recordToSandbox r) = sb_Name r" "v_ProjectID (recordToSandbox r) = sb_ProjectID r"
  "sb_ID (sandboxToRecord v) = v_ID v" "sb_Name (sandboxToRecord v) = v_Name v" "sb_ProjectID (sandboxToRecord v) = v_ProjectID v"
  "r_ID (recordToRun q) = ar_ID q" "r_ProjectID (recordToRun q) = ar_ProjectID q" "r_Round (recordToRun q) = ar_Round q"
  "ar_ID (runToRecord run) = r_ID run" "ar_ProjectID (runToRecord run) = r_ProjectID run" "ar_Round (runToRecord run) = r_Round run"
  by (simp_all add: recordToSandbox_def sandboxToRecord_def recordToRun_def runToRecord_def)

text \<open>What a list of rows says about the maps.\<close>

lemma registered_sandbox_iff:
  assumes "registry_ok g"
  shows "registered_sandboxes g i = Some v \<longleftrightarrow> (\<exists>r \<in> set (g_sandboxes g). sb_ID r = i \<and> recordToSandbox r = v)"
  unfolding registered_sandboxes_def map_option_eq_Some find_unique [OF registry_okD(1) [OF assms]] by blast

lemma registered_run_iff:
  assumes "registry_ok g"
  shows "registered_runs g i = Some run \<longleftrightarrow> (\<exists>r \<in> set (g_runs g). ar_ID r = i \<and> recordToRun r = run)"
  unfolding registered_runs_def map_option_eq_Some find_unique [OF registry_okD(3) [OF assms]] by blast

lemma row_of_subject:
  assumes "AgentSubject_Validate subject = None"
  shows "Sandbox_Validate v = None \<Longrightarrow> sandbox_row_of p subject (sandboxToRecord v) \<longleftrightarrow> v_ProjectID v = p \<and> v_Subject v = subject"
    "AgentRun_Validate run = None \<Longrightarrow> run_row_of p subject (runToRecord run) \<longleftrightarrow> r_ProjectID run = p \<and> r_Subject run = subject"
proof -
  have kind: "subject_kind_string (s_Kind a) = subject_kind_string (s_Kind b) \<and> s_ID a = s_ID b \<longleftrightarrow> a = b"
    if "AgentSubject_Validate a = None" "AgentSubject_Validate b = None" for a b
    using that by (cases a; cases b) (auto simp: AgentSubject_Validate_def split: if_splits)
  show "Sandbox_Validate v = None \<Longrightarrow> sandbox_row_of p subject (sandboxToRecord v) \<longleftrightarrow> v_ProjectID v = p \<and> v_Subject v = subject"
    using kind [OF _ assms, of "v_Subject v"]
    by (simp add: sandbox_row_of_def sandboxToRecord_def Sandbox_Validate_def split: if_splits option.splits)
  show "AgentRun_Validate run = None \<Longrightarrow> run_row_of p subject (runToRecord run) \<longleftrightarrow> r_ProjectID run = p \<and> r_Subject run = subject"
    using kind [OF _ assms, of "r_Subject run"]
    by (simp add: run_row_of_def runToRecord_def AgentRun_Validate_def split: if_splits option.splits)
qed


lemma unregistered:
  "registered_sandboxes g i = None \<longleftrightarrow> i \<notin> sb_ID ` set (g_sandboxes g)"
  "registered_runs g i = None \<longleftrightarrow> i \<notin> ar_ID ` set (g_runs g)"
  by (simp_all add: registered_sandboxes_def registered_runs_def find_none)

lemma save_sandbox_registers:
  assumes ok: "registry_ok g" and saved: "Registry_SaveSandbox f t v g = (None, g')"
  shows "registry_ok g'" "g_runs g' = g_runs g"
    "registered_sandboxes g' = (registered_sandboxes g)
       (v_ID v \<mapsto> if registered_sandboxes g (v_ID v) = None then v else v\<lparr>v_UpdatedAt := t\<rparr>)"
proof -
  define w where "w = (if registered_sandboxes g (v_ID v) = None then v else v\<lparr>v_UpdatedAt := t\<rparr>)"
  have valid: "Sandbox_Validate v = None"
    using saved by (auto simp: Registry_SaveSandbox_def split: option.splits)
  have w: "v_ID w = v_ID v" "v_Name w = v_Name v" "Sandbox_Validate w = None"
    using valid by (simp_all add: w_def Sandbox_Validate_def split: if_splits)
  have row: "written_row t (sandboxToRecord v) (g_sandboxes g) = sandboxToRecord w"
    by (auto simp: written_row_def w_def unregistered sandboxToRecord_def)
  have free: "\<forall>r \<in> set (g_sandboxes g). sb_Name r = sb_Name (sandboxToRecord w) \<longrightarrow> sb_ID r = sb_ID (sandboxToRecord w)"
    and g': "g' = g\<lparr>g_sandboxes := save_row sb_ID (sandboxToRecord w) (g_sandboxes g)\<rparr>"
    using saved valid row w
    by (auto simp: Registry_SaveSandbox_def transaction_None_iff save_sandbox_row_def split: if_splits)
  show "g_runs g' = g_runs g" using g' by simp
  have "\<exists>v. Sandbox_Validate v = None \<and> r = sandboxToRecord v" if "r \<in> set (g_sandboxes g')" for r
    using that save_row_keys(2) [of sb_ID "sandboxToRecord w" "g_sandboxes g"] ok w(3)
    unfolding g' registry_ok_def by auto
  then show "registry_ok g'"
    using ok save_row_keys(1) [OF registry_okD(1) [OF ok], of "sandboxToRecord w"]
      save_row_names [OF registry_okD(1,2) [OF ok] free]
    unfolding registry_ok_def g' by simp
  show "registered_sandboxes g' = (registered_sandboxes g)(v_ID v \<mapsto> w)"
    using w by (auto simp: registered_sandboxes_def g' find_save_row fun_eq_iff sandbox_row_reads_back)
qed

lemma save_run_registers:
  assumes ok: "registry_ok g" and saved: "Registry_SaveAgentRun f run g = (None, g')"
  shows "registry_ok g'" "g_sandboxes g' = g_sandboxes g"
    "registered_runs g' = (registered_runs g)(r_ID run \<mapsto> run)"
proof -
  have valid: "AgentRun_Validate run = None"
    and g': "g' = g\<lparr>g_runs := save_row ar_ID (runToRecord run) (g_runs g)\<rparr>"
    using saved by (auto simp: Registry_SaveAgentRun_def transaction_None_iff save_run_row_def split: option.splits)
  show "g_sandboxes g' = g_sandboxes g" using g' by simp
  have "\<exists>run. AgentRun_Validate run = None \<and> r = runToRecord run" if "r \<in> set (g_runs g')" for r
    using that save_row_keys(2) [of ar_ID "runToRecord run" "g_runs g"] ok valid
    unfolding g' registry_ok_def by auto
  then show "registry_ok g'"
    using ok save_row_keys(1) [OF registry_okD(3) [OF ok], of "runToRecord run"]
    unfolding registry_ok_def g' by simp
  show "registered_runs g' = (registered_runs g)(r_ID run \<mapsto> run)"
    using valid by (auto simp: registered_runs_def g' find_save_row fun_eq_iff run_row_reads_back)
qed

lemma delete_subject_registers:
  assumes ok: "registry_ok g" and deleted: "Registry_DeleteSubjectRuntime f p subject g = (None, g')"
  shows "registry_ok g'"
    "registered_sandboxes g' = (\<lambda>i. if \<exists>v. registered_sandboxes g i = Some v \<and> v_ProjectID v = p \<and> v_Subject v = subject
       then None else registered_sandboxes g i)"
    "registered_runs g' = (\<lambda>i. if \<exists>r. registered_runs g i = Some r \<and> r_ProjectID r = p \<and> r_Subject r = subject
       then None else registered_runs g i)"
proof -
  have valid: "AgentSubject_Validate subject = None"
    and g': "g' = g\<lparr>g_sandboxes := filter (Not \<circ> sandbox_row_of p subject) (g_sandboxes g),
      g_runs := filter (Not \<circ> run_row_of p subject) (g_runs g)\<rparr>"
    using deleted by (auto simp: Registry_DeleteSubjectRuntime_def transaction_None_iff then_do_None_iff split: option.splits)
  show "registry_ok g'"
    using ok unfolding registry_ok_def g' by (auto simp: distinct_map_filter)
  have sandbox: "sandbox_row_of p subject r \<longleftrightarrow> sb_ProjectID r = p \<and> v_Subject (recordToSandbox r) = subject"
    if "r \<in> set (g_sandboxes g)" for r
    using row_of_subject(1) [OF valid, of "recordToSandbox r" p] registry_okD(4) [OF ok that] by simp
  have run: "run_row_of p subject r \<longleftrightarrow> ar_ProjectID r = p \<and> r_Subject (recordToRun r) = subject"
    if "r \<in> set (g_runs g)" for r
    using row_of_subject(2) [OF valid, of "recordToRun r" p] registry_okD(5) [OF ok that] by simp
  show "registered_sandboxes g' = (\<lambda>i. if \<exists>v. registered_sandboxes g i = Some v \<and> v_ProjectID v = p \<and> v_Subject v = subject
       then None else registered_sandboxes g i)"
  proof
    fix i
    show "registered_sandboxes g' i = (if \<exists>v. registered_sandboxes g i = Some v \<and> v_ProjectID v = p \<and> v_Subject v = subject
       then None else registered_sandboxes g i)"
    proof (cases "find (\<lambda>r. sb_ID r = i) (g_sandboxes g)")
      case (Some r)
      then show ?thesis
        using sandbox [of r] find_unique [OF registry_okD(1) [OF ok], of i r]
        by (simp add: registered_sandboxes_def g' find_filter_key [OF registry_okD(1) [OF ok]])
    qed (simp add: registered_sandboxes_def g' find_filter_key [OF registry_okD(1) [OF ok]])
  qed
  show "registered_runs g' = (\<lambda>i. if \<exists>r. registered_runs g i = Some r \<and> r_ProjectID r = p \<and> r_Subject r = subject
       then None else registered_runs g i)"
  proof
    fix i
    show "registered_runs g' i = (if \<exists>r. registered_runs g i = Some r \<and> r_ProjectID r = p \<and> r_Subject r = subject
       then None else registered_runs g i)"
    proof (cases "find (\<lambda>r. ar_ID r = i) (g_runs g)")
      case (Some r)
      then show ?thesis
        using run [of r] find_unique [OF registry_okD(3) [OF ok], of i r]
        by (simp add: registered_runs_def g' find_filter_key [OF registry_okD(3) [OF ok]])
    qed (simp add: registered_runs_def g' find_filter_key [OF registry_okD(3) [OF ok]])
  qed
qed

lemma listed_sandboxes:
  assumes ok: "registry_ok g" and listed: "Registry_ListSandboxes f p g = Inr vs"
  shows "distinct (map v_ID vs)" "distinct (map v_Name vs)"
    "set vs = {v. registered_sandboxes g (v_ID v) = Some v \<and> v_ProjectID v = p}"
proof -
  have vs: "vs = map recordToSandbox (sort_key sb_Name (filter (\<lambda>r. sb_ProjectID r = p) (g_sandboxes g)))"
    using listed by (simp add: Registry_ListSandboxes_def split: option.splits)
  have heads: "map v_ID vs = map sb_ID (sort_key sb_Name (filter (\<lambda>r. sb_ProjectID r = p) (g_sandboxes g)))"
      "map v_Name vs = map sb_Name (sort_key sb_Name (filter (\<lambda>r. sb_ProjectID r = p) (g_sandboxes g)))"
    by (simp_all add: vs)
  show "distinct (map v_ID vs)" "distinct (map v_Name vs)"
    unfolding heads using registry_okD(1,2) [OF ok] by (simp_all add: distinct_map inj_on_def)
  show "set vs = {v. registered_sandboxes g (v_ID v) = Some v \<and> v_ProjectID v = p}"
    unfolding vs registered_sandbox_iff [OF ok] by (auto simp: image_iff)
qed

lemma listed_runs:
  assumes ok: "registry_ok g" and listed: "Registry_ListAgentRuns f p subject g = Inr rs"
  shows "distinct (map r_ID rs)" "sorted_wrt (\<lambda>a b. r_Round a \<ge> r_Round b) rs"
    "set rs = {r. registered_runs g (r_ID r) = Some r \<and> r_ProjectID r = p \<and> r_Subject r = subject}"
proof -
  define rows where "rows = sort_key (\<lambda>r. - ar_Round r) (filter (run_row_of p subject) (g_runs g))"
  have valid: "AgentSubject_Validate subject = None" and rs: "rs = map recordToRun rows"
    using listed by (simp_all add: Registry_ListAgentRuns_def rows_def split: option.splits)
  have heads: "map r_ID rs = map ar_ID rows" by (simp add: rs)
  show "distinct (map r_ID rs)"
    unfolding heads using registry_okD(3) [OF ok] by (simp add: rows_def distinct_map inj_on_def)
  have "sorted (map (\<lambda>r. - ar_Round r) rows)" by (simp add: rows_def)
  then show "sorted_wrt (\<lambda>a b. r_Round a \<ge> r_Round b) rs"
    by (simp add: rs sorted_map sorted_wrt_map)
  have row: "run_row_of p subject r \<longleftrightarrow> ar_ProjectID r = p \<and> r_Subject (recordToRun r) = subject"
    if "r \<in> set (g_runs g)" for r
    using row_of_subject(2) [OF valid, of "recordToRun r" p] registry_okD(5) [OF ok that] by simp
  show "set rs = {r. registered_runs g (r_ID r) = Some r \<and> r_ProjectID r = p \<and> r_Subject r = subject}"
    unfolding rs registered_run_iff [OF ok] rows_def using row by (auto simp: image_iff)
qed

lemma GetAgentRun_reads:
  "Registry_GetAgentRun f i g =
     (case f of
        Some err \<Rightarrow> Inl err
      | None \<Rightarrow> (case registered_runs g i of None \<Rightarrow> Inl (Sentinel ''record not found'') | Some r \<Rightarrow> Inr r))"
  by (simp add: Registry_GetAgentRun_def registered_runs_def split: option.split)

lemma got_run: "Registry_GetAgentRun f i g = Inr r \<longleftrightarrow> f = None \<and> registered_runs g i = Some r"
  by (simp add: GetAgentRun_reads split: option.split)

interpretation registry: agent_registry Registry_SaveSandbox Registry_SaveAgentRun Registry_DeleteSubjectRuntime
  Registry_ListSandboxes Registry_ListAgentRuns Registry_GetAgentRun registered_sandboxes registered_runs registry_ok
proof unfold_locales
  show "Registry_SaveSandbox f t v g = (Some err, g') \<Longrightarrow> g' = g"
    "Registry_SaveAgentRun f r g = (Some err, g') \<Longrightarrow> g' = g"
    "Registry_DeleteSubjectRuntime f p subject g = (Some err, g') \<Longrightarrow> g' = g" for f t v r p subject g err g'
    by (auto simp: Registry_SaveSandbox_def Registry_SaveAgentRun_def Registry_DeleteSubjectRuntime_def transaction_def
        split: option.splits prod.splits)
  show "Registry_SaveAgentRun f r g = (None, g') \<Longrightarrow>
      registry_ok g' \<and> registered_sandboxes g' = registered_sandboxes g \<and> registered_runs g' = (registered_runs g)(r_ID r \<mapsto> r)"
    if "registry_ok g" for f r g g'
    using save_run_registers [OF that, of f r g'] by (auto simp: registered_sandboxes_def)
  show "Registry_SaveSandbox f t v g = (None, g') \<Longrightarrow> registry_ok g' \<and>
      registered_sandboxes g' = (registered_sandboxes g)
        (v_ID v \<mapsto> if registered_sandboxes g (v_ID v) = None then v else v\<lparr>v_UpdatedAt := t\<rparr>) \<and>
      registered_runs g' = registered_runs g"
    if "registry_ok g" for f t v g g'
    using save_sandbox_registers [OF that, of f t v g'] by (auto simp: registered_runs_def)
  show "Registry_DeleteSubjectRuntime f p subject g = (None, g') \<Longrightarrow> registry_ok g' \<and>
      registered_sandboxes g' = (\<lambda>i. if \<exists>v. registered_sandboxes g i = Some v \<and> v_ProjectID v = p \<and> v_Subject v = subject
        then None else registered_sandboxes g i) \<and>
      registered_runs g' = (\<lambda>i. if \<exists>r. registered_runs g i = Some r \<and> r_ProjectID r = p \<and> r_Subject r = subject
        then None else registered_runs g i)"
    if "registry_ok g" for f p subject g g'
    by (intro conjI) (erule delete_subject_registers [OF that])+
  show "Registry_ListSandboxes f p g = Inr vs \<Longrightarrow> distinct (map v_ID vs) \<and> distinct (map v_Name vs) \<and>
      set vs = {v. registered_sandboxes g (v_ID v) = Some v \<and> v_ProjectID v = p}"
    if "registry_ok g" for f p g vs
    by (intro conjI) (erule listed_sandboxes [OF that])+
  show "Registry_ListAgentRuns f p subject g = Inr rs \<Longrightarrow> distinct (map r_ID rs) \<and>
      sorted_wrt (\<lambda>a b. r_Round a \<ge> r_Round b) rs \<and>
      set rs = {r. registered_runs g (r_ID r) = Some r \<and> r_ProjectID r = p \<and> r_Subject r = subject}"
    if "registry_ok g" for f p subject g rs
    by (intro conjI) (erule listed_runs [OF that])+
  show "Registry_GetAgentRun f i g = Inr r \<Longrightarrow> registered_runs g i = Some r" for f i g r
    by (simp add: got_run)
qed

section \<open>What the daemon gets back\<close>

text \<open>A run that was saved is read back as it was: by its ID, and once among the rounds of its subject,
  which are sorted from the last to the first; every other run is the one it was, and the next round
  of the subject gets a number above the run's own when the run counts.\<close>

theorem saved_run_reads_back:
  assumes "registry_ok g" "Registry_SaveAgentRun f run g = (None, g')"
    "Registry_ListAgentRuns f1 (r_ProjectID run) (r_Subject run) g' = Inr rs"
  shows "registry_ok g' \<and> Registry_GetAgentRun None (r_ID run) g' = Inr run \<and>
    filter (\<lambda>r. r_ID r = r_ID run) rs = [run] \<and> sorted_wrt (\<lambda>a b. r_Round a \<ge> r_Round b) rs \<and>
    (\<forall>i. i \<noteq> r_ID run \<longrightarrow> Registry_GetAgentRun f2 i g' = Registry_GetAgentRun f2 i g) \<and>
    (CountsTowardRoundLimit run \<longrightarrow> r_Round run < nextRound rs)"
proof -
  note saved = registry.save_run_taken [OF assms(1,2)]
  note listed = registry.runs_listed [OF saved [THEN conjunct1] assms(3)]
  have mem: "run \<in> set rs" using listed [THEN conjunct2, THEN conjunct2] saved by simp
  have "filter (\<lambda>r. r_ID r = r_ID run) rs = [run]"
  proof -
    have "r = run" if "r \<in> set rs" "r_ID r = r_ID run" for r
    proof -
      from listed that(1) have "registered_runs g' (r_ID r) = Some r" by blast
      then have "registered_runs g' (r_ID run) = Some r" unfolding that(2) .
      with saved show ?thesis by simp
    qed
    moreover have "distinct rs" using listed by (simp add: distinct_map)
    ultimately show ?thesis using mem by (induction rs) (auto simp: filter_empty_conv)
  qed
  moreover have "Registry_GetAgentRun f2 i g' = Registry_GetAgentRun f2 i g" if "i \<noteq> r_ID run" for i
  proof -
    have "registered_runs g' i = registered_runs g i" using saved that by simp
    then show ?thesis unfolding GetAgentRun_reads by (simp only:)
  qed
  moreover have "CountsTowardRoundLimit run \<Longrightarrow> r_Round run < nextRound rs"
    using registry.next_round_is_new [OF saved [THEN conjunct1] assms(3)] saved by simp
  moreover have "Registry_GetAgentRun None (r_ID run) g' = Inr run"
    using saved [THEN conjunct2, THEN conjunct2] by (simp add: got_run)
  ultimately show ?thesis
    using listed [THEN conjunct2, THEN conjunct1] saved [THEN conjunct1] by blast
qed

text \<open>Once the runtime of a subject is deleted the next round of the subject is its first: nothing is
  listed for it, the number is 1 again and no session is continued; the sandbox records and rounds of
  every other subject and project are the ones they were.\<close>

theorem deleted_subject_starts_over:
  assumes "registry_ok g" "Registry_DeleteSubjectRuntime f p subject g = (None, g')"
    "Registry_ListAgentRuns f1 p subject g' = Inr rs"
    "Registry_ListAgentRuns f2 q other g = Inr old" "Registry_ListAgentRuns f3 q other g' = Inr new"
  shows "registry_ok g' \<and> rs = [] \<and> nextRound rs = 1 \<and> SessionModeAfter engine role rs = SessionModeFresh \<and>
    (q \<noteq> p \<or> other \<noteq> subject \<longrightarrow> set new = set old)"
proof -
  note restarts = registry.deleted_subject_restarts [OF assms(1-3), of engine role]
  have "set new = set old" if "q \<noteq> p \<or> other \<noteq> subject"
    by (rule registry.deletion_spares_others [OF assms(1,2) that assms(4,5)])
  with restarts registry.delete_subject_taken [OF assms(1,2)] show ?thesis by blast
qed

section \<open>An example registry\<close>

definition example_registry :: Registry where
  "example_registry = \<lparr>g_sandboxes = [], g_runs = [runToRecord example_run]\<rparr>"

lemma example_registry_holds:
  "AgentRun_Validate example_run = None" "registry_ok \<lparr>g_sandboxes = [], g_runs = []\<rparr>" "registry_ok example_registry"
proof -
  show valid: "AgentRun_Validate example_run = None"
    by (simp add: AgentRun_Validate_def AgentSubject_Validate_def example_run_def IsAgentRole_def Roles_def)
  show "registry_ok \<lparr>g_sandboxes = [], g_runs = []\<rparr>" by (simp add: registry_ok_def)
  from valid show "registry_ok example_registry" by (auto simp: registry_ok_def example_registry_def)
qed

lemma saved_run_reads_back_witness:
  "\<exists>g' rs. Registry_SaveAgentRun None example_run \<lparr>g_sandboxes = [], g_runs = []\<rparr> = (None, g') \<and>
     Registry_ListAgentRuns None 1 (r_Subject example_run) g' = Inr rs \<and>
     Registry_GetAgentRun None ''01J'' g' = Inr example_run \<and>
     filter (\<lambda>r. r_ID r = ''01J'') rs = [example_run] \<and> 1 < nextRound rs"
proof -
  have id: "r_ID example_run = ''01J''" "r_ProjectID example_run = 1" "r_Round example_run = 1"
    and counts: "CountsTowardRoundLimit example_run"
    by (simp_all add: example_run_def CountsTowardRoundLimit_def)
  have saved: "Registry_SaveAgentRun None example_run \<lparr>g_sandboxes = [], g_runs = []\<rparr> = (None, example_registry)"
    by (simp add: Registry_SaveAgentRun_def example_registry_holds transaction_def save_run_row_def save_row_def
        example_registry_def)
  obtain rs where listed: "Registry_ListAgentRuns None (r_ProjectID example_run) (r_Subject example_run) example_registry = Inr rs"
    by (simp add: Registry_ListAgentRuns_def AgentSubject_Validate_def example_run_def)
  from saved_run_reads_back [OF example_registry_holds(2) saved listed] saved listed counts id show ?thesis by auto
qed

lemma deleted_subject_starts_over_witness:
  "\<exists>g'. Registry_DeleteSubjectRuntime None 1 \<lparr>s_Kind = AgentSubjectIssue, s_ID = ''i1''\<rparr> example_registry = (None, g') \<and>
     Registry_ListAgentRuns None 1 \<lparr>s_Kind = AgentSubjectIssue, s_ID = ''i1''\<rparr> g' = Inr [] \<and> nextRound [] = 1"
proof -
  let ?S = "\<lparr>s_Kind = AgentSubjectIssue, s_ID = ''i1''\<rparr>"
  have kind: "AgentSubject_Validate ?S = None" by (simp add: AgentSubject_Validate_def)
  obtain g' where deleted: "Registry_DeleteSubjectRuntime None 1 ?S example_registry = (None, g')"
    by (simp add: Registry_DeleteSubjectRuntime_def kind transaction_def then_do_def)
  obtain rs where listed: "Registry_ListAgentRuns None 1 ?S g' = Inr rs"
    by (simp add: Registry_ListAgentRuns_def kind)
  obtain old where before: "Registry_ListAgentRuns None 1 ?S example_registry = Inr old"
    by (simp add: Registry_ListAgentRuns_def kind)
  from deleted_subject_starts_over [OF example_registry_holds(3) deleted listed before listed,
      of AgentEngineOpenCode AgentRoleCoding] deleted listed
  show ?thesis by auto
qed

end
