(* ===== verification/Admission.thy ===== *)
theory Admission
  imports Agent_Rounds
begin

text \<open>
  \<open>adapters/colima/capacity.go\<close>: how many rounds may hold a sandbox at once. A project's sandboxes share
  one VM, the profile. A round is admitted when its sandbox is free, its profile has memory for one
  more container and the host has room for the profile, unless that is running already. The map of
  reservations is a list with one entry per key; the order in which \<open>range\<close> visits it plays no part
  (\<open>count_reserved_total\<close>). \<open>float64\<close> halves of the sizes here are exact, so they are \<open>div\<close>.
\<close>

section \<open>Sizes\<close>

definition profileCPUs :: int where "profileCPUs = 4"

definition profileMemoryGiB :: int where "profileMemoryGiB = 8"

definition sandboxMemoryGiB :: int where "sandboxMemoryGiB = 2"

definition profileMemory :: int where "profileMemory = profileMemoryGiB * 2 ^ 30"

definition profileName :: "nat \<Rightarrow> string" where
  "profileName projectID = ''gm-'' @ dec projectID"

record profileInstance =
  pi_Name :: string
  pi_Status :: string
  pi_CPUs :: int
  pi_Memory :: int

text \<open>Half of the machine: its number of cores and its memory in bytes.\<close>

definition hostBudget :: "int \<Rightarrow> go_error + int \<Rightarrow> go_error + int \<times> int" where
  "hostBudget numCPU totalMemory =
     (case totalMemory of Inl err \<Rightarrow> Inl err | Inr memory \<Rightarrow> Inr (max 1 (numCPU div 2), memory div 2))"

section \<open>Admission\<close>

text \<open>The reservations: the sandbox and its profile.\<close>

type_synonym reservations = "(string \<times> string) list"

fun reserved_memory :: "string \<Rightarrow> reservations \<Rightarrow> int" where
  "reserved_memory profile [] = 0"
| "reserved_memory profile ((name, held) # reserved) =
     (if held = profile then sandboxMemoryGiB else 0) + reserved_memory profile reserved"

definition admitSandbox :: "string \<Rightarrow> reservations \<Rightarrow> bool" where
  "admitSandbox profile reserved \<longleftrightarrow> reserved_memory profile reserved + sandboxMemoryGiB \<le> profileMemoryGiB div 2"

text \<open>The loop over the listing; \<open>None\<close> is its early return, when the profile is up.\<close>

fun count_running ::
    "string \<Rightarrow> profileInstance list \<Rightarrow> string set \<times> int \<times> int \<Rightarrow> (string set \<times> int \<times> int) option" where
  "count_running profile [] counts = Some counts"
| "count_running profile (instance' # instances) (counted, cpus, memory) =
     (if pi_Status instance' \<noteq> ''Running'' then count_running profile instances (counted, cpus, memory)
      else if pi_Name instance' = profile then None
      else count_running profile instances
             (insert (pi_Name instance') counted, cpus + pi_CPUs instance', memory + pi_Memory instance'))"

fun count_reserved :: "string \<Rightarrow> reservations \<Rightarrow> string set \<times> int \<times> int \<Rightarrow> string set \<times> int \<times> int" where
  "count_reserved profile [] counts = counts"
| "count_reserved profile ((name, held) # reserved) (counted, cpus, memory) =
     (if held \<in> counted \<or> held = profile then count_reserved profile reserved (counted, cpus, memory)
      else count_reserved profile reserved (insert held counted, cpus + profileCPUs, memory + profileMemory))"

definition admitProfile :: "profileInstance list \<Rightarrow> string \<Rightarrow> int \<times> int \<Rightarrow> reservations \<Rightarrow> bool" where
  "admitProfile instances profile budget reserved =
     (case count_running profile instances ({}, 0, 0) of
        None \<Rightarrow> True
      | Some counts \<Rightarrow>
          (case count_reserved profile reserved counts of
             (_, cpus, memory) \<Rightarrow> cpus + profileCPUs \<le> fst budget \<and> memory + profileMemory \<le> snd budget))"

text \<open>\<open>Reserve\<close> under its lock, given what the listing and the budget answered before.\<close>

definition Reserve_locked ::
    "profileInstance list \<Rightarrow> int \<times> int \<Rightarrow> SandboxSpec \<Rightarrow> reservations \<Rightarrow> bool \<times> reservations" where
  "Reserve_locked instances budget spec reserved =
     (let name = v_Name (sp_Sandbox spec); profile = profileName (v_ProjectID (sp_Sandbox spec))
      in if name \<in> fst ` set reserved then (False, reserved)
         else if \<not> admitSandbox profile reserved then (False, reserved)
         else if \<not> admitProfile instances profile budget reserved then (False, reserved)
         else (True, (name, profile) # reserved))"

definition Reserve ::
    "go_error + profileInstance list \<Rightarrow> go_error + int \<times> int \<Rightarrow> SandboxSpec \<Rightarrow> reservations \<Rightarrow>
       (go_error + bool) \<times> reservations" where
  "Reserve listed budget spec reserved =
     (case listed of
        Inl err \<Rightarrow> (Inl err, reserved)
      | Inr instances \<Rightarrow>
          (case budget of
             Inl err \<Rightarrow> (Inl err, reserved)
           | Inr budget \<Rightarrow>
               (case Reserve_locked instances budget spec reserved of
                  (admitted, reserved) \<Rightarrow> (Inr admitted, reserved))))"

text \<open>The function an admitted round gets.\<close>

definition Release :: "string \<Rightarrow> reservations \<Rightarrow> reservations" where
  "Release name reserved = filter (\<lambda>(held, _). held \<noteq> name) reserved"

section \<open>What the loops count\<close>

definition held_by :: "string \<Rightarrow> reservations \<Rightarrow> nat" where
  "held_by profile reserved = length (filter (\<lambda>(_, held). held = profile) reserved)"

lemma reserved_memory_count: "reserved_memory profile reserved = 2 * int (held_by profile reserved)"
  by (induction reserved) (auto simp: held_by_def sandboxMemoryGiB_def)

lemma admitSandbox_iff: "admitSandbox profile reserved \<longleftrightarrow> held_by profile reserved < 2"
  by (auto simp: admitSandbox_def reserved_memory_count sandboxMemoryGiB_def profileMemoryGiB_def)

definition running :: "profileInstance list \<Rightarrow> profileInstance list" where
  "running instances = filter (\<lambda>i. pi_Status i = ''Running'') instances"

lemma count_running_iff:
  "count_running profile instances (counted, cpus, memory) =
     (if profile \<in> pi_Name ` set (running instances) then None
      else Some (counted \<union> pi_Name ` set (running instances), cpus + (\<Sum>i \<leftarrow> running instances. pi_CPUs i),
             memory + (\<Sum>i \<leftarrow> running instances. pi_Memory i)))"
  by (induction instances arbitrary: counted cpus memory) (auto simp: running_def)

text \<open>The profiles that are only reserved: each counts once, whatever the order of the reservations.\<close>

lemma count_reserved_total:
  assumes "finite counted"
  shows "count_reserved profile reserved (counted, cpus, memory) =
    (counted \<union> (snd ` set reserved - {profile}),
     cpus + profileCPUs * int (card (snd ` set reserved - {profile} - counted)),
     memory + profileMemory * int (card (snd ` set reserved - {profile} - counted)))"
  using assms
proof (induction reserved arbitrary: counted cpus memory)
  case (Cons r reserved)
  obtain name held where r: "r = (name, held)" by (cases r)
  let ?rest = "snd ` set reserved - {profile}"
  show ?case
  proof (cases "held \<in> counted \<or> held = profile")
    case True
    then have "insert held (snd ` set reserved) - {profile} - counted = ?rest - counted"
      "counted \<union> (insert held (snd ` set reserved) - {profile}) = counted \<union> ?rest" by auto
    with True Cons show ?thesis by (simp add: r)
  next
    case False
    then have split: "insert held (snd ` set reserved) - {profile} - counted = insert held (?rest - insert held counted)"
      "counted \<union> (insert held (snd ` set reserved) - {profile}) = insert held counted \<union> ?rest" by auto
    have "card (insert held (?rest - insert held counted)) = Suc (card (?rest - insert held counted))"
      by (subst card_insert_disjoint) auto
    with False Cons split show ?thesis by (simp add: r algebra_simps)
  qed
qed simp

text \<open>
  What the host is committed to: the profiles that run and, for each profile that is only reserved,
  the size it will be started with.
\<close>

definition only_reserved :: "profileInstance list \<Rightarrow> reservations \<Rightarrow> string set" where
  "only_reserved instances reserved = snd ` set reserved - pi_Name ` set (running instances)"

definition committed :: "(profileInstance \<Rightarrow> int) \<Rightarrow> int \<Rightarrow> profileInstance list \<Rightarrow> reservations \<Rightarrow> int" where
  "committed size' own instances reserved =
     (\<Sum>i \<leftarrow> running instances. size' i) + own * int (card (only_reserved instances reserved))"

abbreviation committed_cpus :: "profileInstance list \<Rightarrow> reservations \<Rightarrow> int" where
  "committed_cpus \<equiv> committed pi_CPUs profileCPUs"

abbreviation committed_memory :: "profileInstance list \<Rightarrow> reservations \<Rightarrow> int" where
  "committed_memory \<equiv> committed pi_Memory profileMemory"

lemma admitProfile_iff:
  "admitProfile instances profile budget reserved \<longleftrightarrow>
    profile \<in> pi_Name ` set (running instances) \<or>
    committed_cpus instances ((name, profile) # reserved) \<le> fst budget \<and>
    committed_memory instances ((name, profile) # reserved) \<le> snd budget"
proof (cases "profile \<in> pi_Name ` set (running instances)")
  case True
  then show ?thesis by (simp add: admitProfile_def count_running_iff)
next
  case False
  let ?rest = "snd ` set reserved - {profile} - pi_Name ` set (running instances)"
  have "only_reserved instances ((name, profile) # reserved) = insert profile ?rest"
    using False by (auto simp: only_reserved_def)
  moreover have "card (insert profile ?rest) = Suc (card ?rest)"
    by (subst card_insert_disjoint) auto
  ultimately show ?thesis
    using False
    by (simp add: admitProfile_def count_running_iff count_reserved_total committed_def
        algebra_simps)
qed

section \<open>Rounds, machines and the budget\<close>

text \<open>
  The host: the profiles a listing shows and what this process has reserved. A round reserves and lets
  go; the machine of a reserved profile starts with the size every profile gets; a machine stops.
  Machines of other owners do not start here: what they take is not for \<open>Reserve\<close> to decide.
\<close>

record host =
  h_instances :: "profileInstance list"
  h_reserved :: reservations

definition own_machine :: "string \<Rightarrow> profileInstance" where
  "own_machine profile = \<lparr>pi_Name = profile, pi_Status = ''Running'', pi_CPUs = profileCPUs, pi_Memory = profileMemory\<rparr>"

inductive host_step :: "int \<times> int \<Rightarrow> host \<Rightarrow> host \<Rightarrow> bool" for budget :: "int \<times> int" where
  reserve: "Reserve (Inr (h_instances h)) (Inr budget) spec (h_reserved h) = (Inr admitted, reserved) \<Longrightarrow>
    host_step budget h (h\<lparr>h_reserved := reserved\<rparr>)"
| release: "host_step budget h (h\<lparr>h_reserved := Release name (h_reserved h)\<rparr>)"
| starts: "profile \<in> snd ` set (h_reserved h) \<Longrightarrow> profile \<notin> pi_Name ` set (running (h_instances h)) \<Longrightarrow>
    host_step budget h (h\<lparr>h_instances := own_machine profile # filter (\<lambda>i. pi_Name i \<noteq> profile) (h_instances h)\<rparr>)"
| stops: "host_step budget h (h\<lparr>h_instances := filter (\<lambda>i. pi_Name i \<noteq> profile) (h_instances h)\<rparr>)"

inductive host_runs :: "int \<times> int \<Rightarrow> host \<Rightarrow> host \<Rightarrow> bool" for budget :: "int \<times> int" where
  here: "host_runs budget h h"
| more: "host_runs budget h h' \<Longrightarrow> host_step budget h' h'' \<Longrightarrow> host_runs budget h h''"

text \<open>The promise: sandboxes are held once, two to a profile, and the host is never committed beyond its budget.\<close>

definition within_budget :: "int \<times> int \<Rightarrow> host \<Rightarrow> bool" where
  "within_budget budget h \<longleftrightarrow>
     committed_cpus (h_instances h) (h_reserved h) \<le> fst budget \<and>
     committed_memory (h_instances h) (h_reserved h) \<le> snd budget"

definition admitted_fairly :: "host \<Rightarrow> bool" where
  "admitted_fairly h \<longleftrightarrow> distinct (map fst (h_reserved h)) \<and> (\<forall>profile. held_by profile (h_reserved h) \<le> 2)"

text \<open>No machine has a negative size, and the machines of projects have at least the size \<open>Ensure\<close> gives them.\<close>

definition machines_ok :: "profileInstance list \<Rightarrow> bool" where
  "machines_ok instances \<longleftrightarrow> (\<forall>i \<in> set instances. 0 \<le> pi_CPUs i \<and> 0 \<le> pi_Memory i \<and>
     (pi_Name i \<in> range profileName \<longrightarrow> profileCPUs \<le> pi_CPUs i \<and> profileMemory \<le> pi_Memory i))"

definition reserved_ok :: "reservations \<Rightarrow> bool" where
  "reserved_ok reserved \<longleftrightarrow> distinct (map fst reserved) \<and> snd ` set reserved \<subseteq> range profileName \<and>
     (\<forall>profile. held_by profile reserved \<le> 2)"

lemma Reserve_locked_cases:
  assumes "Reserve_locked instances budget spec reserved = (admitted, reserved')"
  obtains (refused) "\<not> admitted" "reserved' = reserved"
  | (admitted) name profile where "admitted" "reserved' = (name, profile) # reserved" "profile \<in> range profileName"
      "name = v_Name (sp_Sandbox spec)" "profile = profileName (v_ProjectID (sp_Sandbox spec))"
      "name \<notin> fst ` set reserved" "held_by profile reserved < 2" "admitProfile instances profile budget reserved"
  using assms unfolding Reserve_locked_def Let_def admitSandbox_iff by (auto split: if_splits)

lemma reserved_ok_Reserve:
  assumes "reserved_ok reserved" "Reserve_locked instances budget spec reserved = (admitted, reserved')"
  shows "reserved_ok reserved'"
  using assms(2)
proof (cases rule: Reserve_locked_cases)
  case (admitted name profile)
  with assms(1) show ?thesis by (auto simp: reserved_ok_def held_by_def)
qed (use assms(1) in simp)

lemma reserved_ok_Release:
  assumes "reserved_ok reserved"
  shows "reserved_ok (Release name reserved)"
proof -
  have "held_by profile (Release name reserved) \<le> held_by profile reserved" for profile
    by (induction reserved) (auto simp: held_by_def Release_def)
  then have "held_by profile (Release name reserved) \<le> 2" for profile
    using assms unfolding reserved_ok_def by (meson order_trans)
  then show ?thesis using assms by (auto simp: reserved_ok_def Release_def distinct_map_filter)
qed

text \<open>What a step does to the commitment, for either resource.\<close>

lemma finite_only_reserved [simp]: "finite (only_reserved instances reserved)"
  by (simp add: only_reserved_def)

lemma committed_up:
  "profile \<in> pi_Name ` set (running instances) \<Longrightarrow>
     committed size' own instances ((name, profile) # reserved) = committed size' own instances reserved"
  by (simp add: committed_def only_reserved_def insert_Diff_if)

lemma committed_Release:
  "0 \<le> own \<Longrightarrow> committed size' own instances (Release name reserved) \<le> committed size' own instances reserved"
proof -
  have "card (only_reserved instances (Release name reserved)) \<le> card (only_reserved instances reserved)"
    by (rule card_mono) (auto simp: only_reserved_def Release_def)
  then show "0 \<le> own \<Longrightarrow> ?thesis" by (simp add: committed_def mult_left_mono)
qed

lemma running_without:
  "running (filter (\<lambda>i. pi_Name i \<noteq> profile) instances) = filter (\<lambda>i. pi_Name i \<noteq> profile) (running instances)"
  by (induction instances) (auto simp: running_def)

lemma committed_start:
  assumes "profile \<in> snd ` set reserved" "profile \<notin> pi_Name ` set (running instances)" "size' (own_machine profile) = own"
  shows "committed size' own (own_machine profile # filter (\<lambda>i. pi_Name i \<noteq> profile) instances) reserved =
    committed size' own instances reserved"
proof -
  let ?started = "own_machine profile # filter (\<lambda>i. pi_Name i \<noteq> profile) instances"
  have "filter (\<lambda>i. pi_Name i \<noteq> profile) (running instances) = running instances"
    using assms(2) by (auto intro: filter_True)
  then have "running (filter (\<lambda>i. pi_Name i \<noteq> profile) instances) = running instances"
    by (simp only: running_without)
  then have up: "running ?started = own_machine profile # running instances"
    by (simp add: running_def own_machine_def)
  have "only_reserved instances reserved = insert profile (only_reserved ?started reserved)"
    "profile \<notin> only_reserved ?started reserved"
    using assms(1,2) unfolding only_reserved_def up by (auto simp: own_machine_def)
  then have "card (only_reserved instances reserved) = Suc (card (only_reserved ?started reserved))"
    by simp
  then show ?thesis unfolding committed_def up by (simp add: assms(3) algebra_simps)
qed

lemma sum_without:
  fixes f :: "'a \<Rightarrow> int"
  assumes "\<forall>x \<in> set xs. 0 \<le> f x"
  shows "(\<Sum>x \<leftarrow> filter P xs. f x) \<le> (\<Sum>x \<leftarrow> xs. f x)"
    "x \<in> set xs \<Longrightarrow> \<not> P x \<Longrightarrow> (\<Sum>x \<leftarrow> filter P xs. f x) + f x \<le> (\<Sum>x \<leftarrow> xs. f x)"
proof -
  show le: "(\<Sum>x \<leftarrow> filter P xs. f x) \<le> (\<Sum>x \<leftarrow> xs. f x)"
    using assms by (induction xs) auto
  show "x \<in> set xs \<Longrightarrow> \<not> P x \<Longrightarrow> (\<Sum>x \<leftarrow> filter P xs. f x) + f x \<le> (\<Sum>x \<leftarrow> xs. f x)"
    using assms
  proof (induction xs)
    case (Cons y ys)
    have "(\<Sum>x \<leftarrow> filter P ys. f x) \<le> (\<Sum>x \<leftarrow> ys. f x)"
      using Cons.prems(3) by (induction ys) auto
    with Cons show ?case by fastforce
  qed simp
qed

lemma committed_stop:
  assumes "\<forall>i \<in> set instances. 0 \<le> size' i \<and> (pi_Name i \<in> range profileName \<longrightarrow> own \<le> size' i)"
    and "snd ` set reserved \<subseteq> range profileName" and "0 \<le> own"
  shows "committed size' own (filter (\<lambda>i. pi_Name i \<noteq> profile) instances) reserved \<le> committed size' own instances reserved"
proof -
  let ?P = "\<lambda>i :: profileInstance. pi_Name i \<noteq> profile" and ?R = "running instances"
  have nonneg: "\<forall>i \<in> set ?R. 0 \<le> size' i" using assms(1) by (simp add: running_def)
  note less = sum_without [OF nonneg, where P = ?P]
  have sub: "only_reserved (filter ?P instances) reserved \<subseteq> insert profile (only_reserved instances reserved)"
    unfolding only_reserved_def running_without by auto
  show ?thesis
  proof (cases "profile \<in> snd ` set reserved \<and> profile \<in> pi_Name ` set ?R")
    case True
    then obtain i where i: "i \<in> set ?R" "pi_Name i = profile" by auto
    with True assms(1,2) have "own \<le> size' i" by (auto simp: running_def)
    moreover have "card (only_reserved (filter ?P instances) reserved) \<le> Suc (card (only_reserved instances reserved))"
      using card_mono [OF _ sub] card_insert_le_m1 by (simp add: card_insert_if split: if_splits)
    then have "int (card (only_reserved (filter ?P instances) reserved)) \<le> int (card (only_reserved instances reserved)) + 1"
      by simp
    then have "own * int (card (only_reserved (filter ?P instances) reserved))
        \<le> own * (int (card (only_reserved instances reserved)) + 1)"
      by (rule mult_left_mono [OF _ assms(3)])
    then have "own * int (card (only_reserved (filter ?P instances) reserved))
        \<le> own * int (card (only_reserved instances reserved)) + own"
      by (simp add: algebra_simps)
    moreover have "(\<Sum>i \<leftarrow> filter ?P ?R. size' i) + size' i \<le> (\<Sum>i \<leftarrow> ?R. size' i)"
      by (rule less(2) [OF i(1)]) (simp add: i(2))
    ultimately show ?thesis unfolding committed_def running_without by linarith
  next
    case False
    have "only_reserved (filter ?P instances) reserved \<subseteq> only_reserved instances reserved"
    proof
      fix held assume held: "held \<in> only_reserved (filter ?P instances) reserved"
      then have in_use: "held \<in> snd ` set reserved" "held \<notin> pi_Name ` set (filter ?P ?R)"
        by (simp_all only: only_reserved_def running_without Diff_iff not_False_eq_True)
      have "held \<notin> pi_Name ` set ?R"
      proof
        assume "held \<in> pi_Name ` set ?R"
        with in_use(2) have "held = profile" by auto
        with False in_use(1) \<open>held \<in> pi_Name ` set ?R\<close> show False by blast
      qed
      with in_use(1) show "held \<in> only_reserved instances reserved" by (simp add: only_reserved_def)
    qed
    then have "own * int (card (only_reserved (filter ?P instances) reserved)) \<le> own * int (card (only_reserved instances reserved))"
      using assms(3) by (intro mult_left_mono) (auto intro: card_mono)
    with less(1) show ?thesis unfolding committed_def running_without by linarith
  qed
qed

text \<open>The invariant.\<close>

definition host_ok :: "int \<times> int \<Rightarrow> host \<Rightarrow> bool" where
  "host_ok budget h \<longleftrightarrow> machines_ok (h_instances h) \<and> reserved_ok (h_reserved h) \<and> within_budget budget h"

lemma sizes_positive: "0 \<le> profileCPUs" "0 \<le> profileMemory"
  by (simp_all add: profileCPUs_def profileMemory_def profileMemoryGiB_def)

lemma host_ok_step:
  assumes "host_step budget h h'" "host_ok budget h"
  shows "host_ok budget h'"
  using assms(1)
proof cases
  case (reserve spec admitted reserved)
  then have locked: "Reserve_locked (h_instances h) budget spec (h_reserved h) = (admitted, reserved)"
    by (simp add: Reserve_def split: prod.splits)
  from locked have "within_budget budget h'"
  proof (cases rule: Reserve_locked_cases)
    case (admitted name profile)
    then show ?thesis
      using assms(2) unfolding reserve(1) within_budget_def host_ok_def admitProfile_iff [where name = name]
      by (auto simp: committed_up)
  qed (use reserve assms(2) in \<open>simp add: host_ok_def\<close>)
  with reserved_ok_Reserve [OF _ locked] assms(2) show ?thesis
    unfolding reserve(1) host_ok_def by simp
next
  case (release name)
  then show ?thesis
    using assms(2) reserved_ok_Release [of "h_reserved h" name]
      committed_Release [OF sizes_positive(1), of pi_CPUs "h_instances h" name "h_reserved h"]
      committed_Release [OF sizes_positive(2), of pi_Memory "h_instances h" name "h_reserved h"]
    by (auto simp: host_ok_def within_budget_def)
next
  case (starts profile)
  have "machines_ok (own_machine profile # filter (\<lambda>i. pi_Name i \<noteq> profile) (h_instances h))"
    using assms(2) sizes_positive by (auto simp: host_ok_def machines_ok_def own_machine_def)
  with starts assms(2) committed_start [OF starts(2,3), of pi_CPUs] committed_start [OF starts(2,3), of pi_Memory]
  show ?thesis by (simp add: host_ok_def within_budget_def own_machine_def)
next
  case (stops profile)
  have ok: "machines_ok (h_instances h)" "snd ` set (h_reserved h) \<subseteq> range profileName"
    using assms(2) by (simp_all add: host_ok_def reserved_ok_def)
  then have "machines_ok (filter (\<lambda>i. pi_Name i \<noteq> profile) (h_instances h))" by (simp add: machines_ok_def)
  moreover have "committed_cpus (filter (\<lambda>i. pi_Name i \<noteq> profile) (h_instances h)) (h_reserved h)
      \<le> committed_cpus (h_instances h) (h_reserved h)"
    "committed_memory (filter (\<lambda>i. pi_Name i \<noteq> profile) (h_instances h)) (h_reserved h)
      \<le> committed_memory (h_instances h) (h_reserved h)"
    using ok sizes_positive by (auto intro!: committed_stop simp: machines_ok_def)
  ultimately show ?thesis using stops assms(2) by (auto simp: host_ok_def within_budget_def)
qed


text \<open>A host with eight cores to give and a project that asks twice, then a third project.\<close>

definition spec_of :: "nat \<Rightarrow> string \<Rightarrow> SandboxSpec" where
  "spec_of project name =
     \<lparr>sp_Sandbox = \<lparr>v_ID = name, v_ProjectID = project, v_Name = name, v_Role = AgentRoleCoding,
        v_Subject = \<lparr>s_Kind = AgentSubjectIssue, s_ID = name\<rparr>, v_Status = SandboxStatusCreating,
        v_CreatedAt = 0, v_UpdatedAt = 0\<rparr>,
      sp_Mounts = [], sp_InstallDocker = False, sp_SetupScript = []\<rparr>"


end
