(* ===== verification/Call_Traces.thy ===== *)
theory Call_Traces
  imports Host_Ports
begin

text \<open>
  What the adapters that drive other programs share: two more shapes of a fallible step, and how to
  read what an operation did off the record of the calls its ports keep.
\<close>

text \<open>\<open>if err := check(); err != nil { return err }\<close>.\<close>

definition requiring :: "go_error option \<Rightarrow> (unit, 'x) io" where
  "requiring r w = ((case r of Some err \<Rightarrow> Inl err | None \<Rightarrow> Inr ()), w)"

text \<open>\<open>fmt.Errorf(message + ": %w", name, err)\<close> around a step.\<close>

definition wrapping :: "string \<Rightarrow> string \<Rightarrow> ('a, 'x) io \<Rightarrow> ('a, 'x) io" where
  "wrapping message name m w =
     (case m w of (Inl err, w) \<Rightarrow> (Inl (Wrapf message [GStr name] [err]), w) | (Inr a, w) \<Rightarrow> (Inr a, w))"

text \<open>
  \<open>made\<close> says what an operation adds to the record of calls, given its result; \<open>only\<close> that each call it
  makes has a property.
\<close>

definition made :: "('x world \<Rightarrow> 'c list) \<Rightarrow> ('x world \<Rightarrow> 'r \<times> 'x world) \<Rightarrow> ('r \<Rightarrow> 'c list \<Rightarrow> bool) \<Rightarrow> bool" where
  "made calls m P \<longleftrightarrow> (\<forall>w r w'. m w = (r, w') \<longrightarrow> (\<exists>cs. calls w' = calls w @ cs \<and> P r cs))"

definition only :: "('x world \<Rightarrow> 'c list) \<Rightarrow> ('c \<Rightarrow> bool) \<Rightarrow> ('x world \<Rightarrow> 'r \<times> 'x world) \<Rightarrow> bool" where
  "only calls p m \<longleftrightarrow> made calls m (\<lambda>_. list_all p)"

named_theorems tracing

lemma madeI: "(\<And>w r w'. m w = (r, w') \<Longrightarrow> \<exists>cs. calls w' = calls w @ cs \<and> P r cs) \<Longrightarrow> made calls m P"
  by (simp add: made_def)

lemma madeD: "made calls m P \<Longrightarrow> m w = (r, w') \<Longrightarrow> \<exists>cs. calls w' = calls w @ cs \<and> P r cs"
  by (simp add: made_def)

lemma made_mono: "made calls m P \<Longrightarrow> (\<And>r cs. P r cs \<Longrightarrow> Q r cs) \<Longrightarrow> made calls m Q"
  unfolding made_def by blast

lemma made_calling:
  assumes "made calls m P" "\<And>a. made calls (f a) (Q a)"
  shows "made calls (calling m f) (\<lambda>r cs. (\<exists>err. r = Inl err \<and> P (Inl err) cs) \<or>
    (\<exists>a before after. cs = before @ after \<and> P (Inr a) before \<and> Q a r after))"
proof (rule madeI)
  fix w r w' assume "calling m f w = (r, w')"
  then show "\<exists>cs. calls w' = calls w @ cs \<and> ((\<exists>err. r = Inl err \<and> P (Inl err) cs) \<or>
      (\<exists>a before after. cs = before @ after \<and> P (Inr a) before \<and> Q a r after))"
  proof (cases rule: calling_cases)
    case (fails err)
    with madeD [OF assms(1)] show ?thesis by blast
  next
    case (continues a w1)
    from madeD [OF assms(1) continues(1)] obtain before where before: "calls w1 = calls w @ before" "P (Inr a) before" by blast
    from madeD [OF assms(2) continues(2)] obtain after where "calls w' = calls w1 @ after" "Q a r after" by blast
    with before have "calls w' = calls w @ (before @ after)" "P (Inr a) before" "Q a r after" by simp_all
    then show ?thesis by blast
  qed
qed

lemma only_calling [tracing]: "only calls p m \<Longrightarrow> (\<And>a. only calls p (f a)) \<Longrightarrow> only calls p (calling m f)"
  unfolding only_def by (rule made_mono, rule made_calling, assumption+) auto

lemma only_doing [tracing]: "only calls p m \<Longrightarrow> only calls p (doing m)"
  unfolding only_def made_def doing_def by (auto split: prod.splits option.splits)

lemma only_wrapping [tracing]: "only calls p m \<Longrightarrow> only calls p (wrapping message name m)"
  unfolding only_def made_def wrapping_def by (fastforce split: prod.splits sum.splits)

lemma only_silent: "silent calls m \<Longrightarrow> only calls p m"
  unfolding only_def by (rule madeI) (auto dest: silentD)

lemma only_pure [tracing]:
  "only calls p (returning a)" "only calls p (failing err)" "only calls p (settling s)" "only calls p (requiring e)"
  by (auto intro!: only_silent simp: requiring_def silent_def returning_def failing_def settling_def)

lemma only_then:
  "only calls p m \<Longrightarrow> (\<And>r. only calls p (g r)) \<Longrightarrow> only calls p (\<lambda>w. case m w of (r, w) \<Rightarrow> g r w)"
  unfolding only_def made_def by (fastforce split: prod.splits)

lemma only_weaken: "only calls p m \<Longrightarrow> (\<And>c. p c \<Longrightarrow> q c) \<Longrightarrow> only calls q m"
  unfolding only_def by (erule made_mono) (auto simp: list_all_iff)

end
