(* ===== verification/Container_Host.thy ===== *)
theory Container_Host
  imports Admission Call_Traces Sandbox_Specs "HOL-Library.List_Lexorder" "HOL-Library.Char_ord"
begin

text \<open>
  \<open>adapters/colima\<close>: the provider of sandboxes, \<open>client.go\<close> with \<open>profile.go\<close>, \<open>ledger.go\<close>, \<open>container.go\<close> and
  \<open>image.go\<close>. A sandbox is a Docker container in the VM of its project; a file per container, the
  ledger, says what exists while the VM is down. The adapter runs \<open>colima\<close> and \<open>docker\<close>, so it is a chain
  of command lines and of decisions on their output: the port \<open>cl_Output\<close> runs one under its budget (its
  error is the one \<open>explainDeadline\<close> gives) and the file system is a port too. The mutex of a
  profile makes the calls on one profile follow each other, so an operation is one chain.
\<close>

section \<open>The client\<close>

text \<open>What the client remembers of a profile beside its lock, over the environment of its ports.\<close>

record 'e engine =
  en_prepared :: "string set"
  en_env :: 'e

record ledger_record =
  lr_Profile :: string
  lr_Image :: string
  lr_Spec :: string

text \<open>
  \<open>cl_Output\<close> gives the output and the error of a command; \<open>cl_ReadFile\<close> and \<open>cl_ReadDir\<close> answer \<open>None\<close> and
  \<open>cl_Remove\<close> \<open>False\<close> for what does not exist. JSON, the text of an error, times, the seccomp profile, the
  script that prepares a VM and the files an image is built from are data.
\<close>

record 'e client =
  cl_logDir :: string
  cl_hostRoot :: string
  cl_stateDir :: string
  cl_buildDir :: string
  cl_colimaHome :: string
  cl_vmType :: string
  cl_Output :: "string \<Rightarrow> string list \<Rightarrow> 'e engine world \<Rightarrow> (string \<times> go_error option) \<times> 'e engine world"
  cl_OutputTo :: "string \<Rightarrow> string \<Rightarrow> string list \<Rightarrow> 'e engine world \<Rightarrow> (string \<times> go_error option) \<times> 'e engine world"
  cl_Cancelled :: "'e engine world \<Rightarrow> go_error option"
  cl_ReadFile :: "string \<Rightarrow> (string option, 'e engine) io"
  cl_WriteFile :: "string \<Rightarrow> string \<Rightarrow> 'e engine world \<Rightarrow> go_error option \<times> 'e engine world"
  cl_MkdirAll :: "string \<Rightarrow> 'e engine world \<Rightarrow> go_error option \<times> 'e engine world"
  cl_MkdirTemp :: "string \<Rightarrow> string \<Rightarrow> (string, 'e engine) io"
  cl_RemoveAll :: "string \<Rightarrow> 'e engine world \<Rightarrow> 'e engine world"
  cl_Remove :: "string \<Rightarrow> (bool, 'e engine) io"
  cl_ReadDir :: "string \<Rightarrow> (string list option, 'e engine) io"
  cl_OpenLogs :: "string \<Rightarrow> 'e engine world \<Rightarrow> go_error option \<times> 'e engine world"
  cl_Expired :: "'e engine world \<Rightarrow> bool \<times> 'e engine world"
  cl_Wait :: "'e engine world \<Rightarrow> go_error option \<times> 'e engine world"
  cl_text :: "go_error \<Rightarrow> string"
  cl_ulower :: "nat \<Rightarrow> nat"
  cl_sha256 :: "string \<Rightarrow> string"
  cl_instance :: "string \<Rightarrow> go_error + profileInstance"
  cl_record :: "string \<Rightarrow> go_error + ledger_record"
  cl_record_text :: "ledger_record \<Rightarrow> string"
  cl_time :: "string \<Rightarrow> go_error + int"
  cl_time_text :: "int \<Rightarrow> string"
  cl_security :: string
  cl_prepareScript :: string
  cl_files :: "SandboxSpec \<Rightarrow> (string \<times> string) list"

type_synonym 'e client_world = "'e engine world"

definition newline :: char where "newline = CHR 0x0A"

definition bounded :: "'e client \<Rightarrow> string \<Rightarrow> string list \<Rightarrow> 'e client_world \<Rightarrow> go_error option \<times> 'e client_world" where
  "bounded C name args w = (case cl_Output C name args w of ((_, r), w) \<Rightarrow> (r, w))"

definition dockerHost :: "'e client \<Rightarrow> string \<Rightarrow> string" where
  "dockerHost C profile = ''unix://'' @ filepath_Join [cl_colimaHome C, profile, ''docker.sock'']"

definition dockerArgs :: "'e client \<Rightarrow> string \<Rightarrow> string list \<Rightarrow> string list" where
  "dockerArgs C profile args = [''--host'', dockerHost C profile] @ args"

definition docker :: "'e client \<Rightarrow> string \<Rightarrow> string list \<Rightarrow> 'e client_world \<Rightarrow> go_error option \<times> 'e client_world" where
  "docker C profile args = bounded C ''docker'' (dockerArgs C profile args)"

definition dockerOutput ::
    "'e client \<Rightarrow> string \<Rightarrow> string list \<Rightarrow> 'e client_world \<Rightarrow> (string \<times> go_error option) \<times> 'e client_world" where
  "dockerOutput C profile args = cl_Output C ''docker'' (dockerArgs C profile args)"

section \<open>Profiles\<close>

fun parse_instances :: "'e client \<Rightarrow> string list \<Rightarrow> go_error + profileInstance list" where
  "parse_instances C [] = Inr []"
| "parse_instances C (line # lines) =
     (let line = trim_space line
      in if line = [] then parse_instances C lines
         else
           case cl_instance C line of
             Inl err \<Rightarrow> Inl (Wrapf ''parse colima list line %q: %w'' [GStr line] [err])
           | Inr instance' \<Rightarrow>
               (case parse_instances C lines of Inl err \<Rightarrow> Inl err | Inr instances \<Rightarrow> Inr (instance' # instances)))"

text \<open>The attempts at a listing: one retry, unless the context has ended.\<close>

fun list_attempts :: "'e client \<Rightarrow> nat \<Rightarrow> 'e client_world \<Rightarrow> (string \<times> go_error option) \<times> 'e client_world" where
  "list_attempts C 0 w = (([], None), w)"
| "list_attempts C (Suc attempts) w =
     (case cl_Output C ''colima'' [''list'', ''--json''] w of
        ((output, r), w) \<Rightarrow>
          if r = None \<or> cl_Cancelled C w \<noteq> None \<or> attempts = 0 then ((output, r), w)
          else list_attempts C attempts w)"

definition maxListAttempts :: nat where "maxListAttempts = 2"

definition listProfiles :: "'e client \<Rightarrow> (profileInstance list, 'e engine) io" where
  "listProfiles C w =
     (case list_attempts C maxListAttempts w of
        ((output, Some err), w) \<Rightarrow> (Inl (Wrapf ''list Colima profiles: %w'' [] [err]), w)
      | ((output, None), w) \<Rightarrow> (parse_instances C (split_on newline output), w))"

fun is_running :: "string \<Rightarrow> profileInstance list \<Rightarrow> bool" where
  "is_running profile [] \<longleftrightarrow> False"
| "is_running profile (instance' # instances) \<longleftrightarrow>
     (if pi_Name instance' = profile then pi_Status instance' = ''Running'' else is_running profile instances)"

definition profileRunning :: "'e client \<Rightarrow> string \<Rightarrow> (bool, 'e engine) io" where
  "profileRunning C profile = calling (listProfiles C) (\<lambda>instances. returning (is_running profile instances))"

section \<open>The ledger\<close>

definition recordPath :: "'e client \<Rightarrow> string \<Rightarrow> go_error + string" where
  "recordPath C name =
     (if cl_stateDir C = [] then Inl (Errorf ''no state directory is configured to record sandboxes in'' [])
      else if name = [] \<or> contains_any name [CHR 0x2F, CHR 0x5C] \<or> index_of name ''..'' \<noteq> None
      then Inl (Errorf ''sandbox name %q is not a bare name'' [GStr name])
      else Inr (filepath_Join [cl_stateDir C, name @ ''.json'']))"

definition readRecord :: "'e client \<Rightarrow> string \<Rightarrow> (ledger_record option, 'e engine) io" where
  "readRecord C name =
     calling (settling (recordPath C name)) (\<lambda>path.
       calling (cl_ReadFile C path) (\<lambda>contents.
         case contents of
           None \<Rightarrow> returning None
         | Some text' \<Rightarrow>
             (case cl_record C text' of
                Inl err \<Rightarrow> failing (Wrapf ''parse sandbox record %q: %w'' [GStr name] [err])
              | Inr held \<Rightarrow> returning (Some held))))"

definition writeRecord :: "'e client \<Rightarrow> string \<Rightarrow> ledger_record \<Rightarrow> (unit, 'e engine) io" where
  "writeRecord C name held =
     calling (settling (recordPath C name)) (\<lambda>path.
       calling (doing (cl_MkdirAll C (filepath_Clean (cl_stateDir C)))) (\<lambda>_.
         doing (cl_WriteFile C path (cl_record_text C held))))"

definition removeRecord :: "'e client \<Rightarrow> string \<Rightarrow> (unit, 'e engine) io" where
  "removeRecord C name =
     calling (settling (recordPath C name)) (\<lambda>path w.
       case cl_Remove C path w of
         (Inl err, w) \<Rightarrow> (Inl (Wrapf ''remove sandbox record %q: %w'' [GStr name] [err]), w)
       | (Inr _, w) \<Rightarrow> (Inr (), w))"

text \<open>\<open>strings.CutSuffix(s, suffix)\<close>.\<close>

definition cut_suffix :: "string \<Rightarrow> string \<Rightarrow> string option" where
  "cut_suffix s sfx = (if suffix sfx s then Some (take (length s - length sfx) s) else None)"

fun recorded_loop :: "'e client \<Rightarrow> string \<Rightarrow> string list \<Rightarrow> (string list, 'e engine) io" where
  "recorded_loop C profile [] = returning []"
| "recorded_loop C profile (entry # entries) =
     (case cut_suffix entry ''.json'' of
        None \<Rightarrow> recorded_loop C profile entries
      | Some name \<Rightarrow> (\<lambda>w.
          case readRecord C name w of
            (Inl err, w) \<Rightarrow> (Inl (Wrapf ''read sandbox record %q: %w'' [GStr name] [err]), w)
          | (Inr held, w) \<Rightarrow>
              calling (recorded_loop C profile entries) (\<lambda>names.
                returning (if held \<noteq> None \<and> lr_Profile (the held) = profile then name # names else names)) w))"

definition recordedNames :: "'e client \<Rightarrow> string \<Rightarrow> (string list, 'e engine) io" where
  "recordedNames C profile =
     (if cl_stateDir C = [] then returning []
      else calling (cl_ReadDir C (cl_stateDir C)) (\<lambda>entries.
        case entries of None \<Rightarrow> returning [] | Some entries \<Rightarrow> recorded_loop C profile entries))"

fun remove_each :: "'e client \<Rightarrow> string list \<Rightarrow> go_error list \<Rightarrow> 'e client_world \<Rightarrow> go_error list \<times> 'e client_world" where
  "remove_each C [] errs w = (errs, w)"
| "remove_each C (name # names) errs w =
     (case removeRecord C name w of
        (Inl err, w) \<Rightarrow> remove_each C names (errs @ [err]) w
      | (Inr _, w) \<Rightarrow> remove_each C names errs w)"

definition forgetProjectRecords :: "'e client \<Rightarrow> nat \<Rightarrow> (unit, 'e engine) io" where
  "forgetProjectRecords C projectID =
     calling (recordedNames C (profileName projectID)) (\<lambda>names w.
       case remove_each C names [] w of
         (errs, w) \<Rightarrow> (case join_errors errs of Some err \<Rightarrow> (Inl err, w) | None \<Rightarrow> (Inr (), w)))"

section \<open>Containers and images\<close>

definition guestHome :: string where "guestHome = ''/home/gomerge''"

definition guestHostRoot :: string where "guestHostRoot = ''/run/go-merge''"

definition guestWork :: string where "guestWork = ''/work''"

definition managedLabel :: string where "managedLabel = ''go-merge.managed''"

definition sessionVolume :: "string \<Rightarrow> string" where
  "sessionVolume name = ''gm-session-'' @ name"

definition mountArgs :: "SandboxSpec \<Rightarrow> string list" where
  "mountArgs spec =
     map (\<lambda>m. m_HostLocation m @ '':'' @ m_GuestLocation m @ (if m_Writable m then [] else '':ro'')) (sp_Mounts spec)"

definition withinGuestRoot :: "string \<Rightarrow> string \<Rightarrow> bool" where
  "withinGuestRoot path root \<longleftrightarrow> path = root \<or> prefix (root @ [slash]) path"

fun validateMountLocations :: "SandboxMount list \<Rightarrow> go_error option" where
  "validateMountLocations [] = None"
| "validateMountLocations (m # ms) =
     (let guest = filepath_Clean (m_GuestLocation m)
      in if withinGuestRoot guest guestWork \<or> withinGuestRoot guest guestHostRoot \<or>
            guest = filepath_Clean (m_HostLocation m)
         then validateMountLocations ms
         else Some (Errorf ''sandbox mount point %q is outside guest work roots'' [GStr (m_GuestLocation m)]))"

definition specFingerprint :: "'e client \<Rightarrow> SandboxSpec \<Rightarrow> string \<Rightarrow> string" where
  "specFingerprint C spec img =
     take 16 (cl_sha256 C (join_with [newline]
       ([''image='' @ img, ''docker='' @ (if sp_InstallDocker spec then ''true'' else ''false''), ''memory=2g''] @
        (if sp_InstallDocker spec then [''docker-security='' @ cl_security C] else []) @
        [''mounts='' @ join_with '','' (sort (mountArgs spec))])))"

definition createArgs :: "'e client \<Rightarrow> SandboxSpec \<Rightarrow> string \<Rightarrow> string list" where
  "createArgs C spec img =
     (let name = v_Name (sp_Sandbox spec)
      in [''create'', ''--name'', name, ''--hostname'', name, ''--label'', managedLabel @ ''=1'',
          ''--label'', ''go-merge.spec='' @ specFingerprint C spec img, ''--memory'', ''2g'',
          ''--volume'', sessionVolume name @ '':'' @ guestHome @ ''/.local/share/opencode/storage''] @
         concat (map (\<lambda>bind. [''--volume'', bind]) (mountArgs spec)) @
         (if sp_InstallDocker spec
          then [''--security-opt'', cl_security C, ''--env'', ''GO_MERGE_INSTALL_DOCKER=1'',
                ''--env'', ''DOCKER_HOST=unix:///tmp/go-merge-docker/docker.sock'',
                ''--env'', ''XDG_RUNTIME_DIR=/tmp/go-merge-docker'']
          else []) @
         [img])"

text \<open>Which errors of docker say that something is not there.\<close>

definition not_found_line :: "string list \<Rightarrow> string \<Rightarrow> string \<Rightarrow> bool" where
  "not_found_line messages line prefix' =
     (case index_of line prefix' of
        None \<Rightarrow> False
      | Some at \<Rightarrow>
          let detail = trim_space (drop (at + length prefix') line)
          in list_ex (\<lambda>message. detail = message \<or> prefix (message @ '':'') detail \<or> suffix ('': '' @ message) detail)
               messages)"

definition isDockerNotFound :: "'e client \<Rightarrow> go_error option \<Rightarrow> string \<Rightarrow> string list \<Rightarrow> bool" where
  "isDockerNotFound C r output messages =
     (case r of
        None \<Rightarrow> False
      | Some err \<Rightarrow>
          list_ex (\<lambda>line. list_ex (not_found_line messages (trim_space line)) [''error response from daemon:'', ''error:''])
            (split_on newline (to_lower (cl_ulower C) (cl_text C err @ [newline] @ output))))"

definition isNoSuchContainer :: "'e client \<Rightarrow> go_error option \<Rightarrow> string \<Rightarrow> bool" where
  "isNoSuchContainer C r output = isDockerNotFound C r output [''no such object'', ''no such container'']"

definition isNoSuchImage :: "'e client \<Rightarrow> go_error option \<Rightarrow> bool" where
  "isNoSuchImage C r = isDockerNotFound C r [] [''no such object'', ''no such image'']"

definition isNoSuchVolume :: "'e client \<Rightarrow> go_error option \<Rightarrow> bool" where
  "isNoSuchVolume C r = isDockerNotFound C r [] [''no such object'', ''no such volume'']"

definition sandboxStatusFor :: "string \<Rightarrow> SandboxStatus" where
  "sandboxStatusFor state =
     (if state = ''running'' then SandboxStatusRunning
      else if state \<in> {''created'', ''exited'', ''paused''} then SandboxStatusStopped
      else if state = ''restarting'' then SandboxStatusStarting
      else SandboxStatusBroken)"

definition containerStatus :: "'e client \<Rightarrow> string \<Rightarrow> string \<Rightarrow> (SandboxStatus, 'e engine) io" where
  "containerStatus C profile name w =
     (case dockerOutput C profile [''inspect'', ''--format'', ''{{.State.Status}}'', name] w of
        ((output, None), w) \<Rightarrow> (Inr (sandboxStatusFor (trim_space output)), w)
      | ((output, Some err), w) \<Rightarrow>
          if isNoSuchContainer C (Some err) output then (Inr SandboxStatusAbsent, w) else (Inl err, w))"

definition label_format :: string where
  "label_format = ''{{index .Config.Labels '' @ [CHR 0x22] @ ''go-merge.spec'' @ [CHR 0x22] @ ''}}''"

definition fingerprintMatches :: "'e client \<Rightarrow> string \<Rightarrow> string \<Rightarrow> string \<Rightarrow> (bool, 'e engine) io" where
  "fingerprintMatches C profile name fingerprint w =
     (case dockerOutput C profile [''inspect'', ''--format'', label_format, name] w of
        ((output, None), w) \<Rightarrow> (Inr (trim_space output = fingerprint), w)
      | ((output, Some err), w) \<Rightarrow>
          if isNoSuchContainer C (Some err) output then (Inr False, w) else (Inl err, w))"

definition nonblank_lines :: "string \<Rightarrow> string list" where
  "nonblank_lines output = filter (\<lambda>line. line \<noteq> []) (map trim_space (split_on newline output))"

text \<open>\<open>output, err := c.dockerOutput(...); if err != nil { return err }\<close>.\<close>

definition reading :: "'e client \<Rightarrow> string \<Rightarrow> string list \<Rightarrow> (string, 'e engine) io" where
  "reading C profile args w =
     (case dockerOutput C profile args w of ((_, Some err), w) \<Rightarrow> (Inl err, w) | ((output, None), w) \<Rightarrow> (Inr output, w))"

definition pruneOrphanContainers :: "'e client \<Rightarrow> string \<Rightarrow> (unit, 'e engine) io" where
  "pruneOrphanContainers C profile =
     calling (reading C profile [''ps'', ''--all'', ''--filter'', ''label='' @ managedLabel, ''--format'', ''{{.Names}}'']) (\<lambda>output.
       calling (recordedNames C profile) (\<lambda>recorded.
         let orphans = filter (\<lambda>name. name \<notin> set recorded) (nonblank_lines output)
         in if orphans = [] then returning ()
            else doing (docker C profile ([''rm'', ''--force'', ''--volumes''] @ orphans))))"

definition opencodeVersion :: string where "opencodeVersion = ''1.18.18''"

definition buildVersion :: nat where "buildVersion = 4"

definition setupScriptDigest :: "'e client \<Rightarrow> string \<Rightarrow> string" where
  "setupScriptDigest C script = (if trim_space script = [] then [] else take 12 (cl_sha256 C script))"

definition imageTag :: "'e client \<Rightarrow> SandboxSpec \<Rightarrow> string" where
  "imageTag C spec =
     (let digest = setupScriptDigest C (sp_SetupScript spec);
          tag = ''oc'' @ map (\<lambda>c. if c = CHR ''.'' then CHR ''-'' else c) opencodeVersion @ ''-b'' @ dec buildVersion
      in ''go-merge/agent:'' @ tag @ (if digest = [] then [] else ''-s'' @ digest))"

fun write_files :: "'e client \<Rightarrow> string \<Rightarrow> (string \<times> string) list \<Rightarrow> (unit, 'e engine) io" where
  "write_files C directory [] = returning ()"
| "write_files C directory ((name, contents) # files) =
     calling (doing (cl_WriteFile C (filepath_Join [directory, name]) contents)) (\<lambda>_. write_files C directory files)"

definition buildImage :: "'e client \<Rightarrow> string \<Rightarrow> SandboxSpec \<Rightarrow> string \<Rightarrow> (unit, 'e engine) io" where
  "buildImage C profile spec tag =
     (if cl_buildDir C = []
      then failing (Errorf ''no build directory is configured to assemble the image context in'' [])
      else calling (doing (cl_MkdirAll C (cl_buildDir C))) (\<lambda>_.
        calling (cl_MkdirTemp C (cl_buildDir C) ''context-'') (\<lambda>directory.
          deferring (cl_RemoveAll C directory)
            (calling (write_files C directory (cl_files C spec)) (\<lambda>_.
              doing (docker C profile
                [''build'', ''--tag'', tag, ''--label'', ''go-merge.image=1'', ''--label'', ''go-merge.build='' @ dec buildVersion,
                 ''--progress'', ''plain'', directory]))))))"

definition pruneSupersededImages :: "'e client \<Rightarrow> string \<Rightarrow> (unit, 'e engine) io" where
  "pruneSupersededImages C profile =
     calling (reading C profile
         [''images'', ''--filter'', ''label=go-merge.image'', ''--filter'', ''label!=go-merge.build='' @ dec buildVersion,
          ''--format'', ''{{.ID}}'']) (\<lambda>output.
       let ids = nonblank_lines output
       in if ids = [] then returning () else doing (docker C profile ([''image'', ''rm'', ''--force''] @ ids)))"

definition ensureImage :: "'e client \<Rightarrow> string \<Rightarrow> SandboxSpec \<Rightarrow> (string, 'e engine) io" where
  "ensureImage C profile spec w =
     (let tag = imageTag C spec
      in case docker C profile [''image'', ''inspect'', tag] w of
           (None, w) \<Rightarrow> (Inr tag, w)
         | (Some err, w) \<Rightarrow>
             if \<not> isNoSuchImage C (Some err) then (Inl (Wrapf ''inspect agent image %q: %w'' [GStr tag] [err]), w)
             else calling (pruneSupersededImages C profile) (\<lambda>_.
               calling (wrapping ''build agent image %q: %w'' tag (buildImage C profile spec tag)) (\<lambda>_. returning tag)) w)"

section \<open>The machine of a project\<close>

definition prepared :: "string \<Rightarrow> 'e client_world \<Rightarrow> bool" where
  "prepared profile w \<longleftrightarrow> profile \<in> en_prepared (w_ext w)"

definition set_prepared :: "string \<Rightarrow> bool \<Rightarrow> 'e client_world \<Rightarrow> 'e client_world" where
  "set_prepared profile b w =
     w\<lparr>w_ext := (w_ext w)\<lparr>en_prepared :=
       (if b then insert profile (en_prepared (w_ext w)) else en_prepared (w_ext w) - {profile})\<rparr>\<rparr>"

definition noting_prepared :: "string \<Rightarrow> bool \<Rightarrow> (unit, 'e engine) io" where
  "noting_prepared profile b w = (Inr (), set_prepared profile b w)"

definition startArgs :: "'e client \<Rightarrow> string \<Rightarrow> string list" where
  "startArgs C profile =
     [''start'', ''--profile'', profile, ''--activate=false'', ''--runtime'', ''docker'', ''--vm-type'', cl_vmType C,
      ''--cpus'', dec (nat profileCPUs), ''--memory'', dec (nat profileMemoryGiB), ''--disk'', ''60'',
      ''--mount-type'', ''virtiofs'', ''--mount'', cl_hostRoot C @ '':w'']"

definition prepareProfile :: "'e client \<Rightarrow> string \<Rightarrow> (unit, 'e engine) io" where
  "prepareProfile C profile =
     wrapping ''prepare Colima profile %q: %w'' profile
       (doing (bounded C ''colima''
         [''ssh'', ''--profile'', profile, ''--'', ''sudo'', ''sh'', ''-c'', cl_prepareScript C]))"

definition startProfileLocked :: "'e client \<Rightarrow> string \<Rightarrow> (unit, 'e engine) io" where
  "startProfileLocked C profile =
     calling (profileRunning C profile) (\<lambda>up w.
       if up \<and> prepared profile w then (Inr (), w)
       else
         calling
           (if up then returning ()
            else calling (wrapping ''start Colima profile %q: %w'' profile (doing (bounded C ''colima'' (startArgs C profile))))
                   (\<lambda>_. noting_prepared profile False))
           (\<lambda>_ w.
              calling
                (if prepared profile w then returning ()
                 else calling (prepareProfile C profile) (\<lambda>_. noting_prepared profile True))
                (\<lambda>_. if up then returning () else pruneOrphanContainers C profile) w) w)"

definition ensureProfile :: "'e client \<Rightarrow> nat \<Rightarrow> (string, 'e engine) io" where
  "ensureProfile C projectID =
     (let profile = profileName projectID
      in calling (startProfileLocked C profile) (\<lambda>_. returning profile))"

definition StopProfile :: "'e client \<Rightarrow> nat \<Rightarrow> (bool, 'e engine) io" where
  "StopProfile C projectID =
     (let profile = profileName projectID
      in calling (profileRunning C profile) (\<lambda>up.
           if \<not> up then returning False
           else calling (reading C profile [''ps'', ''--quiet'']) (\<lambda>output.
             if trim_space output \<noteq> [] then returning False
             else calling (doing (bounded C ''colima'' [''stop'', ''--profile'', profile])) (\<lambda>_.
               calling (noting_prepared profile False) (\<lambda>_. returning True)))))"

fun reap_each :: "'e client \<Rightarrow> string \<Rightarrow> int \<Rightarrow> string list \<Rightarrow> bool \<Rightarrow> (bool, 'e engine) io" where
  "reap_each C profile runningBefore [] reaped = returning reaped"
| "reap_each C profile runningBefore (i # ids) reaped =
     (if i = [] then reap_each C profile runningBefore ids reaped
      else
        calling (reading C profile [''inspect'', ''--format'', ''{{.State.StartedAt}}'', i]) (\<lambda>output.
          case cl_time C (trim_space output) of
            Inl err \<Rightarrow> failing (Wrapf ''parse start time of container %s: %w'' [GStr i] [err])
          | Inr started \<Rightarrow>
              if \<not> started < runningBefore then reap_each C profile runningBefore ids reaped
              else calling (doing (docker C profile [''kill'', i])) (\<lambda>_. reap_each C profile runningBefore ids True)))"

definition ReapExpiredContainers :: "'e client \<Rightarrow> nat \<Rightarrow> int \<Rightarrow> int \<Rightarrow> (bool, 'e engine) io" where
  "ReapExpiredContainers C projectID runningBefore stoppedBefore =
     (let profile = profileName projectID
      in calling (profileRunning C profile) (\<lambda>up.
           if \<not> up then returning False
           else calling (reading C profile [''ps'', ''--quiet'', ''--filter'', ''status=running'']) (\<lambda>output.
             calling (reap_each C profile runningBefore (split_on newline (trim_space output)) False) (\<lambda>reaped.
               calling (doing (docker C profile
                   [''system'', ''prune'', ''--all'', ''--volumes'', ''--force'', ''--filter'', ''until='' @ cl_time_text C stoppedBefore])) (\<lambda>_.
                 calling (doing (docker C profile [''volume'', ''prune'', ''--all'', ''--force''])) (\<lambda>_.
                   returning reaped))))))"

definition DeleteProfile :: "'e client \<Rightarrow> nat \<Rightarrow> (unit, 'e engine) io" where
  "DeleteProfile C projectID =
     (let profile = profileName projectID
      in calling (doing (bounded C ''colima'' [''delete'', ''--profile'', profile, ''--force'', ''--data''])) (\<lambda>_.
           calling (noting_prepared profile False) (\<lambda>_. forgetProjectRecords C projectID)))"

section \<open>The operations on a sandbox\<close>

definition ensureSessionVolume :: "'e client \<Rightarrow> string \<Rightarrow> string \<Rightarrow> (bool, 'e engine) io" where
  "ensureSessionVolume C profile name w =
     (let volume = sessionVolume name
      in case docker C profile [''volume'', ''inspect'', volume] w of
           (None, w) \<Rightarrow> (Inr False, w)
         | (Some err, w) \<Rightarrow>
             if \<not> isNoSuchVolume C (Some err) then (Inl (Wrapf ''inspect session volume %q: %w'' [GStr volume] [err]), w)
             else calling (doing (docker C profile [''volume'', ''create'', volume])) (\<lambda>_. returning True) w)"

text \<open>What follows in \<open>Ensure\<close> when there is no container, or none that matches any more.\<close>

definition create_container :: "'e client \<Rightarrow> string \<Rightarrow> SandboxSpec \<Rightarrow> string \<Rightarrow> (bool, 'e engine) io" where
  "create_container C profile spec img =
     (let name = v_Name (sp_Sandbox spec)
      in calling (ensureSessionVolume C profile name) (\<lambda>created.
           calling (writeRecord C name \<lparr>lr_Profile = profile, lr_Image = img, lr_Spec = specFingerprint C spec img\<rparr>) (\<lambda>_.
             calling (doing (docker C profile (createArgs C spec img))) (\<lambda>_. returning created))))"

definition Client_Ensure :: "'e client \<Rightarrow> SandboxSpec \<Rightarrow> (bool, 'e engine) io" where
  "Client_Ensure C spec =
     calling (requiring (SandboxSpec_Validate spec)) (\<lambda>_.
       calling (requiring (validateMountLocations (sp_Mounts spec))) (\<lambda>_.
         let name = v_Name (sp_Sandbox spec); profile = profileName (v_ProjectID (sp_Sandbox spec))
         in calling (startProfileLocked C profile) (\<lambda>_.
              calling (ensureImage C profile spec) (\<lambda>img.
                calling (containerStatus C profile name) (\<lambda>existing.
                  if existing = SandboxStatusAbsent then create_container C profile spec img
                  else calling (fingerprintMatches C profile name (specFingerprint C spec img)) (\<lambda>matches.
                    if matches then returning False
                    else calling (doing (docker C profile [''rm'', ''--force'', name])) (\<lambda>_.
                      create_container C profile spec img)))))))"

definition readyMarker :: string where "readyMarker = ''/tmp/go-merge-ready''"

text \<open>The poll of a starting container ends with the context or its deadline; \<open>None\<close> is one that does not.\<close>

partial_function (option) waitReady ::
    "('e client_world \<Rightarrow> go_error option \<times> 'e client_world) \<Rightarrow> ('e client_world \<Rightarrow> go_error option) \<Rightarrow>
     ('e client_world \<Rightarrow> bool \<times> 'e client_world) \<Rightarrow> ('e client_world \<Rightarrow> go_error option \<times> 'e client_world) \<Rightarrow>
     string \<Rightarrow> 'e client_world \<Rightarrow> (go_error option \<times> 'e client_world) option" where
  "waitReady probe cancelled expired wait name w =
     (case probe w of
        (None, w) \<Rightarrow> Some (None, w)
      | (Some err, w) \<Rightarrow>
          if cancelled w \<noteq> None then Some (cancelled w, w)
          else
            (case expired w of
               (late, w) \<Rightarrow>
                 if late then Some (Some (Wrapf ''sandbox %q did not become ready within its budget: %w'' [GStr name] [err]), w)
                 else
                   (case wait w of
                      (Some err, w) \<Rightarrow> Some (Some err, w)
                    | (None, w) \<Rightarrow> waitReady probe cancelled expired wait name w)))"

definition Client_Start :: "'e client \<Rightarrow> SandboxRef \<Rightarrow> 'e client_world \<Rightarrow> (go_error option \<times> 'e client_world) option" where
  "Client_Start C ref w =
     (case calling (ensureProfile C (ref_ProjectID ref)) (\<lambda>profile.
             calling (containerStatus C profile (ref_Name ref)) (\<lambda>status.
               calling (if status = SandboxStatusRunning then returning ()
                        else doing (docker C profile [''start'', ref_Name ref])) (\<lambda>_. returning profile))) w of
        (Inl err, w) \<Rightarrow> Some (Some err, w)
      | (Inr profile, w) \<Rightarrow>
          waitReady (docker C profile [''exec'', ref_Name ref, ''test'', ''-f'', readyMarker]) (cl_Cancelled C) (cl_Expired C)
            (cl_Wait C) (ref_Name ref) w)"

definition stopContainer :: "'e client \<Rightarrow> SandboxRef \<Rightarrow> string list \<Rightarrow> (unit, 'e engine) io" where
  "stopContainer C ref args =
     (let profile = profileName (ref_ProjectID ref)
      in calling (profileRunning C profile) (\<lambda>up.
           if \<not> up then returning ()
           else calling (containerStatus C profile (ref_Name ref)) (\<lambda>status.
             if status \<noteq> SandboxStatusRunning then returning ()
             else doing (docker C profile (args @ [ref_Name ref])))))"

definition Client_Stop :: "'e client \<Rightarrow> SandboxRef \<Rightarrow> (unit, 'e engine) io" where
  "Client_Stop C ref = stopContainer C ref [''stop'', ''--time'', ''10'']"

definition Client_StopNow :: "'e client \<Rightarrow> SandboxRef \<Rightarrow> (unit, 'e engine) io" where
  "Client_StopNow C ref = stopContainer C ref [''kill'']"

definition Client_Delete :: "'e client \<Rightarrow> SandboxRef \<Rightarrow> (unit, 'e engine) io" where
  "Client_Delete C ref =
     (let profile = profileName (ref_ProjectID ref)
      in calling (profileRunning C profile) (\<lambda>up.
           calling
             (if \<not> up then returning ()
              else calling (doing (docker C profile [''rm'', ''--force'', ''--volumes'', ref_Name ref])) (\<lambda>_.
                doing (docker C profile [''volume'', ''rm'', ''--force'', sessionVolume (ref_Name ref)])))
             (\<lambda>_. removeRecord C (ref_Name ref))))"

definition Client_Inspect :: "'e client \<Rightarrow> SandboxRef \<Rightarrow> (SandboxStatus, 'e engine) io" where
  "Client_Inspect C ref =
     calling (readRecord C (ref_Name ref)) (\<lambda>held.
       case held of
         None \<Rightarrow> returning SandboxStatusAbsent
       | Some held \<Rightarrow>
           calling (profileRunning C (lr_Profile held)) (\<lambda>up.
             if \<not> up then returning SandboxStatusStopped
             else containerStatus C (lr_Profile held) (ref_Name ref)))"

section \<open>Running the agent\<close>

definition log_rune :: "nat \<times> string \<Rightarrow> string" where
  "log_rune r =
     (if in_range 97 122 (fst r) \<or> in_range 65 90 (fst r) \<or> in_range 48 57 (fst r) \<or> fst r = 45 \<or> fst r = 95
      then snd r else ''_'')"

definition safeLogName :: "string \<Rightarrow> string" where
  "safeLogName name = (let built = concat (map log_rune (runes name)) in if built = [] then ''agent'' else built)"

definition openRunLogs :: "'e client \<Rightarrow> string \<Rightarrow> (string, 'e engine) io" where
  "openRunLogs C runID =
     calling (\<lambda>w. case cl_MkdirAll C (cl_logDir C) w of
           (Some err, w) \<Rightarrow> (Inl (Wrapf ''create agent log directory: %w'' [] [err]), w)
         | (None, w) \<Rightarrow> (Inr (), w)) (\<lambda>_.
       if runID = [] then failing (Errorf ''agent run ID is required to name its log'' [])
       else let log = filepath_Join [cl_logDir C, safeLogName runID]
            in calling (doing (cl_OpenLogs C log)) (\<lambda>_. returning log))"

definition Client_Run ::
    "'e client \<Rightarrow> SandboxRef \<Rightarrow> string \<Rightarrow> string list \<Rightarrow> 'e client_world \<Rightarrow> (string \<times> go_error option) \<times> 'e client_world" where
  "Client_Run C ref runID argv w =
     (if argv = [] then (([], Some (Errorf ''agent command is required'' [])), w)
      else
        let args = dockerArgs C (profileName (ref_ProjectID ref)) ([''exec'', ''--workdir'', guestWork, ref_Name ref] @ argv)
        in if cl_logDir C = [] then cl_Output C ''docker'' args w
           else
             (case openRunLogs C runID w of
                (Inl err, w) \<Rightarrow> (([], Some err), w)
              | (Inr log, w) \<Rightarrow> cl_OutputTo C log ''docker'' args w))"

end
