(* ===== verification/Container_Ledger.thy ===== *)
theory Container_Ledger
  imports Container_Host
begin

text \<open>
  What the provider does to the host, read off the commands it runs: asking about a sandbox never
  starts a machine, no container exists that the ledger does not name as long as \<open>Ensure\<close> makes it, and
  what \<open>Ensure\<close> takes over is not named.
\<close>

section \<open>The calls of an operation\<close>

datatype client_call =
    Ran string "string list" string "go_error option"
  | Wrote string string "go_error option"
  | Removed string

text \<open>The ports record what they do; everything else about them is open.\<close>

definition records_client :: "('e client_world \<Rightarrow> client_call list) \<Rightarrow> 'e client \<Rightarrow> bool" where
  "records_client calls C \<longleftrightarrow>
     (\<forall>name args. made calls (cl_Output C name args) (\<lambda>(out, r) cs. cs = [Ran name args out r])) \<and>
     (\<forall>path text'. made calls (cl_WriteFile C path text') (\<lambda>r cs. cs = [Wrote path text' r])) \<and>
     (\<forall>path. made calls (cl_Remove C path) (\<lambda>_ cs. cs = [Removed path])) \<and>
     (\<forall>path. silent calls (cl_ReadFile C path)) \<and> (\<forall>path. silent calls (cl_MkdirAll C path)) \<and>
     (\<forall>path name. silent calls (cl_MkdirTemp C path name)) \<and> (\<forall>path w. calls (cl_RemoveAll C path w) = calls w) \<and>
     (\<forall>path. silent calls (cl_ReadDir C path)) \<and> (\<forall>profile b w. calls (set_prepared profile b w) = calls w)"

lemma records_clientD:
  assumes "records_client calls C"
  shows "made calls (cl_Output C name args) (\<lambda>(out, r) cs. cs = [Ran name args out r])"
    "made calls (cl_WriteFile C path text') (\<lambda>r cs. cs = [Wrote path text' r])"
    "made calls (cl_Remove C path) (\<lambda>_ cs. cs = [Removed path])"
    "silent calls (cl_ReadFile C path)" "silent calls (cl_MkdirAll C path)" "silent calls (cl_MkdirTemp C path name)"
    "calls (cl_RemoveAll C path w) = calls w" "silent calls (cl_ReadDir C path)"
    "calls (set_prepared profile b w) = calls w"
  using assms unfolding records_client_def by blast+

section \<open>The shape of each operation\<close>

text \<open>A command line on the daemon of a profile, one that makes a container, and the listing of the machines.\<close>

definition on_daemon :: "'e client \<Rightarrow> string \<Rightarrow> client_call \<Rightarrow> bool" where
  "on_daemon C profile c \<longleftrightarrow> (\<exists>args out r. c = Ran ''docker'' (dockerArgs C profile args) out r)"

definition creates :: "client_call \<Rightarrow> bool" where
  "creates c \<longleftrightarrow> (\<exists>host args out r. c = Ran ''docker'' (''--host'' # host # ''create'' # args) out r)"

fun is_listing :: "client_call \<Rightarrow> bool" where
  "is_listing (Ran name args out r) \<longleftrightarrow> name = ''colima'' \<and> args = [''list'', ''--json'']"
| "is_listing c \<longleftrightarrow> False"

fun sees_running :: "'e client \<Rightarrow> string \<Rightarrow> client_call \<Rightarrow> bool" where
  "sees_running C profile (Ran name args out r) \<longleftrightarrow> name = ''colima'' \<and> args = [''list'', ''--json''] \<and> r = None \<and>
     (case parse_instances C (split_on newline out) of Inl _ \<Rightarrow> False | Inr instances \<Rightarrow> is_running profile instances)"
| "sees_running C profile c \<longleftrightarrow> False"

lemma only_Output [tracing]:
  "records_client calls C \<Longrightarrow> (\<And>out r. p (Ran name args out r)) \<Longrightarrow> only calls p (cl_Output C name args)"
  unfolding only_def by (rule made_mono [OF records_clientD(1)]) (auto split: prod.splits)

lemma only_bounded [tracing]:
  "records_client calls C \<Longrightarrow> (\<And>out r. p (Ran name args out r)) \<Longrightarrow> only calls p (bounded C name args)"
  using only_Output [of calls C p name args] unfolding only_def made_def bounded_def by (fastforce split: prod.splits)

lemma only_docker [tracing]:
  "records_client calls C \<Longrightarrow> (\<And>out r. p (Ran ''docker'' (dockerArgs C profile args) out r)) \<Longrightarrow>
     only calls p (docker C profile args)"
  unfolding docker_def by (rule only_bounded)

lemma only_dockerOutput [tracing]:
  "records_client calls C \<Longrightarrow> (\<And>out r. p (Ran ''docker'' (dockerArgs C profile args) out r)) \<Longrightarrow>
     only calls p (dockerOutput C profile args)"
  unfolding dockerOutput_def by (rule only_Output)

lemma only_case:
  "only calls p m \<Longrightarrow> (\<And>r w w'. \<exists>s. g r w = (s, w)) \<Longrightarrow> only calls p (\<lambda>w. case m w of (r, w) \<Rightarrow> g r w)"
  by (rule only_then) (auto simp: only_silent silent_def, metis only_silent silentI snd_conv)

lemma only_reading [tracing]:
  "records_client calls C \<Longrightarrow> (\<And>out r. p (Ran ''docker'' (dockerArgs C profile args) out r)) \<Longrightarrow>
     only calls p (reading C profile args)"
  using only_dockerOutput [of calls C p profile args] unfolding only_def made_def reading_def
  by (fastforce split: prod.splits option.splits)

lemma only_containerStatus [tracing]:
  "records_client calls C \<Longrightarrow> (\<And>args out r. p (Ran ''docker'' (dockerArgs C profile (''inspect'' # args)) out r)) \<Longrightarrow>
     only calls p (containerStatus C profile name)"
  using only_dockerOutput [of calls C p profile "[''inspect'', ''--format'', ''{{.State.Status}}'', name]"]
  unfolding only_def made_def containerStatus_def by (fastforce split: prod.splits option.splits if_splits)

lemma only_removeRecord [tracing]:
  assumes "records_client calls C" "\<And>path. p (Removed path)"
  shows "only calls p (removeRecord C name)"
proof -
  have "only calls p (cl_Remove C path)" for path
    unfolding only_def by (rule made_mono [OF records_clientD(3) [OF assms(1)]]) (simp add: assms(2))
  then have "only calls p (\<lambda>w. case cl_Remove C path w of
      (Inl err, w) \<Rightarrow> (Inl (Wrapf ''remove sandbox record %q: %w'' [GStr name] [err]), w) | (Inr _, w) \<Rightarrow> (Inr (), w))" for path
    unfolding only_def made_def by (fastforce split: prod.splits sum.splits)
  then show ?thesis unfolding removeRecord_def by (intro only_calling only_pure)
qed

lemma silent_readRecord:
  "records_client calls C \<Longrightarrow> silent calls (readRecord C name)"
  unfolding readRecord_def
  by (intro silent_calling silent_pure) (auto intro!: silent_calling records_clientD(4) split: option.splits sum.splits)

section \<open>Asking never starts a machine\<close>

lemma made_list_attempts:
  assumes "records_client calls C"
  shows "made calls (list_attempts C n) (\<lambda>(out, r) cs. list_all is_listing cs \<and>
    (n \<noteq> 0 \<longrightarrow> Ran ''colima'' [''list'', ''--json''] out r \<in> set cs))"
proof (induction n)
  case (Suc n)
  show ?case
  proof (rule madeI)
    fix w result w' assume run: "list_attempts C (Suc n) w = (result, w')"
    obtain out r w1 where first: "cl_Output C ''colima'' [''list'', ''--json''] w = ((out, r), w1)" by (metis surj_pair)
    from madeD [OF records_clientD(1) [OF assms] first]
    have calls1: "calls w1 = calls w @ [Ran ''colima'' [''list'', ''--json''] out r]" by auto
    show "\<exists>cs. calls w' = calls w @ cs \<and> (case result of (out, r) \<Rightarrow> \<lambda>cs. list_all is_listing cs \<and>
        (Suc n \<noteq> 0 \<longrightarrow> Ran ''colima'' [''list'', ''--json''] out r \<in> set cs)) cs"
    proof (cases "r = None \<or> cl_Cancelled C w1 \<noteq> None \<or> n = 0")
      case True
      with run first calls1 show ?thesis by auto
    next
      case False
      with run first have "list_attempts C n w1 = (result, w')" by (auto split: if_splits)
      from madeD [OF Suc.IH this] False calls1 show ?thesis by (auto split: prod.splits)
    qed
  qed
qed (rule madeI, auto)

lemma made_profileRunning:
  assumes "records_client calls C"
  shows "made calls (profileRunning C profile) (\<lambda>r cs. list_all is_listing cs \<and>
    (r = Inr True \<longrightarrow> list_ex (sees_running C profile) cs))"
proof (rule madeI)
  fix w r w' assume run: "profileRunning C profile w = (r, w')"
  obtain out res w1 where listed: "list_attempts C maxListAttempts w = ((out, res), w1)" by (metis surj_pair)
  from madeD [OF made_list_attempts [OF assms] listed] obtain cs where cs: "calls w1 = calls w @ cs"
    "list_all is_listing cs" "Ran ''colima'' [''list'', ''--json''] out res \<in> set cs"
    by (auto simp: maxListAttempts_def)
  have "w' = w1" and "r = Inr True \<Longrightarrow> res = None \<and>
      (\<exists>instances. parse_instances C (split_on newline out) = Inr instances \<and> is_running profile instances)"
    using run listed
    by (auto simp: profileRunning_def listProfiles_def calling_def returning_def split: option.splits sum.splits)
  then have "r = Inr True \<longrightarrow> list_ex (sees_running C profile) cs"
    using cs(3) by (auto simp: list_ex_iff intro!: bexI)
  with cs \<open>w' = w1\<close> show "\<exists>cs. calls w' = calls w @ cs \<and> list_all is_listing cs \<and>
      (r = Inr True \<longrightarrow> list_ex (sees_running C profile) cs)" by blast
qed

text \<open>After the listing: the daemon of the profile, the ledger, and the end of the machine.\<close>

definition asks :: "'e client \<Rightarrow> string \<Rightarrow> client_call \<Rightarrow> bool" where
  "asks C profile c \<longleftrightarrow> on_daemon C profile c \<or> (\<exists>path. c = Removed path) \<or>
     (\<exists>out r. c = Ran ''colima'' [''stop'', ''--profile'', profile] out r)"

definition looks :: "'e client \<Rightarrow> string \<Rightarrow> client_call list \<Rightarrow> bool" where
  "looks C profile cs \<longleftrightarrow> (\<exists>before after. cs = before @ after \<and> list_all is_listing before \<and> list_all (asks C profile) after \<and>
     (list_ex (on_daemon C profile) after \<longrightarrow> list_ex (sees_running C profile) before))"

lemma looks_listing: "list_all is_listing cs \<Longrightarrow> looks C profile cs"
  unfolding looks_def by (intro exI [of _ cs] exI [of _ "[]"]) simp

lemma looks_after:
  "list_all is_listing before \<Longrightarrow> list_all (asks C profile) after \<Longrightarrow>
     \<not> list_ex (on_daemon C profile) after \<or> list_ex (sees_running C profile) before \<Longrightarrow> looks C profile (before @ after)"
  unfolding looks_def by blast

lemma made_behind_listing:
  assumes "records_client calls C" "\<And>up. only calls (asks C profile) (f up)"
    and "only calls (\<lambda>c. asks C profile c \<and> \<not> on_daemon C profile c) (f False)"
  shows "made calls (calling (profileRunning C profile) f) (\<lambda>_. looks C profile)"
proof -
  have "made calls (f up) (\<lambda>_ cs. list_all (asks C profile) cs \<and> (up \<or> \<not> list_ex (on_daemon C profile) cs))" for up
    using assms(2) [of True] assms(3)
    by (cases up) (auto simp: only_def list_all_iff list_ex_iff elim!: made_mono)
  from made_calling [OF made_profileRunning [OF assms(1), of profile] this] show ?thesis
    by (rule made_mono) (auto intro: looks_listing looks_after)
qed

lemma asks_simps [simp]:
  "asks C profile (Ran ''docker'' (dockerArgs C profile args) out r)" "asks C profile (Removed path)"
  "asks C profile (Ran ''colima'' [''stop'', ''--profile'', profile] out r)"
  "\<not> on_daemon C profile (Removed path)"
  by (auto simp: asks_def on_daemon_def)

lemma only_set_prepared [tracing]: "records_client calls C \<Longrightarrow> only calls p (noting_prepared profile b)" for C :: "'e client"
  by (rule only_silent) (simp add: noting_prepared_def silent_def records_clientD(9))

lemma only_reap_each [tracing]:
  assumes "records_client calls C" "\<And>args out r. p (Ran ''docker'' (dockerArgs C profile args) out r)"
  shows "only calls p (reap_each C profile runningBefore ids reaped)"
  by (induction ids arbitrary: reaped) (auto intro!: tracing assms split: sum.splits)

text \<open>The operations that look at a sandbox or wind it down, and those that wind down a machine.\<close>

lemma looks_stopContainer: "records_client calls C \<Longrightarrow> made calls (stopContainer C ref args) (\<lambda>_. looks C (profileName (ref_ProjectID ref)))"
  unfolding stopContainer_def Let_def by (rule made_behind_listing) (auto intro!: tracing)

lemma looks_Delete: "records_client calls C \<Longrightarrow> made calls (Client_Delete C ref) (\<lambda>_. looks C (profileName (ref_ProjectID ref)))"
  unfolding Client_Delete_def Let_def by (rule made_behind_listing) (auto intro!: tracing)

lemma looks_StopProfile: "records_client calls C \<Longrightarrow> made calls (StopProfile C projectID) (\<lambda>_. looks C (profileName projectID))"
  unfolding StopProfile_def Let_def by (rule made_behind_listing) (auto intro!: tracing)

lemma looks_Reap:
  "records_client calls C \<Longrightarrow> made calls (ReapExpiredContainers C projectID rb sb) (\<lambda>_. looks C (profileName projectID))"
  unfolding ReapExpiredContainers_def Let_def by (rule made_behind_listing) (auto intro!: tracing)

lemma looks_Inspect:
  assumes "records_client calls C"
  shows "made calls (Client_Inspect C ref) (\<lambda>_ cs. \<exists>profile. looks C profile cs)"
proof -
  have none: "made calls (readRecord C name) (\<lambda>_ cs. cs = [])" for name
    by (rule madeI) (auto dest: silentD [OF silent_readRecord [OF assms]])
  have rest: "made calls (case held of None \<Rightarrow> returning SandboxStatusAbsent | Some held \<Rightarrow>
      calling (profileRunning C (lr_Profile held)) (\<lambda>up. if \<not> up then returning SandboxStatusStopped
        else containerStatus C (lr_Profile held) (ref_Name ref))) (\<lambda>_ cs. \<exists>profile. looks C profile cs)" for held
  proof (cases held)
    case None
    have "looks C [] []" by (rule looks_listing) simp
    with None show ?thesis by (auto simp: made_def returning_def)
  next
    case (Some h)
    have "made calls (calling (profileRunning C (lr_Profile h)) (\<lambda>up. if \<not> up then returning SandboxStatusStopped
        else containerStatus C (lr_Profile h) (ref_Name ref))) (\<lambda>_. looks C (lr_Profile h))"
      by (rule made_behind_listing) (auto intro!: tracing assms)
    with Some show ?thesis by (auto elim!: made_mono)
  qed
  have empty: "looks C [] []" by (rule looks_listing) simp
  from made_calling [OF none rest] show ?thesis
    unfolding Client_Inspect_def by (rule made_mono) (use empty in auto)
qed

text \<open>C31. Nothing that asks about a sandbox, stops one, deletes one or winds a machine down starts a machine:
  such an operation first lists the machines, and only if that listing shows the machine of the
  sandbox running does it run a docker command, which is addressed to the daemon of that machine; the
  one colima command it may run beside the listing is a stop.\<close>

theorem asking_never_starts_a_machine:
  fixes C :: "'e client"
  assumes "records_client calls C"
    and "op \<in> {\<lambda>w. ((), snd (Client_Inspect C ref w)), \<lambda>w. ((), snd (Client_Stop C ref w)), \<lambda>w. ((), snd (Client_StopNow C ref w)),
      \<lambda>w. ((), snd (Client_Delete C ref w)), \<lambda>w. ((), snd (StopProfile C projectID w)),
      \<lambda>w. ((), snd (ReapExpiredContainers C projectID runningBefore stoppedBefore w))}"
  shows "\<exists>before after profile. calls (snd (op w)) = calls w @ before @ after \<and> list_all is_listing before \<and>
    (\<forall>c \<in> set after. on_daemon C profile c \<or> (\<exists>path. c = Removed path) \<or>
       (\<exists>out r. c = Ran ''colima'' [''stop'', ''--profile'', profile] out r)) \<and>
    (list_ex (on_daemon C profile) after \<longrightarrow> list_ex (sees_running C profile) before)"
proof -
  have step: "\<exists>profile cs. calls (snd (m w)) = calls w @ cs \<and> looks C profile cs"
    if "made calls m (\<lambda>_ cs. \<exists>profile. looks C profile cs)" for m :: "'e client_world \<Rightarrow> 'r \<times> 'e client_world"
    using madeD [OF that, of w "fst (m w)" "snd (m w)"] by auto
  have there: "\<exists>profile cs. calls (snd (m w)) = calls w @ cs \<and> looks C profile cs"
    if "made calls m (\<lambda>_. looks C p)" for m :: "'e client_world \<Rightarrow> 'r \<times> 'e client_world" and p
    using madeD [OF that, of w "fst (m w)" "snd (m w)"] by auto
  have "\<exists>profile cs. calls (snd (op w)) = calls w @ cs \<and> looks C profile cs"
    using assms(2)
  proof (elim insertE emptyE)
    assume op: "op = (\<lambda>w. ((), snd (Client_Inspect C ref w)))"
    from step [OF looks_Inspect [OF assms(1)]] show ?thesis by (simp add: op)
  next
    assume op: "op = (\<lambda>w. ((), snd (Client_Stop C ref w)))"
    from there [OF looks_stopContainer [OF assms(1)]] show ?thesis unfolding op Client_Stop_def by simp
  next
    assume op: "op = (\<lambda>w. ((), snd (Client_StopNow C ref w)))"
    from there [OF looks_stopContainer [OF assms(1)]] show ?thesis unfolding op Client_StopNow_def by simp
  next
    assume op: "op = (\<lambda>w. ((), snd (Client_Delete C ref w)))"
    from there [OF looks_Delete [OF assms(1)]] show ?thesis unfolding op by simp
  next
    assume op: "op = (\<lambda>w. ((), snd (StopProfile C projectID w)))"
    from there [OF looks_StopProfile [OF assms(1)]] show ?thesis unfolding op by simp
  next
    assume op: "op = (\<lambda>w. ((), snd (ReapExpiredContainers C projectID runningBefore stoppedBefore w)))"
    from there [OF looks_Reap [OF assms(1)]] show ?thesis unfolding op by simp
  qed
  then show ?thesis unfolding looks_def asks_def list_all_iff by blast
qed

section \<open>The ledger names a container before it exists\<close>

lemma creates_simps [simp]:
  "creates (Ran ''docker'' (dockerArgs C profile (verb # args)) out r) \<longleftrightarrow> verb = ''create''"
  "\<not> creates (Ran ''colima'' args out r)" "\<not> creates (Wrote path text' r)" "\<not> creates (Removed path)"
  by (auto simp: creates_def dockerArgs_def)

lemma only_profileRunning [tracing]:
  assumes "records_client calls C" "\<And>out r. p (Ran ''colima'' [''list'', ''--json''] out r)"
  shows "only calls p (profileRunning C profile)"
  unfolding only_def
proof (rule made_mono [OF made_profileRunning [OF assms(1)]])
  fix r cs assume "list_all is_listing cs \<and> (r = Inr True \<longrightarrow> list_ex (sees_running C profile) cs)"
  moreover have "is_listing c \<Longrightarrow> p c" for c using assms(2) by (cases c) auto
  ultimately show "list_all p cs" by (auto simp: list_all_iff)
qed

lemma only_recorded [tracing]:
  assumes "records_client calls C" shows "only calls p (recordedNames C profile)"
proof -
  have "silent calls (recorded_loop C profile entries)" for entries
  proof (induction entries)
    case (Cons entry entries)
    have "silent calls (\<lambda>w. case readRecord C name w of
        (Inl err, w) \<Rightarrow> (Inl (Wrapf ''read sandbox record %q: %w'' [GStr name] [err]), w)
      | (Inr held, w) \<Rightarrow> calling (recorded_loop C profile entries) (\<lambda>names.
          returning (if held \<noteq> None \<and> lr_Profile (the held) = profile then name # names else names)) w)" for name
    proof (rule silentI)
      fix w r w'
      assume run: "(case readRecord C name w of
          (Inl err, w) \<Rightarrow> (Inl (Wrapf ''read sandbox record %q: %w'' [GStr name] [err]), w)
        | (Inr held, w) \<Rightarrow> calling (recorded_loop C profile entries) (\<lambda>names.
            returning (if held \<noteq> None \<and> lr_Profile (the held) = profile then name # names else names)) w) = (r, w')"
      obtain res w1 where read: "readRecord C name w = (res, w1)" by (metis surj_pair)
      note same = silentD [OF silent_readRecord [OF assms] read]
      show "calls w' = calls w"
      proof (cases res)
        case (Inr held)
        with run read have "calling (recorded_loop C profile entries) (\<lambda>names.
            returning (if held \<noteq> None \<and> lr_Profile (the held) = profile then name # names else names)) w1 = (r, w')" by simp
        from silentD [OF silent_calling [OF Cons.IH silent_pure(1)] this] same show ?thesis by simp
      qed (use run read same in auto)
    qed
    with Cons show ?case by (auto split: option.split)
  qed simp
  then have "silent calls (recordedNames C profile)"
    unfolding recordedNames_def
    by (auto intro!: silent_calling records_clientD(8) [OF assms] split: option.split)
  then show ?thesis by (rule only_silent)
qed

definition makes_volume :: "client_call \<Rightarrow> bool" where
  "makes_volume c \<longleftrightarrow> (\<exists>host args out. c = Ran ''docker'' (''--host'' # host # ''volume'' # ''create'' # args) out None)"

lemma makes_volume_simps [simp]:
  "makes_volume (Ran ''docker'' (dockerArgs C profile (verb # args)) out r) \<longleftrightarrow>
     verb = ''volume'' \<and> args \<noteq> [] \<and> hd args = ''create'' \<and> r = None"
  "\<not> makes_volume (Ran ''colima'' args' out r)" "\<not> makes_volume (Wrote path text' r)" "\<not> makes_volume (Removed path)"
  by (cases args; auto simp: makes_volume_def dockerArgs_def)+

definition plain_call :: "client_call \<Rightarrow> bool" where
  "plain_call c \<longleftrightarrow> \<not> creates c \<and> \<not> makes_volume c"

lemma plain_call_simps [simp]:
  "plain_call (Ran ''docker'' (dockerArgs C profile (verb # args)) out r) \<longleftrightarrow>
     verb \<noteq> ''create'' \<and> \<not> (verb = ''volume'' \<and> args \<noteq> [] \<and> hd args = ''create'' \<and> r = None)"
  "plain_call (Ran ''colima'' args' out r)" "plain_call (Wrote path text' r)" "plain_call (Removed path)"
  by (simp_all add: plain_call_def)

lemma only_WriteFile [tracing]:
  "records_client calls C \<Longrightarrow> (\<And>r. p (Wrote path text' r)) \<Longrightarrow> only calls p (cl_WriteFile C path text')"
  unfolding only_def by (rule made_mono [OF records_clientD(2)]) auto

text \<open>What any part of \<open>Ensure\<close> but the creation of a container and its volume may do.\<close>

definition benign :: "'e client \<Rightarrow> SandboxSpec \<Rightarrow> (client_call \<Rightarrow> bool) \<Rightarrow> bool" where
  "benign C spec p \<longleftrightarrow> (\<forall>args out r. p (Ran ''colima'' args out r)) \<and>
     (\<forall>profile verb args out r. verb \<noteq> ''create'' \<and> verb \<noteq> ''volume'' \<longrightarrow> p (Ran ''docker'' (dockerArgs C profile (verb # args)) out r)) \<and>
     (\<forall>directory name contents r. (name, contents) \<in> set (cl_files C spec) \<longrightarrow> p (Wrote (filepath_Join [directory, name]) contents r))"

lemma benign_plain_call: "benign C spec plain_call"
  by (simp add: benign_def)

lemma only_startProfileLocked:
  assumes "records_client calls C" "benign C spec p" shows "only calls p (startProfileLocked C profile)"
proof -
  note ok = assms(2) [unfolded benign_def, THEN conjunct1, rule_format]
    assms(2) [unfolded benign_def, THEN conjunct2, THEN conjunct1, rule_format]
  have prune: "only calls p (pruneOrphanContainers C profile)"
    unfolding pruneOrphanContainers_def Let_def by (auto intro!: tracing assms(1) ok)
  have boot: "only calls p (calling (wrapping ''start Colima profile %q: %w'' profile
      (doing (bounded C ''colima'' (startArgs C profile)))) (\<lambda>_. noting_prepared profile False))"
    by (auto intro!: tracing assms(1) ok)
  have prepare: "only calls p (calling (prepareProfile C profile) (\<lambda>_. noting_prepared profile True))"
    unfolding prepareProfile_def by (auto intro!: tracing assms(1) ok)
  have at: "only calls p (\<lambda>w. f w w)" if "\<And>w. only calls p (f w)" for p and f :: "'a client_world \<Rightarrow> 'a client_world \<Rightarrow> 'r \<times> 'a client_world"
    using that unfolding only_def made_def by blast
  have last': "only calls p (\<lambda>w. calling (if prepared profile w then returning ()
        else calling (prepareProfile C profile) (\<lambda>_. noting_prepared profile True))
      (\<lambda>_. if up then returning () else pruneOrphanContainers C profile) w)" for up
    by (rule at) (auto intro!: only_calling only_pure prepare prune)
  have "only calls p (\<lambda>w. (Inr (), w))"
    by (rule only_silent) (simp add: silent_def)
  then have body: "only calls p (\<lambda>w. if up \<and> prepared profile w0 then (Inr (), w)
       else calling (if up then returning ()
            else calling (wrapping ''start Colima profile %q: %w'' profile (doing (bounded C ''colima'' (startArgs C profile))))
                   (\<lambda>_. noting_prepared profile False))
           (\<lambda>_ w. calling (if prepared profile w then returning ()
                 else calling (prepareProfile C profile) (\<lambda>_. noting_prepared profile True))
                (\<lambda>_. if up then returning () else pruneOrphanContainers C profile) w) w)" for up w0
  proof (cases "up \<and> prepared profile w0")
    case False
    have "only calls p (if up then returning ()
            else calling (wrapping ''start Colima profile %q: %w'' profile (doing (bounded C ''colima'' (startArgs C profile))))
                   (\<lambda>_. noting_prepared profile False))"
      using boot by (simp add: only_pure)
    from only_calling [OF this last' [of up]] False show ?thesis by (simp only: if_False simp_thms)
  qed simp
  show ?thesis unfolding startProfileLocked_def
    by (rule only_calling, rule only_profileRunning [OF assms(1)], rule ok(1), rule at [OF body])
qed

lemma only_ensureImage:
  assumes "records_client calls C" "benign C spec p" shows "only calls p (ensureImage C profile spec)"
proof -
  note ok = assms(2) [unfolded benign_def, THEN conjunct2, THEN conjunct1, rule_format]
    assms(2) [unfolded benign_def, THEN conjunct2, THEN conjunct2, rule_format]
  have files: "set files \<subseteq> set (cl_files C spec) \<Longrightarrow> only calls p (write_files C directory files)" for directory files
    by (induction files) (auto intro!: tracing assms(1) ok)
  have deferred: "only calls p m \<Longrightarrow> only calls p (deferring (cl_RemoveAll C directory) m)" for directory and m :: "(unit, 'a engine) io"
    unfolding only_def made_def deferring_def by (auto simp: records_clientD(7) [OF assms(1)] split: prod.splits)
  have build: "only calls p (buildImage C profile spec tag)" for tag
    unfolding buildImage_def
    by (auto intro!: tracing deferred files assms(1) ok only_silent [OF records_clientD(5) [OF assms(1)]]
        only_silent [OF records_clientD(6) [OF assms(1)]])
  have "only calls p (pruneSupersededImages C profile)"
    unfolding pruneSupersededImages_def Let_def by (auto intro!: tracing assms(1) ok)
  then have rest: "only calls p (calling (pruneSupersededImages C profile) (\<lambda>_.
      calling (wrapping ''build agent image %q: %w'' tag (buildImage C profile spec tag)) (\<lambda>_. returning tag)))" for tag
    by (auto intro!: tracing build)
  have "only calls p (docker C profile [''image'', ''inspect'', tag])" for tag
    by (auto intro!: tracing assms(1) ok)
  then show ?thesis
    using rest unfolding ensureImage_def Let_def only_def made_def
    by (fastforce split: prod.splits option.splits if_splits)
qed

lemma only_fingerprintMatches:
  assumes "records_client calls C" "\<And>args out r. p (Ran ''docker'' (dockerArgs C profile (''inspect'' # args)) out r)"
  shows "only calls p (fingerprintMatches C profile name fingerprint)"
  using only_dockerOutput [OF assms(1), of p profile "[''inspect'', ''--format'', label_format, name]"]
  unfolding only_def made_def fingerprintMatches_def using assms(2) by (fastforce split: prod.splits option.splits if_splits)

text \<open>What \<open>Ensure\<close> adds: no container without its record, and \<open>created\<close> for a volume that is new.\<close>

definition names_then_creates :: "'e client \<Rightarrow> SandboxSpec \<Rightarrow> client_call list \<Rightarrow> bool" where
  "names_then_creates C spec cs \<longleftrightarrow>
     (\<exists>pre path img out res.
        recordPath C (v_Name (sp_Sandbox spec)) = Inr path \<and> list_all (Not \<circ> creates) pre \<and>
        cs = pre @ [Wrote path (cl_record_text C \<lparr>lr_Profile = profileName (v_ProjectID (sp_Sandbox spec)), lr_Image = img,
                      lr_Spec = specFingerprint C spec img\<rparr>) None,
                    Ran ''docker'' (dockerArgs C (profileName (v_ProjectID (sp_Sandbox spec))) (createArgs C spec img)) out res])"

definition ensures :: "'e client \<Rightarrow> SandboxSpec \<Rightarrow> go_error + bool \<Rightarrow> client_call list \<Rightarrow> bool" where
  "ensures C spec r cs \<longleftrightarrow> (list_all (Not \<circ> creates) cs \<or> names_then_creates C spec cs) \<and>
     (\<forall>created. r = Inr created \<longrightarrow> (created \<longleftrightarrow> list_ex makes_volume cs))"

lemma ensures_plain: "list_all plain_call cs \<Longrightarrow> r \<noteq> Inr True \<Longrightarrow> ensures C spec r cs"
  by (cases r) (auto simp: ensures_def plain_call_def list_all_iff list_ex_iff)

lemma names_then_creates_after:
  assumes "list_all (Not \<circ> creates) before" "names_then_creates C spec after"
  shows "names_then_creates C spec (before @ after)"
proof -
  obtain pre path img out res where after: "recordPath C (v_Name (sp_Sandbox spec)) = Inr path" "list_all (Not \<circ> creates) pre"
    "after = pre @ [Wrote path (cl_record_text C \<lparr>lr_Profile = profileName (v_ProjectID (sp_Sandbox spec)), lr_Image = img,
        lr_Spec = specFingerprint C spec img\<rparr>) None,
      Ran ''docker'' (dockerArgs C (profileName (v_ProjectID (sp_Sandbox spec))) (createArgs C spec img)) out res]"
    using assms(2) unfolding names_then_creates_def by blast
  show ?thesis
    unfolding names_then_creates_def
    by (rule exI [of _ "before @ pre"], rule exI [of _ path], rule exI [of _ img], rule exI [of _ out], rule exI [of _ res])
      (use after assms(1) in simp)
qed

lemma ensures_after: "list_all plain_call before \<Longrightarrow> ensures C spec r after \<Longrightarrow> ensures C spec r (before @ after)"
proof -
  assume plain: "list_all plain_call before" and ens: "ensures C spec r after"
  then have quiet: "list_all (Not \<circ> creates) before" "\<not> list_ex makes_volume before"
    by (auto simp: plain_call_def list_all_iff list_ex_iff)
  with ens names_then_creates_after [OF quiet(1)] show ?thesis unfolding ensures_def by auto
qed

lemma made_ensures_after:
  assumes "only calls plain_call m" "\<And>a. made calls (f a) (ensures C spec)"
  shows "made calls (calling m f) (ensures C spec)"
  by (rule made_mono [OF made_calling [OF assms(1) [unfolded only_def] assms(2)]])
    (auto intro: ensures_plain ensures_after)

lemma made_writeRecord:
  assumes "records_client calls C" "writeRecord C name held w = (r, w')"
  shows "(\<exists>err ds. r = Inl err \<and> calls w' = calls w @ ds \<and> list_all plain_call ds) \<or>
    (\<exists>path. r = Inr () \<and> recordPath C name = Inr path \<and> calls w' = calls w @ [Wrote path (cl_record_text C held) None])"
proof (cases "recordPath C name")
  case (Inl err)
  with assms(2) show ?thesis by (auto simp: writeRecord_def calling_def settling_def)
next
  case (Inr path)
  obtain res w1 where dir: "cl_MkdirAll C (filepath_Clean (cl_stateDir C)) w = (res, w1)" by (metis surj_pair)
  note same = silentD [OF records_clientD(5) [OF assms(1)] dir]
  show ?thesis
  proof (cases res)
    case None
    obtain res' w2 where wrote: "cl_WriteFile C path (cl_record_text C held) w1 = (res', w2)" by (metis surj_pair)
    from madeD [OF records_clientD(2) [OF assms(1)] wrote]
    have "calls w2 = calls w @ [Wrote path (cl_record_text C held) res']" by (simp add: same)
    with None Inr dir wrote assms(2) show ?thesis
      by (cases res') (auto simp: writeRecord_def calling_def settling_def doing_def)
  next
    case (Some err)
    with Inr dir assms(2) same show ?thesis by (auto simp: writeRecord_def calling_def settling_def doing_def)
  qed
qed

lemma made_docker:
  "records_client calls C \<Longrightarrow> docker C profile args w = (r, w') \<Longrightarrow>
     \<exists>out. calls w' = calls w @ [Ran ''docker'' (dockerArgs C profile args) out r]"
  using madeD [OF records_clientD(1) [of calls C "''docker''" "dockerArgs C profile args"]]
  unfolding docker_def bounded_def by (fastforce split: prod.splits)

lemma made_create_container:
  assumes "records_client calls C" "profile = profileName (v_ProjectID (sp_Sandbox spec))"
  shows "made calls (create_container C profile spec img) (ensures C spec)"
proof (rule madeI)
  fix w r w' assume run: "create_container C profile spec img w = (r, w')"
  let ?name = "v_Name (sp_Sandbox spec)"
  let ?text = "cl_record_text C \<lparr>lr_Profile = profile, lr_Image = img, lr_Spec = specFingerprint C spec img\<rparr>"
  obtain vol w1 where vol: "ensureSessionVolume C profile ?name w = (vol, w1)" by (metis surj_pair)
  have volume: "\<exists>cs. calls w1 = calls w @ cs \<and> list_all (Not \<circ> creates) cs \<and> (\<forall>b. vol = Inr b \<longrightarrow> b = list_ex makes_volume cs)"
  proof -
    obtain res w2 where inspected: "docker C profile [''volume'', ''inspect'', sessionVolume ?name] w = (res, w2)" by (metis surj_pair)
    note D = made_docker [OF assms(1)]
    from D [OF inspected] obtain out where one: "calls w2 = calls w @ [Ran ''docker'' (dockerArgs C profile [''volume'', ''inspect'', sessionVolume ?name]) out res]"
      by blast
    show ?thesis
    proof (cases "\<exists>err. res = Some err \<and> isNoSuchVolume C (Some err)")
      case False
      with vol inspected one show ?thesis
        by (auto simp: ensureSessionVolume_def Let_def split: option.splits if_splits)
    next
      case True
      obtain res' w3 where made': "docker C profile [''volume'', ''create'', sessionVolume ?name] w2 = (res', w3)" by (metis surj_pair)
      from D [OF made'] obtain out' where two: "calls w3 = calls w2 @ [Ran ''docker'' (dockerArgs C profile [''volume'', ''create'', sessionVolume ?name]) out' res']"
        by blast
      from True vol inspected made' one two show ?thesis
        by (auto simp: ensureSessionVolume_def Let_def calling_def doing_def returning_def split: option.splits)
    qed
  qed
  then obtain cs where cs: "calls w1 = calls w @ cs" "list_all (Not \<circ> creates) cs" "\<forall>b. vol = Inr b \<longrightarrow> b = list_ex makes_volume cs"
    by blast
  show "\<exists>cs. calls w' = calls w @ cs \<and> ensures C spec r cs"
  proof (cases vol)
    case (Inl err)
    with run vol cs show ?thesis by (auto simp: create_container_def Let_def calling_def ensures_def)
  next
    case (Inr created)
    let ?held = "\<lparr>lr_Profile = profile, lr_Image = img, lr_Spec = specFingerprint C spec img\<rparr>"
    obtain wr w2 where wrote: "writeRecord C ?name ?held w1 = (wr, w2)" by (metis surj_pair)
    from made_writeRecord [OF assms(1) wrote] show ?thesis
    proof (elim disjE exE conjE)
      fix err ds assume fails: "wr = Inl err" "calls w2 = calls w1 @ ds" "list_all plain_call ds"
      then have "list_all (Not \<circ> creates) (cs @ ds)"
        using cs(2) by (auto simp: plain_call_def list_all_iff)
      moreover have "r = Inl err" "w' = w2"
        using run vol Inr wrote fails(1) by (simp_all add: create_container_def Let_def calling_def)
      ultimately show ?thesis using cs(1) fails(2) by (auto simp: ensures_def)
    next
      fix path assume named: "wr = Inr ()" "recordPath C ?name = Inr path" "calls w2 = calls w1 @ [Wrote path (cl_record_text C ?held) None]"
      obtain res w3 where last': "docker C profile (createArgs C spec img) w2 = (res, w3)" by (metis surj_pair)
      from made_docker [OF assms(1) last'] obtain out where
        out: "calls w3 = calls w2 @ [Ran ''docker'' (dockerArgs C profile (createArgs C spec img)) out res]" by blast
      let ?cs = "cs @ [Wrote path (cl_record_text C ?held) None, Ran ''docker'' (dockerArgs C profile (createArgs C spec img)) out res]"
      have "w' = w3" and r: "\<And>b. r = Inr b \<Longrightarrow> b = created"
        using run vol Inr wrote named(1) last'
        by (auto simp: create_container_def Let_def calling_def doing_def returning_def split: option.splits)
      then have "calls w' = calls w @ ?cs" using cs(1) named(3) out by simp
      moreover have "names_then_creates C spec ?cs"
        unfolding names_then_creates_def assms(2) [symmetric]
        by (rule exI [of _ cs], rule exI [of _ path], rule exI [of _ img], rule exI [of _ out], rule exI [of _ res])
          (use named(2) cs(2) in simp)
      moreover have "list_ex makes_volume ?cs = list_ex makes_volume cs" by (simp add: createArgs_def Let_def)
      ultimately show ?thesis using r cs(3) Inr unfolding ensures_def by (intro exI [of _ ?cs]) auto
    qed
  qed
qed

lemma made_Ensure:
  assumes "records_client calls C" shows "made calls (Client_Ensure C spec) (ensures C spec)"
proof -
  let ?profile = "profileName (v_ProjectID (sp_Sandbox spec))" and ?name = "v_Name (sp_Sandbox spec)"
  note create = made_create_container [OF assms refl]
  have plain: "made calls (returning False) (ensures C spec)"
    by (rule madeI) (auto simp: returning_def ensures_def)
  have "made calls (if existing = SandboxStatusAbsent then create_container C ?profile spec img
      else calling (fingerprintMatches C ?profile ?name (specFingerprint C spec img)) (\<lambda>matches.
        if matches then returning False
        else calling (doing (docker C ?profile [''rm'', ''--force'', ?name])) (\<lambda>_. create_container C ?profile spec img)))
      (ensures C spec)" for existing img
    using create plain
    by (auto intro!: made_ensures_after only_fingerprintMatches only_doing only_docker assms)
  then show ?thesis
    unfolding Client_Ensure_def Let_def
    by (intro made_ensures_after only_pure only_startProfileLocked only_ensureImage only_containerStatus benign_plain_call assms) auto
qed

section \<open>What \<open>Ensure\<close> takes over\<close>

lemma only_volume:
  assumes "only calls p m" "only calls p n"
  shows "only calls p (\<lambda>w. case m w of (None, w) \<Rightarrow> (a, w) | (Some err, w) \<Rightarrow> if f err then (g err, w) else n w)"
  using assms unfolding only_def made_def by (fastforce split: prod.splits option.splits if_splits)

lemma doing_ok: "doing m w = (Inr (), w') \<longleftrightarrow> m w = (None, w')"
  by (auto simp: doing_def split: prod.splits option.splits)

lemma creates_on_success:
  assumes "records_client calls C" "create_container C profile spec img w = (Inr created, w')"
  shows "\<exists>cs. calls w' = calls w @ cs \<and> list_ex creates cs"
proof -
  let ?name = "v_Name (sp_Sandbox spec)"
  from assms(2) obtain w1 w2 where steps: "ensureSessionVolume C profile ?name w = (Inr created, w1)"
    "writeRecord C ?name \<lparr>lr_Profile = profile, lr_Image = img, lr_Spec = specFingerprint C spec img\<rparr> w1 = (Inr (), w2)"
    "docker C profile (createArgs C spec img) w2 = (None, w')"
    by (auto simp: create_container_def Let_def calling_Inr doing_ok returning_def)
  have "only calls (\<lambda>_. True) (docker C profile args)" for args
    by (rule only_docker [OF assms(1)]) simp
  then have "only calls (\<lambda>_. True) (ensureSessionVolume C profile ?name)"
    unfolding ensureSessionVolume_def Let_def
    by (intro only_volume) (auto intro!: tracing assms(1))
  from madeD [OF this [unfolded only_def] steps(1)] obtain cs1 where "calls w1 = calls w @ cs1" by blast
  moreover from made_writeRecord [OF assms(1) steps(2)] obtain cs2 where "calls w2 = calls w1 @ cs2" by auto
  moreover from made_docker [OF assms(1) steps(3)] obtain out
    where "calls w' = calls w2 @ [Ran ''docker'' (dockerArgs C profile (createArgs C spec img)) out None]" by blast
  ultimately have "calls w' = calls w @ (cs1 @ cs2 @ [Ran ''docker'' (dockerArgs C profile (createArgs C spec img)) out None])"
    by simp
  then show ?thesis by (intro exI conjI) (auto simp: createArgs_def Let_def)
qed

text \<open>An \<open>Ensure\<close> that succeeds either creates a container or answers \<open>False\<close> and does nothing that is not benign.\<close>

definition reuses :: "(client_call \<Rightarrow> bool) \<Rightarrow> go_error + bool \<Rightarrow> client_call list \<Rightarrow> bool" where
  "reuses p r cs \<longleftrightarrow> (\<forall>b. r = Inr b \<longrightarrow> list_ex creates cs \<or> \<not> b \<and> list_all p cs)"

lemma made_reuses_after:
  assumes "only calls p m" "\<And>a. made calls (f a) (reuses p)"
  shows "made calls (calling m f) (reuses p)"
  by (rule made_mono [OF made_calling [OF assms(1) [unfolded only_def] assms(2)]])
    (unfold reuses_def, elim disjE exE conjE, simp, simp)

lemma made_any_after:
  assumes "only calls (\<lambda>_. True) m" "\<And>a. made calls (f a) (\<lambda>r cs. \<forall>b. r = Inr b \<longrightarrow> list_ex creates cs)"
  shows "made calls (calling m f) (reuses p)"
  by (rule made_mono [OF made_calling [OF assms(1) [unfolded only_def] assms(2)]])
    (unfold reuses_def, elim disjE exE conjE, simp, simp)

lemma Ensure_reuses:
  assumes "records_client calls C" "benign C spec p" shows "made calls (Client_Ensure C spec) (reuses p)"
proof -
  let ?profile = "profileName (v_ProjectID (sp_Sandbox spec))" and ?name = "v_Name (sp_Sandbox spec)"
  note ok = assms(2) [unfolded benign_def, THEN conjunct2, THEN conjunct1, rule_format]
  have create: "made calls (create_container C ?profile spec img) (\<lambda>r cs. \<forall>b. r = Inr b \<longrightarrow> list_ex creates cs)" for img
  proof (rule madeI)
    fix w r w' assume run: "create_container C ?profile spec img w = (r, w')"
    show "\<exists>cs. calls w' = calls w @ cs \<and> (\<forall>b. r = Inr b \<longrightarrow> list_ex creates cs)"
    proof (cases r)
      case (Inl err)
      with madeD [OF made_create_container [OF assms(1) refl] run] show ?thesis by auto
    next
      case (Inr b)
      with creates_on_success [OF assms(1)] run show ?thesis by auto
    qed
  qed
  then have create': "made calls (create_container C ?profile spec img) (reuses p)" for img
    by (rule made_mono) (simp add: reuses_def)
  have "made calls (returning False) (reuses p)"
    by (rule madeI) (auto simp: returning_def reuses_def)
  moreover have "made calls (calling (doing (docker C ?profile [''rm'', ''--force'', ?name])) (\<lambda>_. create_container C ?profile spec img)) (reuses p)" for img
    by (rule made_any_after [OF _ create]) (auto intro!: tracing assms(1))
  ultimately have "made calls (if existing = SandboxStatusAbsent then create_container C ?profile spec img
      else calling (fingerprintMatches C ?profile ?name (specFingerprint C spec img)) (\<lambda>matches.
        if matches then returning False
        else calling (doing (docker C ?profile [''rm'', ''--force'', ?name])) (\<lambda>_. create_container C ?profile spec img)))
      (reuses p)" for existing img
    using create' by (auto intro!: made_reuses_after only_fingerprintMatches assms(1) ok)
  then show ?thesis
    unfolding Client_Ensure_def Let_def
    by (intro made_reuses_after only_pure only_startProfileLocked [OF assms] only_ensureImage [OF assms] only_containerStatus assms ok) auto
qed

text \<open>C32. \<open>Ensure\<close> never creates a container that the ledger does not name: whatever colima and docker answer, a
  call creates at most one container, as its last step, and the step before has written the record
  of that sandbox with the profile, the image and the fingerprint the container is created with. A
  call that succeeds answers \<open>created\<close> exactly when it has created the session volume.\<close>

theorem Ensure_names_before_it_creates:
  assumes "records_client calls C" "Client_Ensure C spec w = (r, w')"
  shows "\<exists>cs. calls w' = calls w @ cs \<and> (\<forall>created. r = Inr created \<longrightarrow> (created \<longleftrightarrow> list_ex makes_volume cs)) \<and>
    (list_all (Not \<circ> creates) cs \<or>
     (\<exists>pre path img out res.
        recordPath C (v_Name (sp_Sandbox spec)) = Inr path \<and> list_all (Not \<circ> creates) pre \<and>
        cs = pre @ [Wrote path (cl_record_text C \<lparr>lr_Profile = profileName (v_ProjectID (sp_Sandbox spec)), lr_Image = img,
                      lr_Spec = specFingerprint C spec img\<rparr>) None,
                    Ran ''docker'' (dockerArgs C (profileName (v_ProjectID (sp_Sandbox spec))) (createArgs C spec img)) out res]))"
  using madeD [OF made_Ensure [OF assms(1)] assms(2)] unfolding ensures_def names_then_creates_def by blast

text \<open>The state of one file: what the last call that touched it left.\<close>

fun left_by :: "string \<Rightarrow> client_call list \<Rightarrow> string option \<Rightarrow> string option" where
  "left_by path [] contents = contents"
| "left_by path (Wrote p text' r # cs) contents =
     left_by path cs (if p = path \<and> r = None then Some text' else contents)"
| "left_by path (Removed p # cs) contents = left_by path cs (if p = path then None else contents)"
| "left_by path (Ran name args out r # cs) contents = left_by path cs contents"

fun touches :: "string \<Rightarrow> client_call \<Rightarrow> bool" where
  "touches path (Wrote p text' r) \<longleftrightarrow> p = path"
| "touches path (Removed p) \<longleftrightarrow> p = path"
| "touches path (Ran name args out r) \<longleftrightarrow> False"

lemma left_by_append: "left_by path (cs @ ds) contents = left_by path ds (left_by path cs contents)"
  by (induction path cs contents rule: left_by.induct) auto

lemma left_by_untouched: "list_all (Not \<circ> touches path) cs \<Longrightarrow> left_by path cs contents = contents"
  by (induction path cs contents rule: left_by.induct) auto

text \<open>C34. A container that \<open>Ensure\<close> takes over without a record stays without one. When the ledger does not name
  the sandbox and \<open>Ensure\<close> succeeds without creating a container, because the machine holds one that
  matches, no record is written: \<open>Inspect\<close> answers that the sandbox is absent from then on, while its
  container is there and the round runs in it.\<close>

theorem container_taken_over_stays_unrecorded:
  assumes "records_client calls C"
    and "recordPath C (v_Name (sp_Sandbox spec)) = Inr path"
    and reads: "\<And>v. cl_ReadFile C path v = (Inr (left_by path (calls v) None), v)"
    and "\<And>directory name contents. (name, contents) \<in> set (cl_files C spec) \<Longrightarrow> filepath_Join [directory, name] \<noteq> path"
    and "left_by path (calls w) None = None"
    and "Client_Ensure C spec w = (Inr created, w')" and "calls w' = calls w @ cs" and "list_all (Not \<circ> creates) cs"
  shows "\<not> created \<and> left_by path (calls w') None = None \<and>
    Client_Inspect C (Sandbox_Ref (sp_Sandbox spec)) w' = (Inr SandboxStatusAbsent, w')"
proof -
  have "benign C spec (Not \<circ> touches path)"
    using assms(4) by (simp add: benign_def)
  from madeD [OF Ensure_reuses [OF assms(1) this] assms(6)] assms(7)
  have "reuses (Not \<circ> touches path) (Inr created) cs" by auto
  moreover have "\<not> list_ex creates cs" using assms(8) by (auto simp: list_all_iff list_ex_iff)
  ultimately have "\<not> created" "list_all (Not \<circ> touches path) cs" by (auto simp: reuses_def)
  then have "left_by path (calls w') None = None"
    using assms(5) by (simp add: assms(7) left_by_append left_by_untouched)
  with \<open>\<not> created\<close> show ?thesis
    by (simp add: Client_Inspect_def readRecord_def calling_def settling_def assms(2) reads Sandbox_Ref_def returning_def)
qed

section \<open>An example host\<close>

text \<open>A machine that runs, holds the container of the sandbox, and was not prepared by this process.\<close>

definition shed_calls :: "client_call list client_world \<Rightarrow> client_call list" where
  "shed_calls w = en_env (w_ext w)"

definition shed_call :: "client_call \<Rightarrow> client_call list client_world \<Rightarrow> client_call list client_world" where
  "shed_call c w = w\<lparr>w_ext := (w_ext w)\<lparr>en_env := en_env (w_ext w) @ [c]\<rparr>\<rparr>"

definition shed_answer :: "string \<Rightarrow> string list \<Rightarrow> string" where
  "shed_answer name args =
     (if name = ''colima'' then ''vm'' else if 4 < length args \<and> args ! 4 = label_format then ''f'' else ''running'')"

definition shed :: "client_call list client" where
  "shed =
     \<lparr>cl_logDir = [], cl_hostRoot = ''/r'', cl_stateDir = ''/s'', cl_buildDir = ''/b'', cl_colimaHome = ''/c'', cl_vmType = ''vz'',
      cl_Output = (\<lambda>name args w. ((shed_answer name args, None), shed_call (Ran name args (shed_answer name args) None) w)),
      cl_OutputTo = (\<lambda>log name args w. (([], None), w)),
      cl_Cancelled = (\<lambda>w. None),
      cl_ReadFile = (\<lambda>path w. (Inr (left_by path (shed_calls w) None), w)),
      cl_WriteFile = (\<lambda>path text' w. (None, shed_call (Wrote path text' None) w)),
      cl_MkdirAll = (\<lambda>path. Pair None),
      cl_MkdirTemp = (\<lambda>path name. Pair (Inr path)),
      cl_RemoveAll = (\<lambda>path w. w),
      cl_Remove = (\<lambda>path w. (Inr True, shed_call (Removed path) w)),
      cl_ReadDir = (\<lambda>path. Pair (Inr None)),
      cl_OpenLogs = (\<lambda>path. Pair None),
      cl_Expired = Pair True,
      cl_Wait = Pair None,
      cl_text = (\<lambda>_. ''error''), cl_ulower = (\<lambda>n. n), cl_sha256 = (\<lambda>_. ''f''),
      cl_instance = (\<lambda>_. Inr (own_machine (profileName 3))),
      cl_record = (\<lambda>_. Inr \<lparr>lr_Profile = profileName 3, lr_Image = [], lr_Spec = ''f''\<rparr>),
      cl_record_text = (\<lambda>_. ''record''), cl_time = (\<lambda>_. Inr 0), cl_time_text = (\<lambda>_. ''0''),
      cl_security = [], cl_prepareScript = [], cl_files = (\<lambda>_. [])\<rparr>"

definition shed_world :: "client_call list client_world" where
  "shed_world = \<lparr>w_supervisor = NewRunSupervisor, w_ext = \<lparr>en_prepared = {}, en_env = []\<rparr>\<rparr>"

lemma shed_records: "records_client shed_calls shed"
  by (simp add: records_client_def made_def silent_def shed_def shed_call_def shed_calls_def set_prepared_def split_beta)

lemma shed_trim [simp]: "trim_space ''vm'' = ''vm''" "trim_space ''f'' = ''f''" "trim_space ''running'' = ''running''"
  by (intro trim_space_solid; simp add: byte_def is_space_def in_range_def)+

lemma shed_running:
  "profileRunning shed (profileName 3) w = (Inr True, shed_call (Ran ''colima'' [''list'', ''--json''] ''vm'' None) w)"
proof -
  have "list_attempts shed maxListAttempts w =
      ((''vm'', None), shed_call (Ran ''colima'' [''list'', ''--json''] ''vm'' None) w)"
    by (simp add: maxListAttempts_def numeral_2_eq_2 shed_def shed_answer_def)
  moreover have "parse_instances shed (split_on newline ''vm'') = Inr [own_machine (profileName 3)]"
    by (simp add: newline_def Let_def) (simp add: shed_def)
  ultimately show ?thesis
    by (simp add: profileRunning_def listProfiles_def calling_def returning_def own_machine_def)
qed

lemma shed_docker:
  "docker shed profile args w = (None, shed_call (Ran ''docker'' (dockerArgs shed profile args)
     (shed_answer ''docker'' (dockerArgs shed profile args)) None) w)"
  by (simp add: docker_def bounded_def) (simp add: shed_def)

lemma shed_dockerOutput:
  "dockerOutput shed profile args w = ((shed_answer ''docker'' (dockerArgs shed profile args), None),
     shed_call (Ran ''docker'' (dockerArgs shed profile args) (shed_answer ''docker'' (dockerArgs shed profile args)) None) w)"
  by (simp add: dockerOutput_def) (simp add: shed_def)

lemma shed_status:
  "containerStatus shed profile name w = (Inr SandboxStatusRunning, shed_call (Ran ''docker''
     (dockerArgs shed profile [''inspect'', ''--format'', ''{{.State.Status}}'', name]) ''running'' None) w)"
  by (simp add: containerStatus_def shed_dockerOutput sandboxStatusFor_def)
    (simp add: shed_answer_def dockerArgs_def label_format_def)

lemma shed_match:
  "fingerprintMatches shed profile name (specFingerprint shed spec img) w = (Inr True, shed_call (Ran ''docker''
     (dockerArgs shed profile [''inspect'', ''--format'', label_format, name]) ''f'' None) w)"
proof -
  have "specFingerprint shed spec img = ''f''" by (simp add: specFingerprint_def shed_def)
  moreover have "shed_answer ''docker'' (dockerArgs shed profile [''inspect'', ''--format'', label_format, name]) = ''f''"
    by (simp add: shed_answer_def dockerArgs_def)
  ultimately show ?thesis by (simp add: fingerprintMatches_def shed_dockerOutput)
qed

lemma shed_start:
  "startProfileLocked shed (profileName 3) shed_world = (Inr (), w) \<Longrightarrow> \<exists>cs. shed_calls w = cs \<and> list_all plain_call cs"
  using madeD [OF only_startProfileLocked [OF shed_records benign_plain_call, unfolded only_def]]
  by (fastforce simp: shed_calls_def shed_world_def)

lemma shed_image: "ensureImage shed profile spec w = (Inr (imageTag shed spec), shed_call (Ran ''docker''
     (dockerArgs shed profile [''image'', ''inspect'', imageTag shed spec])
     (shed_answer ''docker'' (dockerArgs shed profile [''image'', ''inspect'', imageTag shed spec])) None) w)"
  by (simp add: ensureImage_def Let_def shed_docker)

lemma shed_Ensure:
  "\<exists>w cs. Client_Ensure shed (spec_of 3 ''a'') shed_world = (Inr False, w) \<and> shed_calls w = shed_calls shed_world @ cs \<and>
     list_all (Not \<circ> creates) cs"
proof -
  have valid: "SandboxSpec_Validate (spec_of 3 ''a'') = None" "validateMountLocations (sp_Mounts (spec_of 3 ''a'')) = None"
    by (simp_all add: SandboxSpec_Validate_def spec_of_def Sandbox_Validate_def AgentSubject_Validate_def IsAgentRole_def
        Roles_def MaxSandboxNameLength_def)
  have ids: "v_Name (sp_Sandbox (spec_of 3 ''a'')) = ''a''" "v_ProjectID (sp_Sandbox (spec_of 3 ''a'')) = 3"
    by (simp_all add: spec_of_def)
  obtain w where started: "startProfileLocked shed (profileName 3) shed_world = (Inr (), w)"
    by (simp add: startProfileLocked_def calling_def shed_running prepareProfile_def wrapping_def doing_def bounded_def
        noting_prepared_def returning_def prepared_def set_prepared_def shed_call_def shed_world_def)
      (simp add: shed_def noting_prepared_def returning_def)
  from shed_start [OF started] obtain cs where cs: "shed_calls w = cs" "list_all plain_call cs" by blast
  have "\<exists>w' ds. Client_Ensure shed (spec_of 3 ''a'') shed_world = (Inr False, w') \<and> shed_calls w' = shed_calls w @ ds \<and>
      list_all (Not \<circ> creates) ds"
    using valid started ids
    by (simp add: Client_Ensure_def Let_def calling_def requiring_def shed_image shed_status shed_match returning_def)
      (simp add: shed_call_def shed_calls_def)
  then obtain w' ds where ensured: "Client_Ensure shed (spec_of 3 ''a'') shed_world = (Inr False, w')"
    "shed_calls w' = shed_calls w @ ds" "list_all (Not \<circ> creates) ds" by blast
  moreover have "list_all (Not \<circ> creates) cs" using cs(2) by (auto simp: plain_call_def list_all_iff)
  moreover have "shed_calls shed_world = []" by (simp add: shed_calls_def shed_world_def)
  ultimately show ?thesis using cs(1) by (intro exI [of _ w'] exI [of _ "cs @ ds"]) auto
qed

lemma shed_path: "recordPath shed ''a'' = Inr ''/s/a.json''"
proof -
  have "filepath_Join [''/s'', ''a.json''] = ''/s/a.json''"
    by (simp add: filepath_Join_def filepath_Clean_def filepath_IsAbs_def Let_def)
  then show ?thesis by (simp add: recordPath_def contains_any_def) (simp add: shed_def)
qed

lemma Ensure_names_before_it_creates_witness:
  "\<exists>w cs. Client_Ensure shed (spec_of 3 ''a'') shed_world = (Inr False, w) \<and> shed_calls w = shed_calls shed_world @ cs \<and>
     \<not> list_ex makes_volume cs"
proof -
  from shed_Ensure obtain w where "Client_Ensure shed (spec_of 3 ''a'') shed_world = (Inr False, w)" by blast
  from Ensure_names_before_it_creates [OF shed_records this] this show ?thesis by blast
qed

lemma container_taken_over_stays_unrecorded_witness:
  "\<exists>w. Client_Ensure shed (spec_of 3 ''a'') shed_world = (Inr False, w) \<and>
     Client_Inspect shed (Sandbox_Ref (sp_Sandbox (spec_of 3 ''a''))) w = (Inr SandboxStatusAbsent, w) \<and>
     fst (containerStatus shed (profileName 3) ''a'' w) = Inr SandboxStatusRunning"
proof -
  from shed_Ensure obtain w cs where ensured: "Client_Ensure shed (spec_of 3 ''a'') shed_world = (Inr False, w)"
    "shed_calls w = shed_calls shed_world @ cs" "list_all (Not \<circ> creates) cs" by blast
  have path: "recordPath shed (v_Name (sp_Sandbox (spec_of 3 ''a''))) = Inr ''/s/a.json''"
    using shed_path by (simp add: spec_of_def)
  have reads: "cl_ReadFile shed ''/s/a.json'' v = (Inr (left_by ''/s/a.json'' (shed_calls v) None), v)" for v
    by (simp add: shed_def)
  have files: "(name, contents) \<in> set (cl_files shed (spec_of 3 ''a'')) \<Longrightarrow> filepath_Join [directory, name] \<noteq> ''/s/a.json''"
    for directory name contents by (simp add: shed_def)
  have none: "left_by ''/s/a.json'' (shed_calls shed_world) None = None" by (simp add: shed_calls_def shed_world_def)
  from container_taken_over_stays_unrecorded [OF shed_records path reads files none ensured] ensured(1) shed_status
  show ?thesis by auto
qed

lemma asking_never_starts_a_machine_witness:
  "\<exists>before after profile. shed_calls (snd (Client_StopNow shed \<lparr>ref_ProjectID = 3, ref_Name = ''a''\<rparr> shed_world)) = before @ after \<and>
     list_all is_listing before \<and> list_ex (sees_running shed profile) before"
proof -
  let ?ref = "\<lparr>ref_ProjectID = 3, ref_Name = ''a''\<rparr>" and ?op = "\<lambda>w. ((), snd (Client_StopNow shed \<lparr>ref_ProjectID = 3, ref_Name = ''a''\<rparr> w))"
  have run: "shed_calls (snd (Client_StopNow shed ?ref shed_world)) =
      [Ran ''colima'' [''list'', ''--json''] ''vm'' None,
       Ran ''docker'' (dockerArgs shed (profileName 3) [''inspect'', ''--format'', ''{{.State.Status}}'', ''a'']) ''running'' None,
       Ran ''docker'' (dockerArgs shed (profileName 3) [''kill'', ''a''])
         (shed_answer ''docker'' (dockerArgs shed (profileName 3) [''kill'', ''a''])) None]"
    by (simp add: Client_StopNow_def stopContainer_def Let_def calling_def shed_running shed_status doing_def shed_docker
        returning_def shed_call_def shed_calls_def shed_world_def)
  from asking_never_starts_a_machine [OF shed_records, of ?op ?ref 0 0 0 shed_world] obtain before after profile
    where split: "shed_calls (snd (Client_StopNow shed ?ref shed_world)) = before @ after" "list_all is_listing before"
      "list_ex (on_daemon shed profile) after \<longrightarrow> list_ex (sees_running shed profile) before"
      "\<forall>c \<in> set after. on_daemon shed profile c \<or> (\<exists>path. c = Removed path) \<or>
        (\<exists>out r. c = Ran ''colima'' [''stop'', ''--profile'', profile] out r)"
    by (auto simp: shed_calls_def shed_world_def)
  let ?kill = "Ran ''docker'' (dockerArgs shed (profileName 3) [''kill'', ''a''])
         (shed_answer ''docker'' (dockerArgs shed (profileName 3) [''kill'', ''a''])) None"
  have "?kill \<in> set (before @ after)" unfolding split(1) [symmetric] run by simp
  moreover have "\<not> is_listing ?kill" by simp
  ultimately have "?kill \<in> set after" using split(2) by (auto simp: list_all_iff)
  with split(4) have "on_daemon shed profile ?kill" by auto
  with \<open>?kill \<in> set after\<close> split(3) have "list_ex (sees_running shed profile) before" by (auto simp: list_ex_iff)
  with split(1,2) show ?thesis by blast
qed

end
