(* ===== verification/Transcripts.thy ===== *)
theory Transcripts
  imports Agent_Rounds Slugs "HOL-Library.List_Lexorder" "HOL-Library.Char_ord"
begin

text \<open>
  What an agent said: the transcript files (\<open>adapters/agentlog/agentlog.go\<close>), the pages a reader polls
  (\<open>usecases/read_run_output.go\<close>) and the engine's side of it, the command line of a round and the
  reading of its output (\<open>adapters/opencode/invocation.go\<close>, \<open>transcript.go\<close>). Decoding one line of JSON
  is an argument, and so is the sum of two floats.
\<close>

section \<open>The file of a run\<close>

definition bare_rune :: "nat \<Rightarrow> bool" where
  "bare_rune n \<longleftrightarrow> in_range 97 122 n \<or> in_range 65 90 n \<or> in_range 48 57 n \<or> n = 45 \<or> n = 95"

definition validRunID :: "string \<Rightarrow> go_error option" where
  "validRunID runID =
     (if runID = [] then Some (Errorf ''agent run ID is required'' [])
      else if \<not> list_all bare_rune (code_points runID)
      then Some (Errorf ''agent run ID %q is not a bare identifier'' [GStr runID])
      else None)"

definition log_newline :: char where "log_newline = CHR 0x0A"

text \<open>
  \<open>Tail\<close>, given what opening and reading the file gives: an error, \<open>None\<close> when there is no file, or its
  contents. A seek before the start of a file is an error of the system.
\<close>

definition Tail :: "go_error + string option \<Rightarrow> string \<Rightarrow> int \<Rightarrow> (go_error + string list) \<times> int" where
  "Tail opened runID from' =
     (case validRunID runID of
        Some err \<Rightarrow> (Inl err, from')
      | None \<Rightarrow>
          (case opened of
             Inl err \<Rightarrow> (Inl err, from')
           | Inr None \<Rightarrow> (Inr [], from')
           | Inr (Some contents) \<Rightarrow>
               let from' = (if from' > int (length contents) then 0 else from')
               in if from' < 0 then (Inl (Sentinel ''invalid argument''), from')
                  else
                    let body = drop (nat from') contents
                    in case last_index_byte body log_newline of
                         None \<Rightarrow> (Inr [], from')
                       | Some at \<Rightarrow> (Inr (split_on log_newline (take at body)), from' + int at + 1)))"

definition Size :: "go_error + string option \<Rightarrow> string \<Rightarrow> go_error + int" where
  "Size opened runID =
     (case validRunID runID of
        Some err \<Rightarrow> Inl err
      | None \<Rightarrow>
          (case opened of
             Inl err \<Rightarrow> Inl err
           | Inr None \<Rightarrow> Inr 0
           | Inr (Some contents) \<Rightarrow> Inr (int (length contents))))"

text \<open>\<open>Discard\<close> removes both streams; \<open>remove\<close> gives the error of \<open>os.Remove\<close> other than that the file is gone.\<close>

definition Discard ::
    "(string \<Rightarrow> 'x world \<Rightarrow> go_error option \<times> 'x world) \<Rightarrow> string \<Rightarrow> 'x world \<Rightarrow> go_error option \<times> 'x world" where
  "Discard remove runID w =
     (case validRunID runID of
        Some err \<Rightarrow> (Some err, w)
      | None \<Rightarrow>
          (case remove (runID @ ''.stdout.jsonl'') w of
             (r1, w) \<Rightarrow>
               (case remove (runID @ ''.stderr.log'') w of
                  (r2, w) \<Rightarrow> (join_errors (case_option [] (\<lambda>e. [e]) r1 @ case_option [] (\<lambda>e. [e]) r2), w))))"

section \<open>What the engine writes\<close>

datatype TranscriptKind =
    TranscriptText | TranscriptToolUse | TranscriptToolOutput | TranscriptReasoning | TranscriptError | TranscriptUnknown

record TranscriptEntry =
  tr_Kind :: TranscriptKind
  tr_Tool :: string
  tr_CallID :: string
  tr_Text :: string

text \<open>The shapes of a failure: absent, a string, an object with its three messages, or anything else.\<close>

datatype raw_error = NoError | ErrorString string | ErrorObject string string string | ErrorUnreadable

text \<open>An event, with each input of a tool as \<open>fmt\<close> prints it.\<close>

record transcriptEvent =
  ev_Type :: string
  ev_Text :: string
  ev_Tool :: string
  ev_CallID :: string
  ev_ToolStatus :: string
  ev_Title :: string
  ev_Input :: "(string \<times> string) list"
  ev_Output :: string
  ev_ToolError :: raw_error
  ev_InputTokens :: int
  ev_OutputTokens :: int
  ev_CacheWrite :: int
  ev_Cost :: float64
  ev_Error :: raw_error

fun fields_loop :: "(nat \<times> string) list \<Rightarrow> string \<Rightarrow> string list" where
  "fields_loop [] word = (if word = [] then [] else [word])"
| "fields_loop ((n, bytes) # rs) word =
     (if is_space n then (if word = [] then fields_loop rs [] else word # fields_loop rs [])
      else fields_loop rs (word @ bytes))"

definition fields :: "string \<Rightarrow> string list" where
  "fields s = fields_loop (runes s) []"

definition trim_newlines :: "string \<Rightarrow> string" where
  "trim_newlines s = rev (dropWhile (\<lambda>c. c = log_newline) (rev s))"

definition oneLine :: "string \<Rightarrow> string" where
  "oneLine rendered = join_with '' '' (fields rendered)"

definition toolSummary :: "string \<Rightarrow> (string \<times> string) list \<Rightarrow> string" where
  "toolSummary title input =
     (let trimmed = trim_space title
      in if trimmed \<noteq> [] then trimmed
         else join_with '' '' (map (\<lambda>(key, val). key @ ''='' @ oneLine val) (sort_key fst input)))"

fun first_nonblank :: "string list \<Rightarrow> string" where
  "first_nonblank [] = []"
| "first_nonblank (s # ss) = (if trim_space s \<noteq> [] then trim_space s else first_nonblank ss)"

fun errorText :: "raw_error \<Rightarrow> string" where
  "errorText NoError = []"
| "errorText (ErrorString s) = trim_space s"
| "errorText (ErrorObject message dataMessage name) = first_nonblank [message, dataMessage, name]"
| "errorText ErrorUnreadable = []"

definition entry :: "TranscriptKind \<Rightarrow> string \<Rightarrow> string \<Rightarrow> string \<Rightarrow> TranscriptEntry" where
  "entry kind tool callID text' = \<lparr>tr_Kind = kind, tr_Tool = tool, tr_CallID = callID, tr_Text = text'\<rparr>"

definition textEntry :: "TranscriptKind \<Rightarrow> string \<Rightarrow> TranscriptEntry list" where
  "textEntry kind body =
     (let body = trim_newlines body in if trim_space body = [] then [] else [entry kind [] [] body])"

definition toolEntries :: "transcriptEvent \<Rightarrow> TranscriptEntry list" where
  "toolEntries e =
     (let output = trim_newlines (ev_Output e); message = errorText (ev_ToolError e)
      in [entry TranscriptToolUse (ev_Tool e) (ev_CallID e) (toolSummary (ev_Title e) (ev_Input e))] @
         (if trim_space output \<noteq> [] then [entry TranscriptToolOutput (ev_Tool e) (ev_CallID e) output] else []) @
         (if ev_ToolStatus e = ''error'' \<and> message \<noteq> [] then [entry TranscriptError (ev_Tool e) (ev_CallID e) message] else []))"

definition parseTranscriptLine :: "(string \<Rightarrow> transcriptEvent option) \<Rightarrow> string \<Rightarrow> TranscriptEntry list option" where
  "parseTranscriptLine decode line =
     (case decode line of
        None \<Rightarrow> None
      | Some e \<Rightarrow>
          if ev_Type e = ''text'' then Some (textEntry TranscriptText (ev_Text e))
          else if ev_Type e = ''reasoning'' then Some (textEntry TranscriptReasoning (ev_Text e))
          else if ev_Type e = ''tool_use'' then Some (toolEntries e)
          else if ev_Type e = ''step_start'' \<or> ev_Type e = ''step_finish'' then Some []
          else if ev_Type e = ''error'' then Some (textEntry TranscriptError (errorText (ev_Error e)))
          else None)"

fun parse_lines :: "(string \<Rightarrow> transcriptEvent option) \<Rightarrow> string list \<Rightarrow> bool \<Rightarrow> TranscriptEntry list" where
  "parse_lines decode [] unknown = []"
| "parse_lines decode (line # lines) unknown =
     (if trim_space line = [] then parse_lines decode lines unknown
      else
        case parseTranscriptLine decode line of
          None \<Rightarrow> (if unknown then [] else [entry TranscriptUnknown [] [] []]) @ parse_lines decode lines True
        | Some parsed \<Rightarrow> parsed @ parse_lines decode lines False)"

definition ParseTranscript :: "(string \<Rightarrow> transcriptEvent option) \<Rightarrow> string \<Rightarrow> TranscriptEntry list" where
  "ParseTranscript decode output = parse_lines decode (split_on log_newline output) False"

fun usage_loop ::
    "(string \<Rightarrow> transcriptEvent option) \<Rightarrow> (float64 \<Rightarrow> float64 \<Rightarrow> float64) \<Rightarrow> string list \<Rightarrow> RunUsage \<Rightarrow> RunUsage" where
  "usage_loop decode fadd [] usage = usage"
| "usage_loop decode fadd (line # lines) usage =
     (if index_of line ''step_finish'' = None then usage_loop decode fadd lines usage
      else
        case decode line of
          None \<Rightarrow> usage_loop decode fadd lines usage
        | Some e \<Rightarrow>
            if ev_Type e \<noteq> ''step_finish'' then usage_loop decode fadd lines usage
            else usage_loop decode fadd lines
              \<lparr>u_TokensIn = u_TokensIn usage + (ev_InputTokens e + ev_CacheWrite e),
               u_TokensOut = u_TokensOut usage + ev_OutputTokens e, u_CostUSD = fadd (u_CostUSD usage) (ev_Cost e)\<rparr>)"

definition Builder_ParseUsage ::
    "(string \<Rightarrow> transcriptEvent option) \<Rightarrow> (float64 \<Rightarrow> float64 \<Rightarrow> float64) \<Rightarrow> string \<Rightarrow> RunUsage" where
  "Builder_ParseUsage decode fadd output =
     usage_loop decode fadd (split_on log_newline output) \<lparr>u_TokensIn = 0, u_TokensOut = 0, u_CostUSD = (0, 0)\<rparr>"

section \<open>The command line and the answer\<close>

definition answerStart :: string where "answerStart = ''===GO-MERGE-BEGIN===''"

definition answerEnd :: string where "answerEnd = ''===GO-MERGE-END===''"

text \<open>The environment is a map: a list with one entry per key.\<close>

definition Builder_Command :: "AgentRun \<Rightarrow> string \<Rightarrow> (string \<times> string) list \<Rightarrow> go_error + string list" where
  "Builder_Command run prompt environment =
     (case AgentRun_Validate run of
        Some err \<Rightarrow> Inl err
      | None \<Rightarrow>
          if prompt = [] then Inl (Errorf ''agent prompt is required'' [])
          else Inr
            ([''env'', ''OPENCODE_DISABLE_AUTOUPDATE=1''] @
             map (\<lambda>(key, val). key @ ''='' @ val) (sort_key fst environment) @
             [''opencode'', ''run'', ''--auto'', ''--format'', ''json'', ''--dir'', ''/work''] @
             (if r_SessionMode run = SessionModeContinue then [''--continue''] else []) @
             [''--model'', r_Agent run] @
             (if r_Variant run \<noteq> [] then [''--variant'', r_Variant run] else []) @
             [prompt @ [log_newline, log_newline] @ ''Return your final answer only between these exact lines:'' @ [log_newline] @
              answerStart @ [log_newline] @ ''<answer>'' @ [log_newline] @ answerEnd]))"

text \<open>\<open>strings.LastIndex\<close>, with \<open>None\<close> for -1.\<close>

fun last_index_of :: "string \<Rightarrow> string \<Rightarrow> nat option" where
  "last_index_of [] sub = (if sub = [] then Some 0 else None)"
| "last_index_of (c # cs) sub =
     (case last_index_of cs sub of
        Some i \<Rightarrow> Some (Suc i)
      | None \<Rightarrow> if prefix sub (c # cs) then Some 0 else None)"

fun text_parts :: "(string \<Rightarrow> (string \<times> string) option) \<Rightarrow> string list \<Rightarrow> string list" where
  "text_parts decode [] = []"
| "text_parts decode (line # lines) =
     (case decode line of
        Some (kind, part) \<Rightarrow> (if kind = ''text'' then [part] else [])
      | None \<Rightarrow> []) @ text_parts decode lines"

text \<open>\<open>decode\<close> reads the type of an event and the text of its part and nothing else.\<close>

definition agentText :: "(string \<Rightarrow> (string \<times> string) option) \<Rightarrow> string \<Rightarrow> string" where
  "agentText decode output =
     (let parts = text_parts decode (split_on log_newline output)
      in if parts = [] then output else join_with [log_newline] parts)"

definition answer_in :: "string \<Rightarrow> string" where
  "answer_in text' =
     (case last_index_of text' answerStart of
        None \<Rightarrow> []
      | Some start \<Rightarrow>
          let remainder = drop (start + length answerStart) text'
          in case index_of remainder answerEnd of None \<Rightarrow> [] | Some stop \<Rightarrow> trim_space (take stop remainder))"

definition Builder_ExtractAnswer :: "(string \<Rightarrow> (string \<times> string) option) \<Rightarrow> string \<Rightarrow> string" where
  "Builder_ExtractAnswer decode output = answer_in (agentText decode output)"

text \<open>
  \<open>strings.EqualFold\<close> against a constant whose letters fold only among ASCII: letters compare in
  lower case.
\<close>

fun verdict_of :: "string list \<Rightarrow> bool" where
  "verdict_of [] = False"
| "verdict_of (line # lines) =
     (let line = trim_space line
      in if line = [] then verdict_of lines else map lower_char line = map lower_char ''VERDICT: approve'')"

definition Builder_ReviewApproved :: "string \<Rightarrow> bool" where
  "Builder_ReviewApproved answer = verdict_of (rev (split_on log_newline answer))"

section \<open>Pages\<close>

record RunOutputPage =
  pg_Entries :: "TranscriptEntry list"
  pg_Output :: string
  pg_Next :: int

definition page_text :: "string list \<Rightarrow> string" where
  "page_text lines = join_with [log_newline] lines @ (if lines \<noteq> [] then [log_newline] else [])"

text \<open>\<open>tail\<close> is the reader of the files, when one is configured.\<close>

definition ReadRunOutput_Handle ::
    "(string \<Rightarrow> int \<Rightarrow> (go_error + string list) \<times> int) option \<Rightarrow> (string \<Rightarrow> transcriptEvent option) \<Rightarrow> string \<Rightarrow> int \<Rightarrow>
       go_error + RunOutputPage" where
  "ReadRunOutput_Handle tail' decode runID from' =
     (case tail' of
        None \<Rightarrow> Inl (Errorf ''no agent log reader is configured'' [])
      | Some read \<Rightarrow>
          if trim_space runID = [] then Inl (Errorf ''agent run ID is required'' [])
          else
            (case read runID (max 0 from') of
               (Inl err, _) \<Rightarrow> Inl err
             | (Inr lines, next') \<Rightarrow>
                 Inr \<lparr>pg_Entries = ParseTranscript decode (page_text lines), pg_Output = page_text lines, pg_Next = next'\<rparr>))"

fun sizes_of :: "(string \<Rightarrow> go_error + int) option \<Rightarrow> string list \<Rightarrow> (string \<rightharpoonup> int) \<Rightarrow> string \<rightharpoonup> int" where
  "sizes_of None runIDs sizes = sizes"
| "sizes_of (Some size') [] sizes = sizes"
| "sizes_of (Some size') (runID # runIDs) sizes =
     (case size' runID of
        Inl _ \<Rightarrow> sizes_of (Some size') runIDs sizes
      | Inr n \<Rightarrow> sizes_of (Some size') runIDs (sizes(runID \<mapsto> n)))"

section \<open>Polling loses nothing\<close>

lemma page_text_split: "page_text (split_on log_newline s) = s @ [log_newline]"
  by (simp add: page_text_def join_split)

lemma Tail_page:
  assumes "validRunID runID = None" "prefix out contents"
  shows "\<exists>lines next'. Tail (Inr (Some contents)) runID (int (length out)) = (Inr lines, next') \<and>
    next' = int (length (out @ page_text lines)) \<and> prefix (out @ page_text lines) contents \<and>
    log_newline \<notin> set (drop (nat next') contents)"
proof -
  obtain body where contents: "contents = out @ body" using assms(2) by (auto simp: prefix_def)
  show ?thesis
  proof (cases "last_index_byte body log_newline")
    case None
    then have "Tail (Inr (Some contents)) runID (int (length out)) = (Inr [], int (length out))" "log_newline \<notin> set body"
      using assms(1) None by (simp_all add: Tail_def contents Let_def flip: last_index_byte_None)
    then show ?thesis by (intro exI [of _ "[]"]) (simp add: page_text_def contents)
  next
    case (Some at)
    note at = last_index_byte_Some [OF Some]
    then have body: "body = take at body @ log_newline # drop (Suc at) body"
      by (metis id_take_nth_drop)
    have rest: "log_newline \<notin> set (drop (Suc at) body)"
      using at by (auto simp: in_set_conv_nth)
    have page: "page_text (split_on log_newline (take at body)) = take at body @ [log_newline]"
      by (rule page_text_split)
    have "length (take at body) = at" using at by simp
    then have "nat (int (length out) + int at + 1) = length (out @ take at body @ [log_newline])" by simp
    then have "drop (nat (int (length out) + int at + 1)) contents = drop (Suc at) body"
      using at by (simp add: contents)
    moreover have "prefix (out @ take at body @ [log_newline]) contents"
      by (subst contents, subst body) (simp add: prefix_def)
    moreover have "Tail (Inr (Some contents)) runID (int (length out)) =
        (Inr (split_on log_newline (take at body)), int (length out) + int at + 1)"
      using assms(1) Some by (simp add: Tail_def contents Let_def)
    ultimately show ?thesis
      using rest at by (intro exI [of _ "split_on log_newline (take at body)"]) (simp add: page)
  qed
qed

text \<open>A reader that polls a growing log from where it stopped and keeps what it was given.\<close>

fun polls :: "(string \<Rightarrow> transcriptEvent option) \<Rightarrow> string \<Rightarrow> string list \<Rightarrow> int \<times> string \<Rightarrow> int \<times> string" where
  "polls decode runID [] s = s"
| "polls decode runID (contents # later) (next', out) =
     (case ReadRunOutput_Handle (Some (Tail (Inr (Some contents)))) decode runID next' of
        Inl err \<Rightarrow> polls decode runID later (next', out)
      | Inr page \<Rightarrow> polls decode runID later (pg_Next page, out @ pg_Output page))"

text \<open>C35. A reader that polls the transcript of a run from the offset each page gives it sees every line once,
  whatever was appended between two polls: what it has put together is exactly the log up to its
  offset, and the log holds no complete line beyond it.\<close>

theorem polls_reassemble_the_log:
  assumes "validRunID runID = None" "trim_space runID \<noteq> []"
    and "sorted_wrt prefix (earlier @ [contents])"
    and "polls decode runID (earlier @ [contents]) (0, []) = (next', out)"
  shows "0 \<le> next' \<and> out = take (nat next') contents \<and> next' = int (length out) \<and>
    log_newline \<notin> set (drop (nat next') contents)"
proof -
  have step: "\<exists>page. ReadRunOutput_Handle (Some (Tail (Inr (Some c)))) decode runID (int (length out)) = Inr page \<and>
      pg_Next page = int (length (out @ pg_Output page)) \<and> prefix (out @ pg_Output page) c \<and>
      log_newline \<notin> set (drop (length (out @ pg_Output page)) c)" if "prefix out c" for out c
  proof -
    from Tail_page [OF assms(1) that] obtain lines where
      "Tail (Inr (Some c)) runID (int (length out)) = (Inr lines, int (length (out @ page_text lines)))"
      "prefix (out @ page_text lines) c" "log_newline \<notin> set (drop (length (out @ page_text lines)) c)" by (auto simp: nat_int_add)
    with assms(2) show ?thesis by (simp add: ReadRunOutput_Handle_def)
  qed
  have "sorted_wrt prefix (cs @ [contents]) \<Longrightarrow> \<forall>c \<in> set (cs @ [contents]). prefix out0 c \<Longrightarrow>
      polls decode runID (cs @ [contents]) (int (length out0), out0) = (next', out) \<Longrightarrow>
      next' = int (length out) \<and> prefix out contents \<and> log_newline \<notin> set (drop (length out) contents)" for cs out0
  proof (induction cs arbitrary: out0)
    case Nil
    with step [of out0 contents] show ?case by auto
  next
    case (Cons c cs)
    from step [of out0 c] Cons.prems(2) obtain page where page:
      "ReadRunOutput_Handle (Some (Tail (Inr (Some c)))) decode runID (int (length out0)) = Inr page"
      "pg_Next page = int (length (out0 @ pg_Output page))" "prefix (out0 @ pg_Output page) c" by auto
    have "\<forall>d \<in> set (cs @ [contents]). prefix (out0 @ pg_Output page) d"
      using page(3) Cons.prems(1) by (auto intro: prefix_order.trans)
    with Cons.IH [of "out0 @ pg_Output page"] Cons.prems(1,3) page(1,2) show ?case by simp
  qed
  from this [of earlier "[]"] assms(3,4) show ?thesis
    by (auto simp: prefix_def)
qed

text \<open>
  What a transcript shows: the entries of the lines the engine's format knows, in order; the rest
  leaves nothing but a mark.
\<close>

lemma known_lines_are_shown:
  assumes "\<And>line e es. decode line = Some e \<Longrightarrow> parseTranscriptLine decode line = Some es \<Longrightarrow>
      \<forall>x \<in> set es. tr_Kind x \<noteq> TranscriptUnknown"
  shows "filter (\<lambda>x. tr_Kind x \<noteq> TranscriptUnknown) (parse_lines decode lines unknown) =
    concat (map (\<lambda>line. case parseTranscriptLine decode line of None \<Rightarrow> [] | Some es \<Rightarrow> es)
      (filter (\<lambda>line. trim_space line \<noteq> []) lines))"
proof (induction lines arbitrary: unknown)
  case (Cons line lines)
  show ?case
  proof (cases "parseTranscriptLine decode line")
    case (Some es)
    then obtain e where "decode line = Some e" by (auto simp: parseTranscriptLine_def split: option.splits)
    from assms [OF this Some] have "filter (\<lambda>x. tr_Kind x \<noteq> TranscriptUnknown) es = es" by simp
    with Cons Some show ?thesis by simp
  qed (use Cons in \<open>simp add: entry_def\<close>)
qed simp

lemma entries_are_known:
  assumes "parseTranscriptLine decode line = Some es" "x \<in> set es" shows "tr_Kind x \<noteq> TranscriptUnknown"
  using assms
  by (auto simp: parseTranscriptLine_def textEntry_def toolEntries_def entry_def Let_def split: option.splits if_splits)

text \<open>Usage adds up over pages that end with a line.\<close>

lemma usage_loop_append:
  "usage_loop decode fadd (ls @ ms) usage = usage_loop decode fadd ms (usage_loop decode fadd ls usage)"
  by (induction ls arbitrary: usage) (simp_all split: option.split)

lemma short_of_a_newline:
  assumes "c \<notin> set (drop n (pre @ [c]))" shows "length pre < n"
  using assms by (cases "n \<le> length pre") auto

lemma polls_reassemble_the_log_witness:
  "snd (polls (\<lambda>_. None) ''r'' [''a'' @ [log_newline] @ ''b'', ''a'' @ [log_newline] @ ''bc'' @ [log_newline]] (0, [])) =
     ''a'' @ [log_newline] @ ''bc'' @ [log_newline]"
proof -
  define first where "first = ''a'' @ [log_newline] @ ''b''"
  define second where "second = ''a'' @ [log_newline] @ ''bc'' @ [log_newline]"
  have valid: "validRunID ''r'' = None"
    by (simp add: validRunID_def code_points_ascii is_ascii_def bare_rune_def in_range_def byte_def)
  have "trim_space ''r'' = ''r''"
    by (intro trim_space_solid; simp add: byte_def is_space_def in_range_def)
  then have solid: "trim_space ''r'' \<noteq> []" by simp
  have grows: "sorted_wrt prefix ([first] @ [second])" by (simp add: first_def second_def)
  obtain n out where run: "polls (\<lambda>_. None) ''r'' ([first] @ [second]) (0, []) = (n, out)" by (metis surj_pair)
  from polls_reassemble_the_log [OF valid solid grows run]
  have all: "out = take (nat n) second" "log_newline \<notin> set (drop (nat n) second)" by blast+
  have split: "second = (''a'' @ [log_newline] @ ''bc'') @ [log_newline]" by (simp add: second_def)
  from all(2) have "length (''a'' @ [log_newline] @ ''bc'') < nat n"
    unfolding split by (rule short_of_a_newline)
  then have "length second \<le> nat n" unfolding split by simp
  with all(1) have "out = second" by simp
  with run have "snd (polls (\<lambda>_. None) ''r'' [first, second] (0, [])) = second" by simp
  then show ?thesis unfolding first_def second_def .
qed

end
