(* ===== verification/Git_Workspaces.thy ===== *)
theory Git_Workspaces
  imports Call_Traces Repository_Paths Push_Gate
begin

text \<open>
  \<open>adapters/workspace\<close>: the clones of the repositories, \<open>code_workspace.go\<close> (one writable clone per
  issue, mounted into its sandbox), \<open>agent_workspace.go\<close> (read-only clones of an epic) and \<open>auth.go\<close>.
  go-git, the file system and the keys are ports: a repository handle is the path it was opened at,
  a commit its hash and the hashes of its parents.
\<close>

section \<open>Ports\<close>

record commit =
  cm_Hash :: string
  cm_Parents :: "string list"

record tree_change =
  ch_From :: string
  ch_To :: string

datatype entry_kind = IsDirectory | IsSymlink | IsOther

datatype auth = NoAuth | PublicKeys string | AgentAuth

definition ErrRepositoryNotExists :: string where "ErrRepositoryNotExists = ''repository does not exist''"

definition NoErrAlreadyUpToDate :: string where "NoErrAlreadyUpToDate = ''already up-to-date''"

definition ErrReferenceNotFound :: string where "ErrReferenceNotFound = ''reference not found''"

definition ErrParentNotFound :: string where "ErrParentNotFound = ''commit parent not found''"

text \<open>
  \<open>gt_Lstat\<close> and \<open>gt_Stat\<close> answer \<open>None\<close> and \<open>False\<close> for what does not exist, \<open>gt_Walk\<close> gives the entries
  \<open>WalkDir\<close> visits with the error or the kind of each, \<open>gt_Tree\<close> the hash of the tree of a commit,
  \<open>gt_List\<close> the references of a remote with the target of the symbolic ones. \<open>gt_Fetch\<close> and \<open>gt_Push\<close> go
  to the address they are given, whatever the configuration of the repository says.
\<close>

record 'x git_ports =
  gt_root :: string
  gt_remote :: "(string \<Rightarrow> string) option"
  gt_Lstat :: "string \<Rightarrow> (entry_kind option, 'x) io"
  gt_Walk :: "string \<Rightarrow> 'x world \<Rightarrow> (string \<times> (go_error + entry_kind)) list \<times> 'x world"
  gt_Stat :: "string \<Rightarrow> (bool, 'x) io"
  gt_ReadDir :: "string \<Rightarrow> (string list, 'x) io"
  gt_MkdirAll :: "string \<Rightarrow> 'x world \<Rightarrow> go_error option \<times> 'x world"
  gt_RemoveAll :: "string \<Rightarrow> 'x world \<Rightarrow> go_error option \<times> 'x world"
  gt_Home :: "(string, 'x) io"
  gt_IdentityFiles :: "string \<Rightarrow> string list"
  gt_Key :: "string \<Rightarrow> 'x world \<Rightarrow> bool \<times> 'x world"
  gt_SSHAgent :: "'x world \<Rightarrow> bool \<times> 'x world"
  gt_Hostname :: "string \<Rightarrow> string"
  gt_PlainOpen :: "string \<Rightarrow> 'x world \<Rightarrow> go_error option \<times> 'x world"
  gt_PlainClone :: "string \<Rightarrow> string \<Rightarrow> auth \<Rightarrow> 'x world \<Rightarrow> go_error option \<times> 'x world"
  gt_Worktree :: "string \<Rightarrow> 'x world \<Rightarrow> go_error option \<times> 'x world"
  gt_ResolveRevision :: "string \<Rightarrow> string \<Rightarrow> (string, 'x) io"
  gt_CommitObject :: "string \<Rightarrow> string \<Rightarrow> (commit, 'x) io"
  gt_Head :: "string \<Rightarrow> (string \<times> string, 'x) io"
  gt_Reference :: "string \<Rightarrow> string \<Rightarrow> (string, 'x) io"
  gt_SetReference :: "string \<Rightarrow> string \<Rightarrow> string \<Rightarrow> 'x world \<Rightarrow> go_error option \<times> 'x world"
  gt_Checkout :: "string \<Rightarrow> string \<Rightarrow> 'x world \<Rightarrow> go_error option \<times> 'x world"
  gt_HardReset :: "string \<Rightarrow> string \<Rightarrow> 'x world \<Rightarrow> go_error option \<times> 'x world"
  gt_AddAll :: "string \<Rightarrow> 'x world \<Rightarrow> go_error option \<times> 'x world"
  gt_Commit :: "string \<Rightarrow> string \<Rightarrow> (string, 'x) io"
  gt_Tree :: "string \<Rightarrow> commit \<Rightarrow> (string, 'x) io"
  gt_DiffTree :: "string \<Rightarrow> string option \<Rightarrow> string \<Rightarrow> (tree_change list, 'x) io"
  gt_IsAncestor :: "string \<Rightarrow> commit \<Rightarrow> commit \<Rightarrow> (bool, 'x) io"
  gt_MergeBase :: "string \<Rightarrow> commit \<Rightarrow> commit \<Rightarrow> (commit list, 'x) io"
  gt_Patch :: "string \<Rightarrow> commit \<Rightarrow> commit \<Rightarrow> (string, 'x) io"
  gt_Fetch :: "string \<Rightarrow> string \<Rightarrow> auth \<Rightarrow> 'x world \<Rightarrow> go_error option \<times> 'x world"
  gt_Push :: "string \<Rightarrow> string \<Rightarrow> auth \<Rightarrow> string \<Rightarrow> 'x world \<Rightarrow> go_error option \<times> 'x world"
  gt_PushDetached :: "string \<Rightarrow> auth \<Rightarrow> string \<Rightarrow> 'x world \<Rightarrow> go_error option \<times> 'x world"
  gt_List :: "string \<Rightarrow> auth \<Rightarrow> ((string \<times> string option) list, 'x) io"

text \<open>\<open>err != nil && !errors.Is(err, e)\<close> for one of several sentinels: what is left of a result.\<close>

definition unless_is :: "string list \<Rightarrow> (go_error \<Rightarrow> go_error) \<Rightarrow> ('x world \<Rightarrow> go_error option \<times> 'x world) \<Rightarrow> (unit, 'x) io" where
  "unless_is targets wrap m w =
     (case m w of
        (None, w) \<Rightarrow> (Inr (), w)
      | (Some err, w) \<Rightarrow> (if list_ex (errors_is err) targets then Inr () else Inl (wrap err), w))"

section \<open>Names and paths\<close>

definition githubRemote :: "string \<Rightarrow> string" where
  "githubRemote repository = ''git@github.com:'' @ repository @ ''.git''"

definition remoteURL :: "'x git_ports \<Rightarrow> string \<Rightarrow> string" where
  "remoteURL G repository = (case gt_remote G of None \<Rightarrow> githubRemote repository | Some remote \<Rightarrow> remote repository)"

definition repositoryNameValid :: "string \<Rightarrow> bool" where
  "repositoryNameValid repository \<longleftrightarrow>
     (let parts = split_on slash repository
      in length parts = 2 \<and> parts ! 0 \<noteq> [] \<and> parts ! 1 \<noteq> [] \<and>
         index_of repository ''..'' = None \<and> CHR 0x5C \<notin> set repository)"

definition pathSegmentValid :: "string \<Rightarrow> bool" where
  "pathSegmentValid i \<longleftrightarrow> i \<noteq> [] \<and> i \<noteq> ''.'' \<and> slash \<notin> set i \<and> index_of i ''..'' = None"

definition branchReference :: "string \<Rightarrow> string" where
  "branchReference branch = ''refs/heads/'' @ branch"

fun segments_check :: "string list \<Rightarrow> go_error option" where
  "segments_check [] = None"
| "segments_check (segment # segments) =
     (if pathSegmentValid segment then segments_check segments
      else Some (Errorf ''invalid checkout segment %q'' [GStr segment]))"

definition invalid_name :: "string \<Rightarrow> go_error" where
  "invalid_name repository = Errorf ''repository must use owner/name form, got %q'' [GStr repository]"

definition invalid_epic :: "string \<Rightarrow> go_error" where
  "invalid_epic epicID = Errorf ''invalid epic ID %q'' [GStr epicID]"

definition checkoutPath :: "'x git_ports \<Rightarrow> CodeCheckout \<Rightarrow> go_error + string" where
  "checkoutPath G checkout =
     (if \<not> repositoryNameValid (co_Repository checkout) then Inl (invalid_name (co_Repository checkout))
      else
        case segments_check [co_EpicID checkout, co_IssueID checkout] of
          Some err \<Rightarrow> Inl err
        | None \<Rightarrow> Inr (filepath_Join
            [gt_root G, co_EpicID checkout, ''issues'', co_IssueID checkout, Encode (co_Repository checkout)]))"

definition repositoryPath :: "'x git_ports \<Rightarrow> string \<Rightarrow> string \<Rightarrow> go_error + string" where
  "repositoryPath G epicID repository =
     (if \<not> pathSegmentValid epicID then Inl (invalid_epic epicID)
      else if \<not> repositoryNameValid repository then Inl (invalid_name repository)
      else Inr (filepath_Join [gt_root G, epicID, ''repo'', Encode repository]))"

text \<open>\<open>filepath.Dir\<close> of a path that \<open>filepath.Join\<close> built.\<close>

definition parent_directory :: "string \<Rightarrow> string" where
  "parent_directory path =
     (case last_index_byte path slash of None \<Rightarrow> ''.'' | Some at \<Rightarrow> filepath_Clean (take (Suc at) path))"

section \<open>Keys\<close>

definition sshHost :: "'x git_ports \<Rightarrow> string \<Rightarrow> string" where
  "sshHost G remote =
     (if prefix ''ssh://'' remote \<and> gt_Hostname G remote \<noteq> [] then gt_Hostname G remote
      else
        let remote = trim_prefix remote ''ssh://'';
            remote = (case last_index_byte remote (CHR ''@'') of Some at \<Rightarrow> drop (Suc at) remote | None \<Rightarrow> remote)
        in takeWhile (\<lambda>c. c \<noteq> CHR '':'') remote)"

definition identity_path :: "string \<Rightarrow> string \<Rightarrow> string" where
  "identity_path home path =
     (if prefix ''~/'' path then filepath_Join [home, trim_prefix path ''~/'']
      else if \<not> filepath_IsAbs path then filepath_Join [home, ''.ssh'', path]
      else path)"

fun identities_loop :: "string \<Rightarrow> string list \<Rightarrow> string set \<Rightarrow> string list" where
  "identities_loop home [] seen = []"
| "identities_loop home (path # paths) seen =
     (let path = trim_space path
      in if path = [] \<or> path = ''none'' then identities_loop home paths seen
         else
           let path = identity_path home path
           in if path \<in> seen then identities_loop home paths seen
              else path # identities_loop home paths (insert path seen))"

definition sshIdentityFiles :: "'x git_ports \<Rightarrow> string \<Rightarrow> string \<Rightarrow> string list" where
  "sshIdentityFiles G home host =
     identities_loop home
       (gt_IdentityFiles G host @
        [filepath_Join [home, ''.ssh'', ''id_ed25519''], filepath_Join [home, ''.ssh'', ''id_rsa''],
         filepath_Join [home, ''.ssh'', ''id_ecdsa'']]) {}"

fun first_key :: "'x git_ports \<Rightarrow> string list \<Rightarrow> 'x world \<Rightarrow> auth option \<times> 'x world" where
  "first_key G [] w = (None, w)"
| "first_key G (identity # identities) w =
     (case gt_Key G identity w of
        (True, w) \<Rightarrow> (Some (PublicKeys identity), w)
      | (False, w) \<Rightarrow> first_key G identities w)"

definition authForURL :: "'x git_ports \<Rightarrow> string \<Rightarrow> (auth, 'x) io" where
  "authForURL G remote w =
     (if prefix ''git@'' remote \<or> prefix ''ssh://'' remote
      then
        let host = sshHost G remote
        in case gt_Home G w of
             (home, w) \<Rightarrow>
               (case first_key G (case home of Inl _ \<Rightarrow> [] | Inr home \<Rightarrow> sshIdentityFiles G home host) w of
                  (Some auth, w) \<Rightarrow> (Inr auth, w)
                | (None, w) \<Rightarrow>
                    (case gt_SSHAgent G w of
                       (True, w) \<Rightarrow> (Inr AgentAuth, w)
                     | (False, w) \<Rightarrow> (Inl (Errorf ''no SSH identities found for %s'' [GStr host]), w)))
      else if prefix ''file://'' remote \<or> filepath_IsAbs remote then (Inr NoAuth, w)
      else (Inl (Errorf ''project remote must use SSH'' []), w))"

section \<open>Metadata an agent may have replaced\<close>

definition unsafe_metadata :: "string \<Rightarrow> go_error" where
  "unsafe_metadata path = Errorf ''checkout %q has unsafe .git metadata'' [GStr path]"

fun walk_metadata :: "string \<Rightarrow> (string \<times> (go_error + entry_kind)) list \<Rightarrow> go_error option" where
  "walk_metadata path [] = None"
| "walk_metadata path ((at, Inl err) # entries) = Some err"
| "walk_metadata path ((at, Inr kind) # entries) =
     (if kind = IsSymlink
      then Some (Errorf ''checkout %q has unsafe .git metadata at %q'' [GStr path, GStr at])
      else walk_metadata path entries)"

definition validateCheckout :: "'x git_ports \<Rightarrow> string \<Rightarrow> (unit, 'x) io" where
  "validateCheckout G path =
     calling (gt_Lstat G path) (\<lambda>checkout.
       if checkout = None then failing (Sentinel ''file does not exist'')
       else if checkout \<noteq> Some IsDirectory then failing (Errorf ''checkout %q is not a directory'' [GStr path])
       else
         calling (wrapping ''inspect Git metadata for checkout %q: %w'' path (gt_Lstat G (filepath_Join [path, ''.git''])))
           (\<lambda>metadata.
             if metadata = None then returning ()
             else if metadata \<noteq> Some IsDirectory then failing (unsafe_metadata path)
             else doing (\<lambda>w.
               case gt_Walk G (filepath_Join [path, ''.git'']) w of
                 (entries, w) \<Rightarrow> (walk_metadata path entries, w))))"

section \<open>Commits\<close>

text \<open>The first of two names that resolves; an error of the first is as good as its absence.\<close>

definition resolveCommit :: "'x git_ports \<Rightarrow> string \<Rightarrow> string \<Rightarrow> (commit, 'x) io" where
  "resolveCommit G path reference w =
     (let reference = trim_space reference
      in if reference = [] then (Inl (Errorf ''branch name is required'' []), w)
         else
           case gt_ResolveRevision G path reference w of
             (Inr hash, w) \<Rightarrow> gt_CommitObject G path hash w
           | (Inl _, w) \<Rightarrow>
               (case gt_ResolveRevision G path (''origin/'' @ reference) w of
                  (Inr hash, w) \<Rightarrow> gt_CommitObject G path hash w
                | (Inl _, w) \<Rightarrow> (Inl (Errorf ''branch %q not found in the local clone'' [GStr reference]), w)))"

definition first_parent :: "'x git_ports \<Rightarrow> string \<Rightarrow> commit \<Rightarrow> (commit, 'x) io" where
  "first_parent G path c =
     (case cm_Parents c of
        [] \<Rightarrow> failing (Sentinel ErrParentNotFound)
      | hash # _ \<Rightarrow> gt_CommitObject G path hash)"

definition changed_names :: "tree_change list \<Rightarrow> string list" where
  "changed_names changes =
     concat (map (\<lambda>c. (if ch_From c \<noteq> [] then [ch_From c] else []) @
                      (if ch_To c \<noteq> [] \<and> ch_To c \<noteq> ch_From c then [ch_To c] else [])) changes)"

definition changedPaths :: "'x git_ports \<Rightarrow> string \<Rightarrow> commit \<Rightarrow> (string list, 'x) io" where
  "changedPaths G path c =
     calling (gt_Tree G path c) (\<lambda>tree.
       calling
         (if cm_Parents c = [] then returning None
          else calling (first_parent G path c) (\<lambda>parent.
            calling (gt_Tree G path parent) (\<lambda>parentTree. returning (Some parentTree))))
         (\<lambda>parentTree.
           calling (gt_DiffTree G path parentTree tree) (\<lambda>changes. returning (changed_names changes))))"

text \<open>The walk along the first parents; \<open>None\<close> would be a history that never ends.\<close>

partial_function (option) commits_loop_since ::
    "(commit \<Rightarrow> (string list, 'x) io) \<Rightarrow> (commit \<Rightarrow> (commit, 'x) io) \<Rightarrow> string \<Rightarrow> commit \<Rightarrow> CommitInfo list \<Rightarrow>
       'x world \<Rightarrow> ((go_error + CommitInfo list) \<times> 'x world) option" where
  "commits_loop_since changed parent base current commits w =
     (if cm_Hash current = base then Some (Inr commits, w)
      else
        (case changed current w of
           (Inl err, w) \<Rightarrow> Some (Inl err, w)
         | (Inr paths, w) \<Rightarrow>
             let commits = \<lparr>ci_Hash = cm_Hash current, ci_Paths = paths\<rparr> # commits
             in if cm_Parents current = [] then Some (Inr commits, w)
                else
                  (case parent current w of
                     (Inl err, w) \<Rightarrow> Some (Inl err, w)
                   | (Inr next', w) \<Rightarrow> commits_loop_since changed parent base next' commits w)))"

section \<open>The clone of an issue\<close>

definition wrapping_issue :: "string \<Rightarrow> CodeCheckout \<Rightarrow> ('a, 'x) io \<Rightarrow> ('a, 'x) io" where
  "wrapping_issue message checkout = wrapping message (co_IssueID checkout)"

definition open_checkout :: "'x git_ports \<Rightarrow> CodeCheckout \<Rightarrow> (string, 'x) io" where
  "open_checkout G checkout =
     calling (settling (checkoutPath G checkout)) (\<lambda>path.
       calling (wrapping_issue ''validate checkout for issue %s: %w'' checkout (validateCheckout G path)) (\<lambda>_.
         calling (wrapping_issue ''open checkout for issue %s: %w'' checkout (doing (gt_PlainOpen G path))) (\<lambda>_.
           calling (wrapping_issue ''validate checkout for issue %s: %w'' checkout (validateCheckout G path)) (\<lambda>_.
             returning path))))"

definition fetch :: "'x git_ports \<Rightarrow> string \<Rightarrow> string \<Rightarrow> (unit, 'x) io" where
  "fetch G path name =
     calling (authForURL G (remoteURL G name)) (\<lambda>auth.
       unless_is [NoErrAlreadyUpToDate] (\<lambda>err. Wrapf ''fetch repository %q: %w'' [GStr name] [err])
         (gt_Fetch G path (remoteURL G name) auth))"

definition clone :: "'x git_ports \<Rightarrow> string \<Rightarrow> string \<Rightarrow> (unit, 'x) io" where
  "clone G path repository =
     calling (doing (gt_MkdirAll G (parent_directory path))) (\<lambda>_.
       calling (authForURL G (remoteURL G repository)) (\<lambda>auth.
         wrapping ''clone repository %q: %w'' repository
           (doing (gt_PlainClone G path (remoteURL G repository) auth))))"

definition ensureClone :: "'x git_ports \<Rightarrow> string \<Rightarrow> string \<Rightarrow> (unit, 'x) io" where
  "ensureClone G path repository =
     calling (gt_Stat G path) (\<lambda>exists.
       if \<not> exists then clone G path repository
       else calling (validateCheckout G path) (\<lambda>_ w.
         case gt_PlainOpen G path w of
           (None, w) \<Rightarrow> fetch G path repository w
         | (Some err, w) \<Rightarrow>
             if \<not> errors_is err ErrRepositoryNotExists then (Inl err, w)
             else calling (doing (gt_RemoveAll G path)) (\<lambda>_. clone G path repository) w))"

text \<open>\<open>if resolveErr != nil { start, resolveErr = ... }\<close>.\<close>

definition or_else :: "('a, 'x) io \<Rightarrow> ('a, 'x) io \<Rightarrow> ('a, 'x) io" where
  "or_else m n w = (case m w of (Inl _, w) \<Rightarrow> n w | (Inr a, w) \<Rightarrow> (Inr a, w))"

definition published_start :: "'x git_ports \<Rightarrow> string \<Rightarrow> string \<Rightarrow> string \<Rightarrow> (commit, 'x) io" where
  "published_start G path branch base =
     or_else (or_else (resolveCommit G path (''origin/'' @ branch)) (resolveCommit G path (''origin/'' @ base)))
       (resolveCommit G path base)"

definition Workspace_Checkout :: "'x git_ports \<Rightarrow> CodeCheckout \<Rightarrow> string \<Rightarrow> string \<Rightarrow> (string, 'x) io" where
  "Workspace_Checkout G checkout branch base =
     calling (settling (checkoutPath G checkout)) (\<lambda>path.
       calling (ensureClone G path (co_Repository checkout)) (\<lambda>_.
         calling (doing (gt_Worktree G path)) (\<lambda>_.
           calling (published_start G path branch base) (\<lambda>start.
             calling (doing (gt_SetReference G path (branchReference branch) (cm_Hash start))) (\<lambda>_.
               calling (wrapping ''check out %s: %w'' branch (doing (gt_Checkout G path (branchReference branch)))) (\<lambda>_.
                 returning path))))))"

definition Workspace_Resolve :: "'x git_ports \<Rightarrow> CodeCheckout \<Rightarrow> string \<Rightarrow> (string, 'x) io" where
  "Workspace_Resolve G checkout ref =
     calling (open_checkout G checkout) (\<lambda>path.
       calling (resolveCommit G path ref) (\<lambda>c. returning (cm_Hash c)))"

text \<open>A failing step under a message of its own.\<close>

definition reporting_as :: "string \<Rightarrow> ('a, 'x) io \<Rightarrow> ('a, 'x) io" where
  "reporting_as message m w =
     (case m w of (Inl err, w) \<Rightarrow> (Inl (Wrapf message [] [err]), w) | (Inr a, w) \<Rightarrow> (Inr a, w))"

definition Workspace_CommitAll :: "'x git_ports \<Rightarrow> CodeCheckout \<Rightarrow> string \<Rightarrow> (string, 'x) io" where
  "Workspace_CommitAll G checkout message =
     calling (open_checkout G checkout) (\<lambda>path.
       calling (doing (gt_Worktree G path)) (\<lambda>_.
         calling (reporting_as ''stage agent changes: %w'' (doing (gt_AddAll G path))) (\<lambda>_.
           reporting_as ''commit agent changes: %w'' (gt_Commit G path message))))"

definition head_commit :: "'x git_ports \<Rightarrow> string \<Rightarrow> (commit, 'x) io" where
  "head_commit G path = calling (gt_Head G path) (\<lambda>(_, hash). gt_CommitObject G path hash)"

definition Workspace_CommitsSince ::
    "'x git_ports \<Rightarrow> CodeCheckout \<Rightarrow> string \<Rightarrow> 'x world \<Rightarrow> ((go_error + CommitInfo list) \<times> 'x world) option" where
  "Workspace_CommitsSince G checkout base w =
     (case calling (open_checkout G checkout) (\<lambda>path.
             calling (resolveCommit G path base) (\<lambda>baseCommit.
               calling (head_commit G path) (\<lambda>current. returning (path, baseCommit, current)))) w of
        (Inl err, w) \<Rightarrow> Some (Inl err, w)
      | (Inr (path, baseCommit, current), w) \<Rightarrow>
          commits_loop_since (changedPaths G path) (first_parent G path) (cm_Hash baseCommit) current [] w)"

definition Workspace_DescendsFrom :: "'x git_ports \<Rightarrow> CodeCheckout \<Rightarrow> string \<Rightarrow> (bool, 'x) io" where
  "Workspace_DescendsFrom G checkout base =
     calling (open_checkout G checkout) (\<lambda>path.
       calling (resolveCommit G path base) (\<lambda>baseCommit.
         calling (head_commit G path) (\<lambda>headCommit. gt_IsAncestor G path baseCommit headCommit)))"

definition refspec :: "string \<Rightarrow> string" where
  "refspec branch = branchReference branch @ '':'' @ branchReference branch"

definition Workspace_Push :: "'x git_ports \<Rightarrow> CodeCheckout \<Rightarrow> string \<Rightarrow> (unit, 'x) io" where
  "Workspace_Push G checkout branch =
     calling (open_checkout G checkout) (\<lambda>path.
       let url = remoteURL G (co_Repository checkout)
       in calling (authForURL G url) (\<lambda>auth.
            unless_is [NoErrAlreadyUpToDate] (\<lambda>err. Wrapf ''push %s: %w'' [GStr branch] [err])
              (gt_Push G path url auth (refspec branch))))"

definition Workspace_DeleteBranch :: "'x git_ports \<Rightarrow> CodeCheckout \<Rightarrow> string \<Rightarrow> (unit, 'x) io" where
  "Workspace_DeleteBranch G checkout branch =
     calling (settling (checkoutPath G checkout)) (\<lambda>path.
       let url = remoteURL G (co_Repository checkout)
       in calling (authForURL G url) (\<lambda>auth.
            calling (unless_is [NoErrAlreadyUpToDate, ErrReferenceNotFound] (\<lambda>err. Wrapf ''delete %s: %w'' [GStr branch] [err])
                (gt_PushDetached G url auth ('':'' @ branchReference branch))) (\<lambda>_.
              wrapping_issue ''remove checkout for issue %s: %w'' checkout (doing (gt_RemoveAll G path)))))"

text \<open>After a push that failed: a base that moved on is a conflict, everything else the error of the push.\<close>

definition explain_push :: "'x git_ports \<Rightarrow> string \<Rightarrow> CodeCheckout \<Rightarrow> string \<Rightarrow> commit \<Rightarrow> go_error \<Rightarrow> (unit, 'x) io" where
  "explain_push G path checkout base headCommit pushErr w =
     (case calling (fetch G path (co_Repository checkout)) (\<lambda>_.
             calling (resolveCommit G path (''origin/'' @ base)) (\<lambda>movedBase. gt_IsAncestor G path movedBase headCommit)) w of
        (Inl err, w) \<Rightarrow> (Inl (JoinErr [pushErr, err]), w)
      | (Inr stillFastForward, w) \<Rightarrow>
          (Inl (if stillFastForward then pushErr
                else Wrapf ''%w: %s'' [] [Sentinel ErrMergeConflict]), w))"

definition Workspace_Merge :: "'x git_ports \<Rightarrow> CodeCheckout \<Rightarrow> string \<Rightarrow> string \<Rightarrow> (unit, 'x) io" where
  "Workspace_Merge G checkout head base =
     calling (settling (checkoutPath G checkout)) (\<lambda>path.
       calling (ensureClone G path (co_Repository checkout)) (\<lambda>_.
         calling (resolveCommit G path (''origin/'' @ base)) (\<lambda>baseCommit.
           calling (resolveCommit G path (''origin/'' @ head)) (\<lambda>headCommit.
             calling (gt_IsAncestor G path baseCommit headCommit) (\<lambda>fastForward.
               if \<not> fastForward
               then failing (Wrapf ''%w: %s has moved on since %s last merged it'' [GStr base, GStr head] [Sentinel ErrMergeConflict])
               else
                 calling (doing (gt_SetReference G path (branchReference base) (cm_Hash headCommit))) (\<lambda>_ w.
                   case Workspace_Push G checkout base w of
                     (Inr _, w) \<Rightarrow> (Inr (), w)
                   | (Inl pushErr, w) \<Rightarrow> explain_push G path checkout base headCommit pushErr w))))))"

fun inspect_heads :: "'x git_ports \<Rightarrow> string \<Rightarrow> commit \<Rightarrow> string list \<Rightarrow> (string \<rightharpoonup> BranchState) \<Rightarrow> (string \<rightharpoonup> BranchState, 'x) io" where
  "inspect_heads G path baseCommit [] states = returning states"
| "inspect_heads G path baseCommit (head # heads) states = (\<lambda>w.
     case resolveCommit G path (''origin/'' @ head) w of
       (Inl _, w) \<Rightarrow> inspect_heads G path baseCommit heads states w
     | (Inr headCommit, w) \<Rightarrow>
         calling (gt_IsAncestor G path baseCommit headCommit) (\<lambda>contains.
           inspect_heads G path baseCommit heads
             (states(head \<mapsto> \<lparr>bs_Head = cm_Hash headCommit, bs_Behind = \<not> contains\<rparr>))) w)"

definition Workspace_InspectBranches ::
    "'x git_ports \<Rightarrow> string \<Rightarrow> string \<Rightarrow> string \<Rightarrow> string list \<Rightarrow> (string \<rightharpoonup> BranchState, 'x) io" where
  "Workspace_InspectBranches G epicID repository base heads =
     calling (settling (repositoryPath G epicID repository)) (\<lambda>path.
       calling (ensureClone G path repository) (\<lambda>_.
         calling (resolveCommit G path (''origin/'' @ base)) (\<lambda>baseCommit.
           inspect_heads G path baseCommit heads Map.empty)))"

definition Workspace_PurgeEpic :: "'x git_ports \<Rightarrow> string \<Rightarrow> (unit, 'x) io" where
  "Workspace_PurgeEpic G epicID =
     (if \<not> pathSegmentValid epicID then failing (invalid_epic epicID)
      else doing (gt_RemoveAll G (filepath_Join [gt_root G, epicID])))"

fun head_target :: "(string \<times> string option) list \<Rightarrow> string option" where
  "head_target [] = None"
| "head_target ((name, target) # references) =
     (case target of
        Some target \<Rightarrow>
          if name = ''HEAD'' \<and> prefix ''refs/heads/'' target then Some (drop (length ''refs/heads/'') target)
          else head_target references
      | None \<Rightarrow> head_target references)"

definition Workspace_DefaultBranch :: "'x git_ports \<Rightarrow> string \<Rightarrow> (string, 'x) io" where
  "Workspace_DefaultBranch G repository =
     (if \<not> repositoryNameValid repository then failing (invalid_name repository)
      else
        let url = remoteURL G repository
        in calling (authForURL G url) (\<lambda>auth.
             calling (wrapping ''list %s refs: %w'' repository (gt_List G url auth)) (\<lambda>references.
               case head_target references of
                 Some branch \<Rightarrow> returning branch
               | None \<Rightarrow> failing (Errorf ''%s does not report a default branch'' [GStr repository]))))"

section \<open>The clones of an epic\<close>

fun remove_entries_but_git :: "'x git_ports \<Rightarrow> string \<Rightarrow> string list \<Rightarrow> (unit, 'x) io" where
  "remove_entries_but_git G path [] = returning ()"
| "remove_entries_but_git G path (name # names) =
     (if name = ''.git'' then remove_entries_but_git G path names
      else calling (doing (gt_RemoveAll G (filepath_Join [path, name]))) (\<lambda>_. remove_entries_but_git G path names))"

definition resetWorktree :: "'x git_ports \<Rightarrow> string \<Rightarrow> (unit, 'x) io" where
  "resetWorktree G path =
     calling (gt_ReadDir G path) (\<lambda>names.
       calling (remove_entries_but_git G path names) (\<lambda>_.
         calling (gt_Head G path) (\<lambda>(name, _).
           if \<not> prefix ''refs/heads/'' name then failing (Errorf ''checkout is not on a local branch'' [])
           else
             let branch = drop (length ''refs/heads/'') name
             in calling (wrapping ''resolve origin/%s: %w'' branch (gt_Reference G path (''refs/remotes/origin/'' @ branch)))
                  (\<lambda>hash. doing (gt_HardReset G path hash)))))"

definition refresh :: "'x git_ports \<Rightarrow> string \<Rightarrow> string \<Rightarrow> (unit, 'x) io" where
  "refresh G path repository =
     calling (validateCheckout G path) (\<lambda>_.
       calling (doing (gt_PlainOpen G path)) (\<lambda>_.
         calling (validateCheckout G path) (\<lambda>_.
           calling (doing (gt_Worktree G path)) (\<lambda>_.
             calling (wrapping ''reset repository %q: %w'' repository (resetWorktree G path)) (\<lambda>_.
               calling (authForURL G (githubRemote repository)) (\<lambda>auth.
                 calling (unless_is [NoErrAlreadyUpToDate] (\<lambda>err. Wrapf ''refresh repository %q: %w'' [GStr repository] [err])
                     (gt_Fetch G path (githubRemote repository) auth)) (\<lambda>_.
                   wrapping ''reset repository %q: %w'' repository (resetWorktree G path))))))))"

definition ensureLocked :: "'x git_ports \<Rightarrow> string \<Rightarrow> string \<Rightarrow> (string, 'x) io" where
  "ensureLocked G epicID repository =
     (let path = filepath_Join [gt_root G, epicID, ''repos'', Encode repository]
      in calling (gt_Stat G path) (\<lambda>exists.
           calling
             (if exists then refresh G path repository
              else
                calling (doing (gt_MkdirAll G (parent_directory path))) (\<lambda>_.
                  calling (authForURL G (githubRemote repository)) (\<lambda>auth.
                    wrapping ''clone repository %q: %w'' repository
                      (doing (gt_PlainClone G path (githubRemote repository) auth)))))
             (\<lambda>_. returning path)))"

definition Agent_Ensure :: "'x git_ports \<Rightarrow> string \<Rightarrow> string \<Rightarrow> (string, 'x) io" where
  "Agent_Ensure G epicID repository =
     (if \<not> repositoryNameValid repository then failing (invalid_name repository)
      else if \<not> pathSegmentValid epicID then failing (invalid_epic epicID)
      else ensureLocked G epicID repository)"

definition Agent_Purge :: "'x git_ports \<Rightarrow> string \<Rightarrow> (unit, 'x) io" where
  "Agent_Purge G epicID =
     (if \<not> pathSegmentValid epicID then failing (invalid_epic epicID)
      else doing (gt_RemoveAll G (filepath_Join [gt_root G, epicID])))"

text \<open>An error about two names.\<close>

definition wrapping_two :: "string \<Rightarrow> string \<Rightarrow> string \<Rightarrow> ('a, 'x) io \<Rightarrow> ('a, 'x) io" where
  "wrapping_two message a b m w =
     (case m w of (Inl err, w) \<Rightarrow> (Inl (Wrapf message [GStr a, GStr b] [err]), w) | (Inr r, w) \<Rightarrow> (Inr r, w))"

definition diffBranches :: "'x git_ports \<Rightarrow> string \<Rightarrow> string \<Rightarrow> string \<Rightarrow> (string, 'x) io" where
  "diffBranches G path base head =
     calling (validateCheckout G path) (\<lambda>_.
       calling (doing (gt_PlainOpen G path)) (\<lambda>_.
         calling (resolveCommit G path base) (\<lambda>baseCommit.
           calling (resolveCommit G path head) (\<lambda>headCommit.
             calling (wrapping_two ''find merge base of %q and %q: %w'' base head (gt_MergeBase G path baseCommit headCommit))
               (\<lambda>mergeBases.
                 let from' = (case mergeBases of [] \<Rightarrow> baseCommit | c # _ \<Rightarrow> c)
                 in wrapping_two ''diff %q against %q: %w'' head base (gt_Patch G path from' headCommit))))))"

definition Agent_Diff :: "'x git_ports \<Rightarrow> string \<Rightarrow> string \<Rightarrow> string \<Rightarrow> string \<Rightarrow> (string, 'x) io" where
  "Agent_Diff G epicID repository base head =
     calling (Agent_Ensure G epicID repository) (\<lambda>path. diffBranches G path base head)"

end
