(* ===== verification/Workspace_History.thy ===== *)
theory Workspace_History
  imports Git_Workspaces
begin

text \<open>
  What the push gate sees of a history: \<open>CommitsSince\<close> walks the first parents of the head and lists
  what each commit changed against its own first parent. A round that only adds commits to the base
  hides nothing; a head whose first parents never meet the base hides what it removed.
\<close>

section \<open>Histories\<close>

text \<open>What a tree holds at a name; no tree holds nothing.\<close>

fun content_of :: "(string \<Rightarrow> string \<Rightarrow> 'b option) \<Rightarrow> string option \<Rightarrow> string \<Rightarrow> 'b option" where
  "content_of content None name = None"
| "content_of content (Some t) name = content t name"

text \<open>
  The objects of the clone at a path, as git documents them: a commit is found under its own hash and
  a diff of two trees names exactly what differs between them.
\<close>

definition reads_history ::
    "'x git_ports \<Rightarrow> string \<Rightarrow> (string \<Rightarrow> commit option) \<Rightarrow> (commit \<Rightarrow> string) \<Rightarrow> (string \<Rightarrow> string \<Rightarrow> 'b option) \<Rightarrow> bool" where
  "reads_history G path graph tree content \<longleftrightarrow>
     (\<forall>hash w c w'. gt_CommitObject G path hash w = (Inr c, w') \<longrightarrow> graph hash = Some c) \<and>
     (\<forall>hash c. graph hash = Some c \<longrightarrow> cm_Hash c = hash) \<and>
     (\<forall>c w t w'. gt_Tree G path c w = (Inr t, w') \<longrightarrow> t = tree c) \<and>
     (\<forall>from' t w changes w'. gt_DiffTree G path from' t w = (Inr changes, w') \<longrightarrow>
        (\<forall>name. name \<noteq> [] \<longrightarrow>
           ((\<exists>change \<in> set changes. ch_From change = name \<or> ch_To change = name) \<longleftrightarrow>
              content_of content from' name \<noteq> content t name)))"

lemma changed_names_set:
  "name \<noteq> [] \<Longrightarrow> name \<in> set (changed_names changes) \<longleftrightarrow> (\<exists>change \<in> set changes. ch_From change = name \<or> ch_To change = name)"
  unfolding changed_names_def by (induction changes) auto

lemma reads_historyD:
  assumes "reads_history G path graph tree content"
  shows "gt_CommitObject G path hash w = (Inr c, w') \<Longrightarrow> graph hash = Some c"
    "graph hash = Some c \<Longrightarrow> cm_Hash c = hash"
    "gt_Tree G path c w = (Inr t, w') \<Longrightarrow> t = tree c"
    "gt_DiffTree G path from' t w = (Inr changes, w') \<Longrightarrow> name \<noteq> [] \<Longrightarrow>
       (\<exists>change \<in> set changes. ch_From change = name \<or> ch_To change = name) \<longleftrightarrow>
         content_of content from' name \<noteq> content t name"
proof -
  show "graph hash = Some c" if "gt_CommitObject G path hash w = (Inr c, w')"
    using assms that unfolding reads_history_def by (elim conjE) metis
  show "cm_Hash c = hash" if "graph hash = Some c"
    using assms that unfolding reads_history_def by (elim conjE) metis
  show "t = tree c" if "gt_Tree G path c w = (Inr t, w')"
    using assms that unfolding reads_history_def by (elim conjE) metis
  from assms have diff: "\<forall>from' t w changes w'. gt_DiffTree G path from' t w = (Inr changes, w') \<longrightarrow>
        (\<forall>name. name \<noteq> [] \<longrightarrow>
           ((\<exists>change \<in> set changes. ch_From change = name \<or> ch_To change = name) \<longleftrightarrow>
              content_of content from' name \<noteq> content t name))"
    unfolding reads_history_def by (elim conjE)
  show "(\<exists>change \<in> set changes. ch_From change = name \<or> ch_To change = name) \<longleftrightarrow>
         content_of content from' name \<noteq> content t name"
    if "gt_DiffTree G path from' t w = (Inr changes, w')" "name \<noteq> []"
    by (rule diff [THEN spec, THEN spec, THEN spec, THEN spec, THEN spec, THEN mp, THEN spec, THEN mp, OF that])
qed

text \<open>The first parents of a commit, itself included.\<close>

inductive on_line :: "(string \<Rightarrow> commit option) \<Rightarrow> commit \<Rightarrow> commit \<Rightarrow> bool" for graph where
  here: "on_line graph c c"
| up: "cm_Parents c = p # ps \<Longrightarrow> graph p = Some d \<Longrightarrow> on_line graph d e \<Longrightarrow> on_line graph c e"

inductive_simps on_line_root: "on_line graph c e"

lemma on_line_up: "cm_Parents c = p # ps \<Longrightarrow> graph p = Some d \<Longrightarrow> on_line graph c e \<longleftrightarrow> c = e \<or> on_line graph d e"
  by (subst on_line_root) auto

lemma on_line_top: "cm_Parents c = [] \<Longrightarrow> on_line graph c e \<longleftrightarrow> c = e"
  by (subst on_line_root) auto

text \<open>What \<open>changedPaths\<close> names: the difference to the first parent, or everything at a root.\<close>

lemma changedPaths_names:
  assumes "reads_history G path graph tree content" "changedPaths G path c w = (Inr names, w')" "name \<noteq> []"
  shows "(cm_Parents c = [] \<and> (name \<in> set names \<longleftrightarrow> content (tree c) name \<noteq> None)) \<or>
    (\<exists>p ps d. cm_Parents c = p # ps \<and> graph p = Some d \<and>
       (name \<in> set names \<longleftrightarrow> content (tree d) name \<noteq> content (tree c) name))"
proof -
  obtain t w1 where t: "gt_Tree G path c w = (Inr t, w1)" and
    rest: "calling
         (if cm_Parents c = [] then returning None
          else calling (first_parent G path c) (\<lambda>parent. calling (gt_Tree G path parent) (\<lambda>pt. returning (Some pt))))
         (\<lambda>pt. calling (gt_DiffTree G path pt t) (\<lambda>changes. returning (changed_names changes))) w1 = (Inr names, w')"
    using assms(2) unfolding changedPaths_def calling_Inr by blast
  from t have tree: "t = tree c" by (rule reads_historyD(3) [OF assms(1)])
  from rest obtain pt w2 where pt: "(if cm_Parents c = [] then returning None
          else calling (first_parent G path c) (\<lambda>parent. calling (gt_Tree G path parent) (\<lambda>pt. returning (Some pt)))) w1 = (Inr pt, w2)"
    and "calling (gt_DiffTree G path pt t) (\<lambda>changes. returning (changed_names changes)) w2 = (Inr names, w')"
    unfolding calling_Inr by blast
  then obtain changes w3 where "gt_DiffTree G path pt t w2 = (Inr changes, w3)" "names = changed_names changes"
    by (auto simp: calling_Inr returning_def)
  then have names: "name \<in> set names \<longleftrightarrow> content_of content pt name \<noteq> content t name"
    using reads_historyD(4) [OF assms(1) _ assms(3)] changed_names_set [OF assms(3)] by metis
  show ?thesis
  proof (cases "cm_Parents c")
    case Nil
    with pt have "pt = None" by (simp add: returning_def)
    with names tree Nil show ?thesis by (cases "content (tree c) name") auto
  next
    case (Cons p ps)
    with pt obtain d w4 where d: "gt_CommitObject G path p w1 = (Inr d, w4)"
      and "calling (gt_Tree G path d) (\<lambda>pt. returning (Some pt)) w4 = (Inr pt, w2)"
      by (auto simp: first_parent_def calling_Inr)
    then have "pt = Some (tree d)"
      by (auto simp: calling_Inr returning_def dest: reads_historyD(3) [OF assms(1)])
    moreover from d have "graph p = Some d" by (rule reads_historyD(1) [OF assms(1)])
    ultimately show ?thesis using names tree Cons by auto
  qed
qed

definition listed :: "CommitInfo list \<Rightarrow> string set" where
  "listed infos = \<Union> (set ` ci_Paths ` set infos)"

lemma listed_simps [simp]: "listed [] = {}" "listed (i # is) = set (ci_Paths i) \<union> listed is" "listed (is @ js) = listed is \<union> listed js"
  by (auto simp: listed_def)

text \<open>What the walk adds to the list for one name: every change down to the base, or all there is.\<close>

definition walked ::
    "(string \<Rightarrow> commit option) \<Rightarrow> (commit \<Rightarrow> 'b option) \<Rightarrow> string \<Rightarrow> commit \<Rightarrow> bool \<Rightarrow> bool" where
  "walked graph at base c shown \<longleftrightarrow>
     (shown \<longrightarrow> (\<exists>d. on_line graph c d \<and> at d \<noteq> None)) \<and>
     ((\<exists>b. on_line graph c b \<and> cm_Hash b = base \<and> (at c \<noteq> at b \<longrightarrow> shown)) \<or>
      (\<forall>b. on_line graph c b \<longrightarrow> cm_Hash b \<noteq> base) \<and> (at c \<noteq> None \<longrightarrow> shown))"

lemma walked_base: "cm_Hash c = base \<Longrightarrow> walked graph at base c False"
  by (auto simp: walked_def intro: on_line.here)

lemma walked_root:
  "cm_Hash c \<noteq> base \<Longrightarrow> cm_Parents c = [] \<Longrightarrow> walked graph at base c (at c \<noteq> None)"
  by (auto simp: walked_def on_line_top)

lemma walked_up:
  assumes "cm_Hash c \<noteq> base" "cm_Parents c = p # ps" "graph p = Some d" "walked graph at base d shown"
  shows "walked graph at base c (at d \<noteq> at c \<or> shown)"
proof -
  have line: "on_line graph c e \<longleftrightarrow> c = e \<or> on_line graph d e" for e
    by (rule on_line_up [where graph = graph, OF assms(2,3)])
  have "on_line graph d d" by (rule on_line.here)
  with assms(1,4) show ?thesis unfolding walked_def line by metis
qed

lemma commits_loop_walks:
  assumes "reads_history G path graph tree content" "name \<noteq> []"
    and "commits_loop_since (changedPaths G path) (first_parent G path) base current commits w = Some (Inr infos, w')"
  shows "\<exists>shown. infos = shown @ commits \<and> walked graph (\<lambda>c. content (tree c) name) base current (name \<in> listed shown)"
proof -
  define P where "P = (\<lambda>changed parent base current commits (w :: 'a world) (rv :: (go_error + CommitInfo list) \<times> 'a world).
    changed = changedPaths G path \<longrightarrow> parent = first_parent G path \<longrightarrow>
    (\<forall>infos. fst rv = Inr infos \<longrightarrow>
       (\<exists>shown. infos = shown @ commits \<and> walked graph (\<lambda>c. content (tree c) name) base current (name \<in> listed shown))))"
  have "P changed parent base current commits w rv"
    if "commits_loop_since changed parent base current commits w = Some rv" for changed parent base current commits w rv
  proof (rule commits_loop_since.raw_induct [where P = P, OF _ that])
    fix loop changed parent base current commits w and rv :: "(go_error + CommitInfo list) \<times> 'a world"
    assume IH: "\<And>changed parent base current commits w rv. loop changed parent base current commits w = Some rv \<Longrightarrow>
        P changed parent base current commits w rv"
      and step: "(if cm_Hash current = base then Some (Inr commits, w)
        else (case changed current w of
           (Inl err, w) \<Rightarrow> Some (Inl err, w)
         | (Inr paths, w) \<Rightarrow>
             let commits = \<lparr>ci_Hash = cm_Hash current, ci_Paths = paths\<rparr> # commits
             in if cm_Parents current = [] then Some (Inr commits, w)
                else (case parent current w of
                     (Inl err, w) \<Rightarrow> Some (Inl err, w)
                   | (Inr next', w) \<Rightarrow> loop changed parent base next' commits w))) = Some rv"
    show "P changed parent base current commits w rv"
      unfolding P_def
    proof (intro impI allI)
      fix infos assume ports: "changed = changedPaths G path" "parent = first_parent G path" and rv: "fst rv = Inr infos"
      show "\<exists>shown. infos = shown @ commits \<and> walked graph (\<lambda>c. content (tree c) name) base current (name \<in> listed shown)"
      proof (cases "cm_Hash current = base")
        case True
        with step rv have "infos = commits" by auto
        with True walked_base show ?thesis by (intro exI [of _ "[]"]) auto
      next
        case False
        with step rv ports obtain paths w1 where paths: "changedPaths G path current w = (Inr paths, w1)"
          by (auto split: prod.splits sum.splits)
        let ?info = "\<lparr>ci_Hash = cm_Hash current, ci_Paths = paths\<rparr>"
        show ?thesis
        proof (cases "cm_Parents current")
          case Nil
          with step rv False paths ports have "infos = [?info] @ commits" by auto
          with changedPaths_names [OF assms(1) paths assms(2)] walked_root [OF False Nil, of graph "\<lambda>c. content (tree c) name"] Nil
          show ?thesis by (intro exI [of _ "[?info]"]) auto
        next
          case (Cons p ps)
          with step rv False paths ports obtain d w2 where d: "first_parent G path current w1 = (Inr d, w2)"
            and loop: "loop changed parent base d (?info # commits) w2 = Some rv"
            by (auto split: prod.splits sum.splits)
          from IH [OF loop] ports rv obtain shown where shown: "infos = shown @ ?info # commits"
            "walked graph (\<lambda>c. content (tree c) name) base d (name \<in> listed shown)"
            unfolding P_def by blast
          from d Cons have "graph p = Some d" by (auto simp: first_parent_def dest: reads_historyD(1) [OF assms(1)])
          with walked_up [OF False Cons this shown(2)] changedPaths_names [OF assms(1) paths assms(2)] Cons
          have "walked graph (\<lambda>c. content (tree c) name) base current (name \<in> set paths \<or> name \<in> listed shown)" by auto
          with shown(1) show ?thesis by (intro exI [of _ "shown @ [?info]"]) (simp add: disj_commute)
        qed
      qed
    qed
  qed
  from this [OF assms(3)] show ?thesis unfolding P_def by simp
qed

section \<open>The gate on a history\<close>

text \<open>The commits of a round as the gate gets them (\<open>RunIssueAgentUseCase.gate\<close>).\<close>

definition run_commits :: "bool \<Rightarrow> CommitInfo list \<Rightarrow> RunCommit list" where
  "run_commits descends infos =
     map (\<lambda>i. \<lparr>rc_Hash = ci_Hash i, rc_DescendsFromBase = descends, rc_Paths = ci_Paths i\<rparr>) infos"

lemma gate_on_run_commits:
  "EvaluatePushGate ulower base (run_commits descends infos) = None \<longleftrightarrow>
     trim_space base \<noteq> [] \<and> (infos \<noteq> [] \<longrightarrow> descends) \<and> (\<forall>name \<in> listed infos. \<not> protected ulower name)"
proof (cases infos)
  case (Cons i rest)
  then have "i \<in> set infos" by simp
  then show ?thesis by (auto simp: EvaluatePushGate_def commits_loop_None run_commits_def listed_def)
qed (simp add: EvaluatePushGate_def run_commits_def)

lemma CommitsSince_cases:
  assumes "Workspace_CommitsSince G checkout base w = Some (Inr infos, w')"
  obtains path b h w1 w2 w3 where "checkoutPath G checkout = Inr path"
    "resolveCommit G path base w1 = (Inr b, w2)" "head_commit G path w2 = (Inr h, w3)"
    "commits_loop_since (changedPaths G path) (first_parent G path) (cm_Hash b) h [] w3 = Some (Inr infos, w')"
proof -
  from assms obtain path b h w3 where
    run: "calling (open_checkout G checkout) (\<lambda>path.
             calling (resolveCommit G path base) (\<lambda>baseCommit.
               calling (head_commit G path) (\<lambda>current. returning (path, baseCommit, current)))) w = (Inr (path, b, h), w3)"
    and loop: "commits_loop_since (changedPaths G path) (first_parent G path) (cm_Hash b) h [] w3 = Some (Inr infos, w')"
    by (auto simp: Workspace_CommitsSince_def split: prod.splits sum.splits)
  from run obtain w1 w2 where "open_checkout G checkout w = (Inr path, w1)" "resolveCommit G path base w1 = (Inr b, w2)"
    "head_commit G path w2 = (Inr h, w3)"
    by (auto simp: calling_Inr returning_def)
  moreover from this(1) have "checkoutPath G checkout = Inr path"
    by (auto simp: open_checkout_def calling_Inr settling_def returning_def)
  ultimately show ?thesis using that loop by blast
qed

lemma resolved_in_graph:
  assumes "reads_history G path graph tree content" "resolveCommit G path ref w = (Inr c, w')"
  shows "graph (cm_Hash c) = Some c"
proof -
  have "\<exists>hash w1. gt_CommitObject G path hash w1 = (Inr c, w')"
    using assms(2) by (auto simp: resolveCommit_def Let_def split: prod.splits sum.splits if_splits)
  with reads_historyD [OF assms(1)] show ?thesis by blast
qed

lemma line_in_graph:
  assumes "reads_history G path graph tree content" "on_line graph c d" "graph (cm_Hash c) = Some c"
  shows "graph (cm_Hash d) = Some d"
  using assms(2,3) by induction (auto dest: reads_historyD(2) [OF assms(1)])

lemma head_in_graph:
  assumes "reads_history G path graph tree content" "head_commit G path w = (Inr c, w')"
  shows "graph (cm_Hash c) = Some c"
  using assms(2) by (auto simp: head_commit_def calling_Inr dest: reads_historyD [OF assms(1)])

text \<open>C16. The push gate protects what it means to protect against a head that builds on the base along its
  first parents: when it passes the commits since the base, every protected file is in the head what
  it is in the base. Only where the first parents of the head miss the base may a protected file
  differ, and then only by being gone.\<close>

theorem gate_keeps_protected_files:
  assumes "\<And>path. checkoutPath G checkout = Inr path \<Longrightarrow> reads_history G path graph tree content"
    and "Workspace_CommitsSince G checkout base w = Some (Inr infos, w')"
    and "EvaluatePushGate ulower base (run_commits descends infos) = None"
  shows "\<exists>path b h w1 w2 w3. checkoutPath G checkout = Inr path \<and> resolveCommit G path base w1 = (Inr b, w2) \<and>
    head_commit G path w2 = (Inr h, w3) \<and>
    (\<forall>name. name \<noteq> [] \<and> protected ulower name \<longrightarrow>
       content (tree h) name = content (tree b) name \<or> \<not> on_line graph h b \<and> content (tree h) name = None)"
proof -
  from CommitsSince_cases [OF assms(2)] obtain path b h w1 w2 w3 where
    path: "checkoutPath G checkout = Inr path" and b: "resolveCommit G path base w1 = (Inr b, w2)"
    and h: "head_commit G path w2 = (Inr h, w3)"
    and loop: "commits_loop_since (changedPaths G path) (first_parent G path) (cm_Hash b) h [] w3 = Some (Inr infos, w')" .
  note reads = assms(1) [OF path]
  have "content (tree h) name = content (tree b) name \<or> \<not> on_line graph h b \<and> content (tree h) name = None"
    if name: "name \<noteq> []" "protected ulower name" for name
  proof -
    from commits_loop_walks [OF reads name(1) loop]
    have walked: "walked graph (\<lambda>c. content (tree c) name) (cm_Hash b) h (name \<in> listed infos)" by simp
    from assms(3) name(2) have "name \<notin> listed infos" unfolding gate_on_run_commits by blast
    with walked have "(\<exists>d. on_line graph h d \<and> cm_Hash d = cm_Hash b \<and> content (tree h) name = content (tree d) name) \<or>
        (\<forall>d. on_line graph h d \<longrightarrow> cm_Hash d \<noteq> cm_Hash b) \<and> content (tree h) name = None"
      unfolding walked_def by auto
    then show ?thesis
    proof (elim disjE exE conjE)
      fix d assume reached: "on_line graph h d" "cm_Hash d = cm_Hash b" "content (tree h) name = content (tree d) name"
      from line_in_graph [OF reads reached(1) head_in_graph [OF reads h]] have "graph (cm_Hash b) = Some d"
        unfolding reached(2) .
      with resolved_in_graph [OF reads b] have "d = b" by (metis option.inject)
      with reached(3) show ?thesis by metis
    next
      assume missed: "\<forall>d. on_line graph h d \<longrightarrow> cm_Hash d \<noteq> cm_Hash b" and gone: "content (tree h) name = None"
      from missed have "\<not> on_line graph h b" by blast
      with gone show ?thesis by simp
    qed
  qed
  with path b h show ?thesis by blast
qed

text \<open>C33. The gate does not see what a head drops that joins the base to another root: when the first
  parents of the head never meet the base and none of them has a protected file, the gate passes
  the round whatever protected files the base has, although none of them is left in the head.\<close>

theorem removal_behind_another_root_passes:
  assumes "\<And>path. checkoutPath G checkout = Inr path \<Longrightarrow> reads_history G path graph tree content"
    and "Workspace_CommitsSince G checkout base w = Some (Inr infos, w')"
    and "\<And>path w1 c w2. checkoutPath G checkout = Inr path \<Longrightarrow> head_commit G path w1 = (Inr c, w2) \<Longrightarrow> c = h"
    and "\<And>c name. on_line graph h c \<Longrightarrow> protected ulower name \<Longrightarrow> content (tree c) name = None"
    and "\<not> protected ulower []" and "trim_space base \<noteq> []"
  shows "EvaluatePushGate ulower base (run_commits True infos) = None"
proof -
  from CommitsSince_cases [OF assms(2)] obtain path b c w1 w2 w3 where
    path: "checkoutPath G checkout = Inr path" and "resolveCommit G path base w1 = (Inr b, w2)"
    and c: "head_commit G path w2 = (Inr c, w3)"
    and run: "commits_loop_since (changedPaths G path) (first_parent G path) (cm_Hash b) c [] w3 = Some (Inr infos, w')" .
  have loop: "commits_loop_since (changedPaths G path) (first_parent G path) (cm_Hash b) h [] w3 = Some (Inr infos, w')"
    using run assms(3) [OF path c] by simp
  have "\<not> protected ulower name" if "name \<in> listed infos" for name
  proof
    assume protected: "protected ulower name"
    with assms(5) have "name \<noteq> []" by auto
    from commits_loop_walks [OF assms(1) [OF path] this loop] that
    obtain d where d: "on_line graph h d" "content (tree d) name \<noteq> None"
      unfolding walked_def by auto
    from assms(4) [OF d(1) protected] d(2) show False by simp
  qed
  with assms(6) show ?thesis unfolding gate_on_run_commits by blast
qed

section \<open>Two heads over one base\<close>

text \<open>
  A clone with a base \<open>c0\<close> that has a workflow, a commit \<open>c1\<close> on it, and a merge \<open>m\<close> of the base
  into a root \<open>o\<close> without the workflow.
\<close>

definition exhibit_graph :: "string \<Rightarrow> commit option" where
  "exhibit_graph =
     [''c0'' \<mapsto> \<lparr>cm_Hash = ''c0'', cm_Parents = []\<rparr>, ''c1'' \<mapsto> \<lparr>cm_Hash = ''c1'', cm_Parents = [''c0'']\<rparr>,
      ''o'' \<mapsto> \<lparr>cm_Hash = ''o'', cm_Parents = []\<rparr>, ''m'' \<mapsto> \<lparr>cm_Hash = ''m'', cm_Parents = [''o'', ''c0'']\<rparr>]"

definition exhibit_tree :: "commit \<Rightarrow> string" where
  "exhibit_tree c = (if cm_Hash c = ''m'' then ''o'' else cm_Hash c)"

definition exhibit_content :: "string \<Rightarrow> string \<Rightarrow> nat option" where
  "exhibit_content t =
     (if t = ''c0'' then [''.github/ci'' \<mapsto> 1, ''a'' \<mapsto> 1]
      else if t = ''c1'' then [''.github/ci'' \<mapsto> 1, ''a'' \<mapsto> 2]
      else if t = ''o'' then [''a'' \<mapsto> 1] else Map.empty)"

definition exhibit_diff :: "string option \<Rightarrow> string \<Rightarrow> tree_change list" where
  "exhibit_diff from' t =
     map (\<lambda>name. \<lparr>ch_From = name, ch_To = name\<rparr>)
       (filter (\<lambda>name. content_of exhibit_content from' name \<noteq> exhibit_content t name) [''.github/ci'', ''a''])"

definition exhibit_commit :: "string \<Rightarrow> go_error + commit" where
  "exhibit_commit hash = (case exhibit_graph hash of None \<Rightarrow> Inl (Sentinel ''object not found'') | Some c \<Rightarrow> Inr c)"

definition exhibit :: "string \<Rightarrow> unit git_ports" where
  "exhibit head =
     \<lparr>gt_root = ''/work'', gt_remote = None, gt_Lstat = (\<lambda>path. Pair (Inr (Some IsDirectory))), gt_Walk = (\<lambda>path. Pair []),
      gt_Stat = (\<lambda>path. Pair (Inr True)), gt_ReadDir = (\<lambda>path. Pair (Inr [])), gt_MkdirAll = (\<lambda>path. Pair None),
      gt_RemoveAll = (\<lambda>path. Pair None), gt_Home = Pair (Inr ''/home''), gt_IdentityFiles = (\<lambda>host. []),
      gt_Key = (\<lambda>path. Pair True), gt_SSHAgent = Pair False, gt_Hostname = (\<lambda>remote. []),
      gt_PlainOpen = (\<lambda>path. Pair None), gt_PlainClone = (\<lambda>path url auth. Pair None), gt_Worktree = (\<lambda>path. Pair None),
      gt_ResolveRevision = (\<lambda>path rev. Pair (Inr rev)), gt_CommitObject = (\<lambda>path hash. Pair (exhibit_commit hash)),
      gt_Head = (\<lambda>path. Pair (Inr (''refs/heads/x'', head))), gt_Reference = (\<lambda>path name. Pair (Inr head)),
      gt_SetReference = (\<lambda>path name hash. Pair None), gt_Checkout = (\<lambda>path name. Pair None),
      gt_HardReset = (\<lambda>path hash. Pair None), gt_AddAll = (\<lambda>path. Pair None), gt_Commit = (\<lambda>path message. Pair (Inr head)),
      gt_Tree = (\<lambda>path c. Pair (Inr (exhibit_tree c))), gt_DiffTree = (\<lambda>path from' t. Pair (Inr (exhibit_diff from' t))),
      gt_IsAncestor = (\<lambda>path a b. Pair (Inr True)), gt_MergeBase = (\<lambda>path a b. Pair (Inr [])),
      gt_Patch = (\<lambda>path a b. Pair (Inr [])), gt_Fetch = (\<lambda>path url auth. Pair None),
      gt_Push = (\<lambda>path url auth spec. Pair None), gt_PushDetached = (\<lambda>url auth spec. Pair None),
      gt_List = (\<lambda>url auth. Pair (Inr []))\<rparr>"

lemma exhibit_names: "name \<notin> {''.github/ci'', ''a''} \<Longrightarrow> exhibit_content t name = None"
  by (simp add: exhibit_content_def)

lemma exhibit_reads: "reads_history (exhibit head) path exhibit_graph exhibit_tree exhibit_content"
proof -
  have "(\<exists>change \<in> set (exhibit_diff from' t). ch_From change = name \<or> ch_To change = name) \<longleftrightarrow>
      content_of exhibit_content from' name \<noteq> exhibit_content t name" for from' t name
  proof -
    have "content_of exhibit_content from' name = exhibit_content t name" if "name \<notin> {''.github/ci'', ''a''}"
      using exhibit_names [OF that] by (cases from') simp_all
    then show ?thesis unfolding exhibit_diff_def by auto
  qed
  moreover have "exhibit_graph hash = Some c \<Longrightarrow> cm_Hash c = hash" for hash c
    by (auto simp: exhibit_graph_def split: if_splits)
  ultimately show ?thesis
    by (auto simp: reads_history_def exhibit_def exhibit_commit_def split: option.splits)
qed

definition exhibit_world :: "unit world" where
  "exhibit_world = \<lparr>w_supervisor = NewRunSupervisor, w_ext = ()\<rparr>"

definition exhibit_checkout :: CodeCheckout where
  "exhibit_checkout = \<lparr>co_EpicID = ''E'', co_IssueID = ''I'', co_Repository = ''o/r''\<rparr>"

lemma exhibit_path: "\<exists>path. checkoutPath (exhibit head) exhibit_checkout = Inr path"
  by (simp add: checkoutPath_def exhibit_checkout_def repositoryNameValid_def pathSegmentValid_def Let_def)

lemma exhibit_open: "\<exists>path. open_checkout (exhibit head) exhibit_checkout w = (Inr path, w)"
  using exhibit_path [of head]
  by (auto simp: open_checkout_def validateCheckout_def wrapping_issue_def wrapping_def calling_def settling_def returning_def
      doing_def exhibit_def)

lemma exhibit_base: "resolveCommit (exhibit head) path ''c0'' w = (exhibit_commit ''c0'', w)"
proof -
  have "trim_space ''c0'' = ''c0''"
    by (intro trim_space_solid; simp add: byte_def is_space_def in_range_def)
  then show ?thesis by (simp add: resolveCommit_def exhibit_def)
qed

lemma exhibit_since:
  "\<exists>path. Workspace_CommitsSince (exhibit head) exhibit_checkout ''c0'' w =
     (case exhibit_commit head of
        Inl err \<Rightarrow> Some (Inl err, w)
      | Inr c \<Rightarrow> commits_loop_since (changedPaths (exhibit head) path) (first_parent (exhibit head) path) ''c0'' c [] w)"
proof -
  from exhibit_open [of head w] obtain path where opened: "open_checkout (exhibit head) exhibit_checkout w = (Inr path, w)" ..
  have "exhibit_commit ''c0'' = Inr \<lparr>cm_Hash = ''c0'', cm_Parents = []\<rparr>"
    by (simp add: exhibit_commit_def exhibit_graph_def)
  with exhibit_base [of head path w] opened show ?thesis
    by (intro exI [of _ path])
      (simp add: Workspace_CommitsSince_def calling_def head_commit_def returning_def exhibit_def split: sum.split)
qed

lemma exhibit_changed:
  "changedPaths (exhibit head) path c w =
     (case cm_Parents c of
        [] \<Rightarrow> (Inr (changed_names (exhibit_diff None (exhibit_tree c))), w)
      | p # _ \<Rightarrow> (map_sum id (\<lambda>d. changed_names (exhibit_diff (Some (exhibit_tree d)) (exhibit_tree c))) (exhibit_commit p), w))"
  by (simp add: changedPaths_def first_parent_def calling_def returning_def exhibit_def split: list.split sum.split)

lemma exhibit_first: "cm_Parents c = p # ps \<Longrightarrow> first_parent (exhibit head) path c w = (exhibit_commit p, w)"
  by (simp add: first_parent_def exhibit_def)

lemmas exhibit_steps = commits_loop_since.simps exhibit_changed exhibit_first exhibit_commit_def exhibit_graph_def
  exhibit_tree_def exhibit_content_def exhibit_diff_def changed_names_def

lemma exhibit_on_base:
  "Workspace_CommitsSince (exhibit ''c1'') exhibit_checkout ''c0'' w =
     Some (Inr [\<lparr>ci_Hash = ''c1'', ci_Paths = [''a'']\<rparr>], w)"
  using exhibit_since [of "''c1''" w] by (auto simp: exhibit_steps)

lemma exhibit_beside_base:
  "Workspace_CommitsSince (exhibit ''m'') exhibit_checkout ''c0'' w =
     Some (Inr [\<lparr>ci_Hash = ''o'', ci_Paths = [''a'']\<rparr>, \<lparr>ci_Hash = ''m'', ci_Paths = []\<rparr>], w)"
  using exhibit_since [of "''m''" w] by (auto simp: exhibit_steps)

lemma ci_protected: "protected id ''.github/ci''"
proof -
  have "trim_space ''.github/ci'' = ''.github/ci''"
    by (intro trim_space_solid; simp add: byte_def is_space_def in_range_def)
  moreover have "prefix ''.github/'' (map lower_char (trim_prefix ''.github/ci'' ''./''))" by code_simp
  ultimately show ?thesis by (subst protected_ascii) (simp_all add: is_ascii_def byte_def)
qed

lemma a_unprotected: "\<not> protected id ''a''" "\<not> protected id []"
proof -
  have "trim_space ''a'' = ''a''"
    by (intro trim_space_solid; simp add: byte_def is_space_def in_range_def)
  moreover have "\<not> prefix ''.github/'' (map lower_char (trim_prefix ''a'' ''./''))" by code_simp
  ultimately show "\<not> protected id ''a''" by (subst protected_ascii) (simp_all add: is_ascii_def byte_def)
  have "\<not> prefix ''.github/'' (map lower_char (trim_prefix [] ''./''))" by code_simp
  then show "\<not> protected id []" by (subst protected_ascii) (simp_all add: is_ascii_def)
qed

lemma c0_solid: "trim_space ''c0'' \<noteq> []"
proof -
  have "trim_space ''c0'' = ''c0''"
    by (intro trim_space_solid; simp add: byte_def is_space_def in_range_def)
  then show ?thesis by simp
qed

lemma exhibit_head: "head_commit (exhibit head) path w = (exhibit_commit head, w)"
  by (simp add: head_commit_def calling_def exhibit_def)

lemma gate_keeps_protected_files_witness:
  "\<exists>path b h. resolveCommit (exhibit ''c1'') path ''c0'' exhibit_world = (Inr b, exhibit_world) \<and>
     head_commit (exhibit ''c1'') path exhibit_world = (Inr h, exhibit_world) \<and>
     exhibit_content (exhibit_tree h) ''.github/ci'' = Some 1 \<and> exhibit_content (exhibit_tree b) ''.github/ci'' = Some 1"
proof -
  have "EvaluatePushGate id ''c0'' (run_commits True [\<lparr>ci_Hash = ''c1'', ci_Paths = [''a'']\<rparr>]) = None"
    using c0_solid a_unprotected(1) unfolding gate_on_run_commits by simp
  from gate_keeps_protected_files [OF exhibit_reads exhibit_on_base [of exhibit_world] this]
  obtain path b h w1 w2 w3 where "resolveCommit (exhibit ''c1'') path ''c0'' w1 = (Inr b, w2)"
    and h: "head_commit (exhibit ''c1'') path w2 = (Inr h, w3)"
    and kept: "\<forall>name. name \<noteq> [] \<and> protected id name \<longrightarrow>
       exhibit_content (exhibit_tree h) name = exhibit_content (exhibit_tree b) name \<or>
       \<not> on_line exhibit_graph h b \<and> exhibit_content (exhibit_tree h) name = None"
    by blast
  then have b: "resolveCommit (exhibit ''c1'') path ''c0'' exhibit_world = (Inr b, exhibit_world)"
    by (simp add: exhibit_base)
  from h have h': "head_commit (exhibit ''c1'') path exhibit_world = (Inr h, exhibit_world)"
    by (simp add: exhibit_head)
  from h have "cm_Hash h = ''c1''" by (auto simp: exhibit_head exhibit_commit_def exhibit_graph_def)
  then have there: "exhibit_content (exhibit_tree h) ''.github/ci'' = Some 1"
    by (simp add: exhibit_tree_def exhibit_content_def)
  with kept [THEN spec, of "''.github/ci''"] ci_protected
  have "exhibit_content (exhibit_tree b) ''.github/ci'' = Some 1" by simp
  with b h' there show ?thesis by blast
qed

lemma exhibit_line: "on_line exhibit_graph \<lparr>cm_Hash = ''m'', cm_Parents = [''o'', ''c0'']\<rparr> c \<Longrightarrow> exhibit_tree c = ''o''"
  by (subst (asm) on_line_root, elim disjE exE conjE) (auto simp: exhibit_graph_def exhibit_tree_def on_line_top)

lemma removal_behind_another_root_passes_witness:
  "\<exists>infos w. Workspace_CommitsSince (exhibit ''m'') exhibit_checkout ''c0'' exhibit_world = Some (Inr infos, w) \<and>
     EvaluatePushGate id ''c0'' (run_commits True infos) = None \<and>
     exhibit_content ''c0'' ''.github/ci'' = Some 1 \<and>
     exhibit_content (exhibit_tree \<lparr>cm_Hash = ''m'', cm_Parents = [''o'', ''c0'']\<rparr>) ''.github/ci'' = None"
proof -
  let ?m = "\<lparr>cm_Hash = ''m'', cm_Parents = [''o'', ''c0'']\<rparr>"
  have "exhibit_content ''o'' name = None" if "protected id name" for name
    using that a_unprotected by (auto simp: exhibit_content_def)
  then have bare: "exhibit_content (exhibit_tree c) name = None"
    if "on_line exhibit_graph ?m c" "protected id name" for c name
    using exhibit_line [OF that(1)] that(2) by simp
  have head: "c = ?m" if "head_commit (exhibit ''m'') path w1 = (Inr c, w2)" for path w1 c w2
    using that by (simp add: exhibit_head exhibit_commit_def exhibit_graph_def)
  have "EvaluatePushGate id ''c0''
      (run_commits True [\<lparr>ci_Hash = ''o'', ci_Paths = [''a'']\<rparr>, \<lparr>ci_Hash = ''m'', ci_Paths = []\<rparr>]) = None"
    by (rule removal_behind_another_root_passes [OF exhibit_reads exhibit_beside_base head bare a_unprotected(2) c0_solid])
  with exhibit_beside_base [of exhibit_world] show ?thesis
    by (auto simp: exhibit_content_def exhibit_tree_def)
qed

end
