(* ===== verification/Path_Joins.thy ===== *)
theory Path_Joins
  imports File_Tree
begin

text \<open>
  \<open>filepath.Join\<close> of a directory and plain names: the path lies under the directory, and two different
  lists of names give two different paths. The stores, the checkouts and the credentials of sandboxes
  all get their places this way.
\<close>

lemma split_on_slashes: "split_on slash (s @ slash # t) = split_on slash s @ split_on slash t"
  by (induction s) (auto split: list.splits)

lemma split_join_free:
  "qs \<noteq> [] \<Longrightarrow> \<forall>q \<in> set qs. slash \<notin> set q \<Longrightarrow> split_on slash (join_with [slash] qs) = qs"
  by (induction "[slash]" qs rule: join_with.induct) (simp_all add: split_on_free split_on_append)

lemma clean_then_bare: "list_all bare qs \<Longrightarrow> clean_parts rooted (ps @ qs) acc = clean_parts rooted ps acc @ qs"
  by (induction rooted ps acc rule: clean_parts.induct) (auto simp: clean_parts_bare split: list.split)

lemma clean_parts_free:
  "\<forall>p \<in> set ps. slash \<notin> set p \<Longrightarrow> \<forall>p \<in> set acc. slash \<notin> set p \<Longrightarrow> \<forall>p \<in> set (clean_parts rooted ps acc). slash \<notin> set p"
  by (induction rooted ps acc rule: clean_parts.induct) (auto split: list.splits)

text \<open>The elements a root contributes to a path under it.\<close>

definition stem_of :: "string \<Rightarrow> string list" where
  "stem_of root = (if root = [] then [] else clean_parts (filepath_IsAbs root) (split_on slash root) [])"

lemma stem_of_free: "\<forall>p \<in> set (stem_of root). slash \<notin> set p"
  unfolding stem_of_def using clean_parts_free [of "split_on slash root" "[]" "filepath_IsAbs root"] split_on_parts [of _ slash root]
  by auto

lemma join_not_abs: "qs \<noteq> [] \<Longrightarrow> list_all bare qs \<Longrightarrow> \<not> filepath_IsAbs (join_with [slash] qs) \<and> join_with [slash] qs \<noteq> []"
  by (cases qs; cases "tl qs"; cases "hd qs") (auto simp: filepath_IsAbs_def bare_def)

lemma Join_under:
  assumes "qs \<noteq> []" "list_all bare qs"
  shows "filepath_Join (root # qs) =
    (if filepath_IsAbs root then [slash] else []) @ join_with [slash] (stem_of root @ qs)"
proof -
  have bare: "filter (\<lambda>part. part \<noteq> []) qs = qs"
    using assms(2) by (induction qs) (auto simp: bare_def)
  note some = join_not_abs [OF assms]
  show ?thesis
  proof (cases "root = []")
    case True
    have "filepath_Join (root # qs) = filepath_Clean (join_with [slash] qs)"
      using True bare assms(1) by (simp add: filepath_Join_def split: list.split)
    also have "\<dots> = join_with [slash] qs"
      using some assms by (simp add: filepath_Clean_def split_on_join clean_parts_bare)
    finally show ?thesis using True by (simp add: stem_of_def filepath_IsAbs_def)
  next
    case False
    have joined: "join_with [slash] (root # qs) = root @ slash # join_with [slash] qs"
      using assms(1) by (cases qs) simp_all
    have abs: "filepath_IsAbs (root @ slash # join_with [slash] qs) = filepath_IsAbs root"
      using False by (cases root) (simp_all add: filepath_IsAbs_def)
    have parts: "clean_parts (filepath_IsAbs root) (split_on slash (root @ slash # join_with [slash] qs)) [] = stem_of root @ qs"
      using assms False by (simp add: split_on_slashes split_on_join clean_then_bare stem_of_def)
    have filled: "join_with [slash] (stem_of root @ qs) \<noteq> []"
    proof
      assume "join_with [slash] (stem_of root @ qs) = []"
      then have "split_on slash [] = stem_of root @ qs"
        using split_join_free [of "stem_of root @ qs"] assms stem_of_free [of root] by (auto simp: bare_def list_all_iff)
      with assms show False by (cases "stem_of root") (auto simp: bare_def)
    qed
    have "filepath_Clean (root @ slash # join_with [slash] qs) =
        (if filepath_IsAbs root then [slash] else []) @ join_with [slash] (stem_of root @ qs)"
      unfolding filepath_Clean_def Let_def abs parts using filled by simp
    moreover have "filepath_Join (root # qs) = filepath_Clean (join_with [slash] (root # qs))"
      using False bare by (simp add: filepath_Join_def)
    ultimately show ?thesis unfolding joined by simp
  qed
qed

lemma Join_under_inj:
  assumes "qs \<noteq> []" "list_all bare qs" "qs' \<noteq> []" "list_all bare qs'"
    and "filepath_Join (root # qs) = filepath_Join (root # qs')"
  shows "qs = qs'"
proof -
  from assms have "join_with [slash] (stem_of root @ qs) = join_with [slash] (stem_of root @ qs')"
    by (simp add: Join_under)
  then have "split_on slash (join_with [slash] (stem_of root @ qs)) = split_on slash (join_with [slash] (stem_of root @ qs'))"
    by simp
  then show ?thesis
    using assms stem_of_free [of root] by (subst (asm) (1 2) split_join_free) (auto simp: bare_def list_all_iff)
qed

text \<open>Cleaning a cleaned path changes nothing, so joins can be nested.\<close>

definition proper :: "string \<Rightarrow> bool" where
  "proper p \<longleftrightarrow> p \<noteq> [] \<and> p \<noteq> ''.'' \<and> p \<noteq> ''..''"

fun cleaned :: "bool \<Rightarrow> string list \<Rightarrow> bool" where
  "cleaned rooted [] \<longleftrightarrow> True"
| "cleaned rooted (p # ps) \<longleftrightarrow> (if p = ''..'' then \<not> rooted \<and> cleaned rooted ps else list_all proper (p # ps))"

lemma proper_simps [simp]: "\<not> proper ''..''" "\<not> proper ''.''" "\<not> proper []"
  by (simp_all add: proper_def)

lemma cleaned_proper: "list_all proper ps \<Longrightarrow> cleaned rooted ps"
  by (cases ps) auto

lemma cleaned_snoc: "cleaned rooted ps \<Longrightarrow> proper p \<Longrightarrow> cleaned rooted (ps @ [p])"
  by (induction ps) (auto split: if_splits)

lemma cleaned_up: "cleaned False (ps @ [''..'']) \<Longrightarrow> cleaned False (ps @ [''..'', ''..''])"
  by (induction ps) (auto split: if_splits)

lemma cleaned_butlast: "cleaned rooted (ps @ [p]) \<Longrightarrow> cleaned rooted ps"
  by (induction ps) (auto split: if_splits)

lemma cleaned_unrooted: "cleaned rooted ps \<Longrightarrow> ''..'' \<in> set ps \<Longrightarrow> \<not> rooted"
  by (induction ps) (auto simp: list_all_iff split: if_splits)

lemma cleaned_clean_parts: "cleaned rooted (rev acc) \<Longrightarrow> cleaned rooted (clean_parts rooted ps acc)"
proof (induction ps arbitrary: acc)
  case (Cons part parts)
  show ?case
  proof (cases "part = [] \<or> part = ''.''")
    case True
    with Cons show ?thesis by auto
  next
    case False
    show ?thesis
    proof (cases "part = ''..''")
      case up: True
      show ?thesis
      proof (cases acc)
        case Nil
        with up Cons.IH [of "if rooted then [] else [''..'']"] show ?thesis by simp
      next
        case (Cons a rest)
        with Cons.prems cleaned_butlast [of rooted "rev rest" a] cleaned_up [of "rev rest"]
          cleaned_unrooted [of rooted "rev acc"] Cons.IH [of rest] Cons.IH [of "''..'' # a # rest"] up
        show ?thesis by (cases rooted) auto
      qed
    next
      case new: False
      with False Cons.prems have "cleaned rooted (rev (part # acc))"
        using cleaned_snoc [of rooted "rev acc" part] by (simp add: proper_def)
      from Cons.IH [OF this] False new show ?thesis by simp
    qed
  qed
qed simp

lemma clean_plain: "list_all proper qs \<Longrightarrow> clean_parts rooted qs acc = rev acc @ qs"
  by (induction qs arbitrary: acc) (auto simp: proper_def)

lemma clean_cleaned: "cleaned rooted ps \<Longrightarrow> (\<forall>a \<in> set acc. a = ''..'') \<Longrightarrow> clean_parts rooted ps acc = rev acc @ ps"
proof (induction ps arbitrary: acc)
  case (Cons p ps)
  show ?case
  proof (cases "p = ''..''")
    case True
    with Cons.prems(1) have "\<not> rooted" "cleaned rooted ps" by auto
    with Cons.IH [of "''..'' # acc"] Cons.prems(2) True show ?thesis by (cases acc) auto
  next
    case False
    with Cons.prems(1) clean_plain [of "p # ps" rooted acc] show ?thesis by simp
  qed
qed simp

lemma bare_proper: "bare p \<Longrightarrow> proper p"
  by (simp add: bare_def proper_def)

lemma cleaned_append: "cleaned rooted ps \<Longrightarrow> list_all proper qs \<Longrightarrow> cleaned rooted (ps @ qs)"
  by (induction ps) (auto simp: cleaned_proper split: if_splits)

lemma cleaned_hd: "cleaned rooted ps \<Longrightarrow> ps \<noteq> [] \<Longrightarrow> hd ps \<noteq> []"
  by (cases ps) (auto split: if_splits)

lemma stem_of_cleaned: "cleaned (filepath_IsAbs root) (stem_of root)"
  by (simp add: stem_of_def cleaned_clean_parts)

lemma join_head: "ps \<noteq> [] \<Longrightarrow> hd ps \<noteq> [] \<Longrightarrow> slash \<notin> set (hd ps) \<Longrightarrow>
    join_with [slash] ps \<noteq> [] \<and> \<not> filepath_IsAbs (join_with [slash] ps)"
  by (cases ps; cases "tl ps"; cases "hd ps") (auto simp: filepath_IsAbs_def)

lemma stem_of_parts:
  "stem_of (slash # s) = clean_parts True (split_on slash s) []"
  "s \<noteq> [] \<Longrightarrow> \<not> filepath_IsAbs s \<Longrightarrow> stem_of s = clean_parts False (split_on slash s) []"
  by (simp_all add: stem_of_def filepath_IsAbs_def)

lemma Join_stem:
  assumes "qs \<noteq> []" "list_all bare qs"
  shows "filepath_IsAbs (filepath_Join (root # qs)) = filepath_IsAbs root"
    "stem_of (filepath_Join (root # qs)) = stem_of root @ qs"
proof -
  let ?ps = "stem_of root @ qs" let ?body = "join_with [slash] ?ps"
  have free: "\<forall>p \<in> set ?ps. slash \<notin> set p"
    using stem_of_free [of root] assms(2) by (auto simp: bare_def list_all_iff)
  have split': "split_on slash ?body = ?ps" using assms(1) free by (intro split_join_free) auto
  have "list_all proper qs" using assms(2) bare_proper by (auto simp: list_all_iff)
  with stem_of_cleaned have clean: "cleaned (filepath_IsAbs root) ?ps" by (rule cleaned_append)
  have ne: "?ps \<noteq> []" using assms(1) by simp
  from ne free have "slash \<notin> set (hd ?ps)" by (meson hd_in_set)
  with join_head [OF ne cleaned_hd [OF clean ne]] have b: "?body \<noteq> []" "\<not> filepath_IsAbs ?body" by blast+
  have c: "clean_parts (filepath_IsAbs root) ?ps [] = ?ps" using clean_cleaned [OF clean, of "[]"] by simp
  show "filepath_IsAbs (filepath_Join (root # qs)) = filepath_IsAbs root"
    unfolding Join_under [OF assms] using b by (simp add: filepath_IsAbs_def)
  show "stem_of (filepath_Join (root # qs)) = ?ps"
  proof (cases "filepath_IsAbs root")
    case True
    then have "filepath_Join (root # qs) = slash # ?body" by (simp add: Join_under [OF assms])
    with True c show ?thesis by (simp only: stem_of_parts(1) split')
  next
    case False
    then have "filepath_Join (root # qs) = ?body" by (simp add: Join_under [OF assms])
    with c False show ?thesis by (simp only: stem_of_parts(2) [OF b] split')
  qed
qed

lemma Join_Join:
  assumes "qs \<noteq> []" "list_all bare qs" "rs \<noteq> []" "list_all bare rs"
  shows "filepath_Join (filepath_Join (root # qs) # rs) = filepath_Join (root # qs @ rs)"
  using assms by (simp add: Join_under [OF assms(3,4)] Join_under [of "qs @ rs"] Join_stem [OF assms(1,2)])

lemma join_with_append: "xs \<noteq> [] \<Longrightarrow> ys \<noteq> [] \<Longrightarrow> join_with sep (xs @ ys) = join_with sep xs @ sep @ join_with sep ys"
  by (induction sep xs rule: join_with.induct) (cases ys; simp)+

lemma Join_append:
  assumes "qs \<noteq> []" "list_all bare qs" "rs \<noteq> []" "list_all bare rs"
  shows "filepath_Join (root # qs @ rs) = filepath_Join (root # qs) @ slash # join_with [slash] rs"
  using assms by (simp add: Join_under join_with_append flip: append_assoc)

end
