(* ===== verification/Workspace_Safety.thy ===== *)
theory Workspace_Safety
  imports Git_Workspaces Path_Joins
begin

text \<open>
  Where the host's git goes: every call on the clone of an issue stays in a directory of its own and
  talks to the address of its repository only, and a merge publishes nothing but a fast forward.
\<close>

section \<open>Directories of their own\<close>

lemma segment_bare: "pathSegmentValid s \<Longrightarrow> bare s"
  by (auto simp: pathSegmentValid_def bare_def)

lemma Encode_bare:
  assumes "repositoryNameValid s" "valid_utf8 s"
  shows "bare (Encode s)"
proof -
  have "s \<notin> {[], ''.'', ''..''}"
    using assms(1) by (auto simp: repositoryNameValid_def Let_def)
  moreover have "Decode [] = Inr []" "Decode ''.'' = Inr ''.''" "Decode ''..'' = Inr ''..''"
    by (simp_all add: Decode_def)
  ultimately have "Encode s \<notin> {[], ''.'', ''..''}"
    using Decode_Encode [OF assms(2)] by auto
  with Encode_component [of s] show ?thesis by (auto simp: bare_def)
qed

lemma checkoutPath_Inr:
  "checkoutPath G checkout = Inr path \<longleftrightarrow>
     repositoryNameValid (co_Repository checkout) \<and> pathSegmentValid (co_EpicID checkout) \<and> pathSegmentValid (co_IssueID checkout) \<and>
     path = filepath_Join [gt_root G, co_EpicID checkout, ''issues'', co_IssueID checkout, Encode (co_Repository checkout)]"
  by (auto simp: checkoutPath_def)

text \<open>Two checkouts share a directory only when they are the same.\<close>

lemma checkoutPath_inj:
  assumes "checkoutPath G a = Inr path" "checkoutPath G b = Inr path"
    and "valid_utf8 (co_Repository a)" "valid_utf8 (co_Repository b)"
  shows "a = b"
proof -
  let ?parts = "\<lambda>c. [co_EpicID c, ''issues'', co_IssueID c, Encode (co_Repository c)]"
  have bare: "list_all bare (?parts a)" "list_all bare (?parts b)"
    using assms unfolding checkoutPath_Inr by (simp_all add: segment_bare Encode_bare) (simp_all add: bare_def)
  have "?parts a = ?parts b"
  proof (rule Join_under_inj [OF _ bare(1) _ bare(2)])
    show "filepath_Join (gt_root G # ?parts a) = filepath_Join (gt_root G # ?parts b)"
      using assms(1,2) unfolding checkoutPath_Inr by simp
  qed simp_all
  then show ?thesis using Encode_inj [OF assms(3,4)] by (cases a; cases b) simp
qed

section \<open>The calls of git\<close>

datatype git_call =
    Pointed string string string
  | CheckedOut string string
  | Committed string
  | Fetched string string
  | Cloned string string
  | Sent string string string "go_error option"
  | SentDetached string string
  | Swept string

fun at_home :: "string \<Rightarrow> string \<Rightarrow> git_call \<Rightarrow> bool" where
  "at_home path url (Pointed p ref hash) \<longleftrightarrow> p = path"
| "at_home path url (CheckedOut p ref) \<longleftrightarrow> p = path"
| "at_home path url (Committed p) \<longleftrightarrow> p = path"
| "at_home path url (Fetched p u) \<longleftrightarrow> p = path \<and> u = url"
| "at_home path url (Cloned p u) \<longleftrightarrow> p = path \<and> u = url"
| "at_home path url (Sent p u spec r) \<longleftrightarrow> p = path \<and> u = url"
| "at_home path url (SentDetached u spec) \<longleftrightarrow> u = url"
| "at_home path url (Swept p) \<longleftrightarrow> p = path"

text \<open>The ports record what they do; everything else about them is open.\<close>

definition records_git :: "('x world \<Rightarrow> git_call list) \<Rightarrow> 'x git_ports \<Rightarrow> bool" where
  "records_git calls G \<longleftrightarrow>
     (\<forall>path ref hash. made calls (gt_SetReference G path ref hash) (\<lambda>r cs. cs = [Pointed path ref hash])) \<and>
     (\<forall>path ref. made calls (gt_Checkout G path ref) (\<lambda>r cs. cs = [CheckedOut path ref])) \<and>
     (\<forall>path message. made calls (gt_Commit G path message) (\<lambda>r cs. cs = [Committed path])) \<and>
     (\<forall>path url auth. made calls (gt_Fetch G path url auth) (\<lambda>r cs. cs = [Fetched path url])) \<and>
     (\<forall>path url auth. made calls (gt_PlainClone G path url auth) (\<lambda>r cs. cs = [Cloned path url])) \<and>
     (\<forall>path url auth spec. made calls (gt_Push G path url auth spec) (\<lambda>r cs. cs = [Sent path url spec r])) \<and>
     (\<forall>url auth spec. made calls (gt_PushDetached G url auth spec) (\<lambda>r cs. cs = [SentDetached url spec])) \<and>
     (\<forall>path. made calls (gt_RemoveAll G path) (\<lambda>r cs. cs = [Swept path])) \<and>
     (\<forall>path. silent calls (gt_Lstat G path)) \<and> (\<forall>path. silent calls (gt_Walk G path)) \<and> (\<forall>path. silent calls (gt_Stat G path)) \<and>
     (\<forall>path. silent calls (gt_MkdirAll G path)) \<and> silent calls (gt_Home G) \<and> (\<forall>path. silent calls (gt_Key G path)) \<and>
     silent calls (gt_SSHAgent G) \<and> (\<forall>path. silent calls (gt_PlainOpen G path)) \<and> (\<forall>path. silent calls (gt_Worktree G path)) \<and>
     (\<forall>path rev. silent calls (gt_ResolveRevision G path rev)) \<and> (\<forall>path hash. silent calls (gt_CommitObject G path hash)) \<and>
     (\<forall>path. silent calls (gt_Head G path)) \<and> (\<forall>path. silent calls (gt_AddAll G path)) \<and>
     (\<forall>path a b. silent calls (gt_IsAncestor G path a b))"

lemma records_git_made:
  assumes "records_git calls G"
  shows "made calls (gt_SetReference G path ref hash) (\<lambda>r cs. cs = [Pointed path ref hash])"
    "made calls (gt_Checkout G path ref) (\<lambda>r cs. cs = [CheckedOut path ref])"
    "made calls (gt_Commit G path message) (\<lambda>r cs. cs = [Committed path])"
    "made calls (gt_Fetch G path url auth) (\<lambda>r cs. cs = [Fetched path url])"
    "made calls (gt_PlainClone G path url auth) (\<lambda>r cs. cs = [Cloned path url])"
    "made calls (gt_Push G path url auth spec) (\<lambda>r cs. cs = [Sent path url spec r])"
    "made calls (gt_PushDetached G url auth spec) (\<lambda>r cs. cs = [SentDetached url spec])"
    "made calls (gt_RemoveAll G path) (\<lambda>r cs. cs = [Swept path])"
  using assms unfolding records_git_def by (elim conjE; simp only: )+

lemma records_git_silent [tracing]:
  assumes "records_git calls G"
  shows "silent calls (gt_Lstat G path)" "silent calls (gt_Walk G path)" "silent calls (gt_Stat G path)"
    "silent calls (gt_MkdirAll G path)" "silent calls (gt_Home G)" "silent calls (gt_Key G path)" "silent calls (gt_SSHAgent G)"
    "silent calls (gt_PlainOpen G path)" "silent calls (gt_Worktree G path)" "silent calls (gt_ResolveRevision G path revision)"
    "silent calls (gt_CommitObject G path hash)" "silent calls (gt_Head G path)" "silent calls (gt_AddAll G path)"
    "silent calls (gt_IsAncestor G path a b)"
  using assms unfolding records_git_def by (elim conjE; simp only: )+

lemma silent_wrapping [tracing]: "silent obs m \<Longrightarrow> silent obs (wrapping message name m)"
  unfolding silent_def wrapping_def by (simp split: prod.splits sum.splits) (metis snd_conv)

lemma silent_wrapping_issue [tracing]: "silent obs m \<Longrightarrow> silent obs (wrapping_issue message checkout m)"
  unfolding wrapping_issue_def by (rule silent_wrapping)

lemma silent_validateCheckout [tracing]:
  assumes "records_git calls G"
  shows "silent calls (validateCheckout G path)"
proof -
  note ports = records_git_silent [OF assms]
  have "silent calls (\<lambda>w. case gt_Walk G p w of (entries, w) \<Rightarrow> (walk_metadata path entries, w))" for p
    by (intro silent_then ports silent_pure)
  then show ?thesis
    unfolding validateCheckout_def
    by (intro silent_calling silent_if silent_doing silent_wrapping silent_pure ports)
qed

lemma silent_first_key:
  assumes "records_git calls G"
  shows "silent calls (first_key G ids)"
proof (induction ids)
  case (Cons i ids)
  have "silent calls (\<lambda>w. case gt_Key G i w of (r, w) \<Rightarrow> (if r then Pair (Some (PublicKeys i)) else first_key G ids) w)"
    by (intro silent_then silent_if records_git_silent [OF assms] Cons) (simp_all add: silent_def)
  moreover have "first_key G (i # ids) =
      (\<lambda>w. case gt_Key G i w of (r, w) \<Rightarrow> (if r then Pair (Some (PublicKeys i)) else first_key G ids) w)"
    by (rule ext) (simp split: prod.split bool.split)
  ultimately show ?case by simp
qed (simp add: silent_def)

lemma silent_authForURL [tracing]:
  assumes "records_git calls G"
  shows "silent calls (authForURL G remote)"
proof (rule silentI)
  fix w r w' assume run: "authForURL G remote w = (r, w')"
  note ports = silentD [OF records_git_silent(5) [OF assms]] silentD [OF records_git_silent(7) [OF assms]]
    silentD [OF silent_first_key [OF assms]]
  from run show "calls w' = calls w"
    by (auto simp: authForURL_def Let_def split: if_splits prod.splits option.splits bool.splits dest!: ports)
qed

lemma only_at_home [tracing]:
  assumes "records_git calls G"
  shows "p (Pointed path ref hash) \<Longrightarrow> only calls p (gt_SetReference G path ref hash)"
    "p (CheckedOut path ref) \<Longrightarrow> only calls p (gt_Checkout G path ref)"
    "p (Committed path) \<Longrightarrow> only calls p (gt_Commit G path message)"
    "p (Fetched path url) \<Longrightarrow> only calls p (gt_Fetch G path url auth)"
    "p (Cloned path url) \<Longrightarrow> only calls p (gt_PlainClone G path url auth)"
    "(\<And>r. p (Sent path url spec r)) \<Longrightarrow> only calls p (gt_Push G path url auth spec)"
    "p (SentDetached url spec) \<Longrightarrow> only calls p (gt_PushDetached G url auth spec)"
    "p (Swept path) \<Longrightarrow> only calls p (gt_RemoveAll G path)"
  unfolding only_def by (rule made_mono, rule records_git_made [OF assms], simp)+

lemma only_unless_is [tracing]: "only calls p m \<Longrightarrow> only calls p (unless_is targets wrap m)"
  unfolding only_def made_def unless_is_def by (fastforce split: prod.splits option.splits)

lemma only_reporting_as [tracing]: "only calls p m \<Longrightarrow> only calls p (reporting_as message m)"
  unfolding only_def made_def reporting_as_def by (fastforce split: prod.splits sum.splits)

lemma only_if [tracing]: "only calls p f \<Longrightarrow> only calls p g \<Longrightarrow> only calls p (if b then f else g)"
  by simp

lemma silent_or_else: "silent obs m \<Longrightarrow> silent obs n \<Longrightarrow> silent obs (or_else m n)"
  unfolding silent_def or_else_def by (auto split: prod.splits sum.splits) (metis snd_conv)+

lemma silent_resolveCommit [tracing]:
  assumes "records_git calls G"
  shows "silent calls (resolveCommit G path ref)"
proof (rule silentI)
  fix w r w' assume run: "resolveCommit G path ref w = (r, w')"
  note ports = silentD [OF records_git_silent(10) [OF assms]] silentD [OF records_git_silent(11) [OF assms]]
  from run show "calls w' = calls w"
    by (auto simp: resolveCommit_def Let_def split: if_splits prod.splits sum.splits dest!: ports)
qed

lemma silent_open_checkout [tracing]:
  assumes "records_git calls G"
  shows "silent calls (open_checkout G checkout)"
  unfolding open_checkout_def
  by (intro silent_calling silent_pure silent_wrapping_issue silent_validateCheckout silent_doing records_git_silent assms)

lemma silent_head_commit [tracing]:
  assumes "records_git calls G"
  shows "silent calls (head_commit G path)"
  unfolding head_commit_def
  by (intro silent_calling records_git_silent assms) (auto split: prod.split intro: records_git_silent(11) [OF assms])

lemma silent_published_start [tracing]:
  "records_git calls G \<Longrightarrow> silent calls (published_start G path branch base)"
  unfolding published_start_def by (intro silent_or_else silent_resolveCommit)

lemmas quiet_git = only_silent [OF silent_authForURL] only_silent [OF silent_validateCheckout] only_silent [OF silent_resolveCommit]
  only_silent [OF silent_open_checkout] only_silent [OF silent_head_commit] only_silent [OF silent_published_start]
  records_git_silent [THEN only_silent]

lemma only_fetch [tracing]:
  "records_git calls G \<Longrightarrow> p (Fetched path (remoteURL G name)) \<Longrightarrow> only calls p (fetch G path name)"
  unfolding fetch_def by (intro tracing quiet_git)

lemma only_clone [tracing]:
  "records_git calls G \<Longrightarrow> p (Cloned path (remoteURL G name)) \<Longrightarrow> only calls p (clone G path name)"
  unfolding clone_def by (intro tracing quiet_git)

lemma only_ensureClone [tracing]:
  assumes "records_git calls G" "p (Fetched path (remoteURL G name))" "p (Cloned path (remoteURL G name))" "p (Swept path)"
  shows "only calls p (ensureClone G path name)"
proof -
  let ?opened = "\<lambda>r w. case r of None \<Rightarrow> fetch G path name w
    | Some err \<Rightarrow> if \<not> errors_is err ErrRepositoryNotExists then (Inl err, w)
        else calling (doing (gt_RemoveAll G path)) (\<lambda>_. clone G path name) w"
  have "only calls p (?opened r)" for r
  proof (cases r)
    case (Some err)
    have "only calls p (if \<not> errors_is err ErrRepositoryNotExists then failing err
        else calling (doing (gt_RemoveAll G path)) (\<lambda>_. clone G path name))"
      by (intro tracing quiet_git assms)
    moreover have "?opened (Some err) = (if \<not> errors_is err ErrRepositoryNotExists then failing err
        else calling (doing (gt_RemoveAll G path)) (\<lambda>_. clone G path name))"
      by (rule ext) (simp add: failing_def)
    ultimately show ?thesis using Some by simp
  qed (use assms in \<open>simp add: only_fetch\<close>)
  then have "only calls p (\<lambda>w. case gt_PlainOpen G path w of (r, w) \<Rightarrow> ?opened r w)"
    by (intro only_then quiet_git assms)
  moreover have "(\<lambda>w. case gt_PlainOpen G path w of (r, w) \<Rightarrow> ?opened r w) =
      (\<lambda>w. case gt_PlainOpen G path w of
           (None, w) \<Rightarrow> fetch G path name w
         | (Some err, w) \<Rightarrow>
             if \<not> errors_is err ErrRepositoryNotExists then (Inl err, w)
             else calling (doing (gt_RemoveAll G path)) (\<lambda>_. clone G path name) w)"
    by (rule ext) (simp split: prod.split option.split)
  ultimately show ?thesis
    unfolding ensureClone_def by (intro tracing quiet_git assms) simp
qed

section \<open>The operations on a checkout\<close>

lemma only_settling:
  assumes "\<And>a. r = Inr a \<Longrightarrow> only calls p (f a)"
  shows "only calls p (calling (settling r) f)"
proof (cases r)
  case (Inl err)
  then show ?thesis by (intro only_silent) (simp add: silent_def calling_def settling_def)
next
  case (Inr a)
  then have "calling (settling r) f = f a" by (intro ext) (simp add: calling_def settling_def)
  with assms Inr show ?thesis by simp
qed

lemma open_checkout_path: "open_checkout G checkout w = (Inr path, w') \<Longrightarrow> checkoutPath G checkout = Inr path"
  by (auto simp: open_checkout_def calling_Inr settling_def returning_def)

lemma only_opened:
  assumes "records_git calls G" "\<And>path. checkoutPath G checkout = Inr path \<Longrightarrow> only calls p (f path)"
  shows "only calls p (calling (open_checkout G checkout) f)"
  unfolding only_def
proof (rule madeI)
  fix w r w' assume "calling (open_checkout G checkout) f w = (r, w')"
  then show "\<exists>cs. calls w' = calls w @ cs \<and> list_all p cs"
  proof (cases rule: calling_cases)
    case (fails err)
    with silentD [OF silent_open_checkout [OF assms(1)]] show ?thesis by auto
  next
    case (continues path w1)
    with silentD [OF silent_open_checkout [OF assms(1)]] have "calls w1 = calls w" by blast
    with madeD [OF assms(2) [OF open_checkout_path [OF continues(1)], unfolded only_def] continues(2)] show ?thesis by simp
  qed
qed

text \<open>A call of an operation on a checkout: in its directory and to the address of its repository.\<close>

definition own_call :: "'x git_ports \<Rightarrow> CodeCheckout \<Rightarrow> git_call \<Rightarrow> bool" where
  "own_call G checkout c \<longleftrightarrow>
     (\<exists>path. checkoutPath G checkout = Inr path \<and> at_home path (remoteURL G (co_Repository checkout)) c)"

lemma own_at: "checkoutPath G checkout = Inr path \<Longrightarrow> own_call G checkout c \<longleftrightarrow> at_home path (remoteURL G (co_Repository checkout)) c"
  by (auto simp: own_call_def)

lemma own_Checkout:
  "records_git calls G \<Longrightarrow> only calls (own_call G checkout) (Workspace_Checkout G checkout branch base)"
  unfolding Workspace_Checkout_def by (rule only_settling) (intro tracing quiet_git; simp add: own_at)

lemma own_Resolve:
  "records_git calls G \<Longrightarrow> only calls (own_call G checkout) (Workspace_Resolve G checkout ref)"
  unfolding Workspace_Resolve_def by (rule only_opened, assumption) (intro tracing quiet_git; simp add: own_at)

lemma own_CommitAll:
  "records_git calls G \<Longrightarrow> only calls (own_call G checkout) (Workspace_CommitAll G checkout message)"
  unfolding Workspace_CommitAll_def by (rule only_opened, assumption) (intro tracing quiet_git; simp add: own_at)

lemma own_DescendsFrom:
  "records_git calls G \<Longrightarrow> only calls (own_call G checkout) (Workspace_DescendsFrom G checkout base)"
  unfolding Workspace_DescendsFrom_def by (rule only_opened, assumption) (intro tracing quiet_git; simp add: own_at)

lemma own_Push:
  "records_git calls G \<Longrightarrow> only calls (own_call G checkout) (Workspace_Push G checkout branch)"
  unfolding Workspace_Push_def Let_def by (rule only_opened, assumption) (intro tracing quiet_git; simp add: own_at)

lemma own_DeleteBranch:
  "records_git calls G \<Longrightarrow> only calls (own_call G checkout) (Workspace_DeleteBranch G checkout branch)"
  unfolding Workspace_DeleteBranch_def Let_def wrapping_issue_def
  by (rule only_settling) (intro tracing quiet_git; simp add: own_at)

lemma only_result: "only calls p m \<Longrightarrow> only calls p (\<lambda>w. case m w of (r, w) \<Rightarrow> (f r, w))"
  unfolding only_def made_def by (fastforce split: prod.splits)

lemma own_explain_push:
  assumes "records_git calls G" "checkoutPath G checkout = Inr path"
  shows "only calls (own_call G checkout) (explain_push G path checkout base headCommit pushErr)"
proof -
  let ?ask = "calling (fetch G path (co_Repository checkout)) (\<lambda>_.
    calling (resolveCommit G path (''origin/'' @ base)) (\<lambda>movedBase. gt_IsAncestor G path movedBase headCommit))"
  let ?explain = "\<lambda>r. case r of
      Inl err \<Rightarrow> Inl (JoinErr [pushErr, err])
    | Inr stillFastForward \<Rightarrow> Inl (if stillFastForward then pushErr else Wrapf ''%w: %s'' [] [Sentinel ErrMergeConflict])"
  have "only calls (own_call G checkout) ?ask"
    using assms by (intro tracing quiet_git; simp add: own_at)
  moreover have "explain_push G path checkout base headCommit pushErr = (\<lambda>w. case ?ask w of (r, w) \<Rightarrow> (?explain r, w))"
    by (rule ext) (simp add: explain_push_def split: prod.split sum.split)
  ultimately show ?thesis by (simp only: only_result)
qed

lemma own_Merge:
  assumes "records_git calls G"
  shows "only calls (own_call G checkout) (Workspace_Merge G checkout head base)"
proof -
  have pushing: "only calls (own_call G checkout) (\<lambda>w. case Workspace_Push G checkout base w of
      (Inr _, w) \<Rightarrow> (Inr (), w) | (Inl pushErr, w) \<Rightarrow> explain_push G path checkout base headCommit pushErr w)"
    if "checkoutPath G checkout = Inr path" for path headCommit
  proof -
    let ?rest = "\<lambda>r. case r of Inr _ \<Rightarrow> returning () | Inl pushErr \<Rightarrow> explain_push G path checkout base headCommit pushErr"
    have pushing: "only calls (own_call G checkout) (\<lambda>w. case Workspace_Push G checkout base w of (r, w) \<Rightarrow> ?rest r w)"
      using own_explain_push [OF assms that]
      by (intro only_then own_Push assms) (auto intro: only_pure split: sum.split)
    moreover have "(\<lambda>w. case Workspace_Push G checkout base w of (r, w) \<Rightarrow> ?rest r w) =
        (\<lambda>w. case Workspace_Push G checkout base w of
           (Inr _, w) \<Rightarrow> (Inr (), w) | (Inl pushErr, w) \<Rightarrow> explain_push G path checkout base headCommit pushErr w)"
      by (rule ext) (simp add: returning_def split: prod.split sum.split)
    ultimately show ?thesis by simp
  qed
  show ?thesis
    unfolding Workspace_Merge_def
    by (rule only_settling) (intro tracing quiet_git pushing assms; simp add: own_at)
qed


section \<open>Merges\<close>

fun publishes :: "git_call \<Rightarrow> bool" where
  "publishes (Sent path url spec r) \<longleftrightarrow> True"
| "publishes (SentDetached url spec) \<longleftrightarrow> True"
| "publishes c \<longleftrightarrow> False"

definition accepted :: "go_error option \<Rightarrow> bool" where
  "accepted res \<longleftrightarrow> (case res of None \<Rightarrow> True | Some err \<Rightarrow> errors_is err NoErrAlreadyUpToDate)"

text \<open>The commit \<open>c\<close> is what the remote branch \<open>name\<close> was found at; \<open>a\<close> was found to be an ancestor of \<open>b\<close>.\<close>

definition found_at :: "'x git_ports \<Rightarrow> string \<Rightarrow> string \<Rightarrow> commit \<Rightarrow> bool" where
  "found_at G path name c \<longleftrightarrow> (\<exists>w w'. resolveCommit G path (''origin/'' @ name) w = (Inr c, w'))"

definition found_below :: "'x git_ports \<Rightarrow> string \<Rightarrow> commit \<Rightarrow> commit \<Rightarrow> bool" where
  "found_below G path a b \<longleftrightarrow> (\<exists>w w'. gt_IsAncestor G path a b w = (Inr True, w'))"

text \<open>How a merge ends: without publishing anything, or with one push of the head over a base below it.\<close>

definition fast_forwarded ::
    "'x git_ports \<Rightarrow> CodeCheckout \<Rightarrow> string \<Rightarrow> string \<Rightarrow> go_error + unit \<Rightarrow> git_call list \<Rightarrow> bool" where
  "fast_forwarded G checkout head base r cs \<longleftrightarrow>
     (\<exists>err. r = Inl err) \<and> list_all (Not \<circ> publishes) cs \<or>
     (\<exists>path b h pre res post.
        checkoutPath G checkout = Inr path \<and> found_at G path base b \<and> found_at G path head h \<and> found_below G path b h \<and>
        cs = pre @ [Pointed path (branchReference base) (cm_Hash h),
                    Sent path (remoteURL G (co_Repository checkout)) (refspec base) res] @ post \<and>
        list_all (Not \<circ> publishes) (pre @ post) \<and> (r = Inr () \<longleftrightarrow> accepted res))"

lemma fast_forwarded_error: "list_all (Not \<circ> publishes) cs \<Longrightarrow> fast_forwarded G checkout head base (Inl err) cs"
  by (simp add: fast_forwarded_def)

lemma fast_forwarded_after:
  assumes "list_all (Not \<circ> publishes) before" "fast_forwarded G checkout head base r cs"
  shows "fast_forwarded G checkout head base r (before @ cs)"
  using assms(2) unfolding fast_forwarded_def
proof (elim disjE exE conjE)
  fix path b h pre res post
  assume "checkoutPath G checkout = Inr path" "found_at G path base b" "found_at G path head h" "found_below G path b h"
    "cs = pre @ [Pointed path (branchReference base) (cm_Hash h),
                    Sent path (remoteURL G (co_Repository checkout)) (refspec base) res] @ post"
    "list_all (Not \<circ> publishes) (pre @ post)" "(r = Inr ()) = accepted res"
  with assms(1) show "(\<exists>err. r = Inl err) \<and> list_all (Not \<circ> publishes) (before @ cs) \<or>
    (\<exists>path b h pre res post.
        checkoutPath G checkout = Inr path \<and> found_at G path base b \<and> found_at G path head h \<and> found_below G path b h \<and>
        before @ cs = pre @ [Pointed path (branchReference base) (cm_Hash h),
                    Sent path (remoteURL G (co_Repository checkout)) (refspec base) res] @ post \<and>
        list_all (Not \<circ> publishes) (pre @ post) \<and> (r = Inr () \<longleftrightarrow> accepted res))"
    by (intro disjI2 exI [of _ path] exI [of _ b] exI [of _ h] exI [of _ "before @ pre"] exI [of _ res] exI [of _ post]) simp
qed (use assms(1) in auto)

lemma made_forwarding:
  assumes "only calls (Not \<circ> publishes) m"
    and "\<And>a w w'. m w = (Inr a, w') \<Longrightarrow> made calls (f a) (fast_forwarded G checkout head base)"
  shows "made calls (calling m f) (fast_forwarded G checkout head base)"
proof (rule madeI)
  fix w r w' assume "calling m f w = (r, w')"
  then show "\<exists>cs. calls w' = calls w @ cs \<and> fast_forwarded G checkout head base r cs"
  proof (cases rule: calling_cases)
    case (fails err)
    from madeD [OF assms(1) [unfolded only_def] fails(1)] fails(2) show ?thesis by (auto intro: fast_forwarded_error)
  next
    case (continues a w1)
    from madeD [OF assms(1) [unfolded only_def] continues(1)] obtain before where
      "calls w1 = calls w @ before" "list_all (Not \<circ> publishes) before" by blast
    with madeD [OF assms(2) [OF continues(1)] continues(2)] fast_forwarded_after show ?thesis by (metis append.assoc)
  qed
qed

lemma made_Push:
  assumes "records_git calls G"
  shows "made calls (Workspace_Push G checkout branch) (\<lambda>r cs. cs = [] \<and> (\<exists>err. r = Inl err) \<or>
    (\<exists>path res. checkoutPath G checkout = Inr path \<and>
       cs = [Sent path (remoteURL G (co_Repository checkout)) (refspec branch) res] \<and> (r = Inr () \<longleftrightarrow> accepted res)))"
proof (rule madeI)
  fix w r w' assume "Workspace_Push G checkout branch w = (r, w')"
  then show "\<exists>cs. calls w' = calls w @ cs \<and> (cs = [] \<and> (\<exists>err. r = Inl err) \<or>
    (\<exists>path res. checkoutPath G checkout = Inr path \<and>
       cs = [Sent path (remoteURL G (co_Repository checkout)) (refspec branch) res] \<and> (r = Inr () \<longleftrightarrow> accepted res)))"
    unfolding Workspace_Push_def Let_def
  proof (cases rule: calling_cases)
    case (fails err)
    with silentD [OF silent_open_checkout [OF assms]] show ?thesis by auto
  next
    case (continues path w1)
    with silentD [OF silent_open_checkout [OF assms]] have w1: "calls w1 = calls w" by blast
    from continues(2) show ?thesis
    proof (cases rule: calling_cases)
      case (fails err)
      with w1 silentD [OF silent_authForURL [OF assms]] show ?thesis by auto
    next
      case (continues auth w2)
      with w1 silentD [OF silent_authForURL [OF assms]] have w2: "calls w2 = calls w" by metis
      obtain res w3 where sent: "gt_Push G path (remoteURL G (co_Repository checkout)) auth (refspec branch) w2 = (res, w3)"
        by (metis surj_pair)
      with continues(2) have "w' = w3 \<and> (r = Inr () \<longleftrightarrow> accepted res)"
        by (auto simp: unless_is_def accepted_def split: option.splits if_splits)
      moreover from madeD [OF records_git_made(6) [OF assms] sent] w2 have
        "calls w3 = calls w @ [Sent path (remoteURL G (co_Repository checkout)) (refspec branch) res]" by simp
      moreover have "checkoutPath G checkout = Inr path" by (rule open_checkout_path) fact
      ultimately show ?thesis by blast
    qed
  qed
qed

lemma made_explain_push:
  assumes "records_git calls G"
  shows "made calls (explain_push G path checkout base h pushErr) (\<lambda>r cs. (\<exists>err. r = Inl err) \<and> list_all (Not \<circ> publishes) cs)"
proof (rule madeI)
  fix w r w' assume run: "explain_push G path checkout base h pushErr w = (r, w')"
  let ?ask = "calling (fetch G path (co_Repository checkout)) (\<lambda>_.
    calling (resolveCommit G path (''origin/'' @ base)) (\<lambda>movedBase. gt_IsAncestor G path movedBase h))"
  have "only calls (Not \<circ> publishes) ?ask"
    using assms by (intro tracing quiet_git; simp)
  moreover obtain res where "?ask w = (res, w')" "\<exists>err. r = Inl err"
    using run by (auto simp: explain_push_def split: prod.splits sum.splits)
  ultimately show "\<exists>cs. calls w' = calls w @ cs \<and> (\<exists>err. r = Inl err) \<and> list_all (Not \<circ> publishes) cs"
    unfolding only_def by (metis madeD)
qed

text \<open>The end of a merge: the local base is set to the head and pushed.\<close>

lemma made_forward:
  assumes "records_git calls G" "checkoutPath G checkout = Inr path"
    and found: "found_at G path base b" "found_at G path head h" "found_below G path b h"
  shows "made calls (calling (doing (gt_SetReference G path (branchReference base) (cm_Hash h))) (\<lambda>_ w.
      case Workspace_Push G checkout base w of
        (Inr _, w) \<Rightarrow> (Inr (), w)
      | (Inl pushErr, w) \<Rightarrow> explain_push G path checkout base h pushErr w)) (fast_forwarded G checkout head base)"
proof (rule madeI)
  fix w r w'
  assume run: "calling (doing (gt_SetReference G path (branchReference base) (cm_Hash h))) (\<lambda>_ w.
      case Workspace_Push G checkout base w of
        (Inr _, w) \<Rightarrow> (Inr (), w)
      | (Inl pushErr, w) \<Rightarrow> explain_push G path checkout base h pushErr w) w = (r, w')"
  obtain set' w1 where pointed: "gt_SetReference G path (branchReference base) (cm_Hash h) w = (set', w1)" by (metis surj_pair)
  from madeD [OF records_git_made(1) [OF assms(1)] pointed]
  have w1: "calls w1 = calls w @ [Pointed path (branchReference base) (cm_Hash h)]" by simp
  show "\<exists>cs. calls w' = calls w @ cs \<and> fast_forwarded G checkout head base r cs"
  proof (cases set')
    case (Some err)
    with run pointed have "r = Inl err" "w' = w1" by (auto simp: calling_def doing_def)
    with w1 show ?thesis by (auto intro: fast_forwarded_error)
  next
    case None
    obtain pushed w2 where push: "Workspace_Push G checkout base w1 = (pushed, w2)" by (metis surj_pair)
    from madeD [OF made_Push [OF assms(1)] push] obtain sent where sent: "calls w2 = calls w1 @ sent"
      "sent = [] \<and> (\<exists>err. pushed = Inl err) \<or>
        (\<exists>p res. checkoutPath G checkout = Inr p \<and>
          sent = [Sent p (remoteURL G (co_Repository checkout)) (refspec base) res] \<and> (pushed = Inr () \<longleftrightarrow> accepted res))"
      by blast
    obtain post where post: "calls w' = calls w2 @ post" "list_all (Not \<circ> publishes) post"
      "r = Inr () \<longleftrightarrow> pushed = Inr ()" 
    proof (cases pushed)
      case (Inl pushErr)
      with run pointed None push have "explain_push G path checkout base h pushErr w2 = (r, w')"
        by (simp add: calling_def doing_def)
      from madeD [OF made_explain_push [OF assms(1)] this] Inl that show ?thesis by auto
    next
      case (Inr u)
      with run pointed None push have "r = Inr ()" "w' = w2" by (auto simp: calling_def doing_def)
      with Inr that [of "[]"] show ?thesis by simp
    qed
    from sent(2) show ?thesis
    proof (elim disjE exE conjE)
      fix err assume "sent = []" "pushed = Inl err"
      with post w1 sent(1) obtain err' where "r = Inl err'"
        "calls w' = calls w @ (Pointed path (branchReference base) (cm_Hash h) # post)"
        by (cases r) auto
      with post(2) show ?thesis
        by (intro exI [of _ "Pointed path (branchReference base) (cm_Hash h) # post"]) (simp add: fast_forwarded_error)
    next
      fix p res
      assume p: "checkoutPath G checkout = Inr p" "sent = [Sent p (remoteURL G (co_Repository checkout)) (refspec base) res]"
        "(pushed = Inr ()) = accepted res"
      let ?cs = "[] @ [Pointed path (branchReference base) (cm_Hash h),
        Sent path (remoteURL G (co_Repository checkout)) (refspec base) res] @ post"
      have "calls w' = calls w @ ?cs" using post(1) sent(1) w1 p assms(2) by simp
      moreover have "fast_forwarded G checkout head base r ?cs"
        unfolding fast_forwarded_def using found assms(2) post(2,3) p(3)
        by (intro disjI2 exI [of _ path] exI [of _ b] exI [of _ h] exI [of _ "[]"] exI [of _ res] exI [of _ post]) simp
      ultimately show ?thesis by blast
    qed
  qed
qed

lemma made_Merge:
  assumes "records_git calls G"
  shows "made calls (Workspace_Merge G checkout head base) (fast_forwarded G checkout head base)"
  unfolding Workspace_Merge_def
proof (rule made_forwarding)
  show "only calls (Not \<circ> publishes) (settling (checkoutPath G checkout))" by (intro tracing)
  fix path w w' assume "settling (checkoutPath G checkout) w = (Inr path, w')"
  then have path: "checkoutPath G checkout = Inr path" by (simp add: settling_def)
  show "made calls (calling (ensureClone G path (co_Repository checkout)) (\<lambda>_.
      calling (resolveCommit G path (''origin/'' @ base)) (\<lambda>baseCommit.
        calling (resolveCommit G path (''origin/'' @ head)) (\<lambda>headCommit.
          calling (gt_IsAncestor G path baseCommit headCommit) (\<lambda>fastForward.
            if \<not> fastForward
            then failing (Wrapf ''%w: %s has moved on since %s last merged it'' [GStr base, GStr head] [Sentinel ErrMergeConflict])
            else
              calling (doing (gt_SetReference G path (branchReference base) (cm_Hash headCommit))) (\<lambda>_ w.
                case Workspace_Push G checkout base w of
                  (Inr _, w) \<Rightarrow> (Inr (), w)
                | (Inl pushErr, w) \<Rightarrow> explain_push G path checkout base headCommit pushErr w))))))
    (fast_forwarded G checkout head base)"
  proof (intro made_forwarding only_ensureClone quiet_git assms)
    fix b h answer w1 w2 w3 w4 w5 w6
    assume base: "resolveCommit G path (''origin/'' @ base) w1 = (Inr b, w2)"
      and head: "resolveCommit G path (''origin/'' @ head) w3 = (Inr h, w4)"
      and below: "gt_IsAncestor G path b h w5 = (Inr answer, w6)"
    have "found_at G path base b" unfolding found_at_def using base by blast
    moreover have "found_at G path head h" unfolding found_at_def using head by blast
    moreover have "found_below G path b h" if answer
      unfolding found_below_def using below that by (intro exI [of _ w5] exI [of _ w6]) simp
    ultimately show "made calls (if \<not> answer
            then failing (Wrapf ''%w: %s has moved on since %s last merged it'' [GStr base, GStr head] [Sentinel ErrMergeConflict])
            else
              calling (doing (gt_SetReference G path (branchReference base) (cm_Hash h))) (\<lambda>_ w.
                case Workspace_Push G checkout base w of
                  (Inr _, w) \<Rightarrow> (Inr (), w)
                | (Inl pushErr, w) \<Rightarrow> explain_push G path checkout base h pushErr w)) (fast_forwarded G checkout head base)"
      using made_forward [OF assms path, of base b head h]
      by (cases answer) (auto intro!: madeI exI [of _ "[]"] simp: failing_def fast_forwarded_error)
  qed simp_all
qed

text \<open>C17. Merging publishes a fast forward or nothing: whatever git answers, a merge makes at most one push, of
  the head of the pull request onto the base, after the head was found above the tip of the base on
  the remote; it succeeds exactly when that push was accepted, and else nothing is published by it
  but a push that failed.\<close>

theorem merges_are_fast_forwards:
  assumes "records_git calls G" "Workspace_Merge G checkout head base w = (r, w')"
  shows "\<exists>cs. calls w' = calls w @ cs \<and>
    ((\<exists>err. r = Inl err) \<and> list_all (Not \<circ> publishes) cs \<or>
     (\<exists>path b h pre res post.
        checkoutPath G checkout = Inr path \<and> found_at G path base b \<and> found_at G path head h \<and> found_below G path b h \<and>
        cs = pre @ [Pointed path (branchReference base) (cm_Hash h),
                    Sent path (remoteURL G (co_Repository checkout)) (refspec base) res] @ post \<and>
        list_all (Not \<circ> publishes) (pre @ post) \<and> (r = Inr () \<longleftrightarrow> accepted res)))"
  using madeD [OF made_Merge [OF assms(1)] assms(2)] unfolding fast_forwarded_def .

section \<open>A clone that keeps a record\<close>

definition noted :: "git_call \<Rightarrow> 'a \<Rightarrow> git_call list world \<Rightarrow> 'a \<times> git_call list world" where
  "noted c a w = (a, w\<lparr>w_ext := w_ext w @ [c]\<rparr>)"

definition shelf :: "git_call list git_ports" where
  "shelf =
     \<lparr>gt_root = ''/work'', gt_remote = None, gt_Lstat = (\<lambda>path. Pair (Inr (Some IsDirectory))), gt_Walk = (\<lambda>path. Pair []),
      gt_Stat = (\<lambda>path. Pair (Inr True)), gt_ReadDir = (\<lambda>path. Pair (Inr [])), gt_MkdirAll = (\<lambda>path. Pair None),
      gt_RemoveAll = (\<lambda>path. noted (Swept path) None), gt_Home = Pair (Inr ''/home''), gt_IdentityFiles = (\<lambda>host. []),
      gt_Key = (\<lambda>path. Pair True), gt_SSHAgent = Pair False, gt_Hostname = (\<lambda>remote. []),
      gt_PlainOpen = (\<lambda>path. Pair None), gt_PlainClone = (\<lambda>path url auth. noted (Cloned path url) None),
      gt_Worktree = (\<lambda>path. Pair None), gt_ResolveRevision = (\<lambda>path revision. Pair (Inr revision)),
      gt_CommitObject = (\<lambda>path hash. Pair (Inr \<lparr>cm_Hash = hash, cm_Parents = []\<rparr>)),
      gt_Head = (\<lambda>path. Pair (Inr (''refs/heads/x'', ''x''))), gt_Reference = (\<lambda>path name. Pair (Inr ''x'')),
      gt_SetReference = (\<lambda>path name hash. noted (Pointed path name hash) None),
      gt_Checkout = (\<lambda>path name. noted (CheckedOut path name) None), gt_HardReset = (\<lambda>path hash. Pair None),
      gt_AddAll = (\<lambda>path. Pair None), gt_Commit = (\<lambda>path message. noted (Committed path) (Inr ''x'')),
      gt_Tree = (\<lambda>path c. Pair (Inr (cm_Hash c))), gt_DiffTree = (\<lambda>path from' t. Pair (Inr [])),
      gt_IsAncestor = (\<lambda>path a b. Pair (Inr True)), gt_MergeBase = (\<lambda>path a b. Pair (Inr [])),
      gt_Patch = (\<lambda>path a b. Pair (Inr [])), gt_Fetch = (\<lambda>path url auth. noted (Fetched path url) None),
      gt_Push = (\<lambda>path url auth spec. noted (Sent path url spec None) None),
      gt_PushDetached = (\<lambda>url auth spec. noted (SentDetached url spec) None), gt_List = (\<lambda>url auth. Pair (Inr []))\<rparr>"

lemma made_noted: "made w_ext (noted c a) (\<lambda>r cs. r = a \<and> cs = [c])"
  by (rule madeI) (auto simp: noted_def)

lemma shelf_records: "records_git w_ext shelf"
  unfolding records_git_def
  by (simp add: shelf_def silent_def made_mono [OF made_noted])

definition shelf_world :: "git_call list world" where
  "shelf_world = \<lparr>w_supervisor = NewRunSupervisor, w_ext = []\<rparr>"

definition shelf_checkout :: CodeCheckout where
  "shelf_checkout = \<lparr>co_EpicID = ''E'', co_IssueID = ''I'', co_Repository = ''o/r''\<rparr>"

lemma shelf_path: "\<exists>path. checkoutPath shelf shelf_checkout = Inr path"
  by (simp add: checkoutPath_def shelf_checkout_def repositoryNameValid_def pathSegmentValid_def Let_def)

lemma shelf_auth: "authForURL shelf (remoteURL shelf (co_Repository shelf_checkout)) w = (Inr (PublicKeys ''/home/.ssh/id_ed25519''), w)"
proof -
  have trimmed: "trim_space s = s" if "s = ''/home/.ssh/id_ed25519''" for s
    unfolding that by (intro trim_space_solid; simp add: byte_def is_space_def in_range_def)
  have "filepath_Join [''/home'', ''.ssh'', ''id_ed25519''] = ''/home/.ssh/id_ed25519''" by code_simp
  then have "\<exists>rest. sshIdentityFiles shelf ''/home'' host = ''/home/.ssh/id_ed25519'' # rest" for host
    using trimmed by (simp add: sshIdentityFiles_def shelf_def Let_def identity_path_def filepath_IsAbs_def)
  then have "first_key shelf (sshIdentityFiles shelf ''/home'' host) w = (Some (PublicKeys ''/home/.ssh/id_ed25519''), w)" for host w
  proof -
    obtain rest where "sshIdentityFiles shelf ''/home'' host = ''/home/.ssh/id_ed25519'' # rest"
      using \<open>\<exists>rest. sshIdentityFiles shelf ''/home'' host = ''/home/.ssh/id_ed25519'' # rest\<close> by blast
    then show ?thesis by (simp add: shelf_def)
  qed
  moreover have "gt_Home shelf w = (Inr ''/home'', w)" for w by (simp add: shelf_def)
  moreover have "prefix ''git@'' (remoteURL shelf (co_Repository shelf_checkout))"
    by (simp add: remoteURL_def shelf_def githubRemote_def)
  ultimately show ?thesis by (simp add: authForURL_def Let_def)
qed

lemma shelf_resolve:
  assumes "trim_space ref = ref" "ref \<noteq> []"
  shows "resolveCommit shelf path ref w = (Inr \<lparr>cm_Hash = ref, cm_Parents = []\<rparr>, w)"
  using assms by (simp add: resolveCommit_def shelf_def)

lemma shelf_valid: "validateCheckout shelf path w = (Inr (), w)"
  by (simp add: validateCheckout_def shelf_def calling_def wrapping_def doing_def)

lemma shelf_fetch: "fetch shelf path (co_Repository shelf_checkout) w =
    (Inr (), w\<lparr>w_ext := w_ext w @ [Fetched path (remoteURL shelf (co_Repository shelf_checkout))]\<rparr>)"
proof -
  have "gt_Fetch shelf path url auth w = (None, w\<lparr>w_ext := w_ext w @ [Fetched path url]\<rparr>)" for url auth w
    by (simp add: shelf_def noted_def)
  then show ?thesis by (simp add: fetch_def calling_def shelf_auth unless_is_def)
qed

lemma shelf_clone: "ensureClone shelf path (co_Repository shelf_checkout) w =
    (Inr (), w\<lparr>w_ext := w_ext w @ [Fetched path (remoteURL shelf (co_Repository shelf_checkout))]\<rparr>)"
proof -
  have "gt_Stat shelf path w = (Inr True, w)" "gt_PlainOpen shelf path w = (None, w)" by (simp_all add: shelf_def)
  then show ?thesis by (simp add: ensureClone_def calling_def shelf_valid shelf_fetch)
qed

lemma shelf_push:
  assumes "checkoutPath shelf shelf_checkout = Inr path"
  shows "Workspace_Push shelf shelf_checkout branch w =
    (Inr (), w\<lparr>w_ext := w_ext w @ [Sent path (remoteURL shelf (co_Repository shelf_checkout)) (refspec branch) None]\<rparr>)"
proof -
  have "gt_PlainOpen shelf path w = (None, w)" for w by (simp add: shelf_def)
  then have "open_checkout shelf shelf_checkout w = (Inr path, w)"
    by (simp add: open_checkout_def wrapping_issue_def wrapping_def calling_def settling_def returning_def doing_def assms shelf_valid)
  moreover have "gt_Push shelf path url auth spec w = (None, w\<lparr>w_ext := w_ext w @ [Sent path url spec None]\<rparr>)" for url auth spec
    by (simp add: shelf_def noted_def)
  ultimately show ?thesis
    by (simp add: Workspace_Push_def calling_def shelf_auth unless_is_def Let_def)
qed

lemma shelf_merge: "\<exists>w'. Workspace_Merge shelf shelf_checkout ''h'' ''b'' w = (Inr (), w')"
proof -
  obtain path where path: "checkoutPath shelf shelf_checkout = Inr path" using shelf_path by blast
  have trimmed: "trim_space (''origin/'' @ ''b'') = ''origin/'' @ ''b''" "trim_space (''origin/'' @ ''h'') = ''origin/'' @ ''h''"
    by (simp, intro trim_space_solid; simp add: byte_def is_space_def in_range_def)+
  have found: "resolveCommit shelf path (''origin/'' @ ''b'') w = (Inr \<lparr>cm_Hash = ''origin/'' @ ''b'', cm_Parents = []\<rparr>, w)"
    "resolveCommit shelf path (''origin/'' @ ''h'') w = (Inr \<lparr>cm_Hash = ''origin/'' @ ''h'', cm_Parents = []\<rparr>, w)" for w
    by (rule shelf_resolve [OF trimmed(1)], simp) (rule shelf_resolve [OF trimmed(2)], simp)
  have "gt_IsAncestor shelf path a c w = (Inr True, w)" for a c w by (simp add: shelf_def)
  moreover have "gt_SetReference shelf path ref hash w = (None, w\<lparr>w_ext := w_ext w @ [Pointed path ref hash]\<rparr>)" for ref hash w
    by (simp add: shelf_def noted_def)
  ultimately show ?thesis
    unfolding Workspace_Merge_def calling_def settling_def doing_def path found sum.case prod.case shelf_clone shelf_push [OF path]
    by simp
qed

lemma fast_forwarded_sent:
  assumes "fast_forwarded G checkout head base (Inr ()) cs"
  shows "\<exists>path res. Sent path (remoteURL G (co_Repository checkout)) (refspec base) res \<in> set cs \<and> accepted res"
  using assms unfolding fast_forwarded_def
proof (elim disjE exE conjE)
  fix path b h pre res post
  assume "cs = pre @ [Pointed path (branchReference base) (cm_Hash h),
      Sent path (remoteURL G (co_Repository checkout)) (refspec base) res] @ post" "(Inr () = Inr ()) = accepted res"
  then show ?thesis by (intro exI [of _ path] exI [of _ res]) simp
qed simp

lemma merges_are_fast_forwards_witness:
  "\<exists>w' path res. Workspace_Merge shelf shelf_checkout ''h'' ''b'' shelf_world = (Inr (), w') \<and>
     Sent path (remoteURL shelf (co_Repository shelf_checkout)) (refspec ''b'') res \<in> set (w_ext w') \<and> accepted res"
proof -
  obtain w' where run: "Workspace_Merge shelf shelf_checkout ''h'' ''b'' shelf_world = (Inr (), w')"
    using shelf_merge by blast
  from merges_are_fast_forwards [OF shelf_records run] obtain cs where cs: "w_ext w' = w_ext shelf_world @ cs"
    "fast_forwarded shelf shelf_checkout ''h'' ''b'' (Inr ()) cs"
    unfolding fast_forwarded_def by fast
  from fast_forwarded_sent [OF cs(2)] cs(1) run show ?thesis by fastforce
qed


end
