(* ===== verification/Project_Store.thy ===== *)
theory Project_Store
  imports Agents Tracker_Store Go_Paths
begin

text \<open>
  \<open>adapters/projectstore/store.go\<close>, \<open>repository.go\<close> and \<open>factory.go\<close>: the SQLite store of one
  project, around the tables of its epics (\<open>Tracker_Store\<close>). A store also keeps the project's name,
  the repositories it links, the settings of its agents and files by path; the five tables are fields
  of \<open>Tables\<close>. \<open>Desk\<close> is what the daemon holds of all projects: the files on disk by path and the
  handles whose store is open. Faults are errors of the database or the disk, and the JSON encoding of
  the role table is a parameter (\<open>roles_codec\<close>), with the order in which Go ranges over the map.
\<close>

section \<open>Tables\<close>

record StoredProject =
  j_Name :: string
  j_Repositories :: "string list"

record settingsRecord =
  sr_SetupScript :: string
  sr_Roles :: string

text \<open>
  \<open>project_metadata\<close> and \<open>agent_settings\<close> hold at most the row with \<open>id = 1\<close>. A primary key makes
  \<open>repository_settings\<close> and \<open>blobs\<close> maps.
\<close>

record Tables =
  tb_epics :: Store
  tb_metadata :: "string option"
  tb_repositories :: "string list"
  tb_agent_settings :: "settingsRecord option"
  tb_repository_settings :: "string \<rightharpoonup> settingsRecord"
  tb_blobs :: "string \<rightharpoonup> string"

record roles_codec =
  marshal_roles :: "(AgentRole \<rightharpoonup> AgentProfile) \<Rightarrow> string"
  unmarshal_roles :: "string \<Rightarrow> go_error + (AgentRole \<rightharpoonup> AgentProfile)"
  role_order :: "(AgentRole \<rightharpoonup> AgentProfile) \<Rightarrow> AgentRole list"

definition fresh_tables :: Tables where
  "fresh_tables = \<lparr>tb_epics = empty_store, tb_metadata = None, tb_repositories = [], tb_agent_settings = None,
     tb_repository_settings = Map.empty, tb_blobs = Map.empty\<rparr>"

section \<open>Validation\<close>

definition strings_Contains :: "string \<Rightarrow> string \<Rightarrow> bool" where
  "strings_Contains s sub \<longleftrightarrow> index_of s sub \<noteq> None"

definition validateRepository :: "string \<Rightarrow> go_error option" where
  "validateRepository repository =
     (let parts = split_on CHR ''/'' repository
      in if length parts \<noteq> 2 \<or> parts ! 0 = [] \<or> parts ! 1 = [] \<or>
            strings_Contains repository ''..'' \<or> strings_Contains repository [CHR 0x5C]
         then Some (Errorf ''repository must use owner/name form, got %q'' [GStr repository])
         else None)"

fun validate_repositories_loop :: "string list \<Rightarrow> string set \<Rightarrow> go_error option" where
  "validate_repositories_loop [] seen = None"
| "validate_repositories_loop (repository # repositories) seen =
     (case validateRepository repository of
        Some err \<Rightarrow> Some err
      | None \<Rightarrow>
          if repository \<in> seen then Some (Errorf ''duplicate repository %q'' [GStr repository])
          else validate_repositories_loop repositories (insert repository seen))"

definition validateRepositories :: "string list \<Rightarrow> go_error option" where
  "validateRepositories repositories = validate_repositories_loop repositories {}"

definition validateProject :: "StoredProject \<Rightarrow> go_error option" where
  "validateProject project =
     (if trim_space (j_Name project) = [] then Some (Errorf ''project name is required'' [])
      else validateRepositories (j_Repositories project))"

definition validatePath :: "string \<Rightarrow> go_error option" where
  "validatePath path =
     (if path = [] then Some (Errorf ''path is required'' [])
      else if contains_any path [CHR 0x00, CHR 0x0D, CHR 0x0A]
      then Some (Errorf ''path %q contains control characters'' [GStr path])
      else if filepath_IsAbs path then Some (Errorf ''path %q must be relative'' [GStr path])
      else let cleaned = filepath_Clean path
           in if cleaned = ''.'' \<or> cleaned = ''..'' \<or> prefix ''../'' cleaned
              then Some (Errorf ''path %q escapes the store'' [GStr path])
              else None)"

definition validateAgentSettings :: "roles_codec \<Rightarrow> AgentSettings \<Rightarrow> go_error option" where
  "validateAgentSettings R settings =
     (case AgentSettings_Validate (role_order R (as_Roles settings)) settings of
        Some err \<Rightarrow> Some err
      | None \<Rightarrow> if as_SetupScript settings \<noteq> [] then validatePath (as_SetupScript settings) else None)"

definition validateRepositorySettings :: "roles_codec \<Rightarrow> RepositorySettings \<Rightarrow> go_error option" where
  "validateRepositorySettings R settings =
     (case RepositorySettings_Validate (role_order R (rs_Roles settings)) settings of
        Some err \<Rightarrow> Some err
      | None \<Rightarrow> if rs_SetupScript settings \<noteq> [] then validatePath (rs_SetupScript settings) else None)"

definition sortedRepositories :: "string list \<Rightarrow> string list" where
  "sortedRepositories repositories = sort repositories"

section \<open>Metadata and linked repositories\<close>

fun read_repositories_loop :: "string list \<Rightarrow> string list \<Rightarrow> go_error + string list" where
  "read_repositories_loop [] repositories = Inr repositories"
| "read_repositories_loop (name # names) repositories =
     (case validateRepository name of
        Some err \<Rightarrow> Inl err
      | None \<Rightarrow> read_repositories_loop names (repositories @ [name]))"

definition readRepositories :: "Tables \<Rightarrow> go_error + string list" where
  "readRepositories t = read_repositories_loop (sort (tb_repositories t)) []"

definition Store_Repositories :: "go_error option \<Rightarrow> Tables \<Rightarrow> go_error + string list" where
  "Store_Repositories fault t = (case fault of Some err \<Rightarrow> Inl err | None \<Rightarrow> readRepositories t)"

definition ReadProject :: "go_error option \<Rightarrow> Tables \<Rightarrow> go_error + StoredProject" where
  "ReadProject fault t =
     (case fault of
        Some err \<Rightarrow> Inl err
      | None \<Rightarrow>
          (case tb_metadata t of
             None \<Rightarrow> Inl ErrNotExist
           | Some name \<Rightarrow>
               (case readRepositories t of
                  Inl err \<Rightarrow> Inl err
                | Inr repositories \<Rightarrow>
                    let project = \<lparr>j_Name = name, j_Repositories = repositories\<rparr>
                    in case validateProject project of Some err \<Rightarrow> Inl err | None \<Rightarrow> Inr project)))"

definition insert_repository :: "string \<Rightarrow> Tables update" where
  "insert_repository name t =
     (if name \<in> set (tb_repositories t) then (Some (unique_error ''project_repositories.name''), t)
      else (None, t\<lparr>tb_repositories := tb_repositories t @ [name]\<rparr>))"

definition replace_links :: "string list \<Rightarrow> Tables update" where
  "replace_links repositories =
     then_do (\<lambda>t. (None, t\<lparr>tb_repositories := []\<rparr>))
       (do_each insert_repository (sortedRepositories repositories))"

definition WriteProject :: "go_error option \<Rightarrow> StoredProject \<Rightarrow> Tables update" where
  "WriteProject fault project t =
     (case validateProject project of
        Some err \<Rightarrow> (Some err, t)
      | None \<Rightarrow> transaction fault
          (then_do (\<lambda>t. (None, t\<lparr>tb_metadata := Some (j_Name project)\<rparr>))
            (replace_links (j_Repositories project))) t)"

definition ReplaceRepositories :: "go_error option \<Rightarrow> string list \<Rightarrow> Tables update" where
  "ReplaceRepositories fault repositories t =
     (case validateRepositories repositories of
        Some err \<Rightarrow> (Some err, t)
      | None \<Rightarrow> transaction fault
          (\<lambda>t. case tb_metadata t of
             None \<Rightarrow> (Some ErrNotExist, t)
           | Some name \<Rightarrow>
               (case validateProject \<lparr>j_Name = name, j_Repositories = []\<rparr> of
                  Some err \<Rightarrow> (Some err, t)
                | None \<Rightarrow> replace_links repositories t)) t)"

section \<open>Settings and files\<close>

definition settingsRecordFrom :: "roles_codec \<Rightarrow> string \<Rightarrow> (AgentRole \<rightharpoonup> AgentProfile) \<Rightarrow> settingsRecord" where
  "settingsRecordFrom R setupScript roles = \<lparr>sr_SetupScript = setupScript, sr_Roles = marshal_roles R roles\<rparr>"

definition record_agentSettings :: "roles_codec \<Rightarrow> settingsRecord \<Rightarrow> go_error + AgentSettings" where
  "record_agentSettings R r =
     (case unmarshal_roles R (sr_Roles r) of
        Inl err \<Rightarrow> Inl err
      | Inr roles \<Rightarrow>
          let settings = \<lparr>as_SetupScript = sr_SetupScript r, as_Roles = roles\<rparr>
          in case validateAgentSettings R settings of Some err \<Rightarrow> Inl err | None \<Rightarrow> Inr settings)"

definition record_repositorySettings :: "roles_codec \<Rightarrow> settingsRecord \<Rightarrow> go_error + RepositorySettings" where
  "record_repositorySettings R r =
     (case unmarshal_roles R (sr_Roles r) of
        Inl err \<Rightarrow> Inl err
      | Inr roles \<Rightarrow>
          let settings = \<lparr>rs_SetupScript = sr_SetupScript r, rs_Roles = roles\<rparr>
          in case validateRepositorySettings R settings of Some err \<Rightarrow> Inl err | None \<Rightarrow> Inr settings)"

definition Store_AgentSettings :: "roles_codec \<Rightarrow> go_error option \<Rightarrow> Tables \<Rightarrow> go_error + AgentSettings" where
  "Store_AgentSettings R fault t =
     (case fault of
        Some err \<Rightarrow> Inl err
      | None \<Rightarrow>
          (case tb_agent_settings t of
             None \<Rightarrow> Inr \<lparr>as_SetupScript = [], as_Roles = Map.empty\<rparr>
           | Some r \<Rightarrow> record_agentSettings R r))"

definition WriteAgentSettings :: "roles_codec \<Rightarrow> go_error option \<Rightarrow> AgentSettings \<Rightarrow> Tables update" where
  "WriteAgentSettings R fault settings t =
     (case validateAgentSettings R settings of
        Some err \<Rightarrow> (Some err, t)
      | None \<Rightarrow> transaction fault
          (\<lambda>t. (None, t\<lparr>tb_agent_settings :=
             Some (settingsRecordFrom R (as_SetupScript settings) (as_Roles settings))\<rparr>)) t)"

definition Store_RepositorySettings ::
    "roles_codec \<Rightarrow> go_error option \<Rightarrow> string \<Rightarrow> Tables \<Rightarrow> go_error + RepositorySettings" where
  "Store_RepositorySettings R fault repository t =
     (case validateRepository repository of
        Some err \<Rightarrow> Inl err
      | None \<Rightarrow>
          (case fault of
             Some err \<Rightarrow> Inl err
           | None \<Rightarrow>
               (case tb_repository_settings t repository of
                  None \<Rightarrow> Inr \<lparr>rs_SetupScript = [], rs_Roles = Map.empty\<rparr>
                | Some r \<Rightarrow> record_repositorySettings R r)))"

definition WriteRepositorySettings ::
    "roles_codec \<Rightarrow> go_error option \<Rightarrow> string \<Rightarrow> RepositorySettings \<Rightarrow> Tables update" where
  "WriteRepositorySettings R fault repository settings t =
     (case validateRepository repository of
        Some err \<Rightarrow> (Some err, t)
      | None \<Rightarrow>
          (case validateRepositorySettings R settings of
             Some err \<Rightarrow> (Some err, t)
           | None \<Rightarrow> transaction fault
               (\<lambda>t. (None, t\<lparr>tb_repository_settings := (tb_repository_settings t)(repository \<mapsto>
                  settingsRecordFrom R (rs_SetupScript settings) (rs_Roles settings))\<rparr>)) t))"

definition Store_ReadFile :: "go_error option \<Rightarrow> string \<Rightarrow> Tables \<Rightarrow> go_error + string" where
  "Store_ReadFile fault path t =
     (case validatePath path of
        Some err \<Rightarrow> Inl err
      | None \<Rightarrow>
          (case fault of
             Some err \<Rightarrow> Inl err
           | None \<Rightarrow> (case tb_blobs t path of None \<Rightarrow> Inl ErrNotExist | Some contents \<Rightarrow> Inr contents)))"

definition Store_WriteFile :: "go_error option \<Rightarrow> string \<Rightarrow> string \<Rightarrow> Tables update" where
  "Store_WriteFile fault path contents t =
     (case validatePath path of
        Some err \<Rightarrow> (Some err, t)
      | None \<Rightarrow> transaction fault (\<lambda>t. (None, t\<lparr>tb_blobs := (tb_blobs t)(path \<mapsto> contents)\<rparr>)) t)"

section \<open>All epics of a store\<close>

text \<open>
  Epics in the order of their root issues' creation and then of their IDs. IDs are distinct, so the
  unstable sort of Go has one result; \<open>0\<close> stands for the zero time of an epic without a root, which
  \<open>readEpic\<close> has refused.
\<close>

definition root_created :: "Epic \<Rightarrow> int" where
  "root_created e = (case RootIssue e of Inl _ \<Rightarrow> 0 | Inr root \<Rightarrow> i_CreatedAt root)"

fun list_epics_loop :: "json_codec \<Rightarrow> Store \<Rightarrow> string list \<Rightarrow> Epic list \<Rightarrow> go_error + Epic list" where
  "list_epics_loop J st [] aggregates = Inr aggregates"
| "list_epics_loop J st (id' # ids) aggregates =
     (case readEpic J id' st of
        Inl err \<Rightarrow> Inl err
      | Inr aggregate \<Rightarrow> list_epics_loop J st ids (aggregates @ [aggregate]))"

definition Store_ListEpics :: "json_codec \<Rightarrow> go_error option \<Rightarrow> Tables \<Rightarrow> go_error + Epic list" where
  "Store_ListEpics J fault t =
     (case fault of
        Some err \<Rightarrow> Inl err
      | None \<Rightarrow>
          (case list_epics_loop J (tb_epics t) (map er_ID (st_epics (tb_epics t))) [] of
             Inl err \<Rightarrow> Inl err
           | Inr aggregates \<Rightarrow> Inr (sort_key (\<lambda>e. (root_created e, e_ID e)) aggregates)))"

section \<open>Handles\<close>

text \<open>
  A \<open>Repository\<close> is known by its name and its path, and two callers that open the same one share it, so
  a handle is those two values and \<open>dk_live\<close> the handles whose \<open>store\<close> is set. The lock of a handle
  makes each method one step.
\<close>

record Handle =
  h_Name :: string
  h_StorePath :: string

record Desk =
  dk_files :: "string \<rightharpoonup> Tables"
  dk_live :: "Handle set"

text \<open>What may fail outside the program while a method runs, in the order of its calls.\<close>

record store_faults =
  sf_mkdir :: "go_error option"
  sf_open :: "go_error option"
  sf_meta_read :: "go_error option"
  sf_meta_write :: "go_error option"
  sf_read :: "go_error option"
  sf_write :: "go_error option"

definition OpenRepository :: "string \<Rightarrow> string \<Rightarrow> Handle" where
  "OpenRepository name storePath = \<lparr>h_Name = name, h_StorePath = storePath\<rparr>"

definition storePath :: "string \<Rightarrow> string \<Rightarrow> string" where
  "storePath storeRoot name = filepath_Join [storeRoot, name, ''store.sqlite'']"

definition Factory_Open :: "string \<Rightarrow> string \<Rightarrow> Handle" where
  "Factory_Open storeRoot name = OpenRepository name (storePath storeRoot name)"

definition ensureProject :: "store_faults \<Rightarrow> Handle \<Rightarrow> Tables update" where
  "ensureProject F r t =
     (case ReadProject (sf_meta_read F) t of
        Inr _ \<Rightarrow> (None, t)
      | Inl err \<Rightarrow>
          if \<not> errors_is err ''file does not exist'' then (Some err, t)
          else WriteProject (sf_meta_write F) \<lparr>j_Name = h_Name r, j_Repositories = []\<rparr> t)"

text \<open>\<open>OpenStore\<close>: \<open>CREATE TABLE IF NOT EXISTS\<close> makes the tables of a file that has none.\<close>

definition OpenStore :: "go_error option \<Rightarrow> string \<Rightarrow> Desk update" where
  "OpenStore fault path d =
     (case fault of
        Some err \<Rightarrow> (Some err, d)
      | None \<Rightarrow> (None, case dk_files d path of
                   None \<Rightarrow> d\<lparr>dk_files := (dk_files d)(path \<mapsto> fresh_tables)\<rparr>
                 | Some _ \<Rightarrow> d))"

definition tables_of :: "Handle \<Rightarrow> Desk \<Rightarrow> Tables" where
  "tables_of r d = (case dk_files d (h_StorePath r) of None \<Rightarrow> fresh_tables | Some t \<Rightarrow> t)"

text \<open>A statement or a transaction against the file of a handle.\<close>

definition at_file :: "Handle \<Rightarrow> Tables update \<Rightarrow> Desk update" where
  "at_file r f d =
     (case f (tables_of r d) of (err, t) \<Rightarrow> (err, d\<lparr>dk_files := (dk_files d)(h_StorePath r \<mapsto> t)\<rparr>))"

definition openStore :: "store_faults \<Rightarrow> Handle \<Rightarrow> Desk update" where
  "openStore F r d =
     (if r \<in> dk_live d then (None, d)
      else case sf_mkdir F of
        Some err \<Rightarrow> (Some (Wrapf ''create local store directory: %w'' [] [err]), d)
      | None \<Rightarrow> then_do (OpenStore (sf_open F) (h_StorePath r))
          (then_do (at_file r (ensureProject F r)) (\<lambda>d. (None, d\<lparr>dk_live := insert r (dk_live d)\<rparr>))) d)"

section \<open>Methods of a handle\<close>

text \<open>A reader opens the store and then reads: the desk changes too when the file is new.\<close>

definition reading_store ::
    "store_faults \<Rightarrow> Handle \<Rightarrow> (go_error option \<Rightarrow> Tables \<Rightarrow> go_error + 'a) \<Rightarrow> Desk \<Rightarrow> (go_error + 'a) \<times> Desk" where
  "reading_store F r f d =
     (case openStore F r d of
        (Some err, d) \<Rightarrow> (Inl err, d)
      | (None, d) \<Rightarrow> (f (sf_read F) (tables_of r d), d))"

definition Repository_ListEpics :: "json_codec \<Rightarrow> store_faults \<Rightarrow> Handle \<Rightarrow> Desk \<Rightarrow> (go_error + Epic list) \<times> Desk" where
  "Repository_ListEpics J F r = reading_store F r (Store_ListEpics J)"

definition Repository_ReadEpic ::
    "json_codec \<Rightarrow> store_faults \<Rightarrow> Handle \<Rightarrow> string \<Rightarrow> Desk \<Rightarrow> (go_error + Epic) \<times> Desk" where
  "Repository_ReadEpic J F r epicID = reading_store F r (\<lambda>fault t. ReadEpic J fault epicID (tb_epics t))"

definition Repository_AgentSettings ::
    "roles_codec \<Rightarrow> store_faults \<Rightarrow> Handle \<Rightarrow> Desk \<Rightarrow> (go_error + AgentSettings) \<times> Desk" where
  "Repository_AgentSettings R F r = reading_store F r (Store_AgentSettings R)"

definition Repository_RepositorySettings ::
    "roles_codec \<Rightarrow> store_faults \<Rightarrow> Handle \<Rightarrow> string \<Rightarrow> Desk \<Rightarrow> (go_error + RepositorySettings) \<times> Desk" where
  "Repository_RepositorySettings R F r repository =
     reading_store F r (\<lambda>fault. Store_RepositorySettings R fault repository)"

definition Repository_ReadFile :: "store_faults \<Rightarrow> Handle \<Rightarrow> string \<Rightarrow> Desk \<Rightarrow> (go_error + string) \<times> Desk" where
  "Repository_ReadFile F r path = reading_store F r (\<lambda>fault. Store_ReadFile fault path)"

definition Repository_Repositories :: "store_faults \<Rightarrow> Handle \<Rightarrow> Desk \<Rightarrow> (go_error + string list) \<times> Desk" where
  "Repository_Repositories F r = reading_store F r Store_Repositories"

definition Repository_mutate :: "store_faults \<Rightarrow> Handle \<Rightarrow> Tables update \<Rightarrow> Desk update" where
  "Repository_mutate F r change = then_do (openStore F r) (at_file r change)"

definition Repository_UpdateAgentSettings ::
    "roles_codec \<Rightarrow> store_faults \<Rightarrow> Handle \<Rightarrow> AgentSettings update \<Rightarrow> Desk update" where
  "Repository_UpdateAgentSettings R F r change = Repository_mutate F r
     (\<lambda>t. case Store_AgentSettings R (sf_read F) t of
        Inl err \<Rightarrow> (Some err, t)
      | Inr settings \<Rightarrow>
          (case change settings of
             (Some err, _) \<Rightarrow> (Some err, t)
           | (None, settings) \<Rightarrow> WriteAgentSettings R (sf_write F) settings t))"

definition Repository_UpdateRepositorySettings ::
    "roles_codec \<Rightarrow> store_faults \<Rightarrow> Handle \<Rightarrow> string \<Rightarrow> RepositorySettings update \<Rightarrow> Desk update" where
  "Repository_UpdateRepositorySettings R F r repository change = Repository_mutate F r
     (\<lambda>t. case Store_RepositorySettings R (sf_read F) repository t of
        Inl err \<Rightarrow> (Some err, t)
      | Inr settings \<Rightarrow>
          (case change settings of
             (Some err, _) \<Rightarrow> (Some err, t)
           | (None, settings) \<Rightarrow> WriteRepositorySettings R (sf_write F) repository settings t))"

definition Repository_WriteFile :: "store_faults \<Rightarrow> Handle \<Rightarrow> string \<Rightarrow> string \<Rightarrow> Desk update" where
  "Repository_WriteFile F r path contents = Repository_mutate F r (Store_WriteFile (sf_write F) path contents)"

definition Repository_UpdateRepositories :: "store_faults \<Rightarrow> Handle \<Rightarrow> string list \<Rightarrow> Desk update" where
  "Repository_UpdateRepositories F r repositories =
     Repository_mutate F r (ReplaceRepositories (sf_write F) repositories)"

text \<open>The updates of \<open>Tracker_Store\<close>, on the tables of the epics.\<close>

definition on_epics :: "Store update \<Rightarrow> Tables update" where
  "on_epics f t = (case f (tb_epics t) of (err, st) \<Rightarrow> (err, t\<lparr>tb_epics := st\<rparr>))"

definition desk_CreateEpic :: "json_codec \<Rightarrow> store_faults \<Rightarrow> Handle \<Rightarrow> Epic \<Rightarrow> Desk update" where
  "desk_CreateEpic J F r detail =
     Repository_mutate F r (on_epics (Repository_CreateEpic J (sf_write F) detail))"

definition desk_UpdateEpic :: "json_codec \<Rightarrow> store_faults \<Rightarrow> Handle \<Rightarrow> string \<Rightarrow> Epic update \<Rightarrow> Desk update" where
  "desk_UpdateEpic J F r id' change =
     Repository_mutate F r (on_epics (UpdateEpic J (sf_read F, sf_write F) id' change))"

end
