(* ===== verification/Store_Slots.thy ===== *)
theory Store_Slots
  imports Project_Store
begin

text \<open>
  What a project's store promises: it is a map from slots to values (the name, the linked
  repositories, the settings of the agents and of each repository, the file at a path, the epic with
  an ID), and a slot reads as what was last written to it. The promise is the locale
  \<open>written_slots\<close>; the tables of \<open>Project_Store\<close> provide it.
\<close>

section \<open>Slots that read as they were last written\<close>

text \<open>Writes one after another, the refused ones going without effect, and the accepted ones in order.\<close>

fun run_writes :: "('w \<Rightarrow> 's update) \<Rightarrow> 'w list \<Rightarrow> 's \<Rightarrow> 's \<times> 'w list" where
  "run_writes put [] s = (s, [])"
| "run_writes put (w # ws) s =
     (case put w s of
        (Some err, s) \<Rightarrow> run_writes put ws s
      | (None, s) \<Rightarrow> (case run_writes put ws s of (s, accepted) \<Rightarrow> (s, w # accepted)))"

fun last_effect :: "('w \<Rightarrow> 'k \<rightharpoonup> 'v) \<Rightarrow> 'w list \<Rightarrow> 'k \<Rightarrow> 'v \<Rightarrow> 'v" where
  "last_effect effect [] k v = v"
| "last_effect effect (w # ws) k v = last_effect effect ws k (case effect w k of None \<Rightarrow> v | Some v' \<Rightarrow> v')"

locale written_slots =
  fixes put :: "'w \<Rightarrow> 's update"
    and effect :: "'w \<Rightarrow> 'k \<rightharpoonup> 'v"
    and reads :: "'s \<Rightarrow> 'k \<Rightarrow> 'v"
    and sound :: "'s \<Rightarrow> bool"
    and encodable :: "'w \<Rightarrow> bool"
  assumes taken: "sound s \<Longrightarrow> encodable w \<Longrightarrow> put w s = (None, s') \<Longrightarrow>
      sound s' \<and> (\<forall>k. reads s' k = (case effect w k of None \<Rightarrow> reads s k | Some v \<Rightarrow> v))"
    and refused: "put w s = (Some err, s') \<Longrightarrow> s' = s"
begin

lemma reads_last_effect:
  assumes "sound s" "\<forall>w \<in> set ws. encodable w" "run_writes put ws s = (s', accepted)"
  shows "sound s' \<and> (\<forall>k. reads s' k = last_effect effect accepted k (reads s k))"
  using assms
proof (induction ws arbitrary: s accepted)
  case (Cons w ws)
  obtain r t where w: "put w s = (r, t)" by (metis surj_pair)
  show ?case
  proof (cases r)
    case None
    with w have t: "sound t" "\<And>k. reads t k = (case effect w k of None \<Rightarrow> reads s k | Some v \<Rightarrow> v)"
      using taken [OF Cons.prems(1)] Cons.prems(2) by auto
    obtain accepted' where r: "run_writes put ws t = (s', accepted')" and a: "accepted = w # accepted'"
      using Cons.prems(3) w None by (auto split: prod.splits)
    from Cons.IH [OF t(1) _ r] Cons.prems(2) show ?thesis by (simp add: a t(2))
  next
    case (Some err)
    with w have "t = s" using refused by blast
    with Cons w Some show ?thesis by simp
  qed
qed simp

end

section \<open>The slots of a store\<close>

datatype slot = SlotName | SlotLinks | SlotAgents | SlotRepository string | SlotFile string | SlotEpic string

datatype kept =
    KeptName "go_error + string"
  | KeptLinks "go_error + string list"
  | KeptAgents "go_error + AgentSettings"
  | KeptRepository "go_error + RepositorySettings"
  | KeptFile "go_error + string"
  | KeptEpic "go_error + Epic"

definition stored_name :: "Tables \<Rightarrow> go_error + string" where
  "stored_name t = (case ReadProject None t of Inl err \<Rightarrow> Inl err | Inr project \<Rightarrow> Inr (j_Name project))"

fun stored :: "json_codec \<Rightarrow> roles_codec \<Rightarrow> Tables \<Rightarrow> slot \<Rightarrow> kept" where
  "stored J R t SlotName = KeptName (stored_name t)"
| "stored J R t SlotLinks = KeptLinks (Store_Repositories None t)"
| "stored J R t SlotAgents = KeptAgents (Store_AgentSettings R None t)"
| "stored J R t (SlotRepository repository) = KeptRepository (Store_RepositorySettings R None repository t)"
| "stored J R t (SlotFile path) = KeptFile (Store_ReadFile None path t)"
| "stored J R t (SlotEpic id') = KeptEpic (ReadEpic J None id' (tb_epics t))"

datatype store_write =
    StoreProject StoredProject
  | StoreLinks "string list"
  | StoreAgents AgentSettings
  | StoreRepository string RepositorySettings
  | StoreFile string string
  | StoreEpic Epic

fun apply_write :: "json_codec \<Rightarrow> roles_codec \<Rightarrow> go_error option \<times> store_write \<Rightarrow> Tables update" where
  "apply_write J R (fault, StoreProject project) = WriteProject fault project"
| "apply_write J R (fault, StoreLinks repositories) = ReplaceRepositories fault repositories"
| "apply_write J R (fault, StoreAgents settings) = WriteAgentSettings R fault settings"
| "apply_write J R (fault, StoreRepository repository settings) = WriteRepositorySettings R fault repository settings"
| "apply_write J R (fault, StoreFile path contents) = Store_WriteFile fault path contents"
| "apply_write J R (fault, StoreEpic e) = on_epics (WriteEpic J fault e)"

text \<open>The specification: what a slot holds after a write that was accepted.\<close>

fun store_effect :: "store_write \<Rightarrow> slot \<rightharpoonup> kept" where
  "store_effect (StoreProject project) = [SlotName \<mapsto> KeptName (Inr (j_Name project)),
     SlotLinks \<mapsto> KeptLinks (Inr (sort (j_Repositories project)))]"
| "store_effect (StoreLinks repositories) = [SlotLinks \<mapsto> KeptLinks (Inr (sort repositories))]"
| "store_effect (StoreAgents settings) = [SlotAgents \<mapsto> KeptAgents (Inr settings)]"
| "store_effect (StoreRepository repository settings) = [SlotRepository repository \<mapsto> KeptRepository (Inr settings)]"
| "store_effect (StoreFile path contents) = [SlotFile path \<mapsto> KeptFile (Inr contents)]"
| "store_effect (StoreEpic e) = [SlotEpic (e_ID e) \<mapsto> KeptEpic (Inr (canonical e))]"

text \<open>The codecs give back the lists and the role table of a write.\<close>

fun encodable :: "json_codec \<Rightarrow> roles_codec \<Rightarrow> store_write \<Rightarrow> bool" where
  "encodable J R (StoreAgents settings) \<longleftrightarrow>
     unmarshal_roles R (marshal_roles R (as_Roles settings)) = Inr (as_Roles settings)"
| "encodable J R (StoreRepository repository settings) \<longleftrightarrow>
     unmarshal_roles R (marshal_roles R (rs_Roles settings)) = Inr (rs_Roles settings)"
| "encodable J R (StoreEpic e) \<longleftrightarrow> json_faithful J e"
| "encodable J R _ \<longleftrightarrow> True"

text \<open>What the tables hold once only the program has written to them.\<close>

definition tables_ok :: "Tables \<Rightarrow> bool" where
  "tables_ok t \<longleftrightarrow> store_ok (tb_epics t) \<and> validateRepositories (tb_repositories t) = None \<and>
     (\<forall>name. tb_metadata t = Some name \<longrightarrow> trim_space name \<noteq> [])"

section \<open>The tables keep the promise\<close>

lemma validate_repositories_loop_None:
  "validate_repositories_loop rs seen = None \<longleftrightarrow>
     (\<forall>r \<in> set rs. validateRepository r = None) \<and> distinct rs \<and> set rs \<inter> seen = {}"
  by (induction rs arbitrary: seen) (auto split: option.splits)

lemma validateRepositories_None:
  "validateRepositories rs = None \<longleftrightarrow> (\<forall>r \<in> set rs. validateRepository r = None) \<and> distinct rs"
  by (simp add: validateRepositories_def validate_repositories_loop_None)

lemma validateRepositories_sort:
  "validateRepositories (sort rs) = None \<longleftrightarrow> validateRepositories rs = None"
  by (simp add: validateRepositories_None)

lemma validateProject_None:
  "validateProject p = None \<longleftrightarrow> trim_space (j_Name p) \<noteq> [] \<and> validateRepositories (j_Repositories p) = None"
  by (simp add: validateProject_def)

lemma read_repositories_loop_valid:
  "\<forall>r \<in> set names. validateRepository r = None \<Longrightarrow> read_repositories_loop names rs = Inr (rs @ names)"
  by (induction names arbitrary: rs) auto

lemma readRepositories_valid:
  "validateRepositories (tb_repositories t) = None \<Longrightarrow> readRepositories t = Inr (sort (tb_repositories t))"
  by (simp add: readRepositories_def validateRepositories_None read_repositories_loop_valid)

lemma stored_name_ok:
  assumes "tables_ok t"
  shows "stored_name t = (case tb_metadata t of None \<Rightarrow> Inl ErrNotExist | Some name \<Rightarrow> Inr name)"
  using assms validateRepositories_sort [of "tb_repositories t", THEN iffD2]
  by (auto simp: stored_name_def ReadProject_def tables_ok_def readRepositories_valid validateProject_def
      Let_def split: option.splits)

lemma stored_links_ok: "tables_ok t \<Longrightarrow> Store_Repositories None t = Inr (sort (tb_repositories t))"
  by (simp add: Store_Repositories_def tables_ok_def readRepositories_valid)

lemma insert_repositories:
  "distinct (tb_repositories t @ rs) \<Longrightarrow>
     do_each insert_repository rs t = (None, t\<lparr>tb_repositories := tb_repositories t @ rs\<rparr>)"
  by (induction rs arbitrary: t) (auto simp: then_do_def insert_repository_def)

lemma replace_links_distinct:
  "distinct rs \<Longrightarrow> replace_links rs t = (None, t\<lparr>tb_repositories := sort rs\<rparr>)"
  by (simp add: replace_links_def then_do_def sortedRepositories_def insert_repositories)

lemma WriteProject_None:
  "WriteProject fault p t = (None, t') \<longleftrightarrow> fault = None \<and> validateProject p = None \<and>
     t' = t\<lparr>tb_metadata := Some (j_Name p), tb_repositories := sort (j_Repositories p)\<rparr>"
proof (cases "validateProject p")
  case None
  then have "distinct (j_Repositories p)" by (simp add: validateProject_None validateRepositories_None)
  with None show ?thesis
    by (auto simp: WriteProject_def transaction_None_iff then_do_def replace_links_distinct)
qed (simp add: WriteProject_def)

lemma ReplaceRepositories_None:
  "ReplaceRepositories fault rs t = (None, t') \<longleftrightarrow> fault = None \<and> validateRepositories rs = None \<and>
     (\<exists>name. tb_metadata t = Some name \<and> trim_space name \<noteq> []) \<and> t' = t\<lparr>tb_repositories := sort rs\<rparr>"
proof (cases "validateRepositories rs")
  case None
  then have "distinct rs" by (simp add: validateRepositories_None)
  moreover have "validateRepositories [] = None" by (simp add: validateRepositories_None)
  ultimately show ?thesis
    using None by (auto simp: ReplaceRepositories_def transaction_None_iff validateProject_def
        replace_links_distinct split: option.splits)
qed (simp add: ReplaceRepositories_def)

lemma WriteAgentSettings_None:
  "WriteAgentSettings R fault s t = (None, t') \<longleftrightarrow> fault = None \<and> validateAgentSettings R s = None \<and>
     t' = t\<lparr>tb_agent_settings := Some (settingsRecordFrom R (as_SetupScript s) (as_Roles s))\<rparr>"
  by (auto simp: WriteAgentSettings_def transaction_None_iff split: option.splits)

lemma WriteRepositorySettings_None:
  "WriteRepositorySettings R fault r s t = (None, t') \<longleftrightarrow>
     fault = None \<and> validateRepository r = None \<and> validateRepositorySettings R s = None \<and>
     t' = t\<lparr>tb_repository_settings := (tb_repository_settings t)(r \<mapsto>
       settingsRecordFrom R (rs_SetupScript s) (rs_Roles s))\<rparr>"
  by (auto simp: WriteRepositorySettings_def transaction_None_iff split: option.splits)

lemma Store_WriteFile_None:
  "Store_WriteFile fault path contents t = (None, t') \<longleftrightarrow> fault = None \<and> validatePath path = None \<and>
     t' = t\<lparr>tb_blobs := (tb_blobs t)(path \<mapsto> contents)\<rparr>"
  by (auto simp: Store_WriteFile_def transaction_None_iff split: option.splits)

lemma on_epics_None: "on_epics f t = (None, t') \<longleftrightarrow> (\<exists>st. f (tb_epics t) = (None, st) \<and> t' = t\<lparr>tb_epics := st\<rparr>)"
  by (auto simp: on_epics_def split: prod.splits)

lemma WriteEpic_ReadEpic:
  assumes "store_ok st" "json_faithful J e" "WriteEpic J fault e st = (None, st')"
  shows "ReadEpic J None x st' = (if x = e_ID e then Inr (canonical e) else ReadEpic J None x st)"
  using WriteEpic_reads [OF assms] by (simp add: ReadEpic_def)

lemma written_agents:
  assumes "validateAgentSettings R s = None" "encodable J R (StoreAgents s)"
  shows "record_agentSettings R (settingsRecordFrom R (as_SetupScript s) (as_Roles s)) = Inr s"
  using assms by (cases s) (simp add: record_agentSettings_def settingsRecordFrom_def)

lemma written_repository:
  assumes "validateRepositorySettings R s = None" "encodable J R (StoreRepository r s)"
  shows "record_repositorySettings R (settingsRecordFrom R (rs_SetupScript s) (rs_Roles s)) = Inr s"
  using assms by (cases s) (simp add: record_repositorySettings_def settingsRecordFrom_def)

lemmas accepted_iff = WriteProject_None ReplaceRepositories_None WriteAgentSettings_None
  WriteRepositorySettings_None Store_WriteFile_None on_epics_None

lemma store_write_ok:
  assumes "tables_ok t" "apply_write J R (fault, w) t = (None, t')"
  shows "tables_ok t'"
  using assms by (cases w) (auto simp: accepted_iff tables_ok_def validateProject_None validateRepositories_sort dest: store_ok_WriteEpic)

lemma store_write_refused: "apply_write J R w t = (Some err, t') \<Longrightarrow> t' = t"
proof (induction J R w rule: apply_write.induct)
  case (6 J R fault e)
  then show ?case using atomicD [OF atomic_WriteEpic] by (fastforce simp: on_epics_def split: prod.splits)
qed (auto simp: WriteProject_def ReplaceRepositories_def WriteAgentSettings_def WriteRepositorySettings_def
    Store_WriteFile_def transaction_def split: option.splits prod.splits)

lemma slot_readers:
  "Store_AgentSettings R None t = (case tb_agent_settings t of
     None \<Rightarrow> Inr \<lparr>as_SetupScript = [], as_Roles = Map.empty\<rparr> | Some r \<Rightarrow> record_agentSettings R r)"
  "Store_RepositorySettings R None repository t = (case validateRepository repository of Some err \<Rightarrow> Inl err
     | None \<Rightarrow> (case tb_repository_settings t repository of
         None \<Rightarrow> Inr \<lparr>rs_SetupScript = [], rs_Roles = Map.empty\<rparr> | Some r \<Rightarrow> record_repositorySettings R r))"
  "Store_ReadFile None path t = (case validatePath path of Some err \<Rightarrow> Inl err
     | None \<Rightarrow> (case tb_blobs t path of None \<Rightarrow> Inl ErrNotExist | Some contents \<Rightarrow> Inr contents))"
  unfolding Store_AgentSettings_def Store_RepositorySettings_def Store_ReadFile_def option.case by (rule refl)+

lemma store_write_taken:
  assumes ok: "tables_ok t" and enc: "encodable J R w" and w: "apply_write J R (fault, w) t = (None, t')"
  shows "stored J R t' k = (case store_effect w k of None \<Rightarrow> stored J R t k | Some v \<Rightarrow> v)"
proof -
  note ok' = store_write_ok [OF ok w]
  note links = stored_links_ok [OF ok] stored_links_ok [OF ok'] stored_name_ok [OF ok] stored_name_ok [OF ok']
  show ?thesis
  proof (cases w)
    case (StoreProject project)
    with w have "t' = t\<lparr>tb_metadata := Some (j_Name project), tb_repositories := sort (j_Repositories project)\<rparr>"
      by (simp add: accepted_iff)
    then show ?thesis
      using links by (cases k) (simp_all add: StoreProject slot_readers sort_key_sorted_id cong: option.case_cong)
  next
    case (StoreLinks repositories)
    with w have "t' = t\<lparr>tb_repositories := sort repositories\<rparr>" by (simp add: accepted_iff)
    then show ?thesis
      using links by (cases k) (simp_all add: StoreLinks slot_readers sort_key_sorted_id cong: option.case_cong)
  next
    case (StoreAgents s)
    with w have "validateAgentSettings R s = None"
      and "t' = t\<lparr>tb_agent_settings := Some (settingsRecordFrom R (as_SetupScript s) (as_Roles s))\<rparr>"
      by (simp_all add: accepted_iff)
    then show ?thesis
      using links written_agents enc by (cases k) (simp_all add: StoreAgents slot_readers cong: option.case_cong)
  next
    case (StoreRepository r s)
    with w have "validateRepository r = None" "validateRepositorySettings R s = None"
      and "t' = t\<lparr>tb_repository_settings := (tb_repository_settings t)(r \<mapsto>
        settingsRecordFrom R (rs_SetupScript s) (rs_Roles s))\<rparr>"
      by (simp_all add: accepted_iff)
    then show ?thesis
      using written_repository [of R s J r] links enc
      by (cases k) (simp_all add: StoreRepository slot_readers cong: option.case_cong)
  next
    case (StoreFile path contents)
    with w have "validatePath path = None" and "t' = t\<lparr>tb_blobs := (tb_blobs t)(path \<mapsto> contents)\<rparr>"
      by (simp_all add: accepted_iff)
    then show ?thesis
      using links by (cases k) (simp_all add: StoreFile slot_readers cong: option.case_cong)
  next
    case (StoreEpic e)
    with w obtain st where st: "WriteEpic J fault e (tb_epics t) = (None, st)" "t' = t\<lparr>tb_epics := st\<rparr>"
      by (auto simp: accepted_iff)
    have "ReadEpic J None x st = (if x = e_ID e then Inr (canonical e) else ReadEpic J None x (tb_epics t))" for x
      using ok enc st(1) by (intro WriteEpic_ReadEpic) (auto simp: StoreEpic tables_ok_def)
    then show ?thesis
      using st(2) links by (cases k) (simp_all add: StoreEpic slot_readers cong: option.case_cong)
  qed
qed

interpretation slots: written_slots "apply_write J R" "store_effect \<circ> snd" "stored J R" tables_ok "encodable J R \<circ> snd"
  for J R
proof unfold_locales
  fix t w t' assume *: "tables_ok t" "(encodable J R \<circ> snd) w" "apply_write J R w t = (None, t')"
  then show "tables_ok t' \<and> (\<forall>k. stored J R t' k =
      (case (store_effect \<circ> snd) w k of None \<Rightarrow> stored J R t k | Some v \<Rightarrow> v))"
    by (cases w) (auto intro: store_write_ok simp: store_write_taken)
qed (rule store_write_refused)

text \<open>C9. A store is a map of slots, each reading as it was last written. Take any sequence of writes
  to a project's store: of its metadata, its linked repositories, the settings of the agents or of a
  repository, files and epics, some of them refused or failing. Every slot then reads as the last
  write to it that was accepted has it (the linked repositories in order of name, an epic in its
  canonical order) and as it read before when none was: the writes of one kind never disturb another,
  and those refused leave nothing behind.\<close>

theorem store_reads_the_last_accepted_write:
  assumes "tables_ok t" "\<forall>w \<in> set writes. encodable J R (snd w)"
    and "run_writes (apply_write J R) writes t = (t', accepted)"
  shows "tables_ok t' \<and> (\<forall>slot. stored J R t' slot = last_effect (store_effect \<circ> snd) accepted slot (stored J R t slot))"
  using slots.reads_last_effect [OF assms(1) _ assms(3)] assms(2) by simp

text \<open>A store that takes four writes of six.\<close>

definition plain_roles :: roles_codec where
  "plain_roles = \<lparr>marshal_roles = \<lambda>_. [], unmarshal_roles = \<lambda>_. Inr Map.empty, role_order = \<lambda>_. []\<rparr>"

definition example_writes :: "(go_error option \<times> store_write) list" where
  "example_writes =
     [(None, StoreProject \<lparr>j_Name = ''demo'', j_Repositories = [''o/c'']\<rparr>),
      (None, StoreFile ''notes'' ''first''),
      (None, StoreLinks [''o/b'', ''o/a'']),
      (None, StoreLinks [''a/b/c'']),
      (Some ErrNotExist, StoreFile ''notes'' ''lost''),
      (None, StoreFile ''notes'' ''second'')]"

lemma example_validation:
  "validateRepositories [''o/c''] = None" "validateRepositories [''o/b'', ''o/a''] = None" "validateRepositories [] = None"
  "validateRepositories [''a/b/c''] \<noteq> None" "validatePath ''notes'' = None" "trim_space ''demo'' = ''demo''"
proof -
  show "trim_space ''demo'' = ''demo''"
    by (intro trim_space_solid; simp add: byte_def is_space_def in_range_def)
qed code_simp+

lemma example_accepted:
  "map snd (snd (run_writes (apply_write example_codec plain_roles) example_writes fresh_tables)) =
     [StoreProject \<lparr>j_Name = ''demo'', j_Repositories = [''o/c'']\<rparr>, StoreFile ''notes'' ''first'',
      StoreLinks [''o/b'', ''o/a''], StoreFile ''notes'' ''second'']"
proof -
  obtain err where "validateRepositories [''a/b/c''] = Some err" using example_validation(4) by auto
  with example_validation show ?thesis
    by (simp add: example_writes_def WriteProject_def ReplaceRepositories_def Store_WriteFile_def validateProject_def
      transaction_def then_do_def replace_links_distinct)
qed

lemma fresh_tables_ok: "tables_ok fresh_tables"
  by (simp add: tables_ok_def fresh_tables_def store_ok_empty validateRepositories_def)

lemma last_effect_snd: "last_effect (effect \<circ> snd) ws = last_effect effect (map snd ws)"
  by (intro ext, induction ws) simp_all

lemma store_reads_the_last_accepted_write_witness:
  "\<exists>t accepted. run_writes (apply_write example_codec plain_roles) example_writes fresh_tables = (t, accepted) \<and>
     stored example_codec plain_roles t SlotName = KeptName (Inr ''demo'') \<and>
     stored example_codec plain_roles t SlotLinks = KeptLinks (Inr [''o/a'', ''o/b'']) \<and>
     stored example_codec plain_roles t (SlotFile ''notes'') = KeptFile (Inr ''second'')"
proof -
  obtain t accepted where run: "run_writes (apply_write example_codec plain_roles) example_writes fresh_tables = (t, accepted)"
    by (metis surj_pair)
  have "\<forall>w \<in> set example_writes. encodable example_codec plain_roles (snd w)"
    by (simp add: example_writes_def)
  note read = store_reads_the_last_accepted_write [OF fresh_tables_ok this run, THEN conjunct2, THEN spec]
  have accepted: "map snd accepted = [StoreProject \<lparr>j_Name = ''demo'', j_Repositories = [''o/c'']\<rparr>,
      StoreFile ''notes'' ''first'', StoreLinks [''o/b'', ''o/a''], StoreFile ''notes'' ''second'']"
    using example_accepted run by simp
  have "stored example_codec plain_roles t SlotName = KeptName (Inr ''demo'')"
    "stored example_codec plain_roles t SlotLinks = KeptLinks (Inr [''o/a'', ''o/b''])"
    "stored example_codec plain_roles t (SlotFile ''notes'') = KeptFile (Inr ''second'')"
    unfolding read last_effect_snd accepted by simp_all
  with run show ?thesis by (intro exI [of _ t] exI [of _ accepted] conjI)
qed

end
