(* ===== verification/Project_Registry.thy ===== *)
theory Project_Registry
  imports Repository_Refs Scheduler Tracker_Store
begin

text \<open>
  \<open>adapters/projectstore/registry_projects.go\<close>, the daemon's tables of organisations, repositories and
  projects, and the use cases over them: \<open>repositories.go\<close>, \<open>add_repository.go\<close>,
  \<open>create_project.go\<close>, \<open>open_project.go\<close> and \<open>list_projects.go\<close>. A table is a list of rows under its
  primary key; \<open>fault\<close> is the error of a statement for reasons outside the program. What GitHub
  answers is a parameter (\<open>github\<close>).
\<close>

section \<open>Tables\<close>

record projectRecord =
  pe_ID :: nat
  pe_Name :: string
  pe_LastOpenedAt :: int

text \<open>\<open>domain.Project\<close> with the stamp that \<open>Scheduler\<close> leaves out.\<close>

record DatedProject = Project +
  pj_LastOpenedAt :: int

text \<open>\<open>pg_sequence\<close> is the last key SQLite gave out for a project; \<open>AUTOINCREMENT\<close> never gives one twice.\<close>

record Projects =
  pg_organisations :: "string list"
  pg_repositories :: "Repository list"
  pg_projects :: "projectRecord list"
  pg_sequence :: nat

section \<open>Organisations\<close>

definition Registry_ListOrganisations :: "go_error option \<Rightarrow> Projects \<Rightarrow> go_error + string list" where
  "Registry_ListOrganisations fault g =
     (case fault of Some err \<Rightarrow> Inl err | None \<Rightarrow> Inr (sort (pg_organisations g)))"

text \<open>
  \<open>FirstOrCreate\<close>: gorm looks for a row with the primary key of its argument, and for any row at all
  when that key is empty.
\<close>

definition CreateOrganisation :: "go_error option \<Rightarrow> string \<Rightarrow> Projects update" where
  "CreateOrganisation fault name =
     transaction fault (\<lambda>g. (None,
       if if name = [] then pg_organisations g \<noteq> [] else name \<in> set (pg_organisations g) then g
       else g\<lparr>pg_organisations := pg_organisations g @ [name]\<rparr>))"

text \<open>Two statements: when the second fails the organisation is gone and its repositories are not.\<close>

definition DeleteOrganisation :: "go_error option \<times> go_error option \<Rightarrow> string \<Rightarrow> Projects update" where
  "DeleteOrganisation faults name =
     then_do
       (transaction (fst faults) (\<lambda>g. (None, g\<lparr>pg_organisations := filter (\<lambda>o'. o' \<noteq> name) (pg_organisations g)\<rparr>)))
       (transaction (snd faults) (\<lambda>g. (None, g\<lparr>pg_repositories :=
          filter (\<lambda>r. Organisation r \<noteq> name) (pg_repositories g)\<rparr>)))"

section \<open>Repositories\<close>

definition Registry_ListRepositories :: "go_error option \<Rightarrow> Projects \<Rightarrow> go_error + Repository list" where
  "Registry_ListRepositories fault g =
     (case fault of
        Some err \<Rightarrow> Inl err
      | None \<Rightarrow> Inr (sort_key (\<lambda>r. (Organisation r, FullName r)) (pg_repositories g)))"

text \<open>An upsert by full name: the row with that key is written over, or a new one is added.\<close>

definition upsert_repository :: "Repository \<Rightarrow> Projects update" where
  "upsert_repository r g = (None, g\<lparr>pg_repositories :=
     (if FullName r \<in> FullName ` set (pg_repositories g)
      then map (\<lambda>r'. if FullName r' = FullName r then r else r') (pg_repositories g)
      else pg_repositories g @ [r])\<rparr>)"

definition SaveRepository :: "go_error option \<Rightarrow> Repository \<Rightarrow> Projects update" where
  "SaveRepository fault repository = transaction fault (upsert_repository repository)"

definition Registry_ReplaceRepositories ::
    "go_error option \<Rightarrow> string \<Rightarrow> Repository list \<Rightarrow> Projects update" where
  "Registry_ReplaceRepositories fault organisation repositories =
     transaction fault
       (then_do
          (\<lambda>g. (None, g\<lparr>pg_repositories := filter (\<lambda>r. Organisation r \<noteq> organisation) (pg_repositories g)\<rparr>))
          (do_each (\<lambda>r. upsert_repository (r\<lparr>Organisation := organisation\<rparr>)) repositories))"

section \<open>Projects\<close>

definition record_project :: "projectRecord \<Rightarrow> DatedProject" where
  "record_project r = \<lparr>pj_ID = pe_ID r, pj_Name = pe_Name r, pj_LastOpenedAt = pe_LastOpenedAt r\<rparr>"

definition Registry_List :: "go_error option \<Rightarrow> Projects \<Rightarrow> go_error + DatedProject list" where
  "Registry_List fault g =
     (case fault of
        Some err \<Rightarrow> Inl err
      | None \<Rightarrow> Inr (map record_project (sort_key (\<lambda>r. - pe_LastOpenedAt r) (pg_projects g))))"

text \<open>The project comes back with the key of its row; a key of 0 asks the database for one.\<close>

definition Registry_Create ::
    "go_error option \<Rightarrow> DatedProject \<Rightarrow> Projects \<Rightarrow> (go_error + DatedProject) \<times> Projects" where
  "Registry_Create fault project g =
     (case fault of
        Some err \<Rightarrow> (Inl err, g)
      | None \<Rightarrow>
          (let key = (if pj_ID project = 0 then Suc (pg_sequence g) else pj_ID project)
           in if key \<in> pe_ID ` set (pg_projects g) then (Inl (unique_error ''project_records.id''), g)
              else (Inr (project\<lparr>pj_ID := key\<rparr>),
                    g\<lparr>pg_projects := pg_projects g @ [\<lparr>pe_ID = key, pe_Name = pj_Name project,
                        pe_LastOpenedAt = pj_LastOpenedAt project\<rparr>],
                      pg_sequence := max key (pg_sequence g)\<rparr>)))"

definition Registry_Touch :: "go_error option \<Rightarrow> int \<Rightarrow> nat \<Rightarrow> Projects update" where
  "Registry_Touch fault now projectID =
     transaction fault (\<lambda>g. (None, g\<lparr>pg_projects :=
       map (\<lambda>r. if pe_ID r = projectID then r\<lparr>pe_LastOpenedAt := now\<rparr> else r) (pg_projects g)\<rparr>))"

definition Registry_Delete :: "go_error option \<Rightarrow> nat \<Rightarrow> Projects update" where
  "Registry_Delete fault projectID =
     transaction fault (\<lambda>g. (None, g\<lparr>pg_projects := filter (\<lambda>r. pe_ID r \<noteq> projectID) (pg_projects g)\<rparr>))"

section \<open>Commands on projects\<close>

definition project_name_char :: "char \<Rightarrow> bool" where
  "project_name_char c \<longleftrightarrow>
     in_range 65 90 (byte c) \<or> in_range 97 122 (byte c) \<or> in_range 48 57 (byte c) \<or> c = CHR ''-''"

definition projectNamePattern :: "string \<Rightarrow> bool" where
  "projectNamePattern name \<longleftrightarrow> name \<noteq> [] \<and> list_all project_name_char name"

definition CreateProject_Handle ::
    "go_error option \<Rightarrow> int \<Rightarrow> string \<Rightarrow> Projects \<Rightarrow> (go_error + DatedProject) \<times> Projects" where
  "CreateProject_Handle fault now raw g =
     (let name = trim_space raw
      in if name = [] then (Inl (Errorf ''project name is required'' []), g)
         else if \<not> projectNamePattern name
         then (Inl (Errorf ''project name must contain only letters, numbers, and dashes'' []), g)
         else Registry_Create fault \<lparr>pj_ID = 0, pj_Name = name, pj_LastOpenedAt = now\<rparr> g)"

definition OpenProject_Handle :: "go_error option \<Rightarrow> int \<Rightarrow> DatedProject \<Rightarrow> Projects update" where
  "OpenProject_Handle fault now project = Registry_Touch fault now (pj_ID project)"

definition ListProjects_Handle :: "go_error option \<Rightarrow> Projects \<Rightarrow> go_error + DatedProject list" where
  "ListProjects_Handle = Registry_List"

section \<open>Commands on organisations and repositories\<close>

record GitHubRepository =
  gr_Name :: string
  gr_FullName :: string
  gr_HTTPURL :: string
  gr_SSHURL :: string
  gr_Organisation :: string

definition GitHubRepository_Domain :: "GitHubRepository \<Rightarrow> Repository" where
  "GitHubRepository_Domain r = \<lparr>Name = gr_Name r, FullName = gr_FullName r, HTTPURL = gr_HTTPURL r,
     SSHURL = gr_SSHURL r, Organisation = gr_Organisation r\<rparr>"

text \<open>What GitHub answers while a command runs.\<close>

record github =
  gh_CurrentUser :: "go_error + string"
  gh_ListOrganisations :: "go_error + string list"
  gh_ListRepositories :: "string \<Rightarrow> go_error + GitHubRepository list"
  gh_ListUserRepositories :: "go_error + GitHubRepository list"

text \<open>The faults of the statements of a command; a statement about an organisation has one of its own.\<close>

record registry_faults =
  rf_create :: "string \<Rightarrow> go_error option"
  rf_list :: "go_error option"
  rf_replace :: "string \<Rightarrow> go_error option"

definition registerAuthenticatedAccount ::
    "github \<Rightarrow> registry_faults \<Rightarrow> Projects \<Rightarrow> (go_error + string) \<times> Projects" where
  "registerAuthenticatedAccount H F g =
     (case gh_CurrentUser H of
        Inl err \<Rightarrow> (Inl err, g)
      | Inr login \<Rightarrow>
          (case CreateOrganisation (rf_create F login) login g of
             (Some err, g) \<Rightarrow> (Inl err, g)
           | (None, g) \<Rightarrow> (Inr login, g)))"

definition DiscoverOrganisations_Handle ::
    "github \<Rightarrow> registry_faults \<Rightarrow> Projects \<Rightarrow> (go_error + string list) \<times> Projects" where
  "DiscoverOrganisations_Handle H F g =
     (case gh_ListOrganisations H of
        Inl err \<Rightarrow> (Inl err, g)
      | Inr organisations \<Rightarrow>
          (case registerAuthenticatedAccount H F g of
             (Inl err, g) \<Rightarrow> (Inl err, g)
           | (Inr _, g) \<Rightarrow>
               (case do_each (\<lambda>name. CreateOrganisation (rf_create F name) name) organisations g of
                  (Some err, g) \<Rightarrow> (Inl err, g)
                | (None, g) \<Rightarrow> (Registry_ListOrganisations (rf_list F) g, g))))"

definition ListOrganisations_Handle :: "go_error option \<Rightarrow> Projects \<Rightarrow> go_error + string list" where
  "ListOrganisations_Handle = Registry_ListOrganisations"

definition AddOrganisation_Handle :: "go_error option \<Rightarrow> string \<Rightarrow> Projects update" where
  "AddOrganisation_Handle fault raw g =
     (let name = trim_space raw
      in if name = [] then (Some (Errorf ''organisation name is required'' []), g)
         else CreateOrganisation fault name g)"

definition RemoveOrganisation_Handle :: "go_error option \<times> go_error option \<Rightarrow> string \<Rightarrow> Projects update" where
  "RemoveOrganisation_Handle faults name = DeleteOrganisation faults (trim_space name)"

definition AddRepository_Handle ::
    "go_error option \<Rightarrow> string \<Rightarrow> Projects \<Rightarrow> (go_error + Repository) \<times> Projects" where
  "AddRepository_Handle fault fullName g =
     (case SplitRepositoryRef fullName of
        None \<Rightarrow> (Inl (Errorf ''repository must use owner/name form, got %q'' [GStr fullName]), g)
      | Some (owner, name) \<Rightarrow>
          (let repository = \<lparr>Name = name, FullName = owner @ ''/'' @ name,
                 HTTPURL = ''https://github.com/'' @ owner @ ''/'' @ name,
                 SSHURL = ''git@github.com:'' @ owner @ ''/'' @ name @ ''.git'', Organisation = owner\<rparr>
           in case SaveRepository fault repository g of
                (Some err, g) \<Rightarrow> (Inl err, g)
              | (None, g) \<Rightarrow> (Inr repository, g)))"

definition ListRepositories_Handle :: "go_error option \<Rightarrow> Projects \<Rightarrow> go_error + Repository list" where
  "ListRepositories_Handle = Registry_ListRepositories"

definition registeredContains :: "(nat \<Rightarrow> nat) \<Rightarrow> string list \<Rightarrow> string \<Rightarrow> bool" where
  "registeredContains ufold organisations name \<longleftrightarrow> list_ex (\<lambda>o'. EqualFold ufold o' name) organisations"

definition listFor ::
    "(nat \<Rightarrow> nat) \<Rightarrow> github \<Rightarrow> string \<Rightarrow> string \<Rightarrow> string list \<Rightarrow> go_error + GitHubRepository list" where
  "listFor ufold H organisation login registered =
     (if \<not> EqualFold ufold organisation login then gh_ListRepositories H organisation
      else case gh_ListUserRepositories H of
        Inl err \<Rightarrow> Inl err
      | Inr repositories \<Rightarrow> Inr (filter (\<lambda>r. \<not> (\<not> EqualFold ufold (gr_Organisation r) login \<and>
            registeredContains ufold registered (gr_Organisation r))) repositories))"

definition sync_organisation ::
    "(nat \<Rightarrow> nat) \<Rightarrow> github \<Rightarrow> registry_faults \<Rightarrow> string \<Rightarrow> string list \<Rightarrow> string \<Rightarrow> Projects update" where
  "sync_organisation ufold H F login registered organisation g =
     (case listFor ufold H organisation login registered of
        Inl err \<Rightarrow> (Some (Wrapf ''list repositories for %s: %w'' [GStr organisation] [err]), g)
      | Inr repositories \<Rightarrow>
          Registry_ReplaceRepositories (rf_replace F organisation) organisation
            (map GitHubRepository_Domain repositories) g)"

definition SyncRepositories_Handle :: "(nat \<Rightarrow> nat) \<Rightarrow> github \<Rightarrow> registry_faults \<Rightarrow> Projects update" where
  "SyncRepositories_Handle ufold H F g =
     (case registerAuthenticatedAccount H F g of
        (Inl err, g) \<Rightarrow> (Some err, g)
      | (Inr login, g) \<Rightarrow>
          (case Registry_ListOrganisations (rf_list F) g of
             Inl err \<Rightarrow> (Some err, g)
           | Inr organisations \<Rightarrow> do_each (sync_organisation ufold H F login organisations) organisations g))"

section \<open>A sync files every repository under its owner\<close>

definition listed_under ::
    "(nat \<Rightarrow> nat) \<Rightarrow> github \<Rightarrow> string \<Rightarrow> string list \<Rightarrow> string \<Rightarrow> Repository set" where
  "listed_under ufold H login registered organisation =
     (case listFor ufold H organisation login registered of
        Inl _ \<Rightarrow> {}
      | Inr repositories \<Rightarrow>
          (\<lambda>r. (GitHubRepository_Domain r)\<lparr>Organisation := organisation\<rparr>) ` set repositories)"

text \<open>
  GitHub's part: the repositories listed for an organisation are its own, a full name has one owner,
  and a listing names a repository once.
\<close>

definition github_lists_owners :: "(nat \<Rightarrow> nat) \<Rightarrow> github \<Rightarrow> bool" where
  "github_lists_owners ufold H \<longleftrightarrow>
     (\<forall>o' rs r. gh_ListRepositories H o' = Inr rs \<longrightarrow> r \<in> set rs \<longrightarrow> EqualFold ufold (gr_Organisation r) o') \<and>
     (\<forall>o' rs rs' r r'. gh_ListRepositories H o' = Inr rs \<longrightarrow> gh_ListUserRepositories H = Inr rs' \<longrightarrow>
        r \<in> set rs \<longrightarrow> r' \<in> set rs' \<longrightarrow> gr_FullName r = gr_FullName r' \<longrightarrow> gr_Organisation r = gr_Organisation r') \<and>
     (\<forall>o' o'' rs rs' r r'. gh_ListRepositories H o' = Inr rs \<longrightarrow> gh_ListRepositories H o'' = Inr rs' \<longrightarrow>
        r \<in> set rs \<longrightarrow> r' \<in> set rs' \<longrightarrow> gr_FullName r = gr_FullName r' \<longrightarrow> gr_Organisation r = gr_Organisation r') \<and>
     (\<forall>o' rs. gh_ListRepositories H o' = Inr rs \<longrightarrow> distinct (map gr_FullName rs)) \<and>
     (\<forall>rs. gh_ListUserRepositories H = Inr rs \<longrightarrow> distinct (map gr_FullName rs))"

text \<open>A table under its primary key.\<close>

definition keyed :: "Projects \<Rightarrow> bool" where
  "keyed g \<longleftrightarrow> distinct (map FullName (pg_repositories g))"

abbreviation repository_rows :: "Projects \<Rightarrow> Repository set" where
  "repository_rows g \<equiv> set (pg_repositories g)"

lemma upsert_repository_rows:
  assumes "keyed g" "upsert_repository r g = (None, g')"
  shows "keyed g' \<and> pg_organisations g' = pg_organisations g \<and>
    repository_rows g' = {q \<in> repository_rows g. FullName q \<noteq> FullName r} \<union> {r}"
proof (cases "FullName r \<in> FullName ` repository_rows g")
  case True
  with assms(2) have "map FullName (pg_repositories g') = map FullName (pg_repositories g)"
    by (auto simp: upsert_repository_def)
  with assms(1) have "keyed g'" by (simp only: keyed_def)
  with True assms(2) show ?thesis by (auto simp: upsert_repository_def)
next
  case False
  then have "\<And>q. q \<in> repository_rows g \<Longrightarrow> FullName q \<noteq> FullName r" by (metis imageI)
  with False assms show ?thesis by (auto simp: upsert_repository_def keyed_def)
qed

lemma upsert_repositories_rows:
  assumes "keyed g" "distinct (map FullName rs)" "do_each upsert_repository rs g = (None, g')"
  shows "keyed g' \<and> pg_organisations g' = pg_organisations g \<and>
    repository_rows g' = {q \<in> repository_rows g. FullName q \<notin> FullName ` set rs} \<union> set rs"
  using assms
proof (induction rs arbitrary: g)
  case (Cons r rs)
  then obtain g1 where g1: "upsert_repository r g = (None, g1)" "do_each upsert_repository rs g1 = (None, g')"
    by (auto simp: then_do_None_iff)
  note one = upsert_repository_rows [OF Cons.prems(1) g1(1)]
  with Cons.IH [of g1] g1(2) Cons.prems(2) show ?case by auto
qed simp

lemma do_each_map: "do_each f (map h xs) s = do_each (\<lambda>x. f (h x)) xs s"
  by (induction xs arbitrary: s) (simp_all add: then_do_def split: prod.split option.split)

lemma ReplaceRepositories_rows:
  assumes "keyed g" "distinct (map FullName rs)" "Registry_ReplaceRepositories fault o' rs g = (None, g')"
  shows "keyed g' \<and> pg_organisations g' = pg_organisations g \<and>
    repository_rows g' = {q \<in> repository_rows g. Organisation q \<noteq> o' \<and> FullName q \<notin> FullName ` set rs} \<union>
      (\<lambda>r. r\<lparr>Organisation := o'\<rparr>) ` set rs"
proof -
  let ?g = "g\<lparr>pg_repositories := filter (\<lambda>r. Organisation r \<noteq> o') (pg_repositories g)\<rparr>"
  let ?rs = "map (\<lambda>r. r\<lparr>Organisation := o'\<rparr>) rs"
  have put: "do_each upsert_repository ?rs ?g = (None, g')"
    using assms(3) by (auto simp: Registry_ReplaceRepositories_def transaction_None_iff then_do_None_iff do_each_map)
  have "keyed ?g" using assms(1) by (simp add: keyed_def distinct_map_filter)
  moreover have "map FullName ?rs = map FullName rs" by simp
  with assms(2) have "distinct (map FullName ?rs)" by (simp only:)
  ultimately show ?thesis
    using upsert_repositories_rows [of ?g ?rs, OF _ _ put] by (auto simp: image_image)
qed

text \<open>The listings of a sync, by organisation, and the whole of its effect on the rows.\<close>

lemma sync_rows:
  assumes "keyed g" "distinct os"
    and "\<And>o' rs. o' \<in> set os \<Longrightarrow> listFor ufold H o' login registered = Inr rs \<Longrightarrow> distinct (map gr_FullName rs)"
    and "\<And>a b. a \<in> set os \<Longrightarrow> b \<in> set os \<Longrightarrow> a \<noteq> b \<Longrightarrow>
      FullName ` listed_under ufold H login registered a \<inter> FullName ` listed_under ufold H login registered b = {}"
    and "do_each (sync_organisation ufold H F login registered) os g = (None, g')"
  shows "keyed g' \<and> pg_organisations g' = pg_organisations g \<and>
    repository_rows g' = {q \<in> repository_rows g. Organisation q \<notin> set os \<and>
        FullName q \<notin> (\<Union>o' \<in> set os. FullName ` listed_under ufold H login registered o')} \<union>
      (\<Union>o' \<in> set os. listed_under ufold H login registered o')"
  using assms
proof (induction os arbitrary: g)
  case (Cons o' os)
  let ?L = "listed_under ufold H login registered"
  obtain g1 where one: "sync_organisation ufold H F login registered o' g = (None, g1)"
    and rest: "do_each (sync_organisation ufold H F login registered) os g1 = (None, g')"
    using Cons.prems(5) by (auto simp: then_do_None_iff)
  from one obtain rs where rs: "listFor ufold H o' login registered = Inr rs"
    and r: "Registry_ReplaceRepositories (rf_replace F o') o' (map GitHubRepository_Domain rs) g = (None, g1)"
    by (auto simp: sync_organisation_def split: sum.splits)
  have "map FullName (map GitHubRepository_Domain rs) = map gr_FullName rs"
    by (simp add: GitHubRepository_Domain_def)
  with Cons.prems(3) [of o', OF _ rs] have "distinct (map FullName (map GitHubRepository_Domain rs))"
    by (simp only: list.set_intros)
  from ReplaceRepositories_rows [OF Cons.prems(1) this r]
  have g1: "keyed g1" "pg_organisations g1 = pg_organisations g"
    "repository_rows g1 = {q \<in> repository_rows g. Organisation q \<noteq> o' \<and> FullName q \<notin> FullName ` ?L o'} \<union> ?L o'"
    by (auto simp: listed_under_def rs image_image GitHubRepository_Domain_def)
  have IH: "keyed g' \<and> pg_organisations g' = pg_organisations g1 \<and>
    repository_rows g' = {q \<in> repository_rows g1. Organisation q \<notin> set os \<and>
        FullName q \<notin> (\<Union>o' \<in> set os. FullName ` ?L o')} \<union> (\<Union>o' \<in> set os. ?L o')"
  proof (rule Cons.IH [OF g1(1) _ _ _ rest])
    show "distinct os" using Cons.prems(2) by simp
  next
    fix a rs assume "a \<in> set os" "listFor ufold H a login registered = Inr rs"
    with Cons.prems(3) [of a rs] show "distinct (map gr_FullName rs)" by simp
  next
    fix a b assume "a \<in> set os" "b \<in> set os" "a \<noteq> b"
    with Cons.prems(4) [of a b] show "FullName ` ?L a \<inter> FullName ` ?L b = {}" by simp
  qed
  have apart: "q \<in> ?L o' \<Longrightarrow> Organisation q \<notin> set os \<and> FullName q \<notin> (\<Union>o' \<in> set os. FullName ` ?L o')" for q
  proof -
    assume q: "q \<in> ?L o'"
    then have "Organisation q = o'" by (auto simp: listed_under_def split: sum.splits)
    with q Cons.prems(2) Cons.prems(4) [of o'] show ?thesis by fastforce
  qed
  note IH [THEN conjunct2, THEN conjunct2]
  also have "{q \<in> repository_rows g1. Organisation q \<notin> set os \<and> FullName q \<notin> (\<Union>o' \<in> set os. FullName ` ?L o')} =
      {q \<in> repository_rows g. Organisation q \<notin> set (o' # os) \<and> FullName q \<notin> (\<Union>o' \<in> set (o' # os). FullName ` ?L o')} \<union> ?L o'"
    unfolding g1(3) using apart by auto
  finally show ?case using IH g1(2) by auto
qed simp

lemma do_each_None: "do_each f xs s = (None, t) \<Longrightarrow> x \<in> set xs \<Longrightarrow> \<exists>s s'. f x s = (None, s')"
  by (induction xs arbitrary: s) (auto simp: then_do_None_iff)

text \<open>No two of the names are one account spelt in two ways.\<close>

definition spelt_once :: "(nat \<Rightarrow> nat) \<Rightarrow> string set \<Rightarrow> bool" where
  "spelt_once ufold names \<longleftrightarrow> (\<forall>a \<in> names. \<forall>b \<in> names. EqualFold ufold a b \<longrightarrow> a = b)"

lemma EqualFold_equivalence:
  "EqualFold ufold a b \<Longrightarrow> EqualFold ufold b a"
  "EqualFold ufold a b \<Longrightarrow> EqualFold ufold b c \<Longrightarrow> EqualFold ufold a c"
  by (simp_all add: EqualFold_def)

lemma listFor_Inr:
  "listFor ufold H o' login registered = Inr rs \<longleftrightarrow>
     (if EqualFold ufold o' login
      then \<exists>all. gh_ListUserRepositories H = Inr all \<and> rs = filter (\<lambda>r. EqualFold ufold (gr_Organisation r) login \<or>
        \<not> registeredContains ufold registered (gr_Organisation r)) all
      else gh_ListRepositories H o' = Inr rs)"
  by (auto simp: listFor_def split: sum.splits intro!: filter_cong)

lemma own_listing_apart:
  assumes H: "github_lists_owners ufold H" and b: "b \<in> set registered" "\<not> EqualFold ufold b login"
    and a: "EqualFold ufold a login"
    and "listFor ufold H a login registered = Inr rs" "listFor ufold H b login registered = Inr rs'"
    and "r \<in> set rs" "r' \<in> set rs'"
  shows "gr_FullName r \<noteq> gr_FullName r'"
proof
  assume same: "gr_FullName r = gr_FullName r'"
  from assms obtain all where all: "gh_ListUserRepositories H = Inr all" "r \<in> set all"
    and kept: "EqualFold ufold (gr_Organisation r) login \<or> \<not> registeredContains ufold registered (gr_Organisation r)"
    by (auto simp: listFor_Inr)
  from assms have rs': "gh_ListRepositories H b = Inr rs'" by (simp add: listFor_Inr)
  have "gr_Organisation r' = gr_Organisation r"
    using H all rs' same assms(8) unfolding github_lists_owners_def by metis
  moreover have "EqualFold ufold (gr_Organisation r') b"
    using H rs' assms(8) unfolding github_lists_owners_def by blast
  ultimately have owner: "EqualFold ufold (gr_Organisation r) b" by simp
  then have "registeredContains ufold registered (gr_Organisation r)"
    using b(1) EqualFold_equivalence(1) by (auto simp: registeredContains_def list_ex_iff)
  with kept have "EqualFold ufold (gr_Organisation r) login" by blast
  with owner b(2) show False using EqualFold_equivalence by blast
qed

lemma listed_names:
  "FullName ` listed_under ufold H login registered o' =
     (case listFor ufold H o' login registered of Inl _ \<Rightarrow> {} | Inr rs \<Rightarrow> gr_FullName ` set rs)"
  by (simp add: listed_under_def GitHubRepository_Domain_def image_image split: sum.split)

lemma listings_apart:
  assumes H: "github_lists_owners ufold H" and once: "spelt_once ufold (set registered)"
    and ab: "a \<in> set registered" "b \<in> set registered" "a \<noteq> b"
  shows "FullName ` listed_under ufold H login registered a \<inter> FullName ` listed_under ufold H login registered b = {}"
proof -
  have "gr_FullName r \<noteq> gr_FullName r'"
    if rs: "listFor ufold H a login registered = Inr rs" "listFor ufold H b login registered = Inr rs'"
      and r: "r \<in> set rs" "r' \<in> set rs'" for rs rs' r r'
  proof -
    have ab': "\<not> EqualFold ufold a b" using once ab by (auto simp: spelt_once_def)
    then consider "EqualFold ufold a login" "\<not> EqualFold ufold b login"
      | "EqualFold ufold b login" "\<not> EqualFold ufold a login"
      | "\<not> EqualFold ufold a login" "\<not> EqualFold ufold b login"
      using EqualFold_equivalence by blast
    then show ?thesis
    proof cases
      case 1
      show ?thesis by (rule own_listing_apart [OF H ab(2) 1(2,1) rs r])
    next
      case 2
      show ?thesis by (rule own_listing_apart [OF H ab(1) 2(2,1) rs(2,1) r(2,1), symmetric])
    next
      case 3
      with rs have l: "gh_ListRepositories H a = Inr rs" "gh_ListRepositories H b = Inr rs'"
        by (simp_all add: listFor_Inr)
      show ?thesis
      proof
        assume "gr_FullName r = gr_FullName r'"
        with H l r have "gr_Organisation r = gr_Organisation r'" unfolding github_lists_owners_def by metis
        moreover have "EqualFold ufold (gr_Organisation r) a" "EqualFold ufold (gr_Organisation r') b"
          using H l r unfolding github_lists_owners_def by blast+
        ultimately show False using ab' EqualFold_equivalence by metis
      qed
    qed
  qed
  then have "gr_FullName ` set rs \<inter> gr_FullName ` set rs' = {}"
    if "listFor ufold H a login registered = Inr rs" "listFor ufold H b login registered = Inr rs'" for rs rs'
    using that by blast
  then show ?thesis
    unfolding listed_names
    by (cases "listFor ufold H a login registered"; cases "listFor ufold H b login registered")
      (simp_all only: sum.case Int_empty_left Int_empty_right)
qed

lemma listings_distinct:
  assumes "github_lists_owners ufold H" "listFor ufold H o' login registered = Inr rs"
  shows "distinct (map gr_FullName rs)"
proof -
  have H: "gh_ListRepositories H o' = Inr all \<Longrightarrow> distinct (map gr_FullName all)"
    "gh_ListUserRepositories H = Inr all \<Longrightarrow> distinct (map gr_FullName all)" for all
    using assms(1) unfolding github_lists_owners_def by blast+
  show ?thesis
  proof (cases "EqualFold ufold o' login")
    case True
    with assms(2) obtain all P where "gh_ListUserRepositories H = Inr all" "rs = filter P all"
      by (auto simp: listFor_Inr)
    with H(2) [of all] show ?thesis by (simp add: distinct_map_filter)
  next
    case False
    with assms(2) show ?thesis by (intro H(1)) (simp add: listFor_Inr)
  qed
qed

lemma CreateOrganisation_None:
  "name \<noteq> [] \<Longrightarrow> CreateOrganisation fault name g = (None, g') \<Longrightarrow>
     set (pg_organisations g') = insert name (set (pg_organisations g)) \<and> pg_repositories g' = pg_repositories g \<and>
     (distinct (pg_organisations g) \<longrightarrow> distinct (pg_organisations g'))"
  by (auto simp: CreateOrganisation_def transaction_None_iff split: if_splits)


text \<open>An account \<open>me\<close> that reaches a repository of its own and one of the organisation \<open>acme\<close>.\<close>

definition example_repository :: "string \<Rightarrow> string \<Rightarrow> GitHubRepository" where
  "example_repository owner name = \<lparr>gr_Name = name, gr_FullName = owner @ ''/'' @ name, gr_HTTPURL = [],
     gr_SSHURL = [], gr_Organisation = owner\<rparr>"

definition example_github :: github where
  "example_github = \<lparr>gh_CurrentUser = Inr ''me'', gh_ListOrganisations = Inr [],
     gh_ListRepositories = (\<lambda>o'. Inr (if o' = ''acme'' then [example_repository ''acme'' ''api''] else [])),
     gh_ListUserRepositories = Inr [example_repository ''acme'' ''api'', example_repository ''me'' ''dot'']\<rparr>"

definition example_projects :: Projects where
  "example_projects = \<lparr>pg_organisations = [''acme''],
     pg_repositories = [GitHubRepository_Domain (example_repository ''acme'' ''old''),
       GitHubRepository_Domain (example_repository ''else'' ''kept'')],
     pg_projects = [], pg_sequence = 0\<rparr>"

definition no_faults :: registry_faults where
  "no_faults = \<lparr>rf_create = \<lambda>_. None, rf_list = None, rf_replace = \<lambda>_. None\<rparr>"

lemma example_folds:
  "EqualFold id ''me'' ''me''" "\<not> EqualFold id ''acme'' ''me''" "\<not> EqualFold id ''me'' ''acme''"
  "EqualFold id ''acme'' ''acme''"
  by code_simp+

lemma example_lists_owners: "github_lists_owners id example_github"
  using example_folds
  by (simp add: github_lists_owners_def example_github_def example_repository_def)

lemma example_sync:
  "fst (SyncRepositories_Handle id example_github no_faults example_projects) = None"
  "sort (pg_organisations (snd (SyncRepositories_Handle id example_github no_faults example_projects))) = [''acme'', ''me'']"
  by code_simp+


end
