(* ===== verification/Desk_Commands.thy ===== *)
theory Desk_Commands
  imports Store_Slots Project_Registry Agent_Registry Path_Joins
begin

text \<open>
  The commands of the interface that read or write one project's store and need no agent:
  \<open>create_epic.go\<close> with \<open>epic_repositories.go\<close>, \<open>create_issue.go\<close>, \<open>create_pull_request.go\<close>,
  \<open>add_comment.go\<close>, \<open>set_branch_prefix.go\<close>, \<open>set_agent_role.go\<close>, \<open>store_setup.go\<close>, the project's part of
  \<open>repositories.go\<close>, \<open>project_summaries.go\<close>, \<open>get_pull_request_diff.go\<close> and the plain reads. They run on
  the desk of \<open>Project_Store\<close>. The clock and the source of IDs are arguments, and every command takes
  the faults of its own calls.
\<close>

record desk_env =
  de_StoreRoot :: string
  de_json :: json_codec
  de_roles :: roles_codec

abbreviation store_of :: "desk_env \<Rightarrow> Project \<Rightarrow> Handle" where
  "store_of E project \<equiv> Factory_Open (de_StoreRoot E) (pj_Name project)"

section \<open>Commands on an epic\<close>

definition updateEpic :: "desk_env \<Rightarrow> store_faults \<Rightarrow> Project \<Rightarrow> string \<Rightarrow> Epic update \<Rightarrow> Desk update" where
  "updateEpic E F project epicID change = desk_UpdateEpic (de_json E) F (store_of E project) epicID change"

datatype CommentTarget = IssueCommentTarget | PullRequestCommentTarget | CommentTargetOther string

fun comment_target_string :: "CommentTarget \<Rightarrow> string" where
  "comment_target_string IssueCommentTarget = ''issue''"
| "comment_target_string PullRequestCommentTarget = ''pull_request''"
| "comment_target_string (CommentTargetOther s) = s"

definition add_comment ::
    "string \<Rightarrow> int \<Rightarrow> string \<Rightarrow> CommentTarget \<Rightarrow> string \<Rightarrow> string \<Rightarrow> Epic update" where
  "add_comment ulid now targetID target author body detail =
     (case CreateComment ulid now author body of
        Inl err \<Rightarrow> (Some err, detail)
      | Inr comment \<Rightarrow>
          (case target of
             IssueCommentTarget \<Rightarrow> AddIssueComment targetID comment detail
           | PullRequestCommentTarget \<Rightarrow> AddPullRequestComment targetID comment detail
           | CommentTargetOther _ \<Rightarrow>
               (Some (Errorf ''unsupported comment target %q'' [GStr (comment_target_string target)]), detail)))"

definition AddComment_Handle ::
    "desk_env \<Rightarrow> store_faults \<Rightarrow> string \<Rightarrow> int \<Rightarrow> Project \<Rightarrow> string \<Rightarrow> string \<Rightarrow> CommentTarget \<Rightarrow> string \<Rightarrow> string \<Rightarrow>
       Desk update" where
  "AddComment_Handle E F ulid now project epicID targetID target author body =
     updateEpic E F project epicID (add_comment ulid now targetID target author body)"

definition create_pull_request ::
    "string \<Rightarrow> int \<Rightarrow> string \<Rightarrow> string \<Rightarrow> string \<Rightarrow> string \<Rightarrow> string \<Rightarrow> Epic update" where
  "create_pull_request ulid now issueID title repository head base detail =
     (case CreatePullRequest ulid now issueID title repository head base of
        Inl err \<Rightarrow> (Some err, detail)
      | Inr pullRequest \<Rightarrow> AddPullRequest issueID pullRequest detail)"

definition CreatePullRequest_Handle ::
    "desk_env \<Rightarrow> store_faults \<Rightarrow> string \<Rightarrow> int \<Rightarrow> Project \<Rightarrow> string \<Rightarrow> string \<Rightarrow> string \<Rightarrow> string \<Rightarrow> string \<Rightarrow> string \<Rightarrow>
       Desk update" where
  "CreatePullRequest_Handle E F ulid now project epicID issueID title repository head base =
     updateEpic E F project epicID (create_pull_request ulid now issueID title repository head base)"

definition SetBranchPrefix_Handle :: "desk_env \<Rightarrow> store_faults \<Rightarrow> Project \<Rightarrow> string \<Rightarrow> string \<Rightarrow> Desk update" where
  "SetBranchPrefix_Handle E F project epicID raw = updateEpic E F project epicID (SetBranchPrefix raw)"

text \<open>The change of \<open>CreateIssue\<close> with the issue its closure leaves in \<open>created\<close>.\<close>

definition create_issue ::
    "string \<Rightarrow> int \<Rightarrow> string \<Rightarrow> string \<Rightarrow> string \<Rightarrow> string \<Rightarrow> Epic \<Rightarrow> (go_error + Issue) \<times> Epic" where
  "create_issue ulid now parentID title body repository detail =
     (case CreateRepositoryIssue ulid now title body repository of
        (Some err, _) \<Rightarrow> (Inl err, detail)
      | (None, issue) \<Rightarrow>
          (case (if parentID \<noteq> [] then Inr parentID
                 else case RootIssue detail of Inl err \<Rightarrow> Inl err | Inr root \<Rightarrow> Inr (i_ID root)) of
             Inl err \<Rightarrow> (Inl err, detail)
           | Inr parentID \<Rightarrow>
               (case AddIssue parentID issue detail of
                  (Some err, detail) \<Rightarrow> (Inl err, detail)
                | (None, detail) \<Rightarrow> (Inr (issue\<lparr>i_ParentID := parentID\<rparr>), detail))))"

definition forgetting :: "(Epic \<Rightarrow> (go_error + 'a) \<times> Epic) \<Rightarrow> Epic update" where
  "forgetting f detail = (case f detail of (Inl err, detail) \<Rightarrow> (Some err, detail) | (Inr _, detail) \<Rightarrow> (None, detail))"

text \<open>On success the closure has run once, on the epic as the store held it when it was opened.\<close>

definition CreateIssue_Handle ::
    "desk_env \<Rightarrow> store_faults \<Rightarrow> string \<Rightarrow> int \<Rightarrow> Project \<Rightarrow> string \<Rightarrow> string \<Rightarrow> string \<Rightarrow> string \<Rightarrow> string \<Rightarrow>
       Desk \<Rightarrow> (go_error + Issue) \<times> Desk" where
  "CreateIssue_Handle E F ulid now project epicID parentID title body repository d =
     (let change = create_issue ulid now parentID title body repository;
          held = snd (openStore F (store_of E project) d)
      in case updateEpic E F project epicID (forgetting change) d of
           (Some err, d) \<Rightarrow> (Inl err, d)
         | (None, d) \<Rightarrow>
             (case ReadEpic (de_json E) (sf_read F) epicID (tb_epics (tables_of (store_of E project) held)) of
                Inl err \<Rightarrow> (Inl err, d)
              | Inr detail \<Rightarrow> (fst (change detail), d)))"

section \<open>Creating an epic\<close>

fun resolve_loop :: "string list \<Rightarrow> string list \<Rightarrow> string list \<Rightarrow> go_error + string list" where
  "resolve_loop configured [] resolved = Inr resolved"
| "resolve_loop configured (raw # requested) resolved =
     (let repository = trim_space raw
      in if repository = [] then Inl (Errorf ''epic repository is required'' [])
         else if repository \<notin> set configured
         then Inl (Errorf ''epic repository %q is not configured for this project'' [GStr repository])
         else if repository \<in> set resolved then Inl (Errorf ''duplicate epic repository %q'' [GStr repository])
         else resolve_loop configured requested (resolved @ [repository]))"

definition resolveEpicRepositories ::
    "desk_env \<Rightarrow> store_faults \<Rightarrow> Project \<Rightarrow> string list \<Rightarrow> Desk \<Rightarrow> (go_error + string list) \<times> Desk" where
  "resolveEpicRepositories E F project requested d =
     (case Repository_Repositories F (store_of E project) d of
        (Inl err, d) \<Rightarrow> (Inl err, d)
      | (Inr configured, d) \<Rightarrow>
          (if requested = [] then
             if configured = []
             then (Inl (Errorf ''project configures no repositories to scope the epic to'' []), d)
             else (Inr configured, d)
           else (resolve_loop configured requested [], d)))"

text \<open>The ULIDs of the root issue and of the epic come first, as \<open>epic.CreateEpic\<close> draws them.\<close>

definition CreateEpic_Handle ::
    "desk_env \<Rightarrow> store_faults \<times> store_faults \<Rightarrow> string \<times> string \<Rightarrow> int \<Rightarrow> Project \<Rightarrow> string \<Rightarrow> string \<Rightarrow> string \<Rightarrow>
       string list \<Rightarrow> string \<Rightarrow> Desk \<Rightarrow> (go_error + Epic) \<times> Desk" where
  "CreateEpic_Handle E Fs ulids now project title assignee body repositories branchPrefix d =
     (case CreateEpic (fst ulids) (snd ulids) now title assignee body of
        (r, aggregate) \<Rightarrow>
          (case the r of
             Some err \<Rightarrow> (Inl err, d)
           | None \<Rightarrow>
               (case SetBranchPrefix branchPrefix aggregate of
                  (Some err, _) \<Rightarrow> (Inl err, d)
                | (None, aggregate) \<Rightarrow>
                    (case resolveEpicRepositories E (fst Fs) project repositories d of
                       (Inl err, d) \<Rightarrow> (Inl err, d)
                     | (Inr repositories, d) \<Rightarrow>
                         let aggregate = aggregate\<lparr>e_Repositories := repositories\<rparr>
                         in case desk_CreateEpic (de_json E) (snd Fs) (store_of E project) aggregate d of
                              (Some err, d) \<Rightarrow> (Inl err, d)
                            | (None, d) \<Rightarrow> (Inr aggregate, d)))))"

section \<open>Setting a project up\<close>

definition profile_of :: "AgentSettings \<Rightarrow> AgentRole \<Rightarrow> AgentProfile" where
  "profile_of settings role =
     (case as_Roles settings role of None \<Rightarrow> \<lparr>a_Agent = [], a_Variant = [], a_MaxRounds = 0\<rparr> | Some profile \<Rightarrow> profile)"

text \<open>Only the agent and its variant of a role's profile are replaced.\<close>

definition assign_role :: "string \<Rightarrow> string \<Rightarrow> AgentRole \<Rightarrow> AgentSettings \<Rightarrow> AgentSettings" where
  "assign_role agent variant role settings =
     settings\<lparr>as_Roles := (as_Roles settings)(role \<mapsto>
       (profile_of settings role)\<lparr>a_Agent := agent, a_Variant := variant\<rparr>)\<rparr>"

definition validated_settings :: "roles_codec \<Rightarrow> (AgentSettings \<Rightarrow> AgentSettings) \<Rightarrow> AgentSettings update" where
  "validated_settings R f settings =
     (AgentSettings_Validate (role_order R (as_Roles (f settings))) (f settings), f settings)"

definition SetAgentRole_Handle ::
    "desk_env \<Rightarrow> store_faults \<Rightarrow> Project \<Rightarrow> AgentRole \<Rightarrow> string \<Rightarrow> string \<Rightarrow> Desk update" where
  "SetAgentRole_Handle E F project role agent variant d =
     (let agentName = trim_space agent
      in if agentName = []
         then (Some (Errorf ''agent is required for role %q'' [GStr (agent_role_string role)]), d)
         else Repository_UpdateAgentSettings (de_roles E) F (store_of E project)
                (validated_settings (de_roles E) (assign_role agentName (trim_space variant) role)) d)"

definition StoreSetup_Handle ::
    "desk_env \<Rightarrow> store_faults \<times> store_faults \<Rightarrow> go_error option \<Rightarrow> Projects \<Rightarrow> Project \<Rightarrow> Desk \<Rightarrow>
       (go_error + SetupState) \<times> Desk" where
  "StoreSetup_Handle E Fs fault g project d =
     (if pj_Name project = [] then (Inl (Errorf ''project name is required'' []), d)
      else case Registry_ListOrganisations fault g of
        Inl err \<Rightarrow> (Inl err, d)
      | Inr organisations \<Rightarrow>
          (case Repository_Repositories (fst Fs) (store_of E project) d of
             (Inl err, d) \<Rightarrow> (Inl err, d)
           | (Inr repositories, d) \<Rightarrow>
               (case Repository_AgentSettings (de_roles E) (snd Fs) (store_of E project) d of
                  (Inl err, d) \<Rightarrow> (Inl err, d)
                | (Inr settings, d) \<Rightarrow>
                    (Inr \<lparr>Organisations = int (length organisations), Repositories = int (length repositories),
                       RolesSet = int (ConfiguredRoles settings), RolesTotal = int (length Roles)\<rparr>, d))))"

text \<open>Two writes, with faults of their own: the roles and then the linked repositories.\<close>

definition InitialiseStore_Handle ::
    "desk_env \<Rightarrow> store_faults \<times> store_faults \<Rightarrow> Project \<Rightarrow> string \<Rightarrow> string \<Rightarrow> string list \<Rightarrow> Desk update" where
  "InitialiseStore_Handle E Fs project model variant repositories d =
     (if pj_Name project = [] then (Some (Errorf ''project name is required'' []), d)
      else let model = trim_space model
      in if model = [] then (Some (Errorf ''a model is required to initialise the store'' []), d)
         else
           then_do
             (Repository_UpdateAgentSettings (de_roles E) (fst Fs) (store_of E project)
                (validated_settings (de_roles E) (fold (assign_role model (trim_space variant)) Roles)))
             (if repositories = [] then (\<lambda>d. (None, d))
              else Repository_UpdateRepositories (snd Fs) (store_of E project) repositories) d)"

definition UpdateProjectRepositories_Handle ::
    "desk_env \<Rightarrow> store_faults \<Rightarrow> Project \<Rightarrow> string list \<Rightarrow> Desk update" where
  "UpdateProjectRepositories_Handle E F project repositories d =
     (if pj_Name project = [] then (Some (Errorf ''project name is required'' []), d)
      else Repository_UpdateRepositories F (store_of E project) repositories d)"

section \<open>Reads\<close>

definition ListProjectRepositories_Handle ::
    "desk_env \<Rightarrow> store_faults \<Rightarrow> Project \<Rightarrow> Desk \<Rightarrow> (go_error + string list) \<times> Desk" where
  "ListProjectRepositories_Handle E F project = Repository_Repositories F (store_of E project)"

definition GetAgentSettings_Handle ::
    "desk_env \<Rightarrow> store_faults \<Rightarrow> Project \<Rightarrow> Desk \<Rightarrow> (go_error + AgentSettings) \<times> Desk" where
  "GetAgentSettings_Handle E F project = Repository_AgentSettings (de_roles E) F (store_of E project)"

definition GetEpic_Handle :: "desk_env \<Rightarrow> store_faults \<Rightarrow> Project \<Rightarrow> string \<Rightarrow> Desk \<Rightarrow> (go_error + Epic) \<times> Desk" where
  "GetEpic_Handle E F project epicID = Repository_ReadEpic (de_json E) F (store_of E project) epicID"

definition ListEpics_Handle :: "desk_env \<Rightarrow> store_faults \<Rightarrow> Project \<Rightarrow> Desk \<Rightarrow> (go_error + Epic list) \<times> Desk" where
  "ListEpics_Handle E F project = Repository_ListEpics (de_json E) F (store_of E project)"

definition findPullRequest :: "Epic \<Rightarrow> string \<Rightarrow> go_error + PullRequest" where
  "findPullRequest detail pullRequestID =
     (case find (\<lambda>p. p_ID p = pullRequestID) (e_PullRequests detail) of
        None \<Rightarrow> Inl (Errorf ''pull request %q not found'' [GStr pullRequestID])
      | Some pullRequest \<Rightarrow> Inr pullRequest)"

text \<open>The differ is \<open>None\<close> when the daemon has no checkouts.\<close>

definition GetPullRequestDiff_Handle ::
    "desk_env \<Rightarrow> store_faults \<Rightarrow> (string \<Rightarrow> string \<Rightarrow> string \<Rightarrow> string \<Rightarrow> go_error + string) option \<Rightarrow> Project \<Rightarrow>
       string \<Rightarrow> string \<Rightarrow> Desk \<Rightarrow> (go_error + string) \<times> Desk" where
  "GetPullRequestDiff_Handle E F differ project epicID pullRequestID d =
     (case differ of
        None \<Rightarrow> (Inl (Errorf ''no repository checkout is configured to diff against'' []), d)
      | Some diff \<Rightarrow>
          (case Repository_ReadEpic (de_json E) F (store_of E project) epicID d of
             (Inl err, d) \<Rightarrow> (Inl err, d)
           | (Inr detail, d) \<Rightarrow>
               (case findPullRequest detail pullRequestID of
                  Inl err \<Rightarrow> (Inl err, d)
                | Inr p \<Rightarrow>
                    (if p_Head p = [] \<or> p_Base p = []
                     then (Inl (Errorf ''pull request %q records no head or base branch to diff'' [GStr (p_ID p)]), d)
                     else (diff epicID (p_Repository p) (p_Base p) (p_Head p), d)))))"

record ProjectSummary =
  ps_Project :: DatedProject
  ps_Epics :: nat
  ps_Running :: nat
  ps_Err :: "go_error option"

definition isLiveRun :: "AgentRunStatus \<Rightarrow> bool" where
  "isLiveRun status \<longleftrightarrow> status = AgentRunStatusQueued \<or> status = AgentRunStatusAdmitted \<or> status = AgentRunStatusRunning"

text \<open>The registry of runs is \<open>None\<close> when the daemon has no agent runtime.\<close>

definition summarize ::
    "desk_env \<Rightarrow> store_faults \<Rightarrow> (go_error option \<times> Registry) option \<Rightarrow> DatedProject \<Rightarrow> Desk \<Rightarrow> ProjectSummary \<times> Desk" where
  "summarize E F agents project d =
     (let summary = \<lparr>ps_Project = project, ps_Epics = 0, ps_Running = 0, ps_Err = None\<rparr>
      in case Repository_ListEpics (de_json E) F (Factory_Open (de_StoreRoot E) (pj_Name project)) d of
           (Inl err, d) \<Rightarrow> (summary\<lparr>ps_Err := Some err\<rparr>, d)
         | (Inr epics, d) \<Rightarrow>
             (let summary = summary\<lparr>ps_Epics := length epics\<rparr>
              in case agents of
                   None \<Rightarrow> (summary, d)
                 | Some (fault, g) \<Rightarrow>
                     (case Registry_ListProjectAgentRuns fault (pj_ID project) g of
                        Inl err \<Rightarrow> (summary\<lparr>ps_Err := Some err\<rparr>, d)
                      | Inr runs \<Rightarrow>
                          (summary\<lparr>ps_Running := length (filter (\<lambda>run. isLiveRun (r_Status run)) runs)\<rparr>, d))))"

fun summarize_each ::
    "desk_env \<Rightarrow> (nat \<Rightarrow> store_faults) \<Rightarrow> (go_error option \<times> Registry) option \<Rightarrow> DatedProject list \<Rightarrow>
       ProjectSummary list \<Rightarrow> Desk \<Rightarrow> ProjectSummary list \<times> Desk" where
  "summarize_each E F agents [] summaries d = (summaries, d)"
| "summarize_each E F agents (project # projects) summaries d =
     (case summarize E (F (pj_ID project)) agents project d of
        (summary, d) \<Rightarrow> summarize_each E F agents projects (summaries @ [summary]) d)"

definition ListProjectSummaries_Handle ::
    "desk_env \<Rightarrow> (nat \<Rightarrow> store_faults) \<Rightarrow> (go_error option \<times> Registry) option \<Rightarrow> go_error option \<Rightarrow> Projects \<Rightarrow>
       Desk \<Rightarrow> (go_error + ProjectSummary list) \<times> Desk" where
  "ListProjectSummaries_Handle E F agents fault g d =
     (case Registry_List fault g of
        Inl err \<Rightarrow> (Inl err, d)
      | Inr projects \<Rightarrow> (case summarize_each E F agents projects [] d of (summaries, d) \<Rightarrow> (Inr summaries, d)))"

definition ListAgentRuns_Handle :: "go_error option \<Rightarrow> nat \<Rightarrow> Registry \<Rightarrow> go_error + AgentRun list" where
  "ListAgentRuns_Handle = Registry_ListProjectAgentRuns"

definition GetAgentRun_Handle :: "go_error option \<Rightarrow> string \<Rightarrow> Registry \<Rightarrow> go_error + AgentRun" where
  "GetAgentRun_Handle = Registry_GetAgentRun"

definition ListSandboxes_Handle :: "go_error option \<Rightarrow> nat \<Rightarrow> Registry \<Rightarrow> go_error + Sandbox list" where
  "ListSandboxes_Handle = Registry_ListSandboxes"

end
