(* ===== verification/Desk_Safety.thy ===== *)
theory Desk_Safety
  imports Desk_Commands
begin

text \<open>
  What a command on one project may do to the stores on the desk: it stays in the file of its own
  project, it opens an existing store without changing it, and all but one command change it all or
  not at all. \<open>InitialiseStore\<close> is the one.
\<close>

section \<open>Changes of a store\<close>

definition desk_ok :: "Desk \<Rightarrow> bool" where
  "desk_ok d \<longleftrightarrow> (\<forall>path t. dk_files d path = Some t \<longrightarrow> tables_ok t) \<and>
     (\<forall>r \<in> dk_live d. \<exists>t. dk_files d (h_StorePath r) = Some t \<and> tb_metadata t \<noteq> None)"

text \<open>A store that has been opened before: its file is there and names its project.\<close>

definition has_store :: "Handle \<Rightarrow> Desk \<Rightarrow> bool" where
  "has_store r d \<longleftrightarrow> (\<exists>t. dk_files d (h_StorePath r) = Some t \<and> tb_metadata t \<noteq> None)"

text \<open>The database never reports a failure of its own as \<open>os.ErrNotExist\<close>.\<close>

definition plain_faults :: "store_faults \<Rightarrow> bool" where
  "plain_faults F \<longleftrightarrow> (\<forall>err. sf_meta_read F = Some err \<longrightarrow> \<not> errors_is err ''file does not exist'')"

definition sound_change :: "Tables update \<Rightarrow> bool" where
  "sound_change f \<longleftrightarrow> atomic f \<and>
     (\<forall>t t'. tables_ok t \<longrightarrow> f t = (None, t') \<longrightarrow> tables_ok t' \<and> (tb_metadata t \<noteq> None \<longrightarrow> tb_metadata t' \<noteq> None))"

named_theorems sound_changes

lemma sound_changeI:
  "(\<And>t err t'. f t = (Some err, t') \<Longrightarrow> t' = t) \<Longrightarrow>
   (\<And>t t'. tables_ok t \<Longrightarrow> f t = (None, t') \<Longrightarrow> tables_ok t' \<and> (tb_metadata t \<noteq> None \<longrightarrow> tb_metadata t' \<noteq> None)) \<Longrightarrow>
   sound_change f"
  by (auto simp: sound_change_def intro: atomicI)

lemma sound_change_write [sound_changes]: "sound_change (apply_write J R (fault, w))"
proof (rule sound_changeI)
  show "apply_write J R (fault, w) t = (Some err, t') \<Longrightarrow> t' = t" for t err t'
    by (rule store_write_refused)
next
  fix t t' assume "tables_ok t" "apply_write J R (fault, w) t = (None, t')"
  then show "tables_ok t' \<and> (tb_metadata t \<noteq> None \<longrightarrow> tb_metadata t' \<noteq> None)"
    using store_write_ok [of t J R fault w t'] by (cases w) (auto simp: accepted_iff)
qed

lemmas sound_writes [sound_changes] =
  sound_change_write [of _ _ _ "StoreProject _", simplified] sound_change_write [of _ _ _ "StoreLinks _", simplified]
  sound_change_write [of _ _ _ "StoreAgents _", simplified] sound_change_write [of _ _ _ "StoreEpic _", simplified]

text \<open>A change that reads first and then refuses or writes.\<close>

lemma sound_change_choose:
  assumes "\<And>t. (\<exists>err. f t = (Some err, t)) \<or> (\<exists>g. sound_change g \<and> f t = g t)"
  shows "sound_change f"
proof (rule sound_changeI)
  show "t' = t" if "f t = (Some err, t')" for t err t'
    using assms [of t]
  proof (elim disjE exE conjE)
    fix g assume "sound_change g" "f t = g t"
    with that show ?thesis using atomicD [of g t err t'] by (simp add: sound_change_def)
  qed (use that in simp)
next
  show "tables_ok t \<Longrightarrow> f t = (None, t') \<Longrightarrow> tables_ok t' \<and> (tb_metadata t \<noteq> None \<longrightarrow> tb_metadata t' \<noteq> None)" for t t'
    using assms [of t] by (auto simp: sound_change_def)
qed

lemma sound_UpdateAgentSettings [sound_changes]:
  "sound_change (\<lambda>t. case Store_AgentSettings R fault t of
     Inl err \<Rightarrow> (Some err, t)
   | Inr settings \<Rightarrow>
       (case change settings of (Some err, _) \<Rightarrow> (Some err, t)
        | (None, settings) \<Rightarrow> WriteAgentSettings R fault' settings t))"
  by (rule sound_change_choose) (auto intro: sound_changes split: sum.split prod.split option.split)

lemma sound_UpdateEpic [sound_changes]: "sound_change (on_epics (UpdateEpic J faults id' change))"
proof (rule sound_change_choose)
  fix t
  show "(\<exists>err. on_epics (UpdateEpic J faults id' change) t = (Some err, t)) \<or>
      (\<exists>g. sound_change g \<and> on_epics (UpdateEpic J faults id' change) t = g t)"
  proof (cases "ReadEpic J (fst faults) id' (tb_epics t)")
    case (Inl err)
    then show ?thesis by (auto simp: on_epics_def UpdateEpic_def)
  next
    case (Inr e)
    show ?thesis
    proof (cases "fst (change e)")
      case None
      then have "on_epics (UpdateEpic J faults id' change) t = on_epics (WriteEpic J (snd faults) (snd (change e))) t"
        using Inr by (cases "change e") (simp add: on_epics_def UpdateEpic_def)
      then show ?thesis using sound_writes(4) by blast
    next
      case (Some err)
      with Inr show ?thesis by (cases "change e") (auto simp: on_epics_def UpdateEpic_def)
    qed
  qed
qed

section \<open>Opening a store\<close>

lemma ReadProject_ok:
  "tables_ok t \<Longrightarrow> ReadProject fault t =
     (case fault of Some err \<Rightarrow> Inl err | None \<Rightarrow>
        (case tb_metadata t of None \<Rightarrow> Inl ErrNotExist
         | Some name \<Rightarrow> Inr \<lparr>j_Name = name, j_Repositories = sort (tb_repositories t)\<rparr>))"
  using validateRepositories_sort [of "tb_repositories t", THEN iffD2]
  by (auto simp: ReadProject_def tables_ok_def readRepositories_valid validateProject_def split: option.splits)

lemma ensureProject_cases:
  assumes "tables_ok t" "plain_faults F" "ensureProject F r t = (e, t')"
  shows "tables_ok t' \<and> (tb_metadata t \<noteq> None \<longrightarrow> t' = t) \<and> (e \<noteq> None \<longrightarrow> t' = t) \<and> (e = None \<longrightarrow> tb_metadata t' \<noteq> None)"
proof (cases "sf_meta_read F = None \<and> tb_metadata t = None")
  case True
  with assms have w: "WriteProject (sf_meta_write F) \<lparr>j_Name = h_Name r, j_Repositories = []\<rparr> t = (e, t')"
    by (simp add: ensureProject_def ReadProject_ok ErrNotExist_def)
  show ?thesis
  proof (cases e)
    case None
    with w assms(1) sound_writes(1) [of "sf_meta_write F"] have "tables_ok t'" by (auto simp: sound_change_def)
    with None w True show ?thesis by (auto simp: WriteProject_None)
  next
    case (Some err)
    with w sound_writes(1) have "t' = t" by (auto simp: sound_change_def dest: atomicD)
    with Some True assms(1) show ?thesis by simp
  qed
next
  case False
  then show ?thesis
    using assms by (auto simp: ensureProject_def ReadProject_ok plain_faults_def split: option.splits)
qed

lemma desk_okI:
  assumes "desk_ok d" "tables_ok t" "\<And>r'. r' \<in> dk_live d \<Longrightarrow> h_StorePath r' = path \<Longrightarrow> tb_metadata t \<noteq> None"
  shows "desk_ok (d\<lparr>dk_files := (dk_files d)(path \<mapsto> t)\<rparr>)"
  using assms by (auto simp: desk_ok_def)

lemma tables_of_ok: "desk_ok d \<Longrightarrow> tables_ok (tables_of r d)"
  by (auto simp: desk_ok_def tables_of_def fresh_tables_ok split: option.split)

text \<open>What every step on the desk keeps, for the handle it works with.\<close>

definition stays :: "Handle \<Rightarrow> Desk \<Rightarrow> Desk \<Rightarrow> bool" where
  "stays r d d' \<longleftrightarrow> desk_ok d' \<and> (\<forall>path. path \<noteq> h_StorePath r \<longrightarrow> dk_files d' path = dk_files d path) \<and>
     (has_store r d \<longrightarrow> has_store r d')"

lemma stays_refl: "desk_ok d \<Longrightarrow> stays r d d"
  by (simp add: stays_def)

lemma stays_trans: "stays r d1 d2 \<Longrightarrow> stays r d2 d3 \<Longrightarrow> stays r d1 d3"
  by (simp add: stays_def)

lemma stays_ok: "stays r d d' \<Longrightarrow> desk_ok d'"
  by (simp add: stays_def)

lemma at_file_stays:
  assumes "desk_ok d" "sound_change f" "at_file r f d = (e, d')" "has_store r d"
  shows "stays r d d' \<and> (e \<noteq> None \<longrightarrow> dk_files d' = dk_files d)"
proof -
  from assms(4) obtain t where t: "dk_files d (h_StorePath r) = Some t" "tb_metadata t \<noteq> None"
    by (auto simp: has_store_def)
  obtain t' where t': "f t = (e, t')" "d' = d\<lparr>dk_files := (dk_files d)(h_StorePath r \<mapsto> t')\<rparr>"
    using assms(3) t by (auto simp: at_file_def tables_of_def split: prod.splits)
  have ok: "tables_ok t" using assms(1) t by (auto simp: desk_ok_def)
  show ?thesis
  proof (cases e)
    case None
    with assms(2) ok t t' have "tables_ok t'" "tb_metadata t' \<noteq> None" by (auto simp: sound_change_def)
    then show ?thesis
      using desk_okI [OF assms(1)] None t' by (auto simp: stays_def has_store_def)
  next
    case (Some err)
    with assms(2) t' have "t' = t" by (auto simp: sound_change_def dest: atomicD)
    with t t' have "dk_files d' = dk_files d" "dk_live d' = dk_live d" by auto
    with assms(1) show ?thesis by (auto simp: stays_def desk_ok_def has_store_def)
  qed
qed

lemma openStore_stays:
  assumes ok: "desk_ok d" and F: "plain_faults F" and e: "openStore F r d = (e, d')"
  shows "stays r d d' \<and> (has_store r d \<longrightarrow> dk_files d' = dk_files d) \<and> (e = None \<longrightarrow> r \<in> dk_live d' \<and> has_store r d')"
proof (cases "r \<in> dk_live d \<or> sf_mkdir F \<noteq> None \<or> sf_open F \<noteq> None")
  case True
  have "r \<in> dk_live d \<Longrightarrow> has_store r d" using ok by (auto simp: desk_ok_def has_store_def)
  with True e ok show ?thesis
    by (cases "sf_mkdir F"; cases "sf_open F")
      (auto simp: openStore_def OpenStore_def then_do_def stays_def eq_commute [of "Some _" "sf_open F"] split: if_splits)
next
  case False
  define d1 where "d1 = (case dk_files d (h_StorePath r) of
      None \<Rightarrow> d\<lparr>dk_files := (dk_files d)(h_StorePath r \<mapsto> fresh_tables)\<rparr> | Some _ \<Rightarrow> d)"
  obtain t where t: "dk_files d1 (h_StorePath r) = Some t" and live: "dk_live d1 = dk_live d"
    and other: "\<And>path. path \<noteq> h_StorePath r \<Longrightarrow> dk_files d1 path = dk_files d path"
    and old: "has_store r d \<Longrightarrow> dk_files d1 = dk_files d \<and> tb_metadata t \<noteq> None"
  proof (cases "dk_files d (h_StorePath r)")
    case None
    then show ?thesis by (intro that [of fresh_tables]) (auto simp: d1_def has_store_def)
  next
    case (Some t)
    then show ?thesis by (intro that [of t]) (auto simp: d1_def has_store_def)
  qed
  have d1: "desk_ok d1"
  proof (cases "dk_files d (h_StorePath r)")
    case None
    have "desk_ok (d\<lparr>dk_files := (dk_files d)(h_StorePath r \<mapsto> fresh_tables)\<rparr>)"
    proof (rule desk_okI [OF ok fresh_tables_ok])
      fix r' assume "r' \<in> dk_live d" "h_StorePath r' = h_StorePath r"
      with ok None show "tb_metadata fresh_tables \<noteq> None" unfolding desk_ok_def by fastforce
    qed
    with None show ?thesis by (simp add: d1_def)
  qed (simp add: d1_def ok)
  obtain e' t' where en: "ensureProject F r t = (e', t')" by (metis surj_pair)
  have "tables_ok t" using d1 t by (auto simp: desk_ok_def)
  note en' = ensureProject_cases [OF this F en]
  have d': "e = e'" "dk_files d' = (dk_files d1)(h_StorePath r \<mapsto> t')"
    "dk_live d' = (if e' = None then insert r (dk_live d) else dk_live d)"
    using e False en t live
    by (auto simp: openStore_def OpenStore_def then_do_def at_file_def tables_of_def d1_def
        split: option.splits prod.splits)
  have kept: "has_store r d \<Longrightarrow> dk_files d' = dk_files d" using old en' d'(2) t by auto
  have "tb_metadata t' \<noteq> None" if "tb_metadata t \<noteq> None \<or> e' = None" using that en' by auto
  moreover have "tb_metadata t \<noteq> None" if "r' \<in> dk_live d" "h_StorePath r' = h_StorePath r" for r'
    using that d1 t live by (fastforce simp: desk_ok_def)
  ultimately have "desk_ok d'"
    using d1 en' d' live by (auto simp: desk_ok_def split: if_splits)
  then show ?thesis
    using kept other d' en' by (auto simp: stays_def has_store_def split: if_splits)
qed

section \<open>Commands\<close>

lemma mutate_stays:
  assumes "desk_ok d" "plain_faults F" "sound_change f" "Repository_mutate F r f d = (e, d')"
  shows "stays r d d' \<and> (has_store r d \<and> e \<noteq> None \<longrightarrow> dk_files d' = dk_files d)"
proof -
  obtain e1 d1 where o': "openStore F r d = (e1, d1)" by (metis surj_pair)
  note open' = openStore_stays [OF assms(1,2) o']
  show ?thesis
  proof (cases e1)
    case None
    with o' assms(4) have a: "at_file r f d1 = (e, d')" by (simp add: Repository_mutate_def then_do_def)
    have d1: "desk_ok d1" "has_store r d1" using open' None by (auto simp: stays_def)
    from at_file_stays [OF d1(1) assms(3) a d1(2)] show ?thesis
      using open' by (auto intro: stays_trans)
  next
    case (Some err)
    with o' assms(4) open' show ?thesis by (auto simp: Repository_mutate_def then_do_def)
  qed
qed

lemma reading_stays:
  assumes "desk_ok d" "plain_faults F" "reading_store F r f d = (a, d')"
  shows "stays r d d' \<and> (has_store r d \<longrightarrow> dk_files d' = dk_files d)"
proof -
  obtain e1 d1 where o': "openStore F r d = (e1, d1)" by (metis surj_pair)
  moreover have "d' = d1" using assms(3) o' by (auto simp: reading_store_def split: option.splits)
  ultimately show ?thesis using openStore_stays [OF assms(1,2) o'] by simp
qed

text \<open>The writing commands of the interface, as data: a project's name and the command's arguments.\<close>

datatype desk_command =
    DoAddComment string int string string CommentTarget string string
  | DoCreateIssue string int string string string string string
  | DoCreatePullRequest string int string string string string string string
  | DoSetBranchPrefix string string
  | DoCreateEpic "string \<times> string" int string string string "string list" string
  | DoSetAgentRole AgentRole string string
  | DoUpdateRepositories "string list"
  | DoInitialiseStore string string "string list"

definition failing :: "(go_error + 'a) \<times> Desk \<Rightarrow> go_error option \<times> Desk" where
  "failing r = (case r of (Inl err, d) \<Rightarrow> (Some err, d) | (Inr _, d) \<Rightarrow> (None, d))"

fun run_command :: "desk_env \<Rightarrow> store_faults \<times> store_faults \<Rightarrow> Project \<Rightarrow> desk_command \<Rightarrow> Desk update" where
  "run_command E Fs project (DoAddComment ulid now epicID targetID target author body) =
     AddComment_Handle E (fst Fs) ulid now project epicID targetID target author body"
| "run_command E Fs project (DoCreateIssue ulid now epicID parentID title body repository) =
     (\<lambda>d. failing (CreateIssue_Handle E (fst Fs) ulid now project epicID parentID title body repository d))"
| "run_command E Fs project (DoCreatePullRequest ulid now epicID issueID title repository head base) =
     CreatePullRequest_Handle E (fst Fs) ulid now project epicID issueID title repository head base"
| "run_command E Fs project (DoSetBranchPrefix epicID raw) = SetBranchPrefix_Handle E (fst Fs) project epicID raw"
| "run_command E Fs project (DoCreateEpic ulids now title assignee body repositories branchPrefix) =
     (\<lambda>d. failing (CreateEpic_Handle E Fs ulids now project title assignee body repositories branchPrefix d))"
| "run_command E Fs project (DoSetAgentRole role agent variant) =
     SetAgentRole_Handle E (fst Fs) project role agent variant"
| "run_command E Fs project (DoUpdateRepositories repositories) =
     UpdateProjectRepositories_Handle E (fst Fs) project repositories"
| "run_command E Fs project (DoInitialiseStore model variant repositories) =
     InitialiseStore_Handle E Fs project model variant repositories"

fun is_setup :: "desk_command \<Rightarrow> bool" where
  "is_setup (DoInitialiseStore model variant repositories) \<longleftrightarrow> True"
| "is_setup _ \<longleftrightarrow> False"

lemma updateEpic_stays:
  assumes "desk_ok d" "plain_faults F" "updateEpic E F project epicID change d = (e, d')"
  shows "stays (store_of E project) d d' \<and> (has_store (store_of E project) d \<and> e \<noteq> None \<longrightarrow> dk_files d' = dk_files d)"
  using assms(3) unfolding updateEpic_def desk_UpdateEpic_def by (rule mutate_stays [OF assms(1,2) sound_UpdateEpic])

text \<open>A successful update has read an epic and changed it.\<close>

lemma updateEpic_read:
  assumes "updateEpic E F project epicID change d = (None, d')"
  shows "\<exists>detail. ReadEpic (de_json E) (sf_read F) epicID
      (tb_epics (tables_of (store_of E project) (snd (openStore F (store_of E project) d)))) = Inr detail \<and>
    fst (change detail) = None"
proof -
  let ?r = "store_of E project"
  obtain d1 t where "openStore F ?r d = (None, d1)"
    and "UpdateEpic (de_json E) (sf_read F, sf_write F) epicID change (tb_epics (tables_of ?r d1)) = (None, t)"
    using assms by (auto simp: updateEpic_def desk_UpdateEpic_def Repository_mutate_def then_do_None_iff at_file_def
        on_epics_def split: prod.splits)
  then show ?thesis
    by (cases "ReadEpic (de_json E) (sf_read F) epicID (tb_epics (tables_of ?r d1))")
      (auto simp: UpdateEpic_def split: if_splits prod.splits option.splits)
qed

lemma CreateIssue_stays:
  assumes "desk_ok d" "plain_faults F"
    and "CreateIssue_Handle E F ulid now project epicID parentID title body repository d = (a, d')"
  shows "stays (store_of E project) d d' \<and>
    (has_store (store_of E project) d \<and> (\<exists>err. a = Inl err) \<longrightarrow> dk_files d' = dk_files d)"
proof -
  let ?change = "create_issue ulid now parentID title body repository"
  obtain e d1 where u: "updateEpic E F project epicID (forgetting ?change) d = (e, d1)" by (metis surj_pair)
  note u' = updateEpic_stays [OF assms(1,2) u]
  show ?thesis
  proof (cases e)
    case None
    obtain detail where "ReadEpic (de_json E) (sf_read F) epicID
        (tb_epics (tables_of (store_of E project) (snd (openStore F (store_of E project) d)))) = Inr detail"
      and "fst (forgetting ?change detail) = None"
      using updateEpic_read u None by blast
    with None u assms(3) have "d' = d1" "\<exists>issue. a = Inr issue"
      by (auto simp: CreateIssue_Handle_def Let_def forgetting_def split: sum.splits prod.splits)
    with u' show ?thesis by auto
  next
    case (Some err)
    with u assms(3) have "d' = d1" by (simp add: CreateIssue_Handle_def Let_def)
    with u' Some show ?thesis by simp
  qed
qed

lemma settings_stays:
  assumes "desk_ok d" "plain_faults F" "Repository_UpdateAgentSettings R F r change d = (e, d')"
  shows "stays r d d' \<and> (has_store r d \<and> e \<noteq> None \<longrightarrow> dk_files d' = dk_files d)"
  using assms(3) unfolding Repository_UpdateAgentSettings_def
  by (rule mutate_stays [OF assms(1,2) sound_UpdateAgentSettings])

lemma links_stays:
  assumes "desk_ok d" "plain_faults F" "Repository_UpdateRepositories F r rs d = (e, d')"
  shows "stays r d d' \<and> (has_store r d \<and> e \<noteq> None \<longrightarrow> dk_files d' = dk_files d)"
  using assms(3) unfolding Repository_UpdateRepositories_def
  by (rule mutate_stays [OF assms(1,2) sound_writes(2)])

lemma create_epic_stays:
  assumes "desk_ok d" "plain_faults F" "desk_CreateEpic J F r aggregate d = (e, d')"
  shows "stays r d d' \<and> (has_store r d \<and> e \<noteq> None \<longrightarrow> dk_files d' = dk_files d)"
  using assms(3) unfolding desk_CreateEpic_def Repository_CreateEpic_def
  by (rule mutate_stays [OF assms(1,2) sound_writes(4)])

lemma resolve_stays:
  assumes "desk_ok d" "plain_faults F" "resolveEpicRepositories E F project requested d = (a, d')"
  shows "stays (store_of E project) d d' \<and> (has_store (store_of E project) d \<longrightarrow> dk_files d' = dk_files d)"
proof -
  obtain b d1 where r: "Repository_Repositories F (store_of E project) d = (b, d1)" by (metis surj_pair)
  moreover have "d' = d1"
    using assms(3) r by (auto simp: resolveEpicRepositories_def split: sum.splits if_splits)
  ultimately show ?thesis using reading_stays [OF assms(1,2)] by (simp add: Repository_Repositories_def)
qed

lemma CreateEpic_stays:
  assumes "desk_ok d" "plain_faults (fst Fs)" "plain_faults (snd Fs)"
    and "CreateEpic_Handle E Fs ulids now project title assignee body rs prefix' d = (a, d')"
  shows "stays (store_of E project) d d' \<and>
    (has_store (store_of E project) d \<and> (\<exists>err. a = Inl err) \<longrightarrow> dk_files d' = dk_files d)"
proof -
  let ?r = "store_of E project"
  have refl: ?thesis if "d' = d" using that stays_refl [OF assms(1)] by simp
  obtain x e where c: "CreateEpic (fst ulids) (snd ulids) now title assignee body = (x, e)" by (metis surj_pair)
  obtain y e1 where b: "SetBranchPrefix prefix' e = (y, e1)" by (metis surj_pair)
  obtain z d1 where s: "resolveEpicRepositories E (fst Fs) project rs d = (z, d1)" by (metis surj_pair)
  note s' = resolve_stays [OF assms(1,2) s]
  show ?thesis
  proof (cases "the x = None \<and> y = None")
    case False
    with assms(4) have "d' = d" by (cases "the x"; cases y) (auto simp: CreateEpic_Handle_def c b)
    then show ?thesis by (rule refl)
  next
    case True
    show ?thesis
    proof (cases z)
      case (Inl err)
      with True assms(4) have "d' = d1" by (auto simp: CreateEpic_Handle_def c b s)
      with s' show ?thesis by simp
    next
      case (Inr repositories)
      obtain w d2 where w: "desk_CreateEpic (de_json E) (snd Fs) ?r (e1\<lparr>e_Repositories := repositories\<rparr>) d1 = (w, d2)"
        by (metis surj_pair)
      have a: "d' = d2" "(\<exists>err. a = Inl err) \<longrightarrow> w \<noteq> None"
        using True Inr assms(4) by (auto simp: CreateEpic_Handle_def c b s w split: option.splits)
      have "desk_ok d1" using s' by (simp add: stays_def)
      from create_epic_stays [OF this assms(3) w] s' a show ?thesis
        by (auto simp: stays_def has_store_def)
    qed
  qed
qed

lemma Initialise_stays:
  assumes "desk_ok d" "plain_faults (fst Fs)" "plain_faults (snd Fs)"
    and "InitialiseStore_Handle E Fs project model variant rs d = (e, d')"
  shows "stays (store_of E project) d d'"
proof -
  let ?r = "store_of E project"
  let ?change = "validated_settings (de_roles E) (fold (assign_role (trim_space model) (trim_space variant)) Roles)"
  obtain e1 d1 where u: "Repository_UpdateAgentSettings (de_roles E) (fst Fs) ?r ?change d = (e1, d1)"
    by (metis surj_pair)
  note u' = settings_stays [OF assms(1,2) u]
  consider "d' = d" | "d' = d1" | "Repository_UpdateRepositories (snd Fs) ?r rs d1 = (e, d')"
    using assms(4) u by (cases e1) (auto simp: InitialiseStore_Handle_def then_do_def Let_def split: if_splits)
  then show ?thesis
  proof cases
    case 3
    have "desk_ok d1" using u' by (simp add: stays_def)
    from links_stays [OF this assms(3) 3] u' show ?thesis by (auto intro: stays_trans)
  qed (use u' assms(1) stays_refl in auto)
qed

lemma run_command_stays:
  assumes "desk_ok d" "plain_faults (fst Fs)" "plain_faults (snd Fs)"
    and "run_command E Fs project c d = (e, d')"
  shows "stays (store_of E project) d d' \<and>
    (\<not> is_setup c \<and> has_store (store_of E project) d \<and> e \<noteq> None \<longrightarrow> dk_files d' = dk_files d)"
proof (cases c)
  case (DoCreateIssue ulid now epicID parentID title body repository)
  obtain a d1 where a: "CreateIssue_Handle E (fst Fs) ulid now project epicID parentID title body repository d = (a, d1)"
    by (metis surj_pair)
  with assms(4) DoCreateIssue have "d' = d1" "e \<noteq> None \<longrightarrow> (\<exists>err. a = Inl err)"
    by (auto simp: failing_def split: sum.splits)
  with CreateIssue_stays [OF assms(1,2) a] show ?thesis by blast
next
  case (DoCreateEpic ulids now title assignee body rs prefix')
  obtain a d1 where a: "CreateEpic_Handle E Fs ulids now project title assignee body rs prefix' d = (a, d1)"
    by (metis surj_pair)
  with assms(4) DoCreateEpic have "d' = d1" "e \<noteq> None \<longrightarrow> (\<exists>err. a = Inl err)"
    by (auto simp: failing_def split: sum.splits)
  with CreateEpic_stays [OF assms(1-3) a] show ?thesis by blast
next
  case (DoSetAgentRole role agent variant)
  with assms show ?thesis
    using settings_stays [OF assms(1,2)] stays_refl [OF assms(1)]
    by (auto simp: SetAgentRole_Handle_def Let_def split: if_splits)
next
  case (DoUpdateRepositories rs)
  with assms show ?thesis
    using links_stays [OF assms(1,2)] stays_refl [OF assms(1)]
    by (auto simp: UpdateProjectRepositories_Handle_def split: if_splits)
next
  case (DoInitialiseStore model variant rs)
  with assms Initialise_stays [OF assms(1-3)] show ?thesis by auto
qed (use assms updateEpic_stays [OF assms(1,2)] in
    \<open>simp_all add: AddComment_Handle_def CreatePullRequest_Handle_def SetBranchPrefix_Handle_def\<close>)

section \<open>Projects apart\<close>

lemma project_name_bare: "projectNamePattern name \<Longrightarrow> bare name"
  by (auto simp: projectNamePattern_def bare_def project_name_char_def list_all_iff in_range_def byte_def)

lemma storePath_inj:
  assumes "projectNamePattern a" "projectNamePattern b" "storePath root a = storePath root b"
  shows "a = b"
proof -
  have "bare ''store.sqlite''" by (simp add: bare_def)
  with Join_under_inj [of "[a, ''store.sqlite'']" "[b, ''store.sqlite'']" root] assms show ?thesis
    by (simp add: storePath_def project_name_bare)
qed

text \<open>C10. A command stays in its own project and is all or nothing. Take a sound desk, two projects with
  different names of the form that creating a project accepts, any of the commands that write a store
  (comments, issues, pull request records, branch prefixes, epics, roles, linked repositories, setup)
  on the first, and any faults of the disk and the database, provided that the database never reports
  one of its own as a missing file. The desk stays sound and the other project's store is as it was. If
  the project had a store and the command reports an error, no store changed at all: an epic is not
  half written and opening a store again never rewrites the name and the links it holds. Setup is the
  one exception.\<close>

theorem commands_keep_to_their_project:
  assumes "desk_ok d" "plain_faults (fst Fs)" "plain_faults (snd Fs)"
    and "projectNamePattern (pj_Name project)" "projectNamePattern other" "other \<noteq> pj_Name project"
    and "run_command E Fs project c d = (e, d')"
  shows "desk_ok d' \<and>
    dk_files d' (storePath (de_StoreRoot E) other) = dk_files d (storePath (de_StoreRoot E) other) \<and>
    (has_store (store_of E project) d \<and> e \<noteq> None \<and> \<not> is_setup c \<longrightarrow> dk_files d' = dk_files d)"
proof -
  have "storePath (de_StoreRoot E) other \<noteq> h_StorePath (store_of E project)"
    using storePath_inj [OF assms(5,4)] assms(6) by (auto simp: Factory_Open_def OpenRepository_def)
  with run_command_stays [OF assms(1-3,7)] show ?thesis by (auto simp: stays_def)
qed

section \<open>Setup\<close>

lemma assign_roles:
  "distinct roles \<Longrightarrow> as_SetupScript (fold (assign_role m v) roles s) = as_SetupScript s \<and>
     as_Roles (fold (assign_role m v) roles s) role =
       (if role \<in> set roles then Some ((profile_of s role)\<lparr>a_Agent := m, a_Variant := v\<rparr>) else as_Roles s role)"
  by (induction roles arbitrary: s) (auto simp: assign_role_def profile_of_def)

lemma read_settings_valid:
  assumes "Store_AgentSettings R None t = Inr s" "set (role_order R (as_Roles s)) = dom (as_Roles s)"
  shows "roles_ok (as_Roles s) \<and> (as_SetupScript s \<noteq> [] \<longrightarrow> validatePath (as_SetupScript s) = None)"
proof (cases "tb_agent_settings t")
  case None
  with assms show ?thesis by (auto simp: slot_readers roles_ok_def)
next
  case (Some r)
  with assms(1) have "validateAgentSettings R s = None"
    by (auto simp: slot_readers record_agentSettings_def Let_def split: sum.splits option.splits)
  then show ?thesis
    using role_checks_None [OF assms(2)]
    by (auto simp: validateAgentSettings_def AgentSettings_Validate_def split: option.splits if_splits)
qed

text \<open>The settings that setup leaves: every role with the model, its round limit as it was.\<close>

abbreviation settled :: "string \<Rightarrow> string \<Rightarrow> AgentSettings \<Rightarrow> AgentSettings" where
  "settled model variant \<equiv> fold (assign_role (trim_space model) (trim_space variant)) Roles"

lemma distinct_Roles: "distinct Roles"
  by (simp add: Roles_def)

lemma settled_valid:
  assumes "roles_ok (as_Roles s)" "as_SetupScript s \<noteq> [] \<longrightarrow> validatePath (as_SetupScript s) = None"
    and "trim_space model \<noteq> []"
    and "set (role_order R (as_Roles (settled model variant s))) = dom (as_Roles (settled model variant s))"
  shows "AgentSettings_Validate (role_order R (as_Roles (settled model variant s))) (settled model variant s) = None \<and>
    validateAgentSettings R (settled model variant s) = None"
proof -
  note a = assign_roles [OF distinct_Roles, of "trim_space model" "trim_space variant" s]
  have "roles_ok (as_Roles (settled model variant s))"
    using assms(1,3) by (auto simp: roles_ok_def a profile_of_def split: if_splits option.splits)
  with role_checks_None [OF assms(4), of "''agent''"]
  have "AgentSettings_Validate (role_order R (as_Roles (settled model variant s))) (settled model variant s) = None"
    by (simp add: AgentSettings_Validate_def)
  with assms(2) show ?thesis by (simp add: validateAgentSettings_def a)
qed

text \<open>C11. A refused setup is half done. Where a project's store is open and nothing fails on the disk,
  initialise it with a model and with a selection of repositories that validation refuses. The command
  reports the refusal, and yet the model is assigned to every role: the settings read back with the
  model and its variant everywhere and each role's round limit as it was. The linked repositories stay
  as they were. (The comment in the handler says that the selection is checked before the roles are
  written, so that a refused one leaves the store untouched; no such check is made.)\<close>

theorem refused_setup_assigns_the_roles:
  assumes "store_of E project \<in> dk_live d" "pj_Name project \<noteq> []" "trim_space model \<noteq> []"
    and faults: "\<forall>F \<in> {fst Fs, snd Fs}. sf_read F = None \<and> sf_write F = None"
    and settings: "Store_AgentSettings (de_roles E) None (tables_of (store_of E project) d) = Inr s"
    and order: "\<forall>t \<in> {s, settled model variant s}. set (role_order (de_roles E) (as_Roles t)) = dom (as_Roles t)"
    and codec: "encodable J (de_roles E) (StoreAgents (settled model variant s))"
    and refused: "validateRepositories repositories = Some err" "repositories \<noteq> []"
  shows "\<exists>d'. InitialiseStore_Handle E Fs project model variant repositories d = (Some err, d') \<and>
    Store_AgentSettings (de_roles E) None (tables_of (store_of E project) d') = Inr (settled model variant s) \<and>
    (\<forall>role \<in> set Roles. Profile (settled model variant s) role =
       Inr \<lparr>a_Agent = trim_space model, a_Variant = trim_space variant, a_MaxRounds = a_MaxRounds (profile_of s role)\<rparr>) \<and>
    Store_Repositories None (tables_of (store_of E project) d') =
      Store_Repositories None (tables_of (store_of E project) d)"
proof -
  let ?r = "store_of E project" let ?R = "de_roles E" let ?s = "settled model variant s"
  let ?t = "(tables_of ?r d)\<lparr>tb_agent_settings := Some (settingsRecordFrom ?R (as_SetupScript ?s) (as_Roles ?s))\<rparr>"
  let ?d = "d\<lparr>dk_files := (dk_files d)(h_StorePath ?r \<mapsto> ?t)\<rparr>"
  have "roles_ok (as_Roles s)" "as_SetupScript s \<noteq> [] \<longrightarrow> validatePath (as_SetupScript s) = None"
    using read_settings_valid [OF settings] order by auto
  from settled_valid [OF this assms(3)] order
  have valid: "AgentSettings_Validate (role_order ?R (as_Roles ?s)) ?s = None" "validateAgentSettings ?R ?s = None"
    by auto
  have t: "tables_of ?r ?d = ?t" by (simp add: tables_of_def)
  have "WriteAgentSettings ?R None ?s (tables_of ?r d) = (None, ?t)"
    using valid(2) by (simp add: WriteAgentSettings_None)
  then have "Repository_UpdateAgentSettings ?R (fst Fs) ?r (validated_settings ?R (settled model variant)) d = (None, ?d)"
    using assms(1) faults settings valid(1)
    by (simp add: Repository_UpdateAgentSettings_def Repository_mutate_def then_do_def openStore_def at_file_def
      validated_settings_def)
  moreover have "Repository_UpdateRepositories (snd Fs) ?r repositories ?d = (Some err, ?d)"
    using assms(1) refused(1)
    by (simp add: Repository_UpdateRepositories_def Repository_mutate_def then_do_def openStore_def at_file_def
      ReplaceRepositories_def t)
  ultimately have "InitialiseStore_Handle E Fs project model variant repositories d = (Some err, ?d)"
    using assms(2,3) refused(2) by (simp add: InitialiseStore_Handle_def then_do_def Let_def)
  moreover have "Store_AgentSettings ?R None (tables_of ?r ?d) = Inr ?s"
    unfolding t slot_readers using written_agents [OF valid(2) codec] by simp
  moreover have "Profile ?s role = Inr \<lparr>a_Agent = trim_space model, a_Variant = trim_space variant,
      a_MaxRounds = a_MaxRounds (profile_of s role)\<rparr>" if "role \<in> set Roles" for role
    using that assms(3) assign_roles [OF distinct_Roles, of "trim_space model" "trim_space variant" s role]
    by (cases "profile_of s role") (simp add: Profile_def)
  moreover have "Store_Repositories None (tables_of ?r ?d) = Store_Repositories None (tables_of ?r d)"
    by (simp add: t Store_Repositories_def readRepositories_def)
  ultimately show ?thesis by blast
qed

section \<open>An example\<close>

text \<open>The open store of a project \<open>demo\<close> that has a name and nothing else.\<close>

definition calm :: store_faults where
  "calm = \<lparr>sf_mkdir = None, sf_open = None, sf_meta_read = None, sf_meta_write = None, sf_read = None, sf_write = None\<rparr>"

definition demo :: Project where
  "demo = \<lparr>pj_ID = 1, pj_Name = ''demo''\<rparr>"

text \<open>A codec that knows one role table.\<close>

definition demo_env :: desk_env where
  "demo_env = \<lparr>de_StoreRoot = ''/s'', de_json = example_codec,
     de_roles = \<lparr>marshal_roles = \<lambda>_. [],
       unmarshal_roles = \<lambda>_. Inr (as_Roles (settled ''m'' [] \<lparr>as_SetupScript = [], as_Roles = Map.empty\<rparr>)),
       role_order = \<lambda>roles. filter (\<lambda>role. roles role \<noteq> None) Roles\<rparr>\<rparr>"

definition demo_tables :: Tables where
  "demo_tables = fresh_tables\<lparr>tb_metadata := Some ''demo''\<rparr>"

definition demo_desk :: Desk where
  "demo_desk = \<lparr>dk_files = [h_StorePath (store_of demo_env demo) \<mapsto> demo_tables], dk_live = {store_of demo_env demo}\<rparr>"

lemma demo_tables_of: "tables_of (store_of demo_env demo) demo_desk = demo_tables"
  by (simp add: tables_of_def demo_desk_def)

lemma demo_desk_ok: "desk_ok demo_desk" "has_store (store_of demo_env demo) demo_desk" "plain_faults calm"
proof -
  have "tables_ok demo_tables" using fresh_tables_ok example_validation(6) by (simp add: tables_ok_def demo_tables_def)
  then show "desk_ok demo_desk" "has_store (store_of demo_env demo) demo_desk"
    by (simp_all add: desk_ok_def has_store_def demo_desk_def demo_tables_def)
  show "plain_faults calm" by (simp add: plain_faults_def calm_def)
qed

lemma demo_names: "projectNamePattern ''demo''" "projectNamePattern ''else''"
  by (simp_all add: projectNamePattern_def project_name_char_def byte_def in_range_def)

lemma commands_keep_to_their_project_witness:
  "\<exists>err d'. run_command demo_env (calm, calm) demo (DoUpdateRepositories [''a/b/c'']) demo_desk = (Some err, d') \<and>
     desk_ok d' \<and> dk_files d' = dk_files demo_desk"
proof -
  obtain err where err: "validateRepositories [''a/b/c''] = Some err" using example_validation(4) by auto
  obtain d' where run: "run_command demo_env (calm, calm) demo (DoUpdateRepositories [''a/b/c'']) demo_desk = (Some err, d')"
    by (simp add: UpdateProjectRepositories_Handle_def demo_def Repository_UpdateRepositories_def Repository_mutate_def
      then_do_def openStore_def demo_desk_def at_file_def ReplaceRepositories_def err)
  have "plain_faults (fst (calm, calm))" "plain_faults (snd (calm, calm))" by (simp_all add: demo_desk_ok)
  from commands_keep_to_their_project [OF demo_desk_ok(1) this _ demo_names(2) _ run]
  show ?thesis using run demo_desk_ok(2) demo_names(1) by (simp add: demo_def)
qed

lemma refused_setup_assigns_the_roles_witness:
  "\<exists>err d' s. InitialiseStore_Handle demo_env (calm, calm) demo ''m'' [] [''a/b/c''] demo_desk = (Some err, d') \<and>
     Store_AgentSettings (de_roles demo_env) None (tables_of (store_of demo_env demo) d') = Inr s \<and>
     Profile s AgentRoleCoding = Inr \<lparr>a_Agent = ''m'', a_Variant = [], a_MaxRounds = 0\<rparr>"
proof -
  let ?z = "\<lparr>as_SetupScript = [], as_Roles = Map.empty\<rparr>"
  have m: "trim_space ''m'' = ''m''" by (intro trim_space_solid; simp add: byte_def is_space_def in_range_def)
  obtain err where err: "validateRepositories [''a/b/c''] = Some err" using example_validation(4) by auto
  have "Store_AgentSettings (de_roles demo_env) None (tables_of (store_of demo_env demo) demo_desk) = Inr ?z"
    by (simp add: demo_tables_of slot_readers demo_tables_def fresh_tables_def)
  note run = refused_setup_assigns_the_roles [of demo_env demo demo_desk "''m''" "(calm, calm)" ?z "[]" example_codec
      "[''a/b/c'']" err, OF _ _ _ _ this _ _ err]
  have order: "set (role_order (de_roles demo_env) (as_Roles t)) = dom (as_Roles t)"
    if "t \<in> {?z, settled ''m'' [] ?z}" for t
    using that assign_roles [OF distinct_Roles, of "trim_space ''m''" "trim_space []" ?z]
    by (auto simp: demo_env_def split: if_splits)
  have "\<exists>d'. InitialiseStore_Handle demo_env (calm, calm) demo ''m'' [] [''a/b/c''] demo_desk = (Some err, d') \<and>
      Store_AgentSettings (de_roles demo_env) None (tables_of (store_of demo_env demo) d') = Inr (settled ''m'' [] ?z) \<and>
      (\<forall>role \<in> set Roles. Profile (settled ''m'' [] ?z) role =
        Inr \<lparr>a_Agent = trim_space ''m'', a_Variant = trim_space [], a_MaxRounds = a_MaxRounds (profile_of ?z role)\<rparr>) \<and>
      Store_Repositories None (tables_of (store_of demo_env demo) d') =
        Store_Repositories None (tables_of (store_of demo_env demo) demo_desk)"
    by (rule run) (use m order in \<open>simp_all add: demo_desk_def demo_def calm_def demo_env_def\<close>)
  then show ?thesis by (auto simp: m profile_of_def Roles_def)
qed

end
