(* ===== verification/Staged_Credentials.thy ===== *)
theory Staged_Credentials
  imports Agent_Rounds Path_Joins Project_Store
begin

text \<open>
  \<open>adapters/opencode/auth.go\<close>: the credential a sandbox gets. The host's auth file holds the entries of
  every provider; a sandbox is given a directory of its own with the entry of one. Files are a map
  from paths, and a write or a removal that fails leaves what its fault says: a file half written,
  some of the files gone. JSON is a parameter; an entry stays the raw text it is in the auth file.
\<close>

section \<open>Files\<close>

type_synonym files = "string \<rightharpoonup> string"

text \<open>A path and everything below it.\<close>

definition below :: "string \<Rightarrow> string \<Rightarrow> bool" where
  "below directory path \<longleftrightarrow> path = directory \<or> prefix (directory @ [slash]) path"

definition os_ReadFile :: "go_error option \<Rightarrow> string \<Rightarrow> files \<Rightarrow> go_error + string" where
  "os_ReadFile fault path fs =
     (case fault of
        Some err \<Rightarrow> Inl err
      | None \<Rightarrow> (case fs path of None \<Rightarrow> Inl ErrNotExist | Some contents \<Rightarrow> Inr contents))"

definition os_WriteFile :: "(go_error \<times> string option) option \<Rightarrow> string \<Rightarrow> string \<Rightarrow> files update" where
  "os_WriteFile fault path contents fs =
     (case fault of
        Some (err, left) \<Rightarrow> (Some err, fs(path := left))
      | None \<Rightarrow> (None, fs(path \<mapsto> contents)))"

definition os_RemoveAll :: "(go_error \<times> string set) option \<Rightarrow> string \<Rightarrow> files update" where
  "os_RemoveAll fault path fs =
     (case fault of
        Some (err, gone) \<Rightarrow> (Some err, \<lambda>p. if below path p \<and> p \<in> gone then None else fs p)
      | None \<Rightarrow> (None, \<lambda>p. if below path p then None else fs p))"

section \<open>Credentials\<close>

record Credentials =
  cd_root :: string
  cd_authPath :: string

record auth_codec =
  auth_entries :: "string \<Rightarrow> go_error + (string \<times> string) list"
  auth_entry :: "string \<Rightarrow> string \<Rightarrow> go_error + string"

record credential_faults =
  cf_read :: "go_error option"
  cf_mkdir :: "go_error option"
  cf_write :: "(go_error \<times> string option) option"
  cf_remove :: "(go_error \<times> string set) option"

definition guestCredentialsPath :: string where
  "guestCredentialsPath = ''/run/go-merge/credentials''"

definition NewCredentials :: "go_error + string \<Rightarrow> string \<Rightarrow> go_error + Credentials" where
  "NewCredentials userHomeDir root =
     (case userHomeDir of
        Inl err \<Rightarrow> Inl (Wrapf ''resolve OpenCode auth location: %w'' [] [err])
      | Inr home \<Rightarrow> Inr \<lparr>cd_root = filepath_Join [root, ''credentials''],
          cd_authPath = filepath_Join [home, ''.local'', ''share'', ''opencode'', ''auth.json'']\<rparr>)"

definition validateSandboxName :: "string \<Rightarrow> go_error option" where
  "validateSandboxName sandboxName =
     (if sandboxName = ''.'' \<or> contains_any sandboxName [slash, CHR 0x5C] \<or> strings_Contains sandboxName ''..''
      then Some (Errorf ''sandbox name %q is not a bare directory name'' [GStr sandboxName])
      else None)"

definition scopeToProvider :: "auth_codec \<Rightarrow> string \<Rightarrow> string \<Rightarrow> go_error + string" where
  "scopeToProvider K contents model =
     (let unnamed = Inl (Errorf ''agent model %q does not name a provider: expected \"provider/model\"'' [GStr model])
      in case cut model [slash] of
           None \<Rightarrow> unnamed
         | Some (provider, _) \<Rightarrow>
             (if provider = [] then unnamed
              else case auth_entries K contents of
                Inl err \<Rightarrow> Inl (Wrapf ''parse OpenCode auth file: %w'' [] [err])
              | Inr entries \<Rightarrow>
                  (case map_of entries provider of
                     None \<Rightarrow> Inl (Errorf (''no OpenCode credentials for provider %q (configured: %s): '' @
                               ''run \"opencode auth login\" on the host'')
                               [GStr provider, GStr (join_with '', '' (sort (map fst entries)))])
                   | Some entry \<Rightarrow> auth_entry K provider entry)))"

definition credential_directory :: "Credentials \<Rightarrow> string \<Rightarrow> string" where
  "credential_directory c sandboxName = filepath_Join [cd_root c, sandboxName]"

definition Credentials_Discard :: "Credentials \<Rightarrow> credential_faults \<Rightarrow> string \<Rightarrow> files update" where
  "Credentials_Discard c F sandboxName fs =
     (if sandboxName = []
      then (Some (Errorf ''sandbox name is required to discard its credentials'' []), fs)
      else case validateSandboxName sandboxName of
        Some err \<Rightarrow> (Some err, fs)
      | None \<Rightarrow> os_RemoveAll (cf_remove F) (credential_directory c sandboxName) fs)"

definition OpenCodeMount ::
    "auth_codec \<Rightarrow> Credentials \<Rightarrow> credential_faults \<Rightarrow> string \<Rightarrow> string \<Rightarrow> files \<Rightarrow> (go_error + SandboxMount) \<times> files" where
  "OpenCodeMount K c F sandboxName model fs =
     (if sandboxName = [] then (Inl (Errorf ''sandbox name is required to stage credentials'' []), fs)
      else case validateSandboxName sandboxName of
        Some err \<Rightarrow> (Inl err, fs)
      | None \<Rightarrow>
          (case os_ReadFile (cf_read F) (cd_authPath c) fs of
             Inl err \<Rightarrow> (Inl (Wrapf ''read OpenCode auth file: %w'' [] [err]), fs)
           | Inr contents \<Rightarrow>
               (case scopeToProvider K contents model of
                  Inl err \<Rightarrow> (Inl err, fs)
                | Inr scoped \<Rightarrow>
                    let directory = credential_directory c sandboxName
                    in case cf_mkdir F of
                         Some err \<Rightarrow> (Inl err, fs)
                       | None \<Rightarrow>
                           (case os_WriteFile (cf_write F) (filepath_Join [directory, ''auth.json'']) scoped fs of
                              (Some err, fs) \<Rightarrow> (Inl err, fs)
                            | (None, fs) \<Rightarrow>
                                (Inr \<lparr>m_HostLocation = directory, m_GuestLocation = guestCredentialsPath,
                                   m_Writable = False\<rparr>, fs)))))"

section \<open>One key per sandbox\<close>

lemma index_of_Nil: "index_of s [] = Some 0"
  by (cases s) simp_all

lemma strings_Contains_self: "strings_Contains ''..'' ''..''"
  by (simp add: strings_Contains_def)

lemma validated_bare:
  assumes "validateSandboxName name = None" "name \<noteq> []"
  shows "bare name"
  using assms strings_Contains_self
  by (auto simp: validateSandboxName_def bare_def contains_any_def list_ex_iff split: if_splits)

text \<open>The staged file of a sandbox lies below its own directory and below no other.\<close>

abbreviation staged_file :: "Credentials \<Rightarrow> string \<Rightarrow> string" where
  "staged_file c name \<equiv> filepath_Join [credential_directory c name, ''auth.json'']"

lemma staged_file_under:
  assumes "bare name"
  shows "staged_file c name = credential_directory c name @ slash # ''auth.json''"
proof -
  have "bare ''auth.json''" by (simp add: bare_def)
  with assms Join_Join [of "[name]" "[''auth.json'']" "cd_root c"] Join_append [of "[name]" "[''auth.json'']" "cd_root c"]
  show ?thesis by (simp add: credential_directory_def)
qed

lemma own_file_below: "bare name \<Longrightarrow> below (credential_directory c name) (staged_file c name)"
  by (simp add: staged_file_under below_def prefix_def)

lemma directories_apart:
  assumes "bare a" "bare b" "below (credential_directory c b) (credential_directory c a @ rest)" "rest = [] \<or> hd rest = slash"
  shows "a = b"
proof -
  let ?pre = "if filepath_IsAbs (cd_root c) then [slash] else []"
  have dir: "credential_directory c x = ?pre @ join_with [slash] (stem_of (cd_root c) @ [x])" if "bare x" for x
    using that by (simp add: credential_directory_def Join_under)
  have parts: "split_on slash (join_with [slash] (stem_of (cd_root c) @ [x])) = stem_of (cd_root c) @ [x]" if "bare x" for x
    using that stem_of_free [of "cd_root c"] by (intro split_join_free) (auto simp: bare_def)
  obtain ta where ta: "split_on slash (join_with [slash] (stem_of (cd_root c) @ [a]) @ rest) = stem_of (cd_root c) @ a # ta"
  proof (cases rest)
    case Nil
    with parts [OF assms(1)] show ?thesis by (intro that [of "[]"]) simp
  next
    case (Cons x xs)
    with assms(4) have "rest = slash # xs" by simp
    then show ?thesis using parts [OF assms(1)] by (intro that) (simp add: split_on_slashes)
  qed
  from assms(3) obtain tail where "credential_directory c a @ rest = credential_directory c b @ tail" "tail = [] \<or> hd tail = slash"
    unfolding below_def prefix_def by fastforce
  then have same: "join_with [slash] (stem_of (cd_root c) @ [a]) @ rest = join_with [slash] (stem_of (cd_root c) @ [b]) @ tail"
    unfolding dir [OF assms(1)] dir [OF assms(2)] by simp
  obtain tb where tb: "split_on slash (join_with [slash] (stem_of (cd_root c) @ [b]) @ tail) = stem_of (cd_root c) @ b # tb"
  proof (cases tail)
    case Nil
    with parts [OF assms(2)] show ?thesis by (intro that [of "[]"]) simp
  next
    case (Cons x xs)
    with \<open>tail = [] \<or> hd tail = slash\<close> have "tail = slash # xs" by simp
    then show ?thesis using parts [OF assms(2)] by (intro that) (simp add: split_on_slashes)
  qed
  from ta tb same show ?thesis by simp
qed

lemma scopeToProvider_Inr:
  assumes "scopeToProvider K contents model = Inr scoped"
  shows "\<exists>provider rest entries entry. model = provider @ slash # rest \<and> slash \<notin> set provider \<and> provider \<noteq> [] \<and>
    auth_entries K contents = Inr entries \<and> map_of entries provider = Some entry \<and> auth_entry K provider entry = Inr scoped"
proof -
  obtain provider rest where c: "cut model [slash] = Some (provider, rest)" and p: "provider \<noteq> []"
    using assms by (auto simp: scopeToProvider_def Let_def split: option.splits prod.splits if_splits)
  have "slash \<in> set model" using c cut_free [of "[slash]" model] by auto
  then obtain ys zs where m: "model = ys @ slash # zs" "slash \<notin> set ys" by (meson split_list_first)
  with cut_append [of "[slash]" ys zs] c have "provider = ys" "rest = zs" by simp_all
  with m p assms c show ?thesis
    by (auto simp: scopeToProvider_def Let_def split: sum.splits option.splits)
qed

lemma staging_one_key:
  assumes "OpenCodeMount K c F name model fs = (Inr mount, fs')" "cf_remove F = None"
  shows "\<exists>provider rest contents entries entry scoped.
      model = provider @ slash # rest \<and> slash \<notin> set provider \<and> fs (cd_authPath c) = Some contents \<and>
      auth_entries K contents = Inr entries \<and> map_of entries provider = Some entry \<and>
      auth_entry K provider entry = Inr scoped \<and> fs' = fs(staged_file c name \<mapsto> scoped)"
    and "mount = \<lparr>m_HostLocation = credential_directory c name, m_GuestLocation = guestCredentialsPath, m_Writable = False\<rparr>"
    and "below (credential_directory c name) (staged_file c name)"
    and "\<forall>other. bare other \<longrightarrow> other \<noteq> name \<longrightarrow> \<not> below (credential_directory c other) (staged_file c name)"
    and "\<exists>fs''. Credentials_Discard c F name fs' = (None, fs'') \<and> Credentials_Discard c F name fs'' = (None, fs'') \<and>
      (\<forall>path. fs'' path = (if below (credential_directory c name) path then None else fs path))"
proof -
  have n: "name \<noteq> []" "validateSandboxName name = None"
    using assms(1) by (auto simp: OpenCodeMount_def split: if_splits option.splits)
  then have b: "bare name" by (intro validated_bare)
  obtain contents scoped where read: "fs (cd_authPath c) = Some contents" "scopeToProvider K contents model = Inr scoped"
    and out: "fs' = fs(staged_file c name \<mapsto> scoped)"
      "mount = \<lparr>m_HostLocation = credential_directory c name, m_GuestLocation = guestCredentialsPath, m_Writable = False\<rparr>"
    using assms(1) n by (auto simp: OpenCodeMount_def os_ReadFile_def os_WriteFile_def Let_def
        split: option.splits sum.splits)
  from scopeToProvider_Inr [OF read(2)] read(1) out(1)
  show "\<exists>provider rest contents entries entry scoped.
      model = provider @ slash # rest \<and> slash \<notin> set provider \<and> fs (cd_authPath c) = Some contents \<and>
      auth_entries K contents = Inr entries \<and> map_of entries provider = Some entry \<and>
      auth_entry K provider entry = Inr scoped \<and> fs' = fs(staged_file c name \<mapsto> scoped)" by blast
  show "mount = \<lparr>m_HostLocation = credential_directory c name, m_GuestLocation = guestCredentialsPath, m_Writable = False\<rparr>"
    by (rule out(2))
  show below: "below (credential_directory c name) (staged_file c name)" by (rule own_file_below [OF b])
  show "\<forall>other. bare other \<longrightarrow> other \<noteq> name \<longrightarrow> \<not> below (credential_directory c other) (staged_file c name)"
    using directories_apart [OF b, of _ c "slash # ''auth.json''"] by (auto simp: staged_file_under [OF b])
  let ?fs = "\<lambda>path. if below (credential_directory c name) path then None else fs' path"
  have "Credentials_Discard c F name fs' = (None, ?fs)" "Credentials_Discard c F name ?fs = (None, ?fs)"
    using n assms(2) by (auto simp: Credentials_Discard_def os_RemoveAll_def)
  moreover have "?fs path = (if below (credential_directory c name) path then None else fs path)" for path
    using below out(1) by auto
  ultimately show "\<exists>fs''. Credentials_Discard c F name fs' = (None, fs'') \<and> Credentials_Discard c F name fs'' = (None, fs'') \<and>
      (\<forall>path. fs'' path = (if below (credential_directory c name) path then None else fs path))" by blast
qed

text \<open>C25. A sandbox is given one key and no other, and gives it back. When staging the credentials of a
  sandbox succeeds, the model names a provider before its first slash, the host's auth file has an
  entry for it, and exactly one file has changed: the file \<open>auth.json\<close> in the directory of the sandbox
  holds that one entry and nothing else of the auth file; the mount is that directory, read only. No
  directory of another sandbox contains that file. Discarding the credentials afterwards leaves
  nothing below the directory, puts every file outside it back as it was, whatever other sandboxes
  have staged, and a second discard changes nothing and succeeds as well.\<close>

theorem sandbox_is_given_one_key:
  assumes "OpenCodeMount K c F name model fs = (Inr mount, fs')" "cf_remove F = None"
  shows "(\<exists>provider rest contents entries entry scoped.
      model = provider @ slash # rest \<and> slash \<notin> set provider \<and> fs (cd_authPath c) = Some contents \<and>
      auth_entries K contents = Inr entries \<and> map_of entries provider = Some entry \<and>
      auth_entry K provider entry = Inr scoped \<and> fs' = fs(staged_file c name \<mapsto> scoped)) \<and>
    mount = \<lparr>m_HostLocation = credential_directory c name, m_GuestLocation = guestCredentialsPath, m_Writable = False\<rparr> \<and>
    below (credential_directory c name) (staged_file c name) \<and>
    (\<forall>other. bare other \<longrightarrow> other \<noteq> name \<longrightarrow> \<not> below (credential_directory c other) (staged_file c name)) \<and>
    (\<exists>fs''. Credentials_Discard c F name fs' = (None, fs'') \<and> Credentials_Discard c F name fs'' = (None, fs'') \<and>
      (\<forall>path. fs'' path = (if below (credential_directory c name) path then None else fs path)))"
  by (intro conjI) (rule staging_one_key [OF assms])+

definition example_auth :: auth_codec where
  "example_auth = \<lparr>auth_entries = \<lambda>_. Inr [(''anthropic'', ''K1''), (''openai'', ''K2'')],
     auth_entry = \<lambda>provider entry. Inr (provider @ '':'' @ entry)\<rparr>"

definition example_credentials :: Credentials where
  "example_credentials = \<lparr>cd_root = ''/r'', cd_authPath = ''/h''\<rparr>"

definition steady :: credential_faults where
  "steady = \<lparr>cf_read = None, cf_mkdir = None, cf_write = None, cf_remove = None\<rparr>"

lemma example_name: "validateSandboxName ''gm'' = None" "bare ''gm''"
  by (simp_all add: validateSandboxName_def contains_any_def strings_Contains_def bare_def)

lemma sandbox_is_given_one_key_witness:
  "\<exists>mount fs' fs''. OpenCodeMount example_auth example_credentials steady ''gm'' ''openai/o3'' [''/h'' \<mapsto> ''{}''] = (Inr mount, fs') \<and>
     fs' (staged_file example_credentials ''gm'') = Some ''openai:K2'' \<and>
     Credentials_Discard example_credentials steady ''gm'' fs' = (None, fs'') \<and>
     fs'' (staged_file example_credentials ''gm'') = None"
proof -
  have cut': "cut ''openai/o3'' [slash] = Some (''openai'', ''o3'')"
    using cut_append [of "[slash]" "''openai''" "''o3''"] by simp
  obtain mount fs' where staged: "OpenCodeMount example_auth example_credentials steady ''gm'' ''openai/o3'' [''/h'' \<mapsto> ''{}''] =
      (Inr mount, fs')"
    by (simp add: OpenCodeMount_def example_name os_ReadFile_def os_WriteFile_def steady_def example_credentials_def
      example_auth_def scopeToProvider_def cut' Let_def)
  have "cf_remove steady = None" by (simp add: steady_def)
  note one = sandbox_is_given_one_key [OF staged this]
  from one [THEN conjunct1] obtain provider rest contents entries entry scoped where k:
    "''openai/o3'' = provider @ slash # rest \<and> slash \<notin> set provider \<and>
      [''/h'' \<mapsto> ''{}''] (cd_authPath example_credentials) = Some contents \<and>
      auth_entries example_auth contents = Inr entries \<and> map_of entries provider = Some entry \<and>
      auth_entry example_auth provider entry = Inr scoped \<and>
      fs' = [''/h'' \<mapsto> ''{}''](staged_file example_credentials ''gm'' \<mapsto> scoped)"
    by (elim exE) (erule that)
  note rest = k [THEN conjunct2, THEN conjunct2, THEN conjunct2]
  have "cut ''openai/o3'' [slash] = Some (provider, rest)"
    unfolding k [THEN conjunct1]
    using cut_append [of "[slash]" provider rest] k [THEN conjunct2, THEN conjunct1] by simp
  with cut' have provider: "provider = ''openai''" by simp
  have "entries = [(''anthropic'', ''K1''), (''openai'', ''K2'')]"
    using rest [THEN conjunct1] by (simp add: example_auth_def)
  with provider have "entry = ''K2''" using rest [THEN conjunct2, THEN conjunct1] by simp
  with provider have "scoped = ''openai:K2''"
    using rest [THEN conjunct2, THEN conjunct2, THEN conjunct1] by (simp add: example_auth_def)
  then have "fs' (staged_file example_credentials ''gm'') = Some ''openai:K2''"
    unfolding rest [THEN conjunct2, THEN conjunct2, THEN conjunct2] by simp
  moreover from one [THEN conjunct2, THEN conjunct2, THEN conjunct2, THEN conjunct2]
  obtain fs'' where d: "Credentials_Discard example_credentials steady ''gm'' fs' = (None, fs'')"
    "\<forall>path. fs'' path = (if below (credential_directory example_credentials ''gm'') path then None
       else [''/h'' \<mapsto> ''{}''] path)" by blast
  moreover have "fs'' (staged_file example_credentials ''gm'') = None"
    using d(2) own_file_below [OF example_name(2)] by simp
  ultimately show ?thesis using staged by blast
qed

end
