(* ===== verification/Lima_Retirement.thy ===== *)
theory Lima_Retirement
  imports Staged_Credentials
begin

text \<open>
  \<open>adapters/colima/legacy.go\<close>: giving back what the previous sandbox runtime left on the host. Which
  instances it may delete is decided by the names the old adapter minted. \<open>limactl\<close> and the reading of a
  line of its JSON are the fields of \<open>lima\<close>; the log lines are left out.
\<close>

section \<open>The names of the old adapter\<close>

definition retiredInstancePrefix :: string where
  "retiredInstancePrefix = ''gm-''"

definition retiredMarker :: string where
  "retiredMarker = ''lima-retired''"

text \<open>\<open>ParseUint\<close> in base ten of 64 bits succeeds.\<close>

definition decimal_value :: "string \<Rightarrow> nat" where
  "decimal_value value' = foldl (\<lambda>n c. 10 * n + (byte c - 48)) 0 value'"

definition decimal :: "string \<Rightarrow> bool" where
  "decimal value' \<longleftrightarrow> value' \<noteq> [] \<and> list_all is_digit value' \<and> decimal_value value' < 2 ^ 64"

definition hexadecimal :: "string \<Rightarrow> bool" where
  "hexadecimal value' \<longleftrightarrow>
     list_all (\<lambda>r. in_range 97 102 r \<or> in_range 65 70 r \<or> in_range 48 57 r) (code_points value') \<and> value' \<noteq> []"

definition slugPart :: "string \<Rightarrow> bool" where
  "slugPart value' \<longleftrightarrow> list_all (\<lambda>r. in_range 97 122 r \<or> in_range 48 57 r) (code_points value') \<and> value' \<noteq> []"

definition bareSlug :: "string list \<Rightarrow> bool" where
  "bareSlug parts \<longleftrightarrow> parts \<noteq> [] \<and> list_all (\<lambda>part. part \<noteq> [] \<and> slugPart part) parts"

fun sameParts :: "string list \<Rightarrow> string list \<Rightarrow> bool" where
  "sameParts [] [] \<longleftrightarrow> True"
| "sameParts (l # left) (r # right) \<longleftrightarrow> l = r \<and> sameParts left right"
| "sameParts _ _ \<longleftrightarrow> False"

definition legacy_roles :: "string list" where
  "legacy_roles = [''refiner'', ''issue-reviewer'', ''coding'', ''pr-reviewer'', ''merge'']"

fun legacy_role_loop :: "string list \<Rightarrow> string list \<Rightarrow> bool" where
  "legacy_role_loop parts [] \<longleftrightarrow> False"
| "legacy_role_loop parts (role # roles) \<longleftrightarrow>
     (let roleParts = split_on hyphen role; rest = length parts - length roleParts
      in if length parts \<le> length roleParts \<or> \<not> sameParts (drop rest parts) roleParts
         then legacy_role_loop parts roles
         else bareSlug (take rest parts))"

definition legacyInstanceName :: "string \<Rightarrow> bool" where
  "legacyInstanceName name \<longleftrightarrow>
     (if \<not> prefix retiredInstancePrefix name then False
      else let parts = split_on hyphen (trim_prefix name retiredInstancePrefix)
           in if length parts < 4 \<or> \<not> decimal (hd parts) then False
              else if length (last parts) \<noteq> 8 \<or> \<not> hexadecimal (last parts) then False
              else legacy_role_loop (butlast (tl parts)) legacy_roles)"

section \<open>Retiring the runtime\<close>

record lima =
  lm_installed :: bool
  lm_list :: "go_error + string"
  lm_name :: "string \<Rightarrow> go_error + string"
  lm_delete :: "string \<Rightarrow> go_error option"

text \<open>The errors so far and the names \<open>limactl delete --force\<close> has been called with, in order.\<close>

fun delete_instances :: "lima \<Rightarrow> string list \<Rightarrow> go_error list \<times> string list \<Rightarrow> go_error list \<times> string list" where
  "delete_instances M [] out = out"
| "delete_instances M (line # lines) (errs, deleted) =
     (if trim_space line = [] then delete_instances M lines (errs, deleted)
      else case lm_name M line of
        Inl _ \<Rightarrow> delete_instances M lines (errs, deleted)
      | Inr name \<Rightarrow>
          (if \<not> legacyInstanceName name then delete_instances M lines (errs, deleted)
           else case lm_delete M name of
             Some err \<Rightarrow> delete_instances M lines
               (errs @ [Wrapf ''delete Lima instance %q: %w'' [GStr name] [err]], deleted @ [name])
           | None \<Rightarrow> delete_instances M lines (errs, deleted @ [name])))"

definition deleteLimaInstances :: "lima \<Rightarrow> go_error option \<times> string list" where
  "deleteLimaInstances M =
     (if \<not> lm_installed M then (None, [])
      else case lm_list M of
        Inl err \<Rightarrow> (Some (Wrapf ''list Lima instances: %w'' [] [err]), [])
      | Inr output \<Rightarrow>
          (case delete_instances M (split_on (CHR 0x0A) output) ([], []) of
             (errs, deleted) \<Rightarrow> (join_errors errs, deleted)))"

record retire_faults =
  rt_stat :: "go_error option"
  rt_remove :: "string \<Rightarrow> (go_error \<times> string set) option"
  rt_mkdir :: "go_error option"
  rt_write :: "(go_error \<times> string option) option"

fun remove_each :: "retire_faults \<Rightarrow> string \<Rightarrow> string list \<Rightarrow> go_error list \<Rightarrow> files \<Rightarrow> go_error list \<times> files" where
  "remove_each F root [] errs fs = (errs, fs)"
| "remove_each F root (directory # directories) errs fs =
     (case os_RemoveAll (rt_remove F directory) (filepath_Join [root, directory]) fs of
        (Some err, fs) \<Rightarrow> remove_each F root directories (errs @ [err]) fs
      | (None, fs) \<Rightarrow> remove_each F root directories errs fs)"

definition retired_directories :: "string list" where
  "retired_directories = [''images'', ''vms'', ''sandboxes'']"

definition retireLima :: "lima \<Rightarrow> retire_faults \<Rightarrow> string \<Rightarrow> files \<Rightarrow> go_error option \<times> string list \<times> files" where
  "retireLima M F root fs =
     (case deleteLimaInstances M of
        (r, deleted) \<Rightarrow>
          (case remove_each F root retired_directories (case r of Some err \<Rightarrow> [err] | None \<Rightarrow> []) fs of
             (errs, fs) \<Rightarrow> (join_errors errs, deleted, fs)))"

definition retired_marker_path :: "string \<Rightarrow> string" where
  "retired_marker_path root = filepath_Join [root, ''state'', retiredMarker]"

text \<open>The names it had deleted and the files it leaves; an error of \<open>retireLima\<close> is only logged.\<close>

definition RetireLima :: "lima \<Rightarrow> retire_faults \<Rightarrow> string \<Rightarrow> files \<Rightarrow> string list \<times> files" where
  "RetireLima M F root fs =
     (if rt_stat F = None \<and> fs (retired_marker_path root) \<noteq> None then ([], fs)
      else case retireLima M F root fs of
        (_, deleted, fs) \<Rightarrow>
          (deleted, case rt_mkdir F of
             Some _ \<Rightarrow> fs
           | None \<Rightarrow> snd (os_WriteFile (rt_write F) (retired_marker_path root) [] fs)))"

section \<open>The grammar\<close>

text \<open>
  \<open>gm-<project>-<subject>-<role>-<digest>\<close>: a number of 64 bits, words of lower case letters and digits
  joined by single hyphens, a role and eight hexadecimal digits.
\<close>

definition legacy_form :: "string \<Rightarrow> bool" where
  "legacy_form name \<longleftrightarrow> (\<exists>project subject role digest.
     name = ''gm-'' @ project @ ''-'' @ subject @ ''-'' @ role @ ''-'' @ digest \<and> decimal project \<and>
     (\<forall>w \<in> set (split_on hyphen subject). slugPart w) \<and> role \<in> set legacy_roles \<and>
     length digest = 8 \<and> hexadecimal digest)"

lemma sameParts_iff [simp]: "sameParts l r \<longleftrightarrow> l = r"
  by (induction l r rule: sameParts.induct) auto

lemma split_on_sep: "split_on c (s @ c # t) = split_on c s @ split_on c t"
  by (induction s) (auto split: list.splits)

lemma join_hyphen: "join_with [hyphen] (split_on hyphen s) = s"
  by (rule join_split)

definition role_parts :: "string list list" where
  "role_parts = [[''refiner''], [''issue'', ''reviewer''], [''coding''], [''pr'', ''reviewer''], [''merge'']]"

lemma split_roles: "map (split_on hyphen) legacy_roles = role_parts"
  by (simp add: legacy_roles_def role_parts_def hyphen_def)

lemma role_loop_parts:
  "legacy_role_loop parts roles \<longleftrightarrow>
     (case find (\<lambda>rp. suffix rp parts \<and> length rp < length parts) (map (split_on hyphen) roles) of
        None \<Rightarrow> False | Some rp \<Rightarrow> bareSlug (take (length parts - length rp) parts))"
proof (induction roles)
  case (Cons role roles)
  let ?rp = "split_on hyphen role"
  have "(length parts \<le> length ?rp \<or> drop (length parts - length ?rp) parts \<noteq> ?rp) \<longleftrightarrow>
      \<not> (suffix ?rp parts \<and> length ?rp < length parts)"
    by (auto simp: suffix_def) (metis append_take_drop_id)
  with Cons show ?case by (simp add: Let_def)
qed simp

lemma suffix_unique_role:
  assumes "rp \<in> set role_parts" "rq \<in> set role_parts" "suffix rp parts" "suffix rq parts"
  shows "rp = rq"
proof -
  have "suffix rp rq \<or> suffix rq rp" using assms(3,4) by (rule suffix_same_cases)
  with assms(1,2) show ?thesis by (auto simp: role_parts_def suffix_Cons)
qed

lemma role_loop_iff:
  "legacy_role_loop parts legacy_roles \<longleftrightarrow>
     (\<exists>subject role. parts = subject @ split_on hyphen role \<and> role \<in> set legacy_roles \<and> bareSlug subject)"
proof -
  let ?P = "\<lambda>rp. suffix rp parts \<and> length rp < length parts"
  have roles: "rp \<in> set role_parts \<longleftrightarrow> (\<exists>role \<in> set legacy_roles. rp = split_on hyphen role)" for rp
    unfolding split_roles [symmetric] by auto
  show ?thesis
  proof (cases "find ?P role_parts")
    case None
    then have no: "\<And>rp. rp \<in> set role_parts \<Longrightarrow> \<not> ?P rp" by (auto simp: find_None_iff)
    have "\<not> (parts = subject @ split_on hyphen role \<and> role \<in> set legacy_roles \<and> bareSlug subject)" for subject role
    proof
      assume *: "parts = subject @ split_on hyphen role \<and> role \<in> set legacy_roles \<and> bareSlug subject"
      then have "split_on hyphen role \<in> set role_parts" using roles by blast
      from no [OF this] * show False by (auto simp: suffix_def bareSlug_def)
    qed
    with None show ?thesis by (simp add: role_loop_parts split_roles)
  next
    case (Some rp)
    then have rp: "rp \<in> set role_parts" "?P rp" by (auto simp: find_Some_iff)
    then obtain subject where s: "parts = subject @ rp" by (auto simp: suffix_def)
    have unique: "subject' = subject"
      if "parts = subject' @ split_on hyphen role" "role \<in> set legacy_roles" for subject' role
    proof -
      have "split_on hyphen role \<in> set role_parts" using that(2) roles by blast
      moreover have "suffix (split_on hyphen role) parts" using that(1) by (simp add: suffix_def)
      ultimately have "split_on hyphen role = rp" using rp by (blast intro: suffix_unique_role)
      with that(1) s show ?thesis by simp
    qed
    obtain role where role: "role \<in> set legacy_roles" "rp = split_on hyphen role" using rp(1) roles by blast
    have "legacy_role_loop parts legacy_roles \<longleftrightarrow> bareSlug subject"
      using Some by (simp add: role_loop_parts split_roles s)
    then show ?thesis using unique s role by blast
  qed
qed

lemma decimal_free: "decimal p \<Longrightarrow> hyphen \<notin> set p"
  by (auto simp: decimal_def list_all_iff is_digit_def hyphen_def byte_def in_range_def)

lemma hexadecimal_free: "hexadecimal d \<Longrightarrow> hyphen \<notin> set d"
proof -
  assume h: "hexadecimal d"
  then have "\<forall>r \<in> set (code_points d). r < 128"
    by (auto simp: hexadecimal_def list_all_iff in_range_def)
  then have "is_ascii d" by (rule code_points_low_ascii)
  with h show ?thesis
    by (auto simp: hexadecimal_def code_points_ascii list_all_iff in_range_def hyphen_def byte_def)
qed

lemma split_join_sep:
  "ps \<noteq> [] \<Longrightarrow> \<forall>p \<in> set ps. c \<notin> set p \<Longrightarrow> split_on c (join_with [c] ps) = ps"
  by (induction "[c]" ps rule: join_with.induct) (simp_all add: split_on_free split_on_append)

lemma legacy_parts:
  assumes "decimal project" "hexadecimal digest"
  shows "split_on hyphen (project @ ''-'' @ subject @ ''-'' @ role @ ''-'' @ digest) =
    project # split_on hyphen subject @ split_on hyphen role @ [digest]"
  using decimal_free [OF assms(1)] hexadecimal_free [OF assms(2)]
  by (simp add: split_on_append split_on_sep split_on_free flip: hyphen_def)

lemma join_four:
  "sub \<noteq> [] \<and> P \<Longrightarrow> join_with [hyphen] ([p] @ sub @ split_on hyphen role @ [d]) =
     p @ ''-'' @ join_with [hyphen] sub @ ''-'' @ join_with [hyphen] (split_on hyphen role) @ ''-'' @ d"
  using join_with_append [of "[p]" "sub @ split_on hyphen role @ [d]" "[hyphen]"]
    join_with_append [of sub "split_on hyphen role @ [d]" "[hyphen]"]
    join_with_append [of "split_on hyphen role" "[d]" "[hyphen]"]
  by (simp flip: hyphen_def)

lemma legacyInstanceName_iff: "legacyInstanceName name \<longleftrightarrow> legacy_form name"
proof
  assume "legacy_form name"
  then obtain project subject role digest where n:
    "name = ''gm-'' @ project @ ''-'' @ subject @ ''-'' @ role @ ''-'' @ digest" "decimal project"
    "\<forall>w \<in> set (split_on hyphen subject). slugPart w" "role \<in> set legacy_roles" "length digest = 8" "hexadecimal digest"
    by (auto simp: legacy_form_def)
  have parts: "split_on hyphen (trim_prefix name retiredInstancePrefix) =
      project # split_on hyphen subject @ split_on hyphen role @ [digest]"
    using legacy_parts [OF n(2,6)] by (simp add: n(1) trim_prefix_def retiredInstancePrefix_def)
  have "bareSlug (split_on hyphen subject)" using n(3) by (auto simp: bareSlug_def list_all_iff slugPart_def)
  then have "legacy_role_loop (split_on hyphen subject @ split_on hyphen role) legacy_roles"
    using n(4) role_loop_iff by blast
  moreover have "2 \<le> length (split_on hyphen subject) + length (split_on hyphen role)"
    by (metis One_nat_def Suc_1 Suc_leI add_mono length_greater_0_conv one_add_one split_on_not_Nil)
  ultimately show "legacyInstanceName name"
    unfolding legacyInstanceName_def parts Let_def
    using n by (simp add: retiredInstancePrefix_def butlast_append)
next
  assume l: "legacyInstanceName name"
  then obtain rest where rest: "name = ''gm-'' @ rest"
    by (auto simp: legacyInstanceName_def retiredInstancePrefix_def prefix_def split: if_splits)
  let ?P = "split_on hyphen rest"
  from l have P: "4 \<le> length ?P" "decimal (hd ?P)" "length (last ?P) = 8" "hexadecimal (last ?P)"
    and loop: "legacy_role_loop (butlast (tl ?P)) legacy_roles"
    by (simp_all add: legacyInstanceName_def rest retiredInstancePrefix_def trim_prefix_def Let_def not_less split: if_splits)
  from loop obtain sub role where sub: "butlast (tl ?P) = sub @ split_on hyphen role" "role \<in> set legacy_roles" "bareSlug sub"
    using role_loop_iff by blast
  have "tl ?P \<noteq> []" using P(1) by (cases ?P) auto
  then have "?P = hd ?P # butlast (tl ?P) @ [last ?P]" by (cases ?P) auto
  then have shape: "?P = [hd ?P] @ sub @ split_on hyphen role @ [last ?P]" by (simp add: sub(1))
  have "rest = join_with [hyphen] ([hd ?P] @ sub @ split_on hyphen role @ [last ?P])"
    using join_hyphen [of rest] shape by simp
  also have "\<dots> = hd ?P @ ''-'' @ join_with [hyphen] sub @ ''-'' @ role @ ''-'' @ last ?P"
    using join_four [of sub True "hd ?P" role "last ?P"] sub(3) by (simp add: bareSlug_def join_hyphen)
  finally have name: "name = ''gm-'' @ hd ?P @ ''-'' @ join_with [hyphen] sub @ ''-'' @ role @ ''-'' @ last ?P"
    by (simp add: rest)
  have "\<forall>p \<in> set sub. hyphen \<notin> set p"
  proof
    fix p assume "p \<in> set sub"
    then have "p \<in> set ?P" by (subst shape) simp
    then show "hyphen \<notin> set p" by (rule split_on_parts)
  qed
  then have "split_on hyphen (join_with [hyphen] sub) = sub"
    using sub(3) by (intro split_join_sep) (simp_all add: bareSlug_def)
  then have "\<forall>w \<in> set (split_on hyphen (join_with [hyphen] sub)). slugPart w"
    using sub(3) by (simp add: bareSlug_def list_all_iff)
  with name P(2-4) sub(2) show "legacy_form name" unfolding legacy_form_def by blast
qed

section \<open>What is taken\<close>

text \<open>The names of the old adapter in what \<open>limactl list\<close> printed.\<close>

definition retired_names :: "lima \<Rightarrow> string \<Rightarrow> string set" where
  "retired_names M output = {name. \<exists>line \<in> set (split_on (CHR 0x0A) output).
     trim_space line \<noteq> [] \<and> lm_name M line = Inr name \<and> legacy_form name}"

abbreviation retired :: "string \<Rightarrow> string \<Rightarrow> bool" where
  "retired root path \<equiv> \<exists>directory \<in> {''images'', ''vms'', ''sandboxes''}. below (filepath_Join [root, directory]) path"

lemma set_delete_instances:
  "set (snd (delete_instances M lines (errs, deleted))) =
     set deleted \<union> {name. \<exists>line \<in> set lines. trim_space line \<noteq> [] \<and> lm_name M line = Inr name \<and> legacyInstanceName name}"
proof (induction lines arbitrary: errs deleted)
  case (Cons line lines)
  show ?case by (auto simp: Cons.IH split: sum.splits option.splits)
qed simp

lemma set_deleteLimaInstances:
  "set (snd (deleteLimaInstances M)) =
     (if lm_installed M then case lm_list M of Inl _ \<Rightarrow> {} | Inr output \<Rightarrow> retired_names M output else {})"
proof (cases "lm_list M")
  case (Inr listed)
  then have "snd (deleteLimaInstances M) =
      (if lm_installed M then snd (delete_instances M (split_on (CHR 0x0A) listed) ([], [])) else [])"
    by (simp add: deleteLimaInstances_def split: prod.splits)
  with Inr set_delete_instances [of M "split_on (CHR 0x0A) listed" "[]" "[]"]
  show ?thesis by (simp add: retired_names_def legacyInstanceName_iff)
qed (simp add: deleteLimaInstances_def)

lemma remove_each_keeps:
  "\<forall>directory \<in> set directories. \<not> below (filepath_Join [root, directory]) path \<Longrightarrow>
     snd (remove_each F root directories errs fs) path = fs path"
  by (induction directories arbitrary: errs fs)
    (auto simp: os_RemoveAll_def split: prod.splits option.splits)

lemma remove_each_empties:
  assumes "\<forall>directory. rt_remove F directory = None"
  shows "snd (remove_each F root directories errs fs) path =
     (if \<exists>directory \<in> set directories. below (filepath_Join [root, directory]) path then None else fs path)"
  using assms by (induction directories arbitrary: errs fs) (auto simp: os_RemoveAll_def split: prod.splits option.splits)

lemma retireLima_parts:
  "fst (snd (retireLima M F root fs)) = snd (deleteLimaInstances M)"
  "snd (snd (retireLima M F root fs)) =
     snd (remove_each F root retired_directories (case fst (deleteLimaInstances M) of Some err \<Rightarrow> [err] | None \<Rightarrow> []) fs)"
  by (simp_all add: retireLima_def split: prod.splits)

lemma snd_WriteFile_other: "path \<noteq> p \<Longrightarrow> snd (os_WriteFile fault p contents fs) path = fs path"
  by (auto simp: os_WriteFile_def split: option.splits prod.splits)

lemma RetireLima_first:
  assumes "rt_stat F \<noteq> None \<or> fs (retired_marker_path root) = None"
  shows "fst (RetireLima M F root fs) = snd (deleteLimaInstances M)"
    and "\<exists>errs. \<forall>path. path \<noteq> retired_marker_path root \<longrightarrow>
      snd (RetireLima M F root fs) path = snd (remove_each F root retired_directories errs fs) path"
    and "rt_mkdir F = None \<Longrightarrow> rt_write F = None \<Longrightarrow> snd (RetireLima M F root fs) (retired_marker_path root) = Some []"
proof -
  have "\<not> (rt_stat F = None \<and> fs (retired_marker_path root) \<noteq> None)" using assms by auto
  then have run: "RetireLima M F root fs = (case retireLima M F root fs of
      (_, deleted, fs) \<Rightarrow> (deleted, case rt_mkdir F of
         Some _ \<Rightarrow> fs | None \<Rightarrow> snd (os_WriteFile (rt_write F) (retired_marker_path root) [] fs)))"
    unfolding RetireLima_def by (simp only: if_False)
  then show "fst (RetireLima M F root fs) = snd (deleteLimaInstances M)"
    using retireLima_parts(1) [of M F root fs] by (simp split: prod.splits)
  have "snd (RetireLima M F root fs) path = snd (snd (retireLima M F root fs)) path"
    if "path \<noteq> retired_marker_path root" for path
    using that by (simp add: run snd_WriteFile_other split: prod.splits option.splits)
  then show "\<exists>errs. \<forall>path. path \<noteq> retired_marker_path root \<longrightarrow>
      snd (RetireLima M F root fs) path = snd (remove_each F root retired_directories errs fs) path"
    unfolding retireLima_parts(2) by blast
  show "snd (RetireLima M F root fs) (retired_marker_path root) = Some []" if "rt_mkdir F = None" "rt_write F = None"
    using that by (simp add: run os_WriteFile_def split: prod.splits)
qed

text \<open>C26. Retiring the old runtime takes nothing of the user's and happens once. When the marker is there
  nothing is run or touched. Otherwise the instances deleted are exactly the listed ones whose name
  reads \<open>gm-<project>-<subject>-<role>-<digest>\<close>, whatever prefix others share with them, and none when
  \<open>limactl\<close> is missing or does not answer; whatever fails, a file outside \<open>images\<close>, \<open>vms\<close> and \<open>sandboxes\<close>
  stays as it was, the marker apart. When no removal fails these three directories are gone, and once
  the marker could be written a later launch finds it and does nothing, although a deletion had failed.\<close>

theorem retirement_takes_only_its_own:
  "(rt_stat F = None \<and> fs (retired_marker_path root) \<noteq> None \<longrightarrow> RetireLima M F root fs = ([], fs)) \<and>
   (rt_stat F \<noteq> None \<or> fs (retired_marker_path root) = None \<longrightarrow>
     set (fst (RetireLima M F root fs)) =
       (if lm_installed M then case lm_list M of Inl _ \<Rightarrow> {} | Inr output \<Rightarrow> retired_names M output else {}) \<and>
     ((\<forall>directory. rt_remove F directory = None) \<longrightarrow>
       (\<forall>path. path \<noteq> retired_marker_path root \<longrightarrow> retired root path \<longrightarrow> snd (RetireLima M F root fs) path = None))) \<and>
   (\<forall>path. path \<noteq> retired_marker_path root \<longrightarrow> \<not> retired root path \<longrightarrow> snd (RetireLima M F root fs) path = fs path) \<and>
   (rt_mkdir F = None \<longrightarrow> rt_write F = None \<longrightarrow> rt_stat F' = None \<longrightarrow>
     RetireLima M' F' root (snd (RetireLima M F root fs)) = ([], snd (RetireLima M F root fs)))"
proof (cases "rt_stat F = None \<and> fs (retired_marker_path root) \<noteq> None")
  case True
  then have "RetireLima M F root fs = ([], fs)" by (simp add: RetireLima_def)
  with True show ?thesis by (auto simp: RetireLima_def)
next
  case False
  then have first: "rt_stat F \<noteq> None \<or> fs (retired_marker_path root) = None" by auto
  note facts = RetireLima_first [where F = F and fs = fs and root = root and M = M, OF first]
  obtain errs where errs: "\<forall>path. path \<noteq> retired_marker_path root \<longrightarrow>
      snd (RetireLima M F root fs) path = snd (remove_each F root retired_directories errs fs) path"
    using facts(2) by blast
  have "set (fst (RetireLima M F root fs)) =
      (if lm_installed M then case lm_list M of Inl _ \<Rightarrow> {} | Inr output \<Rightarrow> retired_names M output else {})"
    by (simp only: facts(1) set_deleteLimaInstances)
  moreover have "snd (RetireLima M F root fs) path = None"
    if "\<forall>directory. rt_remove F directory = None" "path \<noteq> retired_marker_path root" "retired root path" for path
    using errs that(2,3) remove_each_empties [OF that(1), of root retired_directories errs fs path]
    by (simp del: remove_each.simps add: retired_directories_def)
  moreover have "snd (RetireLima M F root fs) path = fs path"
    if "path \<noteq> retired_marker_path root" "\<not> retired root path" for path
    using errs that remove_each_keeps [of retired_directories root path F errs fs] by (simp add: retired_directories_def)
  moreover have "RetireLima M' F' root (snd (RetireLima M F root fs)) = ([], snd (RetireLima M F root fs))"
    if "rt_mkdir F = None" "rt_write F = None" "rt_stat F' = None"
    using facts(3) [OF that(1,2)] that(3) by (simp add: RetireLima_def [of M' F'])
  ultimately show ?thesis using False by blast
qed

definition example_lima :: lima where
  "example_lima = \<lparr>lm_installed = True,
     lm_list = Inr (''gm-7-login-pr-reviewer-0a1B2c3D'' @ CHR 0x0A # ''gm-mine''),
     lm_name = Inr, lm_delete = \<lambda>_. None\<rparr>"

lemma example_names: "legacy_form ''gm-7-login-pr-reviewer-0a1B2c3D''" "\<not> legacy_form ''gm-mine''"
proof -
  have parts: "split_on hyphen (trim_prefix ''gm-7-login-pr-reviewer-0a1B2c3D'' retiredInstancePrefix) =
      [''7'', ''login'', ''pr'', ''reviewer'', ''0a1B2c3D'']"
    by (simp add: trim_prefix_def retiredInstancePrefix_def hyphen_def)
  have slug: "code_points ''login'' = map byte ''login''" "code_points ''0a1B2c3D'' = map byte ''0a1B2c3D''"
    by (intro code_points_ascii; simp add: is_ascii_def byte_def)+
  have "decimal ''7''" by (simp add: decimal_def decimal_value_def is_digit_def in_range_def byte_def)
  moreover have "hexadecimal ''0a1B2c3D''" by (simp add: hexadecimal_def slug in_range_def byte_def)
  moreover have "bareSlug [''login'']" by (simp add: bareSlug_def slugPart_def slug in_range_def byte_def)
  then have "legacy_role_loop [''login'', ''pr'', ''reviewer''] legacy_roles"
    by (simp add: legacy_roles_def hyphen_def Let_def)
  ultimately have "legacyInstanceName ''gm-7-login-pr-reviewer-0a1B2c3D''"
    unfolding legacyInstanceName_def Let_def parts by (simp add: retiredInstancePrefix_def)
  then show "legacy_form ''gm-7-login-pr-reviewer-0a1B2c3D''" by (simp only: legacyInstanceName_iff)
  have "split_on hyphen (trim_prefix ''gm-mine'' retiredInstancePrefix) = [''mine'']"
    by (simp add: trim_prefix_def retiredInstancePrefix_def hyphen_def)
  then have "\<not> legacyInstanceName ''gm-mine''" by (simp add: legacyInstanceName_def)
  then show "\<not> legacy_form ''gm-mine''" unfolding legacyInstanceName_iff .
qed

definition calm :: retire_faults where
  "calm = \<lparr>rt_stat = None, rt_remove = \<lambda>_. None, rt_mkdir = None, rt_write = None\<rparr>"

lemma retirement_takes_only_its_own_witness:
  "set (fst (RetireLima example_lima calm ''/r'' Map.empty)) = {''gm-7-login-pr-reviewer-0a1B2c3D''} \<and>
   RetireLima example_lima calm ''/r'' (snd (RetireLima example_lima calm ''/r'' Map.empty)) =
     ([], snd (RetireLima example_lima calm ''/r'' Map.empty))"
proof -
  note c = retirement_takes_only_its_own [of calm Map.empty "''/r''" example_lima calm example_lima]
  have lines: "split_on (CHR 0x0A) (''gm-7-login-pr-reviewer-0a1B2c3D'' @ CHR 0x0A # ''gm-mine'') =
      [''gm-7-login-pr-reviewer-0a1B2c3D'', ''gm-mine'']" by simp
  have solid: "trim_space ''gm-7-login-pr-reviewer-0a1B2c3D'' = ''gm-7-login-pr-reviewer-0a1B2c3D''"
    by (intro trim_space_solid; simp add: byte_def is_space_def in_range_def)
  note names = example_names
  have read: "lm_name example_lima line = Inr name \<longleftrightarrow> line = name" for line name
    by (simp add: example_lima_def)
  have "retired_names example_lima (''gm-7-login-pr-reviewer-0a1B2c3D'' @ CHR 0x0A # ''gm-mine'') =
      {name. \<exists>line \<in> {''gm-7-login-pr-reviewer-0a1B2c3D'', ''gm-mine''}. trim_space line \<noteq> [] \<and> line = name \<and> legacy_form name}"
    unfolding retired_names_def lines read by (simp only: set_simps)
  also have "\<dots> = {''gm-7-login-pr-reviewer-0a1B2c3D''}"
    using names solid by (simp only: bex_simps) blast
  finally have names': "retired_names example_lima (''gm-7-login-pr-reviewer-0a1B2c3D'' @ CHR 0x0A # ''gm-mine'') =
      {''gm-7-login-pr-reviewer-0a1B2c3D''}" .
  have ran: "lm_installed example_lima" "lm_list example_lima =
      Inr (''gm-7-login-pr-reviewer-0a1B2c3D'' @ CHR 0x0A # ''gm-mine'')"
    by (simp_all add: example_lima_def)
  have quiet: "rt_mkdir calm = None" "rt_write calm = None" "rt_stat calm = None" by (simp_all add: calm_def)
  have "set (fst (RetireLima example_lima calm ''/r'' Map.empty)) = {''gm-7-login-pr-reviewer-0a1B2c3D''}"
    using c [THEN conjunct2, THEN conjunct1] by (simp only: ran names' sum.case if_True simp_thms)
  with c [THEN conjunct2, THEN conjunct2, THEN conjunct2] quiet show ?thesis by blast
qed

end
