(* ===== verification/Spec2Isabelle.thy ===== *)
theory Spec2Isabelle
  imports Slugs Repository_Paths Repository_Refs Epic_Tree Agents Agent_Rounds
    Sandbox_Specs Push_Gate Round_Roles Worker_Tick Tracker_Store Tree_Strands
    Branch_Sweep Branch_Opening Branch_Closing Runtime_Cleanup Agent_Registry
    Container_Ledger Transcripts Workspace_History Workspace_Safety Store_Slots
    Desk_Safety Lima_Retirement
begin

text \<open>
  A verification development for donsy (\<open>src/internal\<close>), a daemon that lets coding agents work on
  epics. An epic is a tree of issues. Agents refine it into a plan; every free leaf gets a branch and
  a pull request record; coding, review and merge rounds move that record on until a person merges
  it. A worker schedules the rounds, a container provider runs them, SQLite tables keep the epics, the
  sandboxes and the runs.

  Conventions. A Go string is a list of bytes (\<open>Go_Strings\<close>: UTF-8, \<open>TrimSpace\<close>, \<open>Fields\<close>, \<open>Split\<close> and
  the like), a slice a list, a struct a record, a string enumeration a datatype with a constructor
  for any other text. A method that may fail and change its receiver is an \<open>'s update\<close>,
  \<open>'s \<Rightarrow> go_error option \<times> 's\<close>, composed by \<open>then_do\<close> (\<open>Prelude\<close>); an error is a format with its
  arguments and the errors it wraps, so that \<open>errors.Is\<close> and \<open>errors.Join\<close> are functions. A handler
  over ports takes the world of its ports along (\<open>Host_Ports\<close>, type \<open>io\<close>): a port is a field of a
  record of functions on that world, about which nothing is assumed unless a theorem says so. Times
  and durations are whole nanoseconds, counters are \<open>int\<close> or \<open>nat\<close> where the code bounds them; the one
  shift whose width matters, in \<open>retry_delay\<close>, is a 64 bit word.

  The parts, their sources and their theories.

  Domain. \<open>Slugs\<close> (\<open>domain/slug.go\<close>, \<open>slug/slug.go\<close>, \<open>id/id.go\<close>) and \<open>Repository_Refs\<close>
  (\<open>domain/owner.go\<close>, \<open>repository.go\<close>, \<open>setup.go\<close>) read names. \<open>Repository_Paths\<close>
  (\<open>repositorypath/repository_path.go\<close>) encodes them as file names. \<open>Epic_States\<close>, \<open>Pull_Requests\<close>,
  \<open>Epic_Aggregate\<close>, \<open>Waits\<close>, \<open>Epic_Validate\<close>, \<open>Epic_Progress\<close> and \<open>Epic_Tree\<close> are the package
  \<open>domain/epic\<close>: the three status machines, the pull request record with its counters and flags, the
  aggregate and every operation on it. \<open>Agents\<close> is \<open>domain/agent\<close>: roles, sandboxes, runs, settings.
  Shown: which events each machine takes, \<open>Validate\<close> against \<open>well_formed\<close>, that every operation keeps
  an epic well formed, that closing closes exactly a subtree, that some unsettled issue is always
  free, and bounds on rounds.

  The loop. \<open>Round_Roles\<close> is the choice of the next role (\<open>IssueRole\<close>, \<open>epicRole\<close>, \<open>TerminalSubjects\<close>,
  \<open>eligibleSubjects\<close>). \<open>Issue_Loop\<close> collects what the use cases write on an epic and shows by rule
  induction that an issue and its pull request stay in step. \<open>Agent_Rounds\<close> and \<open>Run_Supervisor\<close>
  (\<open>agent_round.go\<close>, \<open>run_supervisor.go\<close>) begin, run and end a round; \<open>Sandbox_Specs\<close>
  (\<open>epic_sandbox.go\<close>, \<open>sandbox_spec.go\<close>) names its sandbox; \<open>Push_Gate\<close> (\<open>push_gate.go\<close>) decides what may be
  published; \<open>Issue_Rounds\<close> (\<open>run_issue_agent.go\<close>) and \<open>Epic_Rounds\<close> (\<open>run_epic_agent.go\<close>) are the two
  handlers. \<open>File_Tree\<close>, \<open>Go_Paths\<close>, \<open>Issue_Tree\<close>, \<open>Tree_Import\<close> and \<open>Tree_Strands\<close> are the issue tree the
  refiner edits (\<open>filestore/issue_tree_store*.go\<close>). \<open>Branch_Opening\<close>, \<open>Branch_Sweep\<close> and \<open>Branch_Closing\<close>
  are the use cases around branches: \<open>open_pull_requests.go\<close>, \<open>review_approved_branches.go\<close>,
  \<open>merge_pull_request.go\<close> and the ways to close, with \<open>abandon_branches.go\<close>.

  The daemon. \<open>Scheduler\<close> and \<open>Worker_Tick\<close> (\<open>epic_worker.go\<close>) are the scheduler as a step relation and
  the tick that refines it. \<open>Sandbox_Upkeep\<close> (\<open>reconcile_sandboxes.go\<close>) and \<open>Runtime_Cleanup\<close>
  (\<open>cancel_agent_run.go\<close>, \<open>reset_issue.go\<close>, \<open>purge_finished_work.go\<close>, \<open>forget_project.go\<close>) reclaim what
  rounds leave.

  The host. \<open>Admission\<close> (\<open>colima/capacity.go\<close>) decides which rounds may run; shown is that the machines
  fit the budget in every state it allows. \<open>Container_Host\<close> (\<open>colima/client.go\<close>, \<open>profile.go\<close>, \<open>ledger.go\<close>,
  \<open>container.go\<close>, \<open>image.go\<close>) is the container provider as chains of command lines and of decisions on what
  they print. \<open>Git_Workspaces\<close> (\<open>workspace/code_workspace.go\<close>, \<open>agent_workspace.go\<close>, \<open>auth.go\<close>) keeps the
  clones. \<open>Call_Traces\<close> says what an operation did by the record of calls its ports keep;
  \<open>Container_Ledger\<close> and \<open>Workspace_Safety\<close> use it to show what these adapters never do.
  \<open>Workspace_History\<close> puts \<open>CommitsSince\<close> and the push gate together over a history of commits: what the
  gate keeps and what slips through it. \<open>Transcripts\<close> (\<open>agentlog.go\<close>, \<open>opencode/transcript.go\<close>,
  \<open>invocation.go\<close>, \<open>read_run_output.go\<close>) runs the agent and reads what it wrote; polling a growing
  transcript loses nothing. \<open>Staged_Credentials\<close> (\<open>opencode/auth.go\<close>) stages one key per sandbox and
  \<open>Lima_Retirement\<close> (\<open>colima/legacy.go\<close>) gives back what an earlier runtime left; both work on a map of
  files, and shown is what they leave alone.

  Storage. \<open>Tracker_Store\<close> (\<open>projectstore/store.go\<close>, \<open>repository.go\<close>) keeps the epics and
  \<open>Agent_Registry\<close> (\<open>registry_open.go\<close>, \<open>registry_records.go\<close>) the sandboxes and runs, both as lists of rows
  with the constraints of the schema; a statement may fail for reasons outside the program (\<open>fault\<close>).
  Shown: the tables refine a map of aggregates, what is written reads back, a failing update leaves
  every table alone. \<open>Project_Store\<close> (\<open>store.go\<close>, \<open>repository.go\<close>, \<open>factory.go\<close>) adds the other tables of a
  project and the handles that open them, \<open>Store_Slots\<close> shows that each kind of value reads as it was
  last written, and \<open>Project_Registry\<close> (\<open>registry_projects.go\<close>, \<open>repositories.go\<close>, \<open>add_repository.go\<close>,
  \<open>create_project.go\<close>) is the daemon's list of projects, organisations and repositories with the sync
  against GitHub. \<open>Desk_Commands\<close> holds the commands of the interface that only touch a project's
  store (\<open>create_epic.go\<close>, \<open>create_issue.go\<close>, \<open>store_setup.go\<close> and the like) and \<open>Desk_Safety\<close> shows that they
  keep to their project and which of them are all or nothing. \<open>Path_Joins\<close> is \<open>filepath.Join\<close> of plain
  names, which places stores and clones.

  Interfaces. \<open>status_machine\<close> and \<open>ranked_machine\<close> (\<open>Prelude\<close>) are interpreted by the machines of epics,
  issues, pull requests and runs. \<open>epic_tracker\<close> (\<open>Epic_Desk\<close>) is what a use case may rely on when it
  reads and updates an epic, \<open>abandoning_tracker\<close> (\<open>Branch_Closing\<close>) adds the variable its closure
  assigns; both are interpreted by the tables of \<open>Tracker_Store\<close>. \<open>agent_registry\<close> is the contract of the
  registry, interpreted by its rows; \<open>written_slots\<close> (\<open>Store_Slots\<close>) that of a project's store,
  interpreted by its tables.

  Loops. Recursion is structural or by a measure where the code's loop ends by itself. The searches
  over parents and blockers of \<open>Epic_Validate\<close> and \<open>Waits\<close>, and the walks of \<open>Epic_Tree\<close>, take fuel;
  the length of the list of issues and one more is enough (\<open>Validate_decides_well_formed\<close>,
  \<open>CloseIssue_closes_subtree\<close>). The walks over a tree of files, the poll of a reset, the poll of a starting
  container and the walk along a history may run for ever and are partial functions:
  \<open>tree_walk_returns\<close> and \<open>drain_ends\<close> say when the first two end and \<open>tree_walk_runs_away\<close> when the
  first does not; the last ends because commits are acyclic, which the model leaves to git.

  Parameters. YAML, JSON, SHA-256, Unicode's lower case, the ULID source, the clock, the order
  \<open>sort.Slice\<close> gives equal elements and the order \<open>range\<close> visits a map in are arguments of the
  definitions; so are go-git, the processes \<open>colima\<close> and \<open>docker\<close>, the prompts and the file system, as ports.
  What a theorem needs of a port is a named hypothesis (\<open>records_client\<close>, \<open>records_git\<close>,
  \<open>reads_history\<close>, \<open>healthy\<close> and the like) that the ports of its witness satisfy.

  Not modelled. The HTTP interface and its client (\<open>httpapi\<close>, \<open>netomatic\<close>) are routing and JSON over the
  use cases. \<open>github/client.go\<close> is HTTP, \<open>instancelock\<close> a file lock. The Dockerfile, the init and
  preparation scripts and the seccomp profile of \<open>colima\<close> are texts the model passes on.
  \<open>cmd/donsy\<close> wires the parts. The migrations of the SQLite schemas (\<open>migrateSettingsSchema\<close>,
  \<open>migrateProjectSchema\<close>) rebuild tables of earlier versions and are left out.
\<close>

end
